(* ===== verification/Rivr_Metrics.thy ===== *)
theory Rivr_Metrics
  imports Rivr_Prelude
begin

text \<open>
  The global diagnostics block \<open>g_rivr_metrics\<close> (rivr_metrics.h). Every field the modelled
  code touches is a \<open>uint32_t\<close> counter or high-water mark, so the struct is a total function
  from field names to 32-bit words; a handler that increments a field takes the block and
  returns it updated. Fields no modelled operation writes are left out.
\<close>

datatype (plugins only: code) rivr_metric =
    rx_decode_fail | rx_dedupe_drop | rx_ttl_drop | rx_invalid_type | rx_invalid_hop
  | duty_blocked | fabric_drop | fabric_delay
  | pq_dropped | pq_expired | pq_peak | rcache_evict
  | airtime_tokens_low | class_drops_ctrl | class_drops_chat | class_drops_metrics
  | class_drops_bulk | beacon_class_drop
  | pending_queue_expired_total | route_cache_miss_total | route_cache_hit_total
  | retry_attempt_total | retry_fail_total | retry_fallback_total
  | sq_dropped | sq_expired | sq_peak
  | neighbor_route_used_total | neighbor_route_failed_total
  | airtime_route_selected_total | airtime_route_fallback_total
  | bus_rx_total | bus_drop_invalid | bus_drop_dup | bus_forward_lora | bus_forward_ble
  | bus_forward_usb | bus_errors | lora_rx_frames | usb_rx_frames | ble_tx_frames
  | rx_net_id_drop | ack_rx_total | ack_tx_total | retry_success_total
  | route_req_rx_total | route_req_reply_target_total | route_req_reply_cache_total
  | route_req_reply_sent_total | route_req_reply_suppressed_total
  | route_rpl_rx_total | route_rpl_learn_total | pending_queue_drained_total
  | tx_queue_peak | tx_queue_full | flood_fwd_attempted_total | policy_drop | policy_ttl_clamp
  | flood_fwd_score_suppressed_total | relay_delay_ms_total | flood_fwd_cancelled_opport_total
  | relay_forwarded_total | drop_ttl_relay | forward_drop_ttl_total | drop_rate_limited
  | ota_accepted | ota_rejected | ble_errors | ble_rx_frames | loop_detect_drop
  | drop_no_route | fallback_flood_total | beacon_tx_total | beacon_startup_tx_total
  | beacon_suppressed_total | ble_connections
  | radio_busy_stall | radio_tx_fail | radio_hard_resets | radio_rx_crc_fail | radio_rx_timeout | radio_reset_backoff
  | radio_busy_timeout_total | tx_timeout_total | tx_deadline_total
  | radio_reset_busy_stuck | radio_reset_tx_timeout | radio_reset_spurious_irq

type_synonym rivr_metrics_t = "rivr_metric \<Rightarrow> u32"

definition metrics_zero :: rivr_metrics_t where
  "metrics_zero = (\<lambda>_. 0)"

text \<open>\<open>g_rivr_metrics.k++\<close> and \<open>g_rivr_metrics.k += n\<close>.\<close>

definition bump :: "rivr_metric \<Rightarrow> rivr_metrics_t \<Rightarrow> rivr_metrics_t" where
  "bump k m = m(k := m k + 1)"

definition bump_by :: "rivr_metric \<Rightarrow> u32 \<Rightarrow> rivr_metrics_t \<Rightarrow> rivr_metrics_t" where
  "bump_by k n m = m(k := m k + n)"

text \<open>\<open>if (v > g_rivr_metrics.k) g_rivr_metrics.k = v\<close>.\<close>

definition raise_peak :: "rivr_metric \<Rightarrow> u32 \<Rightarrow> rivr_metrics_t \<Rightarrow> rivr_metrics_t" where
  "raise_peak k v m = (if m k < v then m(k := v) else m)"

lemma bump_same [simp]: "bump k m k = m k + 1"
  by (simp add: bump_def)

lemma bump_other [simp]: "k \<noteq> j \<Longrightarrow> bump k m j = m j"
  by (simp add: bump_def)

lemma bump_by_other [simp]: "k \<noteq> j \<Longrightarrow> bump_by k n m j = m j"
  by (simp add: bump_by_def)

lemma raise_peak_ge: "v \<le> raise_peak k v m k \<and> m k \<le> raise_peak k v m k"
  by (auto simp: raise_peak_def)

end
