(* ===== verification/Rivr_Protocol.thy ===== *)
theory Rivr_Protocol
  imports Rivr_Metrics
begin

text \<open>
  The on-air packet format (protocol.h, protocol.c): packet types and flags, the in-memory
  header struct, CRC-16/CCITT, \<open>protocol_encode\<close> and \<open>protocol_decode\<close> with its two helpers.

  A buffer \<open>const uint8_t *buf\<close> is a byte list and its length parameter is kept apart, as in
  C; the output buffer of \<open>protocol_encode\<close> is an argument and comes back written. The payload
  pointer that \<open>protocol_decode\<close> hands out is the slice of \<open>buf\<close> it points to.
\<close>

section \<open>Constants and the header struct\<close>

abbreviation "RIVR_MAGIC \<equiv> (0x5256 :: u16)"
abbreviation "RIVR_PROTO_VER \<equiv> (1 :: u8)"
abbreviation "RIVR_PROTO_MIN \<equiv> (1 :: u8)"
abbreviation "RIVR_PROTO_MAX \<equiv> RIVR_PROTO_VER"

abbreviation "PKT_CHAT \<equiv> (1 :: u8)"
abbreviation "PKT_BEACON \<equiv> (2 :: u8)"
abbreviation "PKT_ROUTE_REQ \<equiv> (3 :: u8)"
abbreviation "PKT_ROUTE_RPL \<equiv> (4 :: u8)"
abbreviation "PKT_ACK \<equiv> (5 :: u8)"
abbreviation "PKT_DATA \<equiv> (6 :: u8)"
abbreviation "PKT_PROG_PUSH \<equiv> (7 :: u8)"
abbreviation "PKT_TELEMETRY \<equiv> (8 :: u8)"
abbreviation "PKT_MAILBOX \<equiv> (9 :: u8)"
abbreviation "PKT_ALERT \<equiv> (10 :: u8)"
abbreviation "PKT_METRICS \<equiv> (11 :: u8)"

abbreviation "RIVR_PKT_HDR_LEN \<equiv> (23 :: u8)"
abbreviation "RIVR_PKT_CRC_LEN \<equiv> (2 :: u8)"
abbreviation "RIVR_PKT_MAX_PAYLOAD \<equiv> (230 :: u8)"
abbreviation "RIVR_PKT_MIN_FRAME \<equiv> (25 :: u8)"
abbreviation "RIVR_PKT_DEFAULT_TTL \<equiv> (15 :: u8)"
abbreviation "RIVR_FALLBACK_TTL \<equiv> (3 :: u8)"

abbreviation "PKT_FLAG_ACK_REQ \<equiv> (0x01 :: u8)"
abbreviation "PKT_FLAG_RELAY \<equiv> (0x02 :: u8)"
abbreviation "PKT_FLAG_FALLBACK \<equiv> (0x04 :: u8)"
abbreviation "PKT_FLAG_CHANNEL \<equiv> (0x08 :: u8)"
abbreviation "PKT_FLAG_HAS_POS \<equiv> (0x10 :: u8)"

record rivr_pkt_hdr_t =
  h_magic :: u16
  h_version :: u8
  h_pkt_type :: u8
  h_flags :: u8
  h_ttl :: u8
  h_hop :: u8
  h_net_id :: u16
  h_src_id :: u32
  h_dst_id :: u32
  h_seq :: u16
  h_pkt_id :: u16
  h_payload_len :: u8
  h_loop_guard :: u8

section \<open>CRC-16/CCITT\<close>

definition s_crc16_table :: "u16 list" where
  "s_crc16_table = [
     0x0000, 0x1021, 0x2042, 0x3063, 0x4084, 0x50a5, 0x60c6, 0x70e7,
     0x8108, 0x9129, 0xa14a, 0xb16b, 0xc18c, 0xd1ad, 0xe1ce, 0xf1ef,
     0x1231, 0x0210, 0x3273, 0x2252, 0x52b5, 0x4294, 0x72f7, 0x62d6,
     0x9339, 0x8318, 0xb37b, 0xa35a, 0xd3bd, 0xc39c, 0xf3ff, 0xe3de,
     0x2462, 0x3443, 0x0420, 0x1401, 0x64e6, 0x74c7, 0x44a4, 0x5485,
     0xa56a, 0xb54b, 0x8528, 0x9509, 0xe5ee, 0xf5cf, 0xc5ac, 0xd58d,
     0x3653, 0x2672, 0x1611, 0x0630, 0x76d7, 0x66f6, 0x5695, 0x46b4,
     0xb75b, 0xa77a, 0x9719, 0x8738, 0xf7df, 0xe7fe, 0xd79d, 0xc7bc,
     0x48c4, 0x58e5, 0x6886, 0x78a7, 0x0840, 0x1861, 0x2802, 0x3823,
     0xc9cc, 0xd9ed, 0xe98e, 0xf9af, 0x8948, 0x9969, 0xa90a, 0xb92b,
     0x5af5, 0x4ad4, 0x7ab7, 0x6a96, 0x1a71, 0x0a50, 0x3a33, 0x2a12,
     0xdbfd, 0xcbdc, 0xfbbf, 0xeb9e, 0x9b79, 0x8b58, 0xbb3b, 0xab1a,
     0x6ca6, 0x7c87, 0x4ce4, 0x5cc5, 0x2c22, 0x3c03, 0x0c60, 0x1c41,
     0xedae, 0xfd8f, 0xcdec, 0xddcd, 0xad2a, 0xbd0b, 0x8d68, 0x9d49,
     0x7e97, 0x6eb6, 0x5ed5, 0x4ef4, 0x3e13, 0x2e32, 0x1e51, 0x0e70,
     0xff9f, 0xefbe, 0xdfdd, 0xcffc, 0xbf1b, 0xaf3a, 0x9f59, 0x8f78,
     0x9188, 0x81a9, 0xb1ca, 0xa1eb, 0xd10c, 0xc12d, 0xf14e, 0xe16f,
     0x1080, 0x00a1, 0x30c2, 0x20e3, 0x5004, 0x4025, 0x7046, 0x6067,
     0x83b9, 0x9398, 0xa3fb, 0xb3da, 0xc33d, 0xd31c, 0xe37f, 0xf35e,
     0x02b1, 0x1290, 0x22f3, 0x32d2, 0x4235, 0x5214, 0x6277, 0x7256,
     0xb5ea, 0xa5cb, 0x95a8, 0x8589, 0xf56e, 0xe54f, 0xd52c, 0xc50d,
     0x34e2, 0x24c3, 0x14a0, 0x0481, 0x7466, 0x6447, 0x5424, 0x4405,
     0xa7db, 0xb7fa, 0x8799, 0x97b8, 0xe75f, 0xf77e, 0xc71d, 0xd73c,
     0x26d3, 0x36f2, 0x0691, 0x16b0, 0x6657, 0x7676, 0x4615, 0x5634,
     0xd94c, 0xc96d, 0xf90e, 0xe92f, 0x99c8, 0x89e9, 0xb98a, 0xa9ab,
     0x5844, 0x4865, 0x7806, 0x6827, 0x18c0, 0x08e1, 0x3882, 0x28a3,
     0xcb7d, 0xdb5c, 0xeb3f, 0xfb1e, 0x8bf9, 0x9bd8, 0xabbb, 0xbb9a,
     0x4a75, 0x5a54, 0x6a37, 0x7a16, 0x0af1, 0x1ad0, 0x2ab3, 0x3a92,
     0xfd2e, 0xed0f, 0xdd6c, 0xcd4d, 0xbdaa, 0xad8b, 0x9de8, 0x8dc9,
     0x7c26, 0x6c07, 0x5c64, 0x4c45, 0x3ca2, 0x2c83, 0x1ce0, 0x0cc1,
     0xef1f, 0xff3e, 0xcf5d, 0xdf7c, 0xaf9b, 0xbfba, 0x8fd9, 0x9ff8,
     0x6e17, 0x7e36, 0x4e55, 0x5e74, 0x2e93, 0x3eb2, 0x0ed1, 0x1ef0]"

definition crc16_step :: "u16 \<Rightarrow> u8 \<Rightarrow> u16" where
  "crc16_step crc b =
     (let idx = ucast (drop_bit 8 crc XOR ucast b) :: u8
      in push_bit 8 crc XOR s_crc16_table ! unat idx)"

definition protocol_crc16 :: "u8 list \<Rightarrow> u8 \<Rightarrow> u16" where
  "protocol_crc16 buf len = foldl crc16_step 0xFFFF (take (unat len) buf)"

section \<open>Encoding\<close>

definition header_bytes :: "rivr_pkt_hdr_t \<Rightarrow> u8 \<Rightarrow> u8 list" where
  "header_bytes hdr plen =
     put_u16 RIVR_MAGIC @
     [RIVR_PROTO_VER, h_pkt_type hdr, h_flags hdr, h_ttl hdr, h_hop hdr] @
     put_u16 (h_net_id hdr) @ put_u32 (h_src_id hdr) @ put_u32 (h_dst_id hdr) @
     put_u16 (h_seq hdr) @ put_u16 (h_pkt_id hdr) @ [plen, h_loop_guard hdr]"

text \<open>
  The result is the C return value and the output buffer. With \<open>payload = None\<close> (a \<open>NULL\<close>
  payload) the payload region keeps the bytes the buffer had, as the skipped \<open>memcpy\<close> does.
\<close>

definition protocol_encode ::
  "rivr_pkt_hdr_t \<Rightarrow> u8 list option \<Rightarrow> u8 \<Rightarrow> u8 list \<Rightarrow> u8 \<Rightarrow> int \<times> u8 list" where
  "protocol_encode hdr payload plen out_buf out_cap =
     (let total = RIVR_PKT_HDR_LEN + plen + RIVR_PKT_CRC_LEN in
      if total > out_cap then (-1, out_buf)
      else if plen > RIVR_PKT_MAX_PAYLOAD then (-1, out_buf)
      else
        let pl = (case payload of
                    Some p \<Rightarrow> take (unat plen) p
                  | None \<Rightarrow> take (unat plen) (drop 23 out_buf));
            data = header_bytes hdr plen @ pl;
            crc = protocol_crc16 data (RIVR_PKT_HDR_LEN + plen)
        in (int (unat total), data @ put_u16 crc @ drop (unat total) out_buf))"

section \<open>Decoding\<close>

definition validate_wire_frame ::
  "rivr_metrics_t \<Rightarrow> u8 list \<Rightarrow> u8 \<Rightarrow> rivr_metrics_t \<times> u8 option" where
  "validate_wire_frame m buf len =
     (if len < RIVR_PKT_MIN_FRAME then (m, None)
      else if get_u16 (buf ! 0) (buf ! 1) \<noteq> RIVR_MAGIC then (m, None)
      else if buf ! 2 < RIVR_PROTO_MIN \<or> buf ! 2 > RIVR_PROTO_MAX then (m, None)
      else if buf ! 3 = 0 \<or> buf ! 3 > PKT_METRICS then (bump rx_invalid_type m, None)
      else
        let payload_len = buf ! 21 in
        if payload_len > RIVR_PKT_MAX_PAYLOAD then (m, None)
        else
          let expected_len = RIVR_PKT_HDR_LEN + payload_len + RIVR_PKT_CRC_LEN in
          if len < expected_len then (m, None)
          else
            let data_len = RIVR_PKT_HDR_LEN + payload_len;
                crc_calc = protocol_crc16 buf data_len;
                crc_wire = get_u16 (buf ! unat data_len) (buf ! (unat data_len + 1))
            in if crc_calc \<noteq> crc_wire then (m, None) else (m, Some payload_len))"

definition unpack_header_from_wire :: "u8 list \<Rightarrow> u8 \<Rightarrow> rivr_pkt_hdr_t" where
  "unpack_header_from_wire buf payload_len =
     \<lparr>h_magic = get_u16 (buf ! 0) (buf ! 1),
      h_version = buf ! 2,
      h_pkt_type = buf ! 3,
      h_flags = buf ! 4,
      h_ttl = buf ! 5,
      h_hop = buf ! 6,
      h_net_id = get_u16 (buf ! 7) (buf ! 8),
      h_src_id = get_u32 (buf ! 9) (buf ! 10) (buf ! 11) (buf ! 12),
      h_dst_id = get_u32 (buf ! 13) (buf ! 14) (buf ! 15) (buf ! 16),
      h_seq = get_u16 (buf ! 17) (buf ! 18),
      h_pkt_id = get_u16 (buf ! 19) (buf ! 20),
      h_payload_len = payload_len,
      h_loop_guard = buf ! 22\<rparr>"

definition protocol_decode ::
  "rivr_metrics_t \<Rightarrow> u8 list \<Rightarrow> u8 \<Rightarrow>
   rivr_metrics_t \<times> (rivr_pkt_hdr_t \<times> u8 list option) option" where
  "protocol_decode m buf len =
     (case validate_wire_frame m buf len of
        (m', None) \<Rightarrow> (m', None)
      | (m', Some payload_len) \<Rightarrow>
          (m', Some (unpack_header_from_wire buf payload_len,
                     if payload_len > 0 then Some (take (unat payload_len) (drop 23 buf))
                     else None)))"

section \<open>The table-driven CRC is the bitwise one\<close>

text \<open>One step of the shift register for the polynomial 0x1021, most significant bit first.\<close>

definition crc16_bit :: "u16 \<Rightarrow> u16" where
  "crc16_bit x = (if bit x 15 then push_bit 1 x XOR 0x1021 else push_bit 1 x)"

definition crc16_ref :: "u8 list \<Rightarrow> u16" where
  "crc16_ref bs = foldl (\<lambda>crc b. (crc16_bit ^^ 8) (crc XOR push_bit 8 (ucast b))) 0xFFFF bs"

lemma crc16_bit_xor: "crc16_bit (x XOR y) = crc16_bit x XOR crc16_bit y"
proof -
  have p: "push_bit 1 (x XOR y) = push_bit 1 x XOR push_bit 1 y" by (rule push_bit_xor)
  show ?thesis
    unfolding crc16_bit_def p bit_xor_iff
    by (cases "bit x 15"; cases "bit y 15")
       (simp_all add: xor.assoc xor.commute xor.left_commute
          del: push_bit_Suc push_bit_of_1 push_bit_numeral)
qed

lemma crc16_bits_xor: "(crc16_bit ^^ n) (x XOR y) = (crc16_bit ^^ n) x XOR (crc16_bit ^^ n) y"
  by (induction n) (simp_all add: crc16_bit_xor)

lemma crc16_bits_low: "k \<le> 8 \<Longrightarrow> (crc16_bit ^^ k) (ucast (b :: u8)) = push_bit k (ucast b)"
proof (induction k)
  case (Suc k)
  then have "(crc16_bit ^^ k) (ucast b) = push_bit k (ucast b)" by simp
  moreover have "crc16_bit (push_bit k (ucast b)) = push_bit (Suc k) (ucast b)"
    using Suc.prems unfolding crc16_bit_def
    by (auto simp: bit_simps push_bit_push_bit dest: bit_imp_le_length simp del: push_bit_Suc)
  ultimately show ?case by (simp del: push_bit_Suc)
qed simp

lemma crc16_bits8:
  "(crc16_bit ^^ 8) x =
   crc16_bit (crc16_bit (crc16_bit (crc16_bit (crc16_bit (crc16_bit (crc16_bit (crc16_bit x)))))))"
  by (simp add: eval_nat_numeral)

lemma crc16_table_map:
  "map (crc16_bit ^^ 8) (map (\<lambda>n. push_bit 8 (of_nat n)) [0..<256]) = s_crc16_table"
  by (simp add: upt_rec crc16_bits8 crc16_bit_def s_crc16_table_def)

lemma crc16_table_nth:
  "s_crc16_table ! unat i = (crc16_bit ^^ 8) (push_bit 8 (ucast (i :: u8)))"
proof -
  have "s_crc16_table ! unat i =
        map (crc16_bit ^^ 8) (map (\<lambda>n. push_bit 8 (of_nat n)) [0..<256]) ! unat i"
    by (simp only: crc16_table_map)
  also have "\<dots> = (crc16_bit ^^ 8) (push_bit 8 (of_nat (unat i)))"
    using unat_u8_less [of i] by simp
  finally show ?thesis by simp
qed

lemma crc16_step_bits: "crc16_step crc b = (crc16_bit ^^ 8) (crc XOR push_bit 8 (ucast b))"
proof -
  let ?i = "ucast (drop_bit 8 crc XOR ucast b) :: u8"
  have split: "crc XOR push_bit 8 (ucast b) = push_bit 8 (ucast ?i) XOR ucast (ucast crc :: u8)"
    by (rule bit_word_eqI) (auto simp: bit_simps dest: bit_imp_le_length)
  have "push_bit 8 crc = push_bit 8 (ucast (ucast crc :: u8))"
    by (rule bit_word_eqI) (auto simp: bit_simps)
  then show ?thesis
    by (simp add: crc16_step_def Let_def split crc16_bits_xor crc16_table_nth crc16_bits_low
        xor.commute del: funpow.simps)
qed

lemma crc16_bit_eq_0: "crc16_bit x = 0 \<Longrightarrow> x = 0"
proof -
  assume z: "crc16_bit x = 0"
  have "\<not> bit x 15"
  proof
    assume "bit x 15"
    with z have "push_bit 1 x XOR 0x1021 = 0" by (simp add: crc16_bit_def del: push_bit_numeral)
    then have "bit (push_bit 1 x XOR (0x1021 :: u16)) 0 = bit (0 :: u16) 0" by (simp only:)
    then show False by (simp only: bit_simps) simp
  qed
  with z have shifted: "push_bit 1 x = 0" by (simp add: crc16_bit_def)
  have "bit x n = bit (0 :: u16) n" if n: "n < LENGTH(16)" for n
  proof (cases "n = 15")
    case False
    with n have "bit x n = bit (push_bit 1 x) (Suc n)" by (simp only: bit_simps) simp
    with shifted show ?thesis by simp
  qed (use \<open>\<not> bit x 15\<close> in simp)
  then show "x = 0" by (rule bit_word_eqI)
qed

lemma word_xor_right_cancel: "a XOR k = b XOR k \<longleftrightarrow> a = (b :: 'a::len word)"
proof
  assume "a XOR k = b XOR k"
  then have "(a XOR k) XOR k = (b XOR k) XOR k" by (rule arg_cong)
  then show "a = b" unfolding xor.assoc xor_self_eq xor.right_neutral .
qed (rule arg_cong)

lemma word_xor_left_cancel: "k XOR a = k XOR b \<longleftrightarrow> a = (b :: 'a::len word)"
  unfolding xor.commute [of k] by (rule word_xor_right_cancel)

lemma crc16_bit_inj: "crc16_bit x = crc16_bit y \<Longrightarrow> x = y"
proof -
  assume "crc16_bit x = crc16_bit y"
  then have "crc16_bit (x XOR y) = 0" unfolding crc16_bit_xor by (simp only: xor_self_eq)
  then have "x XOR y = 0" by (rule crc16_bit_eq_0)
  then have "x XOR y = y XOR y" by (simp only: xor_self_eq)
  then show "x = y" unfolding word_xor_right_cancel .
qed

lemma crc16_bits_inj: "(crc16_bit ^^ n) x = (crc16_bit ^^ n) y \<Longrightarrow> x = y"
  by (induction n) (auto dest: crc16_bit_inj)

lemma crc16_step_inj_crc: "crc16_step c b = crc16_step d b \<Longrightarrow> c = d"
  unfolding crc16_step_bits by (drule crc16_bits_inj) (simp only: word_xor_right_cancel)

lemma crc16_step_inj_byte: "crc16_step c a = crc16_step c b \<Longrightarrow> a = b"
proof -
  assume "crc16_step c a = crc16_step c b"
  then have "push_bit 8 (ucast a :: u16) = push_bit 8 (ucast b)"
    unfolding crc16_step_bits by (drule_tac crc16_bits_inj) (simp only: word_xor_left_cancel)
  then have "ucast (drop_bit 8 (push_bit 8 (ucast a :: u16))) = (ucast (drop_bit 8 (push_bit 8 (ucast b :: u16))) :: u8)"
    by simp
  moreover have "ucast (drop_bit 8 (push_bit 8 (ucast x :: u16))) = x" for x :: u8
    by (rule bit_word_eqI) (auto simp: bit_simps)
  ultimately show "a = b" by simp
qed

lemma crc16_foldl_inj: "foldl crc16_step c bs = foldl crc16_step d bs \<Longrightarrow> c = d"
  by (induction bs arbitrary: c d) (auto dest: crc16_step_inj_crc)

lemma crc16_foldl_update:
  "i < length bs \<Longrightarrow> foldl crc16_step c (bs[i := b]) = foldl crc16_step c bs \<Longrightarrow> b = bs ! i"
proof (induction bs arbitrary: c i)
  case (Cons x xs)
  show ?case
  proof (cases i)
    case 0
    with Cons.prems have "crc16_step c b = crc16_step c x" by (auto dest: crc16_foldl_inj)
    with 0 show ?thesis by (auto dest: crc16_step_inj_byte)
  qed (use Cons in auto)
qed simp

section \<open>Well-formed frames\<close>

lemma magic_bytes: "get_u16 0x56 0x52 = RIVR_MAGIC"
  by (simp add: get_u16_def)

lemma length_header_bytes [simp]: "length (header_bytes hdr plen) = 23"
  by (simp add: header_bytes_def put_u16_def put_u32_def)

lemma header_bytes_nth [simp]:
  "header_bytes hdr plen ! 0 = 0x56" "header_bytes hdr plen ! Suc 0 = 0x52"
  "header_bytes hdr plen ! 2 = RIVR_PROTO_VER" "header_bytes hdr plen ! 3 = h_pkt_type hdr"
  "header_bytes hdr plen ! 21 = plen"
  by (simp_all add: header_bytes_def put_u16_def put_u32_def)

lemma header_bytes_eq:
  "header_bytes hdr plen =
   [0x56, 0x52, 1, h_pkt_type hdr, h_flags hdr, h_ttl hdr, h_hop hdr,
    ucast (h_net_id hdr), ucast (drop_bit 8 (h_net_id hdr)),
    ucast (h_src_id hdr), ucast (drop_bit 8 (h_src_id hdr)), ucast (drop_bit 16 (h_src_id hdr)),
    ucast (drop_bit 24 (h_src_id hdr)),
    ucast (h_dst_id hdr), ucast (drop_bit 8 (h_dst_id hdr)), ucast (drop_bit 16 (h_dst_id hdr)),
    ucast (drop_bit 24 (h_dst_id hdr)),
    ucast (h_seq hdr), ucast (drop_bit 8 (h_seq hdr)),
    ucast (h_pkt_id hdr), ucast (drop_bit 8 (h_pkt_id hdr)), plen, h_loop_guard hdr]"
  by (simp add: header_bytes_def put_u16_def put_u32_def ucast_and_ff)

lemma unpack_header_bytes:
  "unpack_header_from_wire (header_bytes hdr plen @ rest) plen =
   hdr\<lparr>h_magic := RIVR_MAGIC, h_version := RIVR_PROTO_VER, h_payload_len := plen\<rparr>"
  by (simp add: unpack_header_from_wire_def header_bytes_eq wire_simps magic_bytes)

lemma unat_data_len: "plen \<le> 230 \<Longrightarrow> unat (23 + plen :: u8) = 23 + unat plen"
  by (simp add: word_le_nat_alt unat_word_ariths)

lemma unat_total_len: "plen \<le> 230 \<Longrightarrow> unat (25 + plen :: u8) = 25 + unat plen"
  by (simp add: word_le_nat_alt unat_word_ariths)

lemma frame_parts:
  assumes len: "25 + unat plen \<le> length buf" and plen: "plen = buf ! 21"
    and ok: "get_u16 (buf ! 0) (buf ! 1) = RIVR_MAGIC" "buf ! 2 = 1"
  shows "header_bytes (unpack_header_from_wire buf plen) plen = take 23 buf"
proof (rule nth_equalityI)
  show "length (header_bytes (unpack_header_from_wire buf plen) plen) = length (take 23 buf)"
    using len by simp
next
  have b0: "buf ! 0 = 0x56" and b1: "buf ! 1 = 0x52"
    using ok(1) put_get_u16 [of "buf ! 0" "buf ! 1"] by simp_all
  fix i assume "i < length (header_bytes (unpack_header_from_wire buf plen) plen)"
  then have "i \<in> set [0..<23]" by simp
  then have "i \<in> {0,1,2,3,4,5,6,7,8,9,10,11,12,13,14,15,16,17,18,19,20,21,22}"
    by simp arith
  then show "header_bytes (unpack_header_from_wire buf plen) plen ! i = take 23 buf ! i"
    using b0 b1 ok(2) plen
    by (elim insertE emptyE)
       (simp_all add: header_bytes_eq unpack_header_from_wire_def wire_simps)
qed


text \<open>What a well-formed frame is: the wire format's own definition, free of the order of the checks.\<close>

definition wire_ok :: "u8 list \<Rightarrow> u8 \<Rightarrow> bool" where
  "wire_ok buf len \<longleftrightarrow>
     25 \<le> unat len \<and> get_u16 (buf ! 0) (buf ! 1) = RIVR_MAGIC \<and> buf ! 2 = RIVR_PROTO_VER \<and>
     1 \<le> buf ! 3 \<and> buf ! 3 \<le> PKT_METRICS \<and> buf ! 21 \<le> RIVR_PKT_MAX_PAYLOAD \<and>
     25 + unat (buf ! 21) \<le> unat len \<and>
     foldl crc16_step 0xFFFF (take (23 + unat (buf ! 21)) buf) =
       get_u16 (buf ! (23 + unat (buf ! 21))) (buf ! (24 + unat (buf ! 21)))"

lemma version_range: "(v :: u8) \<noteq> 0 \<and> \<not> 1 < v \<longleftrightarrow> v = 1"
proof -
  have "v = 1 \<longleftrightarrow> \<not> v < 1 \<and> \<not> 1 < v" by (metis linorder_neq_iff)
  then show ?thesis by simp
qed

lemma of_nat_unat_eq: "unat w = n \<Longrightarrow> of_nat n = (w :: 'a::len word)"
  by auto

lemma word_ge_1: "(1 \<le> (x :: 'a::len word)) = (x \<noteq> 0)"
  by (simp add: word_le_nat_alt unat_gt_0 Suc_le_eq)

lemma validate_wire_frame_ok:
  "snd (validate_wire_frame m buf len) = (if wire_ok buf len then Some (buf ! 21) else None)"
proof (cases "buf ! 21 \<le> 230")
  case True
  have "(len < 25 + buf ! 21) = (unat len < 25 + unat (buf ! 21))"
    using True by (simp add: word_less_nat_alt unat_total_len)
  moreover have "(len < 25) = (unat len < 25)" by (simp add: word_less_nat_alt)
  ultimately show ?thesis
    using True version_range [of "buf ! 2"]
    by (auto simp: validate_wire_frame_def wire_ok_def Let_def protocol_crc16_def unat_data_len
        word_ge_1 not_less add.commute)
next
  case False
  then show ?thesis by (auto simp: validate_wire_frame_def wire_ok_def Let_def)
qed

lemma validate_wire_frame_metrics:
  "snd (validate_wire_frame m buf len) = Some n \<Longrightarrow> fst (validate_wire_frame m buf len) = m"
  by (auto simp: validate_wire_frame_def Let_def split: if_splits)

lemma protocol_decode_ok:
  "snd (protocol_decode m buf len) =
   (if wire_ok buf len
    then Some (unpack_header_from_wire buf (buf ! 21),
               if buf ! 21 > 0 then Some (take (unat (buf ! 21)) (drop 23 buf)) else None)
    else None)"
  using validate_wire_frame_ok [of m buf len]
  by (cases "validate_wire_frame m buf len") (auto simp: protocol_decode_def split: option.splits)

lemma protocol_decode_metrics:
  "wire_ok buf len \<Longrightarrow> fst (protocol_decode m buf len) = m"
  using validate_wire_frame_ok [of m buf len] validate_wire_frame_metrics [of m buf len]
  by (cases "validate_wire_frame m buf len") (auto simp: protocol_decode_def split: option.splits)

definition frame_of :: "rivr_pkt_hdr_t \<Rightarrow> u8 list \<Rightarrow> u8 list" where
  "frame_of hdr p =
     (let data = header_bytes hdr (of_nat (length p)) @ p
      in data @ put_u16 (foldl crc16_step 0xFFFF data))"

lemma length_frame_of [simp]: "length (frame_of hdr p) = 25 + length p"
  by (simp add: frame_of_def Let_def)

lemma protocol_encode_frame:
  assumes "length p \<le> 230" "unat plen = length p" "25 + length p \<le> unat cap"
  shows "protocol_encode hdr (Some p) plen out cap =
         (25 + int (length p), frame_of hdr p @ drop (25 + length p) out)"
proof -
  have le: "plen \<le> 230" using assms by (simp add: word_le_nat_alt)
  have total: "unat (25 + plen) = 25 + length p" using unat_total_len [OF le] assms by simp
  have data: "unat (23 + plen) = 23 + length p" using unat_data_len [OF le] assms by simp
  have plen: "plen = of_nat (length p)" using assms(2) by (rule of_nat_unat_eq [symmetric])
  have "\<not> cap < 25 + plen" using total assms(3) by (simp add: word_less_nat_alt)
  then show ?thesis
    using le total data assms(2)
    by (simp add: protocol_encode_def protocol_crc16_def frame_of_def Let_def add.commute
        flip: plen)
qed

lemma protocol_encode_no_payload:
  "protocol_encode hdr None 0 out cap = protocol_encode hdr (Some []) 0 out cap"
  by (simp add: protocol_encode_def)

lemma frame_of_wire_ok:
  assumes p: "length p \<le> 230" and t: "1 \<le> h_pkt_type hdr" "h_pkt_type hdr \<le> 11"
    and len: "25 + length p \<le> unat len"
  shows "wire_ok (frame_of hdr p @ rest) len"
proof -
  let ?n = "of_nat (length p) :: u8"
  have n: "unat ?n = length p" using p by (simp add: unat_of_nat)
  have "?n \<le> 230" using n p by (simp add: word_le_nat_alt)
  then show ?thesis
    using t len n
    by (simp add: wire_ok_def frame_of_def Let_def nth_append magic_bytes put_u16_def wire_simps)
qed

lemma frame_of_decodes:
  assumes "length p \<le> 230" "1 \<le> h_pkt_type hdr" "h_pkt_type hdr \<le> 11" "25 + length p \<le> unat len"
  shows "protocol_decode m (frame_of hdr p @ rest) len =
    (m, Some (hdr\<lparr>h_magic := RIVR_MAGIC, h_version := RIVR_PROTO_VER, h_payload_len := of_nat (length p)\<rparr>,
              if p = [] then None else Some p))"
proof -
  let ?frame = "frame_of hdr p @ rest" and ?n = "of_nat (length p) :: u8"
  have n: "unat ?n = length p" using assms(1) by (simp add: unat_of_nat)
  have ok: "wire_ok ?frame len" using assms by (rule frame_of_wire_ok)
  have "?frame ! 21 = ?n" by (simp add: frame_of_def Let_def nth_append)
  moreover have "unpack_header_from_wire ?frame ?n =
      hdr\<lparr>h_magic := RIVR_MAGIC, h_version := RIVR_PROTO_VER, h_payload_len := ?n\<rparr>"
    by (simp add: frame_of_def Let_def unpack_header_bytes)
  moreover have "take (unat ?n) (drop 23 ?frame) = p" by (simp only: n) (simp add: frame_of_def Let_def)
  moreover have "0 < ?n \<longleftrightarrow> p \<noteq> []" using n by (simp add: word_less_nat_alt)
  ultimately show ?thesis
    using protocol_decode_ok [of m ?frame len] protocol_decode_metrics [OF ok, of m] ok
    by (intro prod_eqI) simp_all
qed

section \<open>Properties\<close>

text \<open>The 256-entry lookup table of \<open>protocol_crc16\<close> computes CRC-16/CCITT: over any buffer,
  one table step per byte gives what eight single-bit shifts with the polynomial 0x1021, started
  from 0xFFFF and fed most significant bit first, give.\<close>

theorem crc16_table_is_polynomial:
  "protocol_crc16 buf len = crc16_ref (take (unat len) buf)"
  by (simp add: protocol_crc16_def crc16_ref_def crc16_step_bits [abs_def] del: funpow.simps)
text \<open>C3: Encoding and then decoding gives the packet back. For a payload of at most 230 bytes
  and a defined packet type, \<open>protocol_encode\<close> returns the frame length and writes nothing past it,
  and \<open>protocol_decode\<close> accepts the frame and returns the header as it was, with magic, version and
  payload length set, and the same payload.\<close>

theorem encode_decode_roundtrip:
  assumes "length p \<le> 230" "unat plen = length p" "25 + length p \<le> unat cap"
    and "1 \<le> h_pkt_type hdr" "h_pkt_type hdr \<le> PKT_METRICS"
  shows "\<exists>frame. protocol_encode hdr (Some p) plen out cap = (25 + int (length p), frame) \<and>
           protocol_decode m frame (25 + plen) =
             (m, Some (hdr\<lparr>h_magic := RIVR_MAGIC, h_version := RIVR_PROTO_VER, h_payload_len := plen\<rparr>,
                       if p = [] then None else Some p)) \<and>
           drop (25 + length p) frame = drop (25 + length p) out"
  using assms protocol_encode_frame [OF assms(1-3), of hdr out] unat_total_len [of plen]
    frame_of_decodes [OF assms(1,4,5), of "25 + plen" m "drop (25 + length p) out"] of_nat_unat_eq [OF assms(2)]
  by (simp add: word_le_nat_alt)

definition demo_hdr :: rivr_pkt_hdr_t where
  "demo_hdr = \<lparr>h_magic = 0, h_version = 0, h_pkt_type = PKT_CHAT, h_flags = 1, h_ttl = 15, h_hop = 0,
     h_net_id = 0x1234, h_src_id = 0xCAFE0001, h_dst_id = 0, h_seq = 7, h_pkt_id = 513,
     h_payload_len = 0, h_loop_guard = 0\<rparr>"

lemma encode_decode_roundtrip_witness:
  "\<exists>frame. protocol_encode demo_hdr (Some [0x68, 0x69]) 2 (replicate 255 0) 255 = (27, frame) \<and>
     protocol_decode metrics_zero frame 27 =
       (metrics_zero, Some (demo_hdr\<lparr>h_magic := RIVR_MAGIC, h_version := RIVR_PROTO_VER,
          h_payload_len := 2\<rparr>, Some [0x68, 0x69])) \<and>
     drop 27 frame = replicate 228 0"
  using encode_decode_roundtrip [of "[0x68, 0x69]" 2 255 demo_hdr "replicate 255 0" metrics_zero]
  by (simp add: demo_hdr_def)

lemma protocol_decode_SomeD:
  "snd (protocol_decode m buf len) = Some r \<Longrightarrow> wire_ok buf len"
  by (simp add: protocol_decode_ok split: if_splits)

lemma frame_of_unpack:
  assumes ok: "wire_ok buf len" and len: "unat len \<le> length buf"
  shows "frame_of (unpack_header_from_wire buf (buf ! 21)) (take (unat (buf ! 21)) (drop 23 buf)) =
         take (25 + unat (buf ! 21)) buf"
proof -
  let ?n = "unat (buf ! 21)"
  have n: "25 + ?n \<le> length buf" using ok len by (simp add: wire_ok_def)
  have hd: "header_bytes (unpack_header_from_wire buf (buf ! 21)) (buf ! 21) = take 23 buf"
    using ok n by (intro frame_parts) (simp_all add: wire_ok_def)
  have data: "take 23 buf @ take ?n (drop 23 buf) = take (23 + ?n) buf"
    by (simp add: take_add)
  have crc: "put_u16 (foldl crc16_step 0xFFFF (take (23 + ?n) buf)) = [buf ! (23 + ?n), buf ! (24 + ?n)]"
    using ok by (simp add: wire_ok_def put_u16_def wire_simps)
  have "take (25 + ?n) buf = take (23 + ?n) buf @ take 2 (drop (23 + ?n) buf)"
    using take_add [of "23 + ?n" 2 buf] by (simp add: add.commute)
  also have "take 2 (drop (23 + ?n) buf) = [buf ! (23 + ?n), buf ! (24 + ?n)]"
    using n by (intro nth_equalityI) (auto simp: less_Suc_eq numeral_2_eq_2)
  finally show ?thesis
    using n by (simp add: frame_of_def Let_def hd data crc)
qed

text \<open>The wire format is canonical. Whatever frame \<open>protocol_decode\<close> accepts, encoding the header
  and payload it returned reproduces exactly the bytes of that frame, CRC included.\<close>

theorem decode_encode_canonical:
  assumes "protocol_decode m buf len = (m', Some (hdr, pl))" "unat len \<le> length buf"
    and "len \<le> cap"
  shows "protocol_encode hdr pl (h_payload_len hdr) out cap =
         (25 + int (unat (h_payload_len hdr)),
          take (25 + unat (h_payload_len hdr)) buf @ drop (25 + unat (h_payload_len hdr)) out)"
proof -
  let ?n = "unat (buf ! 21)"
  have ok: "wire_ok buf len" using assms(1) protocol_decode_SomeD [of m buf len] by simp
  have hdr: "hdr = unpack_header_from_wire buf (buf ! 21)"
    and pl: "pl = (if buf ! 21 > 0 then Some (take ?n (drop 23 buf)) else None)"
    using protocol_decode_ok [of m buf len] assms(1) ok by auto
  have plen: "h_payload_len hdr = buf ! 21" by (simp add: hdr unpack_header_from_wire_def)
  have n: "?n \<le> 230" "25 + ?n \<le> unat len" "25 + ?n \<le> length buf" "25 + ?n \<le> unat cap"
    using ok assms(2,3) by (simp_all add: wire_ok_def word_le_nat_alt)
  have "protocol_encode hdr pl (buf ! 21) out cap =
        protocol_encode hdr (Some (take ?n (drop 23 buf))) (buf ! 21) out cap"
    using pl protocol_encode_no_payload [of hdr out cap] by (cases "buf ! 21 = 0") (auto simp: word_gt_0)
  also have "\<dots> = (25 + int ?n, frame_of hdr (take ?n (drop 23 buf)) @ drop (25 + ?n) out)"
    using n protocol_encode_frame [of "take ?n (drop 23 buf)" "buf ! 21" cap hdr out] by simp
  finally show ?thesis
    using frame_of_unpack [OF ok assms(2)] by (simp add: plen flip: hdr)
qed

lemma demo_frame_decodes:
  "protocol_decode metrics_zero (frame_of demo_hdr [0x68, 0x69]) 27 =
     (metrics_zero, Some (demo_hdr\<lparr>h_magic := RIVR_MAGIC, h_version := RIVR_PROTO_VER,
          h_payload_len := 2\<rparr>, Some [0x68, 0x69]))"
  using frame_of_decodes [of "[0x68, 0x69]" demo_hdr 27 metrics_zero "[]"] by (simp add: demo_hdr_def)

lemma decode_encode_canonical_witness:
  "protocol_encode (demo_hdr\<lparr>h_magic := RIVR_MAGIC, h_version := RIVR_PROTO_VER,
      h_payload_len := 2\<rparr>) (Some [0x68, 0x69]) 2 (replicate 30 9) 30 =
    (27, frame_of demo_hdr [0x68, 0x69] @ [9, 9, 9])"
  using decode_encode_canonical [OF demo_frame_decodes, of 30 "replicate 30 9"]
  by (simp add: numeral_3_eq_3)

text \<open>C4: Corrupting one byte of an accepted frame makes the receiver reject it, wherever the byte
  lies in the header, payload or CRC; only the payload length field is left out, since it moves
  the place where the CRC is read.\<close>

theorem single_byte_corruption_rejected:
  assumes acc: "snd (protocol_decode m buf len) = Some r" and len: "unat len \<le> length buf"
    and i: "i < 25 + unat (buf ! 21)" "i \<noteq> 21" and b: "b \<noteq> buf ! i"
  shows "snd (protocol_decode m (buf[i := b]) len) = None"
proof -
  let ?n = "unat (buf ! 21)" and ?buf' = "buf[i := b]"
  have ok: "wire_ok buf len" using acc by (rule protocol_decode_SomeD)
  have n: "25 + ?n \<le> length buf" using ok len by (simp add: wire_ok_def)
  have n': "?buf' ! 21 = buf ! 21" using i(2) by simp
  have "\<not> wire_ok ?buf' len"
  proof
    assume ok': "wire_ok ?buf' len"
    let ?crc = "\<lambda>x. foldl crc16_step 0xFFFF (take (23 + ?n) x)"
    let ?wire = "\<lambda>x. get_u16 (x ! (23 + ?n)) (x ! (24 + ?n))"
    have eq: "?crc buf = ?wire buf" "?crc ?buf' = ?wire ?buf'"
      using ok ok' n' by (simp_all add: wire_ok_def)
    show False
    proof (cases "i < 23 + ?n")
      case True
      then have "?wire ?buf' = ?wire buf" by simp
      then have "foldl crc16_step 0xFFFF ((take (23 + ?n) buf)[i := b]) =
                 foldl crc16_step 0xFFFF (take (23 + ?n) buf)"
        using eq by (simp add: take_update_swap)
      from crc16_foldl_update [OF _ this] b True n show False by simp
    next
      case False
      then have "?crc ?buf' = ?crc buf" by (simp add: take_update_cancel)
      then have "?wire ?buf' = ?wire buf" using eq by simp
      then have "?buf' ! (23 + ?n) = buf ! (23 + ?n)" "?buf' ! (24 + ?n) = buf ! (24 + ?n)"
        by (metis put_get_u16)+
      moreover have "i = 23 + ?n \<or> i = 24 + ?n" using False i(1) by linarith
      ultimately show False using b n by auto
    qed
  qed
  then show ?thesis by (simp add: protocol_decode_ok)
qed

lemma demo_frame_nth:
  "frame_of demo_hdr [0x68, 0x69] ! 21 = 2" "frame_of demo_hdr [0x68, 0x69] ! 5 = 15"
  by (simp_all add: frame_of_def Let_def nth_append header_bytes_eq demo_hdr_def)

lemma single_byte_corruption_rejected_witness:
  "snd (protocol_decode metrics_zero ((frame_of demo_hdr [0x68, 0x69])[5 := 14]) 27) = None"
  using single_byte_corruption_rejected
    [of metrics_zero "frame_of demo_hdr [0x68, 0x69]" 27 _ 5 14, OF _ _ _ _ _]
  by (simp add: demo_frame_decodes demo_frame_nth)
end
