(* ===== verification/Rivr_Interfaces.thy ===== *)
theory Rivr_Interfaces
  imports Rivr_Prelude
begin

text \<open>
  The interfaces several components share, each a locale: its \<open>fixes\<close> are the operations a
  client calls, its \<open>assumes\<close> the laws the provider promises, and the client's lemmas are proved
  once. Every locale is interpreted on the firmware's own definitions in the theory of the
  component that provides them.
  \<^item> \<open>ring_memory\<close>: a fixed array with a write cursor, as the duplicate caches use it. Providers:
    the routing dedupe cache, the bus duplicate cache, the opportunistic suppression table.
  \<^item> \<open>tx_sink\<close>: a bounded queue that accepts or refuses a request. Provider: the SPSC ring;
    clients: the retry table, the pending queue and the outbox, which push to the radio queue.
  \<^item> \<open>token_bucket\<close>: a bounded balance that time refills and traffic spends. Providers: the
    airtime scheduler's global and per-source buckets, the flood policy's buckets.
  \<^item> \<open>slot_table\<close>: a fixed array of slots with a valid flag and an occupancy counter.
    Providers: the retry table and the pending queue.
\<close>

section \<open>Rings with a write cursor\<close>

text \<open>How many of the operations \<open>as\<close>, run from \<open>s\<close>, write at the cursor.\<close>

fun run_writes :: "('a \<Rightarrow> 's \<Rightarrow> 's) \<Rightarrow> ('a \<Rightarrow> 's \<Rightarrow> bool) \<Rightarrow> 'a list \<Rightarrow> 's \<Rightarrow> nat" where
  "run_writes step writes [] s = 0"
| "run_writes step writes (a # as) s =
     (if writes a s then 1 else 0) + run_writes step writes as (step a s)"

lemma run_writes_le: "run_writes step writes as s \<le> length as"
proof (induction as arbitrary: s)
  case (Cons a as)
  from Cons.IH [of "step a s"] show ?case by simp
qed simp

locale ring_memory =
  fixes size_of :: nat
    and cells :: "'s \<Rightarrow> 'e list"
    and cursor :: "'s \<Rightarrow> nat"
    and wf :: "'s \<Rightarrow> bool"
    and step :: "'a \<Rightarrow> 's \<Rightarrow> 's"
    and writes :: "'a \<Rightarrow> 's \<Rightarrow> bool"
    and keeps :: "'e \<Rightarrow> 'a \<Rightarrow> bool"
  assumes shape: "wf s \<Longrightarrow> length (cells s) = size_of \<and> cursor s < size_of"
    and wf_step: "wf s \<Longrightarrow> wf (step a s)"
    and cursor_step:
      "wf s \<Longrightarrow> cursor (step a s) = (if writes a s then Suc (cursor s) mod size_of else cursor s)"
    and keep_step:
      "wf s \<Longrightarrow> i < size_of \<Longrightarrow> \<not> (writes a s \<and> i = cursor s) \<Longrightarrow> keeps (cells s ! i) a \<Longrightarrow>
       cells (step a s) ! i = cells s ! i"
begin

text \<open>How many writes it takes for the cursor to come round to cell \<open>i\<close>.\<close>

definition dist :: "'s \<Rightarrow> nat \<Rightarrow> nat" where
  "dist s i = (if cursor s \<le> i then i - cursor s else i + size_of - cursor s)"

lemma dist_write:
  assumes "wf s" "i < size_of" "writes a s" "0 < dist s i"
  shows "dist (step a s) i = dist s i - 1" "i \<noteq> cursor s"
proof -
  have c: "cursor s < size_of" using shape [OF assms(1)] by simp
  show ne: "i \<noteq> cursor s" using assms(4) by (auto simp: dist_def)
  have "cursor (step a s) = (if Suc (cursor s) = size_of then 0 else Suc (cursor s))"
    using cursor_step [OF assms(1)] assms(3) c by (simp add: mod_Suc)
  then show "dist (step a s) i = dist s i - 1"
    using c ne assms(2) by (auto simp: dist_def split: if_splits)
qed

lemma survives:
  "wf s \<Longrightarrow> i < size_of \<Longrightarrow> run_writes step writes as s \<le> dist s i \<Longrightarrow>
   (\<And>a. a \<in> set as \<Longrightarrow> keeps (cells s ! i) a) \<Longrightarrow>
   cells (fold step as s) ! i = cells s ! i"
proof (induction as arbitrary: s)
  case (Cons a as)
  have kept: "cells (step a s) ! i = cells s ! i"
    using Cons.prems dist_write(2) [of s i a] by (intro keep_step) auto
  have "run_writes step writes as (step a s) \<le> dist (step a s) i"
  proof (cases "writes a s")
    case True
    with Cons.prems dist_write(1) [of s i a] show ?thesis by simp
  next
    case False
    then have "dist (step a s) i = dist s i"
      using cursor_step [OF Cons.prems(1), of a] by (simp add: dist_def)
    with False Cons.prems(3) show ?thesis by simp
  qed
  from Cons.IH [OF wf_step [OF Cons.prems(1)] Cons.prems(2) this] kept Cons.prems(4)
  show ?case by simp
qed simp

lemma wf_run: "wf s \<Longrightarrow> wf (fold step as s)"
  by (induction as arbitrary: s) (auto intro: wf_step)

text \<open>The cell just written outlives every run of fewer than \<open>size_of\<close> further writes.\<close>

lemma written_survives:
  assumes "wf s" "writes a s" "run_writes step writes as (step a s) < size_of"
    and "\<And>b. b \<in> set as \<Longrightarrow> keeps (cells (step a s) ! cursor s) b"
  shows "cells (fold step as (step a s)) ! cursor s = cells (step a s) ! cursor s"
proof (rule survives [OF wf_step [OF assms(1)]])
  show lt: "cursor s < size_of" using shape [OF assms(1)] by simp
  have "cursor (step a s) = (if Suc (cursor s) = size_of then 0 else Suc (cursor s))"
    using cursor_step [OF assms(1)] assms(2) lt by (simp add: mod_Suc)
  then have "dist (step a s) (cursor s) = size_of - 1"
    using lt by (auto simp: dist_def split: if_splits)
  then show "run_writes step writes as (step a s) \<le> dist (step a s) (cursor s)"
    using assms(3) by simp
qed (use assms(4) in simp)

end

section \<open>Slot tables\<close>

text \<open>
  A table of \<open>capacity\<close> slots with an occupancy counter: filling a free slot and clearing a used
  one both keep the counter equal to the number of used slots, so it never passes the capacity.
\<close>

locale slot_table =
  fixes capacity :: nat
    and slots :: "'t \<Rightarrow> 'e list"
    and used :: "'e \<Rightarrow> bool"
    and counter :: "'t \<Rightarrow> nat"
    and fill :: "nat \<Rightarrow> 'e \<Rightarrow> 't \<Rightarrow> 't"
    and clear :: "nat \<Rightarrow> 't \<Rightarrow> 't"
    and cleared :: "'e \<Rightarrow> 'e"
  assumes slots_fill: "slots (fill i e t) = (slots t)[i := e]"
    and counter_fill: "counter t < capacity \<Longrightarrow> counter (fill i e t) = Suc (counter t)"
    and slots_clear: "slots (clear i t) = (slots t)[i := cleared (slots t ! i)]"
    and counter_clear: "0 < counter t \<Longrightarrow> counter (clear i t) = counter t - 1"
    and cleared_unused: "\<not> used (cleared e)"
begin

definition ok :: "'t \<Rightarrow> bool" where
  "ok t \<longleftrightarrow> length (slots t) = capacity \<and> counter t = count_if used (slots t)"

lemma ok_length: "ok t \<Longrightarrow> length (slots t) = capacity"
  by (simp add: ok_def)

lemma ok_counter_le: "ok t \<Longrightarrow> counter t \<le> capacity"
  unfolding ok_def by (metis count_if_le)

lemma fill_ok:
  assumes "ok t" "i < capacity" "\<not> used (slots t ! i)" "used e"
  shows "ok (fill i e t)"
proof -
  have i: "i < length (slots t)" and len: "length (slots t) = capacity"
    and c: "counter t = count_if used (slots t)"
    using assms(1,2) by (simp_all add: ok_def)
  have "counter t < capacity" using count_if_less [of i "slots t" used] i assms(3) c len by simp
  then show ?thesis
    using i len c assms(3,4) by (simp add: ok_def slots_fill counter_fill count_if_fill)
qed

lemma clear_ok:
  assumes "ok t" "i < capacity" "used (slots t ! i)"
  shows "ok (clear i t)" "counter (clear i t) = counter t - 1"
proof -
  have i: "i < length (slots t)" and len: "length (slots t) = capacity"
    and c: "counter t = count_if used (slots t)"
    using assms(1,2) by (simp_all add: ok_def)
  have pos: "0 < counter t" using count_if_pos [of i "slots t" used] i assms(3) c by simp
  then show "counter (clear i t) = counter t - 1" by (rule counter_clear)
  show "ok (clear i t)"
    using i len c pos assms(3)
    by (simp add: ok_def slots_clear counter_clear count_if_clear cleared_unused)
qed

lemma free_slot: "ok t \<Longrightarrow> counter t < capacity \<Longrightarrow> \<exists>i < capacity. \<not> used (slots t ! i)"
proof (rule ccontr)
  assume t: "ok t" and lt: "counter t < capacity" and "\<not> (\<exists>i < capacity. \<not> used (slots t ! i))"
  then have "filter used (slots t) = slots t"
    by (auto simp: ok_def in_set_conv_nth filter_id_conv)
  with t lt show False by (simp add: ok_def count_if_def)
qed

end

section \<open>Transmit sinks\<close>

text \<open>Pushing a list of requests in order; the number accepted and the queue left.\<close>

fun push_all :: "('r \<Rightarrow> 'q \<Rightarrow> bool \<times> 'q) \<Rightarrow> 'r list \<Rightarrow> 'q \<Rightarrow> nat \<times> 'q" where
  "push_all push [] q = (0, q)"
| "push_all push (r # rs) q =
     (case push r q of (ok, q1) \<Rightarrow>
       case push_all push rs q1 of (n, q2) \<Rightarrow> ((if ok then 1 else 0) + n, q2))"

lemma push_all_append:
  "push_all push (rs @ ss) q =
   (case push_all push rs q of (n, q1) \<Rightarrow> case push_all push ss q1 of (k, q2) \<Rightarrow> (n + k, q2))"
  by (induction rs arbitrary: q) (auto split: prod.splits)

locale tx_sink =
  fixes sink_ok :: "'q \<Rightarrow> bool"
    and queued :: "'q \<Rightarrow> 'r list"
    and room :: "'q \<Rightarrow> nat"
    and push :: "'r \<Rightarrow> 'q \<Rightarrow> bool \<times> 'q"
  assumes push_ok: "sink_ok q \<Longrightarrow> sink_ok (snd (push r q)) \<and> room (snd (push r q)) = room q"
    and push_accepts: "sink_ok q \<Longrightarrow> fst (push r q) \<longleftrightarrow> length (queued q) < room q"
    and push_queued:
      "sink_ok q \<Longrightarrow> queued (snd (push r q)) = (if fst (push r q) then queued q @ [r] else queued q)"
begin

text \<open>The requests that fit are appended in order, the others are refused.\<close>

lemma push_all_queued:
  "sink_ok q \<Longrightarrow> push_all push rs q = (n, q') \<Longrightarrow>
   sink_ok q' \<and> room q' = room q \<and>
   queued q' = queued q @ take (room q - length (queued q)) rs \<and>
   n = min (length rs) (room q - length (queued q))"
proof (induction rs arbitrary: q n)
  case (Cons r rs)
  obtain ok q1 where p: "push r q = (ok, q1)" by fastforce
  obtain k where k: "push_all push rs q1 = (k, q')" "n = (if ok then 1 else 0) + k"
    using Cons.prems(2) p by (auto split: prod.splits)
  have q1: "sink_ok q1" "room q1 = room q" "ok \<longleftrightarrow> length (queued q) < room q"
    "queued q1 = (if ok then queued q @ [r] else queued q)"
    using push_ok [OF Cons.prems(1), of r] push_accepts [OF Cons.prems(1), of r]
      push_queued [OF Cons.prems(1), of r] p by simp_all
  note ih = Cons.IH [OF q1(1) k(1)]
  show ?case
  proof (cases ok)
    case True
    then have "room q - length (queued q) = Suc (room q - Suc (length (queued q)))" using q1(3) by simp
    with ih q1 k(2) True show ?thesis by simp
  qed (use ih q1 k(2) in simp)
qed simp

lemma push_all_bound: "sink_ok q \<Longrightarrow> length (queued q) \<le> room q \<Longrightarrow> push_all push rs q = (n, q') \<Longrightarrow>
    length (queued q') \<le> room q'"
  by (auto dest: push_all_queued)

end

section \<open>Token buckets\<close>

text \<open>The sum of \<open>f\<close> over the states a run of operations passes through.\<close>

fun run_sum :: "('a \<Rightarrow> 's \<Rightarrow> 's) \<Rightarrow> ('a \<Rightarrow> 's \<Rightarrow> nat) \<Rightarrow> 'a list \<Rightarrow> 's \<Rightarrow> nat" where
  "run_sum step f [] s = 0"
| "run_sum step f (a # as) s = f a s + run_sum step f as (step a s)"

locale token_bucket =
  fixes wf :: "'s \<Rightarrow> bool"
    and tokens :: "'s \<Rightarrow> nat"
    and capacity :: nat
    and rate :: nat
    and step :: "'a \<Rightarrow> 's \<Rightarrow> 's"
    and elapsed :: "'a \<Rightarrow> 's \<Rightarrow> nat"
    and spends :: "'a \<Rightarrow> 's \<Rightarrow> nat"
  assumes wf_step: "wf s \<Longrightarrow> wf (step a s)"
    and within: "wf s \<Longrightarrow> tokens s \<le> capacity"
    and balance: "wf s \<Longrightarrow> spends a s + tokens (step a s) \<le> tokens s + rate * elapsed a s"
begin

lemma wf_run: "wf s \<Longrightarrow> wf (fold step as s)"
  by (induction as arbitrary: s) (auto intro: wf_step)

text \<open>What a run spends is covered by the balance it starts with and the time it takes.\<close>

lemma spent:
  "wf s \<Longrightarrow> run_sum step spends as s + tokens (fold step as s) \<le> tokens s + rate * run_sum step elapsed as s"
proof (induction as arbitrary: s)
  case (Cons a as)
  from Cons.IH [OF wf_step [OF Cons.prems], of a] balance [OF Cons.prems, of a]
  show ?case by (simp add: algebra_simps)
qed simp

lemma spent_le: "wf s \<Longrightarrow> run_sum step spends as s \<le> capacity + rate * run_sum step elapsed as s"
  using spent [of s as] within [of s] by linarith

end

end
