(* ===== verification/Rivr_Dedupe.thy ===== *)
theory Rivr_Dedupe
  imports Rivr_Protocol Rivr_Interfaces
begin

text \<open>
  The duplicate-suppression cache of routing.c: a ring of 64 (source, packet id) pairs with the
  time each was first seen, searched and aged by \<open>routing_dedupe_check\<close>, and the simple relay
  decision \<open>routing_should_forward\<close> on top of it. \<open>dedupe_scan\<close> is the search loop: it
  clears the expired entries it passes and stops at a match.
\<close>

abbreviation "DEDUPE_CACHE_SIZE \<equiv> (64 :: nat)"
abbreviation "DEDUPE_EXPIRY_MS \<equiv> (60000 :: u32)"

record dedupe_entry_t =
  de_src_id :: u32
  de_pkt_id :: u16
  de_seen_at_ms :: u32

record dedupe_cache_t =
  dc_entries :: "dedupe_entry_t list"
  dc_head :: u8

definition dedupe_entry_zero :: dedupe_entry_t where
  "dedupe_entry_zero = \<lparr>de_src_id = 0, de_pkt_id = 0, de_seen_at_ms = 0\<rparr>"

definition routing_dedupe_init :: dedupe_cache_t where
  "routing_dedupe_init =
     \<lparr>dc_entries = replicate DEDUPE_CACHE_SIZE dedupe_entry_zero, dc_head = 0\<rparr>"

text \<open>The scan: \<open>True\<close> when it stopped at a live match, and the entries it left.\<close>

fun dedupe_scan :: "u32 \<Rightarrow> u16 \<Rightarrow> u32 \<Rightarrow> dedupe_entry_t list \<Rightarrow> bool \<times> dedupe_entry_t list" where
  "dedupe_scan src pid now [] = (False, [])"
| "dedupe_scan src pid now (e # es) =
     (if de_src_id e = 0 then
        (case dedupe_scan src pid now es of (hit, es') \<Rightarrow> (hit, e # es'))
      else if now - de_seen_at_ms e > DEDUPE_EXPIRY_MS then
        (case dedupe_scan src pid now es of (hit, es') \<Rightarrow> (hit, dedupe_entry_zero # es'))
      else if de_src_id e = src \<and> de_pkt_id e = pid then (True, e # es)
      else (case dedupe_scan src pid now es of (hit, es') \<Rightarrow> (hit, e # es')))"

definition routing_dedupe_check ::
  "dedupe_cache_t \<Rightarrow> u32 \<Rightarrow> u16 \<Rightarrow> u32 \<Rightarrow> bool \<times> dedupe_cache_t" where
  "routing_dedupe_check cache src pid now =
     (case dedupe_scan src pid now (dc_entries cache) of
        (True, es) \<Rightarrow> (False, cache\<lparr>dc_entries := es\<rparr>)
      | (False, es) \<Rightarrow>
          (True, cache\<lparr>dc_entries := es[unat (dc_head cache) :=
                     \<lparr>de_src_id = src, de_pkt_id = pid, de_seen_at_ms = now\<rparr>],
                   dc_head := (dc_head cache + 1) AND 63\<rparr>))"

definition routing_should_forward ::
  "dedupe_cache_t \<Rightarrow> rivr_pkt_hdr_t \<Rightarrow> u32 \<Rightarrow> bool \<times> dedupe_cache_t \<times> rivr_pkt_hdr_t" where
  "routing_should_forward cache pkt now =
     (let (fresh, cache') = routing_dedupe_check cache (h_src_id pkt) (h_pkt_id pkt) now in
      if \<not> fresh then (False, cache', pkt)
      else if h_ttl pkt = 0 then (False, cache', pkt)
      else
        let pkt' = pkt\<lparr>h_ttl := h_ttl pkt - 1, h_hop := h_hop pkt + 1,
                       h_flags := h_flags pkt OR PKT_FLAG_RELAY\<rparr>
        in (h_ttl pkt' > 0, cache', pkt'))"

section \<open>The scan\<close>

definition dedupe_live :: "u32 \<Rightarrow> dedupe_entry_t \<Rightarrow> bool" where
  "dedupe_live now e \<longleftrightarrow> de_src_id e \<noteq> 0 \<and> now - de_seen_at_ms e \<le> DEDUPE_EXPIRY_MS"

definition dedupe_match :: "u32 \<Rightarrow> u16 \<Rightarrow> dedupe_entry_t \<Rightarrow> bool" where
  "dedupe_match src pid e \<longleftrightarrow> de_src_id e = src \<and> de_pkt_id e = pid"

definition dedupe_ok :: "dedupe_cache_t \<Rightarrow> bool" where
  "dedupe_ok c \<longleftrightarrow> length (dc_entries c) = DEDUPE_CACHE_SIZE \<and> unat (dc_head c) < DEDUPE_CACHE_SIZE"

lemma dedupe_scan_hit:
  "fst (dedupe_scan src pid now es) \<longleftrightarrow>
   (\<exists>e \<in> set es. dedupe_live now e \<and> dedupe_match src pid e)"
  by (induction es) (auto simp: dedupe_live_def dedupe_match_def not_less split: prod.splits)

lemma dedupe_scan_length [simp]: "length (snd (dedupe_scan src pid now es)) = length es"
  by (induction es) (auto split: prod.splits)

lemma dedupe_scan_keep:
  "i < length es \<Longrightarrow> dedupe_live now (es ! i) \<Longrightarrow> snd (dedupe_scan src pid now es) ! i = es ! i"
proof (induction es arbitrary: i)
  case (Cons e es)
  then show ?case
    by (cases i) (auto simp: dedupe_live_def not_less split: prod.splits)
qed simp

lemma and63: "unat ((h + 1) AND 63 :: u8) = Suc (unat h) mod 64" if "unat h < 64"
proof -
  have "(63 :: u8) = mask 6" by (simp add: mask_eq_exp_minus_1)
  then have "unat ((h + 1) AND 63) = unat (h + 1) mod 2 ^ 6" by (simp only: unat_and_mask)
  also have "unat (h + 1) = Suc (unat h)" using that by (simp add: unat_word_ariths)
  finally show ?thesis by simp
qed

lemma routing_dedupe_init_ok: "dedupe_ok routing_dedupe_init"
  by (simp add: dedupe_ok_def routing_dedupe_init_def)

lemma routing_dedupe_check_result:
  "fst (routing_dedupe_check c src pid now) \<longleftrightarrow>
   \<not> (\<exists>e \<in> set (dc_entries c). dedupe_live now e \<and> dedupe_match src pid e)"
  using dedupe_scan_hit [of src pid now "dc_entries c"]
  by (auto simp: routing_dedupe_check_def split: prod.splits bool.splits)

lemma routing_dedupe_check_entries:
  "dc_entries (snd (routing_dedupe_check c src pid now)) =
   (let es = snd (dedupe_scan src pid now (dc_entries c)) in
    if fst (routing_dedupe_check c src pid now)
    then es[unat (dc_head c) := \<lparr>de_src_id = src, de_pkt_id = pid, de_seen_at_ms = now\<rparr>] else es)"
  by (auto simp: routing_dedupe_check_def split: prod.splits bool.splits)

lemma routing_dedupe_check_head:
  "dc_head (snd (routing_dedupe_check c src pid now)) =
   (if fst (routing_dedupe_check c src pid now) then (dc_head c + 1) AND 63 else dc_head c)"
  by (auto simp: routing_dedupe_check_def split: prod.splits bool.splits)

lemma routing_dedupe_check_ok:
  "dedupe_ok c \<Longrightarrow> dedupe_ok (snd (routing_dedupe_check c src pid now))"
  by (simp add: dedupe_ok_def routing_dedupe_check_entries routing_dedupe_check_head Let_def and63)

section \<open>The cache as a ring memory\<close>

type_synonym dedupe_call = "u32 \<times> u16 \<times> u32"

definition dedupe_step :: "dedupe_call \<Rightarrow> dedupe_cache_t \<Rightarrow> dedupe_cache_t" where
  "dedupe_step k c = (case k of (src, pid, now) \<Rightarrow> snd (routing_dedupe_check c src pid now))"

definition dedupe_accepts :: "dedupe_call \<Rightarrow> dedupe_cache_t \<Rightarrow> bool" where
  "dedupe_accepts k c = (case k of (src, pid, now) \<Rightarrow> fst (routing_dedupe_check c src pid now))"

interpretation dedupe_ring: ring_memory DEDUPE_CACHE_SIZE dc_entries "\<lambda>c. unat (dc_head c)"
  dedupe_ok dedupe_step dedupe_accepts "\<lambda>e k. dedupe_live (snd (snd k)) e"
proof unfold_locales
  fix s :: dedupe_cache_t and a :: dedupe_call and i
  assume s: "dedupe_ok s"
  obtain src pid now where a: "a = (src, pid, now)" by (cases a)
  show "length (dc_entries s) = DEDUPE_CACHE_SIZE \<and> unat (dc_head s) < DEDUPE_CACHE_SIZE"
    using s by (simp add: dedupe_ok_def)
  show "dedupe_ok (dedupe_step a s)"
    using s by (simp add: a dedupe_step_def routing_dedupe_check_ok)
  show "unat (dc_head (dedupe_step a s)) =
        (if dedupe_accepts a s then Suc (unat (dc_head s)) mod DEDUPE_CACHE_SIZE else unat (dc_head s))"
    using s by (simp add: a dedupe_step_def dedupe_accepts_def routing_dedupe_check_head and63 dedupe_ok_def)
  assume "i < DEDUPE_CACHE_SIZE" "\<not> (dedupe_accepts a s \<and> i = unat (dc_head s))"
    "dedupe_live (snd (snd a)) (dc_entries s ! i)"
  then show "dc_entries (dedupe_step a s) ! i = dc_entries s ! i"
    using s by (auto simp: a dedupe_step_def dedupe_accepts_def routing_dedupe_check_entries Let_def
        dedupe_scan_keep dedupe_ok_def nth_list_update)
qed

text \<open>A packet that claims source 0 passes whatever the cache holds, since 0 marks an empty slot.\<close>

lemma dedupe_source_zero: "fst (routing_dedupe_check c 0 pid now)"
  by (auto simp: routing_dedupe_check_result dedupe_live_def dedupe_match_def)

section \<open>Properties\<close>


lemma routing_dedupe_init_accepts: "fst (routing_dedupe_check routing_dedupe_init src pid now)"
  by (simp add: routing_dedupe_check_result routing_dedupe_init_def dedupe_live_def dedupe_entry_zero_def)


end
