(* ===== verification/Rivr_Config.thy ===== *)
theory Rivr_Config
  imports Rivr_Prelude
begin

text \<open>
  The build configuration of the firmware (hal/feature_flags.h): a node is compiled for one role,
  and the role fixes the table sizes, the relay caps and the features that are on. The radio
  parameters stay arguments of the operations that use them. A board may override any default;
  the model has the defaults.
\<close>

datatype rivr_role = RoleClient | RoleRepeater | RoleGateway | RoleGeneric

definition relay_role :: "rivr_role \<Rightarrow> bool" where
  "relay_role r \<longleftrightarrow> r = RoleRepeater \<or> r = RoleGateway"

fun RIVR_ROUTE_CACHE_SIZE :: "rivr_role \<Rightarrow> nat" where
  "RIVR_ROUTE_CACHE_SIZE RoleClient = 32"
| "RIVR_ROUTE_CACHE_SIZE _ = 64"

fun RIVR_RETRY_TABLE_SIZE :: "rivr_role \<Rightarrow> nat" where
  "RIVR_RETRY_TABLE_SIZE RoleClient = 8"
| "RIVR_RETRY_TABLE_SIZE RoleGeneric = 16"
| "RIVR_RETRY_TABLE_SIZE _ = 32"

definition RIVR_FEATURE_AIRTIME_ROUTING :: "rivr_role \<Rightarrow> bool" where
  "RIVR_FEATURE_AIRTIME_ROUTING r = relay_role r"

definition RIVR_FEATURE_ADAPTIVE_FLOOD :: "rivr_role \<Rightarrow> bool" where
  "RIVR_FEATURE_ADAPTIVE_FLOOD r = relay_role r"

fun FWDBUDGET_MAX_FWD_ROLE :: "rivr_role \<Rightarrow> u16" where
  "FWDBUDGET_MAX_FWD_ROLE RoleRepeater = 60"
| "FWDBUDGET_MAX_FWD_ROLE RoleGateway = 60"
| "FWDBUDGET_MAX_FWD_ROLE RoleClient = 20"
| "FWDBUDGET_MAX_FWD_ROLE RoleGeneric = 30"

fun FWDBUDGET_MAX_AIR_US_ROLE :: "rivr_role \<Rightarrow> u32" where
  "FWDBUDGET_MAX_AIR_US_ROLE RoleGeneric = 0xFFFFFFFF"
| "FWDBUDGET_MAX_AIR_US_ROLE _ = 3000000"

text \<open>
  A build: the role and two switches that a board may set, the relay fabric (RIVR_FABRIC_REPEATER,
  off by default) and opportunistic forwarding (RIVR_FEATURE_OPPORTUNISTIC_FWD, on by default).
  rivr_config.h refuses a client with the fabric.
\<close>

record build_t =
  b_role :: rivr_role
  b_fabric_repeater :: bool
  b_opportunistic_fwd :: bool

definition build_ok :: "build_t \<Rightarrow> bool" where
  "build_ok b \<longleftrightarrow> \<not> (b_role b = RoleClient \<and> b_fabric_repeater b)"

abbreviation "RF_MAX_PAYLOAD_LEN \<equiv> (255 :: u8)"

end
