(* ===== verification/Rivr_Flood.thy ===== *)
theory Rivr_Flood
  imports Rivr_Dedupe Rivr_Config
begin

text \<open>
  The flood-forward decision of routing.c: the per-minute and per-hour forward budget, the strict
  relay decision \<open>routing_flood_forward\<close>, the jitter helpers, the loop-guard hash and the
  time-on-air estimate. An absent budget (\<open>fb == NULL\<close>) is \<open>None\<close>.
\<close>

datatype rivr_fwd_result_t =
  RIVR_FWD_FORWARD | RIVR_FWD_DROP_DEDUPE | RIVR_FWD_DROP_TTL | RIVR_FWD_DROP_BUDGET
| RIVR_FWD_DROP_LOOP

section \<open>The forward budget\<close>

abbreviation "FWDBUDGET_PKT_TYPES \<equiv> (8 :: u8)"
abbreviation "FWDBUDGET_WINDOW_MS \<equiv> (60000 :: u32)"
abbreviation "FWDBUDGET_HOUR_WINDOW_MS \<equiv> (3600000 :: u32)"
abbreviation "FWDBUDGET_MAX_HOUR_AIR_US \<equiv> (360000000 :: u32)"

record forward_budget_t =
  fb_window_start_ms :: u32
  fb_fwd_count :: "u16 list"
  fb_fwd_air_us :: "u32 list"
  fb_max_fwd_count :: u16
  fb_max_air_us :: u32
  fb_hour_window_start_ms :: u32
  fb_hour_total_air_us :: u32
  fb_max_hour_air_us :: u32
  fb_fwd_drop_count :: "u16 list"
  fb_total_fwd_drops :: u32
  fb_tx_originated_count :: "u16 list"

definition routing_fwdbudget_init :: "rivr_role \<Rightarrow> forward_budget_t" where
  "routing_fwdbudget_init role =
     \<lparr>fb_window_start_ms = 0, fb_fwd_count = replicate 8 0, fb_fwd_air_us = replicate 8 0,
      fb_max_fwd_count = FWDBUDGET_MAX_FWD_ROLE role,
      fb_max_air_us = FWDBUDGET_MAX_AIR_US_ROLE role,
      fb_hour_window_start_ms = 0, fb_hour_total_air_us = 0,
      fb_max_hour_air_us = FWDBUDGET_MAX_HOUR_AIR_US,
      fb_fwd_drop_count = replicate 8 0, fb_total_fwd_drops = 0,
      fb_tx_originated_count = replicate 8 0\<rparr>"

definition fwdbudget_roll_window :: "forward_budget_t \<Rightarrow> u32 \<Rightarrow> forward_budget_t" where
  "fwdbudget_roll_window fb now =
     (let fb1 = (if now - fb_window_start_ms fb \<ge> FWDBUDGET_WINDOW_MS
                 then fb\<lparr>fb_fwd_count := replicate 8 0, fb_fwd_air_us := replicate 8 0,
                         fb_fwd_drop_count := replicate 8 0,
                         fb_tx_originated_count := replicate 8 0, fb_window_start_ms := now\<rparr>
                 else fb)
      in if now - fb_hour_window_start_ms fb1 \<ge> FWDBUDGET_HOUR_WINDOW_MS
         then fb1\<lparr>fb_hour_total_air_us := 0, fb_hour_window_start_ms := now\<rparr>
         else fb1)"

definition routing_fwdbudget_check ::
  "forward_budget_t \<Rightarrow> u8 \<Rightarrow> u32 \<Rightarrow> u32 \<Rightarrow> bool \<times> forward_budget_t" where
  "routing_fwdbudget_check fb pt toa now =
     (if pt \<ge> FWDBUDGET_PKT_TYPES then (True, fb)
      else
        let fb1 = fwdbudget_roll_window fb now in
        if fb_fwd_count fb1 ! unat pt \<ge> fb_max_fwd_count fb1 then (False, fb1)
        else if fb_fwd_air_us fb1 ! unat pt + toa > fb_max_air_us fb1 then (False, fb1)
        else if fb_hour_total_air_us fb1 + toa > fb_max_hour_air_us fb1 then (False, fb1)
        else (True, fb1))"

definition routing_fwdbudget_record ::
  "forward_budget_t \<Rightarrow> u8 \<Rightarrow> u32 \<Rightarrow> u32 \<Rightarrow> forward_budget_t" where
  "routing_fwdbudget_record fb pt toa now =
     (if pt \<ge> FWDBUDGET_PKT_TYPES then fb
      else
        let fb1 = fwdbudget_roll_window fb now in
        fb1\<lparr>fb_fwd_count := (fb_fwd_count fb1)[unat pt := fb_fwd_count fb1 ! unat pt + 1],
            fb_fwd_air_us := (fb_fwd_air_us fb1)[unat pt := fb_fwd_air_us fb1 ! unat pt + toa],
            fb_hour_total_air_us := fb_hour_total_air_us fb1 + toa\<rparr>)"

definition routing_fwdbudget_adapt ::
  "rivr_role \<Rightarrow> forward_budget_t \<Rightarrow> u8 \<Rightarrow> u8 \<Rightarrow> forward_budget_t" where
  "routing_fwdbudget_adapt role fb fabric_score dc_pct =
     (if RIVR_FEATURE_ADAPTIVE_FLOOD role then
        let load = (if fabric_score > dc_pct then fabric_score else dc_pct);
            new_cap = (if load < 40 then FWDBUDGET_MAX_FWD_ROLE role
                       else if load < 70 then FWDBUDGET_MAX_FWD_ROLE role div 2
                       else FWDBUDGET_MAX_FWD_ROLE role div 4);
            new_cap' = (if new_cap < 4 then 4 else new_cap)
        in fb\<lparr>fb_max_fwd_count := new_cap'\<rparr>
      else fb)"

section \<open>The relay decision\<close>

definition routing_loop_guard_hash :: "u32 \<Rightarrow> u8" where
  "routing_loop_guard_hash node_id =
     (let h = ucast (node_id AND 0xFF) XOR ucast (drop_bit 8 node_id AND 0xFF) XOR
              ucast (drop_bit 16 node_id AND 0xFF) XOR ucast (drop_bit 24 node_id AND 0xFF)
      in if h \<noteq> 0 then h else 1)"

text \<open>
  The result, the metrics, the dedupe cache, the budget and the packet header. \<open>my_h\<close> of the code
  is computed and then discarded, so \<open>my_id\<close> has no effect; it stays an argument.
\<close>

definition routing_flood_forward ::
  "rivr_metrics_t \<Rightarrow> dedupe_cache_t \<Rightarrow> forward_budget_t option \<Rightarrow> rivr_pkt_hdr_t \<Rightarrow>
   u32 \<Rightarrow> u32 \<Rightarrow> u32 \<Rightarrow>
   rivr_fwd_result_t \<times> rivr_metrics_t \<times> dedupe_cache_t \<times> forward_budget_t option \<times> rivr_pkt_hdr_t"
where
  "routing_flood_forward m cache fb pkt my_id toa now =
     (let (fresh, cache1) = routing_dedupe_check cache (h_src_id pkt) (h_pkt_id pkt) now in
      if \<not> fresh then (RIVR_FWD_DROP_DEDUPE, bump rx_dedupe_drop m, cache1, fb, pkt)
      else if h_ttl pkt = 0 then (RIVR_FWD_DROP_TTL, bump rx_ttl_drop m, cache1, fb, pkt)
      else if h_hop pkt \<ge> RIVR_PKT_DEFAULT_TTL
      then (RIVR_FWD_DROP_TTL, bump rx_invalid_hop m, cache1, fb, pkt)
      else
        let (within, fb1) = (case fb of
              None \<Rightarrow> (True, None)
            | Some b \<Rightarrow> (case routing_fwdbudget_check b (h_pkt_type pkt) toa now of
                          (w, b1) \<Rightarrow> (w, Some b1))) in
        if \<not> within then
          (RIVR_FWD_DROP_BUDGET, m, cache1,
           map_option (\<lambda>b.
             let b1 = (if h_pkt_type pkt < FWDBUDGET_PKT_TYPES
                       then b\<lparr>fb_fwd_drop_count := (fb_fwd_drop_count b)
                               [unat (h_pkt_type pkt) := fb_fwd_drop_count b ! unat (h_pkt_type pkt) + 1]\<rparr>
                       else b)
             in b1\<lparr>fb_total_fwd_drops := fb_total_fwd_drops b1 + 1\<rparr>) fb1, pkt)
        else
          let pkt1 = pkt\<lparr>h_ttl := h_ttl pkt - 1, h_hop := h_hop pkt + 1,
                         h_flags := h_flags pkt OR PKT_FLAG_RELAY\<rparr>
          in (RIVR_FWD_FORWARD, m, cache1,
              map_option (\<lambda>b. routing_fwdbudget_record b (h_pkt_type pkt1) toa now) fb1, pkt1))"

section \<open>Jitter and time on air\<close>

abbreviation "FORWARD_JITTER_MAX_MS \<equiv> (200 :: u32)"

definition xorshift32 :: "u32 \<Rightarrow> u32" where
  "xorshift32 x0 =
     (let x1 = x0 XOR push_bit 13 x0;
          x2 = x1 XOR drop_bit 17 x1
      in x2 XOR push_bit 5 x2)"

text \<open>\<open>max_j + 1u\<close> is computed in 32 bits, after the promotion of \<open>max_j\<close>.\<close>

definition routing_jitter_ticks :: "u32 \<Rightarrow> u16 \<Rightarrow> u16 \<Rightarrow> u16" where
  "routing_jitter_ticks src_id pkt_id max_j =
     (if max_j = 0 then 0
      else ucast (xorshift32 (src_id XOR (ucast pkt_id * 2654435761)) mod (ucast max_j + 1)))"

definition routing_forward_delay_ms :: "u32 \<Rightarrow> u16 \<Rightarrow> u8 \<Rightarrow> u32" where
  "routing_forward_delay_ms src_id pkt_id pkt_type =
     xorshift32 (src_id XOR ucast pkt_id XOR push_bit 24 (ucast pkt_type)) mod
     (FORWARD_JITTER_MAX_MS + 1)"

text \<open>\<open>RF_TOA_T_SYM_US\<close> for spreading factor \<open>sf\<close> and bandwidth \<open>bw\<close> in Hz, computed in 64 bits.\<close>

definition RF_TOA_T_SYM_US :: "nat \<Rightarrow> u32 \<Rightarrow> u32" where
  "RF_TOA_T_SYM_US sf bw = ucast (push_bit sf (1 :: u64) * 1000000 div ucast bw)"

definition routing_toa_estimate_us :: "nat \<Rightarrow> u32 \<Rightarrow> u8 \<Rightarrow> u32" where
  "routing_toa_estimate_us sf bw payload_len =
     (let t_sym = RF_TOA_T_SYM_US sf bw
      in 49 * t_sym div 4 + (8 * ucast payload_len + 43) div 32 * 8 * t_sym)"

section \<open>The relay decision, branch by branch\<close>

definition relay_hdr :: "rivr_pkt_hdr_t \<Rightarrow> rivr_pkt_hdr_t" where
  "relay_hdr pkt = pkt\<lparr>h_ttl := h_ttl pkt - 1, h_hop := h_hop pkt + 1,
                       h_flags := h_flags pkt OR PKT_FLAG_RELAY\<rparr>"

definition within_budget :: "forward_budget_t option \<Rightarrow> u8 \<Rightarrow> u32 \<Rightarrow> u32 \<Rightarrow> bool" where
  "within_budget fb pt toa now \<longleftrightarrow>
     (case fb of None \<Rightarrow> True | Some b \<Rightarrow> fst (routing_fwdbudget_check b pt toa now))"

lemma flood_result:
  "fst (routing_flood_forward m c fb pkt my_id toa now) =
   (if \<not> fst (routing_dedupe_check c (h_src_id pkt) (h_pkt_id pkt) now) then RIVR_FWD_DROP_DEDUPE
    else if h_ttl pkt = 0 \<or> h_hop pkt \<ge> 15 then RIVR_FWD_DROP_TTL
    else if \<not> within_budget fb (h_pkt_type pkt) toa now then RIVR_FWD_DROP_BUDGET
    else RIVR_FWD_FORWARD)"
  by (auto simp: routing_flood_forward_def within_budget_def Let_def split: prod.splits option.splits)

lemma flood_pkt:
  "snd (snd (snd (snd (routing_flood_forward m c fb pkt my_id toa now)))) =
   (if fst (routing_flood_forward m c fb pkt my_id toa now) = RIVR_FWD_FORWARD
    then relay_hdr pkt else pkt)"
  by (auto simp: routing_flood_forward_def relay_hdr_def Let_def split: prod.splits option.splits)

lemma flood_forwardD:
  assumes "routing_flood_forward m c fb pkt my_id toa now = (RIVR_FWD_FORWARD, m', c', fb', pkt')"
  shows "pkt' = relay_hdr pkt" "0 < unat (h_ttl pkt)" "unat (h_hop pkt) < 15"
    "fst (routing_dedupe_check c (h_src_id pkt) (h_pkt_id pkt) now)"
    "within_budget fb (h_pkt_type pkt) toa now"
  using flood_result [of m c fb pkt my_id toa now] flood_pkt [of m c fb pkt my_id toa now] assms
  by (auto simp: not_le word_less_nat_alt unat_gt_0 split: if_splits)

lemma relay_hdr_counters:
  assumes "0 < unat (h_ttl pkt)" "unat (h_hop pkt) < 15"
  shows "unat (h_ttl (relay_hdr pkt)) = unat (h_ttl pkt) - 1"
    "unat (h_hop (relay_hdr pkt)) = Suc (unat (h_hop pkt))"
proof -
  show "unat (h_ttl (relay_hdr pkt)) = unat (h_ttl pkt) - 1"
    using assms(1) by (simp add: relay_hdr_def unat_minus_one unat_gt_0)
  show "unat (h_hop (relay_hdr pkt)) = Suc (unat (h_hop pkt))"
    using assms(2) by (simp add: relay_hdr_def unat_word_ariths)
qed

text \<open>A packet offered to one relay after another, each with its own cache, budget and clock.\<close>

type_synonym relay_node =
  "rivr_metrics_t \<times> dedupe_cache_t \<times> forward_budget_t option \<times> u32 \<times> u32 \<times> u32"

fun relay_chain :: "relay_node list \<Rightarrow> rivr_pkt_hdr_t \<Rightarrow> nat" where
  "relay_chain [] pkt = 0"
| "relay_chain ((m, c, fb, my_id, toa, now) # nodes) pkt =
     (case routing_flood_forward m c fb pkt my_id toa now of
        (res, m', c', fb', pkt') \<Rightarrow>
          if res = RIVR_FWD_FORWARD then Suc (relay_chain nodes pkt') else 0)"

text \<open>C6: Flooding stops. However many relays a packet is offered to, each with its own cache, budget
  and clock, it is forwarded at most as many times as its TTL, and never past hop 15, so neither
  counter wraps on the way.\<close>

theorem relay_chain_bounded:
  "relay_chain nodes pkt \<le> min (unat (h_ttl pkt)) (15 - unat (h_hop pkt))"
proof (induction nodes arbitrary: pkt)
  case (Cons node nodes)
  obtain m c fb my_id toa now where node: "node = (m, c, fb, my_id, toa, now)" by (cases node)
  show ?case
  proof (cases "routing_flood_forward m c fb pkt my_id toa now")
    case (fields res m' c' fb' pkt')
    show ?thesis
    proof (cases "res = RIVR_FWD_FORWARD")
      case True
      note fwd = flood_forwardD [OF fields [unfolded True]]
      have "relay_chain (node # nodes) pkt = Suc (relay_chain nodes (relay_hdr pkt))"
        using fields True fwd(1) by (simp add: node)
      with Cons.IH [of "relay_hdr pkt"] relay_hdr_counters [OF fwd(2,3)] fwd(2,3)
      show ?thesis by linarith
    qed (simp add: node fields)
  qed
qed simp

section \<open>The budget over a window\<close>

definition in_window :: "forward_budget_t \<Rightarrow> u32 \<Rightarrow> bool" where
  "in_window b now \<longleftrightarrow> now - fb_window_start_ms b < FWDBUDGET_WINDOW_MS \<and>
     now - fb_hour_window_start_ms b < FWDBUDGET_HOUR_WINDOW_MS"

lemma roll_in_window: "in_window b now \<Longrightarrow> fwdbudget_roll_window b now = b"
  by (auto simp: in_window_def fwdbudget_roll_window_def Let_def dest: leD)

definition budget_shape :: "forward_budget_t \<Rightarrow> bool" where
  "budget_shape b \<longleftrightarrow> length (fb_fwd_count b) = 8 \<and> length (fb_fwd_air_us b) = 8"

definition counts_for :: "u8 \<Rightarrow> rivr_fwd_result_t \<Rightarrow> rivr_pkt_hdr_t \<Rightarrow> bool" where
  "counts_for pt res pkt \<longleftrightarrow> res = RIVR_FWD_FORWARD \<and> h_pkt_type pkt = pt"

lemma flood_budget_step:
  assumes step: "routing_flood_forward m c (Some b) pkt my_id toa now = (res, m', c', fb', pkt')"
    and win: "in_window b now" and shape: "budget_shape b" and pt: "pt < 8"
  obtains b' where "fb' = Some b'" "budget_shape b'"
    "fb_window_start_ms b' = fb_window_start_ms b"
    "fb_hour_window_start_ms b' = fb_hour_window_start_ms b"
    "fb_max_fwd_count b' = fb_max_fwd_count b" "fb_max_air_us b' = fb_max_air_us b"
    "counts_for pt res pkt \<longrightarrow> fb_fwd_count b ! unat pt < fb_max_fwd_count b \<and>
       fb_fwd_air_us b ! unat pt + toa \<le> fb_max_air_us b \<and>
       fb_fwd_count b' ! unat pt = fb_fwd_count b ! unat pt + 1 \<and>
       fb_fwd_air_us b' ! unat pt = fb_fwd_air_us b ! unat pt + toa"
    "\<not> counts_for pt res pkt \<longrightarrow>
       fb_fwd_count b' ! unat pt = fb_fwd_count b ! unat pt \<and>
       fb_fwd_air_us b' ! unat pt = fb_fwd_air_us b ! unat pt"
proof -
  have i: "unat pt < 8" using pt by (simp add: word_less_nat_alt)
  have ne: "pt \<noteq> q \<Longrightarrow> unat q \<noteq> unat pt" for q
    by (auto dest: unsigned_word_eqI)
  show ?thesis
    using step shape i ne pt roll_in_window [OF win]
    by (intro that [of "the fb'"])
       (auto simp: routing_flood_forward_def routing_fwdbudget_check_def routing_fwdbudget_record_def
          budget_shape_def counts_for_def Let_def not_le not_less nth_list_update relay_hdr_def
          split: prod.splits if_splits)
qed

fun flood_run ::
  "rivr_metrics_t \<Rightarrow> dedupe_cache_t \<Rightarrow> forward_budget_t option \<Rightarrow>
   (rivr_pkt_hdr_t \<times> u32 \<times> u32 \<times> u32) list \<Rightarrow> (rivr_fwd_result_t \<times> rivr_pkt_hdr_t \<times> u32) list"
where
  "flood_run m c fb [] = []"
| "flood_run m c fb ((pkt, my_id, toa, now) # calls) =
     (case routing_flood_forward m c fb pkt my_id toa now of
        (res, m', c', fb', pkt') \<Rightarrow> (res, pkt, toa) # flood_run m' c' fb' calls)"

definition forwarded_toas :: "u8 \<Rightarrow> (rivr_fwd_result_t \<times> rivr_pkt_hdr_t \<times> u32) list \<Rightarrow> nat list" where
  "forwarded_toas pt rs = map (\<lambda>(res, pkt, toa). unat toa) (filter (\<lambda>(res, pkt, toa). counts_for pt res pkt) rs)"

lemma flood_run_budget:
  assumes "budget_shape b" "pt < 8"
    and "\<forall>(pkt, my_id, toa, now) \<in> set calls. in_window b now \<and> unat toa + unat (fb_max_air_us b) < 2 ^ 32"
    and "fb_fwd_count b ! unat pt \<le> fb_max_fwd_count b" "fb_fwd_air_us b ! unat pt \<le> fb_max_air_us b"
  shows "unat (fb_fwd_count b ! unat pt) + length (forwarded_toas pt (flood_run m c (Some b) calls))
           \<le> unat (fb_max_fwd_count b) \<and>
         unat (fb_fwd_air_us b ! unat pt) + sum_list (forwarded_toas pt (flood_run m c (Some b) calls))
           \<le> unat (fb_max_air_us b)"
  using assms
proof (induction calls arbitrary: m c b)
  case Nil
  then show ?case by (simp add: forwarded_toas_def word_le_nat_alt)
next
  case (Cons call calls)
  obtain pkt my_id toa now where call: "call = (pkt, my_id, toa, now)" by (cases call)
  obtain res m' c' fb' pkt' where
    step: "routing_flood_forward m c (Some b) pkt my_id toa now = (res, m', c', fb', pkt')"
    by (cases "routing_flood_forward m c (Some b) pkt my_id toa now")
  have win: "in_window b now" and toa: "unat toa + unat (fb_max_air_us b) < 2 ^ 32"
    using Cons.prems(3) by (auto simp: call)
  obtain b' where b': "fb' = Some b'" "budget_shape b'"
    "fb_window_start_ms b' = fb_window_start_ms b"
    "fb_hour_window_start_ms b' = fb_hour_window_start_ms b"
    "fb_max_fwd_count b' = fb_max_fwd_count b" "fb_max_air_us b' = fb_max_air_us b"
    and yes: "counts_for pt res pkt \<longrightarrow> fb_fwd_count b ! unat pt < fb_max_fwd_count b \<and>
       fb_fwd_air_us b ! unat pt + toa \<le> fb_max_air_us b \<and>
       fb_fwd_count b' ! unat pt = fb_fwd_count b ! unat pt + 1 \<and>
       fb_fwd_air_us b' ! unat pt = fb_fwd_air_us b ! unat pt + toa"
    and no: "\<not> counts_for pt res pkt \<longrightarrow>
       fb_fwd_count b' ! unat pt = fb_fwd_count b ! unat pt \<and>
       fb_fwd_air_us b' ! unat pt = fb_fwd_air_us b ! unat pt"
    by (rule flood_budget_step [OF step win Cons.prems(1,2)])
  have calls: "\<forall>(pkt, my_id, toa, now) \<in> set calls.
      in_window b' now \<and> unat toa + unat (fb_max_air_us b') < 2 ^ 32"
    using Cons.prems(3) b' by (auto simp: in_window_def)
  show ?case
  proof (cases "counts_for pt res pkt")
    case True
    note y = yes [THEN mp, OF True]
    have c1: "unat (fb_fwd_count b' ! unat pt) = Suc (unat (fb_fwd_count b ! unat pt))"
      using y unat_Suc_less [of "fb_fwd_count b ! unat pt" "fb_max_fwd_count b"] by simp
    have a1: "unat (fb_fwd_air_us b' ! unat pt) = unat (fb_fwd_air_us b ! unat pt) + unat toa"
      using y toa Cons.prems(5) by (simp add: unat_word_ariths word_le_nat_alt)
    have "fb_fwd_count b' ! unat pt \<le> fb_max_fwd_count b'"
      using y c1 b' by (simp add: word_less_nat_alt word_le_nat_alt)
    moreover have "fb_fwd_air_us b' ! unat pt \<le> fb_max_air_us b'" using y b' by simp
    ultimately show ?thesis
      using Cons.IH [OF b'(2) Cons.prems(2) calls, of m' c'] True step b' c1 a1
      by (simp add: call forwarded_toas_def)
  next
    case False
    then show ?thesis
      using Cons.IH [OF b'(2) Cons.prems(2) calls, of m' c'] step b' no Cons.prems(4,5)
      by (simp add: call forwarded_toas_def)
  qed
qed

lemma budget_ignores_high_types: "FWDBUDGET_PKT_TYPES \<le> pt \<Longrightarrow> routing_fwdbudget_check fb pt toa now = (True, fb)"
  by (simp add: routing_fwdbudget_check_def)

text \<open>C13: The forward budget holds over a window, for the packet types 0 to 7 that it has counters for. Starting
  with the counters of such a type at zero, in any sequence of relay decisions inside one minute and hour
  window the frames of that type that are forwarded number at most the configured cap and their time on air
  sums to at most the airtime cap, as long as no single time on air is so large that the 32-bit sum of
  the check wraps. The types 8 to 11 (telemetry, mailbox, alert, metrics) are not counted and pass
  (\<open>budget_ignores_high_types\<close>).\<close>

theorem forward_budget_caps_window:
  assumes "budget_shape b" "pt < FWDBUDGET_PKT_TYPES"
    and "fb_fwd_count b ! unat pt = 0" "fb_fwd_air_us b ! unat pt = 0"
    and "\<forall>(pkt, my_id, toa, now) \<in> set calls. in_window b now \<and> unat toa + unat (fb_max_air_us b) < 2 ^ 32"
  shows "length (forwarded_toas pt (flood_run m c (Some b) calls)) \<le> unat (fb_max_fwd_count b) \<and>
         sum_list (forwarded_toas pt (flood_run m c (Some b) calls)) \<le> unat (fb_max_air_us b)"
  using flood_run_budget [OF assms(1,2,5), of m c] assms(3,4) by simp

lemma forward_budget_caps_window_witness:
  "length (forwarded_toas PKT_CHAT (flood_run metrics_zero routing_dedupe_init
      (Some (routing_fwdbudget_init RoleClient)) [(demo_hdr, 9, 300000, 10), (demo_hdr, 9, 300000, 20)])) \<le> 20 \<and>
   sum_list (forwarded_toas PKT_CHAT (flood_run metrics_zero routing_dedupe_init
      (Some (routing_fwdbudget_init RoleClient)) [(demo_hdr, 9, 300000, 10), (demo_hdr, 9, 300000, 20)])) \<le> 3000000"
  using forward_budget_caps_window [of "routing_fwdbudget_init RoleClient" 1
      "[(demo_hdr, 9, 300000, 10), (demo_hdr, 9, 300000, 20)]" metrics_zero routing_dedupe_init]
  by (simp add: routing_fwdbudget_init_def budget_shape_def in_window_def)

section \<open>Adaptive caps and jitter\<close>

lemma routing_fwdbudget_adapt_cap:
  "fb_max_fwd_count (routing_fwdbudget_adapt role fb score dc) =
   (if relay_role role
    then if max score dc < 40 then 60 else if max score dc < 70 then 30 else 15
    else fb_max_fwd_count fb)"
  by (cases role) (auto simp: routing_fwdbudget_adapt_def RIVR_FEATURE_ADAPTIVE_FLOOD_def
      relay_role_def max_def Let_def)

lemma routing_forward_delay_ms_le: "routing_forward_delay_ms src pid pt \<le> FORWARD_JITTER_MAX_MS"
proof -
  have "unat (routing_forward_delay_ms src pid pt) < 201"
    by (simp add: routing_forward_delay_ms_def unat_mod_distrib)
  then show ?thesis by (simp add: word_le_nat_alt)
qed

lemma routing_loop_guard_hash_nonzero: "routing_loop_guard_hash node \<noteq> 0"
  by (simp add: routing_loop_guard_hash_def Let_def)

end
