(* ===== verification/Rivr_NeighborTable.thy ===== *)
theory Rivr_NeighborTable
  imports Rivr_Config "HOL-Library.Multiset"
begin

text \<open>
  The standalone neighbour table (neighbor_table.h, neighbor_table.c): a compact array of peers
  with smoothed signal figures, a packet-loss estimate driven by sequence gaps, the derived ETX
  weight, link scores, best-neighbour selection and the compacting expiry loop.

  Only the first \<open>count\<close> slots are in use. \<open>neighbor_find\<close> updates the STALE flag of the
  entry it returns, through a cast away of \<open>const\<close>, so it returns the table too.
\<close>

abbreviation "NTABLE_SIZE \<equiv> (16 :: nat)"
abbreviation "NTABLE_EXPIRY_MS \<equiv> (120000 :: u32)"
abbreviation "NTABLE_STALE_MS \<equiv> (70000 :: u32)"
abbreviation "NTABLE_LOSS_MAX_GAP \<equiv> (15 :: u16)"
abbreviation "NTABLE_SCORE_UNICAST_MIN \<equiv> (20 :: u8)"
abbreviation "NTABLE_FLAG_DIRECT \<equiv> (0x01 :: u8)"
abbreviation "NTABLE_FLAG_STALE \<equiv> (0x02 :: u8)"
abbreviation "NTABLE_FLAG_BEACON \<equiv> (0x04 :: u8)"
abbreviation "INT32_MIN \<equiv> (0x80000000 :: u32)"

record rivr_neighbor_t =
  nb_neighbor_id :: u32
  nb_rssi_avg :: u16
  nb_snr_avg :: u8
  nb_loss_rate :: u8
  nb_last_seen_ms :: u32
  nb_flags :: u8
  nb_hop_count :: u8
  nb_last_seq :: u16
  nb_rx_ok :: u32
  nb_etx_x8 :: u8
  nb_avg_frame_len :: u8
  nb_lat_e7 :: u32
  nb_lon_e7 :: u32

record rivr_neighbor_table_t =
  nt_entries :: "rivr_neighbor_t list"
  nt_count :: u8

definition neighbor_zero :: rivr_neighbor_t where
  "neighbor_zero = \<lparr>nb_neighbor_id = 0, nb_rssi_avg = 0, nb_snr_avg = 0, nb_loss_rate = 0,
     nb_last_seen_ms = 0, nb_flags = 0, nb_hop_count = 0, nb_last_seq = 0, nb_rx_ok = 0,
     nb_etx_x8 = 0, nb_avg_frame_len = 0, nb_lat_e7 = 0, nb_lon_e7 = 0\<rparr>"

section \<open>Helpers\<close>

definition find_slot :: "rivr_neighbor_table_t \<Rightarrow> u32 \<Rightarrow> nat option" where
  "find_slot tbl node_id =
     find_idx (\<lambda>n. nb_neighbor_id n = node_id) (take (unat (nt_count tbl)) (nt_entries tbl))"

definition oldest_slot :: "rivr_neighbor_table_t \<Rightarrow> nat" where
  "oldest_slot tbl =
     snd (fold (\<lambda>i (min_ts, oldest).
            let ts = nb_last_seen_ms (nt_entries tbl ! i) in
            if ts < min_ts then (ts, i) else (min_ts, oldest))
          [1..<unat (nt_count tbl)] (nb_last_seen_ms (nt_entries tbl ! 0), 0))"

definition loss_missed :: "u8 \<Rightarrow> u8" where
  "loss_missed l = ucast ((ucast l * 7 + 100) div 8 :: u32)"

definition loss_received :: "u8 \<Rightarrow> u8" where
  "loss_received l = ucast (ucast l * 7 div 8 :: u32)"

definition update_loss_rate_ewma :: "rivr_neighbor_t \<Rightarrow> u16 \<Rightarrow> rivr_neighbor_t" where
  "update_loss_rate_ewma n seq =
     (let gap = seq - nb_last_seq n - 1;
          gap' = (if gap > NTABLE_LOSS_MAX_GAP then NTABLE_LOSS_MAX_GAP else gap)
      in n\<lparr>nb_loss_rate := loss_received ((loss_missed ^^ unat gap') (nb_loss_rate n))\<rparr>)"

definition recompute_etx :: "rivr_neighbor_t \<Rightarrow> rivr_neighbor_t" where
  "recompute_etx n =
     (let delivery_pct = 100 - ucast (nb_loss_rate n) :: u32 in
      if delivery_pct = 0 then n\<lparr>nb_etx_x8 := 255\<rparr>
      else
        let etx = 800 div delivery_pct;
            etx' = (if etx > 255 then 255 else if etx < 8 then 8 else etx)
        in n\<lparr>nb_etx_x8 := ucast etx'\<rparr>)"

section \<open>Operations\<close>

definition neighbor_table_init :: rivr_neighbor_table_t where
  "neighbor_table_init =
     \<lparr>nt_entries = replicate NTABLE_SIZE
        (neighbor_zero\<lparr>nb_lat_e7 := INT32_MIN, nb_lon_e7 := INT32_MIN\<rparr>), nt_count = 0\<rparr>"

definition neighbor_refresh ::
  "rivr_neighbor_t \<Rightarrow> u16 \<Rightarrow> u8 \<Rightarrow> u8 \<Rightarrow> u16 \<Rightarrow> rivr_neighbor_t" where
  "neighbor_refresh n rssi_dbm snr_db hop_count seq =
     (let n1 = n\<lparr>nb_rssi_avg := word_of_int ((sint (nb_rssi_avg n) * 7 + sint rssi_dbm) sdiv 8),
                 nb_snr_avg := word_of_int ((sint (nb_snr_avg n) * 7 + sint snr_db) sdiv 8)\<rparr>;
          n2 = (if nb_rx_ok n1 > 0 then update_loss_rate_ewma n1 seq else n1);
          n3 = (if hop_count < nb_hop_count n2 then n2\<lparr>nb_hop_count := hop_count\<rparr> else n2)
      in recompute_etx n3)"

definition neighbor_seed :: "u32 \<Rightarrow> u16 \<Rightarrow> u8 \<Rightarrow> u8 \<Rightarrow> rivr_neighbor_t" where
  "neighbor_seed node_id rssi_dbm snr_db hop_count =
     neighbor_zero\<lparr>nb_neighbor_id := node_id, nb_rssi_avg := rssi_dbm, nb_snr_avg := snr_db,
       nb_loss_rate := 0, nb_hop_count := hop_count, nb_etx_x8 := 8, nb_avg_frame_len := 0\<rparr>"

definition neighbor_touch ::
  "rivr_neighbor_t \<Rightarrow> u8 \<Rightarrow> u16 \<Rightarrow> u8 \<Rightarrow> u32 \<Rightarrow> rivr_neighbor_t" where
  "neighbor_touch n hop_count seq frame_len now =
     (let n1 = (if frame_len > 0 then
                  if nb_avg_frame_len n = 0 then n\<lparr>nb_avg_frame_len := frame_len\<rparr>
                  else n\<lparr>nb_avg_frame_len :=
                         ucast ((ucast (nb_avg_frame_len n) * 7 + ucast frame_len) div 8 :: u32)\<rparr>
                else n);
          n2 = n1\<lparr>nb_last_seq := seq, nb_last_seen_ms := now, nb_rx_ok := nb_rx_ok n1 + 1,
                  nb_flags := nb_flags n1 AND NOT NTABLE_FLAG_STALE\<rparr>
      in if hop_count = 0 then n2\<lparr>nb_flags := nb_flags n2 OR NTABLE_FLAG_DIRECT\<rparr> else n2)"

text \<open>The C function returns a pointer to the entry; the model returns its index.\<close>

definition neighbor_update ::
  "rivr_neighbor_table_t \<Rightarrow> u32 \<Rightarrow> u16 \<Rightarrow> u8 \<Rightarrow> u8 \<Rightarrow> u16 \<Rightarrow> u8 \<Rightarrow> u32 \<Rightarrow>
   rivr_neighbor_table_t \<times> nat option"
where
  "neighbor_update tbl node_id rssi_dbm snr_db hop_count seq frame_len now =
     (if node_id = 0 then (tbl, None)
      else case find_slot tbl node_id of
        Some idx \<Rightarrow>
          (tbl\<lparr>nt_entries := (nt_entries tbl)[idx :=
             neighbor_touch (neighbor_refresh (nt_entries tbl ! idx) rssi_dbm snr_db hop_count seq)
               hop_count seq frame_len now]\<rparr>, Some idx)
      | None \<Rightarrow>
          let (slot, tbl1) =
                (if unat (nt_count tbl) < NTABLE_SIZE
                 then (unat (nt_count tbl), tbl\<lparr>nt_count := nt_count tbl + 1\<rparr>)
                 else (oldest_slot tbl, tbl))
          in (tbl1\<lparr>nt_entries := (nt_entries tbl1)[slot :=
                neighbor_touch (neighbor_seed node_id rssi_dbm snr_db hop_count)
                  hop_count seq frame_len now]\<rparr>, Some slot))"

definition neighbor_find ::
  "rivr_neighbor_table_t \<Rightarrow> u32 \<Rightarrow> u32 \<Rightarrow> rivr_neighbor_t option \<times> rivr_neighbor_table_t" where
  "neighbor_find tbl node_id now =
     (if node_id = 0 then (None, tbl)
      else case find_slot tbl node_id of
        None \<Rightarrow> (None, tbl)
      | Some i \<Rightarrow>
          let n = nt_entries tbl ! i; age = now - nb_last_seen_ms n in
          if age \<ge> NTABLE_EXPIRY_MS then (None, tbl)
          else
            let n' = (if age \<ge> NTABLE_STALE_MS
                      then n\<lparr>nb_flags := nb_flags n OR NTABLE_FLAG_STALE\<rparr>
                      else n\<lparr>nb_flags := nb_flags n AND NOT NTABLE_FLAG_STALE\<rparr>)
            in (Some n', tbl\<lparr>nt_entries := (nt_entries tbl)[i := n']\<rparr>))"

definition neighbor_base :: "rivr_neighbor_t \<Rightarrow> u32" where
  "neighbor_base n = word_of_int (clamp_i32 (sint (nb_rssi_avg n) + 140) 0 80 +
                                  clamp_i32 (sint (nb_snr_avg n) + 10) 0 20)"

definition neighbor_link_score :: "rivr_neighbor_t \<Rightarrow> u32 \<Rightarrow> u8" where
  "neighbor_link_score n now =
     (if nb_neighbor_id n = 0 then 0
      else
        let age = now - nb_last_seen_ms n in
        if age \<ge> NTABLE_EXPIRY_MS then 0
        else
          let after_loss = neighbor_base n * (100 - ucast (nb_loss_rate n)) div 100;
              score = after_loss * (NTABLE_EXPIRY_MS - age) div NTABLE_EXPIRY_MS
          in ucast (if score > 100 then 100 else score))"

definition neighbor_link_score_full :: "rivr_role \<Rightarrow> rivr_neighbor_t \<Rightarrow> u32 \<Rightarrow> u8" where
  "neighbor_link_score_full role n now =
     (if nb_neighbor_id n = 0 then 0
      else
        let age = now - nb_last_seen_ms n in
        if age \<ge> NTABLE_EXPIRY_MS then 0
        else
          let after_quality =
                (if RIVR_FEATURE_AIRTIME_ROUTING role
                 then neighbor_base n * 8 div ucast (if nb_etx_x8 n \<ge> 8 then nb_etx_x8 n else 8)
                 else neighbor_base n * (100 - ucast (nb_loss_rate n)) div 100);
              score = after_quality * (NTABLE_EXPIRY_MS - age) div NTABLE_EXPIRY_MS
          in ucast (if score > 100 then 100 else score))"

text \<open>The scan of \<open>neighbor_best\<close>: the best entry so far and its score.\<close>

fun neighbor_best_scan ::
  "rivr_role \<Rightarrow> u32 \<Rightarrow> rivr_neighbor_t list \<Rightarrow> rivr_neighbor_t option \<Rightarrow> u8 \<Rightarrow> rivr_neighbor_t option"
where
  "neighbor_best_scan role now [] best best_score = best"
| "neighbor_best_scan role now (n # ns) best best_score =
     (if nb_neighbor_id n = 0 then neighbor_best_scan role now ns best best_score
      else if now - nb_last_seen_ms n \<ge> NTABLE_EXPIRY_MS
      then neighbor_best_scan role now ns best best_score
      else
        let sc = neighbor_link_score_full role n now in
        if sc > best_score then neighbor_best_scan role now ns (Some n) sc
        else neighbor_best_scan role now ns best best_score)"

definition neighbor_best :: "rivr_role \<Rightarrow> rivr_neighbor_table_t \<Rightarrow> u32 \<Rightarrow> rivr_neighbor_t option" where
  "neighbor_best role tbl now =
     neighbor_best_scan role now (take (unat (nt_count tbl)) (nt_entries tbl)) None 0"

definition neighbor_set_flag :: "rivr_neighbor_table_t \<Rightarrow> u32 \<Rightarrow> u8 \<Rightarrow> rivr_neighbor_table_t" where
  "neighbor_set_flag tbl node_id flag =
     (if node_id = 0 then tbl
      else case find_slot tbl node_id of
        None \<Rightarrow> tbl
      | Some i \<Rightarrow> tbl\<lparr>nt_entries := (nt_entries tbl)[i :=
          (nt_entries tbl ! i)\<lparr>nb_flags := nb_flags (nt_entries tbl ! i) OR flag\<rparr>]\<rparr>)"

definition neighbor_set_position ::
  "rivr_neighbor_table_t \<Rightarrow> u32 \<Rightarrow> u32 \<Rightarrow> u32 \<Rightarrow> rivr_neighbor_table_t" where
  "neighbor_set_position tbl node_id lat lon =
     (if node_id = 0 then tbl
      else case find_slot tbl node_id of
        None \<Rightarrow> tbl
      | Some i \<Rightarrow> tbl\<lparr>nt_entries := (nt_entries tbl)[i :=
          (nt_entries tbl ! i)\<lparr>nb_lat_e7 := lat, nb_lon_e7 := lon\<rparr>]\<rparr>)"

text \<open>The expiry loop: the last entry is moved into an expired slot, which is then looked at again.\<close>

function neighbor_expire_loop ::
  "u32 \<Rightarrow> nat \<Rightarrow> u8 \<Rightarrow> rivr_neighbor_table_t \<Rightarrow> rivr_neighbor_table_t \<times> u8" where
  "neighbor_expire_loop now i removed tbl =
     (if i < unat (nt_count tbl) then
        if now - nb_last_seen_ms (nt_entries tbl ! i) \<ge> NTABLE_EXPIRY_MS then
          let last = unat (nt_count tbl - 1);
              es1 = (if i \<noteq> last then (nt_entries tbl)[i := nt_entries tbl ! last]
                     else nt_entries tbl)
          in neighbor_expire_loop now i (removed + 1)
               (tbl\<lparr>nt_entries := es1[last := neighbor_zero], nt_count := nt_count tbl - 1\<rparr>)
        else neighbor_expire_loop now (Suc i) removed tbl
      else (tbl, removed))"
  by pat_completeness auto

termination
proof (relation "measure (\<lambda>(now, i, removed, tbl). unat (nt_count tbl) - i)", goal_cases)
  case (2 now i removed tbl)
  then have "nt_count tbl \<noteq> 0" by auto
  with 2 show ?case by (simp add: unat_minus_one)
qed auto

definition neighbor_table_expire :: "rivr_neighbor_table_t \<Rightarrow> u32 \<Rightarrow> rivr_neighbor_table_t \<times> u8" where
  "neighbor_table_expire tbl now = neighbor_expire_loop now 0 0 tbl"

declare neighbor_expire_loop.simps [simp del]

section \<open>Arithmetic of the estimates\<close>

lemma unat_loss_missed: "unat (loss_missed l) = (unat l * 7 + 100) div 8"
  using unat_u8_less [of l]
  by (simp add: loss_missed_def unat_ucast_mod unat_div_distrib unat_word_ariths)

lemma unat_loss_received: "unat (loss_received l) = unat l * 7 div 8"
  using unat_u8_less [of l]
  by (simp add: loss_received_def unat_ucast_mod unat_div_distrib unat_word_ariths)

lemma loss_missed_le: "unat l \<le> 100 \<Longrightarrow> unat ((loss_missed ^^ k) l) \<le> 100"
  by (induction k) (auto simp: unat_loss_missed)

lemma update_loss_rate_le:
  assumes "unat (nb_loss_rate n) \<le> 100"
  shows "unat (nb_loss_rate (update_loss_rate_ewma n seq)) \<le> 100"
proof -
  have "unat ((loss_missed ^^ k) (nb_loss_rate n)) \<le> 100" for k
    using assms by (rule loss_missed_le)
  moreover have "unat (loss_received l) \<le> 100" if "unat l \<le> 100" for l
    using that by (simp add: unat_loss_received)
  ultimately show ?thesis by (simp add: update_loss_rate_ewma_def Let_def)
qed

lemma unat_delivery:
  "unat l \<le> 100 \<Longrightarrow> unat (100 - ucast (l :: u8) :: u32) = 100 - unat l"
  by (subst unat_sub_le) (simp_all add: word_le_nat_alt)

lemma unat_recompute_etx:
  assumes "unat (nb_loss_rate n) \<le> 100"
  shows "unat (nb_etx_x8 (recompute_etx n)) =
         (if nb_loss_rate n = 100 then 255 else min 255 (800 div (100 - unat (nb_loss_rate n))))"
proof -
  let ?l = "unat (nb_loss_rate n)" and ?d = "100 - ucast (nb_loss_rate n) :: u32"
  have d: "unat ?d = 100 - ?l" using assms by (rule unat_delivery)
  have eq: "nb_loss_rate n = 100 \<longleftrightarrow> ?l = 100" by (simp add: word_eq_unat)
  have z: "?d = 0 \<longleftrightarrow> ?l = 100"
    unfolding word_eq_unat [of ?d] d using assms by auto
  have q: "unat (800 div ?d) = 800 div (100 - ?l)" by (simp add: unat_div_distrib d)
  have "8 \<le> 800 div (100 - ?l)" if "?l \<noteq> 100"
  proof -
    have "800 div 100 \<le> 800 div (100 - ?l)" using that assms by (intro div_le_mono2) auto
    then show ?thesis by simp
  qed
  then show ?thesis
    using q z eq
    by (auto simp: recompute_etx_def Let_def unat_ucast_mod word_less_nat_alt min_def)
qed

lemma recompute_etx_range:
  assumes "unat (nb_loss_rate n) \<le> 100"
  shows "8 \<le> unat (nb_etx_x8 (recompute_etx n))"
proof (cases "nb_loss_rate n = 100")
  case False
  then have "unat (nb_loss_rate n) < 100"
    using assms word_eq_unat [of "nb_loss_rate n" 100] by simp
  then have "800 div 100 \<le> 800 div (100 - unat (nb_loss_rate n))" by (intro div_le_mono2) auto
  then show ?thesis using False by (simp add: unat_recompute_etx [OF assms])
qed (simp add: unat_recompute_etx [OF assms])

lemma recompute_etx_same [simp]:
  "nb_neighbor_id (recompute_etx n) = nb_neighbor_id n"
  "nb_loss_rate (recompute_etx n) = nb_loss_rate n"
  "nb_last_seen_ms (recompute_etx n) = nb_last_seen_ms n"
  by (simp_all add: recompute_etx_def Let_def)

section \<open>Scores\<close>

definition base_nat :: "rivr_neighbor_t \<Rightarrow> nat" where
  "base_nat n = nat (clamp_i32 (sint (nb_rssi_avg n) + 140) 0 80 +
                     clamp_i32 (sint (nb_snr_avg n) + 10) 0 20)"

lemma base_nat_le: "base_nat n \<le> 100"
  using clamp_i32_bounds [of 0 80 "sint (nb_rssi_avg n) + 140"]
    clamp_i32_bounds [of 0 20 "sint (nb_snr_avg n) + 10"]
  by (auto simp: base_nat_def nat_le_iff)

lemma unat_neighbor_base: "unat (neighbor_base n) = base_nat n"
proof -
  have "0 \<le> clamp_i32 (sint (nb_rssi_avg n) + 140) 0 80 + clamp_i32 (sint (nb_snr_avg n) + 10) 0 20"
    "clamp_i32 (sint (nb_rssi_avg n) + 140) 0 80 + clamp_i32 (sint (nb_snr_avg n) + 10) 0 20 \<le> 100"
    using clamp_i32_bounds [of 0 80 "sint (nb_rssi_avg n) + 140"]
      clamp_i32_bounds [of 0 20 "sint (nb_snr_avg n) + 10"] by simp_all
  then show ?thesis
    unfolding neighbor_base_def base_nat_def by (intro unat_word_of_int_small) simp_all
qed

lemma decay_exact:
  assumes "unat q \<le> 100" "age < (120000 :: u32)"
  shows "unat (q * (120000 - age) div 120000) = unat q * (120000 - unat age) div 120000"
    "unat q * (120000 - unat age) div 120000 \<le> unat q"
proof -
  have a: "unat age < 120000" using assms(2) by (simp add: word_less_nat_alt)
  have s: "unat (120000 - age) = 120000 - unat age"
    using assms(2) by (subst unat_sub_le) (auto simp: less_imp_le)
  have "unat q * (120000 - unat age) \<le> 100 * 120000" using assms(1) by (intro mult_mono) auto
  then have "unat (q * (120000 - age)) = unat q * (120000 - unat age)"
    by (simp add: unat_word_ariths s)
  then show "unat (q * (120000 - age) div 120000) = unat q * (120000 - unat age) div 120000"
    by (simp add: unat_div_distrib)
  have "unat q * (120000 - unat age) \<le> unat q * 120000" by (intro mult_le_mono2) simp
  from div_le_mono [OF this, of 120000]
  show "unat q * (120000 - unat age) div 120000 \<le> unat q" by simp
qed

lemma clamp_100: "unat s \<le> 100 \<Longrightarrow> unat (ucast (if s > 100 then 100 else s :: u32) :: u8) = unat s"
  by (simp add: unat_ucast_mod word_less_nat_alt)

lemma loss_scaled:
  assumes "unat b \<le> 100" "unat (l :: u8) \<le> 100"
  shows "unat (b * (100 - ucast l) div 100 :: u32) = unat b * (100 - unat l) div 100"
    "unat b * (100 - unat l) div 100 \<le> 100"
proof -
  have le: "unat b * (100 - unat l) \<le> 100 * 100" using assms by (intro mult_mono) auto
  then have "unat (b * (100 - ucast l)) = unat b * (100 - unat l)"
    by (simp add: unat_word_ariths unat_delivery [OF assms(2)])
  then show "unat (b * (100 - ucast l) div 100) = unat b * (100 - unat l) div 100"
    by (simp add: unat_div_distrib)
  show "unat b * (100 - unat l) div 100 \<le> 100" using div_le_mono [OF le, of 100] by simp
qed

lemma etx_scaled:
  assumes "unat b \<le> 100"
  shows "unat (b * 8 div ucast (if e \<ge> 8 then e else 8 :: u8) :: u32) = unat b * 8 div max 8 (unat e)"
    "unat b * 8 div max 8 (unat e) \<le> 100"
proof -
  have "unat (b * 8) = unat b * 8" using assms by (simp add: unat_word_ariths)
  then show "unat (b * 8 div ucast (if e \<ge> 8 then e else 8)) = unat b * 8 div max 8 (unat e)"
    by (simp add: unat_div_distrib max_def word_le_nat_alt)
  have "unat b * 8 div max 8 (unat e) \<le> unat b * 8 div 8" by (intro div_le_mono2) auto
  then show "unat b * 8 div max 8 (unat e) \<le> 100" using assms by simp
qed

text \<open>The quality of a link before ageing, in exact arithmetic.\<close>

definition quality_nat :: "rivr_role \<Rightarrow> rivr_neighbor_t \<Rightarrow> nat" where
  "quality_nat role n =
     (if RIVR_FEATURE_AIRTIME_ROUTING role
      then base_nat n * 8 div max 8 (unat (nb_etx_x8 n))
      else base_nat n * (100 - unat (nb_loss_rate n)) div 100)"

lemma neighbor_link_score_full_exact:
  assumes "unat (nb_loss_rate n) \<le> 100" "nb_neighbor_id n \<noteq> 0"
    and "now - nb_last_seen_ms n < NTABLE_EXPIRY_MS"
  shows "unat (neighbor_link_score_full role n now) =
         quality_nat role n * (120000 - unat (now - nb_last_seen_ms n)) div 120000"
    "quality_nat role n \<le> 100"
proof -
  let ?b = "neighbor_base n"
  let ?q = "if RIVR_FEATURE_AIRTIME_ROUTING role
            then ?b * 8 div ucast (if nb_etx_x8 n \<ge> 8 then nb_etx_x8 n else 8)
            else ?b * (100 - ucast (nb_loss_rate n)) div 100"
  have b: "unat ?b \<le> 100" by (simp add: unat_neighbor_base base_nat_le)
  have q: "unat ?q = quality_nat role n"
    using loss_scaled(1) [OF b assms(1)] etx_scaled(1) [OF b]
    by (simp add: quality_nat_def unat_neighbor_base)
  show le: "quality_nat role n \<le> 100"
    using loss_scaled(2) [OF b assms(1)] etx_scaled(2) [OF b]
    by (simp add: quality_nat_def unat_neighbor_base)
  have "unat ?q \<le> 100" using q le by simp
  note d = decay_exact [OF this assms(3)]
  have "unat (?q * (120000 - (now - nb_last_seen_ms n)) div 120000) \<le> 100"
    unfolding d(1) using d(2) q le by linarith
  from clamp_100 [OF this] assms(2,3) d(1) q
  show "unat (neighbor_link_score_full role n now) =
         quality_nat role n * (120000 - unat (now - nb_last_seen_ms n)) div 120000"
    by (simp add: neighbor_link_score_full_def Let_def not_le leD)
qed

section \<open>The table invariant\<close>

definition nt_live :: "rivr_neighbor_table_t \<Rightarrow> rivr_neighbor_t list" where
  "nt_live tbl = take (unat (nt_count tbl)) (nt_entries tbl)"

definition neighbor_ok :: "rivr_neighbor_t \<Rightarrow> bool" where
  "neighbor_ok n \<longleftrightarrow> nb_neighbor_id n \<noteq> 0 \<and> unat (nb_loss_rate n) \<le> 100 \<and> 8 \<le> unat (nb_etx_x8 n)"

definition ntable_ok :: "rivr_neighbor_table_t \<Rightarrow> bool" where
  "ntable_ok tbl \<longleftrightarrow> length (nt_entries tbl) = NTABLE_SIZE \<and> unat (nt_count tbl) \<le> NTABLE_SIZE \<and>
     distinct (map nb_neighbor_id (nt_live tbl)) \<and> (\<forall>n \<in> set (nt_live tbl). neighbor_ok n)"

lemma length_nt_live: "ntable_ok tbl \<Longrightarrow> length (nt_live tbl) = unat (nt_count tbl)"
  by (simp add: ntable_ok_def nt_live_def)

lemma nt_live_nth: "i < unat (nt_count tbl) \<Longrightarrow> nt_live tbl ! i = nt_entries tbl ! i"
  by (simp add: nt_live_def)

lemma find_slot_SomeD:
  assumes "find_slot tbl k = Some i" "ntable_ok tbl"
  shows "i < unat (nt_count tbl)" "nb_neighbor_id (nt_entries tbl ! i) = k"
    "neighbor_ok (nt_entries tbl ! i)"
proof -
  have i: "i < length (nt_live tbl) \<and> nb_neighbor_id (nt_live tbl ! i) = k"
    using find_idx_SomeD [OF assms(1) [unfolded find_slot_def]] by (auto simp: nt_live_def)
  then show lt: "i < unat (nt_count tbl)" using length_nt_live [OF assms(2)] by simp
  with i show "nb_neighbor_id (nt_entries tbl ! i) = k" by (simp add: nt_live_nth)
  from i assms(2) have "neighbor_ok (nt_live tbl ! i)" by (simp add: ntable_ok_def)
  with lt show "neighbor_ok (nt_entries tbl ! i)" by (simp add: nt_live_nth)
qed

lemma find_slot_None: "find_slot tbl k = None \<longleftrightarrow> k \<notin> nb_neighbor_id ` set (nt_live tbl)"
  by (auto simp: find_slot_def find_idx_None nt_live_def)

text \<open>Rewriting one live entry in place keeps the invariant when its identity does not change.\<close>

lemma ntable_ok_update_in_place:
  assumes ok: "ntable_ok tbl" and i: "i < unat (nt_count tbl)"
    and same: "nb_neighbor_id n = nb_neighbor_id (nt_entries tbl ! i)" and n: "neighbor_ok n"
  shows "ntable_ok (tbl\<lparr>nt_entries := (nt_entries tbl)[i := n]\<rparr>)"
proof -
  have live: "nt_live (tbl\<lparr>nt_entries := (nt_entries tbl)[i := n]\<rparr>) = (nt_live tbl)[i := n]"
    by (simp add: nt_live_def take_update_swap)
  have "map nb_neighbor_id ((nt_live tbl)[i := n]) = map nb_neighbor_id (nt_live tbl)"
    using i same length_nt_live [OF ok] by (simp add: map_update nt_live_nth [symmetric] list_update_same_conv)
  moreover have "set ((nt_live tbl)[i := n]) \<subseteq> insert n (set (nt_live tbl))"
    by (rule set_update_subset_insert)
  ultimately show ?thesis
    using ok n unfolding ntable_ok_def live by auto
qed

lemma neighbor_touch_ok: "neighbor_ok n \<Longrightarrow> neighbor_ok (neighbor_touch n h s f t)"
  by (simp add: neighbor_ok_def neighbor_touch_def Let_def)

lemma neighbor_touch_id [simp]: "nb_neighbor_id (neighbor_touch n h s f t) = nb_neighbor_id n"
  by (simp add: neighbor_touch_def Let_def)

lemma neighbor_refresh_id [simp]: "nb_neighbor_id (neighbor_refresh n r s h q) = nb_neighbor_id n"
  by (simp add: neighbor_refresh_def update_loss_rate_ewma_def Let_def)

lemma neighbor_refresh_ok:
  assumes "neighbor_ok n" shows "neighbor_ok (neighbor_refresh n r s h q)"
proof -
  let ?n3 = "let n1 = n\<lparr>nb_rssi_avg := word_of_int ((sint (nb_rssi_avg n) * 7 + sint r) sdiv 8),
                 nb_snr_avg := word_of_int ((sint (nb_snr_avg n) * 7 + sint s) sdiv 8)\<rparr>;
          n2 = (if nb_rx_ok n1 > 0 then update_loss_rate_ewma n1 q else n1)
      in (if h < nb_hop_count n2 then n2\<lparr>nb_hop_count := h\<rparr> else n2)"
  have loss: "unat (nb_loss_rate ?n3) \<le> 100"
    using assms update_loss_rate_le [of "n\<lparr>nb_rssi_avg := x, nb_snr_avg := y\<rparr>" q for x y]
    by (auto simp: neighbor_ok_def Let_def)
  have "neighbor_refresh n r s h q = recompute_etx ?n3"
    by (simp add: neighbor_refresh_def Let_def)
  moreover have "nb_neighbor_id (neighbor_refresh n r s h q) \<noteq> 0"
    using assms by (simp add: neighbor_ok_def)
  ultimately show ?thesis
    using recompute_etx_range [OF loss] loss by (simp add: neighbor_ok_def)
qed

lemma neighbor_seed_ok: "k \<noteq> 0 \<Longrightarrow> neighbor_ok (neighbor_seed k r s h)"
  by (simp add: neighbor_seed_def neighbor_ok_def neighbor_zero_def)

lemma neighbor_seed_id [simp]: "nb_neighbor_id (neighbor_seed k r s h) = k"
  by (simp add: neighbor_seed_def)

lemma oldest_fold_less:
  "(\<forall>i \<in> set is. i < N) \<Longrightarrow> snd acc < N \<Longrightarrow>
   snd (fold (\<lambda>i (min_ts, oldest). let ts = f i in if ts < min_ts then (ts, i) else (min_ts, oldest))
     is acc) < (N :: nat)"
  by (induction "is" arbitrary: acc) (auto simp: Let_def split: prod.splits)

lemma oldest_slot_less: "0 < unat (nt_count tbl) \<Longrightarrow> oldest_slot tbl < unat (nt_count tbl)"
  unfolding oldest_slot_def by (rule oldest_fold_less) auto

lemma ntable_ok_append:
  assumes ok: "ntable_ok tbl" and lt: "unat (nt_count tbl) < NTABLE_SIZE"
    and n: "neighbor_ok n" and fresh: "nb_neighbor_id n \<notin> nb_neighbor_id ` set (nt_live tbl)"
  shows "ntable_ok (tbl\<lparr>nt_count := nt_count tbl + 1, nt_entries := (nt_entries tbl)[unat (nt_count tbl) := n]\<rparr>)"
proof -
  let ?c = "unat (nt_count tbl)"
  have c: "unat (nt_count tbl + 1) = Suc ?c" using lt by (simp add: unat_word_ariths)
  have "take (Suc ?c) ((nt_entries tbl)[?c := n]) = nt_live tbl @ [n]"
    using ok lt by (simp add: take_Suc_conv_app_nth nt_live_def ntable_ok_def)
  then show ?thesis
    using ok lt n fresh c by (auto simp: ntable_ok_def nt_live_def)
qed

lemma ntable_ok_replace:
  assumes ok: "ntable_ok tbl" and i: "i < unat (nt_count tbl)"
    and n: "neighbor_ok n" and fresh: "nb_neighbor_id n \<notin> nb_neighbor_id ` set (nt_live tbl)"
  shows "ntable_ok (tbl\<lparr>nt_entries := (nt_entries tbl)[i := n]\<rparr>)"
proof -
  have live: "nt_live (tbl\<lparr>nt_entries := (nt_entries tbl)[i := n]\<rparr>) = (nt_live tbl)[i := n]"
    by (simp add: nt_live_def take_update_swap)
  have "distinct (map nb_neighbor_id ((nt_live tbl)[i := n]))"
    using ok fresh unfolding map_update by (intro distinct_list_update) (auto simp: ntable_ok_def)
  moreover have "set ((nt_live tbl)[i := n]) \<subseteq> insert n (set (nt_live tbl))"
    by (rule set_update_subset_insert)
  ultimately show ?thesis using ok n unfolding ntable_ok_def live by auto
qed

lemma neighbor_table_init_ok: "ntable_ok neighbor_table_init"
  by (simp add: ntable_ok_def neighbor_table_init_def nt_live_def)

lemma neighbor_update_ok:
  assumes ok: "ntable_ok tbl"
  shows "ntable_ok (fst (neighbor_update tbl k r s h q f t))"
proof (cases "k = 0 \<or> find_slot tbl k \<noteq> None")
  case True
  then show ?thesis
    using ok find_slot_SomeD [OF _ ok, of k]
    by (auto simp: neighbor_update_def intro!: ntable_ok_update_in_place neighbor_touch_ok neighbor_refresh_ok)
next
  case False
  then have fresh: "k \<notin> nb_neighbor_id ` set (nt_live tbl)" by (simp add: find_slot_None)
  let ?n = "neighbor_touch (neighbor_seed k r s h) h q f t"
  have n: "neighbor_ok ?n" using False by (simp add: neighbor_touch_ok neighbor_seed_ok)
  show ?thesis
  proof (cases "unat (nt_count tbl) < NTABLE_SIZE")
    case True
    with ntable_ok_append [OF ok True n] fresh False show ?thesis
      by (simp add: neighbor_update_def)
  next
    case full: False
    then have "oldest_slot tbl < unat (nt_count tbl)" by (intro oldest_slot_less) simp
    with ntable_ok_replace [OF ok this n] fresh False full show ?thesis
      by (simp add: neighbor_update_def)
  qed
qed

lemma neighbor_find_ok: "ntable_ok tbl \<Longrightarrow> ntable_ok (snd (neighbor_find tbl k t))"
  by (auto simp: neighbor_find_def Let_def find_slot_SomeD split: option.splits
      intro!: ntable_ok_update_in_place) (use find_slot_SomeD in \<open>auto simp: neighbor_ok_def\<close>)

lemma neighbor_set_flag_ok: "ntable_ok tbl \<Longrightarrow> ntable_ok (neighbor_set_flag tbl k f)"
  by (auto simp: neighbor_set_flag_def find_slot_SomeD split: option.splits
      intro!: ntable_ok_update_in_place) (use find_slot_SomeD in \<open>auto simp: neighbor_ok_def\<close>)

lemma neighbor_set_position_ok: "ntable_ok tbl \<Longrightarrow> ntable_ok (neighbor_set_position tbl k x y)"
  by (auto simp: neighbor_set_position_def find_slot_SomeD split: option.splits
      intro!: ntable_ok_update_in_place) (use find_slot_SomeD in \<open>auto simp: neighbor_ok_def\<close>)

section \<open>Expiry\<close>

definition nb_alive :: "u32 \<Rightarrow> rivr_neighbor_t \<Rightarrow> bool" where
  "nb_alive now n \<longleftrightarrow> now - nb_last_seen_ms n < NTABLE_EXPIRY_MS"

lemma mset_swap_remove:
  assumes "i < length xs"
  shows "mset (butlast (xs[i := last xs])) = mset xs - {#xs ! i#}"
proof -
  obtain ys z where xs: "xs = ys @ [z]" using assms by (cases xs rule: rev_cases) auto
  show ?thesis
  proof (cases "i < length ys")
    case True
    then have "ys ! i \<in># mset ys" by simp
    with True show ?thesis by (simp add: xs list_update_append mset_update nth_append)
  next
    case False
    then have "i = length ys" using assms by (simp add: xs)
    then show ?thesis by (simp add: xs)
  qed
qed

lemma expire_step_live:
  assumes "i < c" "c \<le> length es" "c = Suc l"
  shows "take l ((if i \<noteq> l then es[i := es ! l] else es)[l := z]) = butlast ((take c es)[i := last (take c es)])"
proof -
  have "last (take c es) = es ! l" using assms by (simp add: take_Suc_conv_app_nth)
  moreover have "(take c es)[i := es ! l] = take c (es[i := es ! l])" by (simp add: take_update_swap)
  moreover have "es[l := es ! l] = es" by simp
  ultimately show ?thesis using assms by (auto simp: butlast_take)
qed

lemma filter_mset_remove: "x \<in># M \<Longrightarrow> \<not> P x \<Longrightarrow> filter_mset P (M - {#x#}) = filter_mset P M"
  by (metis diff_single_trivial filter_diff_mset filter_mset_add_mset multi_member_split add_mset_remove_trivial)

lemma neighbor_expire_loop_spec:
  assumes "unat (nt_count tbl) \<le> length (nt_entries tbl)" "i \<le> unat (nt_count tbl)"
    and "\<forall>j < i. nb_alive now (nt_live tbl ! j)"
    and "neighbor_expire_loop now i removed tbl = (tbl', removed')"
  shows "mset (nt_live tbl') = filter_mset (nb_alive now) (mset (nt_live tbl)) \<and>
         length (nt_entries tbl') = length (nt_entries tbl) \<and>
         unat (nt_count tbl') \<le> unat (nt_count tbl) \<and>
         removed' = removed + (nt_count tbl - nt_count tbl')"
  using assms
proof (induction now i removed tbl rule: neighbor_expire_loop.induct)
  case (1 now i removed tbl)
  let ?c = "unat (nt_count tbl)" and ?es = "nt_entries tbl"
  show ?case
  proof (cases "i < ?c")
    case False
    then have "neighbor_expire_loop now i removed tbl = (tbl, removed)"
      by (subst neighbor_expire_loop.simps) simp
    then have "tbl' = tbl" "removed' = removed" using "1.prems"(4) by simp_all
    moreover from False have "i = ?c" using "1.prems"(2) by simp
    moreover have "\<forall>n \<in> set (nt_live tbl). nb_alive now n"
      using "1.prems"(1,3) \<open>i = ?c\<close> by (auto simp: in_set_conv_nth nt_live_def)
    ultimately show ?thesis by (simp flip: mset_filter)
  next
    case i: True
    have nth: "nt_live tbl ! i = ?es ! i" using i by (rule nt_live_nth)
    show ?thesis
    proof (cases "nb_alive now (?es ! i)")
      case True
      then have "neighbor_expire_loop now i removed tbl = neighbor_expire_loop now (Suc i) removed tbl"
        using i by (subst neighbor_expire_loop.simps) (auto simp: nb_alive_def dest: leD)
      with "1.prems"(4) have "neighbor_expire_loop now (Suc i) removed tbl = (tbl', removed')" by simp
      moreover have "\<forall>j < Suc i. nb_alive now (nt_live tbl ! j)"
        using "1.prems"(3) True nth by (auto simp: less_Suc_eq)
      ultimately show ?thesis
        using "1.IH"(2) [OF i] True i "1.prems"(1) by (simp add: nb_alive_def not_le)
    next
      case False
      define l where "l = unat (nt_count tbl - 1)"
      have "nt_count tbl \<noteq> 0" using i by auto
      with i have cl: "?c = Suc l" by (simp add: l_def unat_minus_one)
      define tbl1 where "tbl1 = tbl\<lparr>nt_entries := (if i \<noteq> l then ?es[i := ?es ! l] else ?es)[l := neighbor_zero],
                                     nt_count := nt_count tbl - 1\<rparr>"
      have live1: "nt_live tbl1 = butlast ((nt_live tbl)[i := last (nt_live tbl)])"
        using expire_step_live [OF i "1.prems"(1) cl] by (simp add: tbl1_def nt_live_def flip: l_def)
      have len: "length (nt_live tbl) = ?c" using "1.prems"(1) by (simp add: nt_live_def)
      have "neighbor_expire_loop now i removed tbl = neighbor_expire_loop now i (removed + 1) tbl1"
        unfolding tbl1_def l_def using i False
        by (subst neighbor_expire_loop.simps) (simp add: nb_alive_def Let_def not_less)
      with "1.prems"(4) have run: "neighbor_expire_loop now i (removed + 1) tbl1 = (tbl', removed')"
        by simp
      have c1: "unat (nt_count tbl1) = l" by (simp add: tbl1_def l_def)
      have pre: "\<forall>j < i. nb_alive now (nt_live tbl1 ! j)"
        using "1.prems"(3) i len by (simp add: live1 nth_butlast cl)
      have ex: "now - nb_last_seen_ms (?es ! i) \<ge> NTABLE_EXPIRY_MS"
        using False by (simp add: nb_alive_def not_less)
      have len1: "length (nt_entries tbl1) = length ?es" by (simp add: tbl1_def)
      note IH = "1.IH"(1) [OF i ex l_def refl, folded tbl1_def, OF _ _ pre run, unfolded len1 c1]
      have "mset (nt_live tbl1) = mset (nt_live tbl) - {#?es ! i#}"
        using mset_swap_remove [of i "nt_live tbl"] i len nth by (simp add: live1)
      moreover have "?es ! i \<in># mset (nt_live tbl)"
        using i len nth [symmetric] by simp
      ultimately have "filter_mset (nb_alive now) (mset (nt_live tbl1)) =
                       filter_mset (nb_alive now) (mset (nt_live tbl))"
        using False by (metis filter_mset_remove)
      moreover have "removed + 1 + (nt_count tbl1 - nt_count tbl') = removed + (nt_count tbl - nt_count tbl')"
        by (simp add: tbl1_def)
      ultimately show ?thesis using IH i cl "1.prems"(1) by simp
    qed
  qed
qed

lemma neighbor_expire_live:
  assumes "ntable_ok tbl" "neighbor_table_expire tbl now = (tbl', r)"
  shows "mset (nt_live tbl') = filter_mset (nb_alive now) (mset (nt_live tbl))"
    "length (nt_entries tbl') = NTABLE_SIZE" "unat (nt_count tbl') \<le> unat (nt_count tbl)"
    "r = nt_count tbl - nt_count tbl'"
  using neighbor_expire_loop_spec [of tbl 0 now 0 tbl' r] assms
  by (simp_all add: neighbor_table_expire_def ntable_ok_def)

lemma neighbor_expire_ok:
  assumes ok: "ntable_ok tbl" shows "ntable_ok (fst (neighbor_table_expire tbl now))"
proof -
  obtain tbl' r where e: "neighbor_table_expire tbl now = (tbl', r)" by (cases "neighbor_table_expire tbl now")
  note s = neighbor_expire_live [OF ok e]
  have ms: "mset (nt_live tbl') = mset (filter (nb_alive now) (nt_live tbl))" using s(1) by simp
  then have "mset (map nb_neighbor_id (nt_live tbl')) = mset (map nb_neighbor_id (filter (nb_alive now) (nt_live tbl)))"
    by (metis mset_map)
  moreover have "distinct (map nb_neighbor_id (filter (nb_alive now) (nt_live tbl)))"
    using ok by (simp add: ntable_ok_def distinct_map_filter)
  ultimately have "distinct (map nb_neighbor_id (nt_live tbl'))"
    by (metis mset_eq_imp_distinct_iff)
  moreover have "set (nt_live tbl') \<subseteq> set (nt_live tbl)"
    using mset_eq_setD [OF ms] by auto
  ultimately show ?thesis using ok s(2,3) by (auto simp: e ntable_ok_def)
qed

section \<open>Reachable tables\<close>

text \<open>The tables a node can hold: the initial one and whatever the operations make of it.\<close>

inductive ntable_reachable :: "rivr_neighbor_table_t \<Rightarrow> bool" where
  reach_init: "ntable_reachable neighbor_table_init"
| reach_update: "ntable_reachable t \<Longrightarrow> ntable_reachable (fst (neighbor_update t k r s h q f now))"
| reach_find: "ntable_reachable t \<Longrightarrow> ntable_reachable (snd (neighbor_find t k now))"
| reach_flag: "ntable_reachable t \<Longrightarrow> ntable_reachable (neighbor_set_flag t k f)"
| reach_position: "ntable_reachable t \<Longrightarrow> ntable_reachable (neighbor_set_position t k x y)"
| reach_expire: "ntable_reachable t \<Longrightarrow> ntable_reachable (fst (neighbor_table_expire t now))"

lemma ntable_reachable_ok: "ntable_reachable t \<Longrightarrow> ntable_ok t"
  by (induction rule: ntable_reachable.induct)
     (auto intro: neighbor_table_init_ok neighbor_update_ok neighbor_find_ok neighbor_set_flag_ok
        neighbor_set_position_ok neighbor_expire_ok)

section \<open>The best neighbour\<close>

lemma neighbor_best_scan_spec:
  "neighbor_best_scan role now ns best sc = Some n \<Longrightarrow>
   (best = Some n \<and> (\<forall>x \<in> set ns. neighbor_link_score_full role x now \<le> sc)) \<or>
   (n \<in> set ns \<and> sc < neighbor_link_score_full role n now \<and>
    (\<forall>x \<in> set ns. neighbor_link_score_full role x now \<le> neighbor_link_score_full role n now))"
proof (induction ns arbitrary: best sc)
  case (Cons x xs)
  have dead: "nb_neighbor_id x = 0 \<or> now - nb_last_seen_ms x \<ge> NTABLE_EXPIRY_MS \<Longrightarrow>
      neighbor_link_score_full role x now = 0"
    by (auto simp: neighbor_link_score_full_def Let_def)
  show ?case
  proof (cases "neighbor_link_score_full role x now > sc")
    case True
    then have "\<not> (nb_neighbor_id x = 0 \<or> now - nb_last_seen_ms x \<ge> NTABLE_EXPIRY_MS)"
      using dead by auto
    with Cons.prems True
    have "neighbor_best_scan role now xs (Some x) (neighbor_link_score_full role x now) = Some n"
      by (simp add: Let_def)
    from Cons.IH [OF this] True show ?thesis by auto
  next
    case False
    with Cons.prems have "neighbor_best_scan role now xs best sc = Some n"
      by (simp add: Let_def split: if_splits)
    from Cons.IH [OF this] False show ?thesis by (auto simp: not_less)
  qed
qed simp

lemma neighbor_best_max:
  assumes "neighbor_best role tbl now = Some n"
  shows "n \<in> set (nt_live tbl)" "0 < neighbor_link_score_full role n now"
    "\<forall>x \<in> set (nt_live tbl). neighbor_link_score_full role x now \<le> neighbor_link_score_full role n now"
  using neighbor_best_scan_spec [of role now "nt_live tbl" None 0 n] assms
  by (auto simp: neighbor_best_def nt_live_def)

section \<open>Properties\<close>

text \<open>The neighbour table stays well formed. In every table a node can reach, the entries in use
  have distinct non-zero identities, their number fits the array, every loss estimate is a
  percentage and every ETX weight is at least that of a perfect link.\<close>

theorem neighbor_table_invariant:
  assumes "ntable_reachable tbl"
  shows "ntable_ok tbl"
  using assms by (rule ntable_reachable_ok)

lemma neighbor_table_invariant_witness:
  "ntable_ok (fst (neighbor_update (fst (neighbor_update neighbor_table_init 7 0xFFB0 5 0 1 40 10))
     7 0xFFA6 3 1 5 60 900))"
  by (rule neighbor_table_invariant) (intro reach_update reach_init)

text \<open>The expiry loop terminates and removes exactly the stale peers. What is left is, up to
  order, the peers heard within the expiry time, the count returned is the number removed, and no
  live peer is lost or duplicated by the swap with the last entry.\<close>

theorem neighbor_table_expire_exact:
  assumes "ntable_ok tbl" "neighbor_table_expire tbl now = (tbl', removed)"
  shows "mset (nt_live tbl') = filter_mset (nb_alive now) (mset (nt_live tbl)) \<and>
         removed = nt_count tbl - nt_count tbl' \<and>
         unat (nt_count tbl') = size (filter_mset (nb_alive now) (mset (nt_live tbl)))"
proof -
  note s = neighbor_expire_live [OF assms]
  have "ntable_ok tbl'" using neighbor_expire_ok [OF assms(1), of now] assms(2) by simp
  from length_nt_live [OF this] have "unat (nt_count tbl') = size (mset (nt_live tbl'))" by simp
  with s show ?thesis by (simp only: simp_thms)
qed

lemma neighbor_table_expire_exact_witness:
  "\<exists>tbl'. neighbor_table_expire (fst (neighbor_update neighbor_table_init 7 0xFFB0 5 0 1 40 10)) 200000 =
     (tbl', 1) \<and> nt_live tbl' = []"
proof -
  let ?t = "fst (neighbor_update neighbor_table_init 7 0xFFB0 5 0 1 40 10)"
  obtain t' r where e: "neighbor_table_expire ?t 200000 = (t', r)"
    by (cases "neighbor_table_expire ?t 200000")
  have ok: "ntable_ok ?t" by (intro neighbor_update_ok neighbor_table_init_ok)
  have cons: "replicate NTABLE_SIZE z = z # replicate 15 z" for z :: rivr_neighbor_t
    by (simp add: numeral_eq_Suc)
  have live: "\<forall>n \<in> set (nt_live ?t). \<not> nb_alive 200000 n" and c: "nt_count ?t = 1"
    by (auto simp: neighbor_update_def neighbor_table_init_def find_slot_def nt_live_def
        nb_alive_def neighbor_touch_def Let_def cons)
  note x = neighbor_table_expire_exact [OF ok e]
  have "filter (nb_alive 200000) (nt_live ?t) = []" using live by (simp add: filter_empty_conv)
  then have "filter_mset (nb_alive 200000) (mset (nt_live ?t)) = {#}" by (simp flip: mset_filter)
  with x c have "unat (nt_count t') = 0" "nt_live t' = []" by simp_all
  moreover from this(1) have "nt_count t' = 0" by (simp add: word_eq_unat)
  ultimately show ?thesis using e x c by simp
qed

text \<open>Link scores are computed without overflow. For an entry that keeps the table invariant,
  the 32-bit arithmetic of \<open>neighbor_link_score_full\<close> gives exactly the quality of the link (signal
  scaled by loss or by ETX, at most 100) reduced linearly with age, and the final clamp never acts.\<close>

theorem neighbor_score_exact:
  assumes "neighbor_ok n" "now - nb_last_seen_ms n < NTABLE_EXPIRY_MS"
  shows "unat (neighbor_link_score_full role n now) =
           quality_nat role n * (120000 - unat (now - nb_last_seen_ms n)) div 120000 \<and>
         quality_nat role n \<le> 100"
  using neighbor_link_score_full_exact [of n now role] assms by (simp add: neighbor_ok_def)

lemma neighbor_score_exact_witness:
  "unat (neighbor_link_score_full RoleClient
     (neighbor_touch (neighbor_seed 7 0xFFB0 5 0) 0 1 40 1000) 61000) = 37"
  using neighbor_score_exact [of "neighbor_touch (neighbor_seed 7 0xFFB0 5 0) 0 1 40 1000" 61000 RoleClient]
  by (simp add: neighbor_touch_ok neighbor_seed_ok)
     (simp add: quality_nat_def base_nat_def neighbor_touch_def neighbor_seed_def neighbor_zero_def
        clamp_i32_def RIVR_FEATURE_AIRTIME_ROUTING_def relay_role_def)

text \<open>A peer seen for the first time is stored with position (0, 0), not with the unknown marker
  \<open>INT32_MIN\<close> that \<open>neighbor_table_init\<close> wrote: \<open>memset\<close> clears it.\<close>

lemma neighbor_update_clears_position:
  assumes "ntable_ok tbl" "k \<noteq> 0" "find_slot tbl k = None"
    "neighbor_update tbl k r s h q f now = (tbl', Some i)"
  shows "nb_lat_e7 (nt_entries tbl' ! i) = 0 \<and> nb_lon_e7 (nt_entries tbl' ! i) = 0"
  using assms oldest_slot_less [of tbl]
  by (auto simp: neighbor_update_def ntable_ok_def neighbor_touch_def neighbor_seed_def
      neighbor_zero_def Let_def split: if_splits)

end
