(* ===== verification/Rivr_RouteCache.thy ===== *)
theory Rivr_RouteCache
  imports Rivr_NeighborTable Rivr_Metrics
begin

text \<open>
  The unicast route cache (route_cache.h, route_cache.c): routes learned from received frames,
  refreshed and replaced only by better ones, expired lazily wherever they are touched, and the
  next-hop choice \<open>route_cache_best_hop\<close> that weighs a cached route by hops, age and link
  quality and falls back to the best direct neighbour. The table size is that of the role.
\<close>

abbreviation "RCACHE_EXPIRY_MS \<equiv> (120000 :: u32)"
abbreviation "RCACHE_METRIC_HYSTERESIS \<equiv> (10 :: u32)"
abbreviation "RCACHE_REPLY_MIN_METRIC \<equiv> (30 :: u8)"
abbreviation "RCACHE_REPLY_MAX_HOPS \<equiv> (6 :: u8)"
abbreviation "RCACHE_FLAG_VALID \<equiv> (0x01 :: u8)"
abbreviation "RCACHE_FLAG_PENDING \<equiv> (0x02 :: u8)"
abbreviation "RCACHE_FLAG_DIRECT \<equiv> (0x04 :: u8)"

record rivr_route_t =
  rt_dest_id :: u32
  rt_next_hop_id :: u32
  rt_metric :: u16
  rt_hop_count :: u8
  rt_expires_ms :: u32

record route_cache_entry_t =
  rc_dst_id :: u32
  rc_next_hop :: u32
  rc_last_seen_ms :: u32
  rc_hop_count :: u8
  rc_metric :: u8
  rc_flags :: u8

record route_cache_t =
  rc_entries :: "route_cache_entry_t list"
  rc_count :: u8
  rc_evict_hand :: u8

datatype rcache_tx_decision_t = RCACHE_TX_FLOOD | RCACHE_TX_UNICAST | RCACHE_TX_PENDING

definition rc_zero :: route_cache_entry_t where
  "rc_zero = \<lparr>rc_dst_id = 0, rc_next_hop = 0, rc_last_seen_ms = 0, rc_hop_count = 0,
              rc_metric = 0, rc_flags = 0\<rparr>"

definition rc_valid :: "route_cache_entry_t \<Rightarrow> bool" where
  "rc_valid e \<longleftrightarrow> rc_flags e AND RCACHE_FLAG_VALID \<noteq> 0"

section \<open>Scores\<close>

definition link_to_metric :: "u16 \<Rightarrow> u8 \<Rightarrow> u8" where
  "link_to_metric rssi_dbm snr_db =
     word_of_int (clamp_i32 (sint rssi_dbm + 140) 0 80 + clamp_i32 (sint snr_db + 10) 0 20)"

text \<open>The score and the neighbour table, whose STALE flag \<open>neighbor_find\<close> may have updated.\<close>

definition entry_composite_score ::
  "rivr_role \<Rightarrow> route_cache_entry_t \<Rightarrow> rivr_neighbor_table_t option \<Rightarrow> u32 \<Rightarrow>
   u32 \<times> rivr_neighbor_table_t option"
where
  "entry_composite_score role e ntbl now =
     (let age = now - rc_last_seen_ms e in
      if age \<ge> RCACHE_EXPIRY_MS then (0, ntbl)
      else
        let score0 = ucast (rc_metric e) :: u32;
            score1 = (if rc_hop_count e \<ge> 3 then score0 * 50 div 100
                      else if rc_hop_count e = 2 then score0 * 75 div 100 else score0);
            score2 = score1 * (RCACHE_EXPIRY_MS - age) div RCACHE_EXPIRY_MS;
            (score3, ntbl') =
              (case ntbl of
                 None \<Rightarrow> (score2, None)
               | Some t \<Rightarrow>
                   (case neighbor_find t (rc_next_hop e) now of
                      (None, t') \<Rightarrow> (score2, Some t')
                    | (Some n, t') \<Rightarrow>
                        (if RIVR_FEATURE_AIRTIME_ROUTING role
                         then score2 * 8 div ucast (if nb_etx_x8 n \<ge> 8 then nb_etx_x8 n else 8)
                         else score2 * (100 - ucast (nb_loss_rate n)) div 100, Some t')))
        in (if score3 > 100 then 100 else score3, ntbl'))"

section \<open>Operations\<close>

definition entry_is_alive :: "route_cache_entry_t \<Rightarrow> u32 \<Rightarrow> bool" where
  "entry_is_alive e now \<longleftrightarrow> rc_valid e \<and> now - rc_last_seen_ms e \<le> RCACHE_EXPIRY_MS"

definition expire_entry :: "route_cache_entry_t \<Rightarrow> u32 \<Rightarrow> bool \<times> route_cache_entry_t" where
  "expire_entry e now =
     (if \<not> rc_valid e then (False, e)
      else if now - rc_last_seen_ms e > RCACHE_EXPIRY_MS then (True, rc_zero)
      else (False, e))"

definition route_cache_init :: "rivr_role \<Rightarrow> route_cache_t" where
  "route_cache_init role =
     \<lparr>rc_entries = replicate (RIVR_ROUTE_CACHE_SIZE role) rc_zero, rc_count = 0, rc_evict_hand = 0\<rparr>"

text \<open>The scan of \<open>route_cache_lookup\<close>: \<open>Some (Some e)\<close> is a hit, \<open>Some None\<close> a lazily
  evicted entry (the code stops there), \<open>None\<close> no entry.\<close>

fun rcache_lookup_scan ::
  "u32 \<Rightarrow> u32 \<Rightarrow> route_cache_entry_t list \<Rightarrow>
   route_cache_entry_t option option \<times> route_cache_entry_t list"
where
  "rcache_lookup_scan dst now [] = (None, [])"
| "rcache_lookup_scan dst now (e # es) =
     (if rc_dst_id e = dst then
        let (expired, e1) = expire_entry e now in
        if expired then (Some None, e1 # es)
        else if rc_valid e1 then (Some (Some e1), e1 # es)
        else (case rcache_lookup_scan dst now es of (r, es') \<Rightarrow> (r, e1 # es'))
      else (case rcache_lookup_scan dst now es of (r, es') \<Rightarrow> (r, e # es')))"

definition route_cache_lookup ::
  "rivr_metrics_t \<Rightarrow> route_cache_t \<Rightarrow> u32 \<Rightarrow> u32 \<Rightarrow>
   rivr_metrics_t \<times> route_cache_t \<times> route_cache_entry_t option"
where
  "route_cache_lookup m c dst now =
     (if dst = 0 then (m, c, None)
      else case rcache_lookup_scan dst now (rc_entries c) of
        (Some (Some e), es) \<Rightarrow> (bump route_cache_hit_total m, c\<lparr>rc_entries := es\<rparr>, Some e)
      | (_, es) \<Rightarrow> (bump route_cache_miss_total m, c\<lparr>rc_entries := es\<rparr>, None))"

definition rc_new :: "u32 \<Rightarrow> u32 \<Rightarrow> u8 \<Rightarrow> u8 \<Rightarrow> u8 \<Rightarrow> u32 \<Rightarrow> route_cache_entry_t" where
  "rc_new dst next_hop hops metric flags now =
     \<lparr>rc_dst_id = dst, rc_next_hop = next_hop, rc_last_seen_ms = now, rc_hop_count = hops,
      rc_metric = metric, rc_flags = flags OR RCACHE_FLAG_VALID\<rparr>"

text \<open>A match is replaced only by a better path; its time stamp is refreshed either way.\<close>

definition rc_merge ::
  "route_cache_entry_t \<Rightarrow> u32 \<Rightarrow> u8 \<Rightarrow> u8 \<Rightarrow> u8 \<Rightarrow> u32 \<Rightarrow> route_cache_entry_t" where
  "rc_merge e next_hop hops metric flags now =
     (if hops < rc_hop_count e \<or>
         (hops = rc_hop_count e \<and> ucast metric > ucast (rc_metric e) + RCACHE_METRIC_HYSTERESIS)
      then e\<lparr>rc_next_hop := next_hop, rc_hop_count := hops, rc_metric := metric,
             rc_flags := flags OR RCACHE_FLAG_VALID, rc_last_seen_ms := now\<rparr>
      else e\<lparr>rc_last_seen_ms := now\<rparr>)"

fun rcache_update_scan ::
  "u32 \<Rightarrow> u32 \<Rightarrow> u8 \<Rightarrow> u8 \<Rightarrow> u8 \<Rightarrow> u32 \<Rightarrow> nat \<Rightarrow> nat option \<Rightarrow> route_cache_entry_t list \<Rightarrow>
   bool \<times> nat option \<times> route_cache_entry_t list"
where
  "rcache_update_scan dst nh hops metric flags now i free [] = (False, free, [])"
| "rcache_update_scan dst nh hops metric flags now i free (e # es) =
     (let e1 = snd (expire_entry e now) in
      if rc_dst_id e1 = dst \<and> rc_valid e1
      then (True, free, rc_merge e1 nh hops metric flags now # es)
      else
        let free' = (if free = None \<and> \<not> rc_valid e1 then Some i else free) in
        case rcache_update_scan dst nh hops metric flags now (Suc i) free' es of
          (found, fr, es') \<Rightarrow> (found, fr, e1 # es'))"

definition route_cache_update ::
  "rivr_role \<Rightarrow> rivr_metrics_t \<Rightarrow> route_cache_t \<Rightarrow> u32 \<Rightarrow> u32 \<Rightarrow> u8 \<Rightarrow> u8 \<Rightarrow> u8 \<Rightarrow> u32 \<Rightarrow>
   rivr_metrics_t \<times> route_cache_t"
where
  "route_cache_update role m c dst nh hops metric flags now =
     (if dst = 0 \<or> nh = 0 then (m, c)
      else case rcache_update_scan dst nh hops metric flags now 0 None (rc_entries c) of
        (True, _, es) \<Rightarrow> (m, c\<lparr>rc_entries := es\<rparr>)
      | (False, Some i, es) \<Rightarrow>
          (m, c\<lparr>rc_entries := es[i := rc_new dst nh hops metric flags now],
                rc_count := (if unat (rc_count c) < RIVR_ROUTE_CACHE_SIZE role
                             then rc_count c + 1 else rc_count c)\<rparr>)
      | (False, None, es) \<Rightarrow>
          (bump rcache_evict m,
           c\<lparr>rc_entries := es[unat (rc_evict_hand c) := rc_new dst nh hops metric flags now],
             rc_evict_hand := of_nat ((unat (rc_evict_hand c) + 1) mod RIVR_ROUTE_CACHE_SIZE role)\<rparr>))"

definition route_cache_learn_rx ::
  "rivr_role \<Rightarrow> rivr_metrics_t \<Rightarrow> route_cache_t \<Rightarrow> u32 \<Rightarrow> u32 \<Rightarrow> u8 \<Rightarrow> u16 \<Rightarrow> u8 \<Rightarrow> u32 \<Rightarrow>
   rivr_metrics_t \<times> route_cache_t"
where
  "route_cache_learn_rx role m c src_id from_id hop_count rssi_dbm snr_db now =
     (if src_id = 0 then (m, c)
      else
        let metric = link_to_metric rssi_dbm snr_db;
            f = RCACHE_FLAG_VALID OR (if hop_count = 0 then RCACHE_FLAG_DIRECT else 0) in
        if hop_count = 0 then route_cache_update role m c src_id src_id 1 metric f now
        else if from_id \<noteq> 0 \<and> from_id \<noteq> src_id
        then route_cache_update role m c src_id from_id (hop_count + 1) metric f now
        else (m, c))"

definition route_cache_tx_decide ::
  "rivr_metrics_t \<Rightarrow> route_cache_t \<Rightarrow> u32 \<Rightarrow> u32 \<Rightarrow>
   rivr_metrics_t \<times> route_cache_t \<times> rcache_tx_decision_t \<times> u32"
where
  "route_cache_tx_decide m c dst now =
     (if dst = 0 then (m, c, RCACHE_TX_FLOOD, 0)
      else case route_cache_lookup m c dst now of
        (m', c', None) \<Rightarrow> (m', c', RCACHE_TX_FLOOD, 0)
      | (m', c', Some e) \<Rightarrow> (m', c', RCACHE_TX_UNICAST, rc_next_hop e))"

fun rcache_expire_scan ::
  "u32 \<Rightarrow> route_cache_entry_t list \<Rightarrow> u8 \<Rightarrow> u8 \<Rightarrow> route_cache_entry_t list \<times> u8 \<times> u8" where
  "rcache_expire_scan now [] cnt evicted = ([], cnt, evicted)"
| "rcache_expire_scan now (e # es) cnt evicted =
     (case expire_entry e now of
        (True, e1) \<Rightarrow>
          (case rcache_expire_scan now es (if cnt > 0 then cnt - 1 else cnt) (evicted + 1) of
             (es', c', ev) \<Rightarrow> (e1 # es', c', ev))
      | (False, e1) \<Rightarrow>
          (case rcache_expire_scan now es cnt evicted of (es', c', ev) \<Rightarrow> (e1 # es', c', ev)))"

definition route_cache_expire :: "route_cache_t \<Rightarrow> u32 \<Rightarrow> route_cache_t \<times> u8" where
  "route_cache_expire c now =
     (case rcache_expire_scan now (rc_entries c) (rc_count c) 0 of
        (es, cnt, ev) \<Rightarrow> (c\<lparr>rc_entries := es, rc_count := cnt\<rparr>, ev))"

definition route_cache_count :: "route_cache_t \<Rightarrow> u32 \<Rightarrow> u8" where
  "route_cache_count c now = of_nat (count_if (\<lambda>e. entry_is_alive e now) (rc_entries c))"

definition route_cache_can_reply_for_dst ::
  "rivr_metrics_t \<Rightarrow> route_cache_t \<Rightarrow> u32 \<Rightarrow> u32 \<Rightarrow> rivr_metrics_t \<times> route_cache_t \<times> bool"
where
  "route_cache_can_reply_for_dst m c dst now =
     (case route_cache_lookup m c dst now of
        (m', c', None) \<Rightarrow> (m', c', False)
      | (m', c', Some e) \<Rightarrow>
          (m', c',
           if rc_flags e AND RCACHE_FLAG_PENDING \<noteq> 0 then False
           else if rc_metric e < RCACHE_REPLY_MIN_METRIC then False
           else if rc_hop_count e > RCACHE_REPLY_MAX_HOPS then False
           else True))"

section \<open>Next-hop choice\<close>

fun best_hop_scan ::
  "rivr_role \<Rightarrow> u32 \<Rightarrow> u32 \<Rightarrow> rivr_neighbor_table_t option \<Rightarrow> route_cache_entry_t list \<Rightarrow>
   route_cache_entry_t option \<Rightarrow> u32 \<Rightarrow>
   route_cache_entry_t option \<times> u32 \<times> rivr_neighbor_table_t option \<times> route_cache_entry_t list"
where
  "best_hop_scan role dst now ntbl [] best score = (best, score, ntbl, [])"
| "best_hop_scan role dst now ntbl (e # es) best score =
     (if rc_dst_id e \<noteq> dst then
        (case best_hop_scan role dst now ntbl es best score of (b, s, t, es') \<Rightarrow> (b, s, t, e # es'))
      else
        let (expired, e1) = expire_entry e now in
        if expired \<or> \<not> rc_valid e1 \<or> rc_flags e1 AND RCACHE_FLAG_PENDING \<noteq> 0 then
          (case best_hop_scan role dst now ntbl es best score of (b, s, t, es') \<Rightarrow> (b, s, t, e1 # es'))
        else
          let (sc, ntbl1) = entry_composite_score role e1 ntbl now;
              (best1, score1) = (if sc > score then (Some e1, sc) else (best, score)) in
          case best_hop_scan role dst now ntbl1 es best1 score1 of
            (b, s, t, es') \<Rightarrow> (b, s, t, e1 # es'))"

definition route_cache_best_hop ::
  "rivr_role \<Rightarrow> rivr_metrics_t \<Rightarrow> route_cache_t \<Rightarrow> rivr_neighbor_table_t option \<Rightarrow> u32 \<Rightarrow> u32 \<Rightarrow>
   rivr_metrics_t \<times> route_cache_t \<times> rivr_neighbor_table_t option \<times> rivr_route_t option"
where
  "route_cache_best_hop role m c ntbl dst now =
     (if dst = 0 then (m, c, ntbl, None)
      else
        let (best, score, ntbl1, es) = best_hop_scan role dst now ntbl (rc_entries c) None 0;
            c1 = c\<lparr>rc_entries := es\<rparr>;
            air = (\<lambda>k m. if RIVR_FEATURE_AIRTIME_ROUTING role then bump k m else m) in
        case best of
          Some e \<Rightarrow>
            (air airtime_route_selected_total
               (bump neighbor_route_used_total (bump route_cache_hit_total m)), c1, ntbl1,
             Some \<lparr>rt_dest_id = dst, rt_next_hop_id = rc_next_hop e, rt_metric = ucast score,
                   rt_hop_count = rc_hop_count e,
                   rt_expires_ms = rc_last_seen_ms e + RCACHE_EXPIRY_MS\<rparr>)
        | None \<Rightarrow>
            let miss = (air airtime_route_fallback_total (bump neighbor_route_failed_total
                          (bump route_cache_miss_total m)), c1, ntbl1, None) in
            (case ntbl1 of
               None \<Rightarrow> miss
             | Some t \<Rightarrow>
                 (case neighbor_best role t now of
                    None \<Rightarrow> miss
                  | Some nb \<Rightarrow>
                      if nb_flags nb AND NTABLE_FLAG_DIRECT \<noteq> 0 \<and>
                         neighbor_link_score nb now \<ge> NTABLE_SCORE_UNICAST_MIN
                      then
                        (air airtime_route_selected_total (bump neighbor_route_used_total m),
                         c1, ntbl1,
                         Some \<lparr>rt_dest_id = dst, rt_next_hop_id = nb_neighbor_id nb,
                               rt_metric = ucast (neighbor_link_score nb now), rt_hop_count = 2,
                               rt_expires_ms = nb_last_seen_ms nb + NTABLE_EXPIRY_MS\<rparr>)
                      else miss)))"

section \<open>Expiry is invisible\<close>

definition rc_aged :: "u32 \<Rightarrow> route_cache_entry_t \<Rightarrow> route_cache_entry_t" where
  "rc_aged now e = snd (expire_entry e now)"

lemma rc_zero_invalid [simp]: "\<not> rc_valid rc_zero"
  by (simp add: rc_valid_def rc_zero_def)

lemma rc_aged_alive [simp]: "entry_is_alive e now \<Longrightarrow> rc_aged now e = e"
  by (auto simp: rc_aged_def expire_entry_def entry_is_alive_def dest: leD)

lemma rc_valid_aged [simp]: "rc_valid (rc_aged now e) \<longleftrightarrow> entry_is_alive e now"
  by (auto simp: rc_aged_def expire_entry_def entry_is_alive_def not_less)

lemma alive_aged [simp]: "entry_is_alive (rc_aged now e) now \<longleftrightarrow> entry_is_alive e now"
  by (metis entry_is_alive_def rc_aged_alive rc_valid_aged)

lemma filter_alive_aged [simp]:
  "filter (\<lambda>e. entry_is_alive e now) (map (rc_aged now) es) = filter (\<lambda>e. entry_is_alive e now) es"
  by (induction es) auto

lemma filter_valid_aged [simp]:
  "filter rc_valid (map (rc_aged now) es) = filter (\<lambda>e. entry_is_alive e now) es"
  by (induction es) auto

lemma expire_entry_simps:
  "expire_entry e now = (rc_valid e \<and> \<not> entry_is_alive e now, rc_aged now e)"
  by (auto simp: expire_entry_def entry_is_alive_def rc_aged_def)

lemma or_valid [simp]: "(f OR 1) AND 1 \<noteq> (0 :: u8)"
proof
  assume "(f OR 1) AND 1 = (0 :: u8)"
  then have "bit ((f OR 1) AND 1 :: u8) 0 = bit (0 :: u8) 0" by simp
  then show False by (simp add: bit_simps)
qed

lemma rc_merge_same [simp]:
  "rc_dst_id (rc_merge e nh h mt f now) = rc_dst_id e"
  "rc_last_seen_ms (rc_merge e nh h mt f now) = now"
  "rc_valid e \<Longrightarrow> rc_valid (rc_merge e nh h mt f now)"
  by (simp_all add: rc_merge_def rc_valid_def)

lemma rc_new_same [simp]:
  "rc_dst_id (rc_new dst nh h mt f now) = dst" "rc_valid (rc_new dst nh h mt f now)"
  "rc_last_seen_ms (rc_new dst nh h mt f now) = now"
  by (simp_all add: rc_new_def rc_valid_def)

section \<open>The update scan\<close>

lemma rcache_update_scan_found:
  "rcache_update_scan dst nh h mt f now i free es = (True, fr, es') \<Longrightarrow>
   \<exists>A e B. es = A @ e # B \<and> es' = map (rc_aged now) A @ rc_merge e nh h mt f now # B \<and>
     entry_is_alive e now \<and> rc_dst_id e = dst \<and>
     (\<forall>a \<in> set A. \<not> (entry_is_alive a now \<and> rc_dst_id a = dst))"
proof (induction es arbitrary: i free fr es')
  case (Cons x xs)
  show ?case
  proof (cases "entry_is_alive x now \<and> rc_dst_id x = dst")
    case True
    then have "es' = rc_merge x nh h mt f now # xs"
      using Cons.prems by (auto simp: expire_entry_simps Let_def entry_is_alive_def)
    with True show ?thesis by (intro exI [of _ "[]"]) auto
  next
    case False
    then have no: "\<not> (rc_dst_id (rc_aged now x) = dst \<and> rc_valid (rc_aged now x))"
      by (metis rc_aged_alive rc_valid_aged)
    then obtain free' fr' es'' where
      "rcache_update_scan dst nh h mt f now (Suc i) free' xs = (True, fr', es'')"
      "es' = rc_aged now x # es''"
      using Cons.prems by (auto simp: expire_entry_simps Let_def split: prod.splits)
    from Cons.IH [OF this(1)] this(2) obtain A e B where
      "xs = A @ e # B" "es' = map (rc_aged now) (x # A) @ rc_merge e nh h mt f now # B"
      "entry_is_alive e now" "rc_dst_id e = dst"
      "\<forall>a \<in> set (x # A). \<not> (entry_is_alive a now \<and> rc_dst_id a = dst)"
      using False by auto
    then show ?thesis by (intro exI [of _ "x # A"]) auto
  qed
qed simp

lemma rcache_update_scan_missing:
  "rcache_update_scan dst nh h mt f now i free es = (False, fr, es') \<Longrightarrow>
   es' = map (rc_aged now) es \<and> (\<forall>a \<in> set es. \<not> (entry_is_alive a now \<and> rc_dst_id a = dst)) \<and>
   fr = (case free of Some k \<Rightarrow> Some k
         | None \<Rightarrow> map_option ((+) i) (find_idx (\<lambda>e. \<not> entry_is_alive e now) es))"
proof (induction es arbitrary: i free fr es')
  case (Cons x xs)
  have no: "\<not> (rc_dst_id (rc_aged now x) = dst \<and> rc_valid (rc_aged now x))"
    using Cons.prems by (auto simp: expire_entry_simps Let_def split: if_splits)
  then have x: "\<not> (entry_is_alive x now \<and> rc_dst_id x = dst)"
    by (metis rc_aged_alive rc_valid_aged)
  let ?free = "if free = None \<and> \<not> entry_is_alive x now then Some i else free"
  obtain es'' where rest: "rcache_update_scan dst nh h mt f now (Suc i) ?free xs = (False, fr, es'')"
    and es': "es' = rc_aged now x # es''"
    using Cons.prems no by (auto simp: expire_entry_simps Let_def split: prod.splits)
  have plus: "(+) (Suc i) = (\<lambda>k. Suc (i + k))" by auto
  from Cons.IH [OF rest] x es' show ?case
    by (auto split: option.splits simp: option.map_comp o_def plus)
qed (simp split: option.split)

section \<open>The invariant\<close>

definition rc_unique :: "route_cache_entry_t list \<Rightarrow> bool" where
  "rc_unique es \<longleftrightarrow> distinct (map rc_dst_id (filter rc_valid es))"

definition rcache_ok :: "rivr_role \<Rightarrow> route_cache_t \<Rightarrow> bool" where
  "rcache_ok role c \<longleftrightarrow> length (rc_entries c) = RIVR_ROUTE_CACHE_SIZE role \<and>
     unat (rc_evict_hand c) < RIVR_ROUTE_CACHE_SIZE role \<and> rc_unique (rc_entries c)"

lemma size_pos [simp]: "0 < RIVR_ROUTE_CACHE_SIZE role" "RIVR_ROUTE_CACHE_SIZE role \<le> 64"
  by (cases role; simp)+

lemma route_cache_init_ok: "rcache_ok role (route_cache_init role)"
  by (simp add: rcache_ok_def route_cache_init_def rc_unique_def)

lemma filter_alive_valid: "filter (\<lambda>e. entry_is_alive e now) es = filter (\<lambda>e. entry_is_alive e now) (filter rc_valid es)"
  by (auto simp: entry_is_alive_def intro: filter_cong)

lemma rc_unique_alive: "rc_unique es \<Longrightarrow> distinct (map rc_dst_id (filter (\<lambda>e. entry_is_alive e now) es))"
  by (subst filter_alive_valid) (simp add: rc_unique_def distinct_map_filter del: filter_filter)

lemma rc_unique_aged [simp]: "rc_unique es \<Longrightarrow> rc_unique (map (rc_aged now) es)"
  by (simp add: rc_unique_def rc_unique_alive [unfolded rc_unique_def])

lemma rc_unique_found:
  assumes "rc_unique (A @ e # B)" "entry_is_alive e now"
  shows "rc_unique (map (rc_aged now) A @ rc_merge e nh h mt f now # B)"
proof -
  have e: "rc_valid e" using assms(2) by (simp add: entry_is_alive_def)
  have "set (filter (\<lambda>e. entry_is_alive e now) A) \<subseteq> set (filter rc_valid A)"
    by (auto simp: entry_is_alive_def)
  moreover have "rc_unique A" using assms(1) by (simp add: rc_unique_def)
  then have "distinct (map rc_dst_id (filter (\<lambda>e. entry_is_alive e now) A))" by (rule rc_unique_alive)
  ultimately show ?thesis
    using assms(1) e by (auto simp: rc_unique_def; fastforce simp: entry_is_alive_def)
qed

lemma rc_unique_insert:
  assumes "rc_unique es" "i < length es" "rc_dst_id n \<notin> rc_dst_id ` set (filter rc_valid es)" "rc_valid n"
  shows "rc_unique (es[i := n])"
proof -
  have es: "es = take i es @ es ! i # drop (Suc i) es" using assms(2) by (rule id_take_nth_drop)
  have "rc_unique (take i es @ es ! i # drop (Suc i) es)" using assms(1) es by simp
  moreover have "rc_dst_id n \<notin> rc_dst_id ` set (filter rc_valid (take i es @ es ! i # drop (Suc i) es))"
    using assms(3) es by simp
  moreover have "es[i := n] = take i es @ n # drop (Suc i) es" using assms(2) by (rule upd_conv_take_nth_drop)
  ultimately show ?thesis using assms(4) by (auto simp: rc_unique_def split: if_splits)
qed


section \<open>What every operation keeps\<close>

text \<open>A pass over the table that may expire any of its entries and changes nothing else.\<close>

definition aged_pass :: "u32 \<Rightarrow> route_cache_entry_t list \<Rightarrow> route_cache_entry_t list \<Rightarrow> bool" where
  "aged_pass now = list_all2 (\<lambda>e e'. e' = e \<or> e' = rc_aged now e)"

lemma aged_pass_length: "aged_pass now es es' \<Longrightarrow> length es' = length es"
  by (simp add: aged_pass_def list_all2_lengthD)

lemma aged_valid: "e' = e \<or> e' = rc_aged now e \<Longrightarrow> rc_valid e' \<Longrightarrow> e' = e \<and> rc_valid e"
  by (metis entry_is_alive_def rc_aged_alive rc_valid_aged)

lemma aged_pass_visible:
  "aged_pass now es es' \<Longrightarrow>
   filter (\<lambda>e. entry_is_alive e now) es' = filter (\<lambda>e. entry_is_alive e now) es"
  unfolding aged_pass_def by (induction rule: list_all2_induct) auto

lemma aged_pass_unique:
  assumes "aged_pass now es es'" "rc_unique es"
  shows "rc_unique es'"
proof -
  have "(rc_unique es \<longrightarrow> rc_unique es') \<and> set (filter rc_valid es') \<subseteq> set (filter rc_valid es)"
    using assms(1) unfolding aged_pass_def
  proof (induction rule: list_all2_induct)
    case (Cons e es e' es')
    show ?case
    proof (cases "rc_valid e'")
      case True
      with Cons.hyps have "e' = e" "rc_valid e" using aged_valid by blast+
      with True Cons.IH show ?thesis by (auto simp: rc_unique_def)
    next
      case False
      with Cons.IH show ?thesis by (auto simp: rc_unique_def)
    qed
  qed simp
  with assms(2) show ?thesis by blast
qed

lemma aged_pass_refl [simp]: "aged_pass now es es"
  by (simp add: aged_pass_def list_all2_refl)

lemma rcache_lookup_pass: "aged_pass now es (snd (rcache_lookup_scan dst now es))"
proof (induction es)
  case (Cons e es)
  then show ?case
    using aged_pass_refl [of now es]
    by (auto simp: aged_pass_def expire_entry_simps Let_def split: prod.splits)
qed (simp add: aged_pass_def)

lemma rcache_expire_pass:
  "rcache_expire_scan now es cnt ev = (es', cnt', ev') \<Longrightarrow> aged_pass now es es'"
proof (induction es arbitrary: cnt ev es')
  case (Cons e es)
  then show ?case
    by (auto simp: aged_pass_def expire_entry_simps split: prod.splits bool.splits)
qed (simp add: aged_pass_def)

lemma best_hop_pass:
  "best_hop_scan role dst now ntbl es best score = (b, s, t, es') \<Longrightarrow> aged_pass now es es'"
proof (induction es arbitrary: ntbl best score b s t es')
  case (Cons e es)
  then show ?case
    by (auto simp: aged_pass_def expire_entry_simps Let_def split: prod.splits if_splits)
qed (simp add: aged_pass_def)

lemma route_cache_lookup_ok:
  assumes "rcache_ok role c" shows "rcache_ok role (fst (snd (route_cache_lookup m c dst now)))"
proof -
  let ?es = "snd (rcache_lookup_scan dst now (rc_entries c))"
  have "fst (snd (route_cache_lookup m c dst now)) = (if dst = 0 then c else c\<lparr>rc_entries := ?es\<rparr>)"
    by (auto simp: route_cache_lookup_def split: prod.splits option.splits)
  moreover have "rc_unique ?es" "length ?es = length (rc_entries c)"
    using assms aged_pass_unique [OF rcache_lookup_pass] aged_pass_length [OF rcache_lookup_pass]
    by (auto simp: rcache_ok_def)
  ultimately show ?thesis using assms by (simp add: rcache_ok_def)
qed

lemma route_cache_expire_ok:
  assumes "rcache_ok role c" shows "rcache_ok role (fst (route_cache_expire c now))"
proof -
  obtain es cnt ev where e: "rcache_expire_scan now (rc_entries c) (rc_count c) 0 = (es, cnt, ev)"
    by (cases "rcache_expire_scan now (rc_entries c) (rc_count c) 0")
  from rcache_expire_pass [OF this] assms show ?thesis
    by (auto simp: route_cache_expire_def e rcache_ok_def dest: aged_pass_length aged_pass_unique)
qed

lemma route_cache_best_hop_ok:
  assumes "rcache_ok role' c"
  shows "rcache_ok role' (fst (snd (route_cache_best_hop role m c ntbl dst now)))"
proof -
  obtain b s t es where e: "best_hop_scan role dst now ntbl (rc_entries c) None 0 = (b, s, t, es)"
    by (cases "best_hop_scan role dst now ntbl (rc_entries c) None 0")
  have "fst (snd (route_cache_best_hop role m c ntbl dst now)) = (if dst = 0 then c else c\<lparr>rc_entries := es\<rparr>)"
    by (auto simp: route_cache_best_hop_def e Let_def split: option.splits)
  with best_hop_pass [OF e] assms show ?thesis
    by (auto simp: rcache_ok_def dest: aged_pass_length aged_pass_unique)
qed

lemma rc_new_unique:
  assumes "rc_unique es" "\<forall>a \<in> set es. \<not> (entry_is_alive a now \<and> rc_dst_id a = dst)" "i < length es"
  shows "rc_unique ((map (rc_aged now) es)[i := rc_new dst nh h mt f now])"
  using assms by (intro rc_unique_insert) (auto simp: rc_unique_aged image_iff)

lemma route_cache_update_ok:
  assumes ok: "rcache_ok role c"
  shows "rcache_ok role (snd (route_cache_update role m c dst nh h mt f now))"
proof (cases "dst = 0 \<or> nh = 0")
  case False
  obtain found fr es where
    e: "rcache_update_scan dst nh h mt f now 0 None (rc_entries c) = (found, fr, es)"
    by (cases "rcache_update_scan dst nh h mt f now 0 None (rc_entries c)")
  have uni: "rc_unique (rc_entries c)" and len: "length (rc_entries c) = RIVR_ROUTE_CACHE_SIZE role"
    and hand: "unat (rc_evict_hand c) < RIVR_ROUTE_CACHE_SIZE role"
    using ok by (simp_all add: rcache_ok_def)
  show ?thesis
  proof (cases found)
    case True
    with e have "rcache_update_scan dst nh h mt f now 0 None (rc_entries c) = (True, fr, es)" by simp
    from rcache_update_scan_found [OF this] obtain A x B where
      s: "rc_entries c = A @ x # B" "es = map (rc_aged now) A @ rc_merge x nh h mt f now # B"
      "entry_is_alive x now" by blast
    with uni rc_unique_found [of A x B now nh h mt f] have "rc_unique es" by simp
    moreover have "length es = RIVR_ROUTE_CACHE_SIZE role" using s len by simp
    ultimately show ?thesis using False True hand by (simp add: route_cache_update_def e rcache_ok_def)
  next
    case nf: False
    with e have "rcache_update_scan dst nh h mt f now 0 None (rc_entries c) = (False, fr, es)" by simp
    note s = rcache_update_scan_missing [OF this, simplified]
    have fresh: "\<forall>a \<in> set (rc_entries c). \<not> (entry_is_alive a now \<and> rc_dst_id a = dst)" using s by blast
    have wrap: "unat (of_nat (Suc (unat (rc_evict_hand c)) mod RIVR_ROUTE_CACHE_SIZE role) :: u8)
        < RIVR_ROUTE_CACHE_SIZE role"
    proof -
      have lt: "Suc (unat (rc_evict_hand c)) mod RIVR_ROUTE_CACHE_SIZE role < RIVR_ROUTE_CACHE_SIZE role"
        by simp
      then have "Suc (unat (rc_evict_hand c)) mod RIVR_ROUTE_CACHE_SIZE role < 256"
        using size_pos(2) [of role] by linarith
      with lt show ?thesis by (simp add: unat_of_nat)
    qed
    show ?thesis
    proof (cases fr)
      case None
      then show ?thesis
        using False nf s hand len wrap rc_new_unique [OF uni fresh, of "unat (rc_evict_hand c)" nh h mt f]
        by (simp add: route_cache_update_def e rcache_ok_def)
    next
      case (Some i)
      then have "i < length (rc_entries c)" using s by (auto dest: find_idx_length)
      then show ?thesis
        using False nf conjunct1 [OF s] hand len Some rc_new_unique [OF uni fresh, of i nh h mt f]
        by (simp add: route_cache_update_def e rcache_ok_def)
    qed
  qed
qed (use ok in \<open>auto simp: route_cache_update_def\<close>)


lemma route_cache_learn_rx_ok:
  "rcache_ok role c \<Longrightarrow> rcache_ok role (snd (route_cache_learn_rx role m c src from hops rssi snr now))"
  by (simp add: route_cache_learn_rx_def Let_def route_cache_update_ok)

text \<open>The caches a node of a given role can hold.\<close>

inductive rcache_reachable :: "rivr_role \<Rightarrow> route_cache_t \<Rightarrow> bool" for role where
  rc_init: "rcache_reachable role (route_cache_init role)"
| rc_learn: "rcache_reachable role c \<Longrightarrow>
    rcache_reachable role (snd (route_cache_learn_rx role m c src from hops rssi snr now))"
| rc_update: "rcache_reachable role c \<Longrightarrow>
    rcache_reachable role (snd (route_cache_update role m c dst nh h mt f now))"
| rc_lookup: "rcache_reachable role c \<Longrightarrow>
    rcache_reachable role (fst (snd (route_cache_lookup m c dst now)))"
| rc_expire: "rcache_reachable role c \<Longrightarrow> rcache_reachable role (fst (route_cache_expire c now))"
| rc_best: "rcache_reachable role c \<Longrightarrow>
    rcache_reachable role (fst (snd (route_cache_best_hop role m c ntbl dst now)))"

lemma rcache_reachable_ok: "rcache_reachable role c \<Longrightarrow> rcache_ok role c"
  by (induction rule: rcache_reachable.induct)
     (auto intro: route_cache_init_ok route_cache_learn_rx_ok route_cache_update_ok
        route_cache_lookup_ok route_cache_expire_ok route_cache_best_hop_ok)

section \<open>The cache as a map\<close>

text \<open>What the cache means at a time: for each destination its live entry.\<close>

definition route_map :: "route_cache_t \<Rightarrow> u32 \<Rightarrow> u32 \<Rightarrow> route_cache_entry_t option" where
  "route_map c now d = find (\<lambda>e. rc_dst_id e = d) (filter (\<lambda>e. entry_is_alive e now) (rc_entries c))"

lemma find_append: "find P (xs @ ys) = (case find P xs of None \<Rightarrow> find P ys | Some x \<Rightarrow> Some x)"
  by (induction xs) auto

lemma find_NoneI: "(\<forall>x \<in> set xs. \<not> P x) \<Longrightarrow> find P xs = None"
  by (simp add: find_None_iff)

lemma rc_fresh_alive: "rc_valid e \<Longrightarrow> rc_last_seen_ms e = now \<Longrightarrow> entry_is_alive e now"
  by (simp add: entry_is_alive_def)

lemma rcache_lookup_scan_spec:
  "rc_unique es \<Longrightarrow>
   (case fst (rcache_lookup_scan dst now es) of Some (Some e) \<Rightarrow> Some e | _ \<Rightarrow> None) =
   find (\<lambda>e. rc_dst_id e = dst) (filter (\<lambda>e. entry_is_alive e now) es)"
proof (induction es)
  case (Cons e es)
  have tl: "rc_unique es" using Cons.prems by (auto simp: rc_unique_def split: if_splits)
  show ?case
  proof (cases "rc_dst_id e = dst \<and> rc_valid e")
    case True
    then have "\<forall>x \<in> set (filter (\<lambda>e. entry_is_alive e now) es). rc_dst_id x \<noteq> dst"
      using Cons.prems by (auto simp: rc_unique_def entry_is_alive_def image_iff)
    then have "find (\<lambda>e. rc_dst_id e = dst) (filter (\<lambda>e. entry_is_alive e now) es) = None"
      by (intro find_NoneI) simp
    then show ?thesis using True by (auto simp: expire_entry_simps)
  next
    case False
    then have "\<not> (rc_dst_id e = dst \<and> entry_is_alive e now)" by (auto simp: entry_is_alive_def)
    then show ?thesis
      using False Cons.IH [OF tl] by (auto simp: expire_entry_simps split: prod.splits)
  qed
qed simp

lemma route_cache_lookup_map:
  assumes "rcache_ok role c" "dst \<noteq> 0"
  shows "snd (snd (route_cache_lookup m c dst now)) = route_map c now dst"
    "route_map (fst (snd (route_cache_lookup m c dst now))) now = route_map c now"
proof -
  have "rc_unique (rc_entries c)" using assms by (simp add: rcache_ok_def)
  from rcache_lookup_scan_spec [OF this, of dst now] assms(2)
  show "snd (snd (route_cache_lookup m c dst now)) = route_map c now dst"
    by (auto simp: route_cache_lookup_def route_map_def split: prod.splits option.splits)
  have "rc_entries (fst (snd (route_cache_lookup m c dst now))) = snd (rcache_lookup_scan dst now (rc_entries c))"
    using assms(2) by (auto simp: route_cache_lookup_def split: prod.splits option.splits)
  then show "route_map (fst (snd (route_cache_lookup m c dst now))) now = route_map c now"
    by (simp add: route_map_def fun_eq_iff aged_pass_visible [OF rcache_lookup_pass])
qed

lemma visible_update:
  assumes "i < length es" "entry_is_alive n now"
  shows "filter (\<lambda>e. entry_is_alive e now) (es[i := n]) =
     filter (\<lambda>e. entry_is_alive e now) (take i es) @ n # filter (\<lambda>e. entry_is_alive e now) (drop (Suc i) es)"
  using assms by (simp add: upd_conv_take_nth_drop)

lemma route_cache_update_map:
  assumes ok: "rcache_ok role c" and d: "dst \<noteq> 0" "nh \<noteq> 0"
    and u: "route_cache_update role m c dst nh h mt f now = (m', c')"
  shows "route_map c' now dst = Some (case route_map c now dst of
           None \<Rightarrow> rc_new dst nh h mt f now | Some e \<Rightarrow> rc_merge e nh h mt f now)"
    "d \<noteq> dst \<Longrightarrow> \<exists>e \<in> set (rc_entries c). \<not> entry_is_alive e now \<Longrightarrow> route_map c' now d = route_map c now d"
    "d \<noteq> dst \<Longrightarrow> route_map c now dst \<noteq> None \<Longrightarrow> route_map c' now d = route_map c now d"
proof -
  let ?vis = "filter (\<lambda>e. entry_is_alive e now)"
  obtain found fr es where
    e: "rcache_update_scan dst nh h mt f now 0 None (rc_entries c) = (found, fr, es)"
    by (cases "rcache_update_scan dst nh h mt f now 0 None (rc_entries c)")
  have len: "length (rc_entries c) = RIVR_ROUTE_CACHE_SIZE role"
    and hand: "unat (rc_evict_hand c) < RIVR_ROUTE_CACHE_SIZE role"
    using ok by (simp_all add: rcache_ok_def)
  have newa: "entry_is_alive (rc_new dst nh h mt f now) now" by (intro rc_fresh_alive) simp_all
  have "route_map c' now dst = Some (case route_map c now dst of
           None \<Rightarrow> rc_new dst nh h mt f now | Some e \<Rightarrow> rc_merge e nh h mt f now) \<and>
     (d \<noteq> dst \<longrightarrow> (\<exists>e \<in> set (rc_entries c). \<not> entry_is_alive e now) \<or> route_map c now dst \<noteq> None \<longrightarrow>
       route_map c' now d = route_map c now d)"
  proof (cases found)
    case True
    with e have "rcache_update_scan dst nh h mt f now 0 None (rc_entries c) = (True, fr, es)" by simp
    from rcache_update_scan_found [OF this] obtain A x B where
      s: "rc_entries c = A @ x # B" "es = map (rc_aged now) A @ rc_merge x nh h mt f now # B"
      "entry_is_alive x now" "rc_dst_id x = dst"
      "\<forall>a \<in> set A. \<not> (entry_is_alive a now \<and> rc_dst_id a = dst)" by blast
    have "entry_is_alive (rc_merge x nh h mt f now) now"
      using s(3) by (intro rc_fresh_alive) (simp_all add: entry_is_alive_def)
    moreover have "find (\<lambda>e. rc_dst_id e = dst) (?vis A) = None" using s(5) by (intro find_NoneI) auto
    moreover have "rc_entries c' = es" using u d True by (auto simp: route_cache_update_def e)
    ultimately show ?thesis
      using s by (auto simp: route_map_def find_append split: option.splits)
  next
    case nf: False
    with e have "rcache_update_scan dst nh h mt f now 0 None (rc_entries c) = (False, fr, es)" by simp
    note s = rcache_update_scan_missing [OF this]
    have none: "route_map c now dst = None"
      using s unfolding route_map_def by (intro find_NoneI) auto
    define i where "i = (case fr of Some k \<Rightarrow> k | None \<Rightarrow> unat (rc_evict_hand c))"
    have frc: "fr = find_idx (\<lambda>e. \<not> entry_is_alive e now) (rc_entries c)"
      using s by (simp add: option.map_ident_strong)
    have i: "i < length (rc_entries c)"
      using frc hand len by (auto simp: i_def split: option.splits dest: find_idx_length)
    have c': "rc_entries c' = (map (rc_aged now) (rc_entries c))[i := rc_new dst nh h mt f now]"
      using u d nf s by (auto simp: route_cache_update_def e i_def split: option.splits)
    have vis': "?vis (rc_entries c') = ?vis (take i (rc_entries c)) @ rc_new dst nh h mt f now # ?vis (drop (Suc i) (rc_entries c))"
      unfolding c' using i newa by (simp add: visible_update take_map drop_map)
    have "find (\<lambda>e. rc_dst_id e = dst) (?vis (take i (rc_entries c))) = None"
      using s by (intro find_NoneI) (auto dest: in_set_takeD)
    then have here: "route_map c' now dst = Some (rc_new dst nh h mt f now)"
      by (simp add: route_map_def vis' find_append)
    have there: "route_map c' now d = route_map c now d"
      if "d \<noteq> dst" "\<exists>e \<in> set (rc_entries c). \<not> entry_is_alive e now"
    proof -
      have "fr \<noteq> None" using that(2) frc by (auto simp: find_idx_None)
      then have "find_idx (\<lambda>e. \<not> entry_is_alive e now) (rc_entries c) = Some i"
        by (auto simp: i_def frc)
      then have "\<not> entry_is_alive (rc_entries c ! i) now"
        by (blast dest: find_idx_SomeD)
      then have "?vis (rc_entries c) = ?vis (take i (rc_entries c)) @ ?vis (drop (Suc i) (rc_entries c))"
        using i by (subst id_take_nth_drop [OF i]) simp
      with that(1) show ?thesis by (simp add: route_map_def vis' find_append split: option.split)
    qed
    from none here there show ?thesis by simp
  qed
  then show "route_map c' now dst = Some (case route_map c now dst of
           None \<Rightarrow> rc_new dst nh h mt f now | Some e \<Rightarrow> rc_merge e nh h mt f now)"
    "d \<noteq> dst \<Longrightarrow> \<exists>e \<in> set (rc_entries c). \<not> entry_is_alive e now \<Longrightarrow> route_map c' now d = route_map c now d"
    "d \<noteq> dst \<Longrightarrow> route_map c now dst \<noteq> None \<Longrightarrow> route_map c' now d = route_map c now d"
    by blast+
qed


section \<open>The next hop\<close>

text \<open>What makes a cached entry a candidate next hop.\<close>

definition rc_usable :: "u32 \<Rightarrow> u32 \<Rightarrow> route_cache_entry_t \<Rightarrow> bool" where
  "rc_usable dst now e \<longleftrightarrow> rc_dst_id e = dst \<and> entry_is_alive e now \<and> rc_flags e AND RCACHE_FLAG_PENDING = 0"

lemma composite_le: "unat (fst (entry_composite_score role e ntbl now)) \<le> 100"
proof -
  have "fst (entry_composite_score role e ntbl now) \<le> 100"
    by (auto simp: entry_composite_score_def Let_def not_less split: prod.splits)
  then show ?thesis by (simp add: word_le_nat_alt)
qed

lemma best_hop_scan_spec:
  "best_hop_scan role dst now ntbl es best score = (b, s, t, es') \<Longrightarrow> unat score \<le> 100 \<Longrightarrow>
   unat s \<le> 100 \<and> score \<le> s \<and> (b = best \<or> (\<exists>e \<in> set es. b = Some e \<and> rc_usable dst now e \<and> 0 < s))"
proof (induction es arbitrary: ntbl best score b s t es')
  case (Cons e es)
  show ?case
  proof (cases "rc_usable dst now e")
    case False
    then have "\<exists>es''. best_hop_scan role dst now ntbl es best score = (b, s, t, es'')"
      using Cons.prems(1)
      by (auto simp: rc_usable_def expire_entry_simps Let_def split: prod.splits if_splits)
    with Cons.IH Cons.prems(2) show ?thesis by fastforce
  next
    case True
    then have al: "entry_is_alive e now" "rc_valid e" "rc_dst_id e = dst" "rc_flags e AND RCACHE_FLAG_PENDING = 0"
      by (auto simp: rc_usable_def entry_is_alive_def)
    obtain sc t1 where sc: "entry_composite_score role e ntbl now = (sc, t1)" by fastforce
    let ?b = "if sc > score then Some e else best" and ?s = "if sc > score then sc else score"
    obtain es'' where rest: "best_hop_scan role dst now t1 es ?b ?s = (b, s, t, es'')"
      using Cons.prems(1) al sc by (auto simp: expire_entry_simps Let_def split: prod.splits if_splits)
    have "unat ?s \<le> 100" using Cons.prems(2) composite_le [of role e ntbl now] sc by simp
    note ih = Cons.IH [OF rest this]
    show ?thesis
    proof (cases "sc > score")
      case gt: True
      then have "0 < sc" by (metis word_neq_0_conv not_less_zero word_gt_0 word_not_simps(1))
      with ih gt True show ?thesis by auto
    next
      case False
      with ih show ?thesis by auto
    qed
  qed
qed simp

lemma best_hop_scan_none:
  "best_hop_scan role dst now ntbl es best score = (b, s, t, es') \<Longrightarrow> best \<noteq> None \<Longrightarrow> b \<noteq> None"
  by (induction es arbitrary: ntbl best score b s t es')
     (auto simp: Let_def split: prod.splits if_splits)

text \<open>A next hop is the entry's own one, or a direct neighbour that scores well enough.\<close>

lemma route_cache_best_hop_sound:
  assumes "route_cache_best_hop role m c ntbl dst now = (m', c', ntbl', Some r)"
  shows "rt_dest_id r = dst \<and> dst \<noteq> 0 \<and>
    ((\<exists>e \<in> set (rc_entries c). rc_usable dst now e \<and> rt_next_hop_id r = rc_next_hop e \<and>
        rt_hop_count r = rc_hop_count e \<and> 0 < rt_metric r \<and> unat (rt_metric r) \<le> 100) \<or>
     (\<exists>t nb. ntbl' = Some t \<and> nb \<in> set (nt_live t) \<and> rt_next_hop_id r = nb_neighbor_id nb \<and>
        nb_flags nb AND NTABLE_FLAG_DIRECT \<noteq> 0 \<and> NTABLE_SCORE_UNICAST_MIN \<le> neighbor_link_score nb now \<and>
        rt_metric r = ucast (neighbor_link_score nb now)))"
proof -
  obtain b s t es where e: "best_hop_scan role dst now ntbl (rc_entries c) None 0 = (b, s, t, es)"
    by (cases "best_hop_scan role dst now ntbl (rc_entries c) None 0")
  note sp = best_hop_scan_spec [OF e]
  have d: "dst \<noteq> 0" using assms by (auto simp: route_cache_best_hop_def)
  show ?thesis
  proof (cases b)
    case (Some x)
    then obtain e' where e': "e' \<in> set (rc_entries c)" "b = Some e'" "rc_usable dst now e'" "0 < s" "unat s \<le> 100"
      using sp by auto
    have u: "unat (ucast s :: u16) = unat s" using e'(5) by (simp add: unat_ucast_mod)
    then have "0 < (ucast s :: u16)" using e'(4) by (simp add: word_less_nat_alt)
    moreover have "r = \<lparr>rt_dest_id = dst, rt_next_hop_id = rc_next_hop e', rt_metric = ucast s,
                   rt_hop_count = rc_hop_count e', rt_expires_ms = rc_last_seen_ms e' + RCACHE_EXPIRY_MS\<rparr>"
      using assms e' d by (simp add: route_cache_best_hop_def e Let_def)
    ultimately show ?thesis using e' u d by auto
  next
    case None
    then obtain tt nb where t: "t = Some tt" "neighbor_best role tt now = Some nb" "ntbl' = Some tt"
      "nb_flags nb AND NTABLE_FLAG_DIRECT \<noteq> 0" "neighbor_link_score nb now \<ge> NTABLE_SCORE_UNICAST_MIN"
      "rt_dest_id r = dst" "rt_next_hop_id r = nb_neighbor_id nb"
      "rt_metric r = ucast (neighbor_link_score nb now)"
      using assms d by (auto simp: route_cache_best_hop_def e Let_def split: option.splits if_splits)
    with t neighbor_best_max(1) [OF t(2)] d show ?thesis by auto
  qed
qed


section \<open>Properties\<close>

text \<open>A destination has at most one live route. In every cache a node can reach, whatever
  mixture of learning, refreshing, lookups, expiry and next-hop choices produced it, the valid
  entries have distinct destinations and the eviction cursor stays inside the table.\<close>

theorem route_cache_unique_destinations:
  assumes "rcache_reachable role c"
  shows "rcache_ok role c"
  using assms by (rule rcache_reachable_ok)

lemma route_cache_unique_destinations_witness:
  "rcache_ok RoleClient (snd (route_cache_learn_rx RoleClient metrics_zero
     (snd (route_cache_learn_rx RoleClient metrics_zero (route_cache_init RoleClient) 7 7 0 0xFFB0 5 10))
     7 9 2 0xFFA0 3 900))"
  by (rule route_cache_unique_destinations) (intro rc_learn rc_init)

text \<open>What a route says, apart from its time: the next hop, the hops and the metric as numbers, the flags.
  A route beats another if it is shorter, or as long and its metric (larger is better) exceeds the
  other's by more than the hysteresis of ten.\<close>

definition route_says :: "route_cache_entry_t \<Rightarrow> u32 \<times> nat \<times> nat \<times> u8" where
  "route_says e = (rc_next_hop e, unat (rc_hop_count e), unat (rc_metric e), rc_flags e)"

fun route_beats :: "u32 \<times> nat \<times> nat \<times> u8 \<Rightarrow> u32 \<times> nat \<times> nat \<times> u8 \<Rightarrow> bool" where
  "route_beats (_, h, m, _) (_, h', m', _) \<longleftrightarrow> h < h' \<or> h = h' \<and> m > m' + 10"

text \<open>The live route of a cache to a destination: valid, and confirmed at most 120 seconds ago.\<close>

definition live_route :: "route_cache_t \<Rightarrow> u32 \<Rightarrow> u32 \<Rightarrow> route_cache_entry_t option" where
  "live_route c now dst =
     find (\<lambda>e. rc_dst_id e = dst \<and> bit (rc_flags e) 0 \<and> unat (now - rc_last_seen_ms e) \<le> 120000) (rc_entries c)"

lemma alive_nat: "entry_is_alive e now \<longleftrightarrow> bit (rc_flags e) 0 \<and> unat (now - rc_last_seen_ms e) \<le> 120000"
  by (simp add: entry_is_alive_def rc_valid_def and_one_eq bit_0 word_le_nat_alt odd_iff_mod_2_eq_one)

lemma live_route_map: "live_route c now dst = route_map c now dst"
proof -
  have "find P (filter Q xs) = find (\<lambda>x. P x \<and> Q x) xs" for P Q :: "route_cache_entry_t \<Rightarrow> bool" and xs
    by (induction xs) auto
  then show ?thesis by (simp add: live_route_def route_map_def alive_nat)
qed

lemma hysteresis_nat: "ucast m > ucast m' + RCACHE_METRIC_HYSTERESIS \<longleftrightarrow> unat m > unat m' + 10" for m m' :: u8
proof -
  have small: "unat x < 256" for x :: u8 using unsigned_less [of x, where 'a = nat] by simp
  have wide: "unat (ucast x :: u32) = unat x" for x :: u8 using small [of x] by (simp add: unat_ucast_mod)
  have "unat (ucast m' + RCACHE_METRIC_HYSTERESIS) = unat m' + 10"
    using small [of m'] by (simp add: unat_word_ariths wide)
  moreover note wide [of m]
  ultimately show ?thesis by (simp add: word_less_nat_alt)
qed

lemma rc_merge_says:
  "route_says (rc_merge e nh h mt f now) =
     (let new = (nh, unat h, unat mt, set_bit 0 f) in if route_beats new (route_says e) then new else route_says e)"
proof -
  have "f OR 1 = set_bit 0 f" by (simp add: set_bit_eq_or)
  then show ?thesis unfolding rc_merge_def hysteresis_nat
    by (auto simp: route_says_def Let_def word_less_nat_alt word_unat_eq_iff)
qed

lemma rc_new_says: "route_says (rc_new dst nh h mt f now) = (nh, unat h, unat mt, set_bit 0 f)"
  by (simp add: rc_new_def route_says_def set_bit_eq_or)



text \<open>A chosen next hop is always usable. When \<open>route_cache_best_hop\<close> returns a route, it is
  for the destination asked, and either comes from an unexpired, confirmed (not pending) cache
  entry with a positive score of at most 100, or is a direct neighbour in the table whose link
  score reaches the unicast minimum.\<close>

theorem route_cache_best_hop_usable:
  assumes "route_cache_best_hop role m c ntbl dst now = (m', c', ntbl', Some r)"
  shows "rt_dest_id r = dst \<and> dst \<noteq> 0 \<and>
    ((\<exists>e \<in> set (rc_entries c). rc_usable dst now e \<and> rt_next_hop_id r = rc_next_hop e \<and>
        rt_hop_count r = rc_hop_count e \<and> 0 < rt_metric r \<and> unat (rt_metric r) \<le> 100) \<or>
     (\<exists>t nb. ntbl' = Some t \<and> nb \<in> set (nt_live t) \<and> rt_next_hop_id r = nb_neighbor_id nb \<and>
        nb_flags nb AND NTABLE_FLAG_DIRECT \<noteq> 0 \<and> NTABLE_SCORE_UNICAST_MIN \<le> neighbor_link_score nb now \<and>
        rt_metric r = ucast (neighbor_link_score nb now)))"
  using assms by (rule route_cache_best_hop_sound)

definition one_route :: route_cache_t where
  "one_route = \<lparr>rc_entries = [rc_new 7 9 2 60 0 1000], rc_count = 1, rc_evict_hand = 0\<rparr>"

lemma route_cache_best_hop_usable_witness:
  "\<exists>m' c' r. route_cache_best_hop RoleClient metrics_zero one_route None 7 1000 = (m', c', None, Some r) \<and>
     rt_dest_id r = 7 \<and> rt_next_hop_id r = 9"
proof -
  let ?res = "route_cache_best_hop RoleClient metrics_zero one_route None 7 1000"
  let ?e = "rc_new 7 9 2 60 0 1000"
  have al: "entry_is_alive ?e 1000" by (intro rc_fresh_alive) simp_all
  have np: "rc_flags ?e AND RCACHE_FLAG_PENDING = 0" by (simp add: rc_new_def)
  have sc: "entry_composite_score RoleClient ?e None 1000 = (45, None)"
    by (simp add: entry_composite_score_def rc_new_def)
  have "\<exists>m' c' r. ?res = (m', c', None, Some r)"
    using al np sc by (simp add: route_cache_best_hop_def one_route_def expire_entry_simps)
  then obtain m' c' r where r: "?res = (m', c', None, Some r)" by blast
  from route_cache_best_hop_usable [OF r] have "rt_dest_id r = 7" "rt_next_hop_id r = 9"
    by (auto simp: one_route_def rc_new_def)
  with r show ?thesis by blast
qed

end
