(* ===== verification/Rivr_Control.thy ===== *)
theory Rivr_Control
  imports Rivr_Flood Rivr_RouteCache
begin

text \<open>
  The control-plane packets of routing.c: building ROUTE_REQ, ROUTE_RPL and ACK frames, and the
  decision whether to answer a route request. The builders fill a zeroed header and hand it to
  \<open>protocol_encode\<close>; the lemmas say what a receiver decodes from the frames they build.
\<close>

abbreviation "ROUTE_REQ_TTL \<equiv> (4 :: u8)"
abbreviation "ROUTE_RPL_PAYLOAD_LEN \<equiv> (9 :: u8)"
abbreviation "ACK_PAYLOAD_LEN \<equiv> (6 :: u8)"

text \<open>The header all three builders start from.\<close>

definition control_hdr :: "u8 \<Rightarrow> u32 \<Rightarrow> u32 \<Rightarrow> u16 \<Rightarrow> u16 \<Rightarrow> u8 \<Rightarrow> rivr_pkt_hdr_t" where
  "control_hdr pkt_type src_id dst_id seq pkt_id plen =
     \<lparr>h_magic = RIVR_MAGIC, h_version = RIVR_PROTO_VER, h_pkt_type = pkt_type, h_flags = 0,
      h_ttl = ROUTE_REQ_TTL, h_hop = 0, h_net_id = 0, h_src_id = src_id, h_dst_id = dst_id,
      h_seq = seq, h_pkt_id = pkt_id, h_payload_len = plen, h_loop_guard = 0\<rparr>"

definition routing_build_route_req ::
  "u32 \<Rightarrow> u32 \<Rightarrow> u16 \<Rightarrow> u16 \<Rightarrow> u8 list \<Rightarrow> u8 \<Rightarrow> int \<times> u8 list" where
  "routing_build_route_req my_id target_id seq pkt_id out_buf out_cap =
     protocol_encode (control_hdr PKT_ROUTE_REQ my_id target_id seq pkt_id 0) None 0 out_buf out_cap"

definition routing_build_route_rpl ::
  "u32 \<Rightarrow> u32 \<Rightarrow> u32 \<Rightarrow> u32 \<Rightarrow> u8 \<Rightarrow> u16 \<Rightarrow> u16 \<Rightarrow> u8 list \<Rightarrow> u8 \<Rightarrow> int \<times> u8 list" where
  "routing_build_route_rpl my_id requester_id target_id next_hop hop_count seq pkt_id out_buf out_cap =
     protocol_encode (control_hdr PKT_ROUTE_RPL my_id requester_id seq pkt_id ROUTE_RPL_PAYLOAD_LEN)
       (Some (put_u32 target_id @ put_u32 next_hop @ [hop_count])) ROUTE_RPL_PAYLOAD_LEN out_buf out_cap"

definition routing_should_reply_route_req ::
  "rivr_metrics_t \<Rightarrow> rivr_pkt_hdr_t \<Rightarrow> u32 \<Rightarrow> route_cache_t option \<Rightarrow> u32 \<Rightarrow>
   rivr_metrics_t \<times> route_cache_t option \<times> bool"
where
  "routing_should_reply_route_req m pkt my_id cache now =
     (if h_pkt_type pkt \<noteq> PKT_ROUTE_REQ then (m, cache, False)
      else if h_dst_id pkt = my_id then (m, cache, True)
      else case cache of
        None \<Rightarrow> (m, None, False)
      | Some c \<Rightarrow>
          (case route_cache_can_reply_for_dst m c (h_dst_id pkt) now of
             (m', c', r) \<Rightarrow> (m', Some c', r)))"

definition routing_build_ack ::
  "u32 \<Rightarrow> u32 \<Rightarrow> u32 \<Rightarrow> u16 \<Rightarrow> u16 \<Rightarrow> u16 \<Rightarrow> u8 list \<Rightarrow> u8 \<Rightarrow> int \<times> u8 list" where
  "routing_build_ack my_id dst_id ack_src_id ack_pkt_id seq pkt_id out_buf out_cap =
     protocol_encode (control_hdr PKT_ACK my_id dst_id seq pkt_id ACK_PAYLOAD_LEN)
       (Some (put_u32 ack_src_id @ put_u16 ack_pkt_id)) ACK_PAYLOAD_LEN out_buf out_cap"

text \<open>The score of a candidate next hop; the lookup may set or clear its stale flag.\<close>

definition routing_next_hop_score ::
  "rivr_role \<Rightarrow> rivr_neighbor_table_t \<Rightarrow> u32 \<Rightarrow> u32 \<Rightarrow> u8 \<times> rivr_neighbor_table_t" where
  "routing_next_hop_score role ntbl candidate_id now =
     (if candidate_id = 0 then (0, ntbl)
      else case neighbor_find ntbl candidate_id now of
        (None, ntbl') \<Rightarrow> (0, ntbl')
      | (Some n, ntbl') \<Rightarrow> (neighbor_link_score_full role n now, ntbl'))"

section \<open>What the receiver sees\<close>

lemma control_frame_decodes:
  assumes "length p \<le> 230" "unat plen = length p" "25 + length p \<le> unat cap"
    and "1 \<le> t" "t \<le> PKT_METRICS"
  shows "\<exists>frame. protocol_encode (control_hdr t src dst seq pkt_id plen) (Some p) plen out cap =
            (25 + int (length p), frame) \<and>
          protocol_decode m frame (25 + plen) =
            (m, Some (control_hdr t src dst seq pkt_id plen, if p = [] then None else Some p))"
  using protocol_encode_frame [OF assms(1-3), of "control_hdr t src dst seq pkt_id plen" out]
    unat_total_len [of plen] of_nat_unat_eq [OF assms(2)] assms
    frame_of_decodes [of p "control_hdr t src dst seq pkt_id plen" "25 + plen" m "drop (25 + length p) out"]
  by (simp add: word_le_nat_alt control_hdr_def)

text \<open>The fields a receiver reads back out of the two payloads.\<close>

lemma route_rpl_payload:
  "get_u32 (p ! 0) (p ! 1) (p ! 2) (p ! 3) = target \<and> get_u32 (p ! 4) (p ! 5) (p ! 6) (p ! 7) = nh \<and> p ! 8 = hops"
  if "p = put_u32 target @ put_u32 nh @ [hops]"
  using that by (simp add: put_u32_def wire_simps)

lemma ack_payload:
  "get_u32 (p ! 0) (p ! 1) (p ! 2) (p ! 3) = src \<and> get_u16 (p ! 4) (p ! 5) = pid"
  if "p = put_u32 src @ put_u16 pid"
  using that by (simp add: put_u32_def put_u16_def wire_simps)

lemma should_reply_cases:
  "snd (snd (routing_should_reply_route_req m pkt my_id cache now)) \<Longrightarrow> h_pkt_type pkt = PKT_ROUTE_REQ"
  by (auto simp: routing_should_reply_route_req_def split: if_splits)

section \<open>Properties\<close>

text \<open>An ACK reaches the retry logic unharmed. Whatever identifiers \<open>routing_build_ack\<close> is given,
  a receiver that decodes the frame it built finds a PKT_ACK addressed to the right node with the
  flood TTL, and reads back from the payload exactly the source and packet id being acknowledged.\<close>

theorem routing_build_ack_decodes:
  "\<exists>frame p. routing_build_ack my_id dst_id ack_src ack_pid seq pkt_id out 255 = (31, frame) \<and>
     protocol_decode m frame 31 =
       (m, Some (control_hdr PKT_ACK my_id dst_id seq pkt_id ACK_PAYLOAD_LEN, Some p)) \<and>
     get_u32 (p ! 0) (p ! 1) (p ! 2) (p ! 3) = ack_src \<and> get_u16 (p ! 4) (p ! 5) = ack_pid"
proof -
  let ?p = "put_u32 ack_src @ put_u16 ack_pid"
  have "?p \<noteq> []" by (simp add: put_u32_def)
  with control_frame_decodes [of ?p ACK_PAYLOAD_LEN 255 PKT_ACK my_id dst_id seq pkt_id out m]
    ack_payload [OF refl, of ack_src ack_pid]
  show ?thesis by (auto simp: routing_build_ack_def)
qed

end
