(* ===== verification/Rivr_RoutingNbr.thy ===== *)
theory Rivr_RoutingNbr
  imports Rivr_Protocol
begin

text \<open>
  The neighbour list of the routing module itself (routing.c, distinct from neighbor_table.c): a
  16-slot array that a first free slot or the oldest entry is taken from, with smoothed signal
  figures, the least hop count, the callsign and the role of each neighbour. The callsign is the
  C array of 12 characters; callers pass a NUL-terminated string, here the list of its characters.
\<close>

abbreviation "NEIGHBOR_TABLE_SIZE \<equiv> (16 :: nat)"
abbreviation "NEIGHBOR_EXPIRY_MS \<equiv> (120000 :: u32)"

record neighbor_entry_t =
  ne_node_id :: u32
  ne_last_seen_ms :: u32
  ne_rssi_dbm :: u8
  ne_hop_count :: u8
  ne_callsign :: "u8 list"
  ne_rx_ok :: u32
  ne_last_snr_db :: u8
  ne_role :: u8

record neighbor_table_t =
  ne_entries :: "neighbor_entry_t list"
  ne_count :: u8

definition ne_zero :: neighbor_entry_t where
  "ne_zero = \<lparr>ne_node_id = 0, ne_last_seen_ms = 0, ne_rssi_dbm = 0, ne_hop_count = 0,
              ne_callsign = replicate 12 0, ne_rx_ok = 0, ne_last_snr_db = 0, ne_role = 0\<rparr>"

definition routing_neighbor_init :: neighbor_table_t where
  "routing_neighbor_init = \<lparr>ne_entries = replicate NEIGHBOR_TABLE_SIZE ne_zero, ne_count = 0\<rparr>"

definition neighbor_compute_base :: "u8 \<Rightarrow> u8 \<Rightarrow> u8" where
  "neighbor_compute_base rssi_dbm snr_db =
     word_of_int (clamp_i32 (sint rssi_dbm + 140) 0 80 + clamp_i32 (sint snr_db + 10) 0 20)"

definition routing_neighbor_link_score :: "neighbor_entry_t \<Rightarrow> u32 \<Rightarrow> u8" where
  "routing_neighbor_link_score n now =
     (if ne_node_id n = 0 then 0
      else
        let age = now - ne_last_seen_ms n in
        if age \<ge> NEIGHBOR_EXPIRY_MS then 0
        else ucast (ucast (neighbor_compute_base (ne_rssi_dbm n) (ne_last_snr_db n)) *
                    (NEIGHBOR_EXPIRY_MS - age) div NEIGHBOR_EXPIRY_MS))"

text \<open>Filling a slot leaves the callsign and role that were there, as the C code does.\<close>

definition neighbor_fill_slot ::
  "neighbor_entry_t \<Rightarrow> rivr_pkt_hdr_t \<Rightarrow> u8 \<Rightarrow> u8 \<Rightarrow> u32 \<Rightarrow> neighbor_entry_t" where
  "neighbor_fill_slot n pkt rssi_dbm snr_db now =
     n\<lparr>ne_node_id := h_src_id pkt, ne_last_seen_ms := now, ne_rssi_dbm := rssi_dbm,
       ne_last_snr_db := snr_db, ne_hop_count := h_hop pkt + 1, ne_rx_ok := 1\<rparr>"

definition neighbor_update_existing ::
  "neighbor_entry_t \<Rightarrow> u8 \<Rightarrow> u8 \<Rightarrow> u8 \<Rightarrow> u32 \<Rightarrow> neighbor_entry_t" where
  "neighbor_update_existing n rssi_dbm snr_db new_hops now =
     (let n1 = n\<lparr>ne_last_seen_ms := now,
                 ne_rssi_dbm := word_of_int ((sint (ne_rssi_dbm n) * 7 + sint rssi_dbm) sdiv 8),
                 ne_last_snr_db := word_of_int ((sint (ne_last_snr_db n) * 7 + sint snr_db) sdiv 8),
                 ne_rx_ok := ne_rx_ok n + 1\<rparr>
      in if new_hops < ne_hop_count n1 then n1\<lparr>ne_hop_count := new_hops\<rparr> else n1)"

text \<open>What the update loop finds: a free slot to fill, the known entry, or, when the table is full of
  others, the oldest index.\<close>

datatype nbr_slot = FreeSlot nat | KnownSlot nat | OldestSlot "nat option"

fun neighbor_scan ::
  "u32 \<Rightarrow> u32 \<Rightarrow> nat \<Rightarrow> nat option \<Rightarrow> u32 \<Rightarrow> neighbor_entry_t list \<Rightarrow> nbr_slot" where
  "neighbor_scan src now i oldest age0 [] = OldestSlot oldest"
| "neighbor_scan src now i oldest age0 (n # ns) =
     (if ne_node_id n = 0 then FreeSlot i
      else if ne_node_id n = src then KnownSlot i
      else
        let age = now - ne_last_seen_ms n in
        if oldest = None \<or> age > age0 then neighbor_scan src now (Suc i) (Some i) age ns
        else neighbor_scan src now (Suc i) oldest age0 ns)"

definition routing_neighbor_update ::
  "neighbor_table_t \<Rightarrow> rivr_pkt_hdr_t \<Rightarrow> u8 \<Rightarrow> u8 \<Rightarrow> u32 \<Rightarrow> neighbor_table_t" where
  "routing_neighbor_update tbl pkt rssi_dbm snr_db now =
     (if h_src_id pkt = 0 then tbl
      else
        let new_hops = h_hop pkt + 1; es = ne_entries tbl in
        if new_hops > RIVR_PKT_DEFAULT_TTL then tbl
        else case neighbor_scan (h_src_id pkt) now 0 None 0 es of
          FreeSlot i \<Rightarrow>
            tbl\<lparr>ne_entries := es[i := neighbor_fill_slot (es ! i) pkt rssi_dbm snr_db now],
                ne_count := (if unat (ne_count tbl) < NEIGHBOR_TABLE_SIZE then ne_count tbl + 1
                             else ne_count tbl)\<rparr>
        | KnownSlot i \<Rightarrow>
            tbl\<lparr>ne_entries := es[i := neighbor_update_existing (es ! i) rssi_dbm snr_db new_hops now]\<rparr>
        | OldestSlot (Some i) \<Rightarrow>
            tbl\<lparr>ne_entries := es[i := neighbor_fill_slot (es ! i) pkt rssi_dbm snr_db now]\<rparr>
        | OldestSlot None \<Rightarrow> tbl)"

definition routing_neighbor_count :: "neighbor_table_t \<Rightarrow> u32 \<Rightarrow> u8" where
  "routing_neighbor_count tbl now =
     of_nat (count_if (\<lambda>n. ne_node_id n \<noteq> 0 \<and> now - ne_last_seen_ms n \<le> NEIGHBOR_EXPIRY_MS) (ne_entries tbl))"

definition routing_neighbor_get :: "neighbor_table_t \<Rightarrow> u8 \<Rightarrow> neighbor_entry_t option" where
  "routing_neighbor_get tbl idx =
     (if unat idx \<ge> NEIGHBOR_TABLE_SIZE then None
      else if ne_node_id (ne_entries tbl ! unat idx) \<noteq> 0 then Some (ne_entries tbl ! unat idx) else None)"

text \<open>At most 11 characters and the terminating NUL are copied; the rest of the array keeps its bytes.\<close>

definition copy_callsign :: "u8 list \<Rightarrow> u8 list \<Rightarrow> u8 list" where
  "copy_callsign old cs =
     (let src = take 11 (takeWhile (\<lambda>ch. ch \<noteq> 0) cs) @ [0]
      in src @ drop (length src) old)"

definition routing_neighbor_set_callsign ::
  "neighbor_table_t \<Rightarrow> u32 \<Rightarrow> u8 list \<Rightarrow> neighbor_table_t" where
  "routing_neighbor_set_callsign tbl node_id cs =
     (if node_id = 0 then tbl
      else case find_idx (\<lambda>n. ne_node_id n = node_id) (ne_entries tbl) of
        None \<Rightarrow> tbl
      | Some i \<Rightarrow> tbl\<lparr>ne_entries := (ne_entries tbl)[i := (ne_entries tbl ! i)
            \<lparr>ne_callsign := copy_callsign (ne_callsign (ne_entries tbl ! i)) cs\<rparr>]\<rparr>)"

definition routing_neighbor_set_role :: "neighbor_table_t \<Rightarrow> u32 \<Rightarrow> u8 \<Rightarrow> neighbor_table_t" where
  "routing_neighbor_set_role tbl node_id role =
     (if node_id = 0 then tbl
      else case find_idx (\<lambda>n. ne_node_id n = node_id) (ne_entries tbl) of
        None \<Rightarrow> tbl
      | Some i \<Rightarrow> tbl\<lparr>ne_entries := (ne_entries tbl)[i := (ne_entries tbl ! i)\<lparr>ne_role := role\<rparr>]\<rparr>)"

section \<open>The shape of the table\<close>

text \<open>Slots are filled from the front and never emptied, so the used ones form a prefix.\<close>

definition nbr_ok :: "neighbor_table_t \<Rightarrow> bool" where
  "nbr_ok tbl \<longleftrightarrow> length (ne_entries tbl) = NEIGHBOR_TABLE_SIZE \<and> unat (ne_count tbl) \<le> NEIGHBOR_TABLE_SIZE \<and>
     (\<forall>j < NEIGHBOR_TABLE_SIZE. ne_node_id (ne_entries tbl ! j) \<noteq> 0 \<longleftrightarrow> j < unat (ne_count tbl)) \<and>
     distinct (map ne_node_id (take (unat (ne_count tbl)) (ne_entries tbl))) \<and>
     (\<forall>j < unat (ne_count tbl). 1 \<le> unat (ne_hop_count (ne_entries tbl ! j)) \<and>
        unat (ne_hop_count (ne_entries tbl ! j)) \<le> 15)"

lemma neighbor_scan_free:
  "neighbor_scan src now i oldest age0 es = FreeSlot k \<Longrightarrow>
   \<exists>j < length es. k = i + j \<and> ne_node_id (es ! j) = 0 \<and>
     (\<forall>l < j. ne_node_id (es ! l) \<noteq> 0 \<and> ne_node_id (es ! l) \<noteq> src)"
proof (induction es arbitrary: i oldest age0)
  case (Cons n ns)
  show ?case
  proof (cases "ne_node_id n = 0 \<or> ne_node_id n = src")
    case True
    with Cons.prems show ?thesis by (auto split: if_splits)
  next
    case False
    with Cons.prems obtain o' a' where "neighbor_scan src now (Suc i) o' a' ns = FreeSlot k"
      by (auto simp: Let_def split: if_splits)
    from Cons.IH [OF this] obtain j where
      "j < length ns" "k = Suc i + j" "ne_node_id (ns ! j) = 0"
      "\<forall>l < j. ne_node_id (ns ! l) \<noteq> 0 \<and> ne_node_id (ns ! l) \<noteq> src" by blast
    with False show ?thesis by (intro exI [of _ "Suc j"]) (auto simp: less_Suc_eq_0_disj)
  qed
qed simp

lemma neighbor_scan_known:
  "neighbor_scan src now i oldest age0 es = KnownSlot k \<Longrightarrow>
   \<exists>j < length es. k = i + j \<and> ne_node_id (es ! j) = src \<and> src \<noteq> 0"
proof (induction es arbitrary: i oldest age0)
  case (Cons n ns)
  show ?case
  proof (cases "ne_node_id n = 0 \<or> ne_node_id n = src")
    case True
    with Cons.prems show ?thesis by (intro exI [of _ 0]) (auto split: if_splits)
  next
    case False
    with Cons.prems obtain o' a' where "neighbor_scan src now (Suc i) o' a' ns = KnownSlot k"
      by (auto simp: Let_def split: if_splits)
    from Cons.IH [OF this] obtain j where
      "j < length ns" "k = Suc i + j" "ne_node_id (ns ! j) = src" "src \<noteq> 0" by blast
    then show ?thesis by (intro exI [of _ "Suc j"]) auto
  qed
qed simp

lemma neighbor_scan_full:
  "neighbor_scan src now i oldest age0 es = OldestSlot ok \<Longrightarrow>
   (\<forall>n \<in> set es. ne_node_id n \<noteq> 0 \<and> ne_node_id n \<noteq> src) \<and>
   (ok = oldest \<or> (\<exists>j < length es. ok = Some (i + j))) \<and> (es \<noteq> [] \<longrightarrow> ok \<noteq> None)"
proof (induction es arbitrary: i oldest age0)
  case (Cons n ns)
  from Cons.prems have ne: "ne_node_id n \<noteq> 0" "ne_node_id n \<noteq> src" by (auto split: if_splits)
  from Cons.prems ne obtain o' a' where
    run: "neighbor_scan src now (Suc i) o' a' ns = OldestSlot ok" and o': "o' = Some i \<or> (o' = oldest \<and> oldest \<noteq> None)"
    by (auto simp: Let_def split: if_splits)
  from Cons.IH [OF run] ne o' show ?case by (cases ns) force+
qed simp

lemma neighbor_fill_slot_same [simp]:
  "ne_node_id (neighbor_fill_slot n pkt r s now) = h_src_id pkt"
  "ne_hop_count (neighbor_fill_slot n pkt r s now) = h_hop pkt + 1"
  by (simp_all add: neighbor_fill_slot_def)

lemma neighbor_update_existing_same [simp]:
  "ne_node_id (neighbor_update_existing n r s h now) = ne_node_id n"
  "ne_hop_count (neighbor_update_existing n r s h now) = (if h < ne_hop_count n then h else ne_hop_count n)"
  by (simp_all add: neighbor_update_existing_def Let_def)

lemma routing_neighbor_init_ok: "nbr_ok routing_neighbor_init"
  by (simp add: nbr_ok_def routing_neighbor_init_def ne_zero_def)

lemma new_hops_range:
  assumes "\<not> (15 < h + 1 :: bool)" "h + 1 \<noteq> (0 :: u8)"
  shows "1 \<le> unat (h + 1)" "unat (h + 1) \<le> 15"
proof -
  have "unat (h + 1) \<noteq> 0" using assms(2) word_eq_unat [of "h + 1" 0] by simp
  then show "1 \<le> unat (h + 1)" by simp
  show "unat (h + 1) \<le> 15" using assms(1) by (simp add: word_less_nat_alt)
qed

lemma routing_neighbor_update_ok:
  assumes ok: "nbr_ok tbl" and hop: "h_hop pkt \<noteq> 255"
  shows "nbr_ok (routing_neighbor_update tbl pkt r s now)"
proof (cases "h_src_id pkt = 0 \<or> h_hop pkt + 1 > RIVR_PKT_DEFAULT_TTL")
  case False
  let ?es = "ne_entries tbl" and ?src = "h_src_id pkt" and ?u = "unat (ne_count tbl)"
  have len: "length ?es = 16" and u: "?u \<le> 16" and pre: "\<forall>j < 16. ne_node_id (?es ! j) \<noteq> 0 \<longleftrightarrow> j < ?u"
    and dis: "distinct (map ne_node_id (take ?u ?es))"
    and hops: "\<forall>j < ?u. 1 \<le> unat (ne_hop_count (?es ! j)) \<and> unat (ne_hop_count (?es ! j)) \<le> 15"
    using ok by (simp_all add: nbr_ok_def)
  have "h_hop pkt + 1 \<noteq> 0"
  proof
    assume "h_hop pkt + 1 = 0"
    then have "h_hop pkt = - 1" by (simp add: eq_neg_iff_add_eq_0)
    with hop show False by simp
  qed
  then have new: "1 \<le> unat (h_hop pkt + 1)" "unat (h_hop pkt + 1) \<le> 15"
    using new_hops_range False by auto
  show ?thesis
  proof (cases "neighbor_scan ?src now 0 None 0 ?es")
    case (FreeSlot k)
    from neighbor_scan_free [OF this] obtain j where
      j: "j < 16" "k = j" "ne_node_id (?es ! j) = 0" "\<forall>l < j. ne_node_id (?es ! l) \<noteq> 0 \<and> ne_node_id (?es ! l) \<noteq> ?src"
      using len by auto
    have "\<not> j < ?u" using pre j by auto
    moreover have "\<not> ?u < j"
    proof
      assume lt: "?u < j"
      then have "?u < 16" using j(1) by simp
      with pre have "ne_node_id (?es ! ?u) = 0" by blast
      with j(4) lt show False by blast
    qed
    ultimately have ju: "j = ?u" by simp
    then have lt: "?u < 16" using j by simp
    let ?n = "neighbor_fill_slot (?es ! ?u) pkt r s now"
    have c: "unat (ne_count tbl + 1) = Suc ?u" using lt by (simp add: unat_word_ariths)
    have "take (Suc ?u) (?es[?u := ?n]) = take ?u ?es @ [?n]" using lt len by (simp add: take_Suc_conv_app_nth)
    moreover have "?src \<notin> set (map ne_node_id (take ?u ?es))"
      using j(4) ju len by (auto simp: in_set_conv_nth) blast
    ultimately have "distinct (map ne_node_id (take (Suc ?u) (?es[?u := ?n])))" using dis by simp
    moreover have "\<forall>j < 16. ne_node_id (?es[?u := ?n] ! j) \<noteq> 0 \<longleftrightarrow> j < Suc ?u"
      using pre len False lt by (auto simp: nth_list_update less_Suc_eq)
    moreover have "\<forall>j < Suc ?u. 1 \<le> unat (ne_hop_count (?es[?u := ?n] ! j)) \<and> unat (ne_hop_count (?es[?u := ?n] ! j)) \<le> 15"
      using hops new len lt by (auto simp: nth_list_update less_Suc_eq)
    ultimately show ?thesis
      using False FreeSlot j ju lt c len by (simp add: routing_neighbor_update_def nbr_ok_def Let_def)
  next
    case (KnownSlot k)
    from neighbor_scan_known [OF this] have k: "k < 16" "ne_node_id (?es ! k) = ?src" "?src \<noteq> 0"
      using len by auto
    then have ku: "k < ?u" using pre by auto
    let ?n = "neighbor_update_existing (?es ! k) r s (h_hop pkt + 1) now"
    have "map ne_node_id (take ?u (?es[k := ?n])) = map ne_node_id (take ?u ?es)"
      using ku len u by (simp add: take_update_swap map_update list_update_same_conv)
    moreover have "\<forall>j < 16. ne_node_id (?es[k := ?n] ! j) \<noteq> 0 \<longleftrightarrow> j < ?u"
      using pre len k by (auto simp: nth_list_update)
    moreover have "\<forall>j < ?u. 1 \<le> unat (ne_hop_count (?es[k := ?n] ! j)) \<and> unat (ne_hop_count (?es[k := ?n] ! j)) \<le> 15"
      using hops new len k u by (auto simp: nth_list_update)
    ultimately show ?thesis
      using False KnownSlot u dis len by (simp add: routing_neighbor_update_def nbr_ok_def Let_def)
  next
    case (OldestSlot ko)
    from neighbor_scan_full [OF this] len obtain k where k: "ko = Some k" "k < 16"
      and all: "\<forall>n \<in> set ?es. ne_node_id n \<noteq> 0 \<and> ne_node_id n \<noteq> ?src" by force
    have "\<not> ?u < 16"
    proof
      assume lt: "?u < 16"
      with pre have "ne_node_id (?es ! ?u) = 0" by blast
      moreover have "?es ! ?u \<in> set ?es" using lt len by simp
      ultimately show False using all by blast
    qed
    with u have "?u = 16" by simp
    let ?n = "neighbor_fill_slot (?es ! k) pkt r s now"
    have "distinct (map ne_node_id (?es[k := ?n]))"
      unfolding map_update using dis \<open>?u = 16\<close> len all by (intro distinct_list_update) auto
    moreover have "ne_node_id (?es[k := ?n] ! j) \<noteq> 0" if "j < 16" for j
      using all len False that by (cases "j = k") auto
    moreover have "1 \<le> unat (ne_hop_count (?es[k := ?n] ! j)) \<and> unat (ne_hop_count (?es[k := ?n] ! j)) \<le> 15"
      if "j < 16" for j
      using hops new len \<open>?u = 16\<close> that by (cases "j = k") auto
    ultimately show ?thesis
      using False OldestSlot k \<open>?u = 16\<close> len by (simp add: routing_neighbor_update_def nbr_ok_def Let_def)
  qed
qed (use ok in \<open>auto simp: routing_neighbor_update_def Let_def\<close>)

lemma nbr_ok_in_place:
  assumes "nbr_ok tbl" "k < 16" "ne_node_id n = ne_node_id (ne_entries tbl ! k)"
    "ne_hop_count n = ne_hop_count (ne_entries tbl ! k)"
  shows "nbr_ok (tbl\<lparr>ne_entries := (ne_entries tbl)[k := n]\<rparr>)"
proof -
  let ?es = "ne_entries tbl"
  have len: "length ?es = 16" using assms(1) by (simp add: nbr_ok_def)
  have "map ne_node_id (?es[k := n]) = map ne_node_id ?es"
    using assms(2,3) len by (simp add: map_update list_update_same_conv)
  then have "map ne_node_id (take u (?es[k := n])) = map ne_node_id (take u ?es)" for u
    by (simp flip: take_map)
  moreover have "ne_node_id (?es[k := n] ! j) = ne_node_id (?es ! j) \<and>
      ne_hop_count (?es[k := n] ! j) = ne_hop_count (?es ! j)" for j
    using assms(2-4) len by (cases "j = k") auto
  ultimately show ?thesis using assms(1) by (simp add: nbr_ok_def)
qed

lemma set_callsign_ok: "nbr_ok tbl \<Longrightarrow> nbr_ok (routing_neighbor_set_callsign tbl k cs)"
  by (auto simp: routing_neighbor_set_callsign_def nbr_ok_def [of tbl] split: option.splits
      dest!: find_idx_length intro!: nbr_ok_in_place)

lemma set_role_ok: "nbr_ok tbl \<Longrightarrow> nbr_ok (routing_neighbor_set_role tbl k r)"
  by (auto simp: routing_neighbor_set_role_def nbr_ok_def [of tbl] split: option.splits
      dest!: find_idx_length intro!: nbr_ok_in_place)

text \<open>The neighbour lists a node can hold, fed with packets whose hop field has not overflowed.\<close>

inductive nbr_reachable :: "neighbor_table_t \<Rightarrow> bool" where
  nbr_init: "nbr_reachable routing_neighbor_init"
| nbr_update: "nbr_reachable t \<Longrightarrow> h_hop pkt \<noteq> 255 \<Longrightarrow> nbr_reachable (routing_neighbor_update t pkt r s now)"
| nbr_callsign: "nbr_reachable t \<Longrightarrow> nbr_reachable (routing_neighbor_set_callsign t k cs)"
| nbr_role: "nbr_reachable t \<Longrightarrow> nbr_reachable (routing_neighbor_set_role t k role)"

section \<open>Properties\<close>

text \<open>The routing neighbour list stays well formed. In every list reachable with packets whose
  hop field is below 255, the used slots are exactly the first \<open>count\<close> ones, hold each node once,
  and record hop counts between 1 and 15.\<close>

theorem routing_neighbor_invariant:
  assumes "nbr_reachable tbl"
  shows "nbr_ok tbl"
  using assms
  by (induction rule: nbr_reachable.induct)
     (simp_all add: routing_neighbor_init_ok routing_neighbor_update_ok set_callsign_ok set_role_ok)

lemma routing_neighbor_invariant_witness:
  "nbr_ok (routing_neighbor_set_role (routing_neighbor_update routing_neighbor_init demo_hdr 0xB0 5 10) 7 2)"
  by (rule routing_neighbor_invariant) (intro nbr_role nbr_update nbr_init, simp add: demo_hdr_def)

text \<open>The hop-count guard of \<open>routing_neighbor_update\<close> misses one corrupt value. A packet whose
  hop field is 255 is not rejected: \<open>hop + 1\<close> wraps to 0 in eight bits, passes the comparison with
  the TTL limit, and an empty table records the sender at hop count 0, below any real neighbour.\<close>

theorem routing_neighbor_hop_overflow:
  assumes "h_hop pkt = 255" "h_src_id pkt \<noteq> 0"
  shows "ne_entries (routing_neighbor_update routing_neighbor_init pkt rssi snr now) ! 0 =
         neighbor_fill_slot ne_zero pkt rssi snr now \<and>
         ne_hop_count (neighbor_fill_slot ne_zero pkt rssi snr now) = 0"
proof -
  have "replicate NEIGHBOR_TABLE_SIZE z = z # replicate 15 z" for z :: neighbor_entry_t
    by (simp add: numeral_eq_Suc)
  with assms show ?thesis
    by (simp add: routing_neighbor_update_def routing_neighbor_init_def Let_def ne_zero_def neighbor_fill_slot_def)
qed

lemma routing_neighbor_hop_overflow_witness:
  "ne_hop_count (ne_entries (routing_neighbor_update routing_neighbor_init (demo_hdr\<lparr>h_hop := 255\<rparr>) 0xB0 5 10) ! 0) = 0"
  using routing_neighbor_hop_overflow [of "demo_hdr\<lparr>h_hop := 255\<rparr>" "0xB0" 5 10] by (simp add: demo_hdr_def)

text \<open>A slot taken over from an evicted node keeps that node's callsign and role.\<close>

lemma neighbor_fill_slot_keeps_identity:
  "ne_callsign (neighbor_fill_slot n pkt r s now) = ne_callsign n \<and>
   ne_role (neighbor_fill_slot n pkt r s now) = ne_role n"
  by (simp add: neighbor_fill_slot_def)

end
