(* ===== verification/Rivr_Ringbuf.thy ===== *)
theory Rivr_Ringbuf
  imports Rivr_Interfaces
begin

text \<open>
  The lock-free single-producer single-consumer ring of ringbuf.h. The functions are modelled
  twice: as atomic operations (the view of the code that owns one side and is not interrupted by
  itself), and as a step relation in which the loads, the copy and the store of a push and of a
  pop are separate steps that interleave freely, with sequentially consistent memory: the
  release store and acquire load of each index order the copy of the item before its publication
  on both sides, which is the order of the steps here.

  The storage is a list of items; the type-erased \<open>buf\<close>, \<open>item_size\<close> pair of the C struct
  is the item type. One slot stays empty, so a ring of capacity \<open>cap\<close> holds \<open>cap - 1\<close> items.
\<close>

record 'a rb_t =
  rb_buf :: "'a list"
  rb_cap :: u32
  rb_head :: u32
  rb_tail :: u32
  rb_drops :: u32

definition rb_init :: "'a list \<Rightarrow> u32 \<Rightarrow> 'a rb_t" where
  "rb_init storage cap = \<lparr>rb_buf = storage, rb_cap = cap, rb_head = 0, rb_tail = 0, rb_drops = 0\<rparr>"

definition rb_next :: "'a rb_t \<Rightarrow> u32 \<Rightarrow> u32" where
  "rb_next rb i = (i + 1) AND (rb_cap rb - 1)"

definition rb_try_push :: "'a \<Rightarrow> 'a rb_t \<Rightarrow> bool \<times> 'a rb_t" where
  "rb_try_push item rb =
     (let head = rb_head rb; next = rb_next rb head; tail = rb_tail rb in
      if next = tail then (False, rb\<lparr>rb_drops := rb_drops rb + 1\<rparr>)
      else (True, rb\<lparr>rb_buf := (rb_buf rb)[unat head := item], rb_head := next\<rparr>))"

definition rb_pop :: "'a rb_t \<Rightarrow> 'a option \<times> 'a rb_t" where
  "rb_pop rb =
     (let tail = rb_tail rb; head = rb_head rb in
      if tail = head then (None, rb)
      else (Some (rb_buf rb ! unat tail), rb\<lparr>rb_tail := rb_next rb tail\<rparr>))"

definition rb_available :: "'a rb_t \<Rightarrow> u32" where
  "rb_available rb = (rb_head rb - rb_tail rb) AND (rb_cap rb - 1)"

section \<open>Interleaved execution\<close>

text \<open>Where each side is inside its call, with the locals it has read so far.\<close>

datatype 'a producer = PIdle | PLoaded 'a u32 u32 | PRoom 'a u32 u32 | PCopied 'a u32
datatype 'a consumer = CIdle | CLoaded u32 | CSome u32 | CCopied 'a u32

text \<open>The shared ring, both program counters, and the items published and taken so far.\<close>

record 'a spsc =
  sp_ring :: "'a rb_t"
  sp_prod :: "'a producer"
  sp_cons :: "'a consumer"
  sp_pushed :: "'a list"
  sp_popped :: "'a list"

definition spsc_init :: "'a list \<Rightarrow> u32 \<Rightarrow> 'a spsc" where
  "spsc_init storage cap =
     \<lparr>sp_ring = rb_init storage cap, sp_prod = PIdle, sp_cons = CIdle, sp_pushed = [], sp_popped = []\<rparr>"

inductive spsc_step :: "'a spsc \<Rightarrow> 'a spsc \<Rightarrow> bool" where
  push_load: "sp_prod s = PIdle \<Longrightarrow>
    spsc_step s (s\<lparr>sp_prod := PLoaded x (rb_head (sp_ring s)) (rb_next (sp_ring s) (rb_head (sp_ring s)))\<rparr>)"
| push_full: "sp_prod s = PLoaded x h n \<Longrightarrow> n = rb_tail (sp_ring s) \<Longrightarrow>
    spsc_step s (s\<lparr>sp_prod := PIdle, sp_ring := (sp_ring s)\<lparr>rb_drops := rb_drops (sp_ring s) + 1\<rparr>\<rparr>)"
| push_room: "sp_prod s = PLoaded x h n \<Longrightarrow> n \<noteq> rb_tail (sp_ring s) \<Longrightarrow>
    spsc_step s (s\<lparr>sp_prod := PRoom x h n\<rparr>)"
| push_copy: "sp_prod s = PRoom x h n \<Longrightarrow>
    spsc_step s (s\<lparr>sp_prod := PCopied x n,
                   sp_ring := (sp_ring s)\<lparr>rb_buf := (rb_buf (sp_ring s))[unat h := x]\<rparr>\<rparr>)"
| push_publish: "sp_prod s = PCopied x n \<Longrightarrow>
    spsc_step s (s\<lparr>sp_prod := PIdle, sp_ring := (sp_ring s)\<lparr>rb_head := n\<rparr>, sp_pushed := sp_pushed s @ [x]\<rparr>)"
| pop_load: "sp_cons s = CIdle \<Longrightarrow>
    spsc_step s (s\<lparr>sp_cons := CLoaded (rb_tail (sp_ring s))\<rparr>)"
| pop_empty: "sp_cons s = CLoaded t \<Longrightarrow> t = rb_head (sp_ring s) \<Longrightarrow>
    spsc_step s (s\<lparr>sp_cons := CIdle\<rparr>)"
| pop_some: "sp_cons s = CLoaded t \<Longrightarrow> t \<noteq> rb_head (sp_ring s) \<Longrightarrow>
    spsc_step s (s\<lparr>sp_cons := CSome t\<rparr>)"
| pop_copy: "sp_cons s = CSome t \<Longrightarrow>
    spsc_step s (s\<lparr>sp_cons := CCopied (rb_buf (sp_ring s) ! unat t) t\<rparr>)"
| pop_publish: "sp_cons s = CCopied x t \<Longrightarrow>
    spsc_step s (s\<lparr>sp_cons := CIdle, sp_ring := (sp_ring s)\<lparr>rb_tail := rb_next (sp_ring s) t\<rparr>,
                   sp_popped := sp_popped s @ [x]\<rparr>)"

inductive_cases spsc_stepE: "spsc_step s s'"

inductive spsc_reachable :: "'a list \<Rightarrow> u32 \<Rightarrow> 'a spsc \<Rightarrow> bool" for storage cap where
  spsc_start: "spsc_reachable storage cap (spsc_init storage cap)"
| spsc_run: "spsc_reachable storage cap s \<Longrightarrow> spsc_step s s' \<Longrightarrow> spsc_reachable storage cap s'"

section \<open>Indices and contents\<close>

definition rb_ok :: "'a rb_t \<Rightarrow> bool" where
  "rb_ok rb \<longleftrightarrow> (\<exists>k < 32. rb_cap rb = 2 ^ k) \<and> length (rb_buf rb) = unat (rb_cap rb) \<and>
     unat (rb_head rb) < unat (rb_cap rb) \<and> unat (rb_tail rb) < unat (rb_cap rb)"

definition ring_used :: "nat \<Rightarrow> nat \<Rightarrow> nat \<Rightarrow> nat" where
  "ring_used c h t = (if t \<le> h then h - t else h + c - t)"

definition ring_items :: "'a list \<Rightarrow> nat \<Rightarrow> nat \<Rightarrow> nat \<Rightarrow> 'a list" where
  "ring_items b c h t = map (\<lambda>i. b ! (if t + i < c then t + i else t + i - c)) [0..<ring_used c h t]"

definition rb_contents :: "'a rb_t \<Rightarrow> 'a list" where
  "rb_contents rb = ring_items (rb_buf rb) (unat (rb_cap rb)) (unat (rb_head rb)) (unat (rb_tail rb))"

definition ring_succ :: "nat \<Rightarrow> nat \<Rightarrow> nat" where
  "ring_succ c i = (if Suc i = c then 0 else Suc i)"

lemma length_ring_items [simp]: "length (ring_items b c h t) = ring_used c h t"
  by (simp add: ring_items_def)

lemma ring_items_nth:
  "i < ring_used c h t \<Longrightarrow> ring_items b c h t ! i = b ! (if t + i < c then t + i else t + i - c)"
  by (simp add: ring_items_def)

lemma ring_used_less: "h < c \<Longrightarrow> t < c \<Longrightarrow> ring_used c h t < c"
  by (auto simp: ring_used_def)

lemma ring_succ_less: "i < c \<Longrightarrow> ring_succ c i < c"
  by (auto simp: ring_succ_def)

lemma ring_full: "h < c \<Longrightarrow> t < c \<Longrightarrow> ring_succ c h = t \<longleftrightarrow> Suc (ring_used c h t) = c"
  by (auto simp: ring_used_def ring_succ_def)

lemma ring_used_push:
  "h < c \<Longrightarrow> t < c \<Longrightarrow> ring_succ c h \<noteq> t \<Longrightarrow> ring_used c (ring_succ c h) t = Suc (ring_used c h t)"
  by (auto simp: ring_used_def ring_succ_def)

lemma ring_items_push:
  assumes "h < c" "t < c" "length b = c" "ring_succ c h \<noteq> t"
  shows "ring_items (b[h := x]) c (ring_succ c h) t = ring_items b c h t @ [x]"
proof (rule nth_equalityI)
  show "length (ring_items (b[h := x]) c (ring_succ c h) t) = length (ring_items b c h t @ [x])"
    using assms by (simp add: ring_used_push)
  fix i assume "i < length (ring_items (b[h := x]) c (ring_succ c h) t)"
  then have i: "i < Suc (ring_used c h t)" using assms by (simp add: ring_used_push)
  let ?k = "if t + i < c then t + i else t + i - c"
  have k: "?k = h \<longleftrightarrow> i = ring_used c h t" and "?k < c"
    using assms(1,2) i by (auto simp: ring_used_def split: if_splits)
  then show "ring_items (b[h := x]) c (ring_succ c h) t ! i = (ring_items b c h t @ [x]) ! i"
    using i assms by (auto simp: ring_items_def ring_used_push nth_append nth_list_update)
qed

lemma ring_items_free:
  assumes "h < c" "t < c"
  shows "ring_items (b[h := x]) c h t = ring_items b c h t"
proof (rule nth_equalityI)
  fix i assume "i < length (ring_items (b[h := x]) c h t)"
  then have i: "i < ring_used c h t" by simp
  have "(if t + i < c then t + i else t + i - c) \<noteq> h"
    using assms i by (auto simp: ring_used_def split: if_splits)
  then show "ring_items (b[h := x]) c h t ! i = ring_items b c h t ! i"
    using i by (auto simp: ring_items_def split: if_splits)
qed simp

lemma ring_items_pop:
  assumes "h < c" "t < c" "h \<noteq> t"
  shows "ring_items b c h t = b ! t # ring_items b c h (ring_succ c t)"
proof (rule nth_equalityI)
  have u: "ring_used c h t = Suc (ring_used c h (ring_succ c t))"
    using assms by (auto simp: ring_used_def ring_succ_def)
  then show "length (ring_items b c h t) = length (b ! t # ring_items b c h (ring_succ c t))" by simp
  fix i assume "i < length (ring_items b c h t)"
  then have i: "i < ring_used c h t" by simp
  show "ring_items b c h t ! i = (b ! t # ring_items b c h (ring_succ c t)) ! i"
  proof (cases i)
    case 0
    then show ?thesis using i assms by (simp add: ring_items_def)
  next
    case (Suc j)
    have "(if t + Suc j < c then t + Suc j else t + Suc j - c) =
          (if ring_succ c t + j < c then ring_succ c t + j else ring_succ c t + j - c)"
      using assms i Suc by (auto simp: ring_succ_def ring_used_def split: if_splits)
    moreover have "j < ring_used c h (ring_succ c t)" using i u Suc by simp
    ultimately show ?thesis using i Suc by (simp only: ring_items_nth nth_Cons_Suc)
  qed
qed

lemma unat_pow2_u32: "k < 32 \<Longrightarrow> unat (2 ^ k :: u32) = 2 ^ k"
proof -
  assume "k < 32"
  then have "(2 :: nat) ^ k < 2 ^ 32" by (simp only: power_strict_increasing_iff)
  then have "unat (of_nat (2 ^ k) :: u32) = 2 ^ k" by (simp only: unat_of_nat) simp
  then show ?thesis by simp
qed

lemma rb_next_succ:
  assumes "rb_ok rb" "unat i < unat (rb_cap rb)"
  shows "unat (rb_next rb i) = ring_succ (unat (rb_cap rb)) (unat i)"
proof -
  obtain k where k: "k < 32" "rb_cap rb = 2 ^ k" using assms(1) by (auto simp: rb_ok_def)
  have c: "unat (rb_cap rb) = 2 ^ k" using k by (simp add: unat_pow2_u32)
  have "rb_cap rb - 1 = mask k" by (simp add: k(2) mask_eq_exp_minus_1)
  then have "unat (rb_next rb i) = unat (i + 1) mod 2 ^ k" by (simp only: rb_next_def unat_and_mask)
  also have "unat (i + 1) = Suc (unat i)"
    using assms(2) unat_Suc_less [of i "rb_cap rb"] by (simp add: word_less_nat_alt)
  finally show ?thesis using assms(2) c by (auto simp: ring_succ_def mod_Suc)
qed


section \<open>The sequential view\<close>

lemma rb_ok_bounds:
  assumes "rb_ok rb"
  shows "unat (rb_head rb) < unat (rb_cap rb)" "unat (rb_tail rb) < unat (rb_cap rb)"
    "length (rb_buf rb) = unat (rb_cap rb)"
  using assms by (simp_all add: rb_ok_def)

lemma rb_next_less: "rb_ok rb \<Longrightarrow> unat i < unat (rb_cap rb) \<Longrightarrow> unat (rb_next rb i) < unat (rb_cap rb)"
  by (simp add: rb_next_succ ring_succ_less)

lemma rb_next_eq_iff:
  assumes "rb_ok rb"
  shows "rb_next rb (rb_head rb) = rb_tail rb \<longleftrightarrow> Suc (length (rb_contents rb)) = unat (rb_cap rb)"
  using rb_next_succ [OF assms rb_ok_bounds(1) [OF assms]] ring_full rb_ok_bounds [OF assms]
  by (simp add: word_eq_unat rb_contents_def)

lemma rb_empty_iff: "rb_ok rb \<Longrightarrow> rb_contents rb = [] \<longleftrightarrow> rb_tail rb = rb_head rb"
  using rb_ok_bounds [of rb]
  by (auto simp: rb_contents_def ring_items_def ring_used_def word_eq_unat split: if_splits)

lemma rb_contents_room: "rb_ok rb \<Longrightarrow> Suc (length (rb_contents rb)) \<le> unat (rb_cap rb)"
  using rb_ok_bounds [of rb] ring_used_less [of "unat (rb_head rb)" "unat (rb_cap rb)" "unat (rb_tail rb)"]
  by (simp add: rb_contents_def)

text \<open>A write into the free slot under the head changes no item, and publishing it appends it.\<close>

lemma rb_contents_copy:
  "rb_ok rb \<Longrightarrow> rb_contents (rb\<lparr>rb_buf := (rb_buf rb)[unat (rb_head rb) := x]\<rparr>) = rb_contents rb"
  using rb_ok_bounds [of rb] by (simp add: rb_contents_def ring_items_free)

lemma rb_contents_publish:
  assumes "rb_ok rb" "rb_next rb (rb_head rb) \<noteq> rb_tail rb" "rb_buf rb ! unat (rb_head rb) = x"
  shows "rb_contents (rb\<lparr>rb_head := rb_next rb (rb_head rb)\<rparr>) = rb_contents rb @ [x]"
proof -
  note b = rb_ok_bounds [OF assms(1)]
  have n: "unat (rb_next rb (rb_head rb)) = ring_succ (unat (rb_cap rb)) (unat (rb_head rb))"
    using assms(1) b(1) by (rule rb_next_succ)
  have "ring_succ (unat (rb_cap rb)) (unat (rb_head rb)) \<noteq> unat (rb_tail rb)"
    using assms(2) n by (auto dest: unsigned_word_eqI)
  from ring_items_push [OF b this, of x] assms(3) show ?thesis
    by (simp add: rb_contents_def n) (metis list_update_id)
qed

lemma rb_contents_take:
  assumes "rb_ok rb" "rb_tail rb \<noteq> rb_head rb"
  shows "rb_contents rb = rb_buf rb ! unat (rb_tail rb) # rb_contents (rb\<lparr>rb_tail := rb_next rb (rb_tail rb)\<rparr>)"
proof -
  note b = rb_ok_bounds [OF assms(1)]
  have "unat (rb_head rb) \<noteq> unat (rb_tail rb)" using assms(2) by (auto dest: unsigned_word_eqI)
  from ring_items_pop [OF b(1,2) this] rb_next_succ [OF assms(1) b(2)] show ?thesis
    by (simp add: rb_contents_def)
qed

lemma rb_init_ok: "k < 32 \<Longrightarrow> length storage = 2 ^ k \<Longrightarrow> rb_ok (rb_init storage (2 ^ k))"
  by (auto simp: rb_ok_def rb_init_def unat_pow2_u32)

lemma rb_init_empty [simp]: "rb_contents (rb_init storage cap) = []"
  by (simp add: rb_contents_def rb_init_def ring_items_def ring_used_def)

lemma rb_ok_head: "rb_ok rb \<Longrightarrow> unat h < unat (rb_cap rb) \<Longrightarrow> rb_ok (rb\<lparr>rb_head := h\<rparr>)"
  by (simp add: rb_ok_def)

lemma rb_ok_tail: "rb_ok rb \<Longrightarrow> unat t < unat (rb_cap rb) \<Longrightarrow> rb_ok (rb\<lparr>rb_tail := t\<rparr>)"
  by (simp add: rb_ok_def)

lemma rb_ok_buf: "rb_ok rb \<Longrightarrow> rb_ok (rb\<lparr>rb_buf := (rb_buf rb)[i := x]\<rparr>)"
  by (simp add: rb_ok_def)

lemma rb_try_push_spec:
  assumes "rb_ok rb" "rb_try_push x rb = (ok, rb')"
  shows "rb_ok rb'" "rb_cap rb' = rb_cap rb" "ok \<longleftrightarrow> Suc (length (rb_contents rb)) < unat (rb_cap rb)"
    "rb_contents rb' = (if ok then rb_contents rb @ [x] else rb_contents rb)"
proof -
  note b = rb_ok_bounds [OF assms(1)]
  let ?n = "rb_next rb (rb_head rb)" and ?rb1 = "rb\<lparr>rb_buf := (rb_buf rb)[unat (rb_head rb) := x]\<rparr>"
  have n: "unat ?n < unat (rb_cap rb)" using assms(1) b(1) by (rule rb_next_less)
  have ok1: "rb_ok ?rb1" using assms(1) by (rule rb_ok_buf)
  show "rb_ok rb'"
    using assms n rb_ok_head [OF ok1, of ?n]
    by (auto simp: rb_try_push_def Let_def rb_ok_def split: if_splits)
  show "rb_cap rb' = rb_cap rb" using assms by (auto simp: rb_try_push_def Let_def split: if_splits)
  show "ok \<longleftrightarrow> Suc (length (rb_contents rb)) < unat (rb_cap rb)"
    using assms rb_next_eq_iff [OF assms(1)] rb_contents_room [OF assms(1)]
    by (auto simp: rb_try_push_def Let_def split: if_splits)
  have "rb_contents (?rb1\<lparr>rb_head := ?n\<rparr>) = rb_contents rb @ [x]" if "?n \<noteq> rb_tail rb"
    using rb_contents_publish [OF ok1, of x] that b rb_contents_copy [OF assms(1), of x]
    by (simp add: rb_next_def)
  moreover have "rb_contents (rb\<lparr>rb_drops := d\<rparr>) = rb_contents rb" for d by (simp add: rb_contents_def)
  ultimately show "rb_contents rb' = (if ok then rb_contents rb @ [x] else rb_contents rb)"
    using assms by (auto simp: rb_try_push_def Let_def split: if_splits)
qed

lemma rb_pop_spec:
  assumes "rb_ok rb" "rb_pop rb = (r, rb')"
  shows "rb_ok rb'" "case rb_contents rb of [] \<Rightarrow> r = None \<and> rb' = rb
     | x # xs \<Rightarrow> r = Some x \<and> rb_contents rb' = xs"
proof -
  note b = rb_ok_bounds [OF assms(1)]
  have n: "unat (rb_next rb (rb_tail rb)) < unat (rb_cap rb)" using assms(1) b(2) by (rule rb_next_less)
  then show "rb_ok rb'"
    using assms by (auto simp: rb_pop_def Let_def rb_ok_tail split: if_splits)
  show "case rb_contents rb of [] \<Rightarrow> r = None \<and> rb' = rb | x # xs \<Rightarrow> r = Some x \<and> rb_contents rb' = xs"
    using assms rb_empty_iff [OF assms(1)] rb_contents_take [OF assms(1)]
    by (auto simp: rb_pop_def Let_def split: if_splits list.splits)
qed

text \<open>The ring is the transmit sink of the rest of the firmware.\<close>

interpretation rb_sink: tx_sink rb_ok rb_contents "\<lambda>rb. unat (rb_cap rb) - 1" rb_try_push
proof unfold_locales
  fix q :: "'a rb_t" and r :: 'a
  assume ok: "rb_ok q"
  obtain acc q' where p: "rb_try_push r q = (acc, q')" by fastforce
  note s = rb_try_push_spec [OF ok p]
  show "rb_ok (snd (rb_try_push r q)) \<and> unat (rb_cap (snd (rb_try_push r q))) - 1 = unat (rb_cap q) - 1"
    using s p by simp
  show "fst (rb_try_push r q) \<longleftrightarrow> length (rb_contents q) < unat (rb_cap q) - 1"
    using s(3) p rb_contents_room [OF ok] by auto
  show "rb_contents (snd (rb_try_push r q)) = (if fst (rb_try_push r q) then rb_contents q @ [r] else rb_contents q)"
    using s(4) p by simp
qed

section \<open>The interleaved view\<close>

definition spsc_inv :: "'a spsc \<Rightarrow> bool" where
  "spsc_inv s \<longleftrightarrow> (let rb = sp_ring s in
     rb_ok rb \<and> sp_pushed s = sp_popped s @ rb_contents rb \<and>
     (case sp_prod s of
        PIdle \<Rightarrow> True
      | PLoaded x h n \<Rightarrow> h = rb_head rb \<and> n = rb_next rb (rb_head rb)
      | PRoom x h n \<Rightarrow> h = rb_head rb \<and> n = rb_next rb (rb_head rb) \<and> n \<noteq> rb_tail rb
      | PCopied x n \<Rightarrow> n = rb_next rb (rb_head rb) \<and> n \<noteq> rb_tail rb \<and> rb_buf rb ! unat (rb_head rb) = x) \<and>
     (case sp_cons s of
        CIdle \<Rightarrow> True
      | CLoaded t \<Rightarrow> t = rb_tail rb
      | CSome t \<Rightarrow> t = rb_tail rb \<and> t \<noteq> rb_head rb
      | CCopied x t \<Rightarrow> t = rb_tail rb \<and> t \<noteq> rb_head rb \<and> x = rb_buf rb ! unat (rb_tail rb)))"

lemma rb_next_inj:
  assumes "rb_ok rb" "unat i < unat (rb_cap rb)" "unat j < unat (rb_cap rb)" "rb_next rb i = rb_next rb j"
  shows "i = j"
proof -
  have "ring_succ (unat (rb_cap rb)) (unat i) = ring_succ (unat (rb_cap rb)) (unat j)"
    using assms rb_next_succ by metis
  then have "unat i = unat j" by (auto simp: ring_succ_def split: if_splits)
  then show ?thesis by (rule unsigned_word_eqI)
qed

lemma rb_next_ring_update [simp]:
  "rb_next (rb\<lparr>rb_buf := b\<rparr>) = rb_next rb" "rb_next (rb\<lparr>rb_head := h\<rparr>) = rb_next rb"
  "rb_next (rb\<lparr>rb_tail := t\<rparr>) = rb_next rb" "rb_next (rb\<lparr>rb_drops := d\<rparr>) = rb_next rb"
  by (simp_all add: rb_next_def fun_eq_iff)

lemma rb_drops_irrelevant [simp]:
  "rb_ok (rb\<lparr>rb_drops := d\<rparr>) = rb_ok rb" "rb_contents (rb\<lparr>rb_drops := d\<rparr>) = rb_contents rb"
  by (simp_all add: rb_ok_def rb_contents_def)

lemma spsc_inv_step: "spsc_step s s' \<Longrightarrow> spsc_inv s \<Longrightarrow> spsc_inv s'"
proof (induction rule: spsc_step.induct)
  case (push_copy s x h n)
  then have ok: "rb_ok (sp_ring s)" by (simp add: spsc_inv_def Let_def)
  note b = rb_ok_bounds [OF ok]
  have "rb_tail (sp_ring s) \<noteq> rb_head (sp_ring s) \<Longrightarrow> unat (rb_tail (sp_ring s)) \<noteq> unat (rb_head (sp_ring s))"
    by (auto dest: unsigned_word_eqI)
  with push_copy b show ?case
    by (auto simp: spsc_inv_def Let_def rb_ok_buf rb_contents_copy split: consumer.splits)
next
  case (push_publish s x n)
  then have ok: "rb_ok (sp_ring s)" by (simp add: spsc_inv_def Let_def)
  have "unat (rb_next (sp_ring s) (rb_head (sp_ring s))) < unat (rb_cap (sp_ring s))"
    using rb_next_less [OF ok] rb_ok_bounds [OF ok] by simp
  with push_publish rb_contents_publish [OF ok, of x] rb_ok_head [OF ok] show ?case
    by (auto simp: spsc_inv_def Let_def split: consumer.splits)
next
  case (pop_publish s x t)
  then have ok: "rb_ok (sp_ring s)" by (simp add: spsc_inv_def Let_def)
  note b = rb_ok_bounds [OF ok]
  have t: "t = rb_tail (sp_ring s)" "t \<noteq> rb_head (sp_ring s)" "x = rb_buf (sp_ring s) ! unat (rb_tail (sp_ring s))"
    using pop_publish by (auto simp: spsc_inv_def Let_def)
  have ne: "rb_next (sp_ring s) (rb_head (sp_ring s)) \<noteq> rb_next (sp_ring s) (rb_tail (sp_ring s))"
    using rb_next_inj [OF ok b(1,2)] t by auto
  have "rb_contents (sp_ring s) = x # rb_contents ((sp_ring s)\<lparr>rb_tail := rb_next (sp_ring s) (rb_tail (sp_ring s))\<rparr>)"
    using rb_contents_take [OF ok] t by simp
  moreover have "rb_ok ((sp_ring s)\<lparr>rb_tail := rb_next (sp_ring s) (rb_tail (sp_ring s))\<rparr>)"
    using rb_ok_tail [OF ok] rb_next_less [OF ok b(2)] by simp
  ultimately show ?case
    using pop_publish ne t(1) by (auto simp: spsc_inv_def Let_def split: producer.splits)
qed (auto simp: spsc_inv_def Let_def split: producer.splits consumer.splits)

lemma spsc_reachable_inv:
  assumes "spsc_reachable storage (2 ^ k) s" "k < 32" "length storage = 2 ^ k"
  shows "spsc_inv s"
  using assms(1)
proof (induction rule: spsc_reachable.induct)
  case spsc_start
  then show ?case
    using rb_init_ok [OF assms(2,3)] by (simp add: spsc_inv_def spsc_init_def Let_def)
qed (rule spsc_inv_step)

section \<open>Properties\<close>

text \<open>C11: The ring is a FIFO under every interleaving. However the steps of one producer and one
  consumer interleave, the items the consumer has taken followed by the items still in the ring are
  exactly the items the producer has published, in order: nothing is lost, duplicated, reordered
  or overwritten, and at most \<open>cap - 1\<close> items are ever stored.\<close>

theorem spsc_fifo:
  assumes "spsc_reachable storage (2 ^ k) s" "k < 32" "length storage = 2 ^ k"
  shows "sp_pushed s = sp_popped s @ rb_contents (sp_ring s) \<and> length (rb_contents (sp_ring s)) < 2 ^ k"
proof -
  have inv: "spsc_inv s" using spsc_reachable_inv [OF assms] .
  have "rb_cap (sp_ring s) = 2 ^ k"
    using assms(1)
  proof (induction rule: spsc_reachable.induct)
    case (spsc_run s s')
    from spsc_run.hyps(2) spsc_run.IH show ?case by (induction rule: spsc_step.induct) auto
  qed (simp add: spsc_init_def rb_init_def)
  then have "unat (rb_cap (sp_ring s)) = 2 ^ k" using assms(2) by (simp add: unat_pow2_u32)
  with inv rb_contents_room [of "sp_ring s"] show ?thesis by (simp add: spsc_inv_def Let_def)
qed

lemma spsc_fifo_witness:
  "\<exists>s :: nat spsc. sp_pushed s = [7] \<and> sp_popped s = [] \<and> sp_pushed s = sp_popped s @ rb_contents (sp_ring s)"
proof -
  let ?s0 = "spsc_init [0, 0, 0, 0 :: nat] (2 ^ 2)"
  let ?r0 = "sp_ring ?s0"
  let ?s1 = "?s0\<lparr>sp_prod := PLoaded 7 (rb_head ?r0) (rb_next ?r0 (rb_head ?r0))\<rparr>"
  let ?s2 = "?s1\<lparr>sp_prod := PRoom 7 0 (rb_next ?r0 (rb_head ?r0))\<rparr>"
  let ?s3 = "?s2\<lparr>sp_prod := PCopied 7 (rb_next ?r0 (rb_head ?r0)), sp_ring := (sp_ring ?s2)\<lparr>rb_buf := (rb_buf (sp_ring ?s2))[unat (0 :: u32) := 7]\<rparr>\<rparr>"
  let ?s4 = "?s3\<lparr>sp_prod := PIdle, sp_ring := (sp_ring ?s3)\<lparr>rb_head := rb_next ?r0 (rb_head ?r0)\<rparr>, sp_pushed := sp_pushed ?s3 @ [7]\<rparr>"
  have i: "sp_prod ?s0 = PIdle" "rb_head ?r0 = 0" "rb_tail ?r0 = 0" "rb_next ?r0 0 = 1"
    by (simp_all add: spsc_init_def rb_init_def rb_next_def)
  have "spsc_step ?s0 ?s1" by (rule push_load) (rule i(1))
  moreover have "spsc_step ?s1 ?s2" using i by (intro push_room) auto
  moreover have "spsc_step ?s2 ?s3" by (intro push_copy) simp
  moreover have "spsc_step ?s3 ?s4" by (intro push_publish) simp
  ultimately have "spsc_reachable [0, 0, 0, 0 :: nat] (2 ^ 2) ?s4"
    by (meson spsc_run spsc_start)
  from spsc_fifo [OF this] have "sp_pushed ?s4 = sp_popped ?s4 @ rb_contents (sp_ring ?s4)" by simp
  moreover have "sp_pushed ?s4 = [7]" "sp_popped ?s4 = []" by (simp_all add: spsc_init_def)
  ultimately show ?thesis by blast
qed

end
