(* ===== verification/Rivr_TxQueue.thy ===== *)
theory Rivr_TxQueue
  imports Rivr_Ringbuf Rivr_Config Rivr_Protocol
begin

text \<open>
  The requests that travel through the radio's transmit queue (\<open>rf_tx_request_t\<close> of
  radio_sx1262.h): a 255-byte array with the frame in its first \<open>len\<close> bytes, the time on air and
  the earliest time to send. \<open>tx_request\<close> is the sequence of a \<open>memset\<close>, a \<open>memcpy\<close> and three
  assignments with which every client builds one.
\<close>

abbreviation "RF_TX_QUEUE_CAP \<equiv> (4 :: u32)"

record rf_tx_request_t =
  tx_data :: "u8 list"
  tx_len :: u8
  tx_toa_us :: u32
  tx_due_ms :: u32

type_synonym tx_queue = "rf_tx_request_t rb_t"

definition tx_request :: "u8 list \<Rightarrow> u8 \<Rightarrow> u32 \<Rightarrow> rf_tx_request_t" where
  "tx_request data len toa =
     \<lparr>tx_data = take (unat len) data @ replicate (255 - unat len) 0, tx_len = len,
      tx_toa_us = toa, tx_due_ms = 0\<rparr>"

definition memcpy :: "u8 list \<Rightarrow> u8 list \<Rightarrow> nat \<Rightarrow> u8 list" where
  "memcpy dst src n = take n src @ drop n dst"

lemma length_memcpy [simp]: "n \<le> length src \<Longrightarrow> n \<le> length dst \<Longrightarrow> length (memcpy dst src n) = length dst"
  by (simp add: memcpy_def)

lemma take_memcpy [simp]: "n \<le> length src \<Longrightarrow> take n (memcpy dst src n) = take n src"
  by (simp add: memcpy_def)

lemma nth_memcpy [simp]: "i < n \<Longrightarrow> n \<le> length src \<Longrightarrow> memcpy dst src n ! i = src ! i"
  by (simp add: memcpy_def nth_append)

text \<open>The frame a request carries.\<close>

definition tx_frame :: "rf_tx_request_t \<Rightarrow> u8 list" where
  "tx_frame r = take (unat (tx_len r)) (tx_data r)"

lemma tx_frame_request [simp]: "unat len \<le> length data \<Longrightarrow> tx_frame (tx_request data len toa) = take (unat len) data"
  by (simp add: tx_frame_def tx_request_def)

text \<open>Decoding only looks at the first \<open>len\<close> bytes of a buffer.\<close>

lemma wire_ok_take:
  assumes "unat len \<le> n"
  shows "wire_ok (take n buf) len \<longleftrightarrow> wire_ok buf len"
proof (cases "25 + unat (buf ! 21) \<le> unat len \<and> 25 \<le> unat len")
  case True
  then have "take (23 + unat (buf ! 21)) (take n buf) = take (23 + unat (buf ! 21)) buf"
    using assms by (simp add: min_def)
  with True assms show ?thesis by (simp add: wire_ok_def)
next
  case False
  show ?thesis
  proof (cases "25 \<le> unat len")
    case True
    then have "take n buf ! 21 = buf ! 21" using assms by simp
    with False True show ?thesis by (simp add: wire_ok_def)
  qed (simp add: wire_ok_def)
qed

lemma wire_ok_cong:
  assumes "take (unat len) a = take (unat len) b"
  shows "wire_ok a len \<longleftrightarrow> wire_ok b len"
  using wire_ok_take [of len "unat len" a] wire_ok_take [of len "unat len" b] assms by simp

end
