(* ===== verification/Rivr_RetryTable.thy ===== *)
theory Rivr_RetryTable
  imports Rivr_TxQueue
begin

text \<open>
  The ACK-wait and retry table (retry_table.h, retry_table.c): unicast frames that wait for an
  acknowledgement, retransmitted with a fresh packet id and CRC after a timeout that doubles, and
  turned into a broadcast flood when the retries are used up. \<open>retry_table_tick\<close> is a loop over
  the slots; its body is \<open>retry_tick_slot\<close>, which threads the metrics, the table, the transmit
  queue, the packet-id counter and the number of pushes. The capacity is that of the role.
\<close>

abbreviation "RETRY_MAX \<equiv> (3 :: u8)"
abbreviation "RETRY_TIMEOUT_MS \<equiv> (4000 :: u32)"
abbreviation "PKT_ID_BYTE_OFFSET \<equiv> (19 :: nat)"
abbreviation "LOOP_GUARD_BYTE_OFFSET \<equiv> (22 :: nat)"

record retry_entry_t =
  re_ack_src_id :: u32
  re_cur_pkt_id :: u16
  re_dst_id :: u32
  re_next_hop :: u32
  re_data :: "u8 list"
  re_len :: u8
  re_toa_us :: u32
  re_next_retry_ms :: u32
  re_timeout_interval_ms :: u32
  re_retries_left :: u8
  re_valid :: bool

record retry_table_t =
  rt_entries :: "retry_entry_t list"
  rt_count :: u8

definition retry_entry_zero :: retry_entry_t where
  "retry_entry_zero =
     \<lparr>re_ack_src_id = 0, re_cur_pkt_id = 0, re_dst_id = 0, re_next_hop = 0,
      re_data = replicate 255 0, re_len = 0, re_toa_us = 0, re_next_retry_ms = 0,
      re_timeout_interval_ms = 0, re_retries_left = 0, re_valid = False\<rparr>"

definition patch_pkt_id_and_crc :: "u8 list \<Rightarrow> u8 \<Rightarrow> u16 \<Rightarrow> u8 list" where
  "patch_pkt_id_and_crc data len new_pkt_id =
     (let d1 = data[PKT_ID_BYTE_OFFSET := ucast (new_pkt_id AND 0xFF),
                    PKT_ID_BYTE_OFFSET + 1 := ucast (drop_bit 8 new_pkt_id)];
          payload_len = d1 ! 21;
          crc_off = RIVR_PKT_HDR_LEN + payload_len
      in if (ucast crc_off + 2 :: u16) \<le> ucast len
         then let crc = protocol_crc16 d1 crc_off
              in d1[unat crc_off := ucast (crc AND 0xFF), unat crc_off + 1 := ucast (drop_bit 8 crc)]
         else d1)"

definition build_fallback_flood :: "retry_entry_t \<Rightarrow> u16 \<Rightarrow> rf_tx_request_t" where
  "build_fallback_flood e fb_pkt_id =
     (let r = tx_request (re_data e) (re_len e) (re_toa_us e);
          d = (tx_data r)[4 := (tx_data r ! 4 AND NOT PKT_FLAG_ACK_REQ) OR PKT_FLAG_FALLBACK,
                          5 := RIVR_FALLBACK_TTL, 6 := 0, 13 := 0, 14 := 0, 15 := 0, 16 := 0,
                          LOOP_GUARD_BYTE_OFFSET := 0]
      in r\<lparr>tx_data := patch_pkt_id_and_crc d (tx_len r) fb_pkt_id\<rparr>)"

definition retry_table_init :: "rivr_role \<Rightarrow> retry_table_t" where
  "retry_table_init role =
     \<lparr>rt_entries = replicate (RIVR_RETRY_TABLE_SIZE role) retry_entry_zero, rt_count = 0\<rparr>"

text \<open>Filling and clearing a slot, with the guarded counter updates of the code.\<close>

definition retry_fill :: "rivr_role \<Rightarrow> nat \<Rightarrow> retry_entry_t \<Rightarrow> retry_table_t \<Rightarrow> retry_table_t" where
  "retry_fill role i e rt =
     rt\<lparr>rt_entries := (rt_entries rt)[i := e],
        rt_count := (if unat (rt_count rt) < RIVR_RETRY_TABLE_SIZE role then rt_count rt + 1 else rt_count rt)\<rparr>"

definition retry_clear :: "nat \<Rightarrow> retry_table_t \<Rightarrow> retry_table_t" where
  "retry_clear i rt =
     rt\<lparr>rt_entries := (rt_entries rt)[i := retry_entry_zero],
        rt_count := (if rt_count rt > 0 then rt_count rt - 1 else rt_count rt)\<rparr>"

definition retry_table_enqueue ::
  "rivr_role \<Rightarrow> rivr_metrics_t \<Rightarrow> retry_table_t \<Rightarrow> u32 \<Rightarrow> u16 \<Rightarrow> u32 \<Rightarrow> u32 \<Rightarrow> u8 list \<Rightarrow> u8 \<Rightarrow> u32 \<Rightarrow> u32 \<Rightarrow>
   rivr_metrics_t \<times> retry_table_t \<times> bool"
where
  "retry_table_enqueue role m rt ack_src_id cur_pkt_id dst_id next_hop data len toa now =
     (if len = 0 then (m, rt, False)
      else case find_idx (\<lambda>e. \<not> re_valid e) (rt_entries rt) of
        Some i \<Rightarrow>
          (m, retry_fill role i
             \<lparr>re_ack_src_id = ack_src_id, re_cur_pkt_id = cur_pkt_id, re_dst_id = dst_id,
              re_next_hop = next_hop, re_data = memcpy (re_data (rt_entries rt ! i)) data (unat len),
              re_len = len, re_toa_us = toa, re_next_retry_ms = now + RETRY_TIMEOUT_MS,
              re_timeout_interval_ms = RETRY_TIMEOUT_MS, re_retries_left = RETRY_MAX,
              re_valid = True\<rparr> rt, True)
      | None \<Rightarrow> (bump retry_fail_total m, rt, False))"

definition retry_table_ack :: "retry_table_t \<Rightarrow> u32 \<Rightarrow> u16 \<Rightarrow> bool \<times> retry_table_t" where
  "retry_table_ack rt ack_src_id ack_pkt_id =
     (case find_idx (\<lambda>e. re_valid e \<and> re_ack_src_id e = ack_src_id \<and> re_cur_pkt_id e = ack_pkt_id)
             (rt_entries rt) of
        Some i \<Rightarrow> (True, retry_clear i rt)
      | None \<Rightarrow> (False, rt))"

section \<open>The tick\<close>

type_synonym retry_env = "rivr_metrics_t \<times> retry_table_t \<times> tx_queue \<times> u32 \<times> u8"

text \<open>The retransmission an entry turns into, and the entry it leaves behind.\<close>

definition retry_patched :: "retry_entry_t \<Rightarrow> u16 \<Rightarrow> retry_entry_t" where
  "retry_patched e pid =
     e\<lparr>re_cur_pkt_id := pid, re_data := patch_pkt_id_and_crc (re_data e) (re_len e) pid\<rparr>"

definition retry_backoff :: "retry_entry_t \<Rightarrow> u32 \<Rightarrow> retry_entry_t" where
  "retry_backoff e now =
     e\<lparr>re_retries_left := re_retries_left e - 1,
       re_timeout_interval_ms := push_bit 1 (re_timeout_interval_ms e),
       re_next_retry_ms := now + push_bit 1 (re_timeout_interval_ms e)\<rparr>"

definition retry_due :: "u32 \<Rightarrow> retry_entry_t \<Rightarrow> bool" where
  "retry_due now e \<longleftrightarrow> re_valid e \<and> \<not> sint (now - re_next_retry_ms e) < 0"

definition retry_tick_slot :: "u32 \<Rightarrow> nat \<Rightarrow> retry_env \<Rightarrow> retry_env" where
  "retry_tick_slot now i env =
     (case env of (m, rt, q, ctr, pushed) \<Rightarrow>
        let e = rt_entries rt ! i in
        if \<not> retry_due now e then env
        else if re_retries_left e > 0 then
          let ctr1 = ctr + 1;
              e1 = retry_patched e (ucast ctr1);
              (ok, q1) = rb_try_push (tx_request (re_data e1) (re_len e1) (re_toa_us e1)) q
          in (if ok then bump retry_attempt_total m else m,
              rt\<lparr>rt_entries := (rt_entries rt)[i := retry_backoff e1 now]\<rparr>, q1, ctr1,
              if ok then pushed + 1 else pushed)
        else
          let ctr1 = ctr + 1;
              (ok, q1) = rb_try_push (build_fallback_flood e (ucast ctr1)) q;
              m1 = bump retry_fail_total m
          in (if ok then bump retry_fallback_total m1 else m1, retry_clear i rt, q1, ctr1,
              if ok then pushed + 1 else pushed))"

definition retry_table_tick ::
  "rivr_role \<Rightarrow> rivr_metrics_t \<Rightarrow> retry_table_t \<Rightarrow> tx_queue \<Rightarrow> u32 \<Rightarrow> u32 \<Rightarrow> retry_env" where
  "retry_table_tick role m rt q ctr now =
     fold (retry_tick_slot now) [0..<RIVR_RETRY_TABLE_SIZE role] (m, rt, q, ctr, 0)"

definition retry_table_count :: "retry_table_t \<Rightarrow> u8" where
  "retry_table_count rt = of_nat (count_if re_valid (rt_entries rt))"

section \<open>Patching a frame\<close>

text \<open>A buffer that passes every check of the decoder but the CRC.\<close>

definition wire_shape :: "u8 list \<Rightarrow> u8 \<Rightarrow> bool" where
  "wire_shape d len \<longleftrightarrow>
     25 \<le> unat len \<and> unat len \<le> length d \<and> get_u16 (d ! 0) (d ! 1) = RIVR_MAGIC \<and> d ! 2 = RIVR_PROTO_VER \<and>
     1 \<le> d ! 3 \<and> d ! 3 \<le> PKT_METRICS \<and> d ! 21 \<le> RIVR_PKT_MAX_PAYLOAD \<and> 25 + unat (d ! 21) \<le> unat len"

lemma wire_ok_shape: "wire_ok d len \<Longrightarrow> unat len \<le> length d \<Longrightarrow> wire_shape d len"
  by (simp add: wire_ok_def wire_shape_def)

lemma crc_guard:
  assumes "wire_shape d len"
  shows "(ucast (RIVR_PKT_HDR_LEN + d ! 21) + 2 :: u16) \<le> ucast len"
    "unat (RIVR_PKT_HDR_LEN + d ! 21) = 23 + unat (d ! 21)"
proof -
  show u: "unat (RIVR_PKT_HDR_LEN + d ! 21) = 23 + unat (d ! 21)"
    using assms by (intro unat_data_len) (simp add: wire_shape_def)
  have c: "unat (ucast (RIVR_PKT_HDR_LEN + d ! 21) :: u16) = 23 + unat (d ! 21)"
    by (simp only: unat_ucast_up u)
  have "unat (ucast (RIVR_PKT_HDR_LEN + d ! 21) + 2 :: u16) = 25 + unat (d ! 21)"
    using unat_u8_less [of "d ! 21"] by (subst word_add_no_wrap) (simp_all only: c, simp_all)
  then show "(ucast (RIVR_PKT_HDR_LEN + d ! 21) + 2 :: u16) \<le> ucast len"
    using assms by (simp add: word_le_nat_alt wire_shape_def)
qed

definition patched :: "u8 list \<Rightarrow> u16 \<Rightarrow> u8 list" where
  "patched d pid = d[19 := ucast pid, 20 := ucast (drop_bit 8 pid)]"

lemma patch_eq:
  assumes "wire_shape d len"
  shows "patch_pkt_id_and_crc d len pid =
    (let n = unat (d ! 21); crc = foldl crc16_step 0xFFFF (take (23 + n) (patched d pid))
     in (patched d pid)[23 + n := ucast crc, 24 + n := ucast (drop_bit 8 crc)])"
  using crc_guard [OF assms]
  by (simp add: patch_pkt_id_and_crc_def patched_def Let_def protocol_crc16_def ucast_and_ff add.commute)

lemma patch_wire_ok:
  assumes "wire_shape d len"
  shows "wire_ok (patch_pkt_id_and_crc d len pid) len"
  using assms
  by (simp add: patch_eq [OF assms] Let_def wire_ok_def wire_shape_def patched_def take_update_cancel wire_simps)

lemma patch_length [simp]: "length (patch_pkt_id_and_crc d len pid) = length d"
  by (simp add: patch_pkt_id_and_crc_def Let_def)

lemma patch_header:
  assumes "wire_shape d len"
  shows "unpack_header_from_wire (patch_pkt_id_and_crc d len pid) (d ! 21) =
         (unpack_header_from_wire d (d ! 21))\<lparr>h_pkt_id := pid\<rparr>"
    "patch_pkt_id_and_crc d len pid ! 21 = d ! 21"
    "take (unat (d ! 21)) (drop 23 (patch_pkt_id_and_crc d len pid)) = take (unat (d ! 21)) (drop 23 d)"
    "get_u16 (patch_pkt_id_and_crc d len pid ! 19) (patch_pkt_id_and_crc d len pid ! 20) = pid"
proof -
  let ?n = "unat (d ! 21)"
  have len: "25 + ?n \<le> length d" using assms by (simp add: wire_shape_def)
  show "unpack_header_from_wire (patch_pkt_id_and_crc d len pid) (d ! 21) =
         (unpack_header_from_wire d (d ! 21))\<lparr>h_pkt_id := pid\<rparr>"
    using len by (simp add: patch_eq [OF assms] Let_def patched_def unpack_header_from_wire_def wire_simps)
  show "patch_pkt_id_and_crc d len pid ! 21 = d ! 21"
    using len by (simp add: patch_eq [OF assms] Let_def patched_def)
  show "take ?n (drop 23 (patch_pkt_id_and_crc d len pid)) = take ?n (drop 23 d)"
    using len by (intro nth_equalityI) (simp_all add: patch_eq [OF assms] Let_def patched_def)
  show "get_u16 (patch_pkt_id_and_crc d len pid ! 19) (patch_pkt_id_and_crc d len pid ! 20) = pid"
    using len by (simp add: patch_eq [OF assms] Let_def patched_def wire_simps)
qed

section \<open>The fallback flood\<close>

lemma fallback_flood_decodes:
  assumes ok: "wire_ok (re_data e) (re_len e)" and len: "length (re_data e) = 255"
  shows "snd (protocol_decode m (tx_data (build_fallback_flood e pid)) (re_len e)) =
     Some ((unpack_header_from_wire (re_data e) (re_data e ! 21))
             \<lparr>h_flags := (re_data e ! 4 AND NOT PKT_FLAG_ACK_REQ) OR PKT_FLAG_FALLBACK,
              h_ttl := RIVR_FALLBACK_TTL, h_hop := 0, h_dst_id := 0, h_loop_guard := 0, h_pkt_id := pid\<rparr>,
           if re_data e ! 21 > 0 then Some (take (unat (re_data e ! 21)) (drop 23 (re_data e))) else None)"
proof -
  let ?r = "tx_request (re_data e) (re_len e) (re_toa_us e)"
  let ?d = "(tx_data ?r)[4 := (tx_data ?r ! 4 AND NOT PKT_FLAG_ACK_REQ) OR PKT_FLAG_FALLBACK,
                          5 := RIVR_FALLBACK_TTL, 6 := 0, 13 := 0, 14 := 0, 15 := 0, 16 := 0, 22 := 0]"
  have lb: "unat (re_len e) \<le> 255" using unat_u8_less [of "re_len e"] by simp
  have n: "25 + unat (re_data e ! 21) \<le> unat (re_len e)" using ok by (simp add: wire_ok_def)
  have nth: "tx_data ?r ! i = re_data e ! i" if "i < unat (re_len e)" for i
    using that lb len by (simp add: tx_request_def nth_append)
  have tl: "length (tx_data ?r) = 255" using lb len by (simp add: tx_request_def)
  have nd: "?d ! i = re_data e ! i" if "i < unat (re_len e)" "i \<notin> {4, 5, 6, 13, 14, 15, 16, 22}" for i
    using that nth by simp
  have b21: "?d ! 21 = re_data e ! 21" using n by (intro nd) simp_all
  have shape: "wire_shape ?d (re_len e)"
    using ok n nth tl lb by (simp add: wire_ok_def wire_shape_def)
  have data: "tx_data (build_fallback_flood e pid) = patch_pkt_id_and_crc ?d (re_len e) pid"
    by (simp add: build_fallback_flood_def Let_def) (simp add: tx_request_def)
  have hdr: "unpack_header_from_wire ?d (re_data e ! 21) =
      (unpack_header_from_wire (re_data e) (re_data e ! 21))
             \<lparr>h_flags := (re_data e ! 4 AND NOT PKT_FLAG_ACK_REQ) OR PKT_FLAG_FALLBACK,
              h_ttl := RIVR_FALLBACK_TTL, h_hop := 0, h_dst_id := 0, h_loop_guard := 0\<rparr>"
    using n tl nth by (simp add: unpack_header_from_wire_def get_u32_def)
  have body: "take (unat (re_data e ! 21)) (drop 23 ?d) = take (unat (re_data e ! 21)) (drop 23 (re_data e))"
  proof (rule nth_equalityI)
    fix i assume "i < length (take (unat (re_data e ! 21)) (drop 23 ?d))"
    then have "i < unat (re_data e ! 21)" by simp
    with n tl len lb show "take (unat (re_data e ! 21)) (drop 23 ?d) ! i = take (unat (re_data e ! 21)) (drop 23 (re_data e)) ! i"
      using nd [of "23 + i"] by simp
  qed (use tl len in simp)
  note ph = patch_header [OF shape, of pid, unfolded b21]
  show ?thesis
    unfolding data protocol_decode_ok by (simp only: ph patch_wire_ok [OF shape] hdr body if_True)
qed

section \<open>The table invariant\<close>

interpretation retry_slots: slot_table "RIVR_RETRY_TABLE_SIZE role" rt_entries re_valid
  "\<lambda>rt. unat (rt_count rt)" "retry_fill role" retry_clear "\<lambda>_. retry_entry_zero"
  for role :: rivr_role
proof unfold_locales
  fix t :: retry_table_t and i e
  have small: "RIVR_RETRY_TABLE_SIZE role \<le> 32" by (cases role) simp_all
  show "unat (rt_count (retry_fill role i e t)) = Suc (unat (rt_count t))"
    if "unat (rt_count t) < RIVR_RETRY_TABLE_SIZE role"
    using that small by (simp add: retry_fill_def unat_word_ariths)
  show "unat (rt_count (retry_clear i t)) = unat (rt_count t) - 1" if "0 < unat (rt_count t)"
    using that by (simp add: retry_clear_def unat_minus_one unat_gt_0 word_gt_0)
qed (simp_all add: retry_fill_def retry_clear_def retry_entry_zero_def)

text \<open>A waiting entry holds a decodable frame whose packet id is the one an ACK must name.\<close>

definition retry_entry_ok :: "retry_entry_t \<Rightarrow> bool" where
  "retry_entry_ok e \<longleftrightarrow> length (re_data e) = 255 \<and>
     (re_valid e \<longrightarrow> wire_ok (re_data e) (re_len e) \<and>
        get_u16 (re_data e ! 19) (re_data e ! 20) = re_cur_pkt_id e \<and> re_retries_left e \<le> RETRY_MAX)"

definition retry_ok :: "rivr_role \<Rightarrow> retry_table_t \<Rightarrow> bool" where
  "retry_ok role rt \<longleftrightarrow> retry_slots.ok role rt \<and> (\<forall>e \<in> set (rt_entries rt). retry_entry_ok e)"

lemma retry_entry_zero_ok [simp]: "retry_entry_ok retry_entry_zero"
  by (simp add: retry_entry_ok_def retry_entry_zero_def)

lemma retry_entries_update:
  "\<forall>e \<in> set es. retry_entry_ok e \<Longrightarrow> retry_entry_ok x \<Longrightarrow> \<forall>e \<in> set (es[i := x]). retry_entry_ok e"
  using set_update_subset_insert [of es i x] by blast

lemma retry_table_init_ok: "retry_ok role (retry_table_init role)"
  by (simp add: retry_ok_def retry_slots.ok_def retry_table_init_def retry_entry_zero_def [THEN arg_cong [where f = re_valid]]
      count_if_replicate)

lemma retry_patched_ok: "retry_entry_ok e \<Longrightarrow> re_valid e \<Longrightarrow> retry_entry_ok (retry_patched e pid)"
  using wire_ok_shape [of "re_data e" "re_len e"] unat_u8_less [of "re_len e"]
    patch_wire_ok [of "re_data e" "re_len e" pid] patch_header(4) [of "re_data e" "re_len e" pid]
  by (simp add: retry_entry_ok_def retry_patched_def)

lemma retry_backoff_ok: "retry_entry_ok e \<Longrightarrow> re_retries_left e > 0 \<Longrightarrow> retry_entry_ok (retry_backoff e now)"
  by (auto simp: retry_entry_ok_def retry_backoff_def word_le_nat_alt unat_minus_one word_gt_0)

lemma retry_enqueue_ok:
  assumes ok: "retry_ok role rt" and len: "unat len \<le> length data"
    and frame: "wire_ok data len" and pid: "get_u16 (data ! 19) (data ! 20) = pid"
  shows "retry_ok role (fst (snd (retry_table_enqueue role m rt src pid dst nh data len toa now)))"
proof (cases "len = 0 \<or> find_idx (\<lambda>e. \<not> re_valid e) (rt_entries rt) = None")
  case False
  then obtain i where i: "find_idx (\<lambda>e. \<not> re_valid e) (rt_entries rt) = Some i" and l: "len \<noteq> 0" by auto
  note f = find_idx_SomeD [OF i]
  have sl: "retry_slots.ok role rt" and es: "\<forall>e \<in> set (rt_entries rt). retry_entry_ok e"
    using ok by (simp_all add: retry_ok_def)
  have ic: "i < RIVR_RETRY_TABLE_SIZE role" using f retry_slots.ok_length [OF sl] by simp
  let ?d = "memcpy (re_data (rt_entries rt ! i)) data (unat len)"
  let ?e = "\<lparr>re_ack_src_id = src, re_cur_pkt_id = pid, re_dst_id = dst, re_next_hop = nh, re_data = ?d,
      re_len = len, re_toa_us = toa, re_next_retry_ms = now + RETRY_TIMEOUT_MS,
      re_timeout_interval_ms = RETRY_TIMEOUT_MS, re_retries_left = RETRY_MAX, re_valid = True\<rparr>"
  have old: "length (re_data (rt_entries rt ! i)) = 255" using es f by (simp add: retry_entry_ok_def)
  have lb: "unat len \<le> 255" using unat_u8_less [of len] by simp
  have n: "25 \<le> unat len" using frame by (simp add: wire_ok_def)
  have "wire_ok ?d len" using frame wire_ok_cong [of len ?d data] len by simp
  then have e: "retry_entry_ok ?e"
    using old lb len pid n by (simp add: retry_entry_ok_def)
  have "retry_slots.ok role (retry_fill role i ?e rt)"
    using retry_slots.fill_ok [OF sl ic] f by simp
  moreover have "\<forall>e \<in> set (rt_entries (retry_fill role i ?e rt)). retry_entry_ok e"
    unfolding retry_fill_def using retry_entries_update [OF es e] by simp
  ultimately show ?thesis using i l by (simp add: retry_table_enqueue_def retry_ok_def)
qed (use ok in \<open>auto simp: retry_table_enqueue_def\<close>)

lemma retry_clear_table_ok:
  assumes "retry_ok role rt" "i < RIVR_RETRY_TABLE_SIZE role" "re_valid (rt_entries rt ! i)"
  shows "retry_ok role (retry_clear i rt)"
  using assms retry_slots.clear_ok(1) [of role rt i] retry_entries_update [of "rt_entries rt" retry_entry_zero i]
  by (simp add: retry_ok_def retry_clear_def)

lemma retry_ack_ok:
  assumes "retry_ok role rt" shows "retry_ok role (snd (retry_table_ack rt src pid))"
  using assms retry_slots.ok_length [of role rt]
  by (auto simp: retry_table_ack_def retry_ok_def [of role rt] split: option.split
      dest!: find_idx_SomeD intro!: retry_clear_table_ok)

lemma retry_slot_replace_ok:
  assumes "retry_ok role rt" "i < RIVR_RETRY_TABLE_SIZE role" "re_valid (rt_entries rt ! i)"
    "retry_entry_ok e" "re_valid e"
  shows "retry_ok role (rt\<lparr>rt_entries := (rt_entries rt)[i := e]\<rparr>)"
  using assms retry_entries_update [of "rt_entries rt" e i]
  by (simp add: retry_ok_def retry_slots.ok_def count_if_same)

lemma retry_tick_slot_ok:
  assumes ok: "retry_ok role rt" and i: "i < RIVR_RETRY_TABLE_SIZE role"
  shows "retry_ok role (fst (snd (retry_tick_slot now i (m, rt, q, ctr, pushed))))"
proof -
  let ?e = "rt_entries rt ! i"
  have e: "retry_entry_ok ?e" using ok i by (simp add: retry_ok_def retry_slots.ok_def)
  show ?thesis
  proof (cases "retry_due now ?e")
    case True
    then have v: "re_valid ?e" by (simp add: retry_due_def)
    have r: "re_retries_left (retry_patched ?e pid) = re_retries_left ?e"
      "re_valid (retry_backoff (retry_patched ?e pid) now)" for pid
      using v by (simp_all add: retry_patched_def retry_backoff_def)
    show ?thesis
      using True ok i v e r retry_backoff_ok [OF retry_patched_ok [OF e v]]
      by (auto simp: retry_tick_slot_def Let_def intro!: retry_clear_table_ok retry_slot_replace_ok
          split: prod.split)
  next
    case False
    then show ?thesis using ok by (simp add: retry_tick_slot_def Let_def)
  qed
qed

lemma retry_tick_fold_ok:
  "retry_ok role (fst (snd env)) \<Longrightarrow> \<forall>i \<in> set is. i < RIVR_RETRY_TABLE_SIZE role \<Longrightarrow>
   retry_ok role (fst (snd (fold (retry_tick_slot now) is env)))"
proof (induction "is" arbitrary: env)
  case (Cons i "is")
  obtain m rt q ctr p where "env = (m, rt, q, ctr, p)" by (cases env)
  with Cons.prems retry_tick_slot_ok [of role rt i now m q ctr p] show ?case
    by (simp add: Cons.IH)
qed simp

lemma retry_tick_ok:
  "retry_ok role rt \<Longrightarrow> retry_ok role (fst (snd (retry_table_tick role m rt q ctr now)))"
  unfolding retry_table_tick_def by (intro retry_tick_fold_ok) simp_all


section \<open>How much a table can still send\<close>

definition retry_budget :: "retry_entry_t \<Rightarrow> nat" where
  "retry_budget e = (if re_valid e then Suc (unat (re_retries_left e)) else 0)"

definition retry_total :: "retry_table_t \<Rightarrow> nat" where
  "retry_total rt = sum_list (map retry_budget (rt_entries rt))"

lemma retry_total_update:
  "i < length (rt_entries rt) \<Longrightarrow>
   retry_total (rt\<lparr>rt_entries := (rt_entries rt)[i := e], rt_count := c\<rparr>) + retry_budget (rt_entries rt ! i) =
   retry_total rt + retry_budget e"
proof -
  assume i: "i < length (rt_entries rt)"
  have "retry_budget (rt_entries rt ! i) \<in> set (map retry_budget (rt_entries rt))" using i by simp
  from member_le_sum_list [OF this] show ?thesis
    using i by (simp add: retry_total_def map_update sum_list_update)
qed

lemma retry_tick_slot_spent:
  assumes i: "i < length (rt_entries rt)"
    and run: "retry_tick_slot now i (m, rt, q, ctr, p) = (m', rt', q', ctr', p')"
  shows "unat p' + retry_total rt' \<le> unat p + retry_total rt"
    "length (rt_entries rt') = length (rt_entries rt)"
proof -
  let ?e = "rt_entries rt ! i"
  note up = retry_total_update [OF i, where c = "rt_count rt"]
  have p1: "unat (p + 1) \<le> Suc (unat p)" using unat_add_le [of p 1] by simp
  have z: "retry_budget retry_entry_zero = 0" by (simp add: retry_budget_def retry_entry_zero_def)
  show "length (rt_entries rt') = length (rt_entries rt)"
    using run by (auto simp: retry_tick_slot_def Let_def retry_clear_def split: if_splits prod.splits)
  show "unat p' + retry_total rt' \<le> unat p + retry_total rt"
  proof (cases "retry_due now ?e")
    case True
    then have v: "re_valid ?e" by (simp add: retry_due_def)
    show ?thesis
    proof (cases "re_retries_left ?e > 0")
      case pos: True
      let ?x = "retry_backoff (retry_patched ?e (ucast (ctr + 1))) now"
      have b: "Suc (retry_budget ?x) = retry_budget ?e"
        using v pos by (simp add: retry_budget_def retry_backoff_def retry_patched_def unat_minus_one word_gt_0 unat_gt_0)
      have "rt' = rt\<lparr>rt_entries := (rt_entries rt)[i := ?x], rt_count := rt_count rt\<rparr>" "p' = p + 1 \<or> p' = p"
        using run True pos by (auto simp: retry_tick_slot_def Let_def split: if_splits prod.splits)
      with up [where e = ?x] b p1 show ?thesis by auto
    next
      case False
      have b: "1 \<le> retry_budget ?e" using v by (simp add: retry_budget_def)
      have "rt' = retry_clear i rt" "p' = p + 1 \<or> p' = p"
        using run True False by (auto simp: retry_tick_slot_def Let_def split: if_splits prod.splits)
      with retry_total_update [OF i, where e = retry_entry_zero
          and c = "if rt_count rt > 0 then rt_count rt - 1 else rt_count rt"]
        z b p1 show ?thesis by (auto simp: retry_clear_def)
    qed
  next
    case False
    then show ?thesis using run by (simp add: retry_tick_slot_def Let_def)
  qed
qed

lemma retry_tick_fold_spent:
  "\<forall>i \<in> set is. i < length (rt_entries rt) \<Longrightarrow>
   fold (retry_tick_slot now) is (m, rt, q, ctr, p) = (m', rt', q', ctr', p') \<Longrightarrow>
   unat p' + retry_total rt' \<le> unat p + retry_total rt"
proof (induction "is" arbitrary: m rt q ctr p)
  case (Cons i "is")
  obtain m1 rt1 q1 c1 p1 where s: "retry_tick_slot now i (m, rt, q, ctr, p) = (m1, rt1, q1, c1, p1)"
    by (cases "retry_tick_slot now i (m, rt, q, ctr, p)")
  have i: "i < length (rt_entries rt)" using Cons.prems(1) by simp
  note sp = retry_tick_slot_spent [OF i s]
  have "fold (retry_tick_slot now) is (m1, rt1, q1, c1, p1) = (m', rt', q', ctr', p')"
    using Cons.prems(2) s by simp
  from Cons.IH [OF _ this] Cons.prems(1) sp show ?case by simp
qed simp

text \<open>A run of ticks, each with whatever metrics, queue and counter the rest of the system has left.\<close>

fun retry_run ::
  "rivr_role \<Rightarrow> (rivr_metrics_t \<times> tx_queue \<times> u32 \<times> u32) list \<Rightarrow> retry_table_t \<Rightarrow> nat \<times> retry_table_t"
where
  "retry_run role [] rt = (0, rt)"
| "retry_run role ((m, q, ctr, now) # ticks) rt =
     (case retry_table_tick role m rt q ctr now of
        (m', rt', q', ctr', pushed) \<Rightarrow>
          (case retry_run role ticks rt' of (n, rt'') \<Rightarrow> (unat pushed + n, rt'')))"

lemma retry_run_spent:
  "retry_ok role rt \<Longrightarrow> retry_run role ticks rt = (n, rt') \<Longrightarrow> n + retry_total rt' \<le> retry_total rt"
proof (induction ticks arbitrary: rt n)
  case (Cons tick ticks)
  obtain m q ctr now where t: "tick = (m, q, ctr, now)" by (cases tick)
  obtain m1 rt1 q1 c1 p1 where s: "retry_table_tick role m rt q ctr now = (m1, rt1, q1, c1, p1)"
    by (cases "retry_table_tick role m rt q ctr now")
  obtain k where k: "retry_run role ticks rt1 = (k, rt')" "n = unat p1 + k"
    using Cons.prems(2) t s by (auto split: prod.splits)
  have len: "length (rt_entries rt) = RIVR_RETRY_TABLE_SIZE role"
    using Cons.prems(1) by (simp add: retry_ok_def retry_slots.ok_length)
  have "retry_ok role rt1" using retry_tick_ok [OF Cons.prems(1), of m q ctr now] s by simp
  from Cons.IH [OF this k(1)] have "k + retry_total rt' \<le> retry_total rt1" .
  moreover have "unat p1 + retry_total rt1 \<le> retry_total rt"
    using retry_tick_fold_spent [of "[0..<RIVR_RETRY_TABLE_SIZE role]" rt now m q ctr 0 m1 rt1 q1 c1 p1] s len
    by (simp add: retry_table_tick_def)
  ultimately show ?case using k(2) by simp
qed simp

lemma retry_total_le:
  assumes "retry_ok role rt" shows "retry_total rt \<le> 4 * unat (rt_count rt)"
proof -
  have "sum_list (map retry_budget es) \<le> 4 * count_if re_valid es" if "\<forall>e \<in> set es. retry_entry_ok e" for es
    using that by (induction es) (auto simp: retry_budget_def retry_entry_ok_def word_le_nat_alt)
  with assms show ?thesis by (simp add: retry_ok_def retry_slots.ok_def retry_total_def)
qed

section \<open>Properties\<close>

text \<open>The retry table stays consistent. Starting from a consistent table, enqueuing a valid frame,
  acknowledging and ticking keep the counter equal to the number of waiting entries, and keep every
  waiting entry's stored frame decodable with a correct CRC and carrying exactly the packet id
  that an acknowledgement is matched against.\<close>

theorem retry_table_invariant:
  assumes "retry_ok role rt" "wire_ok data len" "unat len \<le> length data"
    and "get_u16 (data ! 19) (data ! 20) = pid"
  shows "retry_ok role (fst (snd (retry_table_enqueue role m rt src pid dst nh data len toa now))) \<and>
         retry_ok role (snd (retry_table_ack rt src pid)) \<and>
         retry_ok role (fst (snd (retry_table_tick role m rt q ctr now)))"
  using retry_enqueue_ok [OF assms(1,3,2,4)] retry_ack_ok [OF assms(1)] retry_tick_ok [OF assms(1)] by blast

lemma demo_frame_ok:
  "wire_ok (frame_of demo_hdr [0x68, 0x69]) 27" "length (frame_of demo_hdr [0x68, 0x69]) = 27"
  "get_u16 (frame_of demo_hdr [0x68, 0x69] ! 19) (frame_of demo_hdr [0x68, 0x69] ! 20) = 513"
  using frame_of_wire_ok [of "[0x68, 0x69]" demo_hdr 27 "[]"]
  by (simp_all add: demo_hdr_def frame_of_def Let_def nth_append header_bytes_eq get_u16_def)

lemma retry_table_invariant_witness:
  "retry_ok RoleClient (fst (snd (retry_table_enqueue RoleClient metrics_zero (retry_table_init RoleClient)
     9 513 7 8 (frame_of demo_hdr [0x68, 0x69]) 27 300000 1000)))"
  using retry_table_invariant [OF retry_table_init_ok demo_frame_ok(1) _ demo_frame_ok(3),
      of RoleClient metrics_zero 9 7 8 300000 1000] demo_frame_ok(2) by simp

text \<open>An unacknowledged message is sent a bounded number of times. However the ticks fall and
  whatever the queue and counters are at each, the pushes a table makes never exceed what its
  waiting entries have left, at most four per entry: three retransmissions and one fallback flood.\<close>

theorem retry_traffic_bounded:
  assumes "retry_ok role rt" "retry_run role ticks rt = (pushes, rt')"
  shows "pushes + retry_total rt' \<le> retry_total rt \<and> retry_total rt \<le> 4 * unat (rt_count rt)"
  using retry_run_spent [OF assms] retry_total_le [OF assms(1)] by simp

lemma retry_traffic_bounded_witness:
  "fst (retry_run RoleClient [(metrics_zero, rb_init (replicate 4 undefined) 4, 0, 5000)] (retry_table_init RoleClient)) = 0"
proof -
  obtain n rt' where r: "retry_run RoleClient [(metrics_zero, rb_init (replicate 4 undefined) 4, 0, 5000)]
      (retry_table_init RoleClient) = (n, rt')"
    by (cases "retry_run RoleClient [(metrics_zero, rb_init (replicate 4 undefined) 4, 0, 5000)]
      (retry_table_init RoleClient)")
  from retry_traffic_bounded [OF retry_table_init_ok r] have "n \<le> 4 * unat (rt_count (retry_table_init RoleClient))"
    by simp
  then have "n = 0" by (simp add: retry_table_init_def)
  then show ?thesis by (simp only: r fst_conv)
qed

text \<open>The fallback flood is the original message as a fresh broadcast. For a waiting entry, the
  frame \<open>build_fallback_flood\<close> makes decodes to the original header with the acknowledgement
  request cleared and the fallback flag set, TTL 3, hop 0, destination broadcast and the new packet
  id, and to the same payload.\<close>

theorem fallback_flood_contents:
  assumes "retry_entry_ok e" "re_valid e"
  shows "snd (protocol_decode m (tx_data (build_fallback_flood e pid)) (re_len e)) =
     Some ((unpack_header_from_wire (re_data e) (re_data e ! 21))
             \<lparr>h_flags := (re_data e ! 4 AND NOT PKT_FLAG_ACK_REQ) OR PKT_FLAG_FALLBACK,
              h_ttl := RIVR_FALLBACK_TTL, h_hop := 0, h_dst_id := 0, h_loop_guard := 0, h_pkt_id := pid\<rparr>,
           if re_data e ! 21 > 0 then Some (take (unat (re_data e ! 21)) (drop 23 (re_data e))) else None)"
  using assms by (intro fallback_flood_decodes) (simp_all add: retry_entry_ok_def)

definition demo_entry :: retry_entry_t where
  "demo_entry = retry_entry_zero\<lparr>re_valid := True, re_len := 27, re_cur_pkt_id := 513,
     re_data := frame_of demo_hdr [0x68, 0x69] @ replicate 228 0\<rparr>"

lemma demo_entry_ok: "retry_entry_ok demo_entry"
proof -
  have "wire_ok (frame_of demo_hdr [0x68, 0x69] @ replicate 228 0) 27"
    using frame_of_wire_ok [of "[0x68, 0x69]" demo_hdr 27] by (simp add: demo_hdr_def)
  then show ?thesis
    using demo_frame_ok by (simp add: retry_entry_ok_def demo_entry_def retry_entry_zero_def nth_append)
qed

lemma fallback_flood_contents_witness:
  "\<exists>hdr pl. snd (protocol_decode metrics_zero (tx_data (build_fallback_flood demo_entry 77)) 27) = Some (hdr, pl) \<and>
     h_ttl hdr = 3 \<and> h_dst_id hdr = 0 \<and> h_pkt_id hdr = 77"
  using fallback_flood_contents [OF demo_entry_ok, of metrics_zero 77] by (simp add: demo_entry_def)

end
