(* ===== verification/Rivr_PendingQueue.thy ===== *)
theory Rivr_PendingQueue
  imports Rivr_TxQueue
begin

text \<open>
  The pending-message queue (pending_queue.h, pending_queue.c): unicast frames that wait for a
  route to their destination. When the route is known, \<open>pending_queue_drain_for_dst\<close> rewrites every
  waiting frame for that destination into a single-hop unicast to the next hop, pushes it to the
  radio queue, and clears its slot whether or not the push succeeded. The loops over the slots
  are folds of their bodies, \<open>pending_expire_slot\<close> and \<open>pending_drain_slot\<close>.
\<close>

abbreviation "PENDING_QUEUE_SIZE \<equiv> (16 :: nat)"
abbreviation "PENDING_EXPIRY_MS \<equiv> (30000 :: u32)"

record pending_entry_t =
  pe_dst_id :: u32
  pe_data :: "u8 list"
  pe_len :: u8
  pe_toa_us :: u32
  pe_enqueued_ms :: u32
  pe_valid :: bool

record pending_queue_t =
  pq_entries :: "pending_entry_t list"
  pq_count :: u8

definition pending_entry_zero :: pending_entry_t where
  "pending_entry_zero = \<lparr>pe_dst_id = 0, pe_data = replicate 255 0, pe_len = 0, pe_toa_us = 0,
     pe_enqueued_ms = 0, pe_valid = False\<rparr>"

definition pending_queue_init :: pending_queue_t where
  "pending_queue_init = \<lparr>pq_entries = replicate PENDING_QUEUE_SIZE pending_entry_zero, pq_count = 0\<rparr>"

definition pending_fill :: "nat \<Rightarrow> pending_entry_t \<Rightarrow> pending_queue_t \<Rightarrow> pending_queue_t" where
  "pending_fill i e pq =
     pq\<lparr>pq_entries := (pq_entries pq)[i := e],
        pq_count := (if unat (pq_count pq) < PENDING_QUEUE_SIZE then pq_count pq + 1 else pq_count pq)\<rparr>"

definition pending_clear :: "nat \<Rightarrow> pending_queue_t \<Rightarrow> pending_queue_t" where
  "pending_clear i pq =
     pq\<lparr>pq_entries := (pq_entries pq)[i := pending_entry_zero],
        pq_count := (if pq_count pq > 0 then pq_count pq - 1 else pq_count pq)\<rparr>"

definition pending_stale :: "u32 \<Rightarrow> pending_entry_t \<Rightarrow> bool" where
  "pending_stale now e \<longleftrightarrow> now - pe_enqueued_ms e > PENDING_EXPIRY_MS"

definition pending_expire_slot :: "u32 \<Rightarrow> nat \<Rightarrow> pending_queue_t \<times> u8 \<Rightarrow> pending_queue_t \<times> u8" where
  "pending_expire_slot now i st =
     (case st of (pq, evicted) \<Rightarrow>
        let e = pq_entries pq ! i in
        if pe_valid e \<and> pending_stale now e then (pending_clear i pq, evicted + 1) else (pq, evicted))"

definition pending_queue_expire ::
  "rivr_metrics_t \<Rightarrow> pending_queue_t \<Rightarrow> u32 \<Rightarrow> rivr_metrics_t \<times> pending_queue_t \<times> u8" where
  "pending_queue_expire m pq now =
     (case fold (pending_expire_slot now) [0..<PENDING_QUEUE_SIZE] (pq, 0) of
        (pq', evicted) \<Rightarrow>
          (if evicted > 0
           then bump_by pending_queue_expired_total (ucast evicted) (bump_by pq_expired (ucast evicted) m)
           else m, pq', evicted))"

definition pending_queue_enqueue ::
  "rivr_metrics_t \<Rightarrow> pending_queue_t \<Rightarrow> u32 \<Rightarrow> u8 list \<Rightarrow> u8 \<Rightarrow> u32 \<Rightarrow> u32 \<Rightarrow>
   rivr_metrics_t \<times> pending_queue_t \<times> bool"
where
  "pending_queue_enqueue m pq dst_id data len toa now =
     (if len = 0 \<or> dst_id = 0 then (m, pq, False)
      else case pending_queue_expire m pq now of (m1, pq1, _) \<Rightarrow>
        case find_idx (\<lambda>e. \<not> pe_valid e) (pq_entries pq1) of
          Some i \<Rightarrow>
            let n = (if len < RF_MAX_PAYLOAD_LEN then len else RF_MAX_PAYLOAD_LEN);
                pq2 = pending_fill i
                  \<lparr>pe_dst_id = dst_id, pe_data = memcpy (pe_data (pq_entries pq1 ! i)) data (unat n),
                   pe_len = n, pe_toa_us = toa, pe_enqueued_ms = now, pe_valid = True\<rparr> pq1
            in (raise_peak pq_peak (ucast (pq_count pq2)) m1, pq2, True)
        | None \<Rightarrow> (bump pq_dropped m1, pq1, False))"

text \<open>The rewritten request, or \<open>None\<close> where the C function returns false.\<close>

definition reencode_as_unicast_hop ::
  "rivr_metrics_t \<Rightarrow> u8 list \<Rightarrow> u8 \<Rightarrow> u32 \<Rightarrow> u32 \<Rightarrow> rivr_metrics_t \<times> rf_tx_request_t option" where
  "reencode_as_unicast_hop m data len next_hop toa =
     (case protocol_decode m data len of
        (m1, None) \<Rightarrow> (m1, None)
      | (m1, Some (hdr, pl)) \<Rightarrow>
          (case protocol_encode (hdr\<lparr>h_dst_id := next_hop, h_ttl := 1\<rparr>) pl (h_payload_len hdr)
                  (replicate 255 0) RF_MAX_PAYLOAD_LEN of
             (enc, out) \<Rightarrow>
               if enc \<le> 0 then (m1, None)
               else (m1, Some \<lparr>tx_data = out, tx_len = word_of_int enc, tx_toa_us = toa, tx_due_ms = 0\<rparr>)))"

type_synonym drain_env = "rivr_metrics_t \<times> pending_queue_t \<times> tx_queue \<times> u8"

definition pending_drain_slot :: "u32 \<Rightarrow> u32 \<Rightarrow> u32 \<Rightarrow> nat \<Rightarrow> drain_env \<Rightarrow> drain_env" where
  "pending_drain_slot dst next_hop now i env =
     (case env of (m, pq, q, sent) \<Rightarrow>
        let e = pq_entries pq ! i in
        if \<not> pe_valid e \<or> pe_dst_id e \<noteq> dst then env
        else
          let (m1, q1, sent1) =
                (if pending_stale now e then (m, q, sent)
                 else case reencode_as_unicast_hop m (pe_data e) (pe_len e) next_hop (pe_toa_us e) of
                   (m1, None) \<Rightarrow> (m1, q, sent)
                 | (m1, Some req) \<Rightarrow>
                     (case rb_try_push req q of (ok, q1) \<Rightarrow> (m1, q1, if ok then sent + 1 else sent)))
          in (m1, pending_clear i pq, q1, sent1))"

definition pending_queue_drain_for_dst ::
  "rivr_metrics_t \<Rightarrow> pending_queue_t \<Rightarrow> u32 \<Rightarrow> u32 \<Rightarrow> tx_queue \<Rightarrow> u32 \<Rightarrow> drain_env" where
  "pending_queue_drain_for_dst m pq dst next_hop q now =
     (if dst = 0 \<or> next_hop = 0 then (m, pq, q, 0)
      else fold (pending_drain_slot dst next_hop now) [0..<PENDING_QUEUE_SIZE] (m, pq, q, 0))"

definition pending_queue_count :: "pending_queue_t \<Rightarrow> u8" where
  "pending_queue_count pq = of_nat (count_if pe_valid (pq_entries pq))"

definition pending_queue_pressure :: "pending_queue_t \<Rightarrow> u8" where
  "pending_queue_pressure pq = ucast ((ucast (pq_count pq) * 100 :: u32) div 16)"

section \<open>The table invariant\<close>

interpretation pending_slots: slot_table PENDING_QUEUE_SIZE pq_entries pe_valid
  "\<lambda>pq. unat (pq_count pq)" pending_fill pending_clear "\<lambda>_. pending_entry_zero"
proof unfold_locales
  fix t :: pending_queue_t and i e
  show "unat (pq_count (pending_fill i e t)) = Suc (unat (pq_count t))"
    if "unat (pq_count t) < PENDING_QUEUE_SIZE"
    using that by (simp add: pending_fill_def unat_word_ariths)
  show "unat (pq_count (pending_clear i t)) = unat (pq_count t) - 1" if "0 < unat (pq_count t)"
    using that by (simp add: pending_clear_def unat_minus_one unat_gt_0 word_gt_0)
qed (simp_all add: pending_fill_def pending_clear_def pending_entry_zero_def)

text \<open>A waiting entry holds a decodable frame and a real destination.\<close>

definition pending_entry_ok :: "pending_entry_t \<Rightarrow> bool" where
  "pending_entry_ok e \<longleftrightarrow> length (pe_data e) = 255 \<and>
     (pe_valid e \<longrightarrow> wire_ok (pe_data e) (pe_len e) \<and> pe_dst_id e \<noteq> 0)"

definition pending_ok :: "pending_queue_t \<Rightarrow> bool" where
  "pending_ok pq \<longleftrightarrow> pending_slots.ok pq \<and> (\<forall>e \<in> set (pq_entries pq). pending_entry_ok e)"

lemma pending_entry_zero_ok [simp]: "pending_entry_ok pending_entry_zero" "\<not> pe_valid pending_entry_zero"
  by (simp_all add: pending_entry_ok_def pending_entry_zero_def)

lemma pending_entries_update:
  "\<forall>e \<in> set es. pending_entry_ok e \<Longrightarrow> pending_entry_ok x \<Longrightarrow> \<forall>e \<in> set (es[i := x]). pending_entry_ok e"
  using set_update_subset_insert [of es i x] by blast

lemma pending_queue_init_ok: "pending_ok pending_queue_init"
  by (simp add: pending_ok_def pending_slots.ok_def pending_queue_init_def count_if_replicate)

lemma pending_ok_length: "pending_ok pq \<Longrightarrow> length (pq_entries pq) = PENDING_QUEUE_SIZE"
  by (simp add: pending_ok_def pending_slots.ok_length)

lemma pending_clear_ok:
  "pending_ok pq \<Longrightarrow> i < PENDING_QUEUE_SIZE \<Longrightarrow> pe_valid (pq_entries pq ! i) \<Longrightarrow> pending_ok (pending_clear i pq)"
  using pending_slots.clear_ok(1) [of pq i] pending_entries_update [of "pq_entries pq" pending_entry_zero i]
  by (simp add: pending_ok_def pending_clear_def)

lemma pending_fill_ok:
  "pending_ok pq \<Longrightarrow> i < PENDING_QUEUE_SIZE \<Longrightarrow> \<not> pe_valid (pq_entries pq ! i) \<Longrightarrow>
   pending_entry_ok e \<Longrightarrow> pe_valid e \<Longrightarrow> pending_ok (pending_fill i e pq)"
  using pending_slots.fill_ok [of pq i e] pending_entries_update [of "pq_entries pq" e i]
  by (simp add: pending_ok_def pending_fill_def)

section \<open>Rewriting a frame for one hop\<close>

text \<open>What the rewritten request is, in terms of the stored entry.\<close>

definition hop_request :: "u32 \<Rightarrow> pending_entry_t \<Rightarrow> rf_tx_request_t" where
  "hop_request nh e =
     (let n = pe_data e ! 21;
          frame = frame_of ((unpack_header_from_wire (pe_data e) n)\<lparr>h_dst_id := nh, h_ttl := 1\<rparr>)
                    (take (unat n) (drop 23 (pe_data e)))
      in \<lparr>tx_data = frame @ drop (length frame) (replicate 255 0), tx_len = 25 + n,
          tx_toa_us = pe_toa_us e, tx_due_ms = 0\<rparr>)"

lemma wire_ok_bounds:
  assumes "wire_ok d len" "length d = 255"
  shows "unat (d ! 21) \<le> 230" "length (take (unat (d ! 21)) (drop 23 d)) = unat (d ! 21)"
    "word_of_int (25 + int (unat (d ! 21))) = 25 + d ! 21" "unat (25 + d ! 21) = 25 + unat (d ! 21)"
proof -
  show n: "unat (d ! 21) \<le> 230" using assms by (simp add: wire_ok_def word_le_nat_alt)
  then show "length (take (unat (d ! 21)) (drop 23 d)) = unat (d ! 21)" using assms by simp
  show u: "unat (25 + d ! 21) = 25 + unat (d ! 21)"
    using assms by (intro unat_total_len) (simp add: wire_ok_def)
  show "word_of_int (25 + int (unat (d ! 21))) = 25 + d ! 21" by simp
qed

lemma unpack_header_wire_ok:
  "wire_ok d len \<Longrightarrow> h_magic (unpack_header_from_wire d n) = RIVR_MAGIC \<and>
     h_version (unpack_header_from_wire d n) = RIVR_PROTO_VER \<and> h_payload_len (unpack_header_from_wire d n) = n \<and>
     1 \<le> h_pkt_type (unpack_header_from_wire d n) \<and> h_pkt_type (unpack_header_from_wire d n) \<le> PKT_METRICS"
  by (simp add: wire_ok_def unpack_header_from_wire_def)

lemma reencode_request:
  assumes ok: "wire_ok (pe_data e) (pe_len e)" and len: "length (pe_data e) = 255"
  shows "reencode_as_unicast_hop m (pe_data e) (pe_len e) nh (pe_toa_us e) = (m, Some (hop_request nh e))"
proof -
  let ?d = "pe_data e"
  let ?n = "unat (?d ! 21)" and ?h = "unpack_header_from_wire ?d (?d ! 21)" and ?p = "take (unat (?d ! 21)) (drop 23 ?d)"
  note b = wire_ok_bounds [OF ok len]
  have dec: "protocol_decode m ?d (pe_len e) = (m, Some (?h, if ?d ! 21 > 0 then Some ?p else None))"
    using protocol_decode_ok [of m ?d "pe_len e"] protocol_decode_metrics [OF ok, of m] ok by (intro prod_eqI) simp_all
  have "protocol_encode h' (if ?d ! 21 > 0 then Some ?p else None) (?d ! 21) out 255 =
        protocol_encode h' (Some ?p) (?d ! 21) out 255" for h' out
    using protocol_encode_no_payload [of h' out 255] by (cases "?d ! 21 = 0") (auto simp: word_gt_0)
  then have enc: "protocol_encode h' (if ?d ! 21 > 0 then Some ?p else None) (?d ! 21) out 255 =
        (25 + int ?n, frame_of h' ?p @ drop (25 + ?n) out)" for h' out
    using protocol_encode_frame [of ?p "?d ! 21" 255 h' out] b by simp
  have pos: "\<not> 25 + int ?n \<le> 0" by linarith
  have pl: "h_payload_len ?h = ?d ! 21" using unpack_header_wire_ok [OF ok] by simp
  have len: "25 + length ?p = 25 + ?n" "length (frame_of h' ?p) = 25 + ?n" for h' using b(2) by simp_all
  show ?thesis
    unfolding reencode_as_unicast_hop_def dec hop_request_def Let_def prod.case option.case pl enc if_not_P [OF pos] b(3) len ..
qed

lemma hop_request_decode:
  assumes ok: "wire_ok (pe_data e) (pe_len e)" and len: "length (pe_data e) = 255"
  shows "protocol_decode m (tx_data (hop_request nh e)) (tx_len (hop_request nh e)) =
    (m, Some ((unpack_header_from_wire (pe_data e) (pe_data e ! 21))\<lparr>h_dst_id := nh, h_ttl := 1\<rparr>,
       if pe_data e ! 21 > 0 then Some (take (unat (pe_data e ! 21)) (drop 23 (pe_data e))) else None))"
proof -
  let ?d = "pe_data e"
  let ?h = "unpack_header_from_wire ?d (?d ! 21)" and ?p = "take (unat (?d ! 21)) (drop 23 ?d)"
  let ?h' = "?h\<lparr>h_dst_id := nh, h_ttl := 1\<rparr>"
  note b = wire_ok_bounds [OF ok len] and h = unpack_header_wire_ok [OF ok, of "?d ! 21"]
  have "of_nat (length ?p) = ?d ! 21" using b(2) by simp
  moreover have "?h'\<lparr>h_magic := RIVR_MAGIC, h_version := RIVR_PROTO_VER, h_payload_len := ?d ! 21\<rparr> = ?h'"
    using h by (intro rivr_pkt_hdr_t.equality) simp_all
  moreover have "?p = [] \<longleftrightarrow> \<not> 0 < ?d ! 21" using b(2) by (metis length_0_conv unat_eq_0 word_gt_0)
  ultimately show ?thesis
    using frame_of_decodes [of ?p ?h' "25 + ?d ! 21" m] b h
    by (simp add: hop_request_def Let_def)
qed

section \<open>The loops\<close>

definition pending_due :: "u32 \<Rightarrow> u32 \<Rightarrow> pending_entry_t \<Rightarrow> bool" where
  "pending_due dst now e \<longleftrightarrow> pe_valid e \<and> pe_dst_id e = dst \<and> \<not> pending_stale now e"

definition pending_drop :: "(pending_entry_t \<Rightarrow> bool) \<Rightarrow> pending_entry_t list \<Rightarrow> pending_entry_t list" where
  "pending_drop P es = map (\<lambda>e. if pe_valid e \<and> P e then pending_entry_zero else e) es"

lemma pending_drop_step:
  assumes "n < length es"
  shows "(pending_drop P (take n es) @ drop n es)[n := if pe_valid (es ! n) \<and> P (es ! n) then pending_entry_zero else es ! n] =
     pending_drop P (take (Suc n) es) @ drop (Suc n) es"
    "(pending_drop P (take n es) @ drop n es) ! n = es ! n"
  using assms by (simp_all add: pending_drop_def take_Suc_conv_app_nth list_update_append Cons_nth_drop_Suc [symmetric] nth_append)

lemma pending_clear_entries [simp]: "pq_entries (pending_clear i pq) = (pq_entries pq)[i := pending_entry_zero]"
  by (simp add: pending_clear_def)

lemma pending_expire_fold:
  assumes "pending_ok pq" "n \<le> PENDING_QUEUE_SIZE"
  shows "\<exists>pq'. fold (pending_expire_slot now) [0..<n] (pq, 0) =
       (pq', of_nat (count_if (\<lambda>e. pe_valid e \<and> pending_stale now e) (take n (pq_entries pq)))) \<and>
     pending_ok pq' \<and>
     pq_entries pq' = pending_drop (pending_stale now) (take n (pq_entries pq)) @ drop n (pq_entries pq)"
  using assms(2)
proof (induction n)
  case 0
  then show ?case using assms(1) by (simp add: pending_drop_def)
next
  case (Suc n)
  let ?es = "pq_entries pq"
  have n: "n < length ?es" using Suc.prems pending_ok_length [OF assms(1)] by simp
  obtain pq' where pq': "fold (pending_expire_slot now) [0..<n] (pq, 0) =
      (pq', of_nat (count_if (\<lambda>e. pe_valid e \<and> pending_stale now e) (take n ?es)))"
      "pending_ok pq'" "pq_entries pq' = pending_drop (pending_stale now) (take n ?es) @ drop n ?es"
    using Suc by auto
  have st: "pq_entries pq' ! n = ?es ! n"
    "(pq_entries pq')[n := if pe_valid (?es ! n) \<and> pending_stale now (?es ! n) then pending_entry_zero else ?es ! n] =
     pending_drop (pending_stale now) (take (Suc n) ?es) @ drop (Suc n) ?es"
    unfolding pq'(3) using pending_drop_step [OF n] by blast+
  let ?c = "\<lambda>k. count_if (\<lambda>e. pe_valid e \<and> pending_stale now e) (take k ?es)"
  have c: "?c (Suc n) = ?c n + (if pe_valid (?es ! n) \<and> pending_stale now (?es ! n) then 1 else 0)"
    using n by (simp add: take_Suc_conv_app_nth)
  show ?case
  proof (cases "pe_valid (?es ! n) \<and> pending_stale now (?es ! n)")
    case True
    then have "pending_ok (pending_clear n pq')"
      using Suc.prems by (intro pending_clear_ok pq'(2)) (simp_all add: st(1))
    moreover have "pq_entries (pending_clear n pq') = pending_drop (pending_stale now) (take (Suc n) ?es) @ drop (Suc n) ?es"
      using True st(2) by simp
    moreover have "pending_expire_slot now n (pq', k) = (pending_clear n pq', k + 1)" for k
      using True st(1) by (simp add: pending_expire_slot_def)
    ultimately show ?thesis
      using True pq'(1) c
      by (intro exI [of _ "pending_clear n pq'"]) (simp add: add.commute del: pending_clear_entries)
  next
    case False
    have "pq_entries pq' = pending_drop (pending_stale now) (take (Suc n) ?es) @ drop (Suc n) ?es"
      using st(2) [unfolded if_not_P [OF False]] unfolding st(1) [symmetric] list_update_id .
    moreover have "pending_expire_slot now n (pq', k) = (pq', k)" for k
      using False st(1) by (auto simp: pending_expire_slot_def Let_def)
    moreover have "?c (Suc n) = ?c n" using False c by auto
    ultimately show ?thesis
      using pq'(1,2) by (intro exI [of _ pq']) simp
  qed
qed

lemma push_all_le: "fst (push_all push rs q) \<le> length rs"
proof (induction rs arbitrary: q)
  case (Cons r rs)
  obtain ok q1 where "push r q = (ok, q1)" by fastforce
  moreover obtain n q2 where "push_all push rs q1 = (n, q2)" by fastforce
  ultimately show ?case using Cons.IH [of q1] by simp
qed simp

lemma pending_drain_fold:
  assumes "pending_ok pq" "n \<le> PENDING_QUEUE_SIZE"
  shows "\<exists>pq'. fold (pending_drain_slot dst nh now) [0..<n] (m, pq, q, 0) =
       (case push_all rb_try_push (map (hop_request nh) (filter (pending_due dst now) (take n (pq_entries pq)))) q of
          (k, q') \<Rightarrow> (m, pq', q', of_nat k)) \<and>
     pending_ok pq' \<and>
     pq_entries pq' = pending_drop (\<lambda>e. pe_dst_id e = dst) (take n (pq_entries pq)) @ drop n (pq_entries pq)"
  using assms(2)
proof (induction n)
  case 0
  then show ?case using assms(1) by (simp add: pending_drop_def)
next
  case (Suc n)
  let ?es = "pq_entries pq" and ?rs = "\<lambda>k. map (hop_request nh) (filter (pending_due dst now) (take k (pq_entries pq)))"
  have n: "n < length ?es" using Suc.prems pending_ok_length [OF assms(1)] by simp
  obtain k q1 where k: "push_all rb_try_push (?rs n) q = (k, q1)" by fastforce
  obtain pq' where pq': "fold (pending_drain_slot dst nh now) [0..<n] (m, pq, q, 0) = (m, pq', q1, of_nat k)"
      "pending_ok pq'" "pq_entries pq' = pending_drop (\<lambda>e. pe_dst_id e = dst) (take n ?es) @ drop n ?es"
    using Suc k by auto
  have st: "pq_entries pq' ! n = ?es ! n"
    "(pq_entries pq')[n := if pe_valid (?es ! n) \<and> pe_dst_id (?es ! n) = dst then pending_entry_zero else ?es ! n] =
     pending_drop (\<lambda>e. pe_dst_id e = dst) (take (Suc n) ?es) @ drop (Suc n) ?es"
    unfolding pq'(3) using pending_drop_step [OF n] by blast+
  have e: "pending_entry_ok (?es ! n)" using assms(1) n by (simp add: pending_ok_def)
  show ?case
  proof (cases "pe_valid (?es ! n) \<and> pe_dst_id (?es ! n) = dst")
    case True
    then have ok: "pending_ok (pending_clear n pq')"
      using Suc.prems by (intro pending_clear_ok pq'(2)) (simp_all add: st(1))
    have re: "reencode_as_unicast_hop m (pe_data (?es ! n)) (pe_len (?es ! n)) nh (pe_toa_us (?es ! n)) =
        (m, Some (hop_request nh (?es ! n)))"
      using True e by (intro reencode_request) (simp_all add: pending_entry_ok_def)
    have ents: "pq_entries (pending_clear n pq') = pending_drop (\<lambda>e. pe_dst_id e = dst) (take (Suc n) ?es) @ drop (Suc n) ?es"
      using True st(2) by simp
    obtain acc q2 where p: "rb_try_push (hop_request nh (?es ! n)) q1 = (acc, q2)" by fastforce
    show ?thesis
    proof (cases "pending_stale now (?es ! n)")
      case stale: True
      with True have "?rs (Suc n) = ?rs n" using n by (simp add: take_Suc_conv_app_nth pending_due_def)
      moreover have "pending_drain_slot dst nh now n (m, pq', q1, s) = (m, pending_clear n pq', q1, s)" for s
        using True stale st(1) by (simp add: pending_drain_slot_def Let_def)
      ultimately show ?thesis
        using pq'(1) ok ents k
        by (intro exI [of _ "pending_clear n pq'"]) (simp del: pending_clear_entries)
    next
      case False
      with True have "?rs (Suc n) = ?rs n @ [hop_request nh (?es ! n)]"
        using n by (simp add: take_Suc_conv_app_nth pending_due_def)
      then have "push_all rb_try_push (?rs (Suc n)) q = (k + (if acc then 1 else 0), q2)"
        using k p by (simp add: push_all_append)
      moreover have "pending_drain_slot dst nh now n (m, pq', q1, s) =
          (m, pending_clear n pq', q2, if acc then s + 1 else s)" for s
        using True False st(1) re p by (simp add: pending_drain_slot_def Let_def)
      ultimately show ?thesis
        using pq'(1) ok ents
        by (intro exI [of _ "pending_clear n pq'"]) (simp add: add.commute del: pending_clear_entries)
    qed
  next
    case False
    then have "?rs (Suc n) = ?rs n" using n by (auto simp: take_Suc_conv_app_nth pending_due_def)
    moreover have "pending_drain_slot dst nh now n (m, pq', q1, s) = (m, pq', q1, s)" for s
      using False st(1) by (auto simp: pending_drain_slot_def Let_def)
    moreover have "pq_entries pq' = pending_drop (\<lambda>e. pe_dst_id e = dst) (take (Suc n) ?es) @ drop (Suc n) ?es"
      using st(2) [unfolded if_not_P [OF False]] unfolding st(1) [symmetric] list_update_id .
    ultimately show ?thesis
      using pq'(1,2) k
      by (intro exI [of _ pq']) simp
  qed
qed

section \<open>The operations\<close>

lemma pending_queue_expire_spec:
  assumes "pending_ok pq" "pending_queue_expire m pq now = (m', pq', evicted)"
  shows "pending_ok pq'" "pq_entries pq' = pending_drop (pending_stale now) (pq_entries pq)"
    "evicted = of_nat (count_if (\<lambda>e. pe_valid e \<and> pending_stale now e) (pq_entries pq))"
  using pending_expire_fold [OF assms(1), of PENDING_QUEUE_SIZE now] assms(2) pending_ok_length [OF assms(1)]
  by (auto simp: pending_queue_expire_def)

lemma pending_queue_drain_spec:
  assumes "pending_ok pq" "dst \<noteq> 0" "nh \<noteq> 0" "pending_queue_drain_for_dst m pq dst nh q now = (m', pq', q', sent)"
  shows "pending_ok pq'" "m' = m" "pq_entries pq' = pending_drop (\<lambda>e. pe_dst_id e = dst) (pq_entries pq)"
    "push_all rb_try_push (map (hop_request nh) (filter (pending_due dst now) (pq_entries pq))) q = (unat sent, q')"
proof -
  obtain k q1 where k: "push_all rb_try_push (map (hop_request nh) (filter (pending_due dst now) (pq_entries pq))) q = (k, q1)"
    by fastforce
  note f = pending_drain_fold [OF assms(1), of PENDING_QUEUE_SIZE dst nh now m q]
  have r: "m' = m \<and> q' = q1 \<and> sent = of_nat k \<and> pending_ok pq' \<and>
      pq_entries pq' = pending_drop (\<lambda>e. pe_dst_id e = dst) (pq_entries pq)"
    using f assms pending_ok_length [OF assms(1)] k by (auto simp: pending_queue_drain_for_dst_def)
  have "k \<le> 16"
    using push_all_le [of rb_try_push "map (hop_request nh) (filter (pending_due dst now) (pq_entries pq))" q] k
      length_filter_le [of "pending_due dst now" "pq_entries pq"] pending_ok_length [OF assms(1)] by simp
  then have "unat (of_nat k :: u8) = k" by (simp add: unat_of_nat)
  with r k show "pending_ok pq'" "m' = m"
    "pq_entries pq' = pending_drop (\<lambda>e. pe_dst_id e = dst) (pq_entries pq)"
    "push_all rb_try_push (map (hop_request nh) (filter (pending_due dst now) (pq_entries pq))) q = (unat sent, q')"
    by simp_all
qed

lemma pending_drain_slot_idle:
  "\<not> (pe_valid (pq_entries pq ! i) \<and> pe_dst_id (pq_entries pq ! i) = dst) \<Longrightarrow>
   pending_drain_slot dst nh now i (m, pq, q, sent) = (m, pq, q, sent)"
  by (auto simp: pending_drain_slot_def Let_def)

lemma pending_queue_drain_idle:
  assumes "length (pq_entries pq) = PENDING_QUEUE_SIZE" "\<forall>e \<in> set (pq_entries pq). \<not> (pe_valid e \<and> pe_dst_id e = dst)"
  shows "pending_queue_drain_for_dst m pq dst nh q now = (m, pq, q, 0)"
proof -
  have "fold (pending_drain_slot dst nh now) is (m, pq, q, 0) = (m, pq, q, 0)"
    if "\<forall>i \<in> set is. i < PENDING_QUEUE_SIZE" for "is"
    using that assms by (induction "is") (simp_all add: pending_drain_slot_idle)
  then show ?thesis by (simp add: pending_queue_drain_for_dst_def del: upt.simps upt_rec_numeral)
qed

lemma pending_enqueue_ok:
  assumes ok: "pending_ok pq" and frame: "wire_ok data len" and len: "unat len \<le> length data"
  shows "pending_ok (fst (snd (pending_queue_enqueue m pq dst data len toa now)))"
proof (cases "len = 0 \<or> dst = 0")
  case False
  obtain m1 pq1 ev where x: "pending_queue_expire m pq now = (m1, pq1, ev)" by (cases "pending_queue_expire m pq now")
  note ok1 = pending_queue_expire_spec(1) [OF ok x]
  have n: "(if len < 255 then len else 255) = len"
    using unat_u8_less [of len] by (auto simp: word_less_nat_alt word_eq_unat)
  show ?thesis
  proof (cases "find_idx (\<lambda>e. \<not> pe_valid e) (pq_entries pq1)")
    case (Some i)
    note f = find_idx_SomeD [OF Some] and l = pending_ok_length [OF ok1]
    let ?d = "memcpy (pe_data (pq_entries pq1 ! i)) data (unat len)"
    let ?e = "\<lparr>pe_dst_id = dst, pe_data = ?d, pe_len = len, pe_toa_us = toa, pe_enqueued_ms = now, pe_valid = True\<rparr>"
    have old: "length (pe_data (pq_entries pq1 ! i)) = 255" using ok1 f by (simp add: pending_ok_def pending_entry_ok_def)
    have "wire_ok ?d len" using frame wire_ok_cong [of len ?d data] len by simp
    then have "pending_entry_ok ?e"
      using old len False unat_u8_less [of len] by (simp add: pending_entry_ok_def)
    then have "pending_ok (pending_fill i ?e pq1)" using f l by (intro pending_fill_ok [OF ok1]) simp_all
    with False x Some n show ?thesis by (simp add: pending_queue_enqueue_def Let_def)
  qed (use False x ok1 in \<open>simp add: pending_queue_enqueue_def\<close>)
qed (use ok in \<open>auto simp: pending_queue_enqueue_def\<close>)

section \<open>Properties\<close>

text \<open>The pending queue stays consistent: enqueuing a valid frame, expiring and draining keep the
  counter equal to the number of waiting entries, and every waiting entry holds a decodable frame
  and a unicast destination.\<close>

theorem pending_queue_invariant:
  assumes "pending_ok pq" "wire_ok data len" "unat len \<le> length data"
  shows "pending_ok (fst (snd (pending_queue_enqueue m pq dst data len toa now))) \<and>
         pending_ok (fst (snd (pending_queue_expire m pq now))) \<and>
         pending_ok (fst (snd (pending_queue_drain_for_dst m pq dst nh q now)))"
proof (intro conjI)
  show "pending_ok (fst (snd (pending_queue_enqueue m pq dst data len toa now)))"
    using assms by (rule pending_enqueue_ok)
  show "pending_ok (fst (snd (pending_queue_expire m pq now)))"
    using pending_queue_expire_spec(1) [OF assms(1)] by (metis prod.collapse)
  show "pending_ok (fst (snd (pending_queue_drain_for_dst m pq dst nh q now)))"
  proof (cases "dst = 0 \<or> nh = 0")
    case True
    then show ?thesis using assms(1) by (auto simp: pending_queue_drain_for_dst_def)
  next
    case False
    then show ?thesis using pending_queue_drain_spec(1) [OF assms(1)] by (metis prod.collapse)
  qed
qed

lemma pending_demo_frame:
  "wire_ok (frame_of demo_hdr [0x68, 0x69] @ replicate 228 0) 27" "length (frame_of demo_hdr [0x68, 0x69] @ replicate 228 0) = 255"
  using frame_of_wire_ok [of "[0x68, 0x69]" demo_hdr 27 "replicate 228 0"] by (simp_all add: demo_hdr_def)

lemma pending_queue_invariant_witness:
  "pending_ok (fst (snd (pending_queue_enqueue metrics_zero pending_queue_init 9
     (frame_of demo_hdr [0x68, 0x69] @ replicate 228 0) 27 80000 5)))"
  using pending_queue_invariant [OF pending_queue_init_ok pending_demo_frame(1), of metrics_zero 9 80000 5]
    pending_demo_frame(2) by simp

text \<open>C10: Draining sends each waiting message for the resolved destination at most once. The requests
  pushed are, in slot order, the rewritten frames of exactly the waiting entries for that destination
  that are not stale, cut off where the radio queue is full; the return value counts them; every
  entry for the destination is gone, all others are untouched, and draining again pushes nothing.\<close>

theorem pending_drain_exact:
  assumes "pending_ok pq" "rb_ok q" "dst \<noteq> 0" "nh \<noteq> 0"
    and "pending_queue_drain_for_dst m pq dst nh q now = (m', pq', q', sent)"
  shows "rb_contents q' = rb_contents q @
           take (unat (rb_cap q) - 1 - length (rb_contents q))
             (map (hop_request nh) (filter (pending_due dst now) (pq_entries pq))) \<and>
         unat sent = min (length (filter (pending_due dst now) (pq_entries pq)))
                         (unat (rb_cap q) - 1 - length (rb_contents q)) \<and>
         pq_entries pq' = map (\<lambda>e. if pe_valid e \<and> pe_dst_id e = dst then pending_entry_zero else e) (pq_entries pq) \<and>
         pending_queue_drain_for_dst m' pq' dst nh q' now' = (m', pq', q', 0)"
proof -
  note d = pending_queue_drain_spec [OF assms(1,3,4,5)]
  have "\<forall>e \<in> set (pq_entries pq'). \<not> (pe_valid e \<and> pe_dst_id e = dst)"
    using d(3) by (auto simp: pending_drop_def)
  then have idle: "pending_queue_drain_for_dst m' pq' dst nh q' now' = (m', pq', q', 0)"
    using pending_ok_length [OF d(1)] by (intro pending_queue_drain_idle)
  from rb_sink.push_all_queued [OF assms(2) d(4)] show ?thesis
    unfolding d(3) [unfolded pending_drop_def] length_map by (intro conjI idle refl) (elim conjE, assumption)+
qed

text \<open>The rewritten frame is the stored message for one hop: it is accepted by the decoder, its
  destination is the next hop, its TTL is 1, and every other header field and the payload are those
  of the stored frame.\<close>

theorem hop_request_decodes:
  fixes e :: pending_entry_t
  assumes "wire_ok (pe_data e) (pe_len e)" "length (pe_data e) = 255"
    and "protocol_decode m (pe_data e) (pe_len e) = (m1, Some (hdr, pl))"
  shows "\<exists>req. reencode_as_unicast_hop m (pe_data e) (pe_len e) nh (pe_toa_us e) = (m, Some req) \<and>
    protocol_decode m (tx_data req) (tx_len req) = (m, Some (hdr\<lparr>h_dst_id := nh, h_ttl := 1\<rparr>, pl))"
proof (intro exI conjI)
  have "Some (hdr, pl) = Some (unpack_header_from_wire (pe_data e) (pe_data e ! 21),
      if pe_data e ! 21 > 0 then Some (take (unat (pe_data e ! 21)) (drop 23 (pe_data e))) else None)"
    using protocol_decode_ok [of m "pe_data e" "pe_len e"] assms(1,3) by simp
  then show "protocol_decode m (tx_data (hop_request nh e)) (tx_len (hop_request nh e)) =
      (m, Some (hdr\<lparr>h_dst_id := nh, h_ttl := 1\<rparr>, pl))"
    using hop_request_decode [OF assms(1,2), of m nh] by simp
qed (rule reencode_request [OF assms(1,2)])

definition pending_demo :: pending_entry_t where
  "pending_demo = \<lparr>pe_dst_id = 9, pe_data = frame_of demo_hdr [0x68, 0x69] @ replicate 228 0, pe_len = 27,
     pe_toa_us = 80000, pe_enqueued_ms = 5, pe_valid = True\<rparr>"

lemma pending_demo_decodes:
  "protocol_decode m (pe_data pending_demo) (pe_len pending_demo) =
   (m, Some (demo_hdr\<lparr>h_magic := RIVR_MAGIC, h_version := RIVR_PROTO_VER, h_payload_len := 2\<rparr>, Some [0x68, 0x69]))"
  using frame_of_decodes [of "[0x68, 0x69]" demo_hdr 27 m "replicate 228 0"]
  by (simp add: pending_demo_def demo_hdr_def)

lemma hop_request_decodes_witness:
  "\<exists>req. reencode_as_unicast_hop metrics_zero (pe_data pending_demo) 27 8 80000 = (metrics_zero, Some req) \<and>
     protocol_decode metrics_zero (tx_data req) (tx_len req) =
     (metrics_zero, Some (demo_hdr\<lparr>h_magic := RIVR_MAGIC, h_version := RIVR_PROTO_VER, h_payload_len := 2,
        h_dst_id := 8, h_ttl := 1\<rparr>, Some [0x68, 0x69]))"
  using hop_request_decodes [OF _ _ pending_demo_decodes, of metrics_zero 8] pending_demo_frame
  by (simp add: pending_demo_def)

definition pending_demo_queue :: pending_queue_t where
  "pending_demo_queue = pending_fill 0 pending_demo pending_queue_init"

lemma pending_demo_queue_ok: "pending_ok pending_demo_queue"
  unfolding pending_demo_queue_def using pending_demo_frame
  by (intro pending_fill_ok pending_queue_init_ok)
     (simp_all add: pending_queue_init_def pending_entry_ok_def pending_demo_def)

lemma pending_drain_exact_witness:
  "\<exists>m' pq' q' sent. pending_queue_drain_for_dst metrics_zero pending_demo_queue 9 8
       (rb_init (replicate 4 (hop_request 8 pending_demo)) 4) 100 = (m', pq', q', sent) \<and> unat sent = 1 \<and>
     rb_contents q' = [hop_request 8 pending_demo]"
proof -
  let ?q = "rb_init (replicate 4 (hop_request 8 pending_demo)) 4"
  obtain m' pq' q' sent where r: "pending_queue_drain_for_dst metrics_zero pending_demo_queue 9 8 ?q 100 = (m', pq', q', sent)"
    by (cases "pending_queue_drain_for_dst metrics_zero pending_demo_queue 9 8 ?q 100")
  have q: "rb_ok ?q" using rb_init_ok [of 2 "replicate 4 (hop_request 8 pending_demo)"] by simp
  have due: "filter (pending_due 9 100) (pq_entries pending_demo_queue) = [pending_demo]"
  proof -
    have "replicate 16 pending_entry_zero = pending_entry_zero # replicate 15 pending_entry_zero"
      by (simp flip: replicate_Suc)
    moreover have "pending_due 9 100 pending_demo" "\<not> pending_due 9 100 pending_entry_zero"
      by (simp_all add: pending_due_def pending_stale_def pending_demo_def pending_entry_zero_def)
    ultimately show ?thesis by (simp add: pending_demo_queue_def pending_fill_def pending_queue_init_def)
  qed
  have cap: "unat (rb_cap ?q) = 4" by (simp add: rb_init_def)
  show ?thesis
    using pending_drain_exact [OF pending_demo_queue_ok q _ _ r] r due cap by simp
qed

end
