(* ===== verification/Rivr_SendQueue.thy ===== *)
theory Rivr_SendQueue
  imports Rivr_TxQueue "HOL-Library.Sublist"
begin

text \<open>
  The outbox of originated frames (send_queue.h, send_queue.c): a circular FIFO of 16 entries in
  front of the radio queue. \<open>send_queue_expire\<close> is the \<open>while\<close> loop that evicts from the head,
  with the number of entries as its termination measure; \<open>send_queue_tick\<close> moves at most one frame
  into the radio queue.
\<close>

abbreviation "SEND_QUEUE_SIZE \<equiv> (16 :: nat)"
abbreviation "SEND_QUEUE_EXPIRY_MS \<equiv> (120000 :: u32)"

record send_entry_t =
  se_data :: "u8 list"
  se_len :: u8
  se_toa_us :: u32
  se_enqueued_ms :: u32
  se_valid :: bool

record send_queue_t =
  sq_entries :: "send_entry_t list"
  sq_head :: u8
  sq_tail :: u8
  sq_count :: u8

definition send_entry_zero :: send_entry_t where
  "send_entry_zero = \<lparr>se_data = replicate 255 0, se_len = 0, se_toa_us = 0, se_enqueued_ms = 0, se_valid = False\<rparr>"

definition send_queue_init :: send_queue_t where
  "send_queue_init = \<lparr>sq_entries = replicate SEND_QUEUE_SIZE send_entry_zero, sq_head = 0, sq_tail = 0, sq_count = 0\<rparr>"

text \<open>\<open>(uint8_t)((i + 1u) % SEND_QUEUE_SIZE)\<close>.\<close>

definition sq_next :: "u8 \<Rightarrow> u8" where
  "sq_next i = ucast ((ucast i + 1 :: u32) mod 16)"

text \<open>Clearing the head slot and moving past it.\<close>

definition send_queue_skip :: "send_queue_t \<Rightarrow> send_queue_t" where
  "send_queue_skip sq =
     sq\<lparr>sq_head := sq_next (sq_head sq), sq_count := (if sq_count sq > 0 then sq_count sq - 1 else sq_count sq)\<rparr>"

definition send_queue_pop :: "send_queue_t \<Rightarrow> send_queue_t" where
  "send_queue_pop sq =
     sq\<lparr>sq_entries := (sq_entries sq)[unat (sq_head sq) := send_entry_zero],
        sq_head := sq_next (sq_head sq), sq_count := sq_count sq - 1\<rparr>"

function send_queue_expire :: "rivr_metrics_t \<Rightarrow> send_queue_t \<Rightarrow> u32 \<Rightarrow> rivr_metrics_t \<times> send_queue_t" where
  "send_queue_expire m sq now =
     (if sq_count sq > 0 then
        let e = sq_entries sq ! unat (sq_head sq) in
        if \<not> se_valid e then send_queue_expire m (send_queue_skip sq) now
        else if now - se_enqueued_ms e \<le> SEND_QUEUE_EXPIRY_MS then (m, sq)
        else send_queue_expire (bump sq_expired m) (send_queue_pop sq) now
      else (m, sq))"
  by pat_completeness auto
termination
  by (relation "measure (\<lambda>(m, sq, now). unat (sq_count sq))")
     (auto simp: send_queue_skip_def send_queue_pop_def unat_minus_one word_gt_0 unat_gt_0)

definition send_queue_enqueue ::
  "rivr_metrics_t \<Rightarrow> send_queue_t \<Rightarrow> u8 list \<Rightarrow> u8 \<Rightarrow> u32 \<Rightarrow> u32 \<Rightarrow> rivr_metrics_t \<times> send_queue_t \<times> bool"
where
  "send_queue_enqueue m sq data len toa now =
     (if len = 0 then (m, sq, False)
      else case send_queue_expire m sq now of (m1, sq1) \<Rightarrow>
        if unat (sq_count sq1) \<ge> SEND_QUEUE_SIZE then (bump sq_dropped m1, sq1, False)
        else
          let t = unat (sq_tail sq1);
              e = sq_entries sq1 ! t;
              e' = e\<lparr>se_data := memcpy (se_data e) data (unat len), se_len := len, se_toa_us := toa,
                     se_enqueued_ms := now, se_valid := True\<rparr>;
              sq2 = sq1\<lparr>sq_entries := (sq_entries sq1)[t := e'], sq_tail := sq_next (sq_tail sq1),
                        sq_count := sq_count sq1 + 1\<rparr>
          in (raise_peak sq_peak (ucast (sq_count sq2)) m1, sq2, True))"

definition send_queue_tick ::
  "rivr_metrics_t \<Rightarrow> send_queue_t \<Rightarrow> tx_queue \<Rightarrow> u32 \<Rightarrow> rivr_metrics_t \<times> send_queue_t \<times> tx_queue \<times> u8"
where
  "send_queue_tick m sq q now =
     (case send_queue_expire m sq now of (m1, sq1) \<Rightarrow>
        if sq_count sq1 = 0 then (m1, sq1, q, 0)
        else
          let e = sq_entries sq1 ! unat (sq_head sq1) in
          if \<not> se_valid e
          then (m1, send_queue_skip (sq1\<lparr>sq_entries := (sq_entries sq1)[unat (sq_head sq1) := send_entry_zero]\<rparr>), q, 0)
          else case rb_try_push (tx_request (se_data e) (se_len e) (se_toa_us e)) q of
            (ok, q1) \<Rightarrow> if ok then (m1, send_queue_pop sq1, q1, 1) else (m1, sq1, q1, 0))"

declare send_queue_expire.simps [simp del]

section \<open>The FIFO the array represents\<close>

definition sq_items :: "send_queue_t \<Rightarrow> send_entry_t list" where
  "sq_items sq = map (\<lambda>i. sq_entries sq ! ((unat (sq_head sq) + i) mod SEND_QUEUE_SIZE)) [0..<unat (sq_count sq)]"

definition sq_ok :: "send_queue_t \<Rightarrow> bool" where
  "sq_ok sq \<longleftrightarrow> length (sq_entries sq) = SEND_QUEUE_SIZE \<and> unat (sq_head sq) < SEND_QUEUE_SIZE \<and>
     unat (sq_count sq) \<le> SEND_QUEUE_SIZE \<and>
     unat (sq_tail sq) = (unat (sq_head sq) + unat (sq_count sq)) mod SEND_QUEUE_SIZE \<and>
     (\<forall>e \<in> set (sq_entries sq). length (se_data e) = 255) \<and> (\<forall>e \<in> set (sq_items sq). se_valid e)"

definition sq_stale :: "u32 \<Rightarrow> send_entry_t \<Rightarrow> bool" where
  "sq_stale now e \<longleftrightarrow> \<not> now - se_enqueued_ms e \<le> SEND_QUEUE_EXPIRY_MS"

lemma unat_sq_next: "unat i < SEND_QUEUE_SIZE \<Longrightarrow> unat (sq_next i) = Suc (unat i) mod SEND_QUEUE_SIZE"
proof -
  assume i: "unat i < SEND_QUEUE_SIZE"
  have "unat (ucast i + 1 :: u32) = Suc (unat i)" using i by (subst word_add_no_wrap) simp_all
  then have "unat ((ucast i + 1 :: u32) mod 16) = Suc (unat i) mod 16" by (simp add: unat_mod)
  then show ?thesis by (simp add: sq_next_def unat_ucast_mod)
qed

lemma length_sq_items [simp]: "length (sq_items sq) = unat (sq_count sq)"
  by (simp add: sq_items_def)

lemma send_queue_init_ok: "sq_ok send_queue_init" "sq_items send_queue_init = []"
  by (simp_all add: sq_ok_def sq_items_def send_queue_init_def send_entry_zero_def)

lemma sq_items_pop:
  assumes "sq_ok sq" "sq_count sq > 0"
  shows "sq_items sq = sq_entries sq ! unat (sq_head sq) # sq_items (send_queue_pop sq)"
proof -
  let ?h = "unat (sq_head sq)" and ?c = "unat (sq_count sq)" and ?e = "sq_entries sq"
  have h: "?h < 16" and c: "?c \<le> 16" and pos: "0 < ?c" and l: "length ?e = 16"
    using assms by (simp_all add: sq_ok_def word_gt_0 unat_gt_0)
  have c': "unat (sq_count sq - 1) = ?c - 1" using assms(2) by (simp add: unat_minus_one word_gt_0)
  have "?h \<noteq> (?h + Suc i) mod 16" if "i < ?c - 1" for i
  proof -
    have "(if ?h + Suc i < 16 then ?h + Suc i else ?h + Suc i - 16) \<noteq> ?h" using that h c by auto
    then show ?thesis using that h c by (auto simp: mod_if split: if_splits)
  qed
  then have "sq_items (send_queue_pop sq) = map (\<lambda>i. ?e ! ((?h + Suc i) mod 16)) [0..<?c - 1]"
    using h by (simp add: sq_items_def send_queue_pop_def unat_sq_next c' mod_add_left_eq)
  moreover have "[0..<?c] = 0 # map Suc [0..<?c - 1]"
    using pos by (simp add: map_Suc_upt upt_conv_Cons)
  ultimately show ?thesis using h by (simp add: sq_items_def)
qed

lemma sq_ok_pop: "sq_ok sq \<Longrightarrow> sq_count sq > 0 \<Longrightarrow> sq_ok (send_queue_pop sq)"
proof -
  assume ok: "sq_ok sq" and pos: "sq_count sq > 0"
  have c: "unat (sq_count sq - 1) = unat (sq_count sq) - 1" "0 < unat (sq_count sq)"
    using pos by (simp_all add: unat_minus_one word_gt_0 unat_gt_0)
  have h: "unat (sq_head sq) < 16" using ok by (simp add: sq_ok_def)
  obtain k where k: "unat (sq_count sq) = Suc k" using c(2) gr0_implies_Suc by blast
  then have k1: "unat (sq_count sq - 1) = k" using c(1) by simp
  have "(Suc (unat (sq_head sq)) mod 16 + k) mod 16 = (unat (sq_head sq) + Suc k) mod 16"
    by (simp add: mod_simps)
  moreover have "\<forall>e \<in> set ((sq_entries sq)[unat (sq_head sq) := send_entry_zero]). length (se_data e) = 255"
    using ok set_update_subset_insert [of "sq_entries sq" "unat (sq_head sq)" send_entry_zero]
    by (auto simp: sq_ok_def send_entry_zero_def)
  moreover have "\<forall>e \<in> set (sq_items (send_queue_pop sq)). se_valid e"
    using sq_items_pop [OF ok pos] ok by (simp add: sq_ok_def)
  ultimately show ?thesis
    using ok k k1 h by (simp add: sq_ok_def send_queue_pop_def unat_sq_next)
qed

lemma send_queue_expire_stop: "sq_count sq = 0 \<Longrightarrow> send_queue_expire m sq now = (m, sq)"
  by (subst send_queue_expire.simps) simp

lemma send_queue_expire_step:
  "sq_count sq > 0 \<Longrightarrow> se_valid (sq_entries sq ! unat (sq_head sq)) \<Longrightarrow>
   send_queue_expire m sq now =
   (if sq_stale now (sq_entries sq ! unat (sq_head sq))
    then send_queue_expire (bump sq_expired m) (send_queue_pop sq) now else (m, sq))"
  by (subst send_queue_expire.simps) (simp add: Let_def sq_stale_def)

text \<open>Eviction removes the longest stale prefix and counts it.\<close>

lemma send_queue_expire_spec:
  "sq_ok sq \<Longrightarrow> sq_ok (snd (send_queue_expire m sq now)) \<and>
     sq_items (snd (send_queue_expire m sq now)) = dropWhile (sq_stale now) (sq_items sq) \<and>
     fst (send_queue_expire m sq now) =
       bump_by sq_expired (of_nat (length (takeWhile (sq_stale now) (sq_items sq)))) m"
proof (induction "unat (sq_count sq)" arbitrary: m sq)
  case 0
  then have "sq_count sq = 0" by (metis unat_eq_0)
  with 0 show ?case by (simp add: send_queue_expire_stop sq_items_def bump_by_def)
next
  case (Suc n)
  let ?e = "sq_entries sq ! unat (sq_head sq)"
  have pos: "sq_count sq > 0" using Suc.hyps(2) by (simp add: word_less_nat_alt)
  note it = sq_items_pop [OF Suc.prems pos]
  have v: "se_valid ?e" using it Suc.prems by (simp add: sq_ok_def)
  have n: "n = unat (sq_count (send_queue_pop sq))" using Suc.hyps(2) pos
    by (simp add: send_queue_pop_def unat_minus_one word_gt_0)
  show ?case
  proof (cases "sq_stale now ?e")
    case True
    with Suc.hyps(1) [OF n sq_ok_pop [OF Suc.prems pos], of "bump sq_expired m"] show ?thesis
      by (simp add: send_queue_expire_step [OF pos v] it bump_by_def bump_def add.assoc)
  next
    case False
    then show ?thesis using Suc.prems
      by (simp add: send_queue_expire_step [OF pos v] it bump_by_def)
  qed
qed

section \<open>The operations\<close>

lemma sq_items_append:
  assumes "sq_ok sq" "unat (sq_count sq) < SEND_QUEUE_SIZE"
  shows "sq_items (sq\<lparr>sq_entries := (sq_entries sq)[unat (sq_tail sq) := e], sq_tail := t, sq_count := sq_count sq + 1\<rparr>) =
         sq_items sq @ [e]"
proof -
  let ?h = "unat (sq_head sq)" and ?c = "unat (sq_count sq)" and ?e = "sq_entries sq"
  have h: "?h < 16" and l: "length ?e = 16" and t: "unat (sq_tail sq) = (?h + ?c) mod 16"
    using assms(1) by (simp_all add: sq_ok_def)
  have c': "unat (sq_count sq + 1) = Suc ?c" using assms(2) by (subst word_add_no_wrap) simp_all
  have "(?h + ?c) mod 16 \<noteq> (?h + i) mod 16" if "i < ?c" for i
    using that h assms(2) by (auto simp: mod_if split: if_splits)
  then show ?thesis
    using l by (simp add: sq_items_def c' t)
qed

lemma sq_ok_append:
  assumes ok: "sq_ok sq" and c: "unat (sq_count sq) < SEND_QUEUE_SIZE" and e: "length (se_data e) = 255" "se_valid e"
  shows "sq_ok (sq\<lparr>sq_entries := (sq_entries sq)[unat (sq_tail sq) := e], sq_tail := sq_next (sq_tail sq),
                   sq_count := sq_count sq + 1\<rparr>)"
proof -
  have c': "unat (sq_count sq + 1) = Suc (unat (sq_count sq))" using c by (subst word_add_no_wrap) simp_all
  have t: "unat (sq_tail sq) = (unat (sq_head sq) + unat (sq_count sq)) mod 16" using ok by (simp add: sq_ok_def)
  have "unat (sq_tail sq) < 16" unfolding t by simp
  then have "unat (sq_next (sq_tail sq)) = (unat (sq_head sq) + Suc (unat (sq_count sq))) mod 16"
    by (simp add: unat_sq_next t mod_simps)
  moreover have "\<forall>x \<in> set ((sq_entries sq)[unat (sq_tail sq) := e]). length (se_data x) = 255"
    using ok e set_update_subset_insert [of "sq_entries sq" "unat (sq_tail sq)" e] by (auto simp: sq_ok_def)
  moreover have "\<forall>x \<in> set (sq_items sq @ [e]). se_valid x" using ok e by (simp add: sq_ok_def)
  ultimately show ?thesis
    unfolding sq_ok_def [where sq = "sq\<lparr>sq_entries := x, sq_tail := y, sq_count := z\<rparr>" for x y z]
      sq_items_append [OF ok c]
    using ok c by (simp add: c' sq_ok_def)
qed

definition send_entry :: "u8 list \<Rightarrow> u8 \<Rightarrow> u32 \<Rightarrow> u32 \<Rightarrow> send_entry_t \<Rightarrow> send_entry_t" where
  "send_entry data len toa now old =
     old\<lparr>se_data := memcpy (se_data old) data (unat len), se_len := len, se_toa_us := toa,
         se_enqueued_ms := now, se_valid := True\<rparr>"

lemma send_queue_enqueue_spec:
  assumes ok: "sq_ok sq" and len: "len \<noteq> 0" "unat len \<le> length data"
    and run: "send_queue_enqueue m sq data len toa now = (m', sq', acc)"
  shows "sq_ok sq' \<and> (acc \<longleftrightarrow> length (dropWhile (sq_stale now) (sq_items sq)) < SEND_QUEUE_SIZE) \<and>
     (\<exists>old. sq_items sq' = dropWhile (sq_stale now) (sq_items sq) @ (if acc then [send_entry data len toa now old] else []))"
proof -
  obtain m1 sq1 where x: "send_queue_expire m sq now = (m1, sq1)" by fastforce
  have ok1: "sq_ok sq1" and it: "sq_items sq1 = dropWhile (sq_stale now) (sq_items sq)"
    using send_queue_expire_spec [OF ok, of m now] x by simp_all
  have n: "unat (sq_count sq1) = length (dropWhile (sq_stale now) (sq_items sq))"
    using it length_sq_items by metis
  show ?thesis
  proof (cases "unat (sq_count sq1) < SEND_QUEUE_SIZE")
    case True
    let ?old = "sq_entries sq1 ! unat (sq_tail sq1)"
    have t: "unat (sq_tail sq1) < length (sq_entries sq1)" using ok1 by (simp add: sq_ok_def)
    then have "length (se_data ?old) = 255" using ok1 by (simp add: sq_ok_def)
    then have e: "length (se_data (send_entry data len toa now ?old)) = 255" "se_valid (send_entry data len toa now ?old)"
      using len unat_u8_less [of len] by (simp_all add: send_entry_def)
    have "acc" "sq' = sq1\<lparr>sq_entries := (sq_entries sq1)[unat (sq_tail sq1) := send_entry data len toa now ?old],
        sq_tail := sq_next (sq_tail sq1), sq_count := sq_count sq1 + 1\<rparr>"
      using run x True len(1) by (auto simp: send_queue_enqueue_def Let_def send_entry_def)
    with True n sq_ok_append [OF ok1 True e] sq_items_append [OF ok1 True] it show ?thesis by auto
  next
    case False
    then have "\<not> acc" "sq' = sq1" using run x len(1) by (auto simp: send_queue_enqueue_def)
    with False n ok1 it show ?thesis by simp
  qed
qed

text \<open>What the radio queue is handed for an entry.\<close>

definition send_request :: "send_entry_t \<Rightarrow> rf_tx_request_t" where
  "send_request e = tx_request (se_data e) (se_len e) (se_toa_us e)"

lemma send_queue_tick_spec:
  assumes ok: "sq_ok sq" and run: "send_queue_tick m sq q now = (m', sq', q', n)"
  shows "sq_ok sq' \<and>
    (case dropWhile (sq_stale now) (sq_items sq) of
       [] \<Rightarrow> sq_items sq' = [] \<and> q' = q \<and> n = 0
     | e # es \<Rightarrow> q' = snd (rb_try_push (send_request e) q) \<and>
         (if fst (rb_try_push (send_request e) q) then sq_items sq' = es \<and> n = 1
          else sq_items sq' = e # es \<and> n = 0))"
proof -
  obtain m1 sq1 where x: "send_queue_expire m sq now = (m1, sq1)" by fastforce
  have ok1: "sq_ok sq1" and it: "sq_items sq1 = dropWhile (sq_stale now) (sq_items sq)"
    using send_queue_expire_spec [OF ok, of m now] x by simp_all
  show ?thesis
  proof (cases "sq_count sq1 = 0")
    case True
    then have "sq_items sq1 = []" by (simp add: sq_items_def)
    with True it ok1 run x show ?thesis by (auto simp: send_queue_tick_def split: list.split)
  next
    case False
    then have pos: "sq_count sq1 > 0" by (simp add: word_gt_0)
    let ?e = "sq_entries sq1 ! unat (sq_head sq1)"
    note p = sq_items_pop [OF ok1 pos]
    have v: "se_valid ?e" using p ok1 by (simp add: sq_ok_def)
    obtain acc q1 where push: "rb_try_push (send_request ?e) q = (acc, q1)" by fastforce
    have "(m', sq', q', n) = (if acc then (m1, send_queue_pop sq1, q1, 1) else (m1, sq1, q1, 0))"
      using run x False v push by (simp add: send_queue_tick_def send_request_def Let_def)
    then have "sq' = (if acc then send_queue_pop sq1 else sq1)" "q' = q1" "n = (if acc then 1 else 0)"
      by (simp_all split: if_splits)
    then show ?thesis
      using push ok1 sq_ok_pop [OF ok1 pos] unfolding it [symmetric] p list.case by (simp add: p)
  qed
qed

lemma send_request_entry:
  "unat len \<le> length data \<Longrightarrow> send_request (send_entry data len toa now old) = tx_request data len toa"
  by (simp add: send_request_def send_entry_def tx_request_def)

section \<open>Runs\<close>

text \<open>
  A run interleaves enqueues and ticks; each tick sees the radio queue in whatever state the radio
  has left it. \<open>sq_run\<close> collects the requests accepted into the outbox and the requests that the
  ticks put into the radio queues.
\<close>

datatype sq_op = SqEnqueue "u8 list" u8 u32 u32 | SqTick tx_queue u32

fun sq_op_ok :: "sq_op \<Rightarrow> bool" where
  "sq_op_ok (SqEnqueue data len toa now) \<longleftrightarrow> unat len \<le> length data"
| "sq_op_ok (SqTick q now) \<longleftrightarrow> rb_ok q"

fun sq_step ::
  "sq_op \<Rightarrow> rivr_metrics_t \<Rightarrow> send_queue_t \<Rightarrow> rivr_metrics_t \<times> send_queue_t \<times> rf_tx_request_t list \<times> rf_tx_request_t list"
where
  "sq_step (SqEnqueue data len toa now) m sq =
     (case send_queue_enqueue m sq data len toa now of
        (m', sq', acc) \<Rightarrow> (m', sq', if acc then [tx_request data len toa] else [], []))"
| "sq_step (SqTick q now) m sq =
     (case send_queue_tick m sq q now of
        (m', sq', q', n) \<Rightarrow> (m', sq', [], drop (length (rb_contents q)) (rb_contents q')))"

fun sq_run ::
  "sq_op list \<Rightarrow> rivr_metrics_t \<Rightarrow> send_queue_t \<Rightarrow> send_queue_t \<times> rf_tx_request_t list \<times> rf_tx_request_t list" where
  "sq_run [] m sq = (sq, [], [])"
| "sq_run (op # ops) m sq =
     (case sq_step op m sq of (m1, sq1, acc1, sent1) \<Rightarrow>
        case sq_run ops m1 sq1 of (sq2, acc2, sent2) \<Rightarrow> (sq2, acc1 @ acc2, sent1 @ sent2))"

abbreviation "sq_frames sq \<equiv> map send_request (sq_items sq)"

lemma subseq_dropWhile: "subseq (map f (dropWhile P xs)) (map f xs)"
  by (intro subseq_map suffix_imp_subseq suffix_dropWhile)

lemma sq_step_order:
  assumes ok: "sq_ok sq" and op: "sq_op_ok op" and step: "sq_step op m sq = (m', sq', acc, sent)"
  shows "sq_ok sq' \<and> subseq (sent @ sq_frames sq') (sq_frames sq @ acc)"
proof (cases op)
  case (SqEnqueue data len toa now)
  show ?thesis
  proof (cases "len = 0")
    case True
    with step ok SqEnqueue show ?thesis by (simp add: send_queue_enqueue_def)
  next
    case False
    obtain ok' where run: "send_queue_enqueue m sq data len toa now = (m', sq', ok')"
      and acc: "acc = (if ok' then [tx_request data len toa] else [])" and sent: "sent = []"
      using step SqEnqueue by (auto split: prod.splits)
    have len: "unat len \<le> length data" using op SqEnqueue by simp
    have "sq_frames sq' = map send_request (dropWhile (sq_stale now) (sq_items sq)) @ acc" "sq_ok sq'"
      using send_queue_enqueue_spec [OF ok False len run] acc send_request_entry [OF len] by auto
    with sent list_emb_append_mono [OF subseq_dropWhile [of send_request "sq_stale now" "sq_items sq"] subseq_order.order_refl [of acc]]
    show ?thesis by simp
  qed
next
  case (SqTick q now)
  obtain q' n where run: "send_queue_tick m sq q now = (m', sq', q', n)" and acc: "acc = []"
    and sent: "sent = drop (length (rb_contents q)) (rb_contents q')"
    using step SqTick by (auto split: prod.splits)
  have q: "rb_ok q" using op SqTick by simp
  note spec = send_queue_tick_spec [OF ok run]
  have "sent @ sq_frames sq' = map send_request (dropWhile (sq_stale now) (sq_items sq))"
  proof (cases "dropWhile (sq_stale now) (sq_items sq)")
    case Nil
    with spec sent show ?thesis by simp
  next
    case (Cons e es)
    with spec sent rb_sink.push_queued [OF q, of "send_request e"] show ?thesis
      by (simp split: if_splits)
  qed
  with spec acc subseq_dropWhile [of send_request "sq_stale now" "sq_items sq"] show ?thesis by simp
qed

lemma sq_run_order:
  "sq_ok sq \<Longrightarrow> \<forall>op \<in> set ops. sq_op_ok op \<Longrightarrow> sq_run ops m sq = (sq', acc, sent) \<Longrightarrow>
   sq_ok sq' \<and> subseq (sent @ sq_frames sq') (sq_frames sq @ acc)"
proof (induction ops arbitrary: m sq acc sent)
  case (Cons op ops)
  obtain m1 sq1 a1 s1 where step: "sq_step op m sq = (m1, sq1, a1, s1)" by (cases "sq_step op m sq")
  obtain a2 s2 where run: "sq_run ops m1 sq1 = (sq', a2, s2)" "acc = a1 @ a2" "sent = s1 @ s2"
    using Cons.prems(3) step by (auto split: prod.splits)
  have st: "sq_ok sq1" "subseq (s1 @ sq_frames sq1) (sq_frames sq @ a1)"
    using sq_step_order [OF Cons.prems(1) _ step] Cons.prems(2) by simp_all
  have ih: "sq_ok sq'" "subseq (s2 @ sq_frames sq') (sq_frames sq1 @ a2)"
    using Cons.IH [OF st(1) _ run(1)] Cons.prems(2) by simp_all
  have "subseq (s1 @ (s2 @ sq_frames sq')) (s1 @ (sq_frames sq1 @ a2))"
    using list_emb_append_mono [OF subseq_order.order_refl [of s1] ih(2)] .
  also have "subseq (s1 @ (sq_frames sq1 @ a2)) ((sq_frames sq @ a1) @ a2)"
    using list_emb_append_mono [OF st(2) subseq_order.order_refl [of a2]] by simp
  finally show ?case using ih(1) run(2,3) by simp
qed simp

section \<open>Properties\<close>

text \<open>The circular array is a FIFO. Seen as the list of its entries, an enqueue drops the longest
  stale prefix, then appends the frame exactly if fewer than 16 entries are left; a tick drops the
  stale prefix, then offers the oldest entry's frame to the radio queue and removes it exactly if
  it was taken. Both keep the array well formed, and every evicted entry is counted.\<close>

theorem send_queue_refines_fifo:
  assumes ok: "sq_ok sq" and len: "len \<noteq> 0" "unat len \<le> length data"
    and enq: "send_queue_enqueue m sq data len toa now = (m1, sq1, acc)"
    and tick: "send_queue_tick m sq q now = (m2, sq2, q2, n)"
  shows "sq_ok sq1 \<and> sq_ok sq2 \<and>
    (acc \<longleftrightarrow> length (dropWhile (sq_stale now) (sq_items sq)) < SEND_QUEUE_SIZE) \<and>
    map send_request (sq_items sq1) =
      map send_request (dropWhile (sq_stale now) (sq_items sq)) @ (if acc then [tx_request data len toa] else []) \<and>
    (case dropWhile (sq_stale now) (sq_items sq) of
       [] \<Rightarrow> sq_items sq2 = [] \<and> q2 = q \<and> n = 0
     | e # es \<Rightarrow> q2 = snd (rb_try_push (send_request e) q) \<and>
         (if fst (rb_try_push (send_request e) q) then sq_items sq2 = es \<and> n = 1
          else sq_items sq2 = e # es \<and> n = 0)) \<and>
    m2 = bump_by sq_expired (of_nat (length (takeWhile (sq_stale now) (sq_items sq)))) m"
proof -
  obtain me sqe where x: "send_queue_expire m sq now = (me, sqe)" by fastforce
  have "m2 = me" using tick x by (auto simp: send_queue_tick_def Let_def split: if_splits prod.splits)
  then have "m2 = bump_by sq_expired (of_nat (length (takeWhile (sq_stale now) (sq_items sq)))) m"
    using send_queue_expire_spec [OF ok, of m now] x by simp
  with send_queue_enqueue_spec [OF ok len enq] send_queue_tick_spec [OF ok tick] send_request_entry [OF len(2)]
  show ?thesis by (intro conjI) (auto split: list.split)
qed

lemma send_queue_refines_fifo_witness:
  "\<exists>m1 sq1 acc. send_queue_enqueue metrics_zero send_queue_init [1, 2, 3] 3 50000 10 = (m1, sq1, acc) \<and> acc \<and>
     map send_request (sq_items sq1) = [tx_request [1, 2, 3] 3 50000]"
proof -
  let ?q = "rb_init (replicate 4 (tx_request [] 0 0)) 4"
  obtain m1 sq1 acc where e: "send_queue_enqueue metrics_zero send_queue_init [1, 2, 3] 3 50000 10 = (m1, sq1, acc)"
    by (cases "send_queue_enqueue metrics_zero send_queue_init [1, 2, 3] 3 50000 10")
  obtain m2 sq2 q2 n where t: "send_queue_tick metrics_zero send_queue_init ?q 10 = (m2, sq2, q2, n)"
    by (cases "send_queue_tick metrics_zero send_queue_init ?q 10")
  from send_queue_refines_fifo [OF send_queue_init_ok(1) _ _ e t]
  have "acc" "map send_request (sq_items sq1) = [tx_request [1, 2, 3] 3 50000]"
    by (simp_all add: send_queue_init_ok split: if_splits)
  with e show ?thesis by (intro exI conjI)
qed

text \<open>Originated frames leave in the order they were accepted. In any run of enqueues and ticks,
  whatever the radio queue looks like at each tick, the frames handed to the radio followed by those
  still waiting are a subsequence of the frames that were waiting at the start followed by those
  accepted since: none is invented, duplicated or overtakes another.\<close>

theorem send_queue_order:
  assumes "sq_ok sq" "\<forall>op \<in> set ops. sq_op_ok op" "sq_run ops m sq = (sq', accepted, sent)"
  shows "subseq (sent @ map send_request (sq_items sq')) (map send_request (sq_items sq) @ accepted)"
  using sq_run_order [OF assms] by simp

lemma send_queue_order_witness:
  "\<exists>sq' accepted sent.
     sq_run [SqEnqueue [1, 2, 3] 3 50000 10, SqTick (rb_init (replicate 4 (tx_request [] 0 0)) 4) 20]
       metrics_zero send_queue_init = (sq', accepted, sent) \<and>
     subseq (sent @ map send_request (sq_items sq')) accepted"
proof -
  let ?ops = "[SqEnqueue [1, 2, 3] 3 50000 10, SqTick (rb_init (replicate 4 (tx_request [] 0 0)) 4) 20]"
  obtain sq' a s where r: "sq_run ?ops metrics_zero send_queue_init = (sq', a, s)"
    by (cases "sq_run ?ops metrics_zero send_queue_init")
  have "rb_ok (rb_init (replicate 4 (tx_request [] 0 0)) 4)"
    using rb_init_ok [of 2 "replicate 4 (tx_request [] 0 0)"] by simp
  then have "\<forall>op \<in> set ?ops. sq_op_ok op" by simp
  from send_queue_order [OF send_queue_init_ok(1) this r] r show ?thesis
    by (simp only: send_queue_init_ok list.map append_Nil) blast
qed

end
