(* ===== verification/Rivr_OpFwd.thy ===== *)
theory Rivr_OpFwd
  imports Rivr_Dedupe
begin

text \<open>
  The opportunistic forward-suppression table (opfwd_suppress.h): a ring of 16 (source, packet id)
  pairs that a neighbour has been heard to relay, each with the time it expires. The padding
  fields of the structs, which are only ever zero, are left out.
\<close>

abbreviation "OPFWD_SUPPRESS_SIZE \<equiv> (16 :: nat)"
abbreviation "OPFWD_SUPPRESS_EXPIRY_MS \<equiv> (300 :: u32)"

record opfwd_entry_t =
  of_src_id :: u32
  of_pkt_id :: u16
  of_expires_ms :: u32

record opfwd_suppress_t =
  of_entries :: "opfwd_entry_t list"
  of_next_write :: u8

definition opfwd_init :: opfwd_suppress_t where
  "opfwd_init = \<lparr>of_entries = replicate OPFWD_SUPPRESS_SIZE \<lparr>of_src_id = 0, of_pkt_id = 0, of_expires_ms = 0\<rparr>,
     of_next_write = 0\<rparr>"

definition opfwd_same :: "u32 \<Rightarrow> u16 \<Rightarrow> opfwd_entry_t \<Rightarrow> bool" where
  "opfwd_same src pid e \<longleftrightarrow> of_src_id e = src \<and> of_pkt_id e = pid"

definition opfwd_suppress_add :: "opfwd_suppress_t \<Rightarrow> u32 \<Rightarrow> u16 \<Rightarrow> u32 \<Rightarrow> opfwd_suppress_t" where
  "opfwd_suppress_add tbl src pid now =
     (if src = 0 then tbl
      else case find_idx (opfwd_same src pid) (of_entries tbl) of
        Some i \<Rightarrow> tbl\<lparr>of_entries := (of_entries tbl)[i := (of_entries tbl ! i)\<lparr>of_expires_ms := now + OPFWD_SUPPRESS_EXPIRY_MS\<rparr>]\<rparr>
      | None \<Rightarrow>
          tbl\<lparr>of_entries := (of_entries tbl)[unat (of_next_write tbl) :=
                 \<lparr>of_src_id = src, of_pkt_id = pid, of_expires_ms = now + OPFWD_SUPPRESS_EXPIRY_MS\<rparr>],
              of_next_write := ucast ((ucast (of_next_write tbl) + 1 :: u32) mod 16)\<rparr>)"

definition opfwd_suppress_check :: "opfwd_suppress_t \<Rightarrow> u32 \<Rightarrow> u16 \<Rightarrow> u32 \<Rightarrow> bool" where
  "opfwd_suppress_check tbl src pid now =
     (src \<noteq> 0 \<and>
      find_idx (\<lambda>e. opfwd_same src pid e \<and> sint (of_expires_ms e - now) > 0) (of_entries tbl) \<noteq> None)"

section \<open>The table as a ring memory\<close>

definition opfwd_ok :: "opfwd_suppress_t \<Rightarrow> bool" where
  "opfwd_ok t \<longleftrightarrow> length (of_entries t) = OPFWD_SUPPRESS_SIZE \<and> unat (of_next_write t) < OPFWD_SUPPRESS_SIZE"

type_synonym opfwd_call = "u32 \<times> u16 \<times> u32"

definition opfwd_step :: "opfwd_call \<Rightarrow> opfwd_suppress_t \<Rightarrow> opfwd_suppress_t" where
  "opfwd_step k t = (case k of (src, pid, now) \<Rightarrow> opfwd_suppress_add t src pid now)"

definition opfwd_writes :: "opfwd_call \<Rightarrow> opfwd_suppress_t \<Rightarrow> bool" where
  "opfwd_writes k t = (case k of (src, pid, now) \<Rightarrow>
     src \<noteq> 0 \<and> find_idx (opfwd_same src pid) (of_entries t) = None)"

lemma opfwd_init_ok: "opfwd_ok opfwd_init"
  by (simp add: opfwd_ok_def opfwd_init_def)

lemma unat_opfwd_next:
  "unat i < OPFWD_SUPPRESS_SIZE \<Longrightarrow>
   unat (ucast ((ucast (i :: u8) + 1 :: u32) mod 16) :: u8) = Suc (unat i) mod OPFWD_SUPPRESS_SIZE"
proof -
  assume i: "unat i < OPFWD_SUPPRESS_SIZE"
  have "unat (ucast i + 1 :: u32) = Suc (unat i)" using i by (subst word_add_no_wrap) simp_all
  then have "unat ((ucast i + 1 :: u32) mod 16) = Suc (unat i) mod 16" by (simp add: unat_mod)
  then show ?thesis by (simp add: unat_ucast_mod)
qed

interpretation opfwd_ring: ring_memory OPFWD_SUPPRESS_SIZE of_entries "\<lambda>t. unat (of_next_write t)"
  opfwd_ok opfwd_step opfwd_writes "\<lambda>e k. \<not> opfwd_same (fst k) (fst (snd k)) e"
proof unfold_locales
  fix s :: opfwd_suppress_t and a :: opfwd_call and i
  assume s: "opfwd_ok s"
  obtain src pid now where a: "a = (src, pid, now)" by (cases a)
  show "length (of_entries s) = OPFWD_SUPPRESS_SIZE \<and> unat (of_next_write s) < OPFWD_SUPPRESS_SIZE"
    using s by (simp add: opfwd_ok_def)
  then have n: "unat (of_next_write s) < OPFWD_SUPPRESS_SIZE" by simp
  show "opfwd_ok (opfwd_step a s)"
    using s by (simp add: a opfwd_step_def opfwd_suppress_add_def opfwd_ok_def unat_opfwd_next split: option.split)
  show "unat (of_next_write (opfwd_step a s)) =
        (if opfwd_writes a s then Suc (unat (of_next_write s)) mod OPFWD_SUPPRESS_SIZE else unat (of_next_write s))"
    using n by (simp add: a opfwd_step_def opfwd_writes_def opfwd_suppress_add_def unat_opfwd_next split: option.split)
  assume "i < OPFWD_SUPPRESS_SIZE" "\<not> (opfwd_writes a s \<and> i = unat (of_next_write s))"
    "\<not> opfwd_same (fst a) (fst (snd a)) (of_entries s ! i)"
  then show "of_entries (opfwd_step a s) ! i = of_entries s ! i"
    using s by (auto simp: a opfwd_step_def opfwd_writes_def opfwd_suppress_add_def nth_list_update
        split: option.split dest: find_idx_SomeD)
qed

text \<open>After a call for a real source the pair is stored with its new expiry.\<close>

lemma opfwd_add_stores:
  assumes ok: "opfwd_ok t" and src: "src \<noteq> 0"
  shows "\<exists>i < OPFWD_SUPPRESS_SIZE. (opfwd_writes (src, pid, now) t \<longrightarrow> i = unat (of_next_write t)) \<and>
     of_entries (opfwd_step (src, pid, now) t) ! i =
       \<lparr>of_src_id = src, of_pkt_id = pid, of_expires_ms = now + OPFWD_SUPPRESS_EXPIRY_MS\<rparr>"
proof (cases "find_idx (opfwd_same src pid) (of_entries t)")
  case None
  then show ?thesis using ok src
    by (intro exI [of _ "unat (of_next_write t)"])
       (simp add: opfwd_ok_def opfwd_step_def opfwd_suppress_add_def)
next
  case (Some i)
  from find_idx_SomeD [OF Some] ok src Some show ?thesis
    by (intro exI [of _ i]) (simp add: opfwd_ok_def opfwd_step_def opfwd_suppress_add_def opfwd_same_def opfwd_writes_def)
qed

lemma opfwd_check_iff:
  "opfwd_suppress_check t src pid now \<longleftrightarrow>
   src \<noteq> 0 \<and> (\<exists>e \<in> set (of_entries t). opfwd_same src pid e \<and> sint (of_expires_ms e - now) > 0)"
  by (auto simp: opfwd_suppress_check_def find_idx_None)

text \<open>Every stored pair was added by some call, with the expiry that call gave it.\<close>

lemma opfwd_step_origin:
  assumes "e \<in> set (of_entries (opfwd_step (src, pid, now) t))" "of_src_id e \<noteq> 0"
  shows "e \<in> set (of_entries t) \<or> src \<noteq> 0 \<and> opfwd_same src pid e \<and> of_expires_ms e = now + OPFWD_SUPPRESS_EXPIRY_MS"
proof (cases "src = 0")
  case True
  with assms show ?thesis by (simp add: opfwd_step_def opfwd_suppress_add_def)
next
  case False
  show ?thesis
  proof (cases "find_idx (opfwd_same src pid) (of_entries t)")
    case None
    with False assms(1) set_update_subset_insert show ?thesis
      by (fastforce simp: opfwd_step_def opfwd_suppress_add_def opfwd_same_def)
  next
    case (Some i)
    with False assms(1) set_update_subset_insert find_idx_SomeD [OF Some] show ?thesis
      by (fastforce simp: opfwd_step_def opfwd_suppress_add_def opfwd_same_def)
  qed
qed

lemma opfwd_run_origin:
  "e \<in> set (of_entries (fold opfwd_step calls t)) \<Longrightarrow> of_src_id e \<noteq> 0 \<Longrightarrow>
   e \<in> set (of_entries t) \<or>
   (\<exists>(src, pid, now) \<in> set calls. src \<noteq> 0 \<and> opfwd_same src pid e \<and> of_expires_ms e = now + OPFWD_SUPPRESS_EXPIRY_MS)"
proof (induction calls arbitrary: t)
  case (Cons k ks)
  obtain src pid now where k: "k = (src, pid, now)" by (cases k)
  from Cons.IH [of "opfwd_step k t"] Cons.prems opfwd_step_origin [of e src pid now t] show ?case
    by (auto simp: k)
qed simp

section \<open>Properties\<close>

text \<open>An overheard relay suppresses our own copy. After \<open>opfwd_suppress_add\<close> records a new pair, any
  run of calls for other pairs that writes fewer than 16 slots
  leaves \<open>opfwd_suppress_check\<close> true for the whole expiry window.\<close>

theorem opfwd_suppresses_overheard:
  assumes ok: "opfwd_ok t" and src: "src \<noteq> 0" and new: "opfwd_writes (src, pid, t0) t"
    and others: "\<forall>(src', pid', t') \<in> set calls. (src', pid') \<noteq> (src, pid)"
    and few: "run_writes opfwd_step opfwd_writes calls (opfwd_suppress_add t src pid t0) < OPFWD_SUPPRESS_SIZE"
    and now: "now - t0 < OPFWD_SUPPRESS_EXPIRY_MS"
  shows "opfwd_suppress_check (fold opfwd_step calls (opfwd_suppress_add t src pid t0)) src pid now"
proof -
  let ?a = "(src, pid, t0)" and ?e = "\<lparr>of_src_id = src, of_pkt_id = pid, of_expires_ms = t0 + OPFWD_SUPPRESS_EXPIRY_MS\<rparr>"
  let ?t = "opfwd_step ?a t"
  have step: "opfwd_suppress_add t src pid t0 = ?t" by (simp add: opfwd_step_def)
  have e: "of_entries ?t ! unat (of_next_write t) = ?e"
    using opfwd_add_stores [OF ok src, of pid t0] new by auto
  have "of_entries (fold opfwd_step calls ?t) ! unat (of_next_write t) = ?e"
    using opfwd_ring.written_survives [OF ok new few [unfolded step]] others
    by (fastforce simp: e opfwd_same_def)
  moreover have ok': "opfwd_ok (fold opfwd_step calls ?t)"
    using opfwd_ring.wf_run opfwd_ring.wf_step ok by blast
  moreover have "unat (of_next_write t) < OPFWD_SUPPRESS_SIZE" using ok by (simp add: opfwd_ok_def)
  ultimately have mem: "?e \<in> set (of_entries (fold opfwd_step calls ?t))"
    by (metis nth_mem opfwd_ok_def)
  have "unat (300 - (now - t0)) = 300 - unat (now - t0)" using now by (simp add: unat_sub_le)
  moreover have "unat (now - t0) < 300" using now by (simp add: word_less_nat_alt)
  ultimately have u: "0 < unat (300 - (now - t0))" "unat (300 - (now - t0)) < 2 ^ 31" by simp_all
  have "sint (300 - (now - t0)) = int (unat (300 - (now - t0)))"
    using u(2) by (rule sint_small_u32)
  moreover have "t0 + 300 - now = 300 - (now - t0)" by simp
  ultimately have "sint (t0 + 300 - now) > 0" using u(1) by (simp only: of_nat_0_less_iff)
  with mem src show ?thesis
    unfolding opfwd_check_iff step by (auto simp: opfwd_same_def intro!: bexI [of _ ?e])
qed

lemma opfwd_suppresses_overheard_witness:
  "opfwd_suppress_check (fold opfwd_step [(9, 1, 100), (7, 2, 110)] (opfwd_suppress_add opfwd_init 7 1 50)) 7 1 349"
proof -
  have w: "opfwd_writes (7, 1, 50) opfwd_init"
    by (simp add: opfwd_writes_def opfwd_init_def find_idx_None opfwd_same_def)
  have "run_writes opfwd_step opfwd_writes [(9, 1, 100), (7, 2, 110)] (opfwd_suppress_add opfwd_init 7 1 50) < OPFWD_SUPPRESS_SIZE"
    using run_writes_le [of opfwd_step opfwd_writes "[(9, 1, 100), (7, 2, 110)]" "opfwd_suppress_add opfwd_init 7 1 50"] by simp
  from opfwd_suppresses_overheard [OF opfwd_init_ok _ w _ this, of 349] show ?thesis by simp
qed

text \<open>Nothing is suppressed without cause. If a run of calls from the empty table leaves
  \<open>opfwd_suppress_check\<close> true for a pair, one of the calls recorded that very pair, and its 300 ms
  are not over.\<close>

theorem opfwd_no_false_suppression:
  assumes "opfwd_suppress_check (fold opfwd_step calls opfwd_init) src pid now"
  shows "\<exists>t. (src, pid, t) \<in> set calls \<and> sint (t + OPFWD_SUPPRESS_EXPIRY_MS - now) > 0"
proof -
  obtain e where e: "e \<in> set (of_entries (fold opfwd_step calls opfwd_init))" "opfwd_same src pid e"
    "sint (of_expires_ms e - now) > 0" "src \<noteq> 0"
    using assms by (auto simp: opfwd_check_iff)
  then have "e \<notin> set (of_entries opfwd_init)" by (auto simp: opfwd_init_def opfwd_same_def)
  with opfwd_run_origin [OF e(1)] e show ?thesis by (fastforce simp: opfwd_same_def)
qed

lemma opfwd_no_false_suppression_witness:
  "\<exists>t. (7, 1, t) \<in> {(7 :: u32, 1 :: u16, 50 :: u32)} \<and> sint (t + 300 - 349) > 0"
proof -
  have w: "opfwd_suppress_check (fold opfwd_step [(7, 1, 50)] opfwd_init) 7 1 349"
    using opfwd_add_stores [OF opfwd_init_ok, of 7 1 50] opfwd_ring.wf_step [OF opfwd_init_ok, of "(7, 1, 50)"]
    by (force simp: opfwd_check_iff opfwd_same_def opfwd_ok_def in_set_conv_nth)
  from opfwd_no_false_suppression [OF w] show ?thesis by simp
qed

end
