(* ===== verification/Rivr_Slip.thy ===== *)
theory Rivr_Slip
  imports Rivr_TxQueue
begin

text \<open>
  The SLIP framing of the USB bridge (iface/rivr_iface_usb.c): the encoder inside
  \<open>rivr_iface_usb_send\<close>, the byte-wise decoder \<open>slip_feed\<close> with its assembly buffer, and the
  receive tick that turns decoded frames into entries of the receive ring. The UART driver is
  outside: \<open>uart_write\<close> tells whether it took all bytes, and the bytes its receive buffer holds are an argument,
  from which a tick takes the first 256.
\<close>

abbreviation "SLIP_END \<equiv> (0xC0 :: u8)"
abbreviation "SLIP_ESC \<equiv> (0xDB :: u8)"
abbreviation "SLIP_ESC_END \<equiv> (0xDC :: u8)"
abbreviation "SLIP_ESC_ESC \<equiv> (0xDD :: u8)"

record slip_rx_t =
  sl_buf :: "u8 list"
  sl_len :: u8
  sl_esc :: bool

text \<open>The transport a frame came from; the C struct keeps it as a byte that is cast back to the enumeration.\<close>

datatype rivr_iface_t = RIVR_IFACE_LORA | RIVR_IFACE_BLE | RIVR_IFACE_USB | RIVR_IFACE_WIFI | RIVR_IFACE_LOCAL

record rf_rx_frame_t =
  fr_data :: "u8 list"
  fr_len :: u8
  fr_rssi_dbm :: u16
  fr_snr_db :: u8
  fr_rx_mono_ms :: u32
  fr_from_id :: u32
  fr_iface :: rivr_iface_t

definition slip_init :: slip_rx_t where
  "slip_init = \<lparr>sl_buf = replicate 255 0, sl_len = 0, sl_esc = False\<rparr>"

text \<open>The tail of \<open>slip_feed\<close>: append an unescaped byte, or discard everything when the buffer is full.\<close>

definition slip_append :: "u8 \<Rightarrow> slip_rx_t \<Rightarrow> u8 option \<times> slip_rx_t" where
  "slip_append b rx =
     (if sl_len rx < RF_MAX_PAYLOAD_LEN
      then (None, rx\<lparr>sl_buf := (sl_buf rx)[unat (sl_len rx) := b], sl_len := sl_len rx + 1\<rparr>)
      else (None, rx\<lparr>sl_len := 0, sl_esc := False\<rparr>))"

text \<open>\<open>Some n\<close> where the C function returns true with \<open>*out_len = n\<close>.\<close>

definition slip_feed :: "u8 \<Rightarrow> slip_rx_t \<Rightarrow> u8 option \<times> slip_rx_t" where
  "slip_feed b rx =
     (if b = SLIP_END then
        (if sl_len rx > 0 then (Some (sl_len rx), rx\<lparr>sl_len := 0, sl_esc := False\<rparr>) else (None, rx))
      else if sl_esc rx then
        let rx1 = rx\<lparr>sl_esc := False\<rparr> in
        if b = SLIP_ESC_END then slip_append SLIP_END rx1
        else if b = SLIP_ESC_ESC then slip_append SLIP_ESC rx1
        else (None, rx1\<lparr>sl_len := 0\<rparr>)
      else if b = SLIP_ESC then (None, rx\<lparr>sl_esc := True\<rparr>)
      else slip_append b rx)"

definition slip_escape :: "u8 \<Rightarrow> u8 list" where
  "slip_escape b = (if b = SLIP_END then [SLIP_ESC, SLIP_ESC_END]
     else if b = SLIP_ESC then [SLIP_ESC, SLIP_ESC_ESC] else [b])"

definition slip_encode :: "u8 list \<Rightarrow> u8 list" where
  "slip_encode data = SLIP_END # concat (map slip_escape data) @ [SLIP_END]"

definition rivr_iface_usb_send :: "bool \<Rightarrow> (u8 list \<Rightarrow> bool) \<Rightarrow> u8 list \<Rightarrow> nat \<Rightarrow> bool \<times> u8 list" where
  "rivr_iface_usb_send ready uart_write data len =
     (if \<not> ready \<or> len = 0 \<or> len > 255 then (False, [])
      else (uart_write (slip_encode (take len data)), slip_encode (take len data)))"

text \<open>One byte of \<open>rivr_iface_usb_tick\<close>, and the whole tick: it reads at most \<open>USB_DRAIN_CHUNK\<close> of the bytes
  \<open>uart\<close> in the driver's receive buffer and leaves the others there.\<close>

abbreviation "USB_DRAIN_CHUNK \<equiv> (256 :: nat)"

definition usb_tick_byte :: "u32 \<Rightarrow> u8 \<Rightarrow> slip_rx_t \<times> rf_rx_frame_t rb_t \<Rightarrow> slip_rx_t \<times> rf_rx_frame_t rb_t" where
  "usb_tick_byte now b st =
     (case st of (rx, ring) \<Rightarrow>
        case slip_feed b rx of
          (None, rx') \<Rightarrow> (rx', ring)
        | (Some n, rx') \<Rightarrow>
            (rx', snd (rb_try_push
              \<lparr>fr_data = take (unat n) (sl_buf rx') @ replicate (255 - unat n) 0, fr_len = n,
               fr_rssi_dbm = 0, fr_snr_db = 0, fr_rx_mono_ms = now, fr_from_id = 0, fr_iface = RIVR_IFACE_USB\<rparr> ring)))"

definition rivr_iface_usb_tick ::
  "bool \<Rightarrow> u32 \<Rightarrow> u8 list \<times> slip_rx_t \<times> rf_rx_frame_t rb_t \<Rightarrow> u8 list \<times> slip_rx_t \<times> rf_rx_frame_t rb_t" where
  "rivr_iface_usb_tick ready now st =
     (case st of (uart, rx, ring) \<Rightarrow>
        if \<not> ready then st
        else (drop USB_DRAIN_CHUNK uart, fold (usb_tick_byte now) (take USB_DRAIN_CHUNK uart) (rx, ring)))"

section \<open>The frames a byte stream delivers\<close>

fun slip_run :: "u8 list \<Rightarrow> slip_rx_t \<Rightarrow> u8 list list \<times> slip_rx_t" where
  "slip_run [] rx = ([], rx)"
| "slip_run (b # bs) rx =
     (case slip_feed b rx of
        (None, rx1) \<Rightarrow> slip_run bs rx1
      | (Some n, rx1) \<Rightarrow> (case slip_run bs rx1 of (fs, rx2) \<Rightarrow> (take (unat n) (sl_buf rx1) # fs, rx2)))"

definition slip_pending :: "slip_rx_t \<Rightarrow> u8 list" where
  "slip_pending rx = take (unat (sl_len rx)) (sl_buf rx)"

definition slip_ok :: "slip_rx_t \<Rightarrow> bool" where
  "slip_ok rx \<longleftrightarrow> length (sl_buf rx) = 255"

lemma length_slip_pending: "slip_ok rx \<Longrightarrow> length (slip_pending rx) = unat (sl_len rx)"
  using unat_u8_less [of "sl_len rx"] by (simp add: slip_ok_def slip_pending_def)

lemma slip_append_step:
  assumes "slip_ok rx" "unat (sl_len rx) < 255"
  shows "\<exists>rx'. slip_append b rx = (None, rx') \<and> slip_ok rx' \<and> sl_esc rx' = sl_esc rx \<and>
     slip_pending rx' = slip_pending rx @ [b] \<and> unat (sl_len rx') = Suc (unat (sl_len rx))"
proof -
  have lt: "sl_len rx < RF_MAX_PAYLOAD_LEN" using assms(2) by (simp add: word_less_nat_alt)
  note s = unat_Suc_less [OF lt]
  from lt s assms show ?thesis
    by (simp add: slip_append_def slip_ok_def slip_pending_def take_Suc_conv_app_nth)
qed

lemma slip_run_escape:
  assumes "slip_ok rx" "\<not> sl_esc rx" "unat (sl_len rx) < 255"
  shows "\<exists>rx'. slip_run (slip_escape b @ bs) rx = slip_run bs rx' \<and> slip_ok rx' \<and> \<not> sl_esc rx' \<and>
     slip_pending rx' = slip_pending rx @ [b] \<and> unat (sl_len rx') = Suc (unat (sl_len rx))"
proof -
  have clr: "rx\<lparr>sl_esc := False\<rparr> = rx" using assms(2) by (cases rx) simp
  obtain rx' where "slip_append b rx = (None, rx')" "slip_ok rx'" "\<not> sl_esc rx'"
    "slip_pending rx' = slip_pending rx @ [b]" "unat (sl_len rx') = Suc (unat (sl_len rx))"
    using slip_append_step [OF assms(1,3), of b] assms(2) by auto
  then show ?thesis using assms(2) by (auto simp: slip_escape_def slip_feed_def Let_def clr)
qed

lemma slip_run_data:
  "slip_ok rx \<Longrightarrow> \<not> sl_esc rx \<Longrightarrow> unat (sl_len rx) + length data \<le> 255 \<Longrightarrow>
   \<exists>rx'. slip_run (concat (map slip_escape data) @ bs) rx = slip_run bs rx' \<and> slip_ok rx' \<and> \<not> sl_esc rx' \<and>
     slip_pending rx' = slip_pending rx @ data"
proof (induction data arbitrary: rx)
  case (Cons b data)
  obtain rx1 where "slip_run (slip_escape b @ (concat (map slip_escape data) @ bs)) rx =
      slip_run (concat (map slip_escape data) @ bs) rx1" "slip_ok rx1" "\<not> sl_esc rx1"
    "slip_pending rx1 = slip_pending rx @ [b]" "unat (sl_len rx1) = Suc (unat (sl_len rx))"
    using slip_run_escape [of rx b "concat (map slip_escape data) @ bs"] Cons.prems by auto
  with Cons.IH [of rx1] Cons.prems(3) show ?case by auto
qed auto

lemma slip_run_end:
  assumes "slip_ok rx" "\<not> sl_esc rx"
  shows "\<exists>rx'. slip_run (SLIP_END # bs) rx =
      (let (fs, rx2) = slip_run bs rx' in ((if slip_pending rx = [] then [] else [slip_pending rx]) @ fs, rx2)) \<and>
     slip_ok rx' \<and> \<not> sl_esc rx' \<and> sl_len rx' = 0"
proof (cases "sl_len rx > 0")
  case True
  then have "slip_pending rx \<noteq> []" using length_slip_pending [OF assms(1)] by (auto simp: word_less_nat_alt)
  with True assms show ?thesis
    by (intro exI [of _ "rx\<lparr>sl_len := 0, sl_esc := False\<rparr>"])
       (auto simp: slip_feed_def slip_ok_def slip_pending_def split: prod.splits)
next
  case False
  then have "sl_len rx = 0" by (simp add: word_gt_0)
  with assms show ?thesis by (intro exI [of _ rx]) (simp add: slip_feed_def slip_pending_def split: prod.splits)
qed

lemma slip_escape_length: "length (slip_escape b) \<le> 2"
  by (simp add: slip_escape_def)

lemma slip_encode_length: "length (slip_encode data) \<le> 2 * length data + 2"
proof -
  have "length (concat (map slip_escape xs)) \<le> 2 * length xs" for xs
  proof (induction xs)
    case (Cons b xs)
    then show ?case using slip_escape_length [of b] by simp
  qed simp
  then show ?thesis by (simp add: slip_encode_def)
qed

lemma slip_run_frame:
  assumes "slip_ok rx" "\<not> sl_esc rx" "data \<noteq> []" "length data \<le> 255"
  shows "\<exists>rx'. slip_run (slip_encode data) rx =
      ((if slip_pending rx = [] then [] else [slip_pending rx]) @ [data], rx') \<and>
     slip_ok rx' \<and> \<not> sl_esc rx' \<and> sl_len rx' = 0"
proof -
  obtain rx1 where a: "slip_run (slip_encode data) rx =
      (let (fs, rx2) = slip_run (concat (map slip_escape data) @ [SLIP_END]) rx1
       in ((if slip_pending rx = [] then [] else [slip_pending rx]) @ fs, rx2))"
     "slip_ok rx1" "\<not> sl_esc rx1" "sl_len rx1 = 0"
    using slip_run_end [OF assms(1,2), of "concat (map slip_escape data) @ [SLIP_END]"]
    unfolding slip_encode_def by auto
  have p1: "slip_pending rx1 = []" using a(4) by (simp add: slip_pending_def)
  obtain rx2 where b: "slip_run (concat (map slip_escape data) @ [SLIP_END]) rx1 = slip_run [SLIP_END] rx2"
      "slip_ok rx2" "\<not> sl_esc rx2" "slip_pending rx2 = data"
    using slip_run_data [OF a(2,3), of data "[SLIP_END]"] a(4) assms(4) p1 by auto
  obtain rx3 where c: "slip_run [SLIP_END] rx2 = ([data], rx3)" "slip_ok rx3" "\<not> sl_esc rx3" "sl_len rx3 = 0"
    using slip_run_end [OF b(2,3), of "[]"] b(4) assms(3) by auto
  from a(1) b(1) c show ?thesis by simp
qed

lemma slip_feed_ok: "slip_ok rx \<Longrightarrow> slip_ok (snd (slip_feed b rx))"
  by (simp add: slip_ok_def slip_feed_def slip_append_def Let_def)

text \<open>The receive tick pushes the delivered frames, in order.\<close>

definition usb_frame :: "u32 \<Rightarrow> u8 list \<Rightarrow> rf_rx_frame_t" where
  "usb_frame now d = \<lparr>fr_data = d @ replicate (255 - length d) 0, fr_len = of_nat (length d),
     fr_rssi_dbm = 0, fr_snr_db = 0, fr_rx_mono_ms = now, fr_from_id = 0, fr_iface = RIVR_IFACE_USB\<rparr>"

definition timed_bytes :: "(u8 \<times> u32) list \<Rightarrow> slip_rx_t \<times> rf_rx_frame_t rb_t \<Rightarrow> slip_rx_t \<times> rf_rx_frame_t rb_t" where
  "timed_bytes = fold (\<lambda>(b, now). usb_tick_byte now b)"

lemma timed_bytes_run:
  "slip_ok rx \<Longrightarrow> \<exists>ts. length ts = length (fst (slip_run (map fst bs) rx)) \<and> set ts \<subseteq> set (map snd bs) \<and>
    timed_bytes bs (rx, ring) =
      (snd (slip_run (map fst bs) rx), snd (push_all rb_try_push (map2 usb_frame ts (fst (slip_run (map fst bs) rx))) ring))"
proof (induction bs arbitrary: rx ring)
  case (Cons bt bs)
  obtain b now where bt: "bt = (b, now)" by (cases bt)
  obtain r rx1 where f: "slip_feed b rx = (r, rx1)" by (cases "slip_feed b rx")
  have ok1: "slip_ok rx1" using slip_feed_ok [OF Cons.prems, of b] f by simp
  show ?case
  proof (cases r)
    case None
    with f Cons.IH [OF ok1, of ring] show ?thesis by (auto simp: timed_bytes_def usb_tick_byte_def bt)
  next
    case (Some n)
    define ring1 where "ring1 = snd (rb_try_push (usb_frame now (take (unat n) (sl_buf rx1))) ring)"
    from Cons.IH [OF ok1, of ring1] obtain ts where
      "length ts = length (fst (slip_run (map fst bs) rx1))" "set ts \<subseteq> set (map snd bs)"
      "timed_bytes bs (rx1, ring1) =
        (snd (slip_run (map fst bs) rx1), snd (push_all rb_try_push (map2 usb_frame ts (fst (slip_run (map fst bs) rx1))) ring1))"
      by blast
    moreover have "length (take (unat n) (sl_buf rx1)) = unat n"
      using ok1 unat_u8_less [of n] by (simp add: slip_ok_def)
    ultimately show ?thesis using Some f
      by (intro exI [of _ "now # ts"])
        (auto simp: timed_bytes_def usb_tick_byte_def usb_frame_def ring1_def bt split: prod.splits)
  qed
qed (simp add: timed_bytes_def)

text \<open>Ticks at certain times, each after some more bytes have arrived in the driver's buffer.\<close>

definition usb_tick_run ::
  "(u8 list \<times> u32) list \<Rightarrow> u8 list \<times> slip_rx_t \<times> rf_rx_frame_t rb_t \<Rightarrow> u8 list \<times> slip_rx_t \<times> rf_rx_frame_t rb_t" where
  "usb_tick_run = fold (\<lambda>(arrived, now) (uart, st). rivr_iface_usb_tick True now (uart @ arrived, st))"

lemma usb_tick_run_bytes:
  "usb_tick_run evs (uart, rx, ring) = (uart', st') \<Longrightarrow>
   \<exists>bs. map fst bs @ uart' = uart @ concat (map fst evs) \<and> set (map snd bs) \<subseteq> set (map snd evs) \<and> st' = timed_bytes bs (rx, ring)"
proof (induction evs arbitrary: uart rx ring)
  case Nil
  then show ?case by (intro exI [of _ "[]"]) (simp add: usb_tick_run_def timed_bytes_def)
next
  case (Cons ev evs)
  obtain arr now where ev: "ev = (arr, now)" by (cases ev)
  define cs where "cs = take USB_DRAIN_CHUNK (uart @ arr)"
  obtain rx1 ring1 where st: "fold (usb_tick_byte now) cs (rx, ring) = (rx1, ring1)"
    by (cases "fold (usb_tick_byte now) cs (rx, ring)")
  have "usb_tick_run evs (drop USB_DRAIN_CHUNK (uart @ arr), rx1, ring1) = (uart', st')"
    using Cons.prems st by (simp add: usb_tick_run_def rivr_iface_usb_tick_def ev cs_def)
  from Cons.IH [OF this] obtain bs where
    "map fst bs @ uart' = drop USB_DRAIN_CHUNK (uart @ arr) @ concat (map fst evs)" "set (map snd bs) \<subseteq> set (map snd evs)"
    "st' = timed_bytes bs (rx1, ring1)" by blast
  moreover have "timed_bytes (map (\<lambda>b. (b, now)) cs) (rx, ring) = (rx1, ring1)"
    using st by (simp add: timed_bytes_def fold_map comp_def)
  moreover have "cs @ drop USB_DRAIN_CHUNK (uart @ arr) @ xs = uart @ arr @ xs" for xs
    unfolding cs_def by (simp only: append_assoc [symmetric] append_take_drop_id)
  ultimately show ?case
    by (intro exI [of _ "map (\<lambda>b. (b, now)) cs @ bs"])
      (auto simp: ev timed_bytes_def comp_def simp del: take_append drop_append)
qed

lemma slip_run_append:
  "slip_run (bs @ cs) rx = (case slip_run bs rx of (fs, rx1) \<Rightarrow> case slip_run cs rx1 of (gs, rx2) \<Rightarrow> (fs @ gs, rx2))"
proof (induction bs arbitrary: rx)
  case (Cons b bs)
  then show ?case by (auto split: prod.splits option.splits)
qed simp

lemma slip_run_frames:
  "\<forall>d \<in> set ds. d \<noteq> [] \<and> length d \<le> 255 \<Longrightarrow> slip_ok rx \<Longrightarrow> \<not> sl_esc rx \<Longrightarrow> sl_len rx = 0 \<Longrightarrow>
   \<exists>rx'. slip_run (concat (map slip_encode ds)) rx = (ds, rx') \<and> slip_ok rx' \<and> \<not> sl_esc rx' \<and> sl_len rx' = 0"
proof (induction ds arbitrary: rx)
  case (Cons d ds)
  have "slip_pending rx = []" using Cons.prems(4) by (simp add: slip_pending_def)
  with slip_run_frame [OF Cons.prems(2,3), of d] Cons.prems(1)
  obtain rx1 where a: "slip_run (slip_encode d) rx = ([d], rx1)" "slip_ok rx1" "\<not> sl_esc rx1" "sl_len rx1 = 0"
    by auto
  with Cons.IH [of rx1] Cons.prems(1) show ?case by (auto simp: slip_run_append)
qed simp

lemma slip_init_ok: "slip_ok slip_init" "\<not> sl_esc slip_init" "sl_len slip_init = 0"
  by (simp_all add: slip_ok_def slip_init_def)

section \<open>Properties\<close>

text \<open>C14: The USB bridge carries every frame intact. When the bytes \<open>rivr_iface_usb_send\<close> writes for a sequence of
  frames reach the other end, in any portions before any number of receive ticks that read at most 256 of
  the waiting bytes each and in the end all of them, then the receive ring gets exactly those frames
  in order, whatever bytes they contain and however they are cut up, each dated with one of the ticks
  (cut off where the ring is full; nothing takes frames out of it meanwhile), and the decoder is ready
  for the next one. The decoder must start idle: nothing assembled and no escape pending, as after boot or
  after any complete frame; and the driver must lose no byte.\<close>

theorem usb_bridge_roundtrip:
  assumes "\<forall>d \<in> set ds. d \<noteq> [] \<and> length d \<le> 255" "rb_ok ring"
    and "slip_ok rx" "\<not> sl_esc rx" "sl_len rx = 0"
    and "concat (map fst evs) = concat (map (\<lambda>d. snd (rivr_iface_usb_send True w d (length d))) ds)"
    and "usb_tick_run evs ([], rx, ring) = ([], rx', ring')"
  shows "\<exists>ts. length ts = length ds \<and> set ts \<subseteq> set (map snd evs) \<and>
         rb_contents ring' = rb_contents ring @
           take (unat (rb_cap ring) - 1 - length (rb_contents ring)) (map2 usb_frame ts ds) \<and>
         slip_ok rx' \<and> \<not> sl_esc rx' \<and> sl_len rx' = 0"
proof -
  have enc: "concat (map fst evs) = concat (map slip_encode ds)"
    unfolding assms(6) using assms(1) by (intro arg_cong [where f = concat] map_cong) (auto simp: rivr_iface_usb_send_def)
  obtain rx1 where r: "slip_run (concat (map slip_encode ds)) rx = (ds, rx1)" "slip_ok rx1" "\<not> sl_esc rx1" "sl_len rx1 = 0"
    using slip_run_frames [OF assms(1,3-5)] by auto
  obtain bs where bs: "map fst bs = concat (map slip_encode ds)" "set (map snd bs) \<subseteq> set (map snd evs)"
    "(rx', ring') = timed_bytes bs (rx, ring)"
    using usb_tick_run_bytes [OF assms(7)] enc by auto
  obtain ts where ts: "length ts = length ds" "set ts \<subseteq> set (map snd bs)"
    "timed_bytes bs (rx, ring) = (rx1, snd (push_all rb_try_push (map2 usb_frame ts ds) ring))"
    using timed_bytes_run [OF assms(3), of bs ring] unfolding bs(1) r(1) by auto
  obtain k ring1 where p: "push_all rb_try_push (map2 usb_frame ts ds) ring = (k, ring1)"
    by (cases "push_all rb_try_push (map2 usb_frame ts ds) ring")
  have "rx' = rx1" "ring' = ring1" using bs(3) ts(3) p by simp_all
  with rb_sink.push_all_queued [OF assms(2) p] r(2-4) ts(1,2) bs(2) show ?thesis by (intro exI [of _ ts]) auto
qed

text \<open>A frame of the three bytes the framing is about arrives in two portions, before ticks at 9 and 20.\<close>

lemma usb_bridge_roundtrip_witness:
  "\<exists>rx' ring' t. usb_tick_run [([0xC0, 0xDB, 0xDC], 9), ([0xDB, 0xDD, 7, 0xC0], 20)] ([], slip_init, rb_init (replicate 4 (usb_frame 0 [])) 4)
      = ([], rx', ring') \<and> t \<in> {9, 20} \<and> rb_contents ring' = [usb_frame t [0xC0, 0xDB, 7]]"
proof -
  let ?ring = "rb_init (replicate 4 (usb_frame 0 [])) 4"
  let ?evs = "[([0xC0, 0xDB, 0xDC], 9), ([0xDB, 0xDD, 7, 0xC0], 20)] :: (u8 list \<times> u32) list"
  obtain u rx' ring' where t: "usb_tick_run ?evs ([], slip_init, ?ring) = (u, rx', ring')"
    by (cases "usb_tick_run ?evs ([], slip_init, ?ring)") auto
  have u: "u = []" using t by (auto simp: usb_tick_run_def rivr_iface_usb_tick_def split: prod.splits)
  have ok: "rb_ok ?ring" using rb_init_ok [of 2 "replicate 4 (usb_frame 0 [])"] by simp
  have ds: "\<forall>d \<in> set [[0xC0, 0xDB, 7 :: u8]]. d \<noteq> [] \<and> length d \<le> 255" by simp
  have "concat (map fst ?evs) = concat (map (\<lambda>d. snd (rivr_iface_usb_send True (\<lambda>_. True) d (length d))) [[0xC0, 0xDB, 7]])"
    by (simp add: rivr_iface_usb_send_def slip_encode_def slip_escape_def)
  from usb_bridge_roundtrip [OF ds ok slip_init_ok this, unfolded u, OF t [unfolded u]] obtain ts where
    "length ts = 1" "set ts \<subseteq> {9, 20}" "rb_contents ring' = take (unat (rb_cap ?ring) - 1) (map2 usb_frame ts [[0xC0, 0xDB, 7]])"
    by auto
  moreover have "unat (rb_cap ?ring) = 4" by (simp add: rb_init_def)
  ultimately show ?thesis using t u by (auto simp: length_Suc_conv)
qed

text \<open>The encoder never overruns its buffer: for every frame it accepts, at most the 512 bytes of
  \<open>slip_buf\<close> are written.\<close>

theorem slip_encode_fits:
  "length (snd (rivr_iface_usb_send ready w data len)) \<le> 512"
proof (cases "len \<le> 255")
  case True
  then have "length (take len data) \<le> 255" by simp
  then have "2 * length (take len data) + 2 \<le> 512" by linarith
  with slip_encode_length [of "take len data"] have "length (slip_encode (take len data)) \<le> 512" by (rule le_trans)
  then show ?thesis by (simp add: rivr_iface_usb_send_def)
qed (simp add: rivr_iface_usb_send_def)

text \<open>A stray escape byte costs the next frame its first byte. An \<open>END\<close> that arrives with nothing
  assembled leaves the escape flag set, so after noise that ends in \<open>ESC\<close> the first byte of the
  following frame is taken for a bad escape and dropped, and the frame is delivered without it.\<close>

theorem slip_stray_escape_truncates:
  assumes "b \<notin> {SLIP_END, SLIP_ESC, SLIP_ESC_END, SLIP_ESC_ESC}" "d \<noteq> []" "length d \<le> 254"
  shows "fst (slip_run (SLIP_ESC # slip_encode (b # d)) slip_init) = [d]"
proof -
  let ?rx = "slip_init\<lparr>sl_esc := True\<rparr>"
  have i: "slip_init\<lparr>sl_esc := True, sl_esc := False, sl_len := 0\<rparr> = slip_init" by (simp add: slip_init_def)
  have e: "slip_run (SLIP_ESC # slip_encode (b # d)) slip_init = slip_run (slip_escape b @ concat (map slip_escape d) @ [SLIP_END]) ?rx"
    by (simp add: slip_encode_def slip_feed_def slip_init_def)
  have "slip_run (slip_escape b @ concat (map slip_escape d) @ [SLIP_END]) ?rx =
        slip_run (concat (map slip_escape d) @ [SLIP_END]) slip_init"
    using assms(1) i by (simp add: slip_escape_def slip_feed_def Let_def)
  moreover obtain rx2 where b: "slip_run (concat (map slip_escape d) @ [SLIP_END]) slip_init = slip_run [SLIP_END] rx2"
      "slip_ok rx2" "\<not> sl_esc rx2" "slip_pending rx2 = d"
    using slip_run_data [OF slip_init_ok(1,2), of d "[SLIP_END]"] assms(3) slip_init_ok(3)
    by (auto simp: slip_pending_def)
  ultimately show ?thesis
    using slip_run_end [OF b(2,3), of "[]"] b(4) assms(2) e by auto
qed

lemma slip_stray_escape_truncates_witness:
  "fst (slip_run (SLIP_ESC # slip_encode [0x56, 0x52, 1]) slip_init) = [[0x52, 1]]"
  using slip_stray_escape_truncates [of "0x56" "[0x52, 1]"] by simp

end
