(* ===== verification/Rivr_Bus.thy ===== *)
theory Rivr_Bus
  imports Rivr_Dedupe Rivr_Slip
begin

text \<open>
  The multi-transport packet bus (rivr_bus/): the cross-transport duplicate cache
  (rivr_dup_cache.c), the fan-out policy (rivr_dispatch.c), the dispatcher and the ingress
  function (rivr_bus.c), and the LoRa and BLE transport adapters (iface/). Outside are the BLE
  stack (connected, raw bridge on, notification accepted) and the UART; \<open>bus_env\<close> holds what they
  answer. \<open>bus_io\<close> is what dispatching changes: the metrics, the radio queue and the frames
  handed to the host-facing transports, in order.
\<close>

fun iface_bit :: "rivr_iface_t \<Rightarrow> nat" where
  "iface_bit RIVR_IFACE_LORA = 0"
| "iface_bit RIVR_IFACE_BLE = 1"
| "iface_bit RIVR_IFACE_USB = 2"
| "iface_bit RIVR_IFACE_WIFI = 3"
| "iface_bit RIVR_IFACE_LOCAL = 4"

definition iface_mask :: "rivr_iface_t \<Rightarrow> u32" where
  "iface_mask i = push_bit (iface_bit i) 1"

record rivr_rx_meta_t =
  md_iface :: rivr_iface_t
  md_rssi :: u8
  md_snr :: u8
  md_timestamp_ms :: u32
  md_flags :: u8

section \<open>Duplicate cache\<close>

abbreviation "RIVR_BUS_DUP_CACHE_SIZE \<equiv> (64 :: nat)"

record rivr_bus_dup_entry_t =
  bd_src_id :: u32
  bd_pkt_id :: u16

record rivr_bus_dup_cache_t =
  bd_entries :: "rivr_bus_dup_entry_t list"
  bd_head :: u8

definition rivr_bus_init :: rivr_bus_dup_cache_t where
  "rivr_bus_init = \<lparr>bd_entries = replicate RIVR_BUS_DUP_CACHE_SIZE \<lparr>bd_src_id = 0, bd_pkt_id = 0\<rparr>, bd_head = 0\<rparr>"

definition rivr_bus_dup_cache_seen :: "rivr_bus_dup_cache_t \<Rightarrow> u32 \<Rightarrow> u16 \<Rightarrow> bool" where
  "rivr_bus_dup_cache_seen c src pid =
     (src \<noteq> 0 \<and> find_idx (\<lambda>e. bd_src_id e = src \<and> bd_pkt_id e = pid) (bd_entries c) \<noteq> None)"

definition rivr_bus_dup_cache_add :: "rivr_bus_dup_cache_t \<Rightarrow> u32 \<Rightarrow> u16 \<Rightarrow> rivr_bus_dup_cache_t" where
  "rivr_bus_dup_cache_add c src pid =
     (let slot = bd_head c AND 63 in
      c\<lparr>bd_entries := (bd_entries c)[unat slot := \<lparr>bd_src_id = src, bd_pkt_id = pid\<rparr>],
        bd_head := (slot + 1) AND 63\<rparr>)"

section \<open>Fan-out policy\<close>

definition rivr_dispatch_is_app_relevant :: "u8 \<Rightarrow> bool" where
  "rivr_dispatch_is_app_relevant t \<longleftrightarrow>
     t = PKT_CHAT \<or> t = PKT_BEACON \<or> t = PKT_DATA \<or> t = PKT_TELEMETRY \<or> t = PKT_MAILBOX \<or> t = PKT_ALERT"

definition rivr_dispatch_select :: "u8 \<Rightarrow> rivr_iface_t \<Rightarrow> u32" where
  "rivr_dispatch_select t source =
     (let app = rivr_dispatch_is_app_relevant t in
      case source of
        RIVR_IFACE_LORA \<Rightarrow> if app then iface_mask RIVR_IFACE_BLE OR iface_mask RIVR_IFACE_USB else 0
      | RIVR_IFACE_BLE \<Rightarrow> if app then iface_mask RIVR_IFACE_USB else 0
      | RIVR_IFACE_USB \<Rightarrow> if app then iface_mask RIVR_IFACE_BLE else 0
      | RIVR_IFACE_WIFI \<Rightarrow> if app then iface_mask RIVR_IFACE_BLE OR iface_mask RIVR_IFACE_USB else 0
      | RIVR_IFACE_LOCAL \<Rightarrow> iface_mask RIVR_IFACE_LORA OR iface_mask RIVR_IFACE_BLE OR iface_mask RIVR_IFACE_USB)"

section \<open>Transports\<close>

definition RF_TOA_APPROX_US :: "u32 \<Rightarrow> u8 \<Rightarrow> u32" where
  "RF_TOA_APPROX_US t_sym pl = 49 * t_sym div 4 + (8 * ucast pl + 43) div 32 * 8 * t_sym"

definition rivr_iface_lora_send :: "u32 \<Rightarrow> u8 list \<Rightarrow> nat \<Rightarrow> tx_queue \<Rightarrow> bool \<times> tx_queue" where
  "rivr_iface_lora_send t_sym data len q =
     (if len = 0 \<or> len > 255 then (False, q)
      else rb_try_push (tx_request data (of_nat len) (RF_TOA_APPROX_US t_sym (of_nat len))) q)"

record bus_env =
  be_t_sym_us :: u32
  be_ble_connected :: bool
  be_raw_bridge :: bool
  be_ble_notify :: "u8 list \<Rightarrow> bool"
  be_usb_ready :: bool
  be_uart_write :: "u8 list \<Rightarrow> bool"

definition rivr_iface_ble_send :: "bus_env \<Rightarrow> u8 list \<Rightarrow> nat \<Rightarrow> bool" where
  "rivr_iface_ble_send env data len =
     (be_ble_connected env \<and> be_raw_bridge env \<and> \<not> (len = 0 \<or> len > 255) \<and> be_ble_notify env (take len data))"

record bus_io =
  io_metrics :: rivr_metrics_t
  io_tx :: tx_queue
  io_sent :: "(rivr_iface_t \<times> u8 list) list"

text \<open>The \<open>switch\<close> of the dispatcher: whether the transport took the frame.\<close>

definition bus_send :: "bus_env \<Rightarrow> u8 list \<Rightarrow> nat \<Rightarrow> rivr_iface_t \<Rightarrow> bus_io \<Rightarrow> bool \<times> bus_io" where
  "bus_send env frame len i io =
     (case i of
        RIVR_IFACE_LORA \<Rightarrow>
          (case rivr_iface_lora_send (be_t_sym_us env) frame len (io_tx io) of (ok, q) \<Rightarrow>
            (ok, io\<lparr>io_tx := q, io_metrics := (if ok then bump bus_forward_lora (io_metrics io) else io_metrics io)\<rparr>))
      | RIVR_IFACE_BLE \<Rightarrow>
          (let ok = rivr_iface_ble_send env frame len in
           (ok, if ok then io\<lparr>io_metrics := bump ble_tx_frames (bump bus_forward_ble (io_metrics io)),
                              io_sent := io_sent io @ [(i, take len frame)]\<rparr> else io))
      | RIVR_IFACE_USB \<Rightarrow>
          (case rivr_iface_usb_send (be_usb_ready env) (be_uart_write env) frame len of (ok, bytes) \<Rightarrow>
           (ok, if ok then io\<lparr>io_metrics := bump bus_forward_usb (io_metrics io),
                              io_sent := io_sent io @ [(i, bytes)]\<rparr> else io))
      | RIVR_IFACE_WIFI \<Rightarrow> (False, io)
      | RIVR_IFACE_LOCAL \<Rightarrow> (False, io))"

definition bus_dispatch_bit ::
  "bus_env \<Rightarrow> u8 list \<Rightarrow> nat \<Rightarrow> u32 \<Rightarrow> rivr_iface_t \<Rightarrow> rivr_iface_t \<Rightarrow> bool \<times> bus_io \<Rightarrow> bool \<times> bus_io" where
  "bus_dispatch_bit env frame len targets source i st =
     (case st of (any, io) \<Rightarrow>
        if targets AND iface_mask i = 0 then (any, io)
        else if iface_mask i = iface_mask source then (any, io)
        else case bus_send env frame len i io of (ok, io1) \<Rightarrow>
          (any \<or> ok,
           if \<not> ok \<and> i \<noteq> RIVR_IFACE_WIFI \<and> i \<noteq> RIVR_IFACE_LOCAL
           then io1\<lparr>io_metrics := bump bus_errors (io_metrics io1)\<rparr> else io1))"

definition rivr_bus_dispatch ::
  "bus_env \<Rightarrow> u8 list \<Rightarrow> nat \<Rightarrow> u32 \<Rightarrow> rivr_iface_t \<Rightarrow> bus_io \<Rightarrow> bool \<times> bus_io" where
  "rivr_bus_dispatch env frame len targets source io =
     (if len = 0 \<or> targets = 0 then (False, io)
      else fold (bus_dispatch_bit env frame len targets source)
             [RIVR_IFACE_LORA, RIVR_IFACE_BLE, RIVR_IFACE_USB, RIVR_IFACE_WIFI, RIVR_IFACE_LOCAL] (False, io))"

section \<open>Ingress\<close>

definition bus_count_rx_iface :: "rivr_iface_t \<Rightarrow> rivr_metrics_t \<Rightarrow> rivr_metrics_t" where
  "bus_count_rx_iface i m =
     (case i of RIVR_IFACE_LORA \<Rightarrow> bump lora_rx_frames m | RIVR_IFACE_USB \<Rightarrow> bump usb_rx_frames m | _ \<Rightarrow> m)"

definition rivr_bus_receive ::
  "bus_env \<Rightarrow> u8 list \<Rightarrow> nat \<Rightarrow> rivr_rx_meta_t \<Rightarrow> rivr_bus_dup_cache_t \<times> bus_io \<Rightarrow>
   bool \<times> rivr_bus_dup_cache_t \<times> bus_io"
where
  "rivr_bus_receive env data len meta st =
     (case st of (c, io) \<Rightarrow>
        if len < 25 \<or> len > 255 then (False, c, io\<lparr>io_metrics := bump bus_drop_invalid (io_metrics io)\<rparr>)
        else case protocol_decode (io_metrics io) data (of_nat len) of
          (m1, None) \<Rightarrow> (False, c, io\<lparr>io_metrics := bump bus_drop_invalid m1\<rparr>)
        | (m1, Some (hdr, pl)) \<Rightarrow>
            if rivr_bus_dup_cache_seen c (h_src_id hdr) (h_pkt_id hdr)
            then (False, c, io\<lparr>io_metrics := bump bus_drop_dup m1\<rparr>)
            else
              let c1 = rivr_bus_dup_cache_add c (h_src_id hdr) (h_pkt_id hdr);
                  io1 = io\<lparr>io_metrics := bump bus_rx_total (bus_count_rx_iface (md_iface meta) m1)\<rparr>;
                  targets = rivr_dispatch_select (h_pkt_type hdr) (md_iface meta)
              in (True, c1,
                  if targets \<noteq> 0 then snd (rivr_bus_dispatch env data len targets (md_iface meta) io1) else io1))"

definition rivr_bus_send_local ::
  "bus_env \<Rightarrow> u8 list \<Rightarrow> nat \<Rightarrow> rivr_bus_dup_cache_t \<times> bus_io \<Rightarrow> bool \<times> rivr_bus_dup_cache_t \<times> bus_io" where
  "rivr_bus_send_local env data len st =
     rivr_bus_receive env data len
       \<lparr>md_iface = RIVR_IFACE_LOCAL, md_rssi = 0, md_snr = 0, md_timestamp_ms = 0, md_flags = 0\<rparr> st"

section \<open>The duplicate cache as a ring memory\<close>

definition bus_dup_ok :: "rivr_bus_dup_cache_t \<Rightarrow> bool" where
  "bus_dup_ok c \<longleftrightarrow> length (bd_entries c) = RIVR_BUS_DUP_CACHE_SIZE \<and> unat (bd_head c) < RIVR_BUS_DUP_CACHE_SIZE"

text \<open>A step of the cache: a frame with this source and id goes through the check.\<close>

definition bus_dup_step :: "u32 \<times> u16 \<Rightarrow> rivr_bus_dup_cache_t \<Rightarrow> rivr_bus_dup_cache_t" where
  "bus_dup_step k c =
     (if rivr_bus_dup_cache_seen c (fst k) (snd k) then c else rivr_bus_dup_cache_add c (fst k) (snd k))"

definition bus_dup_new :: "u32 \<times> u16 \<Rightarrow> rivr_bus_dup_cache_t \<Rightarrow> bool" where
  "bus_dup_new k c \<longleftrightarrow> \<not> rivr_bus_dup_cache_seen c (fst k) (snd k)"

lemma rivr_bus_init_ok: "bus_dup_ok rivr_bus_init"
  by (simp add: bus_dup_ok_def rivr_bus_init_def)

lemma bus_head_mask: "unat h < 64 \<Longrightarrow> (h AND 63 :: u8) = h"
proof -
  assume h: "unat h < 64"
  have "(63 :: u8) = mask 6" by (simp add: mask_eq_exp_minus_1)
  then have "unat (h AND 63) = unat h mod 2 ^ 6" by (simp only: unat_and_mask)
  with h have "unat (h AND 63) = unat h" by simp
  then show ?thesis by (rule unsigned_word_eqI)
qed

lemma bus_dup_add_ok: "bus_dup_ok c \<Longrightarrow> bus_dup_ok (rivr_bus_dup_cache_add c src pid)"
  by (simp add: bus_dup_ok_def rivr_bus_dup_cache_add_def Let_def bus_head_mask and63)

interpretation bus_ring: ring_memory RIVR_BUS_DUP_CACHE_SIZE bd_entries "\<lambda>c. unat (bd_head c)"
  bus_dup_ok bus_dup_step bus_dup_new "\<lambda>e k. True"
proof unfold_locales
  fix s :: rivr_bus_dup_cache_t and a :: "u32 \<times> u16" and i
  assume s: "bus_dup_ok s"
  show "length (bd_entries s) = RIVR_BUS_DUP_CACHE_SIZE \<and> unat (bd_head s) < RIVR_BUS_DUP_CACHE_SIZE"
    using s by (simp add: bus_dup_ok_def)
  then have n: "unat (bd_head s) < 64" by simp
  show "bus_dup_ok (bus_dup_step a s)" using s by (simp add: bus_dup_step_def bus_dup_add_ok)
  show "unat (bd_head (bus_dup_step a s)) =
        (if bus_dup_new a s then Suc (unat (bd_head s)) mod RIVR_BUS_DUP_CACHE_SIZE else unat (bd_head s))"
    using n by (simp add: bus_dup_step_def bus_dup_new_def rivr_bus_dup_cache_add_def Let_def bus_head_mask and63)
  assume "i < RIVR_BUS_DUP_CACHE_SIZE" "\<not> (bus_dup_new a s \<and> i = unat (bd_head s))"
  then show "bd_entries (bus_dup_step a s) ! i = bd_entries s ! i"
    using n by (auto simp: bus_dup_step_def bus_dup_new_def rivr_bus_dup_cache_add_def Let_def bus_head_mask)
qed

lemma bus_dup_seen_iff:
  "rivr_bus_dup_cache_seen c src pid \<longleftrightarrow> src \<noteq> 0 \<and> \<lparr>bd_src_id = src, bd_pkt_id = pid\<rparr> \<in> set (bd_entries c)"
proof -
  have "(bd_src_id e = src \<and> bd_pkt_id e = pid) = (e = \<lparr>bd_src_id = src, bd_pkt_id = pid\<rparr>)" for e :: rivr_bus_dup_entry_t
    by (cases e) simp
  then show ?thesis by (auto simp: rivr_bus_dup_cache_seen_def find_idx_None)
qed

lemma bus_dup_add_stores:
  "bus_dup_ok c \<Longrightarrow> bd_entries (rivr_bus_dup_cache_add c src pid) ! unat (bd_head c) = \<lparr>bd_src_id = src, bd_pkt_id = pid\<rparr>"
  by (simp add: bus_dup_ok_def rivr_bus_dup_cache_add_def Let_def bus_head_mask)

section \<open>Dispatching\<close>

lemma iface_mask_inj [simp]: "iface_mask i = iface_mask j \<longleftrightarrow> i = j"
  by (cases i; cases j) (simp_all add: iface_mask_def)

lemma iface_mask_or [simp]: "(x OR y) AND iface_mask i = 0 \<longleftrightarrow> x AND iface_mask i = 0 \<and> y AND iface_mask i = 0"
  by (simp add: bit.conj_disj_distrib2 or_eq_0_iff)

lemma iface_mask_and [simp]: "iface_mask i AND iface_mask j = 0 \<longleftrightarrow> i \<noteq> j" "iface_mask i \<noteq> 0"
  by (cases i; cases j; simp add: iface_mask_def)+

lemma bus_send_sent:
  "bus_send env frame len i io = (ok, io') \<Longrightarrow>
   io_sent io' = io_sent io @ (if ok \<and> i = RIVR_IFACE_BLE then [(i, take len frame)]
     else if ok \<and> i = RIVR_IFACE_USB then [(i, slip_encode (take len frame))] else []) \<and>
   (i \<noteq> RIVR_IFACE_LORA \<longrightarrow> io_tx io' = io_tx io)"
  by (cases i) (auto simp: bus_send_def Let_def rivr_iface_usb_send_def split: prod.splits if_splits)

text \<open>What one bit of the target mask can add.\<close>

definition bus_handed :: "u8 list \<Rightarrow> nat \<Rightarrow> u32 \<Rightarrow> rivr_iface_t \<Rightarrow> rivr_iface_t \<times> u8 list \<Rightarrow> bool" where
  "bus_handed frame len targets source x \<longleftrightarrow>
     fst x \<noteq> source \<and> targets AND iface_mask (fst x) \<noteq> 0 \<and>
     (x = (RIVR_IFACE_BLE, take len frame) \<or> x = (RIVR_IFACE_USB, slip_encode (take len frame)))"

lemma bus_dispatch_bit_sent:
  assumes "bus_dispatch_bit env frame len targets source i (any, io) = (any', io')"
  shows "(\<exists>new. io_sent io' = io_sent io @ new \<and> Ball (set new) (bus_handed frame len targets source)) \<and>
    (source = RIVR_IFACE_LORA \<or> targets AND iface_mask RIVR_IFACE_LORA = 0 \<longrightarrow> io_tx io' = io_tx io)"
proof (cases "targets AND iface_mask i = 0 \<or> i = source")
  case True
  with assms show ?thesis by (auto simp: bus_dispatch_bit_def split: if_splits)
next
  case False
  obtain ok io1 where s: "bus_send env frame len i io = (ok, io1)" by fastforce
  have io': "io_sent io' = io_sent io1" "io_tx io' = io_tx io1"
    using assms False s by (auto simp: bus_dispatch_bit_def split: if_splits)
  from bus_send_sent [OF s] False show ?thesis
    unfolding io' by (auto simp: bus_handed_def)
qed

lemma bus_dispatch_fold_sent:
  "fold (bus_dispatch_bit env frame len targets source) is (any, io) = (any', io') \<Longrightarrow>
   (\<exists>new. io_sent io' = io_sent io @ new \<and> Ball (set new) (bus_handed frame len targets source)) \<and>
   (source = RIVR_IFACE_LORA \<or> targets AND iface_mask RIVR_IFACE_LORA = 0 \<longrightarrow> io_tx io' = io_tx io)"
proof (induction "is" arbitrary: any io)
  case (Cons i "is")
  obtain a1 io1 where s: "bus_dispatch_bit env frame len targets source i (any, io) = (a1, io1)" by fastforce
  obtain n1 where n1: "io_sent io1 = io_sent io @ n1" "Ball (set n1) (bus_handed frame len targets source)"
    "source = RIVR_IFACE_LORA \<or> targets AND iface_mask RIVR_IFACE_LORA = 0 \<longrightarrow> io_tx io1 = io_tx io"
    using bus_dispatch_bit_sent [OF s] by auto
  obtain n2 where n2: "io_sent io' = io_sent io1 @ n2" "Ball (set n2) (bus_handed frame len targets source)"
    "source = RIVR_IFACE_LORA \<or> targets AND iface_mask RIVR_IFACE_LORA = 0 \<longrightarrow> io_tx io' = io_tx io1"
    using Cons.IH [of a1 io1] Cons.prems s by auto
  from n1 n2 show ?case by (auto intro!: exI [of _ "n1 @ n2"])
qed auto

lemma bus_dispatch_bit_skip:
  "targets AND iface_mask i = 0 \<or> i = source \<Longrightarrow> bus_dispatch_bit env frame len targets source i st = st"
  by (auto simp: bus_dispatch_bit_def split: prod.split)

section \<open>Ingress\<close>

lemma bus_receive_cases:
  assumes "25 \<le> len" "len \<le> 255" "protocol_decode (io_metrics io) data (of_nat len) = (m1, Some (hdr, pl))"
  shows "rivr_bus_receive env data len meta (c, io) =
    (if bus_dup_new (h_src_id hdr, h_pkt_id hdr) c
     then (True, bus_dup_step (h_src_id hdr, h_pkt_id hdr) c,
           let io1 = io\<lparr>io_metrics := bump bus_rx_total (bus_count_rx_iface (md_iface meta) m1)\<rparr>;
               targets = rivr_dispatch_select (h_pkt_type hdr) (md_iface meta)
           in if targets \<noteq> 0 then snd (rivr_bus_dispatch env data len targets (md_iface meta) io1) else io1)
     else (False, c, io\<lparr>io_metrics := bump bus_drop_dup m1\<rparr>))"
  using assms by (simp add: rivr_bus_receive_def bus_dup_new_def bus_dup_step_def Let_def)

lemma bus_receive_accepts:
  assumes "rivr_bus_receive env data len meta (c, io) = (True, c', io')"
  obtains m1 hdr pl where "25 \<le> len" "len \<le> 255"
    "protocol_decode (io_metrics io) data (of_nat len) = (m1, Some (hdr, pl))"
    "bus_dup_new (h_src_id hdr, h_pkt_id hdr) c" "c' = bus_dup_step (h_src_id hdr, h_pkt_id hdr) c"
proof -
  have len: "25 \<le> len" "len \<le> 255" using assms by (simp_all add: rivr_bus_receive_def split: if_splits)
  obtain m1 r where d: "protocol_decode (io_metrics io) data (of_nat len) = (m1, r)" by fastforce
  with assms len obtain hdr pl where r: "r = Some (hdr, pl)"
    by (cases r) (auto simp: rivr_bus_receive_def)
  show thesis
    using that [OF len d [unfolded r]] bus_receive_cases [OF len d [unfolded r], of env meta c] assms
    by (auto split: if_splits)
qed

text \<open>A sequence of received frames; the number accepted.\<close>

type_synonym bus_call = "bus_env \<times> u8 list \<times> nat \<times> rivr_rx_meta_t"

fun bus_run :: "bus_call list \<Rightarrow> rivr_bus_dup_cache_t \<times> bus_io \<Rightarrow> nat \<times> rivr_bus_dup_cache_t \<times> bus_io" where
  "bus_run [] st = (0, st)"
| "bus_run ((env, data, len, meta) # calls) st =
     (case rivr_bus_receive env data len meta st of
        (ok, st1) \<Rightarrow> (case bus_run calls st1 of (n, st2) \<Rightarrow> ((if ok then 1 else 0) + n, st2)))"

lemma bus_receive_cache:
  assumes "rivr_bus_receive env data len meta (c, io) = (ok, c', io')"
  shows "\<exists>keys. c' = fold bus_dup_step keys c \<and> run_writes bus_dup_step bus_dup_new keys c = (if ok then 1 else 0)"
proof (cases ok)
  case True
  with assms have r: "rivr_bus_receive env data len meta (c, io) = (True, c', io')" by simp
  from bus_receive_accepts [OF r] obtain hdr where
    "bus_dup_new (h_src_id (hdr :: rivr_pkt_hdr_t), h_pkt_id hdr) c" "c' = bus_dup_step (h_src_id hdr, h_pkt_id hdr) c"
    by metis
  with True show ?thesis by (intro exI [of _ "[(h_src_id hdr, h_pkt_id hdr)]"]) simp
next
  case False
  then have "c' = c" using assms by (auto simp: rivr_bus_receive_def Let_def split: if_splits prod.splits option.splits)
  with False show ?thesis by (intro exI [of _ "[]"]) simp
qed

lemma run_writes_append:
  "run_writes step writes (xs @ ys) s = run_writes step writes xs s + run_writes step writes ys (fold step xs s)"
  by (induction xs arbitrary: s) simp_all

lemma bus_run_cache:
  "bus_run calls (c, io) = (n, c', io') \<Longrightarrow>
   \<exists>keys. c' = fold bus_dup_step keys c \<and> run_writes bus_dup_step bus_dup_new keys c = n"
proof (induction calls arbitrary: c io n)
  case Nil
  then show ?case by (intro exI [of _ "[]"]) simp
next
  case (Cons call calls)
  obtain env data len meta where call: "call = (env, data, len, meta)" by (cases call)
  obtain ok c1 io1 where r: "rivr_bus_receive env data len meta (c, io) = (ok, c1, io1)"
    by (cases "rivr_bus_receive env data len meta (c, io)")
  obtain k where k: "bus_run calls (c1, io1) = (k, c', io')" "n = (if ok then 1 else 0) + k"
    using Cons.prems call r by (auto split: prod.splits)
  obtain k1 where k1: "c1 = fold bus_dup_step k1 c" "run_writes bus_dup_step bus_dup_new k1 c = (if ok then 1 else 0)"
    using bus_receive_cache [OF r] by auto
  obtain k2 where k2: "c' = fold bus_dup_step k2 c1" "run_writes bus_dup_step bus_dup_new k2 c1 = k"
    using Cons.IH [OF k(1)] by auto
  from k k1 k2 show ?case by (intro exI [of _ "k1 @ k2"]) (simp add: run_writes_append)
qed

text \<open>The frames an accepted frame is mirrored as.\<close>

definition bus_wanted :: "u8 \<Rightarrow> rivr_iface_t \<Rightarrow> rivr_iface_t \<Rightarrow> bool" where
  "bus_wanted t source i \<longleftrightarrow> (source = RIVR_IFACE_LOCAL \<or> rivr_dispatch_is_app_relevant t) \<and> i \<noteq> source"

definition bus_mirrors :: "bus_env \<Rightarrow> u8 list \<Rightarrow> nat \<Rightarrow> u8 \<Rightarrow> rivr_iface_t \<Rightarrow> (rivr_iface_t \<times> u8 list) list" where
  "bus_mirrors env data len t source =
     (if bus_wanted t source RIVR_IFACE_BLE \<and> rivr_iface_ble_send env data len
      then [(RIVR_IFACE_BLE, take len data)] else []) @
     (if bus_wanted t source RIVR_IFACE_USB \<and> be_usb_ready env \<and> be_uart_write env (slip_encode (take len data))
      then [(RIVR_IFACE_USB, slip_encode (take len data))] else [])"

lemma bus_select_mask:
  "rivr_dispatch_select t source AND iface_mask i = 0 \<or> i = source \<longleftrightarrow>
   \<not> (bus_wanted t source i \<and> (i = RIVR_IFACE_BLE \<or> i = RIVR_IFACE_USB \<or> i = RIVR_IFACE_LORA \<and> source = RIVR_IFACE_LOCAL))"
  by (cases source; cases i) (simp_all add: rivr_dispatch_select_def bus_wanted_def)

lemma bus_bit_idle:
  "\<not> bus_wanted t source i \<or> i \<in> {RIVR_IFACE_WIFI, RIVR_IFACE_LOCAL} \<or> i = RIVR_IFACE_LORA \<and> source \<noteq> RIVR_IFACE_LOCAL \<Longrightarrow>
   bus_dispatch_bit env frame len (rivr_dispatch_select t source) source i st = st"
  by (rule bus_dispatch_bit_skip) (auto simp: bus_select_mask)

lemma bus_bit_effect:
  assumes len: "25 \<le> len" "len \<le> 255"
    and bit: "bus_dispatch_bit env frame len (rivr_dispatch_select t source) source i (any, io) = (any', io')"
  shows "io_sent io' = io_sent io @
      (if bus_wanted t source i \<and> i = RIVR_IFACE_BLE \<and> rivr_iface_ble_send env frame len
       then [(RIVR_IFACE_BLE, take len frame)] else []) @
      (if bus_wanted t source i \<and> i = RIVR_IFACE_USB \<and> be_usb_ready env \<and> be_uart_write env (slip_encode (take len frame))
       then [(RIVR_IFACE_USB, slip_encode (take len frame))] else [])"
    "io_tx io' = (if i = RIVR_IFACE_LORA \<and> source = RIVR_IFACE_LOCAL
       then snd (rb_try_push (tx_request frame (of_nat len) (RF_TOA_APPROX_US (be_t_sym_us env) (of_nat len))) (io_tx io))
       else io_tx io)"
proof -
  let ?P = "bus_wanted t source i \<and> (i = RIVR_IFACE_BLE \<or> i = RIVR_IFACE_USB \<or> i = RIVR_IFACE_LORA \<and> source = RIVR_IFACE_LOCAL)"
  have w: "bus_wanted t RIVR_IFACE_LOCAL RIVR_IFACE_LORA" by (simp add: bus_wanted_def)
  have "io_sent io' = io_sent io @
      (if bus_wanted t source i \<and> i = RIVR_IFACE_BLE \<and> rivr_iface_ble_send env frame len
       then [(RIVR_IFACE_BLE, take len frame)] else []) @
      (if bus_wanted t source i \<and> i = RIVR_IFACE_USB \<and> be_usb_ready env \<and> be_uart_write env (slip_encode (take len frame))
       then [(RIVR_IFACE_USB, slip_encode (take len frame))] else []) \<and>
    io_tx io' = (if i = RIVR_IFACE_LORA \<and> source = RIVR_IFACE_LOCAL
       then snd (rb_try_push (tx_request frame (of_nat len) (RF_TOA_APPROX_US (be_t_sym_us env) (of_nat len))) (io_tx io))
       else io_tx io)"
  proof (cases ?P)
    case False
    then have "rivr_dispatch_select t source AND iface_mask i = 0 \<or> i = source" using bus_select_mask by blast
    then have "io' = io" using bus_dispatch_bit_skip bit by (metis prod.inject)
    with False w show ?thesis by auto
  next
    case True
    then have on: "rivr_dispatch_select t source AND iface_mask i \<noteq> 0" "i \<noteq> source" using bus_select_mask by blast+
    obtain ok io1 where s: "bus_send env frame len i io = (ok, io1)" by fastforce
    have io': "io_sent io' = io_sent io1" "io_tx io' = io_tx io1"
      using bit on s by (auto simp: bus_dispatch_bit_def split: if_splits)
    from True s len show ?thesis
      unfolding io'
      by (cases i) (auto simp: bus_send_def Let_def rivr_iface_usb_send_def rivr_iface_lora_send_def bus_wanted_def split: prod.splits if_splits)
  qed
  then show "io_sent io' = io_sent io @
      (if bus_wanted t source i \<and> i = RIVR_IFACE_BLE \<and> rivr_iface_ble_send env frame len
       then [(RIVR_IFACE_BLE, take len frame)] else []) @
      (if bus_wanted t source i \<and> i = RIVR_IFACE_USB \<and> be_usb_ready env \<and> be_uart_write env (slip_encode (take len frame))
       then [(RIVR_IFACE_USB, slip_encode (take len frame))] else [])"
    "io_tx io' = (if i = RIVR_IFACE_LORA \<and> source = RIVR_IFACE_LOCAL
       then snd (rb_try_push (tx_request frame (of_nat len) (RF_TOA_APPROX_US (be_t_sym_us env) (of_nat len))) (io_tx io))
       else io_tx io)" by simp_all
qed

lemma bus_dispatch_mirrors:
  assumes len: "25 \<le> len" "len \<le> 255" and on: "rivr_dispatch_select t source \<noteq> 0"
    and run: "rivr_bus_dispatch env frame len (rivr_dispatch_select t source) source io = (any, io')"
  shows "io_sent io' = io_sent io @ bus_mirrors env frame len t source"
    "io_tx io' = (if source = RIVR_IFACE_LOCAL
       then snd (rb_try_push (tx_request frame (of_nat len) (RF_TOA_APPROX_US (be_t_sym_us env) (of_nat len))) (io_tx io))
       else io_tx io)"
proof -
  let ?bit = "bus_dispatch_bit env frame len (rivr_dispatch_select t source) source"
  obtain a1 io1 where s1: "?bit RIVR_IFACE_LORA (False, io) = (a1, io1)" by fastforce
  obtain a2 io2 where s2: "?bit RIVR_IFACE_BLE (a1, io1) = (a2, io2)" by fastforce
  obtain a3 io3 where s3: "?bit RIVR_IFACE_USB (a2, io2) = (a3, io3)" by fastforce
  have "?bit RIVR_IFACE_LOCAL (?bit RIVR_IFACE_WIFI (a3, io3)) = (a3, io3)" by (simp add: bus_bit_idle)
  then have "io' = io3" using run on len s1 s2 s3 by (simp add: rivr_bus_dispatch_def)
  with bus_bit_effect [OF len s1] bus_bit_effect [OF len s2] bus_bit_effect [OF len s3]
  show "io_sent io' = io_sent io @ bus_mirrors env frame len t source"
    "io_tx io' = (if source = RIVR_IFACE_LOCAL
       then snd (rb_try_push (tx_request frame (of_nat len) (RF_TOA_APPROX_US (be_t_sym_us env) (of_nat len))) (io_tx io))
       else io_tx io)"
    by (simp_all add: bus_mirrors_def)
qed

lemma bus_select_zero: "rivr_dispatch_select t source = 0 \<Longrightarrow> bus_mirrors env frame len t source = [] \<and> source \<noteq> RIVR_IFACE_LOCAL"
  using bus_select_mask [of t source RIVR_IFACE_BLE] bus_select_mask [of t source RIVR_IFACE_USB]
    bus_select_mask [of t RIVR_IFACE_LOCAL RIVR_IFACE_LORA]
  by (auto simp: bus_mirrors_def bus_wanted_def)

section \<open>Properties\<close>

text \<open>C20: Dispatching never echoes. Whatever the target mask, \<open>rivr_bus_dispatch\<close> hands the frame only
  to host transports that are in the mask and are not the one it came from, unaltered for BLE and
  SLIP-encoded for USB, and leaves the radio queue alone if the frame came from LoRa or LoRa is not
  a target.\<close>

theorem bus_dispatch_no_echo:
  assumes "rivr_bus_dispatch env frame len targets source io = (any, io')"
  shows "(\<exists>new. io_sent io' = io_sent io @ new \<and>
      (\<forall>(i, bytes) \<in> set new. i \<noteq> source \<and> targets AND iface_mask i \<noteq> 0 \<and>
         (i = RIVR_IFACE_BLE \<and> bytes = take len frame \<or>
          i = RIVR_IFACE_USB \<and> bytes = slip_encode (take len frame)))) \<and>
    (source = RIVR_IFACE_LORA \<or> targets AND iface_mask RIVR_IFACE_LORA = 0 \<longrightarrow> io_tx io' = io_tx io)"
proof (cases "len = 0 \<or> targets = 0")
  case True
  with assms show ?thesis by (auto simp: rivr_bus_dispatch_def)
next
  case False
  with assms bus_dispatch_fold_sent [of env frame len targets source _ False io any io'] show ?thesis
    unfolding rivr_bus_dispatch_def if_not_P [OF False] bus_handed_def by fastforce
qed

definition bus_demo_env :: bus_env where
  "bus_demo_env = \<lparr>be_t_sym_us = 4096, be_ble_connected = True, be_raw_bridge = True, be_ble_notify = (\<lambda>_. True),
     be_usb_ready = True, be_uart_write = (\<lambda>_. True)\<rparr>"

definition bus_demo_io :: bus_io where
  "bus_demo_io = \<lparr>io_metrics = metrics_zero, io_tx = rb_init (replicate 4 (tx_request [] 0 0)) 4, io_sent = []\<rparr>"

lemma bus_dispatch_no_echo_witness:
  "(RIVR_IFACE_BLE, [1, 2, 3]) \<notin>
     set (io_sent (snd (rivr_bus_dispatch bus_demo_env [1, 2, 3] 3 6 RIVR_IFACE_BLE bus_demo_io)))"
proof -
  obtain any io' where r: "rivr_bus_dispatch bus_demo_env [1, 2, 3] 3 6 RIVR_IFACE_BLE bus_demo_io = (any, io')" by fastforce
  have "io_sent bus_demo_io = []" by (simp add: bus_demo_io_def)
  with bus_dispatch_no_echo [OF r] show ?thesis unfolding r by auto
qed

text \<open>Every frame is processed once. After the bus has accepted a frame from a real node, and while
  fewer than 64 further frames have been accepted, any frame with the same source and packet id is
  rejected on whatever transport it arrives: it is sent nowhere and counted as a duplicate.\<close>

theorem bus_duplicates_rejected:
  assumes ok: "bus_dup_ok c"
    and acc: "rivr_bus_receive env data len meta (c, io) = (True, c1, io1)"
    and dec: "snd (protocol_decode (io_metrics io) data (of_nat len)) = Some (hdr, pl)" and src: "h_src_id hdr \<noteq> 0"
    and run: "bus_run calls (c1, io1') = (n, c2, io2')" and few: "n < RIVR_BUS_DUP_CACHE_SIZE"
    and len: "25 \<le> len2" "len2 \<le> 255"
    and dec2: "protocol_decode (io_metrics io2) data2 (of_nat len2) = (m2, Some (hdr2, pl2))"
    and same: "h_src_id hdr2 = h_src_id hdr" "h_pkt_id hdr2 = h_pkt_id hdr"
  shows "rivr_bus_receive env2 data2 len2 meta2 (c2, io2) = (False, c2, io2\<lparr>io_metrics := bump bus_drop_dup m2\<rparr>)"
proof -
  let ?k = "(h_src_id hdr, h_pkt_id hdr)"
  have k: "bus_dup_new ?k c" "c1 = bus_dup_step ?k c"
    using bus_receive_accepts [OF acc] dec by (metis option.inject prod.inject snd_conv)+
  obtain keys where keys: "c2 = fold bus_dup_step keys c1" "run_writes bus_dup_step bus_dup_new keys c1 = n"
    using bus_run_cache [OF run] by auto
  have st: "bd_entries (bus_dup_step ?k c) ! unat (bd_head c) = \<lparr>bd_src_id = h_src_id hdr, bd_pkt_id = h_pkt_id hdr\<rparr>"
    using k(1) bus_dup_add_stores [OF ok] by (simp add: bus_dup_step_def bus_dup_new_def)
  have "bd_entries c2 ! unat (bd_head c) = \<lparr>bd_src_id = h_src_id hdr, bd_pkt_id = h_pkt_id hdr\<rparr>"
    using bus_ring.written_survives [OF ok k(1), of keys] few keys st k(2) by simp
  moreover have "bus_dup_ok c2" using bus_ring.wf_run bus_ring.wf_step ok keys(1) k(2) by blast
  ultimately have "rivr_bus_dup_cache_seen c2 (h_src_id hdr) (h_pkt_id hdr)"
    using src ok by (metis bus_dup_seen_iff bus_dup_ok_def nth_mem)
  then show ?thesis
    using bus_receive_cases [OF len dec2, of env2 meta2 c2] same by (simp add: bus_dup_new_def)
qed

lemma bus_demo_decodes:
  "protocol_decode m (frame_of demo_hdr [0x68, 0x69]) 27 =
   (m, Some (demo_hdr\<lparr>h_magic := RIVR_MAGIC, h_version := RIVR_PROTO_VER, h_payload_len := 2\<rparr>, Some [0x68, 0x69]))"
  using frame_of_decodes [of "[0x68, 0x69]" demo_hdr 27 m "[]"] by (simp add: demo_hdr_def)

definition meta_of :: "rivr_iface_t \<Rightarrow> rivr_rx_meta_t" where
  "meta_of i = \<lparr>md_iface = i, md_rssi = 0, md_snr = 0, md_timestamp_ms = 0, md_flags = 0\<rparr>"

lemma bus_demo_accepted:
  "fst (rivr_bus_receive bus_demo_env (frame_of demo_hdr [0x68, 0x69]) 27 (meta_of i) (rivr_bus_init, io))"
proof -
  have "bus_dup_new (0xCAFE0001, 513) rivr_bus_init"
    by (simp add: bus_dup_new_def bus_dup_seen_iff rivr_bus_init_def)
  then show ?thesis
    using bus_receive_cases [of 27 io "frame_of demo_hdr [0x68, 0x69]"] bus_demo_decodes [of "io_metrics io"]
    by (simp add: demo_hdr_def)
qed

lemma bus_duplicates_rejected_witness:
  "fst (rivr_bus_receive bus_demo_env (frame_of demo_hdr [0x68, 0x69]) 27 (meta_of RIVR_IFACE_BLE)
     (snd (rivr_bus_receive bus_demo_env (frame_of demo_hdr [0x68, 0x69]) 27 (meta_of RIVR_IFACE_LORA)
       (rivr_bus_init, bus_demo_io)))) = False"
proof -
  let ?f = "frame_of demo_hdr [0x68, 0x69]"
  obtain c1 io1 where a: "rivr_bus_receive bus_demo_env ?f 27 (meta_of RIVR_IFACE_LORA) (rivr_bus_init, bus_demo_io) = (True, c1, io1)"
    using bus_demo_accepted [of RIVR_IFACE_LORA bus_demo_io]
    by (cases "rivr_bus_receive bus_demo_env ?f 27 (meta_of RIVR_IFACE_LORA) (rivr_bus_init, bus_demo_io)") auto
  have d: "protocol_decode (io_metrics io) ?f (of_nat 27) =
    (io_metrics io, Some (demo_hdr\<lparr>h_magic := RIVR_MAGIC, h_version := RIVR_PROTO_VER, h_payload_len := 2\<rparr>, Some [0x68, 0x69]))" for io
    using bus_demo_decodes by simp
  have run: "bus_run [] (c1, io1) = (0, c1, io1)" by simp
  from bus_duplicates_rejected [OF rivr_bus_init_ok a _ _ run _ _ _ d refl refl, of _ bus_demo_env "meta_of RIVR_IFACE_BLE" io1]
    d [of bus_demo_io] a show ?thesis by (simp add: demo_hdr_def)
qed

text \<open>An accepted frame is mirrored to exactly the right transports. The host transports get it in
  the order BLE, USB, each if it can take it, if it is not the ingress transport, and if the
  packet type concerns applications or the frame is local; the radio queue gets it only if it is
  local.\<close>

theorem bus_receive_mirrors:
  assumes acc: "rivr_bus_receive env data len meta (c, io) = (True, c', io')"
    and dec: "snd (protocol_decode (io_metrics io) data (of_nat len)) = Some (hdr, pl)"
  shows "io_sent io' = io_sent io @ bus_mirrors env data len (h_pkt_type hdr) (md_iface meta) \<and>
    io_tx io' = (if md_iface meta = RIVR_IFACE_LOCAL
      then snd (rb_try_push (tx_request data (of_nat len) (RF_TOA_APPROX_US (be_t_sym_us env) (of_nat len))) (io_tx io))
      else io_tx io)"
proof -
  let ?t = "rivr_dispatch_select (h_pkt_type hdr) (md_iface meta)"
  obtain m1 where len: "25 \<le> len" "len \<le> 255" and d: "protocol_decode (io_metrics io) data (of_nat len) = (m1, Some (hdr, pl))"
    and new: "bus_dup_new (h_src_id hdr, h_pkt_id hdr) c"
    using bus_receive_accepts [OF acc] dec by (metis option.inject prod.inject snd_conv)
  let ?io1 = "io\<lparr>io_metrics := bump bus_rx_total (bus_count_rx_iface (md_iface meta) m1)\<rparr>"
  have io': "io' = (if ?t \<noteq> 0 then snd (rivr_bus_dispatch env data len ?t (md_iface meta) ?io1) else ?io1)"
    using acc bus_receive_cases [OF len d, of env meta c] new by (simp add: Let_def)
  show ?thesis
  proof (cases "?t = 0")
    case True
    with io' bus_select_zero [OF True, of env data len] show ?thesis by simp
  next
    case False
    obtain any io2 where r: "rivr_bus_dispatch env data len ?t (md_iface meta) ?io1 = (any, io2)" by fastforce
    with io' False bus_dispatch_mirrors [OF len False r] show ?thesis by simp
  qed
qed

lemma bus_receive_mirrors_witness:
  "io_sent (snd (snd (rivr_bus_receive bus_demo_env (frame_of demo_hdr [0x68, 0x69]) 27 (meta_of RIVR_IFACE_BLE)
     (rivr_bus_init, bus_demo_io)))) = [(RIVR_IFACE_USB, slip_encode (frame_of demo_hdr [0x68, 0x69]))]"
proof -
  let ?f = "frame_of demo_hdr [0x68, 0x69]"
  obtain c1 io1 where a: "rivr_bus_receive bus_demo_env ?f 27 (meta_of RIVR_IFACE_BLE) (rivr_bus_init, bus_demo_io) = (True, c1, io1)"
    using bus_demo_accepted [of RIVR_IFACE_BLE bus_demo_io]
    by (cases "rivr_bus_receive bus_demo_env ?f 27 (meta_of RIVR_IFACE_BLE) (rivr_bus_init, bus_demo_io)") auto
  have d: "snd (protocol_decode (io_metrics bus_demo_io) ?f (of_nat 27)) =
    Some (demo_hdr\<lparr>h_magic := RIVR_MAGIC, h_version := RIVR_PROTO_VER, h_payload_len := 2\<rparr>, Some [0x68, 0x69])"
    using bus_demo_decodes by simp
  from bus_receive_mirrors [OF a d] a show ?thesis
    by (simp add: bus_demo_io_def bus_mirrors_def bus_wanted_def meta_of_def demo_hdr_def
        rivr_dispatch_is_app_relevant_def bus_demo_env_def)
qed

end
