(* ===== verification/Rivr_Airtime.thy ===== *)
theory Rivr_Airtime
  imports Rivr_Protocol Rivr_Interfaces
begin

text \<open>
  The airtime scheduler (airtime_sched.h, airtime_sched.c): a global token bucket that every
  frame but a control frame pays, and one bucket per source for relayed frames. The context
  \<open>g_airtime\<close> is the state; the operations take the frame, its length, its time on air and the time.
\<close>

abbreviation "AIRTIME_CAPACITY_US \<equiv> (10000000 :: u32)"
abbreviation "AIRTIME_REFILL_US_PER_MS \<equiv> (100 :: u32)"
abbreviation "AIRTIME_LOW_WATERMARK_US \<equiv> (1000000 :: u32)"
abbreviation "AIRTIME_NB_CAPACITY_US \<equiv> (2000000 :: u32)"
abbreviation "AIRTIME_NB_REFILL_US_PER_MS \<equiv> (20 :: u32)"
abbreviation "AIRTIME_NB_MAX \<equiv> (16 :: nat)"

datatype rivr_pkt_class_t = PKTCLASS_CONTROL | PKTCLASS_CHAT | PKTCLASS_METRICS | PKTCLASS_BULK | PKTCLASS_BEACON

record airtime_nb_bucket_t =
  an_node_id :: u32
  an_tokens_us :: u32
  an_last_refill_ms :: u32

record airtime_ctx_t =
  at_tokens_us :: u32
  at_last_refill_ms :: u32
  at_nb :: "airtime_nb_bucket_t list"

definition airtime_sched_init :: airtime_ctx_t where
  "airtime_sched_init = \<lparr>at_tokens_us = AIRTIME_CAPACITY_US, at_last_refill_ms = 0,
     at_nb = replicate AIRTIME_NB_MAX \<lparr>an_node_id = 0, an_tokens_us = 0, an_last_refill_ms = 0\<rparr>\<rparr>"

definition rivr_pkt_classify :: "u8 \<Rightarrow> rivr_pkt_class_t" where
  "rivr_pkt_classify t =
     (if t = PKT_ROUTE_REQ \<or> t = PKT_ROUTE_RPL \<or> t = PKT_ACK \<or> t = PKT_PROG_PUSH then PKTCLASS_CONTROL
      else if t = PKT_BEACON then PKTCLASS_BEACON
      else if t = PKT_CHAT then PKTCLASS_CHAT
      else if t = PKT_DATA \<or> t = PKT_TELEMETRY then PKTCLASS_METRICS
      else PKTCLASS_BULK)"

text \<open>\<open>tokens + elapsed * rate\<close> in 32 bits, capped.\<close>

definition bucket_refill :: "u32 \<Rightarrow> u32 \<Rightarrow> u32 \<Rightarrow> u32 \<Rightarrow> u32" where
  "bucket_refill cap rate tokens elapsed_ms =
     (let t = tokens + elapsed_ms * rate in if t > cap then cap else t)"

definition global_refill :: "u32 \<Rightarrow> airtime_ctx_t \<Rightarrow> airtime_ctx_t" where
  "global_refill now ctx =
     (if now = at_last_refill_ms ctx then ctx
      else ctx\<lparr>at_last_refill_ms := now,
               at_tokens_us := bucket_refill AIRTIME_CAPACITY_US AIRTIME_REFILL_US_PER_MS
                                 (at_tokens_us ctx) (now - at_last_refill_ms ctx)\<rparr>)"

definition nb_refill :: "u32 \<Rightarrow> airtime_nb_bucket_t \<Rightarrow> airtime_nb_bucket_t" where
  "nb_refill now nb =
     (if now = an_last_refill_ms nb then nb
      else nb\<lparr>an_last_refill_ms := now,
              an_tokens_us := bucket_refill AIRTIME_NB_CAPACITY_US AIRTIME_NB_REFILL_US_PER_MS
                                (an_tokens_us nb) (now - an_last_refill_ms nb)\<rparr>)"

text \<open>The search loop: \<open>Inl\<close> the slot of the source, \<open>Inr\<close> the slot to take for it.\<close>

fun nb_scan :: "u32 \<Rightarrow> nat \<Rightarrow> nat option \<Rightarrow> nat \<Rightarrow> u32 \<Rightarrow> airtime_nb_bucket_t list \<Rightarrow> nat + nat" where
  "nb_scan src i free lru lru_ts [] = Inr (case free of Some f \<Rightarrow> f | None \<Rightarrow> lru)"
| "nb_scan src i free lru lru_ts (b # bs) =
     (if an_node_id b = src then Inl i
      else nb_scan src (Suc i) (if an_node_id b = 0 \<and> free = None then Some i else free)
             (if an_last_refill_ms b < lru_ts then i else lru)
             (if an_last_refill_ms b < lru_ts then an_last_refill_ms b else lru_ts) bs)"

definition nb_get_or_alloc :: "u32 \<Rightarrow> u32 \<Rightarrow> airtime_ctx_t \<Rightarrow> nat \<times> airtime_ctx_t" where
  "nb_get_or_alloc src now ctx =
     (case nb_scan src 0 None 0 (an_last_refill_ms (at_nb ctx ! 0)) (at_nb ctx) of
        Inl i \<Rightarrow> (i, ctx)
      | Inr i \<Rightarrow> (i, ctx\<lparr>at_nb := (at_nb ctx)[i :=
           \<lparr>an_node_id = src, an_tokens_us = AIRTIME_NB_CAPACITY_US, an_last_refill_ms = now\<rparr>]\<rparr>))"

definition record_class_drop :: "rivr_pkt_class_t \<Rightarrow> rivr_metrics_t \<Rightarrow> rivr_metrics_t" where
  "record_class_drop cls m =
     (case cls of PKTCLASS_CONTROL \<Rightarrow> bump class_drops_ctrl m
      | PKTCLASS_BEACON \<Rightarrow> bump beacon_class_drop m
      | PKTCLASS_CHAT \<Rightarrow> bump class_drops_chat m
      | PKTCLASS_METRICS \<Rightarrow> bump class_drops_metrics m
      | PKTCLASS_BULK \<Rightarrow> bump class_drops_bulk m)"

definition frame_class :: "u8 list \<Rightarrow> u8 \<Rightarrow> rivr_pkt_class_t" where
  "frame_class frame len = rivr_pkt_classify (if unat len > 3 then frame ! 3 else 0)"

text \<open>The source a relayed frame is charged to.\<close>

definition relay_source :: "u8 list \<Rightarrow> u8 \<Rightarrow> u32 option" where
  "relay_source frame len =
     (if len > 12 \<and> frame ! 4 AND PKT_FLAG_RELAY \<noteq> 0 \<and> get_u32 (frame ! 9) (frame ! 10) (frame ! 11) (frame ! 12) \<noteq> 0
      then Some (get_u32 (frame ! 9) (frame ! 10) (frame ! 11) (frame ! 12)) else None)"

text \<open>Charging one source: refill, then take the airtime if there is enough.\<close>

definition nb_charge :: "u32 \<Rightarrow> u32 \<Rightarrow> airtime_nb_bucket_t \<Rightarrow> bool \<times> airtime_nb_bucket_t" where
  "nb_charge toa now b =
     (let nb = nb_refill now b in
      if an_tokens_us nb < toa then (False, nb) else (True, nb\<lparr>an_tokens_us := an_tokens_us nb - toa\<rparr>))"

definition airtime_sched_check_consume ::
  "rivr_metrics_t \<Rightarrow> airtime_ctx_t \<Rightarrow> u8 list \<Rightarrow> u8 \<Rightarrow> u32 \<Rightarrow> u32 \<Rightarrow> rivr_metrics_t \<times> airtime_ctx_t \<times> bool"
where
  "airtime_sched_check_consume m ctx frame len toa now =
     (let cls = frame_class frame len in
      if cls = PKTCLASS_CONTROL then (m, ctx, True)
      else
        let ctx1 = global_refill now ctx in
        if at_tokens_us ctx1 < toa then (record_class_drop cls m, ctx1, False)
        else
          let ctx2 = ctx1\<lparr>at_tokens_us := at_tokens_us ctx1 - toa\<rparr>;
              m2 = (if at_tokens_us ctx2 < AIRTIME_LOW_WATERMARK_US then bump airtime_tokens_low m else m)
          in case relay_source frame len of
            None \<Rightarrow> (m2, ctx2, True)
          | Some src \<Rightarrow>
              (case nb_get_or_alloc src now ctx2 of
                 (i, ctx3) \<Rightarrow>
                   let (enough, nb) = nb_charge toa now (at_nb ctx3 ! i);
                       ctx4 = ctx3\<lparr>at_nb := (at_nb ctx3)[i := nb]\<rparr>
                   in if \<not> enough then
                        let restored = at_tokens_us ctx4 + toa in
                        (record_class_drop cls m2,
                         ctx4\<lparr>at_tokens_us := (if restored > AIRTIME_CAPACITY_US then AIRTIME_CAPACITY_US else restored)\<rparr>,
                         False)
                      else (m2, ctx4, True)))"

section \<open>Refilling\<close>

lemma bucket_refill_le:
  "unat (bucket_refill cap rate t e) \<le> unat cap" "unat (bucket_refill cap rate t e) \<le> unat t + unat rate * unat e"
proof -
  have "unat (t + e * rate) \<le> unat t + unat (e * rate)" by (rule unat_add_le)
  also have "unat (e * rate) \<le> unat rate * unat e" using unat_mult_le [of e rate] by (simp add: mult.commute)
  finally have le: "unat (t + e * rate) \<le> unat t + unat rate * unat e" by simp
  show "unat (bucket_refill cap rate t e) \<le> unat cap"
    by (simp add: bucket_refill_def Let_def word_le_nat_alt not_less)
  show "unat (bucket_refill cap rate t e) \<le> unat t + unat rate * unat e"
  proof (cases "t + e * rate > cap")
    case True
    then have "unat cap \<le> unat (t + e * rate)" by (simp add: word_less_nat_alt)
    with True le show ?thesis by (simp add: bucket_refill_def Let_def)
  qed (use le in \<open>simp add: bucket_refill_def Let_def\<close>)
qed

text \<open>As long as nothing wraps, the refill is the exact capped amount.\<close>

lemma bucket_refill_exact:
  assumes "unat t + unat rate * unat e < 2 ^ 32"
  shows "unat (bucket_refill cap rate t e) = min (unat cap) (unat t + unat rate * unat e)"
proof -
  have m: "unat (e * rate) = unat e * unat rate" using assms by (simp add: unat_word_ariths mult.commute)
  have "unat (t + e * rate) = unat t + unat rate * unat e"
    using assms by (subst word_add_no_wrap) (simp_all only: m, simp_all add: mult.commute)
  then show ?thesis by (simp add: bucket_refill_def Let_def word_less_nat_alt min_def)
qed

section \<open>The context invariant\<close>

definition airtime_ok :: "airtime_ctx_t \<Rightarrow> bool" where
  "airtime_ok ctx \<longleftrightarrow> length (at_nb ctx) = AIRTIME_NB_MAX \<and> at_tokens_us ctx \<le> AIRTIME_CAPACITY_US \<and>
     (\<forall>b \<in> set (at_nb ctx). an_tokens_us b \<le> AIRTIME_NB_CAPACITY_US) \<and>
     (\<forall>i < AIRTIME_NB_MAX. \<forall>j < AIRTIME_NB_MAX. an_node_id (at_nb ctx ! i) = an_node_id (at_nb ctx ! j) \<longrightarrow>
        an_node_id (at_nb ctx ! i) \<noteq> 0 \<longrightarrow> i = j)"

lemma airtime_sched_init_ok: "airtime_ok airtime_sched_init"
  by (simp add: airtime_ok_def airtime_sched_init_def)

lemma nb_scan_Inl: "nb_scan src k free lru ts bs = Inl i \<Longrightarrow> k \<le> i \<and> i < k + length bs \<and> an_node_id (bs ! (i - k)) = src"
proof (induction bs arbitrary: k free lru ts)
  case (Cons b bs)
  show ?case
  proof (cases "an_node_id b = src")
    case False
    with Cons.IH [OF Cons.prems [simplified, simplified False if_False]] show ?thesis by (auto simp: nth_Cons' Suc_diff_le)
  qed (use Cons.prems in auto)
qed simp

lemma nb_scan_Inr:
  "nb_scan src k free lru ts bs = Inr i \<Longrightarrow> (\<forall>b \<in> set bs. an_node_id b \<noteq> src) \<and>
     (i \<in> set_option free \<or> i = lru \<or> k \<le> i \<and> i < k + length bs)"
proof (induction bs arbitrary: k free lru ts)
  case (Cons b bs)
  then have ne: "an_node_id b \<noteq> src" by (auto split: if_splits)
  with Cons.IH [OF Cons.prems [simplified, simplified ne if_False]] show ?case by (auto split: if_splits)
qed (auto split: option.splits)

lemma airtime_ok_nb:
  assumes "airtime_ok ctx" "i < AIRTIME_NB_MAX" "an_tokens_us b \<le> AIRTIME_NB_CAPACITY_US"
    and "an_node_id b = an_node_id (at_nb ctx ! i) \<or> (\<forall>j < AIRTIME_NB_MAX. an_node_id (at_nb ctx ! j) \<noteq> an_node_id b)"
  shows "airtime_ok (ctx\<lparr>at_nb := (at_nb ctx)[i := b]\<rparr>)"
proof -
  let ?nb = "at_nb ctx" and ?nb' = "(at_nb ctx)[i := b]"
  have len: "length ?nb = AIRTIME_NB_MAX" and t: "\<forall>b \<in> set ?nb. an_tokens_us b \<le> AIRTIME_NB_CAPACITY_US"
    and u: "\<And>j k. j < AIRTIME_NB_MAX \<Longrightarrow> k < AIRTIME_NB_MAX \<Longrightarrow> an_node_id (?nb ! j) = an_node_id (?nb ! k) \<Longrightarrow>
      an_node_id (?nb ! j) \<noteq> 0 \<Longrightarrow> j = k"
    using assms(1) by (simp_all add: airtime_ok_def)
  have "\<forall>x \<in> set ?nb'. an_tokens_us x \<le> AIRTIME_NB_CAPACITY_US"
    using t assms(3) set_update_subset_insert [of ?nb i b] by blast
  moreover have "j = k" if j: "j < AIRTIME_NB_MAX" and k: "k < AIRTIME_NB_MAX"
    and eq: "an_node_id (?nb' ! j) = an_node_id (?nb' ! k)" and nz: "an_node_id (?nb' ! j) \<noteq> 0" for j k
  proof (cases "an_node_id b = an_node_id (?nb ! i)")
    case True
    then have "an_node_id (?nb' ! l) = an_node_id (?nb ! l)" if "l < AIRTIME_NB_MAX" for l
      using that len by (cases "l = i") simp_all
    with u j k eq nz show ?thesis by simp
  next
    case False
    with assms(4) have fresh: "\<And>l. l < AIRTIME_NB_MAX \<Longrightarrow> an_node_id (?nb ! l) \<noteq> an_node_id b" by blast
    show ?thesis
    proof (cases "j = i \<or> k = i")
      case True
      with eq fresh j k len show ?thesis by (metis nth_list_update)
    next
      case False
      with eq nz u j k len show ?thesis by simp
    qed
  qed
  ultimately show ?thesis using assms(1) len by (simp add: airtime_ok_def)
qed

text \<open>What a source has left at a given time: the capacity if it has no bucket yet.\<close>

definition source_tokens :: "u32 \<Rightarrow> u32 \<Rightarrow> airtime_ctx_t \<Rightarrow> u32" where
  "source_tokens src now ctx =
     (case find_idx (\<lambda>b. an_node_id b = src) (at_nb ctx) of
        None \<Rightarrow> AIRTIME_NB_CAPACITY_US
      | Some i \<Rightarrow> an_tokens_us (nb_refill now (at_nb ctx ! i)))"

lemma nb_scan_find:
  "nb_scan src k free lru ts bs = Inl i \<Longrightarrow> find_idx (\<lambda>b. an_node_id b = src) bs = Some (i - k) \<and> k \<le> i"
proof (induction bs arbitrary: k free lru ts)
  case (Cons b bs)
  show ?case
  proof (cases "an_node_id b = src")
    case False
    with Cons.IH [OF Cons.prems [simplified, simplified False if_False]] show ?thesis by (auto simp: Suc_diff_le)
  qed (use Cons.prems in auto)
qed simp

lemma nb_get_or_alloc_spec:
  assumes ok: "airtime_ok ctx" and src: "src \<noteq> 0" and run: "nb_get_or_alloc src now ctx = (i, ctx')"
  shows "i < AIRTIME_NB_MAX" "airtime_ok ctx'" "an_node_id (at_nb ctx' ! i) = src"
    "at_tokens_us ctx' = at_tokens_us ctx" "at_last_refill_ms ctx' = at_last_refill_ms ctx"
    "an_tokens_us (nb_refill now (at_nb ctx' ! i)) = source_tokens src now ctx"
proof -
  have len: "length (at_nb ctx) = AIRTIME_NB_MAX" using ok by (simp add: airtime_ok_def)
  let ?scan = "nb_scan src 0 None 0 (an_last_refill_ms (at_nb ctx ! 0)) (at_nb ctx)"
  have "i < AIRTIME_NB_MAX \<and> airtime_ok ctx' \<and> an_node_id (at_nb ctx' ! i) = src \<and>
    at_tokens_us ctx' = at_tokens_us ctx \<and> at_last_refill_ms ctx' = at_last_refill_ms ctx \<and>
    an_tokens_us (nb_refill now (at_nb ctx' ! i)) = source_tokens src now ctx"
  proof (cases ?scan)
    case (Inl k)
    then have "i = k" "ctx' = ctx" using run by (simp_all add: nb_get_or_alloc_def)
    with nb_scan_Inl [OF Inl] nb_scan_find [OF Inl] ok len show ?thesis by (simp add: source_tokens_def)
  next
    case (Inr k)
    then have i: "i = k" "ctx' = ctx\<lparr>at_nb := (at_nb ctx)[k :=
        \<lparr>an_node_id = src, an_tokens_us = AIRTIME_NB_CAPACITY_US, an_last_refill_ms = now\<rparr>]\<rparr>"
      using run by (auto simp: nb_get_or_alloc_def)
    note sc = nb_scan_Inr [OF Inr]
    have k: "k < AIRTIME_NB_MAX" using sc len by auto
    have "find_idx (\<lambda>b. an_node_id b = src) (at_nb ctx) = None" using sc by (simp add: find_idx_None)
    moreover have "airtime_ok ctx'" unfolding i(2) using sc len by (intro airtime_ok_nb [OF ok k]) auto
    ultimately show ?thesis using i k len by (simp add: source_tokens_def nb_refill_def)
  qed
  then show "i < AIRTIME_NB_MAX" "airtime_ok ctx'" "an_node_id (at_nb ctx' ! i) = src"
    "at_tokens_us ctx' = at_tokens_us ctx" "at_last_refill_ms ctx' = at_last_refill_ms ctx"
    "an_tokens_us (nb_refill now (at_nb ctx' ! i)) = source_tokens src now ctx" by simp_all
qed

lemma global_refill_ok: "airtime_ok ctx \<Longrightarrow> airtime_ok (global_refill now ctx)"
  using bucket_refill_le(1) [of AIRTIME_CAPACITY_US AIRTIME_REFILL_US_PER_MS "at_tokens_us ctx" "now - at_last_refill_ms ctx"]
  by (auto simp: airtime_ok_def global_refill_def word_le_nat_alt)

lemma nb_refill_same [simp]: "an_node_id (nb_refill now b) = an_node_id b"
  by (simp add: nb_refill_def)

lemma nb_refill_le: "an_tokens_us b \<le> AIRTIME_NB_CAPACITY_US \<Longrightarrow> an_tokens_us (nb_refill now b) \<le> AIRTIME_NB_CAPACITY_US"
  using bucket_refill_le(1) [of AIRTIME_NB_CAPACITY_US AIRTIME_NB_REFILL_US_PER_MS "an_tokens_us b" "now - an_last_refill_ms b"]
  by (simp add: nb_refill_def word_le_nat_alt)

lemma source_tokens_tokens [simp]: "source_tokens src now (ctx\<lparr>at_tokens_us := t\<rparr>) = source_tokens src now ctx"
  by (simp add: source_tokens_def split: option.split)

lemma source_tokens_refill [simp]: "source_tokens src now (global_refill t ctx) = source_tokens src now ctx"
  by (simp add: source_tokens_def global_refill_def split: option.split)

text \<open>Whether a frame is admitted, and what the gate does to the global balance.\<close>

definition airtime_admits :: "airtime_ctx_t \<Rightarrow> u8 list \<Rightarrow> u8 \<Rightarrow> u32 \<Rightarrow> u32 \<Rightarrow> bool" where
  "airtime_admits ctx frame len toa now \<longleftrightarrow>
     frame_class frame len = PKTCLASS_CONTROL \<or>
     toa \<le> at_tokens_us (global_refill now ctx) \<and>
     (case relay_source frame len of None \<Rightarrow> True | Some src \<Rightarrow> toa \<le> source_tokens src now ctx)"

lemma check_consume_spec:
  assumes ok: "airtime_ok ctx" and run: "airtime_sched_check_consume m ctx frame len toa now = (m', ctx', adm)"
  shows "airtime_ok ctx' \<and> (adm \<longleftrightarrow> airtime_admits ctx frame len toa now) \<and>
    (if frame_class frame len = PKTCLASS_CONTROL then ctx' = ctx \<and> m' = m
     else at_last_refill_ms ctx' = at_last_refill_ms (global_refill now ctx) \<and>
       at_tokens_us ctx' = (if adm then at_tokens_us (global_refill now ctx) - toa else at_tokens_us (global_refill now ctx)))"
proof (cases "frame_class frame len = PKTCLASS_CONTROL")
  case True
  with run ok show ?thesis by (simp add: airtime_sched_check_consume_def airtime_admits_def)
next
  case nc: False
  let ?c1 = "global_refill now ctx"
  have ok1: "airtime_ok ?c1" using ok by (rule global_refill_ok)
  show ?thesis
  proof (cases "at_tokens_us ?c1 < toa")
    case True
    then have "\<not> toa \<le> at_tokens_us ?c1" by simp
    with True run nc ok1 show ?thesis by (auto simp: airtime_sched_check_consume_def airtime_admits_def)
  next
    case False
    let ?c2 = "?c1\<lparr>at_tokens_us := at_tokens_us ?c1 - toa\<rparr>"
    have "unat (at_tokens_us ?c1 - toa) \<le> unat (at_tokens_us ?c1)" using False by (simp add: unat_sub_le not_less)
    then have ok2: "airtime_ok ?c2" using ok1 by (auto simp: airtime_ok_def word_le_nat_alt)
    show ?thesis
    proof (cases "relay_source frame len")
      case None
      with run nc False ok2 show ?thesis by (auto simp: airtime_sched_check_consume_def airtime_admits_def Let_def)
    next
      case (Some src)
      then have src: "src \<noteq> 0" by (auto simp: relay_source_def split: if_splits)
      obtain i c3 where al: "nb_get_or_alloc src now ?c2 = (i, c3)" by fastforce
      note g = nb_get_or_alloc_spec [OF ok2 src al]
      let ?nb = "nb_refill now (at_nb c3 ! i)"
      have tok: "an_tokens_us ?nb = source_tokens src now ctx" using g(6) by simp
      have le: "an_tokens_us ?nb \<le> AIRTIME_NB_CAPACITY_US" using g(1,2) by (intro nb_refill_le) (simp add: airtime_ok_def)
      show ?thesis
      proof (cases "an_tokens_us ?nb < toa")
        case True
        have "at_tokens_us c3 + toa = at_tokens_us ?c1" using g(4) by simp
        moreover have "\<not> at_tokens_us ?c1 > AIRTIME_CAPACITY_US" using ok1 by (auto simp: airtime_ok_def not_less)
        ultimately have ctx': "ctx' = (c3\<lparr>at_nb := (at_nb c3)[i := ?nb]\<rparr>)\<lparr>at_tokens_us := at_tokens_us ?c1\<rparr>" "adm = False"
          using run nc False Some al True by (simp_all add: airtime_sched_check_consume_def nb_charge_def Let_def)
        have "airtime_ok (c3\<lparr>at_nb := (at_nb c3)[i := ?nb]\<rparr>)" using g(2,1) le by (rule airtime_ok_nb) simp
        then have "airtime_ok ctx'" using ok1 unfolding ctx' by (simp add: airtime_ok_def)
        moreover have "\<not> toa \<le> source_tokens src now ctx" using True tok by simp
        ultimately show ?thesis using ctx' nc Some g(5) by (simp add: airtime_admits_def)
      next
        case adm: False
        have ctx': "ctx' = c3\<lparr>at_nb := (at_nb c3)[i := ?nb\<lparr>an_tokens_us := an_tokens_us ?nb - toa\<rparr>]\<rparr>" "adm = True"
          using run nc False Some al adm by (simp_all add: airtime_sched_check_consume_def nb_charge_def Let_def split: if_splits)
        have "unat (an_tokens_us ?nb - toa) \<le> unat (an_tokens_us ?nb)" using adm by (simp add: unat_sub_le not_less)
        then have "an_tokens_us ?nb - toa \<le> AIRTIME_NB_CAPACITY_US" using le by (simp add: word_le_nat_alt)
        then have "airtime_ok ctx'" unfolding ctx' by (intro airtime_ok_nb [OF g(2,1)]) simp_all
        moreover have "toa \<le> at_tokens_us ?c1" "toa \<le> source_tokens src now ctx" using False adm tok by simp_all
        ultimately show ?thesis using ctx' nc Some g(4,5) by (simp add: airtime_admits_def)
      qed
    qed
  qed
qed

section \<open>The buckets as token buckets\<close>

type_synonym airtime_call = "u8 list \<times> u8 \<times> u32 \<times> u32"

definition airtime_step :: "airtime_call \<Rightarrow> airtime_ctx_t \<Rightarrow> airtime_ctx_t" where
  "airtime_step k ctx = (case k of (frame, len, toa, now) \<Rightarrow>
     fst (snd (airtime_sched_check_consume metrics_zero ctx frame len toa now)))"

text \<open>The airtime of a budgeted frame that is admitted, and the time since the last refill.\<close>

definition airtime_spends :: "airtime_call \<Rightarrow> airtime_ctx_t \<Rightarrow> nat" where
  "airtime_spends k ctx = (case k of (frame, len, toa, now) \<Rightarrow>
     if frame_class frame len \<noteq> PKTCLASS_CONTROL \<and> snd (snd (airtime_sched_check_consume metrics_zero ctx frame len toa now))
     then unat toa else 0)"

definition airtime_elapsed :: "airtime_call \<Rightarrow> airtime_ctx_t \<Rightarrow> nat" where
  "airtime_elapsed k ctx = (case k of (frame, len, toa, now) \<Rightarrow>
     if frame_class frame len = PKTCLASS_CONTROL then 0 else unat (now - at_last_refill_ms ctx))"

lemma global_refill_le: "unat (at_tokens_us (global_refill now ctx)) \<le> unat (at_tokens_us ctx) + 100 * unat (now - at_last_refill_ms ctx)"
  using bucket_refill_le(2) [of AIRTIME_CAPACITY_US AIRTIME_REFILL_US_PER_MS "at_tokens_us ctx" "now - at_last_refill_ms ctx"]
  by (simp add: global_refill_def)

interpretation airtime_bucket: token_bucket airtime_ok "\<lambda>ctx. unat (at_tokens_us ctx)" 10000000 100
  airtime_step airtime_elapsed airtime_spends
proof unfold_locales
  fix s :: airtime_ctx_t and a :: airtime_call
  assume ok: "airtime_ok s"
  obtain frame len toa now where a: "a = (frame, len, toa, now)" by (cases a)
  obtain m' ctx' adm where run: "airtime_sched_check_consume metrics_zero s frame len toa now = (m', ctx', adm)"
    by (cases "airtime_sched_check_consume metrics_zero s frame len toa now")
  note spec = check_consume_spec [OF ok run]
  show "airtime_ok (airtime_step a s)" using spec run by (simp add: a airtime_step_def)
  show "unat (at_tokens_us s) \<le> 10000000" using ok by (simp add: airtime_ok_def word_le_nat_alt)
  show "airtime_spends a s + unat (at_tokens_us (airtime_step a s)) \<le> unat (at_tokens_us s) + 100 * airtime_elapsed a s"
  proof (cases "frame_class frame len = PKTCLASS_CONTROL")
    case True
    with spec run show ?thesis by (simp add: a airtime_step_def airtime_spends_def airtime_elapsed_def)
  next
    case False
    have "adm \<Longrightarrow> unat toa + unat (at_tokens_us (global_refill now s) - toa) = unat (at_tokens_us (global_refill now s))"
      using spec False by (simp add: airtime_admits_def unat_sub_le word_le_nat_alt)
    with spec run False global_refill_le [of now s] show ?thesis
      by (auto simp: a airtime_step_def airtime_spends_def airtime_elapsed_def)
  qed
qed

interpretation nb_bucket: token_bucket "\<lambda>b. an_tokens_us b \<le> AIRTIME_NB_CAPACITY_US" "\<lambda>b. unat (an_tokens_us b)" 2000000 20
  "\<lambda>(toa, now) b. snd (nb_charge toa now b)" "\<lambda>(toa, now) b. unat (now - an_last_refill_ms b)"
  "\<lambda>(toa, now) b. if fst (nb_charge toa now b) then unat toa else 0"
proof unfold_locales
  fix s :: airtime_nb_bucket_t and a :: "u32 \<times> u32"
  assume ok: "an_tokens_us s \<le> AIRTIME_NB_CAPACITY_US"
  obtain toa now where a: "a = (toa, now)" by (cases a)
  have le: "an_tokens_us (nb_refill now s) \<le> AIRTIME_NB_CAPACITY_US" using ok by (rule nb_refill_le)
  have r: "unat (an_tokens_us (nb_refill now s)) \<le> unat (an_tokens_us s) + 20 * unat (now - an_last_refill_ms s)"
    using bucket_refill_le(2) [of AIRTIME_NB_CAPACITY_US AIRTIME_NB_REFILL_US_PER_MS "an_tokens_us s" "now - an_last_refill_ms s"]
    by (simp add: nb_refill_def)
  have sub: "\<not> an_tokens_us (nb_refill now s) < toa \<Longrightarrow>
      unat (an_tokens_us (nb_refill now s) - toa) = unat (an_tokens_us (nb_refill now s)) - unat toa"
    by (simp add: unat_sub_le not_less)
  show "an_tokens_us ((\<lambda>(toa, now) b. snd (nb_charge toa now b)) a s) \<le> AIRTIME_NB_CAPACITY_US"
    using le sub by (auto simp: a nb_charge_def Let_def word_le_nat_alt)
  show "unat (an_tokens_us s) \<le> 2000000" using ok by (simp add: word_le_nat_alt)
  show "(\<lambda>(toa, now) b. if fst (nb_charge toa now b) then unat toa else 0) a s +
      unat (an_tokens_us ((\<lambda>(toa, now) b. snd (nb_charge toa now b)) a s)) \<le>
      unat (an_tokens_us s) + 20 * (\<lambda>(toa, now) b. unat (now - an_last_refill_ms b)) a s"
    using r sub by (auto simp: a nb_charge_def Let_def word_less_nat_alt)
qed

text \<open>With times that do not run backwards, the elapsed times of a run add up to at most its length.\<close>

definition call_time :: "airtime_call \<Rightarrow> nat" where
  "call_time k = (case k of (frame, len, toa, now) \<Rightarrow> unat now)"

lemma airtime_elapsed_total:
  "airtime_ok ctx \<Longrightarrow> sorted (unat (at_last_refill_ms ctx) # map call_time calls @ [T]) \<Longrightarrow>
   run_sum airtime_step airtime_elapsed calls ctx + unat (at_last_refill_ms ctx) \<le> T"
proof (induction calls arbitrary: ctx)
  case (Cons k calls)
  obtain frame len toa now where k: "k = (frame, len, toa, now)" by (cases k)
  obtain m' ctx' adm where run: "airtime_sched_check_consume metrics_zero ctx frame len toa now = (m', ctx', adm)"
    by (cases "airtime_sched_check_consume metrics_zero ctx frame len toa now")
  note spec = check_consume_spec [OF Cons.prems(1) run]
  have step: "airtime_step k ctx = ctx'" using run by (simp add: k airtime_step_def)
  have le: "unat (at_last_refill_ms ctx) \<le> unat now" and srt: "sorted (unat now # map call_time calls @ [T])"
    and srt': "sorted (unat (at_last_refill_ms ctx) # map call_time calls @ [T])"
    using Cons.prems(2) call_time_def [of k] k by auto
  show ?case
  proof (cases "frame_class frame len = PKTCLASS_CONTROL")
    case True
    then have "airtime_elapsed k ctx = 0" "ctx' = ctx" using spec by (simp_all add: k airtime_elapsed_def)
    with Cons.IH [OF Cons.prems(1) srt'] show ?thesis by (simp add: step)
  next
    case False
    then have last: "at_last_refill_ms ctx' = now" using spec by (simp add: global_refill_def)
    have "airtime_elapsed k ctx = unat now - unat (at_last_refill_ms ctx)"
      using False le by (simp add: k airtime_elapsed_def unat_sub_le word_le_nat_alt)
    with Cons.IH [of ctx'] spec srt last le show ?thesis by (simp add: step)
  qed
qed simp

section \<open>Properties\<close>

text \<open>C15: The gate keeps the channel share. From any consistent state, whatever frames are offered at
  times that do not run backwards, the airtime of the budgeted frames admitted up to time \<open>T\<close> is at
  most the balance at the start plus 100 us per elapsed millisecond (10 percent), and the balance
  never exceeds 10 s.\<close>

theorem airtime_budget_bounds_traffic:
  assumes "airtime_ok ctx" "sorted (unat (at_last_refill_ms ctx) # map call_time calls @ [T])"
  shows "run_sum airtime_step airtime_spends calls ctx \<le>
           unat (at_tokens_us ctx) + 100 * (T - unat (at_last_refill_ms ctx)) \<and>
         unat (at_tokens_us (fold airtime_step calls ctx)) \<le> 10000000"
proof
  have "run_sum airtime_step airtime_elapsed calls ctx \<le> T - unat (at_last_refill_ms ctx)"
    using airtime_elapsed_total [OF assms] by linarith
  with airtime_bucket.spent [OF assms(1), of calls]
  show "run_sum airtime_step airtime_spends calls ctx \<le> unat (at_tokens_us ctx) + 100 * (T - unat (at_last_refill_ms ctx))"
    by linarith
  show "unat (at_tokens_us (fold airtime_step calls ctx)) \<le> 10000000"
    using airtime_bucket.within [OF airtime_bucket.wf_run [OF assms(1)]] .
qed

lemma airtime_budget_bounds_traffic_witness:
  "run_sum airtime_step airtime_spends [([0, 0, 0, 1], 4, 6000000, 5), ([0, 0, 0, 1], 4, 6000000, 10)] airtime_sched_init
     \<le> 10001000"
  using airtime_budget_bounds_traffic [OF airtime_sched_init_ok,
      of "[([0, 0, 0, 1], 4, 6000000, 5), ([0, 0, 0, 1], 4, 6000000, 10)]" 10]
  by (simp add: airtime_sched_init_def call_time_def)

text \<open>The gate decides exactly as documented. A control frame passes and changes nothing; any
  other frame passes exactly if the refilled global balance covers its airtime and, if it is
  relayed for a known source, that source's refilled balance covers it too; a frame that passes
  pays, one that does not leaves the refilled global balance as it was. The context stays
  consistent, with one bucket per source.\<close>

theorem airtime_gate_exact:
  assumes "airtime_ok ctx" "airtime_sched_check_consume m ctx frame len toa now = (m', ctx', adm)"
  shows "airtime_ok ctx' \<and>
    (if frame_class frame len = PKTCLASS_CONTROL then adm \<and> ctx' = ctx \<and> m' = m
     else (adm \<longleftrightarrow> toa \<le> at_tokens_us (global_refill now ctx) \<and>
             (case relay_source frame len of None \<Rightarrow> True | Some src \<Rightarrow> toa \<le> source_tokens src now ctx)) \<and>
          at_tokens_us ctx' = (if adm then at_tokens_us (global_refill now ctx) - toa else at_tokens_us (global_refill now ctx)))"
  using check_consume_spec [OF assms] by (auto simp: airtime_admits_def)

lemma airtime_gate_exact_witness:
  "snd (snd (airtime_sched_check_consume metrics_zero airtime_sched_init [0, 0, 0, 1] 4 10000001 0)) = False"
proof -
  obtain m' ctx' adm where run: "airtime_sched_check_consume metrics_zero airtime_sched_init [0, 0, 0, 1] 4 10000001 0 = (m', ctx', adm)"
    by (cases "airtime_sched_check_consume metrics_zero airtime_sched_init [0, 0, 0, 1] 4 10000001 0")
  from airtime_gate_exact [OF airtime_sched_init_ok run] show ?thesis
    unfolding run by (simp add: frame_class_def rivr_pkt_classify_def global_refill_def airtime_sched_init_def)
qed

text \<open>
  The refill product wraps after about 11.9 hours without a budgeted frame: an empty bucket that
  has been idle for 42949673 ms gets 4 us instead of its full capacity. The wrap only ever loses
  tokens, which is why the bound above needs no assumption on the idle time.
\<close>

lemma global_refill_wraps:
  "at_tokens_us ctx = 0 \<Longrightarrow> at_tokens_us (global_refill (at_last_refill_ms ctx + 42949673) ctx) = 4"
  by (simp add: global_refill_def bucket_refill_def)

end
