(* ===== verification/Rivr_DutyCycle.thy ===== *)
theory Rivr_DutyCycle
  imports Rivr_Metrics "HOL-Library.Multiset"
begin

text \<open>
  The regulatory duty-cycle limiter (dutycycle.h, dutycycle.c): a history of at most 512
  transmissions with the running sum of their airtime, from which entries older than an hour are
  expired, and a budget of 10 percent of the hour. The main loop checks, transmits, and records
  with the time the transmission ended; \<open>dc_send\<close> is that sequence for one frame.
\<close>

abbreviation "DC_WINDOW_MS \<equiv> (3600000 :: u32)"
abbreviation "DC_BUDGET_US \<equiv> (360000000 :: u64)"
abbreviation "DC_HISTORY_CAP \<equiv> (512 :: nat)"

record dc_tx_record_t =
  dr_tx_end_ms :: u32
  dr_toa_us :: u32

record dc_ctx_t =
  dy_history :: "dc_tx_record_t list"
  dy_head :: u32
  dy_used_us :: u64
  dy_total_blocked_us :: u64
  dy_blocked_count :: u32

definition dc_record_zero :: dc_tx_record_t where
  "dc_record_zero = \<lparr>dr_tx_end_ms = 0, dr_toa_us = 0\<rparr>"

definition dutycycle_init :: dc_ctx_t where
  "dutycycle_init = \<lparr>dy_history = replicate DC_HISTORY_CAP dc_record_zero, dy_head = 0, dy_used_us = 0,
     dy_total_blocked_us = 0, dy_blocked_count = 0\<rparr>"

fun expire_loop :: "u32 \<Rightarrow> u64 \<Rightarrow> dc_tx_record_t list \<Rightarrow> u64 \<times> dc_tx_record_t list" where
  "expire_loop now used [] = (used, [])"
| "expire_loop now used (r # rs) =
     (if dr_tx_end_ms r = 0 then (case expire_loop now used rs of (u, rs') \<Rightarrow> (u, r # rs'))
      else if now - dr_tx_end_ms r > DC_WINDOW_MS then
        (case expire_loop now (used - ucast (dr_toa_us r)) rs of (u, rs') \<Rightarrow> (u, dc_record_zero # rs'))
      else (case expire_loop now used rs of (u, rs') \<Rightarrow> (u, r # rs')))"

definition expire_old :: "u32 \<Rightarrow> dc_ctx_t \<Rightarrow> dc_ctx_t" where
  "expire_old now dc = (case expire_loop now (dy_used_us dc) (dy_history dc) of
     (used, h) \<Rightarrow> dc\<lparr>dy_history := h, dy_used_us := used\<rparr>)"

definition dutycycle_check :: "rivr_metrics_t \<Rightarrow> dc_ctx_t \<Rightarrow> u32 \<Rightarrow> u32 \<Rightarrow> rivr_metrics_t \<times> dc_ctx_t \<times> bool" where
  "dutycycle_check m dc now toa =
     (let dc1 = expire_old now dc in
      if dy_used_us dc1 + ucast toa \<le> DC_BUDGET_US then (m, dc1, True)
      else (bump duty_blocked m,
            dc1\<lparr>dy_blocked_count := dy_blocked_count dc1 + 1,
                dy_total_blocked_us := dy_total_blocked_us dc1 + ucast toa\<rparr>, False))"

text \<open>The search loop: \<open>Inl\<close> a free slot, \<open>Inr\<close> the oldest entry seen.\<close>

fun dc_scan :: "u32 \<Rightarrow> dc_tx_record_t list \<Rightarrow> nat \<Rightarrow> u32 \<Rightarrow> nat list \<Rightarrow> nat + nat" where
  "dc_scan now h lru lru_age [] = Inr lru"
| "dc_scan now h lru lru_age (i # is) =
     (if dr_tx_end_ms (h ! i) = 0 then Inl i
      else if now - dr_tx_end_ms (h ! i) > lru_age
        then dc_scan now h i (now - dr_tx_end_ms (h ! i)) is
        else dc_scan now h lru lru_age is)"

definition dc_indices :: "u32 \<Rightarrow> nat list" where
  "dc_indices slot = map (\<lambda>i. unat ((slot + of_nat i) AND 511)) [0..<DC_HISTORY_CAP]"

definition dutycycle_record :: "dc_ctx_t \<Rightarrow> u32 \<Rightarrow> u32 \<Rightarrow> dc_ctx_t" where
  "dutycycle_record dc now toa =
     (let dc1 = expire_old now dc;
          (i, used) = (case dc_scan now (dy_history dc1) 0 0 (dc_indices (dy_head dc1)) of
             Inl f \<Rightarrow> (f, dy_used_us dc1)
           | Inr l \<Rightarrow>
               (l, if dy_used_us dc1 \<ge> ucast (dr_toa_us (dy_history dc1 ! l))
                   then dy_used_us dc1 - ucast (dr_toa_us (dy_history dc1 ! l)) else 0))
      in dc1\<lparr>dy_history := (dy_history dc1)[i :=
               \<lparr>dr_tx_end_ms = (if now \<noteq> 0 then now else 1), dr_toa_us = toa\<rparr>],
             dy_head := (of_nat i + 1) AND 511, dy_used_us := used + ucast toa\<rparr>)"

definition dutycycle_remaining_us :: "dc_ctx_t \<Rightarrow> u64" where
  "dutycycle_remaining_us dc = (if dy_used_us dc \<ge> DC_BUDGET_US then 0 else DC_BUDGET_US - dy_used_us dc)"

definition dc_send :: "rivr_metrics_t \<Rightarrow> dc_ctx_t \<Rightarrow> u32 \<Rightarrow> u32 \<Rightarrow> u32 \<Rightarrow> rivr_metrics_t \<times> dc_ctx_t \<times> bool" where
  "dc_send m dc now t_end toa =
     (case dutycycle_check m dc now toa of
        (m1, dc1, ok) \<Rightarrow> (m1, if ok then dutycycle_record dc1 t_end toa else dc1, ok))"

section \<open>The records in use\<close>

definition dr_used :: "dc_tx_record_t \<Rightarrow> bool" where
  "dr_used r \<longleftrightarrow> dr_tx_end_ms r \<noteq> 0"

definition dr_fresh :: "u32 \<Rightarrow> dc_tx_record_t \<Rightarrow> bool" where
  "dr_fresh now r \<longleftrightarrow> now - dr_tx_end_ms r \<le> DC_WINDOW_MS"

definition dc_active :: "dc_ctx_t \<Rightarrow> dc_tx_record_t multiset" where
  "dc_active dc = mset (filter dr_used (dy_history dc))"

definition airtime_sum :: "dc_tx_record_t multiset \<Rightarrow> nat" where
  "airtime_sum M = sum_mset (image_mset (\<lambda>r. unat (dr_toa_us r)) M)"

definition dc_ok :: "dc_ctx_t \<Rightarrow> bool" where
  "dc_ok dc \<longleftrightarrow> length (dy_history dc) = DC_HISTORY_CAP \<and> unat (dy_used_us dc) = airtime_sum (dc_active dc)"

lemma airtime_sum_simps [simp]:
  "airtime_sum {#} = 0" "airtime_sum (add_mset r M) = unat (dr_toa_us r) + airtime_sum M"
  "airtime_sum (M + N) = airtime_sum M + airtime_sum N"
  by (simp_all add: airtime_sum_def)

lemma airtime_sum_mono: "M \<subseteq># N \<Longrightarrow> airtime_sum M \<le> airtime_sum N"
  by (metis airtime_sum_simps(3) le_add1 subset_mset.add_diff_inverse)

lemma dc_record_zero_unused [simp]: "\<not> dr_used dc_record_zero"
  by (simp add: dr_used_def dc_record_zero_def)

lemma dutycycle_init_ok: "dc_ok dutycycle_init" "dc_active dutycycle_init = {#}"
  by (simp_all add: dc_ok_def dc_active_def dutycycle_init_def)

lemma airtime_sum_bound: "airtime_sum (dc_active dc) \<le> length (dy_history dc) * 2 ^ 32"
proof -
  have "airtime_sum (mset rs) \<le> length rs * 2 ^ 32" for rs
  proof (induction rs)
    case (Cons r rs)
    then show ?case using unat_u32_less [of "dr_toa_us r"] by simp
  qed simp
  from this [of "filter dr_used (dy_history dc)"] show ?thesis
    using length_filter_le [of dr_used "dy_history dc"]
    unfolding dc_active_def by (meson le_trans mult_le_mono1)
qed

lemma dc_used_small: "dc_ok dc \<Longrightarrow> unat (dy_used_us dc) \<le> 512 * 2 ^ 32"
  using airtime_sum_bound [of dc] by (simp add: dc_ok_def)

text \<open>Expiry keeps the running sum exact and keeps exactly the fresh records.\<close>

lemma expire_loop_spec:
  "airtime_sum (mset (filter dr_used rs)) \<le> unat used \<Longrightarrow> expire_loop now used rs = (used', rs') \<Longrightarrow>
   length rs' = length rs \<and>
   mset (filter dr_used rs') = filter_mset (dr_fresh now) (mset (filter dr_used rs)) \<and>
   unat used' + airtime_sum (mset (filter dr_used rs)) =
     unat used + airtime_sum (filter_mset (dr_fresh now) (mset (filter dr_used rs)))"
proof (induction rs arbitrary: used used' rs')
  case (Cons r rs)
  consider "dr_tx_end_ms r = 0" | "dr_used r" "\<not> dr_fresh now r" | "dr_used r" "dr_fresh now r"
    by (auto simp: dr_used_def)
  then show ?case
  proof cases
    case 1
    then have nu: "\<not> dr_used r" by (simp add: dr_used_def)
    obtain u rs1 where x: "expire_loop now used rs = (u, rs1)" by fastforce
    from Cons.IH [OF _ x] Cons.prems 1 nu x show ?thesis by auto
  next
    case 2
    then have e: "dr_tx_end_ms r \<noteq> 0" "now - dr_tx_end_ms r > DC_WINDOW_MS" by (simp_all add: dr_used_def dr_fresh_def not_le)
    obtain u rs1 where x: "expire_loop now (used - ucast (dr_toa_us r)) rs = (u, rs1)" by fastforce
    have le: "unat (dr_toa_us r) + airtime_sum (mset (filter dr_used rs)) \<le> unat used" using Cons.prems(1) 2 by simp
    have "(ucast (dr_toa_us r) :: u64) \<le> used" using le by (simp add: word_le_nat_alt)
    then have u: "unat (used - ucast (dr_toa_us r)) = unat used - unat (dr_toa_us r)" by (simp add: unat_sub_le)
    have res: "used' = u" "rs' = dc_record_zero # rs1" using Cons.prems(2) e x by simp_all
    have "airtime_sum (mset (filter dr_used rs)) \<le> unat (used - ucast (dr_toa_us r))" using u le by linarith
    note ih = Cons.IH [OF this x, unfolded u]
    have "unat u + (unat (dr_toa_us r) + airtime_sum (mset (filter dr_used rs))) =
        unat used + airtime_sum (filter_mset (dr_fresh now) (mset (filter dr_used rs)))"
      using ih le by linarith
    with ih 2 show ?thesis unfolding res by (simp add: add.commute add.left_commute)
  next
    case 3
    then have e: "dr_tx_end_ms r \<noteq> 0" "\<not> now - dr_tx_end_ms r > DC_WINDOW_MS" by (simp_all add: dr_used_def dr_fresh_def not_less)
    obtain u rs1 where x: "expire_loop now used rs = (u, rs1)" by fastforce
    from Cons.IH [OF _ x] Cons.prems 3 e x show ?thesis by auto
  qed
qed simp

lemma expire_old_spec:
  assumes "dc_ok dc"
  shows "dc_ok (expire_old now dc)" "dc_active (expire_old now dc) = filter_mset (dr_fresh now) (dc_active dc)"
    "dy_head (expire_old now dc) = dy_head dc"
proof -
  obtain u h where x: "expire_loop now (dy_used_us dc) (dy_history dc) = (u, h)" by fastforce
  have le: "airtime_sum (mset (filter dr_used (dy_history dc))) \<le> unat (dy_used_us dc)"
    using assms by (simp add: dc_ok_def dc_active_def)
  note sp = expire_loop_spec [OF le x]
  have e: "expire_old now dc = dc\<lparr>dy_history := h, dy_used_us := u\<rparr>" by (simp add: expire_old_def x)
  show "dc_active (expire_old now dc) = filter_mset (dr_fresh now) (dc_active dc)"
    using sp by (simp add: e dc_active_def)
  show "dy_head (expire_old now dc) = dy_head dc" by (simp add: e)
  show "dc_ok (expire_old now dc)" using sp assms by (simp add: e dc_ok_def dc_active_def)
qed

section \<open>Checking and recording\<close>

lemma dutycycle_check_spec:
  assumes "dc_ok dc" "dutycycle_check m dc now toa = (m', dc', ok)"
  shows "dc_ok dc'" "dc_active dc' = filter_mset (dr_fresh now) (dc_active dc)"
    "ok \<longleftrightarrow> airtime_sum (filter_mset (dr_fresh now) (dc_active dc)) + unat toa \<le> 360000000"
proof -
  let ?d = "expire_old now dc"
  note e = expire_old_spec [OF assms(1), of now]
  have u: "unat (dy_used_us ?d) = airtime_sum (filter_mset (dr_fresh now) (dc_active dc))"
    using e(1,2) by (simp add: dc_ok_def)
  have "unat (dy_used_us ?d + ucast toa) = unat (dy_used_us ?d) + unat toa"
    using dc_used_small [OF e(1)] unat_u32_less [of toa] by (subst word_add_no_wrap) simp_all
  with u show "ok \<longleftrightarrow> airtime_sum (filter_mset (dr_fresh now) (dc_active dc)) + unat toa \<le> 360000000"
    using assms(2) by (auto simp: dutycycle_check_def Let_def word_le_nat_alt split: if_splits)
  show "dc_ok dc'" using assms(2) e(1) by (auto simp: dutycycle_check_def Let_def dc_ok_def dc_active_def split: if_splits)
  show "dc_active dc' = filter_mset (dr_fresh now) (dc_active dc)"
    using assms(2) e(2) by (auto simp: dutycycle_check_def Let_def dc_active_def split: if_splits)
qed

lemma dc_scan_Inl: "dc_scan now h l a is = Inl i \<Longrightarrow> i \<in> set is \<and> dr_tx_end_ms (h ! i) = 0"
  by (induction "is" arbitrary: l a) (auto split: if_splits)

lemma dc_scan_Inr: "dc_scan now h l a is = Inr i \<Longrightarrow> (i = l \<or> i \<in> set is) \<and> (\<forall>j \<in> set is. dr_tx_end_ms (h ! j) \<noteq> 0)"
  by (induction "is" arbitrary: l a) (auto split: if_splits)

lemma unat_and_511: "unat (w AND 511 :: u32) = unat w mod 512"
proof -
  have "(511 :: u32) = mask 9" by (simp add: mask_eq_exp_minus_1)
  then show ?thesis by (simp only: unat_and_mask) simp
qed

lemma dc_indices_all: "set (dc_indices slot) = {..<DC_HISTORY_CAP}"
proof
  show "set (dc_indices slot) \<subseteq> {..<DC_HISTORY_CAP}" by (auto simp: dc_indices_def unat_and_511)
  show "{..<DC_HISTORY_CAP} \<subseteq> set (dc_indices slot)"
  proof
    fix j assume "j \<in> {..<DC_HISTORY_CAP}"
    then have j: "j < 512" by simp
    let ?i = "(j + (512 - unat slot mod 512)) mod 512"
    have i: "?i < 512" by simp
    have "unat (slot + of_nat ?i) mod 512 = j"
    proof -
      have "unat (slot + of_nat ?i) mod 512 = (unat slot + ?i) mod 512"
        by (simp add: unat_word_ariths unat_of_nat mod_mod_cancel mod_simps)
      also have "\<dots> = (unat slot mod 512 + (j + (512 - unat slot mod 512))) mod 512" by (simp only: mod_simps)
      also have "\<dots> = (j + 512) mod 512" using mod_less_divisor [of 512 "unat slot"] by (intro arg_cong [where f = "\<lambda>x. x mod 512"]) simp
      finally show ?thesis using j by simp
    qed
    then have "unat ((slot + of_nat ?i) AND 511) = j" by (simp only: unat_and_511)
    with i show "j \<in> set (dc_indices slot)"
      unfolding dc_indices_def set_map by (intro image_eqI [where x = ?i]) (simp_all only: set_upt atLeastLessThan_iff le0 simp_thms)
  qed
qed

text \<open>Replacing one entry of the history.\<close>

lemma mset_filter_update:
  assumes "i < length xs" "P x"
  shows "mset (filter P (xs[i := x])) + (if P (xs ! i) then {#xs ! i#} else {#}) = add_mset x (mset (filter P xs))"
proof -
  have s: "xs = take i xs @ xs ! i # drop (Suc i) xs" using assms(1) by (rule id_take_nth_drop)
  have u: "xs[i := x] = take i xs @ x # drop (Suc i) xs" using assms(1) by (rule upd_conv_take_nth_drop)
  have "mset (filter P xs) = mset (filter P (take i xs)) + (if P (xs ! i) then {#xs ! i#} else {#}) + mset (filter P (drop (Suc i) xs))"
    by (subst s) simp
  then show ?thesis unfolding u using assms(2) by simp
qed

text \<open>Whether the history still has room once stale records are gone.\<close>

definition dc_room :: "dc_ctx_t \<Rightarrow> u32 \<Rightarrow> bool" where
  "dc_room dc now \<longleftrightarrow> size (filter_mset (dr_fresh now) (dc_active dc)) < DC_HISTORY_CAP"

lemma dc_full_iff: "(\<forall>j < length h. dr_tx_end_ms (h ! j) \<noteq> 0) \<longleftrightarrow> size (mset (filter dr_used h)) = length h"
proof -
  have "length (filter dr_used h) = length h \<longleftrightarrow> (\<forall>x \<in> set h. dr_used x)"
    by (metis filter_True length_filter_less less_irrefl)
  then show ?thesis unfolding size_mset by (simp add: dr_used_def all_set_conv_all_nth)
qed

text \<open>The end time 0 marks a free slot, so a transmission that ends at 0 is dated 1.\<close>

lemma dutycycle_record_any:
  assumes ok: "dc_ok dc" and t: "t = (if now \<noteq> 0 then now else 1)"
  shows "dc_ok (dutycycle_record dc now toa)"
    "\<exists>old. (dc_room dc now \<longrightarrow> old = {#}) \<and> old \<subseteq># filter_mset (dr_fresh now) (dc_active dc) \<and>
       dc_active (dutycycle_record dc now toa) =
         add_mset \<lparr>dr_tx_end_ms = t, dr_toa_us = toa\<rparr> (filter_mset (dr_fresh now) (dc_active dc) - old)"
proof -
  let ?d = "expire_old now dc" and ?r = "\<lparr>dr_tx_end_ms = t, dr_toa_us = toa\<rparr>"
  let ?h = "dy_history (expire_old now dc)" and ?scan = "dc_scan now (dy_history (expire_old now dc)) 0 0 (dc_indices (dy_head dc))"
  note e = expire_old_spec [OF ok, of now]
  have len: "length ?h = DC_HISTORY_CAP" and us: "unat (dy_used_us ?d) = airtime_sum (dc_active ?d)"
    using e(1) by (simp_all add: dc_ok_def)
  have act: "mset (filter dr_used ?h) = filter_mset (dr_fresh now) (dc_active dc)" using e(2) by (simp only: dc_active_def)
  have ru: "dr_used ?r" by (simp add: dr_used_def t)
  obtain i old used where rec: "dutycycle_record dc now toa =
      ?d\<lparr>dy_history := ?h[i := ?r], dy_head := (of_nat i + 1) AND 511, dy_used_us := used + ucast toa\<rparr>"
    and i: "i < DC_HISTORY_CAP" and old: "old = (if dr_used (?h ! i) then {#?h ! i#} else {#})"
    and used: "unat used + airtime_sum old = unat (dy_used_us ?d)" and room: "dc_room dc now \<longrightarrow> old = {#}"
  proof (cases ?scan)
    case (Inl k)
    from dc_scan_Inl [OF Inl] have k: "k < DC_HISTORY_CAP" "dr_tx_end_ms (?h ! k) = 0" by (simp_all add: dc_indices_all)
    have "dutycycle_record dc now toa =
      ?d\<lparr>dy_history := ?h[k := ?r], dy_head := (of_nat k + 1) AND 511, dy_used_us := dy_used_us ?d + ucast toa\<rparr>"
      using Inl e(3) by (simp add: dutycycle_record_def Let_def t)
    then show ?thesis using k by (intro that [where i = k and old = "{#}" and used = "dy_used_us ?d"]) (simp_all add: dr_used_def)
  next
    case (Inr k)
    from dc_scan_Inr [OF Inr] have k: "k < DC_HISTORY_CAP" and full: "\<forall>j < length ?h. dr_tx_end_ms (?h ! j) \<noteq> 0"
      by (auto simp: dc_indices_all len)
    then have kn: "dr_used (?h ! k)" by (simp add: dr_used_def len)
    have mem: "?h ! k \<in># dc_active ?d" using k kn len by (simp add: dc_active_def)
    then have le: "unat (dr_toa_us (?h ! k)) \<le> unat (dy_used_us ?d)"
      unfolding us by (metis airtime_sum_simps(2) insert_DiffM le_add1)
    let ?u = "dy_used_us ?d - ucast (dr_toa_us (?h ! k))"
    have "dutycycle_record dc now toa =
      ?d\<lparr>dy_history := ?h[k := ?r], dy_head := (of_nat k + 1) AND 511, dy_used_us := ?u + ucast toa\<rparr>"
      using Inr e(3) le by (simp add: dutycycle_record_def Let_def word_le_nat_alt t)
    moreover have "unat ?u = unat (dy_used_us ?d) - unat (dr_toa_us (?h ! k))" using le by (simp add: unat_sub_le word_le_nat_alt)
    moreover have "\<not> dc_room dc now"
      using full dc_full_iff [of ?h] len act by (simp add: dc_room_def)
    ultimately show ?thesis using k kn le by (intro that [where i = k and old = "{#?h ! k#}" and used = ?u]) simp_all
  qed
  have upd: "dc_active (dutycycle_record dc now toa) + old = add_mset ?r (filter_mset (dr_fresh now) (dc_active dc))"
    using mset_filter_update [of i ?h dr_used ?r] i len ru act by (simp add: rec dc_active_def old)
  have sub: "old \<subseteq># filter_mset (dr_fresh now) (dc_active dc)"
    using i len by (auto simp: old simp flip: act)
  have act': "dc_active (dutycycle_record dc now toa) = add_mset ?r (filter_mset (dr_fresh now) (dc_active dc) - old)"
  proof -
    obtain K where K: "filter_mset (dr_fresh now) (dc_active dc) = old + K" using sub by (auto simp: mset_subset_eq_exists_conv)
    then have "dc_active (dutycycle_record dc now toa) + old = add_mset ?r K + old" using upd by simp
    then have "dc_active (dutycycle_record dc now toa) = add_mset ?r K" by (simp only: add_right_cancel)
    then show ?thesis by (simp add: K)
  qed
  with room sub show "\<exists>old. (dc_room dc now \<longrightarrow> old = {#}) \<and> old \<subseteq># filter_mset (dr_fresh now) (dc_active dc) \<and>
       dc_active (dutycycle_record dc now toa) = add_mset ?r (filter_mset (dr_fresh now) (dc_active dc) - old)" by blast
  have "airtime_sum (dc_active (dutycycle_record dc now toa)) + airtime_sum old = unat toa + unat (dy_used_us ?d)"
    using upd e(2) us by (metis airtime_sum_simps(2,3) dc_tx_record_t.select_convs(2))
  moreover have "unat (used + ucast toa) = unat used + unat toa"
    using used dc_used_small [OF e(1)] unat_u32_less [of toa] by (subst word_add_no_wrap) simp_all
  ultimately show "dc_ok (dutycycle_record dc now toa)" using len i used by (simp add: dc_ok_def) (simp add: rec)
qed

lemma dutycycle_record_spec:
  assumes "dc_ok dc" "now \<noteq> 0"
  shows "dc_ok (dutycycle_record dc now toa)"
    "\<exists>old. (dc_room dc now \<longrightarrow> old = {#}) \<and> old \<subseteq># filter_mset (dr_fresh now) (dc_active dc) \<and>
       dc_active (dutycycle_record dc now toa) =
         add_mset \<lparr>dr_tx_end_ms = now, dr_toa_us = toa\<rparr> (filter_mset (dr_fresh now) (dc_active dc) - old)"
  using dutycycle_record_any [OF assms(1), of now now] assms(2) by simp_all

section \<open>Runs of the main loop\<close>

text \<open>
  Each call is the time of the check, the time the transmission ended and its airtime. The run
  returns the log of what was transmitted, and whether the history always had room.
\<close>

type_synonym dc_call = "u32 \<times> u32 \<times> u32"

fun dc_run :: "dc_call list \<Rightarrow> rivr_metrics_t \<Rightarrow> dc_ctx_t \<Rightarrow> dc_ctx_t \<times> dc_tx_record_t list \<times> bool" where
  "dc_run [] m dc = (dc, [], True)"
| "dc_run ((now, t_end, toa) # calls) m dc =
     (case dc_send m dc now t_end toa of (m1, dc1, ok) \<Rightarrow>
        case dc_run calls m1 dc1 of (dc2, log, room) \<Rightarrow>
          (dc2, (if ok then [\<lparr>dr_tx_end_ms = t_end, dr_toa_us = toa\<rparr>] else []) @ log,
           (ok \<longrightarrow> dc_room dc t_end) \<and> room))"

definition dc_times :: "dc_call list \<Rightarrow> nat list" where
  "dc_times calls = concat (map (\<lambda>(now, t_end, toa). [unat now, unat t_end]) calls)"

lemma dr_fresh_mono:
  "unat (dr_tx_end_ms r) \<le> unat t \<Longrightarrow> unat t \<le> unat T \<Longrightarrow> dr_fresh T r \<Longrightarrow> dr_fresh t r"
  by (simp add: dr_fresh_def word_le_nat_alt unat_sub_le)

lemma filter_fresh_mono:
  assumes "\<forall>r \<in># L. unat (dr_tx_end_ms r) \<le> unat t" "unat t \<le> unat T"
  shows "filter_mset (dr_fresh T) (filter_mset (dr_fresh t) L) = filter_mset (dr_fresh T) L"
  unfolding filter_filter_mset using assms dr_fresh_mono by (intro filter_mset_cong) auto

lemma airtime_sum_filter: "airtime_sum (filter_mset P M) \<le> airtime_sum M"
  by (intro airtime_sum_mono multiset_filter_subset)

text \<open>The history holds the fresh part of the log, and its airtime is within the budget.\<close>

definition dc_inv :: "u32 \<Rightarrow> dc_tx_record_t multiset \<Rightarrow> dc_ctx_t \<Rightarrow> bool" where
  "dc_inv t L dc \<longleftrightarrow> t \<noteq> 0 \<and> dc_ok dc \<and> dc_active dc = filter_mset (dr_fresh t) L \<and>
     airtime_sum (dc_active dc) \<le> 360000000 \<and> (\<forall>r \<in># L. unat (dr_tx_end_ms r) \<le> unat t)"

lemma dc_inv_check:
  assumes "dc_inv t L dc" "unat t \<le> unat now" "dutycycle_check m dc now toa = (m', dc', ok)"
  shows "dc_inv now L dc'" "ok \<longrightarrow> airtime_sum (dc_active dc') + unat toa \<le> 360000000"
proof -
  have ok: "dc_ok dc" and t: "t \<noteq> 0" and L: "\<forall>r \<in># L. unat (dr_tx_end_ms r) \<le> unat t"
    using assms(1) by (simp_all add: dc_inv_def)
  note c = dutycycle_check_spec [OF ok assms(3)]
  have act: "dc_active dc' = filter_mset (dr_fresh now) L"
    using c(2) assms(1) filter_fresh_mono [OF L assms(2)] by (simp add: dc_inv_def)
  have "airtime_sum (dc_active dc') \<le> airtime_sum (dc_active dc)" unfolding c(2) by (rule airtime_sum_filter)
  also have "airtime_sum (dc_active dc) \<le> 360000000" using assms(1) unfolding dc_inv_def by blast
  finally have "airtime_sum (dc_active dc') \<le> 360000000" .
  moreover have "now \<noteq> 0" using t assms(2) by (auto simp: unat_eq_0)
  ultimately show "dc_inv now L dc'" using c(1) act L assms(2) by (auto simp: dc_inv_def)
  show "ok \<longrightarrow> airtime_sum (dc_active dc') + unat toa \<le> 360000000" using c(2,3) by simp
qed

lemma dc_inv_record:
  assumes "dc_inv t L dc" "unat t \<le> unat t_end" "dc_room dc t_end" "airtime_sum (dc_active dc) + unat toa \<le> 360000000"
  shows "dc_inv t_end (L + {#\<lparr>dr_tx_end_ms = t_end, dr_toa_us = toa\<rparr>#}) (dutycycle_record dc t_end toa)"
proof -
  let ?r = "\<lparr>dr_tx_end_ms = t_end, dr_toa_us = toa\<rparr>"
  have ok: "dc_ok dc" and t: "t \<noteq> 0" and L: "\<forall>r \<in># L. unat (dr_tx_end_ms r) \<le> unat t"
    using assms(1) by (simp_all add: dc_inv_def)
  have te: "t_end \<noteq> 0" using t assms(2) by (auto simp: unat_eq_0)
  note r = dutycycle_record_spec [OF ok te, of toa]
  have f: "filter_mset (dr_fresh t_end) (dc_active dc) = filter_mset (dr_fresh t_end) L"
    using assms(1) filter_fresh_mono [OF L assms(2)] by (simp add: dc_inv_def)
  have act: "dc_active (dutycycle_record dc t_end toa) = add_mset ?r (filter_mset (dr_fresh t_end) L)"
    using r(2) assms(3) f by auto
  have "dr_fresh t_end ?r" by (simp add: dr_fresh_def)
  moreover have "airtime_sum (filter_mset (dr_fresh t_end) L) \<le> airtime_sum (dc_active dc)"
    unfolding f [symmetric] by (rule airtime_sum_filter)
  ultimately show ?thesis using r(1) act te L assms(2,4) by (auto simp: dc_inv_def)
qed

lemma dc_run_inv:
  "dc_inv t L dc \<Longrightarrow> sorted (unat t # dc_times calls @ [unat T]) \<Longrightarrow> dc_run calls m dc = (dc', log, True) \<Longrightarrow>
   airtime_sum (filter_mset (dr_fresh T) (L + mset log)) \<le> 360000000"
proof (induction calls arbitrary: t L m dc log)
  case Nil
  then have "filter_mset (dr_fresh T) L = filter_mset (dr_fresh T) (dc_active dc)" and "log = []"
    using filter_fresh_mono [of L t T] by (auto simp: dc_inv_def dc_times_def)
  moreover have "airtime_sum (dc_active dc) \<le> 360000000" using Nil.prems(1) unfolding dc_inv_def by blast
  ultimately show ?case using airtime_sum_filter [of "dr_fresh T" "dc_active dc"] by simp
next
  case (Cons k calls)
  obtain now t_end toa where k: "k = (now, t_end, toa)" by (cases k)
  obtain m1 dc1 ok where c: "dutycycle_check m dc now toa = (m1, dc1, ok)" by (cases "dutycycle_check m dc now toa")
  have le: "unat t \<le> unat now" "unat now \<le> unat t_end"
    and srt: "sorted (unat now # dc_times calls @ [unat T])" "sorted (unat t_end # dc_times calls @ [unat T])"
    using Cons.prems(2) by (auto simp: k dc_times_def)
  note ci = dc_inv_check [OF Cons.prems(1) le(1) c]
  show ?case
  proof (cases ok)
    case False
    then obtain log1 where "dc_run calls m1 dc1 = (dc', log1, True)" "log = log1"
      using Cons.prems(3) c by (auto simp: k dc_send_def split: prod.splits)
    with Cons.IH [OF ci(1) srt(1)] show ?thesis by simp
  next
    case True
    let ?r = "\<lparr>dr_tx_end_ms = t_end, dr_toa_us = toa\<rparr>" and ?d = "dutycycle_record dc1 t_end toa"
    obtain log1 where run: "dc_run calls m1 ?d = (dc', log1, True)" "log = ?r # log1" and room: "dc_room dc t_end"
      using Cons.prems(3) c True by (auto simp: k dc_send_def split: prod.splits)
    have "dc_active dc1 \<subseteq># dc_active dc"
      using dutycycle_check_spec(2) [OF _ c] Cons.prems(1) by (simp add: dc_inv_def multiset_filter_subset)
    then have "size (filter_mset (dr_fresh t_end) (dc_active dc1)) \<le> size (filter_mset (dr_fresh t_end) (dc_active dc))"
      by (intro size_mset_mono multiset_filter_mono)
    then have "dc_room dc1 t_end" using room by (simp add: dc_room_def)
    with ci le True have "dc_inv t_end (L + {#?r#}) ?d" by (intro dc_inv_record) auto
    from Cons.IH [OF this srt(2) run(1)] show ?thesis by (simp add: run(2))
  qed
qed

section \<open>Short frames\<close>

text \<open>512 records of this airtime and one more frame stay within the budget.\<close>

definition dc_short :: "dc_ctx_t \<Rightarrow> bool" where
  "dc_short dc \<longleftrightarrow> dc_ok dc \<and> (\<forall>r \<in># dc_active dc. unat (dr_toa_us r) \<le> 701754)"

lemma dc_short_send:
  assumes "dc_short dc" "unat toa \<le> 701754" "t_end \<noteq> 0" "dc_send m dc now t_end toa = (m', dc', ok)"
  shows "ok \<and> dc_short dc'"
proof -
  obtain m1 dc1 b where c: "dutycycle_check m dc now toa = (m1, dc1, b)" by (cases "dutycycle_check m dc now toa")
  have ok: "dc_ok dc" and s: "\<forall>r \<in># dc_active dc. unat (dr_toa_us r) \<le> 701754" using assms(1) by (simp_all add: dc_short_def)
  note cs = dutycycle_check_spec [OF ok c]
  have s1: "\<forall>r \<in># dc_active dc1. unat (dr_toa_us r) \<le> 701754" using s cs(2) by simp
  have bnd: "airtime_sum M \<le> size M * 701754" if "\<forall>r \<in># M. unat (dr_toa_us r) \<le> 701754" for M
    using that by (induction M) auto
  have "size (dc_active dc1) \<le> 512"
    using cs(1) length_filter_le [of dr_used "dy_history dc1"] by (simp add: dc_active_def dc_ok_def flip: mset_filter)
  with bnd [OF s1] have "airtime_sum (dc_active dc1) \<le> 512 * 701754" by (meson le_trans mult_le_mono1)
  with cs(2,3) assms(2) have b: "b" by simp
  have "\<forall>r \<in># dc_active (dutycycle_record dc1 t_end toa). unat (dr_toa_us r) \<le> 701754"
    using dutycycle_record_spec(2) [OF cs(1) assms(3), of toa] s1 assms(2) by (auto dest!: in_diffD)
  with b c assms(4) dutycycle_record_spec(1) [OF cs(1) assms(3)] show ?thesis by (auto simp: dc_send_def dc_short_def)
qed

lemma dc_short_run:
  "dc_short dc \<Longrightarrow> \<forall>(now, t_end, toa) \<in> set calls. unat toa \<le> 701754 \<and> t_end \<noteq> 0 \<Longrightarrow>
   length (fst (snd (dc_run calls m dc))) = length calls"
proof (induction calls arbitrary: m dc)
  case (Cons k calls)
  obtain now t_end toa where k: "k = (now, t_end, toa)" by (cases k)
  obtain m1 dc1 ok where s: "dc_send m dc now t_end toa = (m1, dc1, ok)" by (cases "dc_send m dc now t_end toa")
  have "ok" "dc_short dc1" using dc_short_send [OF Cons.prems(1) _ _ s] Cons.prems(2) by (auto simp: k)
  with Cons.IH [of dc1 m1] Cons.prems(2) s show ?case by (auto simp: k split: prod.splits)
qed simp

section \<open>Properties\<close>



text \<open>The limiter does not bind for short frames. The history holds 512 records and a full history
  evicts its oldest record together with its airtime, so a run of frames of at most 701754 us each
  is never blocked: every frame passes, however many there are and however closely they follow.\<close>

theorem dutycycle_never_blocks_short_frames:
  assumes "\<forall>(now, t_end, toa) \<in> set calls. unat toa \<le> 701754 \<and> t_end \<noteq> 0"
  shows "length (fst (snd (dc_run calls m dutycycle_init))) = length calls"
  by (rule dc_short_run [OF _ assms]) (simp add: dc_short_def dutycycle_init_ok)

lemma dutycycle_never_blocks_short_frames_witness:
  "length (fst (snd (dc_run (map (\<lambda>n. (of_nat n + 1, of_nat n + 1, 476000)) [0..<4000]) metrics_zero dutycycle_init))) = 4000"
proof -
  have nz: "of_nat n + 1 \<noteq> (0 :: u32)" if "n < 4000" for n
  proof -
    have "unat (of_nat n + 1 :: u32) = Suc n" using that by (simp add: unat_word_ariths unat_of_nat)
    then show ?thesis by auto
  qed
  show ?thesis
    using dutycycle_never_blocks_short_frames [of "map (\<lambda>n. (of_nat n + 1, of_nat n + 1, 476000)) [0..<4000]" metrics_zero] nz
    by simp
qed

end
