(* ===== verification/Rivr_Policy.thy ===== *)
theory Rivr_Policy
  imports Rivr_Protocol Rivr_Interfaces
begin

text \<open>
  The relay fairness policy (policy.h, policy.c): a class for every packet type, a cap on the TTL
  of a relayed frame per class, and sixteen flood buckets indexed by the source address that limit
  how many budgeted frames of a source are relayed per second.
\<close>

datatype rivr_class_t = RIVR_CLASS_CONTROL | RIVR_CLASS_CHAT | RIVR_CLASS_METRICS | RIVR_CLASS_BULK

datatype rivr_policy_verdict_t = RIVR_POLICY_PASS | RIVR_POLICY_TTL_CLAMP | RIVR_POLICY_DROP

abbreviation "POLICY_BUCKET_COUNT \<equiv> (16 :: u32)"
abbreviation "POLICY_MAX_TOKENS \<equiv> (4 :: u32)"
abbreviation "POLICY_REFILL_TOKENS_PER_S \<equiv> (1 :: u32)"

record policy_bucket_t =
  pb_tokens :: u8
  pb_last_refill :: u32

record policy_state_t =
  ps_buckets :: "policy_bucket_t list"

definition policy_init :: policy_state_t where
  "policy_init = \<lparr>ps_buckets = replicate 16 \<lparr>pb_tokens = 4, pb_last_refill = 0\<rparr>\<rparr>"

definition policy_classify :: "u8 \<Rightarrow> rivr_class_t" where
  "policy_classify t =
     (if t = PKT_CHAT then RIVR_CLASS_CHAT else if t = PKT_DATA then RIVR_CLASS_BULK
      else RIVR_CLASS_CONTROL)"

fun policy_ttl_cap :: "rivr_class_t \<Rightarrow> u8" where
  "policy_ttl_cap RIVR_CLASS_CHAT = 12"
| "policy_ttl_cap RIVR_CLASS_METRICS = 6"
| "policy_ttl_cap RIVR_CLASS_BULK = 4"
| "policy_ttl_cap RIVR_CLASS_CONTROL = 0"

definition policy_refill :: "u32 \<Rightarrow> policy_bucket_t \<Rightarrow> policy_bucket_t" where
  "policy_refill now b =
     (if now \<ge> pb_last_refill b then
        let elapsed_s = (now - pb_last_refill b) div 1000 in
        if elapsed_s > 0 then
          let new_tok = ucast (pb_tokens b) + elapsed_s * POLICY_REFILL_TOKENS_PER_S in
          b\<lparr>pb_tokens := ucast (if new_tok > POLICY_MAX_TOKENS then POLICY_MAX_TOKENS else new_tok),
            pb_last_refill := pb_last_refill b + elapsed_s * 1000\<rparr>
        else b
      else b\<lparr>pb_last_refill := now\<rparr>)"

text \<open>The last argument and result is the output parameter for the clamped TTL.\<close>

definition policy_check ::
  "policy_state_t \<Rightarrow> rivr_pkt_hdr_t \<Rightarrow> u32 \<Rightarrow> u8 \<Rightarrow> policy_state_t \<times> rivr_policy_verdict_t \<times> u8" where
  "policy_check ps hdr now out =
     (let cls = policy_classify (h_pkt_type hdr);
          cap = policy_ttl_cap cls;
          clamp = cap > 0 \<and> h_ttl hdr > cap;
          out' = (if clamp then cap else out);
          verdict = (if clamp then RIVR_POLICY_TTL_CLAMP else RIVR_POLICY_PASS)
      in if cls \<noteq> RIVR_CLASS_CONTROL then
           let idx = unat (h_src_id hdr mod POLICY_BUCKET_COUNT);
               b = policy_refill now (ps_buckets ps ! idx)
           in if pb_tokens b = 0
              then (ps\<lparr>ps_buckets := (ps_buckets ps)[idx := b]\<rparr>, RIVR_POLICY_DROP, out')
              else (ps\<lparr>ps_buckets := (ps_buckets ps)[idx := b\<lparr>pb_tokens := pb_tokens b - 1\<rparr>]\<rparr>, verdict, out')
         else (ps, verdict, out'))"

section \<open>The buckets\<close>

definition policy_ok :: "policy_state_t \<Rightarrow> bool" where
  "policy_ok ps \<longleftrightarrow> length (ps_buckets ps) = 16 \<and> (\<forall>b \<in> set (ps_buckets ps). pb_tokens b \<le> 4)"

lemma policy_init_ok: "policy_ok policy_init"
  by (simp add: policy_ok_def policy_init_def)

definition policy_idx :: "rivr_pkt_hdr_t \<Rightarrow> nat" where
  "policy_idx hdr = unat (h_src_id hdr mod POLICY_BUCKET_COUNT)"

lemma policy_idx_less [simp]: "policy_idx hdr < 16"
  unfolding policy_idx_def by (simp add: unat_mod)

definition policy_elapsed_s :: "u32 \<Rightarrow> policy_bucket_t \<Rightarrow> nat" where
  "policy_elapsed_s now b = (unat now - unat (pb_last_refill b)) div 1000"

lemma policy_refill_tokens:
  assumes "pb_tokens b \<le> 4"
  shows "pb_tokens (policy_refill now b) \<le> 4"
    and "unat (pb_tokens (policy_refill now b)) = min 4 (unat (pb_tokens b) + policy_elapsed_s now b)"
proof -
  define e where "e = (now - pb_last_refill b) div 1000"
  have t4: "unat (pb_tokens b) \<le> 4" using assms by (simp add: word_le_nat_alt)
  have ue: "unat e = unat (now - pb_last_refill b) div 1000" by (simp add: e_def unat_div)
  have e_small: "unat e < 4294968" using ue unat_u32_less [of "now - pb_last_refill b"] by linarith
  have sum: "unat (ucast (pb_tokens b) + e :: u32) = unat (pb_tokens b) + unat e"
    using t4 e_small by (subst unat_add_lem [THEN iffD1]) simp_all
  have cast: "w \<le> 4 \<Longrightarrow> unat (ucast w :: u8) = unat w" for w :: u32
    by (simp add: unat_ucast_mod word_le_nat_alt)
  have eq: "unat (pb_tokens (policy_refill now b)) = min 4 (unat (pb_tokens b) + policy_elapsed_s now b)"
  proof (cases "pb_last_refill b \<le> now")
    case True
    then have el: "policy_elapsed_s now b = unat e"
      by (simp add: policy_elapsed_s_def ue unat_sub_le)
    show ?thesis
    proof (cases "e = 0")
      case True
      with \<open>pb_last_refill b \<le> now\<close> el t4 show ?thesis
        by (simp add: policy_refill_def Let_def e_def [symmetric])
    next
      case False
      define n where "n = (ucast (pb_tokens b) :: u32) + e"
      have "pb_tokens (policy_refill now b) = ucast (if n > 4 then 4 else n)"
        using True False by (simp add: policy_refill_def Let_def e_def [symmetric] n_def word_gt_0 )
      moreover have "unat n = unat (pb_tokens b) + unat e" using sum by (simp add: n_def)
      ultimately show ?thesis using cast [of n] el by (auto simp: word_less_nat_alt not_less word_le_nat_alt)
    qed
  next
    case False
    then have "unat now < unat (pb_last_refill b)" by (simp add: word_less_nat_alt not_le)
    with False t4 show ?thesis by (simp add: policy_refill_def policy_elapsed_s_def)
  qed
  show "unat (pb_tokens (policy_refill now b)) = min 4 (unat (pb_tokens b) + policy_elapsed_s now b)" by (rule eq)
  then show "pb_tokens (policy_refill now b) \<le> 4" by (simp add: word_le_nat_alt)
qed

lemma policy_refill_last:
  assumes "pb_last_refill b \<le> now"
  shows "unat (pb_last_refill (policy_refill now b)) = unat (pb_last_refill b) + 1000 * policy_elapsed_s now b"
    and "pb_last_refill (policy_refill now b) \<le> now"
proof -
  define e where "e = (now - pb_last_refill b) div 1000"
  have ue: "unat e = (unat now - unat (pb_last_refill b)) div 1000"
    using assms by (simp add: e_def unat_div unat_sub_le)
  have le: "unat (pb_last_refill b) \<le> unat now" using assms by (simp add: word_le_nat_alt)
  note now = unat_u32_less [of now]
  have bound: "unat (pb_last_refill b) + unat e * 1000 \<le> unat now" using ue le by linarith
  have m: "unat (e * 1000) = unat e * 1000"
    using bound now by (subst unat_mult_lem [THEN iffD1]) simp_all
  have s: "unat (pb_last_refill b + e * 1000) = unat (pb_last_refill b) + unat e * 1000"
    using bound now m by (subst unat_add_lem [THEN iffD1]) simp_all
  have r: "pb_last_refill (policy_refill now b) = pb_last_refill b + e * 1000"
    using assms by (cases "e = 0") (simp_all add: policy_refill_def Let_def e_def [symmetric] word_gt_0)
  show "unat (pb_last_refill (policy_refill now b)) = unat (pb_last_refill b) + 1000 * policy_elapsed_s now b"
    using s r ue by (simp add: policy_elapsed_s_def)
  show "pb_last_refill (policy_refill now b) \<le> now" using s r bound by (simp add: word_le_nat_alt)
qed

section \<open>What a check does\<close>

definition policy_budgeted :: "rivr_pkt_hdr_t \<Rightarrow> bool" where
  "policy_budgeted hdr \<longleftrightarrow> policy_classify (h_pkt_type hdr) \<noteq> RIVR_CLASS_CONTROL"

definition policy_bucket_after :: "policy_state_t \<Rightarrow> rivr_pkt_hdr_t \<Rightarrow> u32 \<Rightarrow> policy_bucket_t" where
  "policy_bucket_after ps hdr now =
     (let b = policy_refill now (ps_buckets ps ! policy_idx hdr) in
      if pb_tokens b = 0 then b else b\<lparr>pb_tokens := pb_tokens b - 1\<rparr>)"

lemma policy_check_spec:
  "policy_check ps hdr now out = (ps', v, out') \<Longrightarrow>
     ps' = (if policy_budgeted hdr
            then ps\<lparr>ps_buckets := (ps_buckets ps)[policy_idx hdr := policy_bucket_after ps hdr now]\<rparr> else ps) \<and>
     (v = RIVR_POLICY_DROP \<longleftrightarrow>
        policy_budgeted hdr \<and> pb_tokens (policy_refill now (ps_buckets ps ! policy_idx hdr)) = 0)"
  by (auto simp: policy_check_def policy_budgeted_def policy_idx_def policy_bucket_after_def Let_def split: if_splits)

text \<open>The TTL a relay continues with: the caller replaces the TTL on a clamp verdict.\<close>

lemma policy_check_ttl:
  "policy_check ps hdr now out = (ps', RIVR_POLICY_TTL_CLAMP, out') \<Longrightarrow>
     out' = policy_ttl_cap (policy_classify (h_pkt_type hdr)) \<and> 0 < out' \<and> out' < h_ttl hdr"
  "policy_check ps hdr now out = (ps', RIVR_POLICY_PASS, out') \<Longrightarrow>
     out' = out \<and> (policy_budgeted hdr \<longrightarrow> h_ttl hdr \<le> policy_ttl_cap (policy_classify (h_pkt_type hdr)))"
  by (cases "policy_classify (h_pkt_type hdr)";
      auto simp: policy_check_def policy_budgeted_def Let_def not_less split: if_splits)+

lemma policy_ok_bucket: "policy_ok ps \<Longrightarrow> i < 16 \<Longrightarrow> pb_tokens (ps_buckets ps ! i) \<le> 4"
  by (simp add: policy_ok_def)

lemma policy_bucket_after_tokens:
  assumes "policy_ok ps"
  shows "pb_tokens (policy_bucket_after ps hdr now) \<le> 4"
    and "pb_tokens (policy_refill now (ps_buckets ps ! policy_idx hdr)) \<noteq> 0 \<Longrightarrow>
      Suc (unat (pb_tokens (policy_bucket_after ps hdr now))) =
      unat (pb_tokens (policy_refill now (ps_buckets ps ! policy_idx hdr)))"
proof -
  have le: "pb_tokens (policy_refill now (ps_buckets ps ! policy_idx hdr)) \<le> 4"
    by (rule policy_refill_tokens(1) [OF policy_ok_bucket [OF assms policy_idx_less]])
  show s: "pb_tokens (policy_refill now (ps_buckets ps ! policy_idx hdr)) \<noteq> 0 \<Longrightarrow>
      Suc (unat (pb_tokens (policy_bucket_after ps hdr now))) =
      unat (pb_tokens (policy_refill now (ps_buckets ps ! policy_idx hdr)))"
    by (simp add: policy_bucket_after_def Let_def unat_minus_one unat_gt_0)
  show "pb_tokens (policy_bucket_after ps hdr now) \<le> 4"
    using le s by (cases "pb_tokens (policy_refill now (ps_buckets ps ! policy_idx hdr)) = 0")
      (simp_all add: word_le_nat_alt policy_bucket_after_def Let_def)
qed

lemma policy_check_ok:
  assumes "policy_ok ps" "policy_check ps hdr now out = (ps', v, out')"
  shows "policy_ok ps'"
proof -
  have "policy_ok (ps\<lparr>ps_buckets := (ps_buckets ps)[policy_idx hdr := policy_bucket_after ps hdr now]\<rparr>)"
    using assms(1) policy_bucket_after_tokens(1) [OF assms(1), of hdr now] set_update_subset_insert
    unfolding policy_ok_def by fastforce
  with policy_check_spec [OF assms(2)] assms(1) show ?thesis by simp
qed

section \<open>The flood buckets as token buckets\<close>

type_synonym policy_call = "rivr_pkt_hdr_t \<times> u32"

definition policy_step :: "policy_call \<Rightarrow> policy_state_t \<Rightarrow> policy_state_t" where
  "policy_step c ps = fst (policy_check ps (fst c) (snd c) 0)"

definition policy_relays :: "policy_call \<Rightarrow> policy_state_t \<Rightarrow> bool" where
  "policy_relays c ps \<longleftrightarrow> fst (snd (policy_check ps (fst c) (snd c) 0)) \<noteq> RIVR_POLICY_DROP"

text \<open>For bucket \<open>k\<close>: whether a call uses it, what the call spends of it, and the seconds it is credited.\<close>

definition policy_hits :: "nat \<Rightarrow> policy_call \<Rightarrow> bool" where
  "policy_hits k c \<longleftrightarrow> policy_budgeted (fst c) \<and> policy_idx (fst c) = k"

definition policy_spends :: "nat \<Rightarrow> policy_call \<Rightarrow> policy_state_t \<Rightarrow> nat" where
  "policy_spends k c ps = (if policy_hits k c \<and> policy_relays c ps then 1 else 0)"

definition policy_elapsed :: "nat \<Rightarrow> policy_call \<Rightarrow> policy_state_t \<Rightarrow> nat" where
  "policy_elapsed k c ps = (if policy_hits k c then policy_elapsed_s (snd c) (ps_buckets ps ! k) else 0)"

lemma policy_step_bucket:
  assumes "policy_ok ps" "k < 16"
  shows "ps_buckets (policy_step c ps) ! k =
    (if policy_hits k c then policy_bucket_after ps (fst c) (snd c) else ps_buckets ps ! k)"
proof -
  obtain ps' v out' where run: "policy_check ps (fst c) (snd c) 0 = (ps', v, out')"
    by (cases "policy_check ps (fst c) (snd c) 0")
  with policy_check_spec [OF run] assms show ?thesis
    by (auto simp: policy_step_def policy_hits_def policy_ok_def nth_list_update)
qed

lemma policy_relays_iff:
  "policy_relays c ps \<longleftrightarrow> \<not> (policy_budgeted (fst c) \<and>
     pb_tokens (policy_refill (snd c) (ps_buckets ps ! policy_idx (fst c))) = 0)"
proof -
  obtain ps' v out' where run: "policy_check ps (fst c) (snd c) 0 = (ps', v, out')"
    by (cases "policy_check ps (fst c) (snd c) 0")
  with policy_check_spec [OF run] show ?thesis by (simp add: policy_relays_def)
qed

lemma policy_step_ok: "policy_ok ps \<Longrightarrow> policy_ok (policy_step c ps)"
  unfolding policy_step_def by (cases "policy_check ps (fst c) (snd c) 0") (auto dest: policy_check_ok)

interpretation policy_bucket: token_bucket "\<lambda>ps. policy_ok ps \<and> k < 16"
  "\<lambda>ps. unat (pb_tokens (ps_buckets ps ! k))" 4 1 policy_step "policy_elapsed k" "policy_spends k" for k :: nat
proof unfold_locales
  fix s :: policy_state_t and a :: policy_call
  assume ok: "policy_ok s \<and> k < 16"
  then have ok1: "policy_ok s" and k: "k < 16" by simp_all
  show "policy_ok (policy_step a s) \<and> k < 16" using ok policy_step_ok by simp
  show "unat (pb_tokens (ps_buckets s ! k)) \<le> 4" using policy_ok_bucket [OF ok1 k] by (simp add: word_le_nat_alt)
  show "policy_spends k a s + unat (pb_tokens (ps_buckets (policy_step a s) ! k)) \<le>
    unat (pb_tokens (ps_buckets s ! k)) + 1 * policy_elapsed k a s"
  proof (cases "policy_hits k a")
    case False
    then show ?thesis using ok1 k by (simp add: policy_spends_def policy_elapsed_def policy_step_bucket)
  next
    case True
    then have idx: "policy_idx (fst a) = k" by (simp add: policy_hits_def)
    have r: "unat (pb_tokens (policy_refill (snd a) (ps_buckets s ! k))) \<le>
      unat (pb_tokens (ps_buckets s ! k)) + policy_elapsed_s (snd a) (ps_buckets s ! k)"
      using policy_refill_tokens(2) [OF policy_ok_bucket [OF ok1 k]] by simp
    show ?thesis
    proof (cases "pb_tokens (policy_refill (snd a) (ps_buckets s ! k)) = 0")
      case True
      with \<open>policy_hits k a\<close> idx ok1 k r show ?thesis
        by (simp add: policy_spends_def policy_elapsed_def policy_step_bucket policy_relays_iff
            policy_bucket_after_def Let_def policy_hits_def)
    next
      case False
      with \<open>policy_hits k a\<close> idx ok1 k r policy_bucket_after_tokens(2) [OF ok1, of "snd a" "fst a"] show ?thesis
        by (simp add: policy_spends_def policy_elapsed_def policy_step_bucket policy_relays_iff policy_hits_def)
    qed
  qed
qed

lemma policy_elapsed_total:
  "policy_ok ps \<Longrightarrow> k < 16 \<Longrightarrow>
   sorted (unat (pb_last_refill (ps_buckets ps ! k)) # map (\<lambda>c. unat (snd c)) cs @ [T]) \<Longrightarrow>
   1000 * run_sum policy_step (policy_elapsed k) cs ps + unat (pb_last_refill (ps_buckets ps ! k)) \<le> T"
proof (induction cs arbitrary: ps)
  case (Cons c cs)
  note ok = policy_step_ok [OF Cons.prems(1), of c]
  have srt: "sorted (unat (snd c) # map (\<lambda>c. unat (snd c)) cs @ [T])"
    and le: "pb_last_refill (ps_buckets ps ! k) \<le> snd c"
    and srt': "sorted (unat (pb_last_refill (ps_buckets ps ! k)) # map (\<lambda>c. unat (snd c)) cs @ [T])"
    using Cons.prems(3) by (auto simp: word_le_nat_alt)
  show ?case
  proof (cases "policy_hits k c")
    case False
    then have "ps_buckets (policy_step c ps) ! k = ps_buckets ps ! k" "policy_elapsed k c ps = 0"
      using policy_step_bucket [OF Cons.prems(1,2)] by (simp_all add: policy_elapsed_def)
    with Cons.IH [OF ok Cons.prems(2)] srt' show ?thesis by simp
  next
    case True
    then have b: "pb_last_refill (ps_buckets (policy_step c ps) ! k) =
        pb_last_refill (policy_refill (snd c) (ps_buckets ps ! k))"
      using policy_step_bucket [OF Cons.prems(1,2)]
      by (simp add: policy_bucket_after_def Let_def policy_hits_def)
    have "sorted (unat (pb_last_refill (ps_buckets (policy_step c ps) ! k)) # map (\<lambda>c. unat (snd c)) cs @ [T])"
      using srt policy_refill_last(2) [OF le] b by (auto simp: word_le_nat_alt)
    with Cons.IH [OF ok Cons.prems(2)] policy_refill_last(1) [OF le] b True
    show ?thesis by (simp add: policy_elapsed_def)
  qed
qed simp

section \<open>Properties\<close>

text \<open>C18: The flood buckets bound what is relayed for any source. From any consistent state, whatever
  frames are checked at times that do not run backwards, the number of budgeted frames with
  addresses of bucket \<open>k\<close> that are passed on up to time \<open>T\<close> is at most the tokens of the bucket at
  the start, at most four, plus one for each full second since its last refill.\<close>

theorem policy_relay_rate:
  assumes "policy_ok ps" "k < 16"
    and "sorted (unat (pb_last_refill (ps_buckets ps ! k)) # map (\<lambda>c. unat (snd c)) calls @ [T])"
  shows "run_sum policy_step (policy_spends k) calls ps \<le>
      unat (pb_tokens (ps_buckets ps ! k)) + (T - unat (pb_last_refill (ps_buckets ps ! k))) div 1000 \<and>
    unat (pb_tokens (ps_buckets ps ! k)) \<le> 4"
proof
  have "run_sum policy_step (policy_elapsed k) calls ps \<le> (T - unat (pb_last_refill (ps_buckets ps ! k))) div 1000"
    using policy_elapsed_total [OF assms] by linarith
  with policy_bucket.spent [of ps k calls] assms(1,2)
  show "run_sum policy_step (policy_spends k) calls ps \<le>
    unat (pb_tokens (ps_buckets ps ! k)) + (T - unat (pb_last_refill (ps_buckets ps ! k))) div 1000" by simp
  show "unat (pb_tokens (ps_buckets ps ! k)) \<le> 4"
    using policy_bucket.within [of ps k] assms by simp
qed

lemma policy_relay_rate_witness:
  "run_sum policy_step (policy_spends 1)
     (map (\<lambda>t. (demo_hdr\<lparr>h_pkt_type := 1, h_src_id := 17\<rparr>, t)) [10, 20, 30, 40, 50, 60, 70]) policy_init \<le> 5"
  using policy_relay_rate [OF policy_init_ok,
      of 1 "map (\<lambda>t. (demo_hdr\<lparr>h_pkt_type := 1, h_src_id := 17\<rparr>, t)) [10, 20, 30, 40, 50, 60, 70]" 1070]
  by (simp add: policy_init_def)

end
