(* ===== verification/Rivr_Fabric.thy ===== *)
theory Rivr_Fabric
  imports Rivr_Protocol Rivr_Metrics
begin

text \<open>
  RIVR Fabric (rivr_fabric.h, rivr_fabric.c): a ring of sixty one-second buckets counts receptions,
  transmissions, failures and duty-cycle blocks; the congestion score computed from the window
  decides whether a repeater sends a relayed CHAT or DATA frame now, later or not at all. The
  compile-time switch RIVR_FABRIC_REPEATER is the first argument of every operation.
\<close>

abbreviation "FABRIC_BUCKETS \<equiv> (60 :: u32)"
abbreviation "RIVR_FABRIC_DROP_THRESHOLD \<equiv> (80 :: u8)"
abbreviation "RIVR_FABRIC_DELAY_THRESHOLD \<equiv> (50 :: u8)"
abbreviation "RIVR_FABRIC_LIGHT_DELAY_THRESHOLD \<equiv> (20 :: u8)"
abbreviation "RIVR_FABRIC_MAX_EXTRA_DELAY_MS \<equiv> (1000 :: u32)"
abbreviation "RIVR_FABRIC_BLACKOUT_GUARD_SCORE \<equiv> (95 :: u8)"
abbreviation "FABRIC_SCORE_WEIGHT_RX_PER_S \<equiv> (2 :: u32)"
abbreviation "FABRIC_SCORE_WEIGHT_DC_BLOCKED \<equiv> (25 :: u32)"
abbreviation "FABRIC_SCORE_WEIGHT_TX_FAIL \<equiv> (10 :: u32)"

datatype fabric_decision_t = FABRIC_SEND_NOW | FABRIC_DELAY | FABRIC_DROP

record fabric_bucket_t =
  fk_rx_count :: u16
  fk_tx_ok_count :: u16
  fk_tx_fail_count :: u16
  fk_tx_blocked_dc :: u16
  fk_tx_enqueued :: u16

record fabric_state_t =
  fa_buckets :: "fabric_bucket_t list"
  fa_last_bucket_sec :: u32
  fa_relay_drop_total :: u32
  fa_relay_delay_total :: u32
  fa_relay_total :: u32
  fa_tx_blocked_dc :: u32
  fa_tx_fail :: u32
  fa_tx_ok :: u32
  fa_rx_total :: u32
  fa_last_score :: u8

record fabric_debug_t =
  fd_score :: u8
  fd_rx_per_s_x100 :: u16
  fd_blocked_per_s_x100 :: u16
  fd_fail_per_s_x100 :: u16
  fd_relay_drop_total :: u32
  fd_relay_delay_total :: u32

definition fabric_bucket_zero :: fabric_bucket_t where
  "fabric_bucket_zero = \<lparr>fk_rx_count = 0, fk_tx_ok_count = 0, fk_tx_fail_count = 0, fk_tx_blocked_dc = 0,
     fk_tx_enqueued = 0\<rparr>"

text \<open>The static variables at power-up; \<open>rivr_fabric_init\<close> clears the window only.\<close>

definition fabric_boot :: fabric_state_t where
  "fabric_boot = \<lparr>fa_buckets = replicate 60 fabric_bucket_zero, fa_last_bucket_sec = 0,
     fa_relay_drop_total = 0, fa_relay_delay_total = 0, fa_relay_total = 0, fa_tx_blocked_dc = 0,
     fa_tx_fail = 0, fa_tx_ok = 0, fa_rx_total = 0, fa_last_score = 0\<rparr>"

definition rivr_fabric_init :: "bool \<Rightarrow> fabric_state_t \<Rightarrow> fabric_state_t" where
  "rivr_fabric_init rep fab =
     (if rep then fab\<lparr>fa_buckets := replicate 60 fabric_bucket_zero, fa_last_bucket_sec := 0\<rparr> else fab)"

definition fabric_zero_bucket :: "u32 \<Rightarrow> nat \<Rightarrow> fabric_bucket_t list \<Rightarrow> fabric_bucket_t list" where
  "fabric_zero_bucket last_sec d bs = bs[unat ((last_sec + of_nat d) mod FABRIC_BUCKETS) := fabric_bucket_zero]"

definition fabric_advance :: "u32 \<Rightarrow> fabric_state_t \<Rightarrow> fabric_state_t" where
  "fabric_advance now fab =
     (let now_sec = now div 1000; last_sec = fa_last_bucket_sec fab in
      if now_sec = last_sec then fab
      else
        let delta = now_sec - last_sec;
            delta' = (if delta > FABRIC_BUCKETS then FABRIC_BUCKETS else delta)
        in fab\<lparr>fa_buckets := fold (fabric_zero_bucket last_sec) [1..<Suc (unat delta')] (fa_buckets fab),
               fa_last_bucket_sec := now_sec\<rparr>)"

text \<open>\<open>fabric_current(now)->f++\<close>: advance, then update the bucket of the current second.\<close>

definition fabric_count :: "(fabric_bucket_t \<Rightarrow> fabric_bucket_t) \<Rightarrow> u32 \<Rightarrow> fabric_state_t \<Rightarrow> fabric_state_t" where
  "fabric_count inc now fab =
     (let fab1 = fabric_advance now fab;
          i = unat (fa_last_bucket_sec fab1 mod FABRIC_BUCKETS)
      in fab1\<lparr>fa_buckets := (fa_buckets fab1)[i := inc (fa_buckets fab1 ! i)]\<rparr>)"

definition window_total :: "(fabric_bucket_t \<Rightarrow> u16) \<Rightarrow> fabric_state_t \<Rightarrow> u32" where
  "window_total f fab = fold (\<lambda>b t. t + ucast (f b)) (fa_buckets fab) 0"

definition score_of_totals :: "u32 \<Rightarrow> u32 \<Rightarrow> u32 \<Rightarrow> u8" where
  "score_of_totals rx_total fail_total blocked_total =
     (let rx = rx_total * 100 div FABRIC_BUCKETS;
          fail = fail_total * 100 div FABRIC_BUCKETS;
          blocked = blocked_total * 100 div FABRIC_BUCKETS;
          score100 = rx * FABRIC_SCORE_WEIGHT_RX_PER_S + blocked * FABRIC_SCORE_WEIGHT_DC_BLOCKED
                     + fail * FABRIC_SCORE_WEIGHT_TX_FAIL
      in ucast ((if score100 > 10000 then 10000 else score100) div 100))"

definition fabric_score :: "u32 \<Rightarrow> fabric_state_t \<Rightarrow> u8 \<times> fabric_state_t" where
  "fabric_score now fab =
     (let fab1 = fabric_advance now fab in
      (score_of_totals (window_total fk_rx_count fab1) (window_total fk_tx_fail_count fab1)
         (window_total fk_tx_blocked_dc fab1), fab1))"

definition rivr_fabric_tick :: "bool \<Rightarrow> u32 \<Rightarrow> fabric_state_t \<Rightarrow> fabric_state_t" where
  "rivr_fabric_tick rep now fab = (if rep then fabric_advance now fab else fab)"

definition rivr_fabric_on_rx :: "bool \<Rightarrow> u32 \<Rightarrow> fabric_state_t \<Rightarrow> fabric_state_t" where
  "rivr_fabric_on_rx rep now fab =
     (if rep then (fabric_count (fk_rx_count_update (\<lambda>c. c + 1)) now fab)\<lparr>fa_rx_total := fa_rx_total fab + 1\<rparr> else fab)"

definition rivr_fabric_on_tx_enqueued :: "bool \<Rightarrow> u32 \<Rightarrow> fabric_state_t \<Rightarrow> fabric_state_t" where
  "rivr_fabric_on_tx_enqueued rep now fab =
     (if rep then fabric_count (fk_tx_enqueued_update (\<lambda>c. c + 1)) now fab else fab)"

definition rivr_fabric_on_tx_ok :: "bool \<Rightarrow> u32 \<Rightarrow> fabric_state_t \<Rightarrow> fabric_state_t" where
  "rivr_fabric_on_tx_ok rep now fab =
     (if rep then (fabric_count (fk_tx_ok_count_update (\<lambda>c. c + 1)) now fab)\<lparr>fa_tx_ok := fa_tx_ok fab + 1\<rparr> else fab)"

definition rivr_fabric_on_tx_fail :: "bool \<Rightarrow> u32 \<Rightarrow> fabric_state_t \<Rightarrow> fabric_state_t" where
  "rivr_fabric_on_tx_fail rep now fab =
     (if rep then (fabric_count (fk_tx_fail_count_update (\<lambda>c. c + 1)) now fab)\<lparr>fa_tx_fail := fa_tx_fail fab + 1\<rparr> else fab)"

definition rivr_fabric_on_tx_blocked_dc :: "bool \<Rightarrow> u32 \<Rightarrow> fabric_state_t \<Rightarrow> fabric_state_t" where
  "rivr_fabric_on_tx_blocked_dc rep now fab =
     (if rep then (fabric_count (fk_tx_blocked_dc_update (\<lambda>c. c + 1)) now fab)
        \<lparr>fa_tx_blocked_dc := fa_tx_blocked_dc fab + 1\<rparr> else fab)"

text \<open>The bands of \<open>rivr_fabric_decide_relay\<close> for a CHAT or DATA frame at a given score.\<close>

definition fabric_band :: "u8 \<Rightarrow> fabric_decision_t \<times> u32" where
  "fabric_band score =
     (if score \<ge> RIVR_FABRIC_BLACKOUT_GUARD_SCORE then (FABRIC_DELAY, RIVR_FABRIC_MAX_EXTRA_DELAY_MS)
      else if score \<ge> RIVR_FABRIC_DROP_THRESHOLD then (FABRIC_DROP, 0)
      else if score \<ge> RIVR_FABRIC_DELAY_THRESHOLD then
        (let extra = 250 + ucast (score - RIVR_FABRIC_DELAY_THRESHOLD) * 10 in
         (FABRIC_DELAY, if extra > RIVR_FABRIC_MAX_EXTRA_DELAY_MS then RIVR_FABRIC_MAX_EXTRA_DELAY_MS else extra))
      else if score \<ge> RIVR_FABRIC_LIGHT_DELAY_THRESHOLD then
        (let extra = ucast (score - RIVR_FABRIC_LIGHT_DELAY_THRESHOLD) * 10 in
         (FABRIC_DELAY, if extra > 300 then 300 else extra))
      else (FABRIC_SEND_NOW, 0))"

definition rivr_fabric_decide_relay ::
  "bool \<Rightarrow> rivr_metrics_t \<Rightarrow> fabric_state_t \<Rightarrow> rivr_pkt_hdr_t \<Rightarrow> u32 \<Rightarrow>
   rivr_metrics_t \<times> fabric_state_t \<times> fabric_decision_t \<times> u32" where
  "rivr_fabric_decide_relay rep m fab pkt now =
     (if \<not> rep then (m, fab, FABRIC_SEND_NOW, 0)
      else if h_pkt_type pkt \<noteq> PKT_CHAT \<and> h_pkt_type pkt \<noteq> PKT_DATA then (m, fab, FABRIC_SEND_NOW, 0)
      else case fabric_score now (fab\<lparr>fa_relay_total := fa_relay_total fab + 1\<rparr>) of (score, fab1) \<Rightarrow>
        let fab2 = fab1\<lparr>fa_last_score := score\<rparr> in
        case fabric_band score of
          (FABRIC_DELAY, extra) \<Rightarrow>
            (bump fabric_delay m, fab2\<lparr>fa_relay_delay_total := fa_relay_delay_total fab2 + 1\<rparr>, FABRIC_DELAY, extra)
        | (FABRIC_DROP, extra) \<Rightarrow>
            (bump fabric_drop m, fab2\<lparr>fa_relay_drop_total := fa_relay_drop_total fab2 + 1\<rparr>, FABRIC_DROP, extra)
        | (FABRIC_SEND_NOW, extra) \<Rightarrow> (m, fab2, FABRIC_SEND_NOW, extra))"

definition rivr_fabric_get_debug :: "bool \<Rightarrow> u32 \<Rightarrow> fabric_state_t \<Rightarrow> fabric_debug_t \<times> fabric_state_t" where
  "rivr_fabric_get_debug rep now fab =
     (if rep then
        let fab1 = fabric_advance now fab;
            rx_total = window_total fk_rx_count fab1;
            fail_total = window_total fk_tx_fail_count fab1;
            blocked_total = window_total fk_tx_blocked_dc fab1
        in case fabric_score now fab1 of (score, fab2) \<Rightarrow>
          (\<lparr>fd_score = score,
            fd_rx_per_s_x100 = ucast (rx_total * 100 div FABRIC_BUCKETS),
            fd_blocked_per_s_x100 = ucast (blocked_total * 100 div FABRIC_BUCKETS),
            fd_fail_per_s_x100 = ucast (fail_total * 100 div FABRIC_BUCKETS),
            fd_relay_drop_total = fa_relay_drop_total fab2,
            fd_relay_delay_total = fa_relay_delay_total fab2\<rparr>, fab2)
      else (\<lparr>fd_score = 0, fd_rx_per_s_x100 = 0, fd_blocked_per_s_x100 = 0, fd_fail_per_s_x100 = 0,
             fd_relay_drop_total = 0, fd_relay_delay_total = 0\<rparr>, fab))"

section \<open>Advancing the ring\<close>

lemma fold_zero_bucket_nth:
  "i < length bs \<Longrightarrow> fold (fabric_zero_bucket l) ds bs ! i =
     (if \<exists>d \<in> set ds. unat ((l + of_nat d) mod FABRIC_BUCKETS) = i then fabric_bucket_zero else bs ! i)"
proof (induction ds arbitrary: bs)
  case (Cons d ds)
  have "i < length (fabric_zero_bucket l d bs)" using Cons.prems by (simp add: fabric_zero_bucket_def)
  from Cons.IH [OF this] Cons.prems show ?case by (auto simp: fabric_zero_bucket_def nth_list_update)
qed simp

lemma fold_zero_bucket_length [simp]: "length (fold (fabric_zero_bucket l) ds bs) = length bs"
  by (induction ds arbitrary: bs) (simp_all add: fabric_zero_bucket_def)

definition sec_of :: "u32 \<Rightarrow> nat" where
  "sec_of now = unat now div 1000"

lemma unat_sec [simp]: "unat (now div 1000 :: u32) = sec_of now"
  by (simp add: unat_div sec_of_def)

lemma sec_of_less: "sec_of now < 4294968"
  using unat_u32_less [of now] by (simp add: sec_of_def)

lemma fabric_idx:
  assumes "unat l < 4294968" "d \<le> 60"
  shows "unat ((l + of_nat d :: u32) mod FABRIC_BUCKETS) = (unat l + d) mod 60"
proof -
  have "unat (of_nat d :: u32) = d" using assms(2) by (simp add: unat_of_nat)
  then have "unat (l + of_nat d) = unat l + d" using assms by (subst unat_add_lem [THEN iffD1]) simp_all
  then show ?thesis by (simp add: unat_mod)
qed

text \<open>The second held by bucket \<open>i\<close> lies in the window that ends at \<open>l\<close>; a bucket is cleared exactly
  if moving the window to \<open>n\<close> moves its second out.\<close>

definition second_passes :: "nat \<Rightarrow> nat \<Rightarrow> nat \<Rightarrow> bool" where
  "second_passes l n i \<longleftrightarrow> (\<exists>t. l < t \<and> t \<le> n \<and> t mod 60 = i)"

lemma residue_cleared_iff:
  fixes l n :: nat
  assumes "l < n"
  shows "(\<exists>d \<in> {1..min (n - l) 60}. (l + d) mod 60 = i) \<longleftrightarrow> second_passes l n i"
  unfolding second_passes_def
proof
  assume "\<exists>d \<in> {1..min (n - l) 60}. (l + d) mod 60 = i"
  then obtain d where "1 \<le> d" "d \<le> n - l" "(l + d) mod 60 = i" by auto
  with assms show "\<exists>t. l < t \<and> t \<le> n \<and> t mod 60 = i" by (intro exI [of _ "l + d"]) simp
next
  assume "\<exists>t. l < t \<and> t \<le> n \<and> t mod 60 = i"
  then obtain t where t: "l < t" "t \<le> n" "t mod 60 = i" by blast
  show "\<exists>d \<in> {1..min (n - l) 60}. (l + d) mod 60 = i"
  proof (cases "t - l \<le> 60")
    case True
    moreover have "1 \<le> t - l" "t - l \<le> n - l" using t by linarith+
    ultimately show ?thesis using t by (intro bexI [of _ "t - l"]) simp_all
  next
    case False
    define d where "d = (t - l - 1) mod 60 + 1"
    have d: "d \<le> 60" "1 \<le> d" by (simp_all add: d_def Suc_le_eq)
    obtain q where q: "t - l - 1 = 60 * q + (t - l - 1) mod 60"
      using mult_div_mod_eq [of 60 "t - l - 1"] by (metis)
    then have "t = l + d + 60 * q" using t(1) by (simp add: d_def)
    then have "(l + d) mod 60 = i" using t(3) by simp
    with d False t show ?thesis by (intro bexI [of _ d]) simp_all
  qed
qed

lemma fabric_advance_bucket:
  assumes len: "length (fa_buckets fab) = 60" and sec: "unat (fa_last_bucket_sec fab) \<le> sec_of now" and i: "i < 60"
  shows "fa_buckets (fabric_advance now fab) ! i =
    (if second_passes (unat (fa_last_bucket_sec fab)) (sec_of now) i then fabric_bucket_zero else fa_buckets fab ! i)"
proof (cases "now div 1000 = fa_last_bucket_sec fab")
  case True
  then have "unat (fa_last_bucket_sec fab) = sec_of now" using unat_sec [of now] by simp
  with True show ?thesis by (auto simp: fabric_advance_def Let_def second_passes_def)
next
  case False
  define l where "l = fa_last_bucket_sec fab"
  define n where "n = now div 1000"
  have ln: "unat l < unat n" using sec False unat_sec [of now]
    by (metis l_def n_def le_neq_implies_less word_eq_unat)
  have un: "unat n = sec_of now" by (simp add: n_def)
  have l_small: "unat l < 4294968" using ln un sec_of_less [of now] by linarith
  define e where "e = (if n - l > FABRIC_BUCKETS then FABRIC_BUCKETS else n - l)"
  have sub: "unat (n - l) = unat n - unat l" using ln by (simp add: unat_sub_le word_le_nat_alt)
  have ue: "unat e = min (unat n - unat l) 60"
    using sub by (auto simp: e_def word_less_nat_alt not_less)
  have bk: "fa_buckets (fabric_advance now fab) = fold (fabric_zero_bucket l) [1..<Suc (unat e)] (fa_buckets fab)"
    using False by (simp add: fabric_advance_def Let_def l_def n_def e_def)
  have "(\<exists>d \<in> set [1..<Suc (unat e)]. unat ((l + of_nat d) mod FABRIC_BUCKETS) = i) \<longleftrightarrow>
    (\<exists>d \<in> {1..min (unat n - unat l) 60}. (unat l + d) mod 60 = i)"
    using ue by (intro bex_cong) (auto simp: fabric_idx [OF l_small])
  also have "\<dots> \<longleftrightarrow> second_passes (unat l) (unat n) i"
    by (rule residue_cleared_iff [OF ln])
  finally have iff: "(\<exists>d \<in> set [1..<Suc (unat e)]. unat ((l + of_nat d) mod FABRIC_BUCKETS) = i) \<longleftrightarrow>
    second_passes (unat l) (sec_of now) i" by (simp only: un)
  have "i < length (fa_buckets fab)" using len i by simp
  from fold_zero_bucket_nth [OF this, of l "[1..<Suc (unat e)]"] show ?thesis
    unfolding bk l_def [symmetric] iff .
qed

lemma fabric_advance_shape [simp]:
  "length (fa_buckets (fabric_advance now fab)) = length (fa_buckets fab)"
  "fa_last_bucket_sec (fabric_advance now fab) = now div 1000"
  by (simp_all add: fabric_advance_def Let_def)

section \<open>The window as a history\<close>

datatype fabric_event = Fab_Rx | Fab_Enqueued | Fab_Ok | Fab_Fail | Fab_Blocked | Fab_Tick

fun fabric_step :: "fabric_event \<times> u32 \<Rightarrow> fabric_state_t \<Rightarrow> fabric_state_t" where
  "fabric_step (Fab_Rx, now) fab = rivr_fabric_on_rx True now fab"
| "fabric_step (Fab_Enqueued, now) fab = rivr_fabric_on_tx_enqueued True now fab"
| "fabric_step (Fab_Ok, now) fab = rivr_fabric_on_tx_ok True now fab"
| "fabric_step (Fab_Fail, now) fab = rivr_fabric_on_tx_fail True now fab"
| "fabric_step (Fab_Blocked, now) fab = rivr_fabric_on_tx_blocked_dc True now fab"
| "fabric_step (Fab_Tick, now) fab = rivr_fabric_tick True now fab"

text \<open>The counter an event adds to, read back from a bucket.\<close>

fun fabric_counter :: "fabric_event \<Rightarrow> fabric_bucket_t \<Rightarrow> u16" where
  "fabric_counter Fab_Rx b = fk_rx_count b"
| "fabric_counter Fab_Enqueued b = fk_tx_enqueued b"
| "fabric_counter Fab_Ok b = fk_tx_ok_count b"
| "fabric_counter Fab_Fail b = fk_tx_fail_count b"
| "fabric_counter Fab_Blocked b = fk_tx_blocked_dc b"
| "fabric_counter Fab_Tick b = 0"

text \<open>How many events of a kind a history has in the sixty seconds up to second \<open>l\<close>.\<close>

definition last_minute :: "fabric_event \<Rightarrow> nat \<Rightarrow> (fabric_event \<times> u32) list \<Rightarrow> nat" where
  "last_minute k l tr = length (filter (\<lambda>(e, now). e = k \<and> l < sec_of now + 60) tr)"

definition in_bucket :: "fabric_event \<Rightarrow> nat \<Rightarrow> nat \<Rightarrow> (fabric_event \<times> u32) list \<Rightarrow> nat" where
  "in_bucket k i l tr = length (filter (\<lambda>(e, now). e = k \<and> l < sec_of now + 60 \<and> sec_of now mod 60 = i) tr)"

definition fabric_holds :: "(fabric_event \<times> u32) list \<Rightarrow> fabric_state_t \<Rightarrow> bool" where
  "fabric_holds tr fab \<longleftrightarrow> length (fa_buckets fab) = 60 \<and>
     (\<forall>(e, now) \<in> set tr. sec_of now \<le> unat (fa_last_bucket_sec fab)) \<and>
     (\<forall>k i. k \<noteq> Fab_Tick \<longrightarrow> i < 60 \<longrightarrow>
        fabric_counter k (fa_buckets fab ! i) = of_nat (in_bucket k i (unat (fa_last_bucket_sec fab)) tr))"

lemma fabric_counter_zero [simp]: "fabric_counter k fabric_bucket_zero = 0"
  by (cases k) (simp_all add: fabric_bucket_zero_def)

lemma fabric_holds_boot: "fabric_holds [] fabric_boot"
  by (simp add: fabric_holds_def fabric_boot_def in_bucket_def)

lemma in_bucket_advance:
  assumes old: "\<forall>(e, now) \<in> set tr. sec_of now \<le> l" and ln: "l \<le> n"
  shows "in_bucket k i n tr = (if second_passes l n i then 0 else in_bucket k i l tr)"
proof (cases "second_passes l n i")
  case True
  then obtain t where t: "l < t" "t \<le> n" "t mod 60 = i" by (auto simp: second_passes_def)
  have "\<not> (n < s + 60 \<and> s mod 60 = i)" if "s \<le> l" for s
  proof
    assume s: "n < s + 60 \<and> s mod 60 = i"
    with t have "t - s < 60" "s < t" "t mod 60 = s mod 60" using that by auto
    then show False by (metis dvd_imp_le mod_eq_dvd_iff_nat less_imp_le not_less zero_less_diff)
  qed
  with old have "filter (\<lambda>(e, now). e = k \<and> n < sec_of now + 60 \<and> sec_of now mod 60 = i) tr = []"
    by (auto simp: filter_empty_conv)
  with True show ?thesis by (simp add: in_bucket_def)
next
  case False
  have "n < s + 60 \<longleftrightarrow> l < s + 60" if "s mod 60 = i" for s
    using False [unfolded second_passes_def] that ln by (metis add.commute le_trans mod_add_self1 not_less less_le_trans)
  then have "filter (\<lambda>(e, now). e = k \<and> n < sec_of now + 60 \<and> sec_of now mod 60 = i) tr =
      filter (\<lambda>(e, now). e = k \<and> l < sec_of now + 60 \<and> sec_of now mod 60 = i) tr"
    by (intro filter_cong) auto
  with False show ?thesis by (simp add: in_bucket_def)
qed

lemma fabric_holds_advance:
  assumes "fabric_holds tr fab" "unat (fa_last_bucket_sec fab) \<le> sec_of now"
  shows "fabric_holds tr (fabric_advance now fab)"
proof -
  have len: "length (fa_buckets fab) = 60"
    and old: "\<forall>(e, now) \<in> set tr. sec_of now \<le> unat (fa_last_bucket_sec fab)"
    and cnt: "\<And>k i. k \<noteq> Fab_Tick \<Longrightarrow> i < 60 \<Longrightarrow>
        fabric_counter k (fa_buckets fab ! i) = of_nat (in_bucket k i (unat (fa_last_bucket_sec fab)) tr)"
    using assms(1) by (auto simp: fabric_holds_def)
  have "fabric_counter k (fa_buckets (fabric_advance now fab) ! i) = of_nat (in_bucket k i (sec_of now) tr)"
    if "k \<noteq> Fab_Tick" "i < 60" for k i
    using cnt [OF that] by (simp add: fabric_advance_bucket [OF len assms(2) that(2)] in_bucket_advance [OF old assms(2)])
  moreover have "\<forall>(e, t) \<in> set tr. sec_of t \<le> sec_of now" using old assms(2) by fastforce
  ultimately show ?thesis using len by (simp add: fabric_holds_def)
qed

lemma in_bucket_snoc:
  "in_bucket k i l (tr @ [(e, now)]) =
     in_bucket k i l tr + (if e = k \<and> l < sec_of now + 60 \<and> sec_of now mod 60 = i then 1 else 0)"
  by (simp add: in_bucket_def)

lemma fabric_count_holds:
  assumes holds: "fabric_holds tr fab" and sec: "unat (fa_last_bucket_sec fab) \<le> sec_of now"
    and own: "\<And>b. fabric_counter e (inc b) = fabric_counter e b + 1"
    and others: "\<And>k b. k \<noteq> e \<Longrightarrow> fabric_counter k (inc b) = fabric_counter k b"
  shows "fabric_holds (tr @ [(e, now)]) (fabric_count inc now fab)"
proof -
  have adv: "fabric_holds tr (fabric_advance now fab)" by (rule fabric_holds_advance [OF holds sec])
  have idx: "unat ((now div 1000) mod FABRIC_BUCKETS) = sec_of now mod 60" by (simp add: unat_mod)
  have "fabric_counter k (fa_buckets (fabric_count inc now fab) ! i) = of_nat (in_bucket k i (sec_of now) (tr @ [(e, now)]))"
    if "k \<noteq> Fab_Tick" "i < 60" for k i
  proof (cases "i = sec_of now mod 60")
    case True
    with adv that show ?thesis
      by (cases "k = e") (simp_all add: fabric_count_def Let_def idx fabric_holds_def in_bucket_snoc own others)
  next
    case False
    with adv that show ?thesis
      by (simp add: fabric_count_def Let_def idx fabric_holds_def in_bucket_snoc)
  qed
  with adv show ?thesis by (simp add: fabric_holds_def fabric_count_def Let_def)
qed

lemma fabric_holds_lifetime [simp]:
  "fabric_holds tr (fab\<lparr>fa_rx_total := n\<rparr>) = fabric_holds tr fab"
  "fabric_holds tr (fab\<lparr>fa_tx_ok := n\<rparr>) = fabric_holds tr fab"
  "fabric_holds tr (fab\<lparr>fa_tx_fail := n\<rparr>) = fabric_holds tr fab"
  "fabric_holds tr (fab\<lparr>fa_tx_blocked_dc := n\<rparr>) = fabric_holds tr fab"
  "fabric_holds tr (fab\<lparr>fa_relay_total := n\<rparr>) = fabric_holds tr fab"
  by (simp_all add: fabric_holds_def)

lemma fabric_counter_ne:
  "k \<noteq> Fab_Rx \<Longrightarrow> fabric_counter k (fk_rx_count_update f b) = fabric_counter k b"
  "k \<noteq> Fab_Enqueued \<Longrightarrow> fabric_counter k (fk_tx_enqueued_update f b) = fabric_counter k b"
  "k \<noteq> Fab_Ok \<Longrightarrow> fabric_counter k (fk_tx_ok_count_update f b) = fabric_counter k b"
  "k \<noteq> Fab_Fail \<Longrightarrow> fabric_counter k (fk_tx_fail_count_update f b) = fabric_counter k b"
  "k \<noteq> Fab_Blocked \<Longrightarrow> fabric_counter k (fk_tx_blocked_dc_update f b) = fabric_counter k b"
  by (cases k; simp)+

lemma fabric_step_holds:
  assumes "fabric_holds tr fab" "unat (fa_last_bucket_sec fab) \<le> sec_of now"
  shows "fabric_holds (tr @ [(e, now)]) (fabric_step (e, now) fab)"
proof (cases e)
  case Fab_Tick
  have "in_bucket k i l (tr @ [(Fab_Tick, now)]) = in_bucket k i l tr" if "k \<noteq> Fab_Tick" for k i l
    using that by (auto simp: in_bucket_snoc)
  with fabric_holds_advance [OF assms] show ?thesis
    by (simp add: Fab_Tick rivr_fabric_tick_def fabric_holds_def)
qed (simp_all add: rivr_fabric_on_rx_def rivr_fabric_on_tx_enqueued_def rivr_fabric_on_tx_ok_def
    rivr_fabric_on_tx_fail_def rivr_fabric_on_tx_blocked_dc_def fabric_count_holds [OF assms] fabric_counter_ne)

lemma fabric_step_sec [simp]: "fa_last_bucket_sec (fabric_step (e, now) fab) = now div 1000"
  by (cases e) (simp_all add: rivr_fabric_on_rx_def rivr_fabric_on_tx_enqueued_def rivr_fabric_on_tx_ok_def
    rivr_fabric_on_tx_fail_def rivr_fabric_on_tx_blocked_dc_def rivr_fabric_tick_def fabric_count_def Let_def)

lemma sec_of_mono: "unat a \<le> unat b \<Longrightarrow> sec_of a \<le> sec_of b"
  by (simp add: sec_of_def div_le_mono)

lemma fabric_run_holds:
  "fabric_holds tr fab \<Longrightarrow> sorted (unat t0 # map (\<lambda>(e, now). unat now) calls @ [unat t1]) \<Longrightarrow>
   unat (fa_last_bucket_sec fab) \<le> sec_of t0 \<Longrightarrow>
   fabric_holds (tr @ calls) (fold fabric_step calls fab) \<and>
   unat (fa_last_bucket_sec (fold fabric_step calls fab)) \<le> sec_of t1"
proof (induction calls arbitrary: tr fab t0)
  case Nil
  then show ?case using sec_of_mono [of t0 t1] by simp
next
  case (Cons c calls)
  obtain e now where c: "c = (e, now)" by (cases c)
  have le: "unat t0 \<le> unat now" and srt: "sorted (unat now # map (\<lambda>(e, now). unat now) calls @ [unat t1])"
    using Cons.prems(2) by (auto simp: c)
  have sec: "unat (fa_last_bucket_sec fab) \<le> sec_of now"
    using Cons.prems(3) sec_of_mono [OF le] by (rule order_trans)
  have "unat (fa_last_bucket_sec (fabric_step (e, now) fab)) \<le> sec_of now" by simp
  from Cons.IH [OF fabric_step_holds [OF Cons.prems(1) sec, of e] srt this] show ?case by (simp add: c)
qed

section \<open>The score\<close>

text \<open>A bucket does not wrap as long as no second sees 65536 events.\<close>

definition quiet_seconds :: "(fabric_event \<times> u32) list \<Rightarrow> bool" where
  "quiet_seconds tr \<longleftrightarrow> (\<forall>s. length (filter (\<lambda>(e, now). sec_of now = s) tr) < 65536)"

lemma in_bucket_small:
  assumes "quiet_seconds tr" and old: "\<forall>(e, now) \<in> set tr. sec_of now \<le> l"
  shows "in_bucket k i l tr < 65536"
proof (cases "filter (\<lambda>(e, now). e = k \<and> l < sec_of now + 60 \<and> sec_of now mod 60 = i) tr = []")
  case True
  then show ?thesis by (simp add: in_bucket_def)
next
  case False
  then obtain e0 n0 where x0: "(e0, n0) \<in> set tr" "l < sec_of n0 + 60" "sec_of n0 mod 60 = i"
    by (fastforce simp: filter_empty_conv)
  have same: "s = sec_of n0" if "s \<le> l" "l < s + 60" "s mod 60 = i" for s
  proof -
    have "sec_of n0 \<le> l" using old x0(1) by auto
    with that x0(2,3) have "s - sec_of n0 < 60" "sec_of n0 - s < 60" "s mod 60 = sec_of n0 mod 60" by auto
    then show ?thesis by (metis dvd_imp_le mod_eq_dvd_iff_nat nat_le_linear not_less zero_less_diff le_neq_implies_less)
  qed
  have "in_bucket k i l tr = length (filter (\<lambda>(e, now). e = k \<and> l < sec_of now + 60 \<and> sec_of now mod 60 = i)
      (filter (\<lambda>(e, now). sec_of now = sec_of n0) tr))"
    unfolding in_bucket_def filter_filter using old by (intro arg_cong [where f = length] filter_cong) (auto dest: same)
  also have "\<dots> \<le> length (filter (\<lambda>(e, now). sec_of now = sec_of n0) tr)" by (rule length_filter_le)
  finally show ?thesis using assms(1) unfolding quiet_seconds_def by (meson le_less_trans)
qed

lemma sum_in_bucket: "(\<Sum>i<60. in_bucket k i l tr) = last_minute k l tr"
proof (induction tr)
  case (Cons c tr)
  obtain e now where c: "c = (e, now)" by (cases c)
  have "in_bucket k i l (c # tr) = (if sec_of now mod 60 = i then (if e = k \<and> l < sec_of now + 60 then 1 else 0) else 0)
      + in_bucket k i l tr" for i
    by (simp add: c in_bucket_def)
  moreover have "last_minute k l (c # tr) = (if e = k \<and> l < sec_of now + 60 then 1 else 0) + last_minute k l tr"
    by (simp add: c last_minute_def)
  ultimately show ?case using Cons.IH by (simp add: sum.distrib)
qed (simp add: in_bucket_def last_minute_def)

lemma fold_add_u32: "fold (\<lambda>b t. t + ucast (f b)) bs (t :: u32) = t + of_nat (\<Sum>b\<leftarrow>bs. unat (f b :: u16))"
  by (induction bs arbitrary: t) (simp_all add: algebra_simps)

lemma window_total_exact:
  assumes holds: "fabric_holds tr fab" and quiet: "quiet_seconds tr" and k: "k \<noteq> Fab_Tick"
    and f: "\<And>b. f b = fabric_counter k b"
  shows "unat (window_total f fab) = last_minute k (unat (fa_last_bucket_sec fab)) tr"
    and "last_minute k (unat (fa_last_bucket_sec fab)) tr < 60 * 65536"
proof -
  define l where "l = unat (fa_last_bucket_sec fab)"
  have len: "length (fa_buckets fab) = 60" and old: "\<forall>(e, now) \<in> set tr. sec_of now \<le> l"
    using holds by (auto simp: fabric_holds_def l_def)
  note small = in_bucket_small [OF quiet old]
  have each: "unat (f (fa_buckets fab ! i)) = in_bucket k i l tr" if "i < 60" for i
    using holds that k small [of k i] by (simp add: fabric_holds_def f l_def unat_of_nat)
  have "(\<Sum>b\<leftarrow>fa_buckets fab. unat (f b)) = (\<Sum>i<60. unat (f (fa_buckets fab ! i)))"
    using len by (simp add: sum_list_sum_nth atLeast0LessThan)
  also have "\<dots> = last_minute k l tr" using each by (simp add: sum_in_bucket [symmetric])
  finally have tot: "window_total f fab = of_nat (last_minute k l tr)"
    by (simp add: window_total_def fold_add_u32)
  have "last_minute k l tr \<le> (\<Sum>i<60::nat. 65535)"
    unfolding sum_in_bucket [symmetric] by (rule sum_mono) (use small in \<open>auto simp: less_Suc_eq_le [symmetric]\<close>)
  then have lt: "last_minute k l tr < 60 * 65536" by simp
  then show "last_minute k (unat (fa_last_bucket_sec fab)) tr < 60 * 65536" by (simp add: l_def)
  show "unat (window_total f fab) = last_minute k (unat (fa_last_bucket_sec fab)) tr"
    using lt unfolding tot l_def by (simp add: unat_of_nat)
qed

definition congestion :: "nat \<Rightarrow> nat \<Rightarrow> nat \<Rightarrow> nat" where
  "congestion rx fail blocked =
     min 100 ((rx * 100 div 60 * 2 + blocked * 100 div 60 * 25 + fail * 100 div 60 * 10) div 100)"

lemma score_of_totals_exact:
  assumes "unat rx < 60 * 65536" "unat fail < 60 * 65536" "unat blocked < 60 * 65536"
  shows "unat (score_of_totals rx fail blocked) = congestion (unat rx) (unat fail) (unat blocked)"
proof -
  have rate: "unat (t * 100 div FABRIC_BUCKETS) = unat t * 100 div 60 \<and> unat t * 100 div 60 < 6553600"
    if "unat t < 60 * 65536" for t
  proof -
    have "unat (t * 100) = unat t * 100" using that by (subst unat_mult_lem [THEN iffD1]) simp_all
    with that show ?thesis by (simp add: unat_div)
  qed
  note r = rate [OF assms(1)] and fl = rate [OF assms(2)] and b = rate [OF assms(3)]
  define s where "s = (rx * 100 div FABRIC_BUCKETS) * 2 + (blocked * 100 div FABRIC_BUCKETS) * 25
     + (fail * 100 div FABRIC_BUCKETS) * 10"
  have us: "unat s = unat rx * 100 div 60 * 2 + unat blocked * 100 div 60 * 25 + unat fail * 100 div 60 * 10"
    using r fl b unfolding s_def by (simp add: unat_word_ariths)
  have "unat (ucast ((if s > 10000 then 10000 else s) div 100) :: u8) = min 100 (unat s div 100)"
    by (auto simp: unat_ucast_mod unat_div word_less_nat_alt min_def not_less)
  then show ?thesis unfolding score_of_totals_def congestion_def Let_def s_def [symmetric] us .
qed

section \<open>Properties\<close>

text \<open>C17: The congestion score is the documented function of the last sixty seconds. After any
  sequence of fabric events at times that do not run backwards, with fewer than 65536 events in
  any one second, the score computed at time \<open>t\<close> is two points per reception per second, 25 per
  duty-cycle block per second and ten per failed transmission per second, cut off at 100, over
  exactly the events of the sixty seconds that end with the second of \<open>t\<close>.\<close>

theorem fabric_score_exact:
  assumes "sorted (map (\<lambda>(e, now). unat now) calls @ [unat t])" "quiet_seconds calls"
  shows "unat (fst (fabric_score t (fold fabric_step calls fabric_boot))) =
    congestion (last_minute Fab_Rx (sec_of t) calls) (last_minute Fab_Fail (sec_of t) calls)
      (last_minute Fab_Blocked (sec_of t) calls)"
proof -
  have "sorted (unat (0 :: u32) # map (\<lambda>(e, now). unat now) calls @ [unat t])" using assms(1) by simp
  from fabric_run_holds [OF fabric_holds_boot this]
  have run: "fabric_holds calls (fold fabric_step calls fabric_boot)"
    "unat (fa_last_bucket_sec (fold fabric_step calls fabric_boot)) \<le> sec_of t"
    by (simp_all add: fabric_boot_def)
  note adv = fabric_holds_advance [OF run]
  note w = window_total_exact [OF adv assms(2)]
  show ?thesis
    using w(1) [of Fab_Rx fk_rx_count] w(1) [of Fab_Fail fk_tx_fail_count] w(1) [of Fab_Blocked fk_tx_blocked_dc]
      w(2) [of Fab_Rx fk_rx_count] w(2) [of Fab_Fail fk_tx_fail_count] w(2) [of Fab_Blocked fk_tx_blocked_dc]
    by (simp add: fabric_score_def Let_def score_of_totals_exact)
qed

lemma fabric_score_exact_witness:
  "unat (fst (fabric_score 61500 (fold fabric_step
     [(Fab_Blocked, 1000), (Fab_Blocked, 1900), (Fab_Blocked, 2000), (Fab_Fail, 59000)] fabric_boot))) =
   congestion 0 1 1"
proof -
  have sec: "sec_of 61500 = 61" "sec_of 1000 = 1" "sec_of 1900 = 1" "sec_of 2000 = 2" "sec_of 59000 = 59"
    by (simp_all add: sec_of_def)
  have "quiet_seconds [(Fab_Blocked, 1000), (Fab_Blocked, 1900), (Fab_Blocked, 2000), (Fab_Fail, 59000)]"
    by (simp add: quiet_seconds_def)
  then show ?thesis
    using fabric_score_exact [of "[(Fab_Blocked, 1000), (Fab_Blocked, 1900), (Fab_Blocked, 2000), (Fab_Fail, 59000)]" 61500]
    by (simp add: last_minute_def sec)
qed

lemma fabric_band_spec:
  "(fst (fabric_band s) = FABRIC_DROP \<longleftrightarrow> 80 \<le> s \<and> s < 95) \<and>
   (fst (fabric_band s) = FABRIC_SEND_NOW \<longleftrightarrow> s < 20) \<and>
   (fst (fabric_band s) \<noteq> FABRIC_DELAY \<longrightarrow> snd (fabric_band s) = 0) \<and>
   snd (fabric_band s) \<le> RIVR_FABRIC_MAX_EXTRA_DELAY_MS"
  by (auto simp: fabric_band_def Let_def word_le_nat_alt word_less_nat_alt)

text \<open>The linear bands end well below the 300 ms and 1000 ms at which the code cuts them off: a score
  of 49 adds 290 ms and a score of 79 adds 540 ms, so those cut-offs never act.\<close>

lemma fabric_band_delay:
  assumes "20 \<le> s" "s < 80"
  shows "snd (fabric_band s) = (if s < 50 then (ucast s - 20) * 10 else 250 + (ucast s - 50) * 10) \<and>
    unat (snd (fabric_band s)) \<le> (if s < 50 then 290 else 540)"
proof -
  have d: "ucast (s - c) = (ucast s - ucast c :: u32)" if "c \<le> s" for c
    using that by (simp add: word_eq_unat unat_sub_le word_le_nat_alt)
  have u: "unat ((ucast s - ucast c :: u32) * 10) = (unat s - unat c) * 10" if "c \<le> s" for c
    using that unat_u8_less [of s] by (subst unat_mult_lem [THEN iffD1]) (simp_all add: unat_sub_le word_le_nat_alt)
  show ?thesis
  proof (cases "s < 50")
    case True
    then have "unat s - 20 \<le> 29" by (simp add: word_less_nat_alt)
    with True assms u [of 20] d [of 20] show ?thesis
      by (simp add: fabric_band_def Let_def word_less_nat_alt word_le_nat_alt)
  next
    case False
    then have s: "50 \<le> s" by simp
    have n: "unat s - 50 \<le> 29" using assms(2) by (simp add: word_less_nat_alt)
    have v: "unat (250 + (ucast s - 50) * 10 :: u32) = 250 + (unat s - 50) * 10"
      using u [OF s] assms(2) by (subst unat_add_lem [THEN iffD1]) (simp_all add: word_less_nat_alt)
    with n assms s u [OF s] d [OF s] show ?thesis
      by (simp add: fabric_band_def Let_def word_less_nat_alt word_le_nat_alt)
  qed
qed

text \<open>What the fabric may do to a relayed frame. Without the repeater switch, and for every frame
  that is not CHAT or DATA, it sends at once and changes nothing. For CHAT and DATA it drops exactly
  at scores 80 to 94 and sends at once exactly below 20; an extra delay is only given with a delay
  verdict and never exceeds one second, and at scores from 95 the verdict is a delay of one second,
  so a saturated repeater never falls silent.\<close>

theorem fabric_relay_verdicts:
  assumes "rivr_fabric_decide_relay rep m fab pkt now = (m', fab', d, extra)"
  shows "(d \<noteq> FABRIC_DELAY \<longrightarrow> extra = 0) \<and> extra \<le> 1000 \<and>
    (if \<not> rep \<or> h_pkt_type pkt \<notin> {PKT_CHAT, PKT_DATA} then d = FABRIC_SEND_NOW \<and> fab' = fab \<and> m' = m
     else let s = fst (fabric_score now fab) in
       (d = FABRIC_DROP \<longleftrightarrow> 80 \<le> s \<and> s < 95) \<and> (d = FABRIC_SEND_NOW \<longleftrightarrow> s < 20) \<and>
       (95 \<le> s \<longrightarrow> extra = 1000) \<and> fa_last_score fab' = s \<and> m' = (case d of
          FABRIC_DROP \<Rightarrow> bump fabric_drop m | FABRIC_DELAY \<Rightarrow> bump fabric_delay m | FABRIC_SEND_NOW \<Rightarrow> m))"
proof (cases "\<not> rep \<or> h_pkt_type pkt \<notin> {PKT_CHAT, PKT_DATA}")
  case True
  then have "rivr_fabric_decide_relay rep m fab pkt now = (m, fab, FABRIC_SEND_NOW, 0)"
    by (auto simp: rivr_fabric_decide_relay_def)
  with assms True show ?thesis by auto
next
  case False
  define s where "s = fst (fabric_score now fab)"
  have s': "fst (fabric_score now (fab\<lparr>fa_relay_total := fa_relay_total fab + 1\<rparr>)) = s"
    by (simp add: s_def fabric_score_def fabric_advance_def window_total_def Let_def)
  have guard: "95 \<le> s \<Longrightarrow> fabric_band s = (FABRIC_DELAY, 1000)" by (simp add: fabric_band_def)
  have "fabric_band s = (d, extra) \<and> fa_last_score fab' = s \<and> m' = (case d of
      FABRIC_DROP \<Rightarrow> bump fabric_drop m | FABRIC_DELAY \<Rightarrow> bump fabric_delay m | FABRIC_SEND_NOW \<Rightarrow> m)"
    using assms False s' unfolding rivr_fabric_decide_relay_def
    by (auto simp: Let_def split: prod.splits fabric_decision_t.splits)
  with fabric_band_spec [of s] guard False show ?thesis
    by (auto simp: Let_def s_def [symmetric])
qed

lemma fabric_relay_verdicts_witness:
  "fst (snd (snd (rivr_fabric_decide_relay True metrics_zero fabric_boot (demo_hdr\<lparr>h_pkt_type := 2\<rparr>) 0))) = FABRIC_SEND_NOW"
proof -
  obtain m' fab' d extra where run: "rivr_fabric_decide_relay True metrics_zero fabric_boot
      (demo_hdr\<lparr>h_pkt_type := 2\<rparr>) 0 = (m', fab', d, extra)"
    by (cases "rivr_fabric_decide_relay True metrics_zero fabric_boot (demo_hdr\<lparr>h_pkt_type := 2\<rparr>) 0")
  from fabric_relay_verdicts [OF run] show ?thesis unfolding run by simp
qed

end
