(* ===== verification/Rivr_Beacon.thy ===== *)
theory Rivr_Beacon
  imports Rivr_Prelude
begin

text \<open>
  The beacon scheduler (beacon_sched.h, beacon_sched.c): two start-up beacons, then beacons that
  are suppressed while two live neighbours are known and are otherwise at least an interval plus a
  jitter apart. The pointer to the state is never null in the firmware, so the null checks have no
  counterpart.
\<close>

abbreviation "BEACON_STARTUP_COUNT \<equiv> (2 :: u8)"
abbreviation "BEACON_STARTUP_WINDOW_MS \<equiv> (300000 :: u32)"
abbreviation "BEACON_SUPPRESS_MIN_NEIGHBORS \<equiv> (2 :: u8)"

datatype beacon_sched_result_t =
  BEACON_TX_STARTUP | BEACON_TX_SCHEDULED | BEACON_SUPPRESS_NEIGHBORS | BEACON_SUPPRESS_INTERVAL

record beacon_sched_t =
  bc_last_tx_ms :: u32
  bc_next_min_tx_ms :: u32
  bc_startup_count :: u8
  bc_startup_done :: bool

definition beacon_sched_zero :: beacon_sched_t where
  "beacon_sched_zero = \<lparr>bc_last_tx_ms = 0, bc_next_min_tx_ms = 0, bc_startup_count = 0, bc_startup_done = False\<rparr>"

definition beacon_sched_set_initial_tx :: "u32 \<Rightarrow> beacon_sched_t \<Rightarrow> beacon_sched_t" where
  "beacon_sched_set_initial_tx now s = s\<lparr>bc_last_tx_ms := now\<rparr>"

definition beacon_jitter :: "u32 \<Rightarrow> u32 \<Rightarrow> u32" where
  "beacon_jitter jitter_max entropy = (if jitter_max > 0 then entropy mod jitter_max else 0)"

definition beacon_sched_tick ::
  "beacon_sched_t \<Rightarrow> u32 \<Rightarrow> u32 \<Rightarrow> u32 \<Rightarrow> u8 \<Rightarrow> u32 \<Rightarrow> beacon_sched_result_t \<times> beacon_sched_t" where
  "beacon_sched_tick s now interval jitter_max live entropy =
     (let s1 = (if \<not> bc_startup_done s \<and>
                   (now \<ge> BEACON_STARTUP_WINDOW_MS \<or> bc_startup_count s \<ge> BEACON_STARTUP_COUNT)
                then s\<lparr>bc_startup_done := True\<rparr> else s)
      in if \<not> bc_startup_done s1 then
           let c = bc_startup_count s1 + 1;
               s2 = s1\<lparr>bc_startup_count := c,
                       bc_startup_done := (if c \<ge> BEACON_STARTUP_COUNT then True else bc_startup_done s1)\<rparr>
           in (BEACON_TX_STARTUP,
               s2\<lparr>bc_last_tx_ms := now, bc_next_min_tx_ms := interval + beacon_jitter jitter_max entropy\<rparr>)
         else if live \<ge> BEACON_SUPPRESS_MIN_NEIGHBORS then (BEACON_SUPPRESS_NEIGHBORS, s1)
         else if bc_last_tx_ms s1 \<noteq> 0 \<and> now - bc_last_tx_ms s1 < bc_next_min_tx_ms s1
           then (BEACON_SUPPRESS_INTERVAL, s1)
         else (BEACON_TX_SCHEDULED,
               s1\<lparr>bc_last_tx_ms := now, bc_next_min_tx_ms := interval + beacon_jitter jitter_max entropy\<rparr>))"

section \<open>Runs of the poll timer\<close>

text \<open>A poll is the time, the number of live neighbours and the entropy word.\<close>

type_synonym beacon_poll = "u32 \<times> u8 \<times> u32"

definition beacon_transmits :: "beacon_sched_result_t \<Rightarrow> bool" where
  "beacon_transmits r \<longleftrightarrow> r = BEACON_TX_STARTUP \<or> r = BEACON_TX_SCHEDULED"

text \<open>The times at which a run of polls transmits.\<close>

fun beacon_run :: "u32 \<Rightarrow> u32 \<Rightarrow> beacon_poll list \<Rightarrow> beacon_sched_t \<Rightarrow> u32 list" where
  "beacon_run interval jitter_max [] s = []"
| "beacon_run interval jitter_max ((now, live, entropy) # ps) s =
     (case beacon_sched_tick s now interval jitter_max live entropy of (r, s') \<Rightarrow>
        if beacon_transmits r then now # beacon_run interval jitter_max ps s'
        else beacon_run interval jitter_max ps s')"

abbreviation poll_ms :: "beacon_poll \<Rightarrow> nat" where
  "poll_ms p \<equiv> unat (fst p)"

lemma beacon_jitter_le: "unat (beacon_jitter jm e) \<le> unat jm"
  by (simp add: beacon_jitter_def unat_mod word_gt_0 unat_gt_0 less_imp_le)

lemma beacon_wait_le:
  assumes "unat iv + unat jm < 2 ^ 32"
  shows "unat (iv + beacon_jitter jm e) \<le> unat iv + unat jm" "unat iv \<le> unat (iv + beacon_jitter jm e)"
proof -
  have "unat (iv + beacon_jitter jm e) = unat iv + unat (beacon_jitter jm e)"
    using assms beacon_jitter_le [of jm e] by (subst unat_add_lem [THEN iffD1]) simp_all
  with beacon_jitter_le [of jm e] show "unat (iv + beacon_jitter jm e) \<le> unat iv + unat jm"
    "unat iv \<le> unat (iv + beacon_jitter jm e)" by simp_all
qed

lemma beacon_tick_last:
  assumes "beacon_sched_tick s now iv jm live e = (r, s')"
  shows "bc_last_tx_ms s' = (if beacon_transmits r then now else bc_last_tx_ms s) \<and>
    bc_next_min_tx_ms s' = (if beacon_transmits r then iv + beacon_jitter jm e else bc_next_min_tx_ms s)"
  using assms by (auto simp: beacon_sched_tick_def beacon_transmits_def Let_def split: if_splits)

text \<open>An isolated node that does not transmit is still inside the wait it set itself.\<close>

lemma beacon_tick_isolated:
  assumes "beacon_sched_tick s now iv jm live e = (r, s')" "live < 2" "\<not> beacon_transmits r"
  shows "now - bc_last_tx_ms s < bc_next_min_tx_ms s"
  using assms by (auto simp: beacon_sched_tick_def beacon_transmits_def Let_def not_less[symmetric] split: if_splits)

text \<open>A scheduled transmission waits out the previous interval.\<close>

lemma beacon_tick_scheduled:
  assumes "beacon_sched_tick s now iv jm live e = (r, s')" "bc_startup_done s" "bc_last_tx_ms s \<noteq> 0"
    "beacon_transmits r"
  shows "bc_next_min_tx_ms s \<le> now - bc_last_tx_ms s" "bc_startup_done s'"
  using assms by (auto simp: beacon_sched_tick_def beacon_transmits_def Let_def split: if_splits)

lemma beacon_tick_done: "beacon_sched_tick s now iv jm live e = (r, s') \<Longrightarrow> bc_startup_done s \<Longrightarrow> bc_startup_done s'"
  by (auto simp: beacon_sched_tick_def Let_def split: if_splits)

lemma beacon_run_hit:
  assumes small: "unat iv + unat jm < 2 ^ 32"
  shows "ps \<noteq> [] \<Longrightarrow> \<forall>p \<in> set ps. fst (snd p) < 2 \<Longrightarrow> unat (bc_next_min_tx_ms s) \<le> unat iv + unat jm \<Longrightarrow>
    sorted (unat (bc_last_tx_ms s) # map poll_ms ps) \<Longrightarrow> successively (\<lambda>p q. poll_ms q \<le> poll_ms p + P) ps \<Longrightarrow>
    poll_ms (hd ps) \<le> T + (unat iv + unat jm) + P \<Longrightarrow> T + (unat iv + unat jm) \<le> poll_ms (last ps) \<Longrightarrow>
    \<exists>x \<in> insert (bc_last_tx_ms s) (set (beacon_run iv jm ps s)). T \<le> unat x \<and> unat x \<le> T + (unat iv + unat jm) + P"
proof (induction ps arbitrary: s)
  case (Cons p ps)
  obtain now live e where p: "p = (now, live, e)" by (cases p)
  obtain r s' where tick: "beacon_sched_tick s now iv jm live e = (r, s')"
    by (cases "beacon_sched_tick s now iv jm live e")
  note lst = beacon_tick_last [OF tick]
  have live: "live < 2" and le: "bc_last_tx_ms s \<le> now" and srt: "sorted (map poll_ms (p # ps))"
    using Cons.prems(2,4) by (auto simp: p word_le_nat_alt)
  have wait: "unat (bc_next_min_tx_ms s') \<le> unat iv + unat jm"
    using lst Cons.prems(3) beacon_wait_le(1) [OF small] by auto
  have recent: "unat now \<le> unat (bc_last_tx_ms s') + (unat iv + unat jm)"
    using lst beacon_tick_isolated [OF tick live] Cons.prems(3) le
    by (cases "beacon_transmits r") (auto simp: word_less_nat_alt unat_sub_le)
  have le': "unat (bc_last_tx_ms s') \<le> unat now" using lst le by (auto simp: word_le_nat_alt)
  have mem: "insert (bc_last_tx_ms s) (set (beacon_run iv jm (p # ps) s)) =
      insert (bc_last_tx_ms s) (insert (bc_last_tx_ms s') (set (beacon_run iv jm ps s')))"
    using lst by (auto simp: p tick)
  show ?case
  proof (cases "T + (unat iv + unat jm) \<le> unat now")
    case True
    with recent le' Cons.prems(6) show ?thesis unfolding mem by (intro bexI [of _ "bc_last_tx_ms s'"]) (auto simp: p)
  next
    case False
    with Cons.prems(7) have ne: "ps \<noteq> []" by (auto simp: p)
    have hd: "poll_ms (hd ps) \<le> unat now + P" using Cons.prems(5) ne by (cases ps) (auto simp: p)
    have "sorted (unat (bc_last_tx_ms s') # map poll_ms ps)" using srt le' by (auto simp: p)
    moreover have "successively (\<lambda>p q. poll_ms q \<le> poll_ms p + P) ps" using Cons.prems(5) by (cases ps) auto
    ultimately have "\<exists>x \<in> insert (bc_last_tx_ms s') (set (beacon_run iv jm ps s')).
        T \<le> unat x \<and> unat x \<le> T + (unat iv + unat jm) + P"
      using Cons.IH [of s'] Cons.prems(2,7) wait hd False ne by simp
    then show ?thesis unfolding mem by blast
  qed
qed simp

lemma beacon_run_spaced:
  assumes small: "unat iv + unat jm < 2 ^ 32"
  shows "bc_startup_done s \<Longrightarrow> bc_last_tx_ms s \<noteq> 0 \<Longrightarrow> unat iv \<le> unat (bc_next_min_tx_ms s) \<Longrightarrow>
    sorted (unat (bc_last_tx_ms s) # map poll_ms ps) \<Longrightarrow>
    successively (\<lambda>a b. unat a + unat iv \<le> unat b) (bc_last_tx_ms s # beacon_run iv jm ps s)"
proof (induction ps arbitrary: s)
  case (Cons p ps)
  obtain now live e where p: "p = (now, live, e)" by (cases p)
  obtain r s' where tick: "beacon_sched_tick s now iv jm live e = (r, s')"
    by (cases "beacon_sched_tick s now iv jm live e")
  note lst = beacon_tick_last [OF tick]
  have le: "unat (bc_last_tx_ms s) \<le> unat now" and srt: "sorted (map poll_ms (p # ps))"
    and srt': "sorted (unat (bc_last_tx_ms s) # map poll_ms ps)" using Cons.prems(4) by (auto simp: p)
  show ?case
  proof (cases "beacon_transmits r")
    case False
    with lst Cons.IH [of s'] Cons.prems srt' beacon_tick_done [OF tick] show ?thesis by (simp add: p tick)
  next
    case True
    note sch = beacon_tick_scheduled [OF tick Cons.prems(1,2) True]
    have "unat (bc_last_tx_ms s) + unat iv \<le> unat now"
      using sch(1) Cons.prems(3) le by (simp add: word_le_nat_alt unat_sub_le)
    moreover have "0 < unat (bc_last_tx_ms s)" using Cons.prems(2) by (simp add: unat_gt_0)
    ultimately have now: "now \<noteq> 0" "unat (bc_last_tx_ms s) + unat iv \<le> unat now" by auto
    have "sorted (unat (bc_last_tx_ms s') # map poll_ms ps)" using lst True srt by (simp add: p)
    with Cons.IH [of s'] lst True now sch(2) beacon_wait_le(2) [OF small] show ?thesis by (simp add: p tick)
  qed
qed simp

section \<open>Properties\<close>

text \<open>C19: An isolated node stays visible. While fewer than two live neighbours are known and the poll
  timer fires at least every \<open>P\<close> milliseconds, every stretch of interval plus maximal jitter plus
  \<open>P\<close> milliseconds inside the run contains a beacon.\<close>

theorem beacon_isolated_keepalive:
  assumes "unat interval + unat jitter_max < 2 ^ 32" "polls \<noteq> []" "\<forall>p \<in> set polls. fst (snd p) < 2"
    and "unat (bc_next_min_tx_ms s) \<le> unat interval + unat jitter_max"
    and "sorted (unat (bc_last_tx_ms s) # map poll_ms polls)"
    and "successively (\<lambda>p q. poll_ms q \<le> poll_ms p + P) polls"
    and "unat (bc_last_tx_ms s) < T" "poll_ms (hd polls) \<le> T + (unat interval + unat jitter_max) + P"
    and "T + (unat interval + unat jitter_max) \<le> poll_ms (last polls)"
  shows "\<exists>x \<in> set (beacon_run interval jitter_max polls s).
    T \<le> unat x \<and> unat x \<le> T + (unat interval + unat jitter_max) + P"
  using beacon_run_hit [OF assms(1-6,8,9)] assms(7) by auto

lemma beacon_isolated_keepalive_witness:
  "beacon_run 100000 20000 [(60000, 0, 3), (120000, 1, 5), (180000, 0, 7), (240000, 0, 9)] beacon_sched_zero \<noteq> []"
  using beacon_isolated_keepalive [of 100000 20000
      "[(60000, 0, 3), (120000, 1, 5), (180000, 0, 7), (240000, 0, 9)]" beacon_sched_zero 60000 100000]
  by (auto simp: beacon_sched_zero_def simp del: beacon_run.simps)

text \<open>Beacons keep their distance. Once the start-up phase is over, whatever the neighbour counts and
  the entropy, every two consecutive beacons are at least the configured interval apart.\<close>

theorem beacon_spacing:
  assumes "unat interval + unat jitter_max < 2 ^ 32" "bc_startup_done s" "bc_last_tx_ms s \<noteq> 0"
    and "unat interval \<le> unat (bc_next_min_tx_ms s)"
    and "sorted (unat (bc_last_tx_ms s) # map poll_ms polls)"
  shows "successively (\<lambda>a b. unat a + unat interval \<le> unat b) (bc_last_tx_ms s # beacon_run interval jitter_max polls s)"
  using assms by (rule beacon_run_spaced)

lemma beacon_spacing_witness:
  "beacon_run 100 10 [(150, 0, 0), (190, 0, 3), (210, 0, 4)]
     \<lparr>bc_last_tx_ms = 50, bc_next_min_tx_ms = 100, bc_startup_count = 2, bc_startup_done = True\<rparr> \<noteq> [150, 190]"
  using beacon_spacing [of 100 10 "\<lparr>bc_last_tx_ms = 50, bc_next_min_tx_ms = 100, bc_startup_count = 2, bc_startup_done = True\<rparr>"
      "[(150, 0, 0), (190, 0, 3), (210, 0, 4)]"] by auto

end
