(* ===== verification/Rivr_FwdSet.thy ===== *)
theory Rivr_FwdSet
  imports Rivr_NeighborTable
begin

text \<open>
  The forward-candidate set (fwd_set.h): the three best-scored live neighbours and counts from
  which a relay decides whether to relay at all and how long to hold off.
\<close>

abbreviation "FWDSET_MAX \<equiv> (3 :: u8)"
abbreviation "FWDSET_MIN_RELAY_SCORE \<equiv> (20 :: u8)"
abbreviation "FWDSET_HOLDOFF_MID_MS \<equiv> (50 :: u32)"
abbreviation "FWDSET_HOLDOFF_LOW_MS \<equiv> (120 :: u32)"
abbreviation "FWDSET_DENSITY_DENSE_MS \<equiv> (80 :: u32)"
abbreviation "FWDSET_DENSITY_MED_MS \<equiv> (40 :: u32)"

record fwd_candidate_t =
  fc_node_id :: u32
  fc_score :: u8

record fwd_set_t =
  fs_candidates :: "fwd_candidate_t list"
  fs_count :: u8
  fs_best_direct_score :: u8
  fs_direct_count :: u8
  fs_viable_count :: u8

definition fwd_set_zero :: fwd_set_t where
  "fwd_set_zero = \<lparr>fs_candidates = replicate 3 \<lparr>fc_node_id = 0, fc_score = 0\<rparr>, fs_count = 0,
     fs_best_direct_score = 0, fs_direct_count = 0, fs_viable_count = 0\<rparr>"

text \<open>The bubble loop from position \<open>pos\<close>.\<close>

fun bubble_up :: "nat \<Rightarrow> fwd_candidate_t list \<Rightarrow> fwd_candidate_t list" where
  "bubble_up 0 cs = cs"
| "bubble_up (Suc p) cs =
     (if fc_score (cs ! Suc p) > fc_score (cs ! p)
      then bubble_up p (cs[Suc p := cs ! p, p := cs ! Suc p]) else cs)"

definition fwdset_insert :: "fwd_candidate_t \<Rightarrow> fwd_set_t \<Rightarrow> fwd_set_t" where
  "fwdset_insert c fs =
     (if fs_count fs < FWDSET_MAX then
        let pos = unat (fs_count fs) in
        fs\<lparr>fs_candidates := bubble_up pos ((fs_candidates fs)[pos := c]), fs_count := fs_count fs + 1\<rparr>
      else if fc_score c > fc_score (fs_candidates fs ! 2) then
        fs\<lparr>fs_candidates := bubble_up 2 ((fs_candidates fs)[2 := c])\<rparr>
      else fs)"

definition fwdset_skip :: "u32 \<Rightarrow> rivr_neighbor_t \<Rightarrow> bool" where
  "fwdset_skip now n \<longleftrightarrow> nb_neighbor_id n = 0 \<or> now - nb_last_seen_ms n > NTABLE_STALE_MS"

definition fwdset_visit :: "rivr_role \<Rightarrow> u32 \<Rightarrow> rivr_neighbor_t \<Rightarrow> fwd_set_t \<Rightarrow> fwd_set_t" where
  "fwdset_visit role now n fs =
     (if fwdset_skip now n then fs
      else
        let sc = neighbor_link_score_full role n now;
            fs1 = (if nb_flags n AND NTABLE_FLAG_DIRECT \<noteq> 0 then
                     fs\<lparr>fs_direct_count := fs_direct_count fs + 1,
                        fs_best_direct_score :=
                          (if sc > fs_best_direct_score fs then sc else fs_best_direct_score fs)\<rparr>
                   else fs);
            fs2 = (if sc \<ge> FWDSET_MIN_RELAY_SCORE then fs1\<lparr>fs_viable_count := fs_viable_count fs1 + 1\<rparr> else fs1)
        in fwdset_insert \<lparr>fc_node_id = nb_neighbor_id n, fc_score = sc\<rparr> fs2)"

definition fwdset_build :: "rivr_role \<Rightarrow> rivr_neighbor_table_t \<Rightarrow> u32 \<Rightarrow> fwd_set_t" where
  "fwdset_build role tbl now = fold (fwdset_visit role now) (take NTABLE_SIZE (nt_entries tbl)) fwd_set_zero"

definition fwdset_suppress_relay :: "fwd_set_t \<Rightarrow> bool" where
  "fwdset_suppress_relay fs \<longleftrightarrow>
     (if fs_viable_count fs = 0 then False else fs_best_direct_score fs < FWDSET_MIN_RELAY_SCORE)"

definition fwdset_extra_holdoff_ms :: "fwd_set_t \<Rightarrow> u32" where
  "fwdset_extra_holdoff_ms fs =
     (let quality_ms = (if fs_best_direct_score fs \<ge> 70 then 0
                        else if fs_best_direct_score fs \<ge> 40 then FWDSET_HOLDOFF_MID_MS
                        else if fs_best_direct_score fs \<ge> FWDSET_MIN_RELAY_SCORE then FWDSET_HOLDOFF_LOW_MS
                        else 0);
          density_ms = (if fs_viable_count fs \<ge> 4 then FWDSET_DENSITY_DENSE_MS
                        else if fs_viable_count fs \<ge> 2 then FWDSET_DENSITY_MED_MS else 0)
      in quality_ms + density_ms)"

section \<open>Bubbling is insertion into a descending list\<close>

fun insert_desc :: "fwd_candidate_t \<Rightarrow> fwd_candidate_t list \<Rightarrow> fwd_candidate_t list" where
  "insert_desc x [] = [x]"
| "insert_desc x (y # ys) = (if fc_score x \<le> fc_score y then y # insert_desc x ys else x # y # ys)"

abbreviation descending :: "fwd_candidate_t list \<Rightarrow> bool" where
  "descending cs \<equiv> sorted_wrt (\<lambda>a b. fc_score b \<le> fc_score a) cs"

lemma set_insert_desc [simp]: "set (insert_desc x ys) = insert x (set ys)"
  by (induction ys) auto

lemma length_insert_desc [simp]: "length (insert_desc x ys) = Suc (length ys)"
  by (induction ys) auto

lemma descending_insert: "descending ys \<Longrightarrow> descending (insert_desc x ys)"
  by (induction ys) auto

lemma insert_desc_end: "\<forall>y \<in> set ys. fc_score x \<le> fc_score y \<Longrightarrow> insert_desc x ys = ys @ [x]"
  by (induction ys) auto

lemma insert_desc_before: "fc_score y < fc_score x \<Longrightarrow> insert_desc x (ys @ [y]) = insert_desc x ys @ [y]"
  by (induction ys) auto

lemma bubble_up_insert:
  "descending xs \<Longrightarrow> bubble_up (length xs) (xs @ x # rest) = insert_desc x xs @ rest"
proof (induction xs arbitrary: rest rule: rev_induct)
  case (snoc y ys)
  have d: "descending ys" and ge: "\<forall>z \<in> set ys. fc_score y \<le> fc_score z"
    using snoc.prems by (auto simp: sorted_wrt_append)
  show ?case
  proof (cases "fc_score y < fc_score x")
    case True
    have "bubble_up (length (ys @ [y])) ((ys @ [y]) @ x # rest) = bubble_up (length ys) (ys @ x # y # rest)"
      using True by (simp add: nth_append list_update_append)
    also have "\<dots> = insert_desc x ys @ y # rest" by (rule snoc.IH [OF d])
    finally show ?thesis using insert_desc_before [OF True] by simp
  next
    case False
    then have le: "fc_score x \<le> fc_score y" by simp
    have "insert_desc x (ys @ [y]) = (ys @ [y]) @ [x]"
      using le ge by (intro insert_desc_end) (auto intro: order_trans)
    with False show ?thesis by (simp add: nth_append)
  qed
qed simp

lemma take_insert_desc: "take n (insert_desc x (take n ys)) = take n (insert_desc x ys)"
proof (induction ys arbitrary: n)
  case (Cons y ys)
  then show ?case
  proof (cases n)
    case (Suc m)
    with Cons.IH [of m] show ?thesis by (cases m) (auto simp: min_def)
  qed simp
qed simp

text \<open>The candidates in use, and what inserting does to them.\<close>

definition fs_top :: "fwd_set_t \<Rightarrow> fwd_candidate_t list" where
  "fs_top fs = take (unat (fs_count fs)) (fs_candidates fs)"

definition fwdset_ok :: "fwd_set_t \<Rightarrow> bool" where
  "fwdset_ok fs \<longleftrightarrow> length (fs_candidates fs) = 3 \<and> fs_count fs \<le> 3 \<and> descending (fs_top fs)"

lemma fwd_set_zero_ok: "fwdset_ok fwd_set_zero" "fs_top fwd_set_zero = []"
  by (simp_all add: fwdset_ok_def fwd_set_zero_def fs_top_def)

lemma fwdset_insert_spec:
  assumes "fwdset_ok fs"
  shows "fwdset_ok (fwdset_insert c fs) \<and> fs_top (fwdset_insert c fs) = take 3 (insert_desc c (fs_top fs))"
proof -
  have len: "length (fs_candidates fs) = 3" and cnt: "unat (fs_count fs) \<le> 3" and d: "descending (fs_top fs)"
    using assms by (auto simp: fwdset_ok_def word_le_nat_alt)
  have ltop: "length (fs_top fs) = unat (fs_count fs)" using len cnt by (simp add: fs_top_def)
  show ?thesis
  proof (cases "fs_count fs < 3")
    case True
    define p where "p = unat (fs_count fs)"
    have p: "p < 3" using True by (simp add: p_def word_less_nat_alt)
    have suc: "unat (fs_count fs + 1) = Suc p" using True unat_Suc_less [of "fs_count fs" 3] by (simp add: p_def)
    have cand: "(fs_candidates fs)[p := c] = fs_top fs @ c # drop (Suc p) (fs_candidates fs)"
      using p len by (simp add: fs_top_def p_def upd_conv_take_nth_drop)
    have bub: "bubble_up p ((fs_candidates fs)[p := c]) = insert_desc c (fs_top fs) @ drop (Suc p) (fs_candidates fs)"
      using bubble_up_insert [OF d, of c "drop (Suc p) (fs_candidates fs)"] ltop unfolding cand by (simp add: p_def)
    have top: "fs_top (fwdset_insert c fs) = insert_desc c (fs_top fs)"
      using True bub suc ltop by (simp add: fwdset_insert_def Let_def p_def [symmetric] fs_top_def)
    have "length (insert_desc c (fs_top fs)) \<le> 3" using ltop p by (simp add: p_def)
    moreover have "length (fs_candidates (fwdset_insert c fs)) = 3"
      using True bub ltop len p by (simp add: fwdset_insert_def Let_def p_def [symmetric])
    moreover have "fs_count (fwdset_insert c fs) \<le> 3"
      using True suc p by (simp add: fwdset_insert_def Let_def word_le_nat_alt)
    ultimately show ?thesis using top descending_insert [OF d, of c] by (simp add: fwdset_ok_def)
  next
    case False
    then have c3: "unat (fs_count fs) = 3" using cnt by (simp add: word_less_nat_alt)
    then have top: "fs_top fs = fs_candidates fs" using len by (simp add: fs_top_def)
    obtain a b e where abe: "fs_candidates fs = [a, b, e]"
      using len by (metis (no_types) length_0_conv length_Suc_conv numeral_3_eq_3)
    show ?thesis
    proof (cases "fc_score e < fc_score c")
      case True
      have dab: "descending [a, b]" using d by (simp add: top abe)
      have "bubble_up 2 [a, b, c] = insert_desc c [a, b]"
        using bubble_up_insert [OF dab, of c "[]"] by (simp add: numeral_2_eq_2)
      moreover have "insert_desc c ([a, b] @ [e]) = insert_desc c [a, b] @ [e]" by (rule insert_desc_before [OF True])
      ultimately show ?thesis
        using True False c3 descending_insert [OF dab, of c]
        by (simp add: fwdset_insert_def abe fwdset_ok_def fs_top_def word_le_nat_alt del: bubble_up.simps insert_desc.simps)
    next
      case ge: False
      then have "insert_desc c (fs_top fs) = fs_top fs @ [c]"
        using d by (intro insert_desc_end) (auto simp: top abe)
      with ge False c3 assms show ?thesis by (simp add: fwdset_insert_def abe fs_top_def)
    qed
  qed
qed

section \<open>The best three by sorting\<close>

text \<open>The specification: a stable sort by descending score.\<close>

definition score_key :: "fwd_candidate_t \<Rightarrow> nat" where
  "score_key c = 255 - unat (fc_score c)"

lemma score_key_le: "score_key a \<le> score_key b \<longleftrightarrow> fc_score b \<le> fc_score a"
  using unat_u8_less [of "fc_score a"] unat_u8_less [of "fc_score b"]
  by (auto simp: score_key_def word_le_nat_alt)

lemma filter_insert_desc:
  "descending ys \<Longrightarrow> filter (\<lambda>z. k = score_key z) (insert_desc x ys) =
     filter (\<lambda>z. k = score_key z) ys @ (if k = score_key x then [x] else [])"
proof (induction ys)
  case (Cons y ys)
  show ?case
  proof (cases "fc_score x \<le> fc_score y")
    case False
    then have "\<forall>z \<in> set (y # ys). score_key z \<noteq> score_key x"
      using Cons.prems by (metis list.set_cases order_refl order_trans score_key_le set_ConsD sorted_wrt.simps(2))
    then have "k = score_key x \<Longrightarrow> filter (\<lambda>z. k = score_key z) (y # ys) = []"
      by (auto simp: filter_empty_conv)
    with False show ?thesis by auto
  qed (use Cons in auto)
qed simp

definition insert_all :: "fwd_candidate_t list \<Rightarrow> fwd_candidate_t list" where
  "insert_all cs = fold insert_desc cs []"

lemma insert_all_snoc: "insert_all (cs @ [c]) = insert_desc c (insert_all cs)"
  by (simp add: insert_all_def)

lemma insert_all_descending: "descending (insert_all cs)"
  by (induction cs rule: rev_induct) (simp_all add: insert_all_snoc descending_insert, simp add: insert_all_def)

lemma mset_insert_desc [simp]: "mset (insert_desc x ys) = add_mset x (mset ys)"
  by (induction ys) auto

lemma insert_all_sort: "insert_all cs = sort_key score_key cs"
proof (rule properties_for_sort_key [symmetric])
  show "mset (insert_all cs) = mset cs"
    by (induction cs rule: rev_induct) (simp_all add: insert_all_snoc, simp add: insert_all_def)
  have "filter (\<lambda>z. k = score_key z) (insert_all cs) = filter (\<lambda>z. k = score_key z) cs" for k
    by (induction cs rule: rev_induct)
      (simp_all add: insert_all_snoc filter_insert_desc [OF insert_all_descending], simp add: insert_all_def)
  then show "filter (\<lambda>x. score_key k = score_key x) (insert_all cs) = filter (\<lambda>x. score_key k = score_key x) cs"
    for k by simp
  show "sorted (map score_key (insert_all cs))"
    using insert_all_descending [of cs] by (simp add: sorted_map score_key_le)
qed

section \<open>Building the set\<close>

definition fwd_live :: "u32 \<Rightarrow> rivr_neighbor_table_t \<Rightarrow> rivr_neighbor_t list" where
  "fwd_live now tbl = filter (\<lambda>n. \<not> fwdset_skip now n) (take NTABLE_SIZE (nt_entries tbl))"

definition fwd_candidate :: "rivr_role \<Rightarrow> u32 \<Rightarrow> rivr_neighbor_t \<Rightarrow> fwd_candidate_t" where
  "fwd_candidate role now n = \<lparr>fc_node_id = nb_neighbor_id n, fc_score = neighbor_link_score_full role n now\<rparr>"

definition fwd_direct :: "rivr_neighbor_t \<Rightarrow> bool" where
  "fwd_direct n \<longleftrightarrow> nb_flags n AND NTABLE_FLAG_DIRECT \<noteq> 0"

definition fwd_viable :: "rivr_role \<Rightarrow> u32 \<Rightarrow> rivr_neighbor_t \<Rightarrow> bool" where
  "fwd_viable role now n \<longleftrightarrow> FWDSET_MIN_RELAY_SCORE \<le> neighbor_link_score_full role n now"

lemma fwdset_ok_stats [simp]:
  "fwdset_ok (fs\<lparr>fs_direct_count := a\<rparr>) = fwdset_ok fs" "fs_top (fs\<lparr>fs_direct_count := a\<rparr>) = fs_top fs"
  "fwdset_ok (fs\<lparr>fs_best_direct_score := b\<rparr>) = fwdset_ok fs" "fs_top (fs\<lparr>fs_best_direct_score := b\<rparr>) = fs_top fs"
  "fwdset_ok (fs\<lparr>fs_viable_count := c\<rparr>) = fwdset_ok fs" "fs_top (fs\<lparr>fs_viable_count := c\<rparr>) = fs_top fs"
  by (simp_all add: fwdset_ok_def fs_top_def)

lemma fwdset_insert_stats [simp]:
  "fs_direct_count (fwdset_insert c fs) = fs_direct_count fs"
  "fs_best_direct_score (fwdset_insert c fs) = fs_best_direct_score fs"
  "fs_viable_count (fwdset_insert c fs) = fs_viable_count fs"
  by (simp_all add: fwdset_insert_def Let_def)

text \<open>What the loop has established after the entries \<open>ns\<close>, skipped ones left out.\<close>

definition fwdset_summary :: "rivr_role \<Rightarrow> u32 \<Rightarrow> rivr_neighbor_t list \<Rightarrow> fwd_set_t \<Rightarrow> bool" where
  "fwdset_summary role now ns fs \<longleftrightarrow> fwdset_ok fs \<and>
     fs_top fs = take 3 (insert_all (map (fwd_candidate role now) ns)) \<and>
     fs_direct_count fs = of_nat (length (filter fwd_direct ns)) \<and>
     fs_viable_count fs = of_nat (length (filter (fwd_viable role now) ns)) \<and>
     (\<forall>s. s \<le> fs_best_direct_score fs \<longleftrightarrow>
        s = 0 \<or> (\<exists>n \<in> set ns. fwd_direct n \<and> s \<le> neighbor_link_score_full role n now))"

lemma fwdset_summary_zero: "fwdset_summary role now [] fwd_set_zero"
  using fwd_set_zero_ok by (simp add: fwdset_summary_def insert_all_def) (simp add: fwd_set_zero_def)

lemma fwdset_visit_summary:
  assumes sum: "fwdset_summary role now ns fs" and live: "\<not> fwdset_skip now n"
  shows "fwdset_summary role now (ns @ [n]) (fwdset_visit role now n fs)"
proof -
  define sc where "sc = neighbor_link_score_full role n now"
  define fs1 where "fs1 = (if fwd_direct n then
      fs\<lparr>fs_direct_count := fs_direct_count fs + 1,
         fs_best_direct_score := (if sc > fs_best_direct_score fs then sc else fs_best_direct_score fs)\<rparr> else fs)"
  define fs2 where "fs2 = (if fwd_viable role now n then fs1\<lparr>fs_viable_count := fs_viable_count fs1 + 1\<rparr> else fs1)"
  have visit: "fwdset_visit role now n fs = fwdset_insert (fwd_candidate role now n) fs2"
    using live by (simp add: fwdset_visit_def Let_def fs2_def fs1_def sc_def fwd_viable_def fwd_direct_def fwd_candidate_def)
  have ok2: "fwdset_ok fs2" and top2: "fs_top fs2 = fs_top fs"
    using sum by (simp_all add: fs2_def fs1_def fwdset_summary_def)
  note ins = fwdset_insert_spec [OF ok2, of "fwd_candidate role now n"]
  have top: "fs_top (fwdset_visit role now n fs) = take 3 (insert_all (map (fwd_candidate role now) (ns @ [n])))"
    using ins sum by (simp add: visit top2 fwdset_summary_def insert_all_snoc take_insert_desc)
  have best: "(s \<le> fs_best_direct_score fs1) \<longleftrightarrow> s \<le> fs_best_direct_score fs \<or> (fwd_direct n \<and> s \<le> sc)" for s
    by (auto simp: fs1_def)
  have best2: "fs_best_direct_score fs2 = fs_best_direct_score fs1" by (simp add: fs2_def)
  have counts: "fs_direct_count fs2 = of_nat (length (filter fwd_direct (ns @ [n])))"
    "fs_viable_count fs2 = of_nat (length (filter (fwd_viable role now) (ns @ [n])))"
    using sum by (simp_all add: fs2_def fs1_def fwdset_summary_def)
  show ?thesis
    using ins top counts sum unfolding fwdset_summary_def visit
    by (auto simp: best best2 sc_def)
qed

lemma fwdset_build_summary: "fwdset_summary role now (fwd_live now tbl) (fwdset_build role tbl now)"
proof -
  have "fwdset_summary role now ns fs \<Longrightarrow>
    fwdset_summary role now (ns @ filter (\<lambda>n. \<not> fwdset_skip now n) es) (fold (fwdset_visit role now) es fs)" for ns es fs
  proof (induction es arbitrary: ns fs)
    case (Cons e es)
    then show ?case
    proof (cases "fwdset_skip now e")
      case True
      with Cons show ?thesis by (simp add: fwdset_visit_def)
    next
      case False
      with Cons.IH [OF fwdset_visit_summary [OF Cons.prems False]] show ?thesis by simp
    qed
  qed simp
  from this [OF fwdset_summary_zero, of "take NTABLE_SIZE (nt_entries tbl)"]
  show ?thesis by (simp add: fwdset_build_def fwd_live_def)
qed

section \<open>Properties\<close>

text \<open>The candidate set is the stable sort of the live neighbours by descending link score, cut to
  three, computed in place by bubbling; and the relay is suppressed exactly if some live neighbour
  reaches the relay score while no live direct neighbour does. A node without any such neighbour
  always relays.\<close>

theorem fwdset_build_exact:
  "fs_top (fwdset_build role tbl now) =
     take 3 (sort_key score_key (map (fwd_candidate role now) (fwd_live now tbl))) \<and>
   (fwdset_suppress_relay (fwdset_build role tbl now) \<longleftrightarrow>
     (\<exists>n \<in> set (fwd_live now tbl). fwd_viable role now n) \<and>
     \<not> (\<exists>n \<in> set (fwd_live now tbl). fwd_direct n \<and> fwd_viable role now n))"
proof
  define fs where "fs = fwdset_build role tbl now"
  have sum: "fwdset_summary role now (fwd_live now tbl) fs" by (simp add: fs_def fwdset_build_summary)
  then show "fs_top (fwdset_build role tbl now) =
     take 3 (sort_key score_key (map (fwd_candidate role now) (fwd_live now tbl)))"
    by (simp add: fwdset_summary_def fs_def insert_all_sort)
  define v where "v = length (filter (fwd_viable role now) (fwd_live now tbl))"
  have "v \<le> length (take NTABLE_SIZE (nt_entries tbl))"
    unfolding v_def fwd_live_def by (meson length_filter_le order_trans)
  then have v: "v \<le> 16" by simp
  have "fs_viable_count fs = of_nat v" using sum by (simp add: fwdset_summary_def v_def)
  then have "unat (fs_viable_count fs) = v" using v by (simp add: unat_of_nat)
  then have cnt: "fs_viable_count fs = 0 \<longleftrightarrow> v = 0" by (metis unat_0 unat_eq_zero)
  have vz: "v = 0 \<longleftrightarrow> \<not> (\<exists>n \<in> set (fwd_live now tbl). fwd_viable role now n)"
    by (auto simp: v_def filter_empty_conv)
  have best: "20 \<le> fs_best_direct_score fs \<longleftrightarrow>
      (\<exists>n \<in> set (fwd_live now tbl). fwd_direct n \<and> fwd_viable role now n)"
    using sum by (simp add: fwdset_summary_def fwd_viable_def)
  show "fwdset_suppress_relay (fwdset_build role tbl now) \<longleftrightarrow>
     (\<exists>n \<in> set (fwd_live now tbl). fwd_viable role now n) \<and>
     \<not> (\<exists>n \<in> set (fwd_live now tbl). fwd_direct n \<and> fwd_viable role now n)"
    unfolding fwdset_suppress_relay_def fs_def [symmetric] cnt vz best [symmetric] by auto
qed

end
