(* ===== verification/Rivr_TxDrain.thy ===== *)
theory Rivr_TxDrain
  imports Rivr_TxQueue Rivr_OpFwd Rivr_Airtime Rivr_DutyCycle Rivr_Fabric Rivr_Config
begin

text \<open>
  The transmit side of the main loop (\<open>tx_drain_loop\<close> of main.c): up to two requests per turn are
  popped, held back while their jitter runs, and passed through opportunistic suppression, the
  airtime gate and the duty-cycle gate to the radio. The radio is a parameter: for the \<open>i\<close>-th pop
  of a turn it says whether the transmission succeeded and what the two readings of the clock
  after it were.
\<close>

abbreviation "TX_DRAIN_LIMIT \<equiv> (2 :: nat)"

record tx_side_t =
  ts_queue :: tx_queue
  ts_opfwd :: opfwd_suppress_t
  ts_airtime :: airtime_ctx_t
  ts_dc :: dc_ctx_t
  ts_fabric :: fabric_state_t
  ts_metrics :: rivr_metrics_t

type_synonym tx_radio = "nat \<Rightarrow> rf_tx_request_t \<Rightarrow> bool \<times> u32 \<times> u32"

text \<open>What became of a popped request.\<close>

datatype tx_outcome =
    Tx_Deferred rf_tx_request_t bool
  | Tx_Suppressed rf_tx_request_t
  | Tx_Airtime_Drop rf_tx_request_t
  | Tx_Duty_Drop rf_tx_request_t
  | Tx_Sent rf_tx_request_t
  | Tx_Failed rf_tx_request_t

definition tx_held :: "u32 \<Rightarrow> rf_tx_request_t \<Rightarrow> bool" where
  "tx_held now r \<longleftrightarrow> tx_due_ms r \<noteq> 0 \<and> tx_due_ms r > now"

type_synonym tx_decoded = "(rivr_pkt_hdr_t \<times> u8 list option) option"

fun tx_is_relay :: "tx_decoded \<Rightarrow> bool" where
  "tx_is_relay None = False"
| "tx_is_relay (Some (hdr, pl)) = (h_flags hdr AND PKT_FLAG_RELAY \<noteq> 0)"

fun tx_suppressed :: "build_t \<Rightarrow> opfwd_suppress_t \<Rightarrow> u32 \<Rightarrow> tx_decoded \<Rightarrow> bool" where
  "tx_suppressed build opf now None = False"
| "tx_suppressed build opf now (Some (hdr, pl)) =
     (b_opportunistic_fwd build \<and> tx_is_relay (Some (hdr, pl)) \<and>
      opfwd_suppress_check opf (h_src_id hdr) (h_pkt_id hdr) now)"

text \<open>The hardware path from the duty-cycle gate on: transmit, record, count.\<close>

definition tx_transmit ::
  "build_t \<Rightarrow> tx_radio \<Rightarrow> u32 \<Rightarrow> nat \<Rightarrow> rf_tx_request_t \<Rightarrow> bool \<Rightarrow> tx_side_t \<Rightarrow> tx_outcome \<times> tx_side_t" where
  "tx_transmit build radio now i r is_relay s =
     (let rep = b_fabric_repeater build;
          s1 = s\<lparr>ts_fabric := rivr_fabric_on_tx_enqueued rep now (ts_fabric s)\<rparr>
      in case radio i r of (ok, t1, t2) \<Rightarrow>
        if ok then
          (Tx_Sent r, s1\<lparr>ts_dc := dutycycle_record (ts_dc s1) t1 (tx_toa_us r),
                        ts_fabric := rivr_fabric_on_tx_ok rep t2 (ts_fabric s1),
                        ts_metrics := (if is_relay then bump relay_forwarded_total (ts_metrics s1)
                                       else ts_metrics s1)\<rparr>)
        else (Tx_Failed r, s1\<lparr>ts_fabric := rivr_fabric_on_tx_fail rep t1 (ts_fabric s1)\<rparr>))"

text \<open>The body of the loop for a popped request.\<close>

definition tx_process :: "build_t \<Rightarrow> tx_radio \<Rightarrow> u32 \<Rightarrow> nat \<Rightarrow> rf_tx_request_t \<Rightarrow> tx_side_t \<Rightarrow> tx_outcome \<times> tx_side_t" where
  "tx_process build radio now i r s =
     (if tx_held now r then
        (case rb_try_push r (ts_queue s) of (ok, q) \<Rightarrow> (Tx_Deferred r ok, s\<lparr>ts_queue := q\<rparr>))
      else case protocol_decode (ts_metrics s) (tx_data r) (tx_len r) of (m0, dec) \<Rightarrow>
        if tx_suppressed build (ts_opfwd s) now dec then
          (Tx_Suppressed r, s\<lparr>ts_metrics := bump flood_fwd_cancelled_opport_total m0\<rparr>)
        else case airtime_sched_check_consume m0 (ts_airtime s) (tx_data r) (tx_len r) (tx_toa_us r) now of
          (m1, at1, admitted) \<Rightarrow>
            let s1 = s\<lparr>ts_metrics := m1, ts_airtime := at1\<rparr> in
            if \<not> admitted then (Tx_Airtime_Drop r, s1)
            else case dutycycle_check (ts_metrics s1) (ts_dc s1) now (tx_toa_us r) of (m2, dc2, allowed) \<Rightarrow>
              let s2 = s1\<lparr>ts_metrics := m2, ts_dc := dc2\<rparr> in
              if \<not> allowed then
                (Tx_Duty_Drop r, s2\<lparr>ts_fabric := rivr_fabric_on_tx_blocked_dc (b_fabric_repeater build) now (ts_fabric s2)\<rparr>)
              else tx_transmit build radio now i r (tx_is_relay dec) s2)"

text \<open>The loop: \<open>n\<close> iterations are left and \<open>i\<close> are done; it ends early on an empty queue.\<close>

fun tx_drain_from :: "build_t \<Rightarrow> tx_radio \<Rightarrow> u32 \<Rightarrow> nat \<Rightarrow> nat \<Rightarrow> tx_side_t \<Rightarrow> tx_outcome list \<times> tx_side_t" where
  "tx_drain_from build radio now i 0 s = ([], s)"
| "tx_drain_from build radio now i (Suc n) s =
     (case rb_pop (ts_queue s) of
        (None, q) \<Rightarrow> ([], s\<lparr>ts_queue := q\<rparr>)
      | (Some r, q) \<Rightarrow>
          (case tx_process build radio now i r (s\<lparr>ts_queue := q\<rparr>) of (x, s1) \<Rightarrow>
             case tx_drain_from build radio now (Suc i) n s1 of (xs, s2) \<Rightarrow> (x # xs, s2)))"

definition tx_drain_loop :: "build_t \<Rightarrow> tx_radio \<Rightarrow> u32 \<Rightarrow> tx_side_t \<Rightarrow> tx_outcome list \<times> tx_side_t" where
  "tx_drain_loop build radio now s = tx_drain_from build radio now 0 TX_DRAIN_LIMIT s"

section \<open>The budgets of the transmit side\<close>

text \<open>The airtime buckets stay within their capacities, the duty-cycle sum is the sum of its records, and the
  fabric keeps its sixty buckets.\<close>

definition tx_budgets_ok :: "airtime_ctx_t \<Rightarrow> dc_ctx_t \<Rightarrow> fabric_state_t \<Rightarrow> bool" where
  "tx_budgets_ok airtime dc fab \<longleftrightarrow> airtime_ok airtime \<and> dc_ok dc \<and> length (fa_buckets fab) = 60"

lemma fabric_count_buckets [simp]: "length (fa_buckets (fabric_count inc now fab)) = length (fa_buckets fab)"
  by (simp add: fabric_count_def Let_def)

lemma fabric_on_buckets [simp]:
  "length (fa_buckets (rivr_fabric_on_rx rep now fab)) = length (fa_buckets fab)"
  "length (fa_buckets (rivr_fabric_on_tx_enqueued rep now fab)) = length (fa_buckets fab)"
  "length (fa_buckets (rivr_fabric_on_tx_ok rep now fab)) = length (fa_buckets fab)"
  "length (fa_buckets (rivr_fabric_on_tx_fail rep now fab)) = length (fa_buckets fab)"
  "length (fa_buckets (rivr_fabric_on_tx_blocked_dc rep now fab)) = length (fa_buckets fab)"
  "length (fa_buckets (rivr_fabric_tick rep now fab)) = length (fa_buckets fab)"
  by (simp_all add: rivr_fabric_on_rx_def rivr_fabric_on_tx_enqueued_def rivr_fabric_on_tx_ok_def
      rivr_fabric_on_tx_fail_def rivr_fabric_on_tx_blocked_dc_def rivr_fabric_tick_def)

lemma tx_process_budgets:
  assumes ok: "tx_budgets_ok (ts_airtime s) (ts_dc s) (ts_fabric s)"
    and run: "tx_process build radio now i r s = (x, s')"
  shows "tx_budgets_ok (ts_airtime s') (ts_dc s') (ts_fabric s')"
proof -
  have "airtime_ok at1" if "airtime_sched_check_consume m (ts_airtime s) f l toa now = (m1, at1, adm)" for m f l toa m1 at1 adm
    using check_consume_spec [OF _ that] ok by (simp add: tx_budgets_ok_def)
  moreover have "dc_ok dc2" if "dutycycle_check m (ts_dc s) now toa = (m2, dc2, allowed)" for m toa m2 dc2 allowed
    using dutycycle_check_spec(1) [OF _ that] ok by (simp add: tx_budgets_ok_def)
  moreover have "dc_ok (dutycycle_record dc t toa)" if "dc_ok dc" for dc t toa
    using dutycycle_record_any(1) [OF that refl] .
  ultimately show ?thesis
    using ok run by (auto simp: tx_process_def tx_transmit_def tx_budgets_ok_def Let_def split: if_split_asm prod.splits)
qed

lemma tx_drain_budgets:
  "tx_drain_from build radio now i k s = (xs, s') \<Longrightarrow> tx_budgets_ok (ts_airtime s) (ts_dc s) (ts_fabric s) \<Longrightarrow>
   tx_budgets_ok (ts_airtime s') (ts_dc s') (ts_fabric s')"
proof (induction k arbitrary: i s xs)
  case (Suc k)
  then show ?case by (auto split: prod.splits option.splits dest: tx_process_budgets [rotated])
qed simp

section \<open>Accounting\<close>

fun outcome_request :: "tx_outcome \<Rightarrow> rf_tx_request_t" where
  "outcome_request (Tx_Deferred r ok) = r"
| "outcome_request (Tx_Suppressed r) = r"
| "outcome_request (Tx_Airtime_Drop r) = r"
| "outcome_request (Tx_Duty_Drop r) = r"
| "outcome_request (Tx_Sent r) = r"
| "outcome_request (Tx_Failed r) = r"

fun outcome_deferred :: "tx_outcome \<Rightarrow> bool" where
  "outcome_deferred (Tx_Deferred r ok) = True"
| "outcome_deferred _ = False"

lemma tx_transmit_queue:
  "tx_transmit build radio now i r rel s = (x, s') \<Longrightarrow>
   ts_queue s' = ts_queue s \<and> outcome_request x = r \<and> \<not> outcome_deferred x"
  by (auto simp: tx_transmit_def Let_def split: prod.splits if_splits)

text \<open>Popping has freed a slot, so putting a held request back cannot fail.\<close>

lemma tx_process_queue:
  assumes ok: "rb_ok (ts_queue s)" and room: "Suc (length (rb_contents (ts_queue s))) < unat (rb_cap (ts_queue s))"
    and run: "tx_process build radio now i r s = (x, s')"
  shows "rb_ok (ts_queue s') \<and> outcome_request x = r \<and> (outcome_deferred x \<longleftrightarrow> tx_held now r) \<and>
    rb_contents (ts_queue s') = rb_contents (ts_queue s) @ (if tx_held now r then [r] else [])"
proof (cases "tx_held now r")
  case True
  obtain b q where p: "rb_try_push r (ts_queue s) = (b, q)" by (cases "rb_try_push r (ts_queue s)")
  note sp = rb_try_push_spec [OF ok p]
  have "b" using sp(3) room by simp
  then have "x = Tx_Deferred r True" "s' = s\<lparr>ts_queue := q\<rparr>" using run True p by (simp_all add: tx_process_def)
  with True sp \<open>b\<close> show ?thesis by simp
next
  case False
  have "ts_queue s' = ts_queue s \<and> outcome_request x = r \<and> \<not> outcome_deferred x"
    using run False unfolding tx_process_def
    by (auto simp: Let_def split: if_splits prod.splits dest!: tx_transmit_queue)
  with False ok show ?thesis by simp
qed

lemma tx_pop_cases:
  assumes "rb_ok q" "rb_pop q = (Some r, q')"
  shows "rb_ok q'" "rb_contents q = r # rb_contents q'" "rb_cap q' = rb_cap q"
    "Suc (length (rb_contents q')) < unat (rb_cap q')"
proof -
  note sp = rb_pop_spec [OF assms]
  show "rb_ok q'" by (rule sp(1))
  show c: "rb_contents q = r # rb_contents q'" using sp(2) by (cases "rb_contents q") auto
  show cap: "rb_cap q' = rb_cap q" using assms(2) by (auto simp: rb_pop_def Let_def split: if_splits)
  show "Suc (length (rb_contents q')) < unat (rb_cap q')"
    using rb_contents_room [OF assms(1)] c cap by simp
qed

lemma tx_pop_none: "rb_ok q \<Longrightarrow> rb_pop q = (None, q') \<Longrightarrow> rb_contents q = [] \<and> q' = q"
  using rb_pop_spec [of q None q'] by (cases "rb_contents q") auto

lemma tx_drain_from_accounts:
  "rb_ok (ts_queue s) \<Longrightarrow> tx_drain_from build radio now i n s = (xs, s') \<Longrightarrow>
   rb_ok (ts_queue s') \<and> length xs \<le> n \<and>
   (\<forall>x \<in> set xs. outcome_deferred x \<longleftrightarrow> tx_held now (outcome_request x)) \<and>
   map outcome_request xs @ rb_contents (ts_queue s') =
     rb_contents (ts_queue s) @ map outcome_request (filter outcome_deferred xs) \<and>
   (length xs < n \<longrightarrow> rb_contents (ts_queue s') = [])"
proof (induction n arbitrary: i s xs s')
  case (Suc n)
  show ?case
  proof (cases "rb_pop (ts_queue s)")
    case (Pair ro q)
    show ?thesis
    proof (cases ro)
      case None
      with Suc.prems Pair tx_pop_none [OF Suc.prems(1), of q] show ?thesis by auto
    next
      case (Some r)
      note pop = tx_pop_cases [OF Suc.prems(1) Pair [unfolded Some]]
      obtain x s1 where pr: "tx_process build radio now i r (s\<lparr>ts_queue := q\<rparr>) = (x, s1)"
        by (cases "tx_process build radio now i r (s\<lparr>ts_queue := q\<rparr>)")
      obtain ys s2 where rest: "tx_drain_from build radio now (Suc i) n s1 = (ys, s2)"
        by (cases "tx_drain_from build radio now (Suc i) n s1")
      have eq: "xs = x # ys" "s' = s2" using Suc.prems(2) Pair Some pr rest by simp_all
      note proc = tx_process_queue [OF _ _ pr, simplified, OF pop(1) pop(4)]
      have "rb_ok (ts_queue s1)" using proc by simp
      from Suc.IH [OF this rest] proc pop(2) show ?thesis by (auto simp: eq)
    qed
  qed
qed auto

section \<open>Turns of the main loop\<close>

text \<open>Between two drains the other parts of the node push requests.\<close>

definition tx_enqueue :: "rf_tx_request_t list \<Rightarrow> tx_side_t \<Rightarrow> tx_side_t" where
  "tx_enqueue rs s = s\<lparr>ts_queue := fold (\<lambda>r q. snd (rb_try_push r q)) rs (ts_queue s)\<rparr>"

type_synonym tx_turn = "rf_tx_request_t list \<times> u32 \<times> tx_radio"

fun tx_turns :: "build_t \<Rightarrow> tx_turn list \<Rightarrow> tx_side_t \<Rightarrow> tx_outcome list \<times> tx_side_t" where
  "tx_turns build [] s = ([], s)"
| "tx_turns build ((rs, now, radio) # turns) s =
     (case tx_drain_loop build radio now (tx_enqueue rs s) of (xs, s1) \<Rightarrow>
        case tx_turns build turns s1 of (ys, s2) \<Rightarrow> (xs @ ys, s2))"

lemma fold_push_queue:
  "rb_ok q \<Longrightarrow> rb_ok (fold (\<lambda>r q. snd (rb_try_push r q)) rs q) \<and>
     (\<exists>zs. rb_contents (fold (\<lambda>r q. snd (rb_try_push r q)) rs q) = rb_contents q @ zs)"
proof (induction rs arbitrary: q)
  case (Cons r rs)
  obtain b q1 where p: "rb_try_push r q = (b, q1)" by (cases "rb_try_push r q")
  note sp = rb_try_push_spec [OF Cons.prems p]
  from Cons.IH [OF sp(1)] sp(4) p show ?case by auto
qed simp

lemma tx_turn_position:
  assumes ok: "rb_ok (ts_queue s)" and pos: "rb_contents (ts_queue s) = xs @ r # ys"
    and free: "\<not> tx_held now r" and run: "tx_drain_loop build radio now s = (os, s')"
  shows "rb_ok (ts_queue s') \<and>
    ((\<exists>x \<in> set os. outcome_request x = r \<and> \<not> outcome_deferred x) \<or>
     2 \<le> length xs \<and> (\<exists>zs. rb_contents (ts_queue s') = drop 2 xs @ r # zs))"
proof -
  note acc = tx_drain_from_accounts [OF ok run [unfolded tx_drain_loop_def]]
  let ?returned = "map outcome_request (filter outcome_deferred os)"
  have eq: "map outcome_request os @ rb_contents (ts_queue s') = xs @ r # ys @ ?returned" using acc pos by simp
  show ?thesis
  proof (cases "length xs < length os")
    case True
    have "map outcome_request os ! length xs = r"
      using True eq by (metis length_map nth_append nth_append_length)
    then have r: "outcome_request (os ! length xs) = r" using True by simp
    moreover have "os ! length xs \<in> set os" using True by simp
    ultimately show ?thesis using acc free by blast
  next
    case False
    have "length os = 2"
    proof (rule ccontr)
      assume "length os \<noteq> 2"
      then have "rb_contents (ts_queue s') = []" using acc by simp
      then have "length os = length (xs @ r # ys @ ?returned)" using eq by (metis append_Nil2 length_map)
      then show False using False by simp
    qed
    then have "rb_contents (ts_queue s') = drop 2 (xs @ r # ys @ ?returned)" "2 \<le> length xs"
      using eq False by (metis append_eq_conv_conj length_map, simp)
    with acc show ?thesis by auto
  qed
qed

lemma tx_turns_leave:
  "rb_ok (ts_queue s) \<Longrightarrow> rb_contents (ts_queue s) = xs @ r # ys \<Longrightarrow> length xs div 2 < length turns \<Longrightarrow>
   \<forall>(rs, now, radio) \<in> set turns. \<not> tx_held now r \<Longrightarrow>
   \<exists>x \<in> set (fst (tx_turns build turns s)). outcome_request x = r \<and> \<not> outcome_deferred x"
proof (induction turns arbitrary: s xs ys)
  case (Cons k turns)
  obtain rs now radio where k: "k = (rs, now, radio)" by (cases k)
  let ?s = "tx_enqueue rs s"
  obtain zs where q: "rb_ok (ts_queue ?s)" "rb_contents (ts_queue ?s) = xs @ r # ys @ zs"
    using fold_push_queue [OF Cons.prems(1), of rs] Cons.prems(2) by (auto simp: tx_enqueue_def)
  obtain os s1 where drain: "tx_drain_loop build radio now ?s = (os, s1)" by (cases "tx_drain_loop build radio now ?s")
  obtain ws s2 where rest: "tx_turns build turns s1 = (ws, s2)" by (cases "tx_turns build turns s1")
  have free: "\<not> tx_held now r" using Cons.prems(4) by (auto simp: k)
  have out: "fst (tx_turns build (k # turns) s) = os @ ws" by (simp add: k drain rest)
  from tx_turn_position [OF q free drain] show ?case
  proof (elim conjE disjE)
    assume "\<exists>x \<in> set os. outcome_request x = r \<and> \<not> outcome_deferred x"
    then show ?thesis unfolding out by auto
  next
    assume ok1: "rb_ok (ts_queue s1)" and two: "2 \<le> length xs"
      and "\<exists>zs. rb_contents (ts_queue s1) = drop 2 xs @ r # zs"
    then obtain zs' where c1: "rb_contents (ts_queue s1) = drop 2 xs @ r # zs'" by blast
    have "length (drop 2 xs) div 2 < length turns" using Cons.prems(3) two by simp
    from Cons.IH [OF ok1 c1 this] Cons.prems(4) rest show ?thesis unfolding out by auto
  qed
qed simp

section \<open>Two transmissions in one turn\<close>

lemma tx_process_sent:
  assumes ok: "dc_ok (ts_dc s)" and run: "tx_process build radio now i r s = (Tx_Sent r', s')"
    and radio: "radio i r = (b, t1, t2)" and t1: "t1 \<noteq> 0"
  shows "dc_ok (ts_dc s') \<and> (\<exists>old. old \<subseteq># filter_mset (dr_fresh now) (dc_active (ts_dc s)) \<and>
    dc_active (ts_dc s') = add_mset \<lparr>dr_tx_end_ms = t1, dr_toa_us = tx_toa_us r\<rparr> old)"
proof -
  obtain m0 m' dc2 where c: "dutycycle_check m0 (ts_dc s) now (tx_toa_us r) = (m', dc2, True)"
    and dc': "ts_dc s' = dutycycle_record dc2 t1 (tx_toa_us r)"
    using run radio unfolding tx_process_def tx_transmit_def
    by (auto simp: Let_def split: if_splits prod.splits)
  note cs = dutycycle_check_spec [OF ok c]
  note rs = dutycycle_record_spec [OF cs(1) t1, of "tx_toa_us r"]
  obtain old where "old \<subseteq># filter_mset (dr_fresh t1) (dc_active dc2)"
    "dc_active (dutycycle_record dc2 t1 (tx_toa_us r)) =
       add_mset \<lparr>dr_tx_end_ms = t1, dr_toa_us = tx_toa_us r\<rparr> (filter_mset (dr_fresh t1) (dc_active dc2) - old)"
    using rs(2) by blast
  moreover have "filter_mset (dr_fresh t1) (dc_active dc2) - old \<subseteq># filter_mset (dr_fresh now) (dc_active (ts_dc s))"
    unfolding cs(2) by (meson diff_subset_eq_self multiset_filter_subset subset_mset.order_trans)
  ultimately show ?thesis using rs(1) dc' by auto
qed

lemma stale_clock_not_fresh:
  assumes "now < t" "unat t - unat now < 4291367296"
  shows "\<not> dr_fresh now \<lparr>dr_tx_end_ms = t, dr_toa_us = toa\<rparr>"
proof -
  have "unat (now - t) = 2 ^ 32 + unat now - unat t"
    using assms(1) unat_u32_less [of t] by (simp add: unat_sub_if' word_less_nat_alt)
  with assms show ?thesis by (simp add: dr_fresh_def word_le_nat_alt word_less_nat_alt)
qed

lemma tx_process_request: "tx_process build radio now i r s = (x, s') \<Longrightarrow> outcome_request x = r"
  unfolding tx_process_def
  by (auto simp: Let_def split: if_splits prod.splits dest!: tx_transmit_queue)

text \<open>A short control frame reaches the radio whenever the duty-cycle budget has room for it.\<close>

lemma tx_control_sent:
  assumes "\<not> tx_held now r" "tx_len r = 4" "tx_data r ! 3 = PKT_ACK" "dc_ok (ts_dc s)"
    and "airtime_sum (dc_active (ts_dc s)) + unat (tx_toa_us r) \<le> 360000000" "radio i r = (True, t1, t2)"
  shows "\<exists>s'. tx_process build radio now i r s = (Tx_Sent r, s') \<and> ts_queue s' = ts_queue s"
proof -
  have dec: "protocol_decode (ts_metrics s) (tx_data r) (tx_len r) = (ts_metrics s, None)"
    using assms(2) by (simp add: protocol_decode_def validate_wire_frame_def)
  have adm: "airtime_sched_check_consume m (ts_airtime s) (tx_data r) (tx_len r) (tx_toa_us r) now = (m, ts_airtime s, True)" for m
    using assms(2,3) by (simp add: airtime_sched_check_consume_def frame_class_def rivr_pkt_classify_def)
  obtain m' dc2 b where c: "dutycycle_check (ts_metrics s) (ts_dc s) now (tx_toa_us r) = (m', dc2, b)"
    by (cases "dutycycle_check (ts_metrics s) (ts_dc s) now (tx_toa_us r)")
  have "airtime_sum (filter_mset (dr_fresh now) (dc_active (ts_dc s))) \<le> airtime_sum (dc_active (ts_dc s))"
    by (rule airtime_sum_filter)
  then have b using dutycycle_check_spec(3) [OF assms(4) c] assms(5) by simp
  then show ?thesis using assms(1,6) dec adm c by (simp add: tx_process_def tx_transmit_def Let_def)
qed

section \<open>Properties\<close>

text \<open>C12: No request is lost on the transmit side. In every drain of a consistent queue at most two
  requests are popped; exactly those still inside their jitter window go back to the tail, which
  always succeeds; and the requests that left, in the order they were popped, followed by what is
  queued afterwards are the queue before followed by what was put back. If fewer than two were
  popped the queue is empty.\<close>

theorem tx_drain_accounts:
  assumes "rb_ok (ts_queue s)" "tx_drain_loop build radio now s = (xs, s')"
  shows "rb_ok (ts_queue s') \<and> length xs \<le> 2 \<and>
    (\<forall>x \<in> set xs. outcome_deferred x \<longleftrightarrow> tx_held now (outcome_request x)) \<and>
    map outcome_request xs @ rb_contents (ts_queue s') =
      rb_contents (ts_queue s) @ map outcome_request (filter outcome_deferred xs) \<and>
    (length xs < 2 \<longrightarrow> rb_contents (ts_queue s') = [])"
  using tx_drain_from_accounts [OF assms(1) assms(2) [unfolded tx_drain_loop_def]] .

definition tx_demo_request :: rf_tx_request_t where
  "tx_demo_request = tx_request [0, 0, 0, PKT_ACK] 4 500000"

definition tx_demo_side :: tx_side_t where
  "tx_demo_side = \<lparr>ts_queue = rb_init (replicate 4 tx_demo_request) RF_TX_QUEUE_CAP, ts_opfwd = opfwd_init,
     ts_airtime = airtime_sched_init, ts_dc = dutycycle_init, ts_fabric = fabric_boot, ts_metrics = metrics_zero\<rparr>"

definition tx_demo_radio :: tx_radio where
  "tx_demo_radio i r = (True, 600 + 600 * of_nat i, 600 + 600 * of_nat i)"

definition tx_demo_build :: build_t where
  "tx_demo_build = \<lparr>b_role = RoleRepeater, b_fabric_repeater = True, b_opportunistic_fwd = True\<rparr>"

lemma tx_demo_ok: "rb_ok (ts_queue tx_demo_side)"
  using rb_init_ok [of 2 "replicate 4 tx_demo_request"] by (simp add: tx_demo_side_def)

lemma tx_demo_enqueue:
  "rb_ok (ts_queue (tx_enqueue [tx_demo_request, tx_demo_request] tx_demo_side)) \<and>
   rb_contents (ts_queue (tx_enqueue [tx_demo_request, tx_demo_request] tx_demo_side)) = [tx_demo_request, tx_demo_request]"
proof -
  obtain b q where p: "rb_try_push tx_demo_request (ts_queue tx_demo_side) = (b, q)"
    by (cases "rb_try_push tx_demo_request (ts_queue tx_demo_side)")
  note sp = rb_try_push_spec [OF tx_demo_ok p]
  obtain b' q' where p': "rb_try_push tx_demo_request q = (b', q')" by (cases "rb_try_push tx_demo_request q")
  note sp' = rb_try_push_spec [OF sp(1) p']
  have "rb_cap (ts_queue tx_demo_side) = 4" "rb_contents (ts_queue tx_demo_side) = []"
    by (simp_all add: tx_demo_side_def) (simp_all add: rb_init_def)
  with sp sp' p p' show ?thesis by (simp add: tx_enqueue_def)
qed

lemma tx_drain_accounts_witness:
  "rb_contents (ts_queue (snd (tx_drain_loop tx_demo_build tx_demo_radio 5 tx_demo_side))) = []"
proof -
  obtain xs s' where run: "tx_drain_loop tx_demo_build tx_demo_radio 5 tx_demo_side = (xs, s')"
    by (cases "tx_drain_loop tx_demo_build tx_demo_radio 5 tx_demo_side")
  have "rb_contents (ts_queue tx_demo_side) = []" by (simp add: tx_demo_side_def)
  with tx_drain_accounts [OF tx_demo_ok run] have "length xs + length (rb_contents (ts_queue s')) =
      length (filter outcome_deferred xs)" by (metis append_Nil length_append length_map)
  moreover have "length (filter outcome_deferred xs) \<le> length xs" by (rule length_filter_le)
  ultimately have "length (rb_contents (ts_queue s')) = 0" by linarith
  then show ?thesis using run by simp
qed

text \<open>Every due frame gets its turn. A request that stands behind \<open>n\<close> others and is not held back
  leaves the queue, sent or dropped for a stated reason, within \<open>n div 2 + 1\<close> turns of the main loop,
  whatever is pushed between the turns and however many of the others are held back: a deferred
  frame never blocks the ones behind it.\<close>

theorem tx_due_frame_leaves:
  assumes "rb_ok (ts_queue s)" "rb_contents (ts_queue s) = xs @ r # ys" "length xs div 2 < length turns"
    and "\<forall>(rs, now, radio) \<in> set turns. \<not> tx_held now r"
  shows "\<exists>x \<in> set (fst (tx_turns build turns s)). outcome_request x = r \<and> \<not> outcome_deferred x"
  using assms by (rule tx_turns_leave)

lemma tx_due_frame_leaves_witness:
  "fst (tx_turns tx_demo_build [([], 5, tx_demo_radio)] (tx_enqueue [tx_demo_request, tx_demo_request] tx_demo_side)) \<noteq> []"
  using tx_due_frame_leaves [of "tx_enqueue [tx_demo_request, tx_demo_request] tx_demo_side" "[]" tx_demo_request
      "[tx_demo_request]" "[([], 5, tx_demo_radio)]" tx_demo_build] tx_demo_enqueue
  by (auto simp: tx_held_def tx_demo_request_def tx_request_def)

text \<open>A turn that transmits twice forgets the first transmission. The drain reads the clock once, but
  transmitting takes as long as the frame is on air and the record carries the later time. The
  check for the second request sees that record as older than an hour, because the age wraps, and
  expires it: afterwards the duty-cycle history holds records from before the turn and the second
  transmission only, and the airtime of the first is missing from the total.\<close>

theorem tx_drain_forgets_airtime:
  assumes "dc_ok (ts_dc s)" "tx_drain_loop build radio now s = ([Tx_Sent r1, Tx_Sent r2], s')"
    and "radio 0 r1 = (b1, t1, u1)" "radio 1 r2 = (b2, t2, u2)" "t2 \<noteq> 0"
    and "now < t1" "unat t1 - unat now < 4291367296"
  shows "(\<exists>old. old \<subseteq># dc_active (ts_dc s) \<and>
      dc_active (ts_dc s') = add_mset \<lparr>dr_tx_end_ms = t2, dr_toa_us = tx_toa_us r2\<rparr> old) \<and>
    unat (dy_used_us (ts_dc s')) \<le> airtime_sum (dc_active (ts_dc s)) + unat (tx_toa_us r2)"
proof -
  obtain q1 q2 x1 s1 x2 where p1: "tx_process build radio now 0 q1 (s\<lparr>ts_queue := x1\<rparr>) = (Tx_Sent r1, s1)"
    and p2: "tx_process build radio now 1 q2 (s1\<lparr>ts_queue := x2\<rparr>) = (Tx_Sent r2, s')"
    using assms(2) unfolding tx_drain_loop_def
    by (auto simp: numeral_2_eq_2 split: prod.splits option.splits)
  have q: "q1 = r1" "q2 = r2" using tx_process_request [OF p1] tx_process_request [OF p2] by simp_all
  have "t1 \<noteq> 0" using assms(6) by auto
  with tx_process_sent [OF _ p1 [unfolded q]] assms(1,3) obtain old1
    where ok1: "dc_ok (ts_dc s1)" and old1: "old1 \<subseteq># filter_mset (dr_fresh now) (dc_active (ts_dc s))"
      "dc_active (ts_dc s1) = add_mset \<lparr>dr_tx_end_ms = t1, dr_toa_us = tx_toa_us r1\<rparr> old1" by auto
  from tx_process_sent [OF _ p2 [unfolded q]] assms(4,5) ok1 obtain old2
    where ok2: "dc_ok (ts_dc s')" and old2: "old2 \<subseteq># filter_mset (dr_fresh now) (dc_active (ts_dc s1))"
      "dc_active (ts_dc s') = add_mset \<lparr>dr_tx_end_ms = t2, dr_toa_us = tx_toa_us r2\<rparr> old2" by auto
  have "old2 \<subseteq># filter_mset (dr_fresh now) old1"
    using old2(1) stale_clock_not_fresh [OF assms(6,7)] by (simp add: old1(2))
  then have sub: "old2 \<subseteq># dc_active (ts_dc s)"
    using old1(1) by (meson multiset_filter_subset subset_mset.order_trans)
  have "unat (dy_used_us (ts_dc s')) = unat (tx_toa_us r2) + airtime_sum old2"
    using ok2 old2(2) by (simp add: dc_ok_def)
  with sub old2(2) airtime_sum_mono [OF sub] show ?thesis by auto
qed

lemma tx_drain_forgets_airtime_witness:
  "\<exists>s'. tx_drain_loop tx_demo_build tx_demo_radio 5 (tx_enqueue [tx_demo_request, tx_demo_request] tx_demo_side) =
      ([Tx_Sent tx_demo_request, Tx_Sent tx_demo_request], s') \<and> unat (dy_used_us (ts_dc s')) \<le> 500000"
proof -
  let ?s = "tx_enqueue [tx_demo_request, tx_demo_request] tx_demo_side"
  have req: "\<not> tx_held 5 tx_demo_request" "tx_len tx_demo_request = 4" "tx_data tx_demo_request ! 3 = PKT_ACK"
    "tx_toa_us tx_demo_request = 500000"
    by (simp_all add: tx_demo_request_def tx_request_def tx_held_def)
  have dc0: "ts_dc ?s = dutycycle_init" by (simp add: tx_enqueue_def tx_demo_side_def)
  obtain q1 where pop1: "rb_pop (ts_queue ?s) = (Some tx_demo_request, q1)"
    using rb_pop_spec(2) [of "ts_queue ?s"] tx_demo_enqueue by (cases "rb_pop (ts_queue ?s)") auto
  note q1 = tx_pop_cases [OF conjunct1 [OF tx_demo_enqueue] pop1]
  have c1: "rb_contents q1 = [tx_demo_request]" using q1(2) tx_demo_enqueue by simp
  obtain s1 where pr1: "tx_process tx_demo_build tx_demo_radio 5 0 tx_demo_request (?s\<lparr>ts_queue := q1\<rparr>) = (Tx_Sent tx_demo_request, s1)"
    and sq1: "ts_queue s1 = q1"
    using tx_control_sent [OF req(1-3), of "?s\<lparr>ts_queue := q1\<rparr>" tx_demo_radio 0 600 600 tx_demo_build] dutycycle_init_ok dc0
    by (auto simp: req tx_demo_radio_def)
  obtain old1 where ok1: "dc_ok (ts_dc s1)" and act1: "old1 \<subseteq># {#}" "dc_active (ts_dc s1) = add_mset \<lparr>dr_tx_end_ms = 600, dr_toa_us = 500000\<rparr> old1"
    using tx_process_sent [OF _ pr1, of True 600 600] dutycycle_init_ok dc0 by (auto simp: req tx_demo_radio_def)
  have sum1: "airtime_sum (dc_active (ts_dc s1)) = 500000" using act1 by simp
  obtain q2 where pop2: "rb_pop q1 = (Some tx_demo_request, q2)"
    using rb_pop_spec(2) [OF q1(1)] c1 by (cases "rb_pop q1") auto
  obtain s2 where pr2: "tx_process tx_demo_build tx_demo_radio 5 1 tx_demo_request (s1\<lparr>ts_queue := q2\<rparr>) = (Tx_Sent tx_demo_request, s2)"
    using tx_control_sent [OF req(1-3), of "s1\<lparr>ts_queue := q2\<rparr>" tx_demo_radio 1 1200 1200 tx_demo_build] ok1 sum1
    by (auto simp: req tx_demo_radio_def)
  have run: "tx_drain_loop tx_demo_build tx_demo_radio 5 ?s = ([Tx_Sent tx_demo_request, Tx_Sent tx_demo_request], s2)"
    using pop1 pr1 sq1 pop2 pr2 by (simp add: tx_drain_loop_def numeral_2_eq_2)
  have "dc_ok (ts_dc ?s)" using dutycycle_init_ok dc0 by simp
  from tx_drain_forgets_airtime [OF this run, of True 600 600 True 1200 1200] dc0 dutycycle_init_ok run
  show ?thesis by (auto simp: req tx_demo_radio_def)
qed

end
