(* ===== verification/Rivr_Svc.thy ===== *)
theory Rivr_Svc
  imports Rivr_TxQueue Rivr_Interfaces
begin

text \<open>
  The application services (rivr_svc.h, rivr_svc.c): chat, telemetry, mailbox and alert frames are
  decoded and reported as JSON log lines, and mailbox messages for this node are kept in a ring of
  eight. A handler returns what it reports as events; the log line and the push to the companion
  app carry the same fields.
\<close>

abbreviation "MB_STORE_CAP \<equiv> (8 :: nat)"
abbreviation "SVC_TELEMETRY_PAYLOAD_LEN \<equiv> (11 :: u8)"
abbreviation "SVC_MAILBOX_HDR_LEN \<equiv> (7 :: u8)"
abbreviation "SVC_MAILBOX_MAX_TEXT \<equiv> (223 :: u8)"
abbreviation "SVC_ALERT_PAYLOAD_LEN \<equiv> (7 :: u8)"
abbreviation "RIVR_CHAT_CHAN_HDR_LEN \<equiv> (2 :: u8)"
abbreviation "MB_FLAG_NEW \<equiv> (0x01 :: u8)"

section \<open>Text for JSON\<close>

text \<open>The loop of \<open>svc_json_text\<close>; \<open>out\<close> is what has been written and \<open>maxlen\<close> the size of the buffer.\<close>

fun svc_json_loop :: "nat \<Rightarrow> u8 list \<Rightarrow> u8 list \<Rightarrow> u8 list" where
  "svc_json_loop maxlen out [] = out"
| "svc_json_loop maxlen out (c # cs) =
     (if length out + 2 < maxlen then
        svc_json_loop maxlen
          (if c = 0x22 then (if length out + 3 < maxlen then out @ [0x5C, 0x22] else out)
           else if c = 0x5C then (if length out + 3 < maxlen then out @ [0x5C, 0x5C] else out)
           else if c < 0x20 \<or> c > 0x7E then out @ [0x2E]
           else out @ [c]) cs
      else out)"

definition svc_json_text :: "u8 list \<Rightarrow> u8 \<Rightarrow> u8 \<Rightarrow> u8 list" where
  "svc_json_text src srclen maxlen = svc_json_loop (unat maxlen) [] (take (unat srclen) src)"

section \<open>Handlers\<close>

datatype svc_event =
    Svc_Chat u32 u32 u16 u16 "u8 list" "u8 list"
  | Svc_Telemetry u32 u16 u32 u8 u32
  | Svc_Mail u32 u32 u16 u8 bool "u8 list"
  | Svc_Alert u32 u8 u16 u32

definition handle_chat_message :: "rivr_pkt_hdr_t \<Rightarrow> u8 list \<Rightarrow> u8 \<Rightarrow> u16 \<Rightarrow> svc_event list" where
  "handle_chat_message hdr payload len rssi =
     (if len = 0 then []
      else
        let chan = h_flags hdr AND PKT_FLAG_CHANNEL \<noteq> 0 \<and> len \<ge> RIVR_CHAT_CHAN_HDR_LEN;
            chan_id = (if chan then get_u16 (payload ! 0) (payload ! 1) else 0);
            text = (if chan then drop 2 payload else payload);
            text_len = (if chan then len - RIVR_CHAT_CHAN_HDR_LEN else len)
        in if text_len = 0 then []
           else [Svc_Chat (h_src_id hdr) (h_dst_id hdr) chan_id rssi (take (unat text_len) text)
                   (svc_json_text text text_len 231)])"

definition telemetry_reading :: "u32 \<Rightarrow> u8 list \<Rightarrow> svc_event" where
  "telemetry_reading src p =
     Svc_Telemetry src (get_u16 (p ! 0) (p ! 1)) (get_u32 (p ! 2) (p ! 3) (p ! 4) (p ! 5)) (p ! 6)
       (get_u32 (p ! 7) (p ! 8) (p ! 9) (p ! 10))"

definition handle_telemetry_publish :: "rivr_pkt_hdr_t \<Rightarrow> u8 list \<Rightarrow> u8 \<Rightarrow> svc_event list" where
  "handle_telemetry_publish hdr payload len =
     (if len < SVC_TELEMETRY_PAYLOAD_LEN then []
      else map (\<lambda>i. telemetry_reading (h_src_id hdr) (drop (i * 11) payload))
             [0..<unat (len div SVC_TELEMETRY_PAYLOAD_LEN)])"

definition handle_alert_event :: "rivr_pkt_hdr_t \<Rightarrow> u8 list \<Rightarrow> u8 \<Rightarrow> svc_event list" where
  "handle_alert_event hdr payload len =
     (if len < SVC_ALERT_PAYLOAD_LEN then []
      else [Svc_Alert (h_src_id hdr) (payload ! 0) (get_u16 (payload ! 1) (payload ! 2))
              (get_u32 (payload ! 3) (payload ! 4) (payload ! 5) (payload ! 6))])"

record mailbox_entry_t =
  mb_src_id :: u32
  mb_recipient_id :: u32
  mb_msg_seq :: u16
  mb_flags :: u8
  mb_text_len :: u8
  mb_text :: "u8 list"
  mb_stored_at_ms :: u32
  mb_valid :: bool

record mailbox_store_t =
  ms_entries :: "mailbox_entry_t list"
  ms_head :: u8
  ms_count :: u8

definition mailbox_store_zero :: mailbox_store_t where
  "mailbox_store_zero = \<lparr>ms_entries = replicate MB_STORE_CAP
     \<lparr>mb_src_id = 0, mb_recipient_id = 0, mb_msg_seq = 0, mb_flags = 0, mb_text_len = 0,
      mb_text = replicate 224 0, mb_stored_at_ms = 0, mb_valid = False\<rparr>, ms_head = 0, ms_count = 0\<rparr>"

definition mailbox_fill :: "u32 \<Rightarrow> u32 \<Rightarrow> u16 \<Rightarrow> u8 \<Rightarrow> u8 list \<Rightarrow> u8 \<Rightarrow> u32 \<Rightarrow> mailbox_entry_t \<Rightarrow> mailbox_entry_t" where
  "mailbox_fill src recipient msg_seq flags text text_len now e =
     e\<lparr>mb_src_id := src, mb_recipient_id := recipient, mb_msg_seq := msg_seq,
       mb_flags := flags OR MB_FLAG_NEW, mb_text_len := text_len, mb_stored_at_ms := now, mb_valid := True,
       mb_text := (memcpy (mb_text e) text (unat text_len))[unat text_len := 0]\<rparr>"

definition mailbox_insert :: "(mailbox_entry_t \<Rightarrow> mailbox_entry_t) \<Rightarrow> mailbox_store_t \<Rightarrow> mailbox_store_t" where
  "mailbox_insert fill st =
     st\<lparr>ms_entries := (ms_entries st)[unat (ms_head st) := fill (ms_entries st ! unat (ms_head st))],
        ms_head := ucast ((ucast (ms_head st) + 1 :: u32) mod 8),
        ms_count := (if ms_count st < 8 then ms_count st + 1 else ms_count st)\<rparr>"

definition mailbox_for_us :: "u32 \<Rightarrow> u8 list \<Rightarrow> bool" where
  "mailbox_for_us my_id payload \<longleftrightarrow>
     (let r = get_u32 (payload ! 0) (payload ! 1) (payload ! 2) (payload ! 3) in r = my_id \<or> r = 0)"

definition handle_mailbox_store ::
  "u32 \<Rightarrow> rivr_pkt_hdr_t \<Rightarrow> u8 list \<Rightarrow> u8 \<Rightarrow> u32 \<Rightarrow> mailbox_store_t \<Rightarrow> svc_event list \<times> mailbox_store_t" where
  "handle_mailbox_store my_id hdr payload len now st =
     (if len < SVC_MAILBOX_HDR_LEN then ([], st)
      else
        let recipient = get_u32 (payload ! 0) (payload ! 1) (payload ! 2) (payload ! 3);
            msg_seq = get_u16 (payload ! 4) (payload ! 5);
            flags = payload ! 6;
            text = drop 7 payload;
            raw_len = len - SVC_MAILBOX_HDR_LEN;
            text_len = (if raw_len > SVC_MAILBOX_MAX_TEXT then SVC_MAILBOX_MAX_TEXT else raw_len);
            for_us = mailbox_for_us my_id payload;
            st' = (if for_us
                   then mailbox_insert (mailbox_fill (h_src_id hdr) recipient msg_seq flags text text_len now) st
                   else st)
        in ([Svc_Mail (h_src_id hdr) recipient msg_seq flags for_us (svc_json_text text text_len 224)], st'))"

section \<open>The sanitised text is a JSON string body\<close>

fun json_body :: "u8 list \<Rightarrow> bool" where
  "json_body [] = True"
| "json_body (c # cs) =
     (if c = 0x5C then (case cs of [] \<Rightarrow> False | d # ds \<Rightarrow> (d = 0x22 \<or> d = 0x5C) \<and> json_body ds)
      else c \<noteq> 0x22 \<and> 0x20 \<le> c \<and> c \<le> 0x7E \<and> json_body cs)"

text \<open>Reading such a body back, and what the sanitiser does to a single character.\<close>

fun json_unescape :: "u8 list \<Rightarrow> u8 list" where
  "json_unescape [] = []"
| "json_unescape (c # cs) =
     (if c = 0x5C then (case cs of [] \<Rightarrow> [] | d # ds \<Rightarrow> d # json_unescape ds) else c # json_unescape cs)"

definition json_printable :: "u8 \<Rightarrow> u8" where
  "json_printable c = (if c < 0x20 \<or> c > 0x7E then 0x2E else c)"

definition json_esc :: "u8 \<Rightarrow> u8 list" where
  "json_esc c = (if c = 0x22 \<or> c = 0x5C then [0x5C, c] else [json_printable c])"

lemma json_loop_unfold:
  "svc_json_loop maxlen out (c # cs) =
     (if length out + 2 < maxlen then
        svc_json_loop maxlen (if length (json_esc c) = 1 \<or> length out + 3 < maxlen then out @ json_esc c else out) cs
      else out)"
  by (auto simp: json_esc_def json_printable_def)

lemma json_body_append: "json_body out \<Longrightarrow> json_body (out @ json_esc c)"
proof (induction out rule: json_body.induct)
  case 1
  then show ?case by (auto simp: json_esc_def json_printable_def not_less)
next
  case (2 c cs)
  then show ?case by (cases cs) (auto split: if_splits)
qed

lemma json_unescape_append: "json_body out \<Longrightarrow> json_unescape (out @ json_esc c) = json_unescape out @ [json_printable c]"
proof (induction out rule: json_body.induct)
  case 1
  then show ?case by (auto simp: json_esc_def json_printable_def)
next
  case (2 c cs)
  then show ?case by (cases cs) (auto split: if_splits)
qed

lemma json_esc_length: "1 \<le> length (json_esc c) \<and> length (json_esc c) \<le> 2"
  by (simp add: json_esc_def)

declare svc_json_loop.simps(2) [simp del]

lemma json_loop_body:
  "json_body out \<Longrightarrow> length out + 1 \<le> maxlen \<Longrightarrow>
   json_body (svc_json_loop maxlen out cs) \<and> length (svc_json_loop maxlen out cs) + 1 \<le> maxlen"
proof (induction cs arbitrary: out)
  case (Cons c cs)
  define out' where "out' = (if length (json_esc c) = 1 \<or> length out + 3 < maxlen then out @ json_esc c else out)"
  show ?case
  proof (cases "length out + 2 < maxlen")
    case True
    have "json_body out'" using Cons.prems(1) json_body_append by (simp add: out'_def)
    moreover have "length out' + 1 \<le> maxlen" using True json_esc_length [of c] by (auto simp: out'_def)
    ultimately show ?thesis using Cons.IH [of out'] True by (simp add: json_loop_unfold out'_def)
  qed (use Cons.prems in \<open>simp add: json_loop_unfold\<close>)
qed simp

lemma json_loop_exact:
  "json_body out \<Longrightarrow> length out + 2 * length cs + 2 \<le> maxlen \<Longrightarrow>
   json_unescape (svc_json_loop maxlen out cs) = json_unescape out @ map json_printable cs"
proof (induction cs arbitrary: out)
  case (Cons c cs)
  have "svc_json_loop maxlen out (c # cs) = svc_json_loop maxlen (out @ json_esc c) cs"
    using Cons.prems(2) json_esc_length [of c] by (simp add: json_loop_unfold)
  with Cons.IH [OF json_body_append [OF Cons.prems(1)], of c] Cons.prems json_esc_length [of c]
  show ?case by (simp add: json_unescape_append)
qed simp

section \<open>The mailbox as a ring memory\<close>

type_synonym mailbox_call = "rivr_pkt_hdr_t \<times> u8 list \<times> u8 \<times> u32"

definition mailbox_step :: "u32 \<Rightarrow> mailbox_call \<Rightarrow> mailbox_store_t \<Rightarrow> mailbox_store_t" where
  "mailbox_step my_id k st = (case k of (hdr, payload, len, now) \<Rightarrow> snd (handle_mailbox_store my_id hdr payload len now st))"

definition mailbox_writes :: "u32 \<Rightarrow> mailbox_call \<Rightarrow> mailbox_store_t \<Rightarrow> bool" where
  "mailbox_writes my_id k st = (case k of (hdr, payload, len, now) \<Rightarrow> 7 \<le> len \<and> mailbox_for_us my_id payload)"

definition mailbox_ok :: "mailbox_store_t \<Rightarrow> bool" where
  "mailbox_ok st \<longleftrightarrow> length (ms_entries st) = MB_STORE_CAP \<and> unat (ms_head st) < MB_STORE_CAP \<and>
     unat (ms_count st) \<le> MB_STORE_CAP"

lemma mailbox_zero_ok: "mailbox_ok mailbox_store_zero"
  by (simp add: mailbox_ok_def mailbox_store_zero_def)

lemma unat_mailbox_next: "unat h < MB_STORE_CAP \<Longrightarrow> unat (ucast ((ucast (h :: u8) + 1 :: u32) mod 8) :: u8) = Suc (unat h) mod 8"
proof -
  assume h: "unat h < MB_STORE_CAP"
  have "unat (ucast h + 1 :: u32) = Suc (unat h)" using h by (subst word_add_no_wrap) simp_all
  then show ?thesis by (simp add: unat_ucast_mod unat_mod)
qed

lemma mailbox_insert_ok: "mailbox_ok st \<Longrightarrow> mailbox_ok (mailbox_insert f st)"
  using unat_Suc_less [of "ms_count st" 8]
  by (auto simp: mailbox_ok_def mailbox_insert_def unat_mailbox_next word_less_nat_alt)

lemma mailbox_step_cases:
  "mailbox_step my_id (hdr, payload, len, now) st =
     (if mailbox_writes my_id (hdr, payload, len, now) st then
        mailbox_insert (mailbox_fill (h_src_id hdr) (get_u32 (payload ! 0) (payload ! 1) (payload ! 2) (payload ! 3))
          (get_u16 (payload ! 4) (payload ! 5)) (payload ! 6) (drop 7 payload)
          (if len - 7 > SVC_MAILBOX_MAX_TEXT then SVC_MAILBOX_MAX_TEXT else len - 7) now) st
      else st)"
  by (auto simp: mailbox_step_def handle_mailbox_store_def mailbox_writes_def Let_def not_less not_le)

interpretation mailbox_ring: ring_memory MB_STORE_CAP ms_entries "\<lambda>st. unat (ms_head st)" mailbox_ok
  "mailbox_step my_id" "mailbox_writes my_id" "\<lambda>_ _. True" for my_id :: u32
proof unfold_locales
  fix s :: mailbox_store_t and a :: mailbox_call and i :: nat
  obtain hdr payload len now where a: "a = (hdr, payload, len, now)" by (cases a)
  assume s: "mailbox_ok s"
  then show "length (ms_entries s) = MB_STORE_CAP \<and> unat (ms_head s) < MB_STORE_CAP" by (simp add: mailbox_ok_def)
  then have n: "unat (ms_head s) < MB_STORE_CAP" by simp
  show "mailbox_ok (mailbox_step my_id a s)" using s mailbox_insert_ok by (simp add: a mailbox_step_cases)
  show "unat (ms_head (mailbox_step my_id a s)) =
      (if mailbox_writes my_id a s then Suc (unat (ms_head s)) mod MB_STORE_CAP else unat (ms_head s))"
    using n by (simp add: a mailbox_step_cases mailbox_insert_def unat_mailbox_next)
  assume "\<not> (mailbox_writes my_id a s \<and> i = unat (ms_head s))"
  then show "ms_entries (mailbox_step my_id a s) ! i = ms_entries s ! i"
    by (auto simp: a mailbox_step_cases mailbox_insert_def)
qed

section \<open>Properties\<close>

text \<open>C23: Nothing a sender writes can break out of the log line. The sanitised text is always the body of
  a JSON string, every quote and backslash in it escaped and every byte printable, and it leaves
  room for the terminating zero; if the buffer has two bytes per character to spare, reading the
  string back gives the text with unprintable bytes replaced by dots.\<close>

theorem svc_json_text_safe:
  assumes "0 < maxlen"
  shows "json_body (svc_json_text src len maxlen) \<and> length (svc_json_text src len maxlen) < unat maxlen \<and>
    (2 * length (take (unat len) src) + 2 \<le> unat maxlen \<longrightarrow>
       json_unescape (svc_json_text src len maxlen) = map json_printable (take (unat len) src))"
proof -
  have "1 \<le> unat maxlen" using assms by (simp add: word_less_nat_alt)
  then show ?thesis
    using json_loop_body [of "[]" "unat maxlen" "take (unat len) src"]
      json_loop_exact [of "[]" "take (unat len) src" "unat maxlen"]
    by (simp add: svc_json_text_def)
qed

lemma svc_json_text_safe_witness:
  "json_unescape (svc_json_text [0x68, 0x22, 0x5C, 0x0A] 4 231) = [0x68, 0x22, 0x5C, 0x2E]"
  using svc_json_text_safe [of 231 "[0x68, 0x22, 0x5C, 0x0A]" 4] by (simp add: json_printable_def)

text \<open>The mailbox keeps the last eight messages. A message for this node is found in the store with
  its sender and its text, whatever mailbox frames follow, as long as fewer than eight of them are
  for this node too.\<close>

theorem mailbox_keeps_messages:
  assumes "mailbox_ok st" "length (mb_text (ms_entries st ! unat (ms_head st))) = 224"
    and "mailbox_writes my_id (hdr, payload, len, now) st" "unat len \<le> length payload" "len \<le> RIVR_PKT_MAX_PAYLOAD"
    and "run_writes (mailbox_step my_id) (mailbox_writes my_id) calls (mailbox_step my_id (hdr, payload, len, now) st) < 8"
  shows "\<exists>e \<in> set (ms_entries (fold (mailbox_step my_id) calls (mailbox_step my_id (hdr, payload, len, now) st))).
    mb_valid e \<and> mb_src_id e = h_src_id hdr \<and> mb_stored_at_ms e = now \<and>
    take (unat (mb_text_len e)) (mb_text e) = take (unat len - 7) (drop 7 payload) \<and> unat (mb_text_len e) = unat len - 7"
proof -
  let ?k = "(hdr, payload, len, now)" and ?h = "unat (ms_head st)"
  let ?st = "mailbox_step my_id ?k st" and ?n = "unat (len - 7)"
  have l7: "7 \<le> len" using assms(3) by (simp add: mailbox_writes_def)
  then have n: "?n = unat len - 7" by (simp add: unat_sub_le word_le_nat_alt)
  have max: "\<not> len - 7 > SVC_MAILBOX_MAX_TEXT" using assms(5) n by (simp add: word_less_nat_alt word_le_nat_alt)
  define e where "e = ms_entries ?st ! ?h"
  have e: "e = mailbox_fill (h_src_id hdr) (get_u32 (payload ! 0) (payload ! 1) (payload ! 2) (payload ! 3))
      (get_u16 (payload ! 4) (payload ! 5)) (payload ! 6) (drop 7 payload) (len - 7) now (ms_entries st ! ?h)"
    using assms(1,3) max by (simp add: e_def mailbox_step_cases mailbox_insert_def mailbox_ok_def)
  have keep: "ms_entries (fold (mailbox_step my_id) calls ?st) ! ?h = e"
    unfolding e_def by (rule mailbox_ring.written_survives [OF assms(1,3)]) (use assms(6) in simp_all)
  have ok: "mailbox_ok (fold (mailbox_step my_id) calls ?st)"
    using mailbox_ring.wf_run mailbox_ring.wf_step assms(1) by blast
  have "?h < 8" using assms(1) by (simp add: mailbox_ok_def)
  with keep ok have "e \<in> set (ms_entries (fold (mailbox_step my_id) calls ?st))"
    by (metis mailbox_ok_def nth_mem)
  moreover have "?n \<le> 223" using max by (simp add: word_less_nat_alt)
  ultimately show ?thesis
    using assms(2,4) n by (intro bexI [of _ e]) (simp_all add: e mailbox_fill_def)
qed

lemma mailbox_keeps_messages_witness:
  "ms_entries (mailbox_step 5 (demo_hdr, [5, 0, 0, 0, 1, 0, 0, 0x68, 0x69], 9, 77) mailbox_store_zero) \<noteq>
   ms_entries mailbox_store_zero"
proof -
  have "mailbox_writes 5 (demo_hdr, [5, 0, 0, 0, 1, 0, 0, 0x68, 0x69], 9, 77) mailbox_store_zero"
    by (simp add: mailbox_writes_def mailbox_for_us_def get_u32_def)
  moreover have "length (mb_text (ms_entries mailbox_store_zero ! unat (ms_head mailbox_store_zero))) = 224"
    by (simp add: mailbox_store_zero_def)
  ultimately show ?thesis
    using mailbox_keeps_messages [OF mailbox_zero_ok, of 5 demo_hdr "[5, 0, 0, 0, 1, 0, 0, 0x68, 0x69]" 9 77 "[]"]
    by (auto simp: mailbox_store_zero_def)
qed

end
