(* ===== verification/Rivr_Sha256.thy ===== *)
theory Rivr_Sha256
  imports Rivr_Prelude
begin

text \<open>
  SHA-256 and HMAC-SHA-256 (crypto/hmac_sha256.c), the code behind the signature of parameter
  updates: the compression function, the byte-wise buffered update, the padding of the final
  block, and the keyed construction. The streaming code is proved equal to a direct reading of
  FIPS 180-4 (pad the message, split it, fold the compression function over the blocks) and of
  RFC 2104. A context is a value that every operation returns updated.
\<close>

section \<open>The compression function\<close>

definition ROR32 :: "u32 \<Rightarrow> nat \<Rightarrow> u32" where
  "ROR32 x n = drop_bit n x OR push_bit (32 - n) x"

definition sha_CH :: "u32 \<Rightarrow> u32 \<Rightarrow> u32 \<Rightarrow> u32" where
  "sha_CH x y z = (x AND y) XOR (NOT x AND z)"

definition sha_MAJ :: "u32 \<Rightarrow> u32 \<Rightarrow> u32 \<Rightarrow> u32" where
  "sha_MAJ x y z = (x AND y) XOR (x AND z) XOR (y AND z)"

definition sha_EP0 :: "u32 \<Rightarrow> u32" where
  "sha_EP0 x = ROR32 x 2 XOR ROR32 x 13 XOR ROR32 x 22"

definition sha_EP1 :: "u32 \<Rightarrow> u32" where
  "sha_EP1 x = ROR32 x 6 XOR ROR32 x 11 XOR ROR32 x 25"

definition sha_SIG0 :: "u32 \<Rightarrow> u32" where
  "sha_SIG0 x = ROR32 x 7 XOR ROR32 x 18 XOR drop_bit 3 x"

definition sha_SIG1 :: "u32 \<Rightarrow> u32" where
  "sha_SIG1 x = ROR32 x 17 XOR ROR32 x 19 XOR drop_bit 10 x"

text \<open>The table of round constants, in the rows of the C initializer.\<close>

definition sha_K :: "u32 list" where
  "sha_K = concat
    [[0x428a2f98, 0x71374491, 0xb5c0fbcf, 0xe9b5dba5],
     [0x3956c25b, 0x59f111f1, 0x923f82a4, 0xab1c5ed5],
     [0xd807aa98, 0x12835b01, 0x243185be, 0x550c7dc3],
     [0x72be5d74, 0x80deb1fe, 0x9bdc06a7, 0xc19bf174],
     [0xe49b69c1, 0xefbe4786, 0x0fc19dc6, 0x240ca1cc],
     [0x2de92c6f, 0x4a7484aa, 0x5cb0a9dc, 0x76f988da],
     [0x983e5152, 0xa831c66d, 0xb00327c8, 0xbf597fc7],
     [0xc6e00bf3, 0xd5a79147, 0x06ca6351, 0x14292967],
     [0x27b70a85, 0x2e1b2138, 0x4d2c6dfc, 0x53380d13],
     [0x650a7354, 0x766a0abb, 0x81c2c92e, 0x92722c85],
     [0xa2bfe8a1, 0xa81a664b, 0xc24b8b70, 0xc76c51a3],
     [0xd192e819, 0xd6990624, 0xf40e3585, 0x106aa070],
     [0x19a4c116, 0x1e376c08, 0x2748774c, 0x34b0bcb5],
     [0x391c0cb3, 0x4ed8aa4a, 0x5b9cca4f, 0x682e6ff3],
     [0x748f82ee, 0x78a5636f, 0x84c87814, 0x8cc70208],
     [0x90befffa, 0xa4506ceb, 0xbef9a3f7, 0xc67178f2]]"

record rivr_sha256_ctx_t =
  sc_block :: "u8 list"
  sc_state :: "u32 list"
  sc_bitlen :: u64
  sc_datalen :: u32

definition get_be32 :: "u8 \<Rightarrow> u8 \<Rightarrow> u8 \<Rightarrow> u8 \<Rightarrow> u32" where
  "get_be32 b0 b1 b2 b3 = push_bit 24 (ucast b0) OR push_bit 16 (ucast b1) OR push_bit 8 (ucast b2) OR ucast b3"

text \<open>The schedule \<open>m\<close>: sixteen words of the block, then each word from four earlier ones.\<close>

definition sha256_load :: "u8 list \<Rightarrow> u32 list" where
  "sha256_load data =
     map (\<lambda>i. get_be32 (data ! (4 * i)) (data ! (4 * i + 1)) (data ! (4 * i + 2)) (data ! (4 * i + 3))) [0..<16]"

definition sha256_extend :: "nat \<Rightarrow> u32 list \<Rightarrow> u32 list" where
  "sha256_extend i m = m @ [sha_SIG1 (m ! (i - 2)) + m ! (i - 7) + sha_SIG0 (m ! (i - 15)) + m ! (i - 16)]"

definition sha256_schedule :: "u8 list \<Rightarrow> u32 list" where
  "sha256_schedule data = fold sha256_extend [16..<64] (sha256_load data)"

text \<open>One round on the eight working variables \<open>a\<close> to \<open>h\<close>.\<close>

type_synonym sha_vars = "u32 \<times> u32 \<times> u32 \<times> u32 \<times> u32 \<times> u32 \<times> u32 \<times> u32"

fun sha256_round :: "u32 \<Rightarrow> u32 \<Rightarrow> sha_vars \<Rightarrow> sha_vars" where
  "sha256_round k w (a, b, c, d, e, f, g, h) =
     (let t1 = h + sha_EP1 e + sha_CH e f g + k + w;
          t2 = sha_EP0 a + sha_MAJ a b c
      in (t1 + t2, a, b, c, d + t1, e, f, g))"

definition sha256_vars :: "u32 list \<Rightarrow> sha_vars" where
  "sha256_vars s = (s ! 0, s ! 1, s ! 2, s ! 3, s ! 4, s ! 5, s ! 6, s ! 7)"

fun sha256_add :: "u32 list \<Rightarrow> sha_vars \<Rightarrow> u32 list" where
  "sha256_add s (a, b, c, d, e, f, g, h) =
     [s ! 0 + a, s ! 1 + b, s ! 2 + c, s ! 3 + d, s ! 4 + e, s ! 5 + f, s ! 6 + g, s ! 7 + h]"

definition sha256_transform :: "rivr_sha256_ctx_t \<Rightarrow> u8 list \<Rightarrow> rivr_sha256_ctx_t" where
  "sha256_transform ctx data =
     (let m = sha256_schedule data;
          v = fold (\<lambda>i. sha256_round (sha_K ! i) (m ! i)) [0..<64] (sha256_vars (sc_state ctx))
      in ctx\<lparr>sc_state := sha256_add (sc_state ctx) v\<rparr>)"

section \<open>Streaming\<close>

definition sha_IV :: "u32 list" where
  "sha_IV = [0x6a09e667, 0xbb67ae85, 0x3c6ef372, 0xa54ff53a, 0x510e527f, 0x9b05688c, 0x1f83d9ab, 0x5be0cd19]"

text \<open>\<open>sha256_init\<close> leaves the block buffer as it finds it on the stack.\<close>

definition sha256_init :: "u8 list \<Rightarrow> rivr_sha256_ctx_t" where
  "sha256_init stack = \<lparr>sc_block = stack, sc_state = sha_IV, sc_bitlen = 0, sc_datalen = 0\<rparr>"

definition sha256_byte :: "u8 \<Rightarrow> rivr_sha256_ctx_t \<Rightarrow> rivr_sha256_ctx_t" where
  "sha256_byte b ctx =
     (let c1 = ctx\<lparr>sc_block := (sc_block ctx)[unat (sc_datalen ctx) := b], sc_datalen := sc_datalen ctx + 1\<rparr>
      in if sc_datalen c1 = 64
         then (sha256_transform c1 (sc_block c1))\<lparr>sc_bitlen := sc_bitlen c1 + 512, sc_datalen := 0\<rparr>
         else c1)"

definition sha256_update :: "u8 list \<Rightarrow> rivr_sha256_ctx_t \<Rightarrow> rivr_sha256_ctx_t" where
  "sha256_update data ctx = fold sha256_byte data ctx"

definition zero_range :: "nat \<Rightarrow> nat \<Rightarrow> u8 list \<Rightarrow> u8 list" where
  "zero_range a c b = fold (\<lambda>j b. b[j := 0]) [a..<c] b"

definition put_be32 :: "u32 \<Rightarrow> u8 list" where
  "put_be32 v = [ucast (drop_bit 24 v), ucast (drop_bit 16 v), ucast (drop_bit 8 v), ucast v]"

definition sha256_final :: "rivr_sha256_ctx_t \<Rightarrow> u8 list" where
  "sha256_final ctx =
     (let d = unat (sc_datalen ctx);
          b0 = (sc_block ctx)[d := 0x80];
          c1 = (if sc_datalen ctx < 56 then ctx\<lparr>sc_block := zero_range (d + 1) 56 b0\<rparr>
                else let c0 = ctx\<lparr>sc_block := zero_range (d + 1) 64 b0\<rparr>;
                         c2 = sha256_transform c0 (sc_block c0)
                     in c2\<lparr>sc_block := zero_range 0 56 (sc_block c2)\<rparr>);
          n = sc_bitlen c1 + ucast (sc_datalen c1) * 8;
          b1 = (sc_block c1)[63 := ucast n, 62 := ucast (drop_bit 8 n), 61 := ucast (drop_bit 16 n),
                 60 := ucast (drop_bit 24 n), 59 := ucast (drop_bit 32 n), 58 := ucast (drop_bit 40 n),
                 57 := ucast (drop_bit 48 n), 56 := ucast (drop_bit 56 n)];
          c3 = sha256_transform (c1\<lparr>sc_block := b1, sc_bitlen := n\<rparr>) b1
      in concat (map put_be32 (sc_state c3)))"

definition stack64 :: "u8 list" where
  "stack64 = replicate 64 0"

definition rivr_sha256 :: "u8 list \<Rightarrow> u8 list" where
  "rivr_sha256 data = sha256_final (sha256_update data (sha256_init stack64))"

definition rivr_hmac_sha256 :: "u8 list \<Rightarrow> u8 list \<Rightarrow> u8 list" where
  "rivr_hmac_sha256 key msg =
     (let k_norm = (if 64 < length key then rivr_sha256 key @ replicate 32 0
                    else key @ replicate (64 - length key) 0);
          ikey = map (\<lambda>b. b XOR 0x36) k_norm;
          okey = map (\<lambda>b. b XOR 0x5c) k_norm;
          inner = sha256_final (sha256_update msg (sha256_update ikey (sha256_init stack64)))
      in sha256_final (sha256_update inner (sha256_update okey (sha256_init stack64))))"

section \<open>The standard\<close>

text \<open>
  FIPS 180-4 in its own terms, for words of any width: \<open>ROTR\<close> is the library's \<open>word_rotr\<close>, the logical
  functions of section 4.1 are given bit by bit, words and bytes are read and written as numbers in base 256
  (section 3.1). Nothing of the code's functions occurs here; the round constants and the initial state
  are pinned by the roots they are defined from.
\<close>

definition be_nat :: "u8 list \<Rightarrow> nat" where
  "be_nat bs = foldl (\<lambda>n b. 256 * n + unat b) 0 bs"

definition be_bytes :: "nat \<Rightarrow> nat \<Rightarrow> u8 list" where
  "be_bytes k n = map (\<lambda>i. of_nat (n div 256 ^ (k - 1 - i))) [0..<k]"

definition fips_Ch :: "'a::len word \<Rightarrow> 'a word \<Rightarrow> 'a word \<Rightarrow> 'a word" where
  "fips_Ch x y z = horner_sum of_bool 2 (map (\<lambda>i. if bit x i then bit y i else bit z i) [0..<LENGTH('a)])"

definition fips_Maj :: "'a::len word \<Rightarrow> 'a word \<Rightarrow> 'a word \<Rightarrow> 'a word" where
  "fips_Maj x y z =
     horner_sum of_bool 2 (map (\<lambda>i. bit x i \<and> bit y i \<or> bit x i \<and> bit z i \<or> bit y i \<and> bit z i) [0..<LENGTH('a)])"

text \<open>\<open>fips_BIG [a, b, c]\<close> is the exclusive or of three rotations, \<open>fips_SMALL [a, b] c\<close> that of two rotations
  and a shift.\<close>

definition fips_BIG :: "nat list \<Rightarrow> 'a::len word \<Rightarrow> 'a word" where
  "fips_BIG ns x = foldr (\<lambda>n w. word_rotr n x XOR w) ns 0"

definition fips_SMALL :: "nat list \<Rightarrow> nat \<Rightarrow> 'a::len word \<Rightarrow> 'a word" where
  "fips_SMALL ns s x = foldr (\<lambda>n w. word_rotr n x XOR w) ns (drop_bit s x)"

text \<open>A step of the working variables (sections 6.2.2 and 6.4.2), given the two big sigmas, the round
  constant and the word of the schedule.\<close>

fun fips_step :: "('a::len word \<Rightarrow> 'a word) \<Rightarrow> ('a word \<Rightarrow> 'a word) \<Rightarrow> 'a word \<times> 'a word \<Rightarrow> 'a word list \<Rightarrow> 'a word list" where
  "fips_step \<Sigma>0 \<Sigma>1 (k, w) [a, b, c, d, e, f, g, h] =
     (let T1 = h + \<Sigma>1 e + fips_Ch e f g + k + w; T2 = \<Sigma>0 a + fips_Maj a b c
      in [T1 + T2, a, b, c, d + T1, e, f, g])"
| "fips_step _ _ _ v = v"

text \<open>The schedule of section 6.2.2, as a recursion over the word index, and the compression of a block.\<close>

fun fips_W :: "u8 list \<Rightarrow> nat \<Rightarrow> u32" where
  "fips_W block t =
     (if t < 16 then of_nat (be_nat [block ! (4 * t), block ! (4 * t + 1), block ! (4 * t + 2), block ! (4 * t + 3)])
      else fips_SMALL [17, 19] 10 (fips_W block (t - 2)) + fips_W block (t - 7)
           + fips_SMALL [7, 18] 3 (fips_W block (t - 15)) + fips_W block (t - 16))"

declare fips_W.simps [simp del]

definition fips_compress :: "u8 list \<Rightarrow> u32 list \<Rightarrow> u32 list" where
  "fips_compress block H =
     map2 (+) H (fold (fips_step (fips_BIG [2, 13, 22]) (fips_BIG [6, 11, 25])) (zip sha_K (map (fips_W block) [0..<64])) H)"

definition fips_blocks :: "nat \<Rightarrow> u8 list \<Rightarrow> u8 list list" where
  "fips_blocks n msg = map (\<lambda>i. take 64 (drop (64 * i) msg)) [0..<n]"

definition fips_pad :: "u8 list \<Rightarrow> u8 list" where
  "fips_pad msg =
     msg @ [0x80] @ replicate ((119 - length msg mod 64) mod 64) 0 @ be_bytes 8 (8 * length msg)"

definition fips_sha256 :: "u8 list \<Rightarrow> u8 list" where
  "fips_sha256 msg =
     (let p = fips_pad msg
      in concat (map (be_bytes 4 \<circ> unat) (fold fips_compress (fips_blocks (length p div 64) p) sha_IV)))"

text \<open>The key of RFC 2104, section 2: hashed when it is longer than a block, then zero-filled.\<close>

definition rfc_key :: "u8 list \<Rightarrow> u8 list" where
  "rfc_key key = (let k = (if 64 < length key then fips_sha256 key else key) in k @ replicate (64 - length k) 0)"

definition rfc_hmac :: "u8 list \<Rightarrow> u8 list \<Rightarrow> u8 list" where
  "rfc_hmac key msg =
     fips_sha256 (map (\<lambda>b. b XOR 0x5c) (rfc_key key) @ fips_sha256 (map (\<lambda>b. b XOR 0x36) (rfc_key key) @ msg))"

section \<open>The code's functions are those of the standard\<close>

definition put_be64 :: "u64 \<Rightarrow> u8 list" where
  "put_be64 n = [ucast (drop_bit 56 n), ucast (drop_bit 48 n), ucast (drop_bit 40 n), ucast (drop_bit 32 n),
                 ucast (drop_bit 24 n), ucast (drop_bit 16 n), ucast (drop_bit 8 n), ucast n]"

lemma rotr_shifts:
  "n < LENGTH('a) \<Longrightarrow> drop_bit n x OR push_bit (LENGTH('a) - n) x = word_rotr n x" for x :: "'a::len word"
  by (rule bit_word_eqI) (auto simp: bit_simps mod_if add.commute dest: bit_imp_le_length)

lemma ROR32_rotr: "n < 32 \<Longrightarrow> ROR32 x n = word_rotr n x"
  using rotr_shifts [of n x] by (simp add: ROR32_def)

lemma Ch_bits: "fips_Ch x y z = (x AND y) XOR (NOT x AND z)" for x :: "'a::len word"
  by (rule bit_word_eqI) (auto simp: fips_Ch_def bit_simps bit_horner_sum_bit_word_iff)

lemma Maj_bits: "fips_Maj x y z = (x AND y) XOR (x AND z) XOR (y AND z)" for x :: "'a::len word"
  by (rule bit_word_eqI) (auto simp: fips_Maj_def bit_simps bit_horner_sum_bit_word_iff)

lemma sha_functions:
  "sha_CH = fips_Ch" "sha_MAJ = fips_Maj" "sha_EP0 = fips_BIG [2, 13, 22]" "sha_EP1 = fips_BIG [6, 11, 25]"
  "sha_SIG0 = fips_SMALL [7, 18] 3" "sha_SIG1 = fips_SMALL [17, 19] 10"
  by (rule ext, simp add: sha_CH_def sha_MAJ_def Ch_bits Maj_bits fun_eq_iff sha_EP0_def sha_EP1_def sha_SIG0_def sha_SIG1_def
      ROR32_rotr fips_BIG_def fips_SMALL_def xor.assoc)+

lemma be_nat_snoc: "be_nat (bs @ [b]) = 256 * be_nat bs + unat b"
  by (simp add: be_nat_def)

lemma shift_in_byte: "8 \<le> LENGTH('a) \<Longrightarrow> push_bit 8 w OR ucast b = 256 * w + of_nat (unat b)" for w :: "'a::len word" and b :: u8
proof -
  assume "8 \<le> LENGTH('a)"
  have "push_bit 8 w OR ucast b = push_bit 8 w + (ucast b :: 'a word)"
    by (rule disjunctive_add_eq_or [symmetric]) (auto simp: bit_eq_iff bit_simps dest: bit_imp_le_length)
  then show ?thesis by (simp add: push_bit_eq_mult mult.commute)
qed

lemma shift_in_bytes: "8 \<le> LENGTH('a) \<Longrightarrow> foldl (\<lambda>w x. push_bit 8 w OR ucast x) 0 bs = (of_nat (be_nat bs) :: 'a::len word)"
  by (induction bs rule: rev_induct) (simp_all add: be_nat_snoc shift_in_byte, simp add: be_nat_def)

lemma get_be32_nat: "get_be32 a b c d = of_nat (be_nat [a, b, c, d])"
proof -
  have "get_be32 a b c d = foldl (\<lambda>w x. push_bit 8 w OR ucast x) 0 [a, b, c, d]"
    by (simp add: get_be32_def push_bit_or or.assoc)
  then show ?thesis using shift_in_bytes [where 'a = 32, of "[a, b, c, d]"] by simp
qed

lemma shift_out_byte: "k + 8 \<le> LENGTH('a) \<Longrightarrow> (ucast (drop_bit k (of_nat n :: 'a::len word)) :: u8) = of_nat (n div 2 ^ k)"
  by (rule bit_word_eqI) (auto simp: bit_simps drop_bit_eq_div [symmetric])

lemma put_be32_bytes: "put_be32 x = be_bytes 4 (unat x)"
proof -
  have "put_be32 (of_nat n) = be_bytes 4 n" for n
    using shift_out_byte [where 'a = 32, of 0 n]
    by (simp add: put_be32_def be_bytes_def upt_rec shift_out_byte)
  from this [of "unat x"] show ?thesis by simp
qed

lemma put_be32_fun: "put_be32 = be_bytes 4 \<circ> unat"
  by (simp add: fun_eq_iff put_be32_bytes)

lemma put_be64_bytes: "put_be64 (of_nat n) = be_bytes 8 n"
  using shift_out_byte [where 'a = 64, of 0 n]
  by (simp add: put_be64_def be_bytes_def upt_rec shift_out_byte)

text \<open>The rounds, on the eight variables of the code and on the list of the standard.\<close>

fun sha_list :: "sha_vars \<Rightarrow> u32 list" where
  "sha_list (a, b, c, d, e, f, g, h) = [a, b, c, d, e, f, g, h]"

lemma round_step: "sha_list (sha256_round k w v) = fips_step (fips_BIG [2, 13, 22]) (fips_BIG [6, 11, 25]) (k, w) (sha_list v)"
  by (cases v rule: sha_list.cases) (simp add: sha_functions Let_def)

lemma fold_zip_nth:
  "length xs = n \<Longrightarrow> length ys = n \<Longrightarrow> fold f (zip xs ys) s = fold (\<lambda>i. f (xs ! i, ys ! i)) [0..<n] s"
proof -
  assume l: "length xs = n" "length ys = n"
  then have "zip xs ys = map (\<lambda>i. (xs ! i, ys ! i)) [0..<n]" by (intro nth_equalityI) simp_all
  then show ?thesis by (simp add: fold_map comp_def)
qed

lemma sha_K_length: "length sha_K = 64"
  by (simp add: sha_K_def)

section \<open>The schedule array holds the words of the standard\<close>

lemma fips_W_low:
  "t < 16 \<Longrightarrow> fips_W block t = get_be32 (block ! (4 * t)) (block ! (4 * t + 1)) (block ! (4 * t + 2)) (block ! (4 * t + 3))"
  by (subst fips_W.simps) (simp add: get_be32_nat)

lemma schedule_prefix:
  "n \<le> 48 \<Longrightarrow> fold sha256_extend [16..<16 + n] (sha256_load data) = map (fips_W data) [0..<16 + n]"
proof (induction n)
  case 0
  show ?case unfolding sha256_load_def by (auto simp: fips_W_low simp del: upt_rec_numeral)
next
  case (Suc n)
  then have IH: "fold sha256_extend [16..<16 + n] (sha256_load data) = map (fips_W data) [0..<16 + n]" by simp
  have "fips_W data (16 + n) = sha_SIG1 (fips_W data (14 + n)) + fips_W data (9 + n) + sha_SIG0 (fips_W data (1 + n)) + fips_W data n"
    by (subst fips_W.simps) (simp add: sha_functions)
  moreover have "[16..<16 + Suc n] = [16..<16 + n] @ [16 + n]" "[0..<16 + Suc n] = [0..<16 + n] @ [16 + n]"
    by (simp_all only: add_Suc_right upt_Suc) simp_all
  ultimately show ?case using IH
    by (simp add: sha256_extend_def [of "16 + n" "map (fips_W data) [0..<16 + n]"] nth_map_upt del: upt_Suc)
qed

lemma schedule_W: "t < 64 \<Longrightarrow> sha256_schedule data ! t = fips_W data t"
  using schedule_prefix [of 48 data] by (simp add: sha256_schedule_def)

lemma sha_list_fold: "sha_list (fold (\<lambda>i. sha256_round (k i) (w i)) is v)
    = fold (\<lambda>i. fips_step (fips_BIG [2, 13, 22]) (fips_BIG [6, 11, 25]) (k i, w i)) is (sha_list v)"
  by (induction "is" arbitrary: v) (simp_all add: round_step)

lemma sha256_add_list: "length s = 8 \<Longrightarrow> sha256_add s v = map2 (+) s (sha_list v)"
  by (cases "(s, v)" rule: sha256_add.cases) (auto simp: length_Suc_conv numeral_eq_Suc)

lemma sha256_vars_list: "length s = 8 \<Longrightarrow> sha_list (sha256_vars s) = s"
  by (auto simp: sha256_vars_def length_Suc_conv numeral_eq_Suc)

lemma transform_compress:
  assumes "length (sc_state ctx) = 8"
  shows "sha256_transform ctx data = ctx\<lparr>sc_state := fips_compress data (sc_state ctx)\<rparr>"
proof -
  let ?m = "map (fips_W data) [0..<64]"
  let ?step = "fips_step (fips_BIG [2, 13, 22]) (fips_BIG [6, 11, 25])"
  have "fold (\<lambda>i. ?step (sha_K ! i, sha256_schedule data ! i)) [0..<64] v = fold (\<lambda>i. ?step (sha_K ! i, ?m ! i)) [0..<64] v" for v
    by (rule fold_cong) (simp_all add: schedule_W)
  then show ?thesis using assms
    by (simp add: sha256_transform_def fips_compress_def Let_def sha256_add_list sha_list_fold sha256_vars_list
        fold_zip_nth sha_K_length del: upt_rec_numeral)
qed

lemma fips_step_length: "length v = 8 \<Longrightarrow> length (fips_step s0 s1 kw v) = 8"
  by (cases "(s0, s1, kw, v)" rule: fips_step.cases) (auto simp: Let_def)

lemma fold_length: "(\<And>x s. length s = n \<Longrightarrow> length (f x s) = n) \<Longrightarrow> length s = n \<Longrightarrow> length (fold f xs s) = n"
  by (induction xs arbitrary: s) simp_all

lemma fips_compress_length: "length H = 8 \<Longrightarrow> length (fips_compress block H) = 8"
  unfolding fips_compress_def by (simp add: fold_length [of 8] fips_step_length)

lemma fips_state_length: "length (fold fips_compress bs sha_IV) = 8"
  by (rule fold_length) (simp_all add: fips_compress_length sha_IV_def)

section \<open>Buffering\<close>

lemma fips_blocks_Suc: "fips_blocks (Suc n) msg = fips_blocks n msg @ [take 64 (drop (64 * n) msg)]"
  by (simp add: fips_blocks_def)

lemma fips_blocks_append: "64 * n \<le> length msg \<Longrightarrow> fips_blocks n (msg @ x) = fips_blocks n msg"
  by (auto simp: fips_blocks_def)

text \<open>What a context holds after the bytes \<open>msg\<close>.\<close>

definition sha_holds :: "u8 list \<Rightarrow> rivr_sha256_ctx_t \<Rightarrow> bool" where
  "sha_holds msg ctx \<longleftrightarrow>
     length (sc_block ctx) = 64 \<and>
     sc_datalen ctx = of_nat (length msg mod 64) \<and>
     take (length msg mod 64) (sc_block ctx) = drop (64 * (length msg div 64)) msg \<and>
     sc_state ctx = fold fips_compress (fips_blocks (length msg div 64) msg) sha_IV \<and>
     sc_bitlen ctx = of_nat (512 * (length msg div 64))"

lemma sha_holds_init: "sha_holds [] (sha256_init stack64)"
  by (simp add: sha_holds_def sha256_init_def stack64_def fips_blocks_def)

lemma unat_mod64: "unat (of_nat (n mod 64) :: u32) = n mod 64"
proof -
  have "n mod 64 < 64" by simp
  then show ?thesis by (simp add: unat_of_nat del: mod_less_divisor)
qed

lemma unat_u32_64: "n \<le> 64 \<Longrightarrow> unat (of_nat n :: u32) = n"
  by (simp add: unat_of_nat)

lemma of_nat_u32_eq: "m \<le> 64 \<Longrightarrow> n \<le> 64 \<Longrightarrow> (of_nat m :: u32) = of_nat n \<longleftrightarrow> m = n"
  by (metis unat_u32_64)

lemma sha256_byte_holds:
  assumes h: "sha_holds msg ctx"
  shows "sha_holds (msg @ [b]) (sha256_byte b ctx)"
proof -
  define q r where "q = length msg div 64" and "r = length msg mod 64"
  have len: "length msg = 64 * q + r" and r: "r < 64" by (simp_all add: q_def r_def)
  from h have blk: "length (sc_block ctx) = 64" and dl: "sc_datalen ctx = of_nat r"
    and pre: "take r (sc_block ctx) = drop (64 * q) msg"
    and st: "sc_state ctx = fold fips_compress (fips_blocks q msg) sha_IV"
    and bl: "sc_bitlen ctx = of_nat (512 * q)"
    by (simp_all add: sha_holds_def q_def r_def)
  have sl: "length (sc_state ctx) = 8" unfolding st by (rule fips_state_length)
  define b1 where "b1 = (sc_block ctx)[r := b]"
  have b1: "take (Suc r) b1 = drop (64 * q) msg @ [b]" "length b1 = 64"
    using r blk pre by (simp_all add: b1_def take_Suc_conv_app_nth)
  have dl1: "sc_datalen ctx + 1 = of_nat (Suc r)" by (simp add: dl)
  have ur: "unat (sc_datalen ctx) = r" using r by (simp add: dl unat_u32_64)
  show ?thesis
  proof (cases "Suc r = 64")
    case True
    then have full: "sc_datalen ctx + 1 = 64" unfolding dl1 by simp
    have b1_full: "b1 = drop (64 * q) msg @ [b]" using b1 True by simp
    have blocks: "fips_blocks (Suc q) (msg @ [b]) = fips_blocks q msg @ [b1]"
      using len True b1_full by (simp add: fips_blocks_Suc fips_blocks_append)
    have dm: "length (msg @ [b]) div 64 = Suc q" "length (msg @ [b]) mod 64 = 0" using len True by simp_all
    have "sha256_byte b ctx = ctx\<lparr>sc_block := b1, sc_datalen := 0, sc_state := fips_compress b1 (sc_state ctx),
            sc_bitlen := sc_bitlen ctx + 512\<rparr>"
      using full True by (simp add: sha256_byte_def Let_def b1_def transform_compress sl)
    then show ?thesis using dm blocks st bl b1 len True by (simp add: sha_holds_def algebra_simps)
  next
    case False
    then have rs: "Suc r < 64" using r by simp
    then have "sc_datalen ctx + 1 \<noteq> 64"
      unfolding dl1 using of_nat_u32_eq [of "Suc r" 64] by simp
    moreover have dm: "length (msg @ [b]) div 64 = q" "length (msg @ [b]) mod 64 = Suc r" using len rs by simp_all
    ultimately show ?thesis
      using b1 dl1 st bl len
      by (simp add: sha_holds_def sha256_byte_def Let_def ur b1_def [symmetric] fips_blocks_append del: of_nat_Suc)
  qed
qed

lemma sha256_update_holds: "sha_holds msg ctx \<Longrightarrow> sha_holds (msg @ data) (sha256_update data ctx)"
proof (induction data arbitrary: msg ctx)
  case (Cons b data)
  from Cons.IH [OF sha256_byte_holds [OF Cons.prems, of b]] show ?case by (simp add: sha256_update_def)
qed (simp add: sha256_update_def)

section \<open>Padding\<close>

lemma zero_range_spec:
  "a \<le> c \<Longrightarrow> c \<le> length b \<Longrightarrow> zero_range a c b = take a b @ replicate (c - a) 0 @ drop c b"
proof (induction c)
  case (Suc c)
  show ?case
  proof (cases "a = Suc c")
    case False
    then have ac: "a \<le> c" "c < length b" using Suc.prems by simp_all
    have "zero_range a (Suc c) b = (zero_range a c b)[c := 0]" using ac by (simp add: zero_range_def)
    also have "\<dots> = (take a b @ replicate (c - a) 0 @ drop c b)[c := 0]" using Suc.IH ac by simp
    also have "\<dots> = take a b @ replicate (c - a) 0 @ (drop c b)[0 := 0]"
      using ac by (simp add: list_update_append min_def)
    also have "(drop c b)[0 := 0] = 0 # drop (Suc c) b" using ac by (simp add: Cons_nth_drop_Suc [symmetric])
    also have "replicate (c - a) 0 @ 0 # drop (Suc c) b = replicate (Suc c - a) 0 @ drop (Suc c) b"
      using ac by (simp add: Suc_diff_le replicate_append_same)
    finally show ?thesis .
  qed (simp add: zero_range_def)
qed (simp add: zero_range_def)

lemma put_be64_updates:
  assumes "length b = 64"
  shows "b[63 := ucast n, 62 := ucast (drop_bit 8 n), 61 := ucast (drop_bit 16 n),
           60 := ucast (drop_bit 24 n), 59 := ucast (drop_bit 32 n), 58 := ucast (drop_bit 40 n),
           57 := ucast (drop_bit 48 n), 56 := ucast (drop_bit 56 n)] = take 56 b @ put_be64 n"
proof -
  define e where "e = drop 56 b"
  from assms have "length e = 8" by (simp add: e_def)
  then obtain x0 x1 x2 x3 x4 x5 x6 x7 where "e = [x0, x1, x2, x3, x4, x5, x6, x7]"
    by (auto simp: numeral_eq_Suc length_Suc_conv)
  then have d: "drop 56 b = [x0, x1, x2, x3, x4, x5, x6, x7]" by (simp add: e_def)
  define a where "a = take 56 b"
  have a: "length a = 56" using assms by (simp add: a_def)
  have b: "b = a @ [x0, x1, x2, x3, x4, x5, x6, x7]"
    unfolding a_def d [symmetric] by (rule append_take_drop_id [symmetric])
  have u: "(a @ ys)[56 := v] = a @ ys[0 := v]" "(a @ ys)[57 := v] = a @ ys[1 := v]"
    "(a @ ys)[58 := v] = a @ ys[2 := v]" "(a @ ys)[59 := v] = a @ ys[3 := v]"
    "(a @ ys)[60 := v] = a @ ys[4 := v]" "(a @ ys)[61 := v] = a @ ys[5 := v]"
    "(a @ ys)[62 := v] = a @ ys[6 := v]" "(a @ ys)[63 := v] = a @ ys[7 := v]" for ys v
    using a by (simp_all only: list_update_append) simp_all
  have t: "take 56 b = a" by (simp only: a_def)
  show ?thesis unfolding t unfolding b u by (simp add: put_be64_def)
qed

lemma ucast_small: "n \<le> 64 \<Longrightarrow> (ucast (of_nat n :: u32) :: u64) = of_nat n"
  by (simp add: word_eq_unat unat_ucast_mod unat_of_nat)

lemma sha256_final_correct:
  assumes h: "sha_holds msg ctx"
  shows "sha256_final ctx = fips_sha256 msg"
proof -
  define q r where "q = length msg div 64" and "r = length msg mod 64"
  have len: "length msg = 64 * q + r" and r: "r < 64" by (simp_all add: q_def r_def)
  from h have blk: "length (sc_block ctx) = 64" and dl: "sc_datalen ctx = of_nat r"
    and pre: "take r (sc_block ctx) = drop (64 * q) msg"
    and st: "sc_state ctx = fold fips_compress (fips_blocks q msg) sha_IV"
    and bl: "sc_bitlen ctx = of_nat (512 * q)"
    by (simp_all add: sha_holds_def q_def r_def)
  have sl: "length (sc_state ctx) = 8" unfolding st by (rule fips_state_length)
  define n :: u64 where "n = of_nat (8 * length msg)"
  have n: "sc_bitlen ctx + ucast (sc_datalen ctx) * 8 = n"
    using r by (simp add: n_def bl dl ucast_small len algebra_simps)
  have ur: "unat (sc_datalen ctx) = r" using r by (simp add: dl unat_u32_64)
  define b0 where "b0 = (sc_block ctx)[r := 0x80]"
  have b0: "take (Suc r) b0 = drop (64 * q) msg @ [0x80]" "length b0 = 64"
    using r blk pre by (simp_all add: b0_def take_Suc_conv_app_nth)
  have lt: "sc_datalen ctx < 56 \<longleftrightarrow> r < 56"
    by (simp add: word_less_nat_alt ur)
  show ?thesis
  proof (cases "r < 56")
    case True
    define B where "B = drop (64 * q) msg @ [0x80] @ replicate (55 - r) 0 @ put_be64 n"
    define Z where "Z = zero_range (Suc r) 56 b0"
    have e: "56 - r = Suc (55 - r)" using True by simp
    have Z: "length Z = 64" "take 56 Z @ put_be64 n = B"
      using True b0 len by (simp_all add: Z_def zero_range_spec B_def e)
    have fin: "sha256_final ctx = concat (map (be_bytes 4 \<circ> unat) (fips_compress B (sc_state ctx)))"
      using True lt by (simp add: sha256_final_def Let_def ur b0_def [symmetric] n put_be64_updates
          Z_def [symmetric] Z transform_compress sl put_be32_fun)
    have zs: "(119 - r) mod 64 = 55 - r" using True by (simp add: mod_if)
    have pad: "fips_pad msg = msg @ [0x80] @ replicate (55 - r) 0 @ put_be64 n"
      by (simp only: fips_pad_def n_def r_def [symmetric] zs put_be64_bytes)
    have "length (fips_pad msg) = 64 * Suc q" using True len by (simp add: pad put_be64_def)
    moreover have "fips_blocks (Suc q) (fips_pad msg) = fips_blocks q msg @ [B]"
      using len True by (simp add: fips_blocks_Suc pad fips_blocks_append B_def put_be64_def)
    ultimately show ?thesis by (simp add: fips_sha256_def Let_def fin st)
  next
    case False
    define B1 B2 where "B1 = drop (64 * q) msg @ [0x80] @ replicate (63 - r) 0"
      and "B2 = replicate 56 0 @ put_be64 n"
    have z: "zero_range (Suc r) 64 b0 = B1"
      using False r b0 len by (simp add: zero_range_spec B1_def)
    have B1: "length B1 = 64" using len r by (simp add: B1_def)
    have fin: "sha256_final ctx = concat (map (be_bytes 4 \<circ> unat) (fips_compress B2 (fips_compress B1 (sc_state ctx))))"
      using False lt by (simp add: sha256_final_def Let_def ur b0_def [symmetric] z n put_be64_updates
          zero_range_spec B1 transform_compress fips_compress_length sl put_be32_fun B2_def)
    have zs: "(119 - r) mod 64 = 119 - r" using False r by simp
    have sp: "replicate (119 - r) (0 :: u8) = replicate (63 - r) 0 @ replicate 56 0"
      using False r by (simp add: replicate_add [symmetric])
    have pad: "fips_pad msg = msg @ [0x80] @ replicate (63 - r) 0 @ replicate 56 0 @ put_be64 n"
      unfolding fips_pad_def put_be64_bytes [symmetric] n_def [symmetric] r_def [symmetric] zs sp by simp
    have e: "64 - r = Suc (63 - r)" using r by simp
    have "length (fips_pad msg) = 64 * Suc (Suc q)" using len r by (simp add: pad put_be64_def)
    moreover have "fips_blocks (Suc (Suc q)) (fips_pad msg) = fips_blocks q msg @ [B1, B2]"
      using len r by (simp add: fips_blocks_Suc pad fips_blocks_append B1_def B2_def put_be64_def e)
    ultimately show ?thesis by (simp add: fips_sha256_def Let_def fin st)
  qed
qed

lemma sha256_split:
  "sha256_final (sha256_update y (sha256_update x (sha256_init stack64))) = fips_sha256 (x @ y)"
  by (rule sha256_final_correct, rule sha256_update_holds, use sha256_update_holds [OF sha_holds_init] in simp)

lemma rivr_sha256_fips: "rivr_sha256 data = fips_sha256 data"
  using sha256_split [of "[]" data] by (simp add: rivr_sha256_def sha256_update_def)

lemma sha256_add_length: "length (sha256_add s v) = 8"
  by (cases "(s, v)" rule: sha256_add.cases) simp

lemma fips_digest_length: "length (fips_sha256 msg) = 32"
  by (simp add: fips_sha256_def Let_def length_concat comp_def be_bytes_def sum_list_triv fips_state_length)

lemma hmac_standard: "rivr_hmac_sha256 k m = rfc_hmac k m"
proof -
  have n: "(if 64 < length k then rivr_sha256 k @ replicate 32 0 else k @ replicate (64 - length k) 0) = rfc_key k"
    by (simp add: rfc_key_def rivr_sha256_fips fips_digest_length)
  show ?thesis unfolding rivr_hmac_sha256_def n Let_def sha256_split rfc_hmac_def ..
qed

text \<open>The constants are what FIPS 180-4 says they are: the first 32 bits of the fractional parts of the
  cube roots of the first 64 primes and of the square roots of the first eight. A pair is a prime
  and the integral part of its root; \<open>root_frac d (p, r) k\<close> holds if \<open>r * 2 ^ 32 + k\<close> is the \<open>d\<close>-th root
  of \<open>p\<close> times \<open>2 ^ 32\<close>, rounded down.\<close>

fun root_frac :: "nat \<Rightarrow> nat \<times> nat \<Rightarrow> u32 \<Rightarrow> bool" where
  "root_frac d (p, r) k \<longleftrightarrow> (r * 2 ^ 32 + unat k) ^ d \<le> p * 2 ^ (32 * d) \<and>
     p * 2 ^ (32 * d) < (r * 2 ^ 32 + unat k + 1) ^ d"

definition prime_cube_roots :: "(nat \<times> nat) list" where
  "prime_cube_roots =
    [(2, 1), (3, 1), (5, 1), (7, 1), (11, 2), (13, 2), (17, 2), (19, 2), (23, 2), (29, 3), (31, 3),
     (37, 3), (41, 3), (43, 3), (47, 3), (53, 3), (59, 3), (61, 3), (67, 4), (71, 4), (73, 4), (79, 4),
     (83, 4), (89, 4), (97, 4), (101, 4), (103, 4), (107, 4), (109, 4), (113, 4), (127, 5), (131, 5), (137, 5),
     (139, 5), (149, 5), (151, 5), (157, 5), (163, 5), (167, 5), (173, 5), (179, 5), (181, 5), (191, 5), (193, 5),
     (197, 5), (199, 5), (211, 5), (223, 6), (227, 6), (229, 6), (233, 6), (239, 6), (241, 6), (251, 6), (257, 6),
     (263, 6), (269, 6), (271, 6), (277, 6), (281, 6), (283, 6), (293, 6), (307, 6), (311, 6)]"

definition prime_square_roots :: "(nat \<times> nat) list" where
  "prime_square_roots = [(2, 1), (3, 1), (5, 2), (7, 2), (11, 3), (13, 3), (17, 4), (19, 4)]"

lemma sha_K_cube_roots: "list_all2 (root_frac 3) prime_cube_roots sha_K"
  by (simp add: prime_cube_roots_def sha_K_def power3_eq_cube)

lemma sha_IV_square_roots: "list_all2 (root_frac 2) prime_square_roots sha_IV"
  by (simp add: prime_square_roots_def sha_IV_def power2_eq_square)

text \<open>C7: The keyed hash is HMAC-SHA-256. The byte-wise buffered code with its two-case padding and
  its rotating working variables computes the SHA-256 of FIPS 180-4, stated without any function of the code
  (rotations by the library's \<open>word_rotr\<close>, choice and majority bit by bit, the rotation and shift amounts and the
  round written out, words read and written in base 256, the message padded with one bit, zeros and its
  length, split into blocks, the compression function with its recursively defined schedule folded
  over them), and the keyed construction is the HMAC of RFC 2104, for every key (longer than a block or not) and
  every message. Its round constants and initial state are the fractional parts of the cube and
  square roots of the first primes that FIPS 180-4 prescribes.\<close>

theorem hmac_sha256_standard:
  "rivr_sha256 msg = fips_sha256 msg \<and> rivr_hmac_sha256 key msg = rfc_hmac key msg \<and>
   length (rivr_hmac_sha256 key msg) = 32 \<and>
   list_all2 (root_frac 3) prime_cube_roots sha_K \<and> list_all2 (root_frac 2) prime_square_roots sha_IV"
  using sha_K_cube_roots sha_IV_square_roots
  by (simp add: rivr_sha256_fips hmac_standard rfc_hmac_def fips_digest_length)

end
