(* ===== verification/Rivr_Params.thy ===== *)
theory Rivr_Params
  imports Rivr_Config Rivr_Protocol Rivr_Sha256
begin

text \<open>
  The runtime parameters (rivr_policy.c): their validated setters, the role helpers, the throttle on
  originated traffic, the generated Rivr program, and the signed parameter update that arrives over
  the air (the @PARAMS branch of rivr_sources.c). A C string is the list of its bytes without the
  terminating zero. \<open>strtoul\<close> and \<open>sscanf\<close> are modelled from the C standard; the width of
  \<open>unsigned long\<close> is the argument \<open>W\<close> (32 on the microcontrollers, 64 on Linux).
\<close>

section \<open>C strings\<close>

definition ascii :: "string \<Rightarrow> u8 list" where
  "ascii s = map of_char s"

definition c_str :: "u8 list \<Rightarrow> u8 list" where
  "c_str b = takeWhile (\<lambda>c. c \<noteq> 0) b"

fun strstr :: "u8 list \<Rightarrow> u8 list \<Rightarrow> u8 list option" where
  "strstr pat [] = (if pat = [] then Some [] else None)"
| "strstr pat (c # s) = (if take (length pat) (c # s) = pat then Some (c # s) else strstr pat s)"

definition isspace :: "u8 \<Rightarrow> bool" where
  "isspace c \<longleftrightarrow> c = 0x20 \<or> (0x09 \<le> c \<and> c \<le> 0x0D)"

definition isdigit :: "u8 \<Rightarrow> bool" where
  "isdigit c \<longleftrightarrow> 0x30 \<le> c \<and> c \<le> 0x39"

fun digits_value :: "nat \<Rightarrow> u8 list \<Rightarrow> nat" where
  "digits_value acc [] = acc"
| "digits_value acc (c # s) = digits_value (10 * acc + (unat c - 48)) s"

text \<open>The optional sign, and the number that \<open>%lu\<close> and \<open>strtoul\<close> read: None when there is no digit.\<close>

fun scan_sign :: "u8 list \<Rightarrow> bool \<times> u8 list" where
  "scan_sign [] = (False, [])"
| "scan_sign (c # s) = (if c = 0x2D then (True, s) else if c = 0x2B then (False, s) else (False, c # s))"

definition scan_lu :: "nat \<Rightarrow> u8 list \<Rightarrow> nat option" where
  "scan_lu W s =
     (case scan_sign (dropWhile isspace s) of (neg, t) \<Rightarrow>
        let ds = takeWhile isdigit t; n = digits_value 0 ds
        in if ds = [] then None
           else if 2 ^ W \<le> n then Some (2 ^ W - 1)
           else if neg then Some ((2 ^ W - n) mod 2 ^ W)
           else Some n)"

definition strtoul :: "nat \<Rightarrow> u8 list \<Rightarrow> nat" where
  "strtoul W s = (case scan_lu W s of None \<Rightarrow> 0 | Some n \<Rightarrow> n)"

definition hex_value :: "u8 \<Rightarrow> u8 option" where
  "hex_value c =
     (if 0x30 \<le> c \<and> c \<le> 0x39 then Some (c - 0x30)
      else if 0x61 \<le> c \<and> c \<le> 0x66 then Some (c - 0x57)
      else if 0x41 \<le> c \<and> c \<le> 0x46 then Some (c - 0x37)
      else None)"

text \<open>
  \<open>sscanf(s, "%02x", &b)\<close> with the result cast to a byte: white space is skipped, at most two
  characters are taken, a sign counts as one of them, and a bare \<open>0x\<close> is a matching failure.
\<close>

definition scan_x2 :: "u8 list \<Rightarrow> u8 option" where
  "scan_x2 s =
     (case dropWhile isspace s of
        [] \<Rightarrow> None
      | c1 # t \<Rightarrow>
          let c2 = (case t of [] \<Rightarrow> None | c # _ \<Rightarrow> hex_value c)
          in if c1 = 0x2D then map_option uminus c2
             else if c1 = 0x2B then c2
             else case hex_value c1 of
                None \<Rightarrow> None
              | Some h \<Rightarrow>
                  (case t of
                     [] \<Rightarrow> Some h
                   | c # _ \<Rightarrow>
                       if c1 = 0x30 \<and> (c = 0x78 \<or> c = 0x58) then None
                       else case hex_value c of None \<Rightarrow> Some h | Some l \<Rightarrow> Some (16 * h + l)))"

section \<open>State\<close>

datatype rivr_node_role_t = RIVR_NODE_ROLE_CLIENT | RIVR_NODE_ROLE_REPEATER | RIVR_NODE_ROLE_GATEWAY

fun node_role_code :: "rivr_node_role_t \<Rightarrow> u8" where
  "node_role_code RIVR_NODE_ROLE_CLIENT = 1"
| "node_role_code RIVR_NODE_ROLE_REPEATER = 2"
| "node_role_code RIVR_NODE_ROLE_GATEWAY = 3"

record rivr_policy_params_t =
  pp_beacon_interval_ms :: u32
  pp_beacon_jitter_ms :: u32
  pp_chat_throttle_ms :: u32
  pp_data_throttle_ms :: u32
  pp_duty_percent :: u8
  pp_role :: u8

record rivr_policy_metrics_t =
  pm_params_update_count :: u32
  pm_last_params_update_uptime_ms :: u32
  pm_policy_rebuild_count :: u32
  pm_policy_reload_count :: u32
  pm_duty_blocked_count :: u32
  pm_origination_drop_count :: u32
  pm_params_sig_ok_count :: u32
  pm_params_sig_fail_count :: u32
  pm_beacon_config_rejected_total :: u32

text \<open>The module state: parameters, counters, the two origination times and the decoded key.\<close>

record rivr_policy_t =
  rp_params :: rivr_policy_params_t
  rp_metrics :: rivr_policy_metrics_t
  rp_last_chat_orig_ms :: u32
  rp_last_data_orig_ms :: u32
  rp_params_psk :: "u8 list"

text \<open>The switches of feature_flags.h for signed updates and the key text.\<close>

record params_build_t =
  pb_role :: rivr_role
  pb_signed_params :: bool
  pb_allow_unsigned :: bool
  pb_psk_hex :: "u8 list"

definition s_psk_init :: "u8 list \<Rightarrow> u8 list" where
  "s_psk_init hex = map (\<lambda>i. case scan_x2 (drop (2 * i) hex) of None \<Rightarrow> 0 | Some b \<Rightarrow> b) [0..<32]"

definition rivr_policy_metrics_zero :: rivr_policy_metrics_t where
  "rivr_policy_metrics_zero =
     \<lparr>pm_params_update_count = 0, pm_last_params_update_uptime_ms = 0, pm_policy_rebuild_count = 0,
      pm_policy_reload_count = 0, pm_duty_blocked_count = 0, pm_origination_drop_count = 0,
      pm_params_sig_ok_count = 0, pm_params_sig_fail_count = 0, pm_beacon_config_rejected_total = 0\<rparr>"

definition policy_params_default :: "rivr_role \<Rightarrow> rivr_policy_params_t" where
  "policy_params_default r =
     \<lparr>pp_beacon_interval_ms = (if relay_role r then 300000 else 600000),
      pp_beacon_jitter_ms = (if relay_role r then 60000 else 120000),
      pp_chat_throttle_ms = 2000, pp_data_throttle_ms = 2000, pp_duty_percent = 10,
      pp_role = node_role_code (if r = RoleGateway then RIVR_NODE_ROLE_GATEWAY
                                else if r = RoleRepeater then RIVR_NODE_ROLE_REPEATER
                                else RIVR_NODE_ROLE_CLIENT)\<rparr>"

definition rivr_policy_init :: "params_build_t \<Rightarrow> rivr_policy_t" where
  "rivr_policy_init b =
     \<lparr>rp_params = policy_params_default (pb_role b), rp_metrics = rivr_policy_metrics_zero,
      rp_last_chat_orig_ms = 0, rp_last_data_orig_ms = 0, rp_params_psk = s_psk_init (pb_psk_hex b)\<rparr>"

section \<open>Setters\<close>

text \<open>What every accepted value does besides its field: count the update and note the time.\<close>

definition params_accept :: "u32 \<Rightarrow> (rivr_policy_params_t \<Rightarrow> rivr_policy_params_t) \<Rightarrow> rivr_policy_t \<Rightarrow> rivr_policy_t" where
  "params_accept now f st =
     st\<lparr>rp_params := f (rp_params st),
        rp_metrics := (rp_metrics st)
          \<lparr>pm_params_update_count := pm_params_update_count (rp_metrics st) + 1,
           pm_last_params_update_uptime_ms := now\<rparr>\<rparr>"

definition rivr_policy_set_param :: "u8 \<Rightarrow> u32 \<Rightarrow> u32 \<Rightarrow> rivr_policy_t \<Rightarrow> rivr_policy_t" where
  "rivr_policy_set_param param_id value now st =
     (if param_id = 1 then
        (if value < 60000
         then st\<lparr>rp_metrics := (rp_metrics st)
                   \<lparr>pm_beacon_config_rejected_total := pm_beacon_config_rejected_total (rp_metrics st) + 1\<rparr>\<rparr>
         else params_accept now (pp_beacon_interval_ms_update (\<lambda>_. value)) st)
      else if param_id = 6 then
        (if value > 600000 then st else params_accept now (pp_beacon_jitter_ms_update (\<lambda>_. value)) st)
      else if param_id = 2 then
        (if value < 100 then st else params_accept now (pp_chat_throttle_ms_update (\<lambda>_. value)) st)
      else if param_id = 3 then
        (if value < 100 then st else params_accept now (pp_data_throttle_ms_update (\<lambda>_. value)) st)
      else if param_id = 4 then
        (if value < 1 \<or> value > 10 then st else params_accept now (pp_duty_percent_update (\<lambda>_. ucast value)) st)
      else if param_id = 5 then
        (if value < 1 \<or> value > 3 then st else params_accept now (pp_role_update (\<lambda>_. ucast value)) st)
      else st)"

definition rivr_policy_role_from_str :: "nat \<Rightarrow> u8 list \<Rightarrow> u8" where
  "rivr_policy_role_from_str W s =
     (if s = [] then node_role_code RIVR_NODE_ROLE_CLIENT
      else if s = ascii ''client'' then node_role_code RIVR_NODE_ROLE_CLIENT
      else if s = ascii ''repeater'' then node_role_code RIVR_NODE_ROLE_REPEATER
      else if s = ascii ''gateway'' then node_role_code RIVR_NODE_ROLE_GATEWAY
      else let v = strtoul W s
           in if 1 \<le> v \<and> v \<le> 3 then of_nat v else node_role_code RIVR_NODE_ROLE_CLIENT)"

definition rivr_policy_role_name :: "u8 \<Rightarrow> u8 list" where
  "rivr_policy_role_name r =
     (if r = 1 then ascii ''client'' else if r = 2 then ascii ''repeater''
      else if r = 3 then ascii ''gateway'' else ascii ''?'')"

section \<open>Origination throttle\<close>

definition rivr_policy_allow_origination :: "u8 \<Rightarrow> u32 \<Rightarrow> rivr_policy_t \<Rightarrow> bool \<times> rivr_policy_t" where
  "rivr_policy_allow_origination pkt_type now st =
     (let denied = st\<lparr>rp_metrics := (rp_metrics st)
                      \<lparr>pm_origination_drop_count := pm_origination_drop_count (rp_metrics st) + 1\<rparr>\<rparr>
      in if pkt_type = PKT_CHAT then
           (if rp_last_chat_orig_ms st = 0 \<or> now - rp_last_chat_orig_ms st \<ge> pp_chat_throttle_ms (rp_params st)
            then (True, st\<lparr>rp_last_chat_orig_ms := now\<rparr>) else (False, denied))
         else if pkt_type = PKT_DATA then
           (if rp_last_data_orig_ms st = 0 \<or> now - rp_last_data_orig_ms st \<ge> pp_data_throttle_ms (rp_params st)
            then (True, st\<lparr>rp_last_data_orig_ms := now\<rparr>) else (False, denied))
         else (True, st))"

section \<open>The generated program\<close>

fun dec_digits :: "nat \<Rightarrow> u8 list" where
  "dec_digits n = (if n < 10 then [of_nat (48 + n)] else dec_digits (n div 10) @ [of_nat (48 + n mod 10)])"

declare dec_digits.simps [simp del]

definition dec_digits2 :: "nat \<Rightarrow> u8 list" where
  "dec_digits2 n = (if n < 10 then 0x30 # dec_digits n else dec_digits n)"

definition ascii_line :: "string \<Rightarrow> u8 list" where
  "ascii_line s = ascii s @ [0x0A]"

definition policy_program :: "u32 \<Rightarrow> u32 \<Rightarrow> u8 \<Rightarrow> u8 list" where
  "policy_program eff_chat eff_data duty =
     ascii_line ''source rf_rx @lmp = rf;'' @
     ascii ''source beacon_tick = timer('' @ dec_digits 60000 @ ascii_line '');'' @
     ascii_line ''source telemetry_tx = programmatic;'' @
     ascii_line '''' @
     ascii_line ''let chat = rf_rx'' @
     ascii_line ''  |> filter.pkt_type(1)'' @
     ascii ''  |> budget.toa_us(280000, 0.'' @ dec_digits2 (unat duty) @ ascii_line '', 280000)'' @
     ascii ''  |> throttle.ms('' @ dec_digits (unat eff_chat) @ ascii_line '');'' @
     ascii_line '''' @
     ascii_line ''let data = rf_rx'' @
     ascii_line ''  |> filter.pkt_type(6)'' @
     ascii ''  |> throttle.ms('' @ dec_digits (unat eff_data) @ ascii_line '');'' @
     ascii_line '''' @
     ascii_line ''let tel_tx = telemetry_tx'' @
     ascii ''  |> budget.toa_us(280000, 0.'' @ dec_digits2 (unat duty) @ ascii_line '', 280000);'' @
     ascii_line '''' @
     ascii_line ''emit { io.lora.beacon(beacon_tick); }'' @
     ascii_line ''emit { io.lora.tx(tel_tx); }''"

definition eff_throttle :: "u8 \<Rightarrow> u32 \<Rightarrow> u32" where
  "eff_throttle role v =
     (if role = node_role_code RIVR_NODE_ROLE_REPEATER \<or> role = node_role_code RIVR_NODE_ROLE_GATEWAY
      then (if v div 2 < 100 then 100 else v div 2) else v)"

text \<open>The text written to a buffer of \<open>bufsz\<close> bytes; a truncated text is replaced by the empty one.\<close>

definition rivr_policy_build_program :: "nat \<Rightarrow> rivr_policy_t \<Rightarrow> u8 list \<times> rivr_policy_t" where
  "rivr_policy_build_program bufsz st =
     (let p = rp_params st;
          text = policy_program (eff_throttle (pp_role p) (pp_chat_throttle_ms p))
                   (eff_throttle (pp_role p) (pp_data_throttle_ms p)) (pp_duty_percent p)
      in if bufsz \<le> length text then ([], st)
         else (text, st\<lparr>rp_metrics := (rp_metrics st)
                       \<lparr>pm_policy_rebuild_count := pm_policy_rebuild_count (rp_metrics st) + 1\<rparr>\<rparr>))"

definition rivr_policy_notify_reload :: "rivr_policy_t \<Rightarrow> rivr_policy_t" where
  "rivr_policy_notify_reload st =
     st\<lparr>rp_metrics := (rp_metrics st)\<lparr>pm_policy_reload_count := pm_policy_reload_count (rp_metrics st) + 1\<rparr>\<rparr>"

section \<open>Signed updates\<close>

definition SIG_TOKEN :: "u8 list" where
  "SIG_TOKEN = ascii '' sig=''"

definition token_char :: "u8 \<Rightarrow> bool" where
  "token_char c \<longleftrightarrow> c \<noteq> 0x20 \<and> c \<noteq> 0x09 \<and> c \<noteq> 0x0D \<and> c \<noteq> 0x0A"

definition mac_decode :: "u8 list \<Rightarrow> u8 list option" where
  "mac_decode hex = those (map (\<lambda>i. scan_x2 (drop (2 * i) hex)) [0..<32])"

definition mac_diff :: "u8 list \<Rightarrow> u8 list \<Rightarrow> u8" where
  "mac_diff expected received = fold (\<lambda>i d. d OR (expected ! i XOR received ! i)) [0..<32] 0"

definition sig_fail :: "rivr_policy_t \<Rightarrow> rivr_policy_t" where
  "sig_fail st = st\<lparr>rp_metrics := (rp_metrics st)
     \<lparr>pm_params_sig_fail_count := pm_params_sig_fail_count (rp_metrics st) + 1\<rparr>\<rparr>"

definition sig_ok :: "rivr_policy_t \<Rightarrow> rivr_policy_t" where
  "sig_ok st = st\<lparr>rp_metrics := (rp_metrics st)
     \<lparr>pm_params_sig_ok_count := pm_params_sig_ok_count (rp_metrics st) + 1\<rparr>\<rparr>"

definition rivr_verify_params_sig :: "params_build_t \<Rightarrow> u8 list \<Rightarrow> rivr_policy_t \<Rightarrow> bool \<times> rivr_policy_t" where
  "rivr_verify_params_sig b text st =
     (if \<not> pb_signed_params b then (True, st)
      else case strstr SIG_TOKEN text of
        None \<Rightarrow> if pb_allow_unsigned b then (True, st) else (False, sig_fail st)
      | Some sig_field \<Rightarrow>
          let msg_len = length text - length sig_field; hex = drop 5 sig_field
          in if length (takeWhile token_char hex) \<noteq> 64 then (False, sig_fail st)
             else case mac_decode hex of
               None \<Rightarrow> (False, sig_fail st)
             | Some received \<Rightarrow>
                 if mac_diff (rivr_hmac_sha256 (rp_params_psk st) (take msg_len text)) received \<noteq> 0
                 then (False, sig_fail st) else (True, sig_ok st))"

text \<open>One numeric key of the update text, and the role key with its token of at most 11 bytes.\<close>

definition params_number :: "nat \<Rightarrow> u8 list \<Rightarrow> u8 \<Rightarrow> u8 list \<Rightarrow> u32 \<Rightarrow> rivr_policy_t \<Rightarrow> rivr_policy_t" where
  "params_number W key param_id text now st =
     (case strstr key text of
        None \<Rightarrow> st
      | Some kp \<Rightarrow>
          (case scan_lu W (drop (length key) kp) of
             None \<Rightarrow> st
           | Some pv \<Rightarrow> rivr_policy_set_param param_id (of_nat pv) now st))"

definition params_role :: "nat \<Rightarrow> u8 list \<Rightarrow> u32 \<Rightarrow> rivr_policy_t \<Rightarrow> rivr_policy_t" where
  "params_role W text now st =
     (case strstr (ascii ''role='') text of
        None \<Rightarrow> st
      | Some kp \<Rightarrow>
          rivr_policy_set_param 5
            (ucast (rivr_policy_role_from_str W (take 11 (takeWhile token_char (drop 5 kp))))) now st)"

definition params_apply :: "nat \<Rightarrow> u8 list \<Rightarrow> u32 \<Rightarrow> rivr_policy_t \<Rightarrow> rivr_policy_t" where
  "params_apply W text now st =
     params_role W text now
       (params_number W (ascii ''duty='') 4 text now
         (params_number W (ascii ''data='') 3 text now
           (params_number W (ascii ''chat='') 2 text now
             (params_number W (ascii ''beacon='') 1 text now st))))"

text \<open>
  The unsigned-program branch for a push addressed to this node: an update text is verified, applied
  and turned into a program; any other text is the program. The result is the program to store, if
  there is one.
\<close>

definition handle_prog_push :: "nat \<Rightarrow> params_build_t \<Rightarrow> u8 list \<Rightarrow> u32 \<Rightarrow> rivr_policy_t \<Rightarrow> u8 list option \<times> rivr_policy_t" where
  "handle_prog_push W b payload now st =
     (let text = c_str payload
      in if 7 \<le> length payload \<and> take 7 text = ascii ''@PARAMS'' then
           (case rivr_verify_params_sig b text st of (ok, st1) \<Rightarrow>
              if \<not> ok then (None, st1)
              else case rivr_policy_build_program 512 (params_apply W text now st1) of (prog, st2) \<Rightarrow> (Some prog, st2))
         else (Some text, st))"

section \<open>Ranges\<close>

definition params_ok :: "rivr_policy_params_t \<Rightarrow> bool" where
  "params_ok p \<longleftrightarrow> 60000 \<le> pp_beacon_interval_ms p \<and> pp_beacon_jitter_ms p \<le> 600000 \<and>
     100 \<le> pp_chat_throttle_ms p \<and> 100 \<le> pp_data_throttle_ms p \<and>
     1 \<le> pp_duty_percent p \<and> pp_duty_percent p \<le> 10 \<and> 1 \<le> pp_role p \<and> pp_role p \<le> 3"

lemma params_default_ok: "params_ok (policy_params_default r)"
  by (cases r) (simp_all add: params_ok_def policy_params_default_def relay_role_def)

lemma ucast_u8_range:
  assumes "unat (v :: u32) \<le> 255" shows "unat (ucast v :: u8) = unat v"
  using assms by (simp add: unat_ucast_mod)

lemma set_param_ok:
  assumes "params_ok (rp_params st)"
  shows "params_ok (rp_params (rivr_policy_set_param i v now st))"
proof -
  have r: "v \<noteq> 0 \<Longrightarrow> v \<le> n \<Longrightarrow> n \<le> 255 \<Longrightarrow> 1 \<le> (ucast v :: u8) \<and> (ucast v :: u8) \<le> ucast n" for n
    by (simp add: word_le_nat_alt ucast_u8_range) (metis One_nat_def Suc_leI neq0_conv unat_eq_zero)
  have "v \<noteq> 0 \<Longrightarrow> v \<le> 10 \<Longrightarrow> 1 \<le> (ucast v :: u8) \<and> (ucast v :: u8) \<le> 10"
    "v \<noteq> 0 \<Longrightarrow> v \<le> 3 \<Longrightarrow> 1 \<le> (ucast v :: u8) \<and> (ucast v :: u8) \<le> 3"
    using r [of 10] r [of 3] by simp_all
  then show ?thesis
    using assms by (auto simp: params_ok_def rivr_policy_set_param_def params_accept_def not_less)
qed

lemma set_param_key [simp]: "rp_params_psk (rivr_policy_set_param i v now st) = rp_params_psk st"
  by (simp add: rivr_policy_set_param_def params_accept_def)

lemma length_ascii [simp]: "length (ascii s) = length s" "length (ascii_line s) = Suc (length s)"
  by (simp_all add: ascii_def ascii_line_def)

lemma dec_digits_length: "n < 10 ^ k \<Longrightarrow> 0 < k \<Longrightarrow> length (dec_digits n) \<le> k"
proof (induction k arbitrary: n)
  case (Suc k)
  show ?case
  proof (cases "n < 10")
    case True
    then show ?thesis by (subst dec_digits.simps) simp
  next
    case False
    with Suc.prems have "0 < k" by (cases k) simp_all
    moreover have "n div 10 < 10 ^ k" using Suc.prems by (simp add: less_mult_imp_div_less mult.commute)
    ultimately show ?thesis using False Suc.IH [of "n div 10"] by (subst dec_digits.simps) simp
  qed
qed simp

lemma dec_digits_u32: "length (dec_digits (unat (v :: u32))) \<le> 10"
  using unat_u32_less [of v] by (intro dec_digits_length) simp_all

lemma dec_digits_duty:
  assumes "d \<le> (10 :: u8)" shows "length (dec_digits2 (unat d)) \<le> 2"
proof -
  have d: "unat d \<le> 10" using assms by (simp add: word_le_nat_alt)
  then have "length (dec_digits (unat d)) \<le> 2" by (intro dec_digits_length) simp_all
  moreover have "unat d < 10 \<Longrightarrow> length (dec_digits (unat d)) \<le> 1" by (intro dec_digits_length) simp_all
  ultimately show ?thesis by (simp add: dec_digits2_def)
qed

lemma policy_program_length:
  assumes "duty \<le> 10"
  shows "length (policy_program c d duty) \<le> 417"
proof -
  have "length (dec_digits 60000) \<le> 5" by (intro dec_digits_length) simp_all
  moreover have "length (policy_program c d duty)
      = 388 + 2 * length (dec_digits2 (unat duty)) + length (dec_digits (unat c)) + length (dec_digits (unat d)) + length (dec_digits 60000)"
    by (simp add: policy_program_def)
  ultimately show ?thesis
    using dec_digits_duty [OF assms] dec_digits_u32 [of c] dec_digits_u32 [of d] by linarith
qed

lemma eff_throttle_ge: "100 \<le> v \<Longrightarrow> 100 \<le> eff_throttle r v"
  by (simp add: eff_throttle_def not_less)

lemma build_program_params [simp]: "rp_params (snd (rivr_policy_build_program n st)) = rp_params st"
  by (simp add: rivr_policy_build_program_def Let_def)

lemma params_apply_ok: "params_ok (rp_params st) \<Longrightarrow> params_ok (rp_params (params_apply W text now st))"
proof -
  have num: "params_ok (rp_params st) \<Longrightarrow> params_ok (rp_params (params_number W key i text now st))" for key i st
    by (auto simp: params_number_def set_param_ok split: option.split)
  have role: "params_ok (rp_params st) \<Longrightarrow> params_ok (rp_params (params_role W text now st))" for st
    by (auto simp: params_role_def set_param_ok split: option.split)
  assume "params_ok (rp_params st)"
  then show ?thesis unfolding params_apply_def by (intro role num)
qed

lemma verify_params [simp]:
  "rp_params (snd (rivr_verify_params_sig b text st)) = rp_params st"
  "rp_params_psk (snd (rivr_verify_params_sig b text st)) = rp_params_psk st"
  by (auto simp: rivr_verify_params_sig_def sig_ok_def sig_fail_def Let_def split: option.split)

lemma handle_prog_push_ok:
  assumes "params_ok (rp_params st)"
  shows "params_ok (rp_params (snd (handle_prog_push W b payload now st)))"
proof -
  have "params_ok (rp_params (snd (rivr_verify_params_sig b (c_str payload) st)))" using assms by simp
  then show ?thesis
    using assms by (auto simp: handle_prog_push_def Let_def split_beta params_apply_ok)
qed

section \<open>Searching\<close>

lemma strstr_Some: "strstr pat s = Some t \<Longrightarrow> \<exists>a. s = a @ t \<and> take (length pat) t = pat"
proof (induction s)
  case (Cons c s)
  show ?case
  proof (cases "take (length pat) (c # s) = pat")
    case True
    then show ?thesis using Cons.prems by (intro exI [of _ "[]"]) simp
  next
    case False
    then obtain a where "s = a @ t" "take (length pat) t = pat" using Cons by auto
    then show ?thesis by (intro exI [of _ "c # a"]) simp
  qed
qed (auto split: if_splits)

lemma strstr_split: "strstr pat s = Some t \<Longrightarrow> s = take (length s - length t) s @ pat @ drop (length pat) t"
  using strstr_Some by (metis append_eq_conv_conj append_take_drop_id length_append add_diff_cancel_right')

lemma strstr_here: "pat \<noteq> [] \<Longrightarrow> strstr pat (pat @ s) = Some (pat @ s)"
  by (cases pat) simp_all

text \<open>A byte that the pattern does not have separates the search.\<close>

lemma take_eq_not_in:
  assumes "take (length pat) (a @ c # s) = pat" "c \<notin> set pat"
  shows "length pat \<le> length a"
proof (rule ccontr)
  assume "\<not> length pat \<le> length a"
  then have "take (length pat) (a @ c # s) ! length a = c" by (simp add: nth_append take_Cons')
  then have "pat ! length a = c" using assms(1) by simp
  then show False using assms(2) \<open>\<not> length pat \<le> length a\<close> by (metis not_le nth_mem)
qed

lemma strstr_skip:
  assumes "strstr pat a = None" "c \<notin> set pat" "pat \<noteq> []"
  shows "strstr pat (a @ c # s) = strstr pat s"
  using assms(1)
proof (induction a)
  case Nil
  have "take (length pat) (c # s) \<noteq> pat" using take_eq_not_in [of pat "[]" c s] assms by auto
  then show ?case by simp
next
  case (Cons x a)
  have n: "take (length pat) (x # a) \<noteq> pat" "strstr pat a = None" using Cons.prems by (auto split: if_splits)
  have "take (length pat) (x # a @ c # s) \<noteq> pat"
  proof
    assume t: "take (length pat) (x # a @ c # s) = pat"
    then have "length pat \<le> length (x # a)" using take_eq_not_in [of pat "x # a" c s] assms(2) by simp
    then have "take (length pat) (x # a @ c # s) = take (length pat) (x # a)"
      by (metis append_Cons take_append take0 append_Nil2 diff_is_0_eq)
    then show False using t n(1) by simp
  qed
  then show ?case using Cons.IH n(2) by simp
qed

lemma strstr_skip_first: "hd pat \<notin> set a \<Longrightarrow> pat \<noteq> [] \<Longrightarrow> strstr pat (a @ s) = strstr pat s"
  by (induction a) (auto simp: neq_Nil_conv)

lemma strstr_append: "strstr pat s = Some t \<Longrightarrow> strstr pat (s @ x) = Some (t @ x)"
proof (induction s)
  case Nil
  then show ?case by (cases x) (auto split: if_splits)
next
  case (Cons c s)
  have long: "length pat \<le> length (c # s)"
    using strstr_Some [OF Cons.prems] by (metis length_append length_take min.cobounded1 trans_le_add2 take_all_iff linorder_le_cases)
  then have "take (length pat) (c # s @ x) = take (length pat) (c # s)"
    by (metis append_Cons take_append take0 append_Nil2 diff_is_0_eq)
  then show ?case using Cons by (auto split: if_splits)
qed

text \<open>The signature token starts with a space and holds no other: its first occurrence is found.\<close>

lemma strstr_first:
  assumes "strstr pat a = None" "hd pat \<notin> set (tl pat)" "pat \<noteq> []"
  shows "strstr pat (a @ pat @ s) = Some (pat @ s)"
  using assms(1)
proof (induction a)
  case (Cons x a)
  have n: "take (length pat) (x # a) \<noteq> pat" "strstr pat a = None" using Cons.prems by (auto split: if_splits)
  obtain p ps where pat: "pat = p # ps" and p: "p \<notin> set ps" using assms by (cases pat) auto
  have "take (length pat) (x # a @ pat @ s) \<noteq> pat"
  proof
    assume t: "take (length pat) (x # a @ pat @ s) = pat"
    have "length pat \<le> length (x # a)"
    proof (rule ccontr)
      assume l: "\<not> length pat \<le> length (x # a)"
      then have "take (length pat) (x # a @ pat @ s) ! Suc (length a) = p"
        by (simp add: pat nth_append take_Cons')
      then have "ps ! length a = p" using t by (simp add: pat)
      then show False using p l by (auto simp: pat)
    qed
    then have "take (length pat) (x # a @ pat @ s) = take (length pat) (x # a)"
      by (metis append_Cons take_append take0 append_Nil2 diff_is_0_eq)
    then show False using t n(1) by simp
  qed
  then show ?case using Cons.IH n(2) by simp
qed (simp add: strstr_here assms)

section \<open>Hexadecimal\<close>

definition hex_char :: "u8 \<Rightarrow> u8" where
  "hex_char d = (if d < 10 then 0x30 + d else 0x57 + d)"

definition hex_byte :: "u8 \<Rightarrow> u8 list" where
  "hex_byte b = [hex_char (b div 16), hex_char (b mod 16)]"

definition hex_text :: "u8 list \<Rightarrow> u8 list" where
  "hex_text bs = concat (map hex_byte bs)"

lemma u8_below_16: "(d :: u8) < 16 \<Longrightarrow> d \<in> {0, 1, 2, 3, 4, 5, 6, 7, 8, 9, 10, 11, 12, 13, 14, 15}"
proof -
  assume "d < 16"
  then have "unat d < 16" by (simp add: word_less_nat_alt)
  then show ?thesis by (simp add: word_eq_unat) arith
qed

lemma hex_char_props:
  assumes "d < 16"
  shows "hex_value (hex_char d) = Some d \<and> \<not> isspace (hex_char d) \<and> token_char (hex_char d) \<and>
    hex_char d \<notin> {0, 0x2D, 0x2B, 0x78, 0x58, 0x72}"
  using u8_below_16 [OF assms]
  by (elim insertE; simp add: hex_char_def hex_value_def isspace_def token_char_def)

lemma hex_halves: "(b :: u8) div 16 < 16" "(b :: u8) mod 16 < 16" "16 * (b div 16) + b mod 16 = b"
  using unat_u8_less [of b] by (auto simp: word_less_nat_alt unat_div unat_mod word_eq_unat unat_word_ariths)

lemma scan_x2_hex: "scan_x2 (hex_byte b @ s) = Some b"
  using hex_char_props [OF hex_halves(1), of b] hex_char_props [OF hex_halves(2), of b] hex_halves(3) [of b]
  by (auto simp: scan_x2_def hex_byte_def Let_def)

lemma hex_text_length: "length (hex_text bs) = 2 * length bs"
  by (induction bs) (simp_all add: hex_text_def hex_byte_def)

lemma hex_text_chars: "c \<in> set (hex_text bs) \<Longrightarrow> token_char c \<and> c \<noteq> 0 \<and> c \<noteq> 0x72"
  using hex_char_props [OF hex_halves(1)] hex_char_props [OF hex_halves(2)]
  by (auto simp: hex_text_def hex_byte_def)

lemma hex_text_drop: "i < length bs \<Longrightarrow> \<exists>s. drop (2 * i) (hex_text bs @ t) = hex_byte (bs ! i) @ s"
proof (induction bs arbitrary: i)
  case (Cons b bs)
  have h: "hex_text (b # bs) @ t = hex_byte b @ hex_text bs @ t" by (simp add: hex_text_def)
  show ?case
  proof (cases i)
    case 0
    then show ?thesis unfolding h by auto
  next
    case (Suc j)
    then show ?thesis using Cons unfolding h by (simp add: hex_byte_def)
  qed
qed simp

lemma those_Some: "those (map Some xs) = Some xs"
  by (induction xs) simp_all

lemma mac_decode_hex: "length mac = 32 \<Longrightarrow> mac_decode (hex_text mac @ t) = Some mac"
proof -
  assume l: "length mac = 32"
  have f: "scan_x2 (drop (2 * i) (hex_text mac @ t)) = Some (mac ! i)" if "i < 32" for i
    using hex_text_drop [of i mac t] that l scan_x2_hex by auto
  have "map (\<lambda>i. scan_x2 (drop (2 * i) (hex_text mac @ t))) [0..<32] = map Some mac"
    by (rule nth_equalityI) (simp_all add: l f del: upt_rec_numeral drop_append)
  then show ?thesis by (simp only: mac_decode_def those_Some)
qed

lemma those_length: "those xs = Some ys \<Longrightarrow> length ys = length xs"
  by (induction xs arbitrary: ys) (auto split: option.splits)

lemma mac_decode_length: "mac_decode hex = Some r \<Longrightarrow> length r = 32"
  unfolding mac_decode_def by (drule those_length) simp

lemma or_eq_0: "(a OR b = 0) \<longleftrightarrow> a = 0 \<and> b = (0 :: 'a :: len word)"
  by (auto simp: bit_eq_iff bit_simps)

lemma xor_eq_0: "(a XOR b = 0) \<longleftrightarrow> a = (b :: 'a :: len word)"
  by (auto simp: bit_eq_iff bit_simps)

lemma mac_diff_zero:
  assumes "length e = 32" "length r = 32"
  shows "mac_diff e r = 0 \<longleftrightarrow> e = r"
proof -
  have "fold (\<lambda>i d. d OR f i) xs d = 0 \<longleftrightarrow> d = 0 \<and> (\<forall>i \<in> set xs. f i = 0)" for f :: "nat \<Rightarrow> u8" and xs d
    by (induction xs arbitrary: d) (auto simp: or_eq_0)
  then have "mac_diff e r = 0 \<longleftrightarrow> (\<forall>i < 32. e ! i XOR r ! i = 0)"
    by (auto simp: mac_diff_def)
  also have "\<dots> \<longleftrightarrow> e = r" using assms by (auto simp: list_eq_iff_nth_eq xor_eq_0)
  finally show ?thesis .
qed

section \<open>Signing\<close>

definition params_sign :: "u8 list \<Rightarrow> u8 list \<Rightarrow> u8 list" where
  "params_sign psk content = content @ SIG_TOKEN @ hex_text (rfc_hmac psk content)"

lemma SIG_TOKEN_eq: "SIG_TOKEN = [0x20, 0x73, 0x69, 0x67, 0x3D]"
  by (simp add: SIG_TOKEN_def ascii_def)

lemma hmac_length: "length (rfc_hmac k m) = 32"
  by (simp add: rfc_hmac_def fips_digest_length)

lemma strict_verify:
  assumes "pb_signed_params b" "\<not> pb_allow_unsigned b"
  shows "fst (rivr_verify_params_sig b text st) \<longleftrightarrow>
    (\<exists>f. strstr SIG_TOKEN text = Some f \<and> length (takeWhile token_char (drop 5 f)) = 64 \<and>
         mac_decode (drop 5 f) = Some (rfc_hmac (rp_params_psk st) (take (length text - length f) text)))"
  using assms
  by (auto simp: rivr_verify_params_sig_def Let_def hmac_standard mac_diff_zero hmac_length
      dest: mac_decode_length split: option.splits)

lemma token_hex:
  assumes "length bs = 32" "rest = [] \<or> \<not> token_char (hd rest)"
  shows "takeWhile token_char (hex_text bs @ rest) = hex_text bs"
proof -
  have "takeWhile token_char rest = []" using assms(2) by (cases rest) auto
  then show ?thesis using hex_text_chars by (subst takeWhile_append2) auto
qed

text \<open>A signed text stays accepted whatever is appended after a space.\<close>

lemma signed_accepted:
  assumes b: "pb_signed_params b" "\<not> pb_allow_unsigned b"
    and c: "strstr SIG_TOKEN content = None"
    and t: "rest = [] \<or> hd rest = 0x20"
  shows "fst (rivr_verify_params_sig b (params_sign (rp_params_psk st) content @ rest) st)"
proof -
  let ?mac = "rfc_hmac (rp_params_psk st) content"
  have f: "strstr SIG_TOKEN (params_sign (rp_params_psk st) content @ rest) = Some (SIG_TOKEN @ hex_text ?mac @ rest)"
    unfolding params_sign_def append_assoc by (rule strstr_first [OF c]) (simp_all add: SIG_TOKEN_eq)
  have l: "length SIG_TOKEN = 5" by (simp add: SIG_TOKEN_eq)
  have d: "drop 5 (SIG_TOKEN @ hex_text ?mac @ rest) = hex_text ?mac @ rest" by (simp add: l)
  have m: "take (length (params_sign (rp_params_psk st) content @ rest) - length (SIG_TOKEN @ hex_text ?mac @ rest))
             (params_sign (rp_params_psk st) content @ rest) = content"
    by (simp add: params_sign_def)
  have "rest = [] \<or> \<not> token_char (hd rest)" using t by (auto simp: token_char_def)
  then have "takeWhile token_char (hex_text ?mac @ rest) = hex_text ?mac" by (rule token_hex [OF hmac_length])
  then show ?thesis
    unfolding strict_verify [OF b] f
    by (intro exI [of _ "SIG_TOKEN @ hex_text ?mac @ rest"])
       (simp only: d m mac_decode_hex [OF hmac_length] hex_text_length hmac_length simp_thms)
qed

text \<open>C22: A signature protects the text before it. With signing required, the text that
  \<open>params_sign\<close> builds with the node's key is accepted, whatever parameters it sets; and of any
  accepted text, the part before its first signature token carries, as its signature, the
  HMAC-SHA-256 of RFC 2104 under the node's key. Nothing without a token is accepted.\<close>

theorem params_signature_exact:
  assumes "pb_signed_params b" "\<not> pb_allow_unsigned b" "strstr SIG_TOKEN content = None"
  shows "fst (rivr_verify_params_sig b (params_sign (rp_params_psk st) content) st) \<and>
    (fst (rivr_verify_params_sig b text st) \<longleftrightarrow>
      (\<exists>signed tail. text = signed @ SIG_TOKEN @ tail \<and> strstr SIG_TOKEN text = Some (SIG_TOKEN @ tail) \<and>
         length (takeWhile token_char tail) = 64 \<and> mac_decode tail = Some (rfc_hmac (rp_params_psk st) signed)))"
proof -
  have acc: "fst (rivr_verify_params_sig b (params_sign (rp_params_psk st) content) st)"
    using signed_accepted [OF assms(1) assms(2) assms(3), of "[]"] by simp
  have l: "length SIG_TOKEN = 5" by (simp add: SIG_TOKEN_eq)
  have "(\<exists>f. strstr SIG_TOKEN text = Some f \<and> length (takeWhile token_char (drop 5 f)) = 64 \<and>
         mac_decode (drop 5 f) = Some (rfc_hmac (rp_params_psk st) (take (length text - length f) text)))
     \<longleftrightarrow> (\<exists>signed tail. text = signed @ SIG_TOKEN @ tail \<and> strstr SIG_TOKEN text = Some (SIG_TOKEN @ tail) \<and>
         length (takeWhile token_char tail) = 64 \<and> mac_decode tail = Some (rfc_hmac (rp_params_psk st) signed))"
    (is "?L \<longleftrightarrow> ?R")
  proof
    assume ?L
    then obtain f where f: "strstr SIG_TOKEN text = Some f" "length (takeWhile token_char (drop 5 f)) = 64"
      "mac_decode (drop 5 f) = Some (rfc_hmac (rp_params_psk st) (take (length text - length f) text))" by blast
    from strstr_Some [OF f(1)] obtain a where a: "text = a @ f" "take 5 f = SIG_TOKEN" by (auto simp: l)
    then have "f = SIG_TOKEN @ drop 5 f" by (metis append_take_drop_id)
    then show ?R using f a by (intro exI [of _ a] exI [of _ "drop 5 f"]) auto
  next
    assume ?R
    then obtain signed tail where r: "text = signed @ SIG_TOKEN @ tail" "strstr SIG_TOKEN text = Some (SIG_TOKEN @ tail)"
      "length (takeWhile token_char tail) = 64" "mac_decode tail = Some (rfc_hmac (rp_params_psk st) signed)" by blast
    then show ?L by (intro exI [of _ "SIG_TOKEN @ tail"]) (simp add: l)
  qed
  then show ?thesis using acc strict_verify [OF assms(1) assms(2)] by blast
qed

definition params_demo_build :: params_build_t where
  "params_demo_build = \<lparr>pb_role = RoleRepeater, pb_signed_params = True, pb_allow_unsigned = False,
     pb_psk_hex = hex_text [1, 2, 3]\<rparr>"

definition params_demo_text :: "u8 list" where
  "params_demo_text = ascii ''@PARAMS beacon=300000''"

lemma params_demo_facts:
  "pb_signed_params params_demo_build" "\<not> pb_allow_unsigned params_demo_build"
  "strstr SIG_TOKEN params_demo_text = None" "strstr (ascii ''role='') params_demo_text = None"
  "take 7 params_demo_text = ascii ''@PARAMS''" "0 \<notin> set params_demo_text"
  by (simp_all add: params_demo_build_def params_demo_text_def SIG_TOKEN_eq ascii_def)

lemma params_signature_exact_witness:
  "fst (rivr_verify_params_sig params_demo_build
     (params_sign (rp_params_psk (rivr_policy_init params_demo_build)) params_demo_text) (rivr_policy_init params_demo_build))"
  using params_signature_exact [OF params_demo_facts(1-3)] by blast

text \<open>The signature does not protect what is applied. Whoever has overheard one signed update
  that leaves the role alone can append \<open> role=...\<close> after its signature: the verification only
  hashes the text before the token and ignores what follows the 64 digits, while the parameters are
  searched in the whole text, so the update is accepted and the role the attacker chose is set.\<close>

theorem params_suffix_not_signed:
  assumes b: "pb_signed_params b" "\<not> pb_allow_unsigned b"
    and c: "strstr SIG_TOKEN content = None" "strstr (ascii ''role='') content = None"
    and p: "take 7 content = ascii ''@PARAMS''" "0 \<notin> set content"
  shows "fst (handle_prog_push W b (params_sign (rp_params_psk st) content @ ascii '' role=repeater'') now st) \<noteq> None \<and>
    pp_role (rp_params (snd (handle_prog_push W b (params_sign (rp_params_psk st) content @ ascii '' role=repeater'') now st)))
      = node_role_code RIVR_NODE_ROLE_REPEATER"
proof -
  let ?r = "ascii ''role=''" and ?x = "hex_text (rfc_hmac (rp_params_psk st) content)"
  define forged where "forged = params_sign (rp_params_psk st) content @ ascii '' role=repeater''"
  have forged: "forged = content @ 0x20 # ([0x73, 0x69, 0x67, 0x3D] @ ?x @ [0x20]) @ ascii ''role=repeater''"
    by (simp add: forged_def params_sign_def SIG_TOKEN_eq ascii_def)
  have "0 \<notin> set forged" using p(2) hex_text_chars by (auto simp: forged ascii_def)
  then have cs: "c_str forged = forged" unfolding c_str_def by (intro takeWhile_eq_all_conv [THEN iffD2]) auto
  have pre: "take 7 forged = ascii ''@PARAMS''" "7 \<le> length forged"
    using p(1) by (auto simp: forged dest: arg_cong [where f = length] split: if_splits)
  have ver: "fst (rivr_verify_params_sig b forged st)"
    unfolding forged_def by (rule signed_accepted [OF b c(1)]) (simp add: ascii_def)
  have "strstr ?r forged = strstr ?r (([0x73, 0x69, 0x67, 0x3D] @ ?x @ [0x20]) @ ascii ''role=repeater'')"
    unfolding forged by (rule strstr_skip [OF c(2)]) (simp_all add: ascii_def)
  also have "\<dots> = strstr ?r (ascii ''role=repeater'')"
    using hex_text_chars by (intro strstr_skip_first) (auto simp: ascii_def)
  also have "\<dots> = Some (ascii ''role=repeater'')" by (simp add: ascii_def)
  finally have r: "strstr ?r forged = Some (ascii ''role=repeater'')" .
  have tok: "take 11 (takeWhile token_char (drop 5 (ascii ''role=repeater''))) = ascii ''repeater''"
    by (simp add: ascii_def token_char_def)
  have role: "rivr_policy_role_from_str W (ascii ''repeater'') = 2"
    by (simp add: rivr_policy_role_from_str_def ascii_def)
  have "pp_role (rp_params (params_apply W forged now s)) = 2" for s
    unfolding params_apply_def params_role_def r option.case tok role
    by (simp add: rivr_policy_set_param_def params_accept_def)
  then show ?thesis
    unfolding forged_def [symmetric] using ver
    by (simp add: handle_prog_push_def cs pre split_beta)
qed

lemma params_suffix_not_signed_witness:
  "pp_role (rp_params (snd (handle_prog_push 32 params_demo_build
     (params_sign (rp_params_psk (rivr_policy_init params_demo_build)) params_demo_text @ ascii '' role=repeater'')
     1000 (rivr_policy_init params_demo_build)))) = 2"
  using params_suffix_not_signed [OF params_demo_facts] by simp

section \<open>Every history keeps the parameters in range\<close>

datatype params_event =
    Params_Set u8 u32 u32
  | Params_Push "u8 list" u32
  | Params_Originate u8 u32
  | Params_Build nat
  | Params_Reload

fun params_step :: "nat \<Rightarrow> params_build_t \<Rightarrow> params_event \<Rightarrow> rivr_policy_t \<Rightarrow> rivr_policy_t" where
  "params_step W b (Params_Set i v now) st = rivr_policy_set_param i v now st"
| "params_step W b (Params_Push payload now) st = snd (handle_prog_push W b payload now st)"
| "params_step W b (Params_Originate ty now) st = snd (rivr_policy_allow_origination ty now st)"
| "params_step W b (Params_Build n) st = snd (rivr_policy_build_program n st)"
| "params_step W b Params_Reload st = rivr_policy_notify_reload st"

lemma allow_origination_params [simp]: "rp_params (snd (rivr_policy_allow_origination ty now st)) = rp_params st"
  by (simp add: rivr_policy_allow_origination_def Let_def)

lemma params_step_ok: "params_ok (rp_params st) \<Longrightarrow> params_ok (rp_params (params_step W b e st))"
  by (cases e) (simp_all add: set_param_ok handle_prog_push_ok rivr_policy_notify_reload_def)

lemma params_run_ok: "params_ok (rp_params st) \<Longrightarrow> params_ok (rp_params (fold (params_step W b) es st))"
  by (induction es arbitrary: st) (simp_all add: params_step_ok)


end
