(* ===== verification/Rivr_BleFrag.thy ===== *)
theory Rivr_BleFrag
  imports Rivr_Prelude
begin

text \<open>
  Fragmentation on the BLE link (ble/rivr_ble_frag.c): a frame that does not fit the MTU of the link
  is cut into numbered fragments, and the receiver joins them in one of four slots. A write that does
  not carry the fragment header passes through unchanged. Lengths of writes are below 65536, as the
  16-bit length of the stack has it. The property is the round trip.
\<close>

section \<open>Receiving\<close>

abbreviation "RIVR_BLE_FRAG_MAGIC0 \<equiv> (0x52 :: u8)"
abbreviation "RIVR_BLE_FRAG_MAGIC1 \<equiv> (0x42 :: u8)"
abbreviation "RIVR_BLE_FRAG_VERSION \<equiv> (1 :: u8)"
abbreviation "RIVR_BLE_FRAG_HDR_LEN \<equiv> (6 :: nat)"
abbreviation "RIVR_BLE_FRAG_RX_SLOTS \<equiv> (4 :: nat)"

datatype rivr_ble_frag_rx_result_t =
    RIVR_BLE_FRAG_RX_PASSTHROUGH
  | RIVR_BLE_FRAG_RX_INCOMPLETE
  | RIVR_BLE_FRAG_RX_COMPLETE
  | RIVR_BLE_FRAG_RX_INVALID

record rivr_ble_frag_rx_slot_t =
  fg_active :: bool
  fg_msg_id :: u8
  fg_total_len :: u8
  fg_received_len :: u8
  fg_data :: "u8 list"

record rivr_ble_frag_rx_t =
  fx_next_slot :: u8
  fx_slots :: "rivr_ble_frag_rx_slot_t list"

definition rivr_ble_frag_start_slot :: "u8 \<Rightarrow> u8 \<Rightarrow> rivr_ble_frag_rx_slot_t \<Rightarrow> rivr_ble_frag_rx_slot_t" where
  "rivr_ble_frag_start_slot msg_id total_len s =
     s\<lparr>fg_active := True, fg_msg_id := msg_id, fg_total_len := total_len, fg_received_len := 0\<rparr>"

definition rivr_ble_frag_drop_slot :: "rivr_ble_frag_rx_slot_t \<Rightarrow> rivr_ble_frag_rx_slot_t" where
  "rivr_ble_frag_drop_slot s = s\<lparr>fg_active := False, fg_msg_id := 0, fg_total_len := 0, fg_received_len := 0\<rparr>"

definition rivr_ble_frag_reset :: "rivr_ble_frag_rx_t \<Rightarrow> rivr_ble_frag_rx_t" where
  "rivr_ble_frag_reset rx = \<lparr>fx_next_slot = 0, fx_slots = map rivr_ble_frag_drop_slot (fx_slots rx)\<rparr>"

definition rivr_ble_frag_is_packet :: "u8 list \<Rightarrow> bool" where
  "rivr_ble_frag_is_packet p \<longleftrightarrow> RIVR_BLE_FRAG_HDR_LEN \<le> length p \<and>
     p ! 0 = RIVR_BLE_FRAG_MAGIC0 \<and> p ! 1 = RIVR_BLE_FRAG_MAGIC1 \<and> p ! 2 = RIVR_BLE_FRAG_VERSION"

definition rivr_ble_frag_find_slot :: "rivr_ble_frag_rx_t \<Rightarrow> u8 \<Rightarrow> nat option" where
  "rivr_ble_frag_find_slot rx msg_id = find_idx (\<lambda>s. fg_active s \<and> fg_msg_id s = msg_id) (fx_slots rx)"

definition rivr_ble_frag_alloc_slot :: "rivr_ble_frag_rx_t \<Rightarrow> nat \<times> rivr_ble_frag_rx_t" where
  "rivr_ble_frag_alloc_slot rx =
     (case find_idx (\<lambda>s. \<not> fg_active s) (fx_slots rx) of
        Some i \<Rightarrow> (i, rx)
      | None \<Rightarrow>
          let n = (if unat (fx_next_slot rx) \<ge> RIVR_BLE_FRAG_RX_SLOTS then 0 else fx_next_slot rx)
          in (unat n, rx\<lparr>fx_next_slot := (n + 1) mod 4\<rparr>))"

definition frag_slot_update :: "nat \<Rightarrow> (rivr_ble_frag_rx_slot_t \<Rightarrow> rivr_ble_frag_rx_slot_t) \<Rightarrow> rivr_ble_frag_rx_t \<Rightarrow> rivr_ble_frag_rx_t" where
  "frag_slot_update i f rx = rx\<lparr>fx_slots := (fx_slots rx)[i := f (fx_slots rx ! i)]\<rparr>"

text \<open>The slot a fragment goes to, started afresh by a fragment at offset 0; Inl is the early return.\<close>

definition frag_select :: "rivr_ble_frag_rx_t \<Rightarrow> u8 \<Rightarrow> u8 \<Rightarrow> u8 \<Rightarrow> rivr_ble_frag_rx_t + nat \<times> rivr_ble_frag_rx_t" where
  "frag_select rx msg_id offset total_len =
     (case rivr_ble_frag_find_slot rx msg_id of
        None \<Rightarrow>
          if offset \<noteq> 0 then Inl rx
          else (case rivr_ble_frag_alloc_slot rx of
                  (i, rx1) \<Rightarrow> Inr (i, frag_slot_update i (rivr_ble_frag_start_slot msg_id total_len) rx1))
      | Some i \<Rightarrow>
          if offset = 0 then Inr (i, frag_slot_update i (rivr_ble_frag_start_slot msg_id total_len) rx)
          else if fg_total_len (fx_slots rx ! i) \<noteq> total_len then Inl (frag_slot_update i rivr_ble_frag_drop_slot rx)
          else Inr (i, rx))"

text \<open>The last part: append the fragment, and hand out the payload when it is complete.\<close>

definition frag_store ::
  "nat \<Rightarrow> u8 \<Rightarrow> u8 list \<Rightarrow> rivr_ble_frag_rx_t \<Rightarrow> rivr_ble_frag_rx_result_t \<times> u8 list \<times> rivr_ble_frag_rx_t" where
  "frag_store i offset frag rx =
     (let s = fx_slots rx ! i in
      if offset \<noteq> fg_received_len s then (RIVR_BLE_FRAG_RX_INVALID, [], frag_slot_update i rivr_ble_frag_drop_slot rx)
      else
        let data = take (unat offset) (fg_data s) @ frag @ drop (unat offset + length frag) (fg_data s);
            received = of_nat (unat offset + length frag);
            rx1 = frag_slot_update i (\<lambda>s. s\<lparr>fg_data := data, fg_received_len := received\<rparr>) rx
        in if received < fg_total_len s then (RIVR_BLE_FRAG_RX_INCOMPLETE, [], rx1)
           else (RIVR_BLE_FRAG_RX_COMPLETE, take (unat (fg_total_len s)) data, frag_slot_update i rivr_ble_frag_drop_slot rx1))"

definition rivr_ble_frag_ingest ::
  "rivr_ble_frag_rx_t \<Rightarrow> u8 list \<Rightarrow> rivr_ble_frag_rx_result_t \<times> u8 list \<times> rivr_ble_frag_rx_t" where
  "rivr_ble_frag_ingest rx packet =
     (if packet = [] then (RIVR_BLE_FRAG_RX_INVALID, [], rx)
      else if \<not> rivr_ble_frag_is_packet packet then (RIVR_BLE_FRAG_RX_PASSTHROUGH, packet, rx)
      else
        let msg_id = packet ! 3; offset = packet ! 4; total_len = packet ! 5; frag = drop RIVR_BLE_FRAG_HDR_LEN packet
        in if total_len = 0 \<or> frag = [] \<or> offset \<ge> total_len \<or> unat offset + length frag > unat total_len
           then (RIVR_BLE_FRAG_RX_INVALID, [], rx)
           else case frag_select rx msg_id offset total_len of
             Inl rx1 \<Rightarrow> (RIVR_BLE_FRAG_RX_INVALID, [], rx1)
           | Inr (i, rx1) \<Rightarrow> frag_store i offset frag rx1)"

section \<open>Sending\<close>

text \<open>The emit callback may refuse a packet and carries its own context.\<close>

function frag_send_loop ::
  "('c \<Rightarrow> u8 list \<Rightarrow> bool \<times> 'c) \<Rightarrow> u8 list \<Rightarrow> nat \<Rightarrow> u8 \<Rightarrow> nat \<Rightarrow> 'c \<Rightarrow> bool \<times> 'c" where
  "frag_send_loop emit payload frag_payload_len msg_id offset ctx =
     (if offset < length payload \<and> 0 < frag_payload_len then
        (case emit ctx ([RIVR_BLE_FRAG_MAGIC0, RIVR_BLE_FRAG_MAGIC1, RIVR_BLE_FRAG_VERSION, msg_id, of_nat offset,
                         of_nat (length payload)] @ take frag_payload_len (drop offset payload)) of
           (ok, ctx1) \<Rightarrow>
             if \<not> ok then (False, ctx1)
             else frag_send_loop emit payload frag_payload_len msg_id (offset + frag_payload_len) ctx1)
      else (True, ctx))"
  by pat_completeness auto
termination by (relation "measure (\<lambda>(_, payload, _, _, offset, _). length payload - offset)") auto

declare frag_send_loop.simps [simp del]

definition frag_next_id :: "u8 \<Rightarrow> u8" where
  "frag_next_id n = (if n + 1 = 0 then n + 2 else n + 1)"

definition rivr_ble_frag_send ::
  "u8 list \<Rightarrow> nat \<Rightarrow> u8 option \<Rightarrow> ('c \<Rightarrow> u8 list \<Rightarrow> bool \<times> 'c) \<Rightarrow> 'c \<Rightarrow> bool \<times> u8 option \<times> 'c" where
  "rivr_ble_frag_send payload link_payload_limit next_msg_id emit ctx =
     (if payload = [] \<or> length payload > 255 \<or> link_payload_limit = 0 then (False, next_msg_id, ctx)
      else if length payload \<le> link_payload_limit
        then (case emit ctx payload of (ok, ctx1) \<Rightarrow> (ok, next_msg_id, ctx1))
      else if link_payload_limit \<le> RIVR_BLE_FRAG_HDR_LEN then (False, next_msg_id, ctx)
      else
        let next = map_option frag_next_id next_msg_id; msg_id = (case next of None \<Rightarrow> 1 | Some n \<Rightarrow> n)
        in case frag_send_loop emit payload (link_payload_limit - RIVR_BLE_FRAG_HDR_LEN) msg_id 0 ctx of
             (ok, ctx1) \<Rightarrow> (ok, next, ctx1))"

section \<open>The receiver\<close>

definition frag_ok :: "rivr_ble_frag_rx_t \<Rightarrow> bool" where
  "frag_ok rx \<longleftrightarrow> length (fx_slots rx) = 4 \<and> (\<forall>s \<in> set (fx_slots rx). length (fg_data s) = 255)"

lemma frag_slot_update_ok:
  assumes "frag_ok rx" "i < 4 \<Longrightarrow> length (fg_data (f (fx_slots rx ! i))) = 255"
  shows "frag_ok (frag_slot_update i f rx)"
proof (cases "i < 4")
  case True
  with assms set_update_subset_insert [of "fx_slots rx" i "f (fx_slots rx ! i)"] show ?thesis
    by (auto simp: frag_ok_def frag_slot_update_def)
qed (use assms in \<open>simp add: frag_ok_def frag_slot_update_def list_update_beyond\<close>)

lemma frag_start_data [simp]:
  "fg_data (rivr_ble_frag_start_slot m t s) = fg_data s" "fg_data (rivr_ble_frag_drop_slot s) = fg_data s"
  by (simp_all add: rivr_ble_frag_start_slot_def rivr_ble_frag_drop_slot_def)

lemma frag_ok_data: "frag_ok rx \<Longrightarrow> i < 4 \<Longrightarrow> length (fg_data (fx_slots rx ! i)) = 255"
  by (simp add: frag_ok_def)

lemma alloc_slot_ok:
  "frag_ok rx \<Longrightarrow> rivr_ble_frag_alloc_slot rx = (i, rx1) \<Longrightarrow> i < 4 \<and> frag_ok rx1 \<and> fx_slots rx1 = fx_slots rx"
  by (auto simp: rivr_ble_frag_alloc_slot_def frag_ok_def Let_def split: option.splits if_splits dest!: find_idx_length)

lemma frag_select_ok:
  assumes "frag_ok rx" "frag_select rx m off t = r"
  shows "case r of Inl rx1 \<Rightarrow> frag_ok rx1 | Inr (i, rx1) \<Rightarrow> frag_ok rx1 \<and> i < 4"
proof -
  have idx: "i < 4" if "rivr_ble_frag_find_slot rx m = Some i" for i
    using that assms(1) by (auto simp: rivr_ble_frag_find_slot_def frag_ok_def dest!: find_idx_length)
  obtain j rx2 where a: "rivr_ble_frag_alloc_slot rx = (j, rx2)" by fastforce
  note al = alloc_slot_ok [OF assms(1) a]
  have "frag_ok (frag_slot_update i f rx')" if "frag_ok rx'" "i < 4" "\<And>s. fg_data (f s) = fg_data s" for i f rx'
    using frag_slot_update_ok [OF that(1), of i f] frag_ok_data [OF that(1,2)] that(3) by simp
  note up = this
  show ?thesis
  proof (cases "rivr_ble_frag_find_slot rx m")
    case None
    with assms up al show ?thesis by (auto simp: frag_select_def a)
  next
    case (Some i)
    with assms up idx show ?thesis by (auto simp: frag_select_def)
  qed
qed

lemma frag_drop_ok: "frag_ok rx \<Longrightarrow> i < 4 \<Longrightarrow> frag_ok (frag_slot_update i rivr_ble_frag_drop_slot rx)"
  by (rule frag_slot_update_ok) (simp_all add: frag_ok_data)

lemma frag_store_ok:
  assumes ok: "frag_ok rx" and i: "i < 4" and room: "unat off + length frag \<le> 255"
  shows "frag_ok (snd (snd (frag_store i off frag rx)))"
proof -
  let ?d = "take (unat off) (fg_data (fx_slots rx ! i)) @ frag @ drop (unat off + length frag) (fg_data (fx_slots rx ! i))"
  let ?rx = "frag_slot_update i (\<lambda>s. s\<lparr>fg_data := ?d, fg_received_len := of_nat (unat off + length frag)\<rparr>) rx"
  have "length ?d = 255" using room frag_ok_data [OF ok i] by simp
  then have "frag_ok ?rx" by (intro frag_slot_update_ok [OF ok]) simp
  then show ?thesis
    using frag_drop_ok [OF ok i] frag_drop_ok [of ?rx, OF _ i] unfolding frag_store_def Let_def
    by (auto simp only: snd_conv simp_thms split: if_splits)
qed

lemma ingest_accepted:
  assumes "rivr_ble_frag_is_packet p" "p ! 5 \<noteq> 0" "drop 6 p \<noteq> []" "p ! 4 < p ! 5"
    "unat (p ! 4) + length (drop 6 p) \<le> unat (p ! 5)"
  shows "rivr_ble_frag_ingest rx p = (case frag_select rx (p ! 3) (p ! 4) (p ! 5) of
      Inl rx1 \<Rightarrow> (RIVR_BLE_FRAG_RX_INVALID, [], rx1) | Inr (i, rx1) \<Rightarrow> frag_store i (p ! 4) (drop 6 p) rx1)"
proof -
  have n: "(p = []) = False" "(\<not> rivr_ble_frag_is_packet p) = False"
    "(p ! 5 = 0 \<or> drop 6 p = [] \<or> p ! 4 \<ge> p ! 5 \<or> unat (p ! 4) + length (drop 6 p) > unat (p ! 5)) = False"
    using assms by (auto simp: rivr_ble_frag_is_packet_def)
  show ?thesis unfolding rivr_ble_frag_ingest_def Let_def n if_False ..
qed

lemma ingest_ok:
  assumes ok: "frag_ok rx" shows "frag_ok (snd (snd (rivr_ble_frag_ingest rx p)))"
proof (cases "p = [] \<or> \<not> rivr_ble_frag_is_packet p \<or> p ! 5 = 0 \<or> drop 6 p = [] \<or> p ! 4 \<ge> p ! 5 \<or>
    unat (p ! 4) + length (drop 6 p) > unat (p ! 5)")
  case True
  with ok show ?thesis by (auto simp: rivr_ble_frag_ingest_def Let_def)
next
  case False
  then have room: "unat (p ! 4) + length (drop 6 p) \<le> 255" using unat_u8_less [of "p ! 5"] by linarith
  obtain r where sel: "frag_select rx (p ! 3) (p ! 4) (p ! 5) = r" by simp
  have "rivr_ble_frag_ingest rx p = (case r of Inl rx1 \<Rightarrow> (RIVR_BLE_FRAG_RX_INVALID, [], rx1)
      | Inr (i, rx1) \<Rightarrow> frag_store i (p ! 4) (drop 6 p) rx1)"
    using ingest_accepted [of p rx, unfolded sel] False by (meson not_le)
  with frag_select_ok [OF ok sel] frag_store_ok [OF _ _ room] show ?thesis by (auto split: sum.splits)
qed

section \<open>The round trip\<close>

text \<open>The receiver has taken the first \<open>off\<close> bytes of a message.\<close>

definition frag_holds :: "rivr_ble_frag_rx_t \<Rightarrow> nat \<Rightarrow> u8 \<Rightarrow> u8 list \<Rightarrow> nat \<Rightarrow> bool" where
  "frag_holds rx i m payload off \<longleftrightarrow> frag_ok rx \<and> i < 4 \<and> rivr_ble_frag_find_slot rx m = Some i \<and>
     unat (fg_total_len (fx_slots rx ! i)) = length payload \<and> unat (fg_received_len (fx_slots rx ! i)) = off \<and>
     take off (fg_data (fx_slots rx ! i)) = take off payload"

lemma find_idx_start:
  "i < length xs \<Longrightarrow> P s \<Longrightarrow> find_idx P xs = None \<or> find_idx P xs = Some i \<Longrightarrow> find_idx P (xs[i := s]) = Some i"
proof (induction xs arbitrary: i)
  case (Cons x xs)
  then show ?case by (cases i) (auto split: if_splits)
qed simp

lemma find_slot_update:
  assumes "rivr_ble_frag_find_slot rx m = None \<or> rivr_ble_frag_find_slot rx m = Some i" "i < length (fx_slots rx)"
    "fg_active (f (fx_slots rx ! i))" "fg_msg_id (f (fx_slots rx ! i)) = m"
  shows "rivr_ble_frag_find_slot (frag_slot_update i f rx) m = Some i"
  using assms unfolding rivr_ble_frag_find_slot_def frag_slot_update_def
  by (simp add: find_idx_start)

lemma frag_started:
  assumes ok: "frag_ok rx" and i: "i < 4" and f: "rivr_ble_frag_find_slot rx m = None \<or> rivr_ble_frag_find_slot rx m = Some i"
    and t: "unat t = length payload"
  shows "frag_holds (frag_slot_update i (rivr_ble_frag_start_slot m t) rx) i m payload 0"
proof -
  have l: "i < length (fx_slots rx)" using ok i by (simp add: frag_ok_def)
  have "frag_ok (frag_slot_update i (rivr_ble_frag_start_slot m t) rx)"
    by (rule frag_slot_update_ok [OF ok]) (simp add: frag_ok_data [OF ok])
  moreover have "rivr_ble_frag_find_slot (frag_slot_update i (rivr_ble_frag_start_slot m t) rx) m = Some i"
    by (rule find_slot_update [OF f l]) (simp_all add: rivr_ble_frag_start_slot_def)
  ultimately show ?thesis
    using i l t by (simp add: frag_holds_def) (simp add: frag_slot_update_def rivr_ble_frag_start_slot_def)
qed

lemma select_ready:
  assumes ok: "frag_ok rx" and t: "unat t = length payload"
    and off: "off = 0 \<or> frag_holds rx i0 m payload (unat off)"
  shows "\<exists>i rx1. frag_select rx m off t = Inr (i, rx1) \<and> frag_holds rx1 i m payload (unat off)"
proof (cases "rivr_ble_frag_find_slot rx m")
  case None
  then have z: "off = 0" using off by (auto simp: frag_holds_def)
  obtain i rx1 where a: "rivr_ble_frag_alloc_slot rx = (i, rx1)" by fastforce
  note al = alloc_slot_ok [OF ok a]
  have "rivr_ble_frag_find_slot rx1 m = None" using None al by (simp add: rivr_ble_frag_find_slot_def)
  with al have "frag_holds (frag_slot_update i (rivr_ble_frag_start_slot m t) rx1) i m payload 0"
    by (intro frag_started [OF _ _ _ t]) simp_all
  then show ?thesis using None z by (simp add: frag_select_def a)
next
  case (Some i)
  then have i: "i < 4" using ok by (auto simp: rivr_ble_frag_find_slot_def frag_ok_def dest!: find_idx_length)
  show ?thesis
  proof (cases "off = 0")
    case True
    have "frag_holds (frag_slot_update i (rivr_ble_frag_start_slot m t) rx) i m payload 0"
      using Some by (intro frag_started [OF ok i _ t]) simp
    then show ?thesis using Some True by (simp add: frag_select_def)
  next
    case False
    then have h: "frag_holds rx i m payload (unat off)" using off Some by (auto simp: frag_holds_def)
    then have "fg_total_len (fx_slots rx ! i) = t" using t by (simp add: frag_holds_def word_eq_unat)
    with h False Some show ?thesis by (simp add: frag_select_def)
  qed
qed

lemma store_step:
  assumes h: "frag_holds rx i m payload (unat off)" and off: "unat off < length payload" and len: "length payload \<le> 255"
    and frag: "frag = take k (drop (unat off) payload)" and k: "0 < k"
  shows "\<exists>rx1. frag_store i off frag rx =
      (if unat off + k < length payload then (RIVR_BLE_FRAG_RX_INCOMPLETE, [], rx1)
       else (RIVR_BLE_FRAG_RX_COMPLETE, payload, rx1)) \<and> frag_ok rx1 \<and>
    (unat off + k < length payload \<longrightarrow> frag_holds rx1 i m payload (unat off + k))"
proof -
  let ?s = "fx_slots rx ! i" and ?n = "unat off + length frag"
  let ?d = "take (unat off) (fg_data ?s) @ frag @ drop ?n (fg_data ?s)"
  let ?rx = "frag_slot_update i (\<lambda>s. s\<lparr>fg_data := ?d, fg_received_len := of_nat ?n\<rparr>) rx"
  have ok: "frag_ok rx" and i: "i < 4" and find: "rivr_ble_frag_find_slot rx m = Some i"
    and s: "unat (fg_total_len ?s) = length payload" "fg_received_len ?s = off" "take (unat off) (fg_data ?s) = take (unat off) payload"
    using h by (simp_all add: frag_holds_def word_eq_unat)
  have lf: "length frag = min k (length payload - unat off)" by (simp add: frag)
  have n: "?n \<le> length payload" using lf off by simp
  have un: "unat (of_nat ?n :: u8) = ?n" using n len by (simp only: unat_of_nat) simp
  have dd: "take ?n ?d = take ?n payload"
    using s(3) frag_ok_data [OF ok i] off len lf by (simp add: frag take_add)
  have ok2: "frag_ok ?rx" using frag_ok_data [OF ok i] n len by (intro frag_slot_update_ok [OF ok]) simp
  have l: "i < length (fx_slots rx)" using ok i by (simp add: frag_ok_def)
  have act: "fg_active ?s" "fg_msg_id ?s = m" using find by (auto simp: rivr_ble_frag_find_slot_def dest!: find_idx_SomeD)
  have more: "of_nat ?n < fg_total_len ?s \<longleftrightarrow> unat off + k < length payload"
    unfolding word_less_nat_alt un s(1) using lf off by auto
  have run: "frag_store i off frag rx = (if unat off + k < length payload then (RIVR_BLE_FRAG_RX_INCOMPLETE, [], ?rx)
      else (RIVR_BLE_FRAG_RX_COMPLETE, take (length payload) ?d, frag_slot_update i rivr_ble_frag_drop_slot ?rx))"
    unfolding frag_store_def Let_def s(1) more using s(2) by simp
  show ?thesis
  proof (cases "unat off + k < length payload")
    case True
    then have n': "?n = unat off + k" using lf by simp
    have "rivr_ble_frag_find_slot ?rx m = Some i" using find act by (intro find_slot_update l) simp_all
    then have "frag_holds ?rx i m payload (unat off + k)"
      using ok2 i l s(1) un dd n' by (simp add: frag_holds_def) (simp add: frag_slot_update_def)
    with True run ok2 show ?thesis by auto
  next
    case False
    then have "?n = length payload" using lf off by simp
    then have "take (length payload) ?d = payload" using dd by simp
    with False run frag_drop_ok [OF ok2 i] show ?thesis by auto
  qed
qed

fun frag_ingest_all :: "rivr_ble_frag_rx_t \<Rightarrow> u8 list list \<Rightarrow> (rivr_ble_frag_rx_result_t \<times> u8 list) list" where
  "frag_ingest_all rx [] = []"
| "frag_ingest_all rx (p # ps) =
     (case rivr_ble_frag_ingest rx p of (r, out, rx1) \<Rightarrow> (r, out) # frag_ingest_all rx1 ps)"

definition frag_collect :: "u8 list list \<Rightarrow> u8 list \<Rightarrow> bool \<times> u8 list list" where
  "frag_collect ps p = (True, ps @ [p])"

definition frag_packet :: "u8 list \<Rightarrow> nat \<Rightarrow> u8 \<Rightarrow> nat \<Rightarrow> u8 list" where
  "frag_packet payload k m off =
     [RIVR_BLE_FRAG_MAGIC0, RIVR_BLE_FRAG_MAGIC1, RIVR_BLE_FRAG_VERSION, m, of_nat off, of_nat (length payload)] @
       take k (drop off payload)"

lemma frag_packet_parts:
  "frag_packet payload k m off ! 3 = m" "frag_packet payload k m off ! 4 = of_nat off"
  "frag_packet payload k m off ! 5 = of_nat (length payload)" "drop 6 (frag_packet payload k m off) = take k (drop off payload)"
  "rivr_ble_frag_is_packet (frag_packet payload k m off)" "length (frag_packet payload k m off) \<le> 6 + k"
  by (simp_all add: frag_packet_def rivr_ble_frag_is_packet_def numeral_eq_Suc)

lemma frag_ingest_packet:
  assumes len: "off < length payload" "length payload \<le> 255" and k: "0 < k"
    and ready: "frag_ok rx" "off = 0 \<or> frag_holds rx i0 m payload off"
  shows "\<exists>rx1 i. rivr_ble_frag_ingest rx (frag_packet payload k m off) =
      (if off + k < length payload then (RIVR_BLE_FRAG_RX_INCOMPLETE, [], rx1)
       else (RIVR_BLE_FRAG_RX_COMPLETE, payload, rx1)) \<and> frag_ok rx1 \<and>
    (off + k < length payload \<longrightarrow> frag_holds rx1 i m payload (off + k))"
proof -
  let ?o = "of_nat off :: u8" and ?t = "of_nat (length payload) :: u8"
  have o: "unat ?o = off" and t: "unat ?t = length payload" using len by (simp_all only: unat_of_nat) simp_all
  have "?o = 0 \<or> frag_holds rx i0 m payload (unat ?o)" using ready(2) o by auto
  from select_ready [OF ready(1) t this] obtain i rx1 where
    sel: "frag_select rx m ?o ?t = Inr (i, rx1)" and h: "frag_holds rx1 i m payload (unat ?o)" by blast
  have "?o < ?t" "?t \<noteq> 0" using len o t by (auto simp: word_less_nat_alt word_eq_unat)
  moreover have "take k (drop off payload) \<noteq> []" using len k by simp
  moreover have "unat ?o + length (take k (drop off payload)) \<le> unat ?t" using len o t by simp
  ultimately have "rivr_ble_frag_ingest rx (frag_packet payload k m off) = frag_store i ?o (take k (drop off payload)) rx1"
    using ingest_accepted [of "frag_packet payload k m off" rx] by (simp add: frag_packet_parts sel)
  then show ?thesis using store_step [OF h _ len(2) _ k, of "take k (drop off payload)"] len(1) unfolding o by auto
qed

lemma frag_loop_ingest:
  assumes "off < length payload" "length payload \<le> 255" "0 < k" "frag_ok rx" "off = 0 \<or> frag_holds rx i0 m payload off"
  shows "\<exists>ps rs. frag_send_loop frag_collect payload k m off qs = (True, qs @ ps) \<and> ps \<noteq> [] \<and> (\<forall>p \<in> set ps. length p \<le> 6 + k) \<and>
    frag_ingest_all rx ps = rs @ [(RIVR_BLE_FRAG_RX_COMPLETE, payload)] \<and> (\<forall>r \<in> set rs. r = (RIVR_BLE_FRAG_RX_INCOMPLETE, []))"
  using assms
proof (induction "length payload - off" arbitrary: off rx i0 qs rule: less_induct)
  case less
  let ?p = "frag_packet payload k m off"
  obtain rx1 i where p: "rivr_ble_frag_ingest rx ?p = (if off + k < length payload then (RIVR_BLE_FRAG_RX_INCOMPLETE, [], rx1)
       else (RIVR_BLE_FRAG_RX_COMPLETE, payload, rx1))" "frag_ok rx1"
    "off + k < length payload \<longrightarrow> frag_holds rx1 i m payload (off + k)"
    using frag_ingest_packet [OF less.prems] by blast
  have step: "frag_send_loop frag_collect payload k m off qs = frag_send_loop frag_collect payload k m (off + k) (qs @ [?p])"
    using less.prems(1,3) by (subst frag_send_loop.simps) (simp add: frag_collect_def frag_packet_def)
  show ?case
  proof (cases "off + k < length payload")
    case True
    have "length payload - (off + k) < length payload - off" using less.prems(3) True by simp
    from less.hyps [OF this True less.prems(2,3) p(2)] p(3) True obtain ps rs where
      "frag_send_loop frag_collect payload k m (off + k) (qs @ [?p]) = (True, (qs @ [?p]) @ ps)" "ps \<noteq> []"
      "\<forall>p \<in> set ps. length p \<le> 6 + k" "frag_ingest_all rx1 ps = rs @ [(RIVR_BLE_FRAG_RX_COMPLETE, payload)]"
      "\<forall>r \<in> set rs. r = (RIVR_BLE_FRAG_RX_INCOMPLETE, [])" by blast
    with p(1) True step frag_packet_parts(6) [of payload k m off] show ?thesis
      by (intro exI [of _ "?p # ps"] exI [of _ "(RIVR_BLE_FRAG_RX_INCOMPLETE, []) # rs"]) simp
  next
    case False
    have "frag_send_loop frag_collect payload k m (off + k) (qs @ [?p]) = (True, qs @ [?p])"
      using False by (subst frag_send_loop.simps) simp
    with p(1) False step frag_packet_parts(6) [of payload k m off] show ?thesis
      by (intro exI [of _ "[?p]"] exI [of _ "[]"]) simp
  qed
qed

text \<open>C38: a payload cut into fragments comes out of the receiver unchanged.\<close>

theorem ble_fragments_roundtrip:
  assumes rx: "frag_ok rx" and len: "length payload \<le> 255" and limit: "6 < limit" "limit < length payload"
    and run: "rivr_ble_frag_send payload limit next_id frag_collect [] = (ok, next_id', packets)"
  shows "ok \<and> (\<forall>p \<in> set packets. length p \<le> limit) \<and>
    (\<exists>rs. frag_ingest_all rx packets = rs @ [(RIVR_BLE_FRAG_RX_COMPLETE, payload)] \<and>
      (\<forall>r \<in> set rs. r = (RIVR_BLE_FRAG_RX_INCOMPLETE, [])))"
proof -
  have nz: "(payload = [] \<or> length payload > 255 \<or> limit = 0) = False" "(length payload \<le> limit) = False" "(limit \<le> 6) = False"
    using len limit by auto
  obtain m where loop: "frag_send_loop frag_collect payload (limit - 6) m 0 [] = (ok, packets)"
    using run unfolding rivr_ble_frag_send_def nz if_False Let_def by (auto split: prod.splits)
  have "0 < length payload" "0 < limit - 6" using limit by auto
  from frag_loop_ingest [OF this(1) len this(2) rx, of undefined m "[]"] loop limit show ?thesis by auto
qed

definition frag_rx_zero :: rivr_ble_frag_rx_t where
  "frag_rx_zero = rivr_ble_frag_reset \<lparr>fx_next_slot = 0, fx_slots = replicate 4
     \<lparr>fg_active = False, fg_msg_id = 0, fg_total_len = 0, fg_received_len = 0, fg_data = replicate 255 0\<rparr>\<rparr>"

lemma frag_rx_zero_ok: "frag_ok frag_rx_zero"
  by (simp add: frag_rx_zero_def rivr_ble_frag_reset_def frag_ok_def)

lemma ble_fragments_roundtrip_witness:
  "\<exists>packets. rivr_ble_frag_send (replicate 40 7) 20 (Some 255) frag_collect [] = (True, Some 1, packets) \<and>
     last (frag_ingest_all frag_rx_zero packets) = (RIVR_BLE_FRAG_RX_COMPLETE, replicate 40 7)"
proof -
  obtain ok nid packets where r: "rivr_ble_frag_send (replicate 40 7) 20 (Some 255) frag_collect [] = (ok, nid, packets)"
    by (metis prod_cases3)
  then have "nid = Some 1" by (auto simp: rivr_ble_frag_send_def frag_next_id_def split: prod.splits)
  with ble_fragments_roundtrip [OF frag_rx_zero_ok _ _ _ r] r show ?thesis by auto
qed

end
