(* ===== verification/Rivr_Sensors.thy ===== *)
theory Rivr_Sensors
  imports Rivr_Svc
begin

text \<open>
  The sensors (sensors.c with the drivers sensor_am2302.c, sensor_ds18b20.c and sensor_vbat.c). What
  happens on the wires is an input of a tick: whether a device answers a reset, the bytes it sends,
  the raw value of the converter. The frame handed to the engine's \<open>telemetry_tx\<close> source is the
  output. The features that a build selects are a record. The properties: a bundle that
  crosses the radio link yields the readings taken; the rate of bundles is bounded whatever is
  configured; and a change the AM2302 reports never travels with the bundle it triggers.
\<close>

section \<open>Configuration\<close>

record sensors_config_t =
  sc_tx_ms :: u32
  sc_min_delta_ms :: u32
  sc_delta_temp :: u16
  sc_delta_rh :: u16
  sc_delta_vbat :: u16

definition sensors_defaults :: sensors_config_t where
  "sensors_defaults = \<lparr>sc_tx_ms = 300000, sc_min_delta_ms = 30000, sc_delta_temp = 50, sc_delta_rh = 100, sc_delta_vbat = 100\<rparr>"

text \<open>The keys of the flash namespace, each present or not.\<close>

record sensors_nvs =
  nv_tx_ms :: "u32 option"
  nv_dlt_ms :: "u32 option"
  nv_d_temp :: "u16 option"
  nv_d_rh :: "u16 option"
  nv_d_vbat :: "u16 option"

definition at_least :: "u32 \<Rightarrow> u32 option \<Rightarrow> u32 \<Rightarrow> u32" where
  "at_least low v old = (case v of Some x \<Rightarrow> if x \<ge> low then x else old | None \<Rightarrow> old)"

definition or_old :: "'a option \<Rightarrow> 'a \<Rightarrow> 'a" where
  "or_old v old = (case v of Some x \<Rightarrow> x | None \<Rightarrow> old)"

text \<open>None is a namespace that does not open.\<close>

definition sensors_nvs_load :: "sensors_nvs option \<Rightarrow> sensors_config_t \<Rightarrow> sensors_config_t" where
  "sensors_nvs_load nvs c =
     (case nvs of
        None \<Rightarrow> c
      | Some f \<Rightarrow> \<lparr>sc_tx_ms = at_least 5000 (nv_tx_ms f) (sc_tx_ms c),
                  sc_min_delta_ms = at_least 1000 (nv_dlt_ms f) (sc_min_delta_ms c),
                  sc_delta_temp = or_old (nv_d_temp f) (sc_delta_temp c),
                  sc_delta_rh = or_old (nv_d_rh f) (sc_delta_rh c),
                  sc_delta_vbat = or_old (nv_d_vbat f) (sc_delta_vbat c)\<rparr>)"

text \<open>Saving: whether the namespace opens and each write succeeds is an input; what was written
  lasts when it is committed.\<close>

definition sensors_nvs_save :: "bool \<Rightarrow> bool list \<Rightarrow> sensors_config_t \<Rightarrow> sensors_nvs option \<Rightarrow> bool \<times> sensors_nvs option" where
  "sensors_nvs_save opened writes c nvs =
     (if \<not> opened then (False, nvs)
      else let ok = (\<forall>k < 5. writes ! k)
           in (ok, if ok then Some \<lparr>nv_tx_ms = Some (sc_tx_ms c), nv_dlt_ms = Some (sc_min_delta_ms c),
                      nv_d_temp = Some (sc_delta_temp c), nv_d_rh = Some (sc_delta_rh c),
                      nv_d_vbat = Some (sc_delta_vbat c)\<rparr> else nvs))"

definition sensors_set_config :: "sensors_config_t \<Rightarrow> sensors_config_t \<Rightarrow> sensors_config_t" where
  "sensors_set_config cfg c =
     c\<lparr>sc_tx_ms := (if sc_tx_ms cfg \<ge> 5000 then sc_tx_ms cfg else 5000),
       sc_min_delta_ms := (if sc_min_delta_ms cfg \<ge> 1000 then sc_min_delta_ms cfg else 1000),
       sc_delta_temp := sc_delta_temp cfg, sc_delta_rh := sc_delta_rh cfg, sc_delta_vbat := sc_delta_vbat cfg\<rparr>"

section \<open>Drivers\<close>

record am2302_ctx_t =
  am_last_read_ms :: u32
  am_rh_x100 :: u32
  am_temp_x100 :: u32
  am_valid :: bool

abbreviation "RIVR_AM2302_MIN_INTERVAL_MS \<equiv> (2000 :: u32)"

definition am2302_init :: am2302_ctx_t where
  "am2302_init = \<lparr>am_last_read_ms = 0, am_rh_x100 = 0, am_temp_x100 = 0, am_valid = False\<rparr>"

text \<open>The line yields the five bytes in the order of the array, checksum first, or a timeout.\<close>

definition am2302_decode :: "u8 list \<Rightarrow> am2302_ctx_t \<Rightarrow> bool \<times> am2302_ctx_t" where
  "am2302_decode data ctx =
     (if data ! 4 + data ! 3 + data ! 2 + data ! 1 \<noteq> data ! 0 then (False, ctx)
      else
        let rh = ucast (get_u16 (data ! 3) (data ! 4)) :: u32;
            t = ucast (get_u16 (data ! 1) (data ! 2 AND 0x7F)) :: u32;
            temp = t * 10
        in (True, ctx\<lparr>am_rh_x100 := rh * 10,
                      am_temp_x100 := (if data ! 2 AND 0x80 \<noteq> 0 then - temp else temp), am_valid := True\<rparr>))"

definition am2302_tick :: "u8 list option \<Rightarrow> u32 \<Rightarrow> am2302_ctx_t \<Rightarrow> bool \<times> am2302_ctx_t" where
  "am2302_tick line now ctx =
     (if am_last_read_ms ctx \<noteq> 0 \<and> now - am_last_read_ms ctx < RIVR_AM2302_MIN_INTERVAL_MS then (False, ctx)
      else case line of
             None \<Rightarrow> (False, ctx\<lparr>am_last_read_ms := now\<rparr>)
           | Some data \<Rightarrow> am2302_decode data (ctx\<lparr>am_last_read_ms := now\<rparr>))"

definition am2302_get_rh_x100 :: "am2302_ctx_t \<Rightarrow> u32" where
  "am2302_get_rh_x100 ctx = (if am_valid ctx then am_rh_x100 ctx else 0)"

definition am2302_get_temp_x100 :: "am2302_ctx_t \<Rightarrow> u32" where
  "am2302_get_temp_x100 ctx = (if am_valid ctx then am_temp_x100 ctx else 0)"

datatype ds18b20_state_t = DS18B20_STATE_IDLE | DS18B20_STATE_CONVERTING | DS18B20_STATE_READY | DS18B20_STATE_ERROR

record ds18b20_ctx_t =
  ds_state :: ds18b20_state_t
  ds_convert_start_ms :: u32
  ds_celsius_x100 :: u32
  ds_valid :: bool

abbreviation "DS18B20_CONV_TIME_MS \<equiv> (800 :: u32)"

definition ds18b20_init :: ds18b20_ctx_t where
  "ds18b20_init = \<lparr>ds_state = DS18B20_STATE_IDLE, ds_convert_start_ms = 0, ds_celsius_x100 = 0, ds_valid = False\<rparr>"

text \<open>The CRC of the one-wire bus, bit by bit.\<close>

definition ow_crc8_bit :: "u8 \<times> u8 \<Rightarrow> u8 \<times> u8" where
  "ow_crc8_bit s = (case s of (crc, byte) \<Rightarrow>
     (if (crc XOR byte) AND 1 \<noteq> 0 then drop_bit 1 crc XOR 0x8C else drop_bit 1 crc, drop_bit 1 byte))"

definition ow_crc8 :: "u8 list \<Rightarrow> u8" where
  "ow_crc8 data = fold (\<lambda>b crc. fst ((ow_crc8_bit ^^ 8) (crc, b))) data 0"

text \<open>The presence pulses of the first and of the last reset are inputs; the reset in between only
  decides whether the resolution is stored in the device.\<close>

definition ds18b20_start_conversion :: "bool \<Rightarrow> bool \<Rightarrow> u32 \<Rightarrow> ds18b20_ctx_t \<Rightarrow> bool \<times> ds18b20_ctx_t" where
  "ds18b20_start_conversion present present_again now ctx =
     (if ds_state ctx = DS18B20_STATE_CONVERTING then (False, ctx)
      else if \<not> present then (False, ctx\<lparr>ds_state := DS18B20_STATE_ERROR\<rparr>)
      else if \<not> ds_valid ctx \<and> \<not> present_again then (False, ctx\<lparr>ds_state := DS18B20_STATE_ERROR\<rparr>)
      else (True, ctx\<lparr>ds_convert_start_ms := now, ds_state := DS18B20_STATE_CONVERTING\<rparr>))"

definition ds18b20_tick :: "bool \<Rightarrow> u8 list \<Rightarrow> u32 \<Rightarrow> ds18b20_ctx_t \<Rightarrow> ds18b20_ctx_t" where
  "ds18b20_tick present scratch now ctx =
     (if ds_state ctx \<noteq> DS18B20_STATE_CONVERTING then ctx
      else if now - ds_convert_start_ms ctx < DS18B20_CONV_TIME_MS then ctx
      else if \<not> present then ctx\<lparr>ds_state := DS18B20_STATE_ERROR\<rparr>
      else if ow_crc8 (take 8 scratch) \<noteq> scratch ! 8 then ctx\<lparr>ds_state := DS18B20_STATE_ERROR\<rparr>
      else let raw = get_u16 (scratch ! 0) (scratch ! 1)
           in ctx\<lparr>ds_celsius_x100 := word_of_int ((sint raw * 25) sdiv 4), ds_valid := True, ds_state := DS18B20_STATE_READY\<rparr>)"

definition ds18b20_read_celsius_x100 :: "ds18b20_ctx_t \<Rightarrow> u32 \<times> ds18b20_ctx_t" where
  "ds18b20_read_celsius_x100 ctx = (ds_celsius_x100 ctx, ctx\<lparr>ds_state := DS18B20_STATE_IDLE\<rparr>)"

text \<open>The battery: the divider of the board and, where there is one, the calibration of the chip.\<close>

record vbat_t =
  vb_num :: int
  vb_den :: int
  vb_cali :: "(int \<Rightarrow> int) option"

definition vbat_read_mv :: "vbat_t \<Rightarrow> int option \<Rightarrow> u32" where
  "vbat_read_mv vb adc =
     (case adc of
        None \<Rightarrow> 0
      | Some raw \<Rightarrow>
          let adc_mv = (case vb_cali vb of Some f \<Rightarrow> f raw | None \<Rightarrow> (raw * 3300) sdiv 4095)
          in word_of_int ((adc_mv * vb_num vb) sdiv vb_den vb))"

section \<open>The bundle\<close>

record sensor_build_t =
  sb_ds18b20 :: bool
  sb_am2302 :: bool
  sb_has_vbat :: bool
  sb_vbat :: vbat_t

record sensors_t =
  sn_cfg :: sensors_config_t
  sn_am :: am2302_ctx_t
  sn_ds :: ds18b20_ctx_t
  sn_last_trigger_ms :: u32
  sn_started :: bool
  sn_last_ds18b20 :: u32
  sn_last_am2302_rh :: u32
  sn_last_am2302_temp :: u32
  sn_last_vbat :: u32
  sn_bundle_buf :: "u8 list"
  sn_bundle_count :: u8
  sn_bundle_ts_s :: u32
  sn_bundle_node_id :: u32
  sn_bundle_net_id :: u16
  sn_ds18b20_pending :: bool
  sn_ctrl_seq :: u32
  sn_injected :: "(u64 \<times> u8 list) list"

abbreviation "INT32_MIN \<equiv> (0x80000000 :: u32)"
abbreviation "SENSOR_MAX_READINGS \<equiv> (4 :: u8)"
abbreviation "SENSOR_ID_DS18B20_TEMP \<equiv> (1 :: u16)"
abbreviation "SENSOR_ID_AM2302_RH \<equiv> (2 :: u16)"
abbreviation "SENSOR_ID_AM2302_TEMP \<equiv> (3 :: u16)"
abbreviation "SENSOR_ID_VBAT \<equiv> (4 :: u16)"
abbreviation "UNIT_CELSIUS \<equiv> (1 :: u8)"
abbreviation "UNIT_PERCENT_RH \<equiv> (2 :: u8)"
abbreviation "UNIT_MILLIVOLTS \<equiv> (3 :: u8)"

text \<open>The state at boot; the sequence counter is shared with the other originators.\<close>

definition sensors_boot :: "u32 \<Rightarrow> sensors_t" where
  "sensors_boot seq = \<lparr>sn_cfg = sensors_defaults, sn_am = am2302_init, sn_ds = ds18b20_init, sn_last_trigger_ms = 0,
     sn_started = False, sn_last_ds18b20 = INT32_MIN, sn_last_am2302_rh = INT32_MIN, sn_last_am2302_temp = INT32_MIN,
     sn_last_vbat = INT32_MIN, sn_bundle_buf = replicate 44 0, sn_bundle_count = 0, sn_bundle_ts_s = 0,
     sn_bundle_node_id = 0, sn_bundle_net_id = 0, sn_ds18b20_pending = False, sn_ctrl_seq = seq, sn_injected = []\<rparr>"

definition reading_bytes :: "u32 \<Rightarrow> u16 \<Rightarrow> u32 \<Rightarrow> u8 \<Rightarrow> u8 list" where
  "reading_bytes ts sensor_id value unit_code = put_u16 sensor_id @ put_u32 value @ [unit_code] @ put_u32 ts"

definition bundle_append :: "u16 \<Rightarrow> u32 \<Rightarrow> u8 \<Rightarrow> sensors_t \<Rightarrow> sensors_t" where
  "bundle_append sensor_id value unit_code s =
     (if sn_bundle_count s \<ge> SENSOR_MAX_READINGS then s
      else s\<lparr>sn_bundle_buf := take (unat (sn_bundle_count s) * 11) (sn_bundle_buf s) @
               reading_bytes (sn_bundle_ts_s s) sensor_id value unit_code @ drop (unat (sn_bundle_count s) * 11 + 11) (sn_bundle_buf s),
             sn_bundle_count := sn_bundle_count s + 1\<rparr>)"

definition bundle_hdr :: "sensors_t \<Rightarrow> rivr_pkt_hdr_t" where
  "bundle_hdr s =
     (let seq = (ucast (sn_ctrl_seq s) :: u16)
      in \<lparr>h_magic = RIVR_MAGIC, h_version = RIVR_PROTO_VER, h_pkt_type = PKT_TELEMETRY, h_flags = 0, h_ttl = 2, h_hop = 0,
          h_net_id = sn_bundle_net_id s, h_src_id = sn_bundle_node_id s, h_dst_id = 0, h_seq = seq, h_pkt_id = seq,
          h_payload_len = sn_bundle_count s * SVC_TELEMETRY_PAYLOAD_LEN, h_loop_guard = 0\<rparr>)"

definition send_bundle :: "sensors_t \<Rightarrow> sensors_t" where
  "send_bundle s0 =
     (if sn_bundle_count s0 = 0 then s0
      else
        let payload_len = sn_bundle_count s0 * SVC_TELEMETRY_PAYLOAD_LEN;
            s = s0\<lparr>sn_ctrl_seq := sn_ctrl_seq s0 + 1\<rparr>;
            s1 = (case protocol_encode (bundle_hdr s) (Some (sn_bundle_buf s)) payload_len (replicate 69 0) 69 of
                    (enc, buf) \<Rightarrow>
                      if enc \<le> 0 then s
                      else s\<lparr>sn_injected := sn_injected s @ [(ucast (sn_bundle_ts_s s) * 1000, take (nat enc) buf)]\<rparr>)
        in s1\<lparr>sn_bundle_count := 0, sn_ds18b20_pending := False\<rparr>)"

section \<open>A tick\<close>

text \<open>What the hardware answers during one tick, in the order of the calls.\<close>

record sensor_in =
  in_am_delta :: "u8 list option"
  in_vbat_delta :: "int option"
  in_am_read :: "u8 list option"
  in_vbat_read :: "int option"
  in_ow_start :: bool
  in_ow_start_again :: bool
  in_ow_read :: bool
  in_scratch :: "u8 list"

definition abs_diff :: "u32 \<Rightarrow> u32 \<Rightarrow> int" where
  "abs_diff a b = (if sint a > sint b then sint a - sint b else sint b - sint a)"

definition moved :: "u32 \<Rightarrow> u32 \<Rightarrow> u16 \<Rightarrow> bool" where
  "moved value sent threshold \<longleftrightarrow> sent \<noteq> INT32_MIN \<and> abs_diff value sent \<ge> int (unat threshold)"

definition am2302_delta :: "sensor_build_t \<Rightarrow> sensor_in \<Rightarrow> u32 \<Rightarrow> sensors_t \<Rightarrow> bool \<times> sensors_t" where
  "am2302_delta b i now s =
     (if \<not> sb_am2302 b then (False, s)
      else case am2302_tick (in_am_delta i) now (sn_am s) of
             (ok, am) \<Rightarrow>
               (ok \<and> (moved (am2302_get_rh_x100 am) (sn_last_am2302_rh s) (sc_delta_rh (sn_cfg s)) \<or>
                      moved (am2302_get_temp_x100 am) (sn_last_am2302_temp s) (sc_delta_temp (sn_cfg s))),
                s\<lparr>sn_am := am\<rparr>))"

definition vbat_delta :: "sensor_build_t \<Rightarrow> sensor_in \<Rightarrow> sensors_t \<Rightarrow> bool" where
  "vbat_delta b i s \<longleftrightarrow> sb_has_vbat b \<and>
     moved (vbat_read_mv (sb_vbat b) (in_vbat_delta i)) (sn_last_vbat s) (sc_delta_vbat (sn_cfg s))"

definition sensors_check :: "sensor_build_t \<Rightarrow> sensor_in \<Rightarrow> u32 \<Rightarrow> sensors_t \<Rightarrow> bool \<times> sensors_t" where
  "sensors_check b i now s =
     (let elapsed = now - sn_last_trigger_ms s in
      if elapsed \<ge> sc_tx_ms (sn_cfg s) then (True, s)
      else if elapsed \<ge> sc_min_delta_ms (sn_cfg s)
        then (case am2302_delta b i now s of (trigger, s1) \<Rightarrow> (trigger \<or> vbat_delta b i s1, s1))
      else (False, s))"

definition trigger_am2302 :: "sensor_build_t \<Rightarrow> sensor_in \<Rightarrow> u32 \<Rightarrow> sensors_t \<Rightarrow> sensors_t" where
  "trigger_am2302 b i now s =
     (if \<not> sb_am2302 b then s
      else case am2302_tick (in_am_read i) now (sn_am s) of
             (ok, am) \<Rightarrow>
               let s1 = s\<lparr>sn_am := am\<rparr>; rh = am2302_get_rh_x100 am; temp = am2302_get_temp_x100 am
               in if \<not> ok then s1
                  else (bundle_append SENSOR_ID_AM2302_TEMP temp UNIT_CELSIUS
                         (bundle_append SENSOR_ID_AM2302_RH rh UNIT_PERCENT_RH s1))
                         \<lparr>sn_last_am2302_rh := rh, sn_last_am2302_temp := temp\<rparr>)"

definition trigger_vbat :: "sensor_build_t \<Rightarrow> sensor_in \<Rightarrow> sensors_t \<Rightarrow> sensors_t" where
  "trigger_vbat b i s =
     (let mv = vbat_read_mv (sb_vbat b) (in_vbat_read i)
      in if sb_has_vbat b \<and> sint mv > 0 then (bundle_append SENSOR_ID_VBAT mv UNIT_MILLIVOLTS s)\<lparr>sn_last_vbat := mv\<rparr> else s)"

definition trigger_ds18b20 :: "sensor_build_t \<Rightarrow> sensor_in \<Rightarrow> u32 \<Rightarrow> sensors_t \<Rightarrow> sensors_t" where
  "trigger_ds18b20 b i now s =
     (if \<not> sb_ds18b20 b then send_bundle s
      else case ds18b20_start_conversion (in_ow_start i) (in_ow_start_again i) now (sn_ds s) of
             (ok, ds) \<Rightarrow> if ok then s\<lparr>sn_ds := ds, sn_ds18b20_pending := True\<rparr>
                        else send_bundle (s\<lparr>sn_ds := ds, sn_ds18b20_pending := False\<rparr>))"

definition sensors_trigger :: "sensor_build_t \<Rightarrow> sensor_in \<Rightarrow> u32 \<Rightarrow> u32 \<Rightarrow> u16 \<Rightarrow> sensors_t \<Rightarrow> sensors_t" where
  "sensors_trigger b i now node_id net_id s =
     trigger_ds18b20 b i now (trigger_vbat b i (trigger_am2302 b i now
       (s\<lparr>sn_last_trigger_ms := now, sn_bundle_count := 0, sn_bundle_ts_s := now div 1000, sn_bundle_node_id := node_id,
          sn_bundle_net_id := net_id, sn_ds18b20_pending := False\<rparr>)))"

definition sensors_ds18b20 :: "sensor_build_t \<Rightarrow> sensor_in \<Rightarrow> u32 \<Rightarrow> sensors_t \<Rightarrow> sensors_t" where
  "sensors_ds18b20 b i now s =
     (if \<not> sb_ds18b20 b then s
      else
        let s1 = s\<lparr>sn_ds := ds18b20_tick (in_ow_read i) (in_scratch i) now (sn_ds s)\<rparr>
        in if \<not> sn_ds18b20_pending s1 then s1
           else if ds_state (sn_ds s1) = DS18B20_STATE_READY then
             (case ds18b20_read_celsius_x100 (sn_ds s1) of
                (temp, ds) \<Rightarrow> send_bundle ((bundle_append SENSOR_ID_DS18B20_TEMP temp UNIT_CELSIUS (s1\<lparr>sn_ds := ds\<rparr>))
                                             \<lparr>sn_last_ds18b20 := temp\<rparr>))
           else if ds_state (sn_ds s1) = DS18B20_STATE_ERROR then send_bundle s1
           else s1)"

definition sensors_tick :: "sensor_build_t \<Rightarrow> sensor_in \<Rightarrow> u32 \<Rightarrow> u32 \<Rightarrow> u16 \<Rightarrow> sensors_t \<Rightarrow> sensors_t" where
  "sensors_tick b i now node_id net_id s0 =
     (if \<not> sb_ds18b20 b \<and> \<not> sb_am2302 b \<and> \<not> sb_has_vbat b then s0
      else
        let s = (if sn_started s0 then s0 else s0\<lparr>sn_started := True, sn_last_trigger_ms := now\<rparr>)
        in case sensors_check b i now s of
             (trigger, s1) \<Rightarrow> sensors_ds18b20 b i now (if trigger then sensors_trigger b i now node_id net_id s1 else s1))"

text \<open>The readings as the display and the app see them.\<close>

definition sensors_get_last :: "sensor_build_t \<Rightarrow> sensors_t \<Rightarrow> u32 \<times> u32 \<times> u32 \<times> u32" where
  "sensors_get_last b s =
     (if sb_ds18b20 b then sn_last_ds18b20 s else INT32_MIN,
      if sb_am2302 b then sn_last_am2302_rh s else INT32_MIN,
      if sb_am2302 b then sn_last_am2302_temp s else INT32_MIN,
      if sb_has_vbat b then sn_last_vbat s else INT32_MIN)"

section \<open>What a change triggers\<close>

lemma am2302_tick_last: "am2302_tick line now ctx = (True, ctx') \<Longrightarrow> am_last_read_ms ctx' = now"
  by (auto simp: am2302_tick_def am2302_decode_def Let_def split: if_splits option.splits)

text \<open>A second read in the same millisecond is refused, whatever the first one did.\<close>

lemma am2302_tick_again:
  assumes "now \<noteq> 0" "am2302_tick line now ctx = (ok, ctx')" shows "am2302_tick line' now ctx' = (False, ctx')"
proof (cases "am_last_read_ms ctx \<noteq> 0 \<and> now - am_last_read_ms ctx < RIVR_AM2302_MIN_INTERVAL_MS")
  case True
  with assms show ?thesis by (auto simp: am2302_tick_def)
next
  case False
  with assms have "am_last_read_ms ctx' = now"
    by (auto simp: am2302_tick_def am2302_decode_def Let_def split: if_splits option.splits)
  with assms show ?thesis by (simp add: am2302_tick_def)
qed

lemma bundle_append_same [simp]:
  "sn_last_am2302_rh (bundle_append i v u s) = sn_last_am2302_rh s" "sn_last_am2302_temp (bundle_append i v u s) = sn_last_am2302_temp s"
  "sn_injected (bundle_append i v u s) = sn_injected s" "sn_last_trigger_ms (bundle_append i v u s) = sn_last_trigger_ms s"
  "sn_ds18b20_pending (bundle_append i v u s) = sn_ds18b20_pending s" "sn_cfg (bundle_append i v u s) = sn_cfg s"
  "sn_started (bundle_append i v u s) = sn_started s" "sn_am (bundle_append i v u s) = sn_am s"
  by (simp_all add: bundle_append_def)

lemma send_bundle_same [simp]:
  "sn_last_am2302_rh (send_bundle s) = sn_last_am2302_rh s" "sn_last_am2302_temp (send_bundle s) = sn_last_am2302_temp s"
  "sn_last_trigger_ms (send_bundle s) = sn_last_trigger_ms s" "sn_cfg (send_bundle s) = sn_cfg s"
  "sn_started (send_bundle s) = sn_started s"
  by (simp_all add: send_bundle_def Let_def split: prod.split)

lemma send_bundle_empty [simp]: "sn_bundle_count s = 0 \<Longrightarrow> send_bundle s = s"
  by (simp add: send_bundle_def)

lemma sensors_ds18b20_same [simp]:
  "sn_last_am2302_rh (sensors_ds18b20 b i now s) = sn_last_am2302_rh s"
  "sn_last_am2302_temp (sensors_ds18b20 b i now s) = sn_last_am2302_temp s"
  "sn_last_trigger_ms (sensors_ds18b20 b i now s) = sn_last_trigger_ms s" "sn_cfg (sensors_ds18b20 b i now s) = sn_cfg s"
  "sn_started (sensors_ds18b20 b i now s) = sn_started s"
  "\<not> sb_ds18b20 b \<Longrightarrow> sensors_ds18b20 b i now s = s"
  by (simp_all add: sensors_ds18b20_def ds18b20_read_celsius_x100_def Let_def)

lemma trigger_same [simp]:
  "sn_last_am2302_rh (trigger_vbat b i s) = sn_last_am2302_rh s" "sn_last_am2302_temp (trigger_vbat b i s) = sn_last_am2302_temp s"
  "sn_last_am2302_rh (trigger_ds18b20 b i now s) = sn_last_am2302_rh s"
  "sn_last_am2302_temp (trigger_ds18b20 b i now s) = sn_last_am2302_temp s"
  by (simp_all add: trigger_vbat_def trigger_ds18b20_def Let_def split: prod.split)

text \<open>A check that had to look at the AM2302 leaves it in a state that refuses the read of the trigger.\<close>

lemma sensors_check_delta:
  assumes "now - sn_last_trigger_ms s < sc_tx_ms (sn_cfg s)" "now \<noteq> 0" "sensors_check b i now s = (trigger, s1)"
  shows "(trigger \<longrightarrow> sb_am2302 b \<longrightarrow> am2302_tick l now (sn_am s1) = (False, sn_am s1)) \<and> (\<exists>am. s1 = s\<lparr>sn_am := am\<rparr>)"
proof -
  have late: "(now - sn_last_trigger_ms s \<ge> sc_tx_ms (sn_cfg s)) = False" using assms(1) by simp
  show ?thesis
  proof (cases "now - sn_last_trigger_ms s \<ge> sc_min_delta_ms (sn_cfg s)")
    case True
    obtain t2 s2 where d: "am2302_delta b i now s = (t2, s2)" by fastforce
    have s1: "s1 = s2" using assms(3) True unfolding sensors_check_def Let_def late if_False d by simp
    obtain ok am where a: "am2302_tick (in_am_delta i) now (sn_am s) = (ok, am)" by fastforce
    have "sb_am2302 b \<Longrightarrow> s2 = s\<lparr>sn_am := am\<rparr>" "\<not> sb_am2302 b \<Longrightarrow> s2 = s\<lparr>sn_am := sn_am s\<rparr>"
      using d a by (simp_all add: am2302_delta_def)
    moreover have "am2302_tick l now am = (False, am)" by (rule am2302_tick_again [OF assms(2) a])
    ultimately show ?thesis unfolding s1 by (cases "sb_am2302 b") (auto intro: exI [of _ "sn_am s"])
  next
    case False
    then have "s1 = s" "\<not> trigger" using assms(3) unfolding sensors_check_def Let_def late if_False by auto
    then show ?thesis by (auto intro: exI [of _ "sn_am s"])
  qed
qed

text \<open>before the heartbeat is due, no tick takes a reading of the AM2302 into a bundle: the read that noticed the change makes the
  read of the trigger fail, in the same millisecond. The values that the next change is measured against stay, so
  the trigger repeats, and a node with no other sensor sends nothing.\<close>

theorem am2302_change_never_sent:
  assumes "sn_started s" "now - sn_last_trigger_ms s < sc_tx_ms (sn_cfg s)" "now \<noteq> 0"
  shows "sn_last_am2302_rh (sensors_tick b i now node_id net_id s) = sn_last_am2302_rh s \<and>
    sn_last_am2302_temp (sensors_tick b i now node_id net_id s) = sn_last_am2302_temp s \<and>
    sensors_tick b (i\<lparr>in_am_read := l\<rparr>) now node_id net_id s = sensors_tick b i now node_id net_id s \<and>
    (\<not> sb_ds18b20 b \<and> \<not> sb_has_vbat b \<longrightarrow> sn_injected (sensors_tick b i now node_id net_id s) = sn_injected s)"
proof -
  obtain trigger s1 where c: "sensors_check b i now s = (trigger, s1)" by fastforce
  have c': "sensors_check b (i\<lparr>in_am_read := l\<rparr>) now s = (trigger, s1)"
  proof -
    have "am2302_delta b (i\<lparr>in_am_read := l\<rparr>) now s = am2302_delta b i now s"
      "\<And>s. vbat_delta b (i\<lparr>in_am_read := l\<rparr>) s = vbat_delta b i s"
      by (simp_all add: am2302_delta_def vbat_delta_def)
    note eqs = this
    show ?thesis using c unfolding sensors_check_def eqs .
  qed
  note d = sensors_check_delta [OF assms(2,3) c]
  obtain am where s1: "s1 = s\<lparr>sn_am := am\<rparr>" using d by blast
  define z where "z = s1\<lparr>sn_last_trigger_ms := now, sn_bundle_count := 0, sn_bundle_ts_s := now div 1000,
    sn_bundle_node_id := node_id, sn_bundle_net_id := net_id, sn_ds18b20_pending := False\<rparr>"
  have am: "trigger \<Longrightarrow> trigger_am2302 b j now z = z" for j
    using d by (auto simp: trigger_am2302_def z_def)
  have tv: "\<And>s. trigger_vbat b (i\<lparr>in_am_read := l\<rparr>) s = trigger_vbat b i s"
    "\<And>s. trigger_ds18b20 b (i\<lparr>in_am_read := l\<rparr>) now s = trigger_ds18b20 b i now s"
    "\<And>s. sensors_ds18b20 b (i\<lparr>in_am_read := l\<rparr>) now s = sensors_ds18b20 b i now s"
    by (simp_all add: trigger_vbat_def trigger_ds18b20_def sensors_ds18b20_def)
  have z: "sn_last_am2302_rh z = sn_last_am2302_rh s" "sn_last_am2302_temp z = sn_last_am2302_temp s"
    "sn_injected z = sn_injected s" "sn_bundle_count z = 0" by (simp_all add: z_def s1)
  have none: "\<not> sb_has_vbat b \<Longrightarrow> trigger_vbat b i z = z" by (simp add: trigger_vbat_def)
  have none2: "\<not> sb_ds18b20 b \<Longrightarrow> trigger_ds18b20 b i now z = z" using z by (simp add: trigger_ds18b20_def)
  define tail where "tail = (if trigger then trigger_ds18b20 b i now (trigger_vbat b i z) else s1)"
  have tick: "sensors_tick b j now node_id net_id s =
      (if \<not> sb_ds18b20 b \<and> \<not> sb_am2302 b \<and> \<not> sb_has_vbat b then s else sensors_ds18b20 b i now tail)"
    if "sensors_check b j now s = (trigger, s1)" "\<And>s. trigger_vbat b j s = trigger_vbat b i s"
      "\<And>s. trigger_ds18b20 b j now s = trigger_ds18b20 b i now s" "\<And>s. sensors_ds18b20 b j now s = sensors_ds18b20 b i now s" for j
  proof -
    have "trigger \<Longrightarrow> sensors_trigger b j now node_id net_id s1 = trigger_ds18b20 b i now (trigger_vbat b i z)"
      unfolding sensors_trigger_def z_def [symmetric] by (simp only: am that)
    then show ?thesis using assms(1) by (simp add: sensors_tick_def Let_def that tail_def)
  qed
  have tail: "sn_last_am2302_rh tail = sn_last_am2302_rh s" "sn_last_am2302_temp tail = sn_last_am2302_temp s"
    "\<not> sb_ds18b20 b \<Longrightarrow> \<not> sb_has_vbat b \<Longrightarrow> sn_injected tail = sn_injected s"
    using z none none2 by (simp_all add: tail_def s1)
  show ?thesis using tail by (simp add: tick [OF c] tick [OF c' tv])
qed

section \<open>How often a bundle leaves\<close>

text \<open>Bundles sent, and the one that waits for the thermometer.\<close>

definition bundles :: "sensors_t \<Rightarrow> nat" where
  "bundles s = length (sn_injected s) + (if sn_ds18b20_pending s then 1 else 0)"

lemma send_bundle_count:
  "sn_ds18b20_pending s \<Longrightarrow> bundles (send_bundle s) \<le> bundles s" "bundles (send_bundle s) \<le> bundles s + 1"
  by (auto simp: bundles_def send_bundle_def Let_def split: prod.split)

lemma bundles_same [simp]:
  "bundles (bundle_append i v u s) = bundles s" "bundles (s\<lparr>sn_ds := ds\<rparr>) = bundles s"
  "bundles (s\<lparr>sn_last_ds18b20 := x\<rparr>) = bundles s" "bundles (s\<lparr>sn_am := am\<rparr>) = bundles s"
  by (simp_all add: bundles_def)

lemma sensors_ds18b20_bundles: "bundles (sensors_ds18b20 b i now s) \<le> bundles s"
proof -
  define s1 where "s1 = s\<lparr>sn_ds := ds18b20_tick (in_ow_read i) (in_scratch i) now (sn_ds s)\<rparr>"
  have s1: "bundles s1 = bundles s" "sn_ds18b20_pending s1 = sn_ds18b20_pending s" by (simp_all add: s1_def)
  define s2 where "s2 = (bundle_append SENSOR_ID_DS18B20_TEMP (ds_celsius_x100 (sn_ds s1)) UNIT_CELSIUS
    (s1\<lparr>sn_ds := sn_ds s1\<lparr>ds_state := DS18B20_STATE_IDLE\<rparr>\<rparr>))\<lparr>sn_last_ds18b20 := ds_celsius_x100 (sn_ds s1)\<rparr>"
  have s2: "bundles s2 = bundles s" "sn_ds18b20_pending s2 = sn_ds18b20_pending s" using s1 by (simp_all add: s2_def)
  show ?thesis using send_bundle_count(1) [of s1] send_bundle_count(1) [of s2] s1 s2
    by (simp add: sensors_ds18b20_def s1_def [symmetric] s2_def [symmetric] ds18b20_read_celsius_x100_def)
qed

lemma sensors_trigger_bundles:
  "bundles (sensors_trigger b i now node_id net_id s) \<le> length (sn_injected s) + 1 \<and>
   sn_last_trigger_ms (sensors_trigger b i now node_id net_id s) = now \<and>
   sn_cfg (sensors_trigger b i now node_id net_id s) = sn_cfg s \<and> sn_started (sensors_trigger b i now node_id net_id s) = sn_started s"
proof -
  define z where "z = s\<lparr>sn_last_trigger_ms := now, sn_bundle_count := 0, sn_bundle_ts_s := now div 1000,
    sn_bundle_node_id := node_id, sn_bundle_net_id := net_id, sn_ds18b20_pending := False\<rparr>"
  define w where "w = trigger_vbat b i (trigger_am2302 b i now z)"
  have w: "sn_injected w = sn_injected s" "\<not> sn_ds18b20_pending w" "sn_last_trigger_ms w = now" "sn_cfg w = sn_cfg s"
    "sn_started w = sn_started s"
    by (simp_all add: w_def z_def trigger_vbat_def trigger_am2302_def Let_def split: prod.split)
  then have "bundles w = length (sn_injected s)" by (simp add: bundles_def)
  moreover have "bundles (send_bundle (w\<lparr>sn_ds := ds, sn_ds18b20_pending := False\<rparr>)) \<le> length (sn_injected s) + 1" for ds
    using send_bundle_count(2) [of "w\<lparr>sn_ds := ds, sn_ds18b20_pending := False\<rparr>"] w by (simp add: bundles_def)
  moreover have "bundles (w\<lparr>sn_ds := ds, sn_ds18b20_pending := True\<rparr>) \<le> length (sn_injected s) + 1" for ds
    using w by (simp add: bundles_def)
  ultimately show ?thesis using w send_bundle_count(2) [of w]
    unfolding sensors_trigger_def z_def [symmetric] w_def [symmetric] by (simp add: trigger_ds18b20_def split: prod.split)
qed

lemma sensors_check_same:
  assumes "sensors_check b i now s = (trigger, s1)"
  shows "\<exists>am. s1 = s\<lparr>sn_am := am\<rparr>"
    and "trigger \<Longrightarrow> now - sn_last_trigger_ms s \<ge> sc_tx_ms (sn_cfg s) \<or> now - sn_last_trigger_ms s \<ge> sc_min_delta_ms (sn_cfg s)"
proof -
  have "\<exists>am. snd (am2302_delta b i now s) = s\<lparr>sn_am := am\<rparr>"
    by (auto simp: am2302_delta_def split: prod.split intro: exI [of _ "sn_am s"])
  moreover have "\<exists>am. s = s\<lparr>sn_am := am\<rparr>" by (rule exI [of _ "sn_am s"]) simp
  ultimately show "\<exists>am. s1 = s\<lparr>sn_am := am\<rparr>"
    using assms by (auto simp: sensors_check_def Let_def split: if_splits prod.splits)
qed (use assms in \<open>auto simp: sensors_check_def Let_def split: if_splits\<close>)

definition paced :: "sensors_config_t \<Rightarrow> bool" where
  "paced c \<longleftrightarrow> sc_tx_ms c \<ge> 1000 \<and> sc_min_delta_ms c \<ge> 1000"

lemma paced_configs:
  "paced sensors_defaults" "paced (sensors_set_config cfg c)" "paced c \<Longrightarrow> paced (sensors_nvs_load nvs c)"
  by (auto simp: paced_def sensors_defaults_def sensors_set_config_def sensors_nvs_load_def at_least_def
      intro: order_trans [of _ "5000 :: u32"] split: option.split)

lemma sensors_tick_paced:
  assumes "sn_started s" "paced (sn_cfg s)" "sn_last_trigger_ms s = of_nat l" "l \<le> t" "s' = sensors_tick b i (of_nat t) node_id net_id s"
  shows "sn_started s' \<and> sn_cfg s' = sn_cfg s \<and>
    (\<exists>l'. sn_last_trigger_ms s' = of_nat l' \<and> l \<le> l' \<and> l' \<le> t \<and> 1000 * bundles s' + l \<le> 1000 * bundles s + l')"
proof (cases "\<not> sb_ds18b20 b \<and> \<not> sb_am2302 b \<and> \<not> sb_has_vbat b")
  case True
  with assms show ?thesis by (auto simp: sensors_tick_def intro!: exI [of _ l])
next
  case False
  obtain trigger s1 where c: "sensors_check b i (of_nat t) s = (trigger, s1)" by fastforce
  obtain am where s1: "s1 = s\<lparr>sn_am := am\<rparr>" using sensors_check_same(1) [OF c] by blast
  have s': "s' = sensors_ds18b20 b i (of_nat t) (if trigger then sensors_trigger b i (of_nat t) node_id net_id s1 else s1)"
  proof -
    have "(\<not> sb_ds18b20 b \<and> \<not> sb_am2302 b \<and> \<not> sb_has_vbat b) = False" using False by simp
    note nf = this
    show ?thesis using assms(1) unfolding assms(5) sensors_tick_def nf if_False Let_def by (simp add: c)
  qed
  show ?thesis
  proof (cases trigger)
    case True
    have "(1000 :: u32) \<le> of_nat t - of_nat l" using sensors_check_same(2) [OF c True] assms(2,3) by (auto simp: paced_def)
    also have "of_nat t - of_nat l = (of_nat (t - l) :: u32)" using assms(4) by (simp add: of_nat_diff)
    finally have "1000 \<le> unat (of_nat (t - l) :: u32)" by (simp add: word_le_nat_alt)
    also have "unat (of_nat (t - l) :: u32) \<le> t - l" by (simp only: unat_of_nat) simp
    finally have gap: "1000 + l \<le> t" using assms(4) by simp
    note tr = sensors_trigger_bundles [of b i "of_nat t" node_id net_id s1]
    have "bundles s' \<le> length (sn_injected s) + 1"
      using sensors_ds18b20_bundles [of b i "of_nat t" "sensors_trigger b i (of_nat t) node_id net_id s1"] tr True by (simp add: s' s1)
    then show ?thesis using gap tr True assms(1,4) by (auto simp: s' s1 bundles_def intro!: exI [of _ t])
  next
    case False
    then show ?thesis using sensors_ds18b20_bundles [of b i "of_nat t" s1] assms(1-4) by (auto simp: s' s1 intro!: exI [of _ l])
  qed
qed

fun sensors_run :: "sensor_build_t \<Rightarrow> u32 \<Rightarrow> u16 \<Rightarrow> (sensor_in \<times> nat) list \<Rightarrow> sensors_t \<Rightarrow> sensors_t" where
  "sensors_run b node_id net_id [] s = s"
| "sensors_run b node_id net_id ((i, t) # is) s =
     sensors_run b node_id net_id is (sensors_tick b i (of_nat t) node_id net_id s)"

lemma sensors_run_paced:
  assumes "sorted (map snd is)" "\<forall>x \<in> set is. l \<le> snd x \<and> snd x \<le> T" "l \<le> T"
    and "sn_started s" "paced (sn_cfg s)" "sn_last_trigger_ms s = of_nat l"
  shows "1000 * bundles (sensors_run b node_id net_id is s) + l \<le> 1000 * bundles s + T"
  using assms
proof (induction "is" arbitrary: s l)
  case (Cons x xs)
  obtain i t where x: "x = (i, t)" by fastforce
  define s' where "s' = sensors_tick b i (of_nat t) node_id net_id s"
  have lt: "l \<le> t" "t \<le> T" using Cons.prems(2) x by simp_all
  obtain l' where l': "sn_started s'" "sn_cfg s' = sn_cfg s" "sn_last_trigger_ms s' = of_nat l'" "l' \<le> t"
    "1000 * bundles s' + l \<le> 1000 * bundles s + l'"
    using sensors_tick_paced [OF Cons.prems(4-6) lt(1) s'_def] by blast
  have "1000 * bundles (sensors_run b node_id net_id xs s') + l' \<le> 1000 * bundles s' + T"
    by (rule Cons.IH) (use Cons.prems l' lt x in auto)
  then show ?case using l'(5) by (simp add: x s'_def [symmetric])
qed simp

text \<open>Whatever is configured and whatever the hardware answers, at most one bundle per second is handed over, plus one
  that waited for the thermometer.\<close>

theorem sensor_rate_bounded:
  assumes "sorted (map snd is)" "\<forall>x \<in> set is. t0 \<le> snd x \<and> snd x \<le> t0 + T"
    and "sn_started s" "sn_cfg s = sensors_set_config cfg c" "sn_last_trigger_ms s = of_nat t0"
  shows "length (sn_injected (sensors_run b node_id net_id is s)) \<le>
    length (sn_injected s) + (if sn_ds18b20_pending s then 1 else 0) + T div 1000"
proof -
  have "1000 * bundles (sensors_run b node_id net_id is s) \<le> 1000 * bundles s + T"
    using sensors_run_paced [of "is" t0 "t0 + T" s b node_id net_id] assms paced_configs(2) by simp
  then have "bundles (sensors_run b node_id net_id is s) \<le> bundles s + T div 1000" by simp
  then show ?thesis by (simp add: bundles_def)
qed

section \<open>A bundle read by its receiver\<close>

definition bundle_holds :: "sensors_t \<Rightarrow> (u16 \<times> u32 \<times> u8) list \<Rightarrow> bool" where
  "bundle_holds s rs \<longleftrightarrow> length (sn_bundle_buf s) = 44 \<and> unat (sn_bundle_count s) = length rs \<and> length rs \<le> 4 \<and>
     take (length rs * 11) (sn_bundle_buf s) = concat (map (\<lambda>(i, v, u). reading_bytes (sn_bundle_ts_s s) i v u) rs)"

lemma reading_bytes_length [simp]: "length (reading_bytes ts i v u) = 11"
  by (simp add: reading_bytes_def put_u16_def put_u32_def)

lemma reading_event:
  "telemetry_reading src (reading_bytes ts i v u @ rest) = Svc_Telemetry src i v u ts"
  by (simp add: telemetry_reading_def reading_bytes_def put_u16_def put_u32_def wire_simps)

lemma concat_readings_length: "length (concat (map (\<lambda>(i, v, u). reading_bytes ts i v u) rs)) = length rs * 11"
  by (induction rs) auto

lemma bundle_append_holds:
  assumes "bundle_holds s rs" "length rs < 4" shows "bundle_holds (bundle_append i v u s) (rs @ [(i, v, u)])"
proof -
  have "\<not> sn_bundle_count s \<ge> SENSOR_MAX_READINGS" "unat (sn_bundle_count s + 1) = length rs + 1"
    using assms by (simp_all add: bundle_holds_def word_le_nat_alt unat_word_ariths)
  with assms show ?thesis by (simp add: bundle_holds_def bundle_append_def concat_readings_length)
qed

lemma map_readings:
  "map (\<lambda>k. telemetry_reading src (drop (k * 11) (concat (map (\<lambda>(i, v, u). reading_bytes ts i v u) rs)))) [0..<length rs] =
   map (\<lambda>(i, v, u). Svc_Telemetry src i v u ts) rs"
proof (induction rs)
  case (Cons r rs)
  obtain i v u where r: "r = (i, v, u)" by (metis prod_cases3)
  have "[0..<length (r # rs)] = 0 # map Suc [0..<length rs]" by (simp only: list.size map_Suc_upt add_Suc_right add_0_right upt_conv_Cons [OF zero_less_Suc])
  then show ?case using Cons.IH by (simp add: r reading_event comp_def del: upt_Suc)
qed simp

lemma bundle_holds_sent:
  assumes "bundle_holds s rs" "rs \<noteq> []"
  shows "\<exists>frame h p. sn_injected (send_bundle s) = sn_injected s @ [(ucast (sn_bundle_ts_s s) * 1000, frame)] \<and>
    protocol_decode m frame (of_nat (length frame)) = (m, Some (h, Some p)) \<and> h_src_id h = sn_bundle_node_id s \<and>
    handle_telemetry_publish h p (h_payload_len h) =
      map (\<lambda>(i, v, u). Svc_Telemetry (sn_bundle_node_id s) i v u (sn_bundle_ts_s s)) rs"
proof -
  define n where "n = length rs"
  have n: "1 \<le> n" "n \<le> 4" "unat (sn_bundle_count s) = n" "length (sn_bundle_buf s) = 44"
    using assms by (simp_all add: bundle_holds_def n_def Suc_le_eq)
  define c where "c = sn_bundle_count s"
  define p where "p = concat (map (\<lambda>(i, v, u). reading_bytes (sn_bundle_ts_s s) i v u) rs)"
  have p: "length p = n * 11" "take (n * 11) (sn_bundle_buf s) = p"
    using assms(1) concat_readings_length [of "sn_bundle_ts_s s" rs] by (simp_all add: p_def n_def bundle_holds_def)
  have ne: "p \<noteq> []" using p(1) n(1) by auto
  have len: "unat (c * 11) = n * 11" using n by (simp add: c_def unat_word_ariths)
  define s1 where "s1 = s\<lparr>sn_ctrl_seq := sn_ctrl_seq s + 1\<rparr>"
  define h where "h = (bundle_hdr s1)\<lparr>h_magic := RIVR_MAGIC, h_version := RIVR_PROTO_VER, h_payload_len := of_nat (length p)\<rparr>"
  have "protocol_encode (bundle_hdr s1) (Some (sn_bundle_buf s)) (c * 11) (replicate 69 0) 69 =
      protocol_encode (bundle_hdr s1) (Some p) (c * 11) (replicate 69 0) 69"
  proof -
    have "take (n * 11) p = p" using p(1) by simp
    note whole = this
    show ?thesis unfolding protocol_encode_def len option.case p(2) whole ..
  qed
  also have "\<dots> = (25 + int (length p), frame_of (bundle_hdr s1) p @ drop (25 + length p) (replicate 69 0))"
    by (rule protocol_encode_frame) (use p(1) n(2) len in simp_all)
  finally have enc: "protocol_encode (bundle_hdr s1) (Some (sn_bundle_buf s)) (c * 11) (replicate 69 0) 69 =
      (25 + int (length p), frame_of (bundle_hdr s1) p @ drop (25 + length p) (replicate 69 0))" .
  have nz: "sn_bundle_count s \<noteq> 0" using n by auto
  have inj: "sn_injected (send_bundle s) = sn_injected s @ [(ucast (sn_bundle_ts_s s) * 1000, frame_of (bundle_hdr s1) p)]"
    using nz enc by (simp add: send_bundle_def Let_def s1_def c_def nat_add_distrib)
  have "unat (of_nat (25 + length p) :: u8) = 25 + length p" using p(1) n(2) by (simp only: unat_of_nat) simp
  then have dec: "protocol_decode m (frame_of (bundle_hdr s1) p) (of_nat (length (frame_of (bundle_hdr s1) p))) = (m, Some (h, Some p))"
    using frame_of_decodes [of p "bundle_hdr s1" "of_nat (25 + length p)" m "[]"] p(1) n(2) ne
    by (simp add: h_def bundle_hdr_def Let_def)
  have h: "h_src_id h = sn_bundle_node_id s" "h_payload_len h = of_nat (n * 11)"
    by (simp_all add: h_def bundle_hdr_def s1_def Let_def p(1))
  have "unat (of_nat (n * 11) :: u8) = n * 11" using n(2) by (simp only: unat_of_nat) simp
  then have "handle_telemetry_publish h p (h_payload_len h) =
      map (\<lambda>k. telemetry_reading (sn_bundle_node_id s) (drop (k * 11) p)) [0..<length rs]"
    using n(1) by (simp add: handle_telemetry_publish_def h unat_div_distrib n_def word_less_nat_alt)
  then show ?thesis using inj dec h(1) map_readings [of "sn_bundle_node_id s" "sn_bundle_ts_s s" rs, folded p_def]
    by (intro exI [of _ "frame_of (bundle_hdr s1) p"] exI [of _ h] exI [of _ p]) simp
qed

section \<open>Instances\<close>

definition demo_board :: sensor_build_t where
  "demo_board = \<lparr>sb_ds18b20 = False, sb_am2302 = True, sb_has_vbat = False, sb_vbat = \<lparr>vb_num = 2, vb_den = 1, vb_cali = None\<rparr>\<rparr>"

text \<open>41.2 per cent and 21.5 degrees.\<close>

definition demo_air :: sensor_in where
  "demo_air = \<lparr>in_am_delta = Some [116, 215, 0, 156, 1], in_vbat_delta = None, in_am_read = Some [116, 215, 0, 156, 1],
     in_vbat_read = None, in_ow_start = False, in_ow_start_again = False, in_ow_read = False, in_scratch = []\<rparr>"

text \<open>A node that sent 30.0 per cent and 20.0 degrees at the start.\<close>

definition demo_sensors :: sensors_t where
  "demo_sensors = (sensors_boot 7)\<lparr>sn_started := True, sn_last_trigger_ms := 1000, sn_last_am2302_rh := 3000,
     sn_last_am2302_temp := 2000, sn_cfg := sensors_set_config sensors_defaults sensors_defaults\<rparr>"

lemma am2302_change_never_sent_witness:
  "sn_last_trigger_ms (sensors_tick demo_board demo_air 31000 9 1 demo_sensors) = 31000 \<and>
   sn_injected (sensors_tick demo_board demo_air 31000 9 1 demo_sensors) = []"
  using am2302_change_never_sent [of demo_sensors 31000 demo_board demo_air 9 1 None]
  by (simp add: demo_sensors_def sensors_boot_def sensors_set_config_def sensors_defaults_def demo_board_def
      sensors_tick_def sensors_check_def am2302_delta_def am2302_tick_def am2302_init_def demo_air_def am2302_decode_def
      am2302_get_rh_x100_def am2302_get_temp_x100_def moved_def abs_diff_def get_u16_def sensors_trigger_def
      trigger_ds18b20_def trigger_vbat_def trigger_am2302_def)

lemma sensor_rate_bounded_witness:
  "length (sn_injected (sensors_run demo_board 9 1 [(demo_air, 301000), (demo_air, 601000)] demo_sensors)) \<le> 600"
  using sensor_rate_bounded [of "[(demo_air, 301000), (demo_air, 601000)]" 1000 600000 demo_sensors sensors_defaults sensors_defaults
      demo_board 9 1]
  by (simp add: demo_sensors_def sensors_boot_def)

definition demo_empty_bundle :: sensors_t where
  "demo_empty_bundle = (sensors_boot 7)\<lparr>sn_bundle_ts_s := 301, sn_bundle_node_id := 9, sn_bundle_net_id := 1\<rparr>"

definition demo_bundle :: sensors_t where
  "demo_bundle = bundle_append SENSOR_ID_AM2302_TEMP 2150 UNIT_CELSIUS
     (bundle_append SENSOR_ID_AM2302_RH 4120 UNIT_PERCENT_RH demo_empty_bundle)"

lemma bundle_appends_hold:
  "bundle_holds s qs \<Longrightarrow> length (qs @ rs) \<le> 4 \<Longrightarrow> bundle_holds (fold (\<lambda>(i, v, u). bundle_append i v u) rs s) (qs @ rs)"
proof (induction rs arbitrary: s qs)
  case (Cons r rs)
  obtain i v u where r: "r = (i, v, u)" by (metis prod_cases3)
  have "bundle_holds (bundle_append i v u s) (qs @ [(i, v, u)])" using Cons.prems by (intro bundle_append_holds) simp_all
  from Cons.IH [OF this] Cons.prems(2) show ?case by (simp add: r)
qed simp

lemma bundle_appends_same [simp]:
  "sn_injected (fold (\<lambda>(i, v, u). bundle_append i v u) rs s) = sn_injected s"
  "sn_bundle_ts_s (fold (\<lambda>(i, v, u). bundle_append i v u) rs s) = sn_bundle_ts_s s"
  "sn_bundle_node_id (fold (\<lambda>(i, v, u). bundle_append i v u) rs s) = sn_bundle_node_id s"
  by (induction rs arbitrary: s) (auto simp: bundle_append_def)

text \<open>C39: Sensor readings survive their packing. Put one to four readings (identity, value and unit each) into an empty
  bundle and send it: one frame is injected into the engine's telemetry pipeline, stamped with the second of the trigger in
  milliseconds, and a receiver that decodes it and publishes its telemetry reports exactly these readings in order, each with the
  identity of the sender and the second of the trigger. The bundle's buffer has its 44 bytes; a fifth
  reading would be dropped.\<close>

theorem sensor_bundle_roundtrip:
  assumes empty: "sn_bundle_count s = 0" "length (sn_bundle_buf s) = 44" and rs: "rs \<noteq> []" "length rs \<le> 4"
  shows "\<exists>frame h p. sn_injected (send_bundle (fold (\<lambda>(i, v, u). bundle_append i v u) rs s)) =
      sn_injected s @ [(ucast (sn_bundle_ts_s s) * 1000, frame)] \<and>
    protocol_decode m frame (of_nat (length frame)) = (m, Some (h, Some p)) \<and> h_src_id h = sn_bundle_node_id s \<and>
    handle_telemetry_publish h p (h_payload_len h) =
      map (\<lambda>(i, v, u). Svc_Telemetry (sn_bundle_node_id s) i v u (sn_bundle_ts_s s)) rs"
proof -
  have "bundle_holds (fold (\<lambda>(i, v, u). bundle_append i v u) rs s) ([] @ rs)"
    by (rule bundle_appends_hold) (simp_all add: bundle_holds_def empty rs(2))
  with bundle_holds_sent [of "fold (\<lambda>(i, v, u). bundle_append i v u) rs s" rs m] rs(1) show ?thesis by simp
qed

text \<open>A humidity and a temperature, sent by node 9 at second 301.\<close>

lemma sensor_bundle_roundtrip_witness:
  "\<exists>frame h p. sn_injected (send_bundle demo_bundle) = [(301000, frame)] \<and>
    protocol_decode metrics_zero frame (of_nat (length frame)) = (metrics_zero, Some (h, Some p)) \<and>
    handle_telemetry_publish h p (h_payload_len h) = [Svc_Telemetry 9 2 4120 2 301, Svc_Telemetry 9 3 2150 1 301]"
  using sensor_bundle_roundtrip [of demo_empty_bundle "[(2, 4120, 2), (3, 2150, 1)]" metrics_zero]
  by (auto simp: demo_bundle_def demo_empty_bundle_def sensors_boot_def)

end
