(* ===== verification/Rivr_Node.thy ===== *)
theory Rivr_Node
  imports Rivr_TxDrain Rivr_Control Rivr_RoutingNbr Rivr_RetryTable Rivr_PendingQueue Rivr_Bus Rivr_Policy Rivr_Beacon
    Rivr_FwdSet Rivr_Svc Rivr_Params
begin

unbundle bit_operations_syntax

text \<open>
  The state of a whole node: the globals that rivr_embed.c, rivr_sources.c, rivr_sinks.c and main.c
  share. The transmit side of Rivr_TxDrain is extended by the tables of the other components, so
  that one record is threaded through the receive pipeline, the sinks and the transmit drain. What a
  node shows to the outside besides its transmit queue (the lines of the service handlers, the
  events handed to the Rivr engine, the pushes to the companion app) is recorded in a list.
\<close>

datatype node_output =
    Out_Service svc_event
  | Out_Inject u32 "u8 list"
  | Out_Companion u32 "u8 list" u8 u8 u8 u8 u8 u32 u32
  | Out_Beacon_Line u32 "u8 list" u16 u8 u8 u8 u8 "(u32 \<times> u32) option"
  | Out_Timer "u8 list" u32

abbreviation "RIVR_TIMER_MAX \<equiv> (8 :: u8)"

record rivr_timer_entry_t =
  tm_name :: "u8 list"
  tm_interval_ms :: u32
  tm_last_fire_ms :: u32
  tm_active :: bool

record node_t = tx_side_t +
  nd_rx_ring :: "rf_rx_frame_t rb_t"
  nd_timers :: "rivr_timer_entry_t list"
  nd_timer_count :: u8
  nd_retry :: retry_table_t
  nd_pending :: pending_queue_t
  nd_routes :: route_cache_t
  nd_ntable :: rivr_neighbor_table_t
  nd_nbrs :: neighbor_table_t
  nd_dedupe :: dedupe_cache_t
  nd_budget :: forward_budget_t
  nd_bus :: rivr_bus_dup_cache_t
  nd_mirrored :: "(rivr_iface_t \<times> u8 list) list"
  nd_flood :: policy_state_t
  nd_mailbox :: mailbox_store_t
  nd_params :: rivr_policy_t
  nd_beacon :: beacon_sched_t
  nd_ctrl_seq :: u32
  nd_lmp_tick :: u32
  nd_rx_frame_count :: u32
  nd_tx_frame_count :: u32
  nd_last_rssi_dbm :: u16
  nd_last_snr_db :: u8
  nd_stored_program :: "u8 list"
  nd_reload_pending :: bool
  nd_out :: "node_output list"

text \<open>What is fixed for a node: its build, its identity, its position, its transports and
  whether its flash accepts a program.\<close>

record node_cfg =
  nc_build :: build_t
  nc_params :: params_build_t
  nc_ulong_bits :: nat
  nc_my_id :: u32
  nc_net_id :: u16
  nc_callsign :: "u8 list"
  nc_lat_e7 :: u32
  nc_lon_e7 :: u32
  nc_bus :: bus_env
  nc_nvs_store :: "u8 list \<Rightarrow> bool"

abbreviation nc_role :: "node_cfg \<Rightarrow> rivr_role" where
  "nc_role cfg \<equiv> b_role (nc_build cfg)"

definition node_toa :: "node_cfg \<Rightarrow> u8 \<Rightarrow> u32" where
  "node_toa cfg len = RF_TOA_APPROX_US (be_t_sym_us (nc_bus cfg)) len"

section \<open>Pieces that the handlers share\<close>

definition node_count :: "rivr_metric \<Rightarrow> node_t \<Rightarrow> node_t" where
  "node_count k n = n\<lparr>ts_metrics := bump k (ts_metrics n)\<rparr>"

definition node_push :: "rf_tx_request_t \<Rightarrow> node_t \<Rightarrow> bool \<times> node_t" where
  "node_push r n = (case rb_try_push r (ts_queue n) of (ok, q) \<Rightarrow> (ok, n\<lparr>ts_queue := q\<rparr>))"

definition UPDATE_TXQ_PEAK :: "node_t \<Rightarrow> node_t" where
  "UPDATE_TXQ_PEAK n = n\<lparr>ts_metrics := raise_peak tx_queue_peak (rb_available (ts_queue n)) (ts_metrics n)\<rparr>"

definition next_ctrl_seq :: "node_t \<Rightarrow> node_t" where
  "next_ctrl_seq n = n\<lparr>nd_ctrl_seq := nd_ctrl_seq n + 1\<rparr>"

definition node_decode :: "u8 list \<Rightarrow> u8 \<Rightarrow> node_t \<Rightarrow> (rivr_pkt_hdr_t \<times> u8 list option) option \<times> node_t" where
  "node_decode data len n =
     (case protocol_decode (ts_metrics n) data len of (m, r) \<Rightarrow> (r, n\<lparr>ts_metrics := m\<rparr>))"

definition tb_lmp_advance :: "u32 \<Rightarrow> node_t \<Rightarrow> u32 \<times> node_t" where
  "tb_lmp_advance sender n =
     (let desired = (if sender > nd_lmp_tick n then sender else nd_lmp_tick n) + 1
      in (desired, n\<lparr>nd_lmp_tick := desired\<rparr>))"

text \<open>The drain of Rivr_TxDrain on the transmit side of a node.\<close>

definition node_tx_drain :: "node_cfg \<Rightarrow> tx_radio \<Rightarrow> u32 \<Rightarrow> node_t \<Rightarrow> tx_outcome list \<times> node_t" where
  "node_tx_drain cfg radio now n =
     (case tx_drain_loop (nc_build cfg) radio now (tx_side_t.truncate n) of
        (xs, s) \<Rightarrow> (xs, tx_side_t.extend s (tx_side_t.more n)))"

section \<open>Encoded frames are well formed\<close>

text \<open>A header and a payload as the decoder returns them.\<close>

definition decoded :: "rivr_pkt_hdr_t \<Rightarrow> u8 list option \<Rightarrow> bool" where
  "decoded h plo \<longleftrightarrow> 1 \<le> h_pkt_type h \<and> h_pkt_type h \<le> PKT_METRICS \<and> unat (h_payload_len h) \<le> 230 \<and>
     (case plo of None \<Rightarrow> h_payload_len h = 0 | Some p \<Rightarrow> length p = unat (h_payload_len h) \<and> p \<noteq> [])"

abbreviation payload_of :: "u8 list option \<Rightarrow> u8 list" where
  "payload_of plo \<equiv> (case plo of None \<Rightarrow> [] | Some p \<Rightarrow> p)"

lemma decoded_length: "decoded h plo \<Longrightarrow> length (payload_of plo) = unat (h_payload_len h)"
  by (auto simp: decoded_def split: option.splits)

lemma decode_decoded:
  assumes "protocol_decode m buf len = (m', Some (h, plo))" "unat len \<le> length buf"
  shows "decoded h plo \<and> wire_ok buf len \<and> m' = m \<and> h = unpack_header_from_wire buf (buf ! 21) \<and>
    payload_of plo = take (unat (buf ! 21)) (drop 23 buf) \<and> h_payload_len h = buf ! 21"
proof -
  have ok: "wire_ok buf len" using assms(1) protocol_decode_SomeD [of m buf len] by simp
  have n: "25 + unat (buf ! 21) \<le> length buf" "unat (buf ! 21) \<le> 230"
    using ok assms(2) by (simp_all add: wire_ok_def word_le_nat_alt)
  have h: "h = unpack_header_from_wire buf (buf ! 21)"
    and p: "plo = (if buf ! 21 > 0 then Some (take (unat (buf ! 21)) (drop 23 buf)) else None)"
    using protocol_decode_ok [of m buf len] ok assms(1) by auto
  have m: "m' = m" using protocol_decode_metrics [OF ok, of m] assms(1) by simp
  show ?thesis
    using ok n by (auto simp: h p m decoded_def wire_ok_def unpack_header_from_wire_def word_gt_0 unat_eq_0)
qed

definition wf_req :: "rf_tx_request_t \<Rightarrow> bool" where
  "wf_req r \<longleftrightarrow> length (tx_data r) = 255 \<and> wire_ok (tx_data r) (tx_len r)"

lemma encode_decoded:
  assumes d: "decoded h plo" and out: "length out = 255"
  shows "protocol_encode h (Some (payload_of plo)) (h_payload_len h) out 255 =
      (25 + int (unat (h_payload_len h)), frame_of h (payload_of plo) @ drop (25 + unat (h_payload_len h)) out)"
    "protocol_encode h plo (h_payload_len h) out 255 =
      (25 + int (unat (h_payload_len h)), frame_of h (payload_of plo) @ drop (25 + unat (h_payload_len h)) out)"
    "unat (word_of_int (25 + int (unat (h_payload_len h))) :: u8) = 25 + unat (h_payload_len h)"
    "wire_ok (frame_of h (payload_of plo) @ rest) (word_of_int (25 + int (unat (h_payload_len h))))"
    "length (frame_of h (payload_of plo) @ drop (25 + unat (h_payload_len h)) out) = 255"
proof -
  note l = decoded_length [OF d]
  have n: "unat (h_payload_len h) \<le> 230" and t: "1 \<le> h_pkt_type h" "h_pkt_type h \<le> 11"
    using d by (simp_all add: decoded_def)
  show e: "protocol_encode h (Some (payload_of plo)) (h_payload_len h) out 255 =
      (25 + int (unat (h_payload_len h)), frame_of h (payload_of plo) @ drop (25 + unat (h_payload_len h)) out)"
    using protocol_encode_frame [of "payload_of plo" "h_payload_len h" 255 h out, unfolded l] n by simp
  have "protocol_encode h plo (h_payload_len h) out 255 =
      protocol_encode h (Some (payload_of plo)) (h_payload_len h) out 255"
  proof (cases plo)
    case None
    then have "h_payload_len h = 0" using d by (simp add: decoded_def)
    then show ?thesis unfolding None using protocol_encode_no_payload [of h out 255] by (simp only: option.case)
  qed (simp only: option.case)
  with e show "protocol_encode h plo (h_payload_len h) out 255 =
      (25 + int (unat (h_payload_len h)), frame_of h (payload_of plo) @ drop (25 + unat (h_payload_len h)) out)"
    by (simp only:)
  have w: "(word_of_int (25 + int (unat (h_payload_len h))) :: u8) = 25 + h_payload_len h" by simp
  show u: "unat (word_of_int (25 + int (unat (h_payload_len h))) :: u8) = 25 + unat (h_payload_len h)"
    unfolding w using n by (intro unat_total_len) (simp add: word_le_nat_alt)
  show "wire_ok (frame_of h (payload_of plo) @ rest) (word_of_int (25 + int (unat (h_payload_len h))))"
    by (rule frame_of_wire_ok [OF _ t]) (simp_all only: l n u order_refl)
  show "length (frame_of h (payload_of plo) @ drop (25 + unat (h_payload_len h)) out) = 255"
    unfolding length_append length_drop length_frame_of l out using n by linarith
qed

section \<open>The invariant of a node\<close>

definition node_ok :: "node_cfg \<Rightarrow> node_t \<Rightarrow> bool" where
  "node_ok cfg n \<longleftrightarrow>
     rb_ok (ts_queue n) \<and> rb_ok (nd_rx_ring n) \<and> (\<forall>f \<in> set (rb_contents (nd_rx_ring n)). length (fr_data f) = 255) \<and>
     retry_ok (nc_role cfg) (nd_retry n) \<and> pending_ok (nd_pending n) \<and> rcache_ok (nc_role cfg) (nd_routes n) \<and>
     ntable_ok (nd_ntable n) \<and> length (ne_entries (nd_nbrs n)) = NEIGHBOR_TABLE_SIZE \<and>
     dedupe_ok (nd_dedupe n) \<and> budget_shape (nd_budget n) \<and> length (fb_tx_originated_count (nd_budget n)) = 8 \<and>
     bus_dup_ok (nd_bus n) \<and> policy_ok (nd_flood n) \<and> mailbox_ok (nd_mailbox n) \<and>
     params_ok (rp_params (nd_params n)) \<and> opfwd_ok (ts_opfwd n) \<and>
     length (nd_timers n) = unat RIVR_TIMER_MAX \<and> nd_timer_count n \<le> RIVR_TIMER_MAX \<and>
     tx_budgets_ok (ts_airtime n) (ts_dc n) (ts_fabric n)"

lemma tx_budgets_fabric [simp]:
  "tx_budgets_ok airtime dc (rivr_fabric_on_rx rep now fab) = tx_budgets_ok airtime dc fab"
  "tx_budgets_ok airtime dc (rivr_fabric_tick rep now fab) = tx_budgets_ok airtime dc fab"
  by (simp_all add: tx_budgets_ok_def)

text \<open>What an operation may do to the transmit queue: append requests, all of a certain kind.\<close>

definition feeds :: "(rf_tx_request_t \<Rightarrow> bool) \<Rightarrow> tx_queue \<Rightarrow> tx_queue \<Rightarrow> bool" where
  "feeds P q q' \<longleftrightarrow> rb_ok q' \<and> rb_cap q' = rb_cap q \<and>
     (\<exists>rs. rb_contents q' = rb_contents q @ rs \<and> (\<forall>r \<in> set rs. P r))"

lemma feeds_refl [simp]: "rb_ok q \<Longrightarrow> feeds P q q"
  by (simp add: feeds_def)

lemma feeds_trans: "feeds P q q' \<Longrightarrow> feeds P q' q'' \<Longrightarrow> feeds P q q''"
  by (fastforce simp: feeds_def)

lemma feeds_mono: "feeds P q q' \<Longrightarrow> (\<And>r. P r \<Longrightarrow> Q r) \<Longrightarrow> feeds Q q q'"
  by (auto simp: feeds_def)

lemma feeds_push: "rb_ok q \<Longrightarrow> P r \<Longrightarrow> rb_try_push r q = (ok, q') \<Longrightarrow> feeds P q q'"
  using rb_try_push_spec [of q r ok q'] by (auto simp: feeds_def)

lemma feeds_push_all:
  "rb_ok q \<Longrightarrow> \<forall>r \<in> set rs. P r \<Longrightarrow> push_all rb_try_push rs q = (k, q') \<Longrightarrow> feeds P q q'"
proof (induction rs arbitrary: q k)
  case (Cons r rs)
  obtain ok q1 where p: "rb_try_push r q = (ok, q1)" by fastforce
  obtain k1 where a: "push_all rb_try_push rs q1 = (k1, q')"
    using Cons.prems(3) p by (auto split: prod.splits)
  have f: "feeds P q q1" using Cons.prems p by (intro feeds_push) simp_all
  then have "rb_ok q1" by (simp add: feeds_def)
  from Cons.IH [OF this _ a] Cons.prems(2) have "feeds P q1 q'" by simp
  with f show ?case by (rule feeds_trans)
qed simp

text \<open>What holds after an operation that keeps the node well formed and does not take frames from the
  receive ring.\<close>

abbreviation kept :: "node_cfg \<Rightarrow> (rf_tx_request_t \<Rightarrow> bool) \<Rightarrow> node_t \<Rightarrow> node_t \<Rightarrow> bool" where
  "kept cfg P n n' \<equiv> node_ok cfg n' \<and> feeds P (ts_queue n) (ts_queue n') \<and> nd_rx_ring n' = nd_rx_ring n"

definition keeps :: "node_cfg \<Rightarrow> (rf_tx_request_t \<Rightarrow> bool) \<Rightarrow> node_t \<Rightarrow> node_t \<Rightarrow> bool" where
  "keeps cfg P n n' \<longleftrightarrow> (node_ok cfg n \<longrightarrow> kept cfg P n n')"

lemma keeps_refl [simp]: "keeps cfg P n n"
  by (simp add: keeps_def node_ok_def)

lemma keeps_trans: "keeps cfg P n n' \<Longrightarrow> keeps cfg P n' n'' \<Longrightarrow> keeps cfg P n n''"
  by (auto simp: keeps_def intro: feeds_trans)

lemma keeps_mono: "keeps cfg P n n' \<Longrightarrow> (\<And>r. P r \<Longrightarrow> Q r) \<Longrightarrow> keeps cfg Q n n'"
  by (auto simp: keeps_def intro: feeds_mono)

lemma keepsI:
  "(node_ok cfg n \<Longrightarrow> kept cfg P n n') \<Longrightarrow> keeps cfg P n n'"
  by (simp add: keeps_def)

text \<open>Bookkeeping that no table and no queue notices.\<close>

lemma keeps_count [simp]: "keeps cfg P n (node_count k n)"
  by (simp add: keeps_def node_count_def node_ok_def)

lemma keeps_peak [simp]: "keeps cfg P n (UPDATE_TXQ_PEAK n)"
  by (simp add: keeps_def UPDATE_TXQ_PEAK_def node_ok_def)

lemma keeps_seq [simp]: "keeps cfg P n (next_ctrl_seq n)"
  by (simp add: keeps_def next_ctrl_seq_def node_ok_def)

lemma keeps_metrics [simp]: "keeps cfg P n (n\<lparr>ts_metrics := m\<rparr>)"
  by (simp add: keeps_def node_ok_def)

lemma keeps_tx_count [simp]: "keeps cfg P n (n\<lparr>nd_tx_frame_count := k\<rparr>)"
  by (simp add: keeps_def node_ok_def)

lemma keeps_push: "P r \<Longrightarrow> node_push r n = (ok, n') \<Longrightarrow> keeps cfg P n n'"
  by (auto simp: keeps_def node_push_def node_ok_def feeds_def split: prod.splits dest: feeds_push [where P = P])

lemma keeps_decode: "node_decode data len n = (r, n') \<Longrightarrow> keeps cfg P n n'"
  by (auto simp: node_decode_def split: prod.splits)

end
