(* ===== verification/Rivr_Ota.thy ===== *)
theory Rivr_Ota
  imports Rivr_Node
begin

text \<open>
  Signed program updates (rivr_ota_core.c with the storage of rivr_ota_platform.c and the branch of
  sources_rf_rx_drain that a signed build compiles). The signature check (ed25519_verify.c,
  modelled in Rivr_Ed25519) and the key ring are parameters; so is the outcome of every access to flash, which may differ from one
  update to the next. The properties: while flash can be read, accepted updates are authentic and
  their sequence numbers strictly increase; an update whose activation fails can never be delivered again;
  and a flash that cannot be read lets a replay through.
\<close>

section \<open>Verification and activation\<close>

abbreviation "RIVR_OTA_SIG_LEN \<equiv> (64 :: nat)"
abbreviation "RIVR_OTA_KEY_LEN \<equiv> (1 :: nat)"
abbreviation "RIVR_OTA_HDR_LEN \<equiv> (69 :: nat)"

text \<open>A signed build: the check, called with signature, message and key, and the public keys.\<close>

record ota_build_t =
  ob_signed :: bool
  ob_verify :: "u8 list \<Rightarrow> u8 list \<Rightarrow> u8 list \<Rightarrow> bool"
  ob_keys :: "u8 list list"

text \<open>Whether each access to flash succeeds during one update.\<close>

record ota_flash_t =
  of_load_seq :: bool
  of_save_seq :: bool
  of_store_program :: bool
  of_save_pending :: bool

record ota_store_t =
  ot_seq :: u32
  ot_pending :: u32
  ot_prog_buf :: "u8 list"
  ot_program :: "u8 list"

definition ota_platform_load_seq :: "ota_flash_t \<Rightarrow> ota_store_t \<Rightarrow> u32" where
  "ota_platform_load_seq fl st = (if of_load_seq fl then ot_seq st else 0)"

definition ota_platform_save_seq :: "ota_flash_t \<Rightarrow> u32 \<Rightarrow> ota_store_t \<Rightarrow> bool \<times> ota_store_t" where
  "ota_platform_save_seq fl seq st = (if of_save_seq fl then (True, st\<lparr>ot_seq := seq\<rparr>) else (False, st))"

definition ota_platform_save_pending :: "ota_flash_t \<Rightarrow> u32 \<Rightarrow> ota_store_t \<Rightarrow> bool \<times> ota_store_t" where
  "ota_platform_save_pending fl v st = (if of_save_pending fl then (True, st\<lparr>ot_pending := v\<rparr>) else (False, st))"

definition ota_payload_seq :: "u8 list \<Rightarrow> u32" where
  "ota_payload_seq payload = get_u32 (payload ! 65) (payload ! 66) (payload ! 67) (payload ! 68)"

definition ota_authentic :: "ota_build_t \<Rightarrow> u8 list \<Rightarrow> bool" where
  "ota_authentic b payload \<longleftrightarrow>
     unat (payload ! RIVR_OTA_SIG_LEN) < length (ob_keys b) \<and>
     length (drop RIVR_OTA_SIG_LEN payload) \<le> 256 \<and>
     ob_verify b (take RIVR_OTA_SIG_LEN payload) (drop RIVR_OTA_SIG_LEN payload) (ob_keys b ! unat (payload ! RIVR_OTA_SIG_LEN))"

definition rivr_ota_verify :: "ota_build_t \<Rightarrow> ota_flash_t \<Rightarrow> u8 list \<Rightarrow> ota_store_t \<Rightarrow> bool \<times> ota_store_t" where
  "rivr_ota_verify b fl payload st =
     (if length payload \<le> RIVR_OTA_HDR_LEN then (False, st)
      else if \<not> ob_signed b then (True, st)
      else if \<not> ota_authentic b payload then (False, st)
      else if ota_payload_seq payload \<le> ota_platform_load_seq fl st then (False, st)
      else ota_platform_save_seq fl (ota_payload_seq payload) st)"

text \<open>The write buffer of the platform keeps 255 characters and their terminator.\<close>

definition ota_storage_begin :: "ota_store_t \<Rightarrow> ota_store_t" where
  "ota_storage_begin st = st\<lparr>ot_prog_buf := (ot_prog_buf st)[0 := 0]\<rparr>"

definition ota_storage_write :: "u8 list \<Rightarrow> ota_store_t \<Rightarrow> ota_store_t" where
  "ota_storage_write txt st =
     (let n = (if length txt < 255 then length txt else 255)
      in st\<lparr>ot_prog_buf := take n txt @ [0] @ drop (n + 1) (ot_prog_buf st)\<rparr>)"

definition ota_storage_commit :: "ota_flash_t \<Rightarrow> ota_store_t \<Rightarrow> bool \<times> ota_store_t" where
  "ota_storage_commit fl st =
     (if of_store_program fl then (True, st\<lparr>ot_program := c_str (ot_prog_buf st)\<rparr>) else (False, st))"

definition rivr_ota_activate :: "ota_flash_t \<Rightarrow> u8 list \<Rightarrow> ota_store_t \<Rightarrow> bool \<times> ota_store_t" where
  "rivr_ota_activate fl payload st =
     (if length payload \<le> RIVR_OTA_HDR_LEN then (False, st)
      else case ota_storage_commit fl (ota_storage_write (drop RIVR_OTA_HDR_LEN payload) (ota_storage_begin st)) of
             (ok, st1) \<Rightarrow> if \<not> ok then (False, st1) else (True, snd (ota_platform_save_pending fl 1 st1)))"

definition rivr_ota_confirm :: "ota_flash_t \<Rightarrow> ota_store_t \<Rightarrow> bool \<times> ota_store_t" where
  "rivr_ota_confirm fl st = ota_platform_save_pending fl 0 st"

definition rivr_ota_is_pending :: "bool \<Rightarrow> ota_store_t \<Rightarrow> bool" where
  "rivr_ota_is_pending load_ok st \<longleftrightarrow> (if load_ok then ot_pending st else 0) \<noteq> 0"

text \<open>The branch of the receive loop: a push for this node or for all, in a signed build.\<close>

definition rx_handle_signed_push ::
  "ota_build_t \<Rightarrow> ota_flash_t \<Rightarrow> u32 \<Rightarrow> rivr_pkt_hdr_t \<Rightarrow> u8 list option \<Rightarrow> node_t \<times> ota_store_t \<Rightarrow> node_t \<times> ota_store_t" where
  "rx_handle_signed_push b fl my_id pkt plo s =
     (case s of (n, st) \<Rightarrow>
       if \<not> (h_dst_id pkt = my_id \<or> h_dst_id pkt = 0) then (n, st)
       else case plo of
         None \<Rightarrow> (n, st)
       | Some p \<Rightarrow>
           if h_payload_len pkt = 0 then (n, st)
           else case rivr_ota_verify b fl p st of
             (False, st1) \<Rightarrow> (node_count ota_rejected n, st1)
           | (True, st1) \<Rightarrow>
               (case rivr_ota_activate fl p st1 of
                  (False, st2) \<Rightarrow> (n, st2)
                | (True, st2) \<Rightarrow> (node_count ota_accepted (n\<lparr>nd_reload_pending := True, nd_stored_program := ot_program st2\<rparr>), st2)))"

section \<open>Sequences of updates\<close>

definition push_for_us :: "u32 \<Rightarrow> rivr_pkt_hdr_t \<Rightarrow> bool" where
  "push_for_us my_id pkt \<longleftrightarrow> (h_dst_id pkt = my_id \<or> h_dst_id pkt = 0) \<and> h_payload_len pkt \<noteq> 0"

text \<open>The payloads that pass verification, in the order of their arrival, and the state they leave.\<close>

fun ota_log ::
  "ota_build_t \<Rightarrow> u32 \<Rightarrow> (ota_flash_t \<times> rivr_pkt_hdr_t \<times> u8 list option) list \<Rightarrow> node_t \<times> ota_store_t \<Rightarrow> u8 list list" where
  "ota_log b my_id [] s = []"
| "ota_log b my_id ((fl, pkt, plo) # es) s =
     (case plo of
        Some p \<Rightarrow> if push_for_us my_id pkt \<and> fst (rivr_ota_verify b fl p (snd s)) then [p] else []
      | None \<Rightarrow> []) @ ota_log b my_id es (rx_handle_signed_push b fl my_id pkt plo s)"

fun ota_run ::
  "ota_build_t \<Rightarrow> u32 \<Rightarrow> (ota_flash_t \<times> rivr_pkt_hdr_t \<times> u8 list option) list \<Rightarrow> node_t \<times> ota_store_t \<Rightarrow> node_t \<times> ota_store_t" where
  "ota_run b my_id [] s = s"
| "ota_run b my_id ((fl, pkt, plo) # es) s = ota_run b my_id es (rx_handle_signed_push b fl my_id pkt plo s)"

lemma ota_verify_refused: "rivr_ota_verify b fl p st = (False, st1) \<Longrightarrow> st1 = st"
  by (auto simp: rivr_ota_verify_def ota_platform_save_seq_def split: if_splits)

lemma ota_verify_accepted:
  "ob_signed b \<Longrightarrow> rivr_ota_verify b fl p st = (True, st1) \<Longrightarrow>
   length p > 69 \<and> ota_authentic b p \<and> ota_platform_load_seq fl st < ota_payload_seq p \<and> st1 = st\<lparr>ot_seq := ota_payload_seq p\<rparr>"
  by (auto simp: rivr_ota_verify_def ota_platform_save_seq_def split: if_splits)

lemma ota_activate_seq:
  "rivr_ota_activate fl p st = (ok, st1) \<Longrightarrow> ot_seq st1 = ot_seq st \<and> (\<not> ok \<longrightarrow> ot_program st1 = ot_program st)"
  by (auto simp: rivr_ota_activate_def ota_storage_commit_def ota_storage_write_def ota_storage_begin_def Let_def
      ota_platform_save_pending_def split: if_splits prod.splits)

lemma c_str_terminated: "c_str (xs @ 0 # ys) = c_str xs"
  by (induction xs) (auto simp: c_str_def)

lemma ota_activate_program:
  assumes "rivr_ota_activate fl p st = (True, st1)" "length p \<le> 255"
  shows "ot_program st1 = c_str (drop 69 p)"
  using assms
  by (auto simp: rivr_ota_activate_def ota_storage_commit_def ota_storage_write_def ota_storage_begin_def Let_def
      ota_platform_save_pending_def c_str_terminated split: if_splits prod.splits)

text \<open>One update, seen from the log: refused, or verified and then activated or not.\<close>

lemma signed_push_cases:
  assumes "ob_signed b"
  obtains (ignored) "plo = None \<or> \<not> push_for_us my_id pkt" "rx_handle_signed_push b fl my_id pkt plo (n, st) = (n, st)"
  | (refused) p where "plo = Some p" "push_for_us my_id pkt" "\<not> fst (rivr_ota_verify b fl p st)"
      "rx_handle_signed_push b fl my_id pkt plo (n, st) = (node_count ota_rejected n, st)"
  | (verified) p n1 st1 where "plo = Some p" "push_for_us my_id pkt" "fst (rivr_ota_verify b fl p st)"
      "rx_handle_signed_push b fl my_id pkt plo (n, st) = (n1, st1)" "ota_authentic b p"
      "ota_platform_load_seq fl st < ota_payload_seq p" "ot_seq st1 = ota_payload_seq p"
      "length p \<le> 255 \<longrightarrow> nd_stored_program n1 = c_str (drop 69 p) \<or> nd_stored_program n1 = nd_stored_program n"
proof (cases "push_for_us my_id pkt")
  case False
  then show thesis
    by (intro ignored) (auto simp: rx_handle_signed_push_def push_for_us_def split: option.split)
next
  case us: True
  show thesis
  proof (cases plo)
    case None
    then show thesis by (intro ignored) (simp_all add: rx_handle_signed_push_def)
  next
    case (Some p)
    obtain ok st1 where v: "rivr_ota_verify b fl p st = (ok, st1)" by fastforce
    show thesis
    proof (cases ok)
      case False
      with v ota_verify_refused [of b fl p st st1] have "st1 = st" by simp
      with False v us Some show thesis
        by (intro refused [of p]) (simp_all add: rx_handle_signed_push_def push_for_us_def)
    next
      case True
      have "rivr_ota_verify b fl p st = (True, st1)" using v True by simp
      note ver = ota_verify_accepted [OF assms this]
      obtain ok2 st2 where a: "rivr_ota_activate fl p st1 = (ok2, st2)" by fastforce
      define n1 where "n1 = (if ok2 then node_count ota_accepted (n\<lparr>nd_reload_pending := True, nd_stored_program := ot_program st2\<rparr>) else n)"
      show thesis
      proof (rule verified [of p n1 st2])
        show "rx_handle_signed_push b fl my_id pkt plo (n, st) = (n1, st2)"
          using v a us True Some by (simp add: rx_handle_signed_push_def push_for_us_def n1_def split: bool.split)
        show "ot_seq st2 = ota_payload_seq p" using ota_activate_seq [OF a] ver by simp
        show "length p \<le> 255 \<longrightarrow>
            nd_stored_program n1 = c_str (drop 69 p) \<or> nd_stored_program n1 = nd_stored_program n"
          using a ota_activate_program [of fl p st1 st2] by (auto simp: n1_def node_count_def)
      qed (use ver v us True Some in simp_all)
    qed
  qed
qed

lemma ota_run_log:
  assumes "ob_signed b" "\<forall>e \<in> set es. of_load_seq (fst e) \<and> (\<forall>p. snd (snd e) = Some p \<longrightarrow> length p \<le> 255)"
  shows "sorted_wrt (<) (ot_seq (snd s) # map ota_payload_seq (ota_log b my_id es s)) \<and>
    (\<forall>p \<in> set (ota_log b my_id es s). ota_authentic b p) \<and>
    ot_seq (snd (ota_run b my_id es s)) = last (ot_seq (snd s) # map ota_payload_seq (ota_log b my_id es s)) \<and>
    nd_stored_program (fst (ota_run b my_id es s)) \<in>
      insert (nd_stored_program (fst s)) ((\<lambda>p. c_str (drop 69 p)) ` set (ota_log b my_id es s))"
  using assms(2)
proof (induction es arbitrary: s)
  case (Cons e es)
  obtain fl pkt plo where e: "e = (fl, pkt, plo)" by (metis prod_cases3)
  obtain n st where s: "s = (n, st)" by fastforce
  have fl: "of_load_seq fl" "plo = Some p \<Longrightarrow> length p \<le> 255" for p using Cons.prems e by auto
  note IH = Cons.IH [of "rx_handle_signed_push b fl my_id pkt plo s"]
  have IH: "\<forall>e \<in> set es. of_load_seq (fst e) \<and> (\<forall>p. snd (snd e) = Some p \<longrightarrow> length p \<le> 255)" using Cons.prems by simp
  note IH' = Cons.IH [OF IH, of "rx_handle_signed_push b fl my_id pkt plo s"]
  show ?case
  proof (rule signed_push_cases [OF assms(1), of plo my_id pkt fl n st])
    assume "plo = None \<or> \<not> push_for_us my_id pkt" "rx_handle_signed_push b fl my_id pkt plo (n, st) = (n, st)"
    with IH' show ?case by (auto simp: e s split: option.splits)
  next
    fix p assume "plo = Some p" "push_for_us my_id pkt" "\<not> fst (rivr_ota_verify b fl p st)"
      "rx_handle_signed_push b fl my_id pkt plo (n, st) = (node_count ota_rejected n, st)"
    with IH' show ?case by (simp add: e s node_count_def)
  next
    fix p n1 st1
    assume h: "plo = Some p" "push_for_us my_id pkt" "fst (rivr_ota_verify b fl p st)"
      "rx_handle_signed_push b fl my_id pkt plo (n, st) = (n1, st1)" "ota_authentic b p"
      "ota_platform_load_seq fl st < ota_payload_seq p" "ot_seq st1 = ota_payload_seq p"
      "length p \<le> 255 \<longrightarrow> nd_stored_program n1 = c_str (drop 69 p) \<or> nd_stored_program n1 = nd_stored_program n"
    have "ot_seq st < ota_payload_seq p" using h(6) fl(1) by (simp add: ota_platform_load_seq_def)
    moreover have "nd_stored_program n1 = c_str (drop 69 p) \<or> nd_stored_program n1 = nd_stored_program n" using h fl(2) by blast
    ultimately show ?case using IH' h by (auto simp: e s)
  qed
qed simp

text \<open>C37: while flash can be read, the updates that pass have strictly increasing sequence numbers above the stored one,
  each with a signature of a configured key over all that follows it, so none passes twice; and the stored program
  is the old one or the signed text of one of them.\<close>

theorem signed_updates_never_replayed:
  assumes "ob_signed b" "\<forall>e \<in> set es. of_load_seq (fst e) \<and> (\<forall>p. snd (snd e) = Some p \<longrightarrow> length p \<le> 255)"
  shows "sorted_wrt (<) (ot_seq (snd s) # map ota_payload_seq (ota_log b my_id es s)) \<and> distinct (ota_log b my_id es s) \<and>
    (\<forall>p \<in> set (ota_log b my_id es s). ota_authentic b p) \<and>
    (nd_stored_program (fst (ota_run b my_id es s)) = nd_stored_program (fst s) \<or>
     (\<exists>p \<in> set (ota_log b my_id es s). nd_stored_program (fst (ota_run b my_id es s)) = c_str (drop 69 p)))"
proof -
  note log = ota_run_log [OF assms, of s my_id]
  have "sorted_wrt (<) (map ota_payload_seq (ota_log b my_id es s))" using log by simp
  then have "distinct (map ota_payload_seq (ota_log b my_id es s))" by (simp add: strict_sorted_iff)
  then have "distinct (ota_log b my_id es s)" by (simp add: distinct_map)
  with log show ?thesis by auto
qed

lemma sorted_last: "sorted_wrt (<) (x # xs) \<Longrightarrow> x \<le> last (x # xs)" for x :: "'a::order"
  using last_in_set [of xs] by (cases "xs = []") (auto simp: less_imp_le)

text \<open>the sequence number is spent before the program is stored. When the store fails, the program stays, nothing is
  counted, and whatever arrives in between, sending the same update again is refused.\<close>

theorem failed_store_spends_update:
  assumes "ob_signed b" "push_for_us my_id pkt" "fst (rivr_ota_verify b fl p st)" "\<not> of_store_program fl"
    and "\<forall>e \<in> set es. of_load_seq (fst e) \<and> (\<forall>p. snd (snd e) = Some p \<longrightarrow> length p \<le> 255)" "of_load_seq fl'"
  shows "fst (rx_handle_signed_push b fl my_id pkt (Some p) (n, st)) = n \<and>
    \<not> fst (rivr_ota_verify b fl' p (snd (ota_run b my_id es (rx_handle_signed_push b fl my_id pkt (Some p) (n, st)))))"
proof -
  obtain st1 where v: "rivr_ota_verify b fl p st = (True, st1)" using assms(3) by (metis (full_types) prod.collapse)
  note ver = ota_verify_accepted [OF assms(1) v]
  obtain ok st2 where a: "rivr_ota_activate fl p st1 = (ok, st2)" by fastforce
  have ok: "\<not> ok" using a assms(4) by (auto simp: rivr_ota_activate_def ota_storage_commit_def split: if_splits)
  have step: "rx_handle_signed_push b fl my_id pkt (Some p) (n, st) = (n, st2)"
    using assms(2) v a ok by (simp add: rx_handle_signed_push_def push_for_us_def)
  have "ot_seq st2 = ota_payload_seq p" using ota_activate_seq [OF a] ver by simp
  moreover have "ot_seq st2 \<le> ot_seq (snd (ota_run b my_id es (n, st2)))"
    using ota_run_log [OF assms(1,5), of "(n, st2)" my_id]
      sorted_last [of "ot_seq st2" "map ota_payload_seq (ota_log b my_id es (n, st2))"] by simp
  ultimately show ?thesis using assms(1,6)
    by (auto simp: step rivr_ota_verify_def ota_platform_load_seq_def)
qed

text \<open>Flash that cannot be read counts as number zero: any authentic update passes, old or new.\<close>

lemma unreadable_flash_replays:
  "ob_signed b \<Longrightarrow> length p > 69 \<Longrightarrow> ota_authentic b p \<Longrightarrow> 0 < ota_payload_seq p \<Longrightarrow> \<not> of_load_seq fl \<Longrightarrow> of_save_seq fl \<Longrightarrow>
   rivr_ota_verify b fl p st = (True, st\<lparr>ot_seq := ota_payload_seq p\<rparr>)"
  by (simp add: rivr_ota_verify_def ota_platform_load_seq_def ota_platform_save_seq_def)

section \<open>Instances\<close>

definition demo_ota :: ota_build_t where
  "demo_ota = \<lparr>ob_signed = True, ob_verify = (\<lambda>sig msg key. take 32 sig = key), ob_keys = [replicate 32 7]\<rparr>"

definition demo_flash :: ota_flash_t where
  "demo_flash = \<lparr>of_load_seq = True, of_save_seq = True, of_store_program = True, of_save_pending = True\<rparr>"

definition demo_store :: ota_store_t where
  "demo_store = \<lparr>ot_seq = 4, ot_pending = 0, ot_prog_buf = replicate 256 0, ot_program = []\<rparr>"

definition demo_update :: "u32 \<Rightarrow> u8 list" where
  "demo_update seq = replicate 64 7 @ [0] @ put_u32 seq @ [101, 109, 105, 116]"

definition demo_push_hdr :: rivr_pkt_hdr_t where
  "demo_push_hdr = \<lparr>h_magic = RIVR_MAGIC, h_version = RIVR_PROTO_VER, h_pkt_type = PKT_PROG_PUSH, h_flags = 0, h_ttl = 1, h_hop = 0,
     h_net_id = 1, h_src_id = 2, h_dst_id = 9, h_seq = 1, h_pkt_id = 1, h_payload_len = 73, h_loop_guard = 0\<rparr>"

lemma demo_update_verified:
  "rivr_ota_verify demo_ota (demo_flash\<lparr>of_store_program := ok\<rparr>) (demo_update 5) demo_store = (True, demo_store\<lparr>ot_seq := 5\<rparr>)"
  by (simp add: rivr_ota_verify_def demo_ota_def demo_flash_def demo_update_def demo_store_def put_u32_def ota_authentic_def
      ota_platform_load_seq_def ota_platform_save_seq_def ota_payload_seq_def get_u32_def nth_append)

lemma demo_flash_ok: "demo_flash\<lparr>of_store_program := True\<rparr> = demo_flash"
  by (simp add: demo_flash_def)

lemma demo_update_props: "length (demo_update 5) = 73" "ob_signed demo_ota" "push_for_us 9 demo_push_hdr" "of_load_seq demo_flash"
  by (simp_all add: demo_update_def put_u32_def demo_ota_def push_for_us_def demo_push_hdr_def demo_flash_def)

lemma signed_updates_never_replayed_witness:
  "\<forall>n. demo_update 5 \<in> set (ota_log demo_ota 9 (replicate 3 (demo_flash, demo_push_hdr, Some (demo_update 5))) (n, demo_store)) \<and>
     distinct (ota_log demo_ota 9 (replicate 3 (demo_flash, demo_push_hdr, Some (demo_update 5))) (n, demo_store))"
proof
  fix n
  have "distinct (ota_log demo_ota 9 (replicate 3 (demo_flash, demo_push_hdr, Some (demo_update 5))) (n, demo_store))"
    using signed_updates_never_replayed [of demo_ota "replicate 3 (demo_flash, demo_push_hdr, Some (demo_update 5))" "(n, demo_store)" 9]
    by (simp add: demo_update_props)
  then show "demo_update 5 \<in> set (ota_log demo_ota 9 (replicate 3 (demo_flash, demo_push_hdr, Some (demo_update 5))) (n, demo_store)) \<and>
     distinct (ota_log demo_ota 9 (replicate 3 (demo_flash, demo_push_hdr, Some (demo_update 5))) (n, demo_store))"
    using demo_update_verified [of True] by (simp add: numeral_3_eq_3 demo_update_props demo_flash_ok)
qed

lemma failed_store_spends_update_witness:
  "\<forall>n. fst (rx_handle_signed_push demo_ota (demo_flash\<lparr>of_store_program := False\<rparr>) 9 demo_push_hdr (Some (demo_update 5)) (n, demo_store)) = n \<and>
     \<not> fst (rivr_ota_verify demo_ota demo_flash (demo_update 5) (snd (rx_handle_signed_push demo_ota
          (demo_flash\<lparr>of_store_program := False\<rparr>) 9 demo_push_hdr (Some (demo_update 5)) (n, demo_store))))"
proof
  fix n
  show "fst (rx_handle_signed_push demo_ota (demo_flash\<lparr>of_store_program := False\<rparr>) 9 demo_push_hdr (Some (demo_update 5)) (n, demo_store)) = n \<and>
     \<not> fst (rivr_ota_verify demo_ota demo_flash (demo_update 5) (snd (rx_handle_signed_push demo_ota
          (demo_flash\<lparr>of_store_program := False\<rparr>) 9 demo_push_hdr (Some (demo_update 5)) (n, demo_store))))"
    using failed_store_spends_update [of demo_ota 9 demo_push_hdr "demo_flash\<lparr>of_store_program := False\<rparr>" "demo_update 5" demo_store
        "[]" demo_flash n] demo_update_verified [of False]
    by (simp add: demo_update_props)
qed

end
