(* ===== verification/Rivr_Channel.thy ===== *)
theory Rivr_Channel
  imports Rivr_Prelude "HOL-Library.Multiset"
begin

text \<open>
  The channel table (channel.c): eight slots with configuration, membership and counters, the
  operations of the user interface on them, and the blob that keeps the table in flash. What flash
  returns is an input. The properties: in every state that the operations and a reboot can reach, exactly one channel is
  the default for sending, it is joined, and it is the one that the accessor names; and the blob's checksum
  does not see the order of its entries.
\<close>

section \<open>The table\<close>

abbreviation "RIVR_MAX_CHANNELS \<equiv> (8 :: nat)"
abbreviation "RIVR_CHANNEL_NAME_MAX \<equiv> (24 :: nat)"
abbreviation "RIVR_CHAN_GLOBAL \<equiv> (0 :: u16)"
abbreviation "CHAN_KIND_PUBLIC \<equiv> (0 :: u8)"
abbreviation "CHAN_KIND_GROUP \<equiv> (1 :: u8)"
abbreviation "CHAN_KIND_EMERGENCY \<equiv> (2 :: u8)"
abbreviation "CHAN_FLAG_PRIORITY \<equiv> (4 :: u16)"

record rivr_channel_config_t =
  cf_id :: u16
  cf_kind :: u8
  cf_flags :: u16
  cf_key_slot :: u8
  cf_name :: "u8 list"

record rivr_channel_membership_t =
  me_channel_id :: u16
  me_joined :: bool
  me_muted :: bool
  me_hidden :: bool
  me_tx_default :: bool

record rivr_channel_counters_t =
  cc_rx_total :: u32
  cc_rx_stored :: u32
  cc_rx_dropped :: u32
  cc_rx_dedup :: u32
  cc_tx_total :: u32
  cc_fwd_total :: u32
  cc_unread :: u32

record rivr_channel_table_t =
  ch_config :: "rivr_channel_config_t list"
  ch_membership :: "rivr_channel_membership_t list"
  ch_counters :: "rivr_channel_counters_t list"
  ch_count :: u8
  ch_tx_default :: u8

definition chan_name :: "u8 list \<Rightarrow> u8 list" where
  "chan_name s = s @ replicate (RIVR_CHANNEL_NAME_MAX - length s) 0"

definition chan_config :: "u16 \<Rightarrow> u8 \<Rightarrow> u16 \<Rightarrow> u8 list \<Rightarrow> rivr_channel_config_t" where
  "chan_config i k f s = \<lparr>cf_id = i, cf_kind = k, cf_flags = f, cf_key_slot = 0, cf_name = chan_name s\<rparr>"

text \<open>Global, Ops, Local, Emergency and four unnamed slots.\<close>

definition s_defaults :: "rivr_channel_config_t list" where
  "s_defaults =
    [chan_config 0 CHAN_KIND_PUBLIC 0 [71, 108, 111, 98, 97, 108],
     chan_config 1 CHAN_KIND_GROUP 0 [79, 112, 115],
     chan_config 2 CHAN_KIND_GROUP 0 [76, 111, 99, 97, 108],
     chan_config 3 CHAN_KIND_EMERGENCY CHAN_FLAG_PRIORITY [69, 109, 101, 114, 103, 101, 110, 99, 121],
     chan_config 4 CHAN_KIND_GROUP 0 [], chan_config 5 CHAN_KIND_GROUP 0 [],
     chan_config 6 CHAN_KIND_GROUP 0 [], chan_config 7 CHAN_KIND_GROUP 0 []]"

definition chan_member :: "u16 \<Rightarrow> bool \<Rightarrow> bool \<Rightarrow> bool \<Rightarrow> rivr_channel_membership_t" where
  "chan_member i j h d = \<lparr>me_channel_id = i, me_joined = j, me_muted = False, me_hidden = h, me_tx_default = d\<rparr>"

definition s_default_membership :: "rivr_channel_membership_t list" where
  "s_default_membership =
    [chan_member 0 True False True, chan_member 1 True False False, chan_member 2 False False False,
     chan_member 3 True False False, chan_member 4 False True False, chan_member 5 False True False,
     chan_member 6 False True False, chan_member 7 False True False]"

definition channel_init :: rivr_channel_table_t where
  "channel_init = \<lparr>ch_config = s_defaults, ch_membership = s_default_membership,
     ch_counters = replicate RIVR_MAX_CHANNELS
       \<lparr>cc_rx_total = 0, cc_rx_stored = 0, cc_rx_dropped = 0, cc_rx_dedup = 0, cc_tx_total = 0, cc_fwd_total = 0, cc_unread = 0\<rparr>,
     ch_count = 8, ch_tx_default = 0\<rparr>"

section \<open>Operations\<close>

definition channel_find_slot :: "rivr_channel_table_t \<Rightarrow> u16 \<Rightarrow> nat option" where
  "channel_find_slot t channel_id =
     (case find_idx (\<lambda>c. cf_id c = channel_id \<and> cf_name c ! 0 \<noteq> 0) (ch_config t) of
        Some i \<Rightarrow> Some i
      | None \<Rightarrow> if channel_id = RIVR_CHAN_GLOBAL then Some 0 else None)"

definition channel_is_joined :: "rivr_channel_table_t \<Rightarrow> u16 \<Rightarrow> bool" where
  "channel_is_joined t c = (case channel_find_slot t c of None \<Rightarrow> False | Some i \<Rightarrow> me_joined (ch_membership t ! i))"

definition channel_is_muted :: "rivr_channel_table_t \<Rightarrow> u16 \<Rightarrow> bool" where
  "channel_is_muted t c = (case channel_find_slot t c of None \<Rightarrow> False | Some i \<Rightarrow> me_muted (ch_membership t ! i))"

definition channel_is_hidden :: "rivr_channel_table_t \<Rightarrow> u16 \<Rightarrow> bool" where
  "channel_is_hidden t c = (case channel_find_slot t c of None \<Rightarrow> True | Some i \<Rightarrow> me_hidden (ch_membership t ! i))"

definition channel_is_priority :: "rivr_channel_table_t \<Rightarrow> u16 \<Rightarrow> bool" where
  "channel_is_priority t c =
     (case channel_find_slot t c of
        None \<Rightarrow> False
      | Some i \<Rightarrow> cf_kind (ch_config t ! i) = CHAN_KIND_EMERGENCY \<or> cf_flags (ch_config t ! i) AND CHAN_FLAG_PRIORITY \<noteq> 0)"

definition upd_member ::
  "nat \<Rightarrow> (rivr_channel_membership_t \<Rightarrow> rivr_channel_membership_t) \<Rightarrow> rivr_channel_table_t \<Rightarrow> rivr_channel_table_t" where
  "upd_member i f t = t\<lparr>ch_membership := (ch_membership t)[i := f (ch_membership t ! i)]\<rparr>"

definition channel_join :: "u16 \<Rightarrow> rivr_channel_table_t \<Rightarrow> rivr_channel_table_t" where
  "channel_join c t = (case channel_find_slot t c of None \<Rightarrow> t | Some i \<Rightarrow> upd_member i (\<lambda>m. m\<lparr>me_joined := True\<rparr>) t)"

definition channel_leave :: "u16 \<Rightarrow> rivr_channel_table_t \<Rightarrow> rivr_channel_table_t" where
  "channel_leave c t =
     (if c = RIVR_CHAN_GLOBAL then t
      else case channel_find_slot t c of
        None \<Rightarrow> t
      | Some i \<Rightarrow>
          let t1 = upd_member i (\<lambda>m. m\<lparr>me_joined := False\<rparr>) t
          in if me_tx_default (ch_membership t1 ! i)
             then (upd_member 0 (\<lambda>m. m\<lparr>me_tx_default := True\<rparr>) (upd_member i (\<lambda>m. m\<lparr>me_tx_default := False\<rparr>) t1))
                    \<lparr>ch_tx_default := 0\<rparr>
             else t1)"

definition channel_set_muted :: "u16 \<Rightarrow> bool \<Rightarrow> rivr_channel_table_t \<Rightarrow> rivr_channel_table_t" where
  "channel_set_muted c v t = (case channel_find_slot t c of None \<Rightarrow> t | Some i \<Rightarrow> upd_member i (\<lambda>m. m\<lparr>me_muted := v\<rparr>) t)"

definition channel_set_hidden :: "u16 \<Rightarrow> bool \<Rightarrow> rivr_channel_table_t \<Rightarrow> rivr_channel_table_t" where
  "channel_set_hidden c v t = (case channel_find_slot t c of None \<Rightarrow> t | Some i \<Rightarrow> upd_member i (\<lambda>m. m\<lparr>me_hidden := v\<rparr>) t)"

definition channel_set_tx_default :: "u16 \<Rightarrow> rivr_channel_table_t \<Rightarrow> bool \<times> rivr_channel_table_t" where
  "channel_set_tx_default c t =
     (case channel_find_slot t c of
        None \<Rightarrow> (False, t)
      | Some i \<Rightarrow>
          if \<not> me_joined (ch_membership t ! i) then (False, t)
          else (True, (upd_member i (\<lambda>m. m\<lparr>me_tx_default := True\<rparr>)
                        (t\<lparr>ch_membership := map (\<lambda>m. m\<lparr>me_tx_default := False\<rparr>) (ch_membership t)\<rparr>))\<lparr>ch_tx_default := of_nat i\<rparr>))"

definition channel_get_tx_default :: "rivr_channel_table_t \<Rightarrow> u16" where
  "channel_get_tx_default t =
     (if unat (ch_tx_default t) \<ge> RIVR_MAX_CHANNELS then RIVR_CHAN_GLOBAL else cf_id (ch_config t ! unat (ch_tx_default t)))"

definition upd_counter :: "nat \<Rightarrow> (u32 \<Rightarrow> u32) \<Rightarrow> rivr_channel_table_t \<Rightarrow> rivr_channel_table_t" where
  "upd_counter i f t = t\<lparr>ch_counters := (ch_counters t)[i := (ch_counters t ! i)\<lparr>cc_unread := f (cc_unread (ch_counters t ! i))\<rparr>]\<rparr>"

definition channel_mark_unread :: "u16 \<Rightarrow> rivr_channel_table_t \<Rightarrow> rivr_channel_table_t" where
  "channel_mark_unread c t =
     (case channel_find_slot t c of
        None \<Rightarrow> t
      | Some i \<Rightarrow> if me_muted (ch_membership t ! i) then t else upd_counter i (\<lambda>u. u + 1) t)"

definition channel_clear_unread :: "u16 \<Rightarrow> rivr_channel_table_t \<Rightarrow> rivr_channel_table_t" where
  "channel_clear_unread c t = (case channel_find_slot t c of None \<Rightarrow> t | Some i \<Rightarrow> upd_counter i (\<lambda>_. 0) t)"

section \<open>The blob\<close>

abbreviation "CHAN_PERSIST_MAGIC \<equiv> (0xC4 :: u8)"
abbreviation "CHAN_PERSIST_VER \<equiv> (1 :: u8)"
abbreviation "chan_entry_size \<equiv> (34 :: nat)"

definition crc8_maxim_bit :: "u8 \<Rightarrow> u8" where
  "crc8_maxim_bit crc = (if crc AND 1 \<noteq> 0 then drop_bit 1 crc XOR 0x8C else drop_bit 1 crc)"

definition crc8_maxim :: "u8 list \<Rightarrow> u8" where
  "crc8_maxim buf = fold (\<lambda>b crc. (crc8_maxim_bit ^^ 8) (crc XOR b)) buf 0"

definition bool_byte :: "bool \<Rightarrow> u8" where
  "bool_byte b = (if b then 1 else 0)"

definition chan_entry :: "rivr_channel_config_t \<Rightarrow> rivr_channel_membership_t \<Rightarrow> u8 list" where
  "chan_entry c m = put_u16 (cf_id c) @ [cf_kind c] @ put_u16 (cf_flags c) @ [cf_key_slot c] @ take RIVR_CHANNEL_NAME_MAX (cf_name c) @
     [bool_byte (me_joined m), bool_byte (me_muted m), bool_byte (me_hidden m), bool_byte (me_tx_default m)]"

definition chan_crc :: "u8 list \<Rightarrow> u8 list list \<Rightarrow> u8" where
  "chan_crc hdr entries = fold (\<lambda>e crc. crc XOR crc8_maxim e) entries (crc8_maxim hdr)"

definition channel_blob :: "rivr_channel_table_t \<Rightarrow> u8 list" where
  "channel_blob t =
     (let entries = map2 chan_entry (ch_config t) (ch_membership t); hdr = [CHAN_PERSIST_MAGIC, CHAN_PERSIST_VER, 8]
      in hdr @ [chan_crc hdr entries] @ concat entries)"

text \<open>Saving: None is a namespace that does not open; otherwise the outcome of the write.\<close>

definition channel_persist_save :: "bool option \<Rightarrow> rivr_channel_table_t \<Rightarrow> u8 list option \<Rightarrow> bool \<times> u8 list option" where
  "channel_persist_save io t nvs =
     (case io of None \<Rightarrow> (False, nvs) | Some ok \<Rightarrow> (ok, if ok then Some (channel_blob t) else nvs))"

definition chan_entries :: "nat \<Rightarrow> u8 list \<Rightarrow> u8 list list" where
  "chan_entries n buf = map (\<lambda>i. take chan_entry_size (drop (4 + i * chan_entry_size) buf)) [0..<n]"

definition chan_apply :: "nat \<times> u8 list \<Rightarrow> rivr_channel_table_t \<Rightarrow> rivr_channel_table_t" where
  "chan_apply ie t =
     (case ie of (i, e) \<Rightarrow>
       let t1 = t\<lparr>ch_config := (ch_config t)[i := \<lparr>cf_id = get_u16 (e ! 0) (e ! 1), cf_kind = e ! 2,
                    cf_flags = get_u16 (e ! 3) (e ! 4), cf_key_slot = e ! 5,
                    cf_name = (take RIVR_CHANNEL_NAME_MAX (drop 6 e))[RIVR_CHANNEL_NAME_MAX - 1 := 0]\<rparr>],
                  ch_membership := (ch_membership t)[i := \<lparr>me_channel_id = get_u16 (e ! 0) (e ! 1), me_joined = (e ! 30 \<noteq> 0),
                    me_muted = (e ! 31 \<noteq> 0), me_hidden = (e ! 32 \<noteq> 0), me_tx_default = (e ! 33 \<noteq> 0)\<rparr>]\<rparr>
       in if e ! 33 \<noteq> 0 then t1\<lparr>ch_tx_default := of_nat i\<rparr> else t1)"

definition channel_persist_load :: "u8 list option \<Rightarrow> rivr_channel_table_t \<Rightarrow> bool \<times> rivr_channel_table_t" where
  "channel_persist_load nvs t =
     (case nvs of
        None \<Rightarrow> (False, t)
      | Some buf \<Rightarrow>
          if length buf < 4 \<or> length buf > 4 + RIVR_MAX_CHANNELS * chan_entry_size then (False, t)
          else if buf ! 0 \<noteq> CHAN_PERSIST_MAGIC then (False, t)
          else if buf ! 1 \<noteq> CHAN_PERSIST_VER then (False, t)
          else
            let n = unat (buf ! 2); entries = chan_entries n buf
            in if n = 0 \<or> n > RIVR_MAX_CHANNELS then (False, t)
               else if length buf < 4 + n * chan_entry_size then (False, t)
               else if chan_crc (take 3 buf) entries \<noteq> buf ! 3 then (False, t)
               else (True, (fold chan_apply (zip [0..<n] entries) t)\<lparr>ch_count := buf ! 2\<rparr>))"

section \<open>The default channel\<close>

definition ch_ok :: "rivr_channel_table_t \<Rightarrow> bool" where
  "ch_ok t \<longleftrightarrow> length (ch_config t) = 8 \<and> length (ch_membership t) = 8 \<and> length (ch_counters t) = 8 \<and> ch_count t = 8 \<and>
     (\<forall>c \<in> set (ch_config t). length (cf_name c) = 24 \<and> cf_name c ! 23 = 0) \<and>
     (\<forall>i < 8. me_channel_id (ch_membership t ! i) = cf_id (ch_config t ! i)) \<and>
     cf_id (ch_config t ! 0) = 0 \<and> cf_name (ch_config t ! 0) ! 0 \<noteq> 0 \<and> me_joined (ch_membership t ! 0) \<and>
     unat (ch_tx_default t) < 8 \<and> me_joined (ch_membership t ! unat (ch_tx_default t)) \<and>
     (\<forall>i < 8. me_tx_default (ch_membership t ! i) \<longleftrightarrow> i = unat (ch_tx_default t))"

lemma all_less_8: "(\<forall>i < (8::nat). P i) \<longleftrightarrow> P 0 \<and> P 1 \<and> P 2 \<and> P 3 \<and> P 4 \<and> P 5 \<and> P 6 \<and> P 7"
  by (simp add: eval_nat_numeral less_Suc_eq) blast

lemma channel_init_ok: "ch_ok channel_init"
  by (simp add: ch_ok_def all_less_8 channel_init_def s_defaults_def s_default_membership_def chan_config_def chan_member_def
      chan_name_def nth_append)

lemma channel_find_slot_ok:
  assumes "ch_ok t" "channel_find_slot t c = Some i" shows "i < 8" and "c \<noteq> 0 \<Longrightarrow> i \<noteq> 0" and "c = 0 \<Longrightarrow> i = 0"
proof -
  have len: "length (ch_config t) = 8" using assms(1) by (simp add: ch_ok_def)
  show "i < 8" using assms(2) len by (auto simp: channel_find_slot_def dest!: find_idx_length split: option.splits if_splits)
  show "c \<noteq> 0 \<Longrightarrow> i \<noteq> 0"
    using assms by (auto simp: channel_find_slot_def ch_ok_def dest!: find_idx_SomeD split: option.splits if_splits)
  assume "c = 0"
  moreover have "find_idx (\<lambda>c. cf_id c = 0 \<and> cf_name c ! 0 \<noteq> 0) (ch_config t) = Some 0"
    using assms(1) len by (cases "ch_config t") (auto simp: ch_ok_def)
  ultimately show "i = 0" using assms(2) by (simp add: channel_find_slot_def)
qed

lemma channel_find_slot_global: "ch_ok t \<Longrightarrow> channel_find_slot t 0 = Some 0"
  using channel_find_slot_ok(3) [of t 0] by (cases "channel_find_slot t 0") (auto simp: channel_find_slot_def split: option.splits)

lemma upd_member_ok:
  assumes "ch_ok t" "\<And>m. me_channel_id (f m) = me_channel_id m" "\<And>m. me_tx_default (f m) = me_tx_default m"
    and "i = 0 \<or> i = unat (ch_tx_default t) \<Longrightarrow> me_joined (f (ch_membership t ! i))"
  shows "ch_ok (upd_member i f t)"
proof (cases "i < 8")
  case True
  with assms True show ?thesis by (auto simp: ch_ok_def upd_member_def nth_list_update)
qed (use assms in \<open>simp add: ch_ok_def upd_member_def list_update_beyond\<close>)

lemma upd_counter_ok: "ch_ok t \<Longrightarrow> ch_ok (upd_counter i f t)"
  by (simp add: ch_ok_def upd_counter_def)

lemma channel_leave_ok:
  assumes "ch_ok t" shows "ch_ok (channel_leave c t)"
proof (cases "c = 0 \<or> channel_find_slot t c = None")
  case True
  with assms show ?thesis by (auto simp: channel_leave_def)
next
  case False
  then obtain i where i: "channel_find_slot t c = Some i" by auto
  note sl = channel_find_slot_ok [OF assms i]
  show ?thesis
  proof (cases "i = unat (ch_tx_default t)")
    case True
    define t1 where "t1 = (upd_member 0 (\<lambda>m. m\<lparr>me_tx_default := True\<rparr>) (upd_member i (\<lambda>m. m\<lparr>me_tx_default := False\<rparr>)
      (upd_member i (\<lambda>m. m\<lparr>me_joined := False\<rparr>) t)))\<lparr>ch_tx_default := 0\<rparr>"
    have "channel_leave c t = t1"
      using False i True sl assms by (simp add: channel_leave_def t1_def upd_member_def ch_ok_def)
    then show ?thesis using sl assms False True
      by (auto simp: t1_def upd_member_def ch_ok_def nth_list_update)
  next
    case other: False
    then have "channel_leave c t = upd_member i (\<lambda>m. m\<lparr>me_joined := False\<rparr>) t"
      using False i sl assms by (simp add: channel_leave_def upd_member_def ch_ok_def)
    with other sl False assms show ?thesis by (auto intro!: upd_member_ok)
  qed
qed

lemma channel_set_tx_default_ok:
  assumes "ch_ok t" shows "ch_ok (snd (channel_set_tx_default c t))"
proof (cases "channel_find_slot t c")
  case None
  with assms show ?thesis by (simp add: channel_set_tx_default_def)
next
  case (Some i)
  note sl = channel_find_slot_ok [OF assms Some]
  have n: "unat (of_nat i :: u8) = i" using sl(1) by (simp only: unat_of_nat) simp
  define ms where "ms = map (\<lambda>m. m\<lparr>me_tx_default := False\<rparr>) (ch_membership t)"
  have ms: "length ms = 8" "\<And>k. k < 8 \<Longrightarrow> me_channel_id (ms ! k) = me_channel_id (ch_membership t ! k)"
    "\<And>k. k < 8 \<Longrightarrow> me_joined (ms ! k) = me_joined (ch_membership t ! k) \<and> \<not> me_tx_default (ms ! k)"
    using assms by (simp_all add: ms_def ch_ok_def comp_def)
  with Some assms n sl(1) ms show ?thesis
    by (auto simp: channel_set_tx_default_def upd_member_def ms_def [symmetric] ch_ok_def nth_list_update)
qed

lemma channel_ops_ok:
  assumes "ch_ok t"
  shows "ch_ok (channel_join c t)" "ch_ok (channel_set_muted c v t)" "ch_ok (channel_set_hidden c v t)"
    "ch_ok (channel_mark_unread c t)" "ch_ok (channel_clear_unread c t)"
proof -
  have j: "me_joined (ch_membership t ! i)" if "i = 0 \<or> i = unat (ch_tx_default t)" for i using that assms by (auto simp: ch_ok_def)
  show "ch_ok (channel_join c t)" "ch_ok (channel_set_muted c v t)" "ch_ok (channel_set_hidden c v t)"
    "ch_ok (channel_mark_unread c t)" "ch_ok (channel_clear_unread c t)"
    using assms j by (auto simp: channel_join_def channel_set_muted_def channel_set_hidden_def channel_mark_unread_def
        channel_clear_unread_def upd_member_ok upd_counter_ok split: option.split)
qed

section \<open>Saving and loading\<close>

definition dec_config :: "u8 list \<Rightarrow> rivr_channel_config_t" where
  "dec_config e = \<lparr>cf_id = get_u16 (e ! 0) (e ! 1), cf_kind = e ! 2, cf_flags = get_u16 (e ! 3) (e ! 4), cf_key_slot = e ! 5,
     cf_name = (take RIVR_CHANNEL_NAME_MAX (drop 6 e))[RIVR_CHANNEL_NAME_MAX - 1 := 0]\<rparr>"

definition dec_member :: "u8 list \<Rightarrow> rivr_channel_membership_t" where
  "dec_member e = \<lparr>me_channel_id = get_u16 (e ! 0) (e ! 1), me_joined = (e ! 30 \<noteq> 0), me_muted = (e ! 31 \<noteq> 0),
     me_hidden = (e ! 32 \<noteq> 0), me_tx_default = (e ! 33 \<noteq> 0)\<rparr>"

lemma chan_apply_eq:
  "chan_apply (i, e) t = t\<lparr>ch_config := (ch_config t)[i := dec_config e], ch_membership := (ch_membership t)[i := dec_member e],
     ch_tx_default := (if e ! 33 \<noteq> 0 then of_nat i else ch_tx_default t)\<rparr>"
  by (simp add: chan_apply_def dec_config_def dec_member_def Let_def)

lemma chan_entry_length [simp]: "length (cf_name c) = 24 \<Longrightarrow> length (chan_entry c m) = 34"
  by (simp add: chan_entry_def put_u16_def)

lemma chan_entry_decodes:
  assumes "length (cf_name c) = 24" "cf_name c ! 23 = 0" "me_channel_id m = cf_id c"
  shows "dec_config (chan_entry c m) = c" "dec_member (chan_entry c m) = m" "chan_entry c m ! 33 \<noteq> 0 \<longleftrightarrow> me_tx_default m"
proof -
  define rest where "rest = cf_name c @ [bool_byte (me_joined m), bool_byte (me_muted m), bool_byte (me_hidden m), bool_byte (me_tx_default m)]"
  have e: "chan_entry c m = ucast (cf_id c) # ucast (drop_bit 8 (cf_id c)) # cf_kind c # ucast (cf_flags c) #
      ucast (drop_bit 8 (cf_flags c)) # cf_key_slot c # rest"
    using assms(1) by (simp add: chan_entry_def put_u16_def rest_def wire_simps)
  have nth: "chan_entry c m ! (6 + k) = rest ! k" for k by (simp add: e)
  have r: "rest ! 24 = bool_byte (me_joined m)" "rest ! 25 = bool_byte (me_muted m)" "rest ! 26 = bool_byte (me_hidden m)"
    "rest ! 27 = bool_byte (me_tx_default m)" "take 24 rest = cf_name c" using assms(1) by (simp_all add: rest_def nth_append)
  have flags: "chan_entry c m ! 30 = bool_byte (me_joined m)" "chan_entry c m ! 31 = bool_byte (me_muted m)"
    "chan_entry c m ! 32 = bool_byte (me_hidden m)" "chan_entry c m ! 33 = bool_byte (me_tx_default m)"
    using nth [of 24] nth [of 25] nth [of 26] nth [of 27] r by simp_all
  have head: "chan_entry c m ! 0 = ucast (cf_id c)" "chan_entry c m ! Suc 0 = ucast (drop_bit 8 (cf_id c))" "chan_entry c m ! 2 = cf_kind c"
    "chan_entry c m ! 3 = ucast (cf_flags c)" "chan_entry c m ! 4 = ucast (drop_bit 8 (cf_flags c))" "chan_entry c m ! 5 = cf_key_slot c"
    "drop 6 (chan_entry c m) = rest"
    by (simp_all add: e)
  have name: "(cf_name c)[23 := 0] = cf_name c" using assms(2) by (metis list_update_id)
  show "dec_config (chan_entry c m) = c" using name by (simp add: dec_config_def head r get_put_u16)
  show "dec_member (chan_entry c m) = m" using assms(3) by (simp add: dec_member_def flags head get_put_u16 bool_byte_def)
  show "chan_entry c m ! 33 \<noteq> 0 \<longleftrightarrow> me_tx_default m" by (simp add: flags bool_byte_def)
qed

lemma take_concat_entry:
  "\<forall>e \<in> set es. length e = k \<Longrightarrow> i < length es \<Longrightarrow> take k (drop (i * k) (concat es)) = es ! i"
proof (induction es arbitrary: i)
  case (Cons e es)
  then show ?case by (cases i) simp_all
qed simp

lemma chan_entries_concat:
  assumes "length hdr = 4" "\<forall>e \<in> set es. length e = 34" shows "chan_entries (length es) (hdr @ concat es) = es"
  using assms take_concat_entry [of es 34] by (intro nth_equalityI) (simp_all add: chan_entries_def)

lemma fold_chan_apply:
  assumes "length es \<le> 8 - k" "length (ch_config t) = 8" "length (ch_membership t) = 8"
  shows "fold chan_apply (zip [k..<k + length es] es) t = t\<lparr>
     ch_config := take k (ch_config t) @ map dec_config es @ drop (k + length es) (ch_config t),
     ch_membership := take k (ch_membership t) @ map dec_member es @ drop (k + length es) (ch_membership t),
     ch_tx_default := fold (\<lambda>(i, e) d. if e ! 33 \<noteq> 0 then of_nat i else d) (zip [k..<k + length es] es) (ch_tx_default t)\<rparr>"
  using assms
proof (induction es arbitrary: k t)
  case (Cons e es)
  have z: "zip [k..<k + length (e # es)] (e # es) = (k, e) # zip [Suc k..<Suc k + length es] es"
    by (simp add: upt_conv_Cons del: upt_Suc)
  have k: "k < 8" "length es \<le> 8 - Suc k" using Cons.prems(1) by auto
  define t1 where "t1 = chan_apply (k, e) t"
  have upd: "take (Suc k) (xs[k := y]) = take k xs @ [y]" "drop (Suc k + n) (xs[k := y]) = drop (k + Suc n) xs"
    if "length xs = 8" for xs :: "'b list" and y n
    using that k(1) by (simp_all add: take_Suc_conv_app_nth)
  have t1: "ch_config t1 = (ch_config t)[k := dec_config e]" "ch_membership t1 = (ch_membership t)[k := dec_member e]"
    "ch_tx_default t1 = (if e ! 33 \<noteq> 0 then of_nat k else ch_tx_default t)" by (simp_all add: t1_def chan_apply_eq)
  have "fold chan_apply (zip [k..<k + length (e # es)] (e # es)) t = fold chan_apply (zip [Suc k..<Suc k + length es] es) t1"
    by (simp only: z fold_simps t1_def)
  also have "\<dots> = t1\<lparr>
     ch_config := take (Suc k) (ch_config t1) @ map dec_config es @ drop (Suc k + length es) (ch_config t1),
     ch_membership := take (Suc k) (ch_membership t1) @ map dec_member es @ drop (Suc k + length es) (ch_membership t1),
     ch_tx_default := fold (\<lambda>(i, e) d. if e ! 33 \<noteq> 0 then of_nat i else d) (zip [Suc k..<Suc k + length es] es) (ch_tx_default t1)\<rparr>"
    by (rule Cons.IH) (use k Cons.prems in \<open>simp_all add: t1\<close>)
  also have "\<dots> = t\<lparr>
     ch_config := take k (ch_config t) @ map dec_config (e # es) @ drop (k + length (e # es)) (ch_config t),
     ch_membership := take k (ch_membership t) @ map dec_member (e # es) @ drop (k + length (e # es)) (ch_membership t),
     ch_tx_default := fold (\<lambda>(i, e) d. if e ! 33 \<noteq> 0 then of_nat i else d) (zip [k..<k + length (e # es)] (e # es)) (ch_tx_default t)\<rparr>"
    unfolding z t1 upd [OF Cons.prems(2)] upd [OF Cons.prems(3)] by (simp add: t1_def chan_apply_eq)
  finally show ?case .
qed simp

lemma fold_default:
  assumes "\<And>i. i < length es \<Longrightarrow> P (es ! i) \<longleftrightarrow> k + i = d"
  shows "fold (\<lambda>(i, e) x. if P e then f i else x) (zip [k..<k + length es] es) x0 = (if k \<le> d \<and> d < k + length es then f d else x0)"
  using assms
proof (induction es arbitrary: k x0)
  case (Cons e es)
  have z: "zip [k..<k + length (e # es)] (e # es) = (k, e) # zip [Suc k..<Suc k + length es] es"
    by (simp add: upt_conv_Cons del: upt_Suc)
  have "P e \<longleftrightarrow> k = d" using Cons.prems [of 0] by simp
  moreover have "\<And>i. i < length es \<Longrightarrow> P (es ! i) \<longleftrightarrow> Suc k + i = d" using Cons.prems [of "Suc i" for i] by simp
  ultimately show ?case unfolding z using Cons.IH [of "Suc k"] by auto
qed auto

lemma chan_entries_of:
  assumes "ch_ok t"
  defines "es \<equiv> map2 chan_entry (ch_config t) (ch_membership t)"
  shows "length es = 8" "\<forall>e \<in> set es. length e = 34" "map dec_config es = ch_config t" "map dec_member es = ch_membership t"
    "\<And>i. i < 8 \<Longrightarrow> es ! i ! 33 \<noteq> 0 \<longleftrightarrow> i = unat (ch_tx_default t)"
proof -
  show len: "length es = 8" using assms by (simp add: ch_ok_def)
  have each: "es ! i = chan_entry (ch_config t ! i) (ch_membership t ! i)" "length (cf_name (ch_config t ! i)) = 24"
    "cf_name (ch_config t ! i) ! 23 = 0" "me_channel_id (ch_membership t ! i) = cf_id (ch_config t ! i)" if "i < 8" for i
    using that assms by (simp_all add: ch_ok_def)
  show "\<forall>e \<in> set es. length e = 34" using each by (auto simp: in_set_conv_nth len)
  show "map dec_config es = ch_config t" "map dec_member es = ch_membership t"
    using assms each len by (auto intro!: nth_equalityI simp: ch_ok_def chan_entry_decodes)
  show "es ! i ! 33 \<noteq> 0 \<longleftrightarrow> i = unat (ch_tx_default t)" if "i < 8" for i
    using that each assms(1) by (simp add: chan_entry_decodes ch_ok_def)
qed

lemma channel_load_blob:
  assumes ok: "ch_ok t" and len: "length (ch_config t0) = 8" "length (ch_membership t0) = 8"
  shows "channel_persist_load (Some (channel_blob t)) t0 = (True, t\<lparr>ch_counters := ch_counters t0\<rparr>)"
proof -
  define es where "es = map2 chan_entry (ch_config t) (ch_membership t)"
  note es = chan_entries_of [OF ok, folded es_def]
  define h where "h = [CHAN_PERSIST_MAGIC, CHAN_PERSIST_VER, 8, chan_crc [CHAN_PERSIST_MAGIC, CHAN_PERSIST_VER, 8] es]"
  have blob: "channel_blob t = h @ concat es" by (simp add: channel_blob_def Let_def es_def h_def)
  have parts: "channel_blob t ! 0 = CHAN_PERSIST_MAGIC" "channel_blob t ! Suc 0 = CHAN_PERSIST_VER" "channel_blob t ! 2 = 8"
    "channel_blob t ! 3 = chan_crc [CHAN_PERSIST_MAGIC, CHAN_PERSIST_VER, 8] es"
    "take 3 (channel_blob t) = [CHAN_PERSIST_MAGIC, CHAN_PERSIST_VER, 8]"
    by (simp_all add: blob h_def numeral_2_eq_2 numeral_3_eq_3)
  have "length (concat es) = length es * 34" using es(2) by (simp add: length_concat map_idI sum_list_triv cong: map_cong)
  then have size: "length (channel_blob t) = 276" by (simp add: blob h_def es(1))
  have ent: "chan_entries 8 (channel_blob t) = es"
    using chan_entries_concat [of h es] es(1,2) by (simp add: blob h_def)
  have d: "fold (\<lambda>(i, e) d. if e ! 33 \<noteq> 0 then of_nat i else d) (zip [0..<8] es) (ch_tx_default t0) = (ch_tx_default t :: u8)"
    using fold_default [of es "\<lambda>e. e ! 33 \<noteq> 0" 0 "unat (ch_tx_default t)" of_nat "ch_tx_default t0"] es ok
    by (simp add: ch_ok_def)
  have "fold chan_apply (zip [0..<8] es) t0 =
      t0\<lparr>ch_config := ch_config t, ch_membership := ch_membership t, ch_tx_default := ch_tx_default t\<rparr>"
    using fold_chan_apply [of es 0 t0] es d len by simp
  moreover have "t0\<lparr>ch_config := ch_config t, ch_membership := ch_membership t, ch_tx_default := ch_tx_default t, ch_count := 8\<rparr> =
      t\<lparr>ch_counters := ch_counters t0\<rparr>" using ok by (simp add: ch_ok_def)
  ultimately show ?thesis
    by (simp add: channel_persist_load_def size parts ent Let_def)
qed

section \<open>Every state of the table\<close>

text \<open>The table and the blob in flash, from the first boot on: the operations in any order, saving with any outcome, and a
  reboot that reads the blob or fails to.\<close>

inductive chan_reach :: "rivr_channel_table_t \<times> u8 list option \<Rightarrow> bool" where
  boot: "chan_reach (channel_init, None)"
| join: "chan_reach (t, nvs) \<Longrightarrow> chan_reach (channel_join c t, nvs)"
| leave: "chan_reach (t, nvs) \<Longrightarrow> chan_reach (channel_leave c t, nvs)"
| mute: "chan_reach (t, nvs) \<Longrightarrow> chan_reach (channel_set_muted c v t, nvs)"
| hide: "chan_reach (t, nvs) \<Longrightarrow> chan_reach (channel_set_hidden c v t, nvs)"
| set_default: "chan_reach (t, nvs) \<Longrightarrow> chan_reach (snd (channel_set_tx_default c t), nvs)"
| unread: "chan_reach (t, nvs) \<Longrightarrow> chan_reach (channel_mark_unread c t, nvs)"
| opened: "chan_reach (t, nvs) \<Longrightarrow> chan_reach (channel_clear_unread c t, nvs)"
| save: "chan_reach (t, nvs) \<Longrightarrow> chan_reach (t, snd (channel_persist_save io t nvs))"
| reboot: "chan_reach (t, nvs) \<Longrightarrow> read = nvs \<or> read = None \<Longrightarrow> chan_reach (snd (channel_persist_load read channel_init), nvs)"

definition chan_inv :: "rivr_channel_table_t \<times> u8 list option \<Rightarrow> bool" where
  "chan_inv s \<longleftrightarrow> ch_ok (fst s) \<and> (snd s = None \<or> (\<exists>t. ch_ok t \<and> snd s = Some (channel_blob t)))"

lemma channel_init_lengths: "length (ch_config channel_init) = 8" "length (ch_membership channel_init) = 8" "length (ch_counters channel_init) = 8"
  using channel_init_ok by (simp_all add: ch_ok_def)

lemma channel_load_ok:
  "ch_ok t \<Longrightarrow> ch_ok (snd (channel_persist_load (Some (channel_blob t)) channel_init))"
  using channel_init_ok by (simp add: channel_load_blob ch_ok_def)

lemma chan_reach_inv: "chan_reach s \<Longrightarrow> chan_inv s"
proof (induction rule: chan_reach.induct)
  case boot
  show ?case by (simp add: chan_inv_def channel_init_ok)
next
  case (save t nvs io)
  then show ?case by (cases io) (auto simp: chan_inv_def channel_persist_save_def)
next
  case (reboot t nvs read)
  have none: "snd (channel_persist_load None channel_init) = channel_init" by (simp add: channel_persist_load_def)
  show ?case
  proof (cases read)
    case None
    with reboot.IH channel_init_ok show ?thesis by (simp add: chan_inv_def none)
  next
    case (Some b)
    with reboot obtain t' where "ch_ok t'" "b = channel_blob t'" by (auto simp: chan_inv_def)
    with reboot.IH channel_load_ok [of t'] Some show ?thesis by (simp add: chan_inv_def)
  qed
qed (simp_all add: chan_inv_def channel_ops_ok channel_leave_ok channel_set_tx_default_ok)

text \<open>in every reachable state exactly one channel carries the default flag; it is joined, it is the channel that
  the accessor names, and Global is joined.\<close>

theorem channel_default_joined:
  assumes "chan_reach (t, nvs)"
  shows "\<exists>i < 8. (\<forall>j < 8. me_tx_default (ch_membership t ! j) \<longleftrightarrow> j = i) \<and> me_joined (ch_membership t ! i) \<and>
    channel_get_tx_default t = cf_id (ch_config t ! i) \<and> channel_is_joined t RIVR_CHAN_GLOBAL"
proof -
  have ok: "ch_ok t" using chan_reach_inv [OF assms] by (simp add: chan_inv_def)
  then have "channel_is_joined t 0" using channel_find_slot_global [OF ok] by (simp add: channel_is_joined_def ch_ok_def)
  with ok show ?thesis
    by (intro exI [of _ "unat (ch_tx_default t)"]) (simp add: ch_ok_def channel_get_tx_default_def)
qed

text \<open>Choosing Ops, saving, leaving Ops, and a reboot that brings it back.\<close>

lemma channel_default_joined_witness:
  "\<exists>t nvs. chan_reach (t, nvs) \<and> channel_get_tx_default t = 1 \<and> channel_is_joined t RIVR_CHAN_GLOBAL"
proof -
  define t1 where "t1 = snd (channel_set_tx_default 1 channel_init)"
  define t2 where "t2 = snd (channel_persist_load (Some (channel_blob t1)) channel_init)"
  have r1: "chan_reach (t1, Some (channel_blob t1))"
    using chan_reach.save [OF chan_reach.set_default [OF chan_reach.boot, of 1], of "Some True"] by (simp add: t1_def channel_persist_save_def)
  have r2: "chan_reach (t2, Some (channel_blob t1))"
    using chan_reach.reboot [OF chan_reach.leave [OF r1, of 1], of "Some (channel_blob t1)"] by (simp add: t2_def)
  have "ch_ok t1" using chan_reach_inv [OF r1] by (simp add: chan_inv_def)
  then have t2: "t2 = t1\<lparr>ch_counters := ch_counters channel_init\<rparr>"
    using channel_load_blob [of t1 channel_init] channel_init_lengths by (simp add: t2_def)
  have "channel_get_tx_default t1 = 1" unfolding t1_def by code_simp
  moreover have "channel_get_tx_default t2 = channel_get_tx_default t1" by (simp add: t2 channel_get_tx_default_def)
  ultimately have "channel_get_tx_default t2 = 1" by simp
  with channel_default_joined [OF r2] r2 show ?thesis by blast
qed

text \<open>The checksum combines those of the entries with exclusive or, so it does not see their order: a blob whose entries
  have changed places is loaded.\<close>

lemma fold_xor: "fold (\<lambda>e crc. crc XOR f e) es c = c XOR fold (\<lambda>e crc. crc XOR f e) es 0" for c :: u8
proof (induction es arbitrary: c)
  case (Cons e es)
  show ?case using Cons.IH [of "c XOR f e"] Cons.IH [of "f e"] by (simp add: xor.assoc)
qed simp

lemma chan_crc_order: "mset es' = mset es \<Longrightarrow> chan_crc h es' = chan_crc h es"
  unfolding chan_crc_def
  by (subst fold_multiset_equiv [of es' _ es]) (simp_all add: fun_eq_iff xor.assoc xor.commute xor.left_commute)

lemma channel_blob_order_unchecked:
  assumes ok: "ch_ok t" and perm: "mset es' = mset (map2 chan_entry (ch_config t) (ch_membership t))"
  shows "fst (channel_persist_load (Some (take 4 (channel_blob t) @ concat es')) t0)"
proof -
  define es where "es = map2 chan_entry (ch_config t) (ch_membership t)"
  note es = chan_entries_of [OF ok, folded es_def]
  have es': "length es' = 8" "\<forall>e \<in> set es'. length e = 34"
    using es(1,2) mset_eq_length [OF perm] mset_eq_setD [OF perm] by (simp_all add: es_def)
  define h where "h = [CHAN_PERSIST_MAGIC, CHAN_PERSIST_VER, 8, chan_crc [CHAN_PERSIST_MAGIC, CHAN_PERSIST_VER, 8] es]"
  have blob: "take 4 (channel_blob t) = h" by (simp add: channel_blob_def Let_def es_def h_def)
  have "length (concat es') = length es' * 34" using es'(2) by (simp add: length_concat map_idI sum_list_triv cong: map_cong)
  then have size: "length (h @ concat es') = 276" by (simp add: h_def es'(1))
  have ent: "chan_entries 8 (h @ concat es') = es'" using chan_entries_concat [of h es'] es' by (simp add: h_def)
  have crc: "chan_crc [CHAN_PERSIST_MAGIC, CHAN_PERSIST_VER, 8] es' = chan_crc [CHAN_PERSIST_MAGIC, CHAN_PERSIST_VER, 8] es"
    by (rule chan_crc_order) (use perm es_def in simp)
  have parts: "(h @ concat es') ! 0 = CHAN_PERSIST_MAGIC" "(h @ concat es') ! Suc 0 = CHAN_PERSIST_VER" "(h @ concat es') ! 2 = 8"
    "(h @ concat es') ! 3 = chan_crc [CHAN_PERSIST_MAGIC, CHAN_PERSIST_VER, 8] es"
    "take 3 (h @ concat es') = [CHAN_PERSIST_MAGIC, CHAN_PERSIST_VER, 8]"
    by (simp_all add: h_def numeral_2_eq_2 numeral_3_eq_3)
  show ?thesis unfolding blob by (simp add: channel_persist_load_def size parts ent crc Let_def del: length_append append_Cons take_append)
qed

end
