(* ===== verification/Rivr_Rml.thy ===== *)
theory Rivr_Rml
  imports Rivr_Node
begin

text \<open>
  The RML message layer (rml/rml_codec.c, rml.c, rml_seen.c, rml_policy.c) and the handler that feeds
  it from the radio (source_handle_rml_frame), as a build with RIVR_ENABLE_RML compiles them. The
  global caches are one record. The properties: an edit made by one node and sent over the air arrives
  in the thread cache of a receiver as the edited text; a status message that is dropped for lack of
  room can never be delivered again; and the handler's own
  airtime figures overflow, so it relays nothing.
\<close>

section \<open>Messages\<close>

abbreviation "RML_MAGIC \<equiv> (0xA7 :: u8)"
abbreviation "RML_VERSION \<equiv> (1 :: u8)"
abbreviation "RML_WIRE_HDR_LEN \<equiv> (28 :: nat)"
abbreviation "RML_FLAG_SUPERSEDES \<equiv> (1 :: u8)"
abbreviation "RML_MAX_PAYLOAD \<equiv> (160 :: u16)"
abbreviation "RML_SEEN_CACHE_SIZE \<equiv> (64 :: nat)"
abbreviation "RML_STATUS_CACHE_SIZE \<equiv> (16 :: nat)"
abbreviation "RML_THREAD_CACHE_SIZE \<equiv> (16 :: nat)"
abbreviation "RML_THREAD_TEXT_MAX \<equiv> (160 :: u16)"
abbreviation "RML_REPAIR_CACHE_SIZE \<equiv> (8 :: nat)"

abbreviation "RML_TYPE_CHAT \<equiv> (1 :: u8)"
abbreviation "RML_TYPE_STATUS \<equiv> (2 :: u8)"
abbreviation "RML_TYPE_DELTA \<equiv> (3 :: u8)"
abbreviation "RML_TYPE_THREAD_SYNC \<equiv> (5 :: u8)"
abbreviation "RML_TYPE_REPAIR_REQUEST \<equiv> (8 :: u8)"
abbreviation "RML_DELTA_APPEND \<equiv> (1 :: u8)"
abbreviation "RML_DELTA_REPLACE \<equiv> (2 :: u8)"
abbreviation "RML_DELTA_DELETE_RANGE \<equiv> (3 :: u8)"
abbreviation "RML_INTENT_CHAT \<equiv> (1 :: u8)"
abbreviation "RML_INTENT_PRIVATE \<equiv> (2 :: u8)"
abbreviation "RML_INTENT_GROUP \<equiv> (3 :: u8)"
abbreviation "RML_INTENT_EMERGENCY \<equiv> (4 :: u8)"
abbreviation "RML_INTENT_TELEMETRY \<equiv> (5 :: u8)"
abbreviation "RML_INTENT_STATUS \<equiv> (6 :: u8)"
abbreviation "RML_INTENT_SYSTEM \<equiv> (7 :: u8)"
abbreviation "RML_REL_OPPORTUNISTIC \<equiv> (0 :: u8)"
abbreviation "RML_REL_REPAIR_REQUEST \<equiv> (3 :: u8)"

datatype rml_reason_t =
    RML_REASON_OK | RML_REASON_SEEN | RML_REASON_EXPIRED | RML_REASON_TTL_ZERO | RML_REASON_DUTY_BLOCKED
  | RML_REASON_QUEUE_FULL | RML_REASON_REPLACED_BY_NEWER_STATUS | RML_REASON_MISSING_PREV
  | RML_REASON_DELTA_APPLIED | RML_REASON_DELTA_FAILED | RML_REASON_REPAIR_NEEDED

record rml_message_t =
  rm_magic :: u8
  rm_version :: u8
  rm_type :: u8
  rm_flags :: u8
  rm_msg_id :: u32
  rm_thread_id :: u32
  rm_prev_id :: u32
  rm_sender_id :: u16
  rm_target_id :: u16
  rm_intent :: u8
  rm_priority :: u8
  rm_ttl :: u8
  rm_reliability :: u8
  rm_expires_s :: u16
  rm_supersedes :: bool
  rm_state_type :: u16
  rm_soft_ttl_s :: u16
  rm_created_ms :: u32
  rm_payload_len :: u16
  rm_payload :: "u8 list"

record rml_context_t =
  cx_local_id :: u16
  cx_now_s :: u32
  cx_now_ms :: u32
  cx_has_time :: bool
  cx_hard_radio_ok :: bool
  cx_duty_cycle_blocked :: bool
  cx_duty_budget_us :: u32
  cx_duty_remaining_us :: u32
  cx_rssi_dbm :: u16
  cx_snr_db :: u8
  cx_queue_depth :: u8
  cx_queue_capacity :: u8
  cx_queue_pressure :: u8
  cx_route_hint_valid :: bool
  cx_target_hint_useful :: bool

record rml_delta_t =
  dl_op :: u8
  dl_offset :: u16
  dl_delete_len :: u16
  dl_data_len :: u16
  dl_data :: "u8 list"

record rml_thread_entry_t =
  te_used :: bool
  te_sender_id :: u16
  te_thread_id :: u32
  te_msg_id :: u32
  te_prev_id :: u32
  te_timestamp_ms :: u32
  te_soft_expire_ms :: u32
  te_payload_len :: u16
  te_payload :: "u8 list"

record rml_status_slot_t =
  ss_sender_id :: u16
  ss_state_type :: u16
  ss_newest_msg_id :: u32
  ss_used :: bool

record rml_repair_request_t =
  rp_missing_msg_id :: u32
  rp_thread_id :: u32
  rp_sender_id :: u16

record rml_policy_decision_t =
  dc_accept :: bool
  dc_relay :: bool
  dc_delay_ms :: u16
  dc_next_ttl :: u8
  dc_reason :: rml_reason_t
  dc_repair_delay_ms :: u16
  dc_forward_reconstructed :: bool
  dc_repair_needed :: bool
  dc_repair :: rml_repair_request_t

record rml_stats_t =
  rs_rx_total :: u32
  rs_rx_bad_magic :: u32
  rs_rx_bad_version :: u32
  rs_rx_too_large :: u32
  rs_rx_seen_drop :: u32
  rs_rx_expired_drop :: u32
  rs_relay_total :: u32
  rs_relay_ttl_drop :: u32
  rs_encode_fail :: u32
  rs_decode_fail :: u32

text \<open>The caches and the statistics.\<close>

record rml_state =
  rl_stats :: rml_stats_t
  rl_seen :: "u32 list"
  rl_seen_next :: u16
  rl_status :: "rml_status_slot_t list"
  rl_threads :: "rml_thread_entry_t list"
  rl_thread_next :: u16
  rl_repairs :: "rml_repair_request_t list"
  rl_repair_next :: u16

definition te_zero :: rml_thread_entry_t where
  "te_zero = \<lparr>te_used = False, te_sender_id = 0, te_thread_id = 0, te_msg_id = 0, te_prev_id = 0, te_timestamp_ms = 0,
     te_soft_expire_ms = 0, te_payload_len = 0, te_payload = replicate 160 0\<rparr>"

definition rp_zero :: rml_repair_request_t where
  "rp_zero = \<lparr>rp_missing_msg_id = 0, rp_thread_id = 0, rp_sender_id = 0\<rparr>"

definition rml_init :: rml_state where
  "rml_init = \<lparr>rl_stats = \<lparr>rs_rx_total = 0, rs_rx_bad_magic = 0, rs_rx_bad_version = 0, rs_rx_too_large = 0, rs_rx_seen_drop = 0,
       rs_rx_expired_drop = 0, rs_relay_total = 0, rs_relay_ttl_drop = 0, rs_encode_fail = 0, rs_decode_fail = 0\<rparr>,
     rl_seen = replicate RML_SEEN_CACHE_SIZE 0, rl_seen_next = 0,
     rl_status = replicate RML_STATUS_CACHE_SIZE \<lparr>ss_sender_id = 0, ss_state_type = 0, ss_newest_msg_id = 0, ss_used = False\<rparr>,
     rl_threads = replicate RML_THREAD_CACHE_SIZE te_zero, rl_thread_next = 0,
     rl_repairs = replicate RML_REPAIR_CACHE_SIZE rp_zero, rl_repair_next = 0\<rparr>"

definition rml_payload_buf :: "u8 list \<Rightarrow> u16 \<Rightarrow> u8 list" where
  "rml_payload_buf src len = take (unat len) src @ replicate (160 - unat len) 0"

section \<open>Codec\<close>

definition rml_header :: "rml_message_t \<Rightarrow> u8 list" where
  "rml_header m = [RML_MAGIC, RML_VERSION, rm_type m,
     (if rm_supersedes m then rm_flags m OR RML_FLAG_SUPERSEDES else rm_flags m)] @
     put_u32 (rm_msg_id m) @ put_u32 (rm_thread_id m) @ put_u32 (rm_prev_id m) @ put_u16 (rm_sender_id m) @ put_u16 (rm_target_id m) @
     [rm_intent m, rm_priority m, rm_ttl m, rm_reliability m] @ put_u16 (rm_expires_s m) @ put_u16 (rm_payload_len m)"

definition rml_encode :: "rml_message_t \<Rightarrow> nat \<Rightarrow> rml_stats_t \<Rightarrow> u8 list option \<times> rml_stats_t" where
  "rml_encode m out_cap st =
     (if rm_payload_len m > RML_MAX_PAYLOAD \<or> out_cap < RML_WIRE_HDR_LEN + unat (rm_payload_len m)
      then (None, st\<lparr>rs_encode_fail := rs_encode_fail st + 1\<rparr>)
      else (Some (rml_header m @ take (unat (rm_payload_len m)) (rm_payload m)), st))"

definition rml_decode :: "u8 list \<Rightarrow> nat \<Rightarrow> rml_stats_t \<Rightarrow> rml_message_t option \<times> rml_stats_t" where
  "rml_decode buf len st =
     (let fail = st\<lparr>rs_decode_fail := rs_decode_fail st + 1\<rparr>
      in if len < RML_WIRE_HDR_LEN then (None, fail)
         else if buf ! 0 \<noteq> RML_MAGIC then (None, fail\<lparr>rs_rx_bad_magic := rs_rx_bad_magic st + 1\<rparr>)
         else if buf ! 1 \<noteq> RML_VERSION then (None, fail\<lparr>rs_rx_bad_version := rs_rx_bad_version st + 1\<rparr>)
         else
           let payload_len = get_u16 (buf ! 26) (buf ! 27)
           in if payload_len > RML_MAX_PAYLOAD then (None, fail\<lparr>rs_rx_too_large := rs_rx_too_large st + 1\<rparr>)
              else if len < RML_WIRE_HDR_LEN + unat payload_len then (None, fail)
              else
                let thread = get_u32 (buf ! 8) (buf ! 9) (buf ! 10) (buf ! 11)
                in (Some \<lparr>rm_magic = buf ! 0, rm_version = buf ! 1, rm_type = buf ! 2, rm_flags = buf ! 3,
                      rm_msg_id = get_u32 (buf ! 4) (buf ! 5) (buf ! 6) (buf ! 7), rm_thread_id = thread,
                      rm_prev_id = get_u32 (buf ! 12) (buf ! 13) (buf ! 14) (buf ! 15),
                      rm_sender_id = get_u16 (buf ! 16) (buf ! 17), rm_target_id = get_u16 (buf ! 18) (buf ! 19),
                      rm_intent = buf ! 20, rm_priority = buf ! 21, rm_ttl = buf ! 22, rm_reliability = buf ! 23,
                      rm_expires_s = get_u16 (buf ! 24) (buf ! 25), rm_supersedes = (buf ! 3 AND RML_FLAG_SUPERSEDES \<noteq> 0),
                      rm_state_type = ucast thread, rm_soft_ttl_s = 0, rm_created_ms = 0, rm_payload_len = payload_len,
                      rm_payload = rml_payload_buf (drop RML_WIRE_HDR_LEN buf) payload_len\<rparr>, st))"

section \<open>Making messages\<close>

definition rml_hash_byte :: "u8 \<Rightarrow> u32 \<Rightarrow> u32" where
  "rml_hash_byte b h = (h XOR ucast b) * 16777619"

definition rml_hash_bytes :: "u8 list \<Rightarrow> u32 \<Rightarrow> u32" where
  "rml_hash_bytes bs h = fold rml_hash_byte bs h"

definition rml_blank :: "u8 \<Rightarrow> u32 \<Rightarrow> u16 \<Rightarrow> u16 \<Rightarrow> rml_message_t" where
  "rml_blank type thread sender target = \<lparr>rm_magic = RML_MAGIC, rm_version = RML_VERSION, rm_type = type, rm_flags = 0, rm_msg_id = 0,
     rm_thread_id = thread, rm_prev_id = 0, rm_sender_id = sender, rm_target_id = target, rm_intent = 0, rm_priority = 0,
     rm_ttl = 0, rm_reliability = 0, rm_expires_s = 0, rm_supersedes = False, rm_state_type = ucast thread, rm_soft_ttl_s = 0,
     rm_created_ms = 0, rm_payload_len = 0, rm_payload = replicate 160 0\<rparr>"

definition rml_make_chat :: "u16 \<Rightarrow> u16 \<Rightarrow> u32 \<Rightarrow> u8 list \<Rightarrow> u16 \<Rightarrow> rml_message_t option" where
  "rml_make_chat sender_id target_id thread_id payload payload_len =
     (if payload_len > RML_MAX_PAYLOAD then None
      else
        let h = rml_hash_bytes (put_u16 sender_id @ put_u16 target_id @ put_u32 thread_id @ put_u16 payload_len @
                  take (unat payload_len) payload) 2166136261
        in Some ((rml_blank RML_TYPE_CHAT thread_id sender_id target_id)\<lparr>
             rm_intent := (if target_id = 0 then RML_INTENT_CHAT else RML_INTENT_PRIVATE), rm_priority := 3, rm_ttl := 8,
             rm_reliability := RML_REL_OPPORTUNISTIC, rm_payload_len := payload_len,
             rm_payload := rml_payload_buf payload payload_len, rm_msg_id := (if h = 0 then 1 else h)\<rparr>))"

definition rml_delta_payload_encode :: "rml_delta_t \<Rightarrow> u16 \<Rightarrow> u8 list option" where
  "rml_delta_payload_encode d out_cap =
     (if dl_data_len d > RML_MAX_PAYLOAD then None
      else if out_cap < 7 + dl_data_len d then None
      else Some ([dl_op d] @ put_u16 (dl_offset d) @ put_u16 (dl_delete_len d) @ put_u16 (dl_data_len d) @
             take (unat (dl_data_len d)) (dl_data d)))"

definition rml_delta_payload_decode :: "u8 list \<Rightarrow> u16 \<Rightarrow> rml_delta_t option" where
  "rml_delta_payload_decode buf len =
     (if len < 7 then None
      else
        let data_len = get_u16 (buf ! 5) (buf ! 6)
        in if data_len > RML_MAX_PAYLOAD \<or> len < 7 + data_len then None
           else Some \<lparr>dl_op = buf ! 0, dl_offset = get_u16 (buf ! 1) (buf ! 2), dl_delete_len = get_u16 (buf ! 3) (buf ! 4),
                  dl_data_len = data_len, dl_data = rml_payload_buf (drop 7 buf) data_len\<rparr>)"

definition rml_make_delta :: "u16 \<Rightarrow> u16 \<Rightarrow> u32 \<Rightarrow> u32 \<Rightarrow> u32 \<Rightarrow> rml_delta_t \<Rightarrow> rml_message_t option" where
  "rml_make_delta sender_id target_id thread_id msg_id prev_id d =
     (case rml_delta_payload_encode d RML_MAX_PAYLOAD of
        None \<Rightarrow> None
      | Some p \<Rightarrow> Some ((rml_blank RML_TYPE_DELTA thread_id sender_id target_id)\<lparr>rm_msg_id := msg_id, rm_prev_id := prev_id,
             rm_intent := RML_INTENT_CHAT, rm_priority := 3, rm_ttl := 8, rm_reliability := RML_REL_REPAIR_REQUEST,
             rm_payload_len := 7 + dl_data_len d, rm_payload := p @ replicate (160 - length p) 0\<rparr>))"

definition rml_make_repair_request :: "u16 \<Rightarrow> u16 \<Rightarrow> rml_repair_request_t \<Rightarrow> rml_message_t" where
  "rml_make_repair_request sender_id target_id r =
     (let h = rp_missing_msg_id r XOR rp_thread_id r XOR push_bit 16 (ucast sender_id)
      in (rml_blank RML_TYPE_REPAIR_REQUEST (rp_thread_id r) sender_id target_id)\<lparr>rm_msg_id := (if h = 0 then 1 else h),
           rm_prev_id := rp_missing_msg_id r, rm_intent := RML_INTENT_SYSTEM, rm_priority := 6, rm_ttl := 3,
           rm_reliability := RML_REL_OPPORTUNISTIC, rm_payload_len := 10,
           rm_payload := put_u32 (rp_missing_msg_id r) @ put_u32 (rp_thread_id r) @ put_u16 (rp_sender_id r) @ replicate 150 0\<rparr>)"

definition rml_repair_request_decode :: "rml_message_t \<Rightarrow> rml_repair_request_t option" where
  "rml_repair_request_decode m =
     (if rm_type m \<noteq> RML_TYPE_REPAIR_REQUEST \<or> rm_payload_len m < 10 then None
      else let p = rm_payload m
           in Some \<lparr>rp_missing_msg_id = get_u32 (p ! 0) (p ! 1) (p ! 2) (p ! 3),
                rp_thread_id = get_u32 (p ! 4) (p ! 5) (p ! 6) (p ! 7), rp_sender_id = get_u16 (p ! 8) (p ! 9)\<rparr>)"

section \<open>Caches\<close>

definition rml_seen :: "u32 \<Rightarrow> rml_state \<Rightarrow> bool" where
  "rml_seen msg_id s \<longleftrightarrow> msg_id \<noteq> 0 \<and> msg_id \<in> set (rl_seen s)"

definition rml_mark_seen :: "u32 \<Rightarrow> rml_state \<Rightarrow> rml_state" where
  "rml_mark_seen msg_id s =
     (if msg_id = 0 \<or> rml_seen msg_id s then s
      else s\<lparr>rl_seen := (rl_seen s)[unat (rl_seen_next s) := msg_id], rl_seen_next := (rl_seen_next s + 1) mod 64\<rparr>)"

definition rml_thread_expire :: "u32 \<Rightarrow> rml_state \<Rightarrow> rml_state" where
  "rml_thread_expire now s =
     (if now = 0 then s
      else s\<lparr>rl_threads := map (\<lambda>e. if te_used e \<and> te_soft_expire_ms e \<noteq> 0 \<and> now \<ge> te_soft_expire_ms e then te_zero else e)
               (rl_threads s)\<rparr>)"

text \<open>The slot of this sender and state type decides; otherwise a free one, or the one the sender hashes to.\<close>

definition rml_status_is_current_or_newer :: "rml_message_t \<Rightarrow> rml_state \<Rightarrow> bool \<times> rml_state" where
  "rml_status_is_current_or_newer m s =
     (case find_idx (\<lambda>t. ss_used t \<and> ss_sender_id t = rm_sender_id m \<and> ss_state_type t = rm_state_type m) (rl_status s) of
        Some i \<Rightarrow>
          if rm_msg_id m \<le> ss_newest_msg_id (rl_status s ! i) then (False, s)
          else (True, s\<lparr>rl_status := (rl_status s)[i := (rl_status s ! i)\<lparr>ss_newest_msg_id := rm_msg_id m\<rparr>]\<rparr>)
      | None \<Rightarrow>
          let slot = (case find_idx (\<lambda>t. \<not> ss_used t) (rl_status s) of
                        Some i \<Rightarrow> i | None \<Rightarrow> unat (rm_sender_id m mod 16))
          in (True, s\<lparr>rl_status := (rl_status s)[slot := \<lparr>ss_sender_id = rm_sender_id m, ss_state_type = rm_state_type m,
                       ss_newest_msg_id = rm_msg_id m, ss_used = True\<rparr>]\<rparr>))"

definition rml_thread_cache_get :: "u16 \<Rightarrow> u32 \<Rightarrow> rml_state \<Rightarrow> rml_thread_entry_t option" where
  "rml_thread_cache_get sender_id thread_id s =
     fold (\<lambda>e best. if te_used e \<and> te_sender_id e = sender_id \<and> te_thread_id e = thread_id
                    then (case best of None \<Rightarrow> Some e
                          | Some b \<Rightarrow> if te_timestamp_ms e \<ge> te_timestamp_ms b then Some e else best)
                    else best) (rl_threads s) None"

definition rml_thread_find_msg :: "u16 \<Rightarrow> u32 \<Rightarrow> u32 \<Rightarrow> rml_state \<Rightarrow> nat option" where
  "rml_thread_find_msg sender_id thread_id msg_id s =
     find_idx (\<lambda>e. te_used e \<and> te_sender_id e = sender_id \<and> te_thread_id e = thread_id \<and> te_msg_id e = msg_id) (rl_threads s)"

definition rml_thread_slot :: "rml_message_t \<Rightarrow> rml_state \<Rightarrow> nat \<times> rml_state" where
  "rml_thread_slot m s =
     (case rml_thread_find_msg (rm_sender_id m) (rm_thread_id m) (rm_msg_id m) s of
        Some i \<Rightarrow> (i, s)
      | None \<Rightarrow>
          let s1 = (if rm_supersedes m
                    then s\<lparr>rl_threads := map (\<lambda>e. if te_used e \<and> te_sender_id e = rm_sender_id m \<and> te_thread_id e = rm_thread_id m
                                                  then te_zero else e) (rl_threads s)\<rparr>
                    else s)
          in (unat (rl_thread_next s1), s1\<lparr>rl_thread_next := (rl_thread_next s1 + 1) mod 16\<rparr>))"

definition rml_thread_store :: "rml_message_t \<Rightarrow> u8 list \<Rightarrow> u16 \<Rightarrow> u32 \<Rightarrow> rml_state \<Rightarrow> bool \<times> rml_state" where
  "rml_thread_store m payload payload_len now s =
     (if payload_len > RML_THREAD_TEXT_MAX then (False, s)
      else case rml_thread_slot m s of
        (i, s1) \<Rightarrow>
          (True, s1\<lparr>rl_threads := (rl_threads s1)[i := \<lparr>te_used = True, te_sender_id = rm_sender_id m, te_thread_id = rm_thread_id m,
             te_msg_id = rm_msg_id m, te_prev_id = rm_prev_id m, te_timestamp_ms = now,
             te_soft_expire_ms = (if rm_soft_ttl_s m = 0 then 0 else now + ucast (rm_soft_ttl_s m) * 1000),
             te_payload_len = payload_len, te_payload = rml_payload_buf payload payload_len\<rparr>]\<rparr>))"

text \<open>The edited text; C computes offsets in 32 bits here, so nothing wraps.\<close>

definition rml_apply_delta :: "rml_thread_entry_t \<Rightarrow> rml_delta_t \<Rightarrow> u8 list option" where
  "rml_apply_delta base d =
     (let blen = unat (te_payload_len base); txt = take blen (te_payload base);
          off = unat (dl_offset d); del = unat (dl_delete_len d); dlen = unat (dl_data_len d); ins = take dlen (dl_data d)
      in if dl_data_len d > RML_MAX_PAYLOAD \<or> off > blen then None
         else if dl_op d = RML_DELTA_APPEND then (if blen + dlen > 160 then None else Some (txt @ ins))
         else if dl_op d = RML_DELTA_REPLACE then
           (if off + del > blen then None
            else if off + dlen + (blen - (off + del)) > 160 then None
            else Some (take off txt @ ins @ drop (off + del) txt))
         else if dl_op d = RML_DELTA_DELETE_RANGE then
           (if off + del > blen \<or> dl_data_len d \<noteq> 0 then None else Some (take off txt @ drop (off + del) txt))
         else None)"

section \<open>Policy\<close>

record rml_intent_policy_t =
  ip_intent :: u8
  ip_max_relay_ttl :: u8
  ip_min_priority :: u8
  ip_base_delay_ms :: u16
  ip_jitter_ms :: u16
  ip_airtime_floor_pct :: u8
  ip_relay_by_default :: bool
  ip_drop_under_pressure :: bool

definition intent_policy :: "u8 \<Rightarrow> u8 \<Rightarrow> u8 \<Rightarrow> u16 \<Rightarrow> u16 \<Rightarrow> u8 \<Rightarrow> bool \<Rightarrow> bool \<Rightarrow> rml_intent_policy_t" where
  "intent_policy i t p b j a r d = \<lparr>ip_intent = i, ip_max_relay_ttl = t, ip_min_priority = p, ip_base_delay_ms = b, ip_jitter_ms = j,
     ip_airtime_floor_pct = a, ip_relay_by_default = r, ip_drop_under_pressure = d\<rparr>"

definition s_intent_policy :: "rml_intent_policy_t list" where
  "s_intent_policy =
    [intent_policy RML_INTENT_CHAT 8 3 90 330 15 True False, intent_policy RML_INTENT_PRIVATE 8 4 60 220 12 False False,
     intent_policy RML_INTENT_GROUP 4 4 120 260 20 True False, intent_policy RML_INTENT_EMERGENCY 8 9 0 35 1 True False,
     intent_policy RML_INTENT_TELEMETRY 3 1 450 700 35 True True, intent_policy RML_INTENT_STATUS 2 2 500 600 30 True True,
     intent_policy RML_INTENT_SYSTEM 3 5 80 160 10 True False]"

definition rml_policy_for_intent :: "u8 \<Rightarrow> rml_intent_policy_t" where
  "rml_policy_for_intent intent =
     (case find_idx (\<lambda>p. ip_intent p = intent) s_intent_policy of Some i \<Rightarrow> s_intent_policy ! i | None \<Rightarrow> s_intent_policy ! 0)"

definition rml_decision :: "bool \<Rightarrow> bool \<Rightarrow> u16 \<Rightarrow> u8 \<Rightarrow> rml_reason_t \<Rightarrow> rml_policy_decision_t" where
  "rml_decision accept relay delay_ms next_ttl reason =
     \<lparr>dc_accept = accept, dc_relay = relay, dc_delay_ms = delay_ms, dc_next_ttl = next_ttl, dc_reason = reason,
      dc_repair_delay_ms = 0, dc_forward_reconstructed = False, dc_repair_needed = False, dc_repair = rp_zero\<rparr>"

definition rml_repair_decision :: "u32 \<Rightarrow> u32 \<Rightarrow> u16 \<Rightarrow> rml_reason_t \<Rightarrow> rml_state \<Rightarrow> rml_policy_decision_t \<times> rml_state" where
  "rml_repair_decision missing thread sender reason s =
     (let r = \<lparr>rp_missing_msg_id = missing, rp_thread_id = thread, rp_sender_id = sender\<rparr>
      in ((rml_decision False False 0 0 reason)\<lparr>dc_repair_needed := True, dc_repair_delay_ms := 750, dc_repair := r\<rparr>,
          s\<lparr>rl_repairs := (rl_repairs s)[unat (rl_repair_next s) := r], rl_repair_next := (rl_repair_next s + 1) mod 8\<rparr>))"

definition rml_mix32 :: "u32 \<Rightarrow> u32" where
  "rml_mix32 v0 =
     (let v1 = (v0 XOR drop_bit 16 v0) * 0x7feb352d; v2 = (v1 XOR drop_bit 15 v1) * 0x846ca68b
      in v2 XOR drop_bit 16 v2)"

definition rml_delay_for :: "rml_message_t \<Rightarrow> rml_context_t \<Rightarrow> rml_intent_policy_t \<Rightarrow> u8 \<Rightarrow> u16" where
  "rml_delay_for m cx p prio =
     (let seed = rm_msg_id m XOR (rm_thread_id m * 2654435761) XOR push_bit 16 (ucast (rm_sender_id m)) XOR ucast (rm_target_id m)
                 XOR cx_now_ms cx XOR push_bit 8 (ucast (ucast (cx_rssi_dbm cx) :: u8)) XOR ucast (cx_snr_db cx);
          jitter = (if ip_jitter_ms p > 0 then ucast (rml_mix32 seed mod (ucast (ip_jitter_ms p) + 1)) else 0);
          delay = ip_base_delay_ms p + jitter
      in if prio \<ge> 8 then delay div 4 else if prio \<ge> 6 then delay div 2 else delay)"

definition rml_queue_pressure :: "rml_context_t \<Rightarrow> u8" where
  "rml_queue_pressure cx =
     (if cx_queue_pressure cx \<noteq> 0 then (if cx_queue_pressure cx > 100 then 100 else cx_queue_pressure cx)
      else if cx_queue_capacity cx = 0 then 0
      else ucast ((ucast (cx_queue_depth cx) * 100 :: u32) div ucast (cx_queue_capacity cx)))"

definition rml_queue_full :: "rml_context_t \<Rightarrow> bool" where
  "rml_queue_full cx \<longleftrightarrow> cx_queue_capacity cx \<noteq> 0 \<and> cx_queue_depth cx \<ge> cx_queue_capacity cx"

definition rml_effective_priority :: "rml_message_t \<Rightarrow> rml_context_t \<Rightarrow> rml_intent_policy_t \<Rightarrow> u8" where
  "rml_effective_priority m cx p =
     (let priority = (if rm_priority m > ip_min_priority p then rm_priority m else ip_min_priority p);
          age_min = (cx_now_ms cx - rm_created_ms m) div 60000
      in if rm_intent m = RML_INTENT_EMERGENCY then 255
         else if rm_created_ms m \<noteq> 0 \<and> cx_now_ms cx > rm_created_ms m
              then (if age_min \<ge> ucast priority then 0 else priority - ucast age_min)
              else priority)"

text \<open>The product is taken in 32 bits.\<close>

definition rml_airtime_allowed :: "rml_context_t \<Rightarrow> rml_intent_policy_t \<Rightarrow> bool" where
  "rml_airtime_allowed cx p \<longleftrightarrow>
     cx_duty_budget_us cx = 0 \<or> ip_airtime_floor_pct p = 0 \<or>
     (cx_duty_remaining_us cx * 100) div cx_duty_budget_us cx \<ge> ucast (ip_airtime_floor_pct p)"

definition rml_handle_delta :: "rml_message_t \<Rightarrow> u32 \<Rightarrow> rml_state \<Rightarrow> rml_policy_decision_t \<times> rml_state" where
  "rml_handle_delta m now s =
     (let failed = rml_decision False False 0 0 RML_REASON_DELTA_FAILED
      in if rm_prev_id m = 0 then rml_repair_decision 0 (rm_thread_id m) (rm_sender_id m) RML_REASON_MISSING_PREV s
         else case rml_thread_find_msg (rm_sender_id m) (rm_thread_id m) (rm_prev_id m) s of
           None \<Rightarrow> rml_repair_decision (rm_prev_id m) (rm_thread_id m) (rm_sender_id m) RML_REASON_REPAIR_NEEDED s
         | Some i \<Rightarrow>
             (case rml_delta_payload_decode (rm_payload m) (rm_payload_len m) of
                None \<Rightarrow> (failed, s)
              | Some d \<Rightarrow>
                  (case rml_apply_delta (rl_threads s ! i) d of
                     None \<Rightarrow> (failed, s)
                   | Some rebuilt \<Rightarrow>
                       (case rml_thread_store m rebuilt (of_nat (length rebuilt)) now s of
                          (ok, s1) \<Rightarrow>
                            if \<not> ok then (failed, s1)
                            else ((rml_decision True False 0 0 RML_REASON_DELTA_APPLIED)\<lparr>dc_forward_reconstructed := True\<rparr>, s1)))))"

definition rml_handle_thread_state :: "rml_message_t \<Rightarrow> rml_context_t \<Rightarrow> rml_state \<Rightarrow> rml_policy_decision_t \<times> rml_state" where
  "rml_handle_thread_state m cx s0 =
     (let now = cx_now_ms cx; s = rml_thread_expire now s0
      in if rm_type m = RML_TYPE_CHAT \<or> rm_type m = RML_TYPE_STATUS \<or> rm_type m = RML_TYPE_THREAD_SYNC then
           (case rml_thread_store m (rm_payload m) (rm_payload_len m) now s of
              (ok, s1) \<Rightarrow> (if ok then rml_decision True False 0 0 RML_REASON_OK
                           else rml_decision False False 0 0 RML_REASON_DELTA_FAILED, s1))
         else if rm_type m = RML_TYPE_DELTA then rml_handle_delta m now s
         else (rml_decision True False 0 0 RML_REASON_OK, s))"

text \<open>The part after acceptance: the relay decision, without side effects but the statistics.\<close>

definition rml_relay_decide ::
  "rml_message_t \<Rightarrow> rml_context_t \<Rightarrow> rml_intent_policy_t \<Rightarrow> u8 \<Rightarrow> rml_policy_decision_t \<Rightarrow> rml_state \<Rightarrow> rml_policy_decision_t \<times> rml_state" where
  "rml_relay_decide m cx p prio st s =
     (let stats = rl_stats s;
          relay1 = (if cx_local_id cx \<noteq> 0 \<and> rm_target_id m = cx_local_id cx then False else ip_relay_by_default p);
          relay2 = (if rm_intent m = RML_INTENT_PRIVATE then cx_route_hint_valid cx \<and> cx_target_hint_useful cx else relay1);
          relay3 = rm_intent m = RML_INTENT_EMERGENCY \<or> dc_forward_reconstructed st \<or> relay2;
          next = (if rm_ttl m - 1 > ip_max_relay_ttl p then ip_max_relay_ttl p else rm_ttl m - 1);
          relay = (relay3 \<and> prio \<noteq> 0 \<and> next \<noteq> 0);
          delay = (if relay then rml_delay_for m cx p prio else 0);
          reason = (if dc_reason st = RML_REASON_DELTA_APPLIED then RML_REASON_DELTA_APPLIED else RML_REASON_OK)
      in if rm_ttl m = 0 then (rml_decision True False 0 0 RML_REASON_TTL_ZERO,
                               s\<lparr>rl_stats := stats\<lparr>rs_relay_ttl_drop := rs_relay_ttl_drop stats + 1\<rparr>\<rparr>)
         else if \<not> cx_hard_radio_ok cx \<or> cx_duty_cycle_blocked cx \<or> \<not> rml_airtime_allowed cx p
           then (rml_decision True False 0 0 RML_REASON_DUTY_BLOCKED, s)
         else if rml_queue_full cx then (rml_decision True False 0 0 RML_REASON_QUEUE_FULL, s)
         else ((rml_decision True relay delay next reason)\<lparr>dc_forward_reconstructed := relay \<and> dc_forward_reconstructed st\<rparr>,
               if relay then s\<lparr>rl_stats := stats\<lparr>rs_relay_total := rs_relay_total stats + 1\<rparr>\<rparr> else s))"

text \<open>The checks before the thread state; Some is the early return.\<close>

definition rml_refuse :: "rml_message_t \<Rightarrow> rml_context_t \<Rightarrow> rml_state \<Rightarrow> rml_reason_t option \<times> rml_state" where
  "rml_refuse m cx s =
     (let stats = rl_stats s; p = rml_policy_for_intent (rm_intent m)
      in if rm_magic m \<noteq> RML_MAGIC then (Some RML_REASON_EXPIRED, s\<lparr>rl_stats := stats\<lparr>rs_rx_bad_magic := rs_rx_bad_magic stats + 1\<rparr>\<rparr>)
         else if rm_version m \<noteq> RML_VERSION
           then (Some RML_REASON_EXPIRED, s\<lparr>rl_stats := stats\<lparr>rs_rx_bad_version := rs_rx_bad_version stats + 1\<rparr>\<rparr>)
         else if rm_payload_len m > RML_MAX_PAYLOAD
           then (Some RML_REASON_EXPIRED, s\<lparr>rl_stats := stats\<lparr>rs_rx_too_large := rs_rx_too_large stats + 1\<rparr>\<rparr>)
         else if rml_seen (rm_msg_id m) s
           then (Some RML_REASON_SEEN, s\<lparr>rl_stats := stats\<lparr>rs_rx_seen_drop := rs_rx_seen_drop stats + 1\<rparr>\<rparr>)
         else if cx_has_time cx \<and> rm_expires_s m \<noteq> 0 \<and> cx_now_s cx > ucast (rm_expires_s m)
           then (Some RML_REASON_EXPIRED, s\<lparr>rl_stats := stats\<lparr>rs_rx_expired_drop := rs_rx_expired_drop stats + 1\<rparr>\<rparr>)
         else case (if rm_intent m = RML_INTENT_STATUS then rml_status_is_current_or_newer m s else (True, s)) of
           (current, s1) \<Rightarrow>
             if \<not> current then (Some RML_REASON_REPLACED_BY_NEWER_STATUS, s1)
             else if ip_drop_under_pressure p \<and> rml_queue_pressure cx \<ge> 85 \<and> rml_effective_priority m cx p < 6
               then (Some RML_REASON_QUEUE_FULL, s1)
             else (None, s1))"

definition rml_policy_decide :: "rml_message_t \<Rightarrow> rml_context_t \<Rightarrow> rml_state \<Rightarrow> rml_policy_decision_t \<times> rml_state" where
  "rml_policy_decide m cx s0 =
     (let p = rml_policy_for_intent (rm_intent m)
      in case rml_refuse m cx s0 of
           (Some reason, s1) \<Rightarrow> (rml_decision False False 0 0 reason, s1)
         | (None, s1) \<Rightarrow>
             (case rml_handle_thread_state m cx s1 of
                (st, s2) \<Rightarrow>
                  if \<not> dc_accept st then (st, s2)
                  else
                    let s3 = rml_mark_seen (rm_msg_id m) s2;
                        s4 = s3\<lparr>rl_stats := (rl_stats s3)\<lparr>rs_rx_total := rs_rx_total (rl_stats s3) + 1\<rparr>\<rparr>
                    in rml_relay_decide m cx p (rml_effective_priority m cx p) st s4))"

section \<open>The receive handler\<close>

definition rml_rx_context :: "u32 \<Rightarrow> rf_rx_frame_t \<Rightarrow> u32 \<Rightarrow> rf_tx_request_t rb_t \<Rightarrow> rml_message_t \<Rightarrow> rml_context_t" where
  "rml_rx_context my_id frame now q m =
     (let local16 = ucast (my_id AND 0xFFFF)
      in \<lparr>cx_local_id = local16, cx_now_s = now div 1000, cx_now_ms = now, cx_has_time = True, cx_hard_radio_ok = True,
          cx_duty_cycle_blocked = False, cx_duty_budget_us = 0xFFFFFFFF, cx_duty_remaining_us = 0xFFFFFFFF,
          cx_rssi_dbm = fr_rssi_dbm frame, cx_snr_db = fr_snr_db frame, cx_queue_depth = ucast (rb_available q),
          cx_queue_capacity = ucast (rb_cap q), cx_queue_pressure = 0, cx_route_hint_valid = (rm_target_id m \<noteq> 0),
          cx_target_hint_useful = (rm_target_id m \<noteq> 0 \<and> rm_target_id m \<noteq> local16)\<rparr>)"

text \<open>The frame to relay: the message with its new hop limit, or the reconstructed text in place of an edit.\<close>

definition rml_relay_message :: "rml_message_t \<Rightarrow> rml_policy_decision_t \<Rightarrow> rml_state \<Rightarrow> rml_message_t option" where
  "rml_relay_message m d s =
     (if dc_forward_reconstructed d then
        (case rml_thread_cache_get (rm_sender_id m) (rm_thread_id m) s of
           None \<Rightarrow> None
         | Some e \<Rightarrow>
             if te_payload_len e > RML_MAX_PAYLOAD then None
             else Some (m\<lparr>rm_type := RML_TYPE_THREAD_SYNC, rm_prev_id := te_prev_id e, rm_payload_len := te_payload_len e,
                      rm_payload := take (unat (te_payload_len e)) (te_payload e) @ drop (unat (te_payload_len e)) (rm_payload m),
                      rm_supersedes := True, rm_ttl := dc_next_ttl d\<rparr>))
      else Some (m\<lparr>rm_ttl := dc_next_ttl d\<rparr>))"

definition rml_relay_push ::
  "(u8 \<Rightarrow> u32) \<Rightarrow> u32 \<Rightarrow> rml_message_t \<Rightarrow> rml_policy_decision_t \<Rightarrow> rml_state \<times> rf_tx_request_t rb_t \<Rightarrow> rml_state \<times> rf_tx_request_t rb_t" where
  "rml_relay_push toa now m d sq =
     (case sq of (s, q) \<Rightarrow>
       case rml_relay_message m d s of
         None \<Rightarrow> (s, q)
       | Some r \<Rightarrow>
           (case rml_encode r 255 (rl_stats s) of
              (None, stats) \<Rightarrow> (s\<lparr>rl_stats := stats\<rparr>, q)
            | (Some bytes, stats) \<Rightarrow>
                if length bytes > 255 then (s\<lparr>rl_stats := stats\<rparr>, q)
                else
                  let len = of_nat (length bytes);
                      req = \<lparr>tx_data = bytes @ replicate (255 - length bytes) 0, tx_len = len, tx_toa_us = toa len,
                             tx_due_ms = (if dc_delay_ms d = 0 then 0 else now + ucast (dc_delay_ms d))\<rparr>
                  in (s\<lparr>rl_stats := stats\<rparr>, snd (rb_try_push req q))))"

text \<open>The result says whether the frame was one of this format, which ends its handling.\<close>

definition source_handle_rml_frame ::
  "(u8 \<Rightarrow> u32) \<Rightarrow> u32 \<Rightarrow> rf_rx_frame_t \<Rightarrow> u32 \<Rightarrow> rml_state \<times> rf_tx_request_t rb_t \<Rightarrow> bool \<times> rml_state \<times> rf_tx_request_t rb_t" where
  "source_handle_rml_frame toa my_id frame now sq =
     (case sq of (s, q) \<Rightarrow>
       if fr_len frame = 0 \<or> fr_data frame ! 0 \<noteq> RML_MAGIC then (False, s, q)
       else case rml_decode (fr_data frame) (unat (fr_len frame)) (rl_stats s) of
         (None, stats) \<Rightarrow> (True, s\<lparr>rl_stats := stats\<rparr>, q)
       | (Some m, stats) \<Rightarrow>
           let s1 = s\<lparr>rl_stats := stats\<rparr>
           in if rm_sender_id m = ucast (my_id AND 0xFFFF) then (True, s1, q)
              else case rml_policy_decide m (rml_rx_context my_id frame now q m) s1 of
                (d, s2) \<Rightarrow>
                  if \<not> dc_accept d then (True, s2, q)
                  else if dc_relay d then (True, rml_relay_push toa now m d (s2, q))
                  else (True, s2, q))"

section \<open>Nothing is relayed\<close>

lemma airtime_never_allowed:
  "rml_airtime_allowed (rml_rx_context my_id frame now q m) (rml_policy_for_intent intent) \<longleftrightarrow> False"
proof -
  have all: "\<forall>p \<in> set s_intent_policy. (ucast (ip_airtime_floor_pct p) :: u32) \<noteq> 0 \<and> ip_airtime_floor_pct p \<noteq> 0"
    by (simp add: s_intent_policy_def intent_policy_def)
  have "rml_policy_for_intent intent \<in> set s_intent_policy"
    by (auto simp: rml_policy_for_intent_def s_intent_policy_def dest!: find_idx_length split: option.split)
  with all have "(ucast (ip_airtime_floor_pct (rml_policy_for_intent intent)) :: u32) \<noteq> 0"
    "ip_airtime_floor_pct (rml_policy_for_intent intent) \<noteq> 0" by blast+
  then show ?thesis by (simp add: rml_airtime_allowed_def rml_rx_context_def Let_def)
qed

lemma rml_decide_no_relay:
  "\<not> dc_relay (fst (rml_policy_decide m (rml_rx_context my_id frame now q m') s))"
proof -
  have rd: "\<not> dc_relay (rml_decision a False d n r)" for a d n r by (simp add: rml_decision_def)
  have "\<not> dc_relay (fst (rml_relay_decide m (rml_rx_context my_id frame now q m') (rml_policy_for_intent i) prio st s))" for i prio st s
    by (simp add: rml_relay_decide_def airtime_never_allowed rd Let_def)
  note relay = this
  have "\<not> dc_relay (fst (rml_handle_thread_state m cx s))" for cx s
    by (auto simp: rml_handle_thread_state_def rml_handle_delta_def rml_repair_decision_def rd Let_def
        rml_decision_def split: prod.split option.split if_splits)
  note thread = this
  have "\<not> dc_relay d" if "rml_handle_thread_state m cx s = (d, s')" for d cx s s' using thread [of cx s] that by simp
  with relay show ?thesis by (auto simp: rml_policy_decide_def Let_def rd split: prod.split option.split)
qed

text \<open>the handler gives itself a full airtime budget of \<open>UINT32_MAX\<close> microseconds, and the percentage of it that remains is
  computed in 32 bits: it wraps to 0 per cent. So no frame of this format is ever relayed.\<close>

theorem rml_relays_nothing:
  "snd (snd (source_handle_rml_frame toa my_id frame now (s, q))) = q"
proof -
  have "snd (snd (if dc_relay (fst r) then (True, rml_relay_push toa now m (fst r) (snd r, q)) else (True, snd r, q))) = q"
    if "r = rml_policy_decide m (rml_rx_context my_id frame now q m) s1" for r m s1
    using that rml_decide_no_relay by simp
  then show ?thesis
    by (auto simp: source_handle_rml_frame_def Let_def rml_decide_no_relay split: prod.split option.split)
      (metis fst_conv rml_decide_no_relay)+
qed

section \<open>Round trips\<close>

text \<open>Messages as the constructors make them: only the fields that travel are set.\<close>

definition rml_wire_ok :: "rml_message_t \<Rightarrow> bool" where
  "rml_wire_ok m \<longleftrightarrow> rm_magic m = RML_MAGIC \<and> rm_version m = RML_VERSION \<and> rm_payload_len m \<le> RML_MAX_PAYLOAD \<and>
     rm_supersedes m = (rm_flags m AND RML_FLAG_SUPERSEDES \<noteq> 0) \<and> rm_state_type m = ucast (rm_thread_id m) \<and>
     rm_soft_ttl_s m = 0 \<and> rm_created_ms m = 0 \<and> length (rm_payload m) = 160 \<and>
     drop (unat (rm_payload_len m)) (rm_payload m) = replicate (160 - unat (rm_payload_len m)) 0"

lemma or_flag_idem: "x AND 1 \<noteq> 0 \<Longrightarrow> x OR 1 = x" for x :: u8
proof (rule bit_word_eqI)
  fix n assume x: "x AND 1 \<noteq> 0"
  then have "bit x 0" by (metis and_one_eq odd_iff_mod_2_eq_one even_iff_mod_2_eq_zero bit_0)
  then show "bit (x OR 1) n = bit x n" by (cases n) (auto simp: bit_or_iff bit_1_iff)
qed

lemma rml_header_length: "length (rml_header m) = 28"
  by (simp add: rml_header_def put_u16_def put_u32_def)

lemma rml_header_flags: "rml_wire_ok m \<Longrightarrow> (if rm_supersedes m then rm_flags m OR RML_FLAG_SUPERSEDES else rm_flags m) = rm_flags m"
  using or_flag_idem by (simp add: rml_wire_ok_def)

lemma rml_codec_roundtrip:
  assumes ok: "rml_wire_ok m" and cap: "28 + unat (rm_payload_len m) \<le> cap"
  shows "\<exists>bytes. rml_encode m cap st = (Some bytes, st) \<and> length bytes = 28 + unat (rm_payload_len m) \<and>
    rml_decode (bytes @ rest) (length bytes) st' = (Some m, st')"
proof -
  define n where "n = unat (rm_payload_len m)"
  define pl where "pl = take n (rm_payload m)"
  have n: "n \<le> 160" using ok by (simp add: rml_wire_ok_def n_def word_le_nat_alt)
  have pl: "length pl = n" using n ok by (simp add: pl_def rml_wire_ok_def)
  have pay: "rm_payload m = pl @ replicate (160 - n) 0"
    using ok append_take_drop_id [of n "rm_payload m"] by (simp add: rml_wire_ok_def pl_def n_def)
  define h where "h = rml_header m"
  have h: "h = [RML_MAGIC, RML_VERSION, rm_type m, rm_flags m] @
     put_u32 (rm_msg_id m) @ put_u32 (rm_thread_id m) @ put_u32 (rm_prev_id m) @ put_u16 (rm_sender_id m) @ put_u16 (rm_target_id m) @
     [rm_intent m, rm_priority m, rm_ttl m, rm_reliability m] @ put_u16 (rm_expires_s m) @ put_u16 (rm_payload_len m)"
    unfolding h_def rml_header_def rml_header_flags [OF ok] ..
  have hl: "length h = 28" by (simp add: h_def rml_header_length)
  have enc: "rml_encode m cap st = (Some (h @ pl), st)"
    using ok cap by (simp add: rml_encode_def rml_wire_ok_def h_def pl_def n_def not_less)
  define b where "b = (h @ pl) @ rest"
  have b: "b ! k = h ! k" if "k < 28" for k using that hl by (simp add: b_def nth_append)
  have fields: "b ! 0 = RML_MAGIC" "b ! Suc 0 = RML_VERSION" "b ! 2 = rm_type m" "b ! 3 = rm_flags m"
    "get_u32 (b ! 4) (b ! 5) (b ! 6) (b ! 7) = rm_msg_id m" "get_u32 (b ! 8) (b ! 9) (b ! 10) (b ! 11) = rm_thread_id m"
    "get_u32 (b ! 12) (b ! 13) (b ! 14) (b ! 15) = rm_prev_id m" "get_u16 (b ! 16) (b ! 17) = rm_sender_id m"
    "get_u16 (b ! 18) (b ! 19) = rm_target_id m" "b ! 20 = rm_intent m" "b ! 21 = rm_priority m" "b ! 22 = rm_ttl m"
    "b ! 23 = rm_reliability m" "get_u16 (b ! 24) (b ! 25) = rm_expires_s m" "get_u16 (b ! 26) (b ! 27) = rm_payload_len m"
    by (simp_all add: b h put_u16_def put_u32_def wire_simps)
  have d: "take n (drop 28 b) = pl" using hl pl by (simp add: b_def)
  have dec: "rml_decode b (28 + n) st' = (Some m, st')"
    using ok n by (simp add: rml_decode_def fields Let_def rml_payload_buf_def d [unfolded n_def] rml_wire_ok_def n_def
        word_le_nat_alt word_less_nat_alt pay [unfolded n_def, symmetric])
  show ?thesis using enc dec hl pl by (auto simp: b_def n_def)
qed

text \<open>What an edit asks for, and the text it leaves when it fits.\<close>

definition spliced :: "rml_delta_t \<Rightarrow> u8 list \<Rightarrow> u8 list" where
  "spliced d old =
     (if dl_op d = RML_DELTA_APPEND then old @ dl_data d
      else take (unat (dl_offset d)) old @ dl_data d @ drop (unat (dl_offset d) + unat (dl_delete_len d)) old)"

definition delta_fits :: "rml_delta_t \<Rightarrow> u8 list \<Rightarrow> bool" where
  "delta_fits d old \<longleftrightarrow> dl_op d \<in> {RML_DELTA_APPEND, RML_DELTA_REPLACE, RML_DELTA_DELETE_RANGE} \<and>
     length (dl_data d) = unat (dl_data_len d) \<and> unat (dl_data_len d) \<le> 153 \<and> unat (dl_offset d) \<le> length old \<and>
     (dl_op d \<noteq> RML_DELTA_APPEND \<longrightarrow> unat (dl_offset d) + unat (dl_delete_len d) \<le> length old) \<and>
     (dl_op d = RML_DELTA_DELETE_RANGE \<longrightarrow> dl_data_len d = 0) \<and> length (spliced d old) \<le> 160"

definition te_text :: "rml_thread_entry_t \<Rightarrow> u8 list" where
  "te_text e = take (unat (te_payload_len e)) (te_payload e)"

definition padded :: "rml_delta_t \<Rightarrow> rml_delta_t" where
  "padded d = d\<lparr>dl_data := dl_data d @ replicate (160 - length (dl_data d)) 0\<rparr>"

lemma rml_apply_delta_spliced:
  assumes fits: "delta_fits d (te_text base)" and base: "unat (te_payload_len base) \<le> length (te_payload base)"
  shows "rml_apply_delta base (padded d) = Some (spliced d (te_text base))"
proof -
  define old where "old = te_text base"
  have len: "length old = unat (te_payload_len base)" using base by (simp add: old_def te_text_def)
  have ins: "take (unat (dl_data_len d)) (dl_data d @ replicate k 0) = dl_data d" for k using fits by (simp add: delta_fits_def)
  have "\<not> dl_data_len d > RML_MAX_PAYLOAD" using fits by (simp add: delta_fits_def word_less_nat_alt)
  with fits show ?thesis
    unfolding rml_apply_delta_def te_text_def [symmetric] old_def [symmetric] padded_def Let_def
    by (auto simp: ins delta_fits_def spliced_def len)
qed

lemma delta_payload_roundtrip:
  assumes "length (dl_data d) = unat (dl_data_len d)" "unat (dl_data_len d) \<le> 153"
  shows "\<exists>p. rml_delta_payload_encode d RML_MAX_PAYLOAD = Some p \<and> length p = 7 + unat (dl_data_len d) \<and>
    rml_delta_payload_decode (p @ rest) (7 + dl_data_len d) = Some (padded d)"
proof -
  define n where "n = unat (dl_data_len d)"
  have sum: "unat (7 + dl_data_len d) = 7 + n" using assms(2) by (simp add: n_def unat_word_ariths)
  define p where "p = [dl_op d] @ put_u16 (dl_offset d) @ put_u16 (dl_delete_len d) @ put_u16 (dl_data_len d) @ dl_data d"
  have enc: "rml_delta_payload_encode d RML_MAX_PAYLOAD = Some p"
    using assms sum by (simp add: rml_delta_payload_encode_def p_def word_less_nat_alt n_def)
  have len: "length p = 7 + n" using assms(1) by (simp add: p_def put_u16_def n_def)
  have d7: "drop 7 (p @ rest) = dl_data d @ rest" by (simp add: p_def put_u16_def)
  have "rml_payload_buf (dl_data d @ rest) (dl_data_len d) = dl_data d @ replicate (160 - length (dl_data d)) 0"
    using assms(1) by (simp add: rml_payload_buf_def)
  then have "rml_delta_payload_decode (p @ rest) (7 + dl_data_len d) = Some (padded d)"
    using assms sum by (simp add: rml_delta_payload_decode_def padded_def d7 Let_def word_less_nat_alt n_def)
      (simp add: p_def put_u16_def wire_simps word_less_nat_alt)
  with enc len show ?thesis by (simp add: n_def)
qed

definition delta_message :: "u16 \<Rightarrow> u16 \<Rightarrow> u32 \<Rightarrow> u32 \<Rightarrow> u32 \<Rightarrow> rml_delta_t \<Rightarrow> u8 list \<Rightarrow> rml_message_t" where
  "delta_message sender target thread mid prev d p =
     (rml_blank RML_TYPE_DELTA thread sender target)\<lparr>rm_msg_id := mid, rm_prev_id := prev, rm_intent := RML_INTENT_CHAT,
       rm_priority := 3, rm_ttl := 8, rm_reliability := RML_REL_REPAIR_REQUEST, rm_payload_len := 7 + dl_data_len d,
       rm_payload := p @ replicate (160 - length p) 0\<rparr>"

lemma delta_message_fields [simp]:
  "rm_magic (delta_message a b c e f d p) = RML_MAGIC" "rm_version (delta_message a b c e f d p) = RML_VERSION"
  "rm_type (delta_message a b c e f d p) = RML_TYPE_DELTA" "rm_flags (delta_message a b c e f d p) = 0"
  "rm_msg_id (delta_message a b c e f d p) = e" "rm_thread_id (delta_message a b c e f d p) = c"
  "rm_prev_id (delta_message a b c e f d p) = f" "rm_sender_id (delta_message a b c e f d p) = a"
  "rm_intent (delta_message a b c e f d p) = RML_INTENT_CHAT" "rm_expires_s (delta_message a b c e f d p) = 0"
  "rm_supersedes (delta_message a b c e f d p) = False" "rm_state_type (delta_message a b c e f d p) = ucast c"
  "rm_soft_ttl_s (delta_message a b c e f d p) = 0" "rm_created_ms (delta_message a b c e f d p) = 0"
  "rm_payload_len (delta_message a b c e f d p) = 7 + dl_data_len d"
  "rm_payload (delta_message a b c e f d p) = p @ replicate (160 - length p) 0"
  by (simp_all add: delta_message_def rml_blank_def)

lemma rml_make_delta_wire:
  assumes "length (dl_data d) = unat (dl_data_len d)" "unat (dl_data_len d) \<le> 153"
  obtains p where "rml_make_delta sender target thread mid prev d = Some (delta_message sender target thread mid prev d p)"
    "rml_wire_ok (delta_message sender target thread mid prev d p)"
    "rml_delta_payload_decode (p @ replicate (160 - length p) 0) (7 + dl_data_len d) = Some (padded d)"
    "7 + dl_data_len d \<le> RML_MAX_PAYLOAD"
proof -
  obtain p where p: "rml_delta_payload_encode d RML_MAX_PAYLOAD = Some p" "length p = 7 + unat (dl_data_len d)"
    "rml_delta_payload_decode (p @ replicate (160 - length p) 0) (7 + dl_data_len d) = Some (padded d)"
  proof -
    obtain p where "rml_delta_payload_encode d RML_MAX_PAYLOAD = Some p \<and> length p = 7 + unat (dl_data_len d) \<and>
        rml_delta_payload_decode (p @ replicate (160 - (7 + unat (dl_data_len d))) 0) (7 + dl_data_len d) = Some (padded d)"
      using delta_payload_roundtrip [OF assms] ..
    then show thesis by (intro that [of p]) simp_all
  qed
  have sum: "unat (7 + dl_data_len d) = 7 + unat (dl_data_len d)" using assms(2) by (simp add: unat_word_ariths)
  have "rml_make_delta sender target thread mid prev d = Some (delta_message sender target thread mid prev d p)"
    by (simp add: rml_make_delta_def p(1) delta_message_def)
  moreover have "7 + dl_data_len d \<le> RML_MAX_PAYLOAD" using assms(2) by (simp add: word_le_nat_alt sum)
  ultimately show thesis using p assms(2) by (intro that [of p]) (simp_all add: rml_wire_ok_def sum)
qed

section \<open>An edit reaches the cache of a receiver\<close>

definition rml_ok :: "rml_state \<Rightarrow> bool" where
  "rml_ok s \<longleftrightarrow> length (rl_threads s) = 16 \<and> unat (rl_thread_next s) < 16 \<and>
     (\<forall>e \<in> set (rl_threads s). unat (te_payload_len e) \<le> length (te_payload e))"

lemma rml_init_ok: "rml_ok rml_init"
  by (simp add: rml_ok_def rml_init_def te_zero_def)

lemma rml_expire_ok: "rml_ok s \<Longrightarrow> rml_ok (rml_thread_expire now s)"
  by (auto simp: rml_ok_def rml_thread_expire_def te_zero_def)

lemma rml_thread_slot_ok:
  assumes "rml_ok s" "rml_thread_slot m s = (i, s1)" "\<not> rm_supersedes m"
  shows "i < 16 \<and> length (rl_threads s1) = 16"
  using assms
  by (auto simp: rml_thread_slot_def rml_ok_def rml_thread_find_msg_def Let_def dest!: find_idx_length split: option.splits)

lemma rml_thread_store_new:
  assumes "rml_ok s" "\<not> rm_supersedes m" "length txt1 \<le> 160"
  shows "\<exists>s1 e. rml_thread_store m txt1 (of_nat (length txt1)) now s = (True, s1) \<and> e \<in> set (rl_threads s1) \<and> te_used e \<and>
    te_sender_id e = rm_sender_id m \<and> te_thread_id e = rm_thread_id m \<and> te_msg_id e = rm_msg_id m \<and> te_text e = txt1"
proof -
  obtain i s1 where sl: "rml_thread_slot m s = (i, s1)" by fastforce
  note ok = rml_thread_slot_ok [OF assms(1) sl assms(2)]
  have n: "unat (of_nat (length txt1) :: u16) = length txt1" using assms(3) by (simp only: unat_of_nat) simp
  define e where "e = \<lparr>te_used = True, te_sender_id = rm_sender_id m, te_thread_id = rm_thread_id m,
    te_msg_id = rm_msg_id m, te_prev_id = rm_prev_id m, te_timestamp_ms = now,
    te_soft_expire_ms = (if rm_soft_ttl_s m = 0 then 0 else now + ucast (rm_soft_ttl_s m) * 1000),
    te_payload_len = of_nat (length txt1), te_payload = rml_payload_buf txt1 (of_nat (length txt1))\<rparr>"
  have "rml_thread_store m txt1 (of_nat (length txt1)) now s = (True, s1\<lparr>rl_threads := (rl_threads s1)[i := e]\<rparr>)"
    using assms(3) n by (simp add: rml_thread_store_def sl e_def word_less_nat_alt)
  moreover have "e \<in> set ((rl_threads s1)[i := e])" using ok by (intro set_update_memI) simp
  moreover have "te_text e = txt1" using n by (simp add: e_def te_text_def rml_payload_buf_def)
  moreover have "te_used e" "te_sender_id e = rm_sender_id m" "te_thread_id e = rm_thread_id m" "te_msg_id e = rm_msg_id m"
    by (simp_all add: e_def)
  ultimately show ?thesis by (intro exI [of _ "s1\<lparr>rl_threads := (rl_threads s1)[i := e]\<rparr>"] exI [of _ e]) simp
qed

lemma rml_relay_decide_accepts:
  "dc_accept (fst (rml_relay_decide m cx p prio st s))" "rl_threads (snd (rml_relay_decide m cx p prio st s)) = rl_threads s"
  by (simp_all add: rml_relay_decide_def rml_decision_def Let_def)

lemma rml_mark_seen_threads [simp]: "rl_threads (rml_mark_seen i s) = rl_threads s"
  by (simp add: rml_mark_seen_def)

lemma rml_refuse_chat:
  assumes "rm_magic m = RML_MAGIC" "rm_version m = RML_VERSION" "rm_payload_len m \<le> RML_MAX_PAYLOAD" "\<not> rml_seen (rm_msg_id m) s"
    and "rm_expires_s m = 0" "rm_intent m = RML_INTENT_CHAT"
  shows "rml_refuse m cx s = (None, s)"
  using assms
  by (simp add: rml_refuse_def Let_def rml_policy_for_intent_def s_intent_policy_def intent_policy_def not_less)

text \<open>C36: An edit is delivered. A sender makes an edit with a new message id against a message (not 0) of the same sender
  and thread that the receiver still has in its cache after the expired entries are gone. If the edit
  fits (it appends, replaces or deletes; its data is at most 153 bytes and as long as it says; offset and range
  lie inside the cached text; a deletion carries no data; the result is at most 160 bytes), then the message
  is built and encoded in 255 bytes, decodes to itself, the receiver's policy accepts it, and the cache holds an
  entry under the identity of the edit whose text is the cached text with the edit spliced in. The receiver's
  state is well formed (sixteen entries, the cursor inside them, no length beyond its buffer) and it has not
  seen the new id.\<close>

theorem rml_edit_delivered:
  assumes ok: "rml_ok s" and new: "\<not> rml_seen mid s" and prev: "prev \<noteq> 0"
    and base: "rml_thread_find_msg sender thread prev (rml_thread_expire (cx_now_ms cx) s) = Some i"
    and fits: "delta_fits d (te_text (rl_threads (rml_thread_expire (cx_now_ms cx) s) ! i))"
  shows "\<exists>m bytes dec s' e. rml_make_delta sender target thread mid prev d = Some m \<and> rml_encode m 255 st = (Some bytes, st) \<and>
    rml_decode bytes (length bytes) st' = (Some m, st') \<and> rml_policy_decide m cx s = (dec, s') \<and> dc_accept dec \<and>
    e \<in> set (rl_threads s') \<and> te_used e \<and> te_sender_id e = sender \<and> te_thread_id e = thread \<and> te_msg_id e = mid \<and>
    te_text e = spliced d (te_text (rl_threads (rml_thread_expire (cx_now_ms cx) s) ! i))"
proof -
  have dl: "length (dl_data d) = unat (dl_data_len d)" "unat (dl_data_len d) \<le> 153" using fits by (simp_all add: delta_fits_def)
  obtain p where p: "rml_make_delta sender target thread mid prev d = Some (delta_message sender target thread mid prev d p)"
    "rml_wire_ok (delta_message sender target thread mid prev d p)"
    "rml_delta_payload_decode (p @ replicate (160 - length p) 0) (7 + dl_data_len d) = Some (padded d)"
    "7 + dl_data_len d \<le> RML_MAX_PAYLOAD"
    by (rule rml_make_delta_wire [OF dl])
  define m where "m = delta_message sender target thread mid prev d p"
  have cap: "28 + unat (rm_payload_len m) \<le> 255" using p(4) by (simp add: m_def word_le_nat_alt)
  obtain bytes where bytes: "rml_encode m 255 st = (Some bytes, st)" "rml_decode (bytes @ []) (length bytes) st' = (Some m, st')"
    using rml_codec_roundtrip [OF p(2) [folded m_def] cap, of st "[]" st'] by blast
  define s1 where "s1 = rml_thread_expire (cx_now_ms cx) s"
  have ok1: "rml_ok s1" using rml_expire_ok [OF ok] by (simp add: s1_def)
  define b where "b = rl_threads s1 ! i"
  have "i < 16" using base ok1 by (auto simp: rml_thread_find_msg_def rml_ok_def s1_def dest!: find_idx_length)
  then have bl: "unat (te_payload_len b) \<le> length (te_payload b)" using ok1 by (simp add: rml_ok_def b_def)
  define new_text where "new_text = spliced d (te_text b)"
  have edited: "rml_apply_delta b (padded d) = Some new_text"
    using rml_apply_delta_spliced [OF _ bl] fits by (simp add: b_def s1_def new_text_def)
  have nl: "length new_text \<le> 160" using fits by (simp add: delta_fits_def new_text_def b_def s1_def)
  obtain s2 e where st: "rml_thread_store m new_text (of_nat (length new_text)) (cx_now_ms cx) s1 = (True, s2)" "e \<in> set (rl_threads s2)"
    "te_used e" "te_sender_id e = sender" "te_thread_id e = thread" "te_msg_id e = mid" "te_text e = new_text"
    using rml_thread_store_new [OF ok1 _ nl, of m "cx_now_ms cx"] by (auto simp: m_def)
  define thread_dec where "thread_dec = (rml_decision True False 0 0 RML_REASON_DELTA_APPLIED)\<lparr>dc_forward_reconstructed := True\<rparr>"
  have "rml_handle_delta m (cx_now_ms cx) s1 = (thread_dec, s2)"
    using prev base p(3) st(1) edited
    by (simp add: rml_handle_delta_def Let_def thread_dec_def m_def b_def s1_def [symmetric])
  then have hs: "rml_handle_thread_state m cx s = (thread_dec, s2)"
    by (simp add: rml_handle_thread_state_def Let_def m_def s1_def [symmetric])
  have acc: "dc_accept thread_dec" by (simp add: thread_dec_def rml_decision_def)
  have ref: "rml_refuse m cx s = (None, s)"
    by (rule rml_refuse_chat) (use p(4) new in \<open>simp_all add: m_def\<close>)
  obtain dec s' where pd: "rml_policy_decide m cx s = (dec, s')" by fastforce
  have "dc_accept (fst (rml_policy_decide m cx s)) \<and> rl_threads (snd (rml_policy_decide m cx s)) = rl_threads s2"
    by (simp add: rml_policy_decide_def Let_def ref hs acc rml_relay_decide_accepts)
  then have "dc_accept dec \<and> rl_threads s' = rl_threads s2" by (simp add: pd)
  then show ?thesis using p(1) bytes pd st(2-7)
    by (intro exI [of _ m] exI [of _ bytes] exI [of _ dec] exI [of _ s'] exI [of _ e]) (simp add: m_def [symmetric] new_text_def b_def s1_def)
qed

section \<open>A status that found no room\<close>

abbreviation status_of :: "rml_message_t \<Rightarrow> rml_status_slot_t \<Rightarrow> bool" where
  "status_of m t \<equiv> ss_used t \<and> ss_sender_id t = rm_sender_id m \<and> ss_state_type t = rm_state_type m"

lemma rml_status_recorded:
  assumes "rml_status_is_current_or_newer m s = (True, s1)" "length (rl_status s) = 16"
  shows "\<exists>j. find_idx (status_of m) (rl_status s1) = Some j \<and> ss_newest_msg_id (rl_status s1 ! j) = rm_msg_id m"
proof -
  obtain i x where i: "i < 16" "rl_status s1 = (rl_status s)[i := x]" "status_of m x" "ss_newest_msg_id x = rm_msg_id m"
    and first: "\<And>k. k < 16 \<Longrightarrow> status_of m (rl_status s ! k) \<Longrightarrow> i \<le> k"
  proof (cases "find_idx (status_of m) (rl_status s)")
    case None
    define slot where "slot = (case find_idx (\<lambda>t. \<not> ss_used t) (rl_status s) of Some i \<Rightarrow> i | None \<Rightarrow> unat (rm_sender_id m mod 16))"
    have "unat (rm_sender_id m mod 16) < 16" by (simp add: unat_mod_distrib)
    then have "slot < 16" using assms(2) by (auto simp: slot_def dest!: find_idx_length split: option.split)
    moreover have none: "\<not> status_of m (rl_status s ! k)" if "k < 16" for k
      using None that assms(2) by (auto simp: find_idx_None)
    moreover have "rl_status s1 = (rl_status s)[slot := \<lparr>ss_sender_id = rm_sender_id m, ss_state_type = rm_state_type m,
        ss_newest_msg_id = rm_msg_id m, ss_used = True\<rparr>]"
      using assms(1) None by (auto simp: rml_status_is_current_or_newer_def slot_def Let_def)
    ultimately show thesis by (intro that [of slot]) auto
  next
    case (Some k)
    note sd = find_idx_SomeD [OF Some]
    define x where "x = (rl_status s ! k)\<lparr>ss_newest_msg_id := rm_msg_id m\<rparr>"
    have "rl_status s1 = (rl_status s)[k := x]"
      using assms(1) Some by (auto simp: rml_status_is_current_or_newer_def x_def split: if_splits)
    moreover have "status_of m x" "ss_newest_msg_id x = rm_msg_id m" using sd by (simp_all add: x_def)
    moreover have "k \<le> l" if "status_of m (rl_status s ! l)" for l using that sd by (intro leI) blast
    ultimately show thesis using sd assms(2) by (intro that [of k x]) simp_all
  qed
  have len: "length (rl_status s1) = 16" using i(2) assms(2) by simp
  have at: "rl_status s1 ! i = x" using i(1,2) assms(2) by simp
  have "find_idx (status_of m) (rl_status s1) \<noteq> None"
  proof -
    have "x \<in> set (rl_status s1)" using at i(1) len nth_mem [of i "rl_status s1"] by simp
    then show ?thesis using i(3) by (auto simp: find_idx_None)
  qed
  then obtain j where j: "find_idx (status_of m) (rl_status s1) = Some j" by blast
  note jd = find_idx_SomeD [OF j]
  have "j \<le> i" by (rule leI) (use jd at i(3) in auto)
  moreover have "\<not> j < i" using jd first [of j] i(2) len by auto
  ultimately have "j = i" by simp
  with j at i(4) show ?thesis by auto
qed

lemma rml_refuse_room:
  assumes "rml_refuse m cx s = (Some RML_REASON_QUEUE_FULL, s1)" "rm_intent m = RML_INTENT_STATUS"
  shows "rml_status_is_current_or_newer m s = (True, s1)" "rm_magic m = RML_MAGIC" "rm_version m = RML_VERSION"
    "\<not> rm_payload_len m > RML_MAX_PAYLOAD"
  using assms by (auto simp: rml_refuse_def Let_def split: if_splits prod.splits)

lemma thread_state_reason: "\<not> dc_accept (fst (rml_handle_thread_state m cx s)) \<Longrightarrow>
  dc_reason (fst (rml_handle_thread_state m cx s)) \<noteq> RML_REASON_QUEUE_FULL"
  by (auto simp: rml_handle_thread_state_def rml_handle_delta_def rml_repair_decision_def rml_decision_def Let_def
      split: prod.splits option.splits if_splits)

text \<open>A status message that is dropped because the queue is nearly full has already been recorded as the newest of its
  sender, so the same message is refused whenever it comes again, whatever room there is then.\<close>

theorem rml_status_lost_under_pressure:
  assumes "length (rl_status s) = 16" "rm_intent m = RML_INTENT_STATUS"
    and "rml_policy_decide m cx s = (d, s1)" "\<not> dc_accept d" "dc_reason d = RML_REASON_QUEUE_FULL"
  shows "\<not> dc_accept (fst (rml_policy_decide m cx' s1))"
proof -
  obtain r s2 where ref: "rml_refuse m cx s = (r, s2)" by fastforce
  have r: "r = Some RML_REASON_QUEUE_FULL \<and> s2 = s1"
  proof (cases r)
    case None
    have "dc_accept (fst (rml_relay_decide m cx p prio st s))" for p prio st s by (rule rml_relay_decide_accepts)
    with None assms(3-5) thread_state_reason [of m cx s2] show ?thesis
      by (auto simp: rml_policy_decide_def Let_def ref split: prod.splits if_splits) (metis fst_conv)+
  next
    case (Some x)
    with assms(3,5) show ?thesis by (auto simp: rml_policy_decide_def Let_def ref rml_decision_def)
  qed
  note room = rml_refuse_room [OF ref [unfolded conjunct1 [OF r]] assms(2), unfolded conjunct2 [OF r]]
  obtain j where j: "find_idx (status_of m) (rl_status s1) = Some j" "ss_newest_msg_id (rl_status s1 ! j) = rm_msg_id m"
    using rml_status_recorded [OF room(1) assms(1)] by blast
  have "rml_status_is_current_or_newer m s1 = (False, s1)" using j by (simp add: rml_status_is_current_or_newer_def)
  then have "fst (rml_refuse m cx' s1) \<noteq> None" using assms(2) by (simp add: rml_refuse_def Let_def)
  then show ?thesis by (auto simp: rml_policy_decide_def Let_def rml_decision_def split: prod.split option.split)
qed

section \<open>Instances\<close>

definition demo_cx :: rml_context_t where
  "demo_cx = \<lparr>cx_local_id = 5, cx_now_s = 1, cx_now_ms = 1000, cx_has_time = True, cx_hard_radio_ok = True,
     cx_duty_cycle_blocked = False, cx_duty_budget_us = 0, cx_duty_remaining_us = 0, cx_rssi_dbm = 0, cx_snr_db = 0, cx_queue_depth = 9,
     cx_queue_capacity = 10, cx_queue_pressure = 0, cx_route_hint_valid = False, cx_target_hint_useful = False\<rparr>"

definition demo_status :: rml_message_t where
  "demo_status = (rml_blank RML_TYPE_STATUS 3 7 0)\<lparr>rm_msg_id := 77, rm_intent := RML_INTENT_STATUS, rm_ttl := 2\<rparr>"

lemma rml_status_lost_under_pressure_witness:
  "\<not> dc_accept (fst (rml_policy_decide demo_status (demo_cx\<lparr>cx_queue_depth := 0\<rparr>) (snd (rml_policy_decide demo_status demo_cx rml_init))))"
proof -
  obtain d s1 where r: "rml_policy_decide demo_status demo_cx rml_init = (d, s1)" by fastforce
  have "dc_reason (fst (rml_policy_decide demo_status demo_cx rml_init)) = RML_REASON_QUEUE_FULL \<and>
      \<not> dc_accept (fst (rml_policy_decide demo_status demo_cx rml_init))" by code_simp
  then have "dc_reason d = RML_REASON_QUEUE_FULL" "\<not> dc_accept d" by (simp_all add: r)
  moreover have "length (rl_status rml_init) = 16" "rm_intent demo_status = RML_INTENT_STATUS"
    by (simp_all add: rml_init_def demo_status_def)
  ultimately show ?thesis using rml_status_lost_under_pressure [of rml_init demo_status demo_cx d s1 "demo_cx\<lparr>cx_queue_depth := 0\<rparr>"] r
    by simp
qed

text \<open>The text "meet" of message 70, and the edit that makes it "meet at 9".\<close>

definition demo_rml :: rml_state where
  "demo_rml = rml_init\<lparr>rl_threads := \<lparr>te_used = True, te_sender_id = 3, te_thread_id = 7, te_msg_id = 70, te_prev_id = 0,
     te_timestamp_ms = 10, te_soft_expire_ms = 0, te_payload_len = 4, te_payload = [109, 101, 101, 116] @ replicate 156 0\<rparr> #
     replicate 15 te_zero, rl_thread_next := 1\<rparr>"

definition demo_edit :: rml_delta_t where
  "demo_edit = \<lparr>dl_op = RML_DELTA_APPEND, dl_offset = 0, dl_delete_len = 0, dl_data_len = 5, dl_data = [32, 97, 116, 32, 57]\<rparr>"

lemma demo_rml_facts:
  "rml_ok demo_rml" "\<not> rml_seen 71 demo_rml" "rml_thread_find_msg 3 7 70 (rml_thread_expire 1000 demo_rml) = Some 0"
  "te_text (rl_threads (rml_thread_expire 1000 demo_rml) ! 0) = [109, 101, 101, 116]"
  by (simp_all add: demo_rml_def rml_ok_def rml_init_def te_zero_def rml_seen_def rml_thread_find_msg_def rml_thread_expire_def te_text_def)

lemma rml_edit_delivered_witness:
  "\<exists>m bytes dec s' e. rml_make_delta 3 0 7 71 70 demo_edit = Some m \<and> rml_encode m 255 (rl_stats rml_init) = (Some bytes, rl_stats rml_init) \<and>
    rml_decode bytes (length bytes) (rl_stats rml_init) = (Some m, rl_stats rml_init) \<and> rml_policy_decide m demo_cx demo_rml = (dec, s') \<and>
    dc_accept dec \<and> e \<in> set (rl_threads s') \<and> te_used e \<and> te_msg_id e = 71 \<and>
    te_text e = [109, 101, 101, 116, 32, 97, 116, 32, 57]"
proof -
  have now: "cx_now_ms demo_cx = 1000" by (simp add: demo_cx_def)
  have "delta_fits demo_edit [109, 101, 101, 116]" "spliced demo_edit [109, 101, 101, 116] = [109, 101, 101, 116, 32, 97, 116, 32, 57]"
    by (simp_all add: delta_fits_def spliced_def demo_edit_def)
  then show ?thesis
    using rml_edit_delivered [of demo_rml 71 70 3 7 demo_cx 0 demo_edit 0 "rl_stats rml_init" "rl_stats rml_init"] demo_rml_facts
    unfolding now by auto
qed

end
