(* ===== verification/Rivr_Sha512.thy ===== *)
theory Rivr_Sha512
  imports Rivr_Sha256
begin

text \<open>
  SHA-512 as ed25519_verify.c streams it: the compression function, the buffered update by whole blocks,
  the padding of the last one or two blocks. As in Rivr_Sha256, the streaming code is proved equal to a
  direct reading of FIPS 180-4 over the concatenated message; lengths are below 2^61 bytes, where the
  high word of the bit count is zero.
\<close>

section \<open>SHA-512\<close>

record sha512_t =
  s5_h :: "u64 list"
  s5_buf :: "u8 list"
  s5_lo :: u64
  s5_hi :: u64

definition K512 :: "u64 list" where
  "K512 = concat
     [[0x428a2f98d728ae22, 0x7137449123ef65cd, 0xb5c0fbcfec4d3b2f, 0xe9b5dba58189dbbc,
       0x3956c25bf348b538, 0x59f111f1b605d019, 0x923f82a4af194f9b, 0xab1c5ed5da6d8118],
      [0xd807aa98a3030242, 0x12835b0145706fbe, 0x243185be4ee4b28c, 0x550c7dc3d5ffb4e2,
       0x72be5d74f27b896f, 0x80deb1fe3b1696b1, 0x9bdc06a725c71235, 0xc19bf174cf692694],
      [0xe49b69c19ef14ad2, 0xefbe4786384f25e3, 0x0fc19dc68b8cd5b5, 0x240ca1cc77ac9c65,
       0x2de92c6f592b0275, 0x4a7484aa6ea6e483, 0x5cb0a9dcbd41fbd4, 0x76f988da831153b5],
      [0x983e5152ee66dfab, 0xa831c66d2db43210, 0xb00327c898fb213f, 0xbf597fc7beef0ee4,
       0xc6e00bf33da88fc2, 0xd5a79147930aa725, 0x06ca6351e003826f, 0x142929670a0e6e70],
      [0x27b70a8546d22ffc, 0x2e1b21385c26c926, 0x4d2c6dfc5ac42aed, 0x53380d139d95b3df,
       0x650a73548baf63de, 0x766a0abb3c77b2a8, 0x81c2c92e47edaee6, 0x92722c851482353b],
      [0xa2bfe8a14cf10364, 0xa81a664bbc423001, 0xc24b8b70d0f89791, 0xc76c51a30654be30,
       0xd192e819d6ef5218, 0xd69906245565a910, 0xf40e35855771202a, 0x106aa07032bbd1b8],
      [0x19a4c116b8d2d0c8, 0x1e376c085141ab53, 0x2748774cdf8eeb99, 0x34b0bcb5e19b48a8,
       0x391c0cb3c5c95a63, 0x4ed8aa4ae3418acb, 0x5b9cca4f7763e373, 0x682e6ff3d6b2b8a3],
      [0x748f82ee5defb2fc, 0x78a5636f43172f60, 0x84c87814a1f0ab72, 0x8cc702081a6439ec,
       0x90befffa23631e28, 0xa4506cebde82bde9, 0xbef9a3f7b2c67915, 0xc67178f2e372532b],
      [0xca273eceea26619c, 0xd186b8c721c0c207, 0xeada7dd6cde0eb1e, 0xf57d4f7fee6ed178,
       0x06f067aa72176fba, 0x0a637dc5a2c898a6, 0x113f9804bef90dae, 0x1b710b35131c471b],
      [0x28db77f523047d84, 0x32caab7b40c72493, 0x3c9ebe0a15c9bebc, 0x431d67c49c100d4c,
       0x4cc5d4becb3e42b6, 0x597f299cfc657e2a, 0x5fcb6fab3ad6faec, 0x6c44198c4a475817]]"

definition ROR64 :: "u64 \<Rightarrow> nat \<Rightarrow> u64" where
  "ROR64 x n = drop_bit n x OR push_bit (64 - n) x"

definition CH64 :: "u64 \<Rightarrow> u64 \<Rightarrow> u64 \<Rightarrow> u64" where
  "CH64 x y z = (x AND y) XOR (NOT x AND z)"

definition MAJ64 :: "u64 \<Rightarrow> u64 \<Rightarrow> u64 \<Rightarrow> u64" where
  "MAJ64 x y z = (x AND y) XOR (x AND z) XOR (y AND z)"

definition EP0_512 :: "u64 \<Rightarrow> u64" where
  "EP0_512 x = ROR64 x 28 XOR ROR64 x 34 XOR ROR64 x 39"

definition EP1_512 :: "u64 \<Rightarrow> u64" where
  "EP1_512 x = ROR64 x 14 XOR ROR64 x 18 XOR ROR64 x 41"

definition S0_512 :: "u64 \<Rightarrow> u64" where
  "S0_512 x = ROR64 x 1 XOR ROR64 x 8 XOR drop_bit 7 x"

definition S1_512 :: "u64 \<Rightarrow> u64" where
  "S1_512 x = ROR64 x 19 XOR ROR64 x 61 XOR drop_bit 6 x"

definition be64 :: "u8 list \<Rightarrow> u64" where
  "be64 b = foldl (\<lambda>w x. push_bit 8 w OR ucast x) 0 (take 8 b)"

definition sched512_step :: "u64 list \<Rightarrow> u64 list" where
  "sched512_step W =
     (let i = length W in W @ [S1_512 (W ! (i - 2)) + W ! (i - 7) + S0_512 (W ! (i - 15)) + W ! (i - 16)])"

definition schedule512 :: "u8 list \<Rightarrow> u64 list" where
  "schedule512 data = (sched512_step ^^ 64) (map (\<lambda>i. be64 (drop (8 * i) data)) [0..<16])"

text \<open>The working variables a to h, in this order.\<close>

definition round512 :: "u64 list \<Rightarrow> nat \<Rightarrow> u64 list \<Rightarrow> u64 list" where
  "round512 W i v =
     (let t1 = v ! 7 + EP1_512 (v ! 4) + CH64 (v ! 4) (v ! 5) (v ! 6) + K512 ! i + W ! i;
          t2 = EP0_512 (v ! 0) + MAJ64 (v ! 0) (v ! 1) (v ! 2)
      in [t1 + t2, v ! 0, v ! 1, v ! 2, v ! 3 + t1, v ! 4, v ! 5, v ! 6])"

definition compress512 :: "u64 list \<Rightarrow> u8 list \<Rightarrow> u64 list" where
  "compress512 h data = map2 (+) h (fold (round512 (schedule512 data)) [0..<80] h)"

definition sha512_transform :: "sha512_t \<Rightarrow> u8 list \<Rightarrow> sha512_t" where
  "sha512_transform ctx data = ctx\<lparr>s5_h := compress512 (s5_h ctx) data\<rparr>"

definition sha512_iv :: "u64 list" where
  "sha512_iv =
     [0x6a09e667f3bcc908, 0xbb67ae8584caa73b, 0x3c6ef372fe94f82b, 0xa54ff53a5f1d36f1,
      0x510e527fade682d1, 0x9b05688c2b3e6c1f, 0x1f83d9abfb41bd6b, 0x5be0cd19137e2179]"

text \<open>The buffer of a fresh context is not initialised; it is an argument.\<close>

definition sha512_init :: "u8 list \<Rightarrow> sha512_t" where
  "sha512_init junk = \<lparr>s5_h = sha512_iv, s5_buf = junk, s5_lo = 0, s5_hi = 0\<rparr>"

definition s5_used :: "sha512_t \<Rightarrow> nat" where
  "s5_used ctx = unat (drop_bit 3 (s5_lo ctx) AND 127)"

fun sha512_blocks :: "nat \<Rightarrow> sha512_t \<Rightarrow> u8 list \<Rightarrow> sha512_t \<times> u8 list" where
  "sha512_blocks 0 ctx data = (ctx, data)"
| "sha512_blocks (Suc n) ctx data = sha512_blocks n (sha512_transform ctx data) (drop 128 data)"

definition put_at :: "u8 list \<Rightarrow> nat \<Rightarrow> u8 list \<Rightarrow> u8 list" where
  "put_at buf k data = take k buf @ data @ drop (k + length data) buf"

text \<open>The \<open>while\<close> loop runs once for every whole block; the length is below 2^61.\<close>

definition sha512_update :: "sha512_t \<Rightarrow> u8 list \<Rightarrow> sha512_t" where
  "sha512_update ctx data =
     (let used = s5_used ctx;
          lo = s5_lo ctx + push_bit 3 (of_nat (length data));
          hi = (if lo < push_bit 3 (of_nat (length data)) then s5_hi ctx + 1 else s5_hi ctx)
               + drop_bit 61 (of_nat (length data));
          c = ctx\<lparr>s5_lo := lo, s5_hi := hi\<rparr>; room = 128 - used
      in if length data \<ge> room then
           (let full = put_at (s5_buf c) used (take room data);
                c1 = sha512_transform (c\<lparr>s5_buf := full\<rparr>) full
            in case sha512_blocks ((length data - room) div 128) c1 (drop room data) of
                 (c2, rest) \<Rightarrow> c2\<lparr>s5_buf := put_at (s5_buf c2) 0 rest\<rparr>)
         else c\<lparr>s5_buf := put_at (s5_buf c) used data\<rparr>)"

definition be64_bytes :: "u64 \<Rightarrow> u8 list" where
  "be64_bytes w = map (\<lambda>i. ucast (drop_bit (56 - 8 * i) w)) [0..<8]"

definition sha512_final :: "sha512_t \<Rightarrow> u8 list" where
  "sha512_final ctx =
     (let used = s5_used ctx;
          c1 = ctx\<lparr>s5_buf := put_at (s5_buf ctx) used [0x80]\<rparr>; used1 = used + 1;
          (c2, used2) =
            (if used1 > 112 then
               (let b = put_at (s5_buf c1) used1 (replicate (128 - used1) 0)
                in (sha512_transform (c1\<lparr>s5_buf := b\<rparr>) b, 0))
             else (c1, used1));
          b = put_at (put_at (put_at (s5_buf c2) used2 (replicate (112 - used2) 0)) 112 (be64_bytes (s5_hi c2)))
                120 (be64_bytes (s5_lo c2))
      in concat (map be64_bytes (s5_h (sha512_transform (c2\<lparr>s5_buf := b\<rparr>) b))))"

definition sha512_3 :: "u8 list \<Rightarrow> u8 list \<Rightarrow> u8 list \<Rightarrow> u8 list \<Rightarrow> u8 list" where
  "sha512_3 junk a b c = sha512_final (sha512_update (sha512_update (sha512_update (sha512_init junk) a) b) c)"

section \<open>The standard\<close>

text \<open>The schedule of FIPS 180-4, section 6.4.2, as a recursion over the word index, and the compression of a
  block, with the functions of the standard in Rivr_Sha256 at the amounts of section 4.1.3.\<close>

fun fips512_W :: "u8 list \<Rightarrow> nat \<Rightarrow> u64" where
  "fips512_W block t =
     (if t < 16 then of_nat (be_nat (take 8 (drop (8 * t) block)))
      else fips_SMALL [19, 61] 6 (fips512_W block (t - 2)) + fips512_W block (t - 7)
           + fips_SMALL [1, 8] 7 (fips512_W block (t - 15)) + fips512_W block (t - 16))"

declare fips512_W.simps [simp del]

definition fips512_compress :: "u8 list \<Rightarrow> u64 list \<Rightarrow> u64 list" where
  "fips512_compress block H =
     map2 (+) H (fold (fips_step (fips_BIG [28, 34, 39]) (fips_BIG [14, 18, 41])) (zip K512 (map (fips512_W block) [0..<80])) H)"

definition blocks128 :: "nat \<Rightarrow> u8 list \<Rightarrow> u8 list list" where
  "blocks128 n msg = map (\<lambda>i. take 128 (drop (128 * i) msg)) [0..<n]"

definition fips512_pad :: "u8 list \<Rightarrow> u8 list" where
  "fips512_pad msg =
     msg @ [0x80] @ replicate ((239 - length msg mod 128) mod 128) 0 @
     be_bytes 16 (8 * length msg)"

definition fips_sha512 :: "u8 list \<Rightarrow> u8 list" where
  "fips_sha512 msg =
     (let p = fips512_pad msg
      in concat (map (be_bytes 8 \<circ> unat) (fold fips512_compress (blocks128 (length p div 128) p) sha512_iv)))"

section \<open>The compression function\<close>

lemma ROR64_rotr: "n < 64 \<Longrightarrow> ROR64 x n = word_rotr n x"
  using rotr_shifts [of n x] by (simp add: ROR64_def)

lemma sha512_functions:
  "CH64 = fips_Ch" "MAJ64 = fips_Maj" "EP0_512 = fips_BIG [28, 34, 39]" "EP1_512 = fips_BIG [14, 18, 41]"
  "S0_512 = fips_SMALL [1, 8] 7" "S1_512 = fips_SMALL [19, 61] 6"
  by (rule ext, simp add: CH64_def MAJ64_def Ch_bits Maj_bits fun_eq_iff EP0_512_def EP1_512_def S0_512_def S1_512_def
      ROR64_rotr fips_BIG_def fips_SMALL_def xor.assoc)+

lemma be64_nat: "be64 bs = of_nat (be_nat (take 8 bs))"
  by (simp add: be64_def shift_in_bytes)

lemma put_be64_fun: "put_be64 = be_bytes 8 \<circ> unat"
proof (rule ext)
  show "put_be64 w = (be_bytes 8 \<circ> unat) w" for w using put_be64_bytes [of "unat w"] by simp
qed

lemma be_bytes_split: "be_bytes 16 n = put_be64 (of_nat (n div 2 ^ 64)) @ put_be64 (of_nat n)"
  by (simp add: put_be64_bytes be_bytes_def upt_rec div_mult2_eq [symmetric])

text \<open>The rounds.\<close>

lemma round512_step:
  "length v = 8 \<Longrightarrow> round512 W i v = fips_step (fips_BIG [28, 34, 39]) (fips_BIG [14, 18, 41]) (K512 ! i, W ! i) v"
  by (auto simp: round512_def sha512_functions Let_def length_Suc_conv numeral_eq_Suc)

lemma round512_fold:
  "length v = 8 \<Longrightarrow> fold (round512 W) is v = fold (\<lambda>i. fips_step (fips_BIG [28, 34, 39]) (fips_BIG [14, 18, 41]) (K512 ! i, W ! i)) is v"
  by (induction "is" arbitrary: v) (simp_all add: round512_step fips_step_length)

lemma K512_length: "length K512 = 80"
  by (simp add: K512_def)

lemma fips512_compress_length: "length H = 8 \<Longrightarrow> length (fips512_compress block H) = 8"
  unfolding fips512_compress_def by (simp add: fold_length [of 8] fips_step_length)

lemma fips512_state_length: "length H = 8 \<Longrightarrow> length (fold fips512_compress bs H) = 8"
  by (rule fold_length) (simp_all add: fips512_compress_length)

lemma sha512_iv_length: "length sha512_iv = 8"
  by (simp add: sha512_iv_def)

lemma fips512_W_low: "t < 16 \<Longrightarrow> fips512_W block t = be64 (drop (8 * t) block)"
  by (subst fips512_W.simps) (simp add: be64_nat)

lemma schedule512_prefix:
  "(sched512_step ^^ n) (map (\<lambda>i. be64 (drop (8 * i) data)) [0..<16]) = map (fips512_W data) [0..<16 + n]"
proof (induction n)
  case 0
  show ?case by (auto simp: fips512_W_low simp del: upt_rec_numeral)
next
  case (Suc n)
  have "fips512_W data (16 + n) = S1_512 (fips512_W data (14 + n)) + fips512_W data (9 + n) + S0_512 (fips512_W data (1 + n)) + fips512_W data n"
    by (subst fips512_W.simps) (simp add: sha512_functions)
  moreover have "[0..<16 + Suc n] = [0..<16 + n] @ [16 + n]" by (simp only: add_Suc_right upt_Suc) simp
  ultimately show ?case using Suc by (simp add: sched512_step_def Let_def nth_map_upt del: upt_Suc)
qed

lemma compress512_standard: "length h = 8 \<Longrightarrow> compress512 h data = fips512_compress data h"
  using schedule512_prefix [of 64 data]
  by (simp add: compress512_def fips512_compress_def schedule512_def round512_fold fold_zip_nth K512_length del: upt_rec_numeral)

text \<open>Only the first 128 bytes matter.\<close>

lemma fips512_compress_take: "fips512_compress (take 128 data) h = fips512_compress data h"
proof -
  have "fips512_W (take 128 data) t = fips512_W data t" for t
  proof (induction t rule: less_induct)
    case (less t)
    show ?case
    proof (cases "t < 16")
      case True
      then have "take 8 (drop (8 * t) (take 128 data)) = take 8 (drop (8 * t) data)" by (simp add: drop_take)
      then show ?thesis unfolding fips512_W_low [OF True] be64_def by simp
    next
      case False
      with less show ?thesis by (subst (1 2) fips512_W.simps) simp
    qed
  qed
  then have "fips512_W (take 128 data) = fips512_W data" by (rule ext)
  then show ?thesis by (simp only: fips512_compress_def)
qed

lemma sha512_blocks_exact:
  "length (s5_h ctx) = 8 \<Longrightarrow> sha512_blocks n ctx data = (ctx\<lparr>s5_h := fold fips512_compress (blocks128 n data) (s5_h ctx)\<rparr>, drop (128 * n) data)"
proof (induction n arbitrary: ctx data)
  case (Suc n)
  have "[0..<Suc n] = 0 # map Suc [0..<n]" by (simp add: map_Suc_upt upt_conv_Cons del: upt_Suc)
  then have "blocks128 (Suc n) data = take 128 data # blocks128 n (drop 128 data)"
    by (simp add: blocks128_def comp_def add.commute del: upt_Suc)
  then show ?case
    by (simp add: Suc sha512_transform_def compress512_standard fips512_compress_length fips512_compress_take add.commute)
qed (simp add: blocks128_def)

section \<open>Buffering\<close>

lemma blocks128_append: "128 * n \<le> length msg \<Longrightarrow> blocks128 n (msg @ x) = blocks128 n msg"
  by (auto simp: blocks128_def)

lemma blocks128_add: "blocks128 (m + n) msg = blocks128 m msg @ blocks128 n (drop (128 * m) msg)"
  by (induction n) (simp_all add: blocks128_def add.assoc distrib_left add.commute)

text \<open>What a context holds after the bytes \<open>msg\<close>.\<close>

definition sha5_holds :: "u8 list \<Rightarrow> sha512_t \<Rightarrow> bool" where
  "sha5_holds msg ctx \<longleftrightarrow>
     length (s5_buf ctx) = 128 \<and> s5_lo ctx = of_nat (8 * length msg) \<and> s5_hi ctx = 0 \<and>
     take (length msg mod 128) (s5_buf ctx) = drop (128 * (length msg div 128)) msg \<and>
     s5_h ctx = fold fips512_compress (blocks128 (length msg div 128) msg) sha512_iv"

lemma sha5_holds_init: "length junk = 128 \<Longrightarrow> sha5_holds [] (sha512_init junk)"
  by (simp add: sha5_holds_def sha512_init_def blocks128_def)

lemma s5_used_exact:
  assumes "s5_lo ctx = of_nat (8 * n)" "n < 2 ^ 61"
  shows "s5_used ctx = n mod 128"
proof -
  have "unat (of_nat (8 * n) :: u64) = 8 * n" using assms(2) by (simp only: unat_of_nat len_num0 len_num1) simp
  then have "unat (drop_bit 3 (s5_lo ctx)) = n" unfolding assms(1) drop_bit_eq_div by (simp add: unat_div)
  moreover have "x AND 127 = x mod 128" for x :: u64
    using take_bit_eq_mod [of 7 x] by (simp add: take_bit_eq_mask mask_eq_exp_minus_1)
  ultimately show ?thesis unfolding s5_used_def by (simp only: unat_mod) simp
qed

lemma put_at_spec: "k + length data \<le> length buf \<Longrightarrow> length (put_at buf k data) = length buf \<and>
    take (k + length data) (put_at buf k data) = take k buf @ data"
  by (cases data) (auto simp: put_at_def min_def)

lemma add_mult_len: "r < 128 \<Longrightarrow> (r + 128 * q) div 128 = q \<and> (r + 128 * q) mod 128 = (r :: nat)"
  by simp

lemma sha512_update_holds:
  assumes h: "sha5_holds msg ctx" and b: "length msg + length data < 2 ^ 61"
  shows "sha5_holds (msg @ data) (sha512_update ctx data)"
proof -
  define q r where "q = length msg div 128" and "r = length msg mod 128"
  have len: "length msg = 128 * q + r" and r: "r < 128" by (simp_all add: q_def r_def)
  from h have buf: "length (s5_buf ctx) = 128" and lo: "s5_lo ctx = of_nat (8 * length msg)" and hi: "s5_hi ctx = 0"
    and pre: "take r (s5_buf ctx) = drop (128 * q) msg" and st: "s5_h ctx = fold fips512_compress (blocks128 q msg) sha512_iv"
    by (simp_all add: sha5_holds_def q_def r_def)
  have sl: "length (s5_h ctx) = 8" unfolding st by (rule fips512_state_length [OF sha512_iv_length])
  have used: "s5_used ctx = r" using s5_used_exact [OF lo] b by (simp add: r_def)
  let ?d = "of_nat (8 * length data) :: u64"
  have p8: "push_bit 3 (of_nat (length data) :: u64) = ?d" by (simp add: push_bit_eq_mult)
  have lo': "s5_lo ctx + ?d = of_nat (8 * length (msg @ data))" unfolding lo by (simp add: distrib_left)
  have u: "unat (of_nat (8 * n) :: u64) = 8 * n" if "n < 2 ^ 61" for n
    using that by (simp only: unat_of_nat len_num0 len_num1) simp
  have nc: "\<not> of_nat (8 * length (msg @ data)) < ?d" using u [of "length (msg @ data)"] u [of "length data"] b
    by (simp add: word_less_nat_alt del: of_nat_mult)
  have nh: "drop_bit 61 (of_nat (length data) :: u64) = 0"
  proof -
    have "unat (of_nat (length data) :: u64) < 2 ^ 61" using b by (simp add: unat_of_nat)
    then show ?thesis unfolding drop_bit_eq_div by (intro word_unat_eq_iff [THEN iffD2]) (simp add: unat_div)
  qed
  have hi': "(if of_nat (8 * length (msg @ data)) < ?d then s5_hi ctx + 1 else s5_hi ctx) + drop_bit 61 (of_nat (length data)) = 0"
    unfolding if_not_P [OF nc] nh hi by simp
  show ?thesis
  proof (cases "128 - r \<le> length data")
    case False
    then have m: "(length (msg @ data)) div 128 = q" "(length (msg @ data)) mod 128 = r + length data"
      using add_mult_len [of "r + length data" q] len by (simp_all add: add_ac)
    have s: "sha512_update ctx data = ctx\<lparr>s5_lo := of_nat (8 * length (msg @ data)), s5_hi := 0, s5_buf := put_at (s5_buf ctx) r data\<rparr>"
      using False unfolding sha512_update_def Let_def used p8 lo' hi' by simp
    have "take (r + length data) (put_at (s5_buf ctx) r data) = drop (128 * q) (msg @ data)" "length (put_at (s5_buf ctx) r data) = 128"
      using put_at_spec [of r data "s5_buf ctx"] False buf pre len by simp_all
    then show ?thesis unfolding s sha5_holds_def m by (simp add: st blocks128_append len)
  next
    case True
    define full where "full = put_at (s5_buf ctx) r (take (128 - r) data)"
    define n where "n = (length data - (128 - r)) div 128"
    define left where "left = drop (128 * n) (drop (128 - r) data)"
    have full: "full = take 128 (drop (128 * q) (msg @ data))"
    proof -
      have l: "length (take (128 - r) data) = 128 - r" using True by simp
      have "length full = 128" "take 128 full = take r (s5_buf ctx) @ take (128 - r) data"
        using put_at_spec [of r "take (128 - r) data" "s5_buf ctx"] l buf r unfolding full_def l by simp_all
      then show ?thesis using pre len r by simp
    qed
    have ll: "length left < 128" "length (msg @ data) = 128 * (q + (1 + n)) + length left"
      using True len r by (simp_all add: left_def n_def)
    then have m: "length (msg @ data) div 128 = q + (1 + n)" "length (msg @ data) mod 128 = length left"
      using add_mult_len [OF ll(1), of "q + (1 + n)"] by (simp_all only: add.commute)
    have s: "sha512_update ctx data = ctx\<lparr>s5_lo := of_nat (8 * length (msg @ data)), s5_hi := 0, s5_buf := put_at full 0 left,
        s5_h := fold fips512_compress (blocks128 n (drop (128 - r) data)) (fips512_compress full (s5_h ctx))\<rparr>"
      using True unfolding sha512_update_def Let_def used p8 lo' hi' full_def [symmetric] n_def [symmetric]
      by (simp add: sha512_blocks_exact sha512_transform_def compress512_standard fips512_compress_length sl left_def full_def [symmetric])
    have rest: "drop (128 * (q + 1)) (msg @ data) = drop (128 - r) data" using len r by simp
    have "blocks128 (q + (1 + n)) (msg @ data) = blocks128 q msg @ [full] @ blocks128 n (drop (128 - r) data)"
    proof -
      have "blocks128 1 (drop (128 * q) (msg @ data)) = [full]" by (simp add: blocks128_def full)
      moreover have "drop (128 * 1) (drop (128 * q) (msg @ data)) = drop (128 - r) data"
        using rest by (simp only: drop_drop distrib_left add.commute mult_1_right)
      ultimately show ?thesis by (simp only: blocks128_add) (simp add: blocks128_append len)
    qed
    moreover have "drop (128 * (q + (1 + n))) (msg @ data) = left"
      unfolding left_def rest [symmetric] by (simp only: drop_drop) (simp add: algebra_simps)
    moreover have "length full = 128" using full ll(2) by simp
    then have "take (length left) (put_at full 0 left) = left" "length (put_at full 0 left) = 128"
      using put_at_spec [of 0 left full] ll(1) by simp_all
    ultimately show ?thesis unfolding s sha5_holds_def m by (simp add: st)
  qed
qed

section \<open>Padding\<close>

lemma be64_bytes_put [simp]: "be64_bytes = put_be64"
  by (rule ext) (simp add: be64_bytes_def put_be64_def upt_rec)

lemma put_be64_length [simp]: "length (put_be64 w) = 8"
  by (simp add: put_be64_def)

lemma put_at_tail: "k \<le> length buf \<Longrightarrow> length buf = k + length data \<Longrightarrow> put_at buf k data = take k buf @ data"
  by (simp add: put_at_def)

lemma sha512_final_correct:
  assumes h: "sha5_holds msg ctx" and b: "length msg < 2 ^ 61"
  shows "sha512_final ctx = fips_sha512 msg"
proof -
  define q r where "q = length msg div 128" and "r = length msg mod 128"
  have len: "length msg = 128 * q + r" and r: "r < 128" by (simp_all add: q_def r_def)
  from h have buf: "length (s5_buf ctx) = 128" and lo: "s5_lo ctx = of_nat (8 * length msg)" and hi: "s5_hi ctx = 0"
    and pre: "take r (s5_buf ctx) = drop (128 * q) msg" and st: "s5_h ctx = fold fips512_compress (blocks128 q msg) sha512_iv"
    by (simp_all add: sha5_holds_def q_def r_def)
  have sl: "length (s5_h ctx) = 8" unfolding st by (rule fips512_state_length [OF sha512_iv_length])
  have used: "s5_used ctx = r" using s5_used_exact [OF lo b] by (simp add: r_def)
  define n :: "u8 list" where "n = put_be64 0 @ put_be64 (of_nat (8 * length msg))"
  have n: "length n = 16" by (simp add: n_def)
  have hz: "8 * length msg div 2 ^ 64 = 0" using b by (intro div_less) simp
  define b0 where "b0 = put_at (s5_buf ctx) r [0x80]"
  have b0: "take (Suc r) b0 = drop (128 * q) msg @ [0x80]" "length b0 = 128"
    using put_at_spec [of r "[0x80]" "s5_buf ctx"] r buf pre by (simp_all add: b0_def)
  define finish where "finish = (\<lambda>c k. put_at (put_at (put_at c k (replicate (112 - k) 0)) 112 (put_be64 0)) 120
      (put_be64 (of_nat (8 * length msg))))"
  have fin: "finish c k = take k c @ replicate (112 - k) 0 @ n" if "length c = 128" "k \<le> 112" for c k
  proof -
    have a: "length (put_at c k (replicate (112 - k) 0)) = 128" "take 112 (put_at c k (replicate (112 - k) 0)) = take k c @ replicate (112 - k) 0"
      using put_at_spec [of k "replicate (112 - k) 0" c] that by simp_all
    define c1 where "c1 = put_at c k (replicate (112 - k) 0)"
    have "length (put_at c1 112 (put_be64 0)) = 128" "take 120 (put_at c1 112 (put_be64 0)) = take 112 c1 @ put_be64 0"
      using put_at_spec [of 112 "put_be64 0" c1] a by (simp_all add: c1_def)
    then show ?thesis unfolding finish_def c1_def [symmetric] using a by (simp add: put_at_tail n_def c1_def)
  qed
  show ?thesis
  proof (cases "r < 112")
    case True
    define B where "B = drop (128 * q) msg @ [0x80] @ replicate (111 - r) 0 @ n"
    have "finish b0 (Suc r) = B" using fin [OF b0(2), of "Suc r"] True b0(1) by (simp add: B_def)
    then have c: "sha512_final ctx = concat (map put_be64 (fips512_compress B (s5_h ctx)))"
      using True by (simp add: sha512_final_def Let_def used b0_def [symmetric] hi lo finish_def sha512_transform_def compress512_standard fips512_compress_length sl)
    have zs: "(239 - r) mod 128 = 111 - r" using True by (simp add: mod_if)
    have pad: "fips512_pad msg = msg @ [0x80] @ replicate (111 - r) 0 @ n"
      unfolding fips512_pad_def be_bytes_split r_def [symmetric] zs hz n_def by simp
    have "length (fips512_pad msg) = 128 * Suc q" using True len by (simp add: pad n)
    moreover have "blocks128 (Suc q) (fips512_pad msg) = blocks128 q msg @ [B]"
      using len True blocks128_add [of q 1 "fips512_pad msg"] by (simp add: pad blocks128_append) (simp add: blocks128_def B_def n)
    ultimately show ?thesis by (simp add: fips_sha512_def Let_def c st put_be64_fun)
  next
    case False
    define B1 B2 where "B1 = drop (128 * q) msg @ [0x80] @ replicate (127 - r) 0" and "B2 = replicate 112 0 @ n"
    have z: "put_at b0 (Suc r) (replicate (127 - r) 0) = B1" using put_at_tail [of "Suc r" b0 "replicate (127 - r) 0"] r b0 by (simp add: B1_def)
    have B1: "length B1 = 128" using len r by (simp add: B1_def)
    have e: "128 - r = Suc (127 - r)" using r by simp
    have f: "finish B1 0 = B2" using fin [OF B1, of 0] by (simp add: B2_def)
    have c: "sha512_final ctx = concat (map put_be64 (fips512_compress B2 (fips512_compress B1 (s5_h ctx))))"
      using False f by (simp add: sha512_final_def Let_def used b0_def [symmetric] z hi lo finish_def sha512_transform_def compress512_standard fips512_compress_length sl)
    have zs: "(239 - r) mod 128 = 239 - r" using False r by simp
    have sp: "replicate (239 - r) (0 :: u8) = replicate (127 - r) 0 @ replicate 112 0" using False r by (simp add: replicate_add [symmetric])
    have pad: "fips512_pad msg = msg @ [0x80] @ replicate (127 - r) 0 @ replicate 112 0 @ n"
      unfolding fips512_pad_def be_bytes_split r_def [symmetric] zs sp hz n_def by simp
    have "length (fips512_pad msg) = 128 * Suc (Suc q)" using len r by (simp add: pad n)
    moreover have "blocks128 (Suc (Suc q)) (fips512_pad msg) = blocks128 q msg @ [B1, B2]"
      using len r blocks128_add [of q 2 "fips512_pad msg"]
      by (simp add: pad blocks128_append) (simp add: blocks128_def B1_def B2_def n upt_rec [of 0] upt_rec [of 1] e)
    ultimately show ?thesis by (simp add: fips_sha512_def Let_def c st put_be64_fun)
  qed
qed

lemma sha512_3_standard:
  assumes "length junk = 128" "length (a @ b @ c) < 2 ^ 61"
  shows "sha512_3 junk a b c = fips_sha512 (a @ b @ c)"
proof -
  have "sha5_holds (([] @ a) @ b) (sha512_update (sha512_update (sha512_init junk) a) b)"
    using assms by (intro sha512_update_holds sha5_holds_init) simp_all
  then have "sha5_holds (a @ b @ c) (sha512_update (sha512_update (sha512_update (sha512_init junk) a) b) c)"
    using sha512_update_holds assms(2) by fastforce
  then show ?thesis unfolding sha512_3_def using assms(2) by (rule sha512_final_correct)
qed

text \<open>The constants, as in Rivr_Sha256: 64 bits of the roots of the first 80 and the first 8 primes.\<close>

fun root_frac64 :: "nat \<Rightarrow> nat \<times> nat \<Rightarrow> u64 \<Rightarrow> bool" where
  "root_frac64 d (p, r) k \<longleftrightarrow> (r * 2 ^ 64 + unat k) ^ d \<le> p * 2 ^ (64 * d) \<and>
     p * 2 ^ (64 * d) < (r * 2 ^ 64 + unat k + 1) ^ d"

definition more_cube_roots :: "(nat \<times> nat) list" where
  "more_cube_roots = prime_cube_roots @
    [(313, 6), (317, 6), (331, 6), (337, 6), (347, 7), (349, 7), (353, 7), (359, 7), (367, 7), (373, 7),
     (379, 7), (383, 7), (389, 7), (397, 7), (401, 7), (409, 7)]"

lemma K512_cube_roots: "list_all2 (root_frac64 3) more_cube_roots K512"
  unfolding more_cube_roots_def prime_cube_roots_def K512_def concat.simps append.simps
  by (intro list.rel_intros) (simp_all add: power3_eq_cube)

lemma iv512_square_roots: "list_all2 (root_frac64 2) prime_square_roots sha512_iv"
  by (simp add: prime_square_roots_def sha512_iv_def power2_eq_square)

text \<open>C35: The streamed hash is the SHA-512 of FIPS 180-4 of the concatenated message (below 2^61 bytes), whatever
  the three parts and whatever the buffer of 128 bytes held. The standard is stated as for SHA-256, without
  any function of the code: rotation amounts, round, schedule, padding and byte order are its own, and
  the round constants and the initial state are the roots the standard prescribes.\<close>

theorem sha512_streams:
  assumes "length junk = 128" "length (a @ b @ c) < 2 ^ 61"
  shows "sha512_3 junk a b c = fips_sha512 (a @ b @ c) \<and>
    list_all2 (root_frac64 3) more_cube_roots K512 \<and> list_all2 (root_frac64 2) prime_square_roots sha512_iv"
  using sha512_3_standard [OF assms] K512_cube_roots iv512_square_roots by simp

theorem sha512_streams_witness:
  "sha512_3 (replicate 128 0) [1] [2] [3] = fips_sha512 [1, 2, 3]"
  using sha512_streams [of "replicate 128 0" "[1]" "[2]" "[3]"] by simp

end
