(* ===== verification/Rivr_Scalar.thy ===== *)
theory Rivr_Scalar
  imports Rivr_Prelude
begin

text \<open>
  The reduction of a hash modulo the order of the Ed25519 group (sc_reduce of ed25519_verify.c). The
  limbs are integers and every operation wraps at the width of the type \<open>i128\<close>, which is the first
  argument: 128 where the compiler has \<open>__int128\<close>, 64 where it does not, which is the case on every
  32-bit target. The properties: at 128 bits the result is the residue, unless that is within
  2^131 of a multiple of the order; at 64 bits it is not.
\<close>

section \<open>The code\<close>

definition i_wrap :: "nat \<Rightarrow> int \<Rightarrow> int" where
  "i_wrap n x = (x + 2 ^ (n - 1)) mod 2 ^ n - 2 ^ (n - 1)"

definition load3 :: "u8 list \<Rightarrow> u64" where
  "load3 p = ucast (p ! 0) OR push_bit 8 (ucast (p ! 1)) OR push_bit 16 (ucast (p ! 2))"

definition load4 :: "u8 list \<Rightarrow> u64" where
  "load4 p = ucast (p ! 0) OR push_bit 8 (ucast (p ! 1)) OR push_bit 16 (ucast (p ! 2)) OR push_bit 24 (ucast (p ! 3))"

definition limb21 :: "u64 \<Rightarrow> int" where
  "limb21 w = uint (2097151 AND w)"

definition sc_load :: "u8 list \<Rightarrow> int list" where
  "sc_load s =
     [limb21 (load3 s),
      limb21 (drop_bit 5 (load4 (drop 2 s))),
      limb21 (drop_bit 2 (load3 (drop 5 s))),
      limb21 (drop_bit 7 (load4 (drop 7 s))),
      limb21 (drop_bit 4 (load4 (drop 10 s))),
      limb21 (drop_bit 1 (load3 (drop 13 s))),
      limb21 (drop_bit 6 (load4 (drop 15 s))),
      limb21 (drop_bit 3 (load3 (drop 18 s))),
      limb21 (load3 (drop 21 s)),
      limb21 (drop_bit 5 (load4 (drop 23 s))),
      limb21 (drop_bit 2 (load3 (drop 26 s))),
      limb21 (drop_bit 7 (load4 (drop 28 s))),
      limb21 (drop_bit 4 (load4 (drop 31 s))),
      limb21 (drop_bit 1 (load4 (drop 34 s))),
      limb21 (drop_bit 6 (load4 (drop 36 s))),
      limb21 (drop_bit 3 (load3 (drop 39 s))),
      limb21 (load3 (drop 42 s)),
      limb21 (drop_bit 5 (load4 (drop 44 s))),
      limb21 (drop_bit 2 (load3 (drop 47 s))),
      limb21 (drop_bit 7 (load4 (drop 49 s))),
      limb21 (drop_bit 4 (load4 (drop 52 s))),
      limb21 (drop_bit 1 (load3 (drop 55 s))),
      limb21 (drop_bit 6 (load4 (drop 57 s))),
      uint (drop_bit 3 (load4 (drop 60 s)))]"

text \<open>The six constants by which limb k is folded into limbs k - 12 to k - 7.\<close>

definition sc_consts :: "int list" where
  "sc_consts = [666643, 470296, 654183, -997805, 136657, -683901]"

definition sc_fold_one :: "nat \<Rightarrow> nat \<Rightarrow> nat \<Rightarrow> int list \<Rightarrow> int list" where
  "sc_fold_one n k j s =
     s[k - 12 + j := i_wrap n (s ! (k - 12 + j) + i_wrap n (s ! k * sc_consts ! j))]"

definition sc_fold :: "nat \<Rightarrow> nat \<Rightarrow> int list \<Rightarrow> int list" where
  "sc_fold n k s = (fold (sc_fold_one n k) [0..<6] s)[k := 0]"

text \<open>The macros CARRY and CFLR; the high limb is the one after the low limb in every use.\<close>

definition sc_carry :: "nat \<Rightarrow> int \<Rightarrow> nat \<Rightarrow> int list \<Rightarrow> int list" where
  "sc_carry n bias lo s =
     (let c = drop_bit 21 (i_wrap n (s ! lo + bias))
      in s[Suc lo := i_wrap n (s ! Suc lo + c), lo := i_wrap n (s ! lo - i_wrap n (c * 2 ^ 21))])"

definition sc_pass1 :: "nat \<Rightarrow> int list \<Rightarrow> int list" where
  "sc_pass1 n s = fold (sc_carry n (2 ^ 20)) [0, 2, 4, 6, 8, 10, 1, 3, 5, 7, 9, 11] s"

definition sc_pass2 :: "nat \<Rightarrow> int list \<Rightarrow> int list" where
  "sc_pass2 n s = fold (sc_carry n 0) [0..<12] s"

definition sc_residual :: "nat \<Rightarrow> int list \<Rightarrow> int list" where
  "sc_residual n s = (if s ! 12 \<noteq> 0 then sc_pass2 n (sc_fold n 12 s) else s)"

definition sc_limbs :: "nat \<Rightarrow> int list \<Rightarrow> int list" where
  "sc_limbs n s =
     sc_residual n (sc_pass2 n (sc_fold n 12 (sc_pass1 n (fold (sc_fold n) [23, 22, 21, 20, 19, 18, 17, 16, 15, 14, 13, 12] s))))"

definition byte1 :: "nat \<Rightarrow> int \<Rightarrow> u8" where
  "byte1 k x = word_of_int (drop_bit k x)"

definition byte2 :: "nat \<Rightarrow> int \<Rightarrow> nat \<Rightarrow> int \<Rightarrow> u8" where
  "byte2 k x m y = word_of_int (drop_bit k x OR push_bit m y)"

definition sc_pack :: "int list \<Rightarrow> u8 list" where
  "sc_pack s =
     [byte1 0 (s ! 0), byte1 8 (s ! 0), byte2 16 (s ! 0) 5 (s ! 1),
      byte1 3 (s ! 1), byte1 11 (s ! 1), byte2 19 (s ! 1) 2 (s ! 2),
      byte1 6 (s ! 2), byte2 14 (s ! 2) 7 (s ! 3),
      byte1 1 (s ! 3), byte1 9 (s ! 3), byte2 17 (s ! 3) 4 (s ! 4),
      byte1 4 (s ! 4), byte1 12 (s ! 4), byte2 20 (s ! 4) 1 (s ! 5),
      byte1 7 (s ! 5), byte2 15 (s ! 5) 6 (s ! 6),
      byte1 2 (s ! 6), byte1 10 (s ! 6), byte2 18 (s ! 6) 3 (s ! 7),
      byte1 5 (s ! 7), byte1 13 (s ! 7),
      byte1 0 (s ! 8), byte1 8 (s ! 8), byte2 16 (s ! 8) 5 (s ! 9),
      byte1 3 (s ! 9), byte1 11 (s ! 9), byte2 19 (s ! 9) 2 (s ! 10),
      byte1 6 (s ! 10), byte2 14 (s ! 10) 7 (s ! 11),
      byte1 1 (s ! 11), byte1 9 (s ! 11), byte1 17 (s ! 11)]"

definition sc_reduce :: "nat \<Rightarrow> u8 list \<Rightarrow> u8 list" where
  "sc_reduce n s = sc_pack (sc_limbs n (sc_load s))"

section \<open>What it should compute\<close>

fun le_int :: "u8 list \<Rightarrow> int" where
  "le_int [] = 0"
| "le_int (b # bs) = uint b + 256 * le_int bs"

definition ed_l :: int where
  "ed_l = 2 ^ 252 + 27742317777372353535851937790883648493"

section \<open>No operation overflows\<close>

text \<open>The value of the limbs, and bounds on them that are computed step by step.\<close>

definition sc_val :: "int list \<Rightarrow> int" where
  "sc_val s = (\<Sum>i < 24. s ! i * 2 ^ (21 * i))"

definition bnd :: "int list \<Rightarrow> int list \<Rightarrow> bool" where
  "bnd s b \<longleftrightarrow> length s = 24 \<and> length b = 24 \<and> (\<forall>i < 24. \<bar>s ! i\<bar> \<le> b ! i)"

lemma i_wrap_id: "\<bar>x\<bar> < 2 ^ 127 \<Longrightarrow> i_wrap 128 x = x"
  by (simp add: i_wrap_def abs_less_iff)

lemma sc_val_update:
  assumes "length s = 24" "i < 24"
  shows "sc_val (s[i := x]) = sc_val s + (x - s ! i) * 2 ^ (21 * i)"
proof -
  have split: "(\<Sum>k < 24. f k) = f i + sum f ({..<24} - {i})" for f :: "nat \<Rightarrow> int"
    using assms(2) by (subst sum.remove [of _ i]) auto
  have "sum (\<lambda>k. s[i := x] ! k * 2 ^ (21 * k)) ({..<24} - {i}) = sum (\<lambda>k. s ! k * 2 ^ (21 * k)) ({..<24} - {i})"
    by (rule sum.cong) (auto simp: nth_list_update)
  with assms show ?thesis by (simp add: sc_val_def split algebra_simps)
qed

lemma bnd_update: "bnd s b \<Longrightarrow> \<bar>x\<bar> \<le> y \<Longrightarrow> bnd (s[i := x]) (b[i := y])"
  unfolding bnd_def by (metis length_list_update nth_list_update nth_list_update_neq)

lemma bndD: "bnd s b \<Longrightarrow> i < 24 \<Longrightarrow> \<bar>s ! i\<bar> \<le> b ! i"
  by (simp add: bnd_def)

text \<open>Folding one limb.\<close>

definition lim127 :: int where
  "lim127 = 170141183460469231731687303715884105728"

lemma lim127: "lim127 = 2 ^ 127"
  by (simp add: lim127_def)

fun bnd_fold :: "nat \<Rightarrow> nat list \<Rightarrow> int list \<Rightarrow> int list option" where
  "bnd_fold k [] b = Some (b[k := 0])"
| "bnd_fold k (j # js) b =
     (let x = b ! (k - 12 + j) + b ! k * \<bar>sc_consts ! j\<bar>
      in if x < lim127 \<and> 0 \<le> b ! (k - 12 + j) then bnd_fold k js (b[k - 12 + j := x]) else None)"

lemma sc_fold_one_exact:
  assumes b: "bnd s b" and k: "12 \<le> k" "k < 24" and j: "j < 6"
    and x: "b ! (k - 12 + j) + b ! k * \<bar>sc_consts ! j\<bar> < 2 ^ 127" "0 \<le> b ! (k - 12 + j)"
  shows "sc_fold_one 128 k j s = s[k - 12 + j := s ! (k - 12 + j) + s ! k * sc_consts ! j]"
    and "bnd (sc_fold_one 128 k j s) (b[k - 12 + j := b ! (k - 12 + j) + b ! k * \<bar>sc_consts ! j\<bar>])"
proof -
  let ?i = "k - 12 + j"
  have i: "?i < 24" using k j by simp
  have p: "\<bar>s ! k * sc_consts ! j\<bar> \<le> b ! k * \<bar>sc_consts ! j\<bar>"
    using bndD [OF b k(2)] by (simp add: abs_mult mult_right_mono)
  have t: "\<bar>s ! ?i + s ! k * sc_consts ! j\<bar> \<le> b ! ?i + b ! k * \<bar>sc_consts ! j\<bar>"
    using p bndD [OF b i] by linarith
  have "i_wrap 128 (s ! k * sc_consts ! j) = s ! k * sc_consts ! j"
    using p x by (intro i_wrap_id) linarith
  moreover have "i_wrap 128 (s ! ?i + s ! k * sc_consts ! j) = s ! ?i + s ! k * sc_consts ! j"
    using t x by (intro i_wrap_id) linarith
  ultimately show eq: "sc_fold_one 128 k j s = s[?i := s ! ?i + s ! k * sc_consts ! j]"
    by (simp add: sc_fold_one_def)
  show "bnd (sc_fold_one 128 k j s) (b[?i := b ! ?i + b ! k * \<bar>sc_consts ! j\<bar>])"
    unfolding eq by (rule bnd_update [OF b t])
qed

lemma sc_fold_exact_loop:
  assumes "bnd_fold k js b = Some b'" "bnd s b" "12 \<le> k" "k < 24" "set js \<subseteq> {..<6}"
  shows "bnd ((fold (sc_fold_one 128 k) js s)[k := 0]) b' \<and> fold (sc_fold_one 128 k) js s ! k = s ! k \<and>
    length (fold (sc_fold_one 128 k) js s) = 24 \<and>
    sc_val (fold (sc_fold_one 128 k) js s) = sc_val s + s ! k * (\<Sum>j\<leftarrow>js. sc_consts ! j * 2 ^ (21 * (k - 12 + j)))"
  using assms
proof (induction js arbitrary: s b)
  case Nil
  then show ?case using bnd_update [of s b 0 0 k] by (auto simp: bnd_def)
next
  case (Cons j js)
  let ?x = "b ! (k - 12 + j) + b ! k * \<bar>sc_consts ! j\<bar>" and ?s = "sc_fold_one 128 k j s"
  have j: "j < 6" using Cons.prems by simp
  have x: "?x < 2 ^ 127" "0 \<le> b ! (k - 12 + j)" "bnd_fold k js (b[k - 12 + j := ?x]) = Some b'"
    using Cons.prems(1) by (auto simp: Let_def lim127 split: if_splits)
  note one = sc_fold_one_exact [OF Cons.prems(2-4) j x(1,2)]
  have l: "length s = 24" using Cons.prems(2) by (simp add: bnd_def)
  have ne: "k - 12 + j \<noteq> k" "k - 12 + j < 24" using Cons.prems(3,4) j by auto
  have "?s ! k = s ! k" "sc_val ?s = sc_val s + s ! k * (sc_consts ! j * 2 ^ (21 * (k - 12 + j)))"
    using ne l by (simp_all add: one(1) sc_val_update)
  with Cons.IH [OF x(3) one(2) Cons.prems(3,4)] Cons.prems(5) show ?case
    by (simp add: distrib_left)
qed

lemma ed_l_consts: "(\<Sum>j\<leftarrow>[0..<6]. sc_consts ! j * 2 ^ (21 * j)) = 2 ^ 252 - ed_l"
  by (simp add: sc_consts_def ed_l_def upt_rec)

lemma sc_fold_exact:
  assumes "bnd_fold k [0..<6] b = Some b'" "bnd s b" "12 \<le> k" "k < 24"
  shows "bnd (sc_fold 128 k s) b'" and "sc_val (sc_fold 128 k s) = sc_val s - s ! k * 2 ^ (21 * (k - 12)) * ed_l"
    and "sc_val (sc_fold 128 k s) mod ed_l = sc_val s mod ed_l"
proof -
  let ?f = "fold (sc_fold_one 128 k) [0..<6] s"
  have "set [0..<6] \<subseteq> {..<(6 :: nat)}" by auto
  note loop = sc_fold_exact_loop [OF assms this]
  have *: "bnd (?f[k := 0]) b'" "?f ! k = s ! k" "length ?f = 24"
    "sc_val ?f = sc_val s + s ! k * (\<Sum>j\<leftarrow>[0..<6]. sc_consts ! j * 2 ^ (21 * (k - 12 + j)))"
    using loop by blast+
  show "bnd (sc_fold 128 k s) b'" using *(1) by (simp add: sc_fold_def)
  have "21 * k = 21 * (k - 12) + 252" using assms(3) by simp
  then have p: "(2 :: int) ^ (21 * k) = 2 ^ (21 * (k - 12)) * 2 ^ 252" by (simp only: power_add)
  have "(\<Sum>j\<leftarrow>[0..<6]. sc_consts ! j * 2 ^ (21 * (k - 12 + j))) = 2 ^ (21 * (k - 12)) * (2 ^ 252 - ed_l)"
    unfolding ed_l_consts [symmetric] by (simp add: upt_rec power_add distrib_left algebra_simps del: upt_Suc)
  note sum = this
  have "sc_val (sc_fold 128 k s) = sc_val ?f + (0 - ?f ! k) * 2 ^ (21 * k)"
    unfolding sc_fold_def by (rule sc_val_update [OF *(3) assms(4)])
  also have "\<dots> = sc_val s + s ! k * (2 ^ (21 * (k - 12)) * (2 ^ 252 - ed_l)) + (0 - s ! k) * (2 ^ (21 * (k - 12)) * 2 ^ 252)"
    unfolding * sum p ..
  also have "\<dots> = sc_val s - s ! k * 2 ^ (21 * (k - 12)) * ed_l"
    by (simp only: right_diff_distrib left_diff_distrib mult.assoc)
  finally show v: "sc_val (sc_fold 128 k s) = sc_val s - s ! k * 2 ^ (21 * (k - 12)) * ed_l" .
  show "sc_val (sc_fold 128 k s) mod ed_l = sc_val s mod ed_l"
    unfolding v by (simp add: mod_eq_dvd_iff)
qed


fun bnd_folds :: "nat list \<Rightarrow> int list \<Rightarrow> int list option" where
  "bnd_folds [] b = Some b"
| "bnd_folds (k # ks) b = (case bnd_fold k [0..<6] b of None \<Rightarrow> None | Some b1 \<Rightarrow> bnd_folds ks b1)"

lemma sc_folds_exact:
  "bnd_folds ks b = Some b' \<Longrightarrow> bnd s b \<Longrightarrow> set ks \<subseteq> {12..<24} \<Longrightarrow>
     bnd (fold (sc_fold 128) ks s) b' \<and> sc_val (fold (sc_fold 128) ks s) mod ed_l = sc_val s mod ed_l"
proof (induction ks arbitrary: s b)
  case (Cons k ks)
  then obtain b1 where b1: "bnd_fold k [0..<6] b = Some b1" "bnd_folds ks b1 = Some b'" by (auto split: option.splits)
  have "12 \<le> k" "k < 24" using Cons.prems(3) by auto
  with sc_fold_exact [OF b1(1) Cons.prems(2)] Cons.IH [OF b1(2)] Cons.prems(3) show ?case by simp
qed simp

text \<open>A carry.\<close>

definition bnd_carry :: "nat \<Rightarrow> int list \<Rightarrow> int list option" where
  "bnd_carry lo b =
     (let c = (b ! lo + 1048576) div 2097152 + 1
      in if 0 \<le> b ! lo \<and> b ! lo + 4194304 < lim127 \<and> b ! Suc lo + c < lim127
         then Some (b[Suc lo := b ! Suc lo + c, lo := 2097152]) else None)"

lemma sc_carry_exact:
  assumes c: "bnd_carry lo b = Some b'" and s: "bnd s b" and lo: "Suc lo < 24" and bias: "0 \<le> bias" "bias \<le> 2 ^ 20"
  shows "bnd (sc_carry 128 bias lo s) b'" and "sc_val (sc_carry 128 bias lo s) = sc_val s"
    and "sc_carry 128 bias lo s ! lo = (s ! lo + bias) mod 2 ^ 21 - bias"
    and "i \<noteq> lo \<Longrightarrow> i \<noteq> Suc lo \<Longrightarrow> sc_carry 128 bias lo s ! i = s ! i"
proof -
  let ?x = "s ! lo + bias" and ?cb = "(b ! lo + 2 ^ 20) div 2 ^ 21 + 1"
  let ?c = "?x div 2 ^ 21"
  have b: "0 \<le> b ! lo" "b ! lo + 2 ^ 22 < 2 ^ 127" "b ! Suc lo + ?cb < 2 ^ 127"
    and b': "b' = b[Suc lo := b ! Suc lo + ?cb, lo := 2 ^ 21]"
    using c by (auto simp: bnd_carry_def Let_def lim127 split: if_splits)
  have l: "length s = 24" using s by (simp add: bnd_def)
  have x: "\<bar>?x\<bar> \<le> b ! lo + 2 ^ 20" using bndD [OF s, of lo] lo bias by simp
  have w1: "i_wrap 128 ?x = ?x" using x b(2) by (intro i_wrap_id) simp
  have m: "?c * 2 ^ 21 + ?x mod 2 ^ 21 = ?x" by simp
  have r: "0 \<le> ?x mod 2 ^ 21" "?x mod 2 ^ 21 < 2 ^ 21" by simp_all
  have c1: "\<bar>?c\<bar> \<le> ?cb"
  proof -
    have "- ?cb \<le> ?c" "?c \<le> ?cb" using x by (simp_all add: abs_le_iff) linarith+
    then show ?thesis by (simp add: abs_le_iff)
  qed
  have w2: "i_wrap 128 (s ! Suc lo + ?c) = s ! Suc lo + ?c"
    using c1 bndD [OF s, of "Suc lo"] lo b(3) by (intro i_wrap_id) linarith
  have p: "(2 :: int) ^ 20 = 1048576" "(2 :: int) ^ 21 = 2097152" "(2 :: int) ^ 22 = 4194304" by simp_all
  have w3: "i_wrap 128 (?c * 2 ^ 21) = ?c * 2 ^ 21" using m r x b(2) unfolding p by (intro i_wrap_id) linarith
  have lo': "s ! lo - ?c * 2 ^ 21 = ?x mod 2 ^ 21 - bias" using m by linarith
  have small: "\<bar>?x mod 2 ^ 21 - bias\<bar> \<le> 2 ^ 21" using r bias unfolding p by linarith
  then have w4: "i_wrap 128 (s ! lo - ?c * 2 ^ 21) = ?x mod 2 ^ 21 - bias" unfolding lo' by (intro i_wrap_id) simp
  have eq: "sc_carry 128 bias lo s = s[Suc lo := s ! Suc lo + ?c, lo := ?x mod 2 ^ 21 - bias]"
    unfolding sc_carry_def Let_def w1 drop_bit_eq_div w2 w3 w4 ..
  have hi: "\<bar>s ! Suc lo + ?c\<bar> \<le> b ! Suc lo + ?cb" using c1 bndD [OF s, of "Suc lo"] lo by linarith
  show "bnd (sc_carry 128 bias lo s) b'" unfolding eq b' by (intro bnd_update s hi small)
  show "sc_carry 128 bias lo s ! lo = ?x mod 2 ^ 21 - bias" using l lo by (simp add: eq)
  show "i \<noteq> lo \<Longrightarrow> i \<noteq> Suc lo \<Longrightarrow> sc_carry 128 bias lo s ! i = s ! i" by (simp add: eq)
  have "sc_val (sc_carry 128 bias lo s) =
      sc_val s + ?c * 2 ^ (21 * Suc lo) + (?x mod 2 ^ 21 - bias - s ! lo) * 2 ^ (21 * lo)"
    using l lo by (simp add: eq sc_val_update)
  moreover have "?x mod 2 ^ 21 - bias - s ! lo = - (?c * 2 ^ 21)" using lo' by linarith
  ultimately show "sc_val (sc_carry 128 bias lo s) = sc_val s" by (simp add: power_add)
qed

fun bnd_pass :: "nat list \<Rightarrow> int list \<Rightarrow> int list option" where
  "bnd_pass [] b = Some b"
| "bnd_pass (lo # los) b = (case bnd_carry lo b of None \<Rightarrow> None | Some b1 \<Rightarrow> bnd_pass los b1)"

lemma sc_pass_exact:
  "bnd_pass los b = Some b' \<Longrightarrow> bnd s b \<Longrightarrow> set los \<subseteq> {..<23} \<Longrightarrow> 0 \<le> bias \<Longrightarrow> bias \<le> 2 ^ 20 \<Longrightarrow>
     bnd (fold (sc_carry 128 bias) los s) b' \<and> sc_val (fold (sc_carry 128 bias) los s) = sc_val s"
proof (induction los arbitrary: s b)
  case (Cons lo los)
  then obtain b1 where b1: "bnd_carry lo b = Some b1" "bnd_pass los b1 = Some b'" by (auto split: option.splits)
  have lo: "Suc lo < 24" using Cons.prems(3) by auto
  show ?case
    using sc_carry_exact(1,2) [OF b1(1) Cons.prems(2) lo Cons.prems(4,5)] Cons.IH [OF b1(2) _ _ Cons.prems(4,5)] Cons.prems(3)
    by simp
qed simp

lemma bnd_pass_append:
  "bnd_pass (xs @ ys) b = (case bnd_pass xs b of None \<Rightarrow> None | Some b1 \<Rightarrow> bnd_pass ys b1)"
  by (induction xs arbitrary: b) (auto split: option.splits)

text \<open>The floor carries leave digits in every limb they have passed.\<close>

lemma sc_pass2_digits:
  "bnd_pass [0..<n] b = Some b' \<Longrightarrow> bnd s b \<Longrightarrow> n \<le> 12 \<Longrightarrow>
     (\<forall>i < n. 0 \<le> fold (sc_carry 128 0) [0..<n] s ! i \<and> fold (sc_carry 128 0) [0..<n] s ! i < 2 ^ 21)"
proof (induction n arbitrary: b')
  case (Suc n)
  then obtain b1 where b1: "bnd_pass [0..<n] b = Some b1" "bnd_carry n b1 = Some b'"
    by (auto simp: bnd_pass_append split: option.splits)
  let ?s = "fold (sc_carry 128 0) [0..<n] s"
  have "set [0..<n] \<subseteq> {..<23}" using Suc.prems(3) by auto
  then have "bnd ?s b1" using sc_pass_exact [OF b1(1) Suc.prems(2)] by simp
  note c = sc_carry_exact [OF b1(2) this, of 0]
  have n: "Suc n < 24" using Suc.prems(3) by simp
  show ?case
  proof (intro allI impI)
    fix i assume i: "i < Suc n"
    show "0 \<le> fold (sc_carry 128 0) [0..<Suc n] s ! i \<and> fold (sc_carry 128 0) [0..<Suc n] s ! i < 2 ^ 21"
    proof (cases "i = n")
      case True
      with c(3) n show ?thesis by simp
    next
      case False
      with i Suc.IH [OF b1(1) Suc.prems(2)] Suc.prems(3) c(4) [of i] n show ?thesis by simp
    qed
  qed
qed simp

lemma digits_sum:
  "\<forall>i < n. 0 \<le> s ! i \<and> s ! i < (2 :: int) ^ 21 \<Longrightarrow>
     0 \<le> (\<Sum>i < n. s ! i * 2 ^ (21 * i)) \<and> (\<Sum>i < n. s ! i * 2 ^ (21 * i)) < 2 ^ (21 * n)"
proof (induction n)
  case (Suc n)
  let ?S = "\<Sum>i < n. s ! i * 2 ^ (21 * i)"
  have d: "0 \<le> s ! n" "s ! n \<le> 2 ^ 21 - 1" using Suc.prems by auto
  have "s ! n * 2 ^ (21 * n) \<le> (2 ^ 21 - 1) * 2 ^ (21 * n)" using d(2) by (rule mult_right_mono) simp
  then have a: "s ! n * 2 ^ (21 * n) \<le> 2 ^ 21 * 2 ^ (21 * n) - 2 ^ (21 * n)" by (simp only: left_diff_distrib mult_1)
  have z: "0 \<le> s ! n * 2 ^ (21 * n)" using d(1) by simp
  have "0 \<le> ?S" "?S < 2 ^ (21 * n)" using Suc.IH Suc.prems by auto
  with a z have "0 \<le> ?S + s ! n * 2 ^ (21 * n)" "?S + s ! n * 2 ^ (21 * n) < 2 ^ 21 * 2 ^ (21 * n)" by linarith+
  then show ?case by (simp only: sum.lessThan_Suc mult_Suc_right power_add simp_thms)
qed simp


section \<open>Loading and packing\<close>

text \<open>Both are stated on the bits of the number that the bytes spell.\<close>

lemma le_int_nonneg [simp]: "0 \<le> le_int bs"
  by (induction bs) auto

lemma le_int_bound: "le_int bs < 256 ^ length bs"
proof (induction bs)
  case (Cons b bs)
  have "uint b \<le> 255" using uint_lt2p [of b] by simp
  with Cons show ?case by simp
qed simp

lemma le_int_Cons_or: "le_int (b # bs) = uint b OR push_bit 8 (le_int bs)"
proof -
  have "uint b AND push_bit 8 (le_int bs) = 0"
    by (rule bit_eqI) (auto simp: bit_simps bit_uint_iff dest: bit_imp_le_length)
  then show ?thesis using plus_and_or [of "uint b" "push_bit 8 (le_int bs)"] by (simp add: push_bit_eq_mult)
qed

lemma le_int_drop: "drop_bit (8 * k) (le_int bs) = le_int (drop k bs)"
proof (induction k arbitrary: bs)
  case (Suc k)
  show ?case
  proof (cases bs)
    case (Cons b cs)
    have "drop_bit 8 (le_int bs) = le_int cs"
      using uint_lt2p [of b] by (simp add: Cons drop_bit_eq_div)
    moreover have "drop_bit (8 * Suc k) (le_int bs) = drop_bit (8 * k) (drop_bit 8 (le_int bs))"
      by (simp add: add.commute)
    ultimately show ?thesis using Suc [of cs] by (simp add: Cons)
  qed simp
qed simp

lemma bit_u8_out [simp]: "8 \<le> n \<Longrightarrow> \<not> bit (b :: u8) n"
  by (auto dest: bit_imp_le_length)

lemma load3_window: "uint (load3 (a # b # c # r)) = take_bit 24 (le_int (a # b # c # r))"
proof (rule bit_eqI)
  fix n
  show "bit (uint (load3 (a # b # c # r))) n = bit (take_bit 24 (le_int (a # b # c # r))) n"
    unfolding load3_def le_int_Cons_or
    by (cases "n < 8"; cases "n < 16"; cases "n < 24"; simp add: bit_simps bit_uint_iff) (simp_all add: less_diff_conv2 | linarith)+
qed

lemma load4_window: "uint (load4 (a # b # c # d # r)) = take_bit 32 (le_int (a # b # c # d # r))"
proof (rule bit_eqI)
  fix n
  show "bit (uint (load4 (a # b # c # d # r))) n = bit (take_bit 32 (le_int (a # b # c # d # r))) n"
    unfolding load4_def le_int_Cons_or
    by (cases "n < 8"; cases "n < 16"; cases "n < 24"; cases "n < 32"; simp add: bit_simps bit_uint_iff) (simp_all add: less_diff_conv2 | linarith)+
qed


lemma drop_Cons3: "k + 2 < length bs \<Longrightarrow> drop k bs = bs ! k # bs ! (k + 1) # bs ! (k + 2) # drop (k + 3) bs"
  by (simp add: Cons_nth_drop_Suc numeral_2_eq_2 numeral_3_eq_3)

lemma drop_Cons4:
  "k + 3 < length bs \<Longrightarrow> drop k bs = bs ! k # bs ! (k + 1) # bs ! (k + 2) # bs ! (k + 3) # drop (k + 4) bs"
  by (simp add: Cons_nth_drop_Suc numeral_2_eq_2 numeral_3_eq_3 eval_nat_numeral)

lemma limb21_uint: "limb21 w = take_bit 21 (uint w)"
  by (simp add: limb21_def unsigned_and_eq take_bit_eq_mask mask_eq_exp_minus_1 and.commute)

lemma limb3:
  assumes "k + 2 < length bs" "m + 21 \<le> 24"
  shows "limb21 (drop_bit m (load3 (drop k bs))) = take_bit 21 (drop_bit (8 * k + m) (le_int bs))"
proof -
  have "uint (load3 (drop k bs)) = take_bit 24 (drop_bit (8 * k) (le_int bs))"
    by (subst (1) drop_Cons3 [OF assms(1)], subst load3_window, subst drop_Cons3 [OF assms(1), symmetric], simp add: le_int_drop)
  with assms(2) show ?thesis
    by (simp add: limb21_uint unsigned_drop_bit_eq drop_bit_take_bit add.commute)
qed

lemma limb4:
  assumes "k + 3 < length bs" "m + 21 \<le> 32"
  shows "limb21 (drop_bit m (load4 (drop k bs))) = take_bit 21 (drop_bit (8 * k + m) (le_int bs))"
proof -
  have "uint (load4 (drop k bs)) = take_bit 32 (drop_bit (8 * k) (le_int bs))"
    by (subst (1) drop_Cons4 [OF assms(1)], subst load4_window, subst drop_Cons4 [OF assms(1), symmetric], simp add: le_int_drop)
  with assms(2) show ?thesis
    by (simp add: limb21_uint unsigned_drop_bit_eq drop_bit_take_bit add.commute)
qed


lemma limb_last:
  assumes "length bs = 64"
  shows "uint (drop_bit 3 (load4 (drop 60 bs))) = drop_bit (21 * 23) (le_int bs)"
proof -
  have "uint (load4 (drop 60 bs)) = take_bit 32 (drop_bit (8 * 60) (le_int bs))"
    using assms by (subst (1) drop_Cons4, simp, subst load4_window, subst drop_Cons4 [symmetric], simp, simp only: le_int_drop)
  also have "\<dots> = drop_bit (8 * 60) (le_int bs)"
    unfolding le_int_drop using le_int_bound [of "drop 60 bs"] assms by (intro take_bit_int_eq_self) simp_all
  finally have "uint (load4 (drop 60 bs)) = drop_bit (8 * 60) (le_int bs)" .
  then show ?thesis by (simp add: drop_bit_eq_div uint_div div_mult2_eq [symmetric] flip: zdiv_zmult2_eq)
qed

lemma sc_load_digits:
  assumes "length bs = 64"
  shows "sc_load bs = map (\<lambda>i. take_bit 21 (drop_bit (21 * i) (le_int bs))) [0..<23] @ [drop_bit (21 * 23) (le_int bs)]"
proof -
  note l3 = limb3 [where bs = bs, simplified assms] and l4 = limb4 [where bs = bs, simplified assms]
  note w = l3 [of 0 0] l4 [of 2 5] l3 [of 5 2] l4 [of 7 7] l4 [of 10 4] l3 [of 13 1] l4 [of 15 6] l3 [of 18 3] l3 [of 21 0]
    l4 [of 23 5] l3 [of 26 2] l4 [of 28 7] l4 [of 31 4] l4 [of 34 1] l4 [of 36 6] l3 [of 39 3] l3 [of 42 0] l4 [of 44 5]
    l3 [of 47 2] l4 [of 49 7] l4 [of 52 4] l3 [of 55 1] l4 [of 57 6] limb_last [OF assms]
  show ?thesis unfolding sc_load_def by (simp add: w [simplified] upt_rec)
qed

lemma digits_unique:
  "\<forall>i < n. 0 \<le> s ! i \<and> s ! i < (2 :: int) ^ 21 \<Longrightarrow> i < n \<Longrightarrow>
     s ! i = take_bit 21 (drop_bit (21 * i) (\<Sum>i < n. s ! i * 2 ^ (21 * i)))"
proof (induction n)
  case (Suc n)
  let ?S = "\<Sum>i < n. s ! i * 2 ^ (21 * i)"
  have S: "0 \<le> ?S" "?S < 2 ^ (21 * n)" using digits_sum [of n s] Suc.prems(1) by simp_all
  have shift: "drop_bit (21 * n) (?S + s ! n * 2 ^ (21 * n)) = s ! n" using S by (simp add: drop_bit_eq_div)
  show ?case
  proof (cases "i = n")
    case True
    have "take_bit 21 (s ! n) = s ! n" using Suc.prems(1) by (intro take_bit_int_eq_self) auto
    then show ?thesis unfolding True sum.lessThan_Suc shift ..
  next
    case False
    with Suc.prems(2) have i: "i < n" by simp
    then obtain k where k: "n = i + Suc k" by (metis add_Suc_right less_iff_Suc_add)
    have "(2 :: int) ^ (21 * n) = 2 ^ (21 * i) * (2 ^ 21 * 2 ^ (21 * k))" unfolding k by (simp add: power_add)
    then have e: "s ! n * 2 ^ (21 * n) = 2 ^ (21 * i) * (2 ^ 21 * (s ! n * 2 ^ (21 * k)))" by (simp only: ac_simps)
    have "take_bit 21 (drop_bit (21 * i) (?S + s ! n * 2 ^ (21 * n))) =
        (?S div 2 ^ (21 * i) + 2 ^ 21 * (s ! n * 2 ^ (21 * k))) mod 2 ^ 21"
      unfolding e take_bit_eq_mod drop_bit_eq_div by (subst div_mult_self2) (simp_all add: add.commute)
    also have "\<dots> = take_bit 21 (drop_bit (21 * i) ?S)" unfolding take_bit_eq_mod drop_bit_eq_div by simp
    finally show ?thesis using Suc.IH [OF _ i] Suc.prems(1) by simp
  qed
qed simp

lemma digits_value:
  "0 \<le> v \<Longrightarrow> (\<Sum>i < n. take_bit 21 (drop_bit (21 * i) v) * 2 ^ (21 * i)) + drop_bit (21 * n) v * 2 ^ (21 * n) = (v :: int)"
proof (induction n)
  case (Suc n)
  let ?d = "drop_bit (21 * n) v"
  have "drop_bit (21 * Suc n) v = drop_bit 21 ?d" by (simp add: add.commute)
  moreover have "take_bit 21 ?d + drop_bit 21 ?d * 2 ^ 21 = ?d" by (simp add: take_bit_eq_mod drop_bit_eq_div)
  moreover have "t * p + d * (2 ^ 21 * p) = (t + d * 2 ^ 21) * p" for t d p :: int
    by (simp only: distrib_right mult.assoc)
  ultimately have "take_bit 21 ?d * 2 ^ (21 * n) + drop_bit (21 * Suc n) v * 2 ^ (21 * Suc n) = ?d * 2 ^ (21 * n)"
    by (simp only: mult_Suc_right power_add)
  with Suc show ?case by (simp only: sum.lessThan_Suc add.assoc)
qed simp

lemma sum_lessThan_24: "(\<Sum>i < 24. f i) = (\<Sum>i < 23. f i) + f 23" for f :: "nat \<Rightarrow> int"
proof -
  have "(24 :: nat) = Suc 23" by simp
  then show ?thesis by (simp only: sum.lessThan_Suc)
qed

lemma sc_load_value: "length bs = 64 \<Longrightarrow> sc_val (sc_load bs) = le_int bs"
proof -
  assume l: "length bs = 64"
  let ?d = "\<lambda>i. take_bit 21 (drop_bit (21 * i) (le_int bs))"
  have "sc_load bs ! i = ?d i" if "i < 23" for i
    unfolding sc_load_digits [OF l] using that by (simp only: nth_append length_map length_upt nth_map nth_upt) simp
  then have "(\<Sum>i < 23. sc_load bs ! i * 2 ^ (21 * i)) = (\<Sum>i < 23. ?d i * 2 ^ (21 * i))"
    by (intro sum.cong) auto
  moreover have "sc_load bs ! 23 = drop_bit (21 * 23) (le_int bs)"
    unfolding sc_load_digits [OF l] by (simp only: nth_append length_map length_upt) simp
  ultimately show ?thesis using digits_value [of "le_int bs" 23] by (simp only: sc_val_def sum_lessThan_24 le_int_nonneg)
qed

lemma div_less_bound: "0 < m \<Longrightarrow> x < b * m \<Longrightarrow> x div m < (b :: int)"
proof (rule ccontr)
  assume "0 < m" "x < b * m" "\<not> x div m < b"
  then have "b * m \<le> x div m * m" by (intro mult_right_mono) auto
  moreover have "x div m * m \<le> x" using \<open>0 < m\<close> pos_mod_sign [of m x] div_mult_mod_eq [of x m] by linarith
  ultimately show False using \<open>x < b * m\<close> by linarith
qed

lemma sc_load_bnd: "length bs = 64 \<Longrightarrow> bnd (sc_load bs) (replicate 23 (2 ^ 21) @ [2 ^ 29])"
proof -
  assume l: "length bs = 64"
  let ?d = "\<lambda>i. take_bit 21 (drop_bit (21 * i) (le_int bs))"
  have "le_int bs < 2 ^ 512" using le_int_bound [of bs] l by simp
  then have "le_int bs < 2 ^ 29 * 2 ^ 483" by simp
  then have "le_int bs div 2 ^ 483 < 2 ^ 29" using div_less_bound [of "2 ^ 483" "le_int bs" "2 ^ 29"] by simp
  moreover have "0 \<le> drop_bit (21 * 23) (le_int bs)" by simp
  ultimately have t: "\<bar>drop_bit (21 * 23) (le_int bs)\<bar> \<le> 2 ^ 29" by (simp add: drop_bit_eq_div)
  have len: "length (sc_load bs) = 24" by (simp add: sc_load_def)
  show ?thesis unfolding bnd_def
  proof (intro conjI allI impI)
    fix i :: nat assume i: "i < 24"
    show "\<bar>sc_load bs ! i\<bar> \<le> (replicate 23 (2 ^ 21) @ [2 ^ 29]) ! i"
    proof (cases "i < 23")
      case True
      then have "sc_load bs ! i = ?d i"
        unfolding sc_load_digits [OF l] by (simp only: nth_append length_map length_upt nth_map nth_upt) simp
      moreover have "0 \<le> ?d i" "?d i < 2 ^ 21" using take_bit_int_less_exp [of 21] by simp_all
      ultimately show ?thesis using True by (simp add: nth_append)
    next
      case False
      with i have "i = 23" by simp
      with t show ?thesis unfolding sc_load_digits [OF l] by (simp only: nth_append length_map length_upt) simp
    qed
  qed (simp_all add: len)
qed


text \<open>Packing.\<close>

lemma byte_bits: "(word_of_int x :: u8) = word_of_int y \<longleftrightarrow> take_bit 8 x = take_bit 8 y"
  by (simp add: word_of_int_eq_iff)

lemma byte1_window:
  "k + 8 \<le> 21 \<Longrightarrow> byte1 k (take_bit 21 (drop_bit m v)) = word_of_int (drop_bit (m + k) v)"
  unfolding byte1_def byte_bits
  by (rule bit_eqI) (auto simp: bit_simps ac_simps)

lemma byte1_window_top:
  "byte1 17 (take_bit 21 (drop_bit m v)) = word_of_int (take_bit 4 (drop_bit (m + 17) v))"
  unfolding byte1_def byte_bits
  by (rule bit_eqI) (auto simp: bit_simps ac_simps)

lemma byte2_window:
  "k + r = 21 \<Longrightarrow> r < 8 \<Longrightarrow>
     byte2 k (take_bit 21 (drop_bit m v)) r (take_bit 21 (drop_bit (m + 21) v)) = word_of_int (drop_bit (m + k) v)"
  unfolding byte2_def byte_bits
proof (rule bit_eqI)
  fix n assume k: "k + r = 21" "r < 8"
  show "bit (take_bit 8 (drop_bit k (take_bit 21 (drop_bit m v)) OR push_bit r (take_bit 21 (drop_bit (m + 21) v)))) n =
    bit (take_bit 8 (drop_bit (m + k) v)) n"
  proof (cases "n < r")
    case True
    with k show ?thesis by (auto simp: bit_simps ac_simps)
  next
    case False
    then obtain j where j: "n = r + j" by (metis le_Suc_ex not_less)
    have e: "j + (m + 21) = j + (k + (m + r))" using k by simp
    from k j False show ?thesis by (auto simp: bit_simps ac_simps) (simp_all only: e)
  qed
qed


lemma sc_pack_windows:
  assumes d: "\<And>i. i < 12 \<Longrightarrow> s ! i = take_bit 21 (drop_bit (21 * i) v)" and v: "0 \<le> v" "v < 2 ^ 252"
  shows "sc_pack s = map (\<lambda>j. word_of_int (drop_bit (8 * j) v)) [0..<32]"
proof -
  have "drop_bit 248 v = v div 2 ^ 248" "0 \<le> drop_bit 248 v" using v by (simp_all add: drop_bit_eq_div)
  moreover have "v div 2 ^ 248 < 2 ^ 4" using v by (intro div_less_bound) simp_all
  ultimately have top: "take_bit 4 (drop_bit 248 v) = drop_bit 248 v" by (intro take_bit_int_eq_self) simp_all
  note b1 = byte1_window [where v = v] and b2 = byte2_window [where v = v]
  note w = b1 [of 0 0] b1 [of 8 0] b2 [of 16 5 0] b1 [of 3 21] b1 [of 11 21] b2 [of 19 2 21] b1 [of 6 42] b2 [of 14 7 42]
    b1 [of 1 63] b1 [of 9 63] b2 [of 17 4 63] b1 [of 4 84] b1 [of 12 84] b2 [of 20 1 84] b1 [of 7 105] b2 [of 15 6 105]
    b1 [of 2 126] b1 [of 10 126] b2 [of 18 3 126] b1 [of 5 147] b1 [of 13 147] b1 [of 0 168] b1 [of 8 168]
    b2 [of 16 5 168] b1 [of 3 189] b1 [of 11 189] b2 [of 19 2 189] b1 [of 6 210] b2 [of 14 7 210] b1 [of 1 231] b1 [of 9 231]
    byte1_window_top [of 231 v]
  show ?thesis unfolding sc_pack_def using w by (simp add: d top upt_rec)
qed

lemma le_int_bytes: "le_int (map (\<lambda>j. word_of_int (drop_bit (8 * j) v)) [0..<n]) = take_bit (8 * n) v"
proof (induction n arbitrary: v)
  case (Suc n)
  have "[0..<Suc n] = 0 # map Suc [0..<n]" by (simp add: map_Suc_upt upt_conv_Cons del: upt_Suc)
  then have "map (\<lambda>j. word_of_int (drop_bit (8 * j) v) :: u8) [0..<Suc n] =
      word_of_int v # map (\<lambda>j. word_of_int (drop_bit (8 * j) (drop_bit 8 v))) [0..<n]"
    by (simp add: add.commute)
  then have "le_int (map (\<lambda>j. word_of_int (drop_bit (8 * j) v)) [0..<Suc n]) = take_bit 8 v + 256 * take_bit (8 * n) (drop_bit 8 v)"
    by (simp only: le_int.simps Suc) (simp add: unsigned_of_int)
  also have "\<dots> = take_bit (8 * Suc n) v"
    using zmod_zmult2_eq [of "2 ^ (8 * n)" v "2 ^ 8"] by (simp add: take_bit_eq_mod drop_bit_eq_div power_add)
  finally show ?case .
qed simp


section \<open>The reduction\<close>

text \<open>The bounds after each phase, computed from those of the loaded limbs.\<close>

definition sc_b1 :: "int list" where
  "sc_b1 = the (bnd_folds [23, 22, 21, 20, 19, 18, 17, 16, 15, 14, 13, 12] (replicate 23 (2 ^ 21) @ [2 ^ 29]))"

definition sc_b2 :: "int list" where
  "sc_b2 = the (bnd_pass [0, 2, 4, 6, 8, 10, 1, 3, 5, 7, 9, 11] sc_b1)"

definition sc_b3 :: "int list" where "sc_b3 = the (bnd_fold 12 [0..<6] sc_b2)"
definition sc_b4 :: "int list" where "sc_b4 = the (bnd_pass [0..<12] sc_b3)"
definition sc_b5 :: "int list" where "sc_b5 = the (bnd_fold 12 [0..<6] sc_b4)"
definition sc_b6 :: "int list" where "sc_b6 = the (bnd_pass [0..<12] sc_b5)"

lemma sc_bounds_safe:
  "bnd_folds [23, 22, 21, 20, 19, 18, 17, 16, 15, 14, 13, 12] (replicate 23 (2 ^ 21) @ [2 ^ 29]) = Some sc_b1"
  "bnd_pass [0, 2, 4, 6, 8, 10, 1, 3, 5, 7, 9, 11] sc_b1 = Some sc_b2"
  "bnd_fold 12 [0..<6] sc_b2 = Some sc_b3" "bnd_pass [0..<12] sc_b3 = Some sc_b4"
  "bnd_fold 12 [0..<6] sc_b4 = Some sc_b5" "bnd_pass [0..<12] sc_b5 = Some sc_b6"
  by code_simp+

lemma sc_b_high: "drop 13 sc_b3 = replicate 11 0" "drop 13 sc_b5 = replicate 11 0"
  by code_simp+

lemma sc_b3_value: "(\<Sum>i\<leftarrow>[0..<24]. sc_b3 ! i * 2 ^ (21 * i)) < 32 * 2 ^ 252"
  by code_simp

lemma sc_val_abs:
  assumes "bnd s b" shows "\<bar>sc_val s\<bar> \<le> (\<Sum>i\<leftarrow>[0..<24]. b ! i * 2 ^ (21 * i))"
proof -
  have "\<bar>sc_val s\<bar> \<le> (\<Sum>i < 24. \<bar>s ! i * 2 ^ (21 * i)\<bar>)" unfolding sc_val_def by (rule sum_abs)
  also have "\<dots> \<le> (\<Sum>i < 24. b ! i * 2 ^ (21 * i))"
    using bndD [OF assms] by (intro sum_mono) (simp add: abs_mult mult_right_mono)
  also have "\<dots> = (\<Sum>i\<leftarrow>[0..<24]. b ! i * 2 ^ (21 * i))"
    by (simp only: interv_sum_list_conv_sum_set_nat set_upt atLeast0LessThan)
  finally show ?thesis .
qed

lemma high_zero:
  assumes "bnd s b" "drop 13 b = replicate 11 0" "13 \<le> i" "i < 24" shows "s ! i = 0"
proof -
  have "b ! i = drop 13 b ! (i - 13)" using assms(1,3,4) by (simp add: bnd_def)
  also have "\<dots> = 0" unfolding assms(2) using assms(3,4) by simp
  finally show ?thesis using bndD [OF assms(1,4)] by simp
qed

lemma bnd_pass_high: "bnd_pass los b = Some b' \<Longrightarrow> set los \<subseteq> {..<12} \<Longrightarrow> drop 13 b' = drop 13 b"
proof (induction los arbitrary: b)
  case (Cons lo los)
  then obtain b1 where b1: "bnd_carry lo b = Some b1" "bnd_pass los b1 = Some b'" by (auto split: option.splits)
  have "drop 13 b1 = drop 13 b"
    using b1(1) Cons.prems(2) by (auto simp: bnd_carry_def Let_def split: if_splits)
  with Cons.IH [OF b1(2)] Cons.prems(2) show ?case by simp
qed simp

text \<open>The floor carries split a value into its digits below 2^252 and the rest, in limb 12.\<close>

lemma sc_pass2_splits:
  assumes c: "bnd_pass [0..<12] b = Some b'" and s: "bnd s b" and z: "drop 13 b = replicate 11 0"
  shows "bnd (sc_pass2 128 s) b'" "sc_val (sc_pass2 128 s) = sc_val s" "sc_pass2 128 s ! 12 = sc_val s div 2 ^ 252"
    "i < 12 \<Longrightarrow> sc_pass2 128 s ! i = take_bit 21 (drop_bit (21 * i) (sc_val s mod 2 ^ 252))"
    "drop 13 b' = replicate 11 0"
proof -
  let ?t = "sc_pass2 128 s"
  have "set [0..<12] \<subseteq> {..<23}" by auto
  then show t: "bnd ?t b'" and v: "sc_val ?t = sc_val s"
    using sc_pass_exact [OF c s] by (simp_all add: sc_pass2_def)
  show z': "drop 13 b' = replicate 11 0" using bnd_pass_high [OF c] z by (simp add: atLeast0LessThan)
  have d: "\<forall>i < 12. 0 \<le> ?t ! i \<and> ?t ! i < 2 ^ 21" using sc_pass2_digits [OF c s] by (simp add: sc_pass2_def)
  let ?S = "\<Sum>i < 12. ?t ! i * 2 ^ (21 * i)"
  have S: "0 \<le> ?S" "?S < 2 ^ 252" using digits_sum [OF d] by simp_all
  have "sc_val ?t = ?S + (\<Sum>i \<in> {12..<24}. ?t ! i * 2 ^ (21 * i))"
    unfolding sc_val_def by (subst sum.union_disjoint [symmetric]) (auto intro: sum.cong)
  also have "(\<Sum>i \<in> {12..<24}. ?t ! i * 2 ^ (21 * i)) = ?t ! 12 * 2 ^ (21 * 12)"
    using high_zero [OF t z'] by (subst sum.remove [of _ 12]) auto
  finally have split: "sc_val s = ?S + ?t ! 12 * 2 ^ 252" using v by simp
  show "?t ! 12 = sc_val s div 2 ^ 252" using S unfolding split by simp
  have "sc_val s mod 2 ^ 252 = ?S" using S unfolding split by simp
  then show "i < 12 \<Longrightarrow> ?t ! i = take_bit 21 (drop_bit (21 * i) (sc_val s mod 2 ^ 252))"
    using digits_unique [OF d] by simp
qed


abbreviation "ed_c \<equiv> (27742317777372353535851937790883648493 :: int)"

lemma residue_near:
  assumes q: "- 32 \<le> t div 2 ^ 252" "t div 2 ^ 252 < 32"
    and near: "2 ^ 130 \<le> t mod ed_l" "t mod ed_l < ed_l - 2 ^ 130"
  shows "t - t div 2 ^ 252 * ed_l = t mod ed_l" "t mod ed_l < 2 ^ 252"
proof -
  let ?q = "t div 2 ^ 252" and ?r = "t mod 2 ^ 252" and ?y = "t - t div 2 ^ 252 * ed_l"
  have l: "ed_l = 2 ^ 252 + ed_c" by (simp add: ed_l_def)
  have r: "0 \<le> ?r" "?r < 2 ^ 252" by simp_all
  have c: "ed_c < 2 ^ 125" "0 < ed_c" by simp_all
  have y: "?y = ?r - ?q * ed_c" using div_mult_mod_eq [of t "2 ^ 252"] unfolding l distrib_left by linarith
  have "?q * ed_c \<le> 32 * ed_c" "- 32 * ed_c \<le> ?q * ed_c" using q c(2) by (intro mult_right_mono; simp)+
  moreover have p: "(2 :: int) ^ 130 = 32 * 2 ^ 125" by simp
  ultimately have b: "- (2 ^ 130) < ?y" "?y < 2 ^ 252 + 2 ^ 130" unfolding y using r c by linarith+
  have big: "2 ^ 130 < ed_l" by (simp add: ed_l_def)
  have m: "?y mod ed_l = t mod ed_l" by (simp add: mod_eq_dvd_iff)
  have "\<not> ?y < 0"
  proof
    assume n: "?y < 0"
    have "(?y + ed_l) mod ed_l = ?y + ed_l" using n b big by (intro mod_pos_pos_trivial) linarith+
    with m near(2) b show False by simp
  qed
  moreover have "\<not> ed_l \<le> ?y"
  proof
    assume n: "ed_l \<le> ?y"
    have "(?y - ed_l) mod ed_l = ?y - ed_l" using n b c(2) big unfolding l by (intro mod_pos_pos_trivial) linarith+
    then have "?y - ed_l = t mod ed_l" using m by (simp add: minus_mod_self2)
    with near(1) b c(2) show False unfolding l by linarith
  qed
  ultimately show "?y = t mod ed_l" using m by (simp add: mod_pos_pos_trivial)
  have "(2::int) ^ 125 < 2 ^ 130" by simp
  then show "t mod ed_l < 2 ^ 252" using near(2) c(1) unfolding l by linarith
qed


lemma sc_limbs_digits:
  assumes s: "length s = 64" and near: "2 ^ 130 \<le> le_int s mod ed_l" "le_int s mod ed_l < ed_l - 2 ^ 130" and i: "i < 12"
  shows "sc_limbs 128 (sc_load s) ! i = take_bit 21 (drop_bit (21 * i) (le_int s mod ed_l))" "le_int s mod ed_l < 2 ^ 252"
proof -
  note safe = sc_bounds_safe
  define s1 where "s1 = sc_pass1 128 (fold (sc_fold 128) [23, 22, 21, 20, 19, 18, 17, 16, 15, 14, 13, 12] (sc_load s))"
  define s2 where "s2 = sc_fold 128 12 s1"
  define t where "t = sc_val s2"
  have "set [23, 22, 21, 20, 19, 18, 17, 16, 15, 14, 13, 12] \<subseteq> {12..<24 :: nat}" by auto
  note f = sc_folds_exact [OF safe(1) sc_load_bnd [OF s] this]
  have "set [0, 2, 4, 6, 8, 10, 1, 3, 5, 7, 9, 11] \<subseteq> {..<(23 :: nat)}" by auto
  then have p: "bnd s1 sc_b2" "sc_val s1 mod ed_l = le_int s mod ed_l"
    using sc_pass_exact [OF safe(2), of _ "2 ^ 20"] f sc_load_value [OF s] by (simp_all add: s1_def sc_pass1_def)
  have b3: "bnd s2 sc_b3" and tm: "t mod ed_l = le_int s mod ed_l"
    using sc_fold_exact [OF safe(3) p(1)] p(2) by (simp_all add: s2_def t_def)
  have "\<bar>t\<bar> < 32 * 2 ^ 252" using sc_val_abs [OF b3] sc_b3_value unfolding t_def by linarith
  then have "t div 2 ^ 252 < 32" "- 32 \<le> t div 2 ^ 252" by (simp_all add: abs_less_iff div_less_bound) linarith+
  note y = residue_near [OF this(2,1), unfolded tm, OF near]
  show "le_int s mod ed_l < 2 ^ 252" by (rule y(2))
  let ?s3 = "sc_pass2 128 s2"
  note sp = sc_pass2_splits [OF safe(4) b3 sc_b_high(1)]
  have q: "?s3 ! 12 = t div 2 ^ 252" using sp(3) by (simp add: t_def)
  have eq: "sc_limbs 128 (sc_load s) = (if ?s3 ! 12 \<noteq> 0 then sc_pass2 128 (sc_fold 128 12 ?s3) else ?s3)"
    unfolding sc_limbs_def sc_residual_def s1_def s2_def ..
  show "sc_limbs 128 (sc_load s) ! i = take_bit 21 (drop_bit (21 * i) (le_int s mod ed_l))"
  proof (cases "?s3 ! 12 = 0")
    case True
    then have "t mod 2 ^ 252 = le_int s mod ed_l" using y q div_mult_mod_eq [of t "2 ^ 252"] by simp
    with True sp(4) [OF i] show ?thesis by (simp add: eq t_def)
  next
    case False
    have b5: "bnd (sc_fold 128 12 ?s3) sc_b5" and v5: "sc_val (sc_fold 128 12 ?s3) = le_int s mod ed_l"
      using sc_fold_exact [OF safe(5) sp(1)] y(1) q sp(2) by (simp_all add: t_def)
    have "le_int s mod ed_l mod 2 ^ 252 = le_int s mod ed_l"
      using y(2) by (intro mod_pos_pos_trivial) (simp_all add: ed_l_def)
    with sc_pass2_splits(4) [OF safe(6) b5 sc_b_high(2) i] False v5 show ?thesis by (simp add: eq)
  qed
qed

text \<open>The SHA-512 digest of the three bytes \<open>abc\<close>.\<close>

definition abc_digest :: "u8 list" where
  "abc_digest =
     [0xdd, 0xaf, 0x35, 0xa1, 0x93, 0x61, 0x7a, 0xba, 0xcc, 0x41, 0x73, 0x49, 0xae, 0x20, 0x41, 0x31,
      0x12, 0xe6, 0xfa, 0x4e, 0x89, 0xa9, 0x7e, 0xa2, 0x0a, 0x9e, 0xee, 0xe6, 0x4b, 0x55, 0xd3, 0x9a,
      0x21, 0x92, 0x99, 0x2a, 0x27, 0x4f, 0xc1, 0xa8, 0x36, 0xba, 0x3c, 0x23, 0xa3, 0xfe, 0xeb, 0xbd,
      0x45, 0x4d, 0x44, 0x23, 0x64, 0x3c, 0xe8, 0x0e, 0x2a, 0x9a, 0xc9, 0x4f, 0xa5, 0x4c, 0xa4, 0x9f]"

lemma sc_reduce_value:
  assumes "length s = 64" "2 ^ 130 \<le> le_int s mod ed_l" "le_int s mod ed_l < ed_l - 2 ^ 130"
  shows "le_int (sc_reduce 128 s) = le_int s mod ed_l"
proof -
  note d = sc_limbs_digits [OF assms]
  have v: "0 \<le> le_int s mod ed_l" "le_int s mod ed_l < 2 ^ 252" using d(2) [of 0] by (simp_all add: ed_l_def)
  have "le_int (sc_reduce 128 s) = take_bit (8 * 32) (le_int s mod ed_l)"
    using sc_pack_windows [OF d(1) v] le_int_bytes [of _ 32] by (simp add: sc_reduce_def)
  also have "\<dots> = le_int s mod ed_l" using v by (intro take_bit_int_eq_self) simp_all
  finally show ?thesis .
qed

text \<open>where the compiler has 128-bit integers, the reduction returns the residue of every hash modulo
  the group order, unless that residue is within 2^130 of 0 or of the order (a share of 2^-121 of the hashes).\<close>

theorem sc_reduce_exact:
  assumes "length s = 64" "2 ^ 130 \<le> le_int s mod ed_l" "le_int s mod ed_l < ed_l - 2 ^ 130"
  shows "le_int (sc_reduce 128 s) = le_int s mod ed_l"
  using assms by (rule sc_reduce_value)

theorem sc_reduce_exact_witness:
  "le_int (sc_reduce 128 (replicate 20 0 @ [1] @ replicate 43 0)) = 2 ^ 160 mod ed_l"
proof -
  let ?d = "replicate 20 0 @ [1] @ replicate 43 0 :: u8 list"
  have "le_int ?d = 2 ^ 160" by code_simp
  then have "le_int ?d mod ed_l = 2 ^ 160" by (simp add: ed_l_def)
  with sc_reduce_exact [of ?d] show ?thesis by (simp add: ed_l_def)
qed

text \<open>Wrapping, for the evaluation of concrete digests.\<close>

lemma i_wrap_code [code]:
  "i_wrap n x =
     (if n = 64 then (if - 9223372036854775808 \<le> x \<and> x < 9223372036854775808 then x else (x + 9223372036854775808) mod 18446744073709551616 - 9223372036854775808)
      else if n = 128 \<and> - 170141183460469231731687303715884105728 \<le> x \<and> x < 170141183460469231731687303715884105728 then x
      else (x + 2 ^ (n - 1)) mod 2 ^ n - 2 ^ (n - 1))"
  by (simp add: i_wrap_def)

lemma abc_limbs: "sc_load abc_digest =
    [1421277, 826633, 958104, 426905, 713879, 1613968, 759880, 1124831, 163497, 1372245, 1243579, 1418922,
     1647129, 1283404, 197948, 1525461, 205628, 1007605, 1266031, 542344, 951238, 857351, 1392422, 334793108]"
  by (simp add: sc_load_def load3_def load4_def limb21_def abc_digest_def)

text \<open>on a target without 128-bit integers (every microcontroller the firmware runs on) the sums overflow
  and the reduction of an ordinary digest is not congruent to it, while the host build gets it right.\<close>

theorem sc_reduce_64_overflows:
  "le_int (sc_reduce 64 abc_digest) mod ed_l \<noteq> le_int abc_digest mod ed_l \<and>
   le_int (sc_reduce 128 abc_digest) = le_int abc_digest mod ed_l"
  unfolding sc_reduce_def abc_limbs by code_simp

definition two_252 :: "u8 list" where
  "two_252 =
     [0, 0, 0, 0, 0, 0, 0, 0, 0, 0, 0, 0, 0, 0, 0, 0, 0, 0, 0, 0, 0, 0, 0, 0,
      0, 0, 0, 0, 0, 0, 0, 0x10, 0, 0, 0, 0, 0, 0, 0, 0, 0, 0, 0, 0, 0, 0, 0, 0,
      0, 0, 0, 0, 0, 0, 0, 0, 0, 0, 0, 0, 0, 0, 0, 0]"

lemma two_252_limbs: "sc_load two_252 = [0, 0, 0, 0, 0, 0, 0, 0, 0, 0, 0, 0, 1, 0, 0, 0, 0, 0, 0, 0, 0, 0, 0, 0]"
  by (simp add: sc_load_def load3_def load4_def limb21_def two_252_def)

text \<open>The last carry is thrown away, so a digest whose residue needs the bit 252 is reduced wrongly at any width.\<close>

theorem sc_reduce_drops_carry: "le_int (sc_reduce 128 two_252) = 0 \<and> le_int two_252 mod ed_l = 2 ^ 252"
  unfolding sc_reduce_def two_252_limbs by code_simp

end
