(* ===== verification/Rivr_Field25519.thy ===== *)
theory Rivr_Field25519
  imports Rivr_Scalar
begin

text \<open>
  The field of Ed25519 (the gf functions of ed25519_verify.c): an element is 16 limbs of 16 bits in
  \<open>long long\<close> integers, here integers that wrap at 64 bits. The lemmas say what number the limbs
  of a result stand for modulo 2^255 - 19 and that no operation overflows when the inputs are within
  the bounds that the callers keep.
\<close>

section \<open>The code\<close>

abbreviation ll :: "int \<Rightarrow> int" where
  "ll x \<equiv> i_wrap 64 x"

definition gf0 :: "int list" where "gf0 = replicate 16 0"
definition gf1 :: "int list" where "gf1 = 1 # replicate 15 0"

definition gf_D :: "int list" where
  "gf_D = [0x78a3, 0x1359, 0x4dca, 0x75eb, 0xd8ab, 0x4141, 0x0a4d, 0x0070,
           0xe898, 0x7779, 0x4079, 0x8cc7, 0xfe73, 0x2b6f, 0x6cee, 0x5203]"

definition gf_D2 :: "int list" where
  "gf_D2 = [0xf159, 0x26b2, 0x9b94, 0xebd6, 0xb156, 0x8283, 0x149a, 0x00e0,
            0xd130, 0xeef3, 0x80f2, 0x198e, 0xfce7, 0x56df, 0xd9dc, 0x2406]"

definition gf_I :: "int list" where
  "gf_I = [0xa0b0, 0x4a0e, 0x1b27, 0xc4ee, 0xe478, 0xad2f, 0x1806, 0x2f43,
           0xd7a7, 0x3dfb, 0x0099, 0x2b4d, 0xdf0b, 0x4fc1, 0x2480, 0x2b83]"

definition gf_BX :: "int list" where
  "gf_BX = [0xd51a, 0x8f25, 0x2d60, 0xc956, 0xa7b2, 0x9525, 0xc760, 0x692c,
            0xdc5c, 0xfdd6, 0xe231, 0xc0a4, 0x53fe, 0xcd6e, 0x36d3, 0x2169]"

definition gf_BY :: "int list" where
  "gf_BY = [0x6658, 0x6666, 0x6666, 0x6666, 0x6666, 0x6666, 0x6666, 0x6666,
            0x6666, 0x6666, 0x6666, 0x6666, 0x6666, 0x6666, 0x6666, 0x6666]"

definition gf_add :: "int list \<Rightarrow> int list \<Rightarrow> int list" where
  "gf_add a b = map (\<lambda>i. ll (a ! i + b ! i)) [0..<16]"

definition gf_sub :: "int list \<Rightarrow> int list \<Rightarrow> int list" where
  "gf_sub a b = map (\<lambda>i. ll (a ! i - b ! i)) [0..<16]"

definition car_step :: "nat \<Rightarrow> int list \<Rightarrow> int list" where
  "car_step i r =
     (let c = drop_bit 16 (r ! i); j = (i + 1) mod 16;
          r1 = r[j := ll (r ! j + (if i < 15 then c else ll (38 * c)))]
      in r1[i := r1 ! i AND 0xFFFF])"

definition car25519 :: "int list \<Rightarrow> int list" where
  "car25519 r = fold car_step [0..<16] r"

definition mul_step :: "int list \<Rightarrow> int list \<Rightarrow> nat \<Rightarrow> nat \<Rightarrow> int list \<Rightarrow> int list" where
  "mul_step a b i j t = t[i + j := ll (t ! (i + j) + ll (a ! i * b ! j))]"

definition gf_mul :: "int list \<Rightarrow> int list \<Rightarrow> int list" where
  "gf_mul a b =
     (let t = fold (\<lambda>i. fold (mul_step a b i) [0..<16]) [0..<16] (replicate 31 0);
          t1 = fold (\<lambda>i t. t[i := ll (t ! i + ll (38 * t ! (i + 16)))]) [0..<15] t
      in car25519 (car25519 (take 16 t1)))"

definition gf_sq :: "int list \<Rightarrow> int list" where
  "gf_sq a = gf_mul a a"

definition cswap25519 :: "int list \<Rightarrow> int list \<Rightarrow> int \<Rightarrow> int list \<times> int list" where
  "cswap25519 p q b =
     (let c = NOT (b - 1); t = map (\<lambda>i. c AND (p ! i XOR q ! i)) [0..<16]
      in (map (\<lambda>i. p ! i XOR t ! i) [0..<16], map (\<lambda>i. q ! i XOR t ! i) [0..<16]))"

text \<open>One turn of the loop of pack25519: the limbs of t - p, and a swap unless that is negative.\<close>

definition sub_p_step :: "int list \<Rightarrow> nat \<Rightarrow> int list \<Rightarrow> int list" where
  "sub_p_step t i m =
     (let m1 = m[i := ll (t ! i - 0xFFFF - (drop_bit 16 (m ! (i - 1)) AND 1))]
      in m1[i - 1 := m1 ! (i - 1) AND 0xFFFF])"

definition pack_turn :: "int list \<times> int list \<Rightarrow> int list \<times> int list" where
  "pack_turn s =
     (case s of (t, m) \<Rightarrow>
       let m1 = m[0 := ll (t ! 0 - 0xFFED)];
           m2 = fold (sub_p_step t) [1..<15] m1;
           m3 = m2[15 := ll (t ! 15 - 0x7FFF - (drop_bit 16 (m2 ! 14) AND 1))];
           bi = drop_bit 16 (m3 ! 15) AND 1
       in cswap25519 t (m3[14 := m3 ! 14 AND 0xFFFF]) (1 - bi))"

text \<open>The uninitialised array m is an argument; every limb is written before it is read.\<close>

definition pack25519 :: "int list \<Rightarrow> int list \<Rightarrow> u8 list" where
  "pack25519 m n =
     (let t = fst (pack_turn (pack_turn (car25519 (car25519 (car25519 n)), m)))
      in concat (map (\<lambda>i. [word_of_int (t ! i), word_of_int (drop_bit 8 (t ! i))]) [0..<16]))"

section \<open>Values\<close>

definition ed_p :: int where
  "ed_p = 2 ^ 255 - 19"

definition dig :: "int list \<Rightarrow> nat \<Rightarrow> int" where
  "dig d n = (\<Sum>i < n. d ! i * 2 ^ (16 * i))"

abbreviation gfv :: "int list \<Rightarrow> int" where
  "gfv a \<equiv> dig a 16"

lemma ll_id: "\<bar>x\<bar> < 2 ^ 63 \<Longrightarrow> ll x = x"
  by (simp add: i_wrap_def abs_less_iff)

lemma dig_Suc: "dig d (Suc n) = dig d n + d ! n * 2 ^ (16 * n)"
  by (simp add: dig_def)

text \<open>The carry out of the first limbs, step by step.\<close>

lemma dig_carry: "dig d (Suc n) div 2 ^ (16 * Suc n) = (d ! n + dig d n div 2 ^ (16 * n)) div 2 ^ 16"
proof -
  have "16 * Suc n = 16 * n + 16" by simp
  then have "(2 :: int) ^ (16 * Suc n) = 2 ^ (16 * n) * 2 ^ 16" by (simp only: power_add)
  then show ?thesis unfolding dig_Suc by (simp add: zdiv_zmult2_eq)
qed

lemma dig_split: "i \<le> n \<Longrightarrow> dig d n = dig d i + 2 ^ (16 * i) * (\<Sum>k < n - i. d ! (i + k) * 2 ^ (16 * k))"
proof (induction n)
  case (Suc n)
  show ?case
  proof (cases "i \<le> n")
    case True
    then have "Suc n - i = Suc (n - i)" "16 * n = 16 * i + 16 * (n - i)" by simp_all
    with Suc.IH [OF True] True show ?thesis by (simp add: dig_Suc power_add distrib_left)
  next
    case False
    with Suc.prems show ?thesis by (simp add: le_antisym not_less_eq_eq)
  qed
qed simp

lemma dig_digit:
  assumes "i < n" shows "dig d n div 2 ^ (16 * i) mod 2 ^ 16 = (d ! i + dig d i div 2 ^ (16 * i)) mod 2 ^ 16"
proof -
  let ?R = "\<Sum>k < n - Suc i. d ! (Suc i + k) * 2 ^ (16 * k)"
  have "dig d n = dig d i + 2 ^ (16 * i) * (d ! i + 2 ^ 16 * ?R)"
    unfolding dig_split [OF Suc_leI [OF assms]] dig_Suc by (simp add: power_add algebra_simps)
  then have "dig d n div 2 ^ (16 * i) = (d ! i + dig d i div 2 ^ (16 * i)) + 2 ^ 16 * ?R" by simp
  then show ?thesis by (simp only: mod_mult_self2)
qed

lemma and_ffff: "x AND 0xFFFF = x mod (2 ^ 16 :: int)"
proof -
  have "(0xFFFF :: int) = mask 16" by (simp add: mask_eq_exp_minus_1)
  then show ?thesis by (simp only: take_bit_eq_mask [symmetric] take_bit_eq_mod)
qed

lemma dig_bound:
  "(\<And>i. i < n \<Longrightarrow> \<bar>d ! i\<bar> \<le> M) \<Longrightarrow> 0 \<le> M \<Longrightarrow> \<bar>dig d n\<bar> \<le> M * 2 ^ (16 * n)"
proof (induction n)
  case (Suc n)
  have "\<bar>d ! n * 2 ^ (16 * n)\<bar> \<le> M * 2 ^ (16 * n)" using Suc.prems(1) [of n] by (simp add: abs_mult mult_right_mono)
  moreover have "\<bar>dig d n\<bar> \<le> M * 2 ^ (16 * n)" using Suc by simp
  moreover have "0 \<le> M * 2 ^ (16 * n)" using Suc.prems(2) by simp
  then have "2 * (M * 2 ^ (16 * n)) \<le> M * 2 ^ (16 * Suc n)" by (simp add: power_add)
  ultimately show ?case unfolding dig_Suc by linarith
qed (simp add: dig_def)

lemma div_abs_bound: "\<bar>x\<bar> \<le> M * P \<Longrightarrow> 0 < P \<Longrightarrow> \<bar>x div P\<bar> \<le> (M :: int)"
proof -
  assume x: "\<bar>x\<bar> \<le> M * P" and P: "0 < P"
  have "x div P \<le> M * P div P" using x P by (intro zdiv_mono1) auto
  moreover have "(- M) * P div P \<le> x div P" using x P by (intro zdiv_mono1) auto
  moreover have "M * P div P = M" "(- M) * P div P = - M" using P by (intro nonzero_mult_div_cancel_right; simp)+
  ultimately show ?thesis by linarith
qed

lemma dig_carry_bound:
  "(\<And>i. i < n \<Longrightarrow> \<bar>d ! i\<bar> \<le> M) \<Longrightarrow> 0 \<le> M \<Longrightarrow> \<bar>dig d n div 2 ^ (16 * n)\<bar> \<le> M"
  by (rule div_abs_bound [OF dig_bound]) auto

section \<open>Carrying\<close>

definition small :: "int \<Rightarrow> int list \<Rightarrow> bool" where
  "small M a \<longleftrightarrow> length a = 16 \<and> (\<forall>i < 16. \<bar>a ! i\<bar> \<le> M)"

lemma smallD: "small M a \<Longrightarrow> i < 16 \<Longrightarrow> \<bar>a ! i\<bar> \<le> M" "small M a \<Longrightarrow> length a = 16"
  by (simp_all add: small_def)

lemma car_prefix:
  assumes r: "small (2 ^ 57) r" and n: "n < 16"
  shows "fold car_step [0..<n] r = map (\<lambda>i. if i < n then gfv r div 2 ^ (16 * i) mod 2 ^ 16
      else if i = n then r ! i + dig r i div 2 ^ (16 * i) else r ! i) [0..<16]" (is "_ = ?f n")
  using n
proof (induction n)
  case 0
  show ?case using smallD(2) [OF r] by (intro nth_equalityI) (auto simp: dig_def)
next
  case (Suc n)
  let ?s = "?f n" and ?c = "(r ! n + dig r n div 2 ^ (16 * n)) div 2 ^ 16"
  have n: "n < 15" using Suc.prems by simp
  have c: "?c = dig r (Suc n) div 2 ^ (16 * Suc n)" by (simp only: dig_carry)
  have "\<bar>?c\<bar> \<le> 2 ^ 57" unfolding c using smallD(1) [OF r] n by (intro dig_carry_bound) auto
  with smallD(1) [OF r, of "Suc n"] n have w: "ll (r ! Suc n + ?c) = r ! Suc n + ?c" by (intro ll_id) simp
  have d: "(r ! n + dig r n div 2 ^ (16 * n)) mod 2 ^ 16 = gfv r div 2 ^ (16 * n) mod 2 ^ 16"
    using n by (intro dig_digit [symmetric]) simp
  have "car_step n ?s = ?s[Suc n := r ! Suc n + ?c, n := gfv r div 2 ^ (16 * n) mod 2 ^ 16]"
    using n w unfolding d [symmetric] by (simp add: car_step_def and_ffff drop_bit_eq_div)
  also have "\<dots> = ?f (Suc n)"
    using n c by (intro nth_equalityI) (auto simp: nth_list_update less_Suc_eq)
  finally show ?case using Suc by simp
qed

lemma ll_38: "0 \<le> m \<Longrightarrow> m < 2 ^ 16 \<Longrightarrow> \<bar>c\<bar> \<le> 2 ^ 57 \<Longrightarrow> ll (m + 38 * c) = m + 38 * c"
  by (rule ll_id) (simp add: abs_less_iff abs_le_iff)

lemma car25519_exact:
  assumes r: "small (2 ^ 57) r"
  shows "car25519 r = map (\<lambda>i. gfv r div 2 ^ (16 * i) mod 2 ^ 16 + (if i = 0 then 38 * (gfv r div 2 ^ 256) else 0)) [0..<16]"
proof -
  let ?c = "(r ! 15 + dig r 15 div 2 ^ (16 * 15)) div 2 ^ 16"
  define s where "s = fold car_step [0..<15] r"
  have s: "s = map (\<lambda>i. if i < 15 then gfv r div 2 ^ (16 * i) mod 2 ^ 16
      else if i = 15 then r ! i + dig r i div 2 ^ (16 * i) else r ! i) [0..<16]" unfolding s_def by (rule car_prefix [OF r]) simp
  have c: "?c = gfv r div 2 ^ 256" using dig_carry [of r 15] by simp
  have "\<bar>?c\<bar> \<le> 2 ^ 57" unfolding c using dig_carry_bound [of 16 r "2 ^ 57"] smallD(1) [OF r] by simp
  then have w1: "ll (38 * ?c) = 38 * ?c" by (intro ll_id) simp
  have b: "0 \<le> gfv r mod 2 ^ 16" "gfv r mod 2 ^ 16 < 2 ^ 16" by simp_all
  have w2: "ll (gfv r mod 2 ^ 16 + 38 * ?c) = gfv r mod 2 ^ 16 + 38 * ?c"
    by (rule ll_38 [OF b \<open>\<bar>?c\<bar> \<le> 2 ^ 57\<close>])
  have d: "(r ! 15 + dig r 15 div 2 ^ (16 * 15)) mod 2 ^ 16 = gfv r div 2 ^ (16 * 15) mod 2 ^ 16"
    by (intro dig_digit [symmetric]) simp
  have l: "length s = 16" and s15: "s ! 15 = r ! 15 + dig r 15 div 2 ^ (16 * 15)" and s0: "s ! 0 = gfv r mod 2 ^ 16"
    and mid: "\<And>i. i < 15 \<Longrightarrow> s ! i = gfv r div 2 ^ (16 * i) mod 2 ^ 16"
    by (simp_all add: s)
  have "[0..<16] = [0..<15] @ [15 :: nat]" by (simp add: upt_rec)
  then have "car25519 r = car_step 15 s" by (simp only: car25519_def fold_append s_def) simp
  also have "\<dots> = s[0 := gfv r mod 2 ^ 16 + 38 * ?c, 15 := gfv r div 2 ^ (16 * 15) mod 2 ^ 16]"
    using w1 w2 l unfolding d [symmetric] by (simp add: car_step_def and_ffff drop_bit_eq_div s15 s0)
  also have "\<dots> = map (\<lambda>i. gfv r div 2 ^ (16 * i) mod 2 ^ 16 + (if i = 0 then 38 * (gfv r div 2 ^ 256) else 0)) [0..<16]"
  proof (rule nth_equalityI)
    fix i assume "i < length (s[0 := gfv r mod 2 ^ 16 + 38 * ?c, 15 := gfv r div 2 ^ (16 * 15) mod 2 ^ 16])"
    then consider "i = 0" | "0 < i" "i < 15" | "i = 15" using l by force
    then show "s[0 := gfv r mod 2 ^ 16 + 38 * ?c, 15 := gfv r div 2 ^ (16 * 15) mod 2 ^ 16] ! i =
        map (\<lambda>i. gfv r div 2 ^ (16 * i) mod 2 ^ 16 + (if i = 0 then 38 * (gfv r div 2 ^ 256) else 0)) [0..<16] ! i"
      unfolding c using l mid [of i] by cases simp_all
  qed (simp add: l)
  finally show ?thesis .
qed

section \<open>Multiplication\<close>

text \<open>The value of the 31 products, and their bound.\<close>

lemma dig_update: "i < n \<Longrightarrow> n \<le> length t \<Longrightarrow> dig (t[i := x]) n = dig t n + (x - t ! i) * 2 ^ (16 * i)"
proof (induction n)
  case (Suc n)
  then show ?case
    by (cases "i = n") (auto simp: dig_Suc algebra_simps nth_list_update intro!: sum.cong simp: dig_def)
qed simp

lemma mul_row:
  assumes a: "small (2 ^ 20) a" and b: "small (2 ^ 20) b" and t: "length t = 31" "\<And>k. k < 31 \<Longrightarrow> \<bar>t ! k\<bar> \<le> 2 ^ 40 * int i"
    and i: "i < 16" and n: "n \<le> 16"
  shows "length (fold (mul_step a b i) [0..<n] t) = 31 \<and>
    (\<forall>k < 31. \<bar>fold (mul_step a b i) [0..<n] t ! k\<bar> \<le> 2 ^ 40 * (if i \<le> k \<and> k < i + n then int i + 1 else int i)) \<and>
    dig (fold (mul_step a b i) [0..<n] t) 31 = dig t 31 + a ! i * 2 ^ (16 * i) * dig b n"
  using n
proof (induction n)
  case 0
  then show ?case using t by (simp add: dig_def)
next
  case (Suc n)
  let ?t = "fold (mul_step a b i) [0..<n] t"
  have IH: "length ?t = 31" "\<And>k. k < 31 \<Longrightarrow> \<bar>?t ! k\<bar> \<le> 2 ^ 40 * (if i \<le> k \<and> k < i + n then int i + 1 else int i)"
    "dig ?t 31 = dig t 31 + a ! i * 2 ^ (16 * i) * dig b n" using Suc by auto
  have k: "i + n < 31" using i Suc.prems by simp
  have "\<bar>a ! i\<bar> * \<bar>b ! n\<bar> \<le> 2 ^ 20 * 2 ^ 20"
    using smallD(1) [OF a i] smallD(1) [OF b, of n] Suc.prems by (intro mult_mono) auto
  then have p: "\<bar>a ! i * b ! n\<bar> \<le> 2 ^ 40" by (simp add: abs_mult)
  have q: "\<bar>?t ! (i + n)\<bar> \<le> 2 ^ 40 * int i" using IH(2) [OF k] by simp
  have s: "\<bar>?t ! (i + n) + a ! i * b ! n\<bar> \<le> 2 ^ 40 * (int i + 1)" using p q by (simp add: distrib_left)
  have w: "ll (a ! i * b ! n) = a ! i * b ! n" using p by (intro ll_id) simp
  have "\<bar>?t ! (i + n) + a ! i * b ! n\<bar> < 2 ^ 63" using s i by simp
  then have eq: "fold (mul_step a b i) [0..<Suc n] t = ?t[i + n := ?t ! (i + n) + a ! i * b ! n]"
    by (simp add: mul_step_def w ll_id)
  show ?case
  proof (intro conjI allI impI)
    show "length (fold (mul_step a b i) [0..<Suc n] t) = 31" unfolding eq using IH(1) by simp
    show "dig (fold (mul_step a b i) [0..<Suc n] t) 31 = dig t 31 + a ! i * 2 ^ (16 * i) * dig b (Suc n)"
      unfolding eq dig_update [OF k, of ?t, unfolded IH(1), OF order_refl] IH(3) dig_Suc
      by (simp add: algebra_simps power_add)
    fix k :: nat assume k31: "k < 31"
    show "\<bar>fold (mul_step a b i) [0..<Suc n] t ! k\<bar> \<le> 2 ^ 40 * (if i \<le> k \<and> k < i + Suc n then int i + 1 else int i)"
    proof (cases "k = i + n")
      case True
      with s IH(1) k show ?thesis unfolding eq by simp
    next
      case False
      with IH(2) [OF k31] show ?thesis unfolding eq by (auto split: if_splits)
    qed
  qed
qed

lemma mul_rows_exact:
  assumes a: "small (2 ^ 20) a" and b: "small (2 ^ 20) b" and n: "n \<le> 16"
  shows "length (fold (\<lambda>i. fold (mul_step a b i) [0..<16]) [0..<n] (replicate 31 0)) = 31 \<and>
    (\<forall>k < 31. \<bar>fold (\<lambda>i. fold (mul_step a b i) [0..<16]) [0..<n] (replicate 31 0) ! k\<bar> \<le> 2 ^ 40 * int n) \<and>
    dig (fold (\<lambda>i. fold (mul_step a b i) [0..<16]) [0..<n] (replicate 31 0)) 31 = dig a n * gfv b"
  using n
proof (induction n)
  case 0
  show ?case by (simp add: dig_def)
next
  case (Suc n)
  let ?t = "fold (\<lambda>i. fold (mul_step a b i) [0..<16]) [0..<n] (replicate 31 0)"
  have IH: "length ?t = 31" "\<And>k. k < 31 \<Longrightarrow> \<bar>?t ! k\<bar> \<le> 2 ^ 40 * int n" "dig ?t 31 = dig a n * gfv b"
    using Suc by auto
  have "n < 16" using Suc.prems by simp
  note row = mul_row [OF a b IH(1,2) this order_refl]
  have "2 ^ 40 * (if c then int n + 1 else int n) \<le> 2 ^ 40 * int (Suc n)" for c by simp
  with row have "\<forall>k < 31. \<bar>fold (mul_step a b n) [0..<16] ?t ! k\<bar> \<le> 2 ^ 40 * int (Suc n)" by (meson order_trans)
  with row show ?case by (simp add: IH(3) dig_Suc algebra_simps)
qed

lemma mul_wrap:
  assumes t: "length t = 31" "\<And>k. k < 31 \<Longrightarrow> \<bar>t ! k\<bar> \<le> 2 ^ 44" and n: "n \<le> 15"
  shows "fold (\<lambda>i t. t[i := ll (t ! i + ll (38 * t ! (i + 16)))]) [0..<n] t =
    map (\<lambda>k. if k < n then t ! k + 38 * t ! (k + 16) else t ! k) [0..<31]"
  using n
proof (induction n)
  case 0
  show ?case using t(1) by (intro nth_equalityI) auto
next
  case (Suc n)
  let ?m = "\<lambda>n. map (\<lambda>k. if k < n then t ! k + 38 * t ! (k + 16) else t ! k) [0..<31]"
  have n: "n < 15" using Suc.prems by simp
  have b: "\<bar>t ! n\<bar> \<le> 2 ^ 44" "\<bar>t ! (n + 16)\<bar> \<le> 2 ^ 44" using t(2) n by simp_all
  have w: "ll (38 * t ! (n + 16)) = 38 * t ! (n + 16)" using b by (intro ll_id) simp
  have w2: "ll (t ! n + 38 * t ! (n + 16)) = t ! n + 38 * t ! (n + 16)" using b by (intro ll_id) (simp add: abs_less_iff abs_le_iff)
  have nth: "?m n ! n = t ! n" "?m n ! (n + 16) = t ! (n + 16)" using n by simp_all
  have "fold (\<lambda>i t. t[i := ll (t ! i + ll (38 * t ! (i + 16)))]) [0..<Suc n] t = (?m n)[n := t ! n + 38 * t ! (n + 16)]"
    using Suc.IH n by (simp add: nth w w2 del: map_eq_conv)
  also have "\<dots> = ?m (Suc n)" using n by (intro nth_equalityI) (auto simp: nth_list_update less_Suc_eq)
  finally show ?case .
qed

lemma ed_p_256: "2 ^ 256 = 2 * ed_p + 38"
  by (simp add: ed_p_def)

lemma fold_38: "y = t + 38 * h \<Longrightarrow> x = t + 2 ^ 256 * h \<Longrightarrow> y mod ed_p = x mod ed_p"
proof -
  assume y: "y = t + 38 * h" and x: "x = t + 2 ^ 256 * h"
  have "x - y = ed_p * (2 * h)" unfolding x y ed_p_256 by (simp add: algebra_simps)
  then show ?thesis by (metis mod_eq_dvd_iff dvd_triv_left)
qed

definition gf_raw :: "int list \<Rightarrow> int list \<Rightarrow> int list" where
  "gf_raw a b =
     take 16 (fold (\<lambda>i t. t[i := ll (t ! i + ll (38 * t ! (i + 16)))]) [0..<15]
       (fold (\<lambda>i. fold (mul_step a b i) [0..<16]) [0..<16] (replicate 31 0)))"

lemma gf_mul_raw: "gf_mul a b = car25519 (car25519 (gf_raw a b))"
  by (simp add: gf_mul_def gf_raw_def Let_def)

lemma gf_raw_exact:
  assumes a: "small (2 ^ 20) a" and b: "small (2 ^ 20) b"
  shows "small (2 ^ 50) (gf_raw a b)" "gfv (gf_raw a b) mod ed_p = gfv a * gfv b mod ed_p"
proof -
  define t where "t = fold (\<lambda>i. fold (mul_step a b i) [0..<16]) [0..<16] (replicate 31 0)"
  have t: "length t = 31" "\<And>k. k < 31 \<Longrightarrow> \<bar>t ! k\<bar> \<le> 2 ^ 44" "dig t 31 = gfv a * gfv b"
    using mul_rows_exact [OF a b order_refl] by (auto simp: t_def)
  have raw: "gf_raw a b = map (\<lambda>k. if k < 15 then t ! k + 38 * t ! (k + 16) else t ! k) [0..<16]"
    using mul_wrap [OF t(1,2), of 15] unfolding gf_raw_def t_def [symmetric] by (simp add: take_map take_upt)
  show "small (2 ^ 50) (gf_raw a b)" unfolding small_def raw
  proof (intro conjI allI impI)
    fix i :: nat assume i: "i < 16"
    have "\<bar>t ! i\<bar> \<le> 2 ^ 44" using t(2) [of i] i by simp
    moreover have "i < 15 \<Longrightarrow> \<bar>t ! (i + 16)\<bar> \<le> 2 ^ 44" using t(2) [of "i + 16"] by simp
    ultimately show "\<bar>map (\<lambda>k. if k < 15 then t ! k + 38 * t ! (k + 16) else t ! k) [0..<16] ! i\<bar> \<le> 2 ^ 50"
      using i by (auto simp: abs_le_iff)
  qed simp
  let ?H = "\<Sum>k < 15. t ! (16 + k) * 2 ^ (16 * k)"
  have high: "dig t 31 = gfv t + 2 ^ 256 * ?H" using dig_split [of 16 31 t] by simp
  have "(16 :: nat) = Suc 15" by simp
  then have s16: "sum f {..<16} = sum f {..<15} + f 15" for f :: "nat \<Rightarrow> int" by (simp only: sum.lessThan_Suc)
  have "gfv (gf_raw a b) = (\<Sum>k < 15. (t ! k + 38 * t ! (k + 16)) * 2 ^ (16 * k)) + t ! 15 * 2 ^ (16 * 15)"
    unfolding dig_def s16 raw by (intro arg_cong2 [where f = "(+)"] sum.cong) auto
  also have "\<dots> = (\<Sum>k < 15. t ! k * 2 ^ (16 * k)) + 38 * ?H + t ! 15 * 2 ^ (16 * 15)"
    by (simp add: distrib_right sum.distrib sum_distrib_left mult.assoc add.commute)
  also have "\<dots> = gfv t + 38 * ?H" unfolding dig_def s16 by simp
  finally show "gfv (gf_raw a b) mod ed_p = gfv a * gfv b mod ed_p" by (rule fold_38 [OF _ high [unfolded t(3)]])
qed

lemma dig_digits: "n \<le> 16 \<Longrightarrow> dig (map (\<lambda>i. v div 2 ^ (16 * i) mod 2 ^ 16) [0..<16]) n = v mod 2 ^ (16 * n)"
proof (induction n)
  case (Suc n)
  have "16 * Suc n = 16 * n + 16" by simp
  then have "(2 :: int) ^ (16 * Suc n) = 2 ^ (16 * n) * 2 ^ 16" by (simp only: power_add)
  then have "v mod 2 ^ (16 * Suc n) = 2 ^ (16 * n) * (v div 2 ^ (16 * n) mod 2 ^ 16) + v mod 2 ^ (16 * n)"
    by (simp only: zmod_zmult2_eq zero_le_power zero_le_numeral)
  with Suc show ?case by (simp add: dig_Suc mult.commute)
qed (simp add: dig_def)

text \<open>An element as \<open>gf_mul\<close> returns it.\<close>

definition reduced :: "int list \<Rightarrow> bool" where
  "reduced a \<longleftrightarrow> length a = 16 \<and> - 38 \<le> a ! 0 \<and> a ! 0 \<le> 65573 \<and> (\<forall>i \<in> {1..<16}. 0 \<le> a ! i \<and> a ! i < 65536)"

lemma car_value:
  assumes r: "small (2 ^ 57) r"
  shows "gfv (car25519 r) = gfv r mod 2 ^ 256 + 38 * (gfv r div 2 ^ 256)" "gfv (car25519 r) mod ed_p = gfv r mod ed_p"
    "\<bar>gfv r div 2 ^ 256\<bar> \<le> 2 ^ 57"
proof -
  let ?d = "map (\<lambda>i. gfv r div 2 ^ (16 * i) mod 2 ^ 16) [0..<16]"
  have "car25519 r = ?d[0 := ?d ! 0 + 38 * (gfv r div 2 ^ 256)]"
    unfolding car25519_exact [OF r] by (intro nth_equalityI) (auto simp: nth_list_update)
  then have "gfv (car25519 r) = gfv ?d + 38 * (gfv r div 2 ^ 256)" by (simp add: dig_update)
  then show v: "gfv (car25519 r) = gfv r mod 2 ^ 256 + 38 * (gfv r div 2 ^ 256)" using dig_digits [of 16] by simp
  have "gfv r - gfv (car25519 r) = ed_p * (2 * (gfv r div 2 ^ 256))"
    using div_mult_mod_eq [of "gfv r" "2 ^ 256"] unfolding v ed_p_256 by (simp add: algebra_simps)
  then show "gfv (car25519 r) mod ed_p = gfv r mod ed_p" by (metis mod_eq_dvd_iff dvd_triv_left)
  show "\<bar>gfv r div 2 ^ 256\<bar> \<le> 2 ^ 57" using dig_carry_bound [of 16 r "2 ^ 57"] smallD(1) [OF r] by simp
qed

lemma car_small: "small M r \<Longrightarrow> M \<le> 2 ^ 57 \<Longrightarrow> 0 \<le> M \<Longrightarrow> small (65535 + 38 * M) (car25519 r)"
proof -
  assume r: "small M r" "M \<le> 2 ^ 57" "0 \<le> M"
  then have r': "small (2 ^ 57) r" by (force simp: small_def)
  have q: "\<bar>gfv r div 2 ^ 256\<bar> \<le> M" using dig_carry_bound [of 16 r M] smallD(1) [OF r(1)] r(3) by simp
  have d: "0 \<le> x mod 2 ^ 16" "x mod 2 ^ 16 < 2 ^ 16" for x :: int by simp_all
  show ?thesis unfolding small_def car25519_exact [OF r']
  proof (intro conjI allI impI)
    fix i :: nat assume i: "i < 16"
    have "0 \<le> gfv r div 2 ^ (16 * i) mod 2 ^ 16" "gfv r div 2 ^ (16 * i) mod 2 ^ 16 < 65536"
      using d [of "gfv r div 2 ^ (16 * i)"] by simp_all
    then show "\<bar>map (\<lambda>i. gfv r div 2 ^ (16 * i) mod 2 ^ 16 + (if i = 0 then 38 * (gfv r div 2 ^ 256) else 0)) [0..<16] ! i\<bar>
        \<le> 65535 + 38 * M"
      using i q r(3) by (auto simp: abs_le_iff)
  qed simp
qed

lemma near_range:
  "0 \<le> m \<Longrightarrow> m < 2 ^ 256 \<Longrightarrow> \<bar>q\<bar> \<le> 2 ^ 57 \<Longrightarrow> v = m + 38 * q \<Longrightarrow> - (2 ^ 256) \<le> v \<and> v < 2 * (2 :: int) ^ 256"
  by (simp add: abs_le_iff)

lemma car_twice:
  assumes r: "small (2 ^ 50) r"
  shows "reduced (car25519 (car25519 r))" "gfv (car25519 (car25519 r)) mod ed_p = gfv r mod ed_p"
proof -
  have r1: "small (2 ^ 57) r" using r by (force simp: small_def)
  have "small (65535 + 38 * 2 ^ 50) (car25519 r)" by (rule car_small [OF r]) simp_all
  then have c: "small (2 ^ 57) (car25519 r)" by (force simp: small_def)
  let ?v = "gfv (car25519 r)"
  have "- (2 ^ 256) \<le> ?v" "?v < 2 * 2 ^ 256"
    using near_range [OF _ _ car_value(3) [OF r1] car_value(1) [OF r1]] by simp_all
  then have q: "- 1 \<le> ?v div 2 ^ 256" "?v div 2 ^ 256 \<le> 1"
    using div_less_bound [of "2 ^ 256" ?v 2] zdiv_mono1 [of "- (2 ^ 256)" ?v "2 ^ 256"] by simp_all
  have d: "0 \<le> x mod 65536" "x mod 65536 < 65536" for x :: int by simp_all
  show "reduced (car25519 (car25519 r))"
    unfolding reduced_def car25519_exact [OF c] using q d [of ?v] d by auto
  show "gfv (car25519 (car25519 r)) mod ed_p = gfv r mod ed_p" using car_value(2) [OF c] car_value(2) [OF r1] by simp
qed

lemma gf_mul_exact:
  assumes "small (2 ^ 20) a" "small (2 ^ 20) b"
  shows "reduced (gf_mul a b)" "gfv (gf_mul a b) mod ed_p = gfv a * gfv b mod ed_p"
  using gf_raw_exact [OF assms] car_twice [of "gf_raw a b"] by (simp_all add: gf_mul_raw)

lemma reduced_small: "reduced a \<Longrightarrow> small 65573 a"
proof -
  assume a: "reduced a"
  show ?thesis unfolding small_def
  proof (intro conjI allI impI)
    fix i :: nat assume "i < 16"
    with a have "0 < i \<Longrightarrow> 0 \<le> a ! i \<and> a ! i < 65536" "- 38 \<le> a ! 0" "a ! 0 \<le> 65573" by (auto simp: reduced_def)
    then show "\<bar>a ! i\<bar> \<le> 65573" by (cases "i = 0") auto
  qed (use a in \<open>simp add: reduced_def\<close>)
qed

lemma small_mono: "small M a \<Longrightarrow> M \<le> N \<Longrightarrow> small N a"
  by (force simp: small_def)

lemma dig_map: "n \<le> 16 \<Longrightarrow> dig (map f [0..<16]) n = (\<Sum>i < n. f i * 2 ^ (16 * i))"
  unfolding dig_def by (rule sum.cong) auto

lemma gf_add_exact:
  assumes "small M a" "small N b" "M + N < 2 ^ 63"
  shows "small (M + N) (gf_add a b)" "gfv (gf_add a b) = gfv a + gfv b"
proof -
  have b: "\<bar>a ! i + b ! i\<bar> \<le> M + N" if "i < 16" for i
    using smallD(1) [OF assms(1) that] smallD(1) [OF assms(2) that] by linarith
  have eq: "gf_add a b = map (\<lambda>i. a ! i + b ! i) [0..<16]"
    unfolding gf_add_def
  proof (rule map_cong [OF refl])
    fix i assume "i \<in> set [0..<(16 :: nat)]"
    then show "ll (a ! i + b ! i) = a ! i + b ! i" using b [of i] assms(3) by (intro ll_id) simp
  qed
  show "small (M + N) (gf_add a b)" using b by (simp add: eq small_def)
  show "gfv (gf_add a b) = gfv a + gfv b" by (simp add: eq dig_map distrib_right sum.distrib) (simp add: dig_def)
qed

lemma gf_sub_exact:
  assumes "small M a" "small N b" "M + N < 2 ^ 63"
  shows "small (M + N) (gf_sub a b)" "gfv (gf_sub a b) = gfv a - gfv b"
proof -
  have b: "\<bar>a ! i - b ! i\<bar> \<le> M + N" if "i < 16" for i
    using smallD(1) [OF assms(1) that] smallD(1) [OF assms(2) that] by linarith
  have eq: "gf_sub a b = map (\<lambda>i. a ! i - b ! i) [0..<16]"
    unfolding gf_sub_def
  proof (rule map_cong [OF refl])
    fix i assume "i \<in> set [0..<(16 :: nat)]"
    then show "ll (a ! i - b ! i) = a ! i - b ! i" using b [of i] assms(3) by (intro ll_id) simp
  qed
  show "small (M + N) (gf_sub a b)" using b by (simp add: eq small_def)
  show "gfv (gf_sub a b) = gfv a - gfv b" by (simp add: eq dig_map left_diff_distrib sum_subtractf) (simp add: dig_def)
qed

section \<open>Packing\<close>

text \<open>Three carries of an element within the bounds of the callers leave the digits of a number below 2^256.\<close>

definition digits :: "int \<Rightarrow> int list" where
  "digits v = map (\<lambda>i. v div 2 ^ (16 * i) mod 2 ^ 16) [0..<16]"

lemma car_digits: "0 \<le> v \<Longrightarrow> v < 2 ^ 256 \<Longrightarrow> car25519 (digits v) = digits v"
proof -
  assume v: "0 \<le> v" "v < 2 ^ 256"
  have "small 65535 (digits v)" using pos_mod_bound [of "65536 :: int"] by (auto simp: small_def digits_def zle_diff1_eq [of _ 65536, simplified])
  then have s: "small (2 ^ 57) (digits v)" by (rule small_mono) simp
  have "gfv (digits v) = v" using dig_digits [of 16 v] v by (simp add: digits_def)
  then show ?thesis using v car25519_exact [OF s] by (simp add: digits_def)
qed

lemma wrap_range:
  assumes "0 \<le> m" "m < 2 ^ 256" "\<bar>q\<bar> \<le> 2 ^ 20" "v = m + 38 * q"
  shows "0 \<le> v mod 2 ^ 256 + 38 * (v div 2 ^ 256) \<and> v mod 2 ^ 256 + 38 * (v div 2 ^ 256) < (2 :: int) ^ 256"
proof -
  have v: "- (38 * 2 ^ 20) \<le> v" "v < 2 ^ 256 + 38 * 2 ^ 20" using assms by (simp_all add: abs_le_iff)
  have e: "v div 2 ^ 256 * 2 ^ 256 + v mod 2 ^ 256 = v" by simp
  have r: "0 \<le> v mod 2 ^ 256" "v mod 2 ^ 256 < 2 ^ 256" by simp_all
  consider "v < 0" | "0 \<le> v" "v < 2 ^ 256" | "2 ^ 256 \<le> v" by linarith
  then show ?thesis
  proof cases
    case 1
    then have d: "v div 2 ^ 256 = - 1" using v by (intro int_div_pos_eq [where r = "v + 2 ^ 256"]) simp_all
    have "v mod 2 ^ 256 = v + 2 ^ 256" using e unfolding d by simp
    with d v 1 show ?thesis by simp
  next
    case 2
    then show ?thesis by simp
  next
    case 3
    then have d: "v div 2 ^ 256 = 1" using v by (intro int_div_pos_eq [where r = "v - 2 ^ 256"]) simp_all
    have "v mod 2 ^ 256 = v - 2 ^ 256" using e unfolding d by simp
    with d v 3 show ?thesis by simp
  qed
qed

lemma car_thrice:
  assumes a: "small (2 ^ 20) a"
  obtains v where "car25519 (car25519 (car25519 a)) = digits v" "0 \<le> v" "v < 2 ^ 256" "v mod ed_p = gfv a mod ed_p"
proof -
  have s1: "small (65535 + 38 * 2 ^ 20) (car25519 a)" by (rule car_small [OF a]) simp_all
  have a57: "small (2 ^ 57) a" and c57: "small (2 ^ 57) (car25519 a)" by (rule small_mono [OF a], simp, rule small_mono [OF s1], simp)
  let ?q = "gfv a div 2 ^ 256" and ?m = "gfv a mod 2 ^ 256" and ?v = "gfv (car25519 a)"
  have q: "\<bar>?q\<bar> \<le> 2 ^ 20" using dig_carry_bound [of 16 a "2 ^ 20"] smallD(1) [OF a] by simp
  have m: "0 \<le> ?m" "?m < 2 ^ 256" by simp_all
  have v: "?v = ?m + 38 * ?q" by (rule car_value(1) [OF a57])
  let ?w = "?v mod 2 ^ 256 + 38 * (?v div 2 ^ 256)"
  have w: "gfv (car25519 (car25519 a)) = ?w" by (rule car_value(1) [OF c57])
  have range: "0 \<le> ?w \<and> ?w < 2 ^ 256" using wrap_range [OF m q v] .
  have c2: "small (2 ^ 57) (car25519 (car25519 a))"
    by (rule small_mono [OF car_small [OF s1]]) simp_all
  have "car25519 (car25519 (car25519 a)) = digits ?w"
    using range unfolding car25519_exact [OF c2] w digits_def by simp
  moreover have "?w mod ed_p = gfv a mod ed_p" using car_value(2) [OF c57] car_value(2) [OF a57] w by simp
  ultimately show ?thesis using range that by blast
qed


text \<open>The subtraction of the prime, digit by digit, and the swap that undoes it when it went below zero.\<close>

definition p_limbs :: "int list" where
  "p_limbs = 0xFFED # replicate 14 0xFFFF @ [0x7FFF]"

lemma p_limbs_value: "gfv p_limbs = ed_p"
  by (simp add: p_limbs_def ed_p_def dig_def eval_nat_numeral)

lemma borrow_bit: "- 65536 \<le> x \<Longrightarrow> x < 65536 \<Longrightarrow> drop_bit 16 x AND 1 = - (x div (65536 :: int))"
proof -
  assume x: "- 65536 \<le> x" "x < 65536"
  have "x div 65536 = 0 \<or> x div 65536 = - 1"
  proof (cases "0 \<le> x")
    case False
    with x show ?thesis by (intro disjI2 int_div_pos_eq [where r = "x + 65536"]) simp_all
  qed (use x in simp)
  then show ?thesis by (auto simp: drop_bit_eq_div and_one_eq)
qed

lemma cswap_exact:
  assumes "length p = 16" "length q = 16"
  shows "cswap25519 p q 1 = (q, p)" "cswap25519 p q 0 = (p, q)"
proof -
  have "x XOR (x XOR y) = y" "y XOR (x XOR y) = x" for x y :: int
    by (rule bit_eqI; auto simp: bit_simps)+
  with assms show "cswap25519 p q 1 = (q, p)" "cswap25519 p q 0 = (p, q)"
    by (auto simp: cswap25519_def Let_def intro!: nth_equalityI)
qed

definition minus_p :: "int list \<Rightarrow> int list" where
  "minus_p t = map (\<lambda>i. t ! i - p_limbs ! i) [0..<16]"

lemma p_limbs_nth: "i < 16 \<Longrightarrow> p_limbs ! i = (if i = 0 then 0xFFED else if i = 15 then 0x7FFF else 0xFFFF)"
  by (auto simp: p_limbs_def nth_Cons nth_append split: nat.split)

lemma digits_nth: "i < 16 \<Longrightarrow> 0 \<le> digits v ! i \<and> digits v ! i < 65536"
  by (simp add: digits_def)

lemma sub_loop:
  fixes v :: int
  assumes m: "length m = 16" and n: "n \<le> 14"
  defines "d \<equiv> minus_p (digits v)" and "m' \<equiv> fold (sub_p_step (digits v)) [1..<Suc n] (m[0 := ll (digits v ! 0 - 0xFFED)])"
  shows "length m' = 16 \<and> (\<forall>i < n. m' ! i = gfv d div 2 ^ (16 * i) mod 2 ^ 16) \<and>
    m' ! n = d ! n + dig d n div 2 ^ (16 * n) \<and> - 65536 \<le> m' ! n \<and> m' ! n < 65536"
  using n unfolding m'_def
proof (induction n)
  case 0
  have t: "0 \<le> digits v ! 0" "digits v ! 0 < 65536" using digits_nth [of 0 v] by simp_all
  then have "ll (digits v ! 0 - 0xFFED) = digits v ! 0 - 0xFFED" by (intro ll_id) simp
  moreover have "d ! 0 = digits v ! 0 - 0xFFED" by (simp add: d_def minus_p_def p_limbs_def)
  ultimately show ?case using m t by (simp add: dig_def)
next
  case (Suc n)
  let ?m = "fold (sub_p_step (digits v)) [1..<Suc n] (m[0 := ll (digits v ! 0 - 0xFFED)])"
  let ?x = "digits v ! Suc n - 0xFFFF - (drop_bit 16 (?m ! n) AND 1)"
  have IH: "length ?m = 16" "\<And>i. i < n \<Longrightarrow> ?m ! i = gfv d div 2 ^ (16 * i) mod 2 ^ 16"
    "?m ! n = d ! n + dig d n div 2 ^ (16 * n)" "- 65536 \<le> ?m ! n" "?m ! n < 65536"
    using Suc by auto
  have n: "n < 14" using Suc.prems by simp
  have t: "0 \<le> digits v ! Suc n" "digits v ! Suc n < 65536" using digits_nth [of "Suc n" v] n by simp_all
  have bit: "drop_bit 16 (?m ! n) AND 1 = 0 \<or> drop_bit 16 (?m ! n) AND 1 = (1 :: int)" by (auto simp: and_one_eq)
  have w: "ll ?x = ?x" "- 65536 \<le> ?x" "?x < 65536" using t bit by (auto intro!: ll_id)
  have dn: "d ! Suc n = digits v ! Suc n - 0xFFFF" using n by (simp add: d_def minus_p_def p_limbs_nth)
  have x: "?x = d ! Suc n + dig d (Suc n) div 2 ^ (16 * Suc n)"
    unfolding borrow_bit [OF IH(4,5)] dig_carry IH(3) [symmetric] dn by simp
  have low: "?m ! n mod 2 ^ 16 = gfv d div 2 ^ (16 * n) mod 2 ^ 16"
    unfolding IH(3) using n by (intro dig_digit [symmetric]) simp
  have eq: "fold (sub_p_step (digits v)) [1..<Suc (Suc n)] (m[0 := ll (digits v ! 0 - 0xFFED)]) = ?m[Suc n := ?x, n := ?m ! n mod 2 ^ 16]"
    using w(1) IH(1) n by (simp add: sub_p_step_def and_ffff del: One_nat_def)
  show ?case unfolding eq using IH(1,2) n low x w(2,3) by (auto simp: less_Suc_eq)
qed

lemma minus_p_value: "0 \<le> v \<Longrightarrow> v < 2 ^ 256 \<Longrightarrow> gfv (minus_p (digits v)) = v - ed_p"
proof -
  assume v: "0 \<le> v" "v < 2 ^ 256"
  have "gfv (minus_p (digits v)) = gfv (digits v) - gfv p_limbs"
    unfolding minus_p_def by (simp add: dig_map left_diff_distrib sum_subtractf) (simp add: dig_def)
  also have "gfv (digits v) = v" using dig_digits [of 16 v] v by (simp add: digits_def)
  finally show ?thesis by (simp add: p_limbs_value)
qed

lemma pack_turn_exact:
  assumes m: "length m = 16" and v: "0 \<le> v" "v < 2 ^ 256"
  shows "\<exists>m'. length m' = 16 \<and> pack_turn (digits v, m) = (if ed_p \<le> v then digits (v - ed_p) else digits v, m')"
proof -
  let ?t = "digits v" and ?d = "minus_p (digits v)"
  define w where "w = v - ed_p"
  define m2 where "m2 = fold (sub_p_step ?t) [1..<15] (m[0 := ll (?t ! 0 - 0xFFED)])"
  define y where "y = ?t ! 15 - 0x7FFF - (drop_bit 16 (m2 ! 14) AND 1)"
  have d: "gfv ?d = w" unfolding w_def by (rule minus_p_value [OF v])
  have L: "length m2 = 16" "\<And>i. i < 14 \<Longrightarrow> m2 ! i = w div 2 ^ (16 * i) mod 2 ^ 16"
    "m2 ! 14 = ?d ! 14 + dig ?d 14 div 2 ^ (16 * 14)" "- 65536 \<le> m2 ! 14" "m2 ! 14 < 65536"
    using sub_loop [OF m, of 14 v] by (auto simp: d m2_def)
  have t15: "0 \<le> ?t ! 15" "?t ! 15 < 65536" using digits_nth [of 15 v] by simp_all
  have bit: "drop_bit 16 (m2 ! 14) AND 1 = 0 \<or> drop_bit 16 (m2 ! 14) AND 1 = (1 :: int)" by (auto simp: and_one_eq)
  have wy: "ll y = y" "- 65536 \<le> y" "y < 65536" using t15 bit by (auto intro!: ll_id simp: y_def)
  have d15: "?d ! 15 = ?t ! 15 - 0x7FFF" by (simp add: minus_p_def p_limbs_nth)
  have "dig ?d 15 div 2 ^ (16 * 15) = (?d ! 14 + dig ?d 14 div 2 ^ (16 * 14)) div 2 ^ 16"
    using dig_carry [of ?d 14] by simp
  then have x: "y = ?d ! 15 + dig ?d 15 div 2 ^ (16 * 15)"
    unfolding y_def borrow_bit [OF L(4,5)] unfolding L(3) d15 by simp
  have "dig ?d 16 div 2 ^ (16 * 16) = (?d ! 15 + dig ?d 15 div 2 ^ (16 * 15)) div 2 ^ 16"
    using dig_carry [of ?d 15] by simp
  then have top: "y div 65536 = w div 2 ^ 256" unfolding x d by simp
  have low: "m2 ! 14 mod 2 ^ 16 = w div 2 ^ (16 * 14) mod 2 ^ 16"
    unfolding L(3) using dig_digit [of 14 16 ?d] by (simp add: d)
  have x15: "y mod 2 ^ 16 = w div 2 ^ (16 * 15) mod 2 ^ 16"
    unfolding x using dig_digit [of 15 16 ?d] by (simp add: d)
  let ?m3 = "m2[15 := y]" and ?b = "drop_bit 16 y AND (1 :: int)"
  let ?m4 = "?m3[14 := m2 ! 14 mod 2 ^ 16]"
  have turn: "pack_turn (?t, m) = cswap25519 ?t ?m4 (1 - ?b)"
    using L(1) unfolding pack_turn_def prod.case Let_def m2_def [symmetric] y_def [symmetric] wy(1) and_ffff by simp
  have b: "?b = - (w div 2 ^ 256)" unfolding borrow_bit [OF wy(2,3)] by (rule arg_cong [OF top])
  have len: "length ?t = 16" "length ?m4 = 16" using L(1) by (simp_all add: digits_def)
  show ?thesis
  proof (cases "ed_p \<le> v")
    case True
    then have "w div 2 ^ 256 = 0" using v by (simp add: ed_p_def w_def)
    then have "y div 65536 = 0" "?b = 0" using top b by simp_all
    then have "y mod 2 ^ 16 = y" using div_mult_mod_eq [of y 65536] by simp
    then have x': "y = w div 2 ^ (16 * 15) mod 2 ^ 16" using x15 by simp
    have "?m4 = digits w"
    proof (rule nth_equalityI)
      fix i assume "i < length ?m4"
      then consider "i < 14" | "i = 14" | "i = 15" using len(2) by linarith
      then show "?m4 ! i = digits w ! i"
      proof cases
        case 1
        then show ?thesis using L(2) [OF 1] by (simp add: digits_def)
      next
        case 2
        then show ?thesis using L(1) low by (simp add: digits_def)
      next
        case 3
        then show ?thesis using L(1) arg_cong [OF x', of "\<lambda>z. z = digits w ! 15"] by (simp add: digits_def)
      qed
    qed (simp add: L(1) digits_def)
    then have "pack_turn (?t, m) = (digits w, ?t)" unfolding turn \<open>?b = 0\<close> using cswap_exact(1) [OF len] by simp
    with True len(1) show ?thesis by (auto simp: w_def)
  next
    case False
    then have "w div 2 ^ 256 = - 1"
      using v by (intro int_div_pos_eq [where r = "w + 2 ^ 256"]) (simp_all add: ed_p_def w_def)
    with b have "?b = 1" by simp
    then have "pack_turn (?t, m) = (?t, ?m4)" unfolding turn using cswap_exact(2) [OF len] by simp
    with False len(2) show ?thesis by auto
  qed
qed

lemma pack25519_digits:
  assumes m: "length m = 16" and a: "small (2 ^ 20) a"
  shows "pack25519 m a = concat (map (\<lambda>i. [word_of_int (digits (gfv a mod ed_p) ! i),
    word_of_int (drop_bit 8 (digits (gfv a mod ed_p) ! i))]) [0..<16])"
proof -
  obtain v where v: "car25519 (car25519 (car25519 a)) = digits v" "0 \<le> v" "v < 2 ^ 256" "v mod ed_p = gfv a mod ed_p"
    by (rule car_thrice [OF a])
  have p: "0 < ed_p" "2 ^ 256 < 3 * ed_p" by (simp_all add: ed_p_def)
  define u where "u = (if ed_p \<le> v then v - ed_p else v)"
  have u: "0 \<le> u" "u < 2 ^ 256" "u < 2 * ed_p" "u mod ed_p = v mod ed_p" using v p by (auto simp: u_def minus_mod_self2)
  obtain m1 where m1: "length m1 = 16" "pack_turn (digits v, m) = (digits u, m1)"
    using pack_turn_exact [OF m v(2,3)] by (auto simp: u_def split: if_splits)
  obtain m2 where m2: "pack_turn (digits u, m1) = (if ed_p \<le> u then digits (u - ed_p) else digits u, m2)"
    using pack_turn_exact [OF m1(1) u(1,2)] by auto
  have "ed_p \<le> u \<Longrightarrow> (u - ed_p) mod ed_p = u - ed_p" using u(3) by (intro mod_pos_pos_trivial) simp_all
  then have "u mod ed_p = (if ed_p \<le> u then u - ed_p else u)" using u(1) by auto
  then have "fst (pack_turn (digits u, m1)) = digits (gfv a mod ed_p)" using m2 u(4) v(4) by auto
  then show ?thesis by (simp add: pack25519_def v(1) m1(2) Let_def)
qed

lemma byte_of_mod:
  "word_of_int (x mod 2 ^ 16) = (word_of_int x :: u8)" "word_of_int (drop_bit 8 (x mod 2 ^ 16)) = (word_of_int (drop_bit 8 x) :: u8)"
  unfolding take_bit_eq_mod [symmetric] byte_bits by (simp_all add: drop_bit_take_bit)

lemma concat_bytes:
  "concat (map (\<lambda>i. [word_of_int (v div 2 ^ (16 * i) mod 2 ^ 16), word_of_int (drop_bit 8 (v div 2 ^ (16 * i) mod 2 ^ 16))]) [0..<n]) =
   map (\<lambda>j. word_of_int (drop_bit (8 * j) v) :: u8) [0..<2 * n]"
proof (induction n)
  case (Suc n)
  have "[0..<2 * Suc n] = [0..<2 * n] @ [2 * n, Suc (2 * n)]" by simp
  with Suc show ?case unfolding byte_of_mod drop_bit_eq_div [symmetric] by (simp add: add.commute)
qed simp

text \<open>Packing is the little-endian encoding of the canonical representative.\<close>

definition enc32 :: "int \<Rightarrow> u8 list" where
  "enc32 v = map (\<lambda>j. word_of_int (drop_bit (8 * j) v)) [0..<32]"

lemma pack25519_exact:
  assumes m: "length m = 16" and a: "small (2 ^ 20) a"
  shows "pack25519 m a = enc32 (gfv a mod ed_p)"
proof -
  have "pack25519 m a = concat (map (\<lambda>i. [word_of_int ((gfv a mod ed_p) div 2 ^ (16 * i) mod 2 ^ 16),
      word_of_int (drop_bit 8 ((gfv a mod ed_p) div 2 ^ (16 * i) mod 2 ^ 16))]) [0..<16])"
    unfolding pack25519_digits [OF m a] by (intro arg_cong [where f = concat] map_cong) (simp_all add: digits_def)
  then show ?thesis using concat_bytes [of "gfv a mod ed_p" 16] by (simp add: enc32_def)
qed

lemma enc32_value: "0 \<le> v \<Longrightarrow> v < 2 ^ 256 \<Longrightarrow> le_int (enc32 v) = v"
  using le_int_bytes [of v 32] by (simp add: enc32_def take_bit_int_eq_self)

lemma mod_p_range: "0 \<le> x mod ed_p" "x mod ed_p < ed_p" "x mod ed_p < 2 ^ 255" "x mod ed_p < 2 ^ 256"
proof -
  show "0 \<le> x mod ed_p" "x mod ed_p < ed_p" by (simp_all add: ed_p_def)
  then show "x mod ed_p < 2 ^ 255" "x mod ed_p < 2 ^ 256" by (simp_all add: ed_p_def)
qed

lemma length_enc32 [simp]: "length (enc32 v) = 32"
  by (simp add: enc32_def)

lemma enc32_eq: "enc32 (x mod ed_p) = enc32 (y mod ed_p) \<longleftrightarrow> x mod ed_p = y mod ed_p"
  using enc32_value mod_p_range by metis

end
