(* ===== verification/Rivr_Ed25519.thy ===== *)
theory Rivr_Ed25519
  imports Rivr_Sha512 Rivr_Field25519
begin

text \<open>
  Ed25519 signature verification (ed25519_verify.c): encodings and powers of field elements, the group in
  extended twisted Edwards coordinates, and the check itself. The width of the integers of the scalar
  reduction is an argument, as in Rivr_Scalar. The check is refined: the limbs stand for integers modulo
  the prime, with every sum and product in range, and the code's verdict is the one of a reference check
  over those integers. All points it computes are on the curve.
\<close>

section \<open>Encodings and powers of field elements\<close>

text \<open>pack25519 with its local array zeroed: every limb of the array is written before it is read.\<close>

abbreviation pack :: "int list \<Rightarrow> u8 list" where
  "pack n \<equiv> pack25519 (replicate 16 0) n"

definition neq25519 :: "int list \<Rightarrow> int list \<Rightarrow> u8" where
  "neq25519 a b = fold (OR) (map2 (XOR) (pack a) (pack b)) 0"

definition par25519 :: "int list \<Rightarrow> u8" where
  "par25519 a = pack a ! 0 AND 1"

definition unpack25519 :: "u8 list \<Rightarrow> int list" where
  "unpack25519 p =
     (let r = map (\<lambda>i. uint (p ! (2 * i)) OR push_bit 8 (uint (p ! (2 * i + 1)))) [0..<16]
      in r[15 := r ! 15 AND 0x7FFF])"

abbreviation sq_times :: "nat \<Rightarrow> int list \<Rightarrow> int list" where
  "sq_times n a \<equiv> (gf_sq ^^ n) a"

definition gf_pow22523 :: "int list \<Rightarrow> int list" where
  "gf_pow22523 x =
     (let t0 = gf_sq x;
          t1 = sq_times 2 t0;
          t1 = gf_mul x t1;
          t0 = gf_mul t0 t1;
          t0 = gf_sq t0;
          t0 = gf_mul t1 t0;
          t1 = sq_times 5 t0;
          t0 = gf_mul t1 t0;
          t1 = sq_times 10 t0;
          t1 = gf_mul t1 t0;
          t2 = sq_times 20 t1;
          t1 = gf_mul t2 t1;
          t1 = sq_times 10 t1;
          t0 = gf_mul t1 t0;
          t1 = sq_times 50 t0;
          t1 = gf_mul t1 t0;
          t2 = sq_times 100 t1;
          t1 = gf_mul t2 t1;
          t1 = sq_times 50 t1;
          t0 = gf_mul t1 t0;
          t0 = gf_sq (gf_sq t0)
      in gf_mul t0 x)"

definition inv_step :: "int list \<Rightarrow> nat \<Rightarrow> int list \<Rightarrow> int list" where
  "inv_step x i t = (let t = gf_sq t in if i \<noteq> 2 \<and> i \<noteq> 4 then gf_mul t x else t)"

definition gf_inv :: "int list \<Rightarrow> int list" where
  "gf_inv x = fold (inv_step x) (rev [0..<254]) x"

section \<open>The group\<close>

text \<open>The limbs of X, Y, Z and T.\<close>

record pt =
  PX :: "int list"
  PY :: "int list"
  PZ :: "int list"
  PT :: "int list"

definition pt_add :: "pt \<Rightarrow> pt \<Rightarrow> pt" where
  "pt_add p q =
     (let a = gf_mul (gf_sub (PY p) (PX p)) (gf_sub (PY q) (PX q));
          b = gf_mul (gf_add (PX p) (PY p)) (gf_add (PX q) (PY q));
          c = gf_mul (gf_mul (PT p) (PT q)) gf_D2;
          d = gf_mul (PZ p) (PZ q); d = gf_add d d;
          e = gf_sub b a; f = gf_sub d c; g = gf_add d c; h = gf_add b a
      in \<lparr>PX = gf_mul e f, PY = gf_mul h g, PZ = gf_mul g f, PT = gf_mul e h\<rparr>)"

definition pt_cswap :: "pt \<Rightarrow> pt \<Rightarrow> int \<Rightarrow> pt \<times> pt" where
  "pt_cswap p q b =
     (let x = cswap25519 (PX p) (PX q) b; y = cswap25519 (PY p) (PY q) b;
          z = cswap25519 (PZ p) (PZ q) b; t = cswap25519 (PT p) (PT q) b
      in (\<lparr>PX = fst x, PY = fst y, PZ = fst z, PT = fst t\<rparr>,
          \<lparr>PX = snd x, PY = snd y, PZ = snd z, PT = snd t\<rparr>))"

definition scalar_bit :: "u8 list \<Rightarrow> nat \<Rightarrow> int" where
  "scalar_bit s i = uint (drop_bit (i AND 7) (s ! (i div 8)) AND 1)"

definition ladder_step :: "u8 list \<Rightarrow> nat \<Rightarrow> pt \<times> pt \<Rightarrow> pt \<times> pt" where
  "ladder_step s i qr =
     (let b = scalar_bit s i in
      case pt_cswap (fst qr) (snd qr) b of (q, r) \<Rightarrow>
        (let r = pt_add r q; q = pt_add q q in pt_cswap q r b))"

definition scalarmult :: "pt \<Rightarrow> u8 list \<Rightarrow> pt" where
  "scalarmult p s = fst (fold (ladder_step s) (rev [0..<256]) (\<lparr>PX = gf0, PY = gf1, PZ = gf1, PT = gf0\<rparr>, p))"

definition scalarbase :: "u8 list \<Rightarrow> pt" where
  "scalarbase s = scalarmult \<lparr>PX = gf_BX, PY = gf_BY, PZ = gf1, PT = gf_mul gf_BX gf_BY\<rparr> s"

definition unpackneg :: "u8 list \<Rightarrow> pt option" where
  "unpackneg p =
     (let y = unpack25519 p;
          num = gf_sq y;
          den = gf_mul num gf_D;
          num = gf_sub num gf1;
          den = gf_add gf1 den;
          den2 = gf_sq den;
          den4 = gf_sq den2;
          den6 = gf_mul den4 den2;
          t = gf_mul den6 num;
          t = gf_mul t den;
          t = gf_pow22523 t;
          t = gf_mul t num;
          t = gf_mul t den;
          t = gf_mul t den;
          x = gf_mul t den;
          chk = gf_mul (gf_sq x) den;
          x = (if neq25519 chk num \<noteq> 0 then gf_mul x gf_I else x);
          chk = gf_mul (gf_sq x) den
      in if neq25519 chk num \<noteq> 0 then None
         else
           (let x = (if par25519 x = drop_bit 7 (p ! 31) then gf_sub gf0 x else x)
            in Some \<lparr>PX = x, PY = y, PZ = gf1, PT = gf_mul x y\<rparr>))"

definition pt_pack :: "pt \<Rightarrow> u8 list" where
  "pt_pack p =
     (let zi = gf_inv (PZ p); tx = gf_mul (PX p) zi; ty = gf_mul (PY p) zi; out = pack ty
      in out[31 := out ! 31 XOR push_bit 7 (par25519 tx)])"

section \<open>The check\<close>

text \<open>The check up to the hash, and after it; the order is the one of the code, which tests \<open>s\<close> and the
  key before it hashes. The first argument is the width of the integers of the scalar reduction, the second
  the uninitialised buffer of the hash.\<close>

definition ed_check :: "pt \<Rightarrow> u8 list \<Rightarrow> u8 list \<Rightarrow> bool" where
  "ed_check A sig h =
     (let nB = scalarbase (drop 32 sig); R = scalarmult A h; rcheck = pt_pack (pt_add nB R)
      in fold (OR) (map2 (XOR) rcheck (take 32 sig)) 0 = 0)"

definition ed_verify_digest :: "nat \<Rightarrow> u8 list \<Rightarrow> u8 list \<Rightarrow> u8 list \<Rightarrow> bool" where
  "ed_verify_digest n sig pk h =
     (if sig ! 63 AND 0xE0 \<noteq> 0 then False
      else case unpackneg pk of None \<Rightarrow> False | Some A \<Rightarrow> ed_check A sig (sc_reduce n h))"

definition ed25519_verify_detached :: "nat \<Rightarrow> u8 list \<Rightarrow> u8 list \<Rightarrow> u8 list \<Rightarrow> u8 list \<Rightarrow> bool" where
  "ed25519_verify_detached n junk sig msg pk = ed_verify_digest n sig pk (sha512_3 junk (take 32 sig) pk msg)"

section \<open>The check over the integers modulo the prime\<close>

fun mod_pow :: "int \<Rightarrow> nat \<Rightarrow> int" where
  "mod_pow x n =
     (if n = 0 then 1
      else if even n then mod_pow (x * x mod ed_p) (n div 2)
      else x * mod_pow (x * x mod ed_p) (n div 2) mod ed_p)"

definition ed_d :: int where
  "ed_d = 37095705934669439343138083508754565189542113879843219016388785533085940283555"

definition ed_sqrt_m1 :: int where
  "ed_sqrt_m1 = 19681161376707505956807079304988542015446066515923890162744021073123829784752"

text \<open>A point: X, Y, Z and T as integers.\<close>

record ref_pt =
  VX :: int
  VY :: int
  VZ :: int
  VT :: int

definition ref_base :: ref_pt where
  "ref_base =
     (let x = 15112221349535400772501151409588531511454012693041857206046113283949847762202;
          y = 46316835694926478169428394003475163141307993866256225615783033603165251855960
      in \<lparr>VX = x, VY = y, VZ = 1, VT = x * y mod ed_p\<rparr>)"

definition ref_add :: "ref_pt \<Rightarrow> ref_pt \<Rightarrow> ref_pt" where
  "ref_add P Q =
     (let a = (VY P - VX P) * (VY Q - VX Q); b = (VX P + VY P) * (VX Q + VY Q);
          c = 2 * ed_d * VT P * VT Q; d = 2 * VZ P * VZ Q;
          e = b - a; f = d - c; g = d + c; h = b + a
      in \<lparr>VX = e * f mod ed_p, VY = h * g mod ed_p, VZ = g * f mod ed_p, VT = e * h mod ed_p\<rparr>)"

text \<open>The ladder: the bits of the scalar from the top, \<open>R\<close> always one \<open>P\<close> ahead of \<open>Q\<close>.\<close>

fun ref_ladder :: "int \<Rightarrow> nat \<Rightarrow> ref_pt \<Rightarrow> ref_pt \<Rightarrow> ref_pt" where
  "ref_ladder n 0 Q R = Q"
| "ref_ladder n (Suc i) Q R =
     (if odd (n div 2 ^ i) then ref_ladder n i (ref_add Q R) (ref_add R R)
      else ref_ladder n i (ref_add Q Q) (ref_add R Q))"

definition ref_mult :: "int \<Rightarrow> ref_pt \<Rightarrow> ref_pt" where
  "ref_mult n P = ref_ladder n 256 \<lparr>VX = 0, VY = 1, VZ = 1, VT = 0\<rparr> P"

text \<open>The negated point of an encoding: x with \<open>x^2 (d y^2 + 1) = y^2 - 1\<close>, of the opposite sign.\<close>

definition ref_unpackneg :: "int \<Rightarrow> ref_pt option" where
  "ref_unpackneg v =
     (let y = v mod 2 ^ 255; num = y * y - 1; den = ed_d * y * y + 1;
          t = mod_pow (num * den ^ 7 mod ed_p) (2 ^ 252 - 3);
          x = num * den ^ 3 * t mod ed_p;
          x = (if x * x * den mod ed_p = num mod ed_p then x else x * ed_sqrt_m1 mod ed_p)
      in if x * x * den mod ed_p \<noteq> num mod ed_p then None
         else (let x = (if x mod 2 = v div 2 ^ 255 then - x mod ed_p else x)
               in Some \<lparr>VX = x, VY = y, VZ = 1, VT = x * y mod ed_p\<rparr>))"

definition ref_pack :: "ref_pt \<Rightarrow> int" where
  "ref_pack P =
     (let zi = mod_pow (VZ P) (2 ^ 255 - 21); x = VX P * zi mod ed_p; y = VY P * zi mod ed_p
      in y + 2 ^ 255 * (x mod 2))"

definition ref_verify :: "int \<Rightarrow> int \<Rightarrow> int \<Rightarrow> int \<Rightarrow> bool" where
  "ref_verify R s A k =
     (s < 2 ^ 253 \<and>
      (case ref_unpackneg A of None \<Rightarrow> False
       | Some A \<Rightarrow> ref_pack (ref_add (ref_mult s ref_base) (ref_mult k A)) = R))"

section \<open>Limbs and residues\<close>

text \<open>The limbs \<open>a\<close>, of at most \<open>M\<close> each, stand for the residue of \<open>x\<close>.\<close>

definition rep :: "int \<Rightarrow> int list \<Rightarrow> int \<Rightarrow> bool" where
  "rep M a x \<longleftrightarrow> small M a \<and> gfv a mod ed_p = x mod ed_p"

abbreviation elt :: "int list \<Rightarrow> int \<Rightarrow> bool" where
  "elt a x \<equiv> rep 65573 a x"

lemma rep_mod [simp]: "rep M a (x mod ed_p) \<longleftrightarrow> rep M a x"
  by (simp add: rep_def)

lemma rep_cong: "rep M a x \<Longrightarrow> x mod ed_p = y mod ed_p \<Longrightarrow> rep M a y"
  by (simp add: rep_def)

lemma rep_mono: "rep M a x \<Longrightarrow> M \<le> N \<Longrightarrow> rep N a x"
  using small_mono by (auto simp: rep_def)

lemma rep_add:
  assumes "rep M a x" "rep N b y" "M + N \<le> 2 ^ 20"
  shows "rep (M + N) (gf_add a b) (x + y)"
  using gf_add_exact [of M a N b] assms by (auto simp: rep_def intro: mod_add_cong)

lemma rep_sub:
  assumes "rep M a x" "rep N b y" "M + N \<le> 2 ^ 20"
  shows "rep (M + N) (gf_sub a b) (x - y)"
  using gf_sub_exact [of M a N b] assms by (auto simp: rep_def intro: mod_diff_cong)

lemma rep_mul:
  assumes "rep M a x" "rep N b y" "M \<le> 2 ^ 20" "N \<le> 2 ^ 20"
  shows "elt (gf_mul a b) (x * y)"
proof -
  have "small (2 ^ 20) a" "small (2 ^ 20) b" using assms small_mono by (auto simp: rep_def)
  from gf_mul_exact [OF this] show ?thesis using assms by (auto simp: rep_def reduced_small intro: mod_mult_cong)
qed

lemma elt_mul: "elt a x \<Longrightarrow> elt b y \<Longrightarrow> elt (gf_mul a b) (x * y)"
  by (erule (1) rep_mul) simp_all

lemma elt_sq: "elt a x \<Longrightarrow> elt (gf_sq a) (x * x)"
  unfolding gf_sq_def by (rule elt_mul)

lemma elt_sq_times: "elt a x \<Longrightarrow> elt (sq_times n a) (x ^ (2 ^ n))"
proof (induction n)
  case (Suc n)
  then have "elt (sq_times (Suc n) a) (x ^ 2 ^ n * x ^ 2 ^ n)" by (simp add: elt_sq)
  then show ?case by (simp add: power_add [symmetric] mult_2)
qed simp

declare mod_pow.simps [simp del]

lemma one_mod_p: "1 mod ed_p = 1"
  by (simp add: ed_p_def)

lemma mod_pow_eq: "mod_pow x n = x ^ n mod ed_p"
proof (induction x n rule: mod_pow.induct)
  case (1 x n)
  show ?case
  proof (cases "n = 0")
    case True
    then show ?thesis by (simp add: mod_pow.simps [of x 0] one_mod_p)
  next
    case False
    have h: "(x * x mod ed_p) ^ k mod ed_p = x ^ (2 * k) mod ed_p" for k
      by (simp add: power_mod power_mult power2_eq_square)
    show ?thesis
    proof (cases "even n")
      case True
      then have "n = 2 * (n div 2)" by simp
      with True False 1 h [of "n div 2"] show ?thesis by (simp add: mod_pow.simps [of x n])
    next
      case odd: False
      have n: "x ^ n = x * x ^ (2 * (n div 2))" using odd by (metis odd_two_times_div_two_succ power_Suc Suc_eq_plus1)
      have "mod_pow x n = x * (x ^ (2 * (n div 2)) mod ed_p) mod ed_p"
        using odd False 1(2) h [of "n div 2"] by (simp add: mod_pow.simps [of x n])
      then show ?thesis unfolding n by (simp add: mod_mult_right_eq)
    qed
  qed
qed

text \<open>Constants, limb by limb.\<close>

fun limbs_val :: "int list \<Rightarrow> int" where
  "limbs_val [] = 0"
| "limbs_val (a # as) = a + 65536 * limbs_val as"

lemma limbs_val_dig: "dig a (length a) = limbs_val a"
proof (induction a)
  case (Cons x a)
  have "2 ^ (16 * Suc i) = 65536 * (2 :: int) ^ (16 * i)" for i by (simp add: power_add)
  then have "dig (x # a) (Suc (length a)) = x + (\<Sum>i < length a. a ! i * (65536 * 2 ^ (16 * i)))"
    unfolding dig_def sum.lessThan_Suc_shift by simp
  also have "\<dots> = x + 65536 * dig a (length a)" unfolding dig_def sum_distrib_left by (simp add: mult.left_commute)
  finally show ?case using Cons by simp
qed (simp add: dig_def)

lemma ref_base_coords:
  "VX ref_base = 15112221349535400772501151409588531511454012693041857206046113283949847762202"
  "VY ref_base = 46316835694926478169428394003475163141307993866256225615783033603165251855960"
  "VZ ref_base = 1" "VT ref_base = VX ref_base * VY ref_base mod ed_p"
  by (simp_all only: ref_base_def Let_def ref_pt.simps)

lemma elt_const:
  assumes "length a = 16" "list_all (\<lambda>x. \<bar>x\<bar> \<le> 65573) a" "limbs_val a = x"
  shows "elt a x"
proof -
  have "small 65573 a" using assms(1,2) by (auto simp: small_def list_all_length)
  moreover have "gfv a = x" using limbs_val_dig [of a] assms by simp
  ultimately show ?thesis by (simp add: rep_def)
qed

lemma elts:
  "elt gf0 0" "elt gf1 1" "elt gf_D ed_d" "elt gf_D2 (2 * ed_d)" "elt gf_I ed_sqrt_m1"
  "elt gf_BX (VX ref_base)" "elt gf_BY (VY ref_base)"
proof -
  show "elt gf0 0" "elt gf1 1" by (rule elt_const; simp add: gf0_def gf1_def eval_nat_numeral)+
  show "elt gf_D ed_d" by (rule elt_const) (simp_all add: gf_D_def ed_d_def)
  show "elt gf_I ed_sqrt_m1" by (rule elt_const) (simp_all add: gf_I_def ed_sqrt_m1_def)
  show "elt gf_BX (VX ref_base)" by (rule elt_const) (simp_all add: gf_BX_def ref_base_coords(1))
  show "elt gf_BY (VY ref_base)" by (rule elt_const) (simp_all add: gf_BY_def ref_base_coords(2))
  have "elt gf_D2 (2 * ed_d - ed_p)" by (rule elt_const) (simp_all add: gf_D2_def ed_d_def ed_p_def)
  then show "elt gf_D2 (2 * ed_d)" by (rule rep_cong) simp
qed

text \<open>Squarings and products of powers of one element.\<close>

lemma pow_mul: "elt a (x ^ m) \<Longrightarrow> elt b (x ^ n) \<Longrightarrow> elt (gf_mul a b) (x ^ (m + n))"
  using elt_mul by (simp add: power_add)

lemma pow_sq_times: "elt a (x ^ m) \<Longrightarrow> elt (sq_times n a) (x ^ (m * 2 ^ n))"
  using elt_sq_times [of a "x ^ m" n] by (simp add: power_mult)

lemma pow_sq: "elt a (x ^ m) \<Longrightarrow> elt (gf_sq a) (x ^ (m * 2))"
  using pow_sq_times [of a x m 1] by simp


lemma pow_let: "elt v (x ^ m) \<Longrightarrow> (\<And>t. elt t (x ^ m) \<Longrightarrow> elt (f t) y) \<Longrightarrow> elt (Let v f) y"
  by (simp add: Let_def)

lemma elt_pow22523:
  assumes "elt a x"
  shows "elt (gf_pow22523 a) (mod_pow x (2 ^ 252 - 3))"
proof -
  have a: "elt a (x ^ 1)" using assms by simp
  have "\<exists>n. elt (gf_pow22523 a) (x ^ n) \<and> n = 2 ^ 252 - 3"
    unfolding gf_pow22523_def
    by (rule exI, rule conjI, ((rule pow_let)?, (rule a | assumption | rule pow_mul pow_sq pow_sq_times)+)+) simp
  then show ?thesis by (simp add: mod_pow_eq)
qed

lemma inv_steps:
  "elt a x \<Longrightarrow> elt t (x ^ m) \<Longrightarrow> elt (fold (inv_step a) ks t)
     (x ^ (fold (\<lambda>i m. if i \<noteq> 2 \<and> i \<noteq> 4 then m * 2 + 1 else m * 2) ks m))"
proof (induction ks arbitrary: t m)
  case (Cons k ks)
  have "elt (inv_step a k t) (x ^ (if k \<noteq> 2 \<and> k \<noteq> 4 then m * 2 + 1 else m * 2))"
    unfolding inv_step_def Let_def using pow_sq [OF Cons.prems(2)] pow_mul [of "gf_sq t" x "m * 2" a 1] Cons.prems(1)
    by (simp del: One_nat_def)
  from Cons.IH [OF Cons.prems(1) this] show ?case by simp
qed simp

lemma inv_exponent:
  "fold (\<lambda>i m. if i \<noteq> 2 \<and> i \<noteq> 4 then m * 2 + 1 else m * 2) (rev [0..<254]) (1 :: nat) = 2 ^ 255 - 21"
proof -
  have "fold (\<lambda>i m. if i \<noteq> 2 \<and> i \<noteq> 4 then m * 2 + 1 else m * 2) (rev [5..<5 + n]) m = (m + 1) * 2 ^ n - (1 :: nat)" for n m
  proof (induction n arbitrary: m)
    case (Suc n)
    have "[5..<5 + Suc n] = [5..<5 + n] @ [5 + n]" by (simp only: add_Suc_right upt_Suc) simp
    moreover have "(m * 2 + 1 + 1) * 2 ^ n = (m + 1) * (2 :: nat) ^ Suc n" by simp
    ultimately show ?case using Suc [of "m * 2 + 1"] by (simp del: upt_Suc One_nat_def)
  qed simp
  note h = this [of 249 1]
  have "[0..<5 + 249] = [0..<5] @ [5..<5 + 249 :: nat]" by (rule upt_add_eq_append) simp
  moreover have "[0..<5] = [0, 1, 2, 3, 4 :: nat]" "(5 :: nat) + 249 = 254" by (simp_all add: upt_rec)
  ultimately have r: "rev [0..<254] = rev [5..<5 + 249] @ rev [0, 1, 2, 3, 4 :: nat]" by (simp only: rev_append)
  show ?thesis unfolding r fold_append comp_def h by simp
qed

lemma elt_inv:
  assumes "elt a x"
  shows "elt (gf_inv a) (mod_pow x (2 ^ 255 - 21))"
proof -
  have "elt (gf_inv a) (x ^ (2 ^ 255 - 21))"
    using inv_steps [OF assms, of a 1 "rev [0..<254]"] assms unfolding gf_inv_def inv_exponent by simp
  then show ?thesis by (simp add: mod_pow_eq)
qed

section \<open>Bytes and field elements\<close>

lemma fold_or_zero: "fold (OR) xs (a :: u8) = 0 \<longleftrightarrow> a = 0 \<and> (\<forall>x \<in> set xs. x = 0)"
proof (induction xs arbitrary: a)
  case (Cons x xs)
  have "x OR a = 0 \<longleftrightarrow> x = 0 \<and> a = 0" by (metis or_eq_0_iff)
  with Cons show ?case by auto
qed simp

lemma diff_zero:
  assumes "length a = length b" shows "fold (OR) (map2 (XOR) a b) 0 = 0 \<longleftrightarrow> a = (b :: u8 list)"
proof -
  have "x XOR y = 0 \<longleftrightarrow> x = y" for x y :: u8 by (metis bit.xor_self word_bw_lcs(3) xor.right_neutral)
  with assms show ?thesis unfolding fold_or_zero
    by (induction a b rule: list_induct2) auto
qed

lemma pack_rep: "rep M a x \<Longrightarrow> M \<le> 2 ^ 20 \<Longrightarrow> pack a = enc32 (x mod ed_p)"
  using pack25519_exact [of "replicate 16 0" a] small_mono by (auto simp: rep_def)

lemma neq_rep:
  assumes "rep M a x" "rep N b y" "M \<le> 2 ^ 20" "N \<le> 2 ^ 20"
  shows "neq25519 a b \<noteq> 0 \<longleftrightarrow> x mod ed_p \<noteq> y mod ed_p"
  unfolding neq25519_def pack_rep [OF assms(1,3)] pack_rep [OF assms(2,4)] by (simp add: diff_zero enc32_eq)

lemma enc32_0: "enc32 v ! 0 = word_of_int v" "enc32 v ! 31 = word_of_int (drop_bit 248 v)"
  by (simp_all add: enc32_def)

lemma par_rep: "rep M a x \<Longrightarrow> M \<le> 2 ^ 20 \<Longrightarrow> par25519 a = word_of_int (x mod ed_p mod 2)"
proof -
  assume "rep M a x" "M \<le> 2 ^ 20"
  then have "par25519 a = word_of_int (x mod ed_p) AND 1" unfolding par25519_def by (simp add: pack_rep enc32_0)
  also have "(word_of_int (x mod ed_p) :: u8) AND 1 = word_of_int (x mod ed_p AND 1)" by (rule bit_word_eqI) (auto simp: bit_simps)
  finally show ?thesis by (simp add: and_one_eq)
qed

lemma byte_pair:
  assumes "k + 1 < length p"
  shows "uint (p ! k) OR push_bit 8 (uint (p ! (k + 1))) = take_bit 16 (drop_bit (8 * k) (le_int p))"
proof -
  have d: "drop k p = p ! k # p ! (k + 1) # drop (k + 2) p" using assms by (simp add: Cons_nth_drop_Suc)
  have "take_bit 16 (le_int (a # b # r)) = uint a OR push_bit 8 (uint b)" for a b r
    unfolding le_int_Cons_or by (rule bit_eqI) (auto simp: bit_simps dest: bit_imp_le_length)
  then show ?thesis unfolding le_int_drop d by simp
qed

lemma unpack25519_exact:
  assumes "length p = 32" shows "unpack25519 p = digits (le_int p mod 2 ^ 255)"
proof (rule nth_equalityI)
  fix i assume "i < length (unpack25519 p)"
  then have i: "i < 16" by (simp add: unpack25519_def Let_def)
  have b: "uint (p ! (2 * i)) OR push_bit 8 (uint (p ! (2 * i + 1))) = take_bit 16 (drop_bit (16 * i) (le_int p))"
    using byte_pair [of "2 * i" p] i assms by simp
  have m: "(0x7FFF :: int) = mask 15" by (simp add: mask_eq_exp_minus_1)
  have "unpack25519 p ! i = (if i = 15 then take_bit 16 (drop_bit (16 * i) (le_int p)) AND 0x7FFF
      else take_bit 16 (drop_bit (16 * i) (le_int p)))"
    using i unfolding unpack25519_def Let_def b [symmetric] by (simp add: nth_list_update)
  also have "\<dots> = take_bit 16 (drop_bit (16 * i) (take_bit 255 (le_int p)))"
    unfolding m take_bit_eq_mask [symmetric] using i by (intro bit_eqI) (auto simp: bit_simps)
  finally show "unpack25519 p ! i = digits (le_int p mod 2 ^ 255) ! i"
    using i by (simp add: digits_def take_bit_eq_mod drop_bit_eq_div)
qed (simp add: unpack25519_def digits_def Let_def)

lemma elt_digits: "0 \<le> v \<Longrightarrow> v < 2 ^ 256 \<Longrightarrow> elt (digits v) v"
proof -
  assume v: "0 \<le> v" "v < 2 ^ 256"
  have "small 65535 (digits v)" using digits_nth [of _ v] by (auto simp: small_def digits_def zle_diff1_eq [of _ 65536, simplified])
  then have "small 65573 (digits v)" by (rule small_mono) simp
  moreover have "gfv (digits v) = v" using dig_digits [of 16 v] v by (simp add: digits_def)
  ultimately show ?thesis by (simp add: rep_def)
qed

lemma elt_unpack: "length p = 32 \<Longrightarrow> elt (unpack25519 p) (le_int p mod 2 ^ 255)"
  unfolding unpack25519_exact by (rule elt_digits) (simp_all add: order.strict_trans2 [OF pos_mod_bound])

lemma top_byte: "length p = 32 \<Longrightarrow> uint (drop_bit 7 (p ! 31)) = le_int p div 2 ^ 255"
proof -
  assume p: "length p = 32"
  then have "drop 31 p = [p ! 31]" by (simp add: list_eq_iff_nth_eq)
  then have "drop_bit 248 (le_int p) = uint (p ! 31)" using le_int_drop [of 31 p] by simp
  then have "drop_bit 7 (drop_bit 248 (le_int p)) = uint (drop_bit 7 (p ! 31))" by (intro bit_eqI) (simp add: bit_simps)
  then show ?thesis by (simp add: drop_bit_eq_div)
qed

section \<open>Points\<close>

text \<open>Sums of up to three elements are still factors of products.\<close>

abbreviation fe :: "int list \<Rightarrow> int \<Rightarrow> bool" where
  "fe a x \<equiv> rep 196719 a x"

lemma elt_fe: "elt a x \<Longrightarrow> fe a x"
  by (erule rep_mono) simp

lemma fe_mul: "fe a x \<Longrightarrow> fe b y \<Longrightarrow> elt (gf_mul a b) (x * y)"
  by (erule (1) rep_mul) simp_all

lemma elt_add: "elt a x \<Longrightarrow> elt b y \<Longrightarrow> rep 131146 (gf_add a b) (x + y)"
  using rep_add [of 65573 a x 65573 b y] by simp

lemma elt_sub: "elt a x \<Longrightarrow> elt b y \<Longrightarrow> rep 131146 (gf_sub a b) (x - y)"
  using rep_sub [of 65573 a x 65573 b y] by simp

lemma fe_add: "elt a x \<Longrightarrow> elt b y \<Longrightarrow> fe (gf_add a b) (x + y)"
  by (rule rep_mono [OF elt_add]) simp_all

lemma fe_sub: "elt a x \<Longrightarrow> elt b y \<Longrightarrow> fe (gf_sub a b) (x - y)"
  by (rule rep_mono [OF elt_sub]) simp_all

definition pt_rep :: "pt \<Rightarrow> ref_pt \<Rightarrow> bool" where
  "pt_rep P V \<longleftrightarrow> elt (PX P) (VX V) \<and> elt (PY P) (VY V) \<and> elt (PZ P) (VZ V) \<and> elt (PT P) (VT V)"

lemma pt_repD:
  assumes "pt_rep P V"
  shows "elt (PX P) (VX V)" "elt (PY P) (VY V)" "elt (PZ P) (VZ V)" "elt (PT P) (VT V)"
  using assms by (simp_all add: pt_rep_def)

lemma pt_add_rep:
  assumes P: "pt_rep P V" and Q: "pt_rep Q W"
  shows "pt_rep (pt_add P Q) (ref_add V W)"
proof -
  note p = pt_repD [OF P] and q = pt_repD [OF Q]
  define a where "a = gf_mul (gf_sub (PY P) (PX P)) (gf_sub (PY Q) (PX Q))"
  define b where "b = gf_mul (gf_add (PX P) (PY P)) (gf_add (PX Q) (PY Q))"
  define c where "c = gf_mul (gf_mul (PT P) (PT Q)) gf_D2"
  define d where "d = gf_add (gf_mul (PZ P) (PZ Q)) (gf_mul (PZ P) (PZ Q))"
  define va where "va = (VY V - VX V) * (VY W - VX W)"
  define vb where "vb = (VX V + VY V) * (VX W + VY W)"
  define vc where "vc = 2 * ed_d * VT V * VT W"
  define vd where "vd = 2 * VZ V * VZ W"
  have a: "elt a va" unfolding a_def va_def by (intro fe_mul fe_sub p q)
  have b: "elt b vb" unfolding b_def vb_def by (intro fe_mul fe_add p q)
  have "elt c (VT V * VT W * (2 * ed_d))" unfolding c_def by (intro elt_mul p q elts)
  then have c: "elt c vc" by (rule rep_cong) (simp add: vc_def mult_ac)
  have "rep 131146 d (VZ V * VZ W + VZ V * VZ W)" unfolding d_def by (intro elt_add elt_mul p q)
  then have d: "rep 131146 d vd" by (rule rep_cong) (simp add: vd_def mult.assoc)
  have e: "fe (gf_sub b a) (vb - va)" and h: "fe (gf_add b a) (vb + va)" by (intro fe_sub fe_add a b)+
  have f: "fe (gf_sub d c) (vd - vc)" and g: "fe (gf_add d c) (vd + vc)"
    using rep_sub [OF d c] rep_add [OF d c] by simp_all
  have code: "pt_add P Q = \<lparr>PX = gf_mul (gf_sub b a) (gf_sub d c), PY = gf_mul (gf_add b a) (gf_add d c),
      PZ = gf_mul (gf_add d c) (gf_sub d c), PT = gf_mul (gf_sub b a) (gf_add b a)\<rparr>"
    by (simp only: pt_add_def Let_def a_def b_def c_def d_def)
  have spec: "ref_add V W = \<lparr>VX = (vb - va) * (vd - vc) mod ed_p, VY = (vb + va) * (vd + vc) mod ed_p,
      VZ = (vd + vc) * (vd - vc) mod ed_p, VT = (vb - va) * (vb + va) mod ed_p\<rparr>"
    by (simp only: ref_add_def Let_def va_def vb_def vc_def vd_def)
  show ?thesis unfolding code spec pt_rep_def by (simp add: fe_mul [OF e f] fe_mul [OF h g] fe_mul [OF g f] fe_mul [OF e h])
qed

lemma pt_rep_length: "pt_rep P V \<Longrightarrow> length (PX P) = 16 \<and> length (PY P) = 16 \<and> length (PZ P) = 16 \<and> length (PT P) = 16"
  by (simp add: pt_rep_def rep_def small_def)

lemma pt_cswap_rep:
  assumes "pt_rep P V" "pt_rep Q W"
  shows "pt_cswap P Q 1 = (Q, P)" "pt_cswap P Q 0 = (P, Q)"
  using pt_rep_length [OF assms(1)] pt_rep_length [OF assms(2)] by (simp_all add: pt_cswap_def Let_def cswap_exact)

lemma scalar_bit_exact:
  assumes "length s = 32" "i < 256"
  shows "scalar_bit s i = of_bool (odd (le_int s div 2 ^ i))"
proof -
  have i: "i div 8 < 32" "i = 8 * (i div 8) + i mod 8" using assms by simp_all
  have m: "i AND 7 = i mod 8" using take_bit_eq_mask [of 3 i] by (simp add: mask_eq_exp_minus_1 take_bit_eq_mod)
  have n8: "\<not> 8 \<le> i mod 8" by (simp add: not_le)
  have "drop (i div 8) s = s ! (i div 8) # drop (Suc (i div 8)) s" using i assms by (simp add: Cons_nth_drop_Suc)
  then have "drop_bit (8 * (i div 8)) (le_int s) = le_int (s ! (i div 8) # drop (Suc (i div 8)) s)" by (simp only: le_int_drop)
  then have "bit (le_int s) i = bit (le_int (s ! (i div 8) # drop (Suc (i div 8)) s)) (i mod 8)"
    by (metis bit_drop_bit_eq comp_apply i(2))
  also have "\<dots> = bit (s ! (i div 8)) (i mod 8)" unfolding le_int_Cons_or using n8 by (simp add: bit_simps)
  finally have "bit (s ! (i div 8)) (i mod 8) = odd (le_int s div 2 ^ i)" by (simp add: bit_iff_odd)
  moreover have "drop_bit (i mod 8) (s ! (i div 8)) AND 1 = of_bool (bit (s ! (i div 8)) (i mod 8))"
    by (simp add: and_one_eq bit_iff_odd_drop_bit mod_2_eq_odd)
  ultimately show ?thesis by (simp add: scalar_bit_def m)
qed

lemma ladder_rep:
  assumes s: "length s = 32" and n: "n \<le> 256" and Q: "pt_rep Q V" and R: "pt_rep R W"
  shows "pt_rep (fst (fold (ladder_step s) (rev [0..<n]) (Q, R))) (ref_ladder (le_int s) n V W)"
  using n Q R
proof (induction n arbitrary: Q R V W)
  case (Suc n)
  note b = scalar_bit_exact [OF s, of n]
  show ?case
  proof (cases "odd (le_int s div 2 ^ n)")
    case True
    then have "ladder_step s n (Q, R) = (pt_add Q R, pt_add R R)" using b Suc.prems
      by (simp add: ladder_step_def Let_def pt_cswap_rep [OF Suc.prems(2,3)]
          pt_cswap_rep [OF pt_add_rep [OF Suc.prems(3,3)] pt_add_rep [OF Suc.prems(2,3)]])
    with True Suc.prems show ?thesis using Suc.IH pt_add_rep by simp
  next
    case False
    then have "ladder_step s n (Q, R) = (pt_add Q Q, pt_add R Q)" using b Suc.prems
      by (simp add: ladder_step_def Let_def pt_cswap_rep [OF Suc.prems(2,3)]
          pt_cswap_rep [OF pt_add_rep [OF Suc.prems(2,2)] pt_add_rep [OF Suc.prems(3,2)]])
    with False Suc.prems show ?thesis using Suc.IH pt_add_rep by simp
  qed
qed simp

lemma scalarmult_rep: "length s = 32 \<Longrightarrow> pt_rep P V \<Longrightarrow> pt_rep (scalarmult P s) (ref_mult (le_int s) V)"
  unfolding scalarmult_def ref_mult_def by (rule ladder_rep) (simp_all add: pt_rep_def elts)

lemma scalarbase_rep: "length s = 32 \<Longrightarrow> pt_rep (scalarbase s) (ref_mult (le_int s) ref_base)"
  unfolding scalarbase_def
proof (rule scalarmult_rep)
  show "pt_rep \<lparr>PX = gf_BX, PY = gf_BY, PZ = gf1, PT = gf_mul gf_BX gf_BY\<rparr> ref_base"
    using elts elt_mul by (simp add: pt_rep_def ref_base_coords(3,4))
qed

lemma unpackneg_rep:
  assumes p: "length p = 32"
  shows "rel_option pt_rep (unpackneg p) (ref_unpackneg (le_int p))"
proof -
  define v where "v = le_int p"
  define y where "y = v mod 2 ^ 255"
  define num where "num = y * y - 1"
  define den where "den = ed_d * y * y + 1"
  define w where "w = mod_pow (num * den ^ 7 mod ed_p) (2 ^ 252 - 3)"
  define x0 where "x0 = num * den ^ 3 * w mod ed_p"
  define x1 where "x1 = (if x0 * x0 * den mod ed_p = num mod ed_p then x0 else x0 * ed_sqrt_m1 mod ed_p)"
  define x2 where "x2 = (if x1 mod 2 = v div 2 ^ 255 then - x1 mod ed_p else x1)"
  have spec: "ref_unpackneg v = (if x1 * x1 * den mod ed_p \<noteq> num mod ed_p then None
      else Some \<lparr>VX = x2, VY = y, VZ = 1, VT = x2 * y mod ed_p\<rparr>)"
    by (simp only: ref_unpackneg_def Let_def x2_def x1_def x0_def w_def den_def num_def y_def)
  define cy where "cy = unpack25519 p"
  define cnum where "cnum = gf_sub (gf_sq cy) gf1"
  define cden where "cden = gf_add gf1 (gf_mul (gf_sq cy) gf_D)"
  define cd2 where "cd2 = gf_sq cden"
  define cd6 where "cd6 = gf_mul (gf_sq cd2) cd2"
  define ct where "ct = gf_pow22523 (gf_mul (gf_mul cd6 cnum) cden)"
  define c0 where "c0 = gf_mul (gf_mul (gf_mul (gf_mul ct cnum) cden) cden) cden"
  define c1 where "c1 = (if neq25519 (gf_mul (gf_sq c0) cden) cnum \<noteq> 0 then gf_mul c0 gf_I else c0)"
  define c2 where "c2 = (if par25519 c1 = drop_bit 7 (p ! 31) then gf_sub gf0 c1 else c1)"
  have code: "unpackneg p = (if neq25519 (gf_mul (gf_sq c1) cden) cnum \<noteq> 0 then None
      else Some \<lparr>PX = c2, PY = cy, PZ = gf1, PT = gf_mul c2 cy\<rparr>)"
    by (simp only: unpackneg_def Let_def c2_def c1_def c0_def ct_def cd6_def cd2_def cden_def cnum_def cy_def)
  have y: "elt cy y" unfolding cy_def y_def v_def by (rule elt_unpack [OF p])
  have num: "fe cnum num" unfolding cnum_def num_def by (intro fe_sub elt_sq y elts)
  have "fe cden (1 + y * y * ed_d)" unfolding cden_def by (intro fe_add elt_mul elt_sq y elts)
  then have den: "fe cden den" by (rule rep_cong) (simp add: den_def mult_ac add.commute)
  have d2: "elt cd2 (den * den)" unfolding cd2_def gf_sq_def by (rule fe_mul [OF den den])
  have d6: "elt cd6 (den * den * (den * den) * (den * den))" unfolding cd6_def by (intro elt_mul elt_sq d2)
  have "elt (gf_mul (gf_mul cd6 cnum) cden) (den * den * (den * den) * (den * den) * num * den)"
    by (rule fe_mul [OF elt_fe [OF fe_mul [OF elt_fe [OF d6] num]] den])
  then have "elt (gf_mul (gf_mul cd6 cnum) cden) (num * den ^ 7 mod ed_p)"
    unfolding rep_mod by (rule rep_cong) (simp add: eval_nat_numeral mult_ac)
  then have t: "elt ct w" unfolding ct_def w_def by (rule elt_pow22523)
  have "elt c0 (w * num * den * den * den)" unfolding c0_def by (intro fe_mul elt_fe t num den)
  then have c0: "elt c0 x0" unfolding x0_def rep_mod by (rule rep_cong) (simp add: eval_nat_numeral mult_ac)
  have chk: "neq25519 (gf_mul (gf_sq c) cden) cnum \<noteq> 0 \<longleftrightarrow> x * x * den mod ed_p \<noteq> num mod ed_p" if "elt c x" for c x
    by (rule neq_rep [OF fe_mul [OF elt_fe [OF elt_sq [OF that]] den] num]) simp_all
  have c1: "elt c1 x1" unfolding c1_def x1_def chk [OF c0] using c0 elt_mul [OF c0 elts(5)] by simp
  have x1: "x1 mod ed_p = x1" unfolding x1_def x0_def by simp
  have "par25519 c1 = drop_bit 7 (p ! 31) \<longleftrightarrow> (word_of_int (x1 mod 2) :: u8) = drop_bit 7 (p ! 31)"
    using par_rep [OF c1] x1 by simp
  also have "\<dots> \<longleftrightarrow> uint (word_of_int (x1 mod 2) :: u8) = uint (drop_bit 7 (p ! 31))" by (simp only: word_uint_eq_iff)
  also have "uint (word_of_int (x1 mod 2) :: u8) = x1 mod 2"
    by (simp add: uint_word_of_int)
  finally have par: "par25519 c1 = drop_bit 7 (p ! 31) \<longleftrightarrow> x1 mod 2 = v div 2 ^ 255" using top_byte [OF p] by (simp add: v_def)
  have "rep 0 gf0 0" by (auto simp: rep_def small_def gf0_def dig_def)
  from rep_sub [OF this c1] have "elt (gf_sub gf0 c1) (- x1)" by simp
  then have c2: "elt c2 x2" unfolding c2_def x2_def par using c1 by simp
  have "pt_rep \<lparr>PX = c2, PY = cy, PZ = gf1, PT = gf_mul c2 cy\<rparr> \<lparr>VX = x2, VY = y, VZ = 1, VT = x2 * y mod ed_p\<rparr>"
    using c2 y elts(2) elt_mul [OF c2 y] by (simp add: pt_rep_def)
  then show ?thesis unfolding v_def [symmetric] code spec chk [OF c1] by simp
qed

lemma ref_pack_range: "0 \<le> ref_pack P" "ref_pack P < 2 ^ 256"
proof -
  obtain x y where s: "ref_pack P = y mod ed_p + 2 ^ 255 * (x mod 2)" unfolding ref_pack_def Let_def by blast
  have "x mod 2 \<le> 1" "0 \<le> x mod 2" by simp_all
  then show "0 \<le> ref_pack P" "ref_pack P < 2 ^ 256" unfolding s using mod_p_range(1,3) [of y] by simp_all
qed

lemma enc32_sign:
  assumes "0 \<le> y" "y < 2 ^ 255" "b = 0 \<or> b = 1"
  shows "(enc32 y)[31 := enc32 y ! 31 XOR push_bit 7 (word_of_int b)] = enc32 (y + 2 ^ 255 * b)"
proof (rule nth_equalityI)
  have y: "take_bit 255 y = y" using assms by (intro take_bit_int_eq_self) simp_all
  have hi: "\<not> bit y n" if "255 \<le> n" for n using that by (subst y [symmetric]) (simp add: bit_simps)
  have "y AND push_bit 255 b = 0" by (rule bit_eqI) (use hi in \<open>auto simp: bit_simps\<close>)
  then have o: "y + 2 ^ 255 * b = y OR push_bit 255 b"
    using plus_and_or [of y "push_bit 255 b"] by (simp add: push_bit_eq_mult mult.commute)
  fix i assume i: "i < length ((enc32 y)[31 := enc32 y ! 31 XOR push_bit 7 (word_of_int b)])"
  then have i: "i < 32" by simp
  show "(enc32 y)[31 := enc32 y ! 31 XOR push_bit 7 (word_of_int b)] ! i = enc32 (y + 2 ^ 255 * b) ! i"
  proof (cases "i = 31")
    case True
    have "word_of_int (drop_bit 248 y) XOR push_bit 7 (word_of_int b) = (word_of_int (drop_bit 248 (y OR push_bit 255 b)) :: u8)"
    proof (rule bit_word_eqI)
      fix n assume "n < LENGTH(8)"
      then have n: "n < 8" by simp
      show "bit (word_of_int (drop_bit 248 y) XOR push_bit 7 (word_of_int b) :: u8) n =
          bit (word_of_int (drop_bit 248 (y OR push_bit 255 b)) :: u8) n"
        using n hi [of 255] by (cases "n = 7") (auto simp: bit_simps)
    qed
    then show ?thesis unfolding o using True by (simp add: enc32_def)
  next
    case False
    have "word_of_int (drop_bit (8 * i) y) = (word_of_int (drop_bit (8 * i) (y OR push_bit 255 b)) :: u8)"
    proof (rule bit_word_eqI)
      fix n assume n: "n < LENGTH(8)"
      then have "\<not> 255 \<le> 8 * i + n" using i False by simp
      with n show "bit (word_of_int (drop_bit (8 * i) y) :: u8) n = bit (word_of_int (drop_bit (8 * i) (y OR push_bit 255 b)) :: u8) n"
        by (simp add: bit_simps)
    qed
    with False i show ?thesis unfolding o by (simp add: enc32_def)
  qed
qed simp

lemma pt_pack_rep:
  assumes "pt_rep P V"
  shows "pt_pack P = enc32 (ref_pack V)"
proof -
  note p = pt_repD [OF assms]
  define zi where "zi = mod_pow (VZ V) (2 ^ 255 - 21)"
  define x where "x = VX V * zi mod ed_p"
  define y where "y = VY V * zi mod ed_p"
  have spec: "ref_pack V = y + 2 ^ 255 * (x mod 2)" by (simp only: ref_pack_def Let_def x_def y_def zi_def)
  have z: "elt (gf_inv (PZ P)) zi" unfolding zi_def by (rule elt_inv [OF p(3)])
  have tx: "elt (gf_mul (PX P) (gf_inv (PZ P))) x" and ty: "elt (gf_mul (PY P) (gf_inv (PZ P))) y"
    using elt_mul [OF p(1) z] elt_mul [OF p(2) z] by (simp_all add: x_def y_def)
  have y: "y mod ed_p = y" "0 \<le> y" "y < 2 ^ 255" unfolding y_def using mod_p_range by simp_all
  have x: "x mod ed_p = x" unfolding x_def by simp
  have "pt_pack P = (enc32 y)[31 := enc32 y ! 31 XOR push_bit 7 (word_of_int (x mod 2))]"
    unfolding pt_pack_def Let_def using pack_rep [OF ty] par_rep [OF tx] x y by simp
  also have "\<dots> = enc32 (y + 2 ^ 255 * (x mod 2))" by (rule enc32_sign [OF y(2,3)]) presburger
  finally show ?thesis unfolding spec .
qed

section \<open>The curve\<close>

definition on_curve :: "ref_pt \<Rightarrow> bool" where
  "on_curve V \<longleftrightarrow> VX V * VY V mod ed_p = VZ V * VT V mod ed_p \<and>
     (VY V * VY V - VX V * VX V) mod ed_p = (VZ V * VZ V + ed_d * (VT V * VT V)) mod ed_p"

definition pt_val :: "pt \<Rightarrow> ref_pt" where
  "pt_val P = \<lparr>VX = gfv (PX P) mod ed_p, VY = gfv (PY P) mod ed_p, VZ = gfv (PZ P) mod ed_p, VT = gfv (PT P) mod ed_p\<rparr>"

lemmas mod_congs = mod_add_cong mod_diff_cong mod_mult_cong

lemma on_curve_cong:
  assumes "VX V mod ed_p = VX W mod ed_p" "VY V mod ed_p = VY W mod ed_p" "VZ V mod ed_p = VZ W mod ed_p"
    "VT V mod ed_p = VT W mod ed_p"
  shows "on_curve V \<longleftrightarrow> on_curve W"
proof -
  have "(VY V * VY V - VX V * VX V) mod ed_p = (VY W * VY W - VX W * VX W) mod ed_p"
    "(VZ V * VZ V + ed_d * (VT V * VT V)) mod ed_p = (VZ W * VZ W + ed_d * (VT W * VT W)) mod ed_p"
    "VX V * VY V mod ed_p = VX W * VY W mod ed_p" "VZ V * VT V mod ed_p = VZ W * VT W mod ed_p"
    by (intro mod_congs assms refl)+
  then show ?thesis by (simp add: on_curve_def)
qed

lemma pt_val_rep: "pt_rep P V \<Longrightarrow> on_curve (pt_val P) \<longleftrightarrow> on_curve V"
  by (rule on_curve_cong) (simp_all add: pt_val_def pt_rep_def rep_def)

text \<open>The difference of the two sides of the equation of the curve, for a sum, in terms of the two of each summand.\<close>

lemma curve_sum:
  fixes X1 X2 Y1 Y2 Z1 Z2 T1 T2 d :: int
  defines "E \<equiv> X1 * Y2 + Y1 * X2" and "H \<equiv> Y1 * Y2 + X1 * X2" and "F \<equiv> Z1 * Z2 - d * (T1 * T2)" and "G \<equiv> Z1 * Z2 + d * (T1 * T2)"
    and "A1 \<equiv> Y1 * Y1 - X1 * X1" and "A2 \<equiv> Y2 * Y2 - X2 * X2" and "S1 \<equiv> X1 * Y1" and "S2 \<equiv> X2 * Y2"
    and "Q \<equiv> (Y1 * Y1 + X1 * X1) * (Y2 * Y2 + X2 * X2)"
  shows "2 * ((H * G) * (H * G) - (E * F) * (E * F) - ((G * F) * (G * F) + d * ((E * H) * (E * H)))) =
    (G * G - F * F) * (Q + 4 * (S1 * S2)) + (G * G + F * F) * (A1 * A2) - 2 * ((G * F) * (G * F)) -
    2 * d * (S1 * S1 * (A2 * A2 + 4 * (S2 * S2)) + S2 * S2 * (A1 * A1 + 4 * (S1 * S1)) + 2 * (S1 * S2) * Q)"
proof -
  have e1: "H * H - E * E = A1 * A2" "H * H + E * E = Q + 4 * (S1 * S2)"
    unfolding E_def H_def A1_def A2_def S1_def S2_def Q_def by algebra+
  have e2: "(E * H) * (E * H) = S1 * S1 * (A2 * A2 + 4 * (S2 * S2)) + S2 * S2 * (A1 * A1 + 4 * (S1 * S1)) + 2 * (S1 * S2) * Q"
    unfolding E_def H_def A1_def A2_def S1_def S2_def Q_def by algebra
  show ?thesis unfolding e1 [symmetric] e2 [symmetric] by algebra
qed

lemma curve_add:
  assumes V: "on_curve V" and W: "on_curve W"
  shows "on_curve (ref_add V W)"
proof -
  define E where "E = VX V * VY W + VY V * VX W"
  define H where "H = VY V * VY W + VX V * VX W"
  define F where "F = VZ V * VZ W - ed_d * (VT V * VT W)"
  define G where "G = VZ V * VZ W + ed_d * (VT V * VT W)"
  define A1 where "A1 = VY V * VY V - VX V * VX V"
  define A2 where "A2 = VY W * VY W - VX W * VX W"
  define S1 where "S1 = VX V * VY V"
  define S2 where "S2 = VX W * VY W"
  define Q where "Q = (VY V * VY V + VX V * VX V) * (VY W * VY W + VX W * VX W)"
  define B1 where "B1 = VZ V * VZ V + ed_d * (VT V * VT V)"
  define B2 where "B2 = VZ W * VZ W + ed_d * (VT W * VT W)"
  define U1 where "U1 = VZ V * VT V"
  define U2 where "U2 = VZ W * VT W"
  define D where "D = (\<lambda>a1 a2 s1 s2. (G * G - F * F) * (Q + 4 * (s1 * s2)) + (G * G + F * F) * (a1 * a2) - 2 * ((G * F) * (G * F)) -
    2 * ed_d * (s1 * s1 * (a2 * a2 + 4 * (s2 * s2)) + s2 * s2 * (a1 * a1 + 4 * (s1 * s1)) + 2 * (s1 * s2) * Q))"
  have c: "A1 mod ed_p = B1 mod ed_p" "A2 mod ed_p = B2 mod ed_p" "S1 mod ed_p = U1 mod ed_p" "S2 mod ed_p = U2 mod ed_p"
    using V W by (simp_all add: on_curve_def A1_def A2_def B1_def B2_def S1_def S2_def U1_def U2_def)
  have sums: "2 * ((H * G) * (H * G) - (E * F) * (E * F) - ((G * F) * (G * F) + ed_d * ((E * H) * (E * H)))) = D A1 A2 S1 S2"
    unfolding D_def E_def F_def G_def H_def A1_def A2_def S1_def S2_def Q_def by (rule curve_sum)
  have "D B1 B2 U1 U2 = 0" unfolding D_def F_def G_def B1_def B2_def U1_def U2_def by algebra
  moreover have "D A1 A2 S1 S2 mod ed_p = D B1 B2 U1 U2 mod ed_p" unfolding D_def by (intro mod_congs c refl)
  ultimately have "D A1 A2 S1 S2 mod ed_p = 0" by simp
  then have z: "ed_p dvd 2 * ((H * G) * (H * G) - (E * F) * (E * F) - ((G * F) * (G * F) + ed_d * ((E * H) * (E * H))))"
    unfolding sums by (simp add: dvd_eq_mod_eq_0)
  let ?N = "\<lparr>VX = (2 * E) * (2 * F), VY = (2 * H) * (2 * G), VZ = (2 * G) * (2 * F), VT = (2 * E) * (2 * H)\<rparr>"
  have e: "VX ?N * VY ?N = VZ ?N * VT ?N" by (simp add: mult_ac)
  have "VY ?N * VY ?N - VX ?N * VX ?N - (VZ ?N * VZ ?N + ed_d * (VT ?N * VT ?N)) =
    8 * (2 * ((H * G) * (H * G) - (E * F) * (E * F) - ((G * F) * (G * F) + ed_d * ((E * H) * (E * H)))))"
    unfolding ref_pt.simps by algebra
  with z have "ed_p dvd VY ?N * VY ?N - VX ?N * VX ?N - (VZ ?N * VZ ?N + ed_d * (VT ?N * VT ?N))" by (metis dvd_mult)
  then have n: "on_curve ?N" unfolding on_curve_def e mod_eq_dvd_iff by simp
  have "(VX V + VY V) * (VX W + VY W) - (VY V - VX V) * (VY W - VX W) = 2 * E"
    "(VX V + VY V) * (VX W + VY W) + (VY V - VX V) * (VY W - VX W) = 2 * H"
    "2 * VZ V * VZ W - 2 * ed_d * VT V * VT W = 2 * F" "2 * VZ V * VZ W + 2 * ed_d * VT V * VT W = 2 * G"
    by (simp_all add: E_def F_def G_def H_def algebra_simps)
  then have "ref_add V W = \<lparr>VX = (2 * E) * (2 * F) mod ed_p, VY = (2 * H) * (2 * G) mod ed_p,
      VZ = (2 * G) * (2 * F) mod ed_p, VT = (2 * E) * (2 * H) mod ed_p\<rparr>"
    by (simp only: ref_add_def Let_def add.commute)
  with n show ?thesis using on_curve_cong [of ?N "ref_add V W"] by simp
qed

lemma curve_ladder: "on_curve Q \<Longrightarrow> on_curve R \<Longrightarrow> on_curve (ref_ladder n i Q R)"
  by (induction n i Q R rule: ref_ladder.induct) (simp_all add: curve_add)

lemma curve_mult: "on_curve P \<Longrightarrow> on_curve (ref_mult n P)"
  unfolding ref_mult_def by (rule curve_ladder) (simp_all add: on_curve_def)

lemma mod_eq_of_quotient: "a = q * m + r \<Longrightarrow> 0 \<le> r \<Longrightarrow> r < m \<Longrightarrow> a mod m = (r :: int)"
  by simp

lemma curve_base: "on_curve ref_base"
proof -
  have "(VX ref_base * VY ref_base) mod ed_p = 46827403850823179245072216630277197565144205554125654976674165829533817101731"
    by (rule mod_eq_of_quotient [where q = 12089777079628320618000921127670825209163210154433485764836890627159878209761]) (simp_all add: ref_base_coords(1,2) ed_p_def)
  then have t: "VT ref_base = 46827403850823179245072216630277197565144205554125654976674165829533817101731" by (simp only: ref_base_coords(4))
  have z: "VZ ref_base = 1" by (rule ref_base_coords(3))
  have "VY ref_base * VY ref_base - VX ref_base * VX ref_base - (VZ ref_base * VZ ref_base + ed_d * (VT ref_base * VT ref_base)) =
    ed_p * (- 1404995416558591703935402335071871497660573215803886088007472604973677187509378205875315662149191623813929323558907999434574481479439670300926143553417440)"
    unfolding t z by (simp add: ref_base_coords(1,2) ed_p_def ed_d_def)
  then have "ed_p dvd VY ref_base * VY ref_base - VX ref_base * VX ref_base - (VZ ref_base * VZ ref_base + ed_d * (VT ref_base * VT ref_base))"
    by (simp only: dvd_triv_left)
  moreover have "VX ref_base * VY ref_base mod ed_p = VZ ref_base * VT ref_base mod ed_p"
    unfolding z ref_base_coords(4) by simp
  ultimately show ?thesis unfolding on_curve_def by (simp only: mod_eq_dvd_iff simp_thms)
qed

lemma ref_unpackneg_form:
  obtains x x2 where "x2 = (if x mod 2 = v div 2 ^ 255 then - x mod ed_p else x)"
    "ref_unpackneg v = (if x * x * (ed_d * (v mod 2 ^ 255) * (v mod 2 ^ 255) + 1) mod ed_p \<noteq> ((v mod 2 ^ 255) * (v mod 2 ^ 255) - 1) mod ed_p
       then None else Some \<lparr>VX = x2, VY = v mod 2 ^ 255, VZ = 1, VT = x2 * (v mod 2 ^ 255) mod ed_p\<rparr>)"
  by (rule that [OF refl], unfold ref_unpackneg_def Let_def) (rule refl)

lemma curve_unpackneg:
  assumes "ref_unpackneg v = Some V" shows "on_curve V"
proof -
  define y where "y = v mod 2 ^ 255"
  obtain x x2 where x2: "x2 = (if x mod 2 = v div 2 ^ 255 then - x mod ed_p else x)"
    and f: "ref_unpackneg v = (if x * x * (ed_d * y * y + 1) mod ed_p \<noteq> (y * y - 1) mod ed_p
       then None else Some \<lparr>VX = x2, VY = y, VZ = 1, VT = x2 * y mod ed_p\<rparr>)"
    unfolding y_def by (rule ref_unpackneg_form)
  from assms have xy: "x * x * (ed_d * y * y + 1) mod ed_p = (y * y - 1) mod ed_p"
    and V: "V = \<lparr>VX = x2, VY = y, VZ = 1, VT = x2 * y mod ed_p\<rparr>"
    unfolding f by (simp_all split: if_splits)
  define N where "N = \<lparr>VX = x2, VY = y, VZ = 1, VT = x2 * y\<rparr>"
  have "(- x mod ed_p) * (- x mod ed_p) mod ed_p = x * x mod ed_p" by (simp add: mod_mult_eq)
  then have s: "x2 * x2 mod ed_p = x * x mod ed_p" unfolding x2 by simp
  have "(x2 * x2) * (ed_d * y * y + 1) mod ed_p = (x * x) * (ed_d * y * y + 1) mod ed_p" by (intro mod_congs s refl)
  also have "\<dots> = (y * y - 1) mod ed_p" by (rule xy)
  finally have "ed_p dvd (x2 * x2) * (ed_d * y * y + 1) - (y * y - 1)" by (simp only: mod_eq_dvd_iff)
  then have "ed_p dvd - ((x2 * x2) * (ed_d * y * y + 1) - (y * y - 1))" by (simp only: dvd_minus_iff)
  also have "- ((x2 * x2) * (ed_d * y * y + 1) - (y * y - 1)) = (y * y - x2 * x2) - (1 * 1 + ed_d * (x2 * y * (x2 * y)))"
    by algebra
  finally have "on_curve N" unfolding on_curve_def N_def mod_eq_dvd_iff by simp
  then show ?thesis using on_curve_cong [of V N] by (simp add: V N_def)
qed

section \<open>The check, exactly\<close>

lemma le_int_inj: "length a = length b \<Longrightarrow> le_int a = le_int b \<Longrightarrow> a = b"
proof (induction a b rule: list_induct2)
  case (Cons x a y b)
  have m: "uint z mod 256 = uint z" for z :: u8 using uint_bounded [of z] by (intro mod_pos_pos_trivial) simp_all
  have "(uint x + 256 * le_int a) mod 256 = (uint y + 256 * le_int b) mod 256" using Cons.prems by simp
  then have "x = y" by (simp only: m mod_mult_self2 word_uint_eq_iff)
  with Cons show ?case by simp
qed simp

lemma top_bits: "length s = 32 \<Longrightarrow> s ! 31 AND 0xE0 = 0 \<longleftrightarrow> le_int s < 2 ^ 253"
proof -
  assume s: "length s = 32"
  then have "drop 31 s = [s ! 31]" by (simp add: list_eq_iff_nth_eq)
  then have "le_int s div 2 ^ 248 = uint (s ! 31)" using le_int_drop [of 31 s] by (simp add: drop_bit_eq_div)
  moreover have "le_int s < 2 ^ 253 \<longleftrightarrow> le_int s div 2 ^ 248 < 32"
    using div_mult_mod_eq [of "le_int s" "2 ^ 248"] pos_mod_bound [of "2 ^ 248" "le_int s"] pos_mod_sign [of "2 ^ 248" "le_int s"] by auto
  moreover have "b AND 0xE0 = 0 \<longleftrightarrow> uint b < 32" for b :: u8
  proof -
    have m: "(0xE0 :: u8) = NOT (mask 5)" by (simp add: mask_eq_exp_minus_1)
    have "b AND 0xE0 = 0 \<longleftrightarrow> b AND mask 5 = b" unfolding m by (auto simp: bit_eq_iff bit_simps)
    then show ?thesis by (simp add: mask_eq_iff)
  qed
  ultimately show ?thesis by simp
qed

lemma length_sc_reduce: "length (sc_reduce n s) = 32"
  by (simp add: sc_reduce_def sc_pack_def)

lemma ed_check_exact:
  assumes "length sig = 64" "length h = 32" "pt_rep A V"
  shows "ed_check A sig h \<longleftrightarrow>
    ref_pack (ref_add (ref_mult (le_int (drop 32 sig)) ref_base) (ref_mult (le_int h) V)) = le_int (take 32 sig)"
proof -
  let ?N = "ref_add (ref_mult (le_int (drop 32 sig)) ref_base) (ref_mult (le_int h) V)"
  have s: "length (drop 32 sig) = 32" "length (take 32 sig) = 32" using assms(1) by simp_all
  have "pt_rep (pt_add (scalarbase (drop 32 sig)) (scalarmult A h)) ?N"
    by (intro pt_add_rep scalarbase_rep scalarmult_rep s assms)
  then have "ed_check A sig h \<longleftrightarrow> enc32 (ref_pack ?N) = take 32 sig"
    unfolding ed_check_def Let_def by (simp add: pt_pack_rep diff_zero assms(1))
  also have "\<dots> \<longleftrightarrow> ref_pack ?N = le_int (take 32 sig)"
    using enc32_value [OF ref_pack_range, of ?N] le_int_inj [of "enc32 (ref_pack ?N)" "take 32 sig"] s(2) length_enc32 by metis
  finally show ?thesis .
qed

text \<open>C34: Where the scalar reduction has 128-bit integers, and for every hash whose residue modulo the group order
  is at least 2^130 and less than the order minus 2^130 (all but a share of about 2^-121 of them; outside
  it the reduction can lose a carry even so, \<open>sc_reduce_drops_carry\<close>), the check of a hash, signature and
  key is the one over the integers modulo the prime: no sum or product of the limbs overflows, the
  conditional swaps select, the powers are the inverse and the root, the encodings are canonical.\<close>

theorem ed_verify_exact:
  assumes "length sig = 64" "length pk = 32" "length h = 64"
    "2 ^ 130 \<le> le_int h mod ed_l" "le_int h mod ed_l < ed_l - 2 ^ 130"
  shows "ed_verify_digest 128 sig pk h \<longleftrightarrow>
    ref_verify (le_int (take 32 sig)) (le_int (drop 32 sig)) (le_int pk) (le_int h mod ed_l)"
proof -
  have k: "le_int (sc_reduce 128 h) = le_int h mod ed_l" "length (sc_reduce 128 h) = 32"
    using sc_reduce_value [OF assms(3-5)] length_sc_reduce by simp_all
  have s: "sig ! 63 AND 0xE0 = 0 \<longleftrightarrow> le_int (drop 32 sig) < 2 ^ 253" using top_bits [of "drop 32 sig"] assms(1) by simp
  from unpackneg_rep [OF assms(2)] show ?thesis
    by (cases rule: option.rel_cases) (simp_all add: ed_verify_digest_def ref_verify_def s k ed_check_exact assms(1))
qed

theorem ed_verify_exact_witness:
  "ed_verify_digest 128 (replicate 64 0) (replicate 32 0) (replicate 20 0 @ [1] @ replicate 43 0) \<longleftrightarrow>
   ref_verify 0 0 0 (2 ^ 160)"
proof -
  let ?d = "replicate 20 0 @ [1] @ replicate 43 0 :: u8 list"
  have "le_int ?d = 2 ^ 160" by code_simp
  then have m: "le_int ?d mod ed_l = 2 ^ 160" by (simp add: ed_l_def)
  have z: "le_int (replicate 32 0) = 0" by code_simp
  show ?thesis using ed_verify_exact [of "replicate 64 0" "replicate 32 0" ?d] unfolding m by (simp add: ed_l_def z)
qed

text \<open>The same for the whole function, with the hash of the standard.\<close>

lemma ed25519_verify_standard:
  assumes "length junk = 128" "length sig = 64" "length pk = 32" "length msg < 2 ^ 60"
  shows "ed25519_verify_detached n junk sig msg pk \<longleftrightarrow> ed_verify_digest n sig pk (fips_sha512 (take 32 sig @ pk @ msg))"
  unfolding ed25519_verify_detached_def using assms by (simp add: sha512_3_standard)

text \<open>every key that decompresses is a point of the curve, and so is the point the check compares with
  the signature, for all scalars: the additions and the ladder never leave the curve.\<close>

theorem ed_points_on_curve:
  assumes "length pk = 32" "unpackneg pk = Some A" "length s = 32" "length h = 32"
  shows "on_curve (pt_val A) \<and> on_curve (pt_val (pt_add (scalarbase s) (scalarmult A h)))"
proof -
  obtain V where V: "ref_unpackneg (le_int pk) = Some V" "pt_rep A V"
    using unpackneg_rep [OF assms(1)] assms(2) by (auto simp: option_rel_Some1)
  have "pt_rep (pt_add (scalarbase s) (scalarmult A h)) (ref_add (ref_mult (le_int s) ref_base) (ref_mult (le_int h) V))"
    by (intro pt_add_rep scalarbase_rep scalarmult_rep assms V)
  then show ?thesis
    using pt_val_rep [OF V(2)] curve_unpackneg [OF V(1)] by (simp add: pt_val_rep curve_add curve_mult curve_base)
qed

theorem ed_points_on_curve_witness:
  "\<exists>A. unpackneg (1 # replicate 31 0) = Some A \<and> on_curve (pt_val A) \<and>
     on_curve (pt_val (pt_add (scalarbase (replicate 32 0)) (scalarmult A (replicate 32 0))))"
proof -
  have v: "le_int (1 # replicate 31 0) = 1" by code_simp
  have "ref_unpackneg 1 \<noteq> None" unfolding ref_unpackneg_def Let_def by (simp add: ed_p_def)
  then obtain A where A: "unpackneg (1 # replicate 31 0) = Some A"
    using unpackneg_rep [of "1 # replicate 31 0"] unfolding v by (auto simp: option_rel_Some2)
  with ed_points_on_curve [OF _ A, of "replicate 32 0" "replicate 32 0"] show ?thesis by simp
qed

end
