(* ===== verification/Rivr_Sinks.thy ===== *)
theory Rivr_Sinks
  imports Rivr_Node
begin

unbundle bit_operations_syntax

text \<open>
  The sinks of the Rivr engine (rivr_layer/rivr_sinks.c): what happens to a value that the program
  emits to the radio, from the route lookup over the re-encoding for the next hop, the retry entry
  and the fallback flood to the transmit queue; and the beacon. The link summary of the neighbour
  table is here because only the beacon uses it. The printing sinks and the log are left out.
\<close>

section \<open>The rf_tx sink\<close>

datatype rivr_value_t = RIVR_VAL_INT int | RIVR_VAL_BOOL bool | RIVR_VAL_STR "u8 list" | RIVR_VAL_BYTES "u8 list" | RIVR_VAL_UNIT

text \<open>The first half of the bytes branch: what to do when no route is known.\<close>

definition sink_route_request :: "node_cfg \<Rightarrow> u32 \<Rightarrow> rivr_pkt_hdr_t \<Rightarrow> rf_tx_request_t \<Rightarrow> node_t \<Rightarrow> node_t" where
  "sink_route_request cfg now pkt req n =
     (case pending_queue_enqueue (ts_metrics n) (nd_pending n) (h_dst_id pkt) (tx_data req) (tx_len req) (tx_toa_us req) now of
        (m1, pq1, pend_ok) \<Rightarrow>
          let n1 = next_ctrl_seq (n\<lparr>ts_metrics := m1, nd_pending := pq1\<rparr>);
              seq = (ucast (nd_ctrl_seq n1) :: u16)
          in case routing_build_route_req (nc_my_id cfg) (h_dst_id pkt) seq seq (replicate 25 0) 25 of
               (enc, buf) \<Rightarrow>
                 (case (if enc > 0
                        then node_push (tx_request buf (word_of_int enc) (node_toa cfg (word_of_int enc))) n1
                        else (False, n1)) of
                    (rreq_ok, n2) \<Rightarrow>
                      let n3 = (if \<not> pend_ok then node_count drop_no_route n2 else n2)
                      in if rreq_ok then UPDATE_TXQ_PEAK n3 else n3))"

text \<open>The flag byte and the CRC that a protected unicast gets in place.\<close>

definition sink_set_ack_req :: "u8 list \<Rightarrow> u8 list" where
  "sink_set_ack_req d =
     (let d1 = d[4 := d ! 4 OR PKT_FLAG_ACK_REQ];
          coff = RIVR_PKT_HDR_LEN + d1 ! 21;
          crc = protocol_crc16 d1 coff
      in d1[unat coff := ucast (crc AND 0xFF), Suc (unat coff) := ucast (drop_bit 8 crc)])"

definition sink_needs_ack :: "u8 \<Rightarrow> bool" where
  "sink_needs_ack t \<longleftrightarrow> t \<noteq> PKT_ACK \<and> t \<noteq> PKT_ROUTE_REQ \<and> t \<noteq> PKT_ROUTE_RPL \<and> t \<noteq> PKT_BEACON"

definition sink_unicast :: "node_cfg \<Rightarrow> u32 \<Rightarrow> rivr_pkt_hdr_t \<Rightarrow> u8 list \<Rightarrow> u8 \<Rightarrow> u32 \<Rightarrow> rf_tx_request_t \<Rightarrow> node_t \<Rightarrow> rf_tx_request_t \<times> node_t" where
  "sink_unicast cfg now pkt pl pl_len next_hop req n =
     (case protocol_encode (pkt\<lparr>h_dst_id := next_hop, h_ttl := 1\<rparr>) (Some pl) pl_len (tx_data req) RF_MAX_PAYLOAD_LEN of
        (reenc, out) \<Rightarrow>
          if reenc \<le> 0 then (req\<lparr>tx_data := out\<rparr>, n)
          else
            let len = word_of_int reenc;
                req1 = req\<lparr>tx_data := out, tx_len := len, tx_toa_us := node_toa cfg len\<rparr>
            in if \<not> sink_needs_ack (h_pkt_type pkt) then (req1, n)
               else
                 let req2 = req1\<lparr>tx_data := sink_set_ack_req out\<rparr>
                 in case retry_table_enqueue (nc_role cfg) (ts_metrics n) (nd_retry n) (nc_my_id cfg) (h_pkt_id pkt)
                           (h_dst_id pkt) next_hop (tx_data req2) (tx_len req2) (tx_toa_us req2) now of
                      (m1, rt1, _) \<Rightarrow> (req2, n\<lparr>ts_metrics := m1, nd_retry := rt1\<rparr>))"

text \<open>The last resort when the queue did not take a unicast: a limited flood with a fresh packet id.\<close>

definition sink_fallback :: "node_cfg \<Rightarrow> rivr_pkt_hdr_t \<Rightarrow> u8 list \<Rightarrow> u8 \<Rightarrow> rf_tx_request_t \<Rightarrow> node_t \<Rightarrow> bool \<times> node_t" where
  "sink_fallback cfg pkt pl pl_len req n =
     (let n1 = next_ctrl_seq n;
          fb = pkt\<lparr>h_dst_id := 0, h_ttl := RIVR_FALLBACK_TTL, h_hop := 0, h_pkt_id := ucast (nd_ctrl_seq n1),
                   h_flags := (h_flags pkt AND NOT PKT_FLAG_RELAY) OR PKT_FLAG_FALLBACK\<rparr>
      in case protocol_encode fb (Some pl) pl_len (tx_data req) RF_MAX_PAYLOAD_LEN of
           (enc, out) \<Rightarrow>
             if enc \<le> 0 then (False, n1)
             else case node_push (req\<lparr>tx_data := out, tx_len := word_of_int enc, tx_toa_us := node_toa cfg (word_of_int enc)\<rparr>) n1 of
                    (ok, n2) \<Rightarrow> (ok, if ok then node_count fallback_flood_total n2 else n2))"

definition count_originated :: "(rivr_pkt_hdr_t \<times> u8 list option) option \<Rightarrow> node_t \<Rightarrow> node_t" where
  "count_originated dec n =
     (case dec of
        None \<Rightarrow> n
      | Some (pkt, pl) \<Rightarrow>
          if h_pkt_type pkt < FWDBUDGET_PKT_TYPES
          then n\<lparr>nd_budget := (nd_budget n)\<lparr>fb_tx_originated_count := (fb_tx_originated_count (nd_budget n))
                   [unat (h_pkt_type pkt) := fb_tx_originated_count (nd_budget n) ! unat (h_pkt_type pkt) + 1]\<rparr>\<rparr>
          else n)"

definition sink_finish :: "bool \<Rightarrow> (rivr_pkt_hdr_t \<times> u8 list option) option \<Rightarrow> node_t \<Rightarrow> node_t" where
  "sink_finish pushed dec n =
     (if \<not> pushed then node_count tx_queue_full n
      else count_originated dec ((UPDATE_TXQ_PEAK n)\<lparr>nd_tx_frame_count := nd_tx_frame_count n + 1\<rparr>))"

definition sink_bytes :: "node_cfg \<Rightarrow> u32 \<Rightarrow> u8 list \<Rightarrow> node_t \<Rightarrow> node_t" where
  "sink_bytes cfg now bytes n0 =
     (let total = (of_nat (min (length bytes) 255) :: u8);
          req = tx_request bytes total (node_toa cfg total)
      in case node_decode (tx_data req) (tx_len req) n0 of (dec, n) \<Rightarrow>
           case dec of
             None \<Rightarrow> (case node_push req n of (pushed, n1) \<Rightarrow> sink_finish pushed dec n1)
           | Some (pkt, plo) \<Rightarrow>
               let pl = (case plo of None \<Rightarrow> [] | Some p \<Rightarrow> p); pl_len = (of_nat (length pl) :: u8)
               in if h_dst_id pkt = 0 then (case node_push req n of (pushed, n1) \<Rightarrow> sink_finish pushed dec n1)
                  else case route_cache_best_hop (nc_role cfg) (ts_metrics n) (nd_routes n) (Some (nd_ntable n)) (h_dst_id pkt) now of
                    (m1, rc1, nt1, route) \<Rightarrow>
                      let n1 = n\<lparr>ts_metrics := m1, nd_routes := rc1, nd_ntable := (case nt1 of None \<Rightarrow> nd_ntable n | Some t \<Rightarrow> t)\<rparr>
                      in case route of
                           None \<Rightarrow> sink_route_request cfg now pkt req n1
                         | Some chosen \<Rightarrow>
                             (case sink_unicast cfg now pkt pl pl_len (rt_next_hop_id chosen) req n1 of (req1, n2) \<Rightarrow>
                                case node_push req1 n2 of (pushed, n3) \<Rightarrow>
                                  if pushed then sink_finish True dec n3
                                  else case sink_fallback cfg pkt pl pl_len req1 n3 of
                                         (ok, n4) \<Rightarrow> sink_finish ok dec n4))"

text \<open>The text branch that predates the packet format.\<close>

definition sink_text_prefix :: "u8 list \<Rightarrow> u8 \<times> nat" where
  "sink_text_prefix s =
     (if 5 \<le> length s \<and> s ! 4 = 0x3A then
        (if s ! 0 = 0x43 \<and> s ! 1 = 0x48 then (4, 5)
         else if s ! 0 = 0x42 \<and> s ! 1 = 0x45 then (2, 7)
         else if s ! 0 = 0x41 \<and> s ! 1 = 0x43 then (3, 4)
         else (1, 5))
      else if 4 \<le> length s \<and> s ! 3 = 0x3A then
        (if s ! 0 = 0x41 \<and> s ! 1 = 0x43 \<and> s ! 2 = 0x4B then (3, 4) else (1, 0))
      else (1, 0))"

definition sink_text :: "node_cfg \<Rightarrow> u8 list \<Rightarrow> node_t \<Rightarrow> node_t" where
  "sink_text cfg s n =
     (case sink_text_prefix s of (frame_type, off) \<Rightarrow>
        let lmp = (ucast (nd_lmp_tick n) :: u16);
            plen = min (length s - off) 252;
            len = (of_nat (3 + plen) :: u8);
            req = tx_request ([frame_type, ucast lmp, ucast (drop_bit 8 lmp)] @ take plen (drop off s)) len (node_toa cfg len)
        in case node_push req n of (pushed, n1) \<Rightarrow>
             if \<not> pushed then node_count tx_queue_full n1
             else (UPDATE_TXQ_PEAK n1)\<lparr>nd_tx_frame_count := nd_tx_frame_count n1 + 1\<rparr>)"

definition rf_tx_sink_cb :: "node_cfg \<Rightarrow> u32 \<Rightarrow> rivr_value_t \<Rightarrow> node_t \<Rightarrow> node_t" where
  "rf_tx_sink_cb cfg now v n =
     (case v of RIVR_VAL_STR s \<Rightarrow> sink_text cfg s n | RIVR_VAL_BYTES b \<Rightarrow> sink_bytes cfg now b n | _ \<Rightarrow> n)"

section \<open>The beacon sink\<close>

record neighbor_link_summary_t =
  ls_count :: u8
  ls_best_score :: u8
  ls_best_rssi :: u8
  ls_avg_loss :: u8

definition link_summary_visit ::
  "rivr_role \<Rightarrow> u32 \<Rightarrow> rivr_neighbor_t \<Rightarrow> neighbor_link_summary_t \<times> u32 \<Rightarrow> neighbor_link_summary_t \<times> u32" where
  "link_summary_visit role now e acc =
     (case acc of (s, loss_sum) \<Rightarrow>
        if nb_neighbor_id e = 0 \<or> now - nb_last_seen_ms e \<ge> NTABLE_STALE_MS then (s, loss_sum)
        else
          let sc = neighbor_link_score_full role e now;
              s1 = s\<lparr>ls_count := ls_count s + 1\<rparr>
          in (if sc \<ge> ls_best_score s1
              then s1\<lparr>ls_best_score := sc,
                      ls_best_rssi := word_of_int (clamp_i32 (sint (nb_rssi_avg e)) (- 128) 127)\<rparr>
              else s1, loss_sum + ucast (nb_loss_rate e)))"

definition neighbor_table_link_summary :: "rivr_role \<Rightarrow> rivr_neighbor_table_t \<Rightarrow> u32 \<Rightarrow> neighbor_link_summary_t" where
  "neighbor_table_link_summary role tbl now =
     (case fold (link_summary_visit role now) (nt_entries tbl)
             (\<lparr>ls_count = 0, ls_best_score = 0, ls_best_rssi = word_of_int (- 120), ls_avg_loss = 0\<rparr>, 0) of
        (s, loss_sum) \<Rightarrow> if ls_count s > 0 then s\<lparr>ls_avg_loss := ucast (loss_sum div ucast (ls_count s))\<rparr> else s)"

definition beacon_has_pos :: "node_cfg \<Rightarrow> bool" where
  "beacon_has_pos cfg \<longleftrightarrow> nc_lat_e7 cfg \<noteq> INT32_MIN \<and> nc_lon_e7 cfg \<noteq> INT32_MIN"

definition beacon_payload :: "node_cfg \<Rightarrow> u8 \<Rightarrow> u8 list" where
  "beacon_payload cfg role =
     (let cs = take 10 (c_str (nc_callsign cfg))
      in cs @ replicate (10 - length cs) 0 @ [0, role] @
         (if beacon_has_pos cfg then put_u32 (nc_lat_e7 cfg) @ put_u32 (nc_lon_e7 cfg) else []))"

definition do_beacon_tx :: "node_cfg \<Rightarrow> node_t \<Rightarrow> node_t" where
  "do_beacon_tx cfg n0 =
     (let n = next_ctrl_seq n0;
          payload = beacon_payload cfg (pp_role (rp_params (nd_params n)));
          plen = (of_nat (length payload) :: u8);
          hdr = \<lparr>h_magic = RIVR_MAGIC, h_version = RIVR_PROTO_VER, h_pkt_type = PKT_BEACON,
                 h_flags = (if beacon_has_pos cfg then PKT_FLAG_HAS_POS else 0), h_ttl = RIVR_PKT_DEFAULT_TTL, h_hop = 0,
                 h_net_id = nc_net_id cfg, h_src_id = nc_my_id cfg, h_dst_id = 0, h_seq = ucast (nd_ctrl_seq n),
                 h_pkt_id = ucast (nd_ctrl_seq n), h_payload_len = plen, h_loop_guard = 0\<rparr>
      in case protocol_encode hdr (Some payload) plen (replicate 255 0) RF_MAX_PAYLOAD_LEN of
           (enc, out) \<Rightarrow>
             if enc \<le> 0 then n
             else case node_push \<lparr>tx_data = out, tx_len = word_of_int enc, tx_toa_us = node_toa cfg (word_of_int enc), tx_due_ms = 0\<rparr> n of
                    (ok, n1) \<Rightarrow> if ok then n1\<lparr>nd_tx_frame_count := nd_tx_frame_count n1 + 1\<rparr> else n1)"

definition beacon_sink_cb :: "node_cfg \<Rightarrow> u32 \<Rightarrow> node_t \<Rightarrow> node_t" where
  "beacon_sink_cb cfg now n =
     (let p = rp_params (nd_params n);
          lnk = neighbor_table_link_summary (nc_role cfg) (nd_ntable n) now;
          entropy = nc_my_id cfg XOR nd_ctrl_seq n XOR now
      in case beacon_sched_tick (nd_beacon n) now (pp_beacon_interval_ms p) (pp_beacon_jitter_ms p) (ls_count lnk) entropy of
           (result, s1) \<Rightarrow>
             let n1 = n\<lparr>nd_beacon := s1\<rparr>
             in case result of
                  BEACON_TX_STARTUP \<Rightarrow> node_count beacon_startup_tx_total (node_count beacon_tx_total (do_beacon_tx cfg n1))
                | BEACON_TX_SCHEDULED \<Rightarrow> node_count beacon_tx_total (do_beacon_tx cfg n1)
                | BEACON_SUPPRESS_NEIGHBORS \<Rightarrow> node_count beacon_suppressed_total n1
                | BEACON_SUPPRESS_INTERVAL \<Rightarrow> node_count beacon_suppressed_total n1)"

definition rivr_sinks_init :: "node_cfg \<Rightarrow> u32 \<Rightarrow> node_t \<Rightarrow> node_t" where
  "rivr_sinks_init cfg now n =
     node_count beacon_startup_tx_total (node_count beacon_tx_total
       (do_beacon_tx cfg (n\<lparr>nd_beacon := beacon_sched_set_initial_tx now (nd_beacon n)\<rparr>)))"

section \<open>The sinks keep the node well formed\<close>

lemma tx_request_data:
  assumes "unat len \<le> length data"
  shows "length (tx_data (tx_request data len toa)) = 255" "tx_len (tx_request data len toa) = len"
    "take (unat len) (tx_data (tx_request data len toa)) = take (unat len) data"
    "wire_ok (tx_data (tx_request data len toa)) len \<longleftrightarrow> wire_ok data len"
  using assms unat_u8_less [of len] wire_ok_cong [of len "tx_data (tx_request data len toa)" data]
  by (simp_all add: tx_request_def)

lemma decoded_header [simp]:
  "decoded (h\<lparr>h_dst_id := a\<rparr>) plo \<longleftrightarrow> decoded h plo" "decoded (h\<lparr>h_ttl := b\<rparr>) plo \<longleftrightarrow> decoded h plo"
  "decoded (h\<lparr>h_hop := c\<rparr>) plo \<longleftrightarrow> decoded h plo" "decoded (h\<lparr>h_pkt_id := i\<rparr>) plo \<longleftrightarrow> decoded h plo"
  "decoded (h\<lparr>h_flags := f\<rparr>) plo \<longleftrightarrow> decoded h plo" "decoded (h\<lparr>h_net_id := w\<rparr>) plo \<longleftrightarrow> decoded h plo"
  "decoded (h\<lparr>h_loop_guard := g\<rparr>) plo \<longleftrightarrow> decoded h plo"
  by (simp_all add: decoded_def split: option.split)

lemma ack_req_patch:
  assumes ok: "wire_ok d len" and len: "length d = 255"
  shows "wire_ok (sink_set_ack_req d) len" "length (sink_set_ack_req d) = 255"
    "sink_set_ack_req d ! 21 = d ! 21"
    "unpack_header_from_wire (sink_set_ack_req d) (d ! 21) =
       (unpack_header_from_wire d (d ! 21))\<lparr>h_flags := d ! 4 OR PKT_FLAG_ACK_REQ\<rparr>"
    "take (unat (d ! 21)) (drop 23 (sink_set_ack_req d)) = take (unat (d ! 21)) (drop 23 d)"
proof -
  let ?n = "unat (d ! 21)" and ?e = "d[4 := d ! 4 OR PKT_FLAG_ACK_REQ]"
  let ?crc = "foldl crc16_step 0xFFFF (take (23 + ?n) ?e)"
  have n: "?n \<le> 230" using ok by (simp add: wire_ok_def word_le_nat_alt)
  have u: "unat (RIVR_PKT_HDR_LEN + d ! 21) = 23 + ?n" using n by (intro unat_data_len) (simp add: word_le_nat_alt)
  have e21: "?e ! 21 = d ! 21" by simp
  have eq: "sink_set_ack_req d = ?e[23 + ?n := ucast ?crc, 24 + ?n := ucast (drop_bit 8 ?crc)]"
    using u by (simp add: sink_set_ack_req_def Let_def protocol_crc16_def ucast_and_ff e21)
  show "wire_ok (sink_set_ack_req d) len"
    using ok n len by (simp add: eq wire_ok_def take_update_cancel wire_simps)
  show "length (sink_set_ack_req d) = 255" using len by (simp add: eq)
  show "sink_set_ack_req d ! 21 = d ! 21" using n len by (simp add: eq)
  show "unpack_header_from_wire (sink_set_ack_req d) (d ! 21) =
       (unpack_header_from_wire d (d ! 21))\<lparr>h_flags := d ! 4 OR PKT_FLAG_ACK_REQ\<rparr>"
    using n len by (simp add: eq unpack_header_from_wire_def)
  show "take ?n (drop 23 (sink_set_ack_req d)) = take ?n (drop 23 d)"
    using n len by (intro nth_equalityI) (simp_all add: eq)
qed

lemma wf_req_request [simp]: "unat len \<le> length data \<Longrightarrow> wf_req (tx_request data len toa) \<longleftrightarrow> wire_ok data len"
  using tx_request_data [of len data toa] by (simp add: wf_req_def)

lemma wf_req_toa [simp]: "wf_req (r\<lparr>tx_toa_us := t\<rparr>) \<longleftrightarrow> wf_req r" "wf_req (r\<lparr>tx_due_ms := t\<rparr>) \<longleftrightarrow> wf_req r"
  by (simp_all add: wf_req_def)

lemma get_hdr_pkt_id: "h_pkt_id (unpack_header_from_wire d k) = get_u16 (d ! 19) (d ! 20)"
  by (simp add: unpack_header_from_wire_def)

text \<open>What \<open>encode_decoded\<close> puts into a request.\<close>

lemma encoded_request:
  assumes d: "decoded h plo" and out: "length out = 255"
  shows "wf_req \<lparr>tx_data = frame_of h (payload_of plo) @ drop (25 + unat (h_payload_len h)) out,
      tx_len = word_of_int (25 + int (unat (h_payload_len h))), tx_toa_us = toa, tx_due_ms = due\<rparr>"
  unfolding wf_req_def rf_tx_request_t.simps
  by (intro conjI encode_decoded(5) [OF d out] encode_decoded(4) [OF d out])

lemma frame_of_header:
  assumes d: "decoded h plo" and m: "h_magic h = RIVR_MAGIC" "h_version h = RIVR_PROTO_VER"
  shows "protocol_decode mt (frame_of h (payload_of plo) @ rest) (word_of_int (25 + int (unat (h_payload_len h)))) =
    (mt, Some (h, plo))"
proof -
  note l = decoded_length [OF d] and u = encode_decoded(3) [OF d length_replicate]
  have p: "length (payload_of plo) \<le> 230" using l d by (simp add: decoded_def)
  have "of_nat (length (payload_of plo)) = h_payload_len h" using l by simp
  moreover have "(if payload_of plo = [] then None else Some (payload_of plo)) = plo"
    using d by (simp add: decoded_def split: option.splits)
  moreover have "h\<lparr>h_magic := RIVR_MAGIC, h_version := RIVR_PROTO_VER, h_payload_len := h_payload_len h\<rparr> = h"
    using m by simp
  moreover have "25 + length (payload_of plo) \<le> unat (word_of_int (25 + int (unat (h_payload_len h))) :: u8)"
    by (simp only: u l order_refl)
  ultimately show ?thesis
    using frame_of_decodes [OF p, of h _ mt rest] d by (simp only: decoded_def)
qed

text \<open>The request that \<open>sink_unicast\<close> hands back.\<close>

definition unicast_hdr :: "rivr_pkt_hdr_t \<Rightarrow> u32 \<Rightarrow> rivr_pkt_hdr_t" where
  "unicast_hdr pkt nh = pkt\<lparr>h_dst_id := nh, h_ttl := 1,
     h_flags := (if sink_needs_ack (h_pkt_type pkt) then h_flags pkt OR PKT_FLAG_ACK_REQ else h_flags pkt)\<rparr>"

lemma unpack_frame_of:
  assumes d: "decoded h plo"
  shows "(frame_of h (payload_of plo) @ rest) ! 21 = h_payload_len h"
    "take (unat (h_payload_len h)) (drop 23 (frame_of h (payload_of plo) @ rest)) = payload_of plo"
    "(frame_of h (payload_of plo) @ rest) ! 4 = h_flags h"
    "unpack_header_from_wire (frame_of h (payload_of plo) @ rest) (h_payload_len h) =
       h\<lparr>h_magic := RIVR_MAGIC, h_version := RIVR_PROTO_VER\<rparr>"
proof -
  note l = decoded_length [OF d]
  have n: "of_nat (length (payload_of plo)) = h_payload_len h" using l by simp
  show "(frame_of h (payload_of plo) @ rest) ! 21 = h_payload_len h"
    unfolding frame_of_def Let_def n by (simp add: nth_append)
  show "take (unat (h_payload_len h)) (drop 23 (frame_of h (payload_of plo) @ rest)) = payload_of plo"
    unfolding frame_of_def Let_def n by (simp flip: l)
  show "(frame_of h (payload_of plo) @ rest) ! 4 = h_flags h"
    unfolding frame_of_def Let_def n by (simp add: nth_append header_bytes_eq)
  show "unpack_header_from_wire (frame_of h (payload_of plo) @ rest) (h_payload_len h) =
       h\<lparr>h_magic := RIVR_MAGIC, h_version := RIVR_PROTO_VER\<rparr>"
    unfolding frame_of_def Let_def n append_assoc by (simp add: unpack_header_bytes)
qed

lemma sink_unicast_spec:
  assumes d: "decoded pkt plo" and m: "h_magic pkt = RIVR_MAGIC" "h_version pkt = RIVR_PROTO_VER"
    and len: "length (tx_data req) = 255"
    and run: "sink_unicast cfg now pkt (payload_of plo) (h_payload_len pkt) nh req n = (req1, n1)"
  shows "wf_req req1" "protocol_decode mt (tx_data req1) (tx_len req1) = (mt, Some (unicast_hdr pkt nh, plo))"
    "keeps cfg P n n1"
proof -
  let ?h = "pkt\<lparr>h_dst_id := nh, h_ttl := 1\<rparr>"
  let ?k = "unat (h_payload_len pkt)"
  let ?out = "frame_of ?h (payload_of plo) @ drop (25 + ?k) (tx_data req)"
  let ?len = "word_of_int (25 + int ?k) :: u8"
  have dh: "decoded ?h plo" using d by simp
  have enc: "protocol_encode ?h (Some (payload_of plo)) (h_payload_len pkt) (tx_data req) 255 = (25 + int ?k, ?out)"
    using encode_decoded(1) [OF dh len] by simp
  have ok: "wire_ok ?out ?len" and lo: "length ?out = 255"
    using encode_decoded(4,5) [OF dh len] by simp_all
  note up = unpack_frame_of [OF dh, of "drop (25 + ?k) (tx_data req)", simplified rivr_pkt_hdr_t.simps]
  note patch = ack_req_patch [OF ok lo]
  have pos: "\<not> 25 + int ?k \<le> 0" by linarith
  show w: "wf_req req1"
    using run ok lo patch(1,2) unfolding sink_unicast_def enc Let_def prod.case if_not_P [OF pos]
    by (auto simp: wf_req_def split: if_splits prod.splits)
  have r: "tx_len req1 = ?len" "tx_data req1 = (if sink_needs_ack (h_pkt_type pkt) then sink_set_ack_req ?out else ?out)"
    using run unfolding sink_unicast_def enc Let_def prod.case if_not_P [OF pos]
    by (auto split: if_splits prod.splits)
  have dec: "tx_data req1 ! 21 = h_payload_len pkt" "take ?k (drop 23 (tx_data req1)) = payload_of plo"
    "unpack_header_from_wire (tx_data req1) (h_payload_len pkt) = unicast_hdr pkt nh"
    using up patch(3-5) m by (simp_all add: r unicast_hdr_def)
  have plo: "0 < h_payload_len pkt \<Longrightarrow> Some (payload_of plo) = plo" "\<not> 0 < h_payload_len pkt \<Longrightarrow> plo = None"
    using d by (auto simp: decoded_def word_gt_0 split: option.splits)
  have wr: "wire_ok (tx_data req1) (tx_len req1)" using w by (simp add: wf_req_def)
  show "protocol_decode mt (tx_data req1) (tx_len req1) = (mt, Some (unicast_hdr pkt nh, plo))"
    using protocol_decode_ok [of mt "tx_data req1" "tx_len req1"] protocol_decode_metrics [OF wr, of mt] wr plo
    by (intro prod_eqI) (auto simp: dec)
  show "keeps cfg P n n1"
  proof (rule keepsI)
    assume n: "node_ok cfg n"
    have pid: "get_u16 (sink_set_ack_req ?out ! 19) (sink_set_ack_req ?out ! 20) = h_pkt_id pkt"
      using arg_cong [OF patch(4), of h_pkt_id] arg_cong [OF up(4), of h_pkt_id] by (simp add: get_hdr_pkt_id)
    have "retry_ok (nc_role cfg) (nd_retry n)" using n by (simp add: node_ok_def)
    from retry_enqueue_ok [OF this _ patch(1) pid] patch(2)
    have "retry_ok (nc_role cfg) (fst (snd (retry_table_enqueue (nc_role cfg) (ts_metrics n) (nd_retry n) (nc_my_id cfg)
        (h_pkt_id pkt) (h_dst_id pkt) nh (sink_set_ack_req ?out) ?len (node_toa cfg ?len) now)))"
      using unat_u8_less [of ?len] by simp
    with run n show "kept cfg P n n1"
      unfolding sink_unicast_def enc Let_def prod.case if_not_P [OF pos]
      by (auto simp: node_ok_def split: if_splits prod.splits)
  qed
qed

lemma sink_route_request_keeps:
  assumes req: "wf_req req" and P: "\<And>r. wf_req r \<Longrightarrow> P r"
  shows "keeps cfg P n (sink_route_request cfg now pkt req n)"
proof -
  obtain m1 pq1 pend where pe: "pending_queue_enqueue (ts_metrics n) (nd_pending n) (h_dst_id pkt) (tx_data req)
      (tx_len req) (tx_toa_us req) now = (m1, pq1, pend)" by (metis prod_cases3)
  define n1 where "n1 = next_ctrl_seq (n\<lparr>ts_metrics := m1, nd_pending := pq1\<rparr>)"
  have k1: "keeps cfg P n n1"
  proof (rule keepsI)
    assume n: "node_ok cfg n"
    have "pending_ok pq1"
      using pending_enqueue_ok [of "nd_pending n" "tx_data req" "tx_len req" "ts_metrics n" "h_dst_id pkt" "tx_toa_us req" now]
        n req pe unat_u8_less [of "tx_len req"] by (simp add: node_ok_def wf_req_def)
    with n show "kept cfg P n n1"
      by (simp add: n1_def next_ctrl_seq_def node_ok_def)
  qed
  let ?seq = "ucast (nd_ctrl_seq n1) :: u16"
  let ?h = "control_hdr PKT_ROUTE_REQ (nc_my_id cfg) (h_dst_id pkt) ?seq ?seq 0"
  have p0: "protocol_encode ?h None 0 (replicate 25 0) 25 = (25, frame_of ?h [])"
    using protocol_encode_no_payload [of ?h "replicate 25 0" 25] protocol_encode_frame [of "[]" 0 25 ?h "replicate 25 0"] by simp
  have wf: "P (tx_request (frame_of ?h []) 25 toa)" for toa
    using frame_of_wire_ok [of "[]" ?h 25 "[]"] by (intro P) (simp add: control_hdr_def)
  obtain ok n2 where push: "node_push (tx_request (frame_of ?h []) 25 (node_toa cfg 25)) n1 = (ok, n2)" by fastforce
  have k2: "keeps cfg P n n2" by (rule keeps_trans [OF k1 keeps_push [where P = P, OF wf push]])
  show ?thesis
    unfolding sink_route_request_def pe prod.case n1_def [symmetric] Let_def routing_build_route_req_def p0
    using push k2 keeps_trans [OF k2 keeps_peak] keeps_trans [OF k2 keeps_count]
      keeps_trans [OF keeps_trans [OF k2 keeps_count] keeps_peak] by auto
qed

lemma sink_fallback_keeps:
  assumes d: "decoded pkt plo" and len: "length (tx_data req) = 255" and P: "\<And>r. wf_req r \<Longrightarrow> P r"
    and run: "sink_fallback cfg pkt (payload_of plo) (h_payload_len pkt) req n = (ok, n')"
  shows "keeps cfg P n n'"
proof -
  let ?n1 = "next_ctrl_seq n"
  let ?fb = "pkt\<lparr>h_dst_id := 0, h_ttl := RIVR_FALLBACK_TTL, h_hop := 0, h_pkt_id := ucast (nd_ctrl_seq ?n1),
                   h_flags := (h_flags pkt AND NOT PKT_FLAG_RELAY) OR PKT_FLAG_FALLBACK\<rparr>"
  let ?k = "unat (h_payload_len pkt)"
  have df: "decoded ?fb plo" using d by simp
  have pl: "h_payload_len ?fb = h_payload_len pkt" by simp
  note enc = encode_decoded(1) [OF df len, unfolded pl]
  note wf = encoded_request [OF df len, unfolded pl]
  have pos: "\<not> 25 + int ?k \<le> 0" by linarith
  obtain o1 n2 where push: "node_push (req\<lparr>tx_data := frame_of ?fb (payload_of plo) @ drop (25 + ?k) (tx_data req),
      tx_len := word_of_int (25 + int ?k), tx_toa_us := node_toa cfg (word_of_int (25 + int ?k))\<rparr>) ?n1 = (o1, n2)" by fastforce
  have "wf_req (req\<lparr>tx_data := frame_of ?fb (payload_of plo) @ drop (25 + ?k) (tx_data req),
      tx_len := word_of_int (25 + int ?k), tx_toa_us := node_toa cfg (word_of_int (25 + int ?k))\<rparr>)"
    using wf by (simp add: wf_req_def)
  then have k2: "keeps cfg P n n2"
    by (intro keeps_trans [OF keeps_seq keeps_push [where P = P, OF _ push]] P)
  then show ?thesis
    using run unfolding sink_fallback_def Let_def enc prod.case if_not_P [OF pos] push
    using k2 by (auto intro: keeps_trans)
qed

lemma sink_finish_keeps [simp]: "keeps cfg P n (sink_finish pushed dec n)"
  by (auto simp: sink_finish_def count_originated_def keeps_def node_ok_def UPDATE_TXQ_PEAK_def node_count_def
      budget_shape_def split: option.split)

text \<open>The bytes branch. A frame that does not decode is queued as it is.\<close>

abbreviation sink_len :: "u8 list \<Rightarrow> u8" where
  "sink_len bytes \<equiv> of_nat (min (length bytes) 255)"

definition opt_ntable_ok :: "rivr_neighbor_table_t option \<Rightarrow> bool" where
  "opt_ntable_ok t \<longleftrightarrow> (case t of None \<Rightarrow> True | Some t \<Rightarrow> ntable_ok t)"

lemma entry_composite_score_ntable:
  "opt_ntable_ok t \<Longrightarrow> opt_ntable_ok (snd (entry_composite_score role e t now))"
  using neighbor_find_ok
  by (auto simp: entry_composite_score_def opt_ntable_ok_def Let_def split: option.splits prod.splits)
     (metis snd_conv)+

lemma best_hop_scan_ntable:
  "opt_ntable_ok t \<Longrightarrow> best_hop_scan role dst now t es best score = (b, s, t', es') \<Longrightarrow> opt_ntable_ok t'"
proof (induction es arbitrary: t best score b s t' es')
  case (Cons e es)
  then show ?case
    using entry_composite_score_ntable [OF Cons.prems(1), of role "snd (expire_entry e now)" now]
    by (auto simp: Let_def split: prod.splits if_splits)
qed simp

lemma route_step_keeps:
  assumes "route_cache_best_hop (nc_role cfg) (ts_metrics n) (nd_routes n) (Some (nd_ntable n)) dst now = (m1, rc1, nt1, route)"
  shows "keeps cfg P n (n\<lparr>ts_metrics := m1, nd_routes := rc1, nd_ntable := (case nt1 of None \<Rightarrow> nd_ntable n | Some t \<Rightarrow> t)\<rparr>)"
proof (rule keepsI)
  assume n: "node_ok cfg n"
  have rc: "rcache_ok (nc_role cfg) rc1"
    using route_cache_best_hop_ok [of "nc_role cfg" "nd_routes n" "nc_role cfg" "ts_metrics n" "Some (nd_ntable n)" dst now] assms n
    by (simp add: node_ok_def)
  obtain b s t es where e: "best_hop_scan (nc_role cfg) dst now (Some (nd_ntable n)) (rc_entries (nd_routes n)) None 0 = (b, s, t, es)"
    by (metis prod_cases4)
  have "nt1 = (if dst = 0 then Some (nd_ntable n) else t)"
    using assms by (auto simp: route_cache_best_hop_def e Let_def split: option.splits if_splits)
  moreover have "opt_ntable_ok t" using best_hop_scan_ntable [OF _ e] n by (simp add: opt_ntable_ok_def node_ok_def)
  ultimately have "opt_ntable_ok nt1" using n by (simp add: opt_ntable_ok_def node_ok_def)
  with rc n show "kept cfg P n (n\<lparr>ts_metrics := m1, nd_routes := rc1,
      nd_ntable := (case nt1 of None \<Rightarrow> nd_ntable n | Some t \<Rightarrow> t)\<rparr>)"
    by (auto simp: node_ok_def opt_ntable_ok_def split: option.splits)
qed

lemma sink_bytes_keeps:
  assumes P: "\<And>r. wf_req r \<Longrightarrow> P r"
    and raw: "\<not> wire_ok bytes (sink_len bytes) \<Longrightarrow> P (tx_request bytes (sink_len bytes) (node_toa cfg (sink_len bytes)))"
  shows "keeps cfg P n0 (sink_bytes cfg now bytes n0)"
proof -
  let ?req = "tx_request bytes (sink_len bytes) (node_toa cfg (sink_len bytes))"
  have lb: "unat (sink_len bytes) \<le> length bytes" by (simp add: unat_of_nat)
  note rd = tx_request_data [OF lb, of "node_toa cfg (sink_len bytes)"]
  obtain dec n where dec: "node_decode (tx_data ?req) (sink_len bytes) n0 = (dec, n)" by fastforce
  note k0 = keeps_decode [OF dec, of cfg P]
  have Preq: "P ?req" if "dec = None"
    using that dec protocol_decode_ok [of "ts_metrics n0" "tx_data ?req" "sink_len bytes"] rd(4)
    by (intro raw) (auto simp: node_decode_def split: prod.splits if_splits)
  show ?thesis
  proof (cases dec)
    case None
    obtain ok n1 where push: "node_push ?req n = (ok, n1)" by fastforce
    have "keeps cfg P n n1" by (rule keeps_push [where P = P, OF Preq [OF None] push])
    with k0 show ?thesis
      unfolding sink_bytes_def Let_def rd(2) dec None prod.case option.case push
      by (blast intro: keeps_trans sink_finish_keeps)
  next
    case (Some hp)
    obtain pkt plo where hp: "hp = (pkt, plo)" by fastforce
    have pd: "protocol_decode (ts_metrics n0) (tx_data ?req) (sink_len bytes) = (ts_metrics n, Some (pkt, plo))"
      using dec Some hp by (auto simp: node_decode_def split: prod.splits)
    have lt: "unat (sink_len bytes) \<le> length (tx_data ?req)" using rd(1) unat_u8_less [of "sink_len bytes"] by simp
    note dd = decode_decoded [OF pd lt]
    have d: "decoded pkt plo" and wok: "wire_ok (tx_data ?req) (sink_len bytes)"
      and hdr: "pkt = unpack_header_from_wire (tx_data ?req) (tx_data ?req ! 21)"
      using dd by blast+
    have wf: "wf_req ?req" unfolding wf_req_def rd(2) by (intro conjI rd(1) wok)
    have m: "h_magic pkt = RIVR_MAGIC" "h_version pkt = RIVR_PROTO_VER"
      using unpack_header_wire_ok [OF wok, of "tx_data ?req ! 21"] unfolding hdr by blast+
    have pl: "of_nat (length (payload_of plo)) = h_payload_len pkt" using decoded_length [OF d] by simp
    show ?thesis
    proof (cases "h_dst_id pkt = 0")
      case True
      obtain ok n1 where push: "node_push ?req n = (ok, n1)" by fastforce
      have "keeps cfg P n n1" by (rule keeps_push [where P = P, OF P [OF wf] push])
      with k0 show ?thesis
        unfolding sink_bytes_def Let_def rd(2) dec Some hp prod.case option.case push if_P [OF True]
        by (blast intro: keeps_trans sink_finish_keeps)
    next
      case False
      obtain m1 rc1 nt1 route where bh: "route_cache_best_hop (nc_role cfg) (ts_metrics n) (nd_routes n) (Some (nd_ntable n))
          (h_dst_id pkt) now = (m1, rc1, nt1, route)" by (metis prod_cases4)
      define n1 where "n1 = n\<lparr>ts_metrics := m1, nd_routes := rc1, nd_ntable := (case nt1 of None \<Rightarrow> nd_ntable n | Some t \<Rightarrow> t)\<rparr>"
      have k1: "keeps cfg P n0 n1"
        unfolding n1_def by (rule keeps_trans [OF k0 route_step_keeps [OF bh]])
      show ?thesis
      proof (cases route)
        case None
        show ?thesis
          unfolding sink_bytes_def Let_def rd(2) dec Some hp prod.case option.case if_not_P [OF False] bh None n1_def [symmetric]
          by (rule keeps_trans [OF k1 sink_route_request_keeps [OF wf P]])
      next
        case (Some chosen)
        obtain req1 n2 where uc: "sink_unicast cfg now pkt (payload_of plo) (h_payload_len pkt) (rt_next_hop_id chosen) ?req n1 = (req1, n2)"
          by fastforce
        note us = sink_unicast_spec [OF d m rd(1) uc]
        obtain pushed n3 where push: "node_push req1 n2 = (pushed, n3)" by fastforce
        have k3: "keeps cfg P n0 n3"
          by (rule keeps_trans [OF keeps_trans [OF k1 us(3)] keeps_push [where P = P, OF P [OF us(1)] push]])
        obtain ok n4 where fb: "sink_fallback cfg pkt (payload_of plo) (h_payload_len pkt) req1 n3 = (ok, n4)" by fastforce
        have "keeps cfg P n3 n4"
          using us(1) by (intro sink_fallback_keeps [OF d _ P fb]) (simp add: wf_req_def)
        with k3 have "keeps cfg P n0 n4" by (rule keeps_trans)
        with k3 show ?thesis
          unfolding sink_bytes_def Let_def rd(2) dec \<open>dec = Some hp\<close> hp prod.case option.case if_not_P [OF False] bh Some n1_def [symmetric]
            pl uc push fb
          by (auto intro: keeps_trans)
      qed
    qed
  qed
qed

lemma sink_text_keeps: "(\<And>r. P r) \<Longrightarrow> keeps cfg P n (sink_text cfg s n)"
  by (auto simp: sink_text_def Let_def split: prod.splits
      intro: keeps_trans [OF keeps_push [where P = P]] keeps_trans [OF keeps_trans [OF keeps_push [where P = P] keeps_peak]])

theorem rf_tx_sink_keeps: "keeps cfg (\<lambda>_. True) n (rf_tx_sink_cb cfg now v n)"
  by (cases v) (simp_all add: rf_tx_sink_cb_def sink_text_keeps sink_bytes_keeps)

section \<open>The beacon\<close>

lemma length_beacon_payload: "length (beacon_payload cfg role) = (if beacon_has_pos cfg then 20 else 12)"
  by (simp add: beacon_payload_def Let_def put_u32_def)

lemma do_beacon_tx_keeps:
  assumes P: "\<And>r. wf_req r \<Longrightarrow> P r" shows "keeps cfg P n0 (do_beacon_tx cfg n0)"
proof -
  define n where "n = next_ctrl_seq n0"
  define payload where "payload = beacon_payload cfg (pp_role (rp_params (nd_params n)))"
  let ?plen = "of_nat (length payload) :: u8"
  define hdr where "hdr = \<lparr>h_magic = RIVR_MAGIC, h_version = RIVR_PROTO_VER, h_pkt_type = PKT_BEACON,
                 h_flags = (if beacon_has_pos cfg then PKT_FLAG_HAS_POS else 0), h_ttl = RIVR_PKT_DEFAULT_TTL, h_hop = 0,
                 h_net_id = nc_net_id cfg, h_src_id = nc_my_id cfg, h_dst_id = 0, h_seq = ucast (nd_ctrl_seq n),
                 h_pkt_id = ucast (nd_ctrl_seq n), h_payload_len = ?plen, h_loop_guard = 0\<rparr>"
  have l: "unat ?plen = length payload" "length payload \<le> 230" "payload \<noteq> []"
    using length_beacon_payload [of cfg "pp_role (rp_params (nd_params n))"] by (auto simp: payload_def unat_of_nat split: if_splits)
  have d: "decoded hdr (Some payload)" using l by (simp add: decoded_def hdr_def)
  have out: "length (replicate 255 (0 :: u8)) = 255" by simp
  have pl: "h_payload_len hdr = ?plen" by (simp add: hdr_def)
  note enc = encode_decoded(2) [OF d out, unfolded pl option.case]
  note wf = encoded_request [OF d out, unfolded pl option.case]
  have pos: "\<not> 25 + int (unat ?plen) \<le> 0" by linarith
  have k: "keeps cfg P n0 n" by (simp add: n_def)
  obtain ok n1 where push: "node_push \<lparr>tx_data = frame_of hdr payload @ drop (25 + unat ?plen) (replicate 255 0),
      tx_len = word_of_int (25 + int (unat ?plen)), tx_toa_us = node_toa cfg (word_of_int (25 + int (unat ?plen))),
      tx_due_ms = 0\<rparr> n = (ok, n1)" by fastforce
  have "keeps cfg P n0 n1" by (rule keeps_trans [OF k keeps_push [where P = P, OF P [OF wf] push]])
  then show ?thesis
    unfolding do_beacon_tx_def Let_def n_def [symmetric] payload_def [symmetric] hdr_def [symmetric] enc prod.case
      if_not_P [OF pos] push
    by (auto intro: keeps_trans)
qed

lemma beacon_sink_keeps: "(\<And>r. wf_req r \<Longrightarrow> P r) \<Longrightarrow> keeps cfg P n (beacon_sink_cb cfg now n)"
proof -
  assume P: "\<And>r. wf_req r \<Longrightarrow> P r"
  have s: "keeps cfg P n (n\<lparr>nd_beacon := s1\<rparr>)" for s1 by (simp add: keeps_def node_ok_def)
  note t = keeps_trans [OF s do_beacon_tx_keeps [where P = P, OF P]]
  show ?thesis
    by (auto simp: beacon_sink_cb_def Let_def split: prod.split beacon_sched_result_t.split
        intro: keeps_trans [OF t] keeps_trans [OF keeps_trans [OF t]] keeps_trans [OF s] keeps_count)
qed

lemma rivr_sinks_init_keeps: "(\<And>r. wf_req r \<Longrightarrow> P r) \<Longrightarrow> keeps cfg P n (rivr_sinks_init cfg now n)"
proof -
  assume P: "\<And>r. wf_req r \<Longrightarrow> P r"
  have s: "keeps cfg P n (n\<lparr>nd_beacon := s1\<rparr>)" for s1 by (simp add: keeps_def node_ok_def)
  show ?thesis
    unfolding rivr_sinks_init_def
    by (rule keeps_trans [OF keeps_trans [OF keeps_trans [OF s do_beacon_tx_keeps [where P = P, OF P]] keeps_count] keeps_count])
qed

end
