(* ===== verification/Rivr_Sources.thy ===== *)
theory Rivr_Sources
  imports Rivr_Sinks
begin

unbundle bit_operations_syntax

text \<open>
  The receive pipeline (rivr_layer/rivr_sources.c): what a node does with a frame from its receive
  ring, from the BLE origination shortcut over validation, the network filter, the packet bus, the
  flood decision and the learning of routes to the handlers of the packet types, the events for the
  Rivr engine and the relay stage; and the timer sources. The alternative RML format, which default
  builds leave out, is not modelled; the engine's own reactions reach the node through the sinks.
  The lemmas show that every handler keeps the node well formed, puts only well-formed frames into
  the transmit queue and takes nothing from the receive ring.
\<close>

section \<open>Origination by the companion app\<close>

definition origin_normalize :: "node_cfg \<Rightarrow> rivr_pkt_hdr_t \<Rightarrow> node_t \<Rightarrow> rivr_pkt_hdr_t \<times> node_t" where
  "origin_normalize cfg hdr n =
     (let h1 = (if h_dst_id hdr = 0xFFFFFFFF then hdr\<lparr>h_dst_id := 0\<rparr> else hdr);
          h2 = (if h_net_id h1 = 0 then h1\<lparr>h_net_id := nc_net_id cfg\<rparr> else h1);
          n1 = (if h_pkt_id h2 = 0 then next_ctrl_seq n else n);
          h3 = (if h_pkt_id h2 = 0 then h2\<lparr>h_pkt_id := ucast (nd_ctrl_seq n1)\<rparr> else h2)
      in (h3\<lparr>h_hop := 0, h_loop_guard := 0,
             h_flags := h_flags h3 AND NOT (PKT_FLAG_RELAY OR PKT_FLAG_FALLBACK)\<rparr>, n1))"

text \<open>True when the frame came from the app and is thereby dealt with.\<close>

definition source_handle_ble_origination :: "node_cfg \<Rightarrow> rf_rx_frame_t \<Rightarrow> u32 \<Rightarrow> node_t \<Rightarrow> bool \<times> node_t" where
  "source_handle_ble_origination cfg frame now n0 =
     (if fr_iface frame \<noteq> RIVR_IFACE_BLE then (False, n0)
      else case node_decode (fr_data frame) (fr_len frame) n0 of
        (None, n) \<Rightarrow> (True, node_count ble_errors n)
      | (Some (hdr, plo), n) \<Rightarrow>
          if h_src_id hdr = 0 then (True, node_count ble_errors n)
          else case rivr_policy_allow_origination (h_pkt_type hdr) now (nd_params n) of
            (allowed, ps) \<Rightarrow>
              let n1 = n\<lparr>nd_params := ps\<rparr>
              in if \<not> allowed then (True, n1)
                 else case origin_normalize cfg hdr n1 of
                   (hdr1, n2) \<Rightarrow>
                     (case protocol_encode hdr1 plo (h_payload_len hdr1) (replicate 255 0) RF_MAX_PAYLOAD_LEN of
                        (enc, out) \<Rightarrow>
                          if enc \<le> 0 then (True, node_count ble_errors n2)
                          else (True, rf_tx_sink_cb cfg now (RIVR_VAL_BYTES (take (nat enc) out)) n2)))"

section \<open>Learning from a frame\<close>

definition rx_sender :: "rf_rx_frame_t \<Rightarrow> rivr_pkt_hdr_t \<Rightarrow> u32" where
  "rx_sender frame pkt = (if fr_from_id frame = 0 \<and> h_hop pkt = 0 then h_src_id pkt else fr_from_id frame)"

definition rx_learn :: "node_cfg \<Rightarrow> u32 \<Rightarrow> rf_rx_frame_t \<Rightarrow> rivr_pkt_hdr_t \<Rightarrow> node_t \<Rightarrow> node_t" where
  "rx_learn cfg now frame pkt n =
     (let from_id = rx_sender frame pkt;
          nbrs = routing_neighbor_update (nd_nbrs n) pkt (ucast (fr_rssi_dbm frame)) (fr_snr_db frame) now;
          nt = fst (neighbor_update (nd_ntable n) (h_src_id pkt) (fr_rssi_dbm frame) (fr_snr_db frame)
                      (h_hop pkt) (h_seq pkt) (fr_len frame) now)
      in case route_cache_learn_rx (nc_role cfg) (ts_metrics n) (nd_routes n) (h_src_id pkt) from_id (h_hop pkt)
                (fr_rssi_dbm frame) (fr_snr_db frame) now of
           (m1, rc1) \<Rightarrow>
             let n1 = n\<lparr>ts_metrics := m1, nd_nbrs := nbrs, nd_ntable := nt, nd_routes := rc1\<rparr>
             in if from_id = 0 then n1
                else case route_cache_tx_decide (ts_metrics n1) (nd_routes n1) (h_src_id pkt) now of
                  (m2, rc2, _, _) \<Rightarrow>
                    (case route_cache_lookup m2 rc2 (h_src_id pkt) now of
                       (m3, rc3, _) \<Rightarrow> n1\<lparr>ts_metrics := m3, nd_routes := rc3\<rparr>))"

section \<open>The handlers of the packet types\<close>

definition rx_handle_ack :: "rivr_pkt_hdr_t \<Rightarrow> u8 list option \<Rightarrow> node_t \<Rightarrow> node_t" where
  "rx_handle_ack pkt plo n0 =
     (let n = node_count ack_rx_total n0
      in case plo of
           Some p \<Rightarrow>
             if h_payload_len pkt \<ge> ACK_PAYLOAD_LEN then
               (case retry_table_ack (nd_retry n) (get_u32 (p ! 0) (p ! 1) (p ! 2) (p ! 3)) (get_u16 (p ! 4) (p ! 5)) of
                  (cleared, rt1) \<Rightarrow>
                    let n1 = n\<lparr>nd_retry := rt1\<rparr> in if cleared then node_count retry_success_total n1 else n1)
             else n
         | None \<Rightarrow> n)"

definition rx_send_ack :: "node_cfg \<Rightarrow> rivr_pkt_hdr_t \<Rightarrow> node_t \<Rightarrow> node_t" where
  "rx_send_ack cfg pkt n0 =
     (if h_flags pkt AND PKT_FLAG_ACK_REQ \<noteq> 0 \<and> h_dst_id pkt = nc_my_id cfg then
        let n = next_ctrl_seq n0; seq = (ucast (nd_ctrl_seq n) :: u16)
        in case routing_build_ack (nc_my_id cfg) (h_src_id pkt) (h_src_id pkt) (h_pkt_id pkt) seq seq (replicate 31 0) 31 of
             (ack_len, buf) \<Rightarrow>
               if ack_len \<le> 0 then n
               else case node_push (tx_request buf (word_of_int ack_len) (node_toa cfg (word_of_int ack_len))) n of
                      (ok, n1) \<Rightarrow> if ok then node_count ack_tx_total n1 else n1
      else n0)"

definition nbr_entry_of :: "neighbor_table_t \<Rightarrow> u32 \<Rightarrow> neighbor_entry_t option" where
  "nbr_entry_of tbl src =
     (case find_idx (\<lambda>i. case routing_neighbor_get tbl i of None \<Rightarrow> False | Some e \<Rightarrow> ne_node_id e = src)
             (map of_nat [0..<NEIGHBOR_TABLE_SIZE]) of
        None \<Rightarrow> None
      | Some i \<Rightarrow> routing_neighbor_get tbl (of_nat i))"

definition rx_handle_beacon :: "u32 \<Rightarrow> rf_rx_frame_t \<Rightarrow> rivr_pkt_hdr_t \<Rightarrow> u8 list option \<Rightarrow> node_t \<Rightarrow> node_t" where
  "rx_handle_beacon now frame pkt plo n =
     (let src = h_src_id pkt;
          full = (case plo of Some p \<Rightarrow> if h_payload_len pkt \<ge> 12 then Some p else None | None \<Rightarrow> None);
          callsign = (case full of Some p \<Rightarrow> c_str (take 10 p) | None \<Rightarrow> []);
          role = (case full of Some p \<Rightarrow> p ! 11 | None \<Rightarrow> 0);
          nbrs = routing_neighbor_set_role (routing_neighbor_set_callsign (nd_nbrs n) src callsign) src role;
          nt = (case plo of
                  Some p \<Rightarrow> if h_flags pkt AND PKT_FLAG_HAS_POS \<noteq> 0 \<and> h_payload_len pkt \<ge> 20
                             then neighbor_set_position (nd_ntable n) src (get_u32 (p ! 12) (p ! 13) (p ! 14) (p ! 15))
                                    (get_u32 (p ! 16) (p ! 17) (p ! 18) (p ! 19))
                             else nd_ntable n
                | None \<Rightarrow> nd_ntable n);
          entry = (case nbr_entry_of nbrs src of Some e \<Rightarrow> Some e | None \<Rightarrow> routing_neighbor_get nbrs 0);
          push_score = (case entry of Some e \<Rightarrow> routing_neighbor_link_score e now | None \<Rightarrow> 0);
          line_score = (case nbr_entry_of nbrs src of Some e \<Rightarrow> routing_neighbor_link_score e now | None \<Rightarrow> 0)
      in case neighbor_find nt src now of
           (found, nt1) \<Rightarrow>
             (case neighbor_find nt1 src now of
                (found2, nt2) \<Rightarrow>
                  let pos = (\<lambda>f. case f of Some e \<Rightarrow> (nb_lat_e7 e, nb_lon_e7 e) | None \<Rightarrow> (INT32_MIN, INT32_MIN))
                  in n\<lparr>nd_nbrs := nbrs, nd_ntable := nt2,
                       nd_out := nd_out n @
                         [Out_Companion src callsign (ucast (fr_rssi_dbm frame)) (fr_snr_db frame) (h_hop pkt) push_score role
                            (fst (pos found)) (snd (pos found)),
                          Out_Beacon_Line src callsign (fr_rssi_dbm frame) (fr_snr_db frame) (h_hop pkt) line_score role
                            (if fst (pos found2) \<noteq> INT32_MIN \<and> snd (pos found2) \<noteq> INT32_MIN then Some (pos found2) else None)]\<rparr>))"

text \<open>A program push: stored only when addressed to this node or to everyone, and not empty.\<close>

definition rx_handle_prog_push :: "node_cfg \<Rightarrow> u32 \<Rightarrow> rivr_pkt_hdr_t \<Rightarrow> u8 list option \<Rightarrow> node_t \<Rightarrow> node_t" where
  "rx_handle_prog_push cfg now pkt plo n =
     (if h_dst_id pkt = nc_my_id cfg \<or> h_dst_id pkt = 0 then
        (case plo of
           None \<Rightarrow> n
         | Some p \<Rightarrow>
             if h_payload_len pkt = 0 then n
             else case handle_prog_push (nc_ulong_bits cfg) (nc_params cfg) p now (nd_params n) of
               (None, ps) \<Rightarrow> n\<lparr>nd_params := ps\<rparr>
             | (Some prog, ps) \<Rightarrow>
                 if nc_nvs_store cfg prog
                 then n\<lparr>nd_params := ps, nd_stored_program := prog, nd_reload_pending := True\<rparr>
                 else n\<lparr>nd_params := ps\<rparr>)
      else n)"

text \<open>The reply to a route request.\<close>

definition rx_send_route_rpl :: "node_cfg \<Rightarrow> rivr_pkt_hdr_t \<Rightarrow> u32 \<Rightarrow> u32 \<Rightarrow> u8 \<Rightarrow> node_t \<Rightarrow> node_t" where
  "rx_send_route_rpl cfg pkt target next_hop hops n0 =
     (let n = next_ctrl_seq n0; seq = (ucast (nd_ctrl_seq n) :: u16)
      in case routing_build_route_rpl (nc_my_id cfg) (h_src_id pkt) target next_hop hops seq seq (replicate 64 0) 64 of
           (rpl_len, buf) \<Rightarrow>
             if rpl_len \<le> 0 then n
             else case node_push (tx_request buf (word_of_int rpl_len) (node_toa cfg (word_of_int rpl_len))) n of
                    (ok, n1) \<Rightarrow> if ok then node_count route_req_reply_sent_total (UPDATE_TXQ_PEAK n1) else n1)"

definition rx_handle_route_req :: "node_cfg \<Rightarrow> u32 \<Rightarrow> rivr_pkt_hdr_t \<Rightarrow> node_t \<Rightarrow> node_t" where
  "rx_handle_route_req cfg now pkt n0 =
     (let n = node_count route_req_rx_total n0
      in case routing_should_reply_route_req (ts_metrics n) pkt (nc_my_id cfg) (Some (nd_routes n)) now of
           (m1, rc1, reply) \<Rightarrow>
             let n1 = n\<lparr>ts_metrics := m1, nd_routes := (case rc1 of None \<Rightarrow> nd_routes n | Some c \<Rightarrow> c)\<rparr>
             in if \<not> reply then node_count route_req_reply_suppressed_total n1
                else if h_dst_id pkt = nc_my_id cfg
                then rx_send_route_rpl cfg pkt (nc_my_id cfg) (nc_my_id cfg) 0 (node_count route_req_reply_target_total n1)
                else case route_cache_lookup (ts_metrics n1) (nd_routes n1) (h_dst_id pkt) now of
                  (m2, rc2, None) \<Rightarrow> n1\<lparr>ts_metrics := m2, nd_routes := rc2\<rparr>
                | (m2, rc2, Some ce) \<Rightarrow>
                    rx_send_route_rpl cfg pkt (h_dst_id pkt) (rc_next_hop ce) (rc_hop_count ce)
                      (node_count route_req_reply_cache_total (n1\<lparr>ts_metrics := m2, nd_routes := rc2\<rparr>)))"

definition rx_handle_route_rpl :: "node_cfg \<Rightarrow> u32 \<Rightarrow> rf_rx_frame_t \<Rightarrow> rivr_pkt_hdr_t \<Rightarrow> u8 list option \<Rightarrow> node_t \<Rightarrow> node_t" where
  "rx_handle_route_rpl cfg now frame pkt plo n0 =
     (let n = node_count route_rpl_rx_total n0; from_id = rx_sender frame pkt
      in case plo of
           None \<Rightarrow> n
         | Some p \<Rightarrow>
             if h_payload_len pkt < ROUTE_RPL_PAYLOAD_LEN then n
             else
               let target = get_u32 (p ! 0) (p ! 1) (p ! 2) (p ! 3); hops = p ! 8;
                   next_hop = (if from_id \<noteq> 0 then from_id else h_src_id pkt)
               in case neighbor_find (nd_ntable n) next_hop now of
                 (found, nt1) \<Rightarrow>
                   let metric = (case found of
                                   Some e \<Rightarrow> neighbor_link_score_full (nc_role cfg) e now
                                 | None \<Rightarrow> word_of_int (clamp_i32 (sint (fr_rssi_dbm frame) + 140) 0 80))
                   in case route_cache_update (nc_role cfg) (ts_metrics n) (nd_routes n) target next_hop
                             (hops + h_hop pkt + 1) metric RCACHE_FLAG_VALID now of
                     (m1, rc1) \<Rightarrow>
                       let n1 = node_count route_rpl_learn_total (n\<lparr>ts_metrics := m1, nd_routes := rc1, nd_ntable := nt1\<rparr>)
                       in case pending_queue_drain_for_dst (ts_metrics n1) (nd_pending n1) target next_hop (ts_queue n1) now of
                         (m2, pq1, q1, drained) \<Rightarrow>
                           n1\<lparr>ts_metrics := bump_by pending_queue_drained_total (ucast drained) m2,
                              nd_pending := pq1, ts_queue := q1\<rparr>)"

definition rx_services :: "node_cfg \<Rightarrow> u32 \<Rightarrow> rf_rx_frame_t \<Rightarrow> rivr_pkt_hdr_t \<Rightarrow> u8 list option \<Rightarrow> node_t \<Rightarrow> node_t" where
  "rx_services cfg now frame pkt plo n =
     (case plo of
        None \<Rightarrow> n
      | Some p \<Rightarrow>
          let len = h_payload_len pkt
          in if h_pkt_type pkt = PKT_CHAT \<and> len > 0
             then n\<lparr>nd_out := nd_out n @ map Out_Service (handle_chat_message pkt p len (fr_rssi_dbm frame))\<rparr>
             else if h_pkt_type pkt = PKT_TELEMETRY \<and> len \<ge> SVC_TELEMETRY_PAYLOAD_LEN
             then n\<lparr>nd_out := nd_out n @ map Out_Service (handle_telemetry_publish pkt p len)\<rparr>
             else if h_pkt_type pkt = PKT_MAILBOX \<and> len \<ge> SVC_MAILBOX_HDR_LEN
             then (case handle_mailbox_store (nc_my_id cfg) pkt p len now (nd_mailbox n) of
                     (evs, mb1) \<Rightarrow> n\<lparr>nd_out := nd_out n @ map Out_Service evs, nd_mailbox := mb1\<rparr>)
             else if h_pkt_type pkt = PKT_ALERT \<and> len \<ge> SVC_ALERT_PAYLOAD_LEN
             then n\<lparr>nd_out := nd_out n @ map Out_Service (handle_alert_event pkt p len)\<rparr>
             else n)"

text \<open>The event for the engine, stamped with the advanced Lamport clock.\<close>

definition rx_inject :: "rf_rx_frame_t \<Rightarrow> rivr_pkt_hdr_t \<Rightarrow> node_t \<Rightarrow> node_t" where
  "rx_inject frame pkt n =
     (case tb_lmp_advance (ucast (h_seq pkt)) n of
        (tick, n1) \<Rightarrow> n1\<lparr>nd_out := nd_out n1 @ [Out_Inject tick (take (unat (fr_len frame)) (fr_data frame))]\<rparr>)"

section \<open>The relay stage\<close>

text \<open>How the stage ends for a frame.\<close>

datatype relay_outcome =
    Relay_None
  | Relay_Policy_Drop
  | Relay_Client_Skip
  | Relay_Fabric_Drop
  | Relay_Backpressure
  | Relay_Suppressed
  | Relay_Encode_Fail
  | Relay_Queue_Full rf_tx_request_t
  | Relay_Queued rf_tx_request_t

abbreviation chat_or_data :: "rivr_pkt_hdr_t \<Rightarrow> bool" where
  "chat_or_data h \<equiv> h_pkt_type h = PKT_CHAT \<or> h_pkt_type h = PKT_DATA"

text \<open>The policy gate: None when it drops, otherwise the header with its TTL possibly clamped.\<close>

definition relay_policy :: "u32 \<Rightarrow> rivr_pkt_hdr_t \<Rightarrow> node_t \<Rightarrow> rivr_pkt_hdr_t option \<times> node_t" where
  "relay_policy now h n =
     (case policy_check (nd_flood n) h now (h_ttl h) of
        (ps, verdict, ttl) \<Rightarrow>
          let n1 = n\<lparr>nd_flood := ps\<rparr>
          in case verdict of
               RIVR_POLICY_DROP \<Rightarrow> (None, node_count policy_drop n1)
             | RIVR_POLICY_TTL_CLAMP \<Rightarrow> (Some (h\<lparr>h_ttl := ttl\<rparr>), node_count policy_ttl_clamp n1)
             | RIVR_POLICY_PASS \<Rightarrow> (Some h, n1))"

text \<open>The last step: encode, give the frame its due time and queue it.\<close>

definition relay_enqueue :: "u32 \<Rightarrow> u32 \<Rightarrow> u32 \<Rightarrow> rivr_pkt_hdr_t \<Rightarrow> u8 list option \<Rightarrow> node_t \<Rightarrow> relay_outcome \<times> node_t" where
  "relay_enqueue now toa delay h plo n =
     (case protocol_encode h plo (h_payload_len h) (replicate 255 0) RF_MAX_PAYLOAD_LEN of
        (enc, out) \<Rightarrow>
          if enc \<le> 0 then (Relay_Encode_Fail, n)
          else
            let req = \<lparr>tx_data = out, tx_len = word_of_int enc, tx_toa_us = toa, tx_due_ms = now + delay\<rparr>
            in case node_push req n of
                 (True, n1) \<Rightarrow> (Relay_Queued req, UPDATE_TXQ_PEAK n1)
               | (False, n1) \<Rightarrow> (Relay_Queue_Full req, node_count tx_queue_full n1))"

text \<open>The forward-set gate of builds with opportunistic forwarding.\<close>

definition relay_fwdset :: "node_cfg \<Rightarrow> u32 \<Rightarrow> u32 \<Rightarrow> u32 \<Rightarrow> rivr_pkt_hdr_t \<Rightarrow> u8 list option \<Rightarrow> node_t \<Rightarrow> relay_outcome \<times> node_t" where
  "relay_fwdset cfg now toa delay h plo n =
     (if \<not> b_opportunistic_fwd (nc_build cfg) then relay_enqueue now toa delay h plo n
      else
        let fs = fwdset_build (nc_role cfg) (nd_ntable n) now; extra = fwdset_extra_holdoff_ms fs
        in if fwdset_suppress_relay fs then (Relay_Suppressed, node_count flood_fwd_score_suppressed_total n)
           else if extra > 0
           then relay_enqueue now toa (delay + extra) h plo (n\<lparr>ts_metrics := bump_by relay_delay_ms_total extra (ts_metrics n)\<rparr>)
           else relay_enqueue now toa delay h plo n)"

text \<open>The fabric and backpressure gates, compiled only into builds with the fabric.\<close>

definition relay_fabric :: "node_cfg \<Rightarrow> u32 \<Rightarrow> u32 \<Rightarrow> u32 \<Rightarrow> rivr_pkt_hdr_t \<Rightarrow> u8 list option \<Rightarrow> node_t \<Rightarrow> relay_outcome \<times> node_t" where
  "relay_fabric cfg now toa delay h plo n =
     (if \<not> b_fabric_repeater (nc_build cfg) then relay_fwdset cfg now toa delay h plo n
      else case rivr_fabric_decide_relay True (ts_metrics n) (ts_fabric n) h now of
        (m1, fab1, decision, extra) \<Rightarrow>
          let n1 = n\<lparr>ts_metrics := m1, ts_fabric := fab1\<rparr>;
              delay1 = (if decision = FABRIC_DELAY then delay + extra else delay)
          in if decision = FABRIC_DROP then (Relay_Fabric_Drop, n1)
             else if chat_or_data h \<and> pending_queue_pressure (nd_pending n1) \<ge> 75 then (Relay_Backpressure, n1)
             else relay_fwdset cfg now toa delay1 h plo n1)"

definition rx_relay ::
  "node_cfg \<Rightarrow> u32 \<Rightarrow> u32 \<Rightarrow> rivr_fwd_result_t \<Rightarrow> rivr_pkt_hdr_t \<Rightarrow> rivr_pkt_hdr_t \<Rightarrow> u8 list option \<Rightarrow> node_t \<Rightarrow> relay_outcome \<times> node_t" where
  "rx_relay cfg now toa fwd pkt fwd_hdr plo n =
     (case fwd of
        RIVR_FWD_FORWARD \<Rightarrow>
          (case relay_policy now fwd_hdr (node_count flood_fwd_attempted_total n) of
             (None, n1) \<Rightarrow> (Relay_Policy_Drop, n1)
           | (Some h, n1) \<Rightarrow>
               if nc_role cfg = RoleClient \<and> chat_or_data h then (Relay_Client_Skip, n1)
               else relay_fabric cfg now toa (routing_forward_delay_ms (h_src_id pkt) (h_pkt_id pkt) (h_pkt_type pkt)) h plo n1)
      | RIVR_FWD_DROP_TTL \<Rightarrow> (Relay_None, node_count forward_drop_ttl_total (node_count drop_ttl_relay n))
      | RIVR_FWD_DROP_BUDGET \<Rightarrow> (Relay_None, node_count drop_rate_limited n)
      | _ \<Rightarrow> (Relay_None, n))"

section \<open>One frame\<close>

datatype rx_outcome =
    Rx_Ble_Origin
  | Rx_Invalid
  | Rx_Foreign_Net
  | Rx_Bus_Rejected
  | Rx_Duplicate
  | Rx_Program
  | Rx_Processed rivr_fwd_result_t relay_outcome

text \<open>Everything between the flood decision and the relay stage; False means that the frame ends here.\<close>

definition rx_dispatch :: "node_cfg \<Rightarrow> u32 \<Rightarrow> rf_rx_frame_t \<Rightarrow> rivr_pkt_hdr_t \<Rightarrow> u8 list option \<Rightarrow> node_t \<Rightarrow> bool \<times> node_t" where
  "rx_dispatch cfg now frame pkt plo n =
     (if h_pkt_type pkt = PKT_ACK then (True, rx_handle_ack pkt plo n)
      else
        let n1 = rx_send_ack cfg pkt n
        in if h_pkt_type pkt = PKT_BEACON then (True, rx_handle_beacon now frame pkt plo n1)
           else if h_pkt_type pkt = PKT_PROG_PUSH then (False, rx_handle_prog_push cfg now pkt plo n1)
           else if h_pkt_type pkt = PKT_ROUTE_REQ then (True, rx_handle_route_req cfg now pkt n1)
           else if h_pkt_type pkt = PKT_ROUTE_RPL then (True, rx_handle_route_rpl cfg now frame pkt plo n1)
           else (True, rx_inject frame pkt (rx_services cfg now frame pkt plo n1)))"

definition rx_accept :: "node_cfg \<Rightarrow> u32 \<Rightarrow> rf_rx_frame_t \<Rightarrow> node_t \<Rightarrow> bool \<times> node_t" where
  "rx_accept cfg now frame n =
     (let n1 = n\<lparr>nd_rx_frame_count := nd_rx_frame_count n + 1, nd_last_rssi_dbm := fr_rssi_dbm frame,
                 nd_last_snr_db := fr_snr_db frame,
                 ts_fabric := rivr_fabric_on_rx (b_fabric_repeater (nc_build cfg)) now (ts_fabric n)\<rparr>;
          meta = \<lparr>md_iface = fr_iface frame, md_rssi = ucast (fr_rssi_dbm frame), md_snr = fr_snr_db frame,
                  md_timestamp_ms = fr_rx_mono_ms frame, md_flags = 0\<rparr>
      in case rivr_bus_receive (nc_bus cfg) (fr_data frame) (unat (fr_len frame)) meta
                (nd_bus n1, \<lparr>io_metrics = ts_metrics n1, io_tx = ts_queue n1, io_sent = nd_mirrored n1\<rparr>) of
           (ok, c1, io1) \<Rightarrow>
             (ok, n1\<lparr>nd_bus := c1, ts_metrics := io_metrics io1, ts_queue := io_tx io1, nd_mirrored := io_sent io1\<rparr>))"

definition rx_frame :: "node_cfg \<Rightarrow> u32 \<Rightarrow> rf_rx_frame_t \<Rightarrow> node_t \<Rightarrow> rx_outcome \<times> node_t" where
  "rx_frame cfg now frame n0 =
     (case source_handle_ble_origination cfg frame now n0 of
        (True, n) \<Rightarrow> (Rx_Ble_Origin, n)
      | (False, n) \<Rightarrow>
          (case node_decode (fr_data frame) (fr_len frame) n of
             (None, n1) \<Rightarrow> (Rx_Invalid, node_count rx_decode_fail n1)
           | (Some (pkt, plo), n1) \<Rightarrow>
               if h_net_id pkt \<noteq> 0 \<and> h_net_id pkt \<noteq> nc_net_id cfg then (Rx_Foreign_Net, node_count rx_net_id_drop n1)
               else case rx_accept cfg now frame n1 of
                 (False, n2) \<Rightarrow> (Rx_Bus_Rejected, n2)
               | (True, n2) \<Rightarrow>
                   let toa = node_toa cfg (fr_len frame)
                   in case routing_flood_forward (ts_metrics n2) (nd_dedupe n2) (Some (nd_budget n2)) pkt (nc_my_id cfg) toa now of
                     (fwd, m1, dd1, fb1, fwd_hdr) \<Rightarrow>
                       let n3 = n2\<lparr>ts_metrics := m1, nd_dedupe := dd1,
                                   nd_budget := (case fb1 of None \<Rightarrow> nd_budget n2 | Some b \<Rightarrow> b)\<rparr>
                       in if fwd = RIVR_FWD_DROP_DEDUPE then
                            (Rx_Duplicate,
                             if b_opportunistic_fwd (nc_build cfg) \<and> h_flags pkt AND PKT_FLAG_RELAY \<noteq> 0
                             then n3\<lparr>ts_opfwd := opfwd_suppress_add (ts_opfwd n3) (h_src_id pkt) (h_pkt_id pkt) now\<rparr>
                             else n3)
                          else
                            let n4 = (if fwd = RIVR_FWD_DROP_LOOP then n3 else rx_learn cfg now frame pkt n3)
                            in case rx_dispatch cfg now frame pkt plo n4 of
                                 (False, n5) \<Rightarrow> (Rx_Program, n5)
                               | (True, n5) \<Rightarrow>
                                   (case rx_relay cfg now toa fwd pkt fwd_hdr plo n5 of
                                      (out, n6) \<Rightarrow> (Rx_Processed fwd out, n6))))"

section \<open>The drain\<close>

abbreviation "SOURCES_RF_RX_DRAIN_LIMIT \<equiv> (4 :: nat)"

fun rx_drain_from :: "node_cfg \<Rightarrow> u32 \<Rightarrow> nat \<Rightarrow> node_t \<Rightarrow> rx_outcome list \<times> node_t" where
  "rx_drain_from cfg now 0 n = ([], n)"
| "rx_drain_from cfg now (Suc k) n =
     (case rb_pop (nd_rx_ring n) of
        (None, q) \<Rightarrow> ([], n\<lparr>nd_rx_ring := q\<rparr>)
      | (Some frame, q) \<Rightarrow>
          (case rx_frame cfg now frame (n\<lparr>nd_rx_ring := q\<rparr>) of
             (x, n1) \<Rightarrow> (case rx_drain_from cfg now k n1 of (xs, n2) \<Rightarrow> (x # xs, n2))))"

definition sources_rf_rx_drain :: "node_cfg \<Rightarrow> u32 \<Rightarrow> node_t \<Rightarrow> rx_outcome list \<times> node_t" where
  "sources_rf_rx_drain cfg now n =
     (case retry_table_tick (nc_role cfg) (ts_metrics n) (nd_retry n) (ts_queue n) (nd_ctrl_seq n) now of
        (m1, rt1, q1, ctr1, _) \<Rightarrow>
          rx_drain_from cfg now SOURCES_RF_RX_DRAIN_LIMIT
            (n\<lparr>ts_metrics := m1, nd_retry := rt1, ts_queue := q1, nd_ctrl_seq := ctr1\<rparr>))"

section \<open>Timer sources\<close>

definition timer_zero :: rivr_timer_entry_t where
  "timer_zero = \<lparr>tm_name = replicate 32 0, tm_interval_ms = 0, tm_last_fire_ms = 0, tm_active = False\<rparr>"

text \<open>The name is cut to 31 bytes and padded with zeros.\<close>

definition timer_name :: "u8 list \<Rightarrow> u8 list" where
  "timer_name name = (let s = take 31 (c_str name) in s @ replicate (32 - length s) 0)"

definition sources_register_timer :: "u8 list \<Rightarrow> u32 \<Rightarrow> u32 \<Rightarrow> node_t \<Rightarrow> node_t" where
  "sources_register_timer name interval_ms now n =
     (if interval_ms = 0 \<or> nd_timer_count n \<ge> RIVR_TIMER_MAX then n
      else n\<lparr>nd_timers := (nd_timers n)[unat (nd_timer_count n) :=
                \<lparr>tm_name = timer_name name, tm_interval_ms = interval_ms, tm_last_fire_ms = now, tm_active = True\<rparr>],
             nd_timer_count := nd_timer_count n + 1\<rparr>)"

definition sources_timer_reset :: "node_t \<Rightarrow> node_t" where
  "sources_timer_reset n = n\<lparr>nd_timers := replicate (unat RIVR_TIMER_MAX) timer_zero, nd_timer_count := 0\<rparr>"

definition timer_visit :: "u32 \<Rightarrow> nat \<Rightarrow> node_t \<Rightarrow> node_t" where
  "timer_visit now i n =
     (let e = nd_timers n ! i
      in if \<not> tm_active e \<or> tm_interval_ms e = 0 \<or> now - tm_last_fire_ms e < tm_interval_ms e then n
         else n\<lparr>nd_timers := (nd_timers n)[i := e\<lparr>tm_last_fire_ms := now\<rparr>],
                nd_out := nd_out n @ [Out_Timer (c_str (tm_name e)) now]\<rparr>)"

definition sources_timer_drain :: "u32 \<Rightarrow> node_t \<Rightarrow> node_t" where
  "sources_timer_drain now n = fold (timer_visit now) [0..<unat (nd_timer_count n)] n"

section \<open>The receive pipeline keeps the node well formed\<close>

lemma decoded_if: "decoded (if b then h else h') plo \<longleftrightarrow> (if b then decoded h plo else decoded h' plo)"
  by simp

lemma origin_normalize_decoded: "origin_normalize cfg h n = (h', n') \<Longrightarrow> decoded h' plo \<longleftrightarrow> decoded h plo"
  unfolding origin_normalize_def Let_def prod.inject
  by (elim conjE, hypsubst) (simp only: decoded_header decoded_if if_cancel)

lemma origin_normalize_keeps: "origin_normalize cfg h n = (h', n') \<Longrightarrow> keeps cfg P n n'"
  by (auto simp: origin_normalize_def Let_def)

lemma origination_gate_params: "rivr_policy_allow_origination t now st = (ok, st') \<Longrightarrow> rp_params st' = rp_params st"
  by (auto simp: rivr_policy_allow_origination_def Let_def split: if_splits)

lemma node_decode_decoded:
  assumes "node_decode data len n = (Some (h, plo), n')" "unat len \<le> length data"
  shows "decoded h plo"
  using assms decode_decoded [of "ts_metrics n" data len "ts_metrics n'" h plo]
  by (auto simp: node_decode_def split: prod.splits)

lemma ble_origination_keeps:
  assumes P: "\<And>r. wf_req r \<Longrightarrow> P r" and len: "length (fr_data frame) = 255"
  shows "keeps cfg P n0 (snd (source_handle_ble_origination cfg frame now n0))"
proof -
  obtain dec n where dec: "node_decode (fr_data frame) (fr_len frame) n0 = (dec, n)" by fastforce
  note k0 = keeps_decode [OF dec, of cfg P]
  have lt: "unat (fr_len frame) \<le> length (fr_data frame)" using len unat_u8_less [of "fr_len frame"] by simp
  show ?thesis
  proof (cases dec)
    case None
    then show ?thesis using dec k0 by (auto simp: source_handle_ble_origination_def intro: keeps_trans)
  next
    case (Some hp)
    obtain hdr plo where hp: "hp = (hdr, plo)" by fastforce
    have d: "decoded hdr plo" using node_decode_decoded [OF _ lt] dec Some hp by blast
    obtain allowed ps where al: "rivr_policy_allow_origination (h_pkt_type hdr) now (nd_params n) = (allowed, ps)" by fastforce
    define n1 where "n1 = n\<lparr>nd_params := ps\<rparr>"
    have k1: "keeps cfg P n0 n1"
      using origination_gate_params [OF al] by (intro keeps_trans [OF k0]) (simp add: n1_def keeps_def node_ok_def)
    obtain hdr1 n2 where on: "origin_normalize cfg hdr n1 = (hdr1, n2)" by fastforce
    have k2: "keeps cfg P n0 n2" by (rule keeps_trans [OF k1 origin_normalize_keeps [OF on]])
    have d1: "decoded hdr1 plo" using origin_normalize_decoded [OF on] d by simp
    let ?k = "unat (h_payload_len hdr1)"
    let ?out = "frame_of hdr1 (payload_of plo) @ drop (25 + ?k) (replicate 255 0)"
    note enc = encode_decoded [OF d1 length_replicate]
    have pos: "\<not> 25 + int ?k \<le> 0" by linarith
    have n25: "nat (25 + int ?k) = 25 + ?k"
      using nat_int [of "25 + ?k"] unfolding of_nat_add of_nat_numeral .
    let ?bytes = "take (25 + ?k) ?out"
    have lb: "length ?bytes = 25 + ?k" using enc(5) d1 by (simp add: decoded_def)
    have small: "25 + ?k \<le> 255" using d1 by (simp add: decoded_def)
    have sl: "sink_len ?bytes = word_of_int (25 + int ?k)" unfolding lb using small by simp
    have wk: "wire_ok ?bytes (sink_len ?bytes)"
      unfolding sl using wire_ok_take [of "word_of_int (25 + int ?k)" "25 + ?k" ?out] enc(3,4) by (simp only: order_refl)
    have "keeps cfg P n2 (rf_tx_sink_cb cfg now (RIVR_VAL_BYTES ?bytes) n2)"
      unfolding rf_tx_sink_cb_def rivr_value_t.case
      by (rule sink_bytes_keeps) (use P wk in blast)+
    with k2 have k3: "keeps cfg P n0 (rf_tx_sink_cb cfg now (RIVR_VAL_BYTES ?bytes) n2)" by (rule keeps_trans)
    show ?thesis
      unfolding source_handle_ble_origination_def dec Some hp prod.case option.case al Let_def n1_def [symmetric] on
        enc(2) if_not_P [OF pos] n25
      using k0 k1 k3 by (auto intro: keeps_trans)
  qed
qed

section \<open>Learning\<close>

lemma routing_neighbor_update_length [simp]:
  "length (ne_entries (routing_neighbor_update tbl pkt r s now)) = length (ne_entries tbl)"
  by (auto simp: routing_neighbor_update_def Let_def split: nbr_slot.splits option.splits)

lemma set_callsign_length [simp]:
  "length (ne_entries (routing_neighbor_set_callsign tbl k cs)) = length (ne_entries tbl)"
  by (simp add: routing_neighbor_set_callsign_def split: option.split)

lemma set_role_length [simp]: "length (ne_entries (routing_neighbor_set_role tbl k r)) = length (ne_entries tbl)"
  by (simp add: routing_neighbor_set_role_def split: option.split)

lemma route_cache_tx_decide_ok: "rcache_ok role c \<Longrightarrow> rcache_ok role (fst (snd (route_cache_tx_decide m c dst now)))"
  using route_cache_lookup_ok [of role c m dst now]
  by (auto simp: route_cache_tx_decide_def split: prod.splits option.splits)

lemma rx_learn_keeps [simp]: "keeps cfg P n (rx_learn cfg now frame pkt n)"
proof (rule keepsI)
  assume n: "node_ok cfg n"
  let ?from = "rx_sender frame pkt"
  obtain m1 rc1 where l: "route_cache_learn_rx (nc_role cfg) (ts_metrics n) (nd_routes n) (h_src_id pkt) ?from (h_hop pkt)
     (fr_rssi_dbm frame) (fr_snr_db frame) now = (m1, rc1)" by fastforce
  have ok1: "rcache_ok (nc_role cfg) rc1"
    using route_cache_learn_rx_ok [of "nc_role cfg" "nd_routes n" "ts_metrics n" "h_src_id pkt" ?from "h_hop pkt"
        "fr_rssi_dbm frame" "fr_snr_db frame" now] l n by (simp add: node_ok_def)
  obtain m2 rc2 d nh where t: "route_cache_tx_decide m1 rc1 (h_src_id pkt) now = (m2, rc2, d, nh)" by (metis prod_cases4)
  have ok2: "rcache_ok (nc_role cfg) rc2" using route_cache_tx_decide_ok [OF ok1, of m1 "h_src_id pkt" now] t by simp
  obtain m3 rc3 e where lk: "route_cache_lookup m2 rc2 (h_src_id pkt) now = (m3, rc3, e)" by (metis prod_cases3)
  have ok3: "rcache_ok (nc_role cfg) rc3" using route_cache_lookup_ok [OF ok2, of m2 "h_src_id pkt" now] lk by simp
  show "kept cfg P n (rx_learn cfg now frame pkt n)"
    using n ok1 ok3 by (simp add: rx_learn_def Let_def l t lk node_ok_def neighbor_update_ok)
qed

section \<open>The handlers\<close>

lemma rx_handle_ack_keeps [simp]: "keeps cfg P n (rx_handle_ack pkt plo n)"
proof -
  have r: "keeps cfg P n' (n'\<lparr>nd_retry := snd (retry_table_ack (nd_retry n') a b)\<rparr>)" for a b n'
    using retry_ack_ok [of "nc_role cfg" "nd_retry n'" a b] by (simp add: keeps_def node_ok_def)
  show ?thesis
    by (auto simp: rx_handle_ack_def Let_def split: option.split prod.split
        intro: keeps_trans [OF keeps_count] keeps_trans [OF keeps_trans [OF keeps_count r [simplified]]])
       (metis keeps_count keeps_trans r snd_conv)+
qed

lemma rx_send_ack_keeps:
  assumes P: "\<And>r. wf_req r \<Longrightarrow> P r" shows "keeps cfg P n0 (rx_send_ack cfg pkt n0)"
proof -
  define n where "n = next_ctrl_seq n0"
  let ?seq = "ucast (nd_ctrl_seq n) :: u16" and ?p = "put_u32 (h_src_id pkt) @ put_u16 (h_pkt_id pkt)"
  let ?h = "control_hdr PKT_ACK (nc_my_id cfg) (h_src_id pkt) ?seq ?seq ACK_PAYLOAD_LEN"
  have enc: "protocol_encode ?h (Some ?p) ACK_PAYLOAD_LEN (replicate 31 0) 31 = (31, frame_of ?h ?p)"
    using protocol_encode_frame [of ?p ACK_PAYLOAD_LEN 31 ?h "replicate 31 0"] by simp
  have wf: "P (tx_request (frame_of ?h ?p) 31 toa)" for toa
    using frame_of_wire_ok [of ?p ?h 31 "[]"] by (intro P) (simp add: control_hdr_def)
  obtain ok n1 where push: "node_push (tx_request (frame_of ?h ?p) 31 (node_toa cfg 31)) n = (ok, n1)" by fastforce
  have k: "keeps cfg P n0 n" by (simp add: n_def)
  then have "keeps cfg P n0 n1" by (rule keeps_trans [OF _ keeps_push [where P = P, OF wf push]])
  with k show ?thesis
    unfolding rx_send_ack_def Let_def n_def [symmetric] routing_build_ack_def enc prod.case
    using push by (auto intro: keeps_trans)
qed

lemma rx_handle_beacon_keeps [simp]: "keeps cfg P n (rx_handle_beacon now frame pkt plo n)"
proof (rule keepsI)
  assume n: "node_ok cfg n"
  have nt: "ntable_ok (nd_ntable n)" using n by (simp add: node_ok_def)
  have f: "neighbor_find t k now = (r, t') \<Longrightarrow> ntable_ok t \<Longrightarrow> ntable_ok t'" for t k r t'
    using neighbor_find_ok [of t k now] by simp
  show "kept cfg P n (rx_handle_beacon now frame pkt plo n)"
    using n nt neighbor_set_position_ok [OF nt]
    by (auto simp: rx_handle_beacon_def Let_def node_ok_def split: prod.split option.split dest!: f)
qed

lemma rx_handle_prog_push_keeps [simp]: "keeps cfg P n (rx_handle_prog_push cfg now pkt plo n)"
proof (rule keepsI)
  assume n: "node_ok cfg n"
  have "params_ok (rp_params ps)"
    if "handle_prog_push (nc_ulong_bits cfg) (nc_params cfg) p now (nd_params n) = (r, ps)" for p r ps
    using handle_prog_push_ok [of "nd_params n" "nc_ulong_bits cfg" "nc_params cfg" p now] that n
    by (simp add: node_ok_def)
  with n show "kept cfg P n (rx_handle_prog_push cfg now pkt plo n)"
    by (auto simp: rx_handle_prog_push_def node_ok_def split: option.split prod.split)
qed

lemma should_reply_cache_ok:
  "rcache_ok role c \<Longrightarrow> routing_should_reply_route_req m pkt my_id (Some c) now = (m1, rc1, reply) \<Longrightarrow>
   case rc1 of None \<Rightarrow> True | Some c1 \<Rightarrow> rcache_ok role c1"
  using route_cache_lookup_ok [of role c m "h_dst_id pkt" now]
  by (auto simp: routing_should_reply_route_req_def route_cache_can_reply_for_dst_def
      split: prod.splits option.splits if_splits)

lemma rx_send_route_rpl_keeps:
  assumes P: "\<And>r. wf_req r \<Longrightarrow> P r" shows "keeps cfg P n0 (rx_send_route_rpl cfg pkt target nh hops n0)"
proof -
  define n where "n = next_ctrl_seq n0"
  let ?seq = "ucast (nd_ctrl_seq n) :: u16" and ?p = "put_u32 target @ put_u32 nh @ [hops]"
  let ?h = "control_hdr PKT_ROUTE_RPL (nc_my_id cfg) (h_src_id pkt) ?seq ?seq ROUTE_RPL_PAYLOAD_LEN"
  have enc: "protocol_encode ?h (Some ?p) ROUTE_RPL_PAYLOAD_LEN (replicate 64 0) 64 = (34, frame_of ?h ?p @ replicate 30 0)"
    using protocol_encode_frame [of ?p ROUTE_RPL_PAYLOAD_LEN 64 ?h "replicate 64 0"] by simp
  have wf: "P (tx_request (frame_of ?h ?p @ replicate 30 0) 34 toa)" for toa
    using frame_of_wire_ok [of ?p ?h 34 "replicate 30 0"] by (intro P) (simp add: control_hdr_def)
  obtain ok n1 where push: "node_push (tx_request (frame_of ?h ?p @ replicate 30 0) 34 (node_toa cfg 34)) n = (ok, n1)" by fastforce
  have k: "keeps cfg P n0 n" by (simp add: n_def)
  then have k1: "keeps cfg P n0 n1" by (rule keeps_trans [OF _ keeps_push [where P = P, OF wf push]])
  show ?thesis
    unfolding rx_send_route_rpl_def Let_def n_def [symmetric] routing_build_route_rpl_def enc prod.case
    using push k k1 keeps_trans [OF keeps_trans [OF k1 keeps_peak] keeps_count] by auto
qed

lemma rx_handle_route_req_keeps:
  assumes P: "\<And>r. wf_req r \<Longrightarrow> P r" shows "keeps cfg P n0 (rx_handle_route_req cfg now pkt n0)"
proof -
  define n where "n = node_count route_req_rx_total n0"
  have k0: "keeps cfg P n0 n" by (simp add: n_def)
  obtain m1 rc1 reply where r: "routing_should_reply_route_req (ts_metrics n) pkt (nc_my_id cfg) (Some (nd_routes n)) now = (m1, rc1, reply)"
    by (metis prod_cases3)
  define n1 where "n1 = n\<lparr>ts_metrics := m1, nd_routes := (case rc1 of None \<Rightarrow> nd_routes n | Some c \<Rightarrow> c)\<rparr>"
  have k1: "keeps cfg P n0 n1"
    using should_reply_cache_ok [OF _ r, of "nc_role cfg"]
    by (intro keeps_trans [OF k0]) (auto simp: n1_def keeps_def node_ok_def split: option.splits)
  obtain m2 rc2 ce where lk: "route_cache_lookup (ts_metrics n1) (nd_routes n1) (h_dst_id pkt) now = (m2, rc2, ce)" by (metis prod_cases3)
  have k2: "keeps cfg P n0 (n1\<lparr>ts_metrics := m2, nd_routes := rc2\<rparr>)"
    using route_cache_lookup_ok [of "nc_role cfg" "nd_routes n1" "ts_metrics n1" "h_dst_id pkt" now] lk
    by (intro keeps_trans [OF k1]) (simp add: keeps_def node_ok_def)
  note s = rx_send_route_rpl_keeps [where P = P, OF P]
  show ?thesis
    unfolding rx_handle_route_req_def Let_def n_def [symmetric] r prod.case n1_def [symmetric] lk
    using k1 k2 keeps_trans [OF keeps_trans [OF k1 keeps_count] s] keeps_trans [OF keeps_trans [OF k2 keeps_count] s]
      keeps_trans [OF k1 keeps_count]
    by (cases ce) simp_all
qed

lemma pending_queue_drain_feeds:
  assumes pq: "pending_ok pq" and q: "rb_ok q" and P: "\<And>r. wf_req r \<Longrightarrow> P r"
    and run: "pending_queue_drain_for_dst m pq dst nh q now = (m', pq', q', sent)"
  shows "pending_ok pq' \<and> feeds P q q'"
proof (cases "dst = 0 \<or> nh = 0")
  case True
  with run pq q show ?thesis by (auto simp: pending_queue_drain_for_dst_def)
next
  case False
  then have "dst \<noteq> 0" "nh \<noteq> 0" by auto
  note sp = pending_queue_drain_spec [OF pq this run]
  have "wf_req (hop_request nh e)" if "e \<in> set (pq_entries pq)" "pe_valid e" for e
  proof -
    have ok: "wire_ok (pe_data e) (pe_len e)" and len: "length (pe_data e) = 255"
      using pq that by (auto simp: pending_ok_def pending_entry_ok_def)
    note b = wire_ok_bounds [OF ok len]
    have "snd (protocol_decode m (tx_data (hop_request nh e)) (tx_len (hop_request nh e))) \<noteq> None"
      using hop_request_decode [OF ok len, of m nh] by simp
    then have "wire_ok (tx_data (hop_request nh e)) (tx_len (hop_request nh e))"
      by (simp add: protocol_decode_ok split: if_splits)
    moreover have "length (tx_data (hop_request nh e)) = 255"
      using b(1,2) by (simp add: hop_request_def Let_def)
    ultimately show ?thesis by (simp add: wf_req_def)
  qed
  then have "\<forall>r \<in> set (map (hop_request nh) (filter (pending_due dst now) (pq_entries pq))). P r"
    by (auto simp: pending_due_def intro: P)
  from feeds_push_all [OF q this sp(4)] sp(1) show ?thesis by simp
qed

lemma rx_handle_route_rpl_keeps:
  assumes P: "\<And>r. wf_req r \<Longrightarrow> P r" shows "keeps cfg P n0 (rx_handle_route_rpl cfg now frame pkt plo n0)"
proof (cases "\<exists>p. plo = Some p \<and> \<not> h_payload_len pkt < ROUTE_RPL_PAYLOAD_LEN")
  case False
  then show ?thesis by (auto simp: rx_handle_route_rpl_def Let_def split: option.split)
next
  case True
  then obtain p where p: "plo = Some p" "\<not> h_payload_len pkt < ROUTE_RPL_PAYLOAD_LEN" by blast
  define n where "n = node_count route_rpl_rx_total n0"
  let ?nh = "if rx_sender frame pkt \<noteq> 0 then rx_sender frame pkt else h_src_id pkt"
  let ?target = "get_u32 (p ! 0) (p ! 1) (p ! 2) (p ! 3)"
  obtain found nt1 where nf: "neighbor_find (nd_ntable n) ?nh now = (found, nt1)" by fastforce
  let ?metric = "case found of Some e \<Rightarrow> neighbor_link_score_full (nc_role cfg) e now
     | None \<Rightarrow> word_of_int (clamp_i32 (sint (fr_rssi_dbm frame) + 140) 0 80)"
  obtain m1 rc1 where ru: "route_cache_update (nc_role cfg) (ts_metrics n) (nd_routes n) ?target ?nh
      (p ! 8 + h_hop pkt + 1) ?metric RCACHE_FLAG_VALID now = (m1, rc1)" by fastforce
  define n1 where "n1 = node_count route_rpl_learn_total (n\<lparr>ts_metrics := m1, nd_routes := rc1, nd_ntable := nt1\<rparr>)"
  obtain m2 pq1 q1 drained where dr: "pending_queue_drain_for_dst (ts_metrics n1) (nd_pending n1) ?target ?nh (ts_queue n1) now
      = (m2, pq1, q1, drained)" by (metis prod_cases4)
  have eq: "rx_handle_route_rpl cfg now frame pkt plo n0 =
      n1\<lparr>ts_metrics := bump_by pending_queue_drained_total (ucast drained) m2, nd_pending := pq1, ts_queue := q1\<rparr>"
    unfolding rx_handle_route_rpl_def Let_def n_def [symmetric] p(1) option.case if_not_P [OF p(2)] nf prod.case ru n1_def [symmetric] dr ..
  show ?thesis
  proof (rule keepsI)
    assume "node_ok cfg n0"
    then have n: "node_ok cfg n" by (simp add: n_def node_count_def node_ok_def)
    have "ntable_ok nt1" using neighbor_find_ok [of "nd_ntable n" ?nh now] nf n by (simp add: node_ok_def)
    moreover have "rcache_ok (nc_role cfg) rc1"
      using route_cache_update_ok [of "nc_role cfg" "nd_routes n" "ts_metrics n" ?target ?nh "p ! 8 + h_hop pkt + 1" ?metric
          RCACHE_FLAG_VALID now] ru n by (simp add: node_ok_def)
    ultimately have n1: "node_ok cfg n1" using n by (simp add: n1_def node_count_def node_ok_def)
    have q: "ts_queue n1 = ts_queue n0" "nd_rx_ring n1 = nd_rx_ring n0" by (simp_all add: n1_def n_def node_count_def)
    have "pending_ok (nd_pending n1)" "rb_ok (ts_queue n1)" using n1 by (simp_all add: node_ok_def)
    from pending_queue_drain_feeds [OF this P dr] n1
    show "kept cfg P n0 (rx_handle_route_rpl cfg now frame pkt plo n0)"
      unfolding eq by (simp add: node_ok_def feeds_def q)
  qed
qed

lemma handle_mailbox_store_ok:
  "mailbox_ok st \<Longrightarrow> handle_mailbox_store my pkt p len now st = (evs, st') \<Longrightarrow> mailbox_ok st'"
  by (auto simp: handle_mailbox_store_def Let_def mailbox_insert_ok split: if_splits prod.splits)

lemma rx_services_keeps [simp]: "keeps cfg P n (rx_services cfg now frame pkt plo n)"
  by (auto simp: rx_services_def Let_def keeps_def node_ok_def handle_mailbox_store_ok split: option.split prod.split)

lemma rx_inject_keeps [simp]: "keeps cfg P n (rx_inject frame pkt n)"
  by (auto simp: rx_inject_def tb_lmp_advance_def Let_def keeps_def node_ok_def)

lemma rx_dispatch_keeps:
  assumes P: "\<And>r. wf_req r \<Longrightarrow> P r" shows "keeps cfg P n (snd (rx_dispatch cfg now frame pkt plo n))"
  using rx_send_ack_keeps [where P = P, OF P, of cfg n pkt]
    rx_handle_route_req_keeps [where P = P, OF P] rx_handle_route_rpl_keeps [where P = P, OF P]
  by (auto simp: rx_dispatch_def Let_def intro: keeps_trans keeps_trans [OF keeps_trans [OF _ rx_services_keeps] rx_inject_keeps])

section \<open>Acceptance and relaying\<close>

lemma bus_receive_rejected_tx: "rivr_bus_receive env data len meta (c, io) = (False, c', io') \<Longrightarrow> io_tx io' = io_tx io \<and> c' = c"
  by (auto simp: rivr_bus_receive_def Let_def split: if_splits prod.splits option.splits)

lemma rx_accept_keeps:
  assumes P: "\<And>r. wf_req r \<Longrightarrow> P r" and len: "length (fr_data frame) = 255" and run: "rx_accept cfg now frame n = (ok, n')"
  shows "keeps cfg P n n'"
proof (rule keepsI)
  assume n: "node_ok cfg n"
  let ?meta = "\<lparr>md_iface = fr_iface frame, md_rssi = ucast (fr_rssi_dbm frame), md_snr = fr_snr_db frame,
                  md_timestamp_ms = fr_rx_mono_ms frame, md_flags = 0\<rparr>"
  let ?io = "\<lparr>io_metrics = ts_metrics n, io_tx = ts_queue n, io_sent = nd_mirrored n\<rparr>"
  obtain c1 io1 where r: "rivr_bus_receive (nc_bus cfg) (fr_data frame) (unat (fr_len frame)) ?meta (nd_bus n, ?io) = (ok, c1, io1)"
    using run by (auto simp: rx_accept_def Let_def split: prod.splits)
  have q: "rb_ok (ts_queue n)" and d: "bus_dup_ok (nd_bus n)" using n by (simp_all add: node_ok_def)
  have "bus_dup_ok c1 \<and> feeds P (ts_queue n) (io_tx io1)"
  proof (cases ok)
    case False
    then have "c1 = nd_bus n \<and> io_tx io1 = ts_queue n" using bus_receive_rejected_tx r by fastforce
    with d q show ?thesis by simp
  next
    case True
    then have "ok = True" by simp
    note acc = r [unfolded this]
    obtain m1 hdr pl where len25: "25 \<le> unat (fr_len frame)"
      and pd: "protocol_decode (io_metrics ?io) (fr_data frame) (of_nat (unat (fr_len frame))) = (m1, Some (hdr, pl))"
      and c1: "c1 = bus_dup_step (h_src_id hdr, h_pkt_id hdr) (nd_bus n)"
      using bus_receive_accepts [OF acc] by blast
    have lt: "unat (fr_len frame) \<le> length (fr_data frame)" using len unat_u8_less [of "fr_len frame"] by simp
    have "wire_ok (fr_data frame) (fr_len frame)" using pd protocol_decode_SomeD [of "ts_metrics n"] by simp
    then have wf: "P (tx_request (fr_data frame) (fr_len frame) toa)" for toa using lt by (intro P) simp
    have tx: "io_tx io1 = (if fr_iface frame = RIVR_IFACE_LOCAL
        then snd (rb_try_push (tx_request (fr_data frame) (fr_len frame) (RF_TOA_APPROX_US (be_t_sym_us (nc_bus cfg)) (fr_len frame)))
               (ts_queue n))
        else ts_queue n)"
      using bus_receive_mirrors [OF acc, of hdr pl] pd by simp
    have "feeds P (ts_queue n) (snd (rb_try_push (tx_request (fr_data frame) (fr_len frame) toa) (ts_queue n)))" for toa
      using feeds_push [where P = P, OF q wf] by (metis prod.collapse)
    with q have "feeds P (ts_queue n) (io_tx io1)" unfolding tx by (simp split: if_split)
    moreover have "bus_dup_ok c1" using d by (simp add: c1 bus_dup_step_def bus_dup_add_ok)
    ultimately show ?thesis by simp
  qed
  with run r n show "kept cfg P n n'"
    by (auto simp: rx_accept_def Let_def node_ok_def feeds_def)
qed

lemma relay_policy_keeps: "relay_policy now h n = (r, n') \<Longrightarrow> keeps cfg P n n'"
proof (rule keepsI)
  assume r: "relay_policy now h n = (r, n')" and n: "node_ok cfg n"
  obtain ps v ttl where p: "policy_check (nd_flood n) h now (h_ttl h) = (ps, v, ttl)" by (metis prod_cases3)
  have "policy_ok ps" using policy_check_ok [OF _ p] n by (simp add: node_ok_def)
  with r p n show "kept cfg P n n'"
    by (auto simp: relay_policy_def Let_def node_count_def node_ok_def split: rivr_policy_verdict_t.splits)
qed

lemma relay_policy_header: "relay_policy now h n = (Some h', n') \<Longrightarrow> \<exists>ttl. h' = h\<lparr>h_ttl := ttl\<rparr>"
  by (auto simp: relay_policy_def Let_def split: prod.splits rivr_policy_verdict_t.splits intro: exI [of _ "h_ttl h"])

lemma relay_enqueue_keeps:
  assumes d: "decoded h plo" and P: "\<And>r. wf_req r \<Longrightarrow> P r" and run: "relay_enqueue now toa delay h plo n = (out, n')"
  shows "keeps cfg P n n'"
proof -
  let ?k = "unat (h_payload_len h)"
  have pos: "\<not> 25 + int ?k \<le> 0" by linarith
  note enc = encode_decoded(2) [OF d length_replicate] and wf = encoded_request [OF d length_replicate]
  obtain ok n1 where push: "node_push \<lparr>tx_data = frame_of h (payload_of plo) @ drop (25 + ?k) (replicate 255 0),
      tx_len = word_of_int (25 + int ?k), tx_toa_us = toa, tx_due_ms = now + delay\<rparr> n = (ok, n1)" by fastforce
  have "keeps cfg P n n1" by (rule keeps_push [where P = P, OF P [OF wf] push])
  then show ?thesis
    using run unfolding relay_enqueue_def Let_def enc prod.case if_not_P [OF pos] push
    by (auto split: bool.splits intro: keeps_trans)
qed

lemma relay_fwdset_keeps:
  assumes d: "decoded h plo" and P: "\<And>r. wf_req r \<Longrightarrow> P r" and run: "relay_fwdset cfg now toa delay h plo n = (out, n')"
  shows "keeps cfg P n n'"
proof -
  note e = relay_enqueue_keeps [where P = P, OF d P]
  show ?thesis
    using run by (auto simp: relay_fwdset_def Let_def split: if_splits intro: e keeps_trans [OF keeps_metrics e])
qed

lemma decide_relay_buckets:
  "rivr_fabric_decide_relay rep m fab h now = (m', fab', dec, x) \<Longrightarrow> length (fa_buckets fab') = length (fa_buckets fab)"
  by (auto simp: rivr_fabric_decide_relay_def fabric_score_def Let_def split: if_split_asm prod.splits fabric_decision_t.splits)

lemma relay_fabric_keeps:
  assumes d: "decoded h plo" and P: "\<And>r. wf_req r \<Longrightarrow> P r" and run: "relay_fabric cfg now toa delay h plo n = (out, n')"
  shows "keeps cfg P n n'"
proof -
  note f = relay_fwdset_keeps [where P = P, OF d P]
  have s: "keeps cfg P n (n\<lparr>ts_metrics := m, ts_fabric := fab\<rparr>)"
    if "rivr_fabric_decide_relay True (ts_metrics n) (ts_fabric n) h now = (m, fab, dec, x)" for m fab dec x
    using decide_relay_buckets [OF that] by (simp add: keeps_def node_ok_def tx_budgets_ok_def)
  show ?thesis
    using run by (auto simp: relay_fabric_def Let_def split: if_splits prod.splits intro: f s keeps_trans [OF s f])
qed

lemma rx_relay_keeps:
  assumes d: "decoded h plo" and P: "\<And>r. wf_req r \<Longrightarrow> P r" and run: "rx_relay cfg now toa fwd pkt h plo n = (out, n')"
  shows "keeps cfg P n n'"
proof (cases "fwd = RIVR_FWD_FORWARD")
  case True
  obtain ho n1 where p: "relay_policy now h (node_count flood_fwd_attempted_total n) = (ho, n1)" by fastforce
  have k1: "keeps cfg P n n1" by (rule keeps_trans [OF keeps_count relay_policy_keeps [OF p]])
  show ?thesis
  proof (cases ho)
    case None
    with run p k1 True show ?thesis by (simp add: rx_relay_def)
  next
    case (Some h')
    have d': "decoded h' plo" using relay_policy_header [OF p [unfolded Some]] d by auto
    have "keeps cfg P n1 n'" if "relay_fabric cfg now toa delay h' plo n1 = (out, n')" for delay
      using relay_fabric_keeps [where P = P, OF d' P that] .
    with run p k1 True Some show ?thesis by (auto simp: rx_relay_def split: if_splits intro: keeps_trans)
  qed
next
  case False
  with run show ?thesis by (cases fwd) (auto simp: rx_relay_def intro: keeps_trans [OF keeps_count] keeps_count)
qed

section \<open>A frame and the drain\<close>

definition budget_arrays :: "forward_budget_t \<Rightarrow> bool" where
  "budget_arrays b \<longleftrightarrow> budget_shape b \<and> length (fb_tx_originated_count b) = 8"

lemma fwdbudget_roll_arrays: "budget_arrays b \<Longrightarrow> budget_arrays (fwdbudget_roll_window b now)"
  by (simp add: fwdbudget_roll_window_def budget_arrays_def budget_shape_def Let_def)

lemma fwdbudget_check_arrays:
  "budget_arrays b \<Longrightarrow> routing_fwdbudget_check b pt toa now = (w, b1) \<Longrightarrow> budget_arrays b1"
  using fwdbudget_roll_arrays [of b now] by (auto simp: routing_fwdbudget_check_def Let_def split: if_splits)

lemma fwdbudget_record_arrays: "budget_arrays b \<Longrightarrow> budget_arrays (routing_fwdbudget_record b pt toa now)"
  using fwdbudget_roll_arrays [of b now]
  by (simp add: routing_fwdbudget_record_def budget_arrays_def budget_shape_def Let_def)

lemma budget_arrays_drops [simp]:
  "budget_arrays (b\<lparr>fb_fwd_drop_count := x\<rparr>) \<longleftrightarrow> budget_arrays b"
  "budget_arrays (b\<lparr>fb_total_fwd_drops := y\<rparr>) \<longleftrightarrow> budget_arrays b"
  by (simp_all add: budget_arrays_def budget_shape_def)

lemma opfwd_add_ok: "opfwd_ok t \<Longrightarrow> opfwd_ok (opfwd_suppress_add t src pid now)"
  by (auto simp: opfwd_suppress_add_def opfwd_ok_def Let_def unat_opfwd_next split: option.splits)

lemma flood_forward_ok:
  assumes "dedupe_ok c" "budget_arrays b" "routing_flood_forward m c (Some b) pkt my_id toa now = (res, m', c', fb', pkt')"
  shows "dedupe_ok c' \<and> (\<exists>b'. fb' = Some b' \<and> budget_arrays b')"
  using assms fwdbudget_check_arrays [OF assms(2)] routing_dedupe_check_ok [OF assms(1), of "h_src_id pkt" "h_pkt_id pkt" now]
  by (auto simp: routing_flood_forward_def Let_def fwdbudget_record_arrays split: prod.splits if_splits)

lemma rx_frame_keeps:
  assumes P: "\<And>r. wf_req r \<Longrightarrow> P r" and len: "length (fr_data frame) = 255" and run: "rx_frame cfg now frame n0 = (out, n')"
  shows "keeps cfg P n0 n'"
proof -
  obtain b n where ble: "source_handle_ble_origination cfg frame now n0 = (b, n)" by fastforce
  have k0: "keeps cfg P n0 n" using ble_origination_keeps [where P = P, OF P len, of cfg n0 now] ble by simp
  show ?thesis
  proof (cases b)
    case True
    with run ble k0 show ?thesis by (simp add: rx_frame_def)
  next
    case False
    obtain dec n1 where dec: "node_decode (fr_data frame) (fr_len frame) n = (dec, n1)" by fastforce
    have k1: "keeps cfg P n0 n1" by (rule keeps_trans [OF k0 keeps_decode [OF dec]])
    show ?thesis
    proof (cases dec)
      case None
      with run ble dec False keeps_trans [OF k1 keeps_count] show ?thesis by (auto simp: rx_frame_def)
    next
      case (Some hp)
      obtain pkt plo where hp: "hp = (pkt, plo)" by fastforce
      have lt: "unat (fr_len frame) \<le> length (fr_data frame)" using len unat_u8_less [of "fr_len frame"] by simp
      have d: "decoded pkt plo" using node_decode_decoded [OF _ lt] dec Some hp by blast
      obtain ok n2 where acc: "rx_accept cfg now frame n1 = (ok, n2)" by fastforce
      have k2: "keeps cfg P n0 n2" by (rule keeps_trans [OF k1 rx_accept_keeps [where P = P, OF P len acc]])
      obtain fwd m1 dd1 fb1 fwd_hdr where fl: "routing_flood_forward (ts_metrics n2) (nd_dedupe n2) (Some (nd_budget n2)) pkt
          (nc_my_id cfg) (node_toa cfg (fr_len frame)) now = (fwd, m1, dd1, fb1, fwd_hdr)" by (metis prod_cases5)
      define n3 where "n3 = n2\<lparr>ts_metrics := m1, nd_dedupe := dd1, nd_budget := (case fb1 of None \<Rightarrow> nd_budget n2 | Some b \<Rightarrow> b)\<rparr>"
      have "keeps cfg P n2 n3"
        using flood_forward_ok [OF _ _ fl] by (auto simp: keeps_def node_ok_def n3_def budget_arrays_def)
      with k2 have k3: "keeps cfg P n0 n3" by (rule keeps_trans)
      have k3': "keeps cfg P n0 (n3\<lparr>ts_opfwd := opfwd_suppress_add (ts_opfwd n3) (h_src_id pkt) (h_pkt_id pkt) now\<rparr>)"
        by (intro keeps_trans [OF k3]) (simp add: keeps_def node_ok_def opfwd_add_ok)
      define n4 where "n4 = (if fwd = RIVR_FWD_DROP_LOOP then n3 else rx_learn cfg now frame pkt n3)"
      have k4: "keeps cfg P n0 n4" unfolding n4_def using k3 keeps_trans [OF k3 rx_learn_keeps] by simp
      obtain go n5 where di: "rx_dispatch cfg now frame pkt plo n4 = (go, n5)" by fastforce
      have k5: "keeps cfg P n0 n5"
        using keeps_trans [OF k4 rx_dispatch_keeps [where P = P, OF P]] di by (metis snd_conv)
      obtain ro n6 where rel: "rx_relay cfg now (node_toa cfg (fr_len frame)) fwd pkt fwd_hdr plo n5 = (ro, n6)" by fastforce
      have "fwd_hdr = (if fwd = RIVR_FWD_FORWARD then relay_hdr pkt else pkt)"
        using flood_pkt [of "ts_metrics n2" "nd_dedupe n2" "Some (nd_budget n2)" pkt "nc_my_id cfg" "node_toa cfg (fr_len frame)" now] fl
        by simp
      then have dh: "decoded fwd_hdr plo" using d by (simp add: relay_hdr_def)
      have k6: "keeps cfg P n0 n6" by (rule keeps_trans [OF k5 rx_relay_keeps [where P = P, OF dh P rel]])
      have "n' \<in> {n1, node_count rx_net_id_drop n1, n2, n3,
          n3\<lparr>ts_opfwd := opfwd_suppress_add (ts_opfwd n3) (h_src_id pkt) (h_pkt_id pkt) now\<rparr>, n5, n6}"
        using run unfolding rx_frame_def ble prod.case dec Some hp option.case acc fl Let_def n3_def [symmetric]
          n4_def [symmetric] di rel
        using False by (simp split: if_splits bool.splits)
      with k1 k2 k3 k3' k5 k6 keeps_trans [OF k1 keeps_count] show ?thesis by blast
    qed
  qed
qed

lemma rx_pop_keeps:
  assumes n: "node_ok cfg n" and pop: "rb_pop (nd_rx_ring n) = (r, q)"
  shows "node_ok cfg (n\<lparr>nd_rx_ring := q\<rparr>) \<and> (\<forall>f. r = Some f \<longrightarrow> length (fr_data f) = 255) \<and>
    rb_cap q = rb_cap (nd_rx_ring n) \<and>
    (case r of None \<Rightarrow> rb_contents (nd_rx_ring n) = [] \<and> rb_contents q = []
     | Some f \<Rightarrow> rb_contents (nd_rx_ring n) = f # rb_contents q)"
proof -
  have "rb_cap q = rb_cap (nd_rx_ring n)" using pop by (auto simp: rb_pop_def Let_def split: if_splits)
  moreover have ring: "rb_ok (nd_rx_ring n)" using n by (simp add: node_ok_def)
  note s = rb_pop_spec [OF this pop]
  ultimately show ?thesis using n s by (cases "rb_contents (nd_rx_ring n)") (auto simp: node_ok_def)
qed

text \<open>One drain takes at most \<open>k\<close> frames from the front of the ring, in order.\<close>

lemma rx_drain_from_keeps:
  assumes P: "\<And>r. wf_req r \<Longrightarrow> P r"
  shows "node_ok cfg n \<Longrightarrow> rx_drain_from cfg now k n = (xs, n') \<Longrightarrow>
    node_ok cfg n' \<and> feeds P (ts_queue n) (ts_queue n') \<and>
    rb_contents (nd_rx_ring n') = drop k (rb_contents (nd_rx_ring n)) \<and> rb_cap (nd_rx_ring n') = rb_cap (nd_rx_ring n) \<and>
    length xs = min k (length (rb_contents (nd_rx_ring n)))"
proof (induction k arbitrary: n xs)
  case (Suc k)
  obtain r q where pop: "rb_pop (nd_rx_ring n) = (r, q)" by fastforce
  note p = rx_pop_keeps [OF Suc.prems(1) pop]
  show ?case
  proof (cases r)
    case None
    with Suc.prems pop p show ?thesis by (auto simp: node_ok_def)
  next
    case (Some frame)
    obtain x n1 where f: "rx_frame cfg now frame (n\<lparr>nd_rx_ring := q\<rparr>) = (x, n1)" by fastforce
    obtain ys where d: "rx_drain_from cfg now k n1 = (ys, n')" and xs: "xs = x # ys"
      using Suc.prems pop Some f by (auto split: prod.splits)
    have k: "kept cfg P (n\<lparr>nd_rx_ring := q\<rparr>) n1"
      using rx_frame_keeps [where P = P, OF P _ f] p Some by (simp add: keeps_def)
    have "node_ok cfg n1" using k by blast
    from Suc.IH [OF this d] k have ih: "node_ok cfg n'" "feeds P (ts_queue n1) (ts_queue n')"
      "rb_contents (nd_rx_ring n') = drop k (rb_contents q)" "rb_cap (nd_rx_ring n') = rb_cap q"
      "length ys = min k (length (rb_contents q))" by auto
    have "feeds P (ts_queue n) (ts_queue n')" using k ih(2) feeds_trans [of P "ts_queue n" "ts_queue n1"] by simp
    with ih p Some xs show ?thesis by simp
  qed
qed (auto simp: node_ok_def)

section \<open>Timers\<close>

lemma sources_register_timer_keeps: "keeps cfg P n (sources_register_timer name iv now n)"
  by (auto simp: keeps_def node_ok_def sources_register_timer_def word_le_nat_alt unat_word_ariths)

lemma sources_timer_reset_keeps: "keeps cfg P n (sources_timer_reset n)"
  by (simp add: keeps_def node_ok_def sources_timer_reset_def)

lemma timer_visit_keeps: "keeps cfg P n (timer_visit now i n)"
  by (simp add: keeps_def node_ok_def timer_visit_def Let_def)

lemma sources_timer_drain_keeps: "keeps cfg P n (sources_timer_drain now n)"
proof -
  have "keeps cfg P n (fold (timer_visit now) is n)" for "is"
    by (induction "is" arbitrary: n) (auto intro: keeps_trans [OF timer_visit_keeps])
  then show ?thesis by (simp add: sources_timer_drain_def)
qed

section \<open>The retry tick\<close>

lemma fallback_flood_wf: "retry_entry_ok e \<Longrightarrow> re_valid e \<Longrightarrow> wf_req (build_fallback_flood e pid)"
proof -
  assume e: "retry_entry_ok e" "re_valid e"
  then have w: "wire_ok (re_data e) (re_len e)" "length (re_data e) = 255" by (simp_all add: retry_entry_ok_def)
  have l: "tx_len (build_fallback_flood e pid) = re_len e" "length (tx_data (build_fallback_flood e pid)) = 255"
    using w(2) unat_u8_less [of "re_len e"] by (simp_all add: build_fallback_flood_def Let_def tx_request_def)
  have "snd (protocol_decode metrics_zero (tx_data (build_fallback_flood e pid)) (re_len e)) \<noteq> None"
    by (simp add: fallback_flood_decodes [OF w])
  then show ?thesis using l by (simp add: wf_req_def protocol_decode_ok split: if_splits)
qed

lemma retry_patched_request_wf:
  assumes "retry_entry_ok e" "re_valid e"
  shows "wf_req (tx_request (re_data (retry_patched e pid)) (re_len (retry_patched e pid)) (re_toa_us (retry_patched e pid)))"
proof -
  have "wire_ok (re_data (retry_patched e pid)) (re_len (retry_patched e pid))" "length (re_data (retry_patched e pid)) = 255"
    using retry_patched_ok [OF assms, of pid] assms(2) by (simp_all add: retry_entry_ok_def retry_patched_def)
  then show ?thesis using unat_u8_less [of "re_len (retry_patched e pid)"] by simp
qed

lemma retry_tick_slot_feeds:
  assumes ok: "retry_ok role rt" and i: "i < RIVR_RETRY_TABLE_SIZE role" and q: "rb_ok q" and P: "\<And>r. wf_req r \<Longrightarrow> P r"
    and run: "retry_tick_slot now i (m, rt, q, ctr, pushed) = (m', rt', q', ctr', pushed')"
  shows "feeds P q q' \<and> retry_ok role rt'"
proof -
  let ?e = "rt_entries rt ! i"
  have e: "retry_entry_ok ?e" using ok i by (simp add: retry_ok_def retry_slots.ok_def)
  have rt': "retry_ok role rt'" using retry_tick_slot_ok [OF ok i, of now m q ctr pushed] run by simp
  show ?thesis
  proof (cases "retry_due now ?e")
    case False
    with run q rt' show ?thesis by (auto simp: retry_tick_slot_def Let_def)
  next
    case True
    then have v: "re_valid ?e" by (simp add: retry_due_def)
    note f = feeds_push [where P = P, OF q]
    show ?thesis
      using run True rt' f [OF P [OF retry_patched_request_wf [OF e v]]] f [OF P [OF fallback_flood_wf [OF e v]]]
      by (auto simp: retry_tick_slot_def Let_def split: if_splits prod.splits)
  qed
qed

lemma retry_tick_feeds:
  assumes P: "\<And>r. wf_req r \<Longrightarrow> P r"
  shows "\<forall>i \<in> set is. i < RIVR_RETRY_TABLE_SIZE role \<Longrightarrow> retry_ok role rt \<Longrightarrow> rb_ok q \<Longrightarrow>
    fold (retry_tick_slot now) is (m, rt, q, ctr, pushed) = (m', rt', q', ctr', pushed') \<Longrightarrow> feeds P q q' \<and> retry_ok role rt'"
proof (induction "is" arbitrary: m rt q ctr pushed)
  case (Cons i "is")
  obtain m1 rt1 q1 c1 p1 where s: "retry_tick_slot now i (m, rt, q, ctr, pushed) = (m1, rt1, q1, c1, p1)" by (metis prod_cases5)
  have f: "feeds P q q1 \<and> retry_ok role rt1"
    using retry_tick_slot_feeds [where P = P, OF Cons.prems(2) _ Cons.prems(3) P s] Cons.prems(1) by simp
  then have "feeds P q1 q' \<and> retry_ok role rt'"
    using Cons.IH [of rt1 q1 m1 c1 p1] Cons.prems s by (simp add: feeds_def)
  with f show ?case using feeds_trans by blast
qed auto

lemma sources_rf_rx_drain_keeps:
  assumes P: "\<And>r. wf_req r \<Longrightarrow> P r" and n: "node_ok cfg n" and run: "sources_rf_rx_drain cfg now n = (xs, n')"
  shows "node_ok cfg n' \<and> feeds P (ts_queue n) (ts_queue n') \<and>
    rb_contents (nd_rx_ring n') = drop SOURCES_RF_RX_DRAIN_LIMIT (rb_contents (nd_rx_ring n)) \<and>
    rb_cap (nd_rx_ring n') = rb_cap (nd_rx_ring n) \<and>
    length xs = min SOURCES_RF_RX_DRAIN_LIMIT (length (rb_contents (nd_rx_ring n)))"
proof -
  obtain m1 rt1 q1 c1 p1 where t: "retry_table_tick (nc_role cfg) (ts_metrics n) (nd_retry n) (ts_queue n) (nd_ctrl_seq n) now
      = (m1, rt1, q1, c1, p1)" by (metis prod_cases5)
  let ?n1 = "n\<lparr>ts_metrics := m1, nd_retry := rt1, ts_queue := q1, nd_ctrl_seq := c1\<rparr>"
  have f: "feeds P (ts_queue n) q1 \<and> retry_ok (nc_role cfg) rt1"
    using retry_tick_feeds [where P = P and role = "nc_role cfg", OF P _ _ _ t [unfolded retry_table_tick_def]] n
    by (simp add: node_ok_def)
  with n have n1: "node_ok cfg ?n1" by (simp add: node_ok_def feeds_def)
  have "rx_drain_from cfg now SOURCES_RF_RX_DRAIN_LIMIT ?n1 = (xs, n')"
    using run t by (simp add: sources_rf_rx_drain_def)
  from rx_drain_from_keeps [where P = P, OF P n1 this] f show ?thesis
    using feeds_trans [of P "ts_queue n" q1] by auto
qed

end
