(* ===== verification/Rivr_System.thy ===== *)
theory Rivr_System
  imports Rivr_Sources Rivr_SendQueue
begin

text \<open>
  The node as a whole: boot and hot reload (rivr_layer/rivr_embed.c), the tick that connects the
  sources, the engine and the sinks, the ingress of the host transports, and the iterations of the
  main loop (main.c). The Rivr engine, which is written in Rust, is a parameter: which programs it
  accepts, which timer sources a program has, and the values it emits in a tick. Logging, the
  statistics, the display and the sensors are left out. The invariant of the tables and queues is
  lifted to every state that boot and the main loop can reach.
\<close>

section \<open>Boot and reload\<close>

record engine_t =
  en_init :: "u8 list \<Rightarrow> bool"
  en_timers :: "u8 list \<Rightarrow> (u8 list \<times> u64) list"

text \<open>The flash returns the stored C string if it is not empty and fits the buffer with its NUL.\<close>

definition nvs_load_program :: "node_t \<Rightarrow> u8 list option" where
  "nvs_load_program n =
     (let s = c_str (nd_stored_program n) in if s \<noteq> [] \<and> length s < 2048 then Some s else None)"

definition s_timer_reg_cb :: "u32 \<Rightarrow> u8 list \<times> u64 \<Rightarrow> node_t \<Rightarrow> node_t" where
  "s_timer_reg_cb now t n =
     sources_register_timer (fst t) (if snd t > 0xFFFFFFFF then 0xFFFFFFFF else ucast (snd t)) now n"

definition embed_program :: "node_t \<Rightarrow> u8 list \<times> node_t" where
  "embed_program n =
     (case nvs_load_program n of
        Some p \<Rightarrow> (p, n)
      | None \<Rightarrow> (case rivr_policy_build_program 768 (nd_params n) of (p, ps) \<Rightarrow> (p, n\<lparr>nd_params := ps\<rparr>)))"

text \<open>None: the engine refused the program and the task sleeps for ever.\<close>

definition rivr_embed_init :: "node_cfg \<Rightarrow> engine_t \<Rightarrow> u32 \<Rightarrow> node_t \<Rightarrow> node_t option" where
  "rivr_embed_init cfg eng now n =
     (let n1 = n\<lparr>nd_dedupe := routing_dedupe_init, nd_budget := routing_fwdbudget_init (nc_role cfg),
                 nd_nbrs := routing_neighbor_init, nd_ntable := neighbor_table_init,
                 nd_routes := route_cache_init (nc_role cfg), nd_pending := pending_queue_init\<rparr>;
          n2 = rivr_sinks_init cfg now n1
      in case embed_program n2 of
           (prog, n3) \<Rightarrow>
             if \<not> en_init eng prog then None
             else Some (fold (s_timer_reg_cb now) (en_timers eng prog) n3))"

definition rivr_embed_reload :: "engine_t \<Rightarrow> u32 \<Rightarrow> node_t \<Rightarrow> bool \<times> node_t" where
  "rivr_embed_reload eng now n =
     (case embed_program (sources_timer_reset n) of
        (prog, n1) \<Rightarrow>
          if \<not> en_init eng prog then (False, n1\<lparr>nd_reload_pending := False\<rparr>)
          else
            let n2 = fold (s_timer_reg_cb now) (en_timers eng prog) n1
            in (True, n2\<lparr>nd_reload_pending := False, nd_params := rivr_policy_notify_reload (nd_params n2)\<rparr>))"

text \<open>The memory of a node at power-up with the two rings set up (\<open>radio_init\<close>) and the policy, the
  fabric, the duty cycle and the airtime budget initialised.\<close>

definition rx_frame_zero :: rf_rx_frame_t where
  "rx_frame_zero = \<lparr>fr_data = replicate 255 0, fr_len = 0, fr_rssi_dbm = 0, fr_snr_db = 0, fr_rx_mono_ms = 0,
     fr_from_id = 0, fr_iface = RIVR_IFACE_LORA\<rparr>"

abbreviation "RF_RX_RINGBUF_CAP \<equiv> (8 :: u32)"

definition node_power_up :: "node_cfg \<Rightarrow> u8 list \<Rightarrow> node_t" where
  "node_power_up cfg stored =
     \<lparr>ts_queue = rb_init (replicate 4 (tx_request [] 0 0)) RF_TX_QUEUE_CAP, ts_opfwd = opfwd_init,
      ts_airtime = airtime_sched_init, ts_dc = dutycycle_init,
      ts_fabric = rivr_fabric_init (b_fabric_repeater (nc_build cfg)) fabric_boot, ts_metrics = metrics_zero,
      nd_rx_ring = rb_init (replicate 8 rx_frame_zero) RF_RX_RINGBUF_CAP,
      nd_timers = replicate (unat RIVR_TIMER_MAX) timer_zero, nd_timer_count = 0,
      nd_retry = retry_table_init (nc_role cfg), nd_pending = pending_queue_init,
      nd_routes = route_cache_init (nc_role cfg), nd_ntable = neighbor_table_init, nd_nbrs = routing_neighbor_init,
      nd_dedupe = routing_dedupe_init, nd_budget = routing_fwdbudget_init (nc_role cfg),
      nd_bus = rivr_bus_init, nd_mirrored = [], nd_flood = policy_init, nd_mailbox = mailbox_store_zero,
      nd_params = rivr_policy_init (nc_params cfg), nd_beacon = beacon_sched_zero, nd_ctrl_seq = 0, nd_lmp_tick = 0,
      nd_rx_frame_count = 0, nd_tx_frame_count = 0, nd_last_rssi_dbm = 0, nd_last_snr_db = 0,
      nd_stored_program = stored, nd_reload_pending = False, nd_out = []\<rparr>"

definition rivr_subsystems_init :: "node_cfg \<Rightarrow> engine_t \<Rightarrow> u32 \<Rightarrow> u8 list \<Rightarrow> node_t option" where
  "rivr_subsystems_init cfg eng now stored =
     map_option (\<lambda>n. n\<lparr>nd_bus := rivr_bus_init\<rparr>) (rivr_embed_init cfg eng now (node_power_up cfg stored))"

section \<open>The tick\<close>

datatype sink_cb = Sink_Rf_Tx | Sink_Beacon | Sink_Usb_Print | Sink_Log

text \<open>The registration table after \<open>rivr_sinks_init\<close>.\<close>

definition s_sinks :: "(u8 list \<times> sink_cb) list" where
  "s_sinks = [(ascii ''io.lora.tx'', Sink_Rf_Tx), (ascii ''io.lora.beacon'', Sink_Beacon),
              (ascii ''io.usb.print'', Sink_Usb_Print), (ascii ''log'', Sink_Log)]"

text \<open>An emit: the sink's name, the value, and the time the sink reads.\<close>

definition rivr_emit_dispatch :: "node_cfg \<Rightarrow> u8 list \<times> rivr_value_t \<times> u32 \<Rightarrow> node_t \<Rightarrow> node_t" where
  "rivr_emit_dispatch cfg e n =
     (case e of (name, v, now) \<Rightarrow>
        case map_of s_sinks name of
          Some Sink_Rf_Tx \<Rightarrow> rf_tx_sink_cb cfg now v n
        | Some Sink_Beacon \<Rightarrow> beacon_sink_cb cfg now n
        | _ \<Rightarrow> n)"

definition rivr_tick ::
  "node_cfg \<Rightarrow> u32 \<Rightarrow> u32 \<Rightarrow> (u8 list \<times> rivr_value_t \<times> u32) list \<Rightarrow> node_t \<Rightarrow> rx_outcome list \<times> node_t" where
  "rivr_tick cfg rx_now timer_now emits n =
     (case sources_rf_rx_drain cfg rx_now n of
        (xs, n1) \<Rightarrow> (xs, fold (rivr_emit_dispatch cfg) emits (sources_timer_drain timer_now n1)))"

section \<open>Frames from the host\<close>

definition host_frame :: "rivr_iface_t \<Rightarrow> u8 list \<Rightarrow> u32 \<Rightarrow> rf_rx_frame_t" where
  "host_frame iface data now =
     \<lparr>fr_data = data @ replicate (255 - length data) 0, fr_len = of_nat (length data), fr_rssi_dbm = 0, fr_snr_db = 0,
      fr_rx_mono_ms = now, fr_from_id = 0, fr_iface = iface\<rparr>"

text \<open>A reassembled BLE write that is not a companion command; the length is 16 bits wide.\<close>

definition rivr_ble_service_handle_payload :: "u8 list \<Rightarrow> u32 \<Rightarrow> node_t \<Rightarrow> bool \<times> node_t" where
  "rivr_ble_service_handle_payload data now n =
     (if data = [] \<or> length data > 255 then (False, node_count ble_errors n)
      else case rb_try_push (host_frame RIVR_IFACE_BLE data now) (nd_rx_ring n) of
             (ok, q) \<Rightarrow> if ok then (True, node_count ble_rx_frames (n\<lparr>nd_rx_ring := q\<rparr>))
                        else (False, node_count ble_errors (n\<lparr>nd_rx_ring := q\<rparr>)))"

text \<open>The bytes of one UART read go through the SLIP receiver into the same ring; what the read leaves
  stays in the buffer of the UART driver.\<close>

definition node_usb_tick :: "bool \<Rightarrow> u32 \<Rightarrow> u8 list \<times> slip_rx_t \<times> node_t \<Rightarrow> u8 list \<times> slip_rx_t \<times> node_t" where
  "node_usb_tick ready now st =
     (case st of (uart, rx, n) \<Rightarrow>
        case rivr_iface_usb_tick ready now (uart, rx, nd_rx_ring n) of
          (uart1, rx1, q) \<Rightarrow> (uart1, rx1, n\<lparr>nd_rx_ring := q\<rparr>))"

section \<open>The main loop\<close>

record sys_t =
  sy_node :: node_t
  sy_outbox :: send_queue_t
  sy_slip :: slip_rx_t
  sy_uart :: "u8 list"
  sy_last_adapt_ms :: u32

text \<open>What an iteration meets: the frames the radio delivers, the emits of the engine, the radio's
  answers, the bytes that reach the UART driver of the USB bridge, and the readings of the clock.\<close>

record loop_in =
  li_radio_rx :: "rf_rx_frame_t list"
  li_rx_now :: u32
  li_timer_now :: u32
  li_emits :: "(u8 list \<times> rivr_value_t \<times> u32) list"
  li_outbox_now :: u32
  li_tx_now :: u32
  li_tx_radio :: tx_radio
  li_reload_now :: u32
  li_now :: u32
  li_usb_ready :: bool
  li_usb :: "u8 list"
  li_usb_now :: u32

definition radio_service_rx :: "rf_rx_frame_t list \<Rightarrow> node_t \<Rightarrow> node_t" where
  "radio_service_rx frames n = n\<lparr>nd_rx_ring := fold (\<lambda>f q. snd (rb_try_push f q)) frames (nd_rx_ring n)\<rparr>"

definition outbox_tick :: "node_cfg \<Rightarrow> u32 \<Rightarrow> send_queue_t \<Rightarrow> node_t \<Rightarrow> send_queue_t \<times> node_t" where
  "outbox_tick cfg now sq n =
     (if nc_role cfg = RoleGeneric then (sq, n)
      else case send_queue_tick (ts_metrics n) sq (ts_queue n) now of
             (m1, sq1, q1, _) \<Rightarrow> (sq1, n\<lparr>ts_metrics := m1, ts_queue := q1\<rparr>))"

text \<open>The share of the hourly duty cycle that is used, and the adaptive relay budget.\<close>

definition dc_pct :: "dc_ctx_t \<Rightarrow> u8" where
  "dc_pct dc =
     (let dc_rem = dutycycle_remaining_us dc
      in if DC_BUDGET_US > dc_rem then ucast ((DC_BUDGET_US - dc_rem) * 100 div DC_BUDGET_US) else 0)"

definition adapt_step :: "node_cfg \<Rightarrow> u32 \<Rightarrow> u32 \<Rightarrow> node_t \<Rightarrow> u32 \<times> node_t" where
  "adapt_step cfg now last_adapt n =
     (if RIVR_FEATURE_ADAPTIVE_FLOOD (nc_role cfg) \<and> now - last_adapt \<ge> FWDBUDGET_WINDOW_MS
      then (now, n\<lparr>nd_budget := routing_fwdbudget_adapt (nc_role cfg) (nd_budget n)
                    (if b_fabric_repeater (nc_build cfg) then fa_last_score (ts_fabric n) else 0)
                    (dc_pct (ts_dc n))\<rparr>)
      else (last_adapt, n))"

definition main_loop_step :: "node_cfg \<Rightarrow> engine_t \<Rightarrow> loop_in \<Rightarrow> sys_t \<Rightarrow> sys_t" where
  "main_loop_step cfg eng i s =
     (let n1 = radio_service_rx (li_radio_rx i) (sy_node s);
          n2 = snd (rivr_tick cfg (li_rx_now i) (li_timer_now i) (li_emits i) n1);
          (sq, n3) = outbox_tick cfg (li_outbox_now i) (sy_outbox s) n2;
          n4 = snd (node_tx_drain cfg (li_tx_radio i) (li_tx_now i) n3);
          n5 = (if nd_reload_pending n4 then snd (rivr_embed_reload eng (li_reload_now i) n4) else n4);
          n6 = n5\<lparr>ts_fabric := rivr_fabric_tick (b_fabric_repeater (nc_build cfg)) (li_now i) (ts_fabric n5)\<rparr>;
          (uart, rx, n7) = node_usb_tick (li_usb_ready i) (li_usb_now i) (sy_uart s @ li_usb i, sy_slip s, n6);
          (last_adapt, n8) = adapt_step cfg (li_now i) (sy_last_adapt_ms s) n7
      in \<lparr>sy_node = n8, sy_outbox = sq, sy_slip = rx, sy_uart = uart, sy_last_adapt_ms = last_adapt\<rparr>)"

section \<open>What keeps the node well formed\<close>

lemma any_keeps: "keeps cfg P n n' \<Longrightarrow> node_ok cfg n \<Longrightarrow> node_ok cfg n'"
  by (simp add: keeps_def)

lemma s_timer_reg_keeps: "keeps cfg P n (fold (s_timer_reg_cb now) ts n)"
proof (induction ts arbitrary: n)
  case (Cons t ts)
  have "keeps cfg P n (s_timer_reg_cb now t n)" by (simp add: s_timer_reg_cb_def sources_register_timer_keeps)
  from keeps_trans [OF this Cons.IH] show ?case by simp
qed simp

lemma embed_program_keeps: "embed_program n = (prog, n') \<Longrightarrow> keeps cfg P n n'"
proof -
  have "rp_params ps = rp_params (nd_params n)" if "rivr_policy_build_program 768 (nd_params n) = (p, ps)" for p ps
    using build_program_params [of 768 "nd_params n"] that by simp
  then show "embed_program n = (prog, n') \<Longrightarrow> keeps cfg P n n'"
    by (auto simp: embed_program_def keeps_def node_ok_def split: option.splits prod.splits)
qed

lemma node_power_up_ok: "node_ok cfg (node_power_up cfg stored)"
proof -
  have "rb_ok (rb_init (replicate 4 (tx_request [] 0 0)) (2 ^ 2))" "rb_ok (rb_init (replicate 8 rx_frame_zero) (2 ^ 3))"
    by (rule rb_init_ok; simp)+
  moreover have "dedupe_ok routing_dedupe_init" "opfwd_ok opfwd_init" "bus_dup_ok rivr_bus_init" "policy_ok policy_init"
    by (rule routing_dedupe_init_ok opfwd_init_ok rivr_bus_init_ok policy_init_ok)+
  ultimately show ?thesis
    by (simp add: node_ok_def node_power_up_def retry_table_init_ok pending_queue_init_ok route_cache_init_ok
        neighbor_table_init_ok routing_neighbor_init_def budget_shape_def routing_fwdbudget_init_def mailbox_zero_ok
        rivr_policy_init_def params_default_ok tx_budgets_ok_def airtime_sched_init_ok dutycycle_init_ok
        rivr_fabric_init_def fabric_boot_def)
qed

lemma rivr_embed_init_keeps:
  assumes n: "node_ok cfg n" and run: "rivr_embed_init cfg eng now n = Some n'"
  shows "node_ok cfg n'"
proof -
  let ?n1 = "n\<lparr>nd_dedupe := routing_dedupe_init, nd_budget := routing_fwdbudget_init (nc_role cfg),
     nd_nbrs := routing_neighbor_init, nd_ntable := neighbor_table_init,
     nd_routes := route_cache_init (nc_role cfg), nd_pending := pending_queue_init\<rparr>"
  have n1: "node_ok cfg ?n1"
    using n by (simp add: node_ok_def routing_dedupe_init_ok budget_shape_def routing_fwdbudget_init_def
        routing_neighbor_init_def neighbor_table_init_ok route_cache_init_ok pending_queue_init_ok)
  obtain prog n3 where p: "embed_program (rivr_sinks_init cfg now ?n1) = (prog, n3)" by fastforce
  have "keeps cfg (\<lambda>_. True) ?n1 n3"
    by (rule keeps_trans [OF rivr_sinks_init_keeps embed_program_keeps [OF p]]) simp
  from any_keeps [OF keeps_trans [OF this s_timer_reg_keeps] n1] show ?thesis
    using run p by (auto simp: rivr_embed_init_def Let_def split: if_splits)
qed

lemma rivr_embed_reload_keeps: "keeps cfg P n (snd (rivr_embed_reload eng now n))"
proof -
  obtain prog n1 where p: "embed_program (sources_timer_reset n) = (prog, n1)" by fastforce
  note k = keeps_trans [OF sources_timer_reset_keeps embed_program_keeps [OF p], of cfg P]
  have "keeps cfg P n' (n'\<lparr>nd_reload_pending := b\<rparr>)"
    "keeps cfg P n' (n'\<lparr>nd_reload_pending := b, nd_params := rivr_policy_notify_reload (nd_params n')\<rparr>)" for n' b
    by (simp_all add: keeps_def node_ok_def rivr_policy_notify_reload_def)
  note f = this
  show ?thesis
    using keeps_trans [OF k f(1)] keeps_trans [OF keeps_trans [OF k s_timer_reg_keeps] f(2)]
    by (simp add: rivr_embed_reload_def p Let_def)
qed

lemma emit_dispatch_keeps: "keeps cfg (\<lambda>_. True) n (fold (rivr_emit_dispatch cfg) emits n)"
proof (induction emits arbitrary: n)
  case (Cons e emits)
  have "keeps cfg (\<lambda>_. True) n (rivr_emit_dispatch cfg e n)"
    by (auto simp: rivr_emit_dispatch_def rf_tx_sink_keeps beacon_sink_keeps split: prod.split option.split sink_cb.split)
  from keeps_trans [OF this Cons.IH] show ?case by simp
qed simp

lemma rivr_tick_ok:
  assumes "node_ok cfg n" "rivr_tick cfg rx_now timer_now emits n = (xs, n')"
  shows "node_ok cfg n'"
proof -
  obtain n1 where d: "sources_rf_rx_drain cfg rx_now n = (xs, n1)" "n' = fold (rivr_emit_dispatch cfg) emits (sources_timer_drain timer_now n1)"
    using assms(2) by (auto simp: rivr_tick_def split: prod.splits)
  have "node_ok cfg n1" using sources_rf_rx_drain_keeps [where P = "\<lambda>_. True", OF TrueI assms(1) d(1)] by simp
  from any_keeps [OF keeps_trans [OF sources_timer_drain_keeps emit_dispatch_keeps] this] show ?thesis by (simp add: d(2))
qed

section \<open>The rings and the outbox\<close>

lemma rx_push_ok:
  assumes "node_ok cfg n" "length (fr_data f) = 255" "rb_try_push f (nd_rx_ring n) = (ok, q)"
  shows "node_ok cfg (n\<lparr>nd_rx_ring := q\<rparr>)"
  using rb_try_push_spec [OF _ assms(3)] assms(1,2) by (auto simp: node_ok_def split: if_splits)

lemma radio_service_rx_ok:
  "node_ok cfg n \<Longrightarrow> \<forall>f \<in> set frames. length (fr_data f) = 255 \<Longrightarrow> node_ok cfg (radio_service_rx frames n)"
proof (induction frames arbitrary: n)
  case (Cons f frames)
  obtain ok q where p: "rb_try_push f (nd_rx_ring n) = (ok, q)" by fastforce
  have "node_ok cfg (n\<lparr>nd_rx_ring := q\<rparr>)" using rx_push_ok [OF Cons.prems(1) _ p] Cons.prems(2) by simp
  from Cons.IH [OF this] Cons.prems(2) p show ?case by (simp add: radio_service_rx_def)
qed (simp add: radio_service_rx_def)

lemma host_frame_length: "length data \<le> 255 \<Longrightarrow> length (fr_data (host_frame iface data now)) = 255"
  by (simp add: host_frame_def)

lemma ble_handle_payload_ok:
  "node_ok cfg n \<Longrightarrow> rivr_ble_service_handle_payload data now n = (ok, n') \<Longrightarrow> node_ok cfg n'"
  using rx_push_ok [of cfg n "host_frame RIVR_IFACE_BLE data now"] host_frame_length [of data RIVR_IFACE_BLE now]
  by (auto simp: rivr_ble_service_handle_payload_def split: if_splits prod.splits intro: any_keeps [OF keeps_count, rotated])

lemma usb_byte_ring:
  assumes "slip_ok rx" "rb_ok ring" "\<forall>f \<in> set (rb_contents ring). length (fr_data f) = 255"
    and "usb_tick_byte now b (rx, ring) = (rx', ring')"
  shows "slip_ok rx' \<and> rb_ok ring' \<and> (\<forall>f \<in> set (rb_contents ring'). length (fr_data f) = 255)"
proof -
  obtain r rx1 where f: "slip_feed b rx = (r, rx1)" by fastforce
  have ok1: "slip_ok rx1" using slip_feed_ok [OF assms(1), of b] f by simp
  show ?thesis
  proof (cases r)
    case None
    with assms f ok1 show ?thesis by (simp add: usb_tick_byte_def)
  next
    case (Some k)
    define frame where "frame = \<lparr>fr_data = take (unat k) (sl_buf rx1) @ replicate (255 - unat k) 0, fr_len = k,
       fr_rssi_dbm = 0, fr_snr_db = 0, fr_rx_mono_ms = now, fr_from_id = 0, fr_iface = RIVR_IFACE_USB\<rparr>"
    have len: "length (fr_data frame) = 255"
      using ok1 unat_u8_less [of k] by (simp add: frame_def slip_ok_def)
    obtain ok q where p: "rb_try_push frame ring = (ok, q)" by fastforce
    have "rx' = rx1" "ring' = q" using assms(4) f Some p by (auto simp: usb_tick_byte_def frame_def)
    with ok1 assms(3) len rb_try_push_spec [OF assms(2) p] show ?thesis by (auto split: if_splits)
  qed
qed

lemma node_usb_tick_ok:
  assumes "slip_ok rx" "node_ok cfg n" "node_usb_tick ready now (uart, rx, n) = (uart', rx', n')"
  shows "slip_ok rx' \<and> node_ok cfg n'"
proof -
  have fold: "slip_ok rx1 \<and> rb_ok r1 \<and> (\<forall>f \<in> set (rb_contents r1). length (fr_data f) = 255)"
    if "fold (usb_tick_byte now) bs (rx0, r0) = (rx1, r1)" "slip_ok rx0" "rb_ok r0"
      "\<forall>f \<in> set (rb_contents r0). length (fr_data f) = 255" for bs rx0 r0 rx1 r1
    using that
  proof (induction bs arbitrary: rx0 r0)
    case (Cons b bs)
    obtain rx2 r2 where s: "usb_tick_byte now b (rx0, r0) = (rx2, r2)" by fastforce
    from usb_byte_ring [OF Cons.prems(2-4) s] Cons.IH [of rx2 r2] Cons.prems(1) s show ?case by simp
  qed auto
  obtain q where q: "rivr_iface_usb_tick ready now (uart, rx, nd_rx_ring n) = (uart', rx', q)" "n' = n\<lparr>nd_rx_ring := q\<rparr>"
    using assms(3) by (auto simp: node_usb_tick_def split: prod.splits)
  have "slip_ok rx' \<and> rb_ok q \<and> (\<forall>f \<in> set (rb_contents q). length (fr_data f) = 255)"
    using fold [of "take USB_DRAIN_CHUNK uart" rx "nd_rx_ring n"] q assms(1,2) by (auto simp: rivr_iface_usb_tick_def node_ok_def split: if_splits)
  with assms(2) show ?thesis by (simp add: q(2) node_ok_def)
qed

lemma outbox_tick_ok:
  assumes "sq_ok sq" "node_ok cfg n" "outbox_tick cfg now sq n = (sq', n')"
  shows "sq_ok sq' \<and> node_ok cfg n'"
proof (cases "nc_role cfg = RoleGeneric")
  case True
  with assms show ?thesis by (simp add: outbox_tick_def)
next
  case False
  obtain m1 q1 k where t: "send_queue_tick (ts_metrics n) sq (ts_queue n) now = (m1, sq', q1, k)"
    "n' = n\<lparr>ts_metrics := m1, ts_queue := q1\<rparr>"
    using assms(3) False by (auto simp: outbox_tick_def split: prod.splits)
  have q: "rb_ok (ts_queue n)" using assms(2) by (simp add: node_ok_def)
  have "rb_ok (snd (rb_try_push r (ts_queue n)))" for r
    using rb_try_push_spec(1) [OF q] by (metis prod.collapse)
  with send_queue_tick_spec [OF assms(1) t(1)] q assms(2) show ?thesis
    by (auto simp: t(2) node_ok_def split: list.splits)
qed

section \<open>The transmit drain inside a node\<close>

lemma tx_process_opfwd: "tx_process build radio now i r s = (x, s') \<Longrightarrow> ts_opfwd s' = ts_opfwd s"
  by (auto simp: tx_process_def tx_transmit_def Let_def split: if_splits prod.splits)

lemma tx_drain_opfwd: "tx_drain_from build radio now i k s = (xs, s') \<Longrightarrow> ts_opfwd s' = ts_opfwd s"
proof (induction k arbitrary: i s xs)
  case (Suc k)
  then show ?case by (auto split: prod.splits option.splits dest!: tx_process_opfwd)
qed simp

lemma node_tx_drain_ok:
  assumes n: "node_ok cfg n" and run: "node_tx_drain cfg radio now n = (xs, n')"
  shows "node_ok cfg n' \<and> nd_rx_ring n' = nd_rx_ring n"
proof -
  obtain s where d: "tx_drain_from (nc_build cfg) radio now 0 TX_DRAIN_LIMIT (tx_side_t.truncate n) = (xs, s)"
    "n' = tx_side_t.extend s (tx_side_t.more n)"
    using run by (auto simp: node_tx_drain_def tx_drain_loop_def split: prod.splits)
  have "rb_ok (ts_queue (tx_side_t.truncate n))" using n by (simp add: node_ok_def tx_side_t.defs)
  from tx_drain_from_accounts [OF this d(1)] tx_drain_opfwd [OF d(1)] tx_drain_budgets [OF d(1)] n show ?thesis
    by (cases n; cases s) (auto simp: node_ok_def d(2) tx_side_t.defs)
qed

lemma fwdbudget_adapt_arrays:
  "budget_shape (routing_fwdbudget_adapt role b x y) \<longleftrightarrow> budget_shape b"
  "fb_tx_originated_count (routing_fwdbudget_adapt role b x y) = fb_tx_originated_count b"
  by (simp_all add: routing_fwdbudget_adapt_def budget_shape_def Let_def)

lemma adapt_step_ok: "node_ok cfg n \<Longrightarrow> adapt_step cfg now t n = (t', n') \<Longrightarrow> node_ok cfg n'"
  by (auto simp: adapt_step_def node_ok_def fwdbudget_adapt_arrays simp del: if_split split: if_split_asm)

section \<open>Reachable states\<close>

definition sys_ok :: "node_cfg \<Rightarrow> sys_t \<Rightarrow> bool" where
  "sys_ok cfg s \<longleftrightarrow> node_ok cfg (sy_node s) \<and> sq_ok (sy_outbox s) \<and> slip_ok (sy_slip s)"

lemma main_loop_step_ok:
  assumes s: "sys_ok cfg s" and fr: "\<forall>f \<in> set (li_radio_rx i). length (fr_data f) = 255"
  shows "sys_ok cfg (main_loop_step cfg eng i s)"
proof -
  define n1 where "n1 = radio_service_rx (li_radio_rx i) (sy_node s)"
  obtain xs n2 where t: "rivr_tick cfg (li_rx_now i) (li_timer_now i) (li_emits i) n1 = (xs, n2)" by fastforce
  obtain sq n3 where o: "outbox_tick cfg (li_outbox_now i) (sy_outbox s) n2 = (sq, n3)" by fastforce
  obtain ys n4 where d: "node_tx_drain cfg (li_tx_radio i) (li_tx_now i) n3 = (ys, n4)" by fastforce
  define n5 where "n5 = (if nd_reload_pending n4 then snd (rivr_embed_reload eng (li_reload_now i) n4) else n4)"
  define n6 where "n6 = n5\<lparr>ts_fabric := rivr_fabric_tick (b_fabric_repeater (nc_build cfg)) (li_now i) (ts_fabric n5)\<rparr>"
  obtain uart rx n7 where u: "node_usb_tick (li_usb_ready i) (li_usb_now i) (sy_uart s @ li_usb i, sy_slip s, n6) = (uart, rx, n7)"
    by (cases "node_usb_tick (li_usb_ready i) (li_usb_now i) (sy_uart s @ li_usb i, sy_slip s, n6)") auto
  obtain la n8 where a: "adapt_step cfg (li_now i) (sy_last_adapt_ms s) n7 = (la, n8)" by fastforce
  have eq: "main_loop_step cfg eng i s = \<lparr>sy_node = n8, sy_outbox = sq, sy_slip = rx, sy_uart = uart, sy_last_adapt_ms = la\<rparr>"
    unfolding main_loop_step_def Let_def n1_def [symmetric] t snd_conv o prod.case d n5_def [symmetric]
      n6_def [symmetric] u a ..
  have "node_ok cfg n1" unfolding n1_def using s fr by (intro radio_service_rx_ok) (simp_all add: sys_ok_def)
  from rivr_tick_ok [OF this t] outbox_tick_ok [OF _ _ o] s have n3: "node_ok cfg n3" "sq_ok sq" by (simp_all add: sys_ok_def)
  have "node_ok cfg n4" using node_tx_drain_ok [OF n3(1) d] by simp
  then have "node_ok cfg n5" using any_keeps [OF rivr_embed_reload_keeps [of cfg "\<lambda>_. True"]] by (simp add: n5_def)
  then have "node_ok cfg n6" by (simp add: n6_def node_ok_def)
  from node_usb_tick_ok [OF _ this u] s adapt_step_ok [OF _ a] n3(2) show ?thesis by (simp add: sys_ok_def eq)
qed

text \<open>Every state a node can reach from boot: by iterations of the main loop, by a BLE write, and by
  the console queueing a frame of its own.\<close>

inductive sys_reach :: "node_cfg \<Rightarrow> engine_t \<Rightarrow> sys_t \<Rightarrow> bool" for cfg eng where
  boot: "rivr_subsystems_init cfg eng now stored = Some n \<Longrightarrow>
     sys_reach cfg eng \<lparr>sy_node = n, sy_outbox = send_queue_init, sy_slip = slip_init, sy_uart = [], sy_last_adapt_ms = 0\<rparr>"
| loop: "sys_reach cfg eng s \<Longrightarrow> \<forall>f \<in> set (li_radio_rx i). length (fr_data f) = 255 \<Longrightarrow>
     sys_reach cfg eng (main_loop_step cfg eng i s)"
| ble: "sys_reach cfg eng s \<Longrightarrow> rivr_ble_service_handle_payload data now (sy_node s) = (ok, n) \<Longrightarrow>
     sys_reach cfg eng (s\<lparr>sy_node := n\<rparr>)"
| console: "sys_reach cfg eng s \<Longrightarrow> len \<noteq> 0 \<Longrightarrow> unat len \<le> length data \<Longrightarrow>
     send_queue_enqueue (ts_metrics (sy_node s)) (sy_outbox s) data len toa now = (m, sq, acc) \<Longrightarrow>
     sys_reach cfg eng (s\<lparr>sy_node := (sy_node s)\<lparr>ts_metrics := m\<rparr>, sy_outbox := sq\<rparr>)"

lemma sys_reach_ok: "sys_reach cfg eng s \<Longrightarrow> sys_ok cfg s"
proof (induction rule: sys_reach.induct)
  case (boot now stored n)
  then obtain n0 where n0: "rivr_embed_init cfg eng now (node_power_up cfg stored) = Some n0" "n = n0\<lparr>nd_bus := rivr_bus_init\<rparr>"
    by (auto simp: rivr_subsystems_init_def)
  have "node_ok cfg n0" by (rule rivr_embed_init_keeps [OF node_power_up_ok n0(1)])
  then show ?case by (simp add: sys_ok_def n0(2) node_ok_def rivr_bus_init_ok send_queue_init_ok slip_init_ok)
next
  case (loop s i)
  then show ?case by (intro main_loop_step_ok)
next
  case (ble s data now ok n)
  then show ?case using ble_handle_payload_ok [OF _ ble(2), of cfg] by (simp add: sys_ok_def)
next
  case (console s len data toa now m sq acc)
  then show ?case
    using send_queue_enqueue_spec [OF _ console(2,3,4)] by (simp add: sys_ok_def node_ok_def)
qed

section \<open>The receive ring empties\<close>

fun rx_drains :: "node_cfg \<Rightarrow> u32 list \<Rightarrow> node_t \<Rightarrow> rx_outcome list \<times> node_t" where
  "rx_drains cfg [] n = ([], n)"
| "rx_drains cfg (now # nows) n =
     (case sources_rf_rx_drain cfg now n of
        (xs, n1) \<Rightarrow> (case rx_drains cfg nows n1 of (ys, n2) \<Rightarrow> (xs @ ys, n2)))"

lemma rx_drains_empty:
  "node_ok cfg n \<Longrightarrow> rx_drains cfg nows n = (xs, n') \<Longrightarrow>
   node_ok cfg n' \<and> rb_contents (nd_rx_ring n') = drop (4 * length nows) (rb_contents (nd_rx_ring n)) \<and>
   length xs = min (4 * length nows) (length (rb_contents (nd_rx_ring n)))"
proof (induction nows arbitrary: n xs)
  case (Cons now nows)
  obtain ys n1 where d: "sources_rf_rx_drain cfg now n = (ys, n1)" by fastforce
  obtain zs where r: "rx_drains cfg nows n1 = (zs, n')" "xs = ys @ zs" using Cons.prems(2) d by (auto split: prod.splits)
  note k = sources_rf_rx_drain_keeps [where P = "\<lambda>_. True", OF TrueI Cons.prems(1) d]
  then have "node_ok cfg n1" by simp
  note ih = Cons.IH [OF this r(1)]
  have "length xs = min 4 (length (rb_contents (nd_rx_ring n))) +
      min (4 * length nows) (length (rb_contents (nd_rx_ring n)) - 4)"
    using k ih r(2) by simp
  also have "\<dots> = min (4 * length (now # nows)) (length (rb_contents (nd_rx_ring n)))" by auto
  finally show ?case using ih k by (simp add: add.commute)
qed simp

section \<open>What is relayed\<close>

lemma relay_policy_some:
  "relay_policy now h n = (Some h', n') \<Longrightarrow> \<exists>ttl \<le> h_ttl h. h' = h\<lparr>h_ttl := ttl\<rparr>"
  by (auto simp: relay_policy_def policy_check_def Let_def split: prod.splits rivr_policy_verdict_t.splits if_splits
      intro: exI [of _ "h_ttl h"] exI [of _ "policy_ttl_cap (policy_classify (h_pkt_type h))"] less_imp_le)

lemma relay_enqueue_queued:
  assumes d: "decoded h plo" and m: "h_magic h = RIVR_MAGIC" "h_version h = RIVR_PROTO_VER"
    and q: "rb_ok (ts_queue n)" and run: "relay_enqueue now toa delay h plo n = (Relay_Queued req, n')"
  shows "protocol_decode mt (tx_data req) (tx_len req) = (mt, Some (h, plo)) \<and> tx_due_ms req = now + delay \<and>
    tx_toa_us req = toa \<and> rb_contents (ts_queue n') = rb_contents (ts_queue n) @ [req]"
proof -
  let ?k = "unat (h_payload_len h)"
  let ?req = "\<lparr>tx_data = frame_of h (payload_of plo) @ drop (25 + ?k) (replicate 255 0),
      tx_len = word_of_int (25 + int ?k), tx_toa_us = toa, tx_due_ms = now + delay\<rparr>"
  have pos: "\<not> 25 + int ?k \<le> 0" by linarith
  note enc = encode_decoded(2) [OF d length_replicate]
  obtain ok n1 where push: "node_push ?req n = (ok, n1)" by fastforce
  have r: "ok" "req = ?req" "n' = UPDATE_TXQ_PEAK n1"
    using run unfolding relay_enqueue_def Let_def enc prod.case if_not_P [OF pos] push by (auto split: bool.splits)
  obtain q1 where p: "rb_try_push ?req (ts_queue n) = (True, q1)" "n1 = n\<lparr>ts_queue := q1\<rparr>"
    using push r(1) by (auto simp: node_push_def split: prod.splits)
  have "rb_contents (ts_queue n') = rb_contents (ts_queue n) @ [req]"
    using rb_try_push_spec(4) [OF q p(1)] by (simp add: r p(2) UPDATE_TXQ_PEAK_def)
  moreover have "protocol_decode mt (tx_data req) (tx_len req) = (mt, Some (h, plo))"
    unfolding r(2) rf_tx_request_t.simps by (rule frame_of_header [OF d m])
  ultimately show ?thesis by (simp add: r(2))
qed

lemma holdoff_small: "unat (fwdset_extra_holdoff_ms fs) \<le> 200"
  by (simp add: fwdset_extra_holdoff_ms_def Let_def)

lemma relay_fwdset_queued:
  assumes "relay_fwdset cfg now toa delay h plo n = (Relay_Queued req, n')"
  shows "\<exists>extra n1. unat extra \<le> 200 \<and> ts_queue n1 = ts_queue n \<and>
    relay_enqueue now toa (delay + extra) h plo n1 = (Relay_Queued req, n')"
proof -
  let ?x = "fwdset_extra_holdoff_ms (fwdset_build (nc_role cfg) (nd_ntable n) now)"
  let ?n1 = "n\<lparr>ts_metrics := bump_by relay_delay_ms_total ?x (ts_metrics n)\<rparr>"
  have "relay_enqueue now toa (delay + 0) h plo n = (Relay_Queued req, n') \<or>
        relay_enqueue now toa (delay + ?x) h plo ?n1 = (Relay_Queued req, n')"
    using assms by (auto simp: relay_fwdset_def Let_def split: if_splits)
  then show ?thesis
  proof
    assume "relay_enqueue now toa (delay + 0) h plo n = (Relay_Queued req, n')"
    then show ?thesis by (intro exI [of _ 0] exI [of _ n]) simp
  next
    assume "relay_enqueue now toa (delay + ?x) h plo ?n1 = (Relay_Queued req, n')"
    then show ?thesis using holdoff_small by (intro exI [of _ ?x] exI [of _ ?n1]) simp
  qed
qed

lemma fabric_band_small: "unat (snd (fabric_band s)) \<le> 1000"
proof -
  have cap: "(if c < y then c else y) \<le> 1000" if "c \<le> 1000" for c y :: u32 using that by auto
  have "snd (fabric_band s) \<le> 1000" by (simp add: fabric_band_def Let_def cap del: if_split split: if_split)
  then show ?thesis by (simp add: word_le_nat_alt)
qed

lemma decide_relay_small:
  "rivr_fabric_decide_relay rep m fab h now = (m1, fab1, d, extra) \<Longrightarrow> unat extra \<le> 1000"
proof -
  assume r: "rivr_fabric_decide_relay rep m fab h now = (m1, fab1, d, extra)"
  obtain score fab2 where s: "fabric_score now (fab\<lparr>fa_relay_total := fa_relay_total fab + 1\<rparr>) = (score, fab2)" by fastforce
  have "extra = 0 \<or> extra = snd (fabric_band score)"
    using r by (auto simp: rivr_fabric_decide_relay_def s Let_def split: if_splits prod.splits fabric_decision_t.splits)
  then show ?thesis using fabric_band_small [of score] by auto
qed

lemma relay_fabric_queued:
  assumes "relay_fabric cfg now toa delay h plo n = (Relay_Queued req, n')"
  shows "\<exists>extra n1. unat extra \<le> 1200 \<and> ts_queue n1 = ts_queue n \<and>
    relay_enqueue now toa (delay + extra) h plo n1 = (Relay_Queued req, n')"
proof -
  have "\<exists>x n1. unat x \<le> 1000 \<and> ts_queue n1 = ts_queue n \<and> relay_fwdset cfg now toa (delay + x) h plo n1 = (Relay_Queued req, n')"
  proof (cases "b_fabric_repeater (nc_build cfg)")
    case False
    with assms show ?thesis by (intro exI [of _ 0] exI [of _ n]) (simp add: relay_fabric_def)
  next
    case True
    obtain m1 fab1 d x where dr: "rivr_fabric_decide_relay True (ts_metrics n) (ts_fabric n) h now = (m1, fab1, d, x)"
      by (metis prod_cases4)
    let ?n1 = "n\<lparr>ts_metrics := m1, ts_fabric := fab1\<rparr>"
    have "relay_fwdset cfg now toa (if d = FABRIC_DELAY then delay + x else delay) h plo ?n1 = (Relay_Queued req, n')"
      using assms True by (auto simp: relay_fabric_def dr Let_def split: if_splits)
    then show ?thesis
      using decide_relay_small [OF dr]
      by (cases "d = FABRIC_DELAY") (auto intro!: exI [of _ "if d = FABRIC_DELAY then x else 0"] exI [of _ ?n1])
  qed
  then obtain x n1 where x: "unat x \<le> 1000" "ts_queue n1 = ts_queue n"
    "relay_fwdset cfg now toa (delay + x) h plo n1 = (Relay_Queued req, n')" by blast
  from relay_fwdset_queued [OF x(3)] obtain y n2 where y: "unat y \<le> 200" "ts_queue n2 = ts_queue n1"
    "relay_enqueue now toa (delay + x + y) h plo n2 = (Relay_Queued req, n')" by blast
  have "unat (x + y) \<le> 1200" using unat_add_le [of x y] x(1) y(1) by linarith
  with x y show ?thesis by (intro exI [of _ "x + y"] exI [of _ n2]) (simp add: add.assoc)
qed

text \<open>How a frame gets as far as the relay stage.\<close>

lemma rx_frame_processed:
  assumes len: "length (fr_data frame) = 255" and n0: "node_ok cfg n0"
    and run: "rx_frame cfg now frame n0 = (Rx_Processed fwd out, n')"
  obtains pkt plo hdr n5 where
    "protocol_decode (ts_metrics n0) (fr_data frame) (fr_len frame) = (ts_metrics n0, Some (pkt, plo))"
    "decoded pkt plo" "h_magic pkt = RIVR_MAGIC" "h_version pkt = RIVR_PROTO_VER"
    "h_net_id pkt = 0 \<or> h_net_id pkt = nc_net_id cfg"
    "hdr = (if fwd = RIVR_FWD_FORWARD then relay_hdr pkt else pkt)"
    "fwd = RIVR_FWD_FORWARD \<Longrightarrow> 0 < unat (h_ttl pkt) \<and> unat (h_hop pkt) < 15"
    "node_ok cfg n5" "rx_relay cfg now (node_toa cfg (fr_len frame)) fwd pkt hdr plo n5 = (out, n')"
    "fr_iface frame \<noteq> RIVR_IFACE_BLE"
proof -
  obtain b n where ble: "source_handle_ble_origination cfg frame now n0 = (b, n)" by fastforce
  have b: "\<not> b" using run ble by (cases b) (auto simp: rx_frame_def)
  have "n = n0 \<and> fr_iface frame \<noteq> RIVR_IFACE_BLE"
    using ble b by (auto simp: source_handle_ble_origination_def Let_def split: if_splits prod.splits option.splits)
  then have n: "n = n0" and nb: "fr_iface frame \<noteq> RIVR_IFACE_BLE" by simp_all
  obtain dec n1 where dec: "node_decode (fr_data frame) (fr_len frame) n0 = (dec, n1)" by fastforce
  obtain pkt plo where Some: "dec = Some (pkt, plo)"
    using run ble b dec by (cases dec) (auto simp: rx_frame_def n)
  have lt: "unat (fr_len frame) \<le> length (fr_data frame)" using len unat_u8_less [of "fr_len frame"] by simp
  have pd: "protocol_decode (ts_metrics n0) (fr_data frame) (fr_len frame) = (ts_metrics n1, Some (pkt, plo))"
    using dec Some by (auto simp: node_decode_def split: prod.splits)
  note dd = decode_decoded [OF pd lt]
  have wok: "wire_ok (fr_data frame) (fr_len frame)" and hdr0: "pkt = unpack_header_from_wire (fr_data frame) (fr_data frame ! 21)"
    using dd by blast+
  note up = unpack_header_wire_ok [OF wok, of "fr_data frame ! 21", folded hdr0]
  have net: "\<not> (h_net_id pkt \<noteq> 0 \<and> h_net_id pkt \<noteq> nc_net_id cfg)"
    using run ble b dec Some by (auto simp: rx_frame_def n split: if_splits)
  obtain ok n2 where acc: "rx_accept cfg now frame n1 = (ok, n2)" by fastforce
  have ok: "ok" using run ble b dec Some net acc by (cases ok) (auto simp: rx_frame_def n)
  obtain fwd' m1 dd1 fb1 fh where fl: "routing_flood_forward (ts_metrics n2) (nd_dedupe n2) (Some (nd_budget n2)) pkt
      (nc_my_id cfg) (node_toa cfg (fr_len frame)) now = (fwd', m1, dd1, fb1, fh)" by (metis prod_cases5)
  define n3 where "n3 = n2\<lparr>ts_metrics := m1, nd_dedupe := dd1, nd_budget := (case fb1 of None \<Rightarrow> nd_budget n2 | Some b \<Rightarrow> b)\<rparr>"
  define n4 where "n4 = (if fwd' = RIVR_FWD_DROP_LOOP then n3 else rx_learn cfg now frame pkt n3)"
  obtain go n5 where di: "rx_dispatch cfg now frame pkt plo n4 = (go, n5)" by fastforce
  obtain ro n6 where rel: "rx_relay cfg now (node_toa cfg (fr_len frame)) fwd' pkt fh plo n5 = (ro, n6)" by fastforce
  have fin: "fwd' = fwd \<and> ro = out \<and> n6 = n'"
    using run unfolding rx_frame_def ble prod.case dec n Some option.case acc fl Let_def n3_def [symmetric] n4_def [symmetric] di rel
    using b net ok by (auto split: if_splits bool.splits)
  have k1: "keeps cfg (\<lambda>_. True) n0 n1" by (rule keeps_decode [OF dec])
  have k2: "keeps cfg (\<lambda>_. True) n0 n2" by (rule keeps_trans [OF k1 rx_accept_keeps [where P = "\<lambda>_. True", OF TrueI len acc]])
  have "keeps cfg (\<lambda>_. True) n2 n3"
    using flood_forward_ok [OF _ _ fl] by (auto simp: keeps_def node_ok_def n3_def budget_arrays_def)
  with k2 have k3: "keeps cfg (\<lambda>_. True) n0 n3" by (rule keeps_trans)
  have k4: "keeps cfg (\<lambda>_. True) n0 n4" unfolding n4_def using k3 keeps_trans [OF k3 rx_learn_keeps] by simp
  have k5: "keeps cfg (\<lambda>_. True) n0 n5"
    using keeps_trans [OF k4 rx_dispatch_keeps [where P = "\<lambda>_. True", OF TrueI]] di by (metis snd_conv)
  have fh: "fh = (if fwd = RIVR_FWD_FORWARD then relay_hdr pkt else pkt)"
    using flood_pkt [of "ts_metrics n2" "nd_dedupe n2" "Some (nd_budget n2)" pkt "nc_my_id cfg" "node_toa cfg (fr_len frame)" now] fl fin
    by simp
  have cnt: "0 < unat (h_ttl pkt) \<and> unat (h_hop pkt) < 15" if "fwd = RIVR_FWD_FORWARD"
    using flood_forwardD(2,3) [of "ts_metrics n2" "nd_dedupe n2" "Some (nd_budget n2)" pkt "nc_my_id cfg"
        "node_toa cfg (fr_len frame)" now m1 dd1 fb1 fh] fl fin that by simp
  show thesis
  proof (rule that [of pkt plo fh n5])
    show "protocol_decode (ts_metrics n0) (fr_data frame) (fr_len frame) = (ts_metrics n0, Some (pkt, plo))"
      using pd dd by simp
    show "rx_relay cfg now (node_toa cfg (fr_len frame)) fwd pkt fh plo n5 = (out, n')" using rel fin by simp
    show "node_ok cfg n5" using k5 n0 by (simp add: keeps_def)
  qed (use dd up net nb fh cnt in auto)
qed

lemma rx_relay_queued:
  assumes n: "node_ok cfg n" and run: "rx_relay cfg now toa fwd pkt hdr plo n = (Relay_Queued req, n')"
  shows "fwd = RIVR_FWD_FORWARD \<and> (\<exists>ttl extra n1. ttl \<le> h_ttl hdr \<and> unat extra \<le> 1200 \<and> rb_ok (ts_queue n1) \<and>
    \<not> (nc_role cfg = RoleClient \<and> chat_or_data hdr) \<and>
    relay_enqueue now toa (routing_forward_delay_ms (h_src_id pkt) (h_pkt_id pkt) (h_pkt_type pkt) + extra)
      (hdr\<lparr>h_ttl := ttl\<rparr>) plo n1 = (Relay_Queued req, n'))"
proof -
  have fwd: "fwd = RIVR_FWD_FORWARD" using run by (cases fwd) (simp_all add: rx_relay_def)
  obtain ho n6 where p: "relay_policy now hdr (node_count flood_fwd_attempted_total n) = (ho, n6)" by fastforce
  have k: "keeps cfg (\<lambda>_. True) n n6" by (rule keeps_trans [OF keeps_count relay_policy_keeps [OF p]])
  have n6: "node_ok cfg n6" by (rule any_keeps [OF k n])
  obtain h where ho: "ho = Some h" using run fwd p by (cases ho) (simp_all add: rx_relay_def)
  obtain ttl where ttl: "ttl \<le> h_ttl hdr" "h = hdr\<lparr>h_ttl := ttl\<rparr>" using relay_policy_some [OF p [unfolded ho]] by blast
  let ?delay = "routing_forward_delay_ms (h_src_id pkt) (h_pkt_id pkt) (h_pkt_type pkt)"
  have "(if nc_role cfg = RoleClient \<and> chat_or_data h then (Relay_Client_Skip, n6)
      else relay_fabric cfg now toa ?delay h plo n6) = (Relay_Queued req, n')"
    using run unfolding rx_relay_def fwd rivr_fwd_result_t.case p ho prod.case option.case .
  then have skip: "\<not> (nc_role cfg = RoleClient \<and> chat_or_data h)"
    and fab: "relay_fabric cfg now toa ?delay h plo n6 = (Relay_Queued req, n')"
    by (meson prod.inject relay_outcome.distinct)+
  from relay_fabric_queued [OF fab] obtain extra n7 where x: "unat extra \<le> 1200" "ts_queue n7 = ts_queue n6"
    "relay_enqueue now toa (?delay + extra) h plo n7 = (Relay_Queued req, n')" by blast
  have "rb_ok (ts_queue n7)" using n6 x(2) by (simp add: node_ok_def)
  moreover have "\<not> (nc_role cfg = RoleClient \<and> chat_or_data hdr)" using skip by (simp add: ttl(2))
  ultimately show ?thesis using fwd ttl(1) x(1) x(3) [unfolded ttl(2)] by blast
qed

section \<open>Properties\<close>

text \<open>C1: Relaying is faithful.  When the receive pipeline (network filter, channel accept,
  flood-forwarding, learning, dispatch, policy, fabric, forward-set) queues a frame for relay, the
  received bytes decode to a header and payload, and the queued bytes decode to the same header and
  payload with only the hop counter advanced by one (and below the limit), the TTL strictly smaller
  and the RELAY flag set; the verdict was FORWARD, the frame belonged to this network, a client role
  never relays chat or data, and the frame is due at most 1.4 s after its arrival, at the tail of the
  transmit queue.\<close>

theorem relay_faithful:
  assumes len: "length (fr_data frame) = 255" and n: "node_ok cfg n"
    and run: "rx_frame cfg now frame n = (Rx_Processed fwd (Relay_Queued req), n')"
  shows "\<exists>pkt plo ttl delay.
    protocol_decode m (fr_data frame) (fr_len frame) = (m, Some (pkt, plo)) \<and>
    protocol_decode m (tx_data req) (tx_len req) =
      (m, Some (pkt\<lparr>h_ttl := ttl, h_hop := h_hop pkt + 1, h_flags := h_flags pkt OR PKT_FLAG_RELAY\<rparr>, plo)) \<and>
    unat ttl < unat (h_ttl pkt) \<and> unat (h_hop pkt + 1) = unat (h_hop pkt) + 1 \<and> unat (h_hop pkt) < 15 \<and>
    fwd = RIVR_FWD_FORWARD \<and> (h_net_id pkt = 0 \<or> h_net_id pkt = nc_net_id cfg) \<and>
    \<not> (nc_role cfg = RoleClient \<and> h_pkt_type pkt \<in> {PKT_CHAT, PKT_DATA}) \<and>
    tx_due_ms req = now + delay \<and> unat delay \<le> 1400 \<and>
    (\<exists>q. rb_contents (ts_queue n') = q @ [req])"
proof -
  obtain pkt plo hdr n5 where dec: "protocol_decode (ts_metrics n) (fr_data frame) (fr_len frame) = (ts_metrics n, Some (pkt, plo))"
    and d: "decoded pkt plo" and mg: "h_magic pkt = RIVR_MAGIC" "h_version pkt = RIVR_PROTO_VER"
    and net: "h_net_id pkt = 0 \<or> h_net_id pkt = nc_net_id cfg"
    and hdr0: "hdr = (if fwd = RIVR_FWD_FORWARD then relay_hdr pkt else pkt)"
    and cnt0: "fwd = RIVR_FWD_FORWARD \<Longrightarrow> 0 < unat (h_ttl pkt) \<and> unat (h_hop pkt) < 15"
    and n5: "node_ok cfg n5"
    and rel: "rx_relay cfg now (node_toa cfg (fr_len frame)) fwd pkt hdr plo n5 = (Relay_Queued req, n')"
    and "fr_iface frame \<noteq> RIVR_IFACE_BLE"
    by (rule rx_frame_processed [OF len n run], rule that; blast)
  let ?delay = "routing_forward_delay_ms (h_src_id pkt) (h_pkt_id pkt) (h_pkt_type pkt)"
  obtain ttl extra n7 where fwd: "fwd = RIVR_FWD_FORWARD" and ttl: "ttl \<le> h_ttl hdr" and x: "unat extra \<le> 1200"
    and q: "rb_ok (ts_queue n7)" and skip: "\<not> (nc_role cfg = RoleClient \<and> chat_or_data hdr)"
    and enq: "relay_enqueue now (node_toa cfg (fr_len frame)) (?delay + extra) (hdr\<lparr>h_ttl := ttl\<rparr>) plo n7 = (Relay_Queued req, n')"
    using rx_relay_queued [OF n5 rel] by blast
  have hdr: "hdr = relay_hdr pkt" using hdr0 fwd by simp
  note cnt = cnt0 [OF fwd]
  define h where "h = hdr\<lparr>h_ttl := ttl\<rparr>"
  have h: "h = pkt\<lparr>h_ttl := ttl, h_hop := h_hop pkt + 1, h_flags := h_flags pkt OR PKT_FLAG_RELAY\<rparr>"
    by (simp add: h_def hdr relay_hdr_def)
  have dh: "decoded h plo" and mh: "h_magic h = RIVR_MAGIC" "h_version h = RIVR_PROTO_VER"
    using d mg by (simp_all add: h)
  note e = relay_enqueue_queued [OF dh mh q enq [folded h_def], of m]
  have w: "wire_ok (fr_data frame) (fr_len frame)" using dec protocol_decode_SomeD [of "ts_metrics n"] by simp
  have "snd (protocol_decode m (fr_data frame) (fr_len frame)) =
      snd (protocol_decode (ts_metrics n) (fr_data frame) (fr_len frame))"
    by (simp only: protocol_decode_ok)
  then have g1: "protocol_decode m (fr_data frame) (fr_len frame) = (m, Some (pkt, plo))"
    using dec protocol_decode_metrics [OF w, of m] by (intro prod_eqI) simp_all
  have g2: "protocol_decode m (tx_data req) (tx_len req) =
      (m, Some (pkt\<lparr>h_ttl := ttl, h_hop := h_hop pkt + 1, h_flags := h_flags pkt OR PKT_FLAG_RELAY\<rparr>, plo))"
    using e [THEN conjunct1] unfolding h .
  have "unat ttl \<le> unat (h_ttl hdr)" using ttl by (simp only: word_le_nat_alt)
  then have g3: "unat ttl < unat (h_ttl pkt)" using relay_hdr_counters(1) [of pkt] cnt unfolding hdr by linarith
  have g4: "unat (h_hop pkt + 1) = unat (h_hop pkt) + 1" using cnt by (simp add: unat_word_ariths)
  have g5: "\<not> (nc_role cfg = RoleClient \<and> h_pkt_type pkt \<in> {PKT_CHAT, PKT_DATA})"
    using skip by (simp add: hdr relay_hdr_def)
  have "unat ?delay \<le> 200"
    using routing_forward_delay_ms_le [of "h_src_id pkt" "h_pkt_id pkt" "h_pkt_type pkt"] by (simp add: word_le_nat_alt)
  then have g6: "unat (?delay + extra) \<le> 1400" using unat_add_le [of ?delay extra] x by linarith
  have g7: "tx_due_ms req = now + (?delay + extra)" and g8: "rb_contents (ts_queue n') = rb_contents (ts_queue n7) @ [req]"
    using e by blast+
  show ?thesis
    by (intro exI [of _ pkt] exI [of _ plo] exI [of _ ttl] exI [of _ "?delay + extra"] conjI
        exI [of _ "rb_contents (ts_queue n7)"]) (rule g1 g2 g3 g4 g5 g6 g7 g8 fwd net cnt [THEN conjunct2])+
qed

end
