(* ===== verification/Rivr_Delivery.thy ===== *)
theory Rivr_Delivery
  imports Rivr_System
begin

text \<open>
  What the parts achieve together. First the properties of one node: its invariant in every reachable
  state, the frames its receive pipeline queues, how fast it works off its receive ring, and what a
  program does to it that the engine refuses. Then two nodes: a unicast frame, the ACK of its next hop
  and the retry entry that the ACK settles. Last the receive ring with the two producers it really
  has, against the single producer it is written for.
\<close>

section \<open>A node for the examples\<close>

definition demo_cfg :: node_cfg where
  "demo_cfg = \<lparr>nc_build = \<lparr>b_role = RoleRepeater, b_fabric_repeater = False, b_opportunistic_fwd = False\<rparr>,
     nc_params = \<lparr>pb_role = RoleRepeater, pb_signed_params = False, pb_allow_unsigned = True, pb_psk_hex = []\<rparr>,
     nc_ulong_bits = 32, nc_my_id = 0xCAFE0009, nc_net_id = 0x1234, nc_callsign = [0x52], nc_lat_e7 = INT32_MIN, nc_lon_e7 = INT32_MIN,
     nc_bus = \<lparr>be_t_sym_us = 2048, be_ble_connected = False, be_raw_bridge = False, be_ble_notify = (\<lambda>_. False),
       be_usb_ready = False, be_uart_write = (\<lambda>_. False)\<rparr>, nc_nvs_store = (\<lambda>p. length p < 2048)\<rparr>"

definition demo_rx :: rf_rx_frame_t where
  "demo_rx = host_frame RIVR_IFACE_LORA (frame_of demo_hdr [0x68, 0x69]) 1000"

definition demo_engine :: engine_t where
  "demo_engine = \<lparr>en_init = (\<lambda>_. True), en_timers = (\<lambda>_. [])\<rparr>"

definition demo_node :: node_t where
  "demo_node = radio_service_rx [demo_rx] (node_power_up demo_cfg [])"

lemma demo_rx_length: "length (fr_data demo_rx) = 255"
  unfolding demo_rx_def by (rule host_frame_length) (simp add: length_frame_of)

lemma demo_node_facts:
  "node_ok demo_cfg demo_node" "rb_contents (nd_rx_ring demo_node) = [demo_rx]"
  "rb_cap (nd_rx_ring demo_node) = RF_RX_RINGBUF_CAP"
proof -
  show "node_ok demo_cfg demo_node"
    unfolding demo_node_def by (rule radio_service_rx_ok) (simp_all add: node_power_up_ok demo_rx_length)
  let ?q = "rb_init (replicate 8 rx_frame_zero) (2 ^ 3)"
  have q: "rb_ok ?q" "rb_contents ?q = []" by (rule rb_init_ok; simp) (simp add: rb_init_empty)
  obtain ok q1 where p: "rb_try_push demo_rx ?q = (ok, q1)" by fastforce
  have ok: "ok" using p by (auto simp: rb_try_push_def rb_init_def rb_next_def Let_def split: if_splits)
  note sp = rb_try_push_spec [OF q(1) p]
  have "nd_rx_ring demo_node = q1" using p by (simp add: demo_node_def radio_service_rx_def node_power_up_def)
  with sp ok q(2) show "rb_contents (nd_rx_ring demo_node) = [demo_rx]" "rb_cap (nd_rx_ring demo_node) = RF_RX_RINGBUF_CAP"
    by (simp_all add: rb_init_def)
qed

section \<open>One node\<close>

lemma push_stored [simp]: "node_push r n = (ok, n') \<Longrightarrow> nd_stored_program n' = nd_stored_program n"
  by (auto simp: node_push_def split: prod.splits)

lemma sinks_init_stored [simp]: "nd_stored_program (rivr_sinks_init cfg now n) = nd_stored_program n"
  by (auto simp: rivr_sinks_init_def do_beacon_tx_def node_count_def next_ctrl_seq_def Let_def dest!: push_stored
      split: prod.splits)

lemma nvs_stored: "c_str p \<noteq> [] \<Longrightarrow> length (c_str p) < 2048 \<Longrightarrow> nd_stored_program n = c_str p \<Longrightarrow>
    nvs_load_program n = Some (c_str p)"
  by (simp add: nvs_load_program_def c_str_def)

lemma demo_boots: "\<exists>n. rivr_subsystems_init demo_cfg demo_engine 0 [] = Some n"
  by (simp add: rivr_subsystems_init_def rivr_embed_init_def Let_def demo_engine_def split: prod.split)

text \<open>C2: The node invariant. In every state that a node reaches from boot, by any number of main-loop iterations
  (with any frames, engine emits, radio answers, clock readings and USB bytes), BLE writes and console
  sends: the transmit queue and the receive ring are well-formed rings, and every waiting received
  frame sits in a full buffer; the valid entries of the retry table and of the pending queue hold
  frames that a receiver accepts; the live routes and the live neighbours have distinct nodes and the
  neighbours' loss and ETX are in range; the duplicate caches of the router and of the bus, the
  opportunistic-forward cache, the mailbox, the routing neighbour table, the timers and the forward
  budget have their sizes, with cursors and counts inside them; the relay policy has its 16 buckets of at most
  four tokens; the operator's parameters are in range; the airtime buckets hold at most their
  capacities, one per source; the duty-cycle sum is the sum of the records in the history; the fabric has
  its sixty buckets; the outbox is a well-formed ring of full buffers and the SLIP receiver has its
  buffer.\<close>

theorem system_invariant:
  "sys_reach cfg eng s \<Longrightarrow> node_ok cfg (sy_node s) \<and> sq_ok (sy_outbox s) \<and> slip_ok (sy_slip s)"
  using sys_reach_ok by (simp add: sys_ok_def)

lemma system_invariant_witness: "\<exists>n. rivr_subsystems_init demo_cfg demo_engine 0 [] = Some n \<and> node_ok demo_cfg n"
  using demo_boots system_invariant [OF sys_reach.boot [of demo_cfg demo_engine 0 "[]"]] by auto

text \<open>What a drain of the receive ring does to the queues. It takes the oldest frames, at
  most four, out of the ring and reports one outcome for each; requests that wait for transmission are
  kept in place, and every request it appends (relays, replies, ACKs, retries, drained messages) holds
  a frame that any receiver accepts, in a buffer of full length.\<close>

theorem rx_pipeline_queues_wellformed:
  assumes "node_ok cfg n" and "sources_rf_rx_drain cfg now n = (xs, n')"
  shows "(\<exists>rs. rb_contents (ts_queue n') = rb_contents (ts_queue n) @ rs \<and>
      (\<forall>r \<in> set rs. length (tx_data r) = 255 \<and> wire_ok (tx_data r) (tx_len r))) \<and>
    rb_contents (nd_rx_ring n') = drop SOURCES_RF_RX_DRAIN_LIMIT (rb_contents (nd_rx_ring n)) \<and>
    length xs = min SOURCES_RF_RX_DRAIN_LIMIT (length (rb_contents (nd_rx_ring n)))"
  using sources_rf_rx_drain_keeps [where P = wf_req, OF _ assms] by (auto simp: feeds_def wf_req_def)

lemma rx_pipeline_queues_wellformed_witness: "\<exists>x n'. sources_rf_rx_drain demo_cfg 1000 demo_node = ([x], n')"
proof -
  obtain xs n' where r: "sources_rf_rx_drain demo_cfg 1000 demo_node = (xs, n')" by fastforce
  from rx_pipeline_queues_wellformed [OF demo_node_facts(1) r] demo_node_facts(2) have "length xs = 1" by simp
  then show ?thesis using r by (auto simp: length_Suc_conv)
qed



text \<open>C24: A program that the engine refuses disables the node. A program push without the
  parameter prefix is stored before the engine has seen it. When the engine refuses it, the reload
  fails and leaves no timer behind, so timer events stop; and as the program stays in flash, every
  later boot fails as well.\<close>

theorem refused_program_disables_node:
  assumes dst: "h_dst_id pkt = nc_my_id cfg \<or> h_dst_id pkt = 0" and len: "h_payload_len pkt \<noteq> 0"
    and prog: "take 7 (c_str p) \<noteq> ascii ''@PARAMS''" "c_str p \<noteq> []" "length (c_str p) < 2048"
    and store: "nc_nvs_store cfg (c_str p)" and refused: "\<not> en_init eng (c_str p)"
    and push: "rx_handle_prog_push cfg now pkt (Some p) n = n1" and reload: "rivr_embed_reload eng now1 n1 = (ok, n2)"
  shows "nd_reload_pending n1 \<and> \<not> ok \<and> sources_timer_drain now2 n2 = n2 \<and>
    rivr_subsystems_init cfg eng now3 (nd_stored_program n2) = None"
proof -
  have n1: "n1 = n\<lparr>nd_stored_program := c_str p, nd_reload_pending := True\<rparr>"
    using push dst len prog(1) store by (simp add: rx_handle_prog_push_def handle_prog_push_def Let_def)
  have "nvs_load_program (sources_timer_reset n1) = Some (c_str p)"
    using prog by (intro nvs_stored) (simp_all add: n1 sources_timer_reset_def)
  then have n2: "\<not> ok" "n2 = (sources_timer_reset n1)\<lparr>nd_reload_pending := False\<rparr>"
    using reload refused by (simp_all add: rivr_embed_reload_def embed_program_def)
  have stored: "nd_stored_program n2 = c_str p" by (simp add: n2 n1 sources_timer_reset_def)
  have "embed_program n3 = (c_str p, n3)" if "nd_stored_program n3 = c_str p" for n3
    using nvs_stored [OF prog(2,3) that] by (simp add: embed_program_def)
  then have "rivr_subsystems_init cfg eng now3 (c_str p) = None"
    using refused by (simp add: rivr_subsystems_init_def rivr_embed_init_def Let_def node_power_up_def)
  then show ?thesis using n2(1) by (simp add: stored n1) (simp add: n2 sources_timer_reset_def sources_timer_drain_def)
qed

lemma refused_program_disables_node_witness:
  "let p = [0x68, 0x69]; eng = \<lparr>en_init = (\<lambda>q. q \<noteq> p), en_timers = (\<lambda>_. [])\<rparr>;
       n1 = rx_handle_prog_push demo_cfg 500 (demo_hdr\<lparr>h_payload_len := 2\<rparr>) (Some p) (node_power_up demo_cfg [])
   in nd_reload_pending n1 \<and> rivr_subsystems_init demo_cfg eng 900 (nd_stored_program (snd (rivr_embed_reload eng 600 n1))) = None"
proof -
  let ?p = "[0x68, 0x69] :: u8 list" and ?eng = "\<lparr>en_init = (\<lambda>q. q \<noteq> [0x68, 0x69]), en_timers = (\<lambda>_. [])\<rparr>"
  let ?h = "demo_hdr\<lparr>h_payload_len := 2\<rparr>"
  have c: "c_str ?p = ?p" by (simp add: c_str_def)
  have "h_dst_id ?h = nc_my_id demo_cfg \<or> h_dst_id ?h = 0" "h_payload_len ?h \<noteq> 0" "take 7 (c_str ?p) \<noteq> ascii ''@PARAMS''"
    "c_str ?p \<noteq> []" "length (c_str ?p) < 2048" "nc_nvs_store demo_cfg (c_str ?p)" "\<not> en_init ?eng (c_str ?p)"
    by (simp_all add: c demo_hdr_def demo_cfg_def ascii_def)
  note t = refused_program_disables_node [OF this refl prod.collapse [symmetric]]
  show ?thesis using t [of 500 "node_power_up demo_cfg []" 600 0 900] by (simp add: Let_def)
qed

text \<open>A frame that is relayed, for the relay property of the node.\<close>

lemma demo_relayed:
  "case rx_frame demo_cfg 1000 demo_rx (node_power_up demo_cfg []) of
     (Rx_Processed fwd (Relay_Queued req), n) \<Rightarrow> fwd = RIVR_FWD_FORWARD | _ \<Rightarrow> False"
  by code_simp

lemma relay_faithful_witness:
  "\<exists>req n. rx_frame demo_cfg 1000 demo_rx (node_power_up demo_cfg []) = (Rx_Processed RIVR_FWD_FORWARD (Relay_Queued req), n) \<and>
     rb_contents (ts_queue n) \<noteq> []"
proof -
  obtain x n where r: "rx_frame demo_cfg 1000 demo_rx (node_power_up demo_cfg []) = (x, n)" by fastforce
  obtain req where x: "x = Rx_Processed RIVR_FWD_FORWARD (Relay_Queued req)"
    using demo_relayed r by (auto split: rx_outcome.splits relay_outcome.splits)
  from relay_faithful [OF demo_rx_length node_power_up_ok r [unfolded x], of metrics_zero] have "rb_contents (ts_queue n) \<noteq> []"
    by fastforce
  then show ?thesis using r x by blast
qed

section \<open>A unicast frame and its acknowledgement\<close>

text \<open>An entry that the table gets and loses again leaves no trace among the valid ones.\<close>

lemma retry_enqueue_ack:
  assumes fresh: "\<forall>e \<in> set (rt_entries rt). re_valid e \<longrightarrow> \<not> (re_ack_src_id e = src \<and> re_cur_pkt_id e = pid)"
    and room: "\<exists>e \<in> set (rt_entries rt). \<not> re_valid e" and len: "len \<noteq> 0"
    and enq: "retry_table_enqueue role m rt src pid dst nh data len toa now = (m1, rt1, ok)"
  shows "ok \<and> fst (retry_table_ack rt1 src pid) \<and>
    filter re_valid (rt_entries (snd (retry_table_ack rt1 src pid))) = filter re_valid (rt_entries rt)"
proof -
  obtain i where i: "find_idx (\<lambda>e. \<not> re_valid e) (rt_entries rt) = Some i"
    using room by (cases "find_idx (\<lambda>e. \<not> re_valid e) (rt_entries rt)") (auto simp: find_idx_None)
  note f = find_idx_SomeD [OF i]
  obtain e where e: "rt_entries rt1 = (rt_entries rt)[i := e]" "re_valid e" "re_ack_src_id e = src" "re_cur_pkt_id e = pid" "ok"
    using enq i len by (auto simp: retry_table_enqueue_def retry_fill_def)
  have "find_idx (\<lambda>e. re_valid e \<and> re_ack_src_id e = src \<and> re_cur_pkt_id e = pid) (rt_entries rt1) = Some i"
    using f fresh e by (intro find_idx_only) auto
  then have "fst (retry_table_ack rt1 src pid)"
    "rt_entries (snd (retry_table_ack rt1 src pid)) = (rt_entries rt)[i := retry_entry_zero]"
    by (simp_all add: retry_table_ack_def retry_clear_def e(1))
  with f e(5) show ?thesis by (simp add: filter_update_off retry_entry_zero_def)
qed

lemma retry_enqueue_grows:
  assumes room: "\<exists>e \<in> set (rt_entries rt). \<not> re_valid e" and len: "len \<noteq> 0"
    and enq: "retry_table_enqueue role m rt src pid dst nh data len toa now = (m1, rt1, ok)"
  shows "count_if re_valid (rt_entries rt1) = Suc (count_if re_valid (rt_entries rt))"
proof -
  obtain i where i: "find_idx (\<lambda>e. \<not> re_valid e) (rt_entries rt) = Some i"
    using room by (cases "find_idx (\<lambda>e. \<not> re_valid e) (rt_entries rt)") (auto simp: find_idx_None)
  obtain e where "rt_entries rt1 = (rt_entries rt)[i := e]" "re_valid e"
    using enq i len by (auto simp: retry_table_enqueue_def retry_fill_def)
  with find_idx_SomeD [OF i] show ?thesis by (simp add: count_if_fill)
qed

text \<open>What a node that is asked for an ACK queues, and what the asking node makes of it.\<close>

lemma rx_send_ack_queued:
  assumes req: "h_flags h AND PKT_FLAG_ACK_REQ \<noteq> 0" "h_dst_id h = nc_my_id cfg"
    and q: "rb_ok (ts_queue n)" "Suc (length (rb_contents (ts_queue n))) < unat (rb_cap (ts_queue n))"
  shows "\<exists>ack hA. rb_contents (ts_queue (rx_send_ack cfg h n)) = rb_contents (ts_queue n) @ [ack] \<and>
    protocol_decode m (tx_data ack) (tx_len ack) = (m, Some (hA, Some (put_u32 (h_src_id h) @ put_u16 (h_pkt_id h)))) \<and>
    h_pkt_type hA = PKT_ACK \<and> h_src_id hA = nc_my_id cfg \<and> h_dst_id hA = h_src_id h \<and> h_payload_len hA = ACK_PAYLOAD_LEN"
proof -
  define seq where "seq = (ucast (nd_ctrl_seq (next_ctrl_seq n)) :: u16)"
  define hA where "hA = control_hdr PKT_ACK (nc_my_id cfg) (h_src_id h) seq seq ACK_PAYLOAD_LEN"
  define p where "p = put_u32 (h_src_id h) @ put_u16 (h_pkt_id h)"
  have lp: "length p = 6" by (simp add: p_def)
  have b: "routing_build_ack (nc_my_id cfg) (h_src_id h) (h_src_id h) (h_pkt_id h) seq seq (replicate 31 0) 31 = (31, frame_of hA p)"
    using protocol_encode_frame [of p ACK_PAYLOAD_LEN 31 hA "replicate 31 0"] lp
    by (simp add: routing_build_ack_def hA_def p_def)
  have d: "decoded hA (Some p)" using lp by (auto simp: decoded_def hA_def control_hdr_def)
  have lf: "length (frame_of hA p) = 31" using lp by (simp add: length_frame_of)
  let ?ack = "tx_request (frame_of hA p) 31 (node_toa cfg 31)"
  have dec: "protocol_decode m (tx_data ?ack) 31 = (m, Some (hA, Some p))"
    using frame_of_header [OF d, of m "replicate 224 0"] lf by (simp add: tx_request_def hA_def control_hdr_def)
  obtain ok n1 where push: "node_push ?ack (next_ctrl_seq n) = (ok, n1)" by fastforce
  have run: "rx_send_ack cfg h n = (if ok then node_count ack_tx_total n1 else n1)"
    using req b push by (simp add: rx_send_ack_def Let_def seq_def)
  obtain q1 where p1: "rb_try_push ?ack (ts_queue n) = (ok, q1)" "n1 = (next_ctrl_seq n)\<lparr>ts_queue := q1\<rparr>"
    using push by (auto simp: node_push_def next_ctrl_seq_def split: prod.splits)
  have "rb_contents (ts_queue (rx_send_ack cfg h n)) = rb_contents (ts_queue n) @ [?ack]"
    using rb_try_push_spec(3,4) [OF q(1) p1(1)] q(2) by (simp add: run p1(2) node_count_def)
  with dec show ?thesis
    by (intro exI [of _ ?ack] exI [of _ hA]) (simp add: tx_request_def p_def hA_def control_hdr_def)
qed

lemma rx_handle_ack_clears:
  assumes "h_payload_len h = ACK_PAYLOAD_LEN"
  shows "nd_retry (rx_handle_ack h (Some (put_u32 src @ put_u16 pid)) n) = snd (retry_table_ack (nd_retry n) src pid)"
  using ack_payload [OF refl, of src pid] assms
  by (simp add: rx_handle_ack_def Let_def node_count_def split: prod.split)

lemma sink_unicast_enqueues:
  assumes d: "decoded pkt plo" and len: "length (tx_data req) = 255" and ty: "sink_needs_ack (h_pkt_type pkt)"
    and run: "sink_unicast cfg now pkt (payload_of plo) (h_payload_len pkt) nh req n = (req1, n1)"
  shows "\<exists>m1 ok. retry_table_enqueue (nc_role cfg) (ts_metrics n) (nd_retry n) (nc_my_id cfg) (h_pkt_id pkt) (h_dst_id pkt) nh
      (tx_data req1) (tx_len req1) (tx_toa_us req1) now = (m1, nd_retry n1, ok) \<and> tx_len req1 \<noteq> 0"
proof -
  let ?h = "pkt\<lparr>h_dst_id := nh, h_ttl := 1\<rparr>"
  have dh: "decoded ?h plo" using d by simp
  have pos: "\<not> 25 + int (unat (h_payload_len pkt)) \<le> 0" by linarith
  let ?k = "unat (h_payload_len pkt)"
  have enc: "protocol_encode ?h (Some (payload_of plo)) (h_payload_len pkt) (tx_data req) 255 =
      (25 + int ?k, frame_of ?h (payload_of plo) @ drop (25 + ?k) (tx_data req))"
    using encode_decoded(1) [OF dh len] by simp
  have nz: "(word_of_int (25 + int ?k) :: u8) \<noteq> 0"
    using arg_cong [of "word_of_int (25 + int ?k)" 0 "unat :: u8 \<Rightarrow> nat"] encode_decoded(3) [OF d len] by (auto simp del: of_nat_unat)
  show ?thesis
    using run ty nz unfolding sink_unicast_def enc Let_def prod.case if_not_P [OF pos]
    by (auto split: prod.splits)
qed

lemma sink_unicast_request:
  "fst (sink_unicast cfg now pkt pl pl_len hop req n) =
     (case protocol_encode (pkt\<lparr>h_dst_id := hop, h_ttl := 1\<rparr>) (Some pl) pl_len (tx_data req) RF_MAX_PAYLOAD_LEN of
        (k, out) \<Rightarrow>
          if k \<le> 0 then req\<lparr>tx_data := out\<rparr>
          else req\<lparr>tx_data := (if sink_needs_ack (h_pkt_type pkt) then sink_set_ack_req out else out),
                   tx_len := word_of_int k, tx_toa_us := node_toa cfg (word_of_int k)\<rparr>)"
  by (simp add: sink_unicast_def Let_def split: prod.split)

lemma sink_unicast_dst:
  "fst (sink_unicast cfg now (pkt\<lparr>h_dst_id := dst\<rparr>) pl pl_len hop req n) = fst (sink_unicast cfg now pkt pl pl_len hop req n)"
  by (cases "protocol_encode (pkt\<lparr>h_dst_id := hop, h_ttl := 1\<rparr>) (Some pl) pl_len (tx_data req) RF_MAX_PAYLOAD_LEN")
    (simp add: sink_unicast_request)

definition demo_own_hdr :: rivr_pkt_hdr_t where
  "demo_own_hdr = demo_hdr\<lparr>h_magic := RIVR_MAGIC, h_version := RIVR_PROTO_VER, h_src_id := nc_my_id demo_cfg,
     h_payload_len := 2\<rparr>"

lemma demo_own:
  "decoded demo_own_hdr (Some [0x68, 0x69])" "h_magic demo_own_hdr = RIVR_MAGIC" "h_version demo_own_hdr = RIVR_PROTO_VER"
  "sink_needs_ack (h_pkt_type demo_own_hdr)" "h_src_id demo_own_hdr = nc_my_id demo_cfg" "h_payload_len demo_own_hdr = 2"
  by (simp_all add: demo_own_hdr_def demo_hdr_def decoded_def sink_needs_ack_def)

lemma demo_power_up:
  "rb_ok (ts_queue (node_power_up demo_cfg []))"
  "Suc (length (rb_contents (ts_queue (node_power_up demo_cfg [])))) < unat (rb_cap (ts_queue (node_power_up demo_cfg [])))"
  "rt_entries (nd_retry (node_power_up demo_cfg [])) = replicate 32 retry_entry_zero"
proof -
  show "rb_ok (ts_queue (node_power_up demo_cfg []))"
    using node_power_up_ok [of demo_cfg "[]"] by (simp add: node_ok_def)
qed (simp_all add: node_power_up_def retry_table_init_def demo_cfg_def, simp add: rb_init_def)

text \<open>C8: The acknowledgement closes the loop, at the next hop. A node sends a message of its own, of a type that
  asks for an ACK, as a unicast, while its retry table has a free slot and no valid entry for the same
  source and packet id. The frame decodes at the next hop, which answers with \<open>rx_send_ack\<close> while its transmit
  queue has room. Then exactly one ACK is queued there, which decodes to a PKT_ACK for the sender; the
  sender has added one valid retry entry for the message, and handling this ACK leaves exactly the
  valid entries it had before. Whether the final destination ever gets the message plays no part. With the
  table or the queue full there is no entry or no ACK, and the statement says nothing.\<close>

theorem ack_settles_unicast:
  assumes d: "decoded pkt plo" and m: "h_magic pkt = RIVR_MAGIC" "h_version pkt = RIVR_PROTO_VER"
    and ty: "sink_needs_ack (h_pkt_type pkt)" and src: "h_src_id pkt = nc_my_id cfg" and len: "length (tx_data req) = 255"
    and room: "\<exists>e \<in> set (rt_entries (nd_retry n)). \<not> re_valid e"
    and fresh: "\<forall>e \<in> set (rt_entries (nd_retry n)). re_valid e \<longrightarrow>
      \<not> (re_ack_src_id e = nc_my_id cfg \<and> re_cur_pkt_id e = h_pkt_id pkt)"
    and send: "sink_unicast cfg now pkt (payload_of plo) (h_payload_len pkt) hop req n = (req1, n1)"
    and hear: "protocol_decode m1 (tx_data req1) (tx_len req1) = (m2, Some (h, plo1))"
    and hop: "nc_my_id cfg2 = hop" and q: "rb_ok (ts_queue k)" "Suc (length (rb_contents (ts_queue k))) < unat (rb_cap (ts_queue k))"
  shows "\<exists>ack ack_hdr ack_pl.
    rb_contents (ts_queue (rx_send_ack cfg2 h k)) = rb_contents (ts_queue k) @ [ack] \<and>
    protocol_decode m3 (tx_data ack) (tx_len ack) = (m3, Some (ack_hdr, ack_pl)) \<and>
    h_pkt_type ack_hdr = PKT_ACK \<and> h_dst_id ack_hdr = nc_my_id cfg \<and>
    length (filter re_valid (rt_entries (nd_retry n1))) = Suc (length (filter re_valid (rt_entries (nd_retry n)))) \<and>
    filter re_valid (rt_entries (nd_retry (rx_handle_ack ack_hdr ack_pl n1))) = filter re_valid (rt_entries (nd_retry n))"
proof -
  have h: "h = unicast_hdr pkt hop"
    using sink_unicast_spec(2) [OF d m len send, of m1] hear by simp
  have flags: "h_flags h AND PKT_FLAG_ACK_REQ \<noteq> 0" "h_dst_id h = nc_my_id cfg2" "h_src_id h = nc_my_id cfg"
    "h_pkt_id h = h_pkt_id pkt"
    using ty hop src by (simp_all add: h unicast_hdr_def word_ao_absorbs)
  obtain ack hA where a: "rb_contents (ts_queue (rx_send_ack cfg2 h k)) = rb_contents (ts_queue k) @ [ack]"
    "protocol_decode m3 (tx_data ack) (tx_len ack) = (m3, Some (hA, Some (put_u32 (nc_my_id cfg) @ put_u16 (h_pkt_id pkt))))"
    "h_pkt_type hA = PKT_ACK" "h_dst_id hA = nc_my_id cfg" "h_payload_len hA = ACK_PAYLOAD_LEN"
    using rx_send_ack_queued [OF flags(1,2) q, of m3] flags(3,4) by auto
  obtain mt ok where enq: "retry_table_enqueue (nc_role cfg) (ts_metrics n) (nd_retry n) (nc_my_id cfg) (h_pkt_id pkt)
      (h_dst_id pkt) hop (tx_data req1) (tx_len req1) (tx_toa_us req1) now = (mt, nd_retry n1, ok)" and l: "tx_len req1 \<noteq> 0"
    using sink_unicast_enqueues [OF d len ty send] by blast
  note settle = retry_enqueue_ack [OF fresh room l enq]
  have "length (filter re_valid (rt_entries (nd_retry n1))) = Suc (length (filter re_valid (rt_entries (nd_retry n))))"
    using retry_enqueue_grows [OF room l enq] by (simp add: count_if_def)
  then show ?thesis using a settle rx_handle_ack_clears [OF a(5), of "nc_my_id cfg" "h_pkt_id pkt" n1] by auto
qed

lemma ack_settles_unicast_witness:
  "\<exists>ack_hdr ack_pl.
     filter re_valid (rt_entries (nd_retry (rx_handle_ack ack_hdr ack_pl
       (snd (sink_unicast demo_cfg 5 demo_own_hdr [0x68, 0x69] 2 0xCAFE0010 (tx_request [] 0 0) (node_power_up demo_cfg [])))))) = []"
proof -
  let ?n = "node_power_up demo_cfg []" and ?plo = "Some [0x68, 0x69] :: u8 list option"
  obtain req1 n1 where s: "sink_unicast demo_cfg 5 demo_own_hdr (payload_of ?plo) (h_payload_len demo_own_hdr) 0xCAFE0010
      (tx_request [] 0 0) ?n = (req1, n1)" by fastforce
  have len: "length (tx_data (tx_request [] 0 0)) = 255" by (simp add: tx_request_def)
  have z: "\<not> re_valid retry_entry_zero" by (simp add: retry_entry_zero_def)
  have room: "\<exists>e \<in> set (rt_entries (nd_retry ?n)). \<not> re_valid e" using z by (simp add: demo_power_up(3))
  have fresh: "\<forall>e \<in> set (rt_entries (nd_retry ?n)). re_valid e \<longrightarrow>
      \<not> (re_ack_src_id e = nc_my_id demo_cfg \<and> re_cur_pkt_id e = h_pkt_id demo_own_hdr)" using z by (simp add: demo_power_up(3))
  note hear = sink_unicast_spec(2) [OF demo_own(1-3) len s, of metrics_zero]
  have hop: "nc_my_id (demo_cfg\<lparr>nc_my_id := 0xCAFE0010\<rparr>) = 0xCAFE0010" by simp
  from ack_settles_unicast [OF demo_own(1-5) len room fresh s hear hop demo_power_up(1,2), of metrics_zero]
  have "\<exists>ack_hdr ack_pl. filter re_valid (rt_entries (nd_retry (rx_handle_ack ack_hdr ack_pl n1))) = []"
    using z by (fastforce simp: demo_power_up(3))
  then show ?thesis using s by (simp add: demo_own(6))
qed

text \<open>A unicast frame names only its next hop. Messages for different destinations that
  leave by the same next hop become byte for byte the same request, and whoever decodes it reads the
  next hop as destination: the final destination is not on the air, and no receiver can pass the frame
  on to it.\<close>

theorem unicast_hides_destination:
  assumes d: "decoded pkt plo" and m: "h_magic pkt = RIVR_MAGIC" "h_version pkt = RIVR_PROTO_VER"
    and len: "length (tx_data req) = 255"
  shows "\<exists>req1. fst (sink_unicast cfg now (pkt\<lparr>h_dst_id := dst1\<rparr>) (payload_of plo) (h_payload_len pkt) hop req n) = req1 \<and>
    fst (sink_unicast cfg now (pkt\<lparr>h_dst_id := dst2\<rparr>) (payload_of plo) (h_payload_len pkt) hop req n) = req1 \<and>
    (\<exists>h. protocol_decode mt (tx_data req1) (tx_len req1) = (mt, Some (h, plo)) \<and> h_dst_id h = hop)"
proof -
  obtain req1 n1 where s: "sink_unicast cfg now (pkt\<lparr>h_dst_id := dst1\<rparr>) (payload_of plo) (h_payload_len pkt) hop req n = (req1, n1)"
    by fastforce
  have "fst (sink_unicast cfg now (pkt\<lparr>h_dst_id := dst2\<rparr>) (payload_of plo) (h_payload_len pkt) hop req n) = req1"
    using arg_cong [OF s, of fst] by (simp add: sink_unicast_dst)
  moreover have "protocol_decode mt (tx_data req1) (tx_len req1) = (mt, Some (unicast_hdr (pkt\<lparr>h_dst_id := dst1\<rparr>) hop, plo))"
    using sink_unicast_spec(2) [of "pkt\<lparr>h_dst_id := dst1\<rparr>" plo req cfg now hop n req1 n1 mt] d m len s by simp
  ultimately show ?thesis by (simp add: s) (simp add: unicast_hdr_def)
qed

lemma unicast_hides_destination_witness:
  "fst (sink_unicast demo_cfg 5 (demo_own_hdr\<lparr>h_dst_id := 7\<rparr>) [0x68, 0x69] 2 9 (tx_request [] 0 0) (node_power_up demo_cfg [])) =
   fst (sink_unicast demo_cfg 5 (demo_own_hdr\<lparr>h_dst_id := 8\<rparr>) [0x68, 0x69] 2 9 (tx_request [] 0 0) (node_power_up demo_cfg []))"
  using unicast_hides_destination [OF demo_own(1-3), of "tx_request [] 0 0" demo_cfg 5 7 9 "node_power_up demo_cfg []" 8]
  by (simp add: demo_own(6)) (simp add: tx_request_def)

section \<open>Two producers on one ring\<close>

text \<open>The receive ring is filled by the main loop (radio, USB) and by the BLE task. The second component
  is the program counter of the second producer; it runs the same code on the same ring.\<close>

inductive mpsc_step :: "'a spsc \<times> 'a producer \<Rightarrow> 'a spsc \<times> 'a producer \<Rightarrow> bool" where
  first_runs: "spsc_step s s' \<Longrightarrow> mpsc_step (s, p) (s', p)"
| second_runs: "spsc_step (s\<lparr>sp_prod := p\<rparr>) s' \<Longrightarrow> mpsc_step (s, p) (s'\<lparr>sp_prod := sp_prod s\<rparr>, sp_prod s')"

inductive mpsc_reachable :: "'a list \<Rightarrow> u32 \<Rightarrow> 'a spsc \<times> 'a producer \<Rightarrow> bool" for storage cap where
  mpsc_start: "mpsc_reachable storage cap (spsc_init storage cap, PIdle)"
| mpsc_run: "mpsc_reachable storage cap s \<Longrightarrow> mpsc_step s s' \<Longrightarrow> mpsc_reachable storage cap s'"

lemma first_step: "mpsc_reachable storage cap (s, p) \<Longrightarrow> spsc_step s s' \<Longrightarrow> mpsc_reachable storage cap (s', p)"
  by (rule mpsc_run [OF _ first_runs])

lemma second_step:
  "mpsc_reachable storage cap (s, p) \<Longrightarrow> spsc_step (s\<lparr>sp_prod := p\<rparr>) s' \<Longrightarrow> q = sp_prod s' \<Longrightarrow>
   s'' = s'\<lparr>sp_prod := sp_prod s\<rparr> \<Longrightarrow> mpsc_reachable storage cap (s'', q)"
  using mpsc_run [OF _ second_runs] by blast

text \<open>C25: The receive ring is not safe for the producers it has. With two producers, each
  running the push code to completion, an interleaving exists after which both have been told that
  their frame was stored, nothing was counted as dropped, and the ring holds only the second
  frame.\<close>

theorem two_producers_lose_frame:
  assumes len: "length storage = 2 ^ Suc k" and k: "Suc k < 32"
  shows "\<exists>s p. mpsc_reachable storage (2 ^ Suc k) (s, p) \<and> sp_prod s = PIdle \<and> p = PIdle \<and>
    sp_pushed s = [x, y] \<and> sp_popped s = [] \<and> rb_contents (sp_ring s) = [y] \<and> rb_drops (sp_ring s) = 0"
proof -
  let ?c = "2 ^ Suc k :: u32"
  define rb where "rb = rb_init storage ?c"
  define st where "st r p ps = \<lparr>sp_ring = r, sp_prod = p, sp_cons = CIdle, sp_pushed = ps, sp_popped = []\<rparr>" for r p and ps :: "'a list"
  define r1 where "r1 = rb\<lparr>rb_buf := storage[0 := x]\<rparr>"
  define r2 where "r2 = rb\<lparr>rb_buf := storage[0 := y]\<rparr>"
  define r3 where "r3 = r2\<lparr>rb_head := 1\<rparr>"
  have c: "unat ?c = 2 ^ Suc k" by (rule unat_pow2_u32 [OF k])
  have "rb_ok rb" unfolding rb_def using len k by (intro rb_init_ok) simp_all
  then have n: "rb_next rb 0 = 1"
    using rb_next_succ [of rb 0] c by (simp add: ring_succ_def rb_def rb_init_def word_eq_unat)
  have "mpsc_reachable storage ?c (st rb PIdle [], PIdle)"
    using mpsc_start [of storage ?c] by (simp add: st_def rb_def spsc_init_def)
  then have "mpsc_reachable storage ?c (st rb (PLoaded x 0 1) [], PIdle)"
    by (rule first_step) (use push_load [of "st rb PIdle []" x] n in \<open>simp add: st_def rb_def rb_init_def\<close>)
  then have "mpsc_reachable storage ?c (st rb (PLoaded x 0 1) [], PLoaded y 0 1)"
    by (rule second_step [where s' = "st rb (PLoaded y 0 1) []"])
      (use push_load [of "st rb PIdle []" y] n in \<open>simp_all add: st_def rb_def rb_init_def\<close>)
  then have "mpsc_reachable storage ?c (st rb (PRoom x 0 1) [], PLoaded y 0 1)"
    by (rule first_step) (use push_room [of "st rb (PLoaded x 0 1) []" x 0 1] in \<open>simp add: st_def rb_def rb_init_def\<close>)
  then have "mpsc_reachable storage ?c (st rb (PRoom x 0 1) [], PRoom y 0 1)"
    by (rule second_step [where s' = "st rb (PRoom y 0 1) []"])
      (use push_room [of "st rb (PLoaded y 0 1) []" y 0 1] in \<open>simp_all add: st_def rb_def rb_init_def\<close>)
  then have "mpsc_reachable storage ?c (st r1 (PCopied x 1) [], PRoom y 0 1)"
    by (rule first_step) (use push_copy [of "st rb (PRoom x 0 1) []" x 0 1] in \<open>simp add: st_def r1_def rb_def rb_init_def\<close>)
  then have "mpsc_reachable storage ?c (st r2 (PCopied x 1) [], PCopied y 1)"
    by (rule second_step [where s' = "st r2 (PCopied y 1) []"])
      (use push_copy [of "st r1 (PRoom y 0 1) []" y 0 1] in \<open>simp_all add: st_def r1_def r2_def rb_def rb_init_def\<close>)
  then have "mpsc_reachable storage ?c (st r3 PIdle [x], PCopied y 1)"
    by (rule first_step) (use push_publish [of "st r2 (PCopied x 1) []" x 1] in \<open>simp add: st_def r3_def\<close>)
  then have "mpsc_reachable storage ?c (st r3 PIdle [x, y], PIdle)"
    by (rule second_step [where s' = "st r3 PIdle [x, y]"])
      (use push_publish [of "st r3 (PCopied y 1) [x]" y 1] in \<open>simp_all add: st_def r3_def\<close>)
  moreover have "rb_contents r3 = [y]"
    using len c by (simp add: r3_def r2_def rb_def rb_init_def rb_contents_def ring_items_def ring_used_def)
  ultimately show ?thesis
    by (intro exI [of _ "st r3 PIdle [x, y]"] exI [of _ PIdle]) (simp add: st_def r3_def r2_def rb_def rb_init_def)
qed

lemma two_producers_lose_frame_witness:
  "\<exists>s p. mpsc_reachable (replicate 8 rx_frame_zero) 8 (s, p) \<and> length (sp_pushed s) = 2 \<and> length (rb_contents (sp_ring s)) = 1"
proof -
  have "length (replicate 8 rx_frame_zero) = 2 ^ Suc 2" "Suc 2 < (32 :: nat)" by simp_all
  from two_producers_lose_frame [OF this, of demo_rx rx_frame_zero]
  obtain s p where "mpsc_reachable (replicate 8 rx_frame_zero) (2 ^ Suc 2) (s, p)" "sp_pushed s = [demo_rx, rx_frame_zero]"
    "rb_contents (sp_ring s) = [rx_frame_zero]" by blast
  then show ?thesis by (intro exI [of _ s] exI [of _ p]) simp
qed

end
