(* ===== verification/Rivr_BleLink.thy ===== *)
theory Rivr_BleLink
  imports Rivr_System Rivr_BleFrag
begin

text \<open>
  The BLE link and its service (ble/rivr_ble.c, ble/rivr_ble_service.c) with the receive queue of the
  companion protocol (ble/rivr_ble_companion.c) that the service feeds. The Bluetooth stack is outside: its
  callbacks are events, what its functions return is part of the environment of an event, and the
  calls made to it are recorded in order. The properties: with a passkey, a link counts as connected only
  after an authenticated pairing; a second authentication on a link loses it; and an activation window
  that ends while advertising is being started leaves the node advertising.
\<close>

section \<open>State\<close>

abbreviation "BLE_NO_HANDLE \<equiv> (0xFFFF :: u16)"
abbreviation "ESP_GATT_IF_NONE \<equiv> (0xFF :: u8)"
abbreviation "RIVR_BLE_ADV_RETRY_DELAY_MS \<equiv> (1000 :: u32)"
abbreviation "RIVR_BLE_ATT_DEFAULT_MTU \<equiv> (23 :: u16)"
abbreviation "RIVR_BLE_ATT_PREFERRED_MTU \<equiv> (247 :: u16)"
abbreviation "BLE_BOOT_WINDOW_MS \<equiv> (120000 :: u32)"
abbreviation "BLE_BUTTON_WINDOW_MS \<equiv> (300000 :: u32)"
abbreviation "RIVR_BLE_MAX_BONDS \<equiv> (7 :: nat)"
abbreviation "RIVR_BLE_CP_QUEUE_LEN \<equiv> (4 :: nat)"

text \<open>An address is its six bytes.\<close>

type_synonym bd_addr = "u8 list"

datatype ble_call =
    StartAdvertising | StopAdvertising | GapDisconnect bd_addr | SetEncryption bd_addr bool | RemoveBond bd_addr
  | SetDeviceName u16 | ConfigAdvData | ConfigScanRsp | UpdateConnParams bd_addr | SetPktDataLen bd_addr
  | SecurityRsp bd_addr | ConfirmReply bd_addr | CreateAttrTab u8 | StartService u16 | SetRandAddr bd_addr
  | ConfigureSecurity u32 | Indicate u8 u16 u16 "u8 list"

text \<open>The variables of the link, of the service and of the companion queue; a packet is its length and its buffer.\<close>

record ble_t =
  bl_conn_handle :: u16
  bl_pending_conn :: u16
  bl_passkey :: u32
  bl_reconnect :: bool
  bl_active :: bool
  bl_stack_ready :: bool
  bl_adv_running :: bool
  bl_activate_ms :: u32
  bl_adv_retry_due_ms :: u32
  bl_timeout_ms :: u32
  bl_adv_config_done :: u8
  bl_att_mtu :: u16
  bl_remote_bda :: "bd_addr option"
  sv_handle_table :: "u16 list"
  sv_gatts_if :: u8
  sv_conn_id :: u16
  sv_service_ready :: bool
  sv_notify_enabled :: bool
  sv_rx_frag :: rivr_ble_frag_rx_t
  sv_tx_frag_msg_id :: u8
  cp_rx_queue :: "(u8 \<times> u8 list) list"
  cp_rx_head :: u8
  cp_rx_tail :: u8
  cp_session_active :: bool
  bl_metrics :: rivr_metrics_t
  bl_rx_ring :: "rf_rx_frame_t rb_t"
  bl_calls :: "ble_call list"

text \<open>The build, the clock, and what the stack answers during one event.\<close>

record ble_env =
  lk_passkey_build :: bool
  lk_random_passkey :: bool
  lk_fixed_passkey :: u32
  lk_random :: u32
  lk_node_id :: u32
  lk_now :: u32
  lk_init_ok :: bool
  lk_register_ok :: bool
  lk_start_adv_ok :: bool
  lk_bonds :: "bd_addr list"
  lk_bond_list_ok :: bool
  lk_remove_ok :: "bd_addr \<Rightarrow> bool"
  lk_notify_ok :: "u8 list \<Rightarrow> bool"

definition ble_call :: "ble_call \<Rightarrow> ble_t \<Rightarrow> ble_t" where
  "ble_call c s = s\<lparr>bl_calls := bl_calls s @ [c]\<rparr>"

definition ble_count :: "rivr_metric \<Rightarrow> ble_t \<Rightarrow> ble_t" where
  "ble_count k s = s\<lparr>bl_metrics := bump k (bl_metrics s)\<rparr>"

section \<open>The companion queue\<close>

definition cp_next :: "u8 \<Rightarrow> u8" where
  "cp_next i = ucast ((ucast i + 1 :: u32) mod 4)"

text \<open>Whether the bytes were taken; a full queue and a foreign version take and drop them.\<close>

definition rivr_ble_companion_handle_rx :: "u8 list \<Rightarrow> ble_t \<Rightarrow> bool \<times> ble_t" where
  "rivr_ble_companion_handle_rx data s =
     (if length data < 5 \<or> length data > 255 then (False, s)
      else if data ! 0 \<noteq> 0x52 \<or> data ! 1 \<noteq> 0x43 then (False, s)
      else if data ! 2 \<noteq> 1 then (True, ble_count ble_errors s)
      else if cp_next (cp_rx_head s) = cp_rx_tail s then (True, ble_count ble_errors s)
      else
        let i = unat (cp_rx_head s); old = cp_rx_queue s ! i in
        (True, ble_count ble_rx_frames
           (s\<lparr>cp_rx_queue := (cp_rx_queue s)[i := (of_nat (length data), memcpy (snd old) data (length data))],
              cp_rx_head := cp_next (cp_rx_head s)\<rparr>)))"

definition rivr_ble_companion_on_disconnect :: "ble_t \<Rightarrow> ble_t" where
  "rivr_ble_companion_on_disconnect s = s\<lparr>cp_session_active := False, cp_rx_head := 0, cp_rx_tail := 0\<rparr>"

definition rivr_ble_companion_raw_bridge_enabled :: "ble_t \<Rightarrow> bool" where
  "rivr_ble_companion_raw_bridge_enabled s \<longleftrightarrow> \<not> cp_session_active s"

section \<open>The service\<close>

definition ble_handle_payload :: "ble_env \<Rightarrow> u8 list \<Rightarrow> ble_t \<Rightarrow> bool \<times> ble_t" where
  "ble_handle_payload e data s =
     (if data = [] \<or> length data > 255 then (False, ble_count ble_errors s)
      else case rivr_ble_companion_handle_rx data s of
        (True, s1) \<Rightarrow> (True, s1)
      | (False, s1) \<Rightarrow>
          (case rb_try_push (host_frame RIVR_IFACE_BLE data (lk_now e)) (bl_rx_ring s1) of
             (ok, q) \<Rightarrow>
               if \<not> ok then (False, ble_count ble_errors (s1\<lparr>bl_rx_ring := q\<rparr>))
               else (True, ble_count ble_rx_frames (s1\<lparr>bl_rx_ring := q\<rparr>))))"

definition rivr_ble_service_handle_rx_write :: "ble_env \<Rightarrow> u8 list \<Rightarrow> ble_t \<Rightarrow> ble_t" where
  "rivr_ble_service_handle_rx_write e value s =
     (case rivr_ble_frag_ingest (sv_rx_frag s) value of
        (res, payload, rx) \<Rightarrow>
          let s1 = s\<lparr>sv_rx_frag := rx\<rparr> in
          if res = RIVR_BLE_FRAG_RX_INVALID then ble_count ble_errors s1
          else if res = RIVR_BLE_FRAG_RX_INCOMPLETE then s1
          else snd (ble_handle_payload e payload s1))"

definition rivr_ble_service_set_connection :: "u8 \<Rightarrow> u16 \<Rightarrow> ble_t \<Rightarrow> ble_t" where
  "rivr_ble_service_set_connection gatts_if conn_id s = s\<lparr>sv_gatts_if := gatts_if, sv_conn_id := conn_id\<rparr>"

definition rivr_ble_service_clear_connection :: "ble_t \<Rightarrow> ble_t" where
  "rivr_ble_service_clear_connection s =
     s\<lparr>sv_conn_id := BLE_NO_HANDLE, sv_notify_enabled := False, sv_rx_frag := rivr_ble_frag_reset (sv_rx_frag s)\<rparr>"

text \<open>The callbacks of the GATT server; the last field of a connection is the address of the peer.\<close>

datatype gatts_event =
    GattsReg bool u8 | GattsAttrTab bool nat "u16 list" | GattsWrite u16 "u8 list" | GattsConnect u8 u16 bd_addr
  | GattsDisconnect | GattsMtu u16 | GattsOther

fun rivr_ble_service_handle_gatts_event :: "ble_env \<Rightarrow> gatts_event \<Rightarrow> ble_t \<Rightarrow> ble_t" where
  "rivr_ble_service_handle_gatts_event e (GattsReg ok gatts_if) s =
     (if \<not> ok then s else ble_call (CreateAttrTab gatts_if) (s\<lparr>sv_gatts_if := gatts_if\<rparr>))"
| "rivr_ble_service_handle_gatts_event e (GattsAttrTab ok num handles) s =
     (if \<not> ok then s
      else if num \<noteq> 6 then s
      else ble_call (StartService (handles ! 0)) (s\<lparr>sv_handle_table := handles\<rparr>)\<lparr>sv_service_ready := True\<rparr>)"
| "rivr_ble_service_handle_gatts_event e (GattsWrite handle val) s =
     (if handle = sv_handle_table s ! 2 then rivr_ble_service_handle_rx_write e val s
      else if handle = sv_handle_table s ! 5 \<and> length val \<ge> 2 then s\<lparr>sv_notify_enabled := (val ! 0 AND 1 \<noteq> 0)\<rparr>
      else s)"
| "rivr_ble_service_handle_gatts_event e GattsDisconnect s =
     rivr_ble_service_clear_connection (rivr_ble_companion_on_disconnect s)"
| "rivr_ble_service_handle_gatts_event e _ s = s"

definition rivr_ble_link_payload_limit :: "ble_t \<Rightarrow> u16" where
  "rivr_ble_link_payload_limit s =
     (let mtu = bl_att_mtu s in
      if bl_conn_handle s = BLE_NO_HANDLE \<or> mtu \<le> 3 then 0
      else (if mtu > RIVR_BLE_ATT_PREFERRED_MTU then RIVR_BLE_ATT_PREFERRED_MTU else mtu) - 3)"

definition rivr_ble_service_notify_one :: "ble_env \<Rightarrow> ble_t \<Rightarrow> ble_call list \<Rightarrow> u8 list \<Rightarrow> bool \<times> ble_call list" where
  "rivr_ble_service_notify_one e s calls data =
     (lk_notify_ok e data, calls @ [Indicate (sv_gatts_if s) (sv_conn_id s) (sv_handle_table s ! 4) data])"

definition rivr_ble_service_notify :: "ble_env \<Rightarrow> u8 list \<Rightarrow> ble_t \<Rightarrow> bool \<times> ble_t" where
  "rivr_ble_service_notify e data s =
     (let limit = rivr_ble_link_payload_limit s in
      if sv_gatts_if s = ESP_GATT_IF_NONE \<or> sv_conn_id s = BLE_NO_HANDLE then (False, s)
      else if \<not> sv_service_ready s \<or> \<not> sv_notify_enabled s \<or> data = [] then (False, s)
      else if limit = 0 then (False, ble_count ble_errors s)
      else case rivr_ble_frag_send data (unat limit) (Some (sv_tx_frag_msg_id s)) (rivr_ble_service_notify_one e s) (bl_calls s) of
        (ok, next_id, calls) \<Rightarrow>
          let s1 = s\<lparr>bl_calls := calls, sv_tx_frag_msg_id := (case next_id of Some i \<Rightarrow> i | None \<Rightarrow> sv_tx_frag_msg_id s)\<rparr>
          in if ok then (True, ble_count ble_tx_frames s1) else (False, ble_count ble_errors s1))"

section \<open>Advertising\<close>

definition rivr_ble_schedule_adv_retry :: "ble_env \<Rightarrow> u32 \<Rightarrow> ble_t \<Rightarrow> ble_t" where
  "rivr_ble_schedule_adv_retry e delay_ms s =
     (if \<not> bl_active s then s else s\<lparr>bl_adv_retry_due_ms := lk_now e + delay_ms\<rparr>)"

definition rivr_ble_clear_adv_retry :: "ble_t \<Rightarrow> ble_t" where
  "rivr_ble_clear_adv_retry s = s\<lparr>bl_adv_retry_due_ms := 0\<rparr>"

definition rivr_ble_start_adv :: "ble_env \<Rightarrow> ble_t \<Rightarrow> ble_t" where
  "rivr_ble_start_adv e s =
     (if \<not> bl_active s \<or> \<not> bl_stack_ready s \<or> \<not> sv_service_ready s then s
      else if bl_conn_handle s \<noteq> BLE_NO_HANDLE \<or> bl_pending_conn s \<noteq> BLE_NO_HANDLE then s
      else if bl_adv_config_done s \<noteq> 0 then s
      else if bl_adv_running s then s
      else
        let s1 = ble_call StartAdvertising (rivr_ble_clear_adv_retry s)
        in if \<not> lk_start_adv_ok e then rivr_ble_schedule_adv_retry e RIVR_BLE_ADV_RETRY_DELAY_MS s1 else s1)"

definition rivr_ble_request_link_tuning :: "bd_addr \<Rightarrow> ble_t \<Rightarrow> ble_t" where
  "rivr_ble_request_link_tuning bda s = ble_call (SetPktDataLen bda) (ble_call (UpdateConnParams bda) s)"

definition rivr_ble_set_device_name :: "ble_env \<Rightarrow> ble_t \<Rightarrow> ble_t" where
  "rivr_ble_set_device_name e s = ble_call (SetDeviceName (ucast (lk_node_id e))) s"

section \<open>Callbacks of the link\<close>

datatype auth_mode = NoBond | Bond | Mitm | BondMitm | ScOnly | ScBond | ScMitm | ScMitmBond

definition rivr_ble_auth_mode_is_mitm :: "auth_mode \<Rightarrow> bool" where
  "rivr_ble_auth_mode_is_mitm m \<longleftrightarrow> m = Mitm \<or> m = BondMitm \<or> m = ScMitm \<or> m = ScMitmBond"

datatype gap_event =
    GapAdvDataSet | GapScanRspSet | GapAdvStart bool | GapAdvStop | GapSecReq bd_addr | GapNcReq bd_addr
  | GapAuth bool auth_mode | GapOther

definition ble_auth_failed :: "ble_t \<Rightarrow> ble_t" where
  "ble_auth_failed s =
     (let s1 = (case bl_remote_bda s of Some a \<Rightarrow> if bl_reconnect s then ble_call (RemoveBond a) s else s | None \<Rightarrow> s);
          s2 = s1\<lparr>bl_reconnect := False\<rparr>
      in case bl_remote_bda s of Some a \<Rightarrow> ble_call (GapDisconnect a) s2 | None \<Rightarrow> s2)"

text \<open>The last four events are handled by builds with a passkey only.\<close>

fun rivr_ble_gap_event :: "ble_env \<Rightarrow> gap_event \<Rightarrow> ble_t \<Rightarrow> ble_t" where
  "rivr_ble_gap_event e GapAdvDataSet s =
     rivr_ble_start_adv e (s\<lparr>bl_adv_config_done := bl_adv_config_done s AND NOT 1\<rparr>)"
| "rivr_ble_gap_event e GapScanRspSet s =
     rivr_ble_start_adv e (s\<lparr>bl_adv_config_done := bl_adv_config_done s AND NOT 2\<rparr>)"
| "rivr_ble_gap_event e (GapAdvStart ok) s =
     (let s1 = s\<lparr>bl_adv_running := ok\<rparr>
      in if \<not> ok then rivr_ble_schedule_adv_retry e RIVR_BLE_ADV_RETRY_DELAY_MS s1 else rivr_ble_clear_adv_retry s1)"
| "rivr_ble_gap_event e GapAdvStop s =
     (let s1 = s\<lparr>bl_adv_running := False\<rparr>
      in if bl_active s \<and> bl_conn_handle s = BLE_NO_HANDLE \<and> bl_pending_conn s = BLE_NO_HANDLE
         then rivr_ble_schedule_adv_retry e RIVR_BLE_ADV_RETRY_DELAY_MS s1 else s1)"
| "rivr_ble_gap_event e (GapSecReq a) s = (if lk_passkey_build e then ble_call (SecurityRsp a) s else s)"
| "rivr_ble_gap_event e (GapNcReq a) s = (if lk_passkey_build e then ble_call (ConfirmReply a) s else s)"
| "rivr_ble_gap_event e (GapAuth success mode) s =
     (if \<not> lk_passkey_build e then s
      else
        let s1 = (if success \<and> rivr_ble_auth_mode_is_mitm mode
                  then s\<lparr>bl_conn_handle := bl_pending_conn s, bl_reconnect := False\<rparr>
                  else ble_auth_failed s)
        in s1\<lparr>bl_pending_conn := BLE_NO_HANDLE\<rparr>)"
| "rivr_ble_gap_event e GapOther s = s"

definition rivr_ble_is_peer_bonded :: "ble_env \<Rightarrow> bd_addr \<Rightarrow> bool" where
  "rivr_ble_is_peer_bonded e bda \<longleftrightarrow>
     lk_bonds e \<noteq> [] \<and> lk_bond_list_ok e \<and> bda \<in> set (take RIVR_BLE_MAX_BONDS (lk_bonds e))"

definition ble_connected :: "ble_env \<Rightarrow> u8 \<Rightarrow> u16 \<Rightarrow> bd_addr \<Rightarrow> ble_t \<Rightarrow> ble_t" where
  "ble_connected e gatts_if conn_id bda s =
     (let s1 = ble_count ble_connections s;
          s2 = (rivr_ble_clear_adv_retry (s1\<lparr>bl_adv_running := False\<rparr>))\<lparr>bl_att_mtu := RIVR_BLE_ATT_DEFAULT_MTU, bl_remote_bda := Some bda\<rparr>;
          s3 = rivr_ble_request_link_tuning bda (rivr_ble_service_set_connection gatts_if conn_id s2)
      in if lk_passkey_build e then
           let bonded = rivr_ble_is_peer_bonded e bda
           in ble_call (SetEncryption bda (\<not> bonded)) (s3\<lparr>bl_pending_conn := conn_id, bl_reconnect := bonded\<rparr>)
         else s3\<lparr>bl_conn_handle := conn_id\<rparr>)"

definition ble_disconnected :: "ble_env \<Rightarrow> ble_t \<Rightarrow> ble_t" where
  "ble_disconnected e s =
     (let s1 = s\<lparr>bl_conn_handle := BLE_NO_HANDLE, bl_att_mtu := RIVR_BLE_ATT_DEFAULT_MTU\<rparr>;
          s2 = (if lk_passkey_build e then s1\<lparr>bl_pending_conn := BLE_NO_HANDLE, bl_reconnect := False\<rparr> else s1);
          s3 = rivr_ble_service_clear_connection (s2\<lparr>bl_remote_bda := None\<rparr>)
      in if bl_active s3 then rivr_ble_schedule_adv_retry e RIVR_BLE_ADV_RETRY_DELAY_MS s3 else s3)"

fun ble_link_event :: "ble_env \<Rightarrow> gatts_event \<Rightarrow> ble_t \<Rightarrow> ble_t" where
  "ble_link_event e (GattsReg ok gatts_if) s =
     (if \<not> ok then s
      else ble_call ConfigScanRsp (ble_call ConfigAdvData ((rivr_ble_set_device_name e s)\<lparr>bl_adv_config_done := 3\<rparr>)))"
| "ble_link_event e (GattsAttrTab ok num handles) s = rivr_ble_start_adv e s"
| "ble_link_event e (GattsConnect gatts_if conn_id bda) s = ble_connected e gatts_if conn_id bda s"
| "ble_link_event e GattsDisconnect s = ble_disconnected e s"
| "ble_link_event e (GattsMtu mtu) s = s\<lparr>bl_att_mtu := mtu\<rparr>"
| "ble_link_event e _ s = s"

definition rivr_ble_gatts_event :: "ble_env \<Rightarrow> gatts_event \<Rightarrow> ble_t \<Rightarrow> ble_t" where
  "rivr_ble_gatts_event e ev s = ble_link_event e ev (rivr_ble_service_handle_gatts_event e ev s)"

section \<open>Operations of the main loop\<close>

definition rivr_ble_choose_passkey :: "ble_env \<Rightarrow> u32" where
  "rivr_ble_choose_passkey e = (if lk_random_passkey e then 100000 + lk_random e mod 900000 else lk_fixed_passkey e)"

definition ble_rand_addr :: "u32 \<Rightarrow> bd_addr" where
  "ble_rand_addr n = [0xC0, 0xAB, ucast (drop_bit 24 n), ucast (drop_bit 16 n), ucast (drop_bit 8 n), ucast n]"

text \<open>\<open>lk_init_ok\<close>: every call up to the registration of the callbacks succeeds; each failure returns at once.\<close>

definition rivr_ble_init :: "ble_env \<Rightarrow> ble_t \<Rightarrow> ble_t" where
  "rivr_ble_init e s =
     (if \<not> lk_init_ok e then s
      else
        let s1 = ble_call (SetRandAddr (ble_rand_addr (lk_node_id e))) s;
            s2 = (if lk_passkey_build e
                  then ble_call (ConfigureSecurity (rivr_ble_choose_passkey e)) (s1\<lparr>bl_passkey := rivr_ble_choose_passkey e\<rparr>)
                  else s1)
        in if \<not> lk_register_ok e then s2
           else
             let s3 = s2\<lparr>bl_stack_ready := True, bl_active := True, bl_activate_ms := 0, bl_adv_retry_due_ms := 0,
                         bl_timeout_ms := (if lk_passkey_build e then 0 else BLE_BOOT_WINDOW_MS),
                         bl_conn_handle := BLE_NO_HANDLE\<rparr>;
                 s4 = (if lk_passkey_build e then s3\<lparr>bl_pending_conn := BLE_NO_HANDLE, bl_reconnect := False\<rparr> else s3)
             in rivr_ble_start_adv e s4)"

definition rivr_ble_deactivate :: "ble_t \<Rightarrow> ble_t" where
  "rivr_ble_deactivate s =
     (let s1 = s\<lparr>bl_active := False, bl_adv_retry_due_ms := 0, bl_timeout_ms := 0\<rparr>;
          s2 = (if bl_adv_running s1 then ble_call StopAdvertising s1 else s1)
      in case bl_remote_bda s2 of Some a \<Rightarrow> ble_call (GapDisconnect a) s2 | None \<Rightarrow> s2)"

definition rivr_ble_tick :: "ble_env \<Rightarrow> u32 \<Rightarrow> ble_t \<Rightarrow> ble_t" where
  "rivr_ble_tick e now_ms s =
     (let s1 = (if bl_activate_ms s = 0 \<and> bl_active s then s\<lparr>bl_activate_ms := now_ms\<rparr> else s) in
      if \<not> bl_active s1 then s1
      else
        let s2 = (if bl_adv_retry_due_ms s1 \<noteq> 0 \<and> 0 \<le> sint (now_ms - bl_adv_retry_due_ms s1)
                  then rivr_ble_start_adv e (s1\<lparr>bl_adv_retry_due_ms := 0\<rparr>) else s1)
        in if bl_timeout_ms s2 = 0 then s2
           else if now_ms - bl_activate_ms s2 \<ge> bl_timeout_ms s2 then rivr_ble_deactivate s2
           else s2)"

datatype rivr_ble_mode_t = RIVR_BLE_MODE_BOOT_WINDOW | RIVR_BLE_MODE_BUTTON | RIVR_BLE_MODE_APP_REQUESTED | RIVR_BLE_MODE_DISABLED

definition rivr_ble_activate :: "ble_env \<Rightarrow> rivr_ble_mode_t \<Rightarrow> ble_t \<Rightarrow> ble_t" where
  "rivr_ble_activate e mode s =
     rivr_ble_start_adv e
       (s\<lparr>bl_timeout_ms := (case mode of
            RIVR_BLE_MODE_BOOT_WINDOW \<Rightarrow> if lk_passkey_build e then 0 else BLE_BOOT_WINDOW_MS
          | RIVR_BLE_MODE_BUTTON \<Rightarrow> BLE_BUTTON_WINDOW_MS
          | RIVR_BLE_MODE_APP_REQUESTED \<Rightarrow> 0
          | RIVR_BLE_MODE_DISABLED \<Rightarrow> BLE_BOOT_WINDOW_MS),
          bl_active := True, bl_activate_ms := 0, bl_adv_retry_due_ms := 0\<rparr>)"

definition rivr_ble_is_connected :: "ble_t \<Rightarrow> bool" where
  "rivr_ble_is_connected s \<longleftrightarrow> bl_conn_handle s \<noteq> BLE_NO_HANDLE"

definition rivr_ble_has_bond :: "ble_env \<Rightarrow> bool" where
  "rivr_ble_has_bond e \<longleftrightarrow> lk_passkey_build e \<and> lk_bonds e \<noteq> []"

fun remove_bonds :: "ble_env \<Rightarrow> bd_addr list \<Rightarrow> nat \<Rightarrow> ble_t \<Rightarrow> nat \<times> ble_t" where
  "remove_bonds e [] removed s = (removed, s)"
| "remove_bonds e (a # as) removed s =
     remove_bonds e as (if lk_remove_ok e a then removed + 1 else removed) (ble_call (RemoveBond a) s)"

definition rivr_ble_clear_bonds :: "ble_env \<Rightarrow> ble_t \<Rightarrow> int \<times> ble_t" where
  "rivr_ble_clear_bonds e s =
     (if lk_bonds e = [] then
        (0, case bl_remote_bda s of Some a \<Rightarrow> ble_call (GapDisconnect a) s | None \<Rightarrow> s)
      else if \<not> lk_bond_list_ok e then (-1, s)
      else
        let s1 = (case bl_remote_bda s of
                    None \<Rightarrow> s
                  | Some a \<Rightarrow> rivr_ble_service_clear_connection
                      ((ble_call (GapDisconnect a) s)\<lparr>bl_conn_handle := BLE_NO_HANDLE, bl_pending_conn := BLE_NO_HANDLE, bl_remote_bda := None\<rparr>))
        in case remove_bonds e (take RIVR_BLE_MAX_BONDS (lk_bonds e)) 0 s1 of
             (removed, s2) \<Rightarrow> (int removed, if bl_active s2 then rivr_ble_start_adv e s2 else s2))"

section \<open>Runs\<close>

text \<open>A callback, or a call of the main loop.\<close>

datatype ble_event =
    EvGatts gatts_event | EvGap gap_event | EvTick u32 | EvActivate rivr_ble_mode_t | EvDeactivate | EvClearBonds
  | EvNotify "u8 list"

fun ble_step :: "ble_env \<Rightarrow> ble_event \<Rightarrow> ble_t \<Rightarrow> ble_t" where
  "ble_step e (EvGatts ev) s = rivr_ble_gatts_event e ev s"
| "ble_step e (EvGap ev) s = rivr_ble_gap_event e ev s"
| "ble_step e (EvTick now_ms) s = rivr_ble_tick e now_ms s"
| "ble_step e (EvActivate mode) s = rivr_ble_activate e mode s"
| "ble_step e EvDeactivate s = rivr_ble_deactivate s"
| "ble_step e EvClearBonds s = snd (rivr_ble_clear_bonds e s)"
| "ble_step e (EvNotify data) s = snd (rivr_ble_service_notify e data s)"

fun ble_run :: "(ble_env \<times> ble_event) list \<Rightarrow> ble_t \<Rightarrow> ble_t" where
  "ble_run [] s = s"
| "ble_run ((e, ev) # evs) s = ble_run evs (ble_step e ev s)"

lemma ble_run_snoc: "ble_run (evs @ [(e, ev)]) s = ble_step e ev (ble_run evs s)"
  by (induction evs s rule: ble_run.induct) simp_all

lemma ble_call_parts [simp]:
  "bl_conn_handle (ble_call c s) = bl_conn_handle s" "bl_pending_conn (ble_call c s) = bl_pending_conn s"
  "bl_active (ble_call c s) = bl_active s" "bl_adv_running (ble_call c s) = bl_adv_running s"
  "bl_remote_bda (ble_call c s) = bl_remote_bda s" "bl_calls (ble_call c s) = bl_calls s @ [c]"
  "sv_conn_id (ble_call c s) = sv_conn_id s" "bl_timeout_ms (ble_call c s) = bl_timeout_ms s"
  "bl_activate_ms (ble_call c s) = bl_activate_ms s" "bl_adv_retry_due_ms (ble_call c s) = bl_adv_retry_due_ms s"
  by (simp_all add: ble_call_def)

lemma ble_count_parts [simp]:
  "bl_conn_handle (ble_count k s) = bl_conn_handle s" "bl_pending_conn (ble_count k s) = bl_pending_conn s"
  "bl_active (ble_count k s) = bl_active s" "bl_remote_bda (ble_count k s) = bl_remote_bda s"
  by (simp_all add: ble_count_def)

lemma start_adv_parts [simp]:
  "bl_conn_handle (rivr_ble_start_adv e s) = bl_conn_handle s" "bl_pending_conn (rivr_ble_start_adv e s) = bl_pending_conn s"
  "bl_active (rivr_ble_start_adv e s) = bl_active s" "bl_adv_running (rivr_ble_start_adv e s) = bl_adv_running s"
  "bl_remote_bda (rivr_ble_start_adv e s) = bl_remote_bda s" "bl_timeout_ms (rivr_ble_start_adv e s) = bl_timeout_ms s"
  "bl_activate_ms (rivr_ble_start_adv e s) = bl_activate_ms s"
  by (simp_all add: rivr_ble_start_adv_def Let_def rivr_ble_clear_adv_retry_def rivr_ble_schedule_adv_retry_def)

lemma retry_parts [simp]:
  "bl_conn_handle (rivr_ble_schedule_adv_retry e d s) = bl_conn_handle s" "bl_pending_conn (rivr_ble_schedule_adv_retry e d s) = bl_pending_conn s"
  "bl_conn_handle (rivr_ble_clear_adv_retry s) = bl_conn_handle s" "bl_pending_conn (rivr_ble_clear_adv_retry s) = bl_pending_conn s"
  by (simp_all add: rivr_ble_clear_adv_retry_def rivr_ble_schedule_adv_retry_def)

lemma handle_rx_parts: "rivr_ble_companion_handle_rx data s = (b, s') \<Longrightarrow> bl_conn_handle s' = bl_conn_handle s \<and> bl_pending_conn s' = bl_pending_conn s"
  by (auto simp: rivr_ble_companion_handle_rx_def Let_def split: if_splits)

lemma handle_payload_parts: "ble_handle_payload e data s = (b, s') \<Longrightarrow> bl_conn_handle s' = bl_conn_handle s \<and> bl_pending_conn s' = bl_pending_conn s"
  by (auto simp: ble_handle_payload_def dest: handle_rx_parts split: if_splits prod.splits bool.splits)

lemma service_event_parts:
  "bl_conn_handle (rivr_ble_service_handle_gatts_event e ev s) = bl_conn_handle s \<and>
   bl_pending_conn (rivr_ble_service_handle_gatts_event e ev s) = bl_pending_conn s"
proof (cases ev)
  case (GattsWrite h v)
  obtain b s' where "ble_handle_payload e (fst (snd (rivr_ble_frag_ingest (sv_rx_frag s) v)))
      (s\<lparr>sv_rx_frag := snd (snd (rivr_ble_frag_ingest (sv_rx_frag s) v))\<rparr>) = (b, s')" by fastforce
  with handle_payload_parts [OF this] GattsWrite show ?thesis
    by (auto simp: rivr_ble_service_handle_rx_write_def Let_def split: prod.split)
qed (simp_all add: rivr_ble_service_clear_connection_def rivr_ble_companion_on_disconnect_def)

lemma notify_parts:
  "bl_conn_handle (snd (rivr_ble_service_notify e d s)) = bl_conn_handle s"
  "bl_pending_conn (snd (rivr_ble_service_notify e d s)) = bl_pending_conn s"
  by (simp_all add: rivr_ble_service_notify_def Let_def split: prod.split)

lemma remove_bonds_parts:
  "bl_conn_handle (snd (remove_bonds e as n s)) = bl_conn_handle s" "bl_pending_conn (snd (remove_bonds e as n s)) = bl_pending_conn s"
  by (induction e as n s rule: remove_bonds.induct) simp_all

lemma deactivate_parts:
  "bl_conn_handle (rivr_ble_deactivate s) = bl_conn_handle s" "bl_pending_conn (rivr_ble_deactivate s) = bl_pending_conn s"
  by (simp_all add: rivr_ble_deactivate_def Let_def split: option.split)

lemma tick_parts:
  "bl_conn_handle (rivr_ble_tick e now s) = bl_conn_handle s" "bl_pending_conn (rivr_ble_tick e now s) = bl_pending_conn s"
  by (simp_all add: rivr_ble_tick_def Let_def deactivate_parts)

lemma clear_bonds_parts:
  "bl_conn_handle (snd (rivr_ble_clear_bonds e s)) \<noteq> BLE_NO_HANDLE \<Longrightarrow> bl_conn_handle s \<noteq> BLE_NO_HANDLE"
  "bl_pending_conn (snd (rivr_ble_clear_bonds e s)) \<noteq> BLE_NO_HANDLE \<Longrightarrow> bl_pending_conn s \<noteq> BLE_NO_HANDLE"
  by (auto simp: rivr_ble_clear_bonds_def Let_def case_prod_beta remove_bonds_parts rivr_ble_service_clear_connection_def
      split: option.splits if_splits)

section \<open>Authentication\<close>

definition is_disconnect :: "ble_event \<Rightarrow> bool" where
  "is_disconnect ev \<longleftrightarrow> ev = EvGatts GattsDisconnect"

text \<open>The handles change in three events only.\<close>

lemma auth_failed_parts:
  "bl_conn_handle (ble_auth_failed s) = bl_conn_handle s" "bl_pending_conn (ble_auth_failed s) = bl_pending_conn s"
  by (simp_all add: ble_auth_failed_def Let_def split: option.split)

lemma connected_parts:
  assumes "lk_passkey_build e"
  shows "bl_conn_handle (ble_connected e i c a s) = bl_conn_handle s" "bl_pending_conn (ble_connected e i c a s) = c"
  using assms by (simp_all add: ble_connected_def Let_def rivr_ble_request_link_tuning_def rivr_ble_service_set_connection_def)

lemma disconnected_parts:
  assumes "lk_passkey_build e"
  shows "bl_conn_handle (ble_disconnected e s) = BLE_NO_HANDLE" "bl_pending_conn (ble_disconnected e s) = BLE_NO_HANDLE"
  using assms by (simp_all add: ble_disconnected_def Let_def rivr_ble_service_clear_connection_def)

lemma ble_step_handles:
  assumes pk: "lk_passkey_build e"
  shows "bl_conn_handle (ble_step e ev s) \<noteq> BLE_NO_HANDLE \<Longrightarrow>
      \<not> is_disconnect ev \<and> (bl_conn_handle s \<noteq> BLE_NO_HANDLE \<or>
        bl_pending_conn s \<noteq> BLE_NO_HANDLE \<and> (\<exists>m. ev = EvGap (GapAuth True m) \<and> rivr_ble_auth_mode_is_mitm m))"
    "bl_pending_conn (ble_step e ev s) \<noteq> BLE_NO_HANDLE \<Longrightarrow>
      \<not> is_disconnect ev \<and> (bl_pending_conn s \<noteq> BLE_NO_HANDLE \<or> (\<exists>i c a. ev = EvGatts (GattsConnect i c a)))"
proof -
  have "(bl_conn_handle (ble_step e ev s) \<noteq> BLE_NO_HANDLE \<longrightarrow>
      \<not> is_disconnect ev \<and> (bl_conn_handle s \<noteq> BLE_NO_HANDLE \<or>
        bl_pending_conn s \<noteq> BLE_NO_HANDLE \<and> (\<exists>m. ev = EvGap (GapAuth True m) \<and> rivr_ble_auth_mode_is_mitm m))) \<and>
    (bl_pending_conn (ble_step e ev s) \<noteq> BLE_NO_HANDLE \<longrightarrow>
      \<not> is_disconnect ev \<and> (bl_pending_conn s \<noteq> BLE_NO_HANDLE \<or> (\<exists>i c a. ev = EvGatts (GattsConnect i c a))))"
  proof (cases ev)
    case (EvGatts g)
    then show ?thesis using service_event_parts [of e g s]
      by (cases g) (simp_all add: rivr_ble_gatts_event_def is_disconnect_def connected_parts [OF pk] disconnected_parts [OF pk]
          rivr_ble_set_device_name_def)
  next
    case (EvGap g)
    then show ?thesis using pk
      by (cases g) (auto simp: is_disconnect_def Let_def auth_failed_parts)
  next
    case EvClearBonds
    then show ?thesis using clear_bonds_parts [of e s] by (auto simp: is_disconnect_def)
  qed (simp_all add: is_disconnect_def tick_parts deactivate_parts notify_parts rivr_ble_activate_def)
  then show "bl_conn_handle (ble_step e ev s) \<noteq> BLE_NO_HANDLE \<Longrightarrow>
      \<not> is_disconnect ev \<and> (bl_conn_handle s \<noteq> BLE_NO_HANDLE \<or>
        bl_pending_conn s \<noteq> BLE_NO_HANDLE \<and> (\<exists>m. ev = EvGap (GapAuth True m) \<and> rivr_ble_auth_mode_is_mitm m))"
    "bl_pending_conn (ble_step e ev s) \<noteq> BLE_NO_HANDLE \<Longrightarrow>
      \<not> is_disconnect ev \<and> (bl_pending_conn s \<noteq> BLE_NO_HANDLE \<or> (\<exists>i c a. ev = EvGatts (GattsConnect i c a)))" by blast+
qed

text \<open>C27: In a build with a passkey, a link counts as connected only while a peer is there that has connected, has
  then been authenticated with protection against an intermediary, and has not disconnected since.\<close>

theorem passkey_link_authenticated:
  assumes s: "bl_conn_handle s = BLE_NO_HANDLE" "bl_pending_conn s = BLE_NO_HANDLE"
    and p: "\<forall>(e, ev) \<in> set evs. lk_passkey_build e" and c: "rivr_ble_is_connected (ble_run evs s)"
  shows "\<exists>pre e1 i c a mid e2 m post. evs = pre @ [(e1, EvGatts (GattsConnect i c a))] @ mid @ [(e2, EvGap (GapAuth True m))] @ post \<and>
    rivr_ble_auth_mode_is_mitm m \<and> (\<forall>(e, ev) \<in> set (mid @ post). \<not> is_disconnect ev)"
proof -
  let ?C = "\<lambda>evs. \<exists>pre e1 i c a mid. evs = pre @ [(e1, EvGatts (GattsConnect i c a))] @ mid \<and> (\<forall>(e, ev) \<in> set mid. \<not> is_disconnect ev)"
  let ?A = "\<lambda>evs. \<exists>pre e2 m post. evs = pre @ [(e2, EvGap (GapAuth True m))] @ post \<and> rivr_ble_auth_mode_is_mitm m \<and>
    (\<forall>(e, ev) \<in> set post. \<not> is_disconnect ev) \<and> ?C pre"
  have "(bl_conn_handle (ble_run evs s) \<noteq> BLE_NO_HANDLE \<longrightarrow> ?A evs) \<and> (bl_pending_conn (ble_run evs s) \<noteq> BLE_NO_HANDLE \<longrightarrow> ?C evs)"
    using p
  proof (induction evs rule: rev_induct)
    case (snoc x evs)
    obtain e ev where x: "x = (e, ev)" by fastforce
    with snoc have IH: "bl_conn_handle (ble_run evs s) \<noteq> BLE_NO_HANDLE \<Longrightarrow> ?A evs" "bl_pending_conn (ble_run evs s) \<noteq> BLE_NO_HANDLE \<Longrightarrow> ?C evs"
      and pk: "lk_passkey_build e" by auto
    note st = ble_step_handles [OF pk, of ev "ble_run evs s", folded ble_run_snoc]
    show ?case unfolding x
    proof (intro conjI impI)
      assume "bl_conn_handle (ble_run (evs @ [(e, ev)]) s) \<noteq> BLE_NO_HANDLE"
      from st(1) [OF this] show "?A (evs @ [(e, ev)])"
      proof (elim conjE disjE exE)
        assume d: "\<not> is_disconnect ev" and "bl_conn_handle (ble_run evs s) \<noteq> BLE_NO_HANDLE"
        from IH(1) [OF this(2)] obtain pre e2 m post where a: "evs = pre @ [(e2, EvGap (GapAuth True m))] @ post" "rivr_ble_auth_mode_is_mitm m"
          "\<forall>(e, ev) \<in> set post. \<not> is_disconnect ev" "?C pre" by blast
        then show ?thesis using d by (intro exI [of _ pre] exI [of _ e2] exI [of _ m] exI [of _ "post @ [(e, ev)]"]) auto
      next
        fix m assume "ev = EvGap (GapAuth True m)" "rivr_ble_auth_mode_is_mitm m" "bl_pending_conn (ble_run evs s) \<noteq> BLE_NO_HANDLE"
        with IH(2) show ?thesis by (intro exI [of _ evs] exI [of _ e] exI [of _ m] exI [of _ "[]"]) auto
      qed
    next
      assume "bl_pending_conn (ble_run (evs @ [(e, ev)]) s) \<noteq> BLE_NO_HANDLE"
      from st(2) [OF this] show "?C (evs @ [(e, ev)])"
      proof (elim conjE disjE exE)
        assume d: "\<not> is_disconnect ev" and "bl_pending_conn (ble_run evs s) \<noteq> BLE_NO_HANDLE"
        from IH(2) [OF this(2)] obtain pre e1 i c a mid where b: "evs = pre @ [(e1, EvGatts (GattsConnect i c a))] @ mid"
          "\<forall>(e, ev) \<in> set mid. \<not> is_disconnect ev" by blast
        then show ?thesis using d by (intro exI [of _ pre] exI [of _ e1] exI [of _ i] exI [of _ c] exI [of _ a] exI [of _ "mid @ [(e, ev)]"]) auto
      next
        fix i c a assume "ev = EvGatts (GattsConnect i c a)"
        then show ?thesis by (intro exI [of _ evs] exI [of _ e] exI [of _ i] exI [of _ c] exI [of _ a] exI [of _ "[]"]) auto
      qed
    qed
  qed (use s in simp)
  with c obtain pre e2 m post where a: "evs = pre @ [(e2, EvGap (GapAuth True m))] @ post" "rivr_ble_auth_mode_is_mitm m"
    "\<forall>(e, ev) \<in> set post. \<not> is_disconnect ev" "?C pre" unfolding rivr_ble_is_connected_def by blast
  then obtain q e1 i c a mid where b: "pre = q @ [(e1, EvGatts (GattsConnect i c a))] @ mid" "\<forall>(e, ev) \<in> set mid. \<not> is_disconnect ev" by blast
  show ?thesis using a b by (intro exI [of _ q] exI [of _ e1] exI [of _ i] exI [of _ c] exI [of _ a] exI [of _ mid] exI [of _ e2] exI [of _ m] exI [of _ post]) auto
qed

text \<open>A second successful authentication on a link that is in use, as when a peer pairs again, loses the link:
  the handle is overwritten with the cleared pending one, the peer stays connected, and nothing can be sent to it.\<close>

theorem second_authentication_loses_link:
  assumes pk: "lk_passkey_build e" "lk_passkey_build e'" and m: "rivr_ble_auth_mode_is_mitm m" "rivr_ble_auth_mode_is_mitm m'"
    and s: "bl_pending_conn s \<noteq> BLE_NO_HANDLE"
    and run: "s1 = ble_step e (EvGap (GapAuth True m)) s" "s2 = ble_step e' (EvGap (GapAuth True m')) s1"
  shows "rivr_ble_is_connected s1 \<and> \<not> rivr_ble_is_connected s2 \<and> bl_remote_bda s2 = bl_remote_bda s \<and> bl_calls s2 = bl_calls s \<and>
    \<not> fst (rivr_ble_service_notify e2 data s2)"
  using assms by (simp add: rivr_ble_is_connected_def rivr_ble_service_notify_def rivr_ble_link_payload_limit_def Let_def)

text \<open>When a retry of advertising and the end of the activation window fall into one tick, advertising is started
  and then not stopped, for it only counts as running once the stack reports it; the node advertises while it is inactive,
  no later tick stops it, and it accepts a connection.\<close>

theorem expired_window_keeps_advertising:
  assumes s: "bl_active s" "bl_stack_ready s" "sv_service_ready s" "bl_conn_handle s = BLE_NO_HANDLE" "bl_pending_conn s = BLE_NO_HANDLE"
      "bl_adv_config_done s = 0" "\<not> bl_adv_running s" "bl_remote_bda s = None"
    and due: "bl_adv_retry_due_ms s \<noteq> 0" "0 \<le> sint (now - bl_adv_retry_due_ms s)"
    and expired: "bl_activate_ms s \<noteq> 0" "bl_timeout_ms s \<noteq> 0" "bl_timeout_ms s \<le> now - bl_activate_ms s"
    and ok: "lk_start_adv_ok e" "\<not> lk_passkey_build e"
    and run: "s1 = ble_run ([(e, EvTick now), (e, EvGap (GapAdvStart True))] @ map (\<lambda>t. (e, EvTick t)) ticks) s"
  shows "\<not> bl_active s1 \<and> bl_adv_running s1 \<and> bl_calls s1 = bl_calls s @ [StartAdvertising] \<and>
    (c \<noteq> BLE_NO_HANDLE \<longrightarrow> rivr_ble_is_connected (ble_step e (EvGatts (GattsConnect i c a)) s1))"
proof -
  let ?a = "rivr_ble_start_adv e (s\<lparr>bl_adv_retry_due_ms := 0\<rparr>)"
  have a: "?a = ble_call StartAdvertising (s\<lparr>bl_adv_retry_due_ms := 0\<rparr>)"
    using s ok by (simp add: rivr_ble_start_adv_def rivr_ble_clear_adv_retry_def)
  have t: "rivr_ble_tick e now s = rivr_ble_deactivate ?a"
    using s due expired by (simp add: rivr_ble_tick_def Let_def)
  define u where "u = ble_run [(e, EvTick now), (e, EvGap (GapAdvStart True))] s"
  have u: "\<not> bl_active u" "bl_adv_running u" "bl_calls u = bl_calls s @ [StartAdvertising]"
    using s by (simp_all add: u_def t a rivr_ble_deactivate_def Let_def rivr_ble_clear_adv_retry_def)
  have idle: "ble_run (map (\<lambda>t. (e, EvTick t)) ts) v = v" if "\<not> bl_active v" for ts v
    using that by (induction ts) (simp_all add: rivr_ble_tick_def Let_def)
  have "ble_run (es @ fs) v = ble_run fs (ble_run es v)" for es fs v by (induction es v rule: ble_run.induct) simp_all
  then have s1: "s1 = u" unfolding run using idle [OF u(1)] by (simp add: u_def)
  show ?thesis unfolding s1
    using u ok by (simp add: rivr_ble_is_connected_def rivr_ble_gatts_event_def ble_connected_def Let_def
        rivr_ble_request_link_tuning_def rivr_ble_service_set_connection_def)
qed

section \<open>A link at work\<close>

definition demo_ble_env :: "bool \<Rightarrow> ble_env" where
  "demo_ble_env pk = \<lparr>lk_passkey_build = pk, lk_random_passkey = False, lk_fixed_passkey = 123456, lk_random = 0, lk_node_id = 7,
     lk_now = 1000, lk_init_ok = True, lk_register_ok = True, lk_start_adv_ok = True, lk_bonds = [], lk_bond_list_ok = True,
     lk_remove_ok = (\<lambda>a. True), lk_notify_ok = (\<lambda>d. True)\<rparr>"

definition demo_ble :: ble_t where
  "demo_ble = \<lparr>bl_conn_handle = BLE_NO_HANDLE, bl_pending_conn = BLE_NO_HANDLE, bl_passkey = 0, bl_reconnect = False, bl_active = True,
     bl_stack_ready = True, bl_adv_running = False, bl_activate_ms = 500, bl_adv_retry_due_ms = 120500, bl_timeout_ms = BLE_BOOT_WINDOW_MS,
     bl_adv_config_done = 0, bl_att_mtu = 23, bl_remote_bda = None, sv_handle_table = [40, 41, 42, 43, 44, 45], sv_gatts_if = 3,
     sv_conn_id = BLE_NO_HANDLE, sv_service_ready = True, sv_notify_enabled = False,
     sv_rx_frag = \<lparr>fx_next_slot = 0, fx_slots = replicate 4 \<lparr>fg_active = False, fg_msg_id = 0, fg_total_len = 0, fg_received_len = 0,
       fg_data = replicate 255 0\<rparr>\<rparr>, sv_tx_frag_msg_id = 0, cp_rx_queue = replicate 4 (0, replicate 255 0), cp_rx_head = 0, cp_rx_tail = 0,
     cp_session_active = False, bl_metrics = metrics_zero, bl_rx_ring = rb_init [] 0, bl_calls = []\<rparr>"

abbreviation "demo_peer \<equiv> ([1, 2, 3, 4, 5, 6] :: bd_addr)"

definition demo_pairing :: "(ble_env \<times> ble_event) list" where
  "demo_pairing = [(demo_ble_env True, EvGatts (GattsConnect 3 1 demo_peer)), (demo_ble_env True, EvGap (GapAuth True ScMitmBond))]"

theorem passkey_link_authenticated_witness:
  "\<exists>pre e1 i c a mid e2 m post. demo_pairing = pre @ [(e1, EvGatts (GattsConnect i c a))] @ mid @ [(e2, EvGap (GapAuth True m))] @ post \<and>
    rivr_ble_auth_mode_is_mitm m \<and> (\<forall>(e, ev) \<in> set (mid @ post). \<not> is_disconnect ev)"
proof (rule passkey_link_authenticated)
  show "bl_conn_handle demo_ble = BLE_NO_HANDLE" "bl_pending_conn demo_ble = BLE_NO_HANDLE" by (simp_all add: demo_ble_def)
  show "\<forall>(e, ev) \<in> set demo_pairing. lk_passkey_build e" by (simp add: demo_pairing_def demo_ble_env_def)
  show "rivr_ble_is_connected (ble_run demo_pairing demo_ble)"
    by (simp add: demo_pairing_def demo_ble_env_def rivr_ble_gatts_event_def connected_parts rivr_ble_is_connected_def
        rivr_ble_auth_mode_is_mitm_def Let_def)
qed

theorem second_authentication_loses_link_witness:
  "\<not> rivr_ble_is_connected (ble_run (demo_pairing @ [(demo_ble_env True, EvGap (GapAuth True ScMitmBond))]) demo_ble)"
proof -
  let ?s = "ble_step (demo_ble_env True) (EvGatts (GattsConnect 3 1 demo_peer)) demo_ble"
  have pk: "lk_passkey_build (demo_ble_env True)" by (simp add: demo_ble_env_def)
  have m: "rivr_ble_auth_mode_is_mitm ScMitmBond" by (simp add: rivr_ble_auth_mode_is_mitm_def)
  have "bl_pending_conn ?s \<noteq> BLE_NO_HANDLE" by (simp add: rivr_ble_gatts_event_def connected_parts [OF pk])
  from second_authentication_loses_link [OF pk pk m m this refl refl] show ?thesis by (simp add: demo_pairing_def)
qed

theorem expired_window_keeps_advertising_witness:
  "let s1 = ble_run [(demo_ble_env False, EvTick 120600), (demo_ble_env False, EvGap (GapAdvStart True)), (demo_ble_env False, EvTick 999999)] demo_ble
   in \<not> bl_active s1 \<and> bl_adv_running s1 \<and> rivr_ble_is_connected (ble_step (demo_ble_env False) (EvGatts (GattsConnect 3 1 demo_peer)) s1)"
  using expired_window_keeps_advertising [of demo_ble 120600 "demo_ble_env False" _ "[999999]" 1 3 demo_peer, OF _ _ _ _ _ _ _ _ _ _ _ _ _ _ _ refl]
  by (simp add: demo_ble_def demo_ble_env_def Let_def)

end
