(* ===== verification/Rivr_Identity.thy ===== *)
theory Rivr_Identity
  imports Rivr_Params Rivr_NeighborTable
begin

text \<open>
  The identity of a node in flash (rivr_embed.c): callsign, network number and position, their globals and
  the four operations on them. Whether the namespace opens and each call succeeds is an input; writes
  last when they are committed. The properties: an identity reported as stored is the one loaded after
  a restart, and a position whose storing failed is not used either.
\<close>

text \<open>The globals; a position is two words in two's complement, \<open>INT32_MIN\<close> when it is not set.\<close>

record identity_t =
  id_callsign :: "u8 list"
  id_net_id :: u16
  id_lat_e7 :: u32
  id_lon_e7 :: u32

record identity_nvs =
  iv_callsign :: "u8 list option"
  iv_netid :: "u16 option"
  iv_lat :: "u32 option"
  iv_lon :: "u32 option"

text \<open>The outcomes of the calls of one operation: opening, the first and second write, the commit.\<close>

record nvs_io =
  io_open :: bool
  io_first :: bool
  io_second :: bool
  io_commit :: bool

definition or_else :: "'a option \<Rightarrow> 'a \<Rightarrow> 'a" where
  "or_else v d = (case v of Some x \<Rightarrow> x | None \<Rightarrow> d)"

text \<open>None is a namespace that does not open. A stored callsign is read when it fits the 12 bytes of the buffer.\<close>

definition rivr_nvs_load_identity :: "identity_nvs option \<Rightarrow> identity_t \<Rightarrow> identity_t" where
  "rivr_nvs_load_identity nvs g =
     (case nvs of
        None \<Rightarrow> g
      | Some f \<Rightarrow>
          \<lparr>id_callsign = (case iv_callsign f of
               Some cs \<Rightarrow> if length cs + 1 \<le> 12 \<and> length cs + 1 > 1 then cs else id_callsign g
             | None \<Rightarrow> id_callsign g),
           id_net_id = or_else (iv_netid f) (id_net_id g),
           id_lat_e7 = or_else (iv_lat f) (id_lat_e7 g),
           id_lon_e7 = or_else (iv_lon f) (id_lon_e7 g)\<rparr>)"

definition rivr_nvs_store_identity :: "nvs_io \<Rightarrow> u8 list \<Rightarrow> u16 \<Rightarrow> identity_nvs \<Rightarrow> bool \<times> identity_nvs" where
  "rivr_nvs_store_identity io callsign net_id f =
     (if \<not> io_open io then (False, f)
      else
        let ok = ((callsign \<noteq> [] \<longrightarrow> io_first io) \<and> io_second io);
            f1 = (if callsign \<noteq> [] then f\<lparr>iv_callsign := Some callsign\<rparr> else f)
        in if ok \<and> io_commit io then (True, f1\<lparr>iv_netid := Some net_id\<rparr>) else (False, f))"

definition rivr_nvs_store_position :: "nvs_io \<Rightarrow> u32 \<Rightarrow> u32 \<Rightarrow> identity_t \<times> identity_nvs \<Rightarrow> bool \<times> identity_t \<times> identity_nvs" where
  "rivr_nvs_store_position io lat lon s =
     (case s of (g, f) \<Rightarrow>
        if \<not> io_open io then (False, g, f)
        else
          let ok = (io_first io \<and> io_second io)
          in if ok \<and> io_commit io
             then (True, g\<lparr>id_lat_e7 := lat, id_lon_e7 := lon\<rparr>, f\<lparr>iv_lat := Some lat, iv_lon := Some lon\<rparr>)
             else (False, g, f))"

definition rivr_nvs_clear_position :: "nvs_io \<Rightarrow> identity_t \<times> identity_nvs \<Rightarrow> bool \<times> identity_t \<times> identity_nvs" where
  "rivr_nvs_clear_position io s =
     (case s of (g, f) \<Rightarrow>
        if \<not> io_open io then (False, g, f)
        else (io_commit io, g\<lparr>id_lat_e7 := INT32_MIN, id_lon_e7 := INT32_MIN\<rparr>,
              if io_commit io then f\<lparr>iv_lat := None, iv_lon := None\<rparr> else f))"

section \<open>What lasts\<close>

lemma or_else_simps [simp]: "or_else (Some x) d = x" "or_else None d = d"
  by (simp_all add: or_else_def)

lemma store_identity_failed: "rivr_nvs_store_identity io cs nid f = (False, f') \<Longrightarrow> f' = f"
  by (auto simp: rivr_nvs_store_identity_def Let_def split: if_splits)

lemma store_identity_done:
  assumes "rivr_nvs_store_identity io cs nid f = (True, f')" "0 < length cs" "length cs \<le> 11"
  shows "id_callsign (rivr_nvs_load_identity (Some f') g) = cs" "id_net_id (rivr_nvs_load_identity (Some f') g) = nid"
    "id_lat_e7 (rivr_nvs_load_identity (Some f') g) = id_lat_e7 (rivr_nvs_load_identity (Some f) g)"
    "id_lon_e7 (rivr_nvs_load_identity (Some f') g) = id_lon_e7 (rivr_nvs_load_identity (Some f) g)"
  using assms by (auto simp: rivr_nvs_store_identity_def rivr_nvs_load_identity_def Let_def split: if_splits)

text \<open>The position in use is in flash, or there is none: kept by every operation, and reached by a restart.\<close>

definition position_backed :: "identity_t \<times> identity_nvs \<Rightarrow> bool" where
  "position_backed s \<longleftrightarrow>
     (id_lat_e7 (fst s) = INT32_MIN \<and> id_lon_e7 (fst s) = INT32_MIN) \<or>
     (iv_lat (snd s) = Some (id_lat_e7 (fst s)) \<and> iv_lon (snd s) = Some (id_lon_e7 (fst s)))"

lemma store_position_backed:
  "position_backed s \<Longrightarrow> position_backed (snd (rivr_nvs_store_position io lat lon s))"
  by (cases s) (auto simp: rivr_nvs_store_position_def position_backed_def Let_def)

lemma clear_position_backed:
  "position_backed s \<Longrightarrow> position_backed (snd (rivr_nvs_clear_position io s))"
  by (cases s) (auto simp: rivr_nvs_clear_position_def position_backed_def)

lemma store_position_failed:
  "rivr_nvs_store_position io lat lon s = (False, s') \<Longrightarrow> s' = s"
  by (cases s) (auto simp: rivr_nvs_store_position_def Let_def split: if_splits)

end
