(* ===== verification/Rivr_Cli.thy ===== *)
theory Rivr_Cli
  imports Complex_Main Rivr_Identity Rivr_Sensors Rivr_SendQueue Rivr_Bus
begin

text \<open>
  The serial command line of a client node (rivr_cli.c): the line editor, the commands, and the chat
  frames they originate. Text is the list of its bytes. What is printed is a list of outputs: an echo, an
  erasure, a prompt, or a message with the values in it; reports whose body only formats counters are named.
  \<open>strtod\<close> and the multiplication of two doubles are parameters; \<open>strtoul\<close> is the one of the C standard
  with 32 bits. The properties: the line that is executed is the one that was typed, and a chat line that
  was typed leaves the node as one frame that carries the text.
\<close>

section \<open>Reading numbers\<close>

definition hex_digit :: "u8 \<Rightarrow> bool" where
  "hex_digit c \<longleftrightarrow> hex_value c \<noteq> None"

fun hex_digits_value :: "nat \<Rightarrow> u8 list \<Rightarrow> nat" where
  "hex_digits_value acc [] = acc"
| "hex_digits_value acc (c # s) = hex_digits_value (16 * acc + (case hex_value c of Some v \<Rightarrow> unat v | None \<Rightarrow> 0)) s"

text \<open>The value with its sign, clamped to \<open>ULONG_MAX\<close>.\<close>

definition ulong_of :: "bool \<Rightarrow> nat \<Rightarrow> u32" where
  "ulong_of neg n = (if 2 ^ 32 \<le> n then - 1 else if neg then - of_nat n else of_nat n)"

text \<open>None when there is no digit (\<open>end == arg\<close>), otherwise the value and the text from \<open>end\<close> on.\<close>

definition strtoul10 :: "u8 list \<Rightarrow> (u32 \<times> u8 list) option" where
  "strtoul10 s =
     (case scan_sign (dropWhile isspace s) of (neg, t) \<Rightarrow>
        let ds = takeWhile isdigit t
        in if ds = [] then None else Some (ulong_of neg (digits_value 0 ds), dropWhile isdigit t))"

definition strtoul16 :: "u8 list \<Rightarrow> (u32 \<times> u8 list) option" where
  "strtoul16 s =
     (case scan_sign (dropWhile isspace s) of (neg, t) \<Rightarrow>
        let u = (case t of a # b # c # r \<Rightarrow> if a = 0x30 \<and> (b = 0x78 \<or> b = 0x58) \<and> hex_digit c then c # r else t | _ \<Rightarrow> t);
            ds = takeWhile hex_digit u
        in if ds = [] then None else Some (ulong_of neg (hex_digits_value 0 ds), dropWhile hex_digit u))"

text \<open>A double as far as the code looks at it.\<close>

datatype c_double = Fin rat | PosInf | NegInf | NaN

fun d_less :: "c_double \<Rightarrow> c_double \<Rightarrow> bool" where
  "d_less (Fin x) (Fin y) = (x < y)"
| "d_less (Fin x) PosInf = True"
| "d_less NegInf (Fin y) = True"
| "d_less NegInf PosInf = True"
| "d_less _ _ = False"

text \<open>Conversion to \<open>int32_t\<close> truncates; what it does to a value that does not fit is undefined in C, and
  a parameter.\<close>

definition d_to_i32 :: "(c_double \<Rightarrow> u32) \<Rightarrow> c_double \<Rightarrow> u32" where
  "d_to_i32 undef d =
     (case d of
        Fin x \<Rightarrow> let n = (if 0 \<le> x then \<lfloor>x\<rfloor> else \<lceil>x\<rceil>) in if - (2 ^ 31) \<le> n \<and> n < 2 ^ 31 then of_int n else undef d
      | _ \<Rightarrow> undef d)"

section \<open>State\<close>

abbreviation "CLI_LINE_MAX \<equiv> (128 :: u8)"
abbreviation "CLI_MSG_MAX \<equiv> (230 :: nat)"

datatype log_mode = LogDebug | LogMetrics | LogSilent

datatype cli_report =
  Help | NodeInfo | BuildInfo | Metrics | SupportPack | Policy | Neighbors | Routes | Status | Ntable | Fwdset | Rtstats

datatype cli_error =
  ErrCallsignLength | ErrCallsignChars | ErrNetidUsage | ErrNetidRange | ErrSensorUsage | ErrMinDelta | ErrDeltaTemp |
  ErrDeltaRh | ErrDeltaVbat | ErrPosUsage | ErrPosRange | ErrChatUsage | ErrChanUsage | ErrLogUsage | ErrSendUsage |
  ErrTooLong | ErrEncode | ErrQueueFull | ErrBonds

datatype cli_out =
    Newline
  | Prompt "u8 list"
  | Echo u8
  | Erase
  | Report cli_report
  | Err cli_error
  | Unknown "u8 list"
  | OkCallsign "u8 list" | WarnCallsign
  | OkNetid u16 | WarnNetid
  | OkSensor sensors_config_t | WarnSensor
  | OkPos u32 u32 | WarnPos | OkPosClear | WarnPosClear
  | OkLog log_mode
  | OkBonds int
  | Rebooting
  | TxChat "u8 list" | TxChan u32 "u8 list"
  | ChatRx u32 "u8 list"

record cli_t =
  cl_buf :: "u8 list"
  cl_pos :: u8
  cl_id :: identity_t
  cl_nvs :: identity_nvs
  cl_sensors :: sensors_config_t
  cl_sensors_nvs :: "sensors_nvs option"
  cl_log :: log_mode
  cl_metrics :: rivr_metrics_t
  cl_sq :: send_queue_t
  cl_ctrl_seq :: u32
  cl_restart :: bool
  cl_out :: "cli_out list"

text \<open>The build, the node, and the outcomes of what a line calls.\<close>

record cli_env =
  ce_client :: bool
  ce_my_id :: u32
  ce_t_sym_us :: u32
  ce_now :: u32
  ce_nvs :: nvs_io
  ce_sensors_open :: bool
  ce_sensors_writes :: "bool list"
  ce_bonds :: int
  ce_strtod :: "u8 list \<Rightarrow> (c_double \<times> u8 list) option"
  ce_times_1e7 :: "c_double \<Rightarrow> c_double"
  ce_undef :: "c_double \<Rightarrow> u32"

definition cli_say :: "cli_out \<Rightarrow> cli_t \<Rightarrow> cli_t" where
  "cli_say o' s = s\<lparr>cl_out := cl_out s @ [o']\<rparr>"

definition cli_print_prompt :: "cli_t \<Rightarrow> cli_t" where
  "cli_print_prompt s = cli_say (Prompt (take (unat (cl_pos s)) (cl_buf s))) s"

definition rivr_cli_init :: "cli_t \<Rightarrow> cli_t" where
  "rivr_cli_init s = cli_print_prompt (cli_say (Report NodeInfo) s)"

section \<open>Commands\<close>

definition skip_blanks :: "u8 list \<Rightarrow> u8 list" where
  "skip_blanks s = dropWhile (\<lambda>c. c = 0x20) s"

text \<open>The word, and then the end of the line or a blank.\<close>

definition cmd :: "string \<Rightarrow> u8 list \<Rightarrow> bool" where
  "cmd w p \<longleftrightarrow> take (length w) p = ascii w \<and> (length p = length w \<or> p ! length w = 0x20)"

definition callsign_char :: "u8 \<Rightarrow> bool" where
  "callsign_char c \<longleftrightarrow> (0x41 \<le> c \<and> c \<le> 0x5A) \<or> (0x61 \<le> c \<and> c \<le> 0x7A) \<or> (0x30 \<le> c \<and> c \<le> 0x39) \<or> c = 0x2D"

definition cli_set_callsign :: "cli_env \<Rightarrow> u8 list \<Rightarrow> cli_t \<Rightarrow> cli_t" where
  "cli_set_callsign e rest s =
     (let arg = rev (skip_blanks (rev (skip_blanks rest))) in
      if length arg = 0 \<or> length arg > 11 then cli_say (Err ErrCallsignLength) s
      else if \<not> list_all callsign_char arg then cli_say (Err ErrCallsignChars) s
      else case rivr_nvs_store_identity (ce_nvs e) arg (id_net_id (cl_id s)) (cl_nvs s) of
        (ok, f) \<Rightarrow>
          cli_say (if \<not> ok then WarnCallsign else OkCallsign arg)
            (s\<lparr>cl_id := (cl_id s)\<lparr>id_callsign := arg\<rparr>, cl_nvs := f\<rparr>))"

definition cli_set_netid :: "cli_env \<Rightarrow> u8 list \<Rightarrow> cli_t \<Rightarrow> cli_t" where
  "cli_set_netid e rest s =
     (let arg = skip_blanks rest in
      if arg = [] then cli_say (Err ErrNetidUsage) s
      else case strtoul16 arg of
        None \<Rightarrow> cli_say (Err ErrNetidRange) s
      | Some (nid, _) \<Rightarrow>
          if nid > 0xFFFF then cli_say (Err ErrNetidRange) s
          else case rivr_nvs_store_identity (ce_nvs e) (id_callsign (cl_id s)) (ucast nid) (cl_nvs s) of
            (ok, f) \<Rightarrow>
              cli_say (if \<not> ok then WarnNetid else OkNetid (ucast nid))
                (s\<lparr>cl_id := (cl_id s)\<lparr>id_net_id := ucast nid\<rparr>, cl_nvs := f\<rparr>))"

text \<open>One number of the sensor command; all but the last must be followed by something.\<close>

definition sensor_arg :: "bool \<Rightarrow> u8 list \<Rightarrow> (u32 \<times> u8 list) option" where
  "sensor_arg fol s =
     (case strtoul10 (skip_blanks s) of
        None \<Rightarrow> None
      | Some (v, rest) \<Rightarrow> if fol \<and> rest = [] then None else Some (v, rest))"

definition cli_store_sensors :: "cli_env \<Rightarrow> sensors_config_t \<Rightarrow> cli_t \<Rightarrow> cli_t" where
  "cli_store_sensors e cfg s =
     (let c = sensors_set_config cfg (cl_sensors s) in
      case sensors_nvs_save (ce_sensors_open e) (ce_sensors_writes e) c (cl_sensors_nvs s) of
        (ok, f) \<Rightarrow> cli_say (if \<not> ok then WarnSensor else OkSensor cfg) (s\<lparr>cl_sensors := c, cl_sensors_nvs := f\<rparr>))"

definition cli_set_sensor :: "cli_env \<Rightarrow> u8 list \<Rightarrow> cli_t \<Rightarrow> cli_t" where
  "cli_set_sensor e rest s =
     (case sensor_arg True rest of
        None \<Rightarrow> cli_say (Err ErrSensorUsage) s
      | Some (tx_ms, r1) \<Rightarrow> if tx_ms < 5000 then cli_say (Err ErrSensorUsage) s else
      (case sensor_arg True r1 of
        None \<Rightarrow> cli_say (Err ErrMinDelta) s
      | Some (min_dlt, r2) \<Rightarrow> if min_dlt < 1000 then cli_say (Err ErrMinDelta) s else
      (case sensor_arg True r2 of
        None \<Rightarrow> cli_say (Err ErrDeltaTemp) s
      | Some (d_temp, r3) \<Rightarrow>
      (case sensor_arg True r3 of
        None \<Rightarrow> cli_say (Err ErrDeltaRh) s
      | Some (d_rh, r4) \<Rightarrow>
      (case sensor_arg False r4 of
        None \<Rightarrow> cli_say (Err ErrDeltaVbat) s
      | Some (d_vbat, _) \<Rightarrow>
          cli_store_sensors e
            \<lparr>sc_tx_ms = tx_ms, sc_min_delta_ms = min_dlt, sc_delta_temp = ucast d_temp, sc_delta_rh = ucast d_rh,
             sc_delta_vbat = ucast d_vbat\<rparr> s)))))"

definition cli_pos_clear :: "cli_env \<Rightarrow> cli_t \<Rightarrow> cli_t" where
  "cli_pos_clear e s =
     (case rivr_nvs_clear_position (ce_nvs e) (cl_id s, cl_nvs s) of
        (ok, g, f) \<Rightarrow> cli_say (if \<not> ok then WarnPosClear else OkPosClear) (s\<lparr>cl_id := g, cl_nvs := f\<rparr>))"

definition pos_out_of_range :: "c_double \<Rightarrow> c_double \<Rightarrow> bool" where
  "pos_out_of_range lat lon \<longleftrightarrow>
     d_less lat (Fin (- 90)) \<or> d_less (Fin 90) lat \<or> d_less lon (Fin (- 180)) \<or> d_less (Fin 180) lon"

definition cli_pos_set :: "cli_env \<Rightarrow> c_double \<Rightarrow> c_double \<Rightarrow> cli_t \<Rightarrow> cli_t" where
  "cli_pos_set e lat lon s =
     (let lat_e7 = d_to_i32 (ce_undef e) (ce_times_1e7 e lat); lon_e7 = d_to_i32 (ce_undef e) (ce_times_1e7 e lon) in
      case rivr_nvs_store_position (ce_nvs e) lat_e7 lon_e7 (cl_id s, cl_nvs s) of
        (ok, g, f) \<Rightarrow> cli_say (if \<not> ok then WarnPos else OkPos lat_e7 lon_e7) (s\<lparr>cl_id := g, cl_nvs := f\<rparr>))"

definition cli_set_pos :: "cli_env \<Rightarrow> u8 list \<Rightarrow> cli_t \<Rightarrow> cli_t" where
  "cli_set_pos e rest s =
     (let arg = skip_blanks rest in
      if arg = ascii ''clear'' then cli_pos_clear e s
      else case ce_strtod e arg of
        None \<Rightarrow> cli_say (Err ErrPosUsage) s
      | Some (lat, r1) \<Rightarrow>
          if r1 = [] then cli_say (Err ErrPosUsage) s
          else case ce_strtod e (skip_blanks r1) of
            None \<Rightarrow> cli_say (Err ErrPosUsage) s
          | Some (lon, _) \<Rightarrow>
              if pos_out_of_range lat lon then cli_say (Err ErrPosRange) s
              else cli_pos_set e lat lon s)"

text \<open>The header of an originated chat frame, after the sequence counter has been incremented.\<close>

definition cli_chat_hdr :: "cli_env \<Rightarrow> u8 \<Rightarrow> u8 \<Rightarrow> cli_t \<Rightarrow> rivr_pkt_hdr_t" where
  "cli_chat_hdr e flags len s =
     \<lparr>h_magic = 0, h_version = 0, h_pkt_type = PKT_CHAT, h_flags = flags, h_ttl = RIVR_PKT_DEFAULT_TTL, h_hop = 0,
      h_net_id = id_net_id (cl_id s), h_src_id = ce_my_id e, h_dst_id = 0, h_seq = ucast (cl_ctrl_seq s),
      h_pkt_id = ucast (cl_ctrl_seq s), h_payload_len = len, h_loop_guard = 0\<rparr>"

text \<open>Counting, encoding and queueing, the same lines in both functions.\<close>

definition cli_enqueue_frame :: "cli_env \<Rightarrow> u8 \<Rightarrow> u8 list \<Rightarrow> cli_out \<Rightarrow> cli_t \<Rightarrow> cli_t" where
  "cli_enqueue_frame e flags payload told s =
     (let s1 = s\<lparr>cl_ctrl_seq := cl_ctrl_seq s + 1\<rparr>; len = of_nat (length payload) in
      case protocol_encode (cli_chat_hdr e flags len s1) (Some payload) len (replicate 255 0) 255 of
        (enc, data) \<Rightarrow>
          if enc \<le> 0 then cli_say (Err ErrEncode) s1
          else
            let n = of_int enc in
            case send_queue_enqueue (cl_metrics s1) (cl_sq s1) data n (RF_TOA_APPROX_US (ce_t_sym_us e) n) (ce_now e) of
              (m, sq, ok) \<Rightarrow>
                cli_say (if \<not> ok then Err ErrQueueFull else told) (s1\<lparr>cl_metrics := m, cl_sq := sq\<rparr>))"

definition cli_enqueue_chat :: "cli_env \<Rightarrow> u8 list \<Rightarrow> cli_t \<Rightarrow> cli_t" where
  "cli_enqueue_chat e msg s =
     (if length msg > CLI_MSG_MAX then cli_say (Err ErrTooLong) s
      else cli_enqueue_frame e 0 msg (TxChat msg) s)"

definition cli_enqueue_chan_chat :: "cli_env \<Rightarrow> u32 \<Rightarrow> u8 list \<Rightarrow> cli_t \<Rightarrow> cli_t" where
  "cli_enqueue_chan_chat e chan msg s =
     (if length msg > CLI_MSG_MAX - 2 then cli_say (Err ErrTooLong) s
      else cli_enqueue_frame e PKT_FLAG_CHANNEL (put_u16 (ucast chan) @ msg) (TxChan chan msg) s)"

definition cli_chat :: "cli_env \<Rightarrow> cli_error \<Rightarrow> u8 list \<Rightarrow> cli_t \<Rightarrow> cli_t" where
  "cli_chat e usage rest s =
     (let msg = skip_blanks rest in
      if msg = [] then cli_say (Err usage) s else cli_enqueue_chat e msg s)"

definition cli_chan :: "cli_env \<Rightarrow> u8 list \<Rightarrow> cli_t \<Rightarrow> cli_t" where
  "cli_chan e rest s =
     (case strtoul10 (skip_blanks rest) of
        None \<Rightarrow> cli_say (Err ErrChanUsage) s
      | Some (chan, r) \<Rightarrow>
          if chan = 0 \<or> chan > 7 \<or> take 1 r \<noteq> [0x20] then cli_say (Err ErrChanUsage) s
          else
            let msg = skip_blanks (drop 1 r) in
            if msg = [] then cli_say (Err ErrChanUsage) s else cli_enqueue_chan_chat e chan msg s)"

definition cli_log_cmd :: "u8 list \<Rightarrow> cli_t \<Rightarrow> cli_t" where
  "cli_log_cmd rest s =
     (let arg = skip_blanks rest in
      if arg = ascii ''debug'' then cli_say (OkLog LogDebug) (s\<lparr>cl_log := LogDebug\<rparr>)
      else if arg = ascii ''metrics'' then cli_say (OkLog LogMetrics) (s\<lparr>cl_log := LogMetrics\<rparr>)
      else if arg = ascii ''silent'' then cli_say (OkLog LogSilent) (s\<lparr>cl_log := LogSilent\<rparr>)
      else cli_say (Err ErrLogUsage) s)"

section \<open>A line\<close>

text \<open>The commands of one word that print a report; each is tested at its place in the chain, and no two
  words are alike.\<close>

definition cli_report_of :: "u8 list \<Rightarrow> cli_report option" where
  "cli_report_of p =
     (if cmd ''info'' p then Some BuildInfo
      else if cmd ''metrics'' p then Some Metrics
      else if cmd ''supportpack'' p then Some SupportPack
      else if cmd ''policy'' p then Some Policy
      else if cmd ''neighbors'' p then Some Neighbors
      else if cmd ''routes'' p then Some Routes
      else if cmd ''status'' p then Some Status
      else if cmd ''ntable'' p then Some Ntable
      else if cmd ''fwdset'' p then Some Fwdset
      else if cmd ''rtstats'' p then Some Rtstats
      else if cmd ''peers'' p then Some Neighbors
      else if cmd ''stats'' p then Some Metrics
      else None)"

definition cli_handle_line :: "cli_env \<Rightarrow> u8 list \<Rightarrow> cli_t \<Rightarrow> cli_t" where
  "cli_handle_line e line s =
     (let p = skip_blanks line in
      if p = [] then s
      else if cmd ''help'' p then cli_say (Report Help) s
      else if cmd ''id'' p then cli_say (Report NodeInfo) s
      else if cmd ''set callsign'' p then cli_set_callsign e (drop 12 p) s
      else if cmd ''set netid'' p then cli_set_netid e (drop 9 p) s
      else if cmd ''set sensor'' p then cli_set_sensor e (drop 10 p) s
      else if cmd ''pos'' p then cli_set_pos e (drop 3 p) s
      else if ce_client e \<and> cmd ''chat'' p then cli_chat e ErrChatUsage (drop 4 p) s
      else if ce_client e \<and> take 5 p = ascii ''chan '' then cli_chan e (drop 5 p) s
      else if cmd ''log'' p then cli_log_cmd (drop 3 p) s
      else if ce_client e \<and> cmd ''send'' p then cli_chat e ErrSendUsage (drop 4 p) s
      else if cmd ''ble-clear-bonds'' p then cli_say (if ce_bonds e < 0 then Err ErrBonds else OkBonds (ce_bonds e)) s
      else if cmd ''reboot'' p then cli_say Rebooting (s\<lparr>cl_restart := True\<rparr>)
      else case cli_report_of p of
        Some r \<Rightarrow> cli_say (Report r) s
      | None \<Rightarrow> cli_say (Unknown p) s)"

section \<open>The editor\<close>

definition cli_byte :: "cli_env \<Rightarrow> u8 \<Rightarrow> cli_t \<Rightarrow> cli_t" where
  "cli_byte e ch s =
     (if ch = 0x0A \<or> ch = 0x0D then
        let s1 = cli_say Newline (s\<lparr>cl_buf := (cl_buf s)[unat (cl_pos s) := 0]\<rparr>);
            s2 = (if cl_pos s > 0 then cli_handle_line e (c_str (cl_buf s1)) s1 else s1)
        in cli_print_prompt (s2\<lparr>cl_pos := 0\<rparr>)
      else if ch = 0x08 \<or> ch = 0x7F then
        (if cl_pos s > 0 then cli_say Erase (s\<lparr>cl_pos := cl_pos s - 1\<rparr>) else s)
      else if 0x20 \<le> ch \<and> ch < 0x7F then
        (if cl_pos s < CLI_LINE_MAX - 1
         then cli_say (Echo ch) (s\<lparr>cl_buf := (cl_buf s)[unat (cl_pos s) := ch], cl_pos := cl_pos s + 1\<rparr>)
         else s)
      else s)"

text \<open>The bytes that are there, each with the outcomes of the calls made for it.\<close>

fun rivr_cli_poll :: "(cli_env \<times> u8) list \<Rightarrow> cli_t \<Rightarrow> cli_t" where
  "rivr_cli_poll [] s = s"
| "rivr_cli_poll ((e, ch) # bs) s = rivr_cli_poll bs (cli_byte e ch s)"

text \<open>A received chat message; \<open>printf\<close> stops at the first zero of the text.\<close>

definition rivr_cli_on_chat_rx :: "cli_env \<Rightarrow> u32 \<Rightarrow> u8 list \<Rightarrow> cli_t \<Rightarrow> cli_t" where
  "rivr_cli_on_chat_rx e src_id payload s =
     (if src_id = ce_my_id e then s
      else cli_print_prompt (cli_say (ChatRx src_id (c_str (take CLI_MSG_MAX payload))) s))"

section \<open>The line that was typed\<close>

definition printable :: "u8 \<Rightarrow> bool" where
  "printable c \<longleftrightarrow> 0x20 \<le> c \<and> c < 0x7F"

definition line_end :: "u8 \<Rightarrow> bool" where
  "line_end c \<longleftrightarrow> c = 0x0A \<or> c = 0x0D"

text \<open>What a byte does to the line, as the user sees it.\<close>

definition edit_line :: "u8 list \<Rightarrow> u8 \<Rightarrow> u8 list" where
  "edit_line cur ch =
     (if ch = 0x08 \<or> ch = 0x7F then butlast cur
      else if printable ch \<and> length cur < 127 then cur @ [ch] else cur)"

definition cli_line :: "cli_t \<Rightarrow> u8 list" where
  "cli_line s = take (unat (cl_pos s)) (cl_buf s)"

definition editor_ok :: "cli_t \<Rightarrow> bool" where
  "editor_ok s \<longleftrightarrow> length (cl_buf s) = 128 \<and> unat (cl_pos s) \<le> 127 \<and> (\<forall>c \<in> set (cli_line s). printable c)"

lemma cli_say_simps [simp]:
  "cl_buf (cli_say o' s) = cl_buf s" "cl_pos (cli_say o' s) = cl_pos s" "cl_id (cli_say o' s) = cl_id s"
  "cl_nvs (cli_say o' s) = cl_nvs s" "cl_sensors (cli_say o' s) = cl_sensors s" "cl_sensors_nvs (cli_say o' s) = cl_sensors_nvs s"
  "cl_sq (cli_say o' s) = cl_sq s" "cl_ctrl_seq (cli_say o' s) = cl_ctrl_seq s" "cl_out (cli_say o' s) = cl_out s @ [o']"
  "cl_restart (cli_say o' s) = cl_restart s" "cl_metrics (cli_say o' s) = cl_metrics s" "cl_log (cli_say o' s) = cl_log s"
  by (simp_all add: cli_say_def)

named_theorems cli_cmds

lemmas [cli_cmds] = cli_set_callsign_def cli_set_netid_def cli_set_sensor_def cli_store_sensors_def cli_set_pos_def cli_pos_set_def
  cli_pos_clear_def cli_chat_def cli_chan_def cli_log_cmd_def cli_enqueue_chat_def cli_enqueue_chan_chat_def

lemma enqueue_frame_keeps [simp]:
  "cl_buf (cli_enqueue_frame e fl p t s) = cl_buf s" "cl_pos (cli_enqueue_frame e fl p t s) = cl_pos s"
  "cl_id (cli_enqueue_frame e fl p t s) = cl_id s" "cl_nvs (cli_enqueue_frame e fl p t s) = cl_nvs s"
  "cl_sensors (cli_enqueue_frame e fl p t s) = cl_sensors s"
  by (simp_all add: cli_enqueue_frame_def Let_def split: prod.split)

lemma cmds_keep_editor:
  "cl_buf (cli_set_callsign e r s) = cl_buf s \<and> cl_pos (cli_set_callsign e r s) = cl_pos s"
  "cl_buf (cli_set_netid e r s) = cl_buf s \<and> cl_pos (cli_set_netid e r s) = cl_pos s"
  "cl_buf (cli_set_sensor e r s) = cl_buf s \<and> cl_pos (cli_set_sensor e r s) = cl_pos s"
  "cl_buf (cli_set_pos e r s) = cl_buf s \<and> cl_pos (cli_set_pos e r s) = cl_pos s"
  "cl_buf (cli_chat e u r s) = cl_buf s \<and> cl_pos (cli_chat e u r s) = cl_pos s"
  "cl_buf (cli_chan e r s) = cl_buf s \<and> cl_pos (cli_chan e r s) = cl_pos s"
  "cl_buf (cli_log_cmd r s) = cl_buf s \<and> cl_pos (cli_log_cmd r s) = cl_pos s"
  by (simp_all add: cli_cmds Let_def split: option.split prod.split)

lemma handle_line_keeps_editor [simp]:
  "cl_buf (cli_handle_line e l s) = cl_buf s" "cl_pos (cli_handle_line e l s) = cl_pos s"
  by (simp_all add: cli_handle_line_def Let_def cmds_keep_editor split: option.split)

lemma c_str_line:
  "editor_ok s \<Longrightarrow> c_str ((cl_buf s)[unat (cl_pos s) := 0]) = cli_line s"
proof -
  assume ok: "editor_ok s"
  then have p: "unat (cl_pos s) < length (cl_buf s)" by (simp add: editor_ok_def)
  have "(cl_buf s)[unat (cl_pos s) := 0] = cli_line s @ 0 # drop (Suc (unat (cl_pos s))) (cl_buf s)"
    unfolding cli_line_def using p by (simp add: upd_conv_take_nth_drop)
  moreover have "c \<noteq> 0" if "c \<in> set (cli_line s)" for c using ok that by (auto simp: editor_ok_def printable_def)
  ultimately show ?thesis unfolding c_str_def by (simp add: takeWhile_append)
qed

text \<open>A byte inside a line edits it; the end of a line runs it and starts an empty one.\<close>

lemma pos_minus_one: "cl_pos s > 0 \<Longrightarrow> unat (cl_pos s - 1) = unat (cl_pos s) - 1"
  by (simp add: unat_minus_one word_gt_0)

lemma cli_byte_edit:
  assumes ok: "editor_ok s" and ch: "\<not> line_end ch"
  shows "editor_ok (cli_byte e ch s)" "cli_line (cli_byte e ch s) = edit_line (cli_line s) ch"
    "\<exists>b p os. cli_byte e ch s = s\<lparr>cl_buf := b, cl_pos := p, cl_out := os\<rparr>"
proof -
  have l: "length (cl_buf s) = 128" and p: "unat (cl_pos s) \<le> 127" and c: "\<forall>c \<in> set (cli_line s). printable c"
    using ok by (simp_all add: editor_ok_def)
  have ll: "length (cli_line s) = unat (cl_pos s)" using l p by (simp add: cli_line_def)
  have nl: "\<not> (ch = 0x0A \<or> ch = 0x0D)" using ch by (simp add: line_end_def)
  consider "ch = 0x08 \<or> ch = 0x7F" "cl_pos s > 0" | "ch = 0x08 \<or> ch = 0x7F" "cl_pos s = 0" |
    "\<not> (ch = 0x08 \<or> ch = 0x7F)" "printable ch" "cl_pos s < 127" |
    "\<not> (ch = 0x08 \<or> ch = 0x7F)" "printable ch" "\<not> cl_pos s < 127" | "\<not> (ch = 0x08 \<or> ch = 0x7F)" "\<not> printable ch"
    by (auto simp: word_gt_0)
  then have "(\<exists>b p os. cli_byte e ch s = s\<lparr>cl_buf := b, cl_pos := p, cl_out := os\<rparr>) \<and>
    length (cl_buf (cli_byte e ch s)) = 128 \<and> unat (cl_pos (cli_byte e ch s)) \<le> 127 \<and>
    cli_line (cli_byte e ch s) = edit_line (cli_line s) ch"
  proof cases
    case 1
    then have b: "cli_byte e ch s = cli_say Erase (s\<lparr>cl_pos := cl_pos s - 1\<rparr>)" using nl by (simp add: cli_byte_def)
    have "cli_line (cli_byte e ch s) = butlast (cli_line s)"
      using p l by (simp add: b cli_line_def pos_minus_one [OF 1(2)] butlast_take)
    with 1 b p l show ?thesis
      by (auto simp: edit_line_def pos_minus_one cli_say_def intro!: exI [of _ "cl_buf s"] exI [of _ "cl_pos s - 1"] exI [of _ "cl_out s @ [Erase]"])
  next
    case 2
    then have "cli_byte e ch s = s" using nl by (simp add: cli_byte_def)
    with 2 p l show ?thesis
      by (auto simp: edit_line_def cli_line_def intro!: exI [of _ "cl_buf s"] exI [of _ "cl_pos s"] exI [of _ "cl_out s"])
  next
    case 3
    then have b: "cli_byte e ch s = cli_say (Echo ch) (s\<lparr>cl_buf := (cl_buf s)[unat (cl_pos s) := ch], cl_pos := cl_pos s + 1\<rparr>)"
      using nl by (simp add: cli_byte_def printable_def)
    have p3: "unat (cl_pos s) < 127" using 3(3) by (simp add: word_less_nat_alt)
    then have u: "unat (cl_pos s + 1) = Suc (unat (cl_pos s))" by (subst word_add_no_wrap) simp_all
    have "cli_line (cli_byte e ch s) = cli_line s @ [ch]"
      using p3 l by (simp add: b cli_line_def u take_Suc_conv_app_nth)
    with 3 b p3 l ll u show ?thesis
      by (auto simp: edit_line_def cli_say_def intro!: exI [of _ "(cl_buf s)[unat (cl_pos s) := ch]"] exI [of _ "cl_pos s + 1"] exI [of _ "cl_out s @ [Echo ch]"])
  next
    case 4
    then have "cli_byte e ch s = s" using nl by (simp add: cli_byte_def printable_def)
    moreover have "\<not> length (cli_line s) < 127" using 4(3) ll by (simp add: word_less_nat_alt)
    ultimately show ?thesis using 4 p l
      by (auto simp: edit_line_def intro!: exI [of _ "cl_buf s"] exI [of _ "cl_pos s"] exI [of _ "cl_out s"])
  next
    case 5
    then have "cli_byte e ch s = s" using nl by (auto simp: cli_byte_def printable_def)
    with 5 p l show ?thesis
      by (auto simp: edit_line_def intro!: exI [of _ "cl_buf s"] exI [of _ "cl_pos s"] exI [of _ "cl_out s"])
  qed
  then show "\<exists>b p os. cli_byte e ch s = s\<lparr>cl_buf := b, cl_pos := p, cl_out := os\<rparr>"
    and e: "cli_line (cli_byte e ch s) = edit_line (cli_line s) ch"
    and len: "editor_ok (cli_byte e ch s)"
    using c by (auto simp: editor_ok_def edit_line_def dest: in_set_butlastD split: if_splits)
qed

lemma cli_byte_end:
  assumes ok: "editor_ok s" and ch: "line_end ch"
  defines "s1 \<equiv> cli_say Newline (s\<lparr>cl_buf := (cl_buf s)[unat (cl_pos s) := 0]\<rparr>)"
  shows "cli_byte e ch s = cli_print_prompt ((if cli_line s = [] then s1 else cli_handle_line e (cli_line s) s1)\<lparr>cl_pos := 0\<rparr>)"
    "editor_ok (cli_byte e ch s)" "cli_line (cli_byte e ch s) = []"
proof -
  have l: "length (cl_buf s) = 128" "unat (cl_pos s) \<le> 127" using ok by (simp_all add: editor_ok_def)
  then have "length (cli_line s) = unat (cl_pos s)" by (simp add: cli_line_def)
  then have "cl_pos s > 0 \<longleftrightarrow> cli_line s \<noteq> []" by (metis length_0_conv unat_gt_0 word_gt_0 neq0_conv)
  then show b: "cli_byte e ch s = cli_print_prompt ((if cli_line s = [] then s1 else cli_handle_line e (cli_line s) s1)\<lparr>cl_pos := 0\<rparr>)"
    using ch by (simp add: cli_byte_def line_end_def s1_def c_str_line [OF ok])
  show "editor_ok (cli_byte e ch s)" "cli_line (cli_byte e ch s) = []"
    unfolding b using l by (simp_all add: editor_ok_def cli_line_def cli_print_prompt_def s1_def)
qed

section \<open>What the command line keeps\<close>

text \<open>The callsign is one that may be set, the position is backed by flash, the sensor limits hold.\<close>

definition settings_ok :: "cli_t \<Rightarrow> bool" where
  "settings_ok s \<longleftrightarrow>
     0 < length (id_callsign (cl_id s)) \<and> length (id_callsign (cl_id s)) \<le> 11 \<and> list_all callsign_char (id_callsign (cl_id s)) \<and>
     position_backed (cl_id s, cl_nvs s) \<and> paced (cl_sensors s)"

lemma settings_ok_cong:
  "cl_id t = cl_id s \<Longrightarrow> cl_nvs t = cl_nvs s \<Longrightarrow> cl_sensors t = cl_sensors s \<Longrightarrow> settings_ok t \<longleftrightarrow> settings_ok s"
  by (simp add: settings_ok_def)

lemma store_identity_position:
  "rivr_nvs_store_identity io cs nid f = (ok, f') \<Longrightarrow> iv_lat f' = iv_lat f \<and> iv_lon f' = iv_lon f"
  by (auto simp: rivr_nvs_store_identity_def Let_def split: if_splits)

lemma store_position_identity:
  "rivr_nvs_store_position io lat lon (g, f) = (ok, g', f') \<Longrightarrow> id_callsign g' = id_callsign g"
  "rivr_nvs_clear_position io (g, f) = (ok, g', f') \<Longrightarrow> id_callsign g' = id_callsign g"
  by (auto simp: rivr_nvs_store_position_def rivr_nvs_clear_position_def Let_def split: if_splits)

lemma settings_same [simp]:
  "settings_ok (cli_say o' s) \<longleftrightarrow> settings_ok s" "settings_ok (s\<lparr>cl_restart := r\<rparr>) \<longleftrightarrow> settings_ok s"
  "settings_ok (s\<lparr>cl_log := lm\<rparr>) \<longleftrightarrow> settings_ok s" "settings_ok (s\<lparr>cl_buf := b\<rparr>) \<longleftrightarrow> settings_ok s"
  "settings_ok (s\<lparr>cl_pos := p\<rparr>) \<longleftrightarrow> settings_ok s" "settings_ok (s\<lparr>cl_out := os\<rparr>) \<longleftrightarrow> settings_ok s"
  "settings_ok (cli_enqueue_frame e fl pl t s) \<longleftrightarrow> settings_ok s"
  by (simp_all add: settings_ok_def)

lemma callsign_settings: "settings_ok s \<Longrightarrow> settings_ok (cli_set_callsign e r s)"
  unfolding cli_set_callsign_def Let_def
  by (auto simp: settings_ok_def position_backed_def dest: store_identity_position split: prod.split)

lemma netid_settings: "settings_ok s \<Longrightarrow> settings_ok (cli_set_netid e r s)"
  unfolding cli_set_netid_def Let_def
  by (auto simp: settings_ok_def position_backed_def dest: store_identity_position split: prod.split option.split)

lemma sensor_settings: "settings_ok s \<Longrightarrow> settings_ok (cli_set_sensor e r s)"
  unfolding cli_set_sensor_def cli_store_sensors_def Let_def
  by (auto simp: settings_ok_def paced_configs split: prod.split option.split)

lemma pos_settings: "settings_ok s \<Longrightarrow> settings_ok (cli_set_pos e r s)"
proof -
  assume s: "settings_ok s"
  have "settings_ok (cli_pos_clear e s)"
    using s clear_position_backed [of "(cl_id s, cl_nvs s)" "ce_nvs e"]
    by (auto simp: cli_pos_clear_def settings_ok_def dest: store_position_identity split: prod.split)
  moreover have "settings_ok (cli_pos_set e lat lon s)" for lat lon
    using s store_position_backed [of "(cl_id s, cl_nvs s)" "ce_nvs e" "d_to_i32 (ce_undef e) (ce_times_1e7 e lat)"
        "d_to_i32 (ce_undef e) (ce_times_1e7 e lon)"]
    by (auto simp: cli_pos_set_def Let_def settings_ok_def dest: store_position_identity split: prod.split)
  ultimately show ?thesis using s by (auto simp: cli_set_pos_def Let_def split: option.split)
qed

lemma chat_settings:
  "settings_ok s \<Longrightarrow> settings_ok (cli_chat e u r s)" "settings_ok s \<Longrightarrow> settings_ok (cli_chan e r s)"
  "settings_ok s \<Longrightarrow> settings_ok (cli_log_cmd r s)"
  by (auto simp: cli_chat_def cli_chan_def cli_log_cmd_def cli_enqueue_chat_def cli_enqueue_chan_chat_def Let_def split: option.split)

lemmas cmds_settings = callsign_settings netid_settings sensor_settings pos_settings chat_settings

lemma handle_line_settings: "settings_ok s \<Longrightarrow> settings_ok (cli_handle_line e l s)"
  unfolding cli_handle_line_def Let_def by (simp add: cmds_settings split: option.split)

lemma cli_byte_settings: "editor_ok s \<Longrightarrow> settings_ok s \<Longrightarrow> settings_ok (cli_byte e ch s)"
proof (cases "line_end ch")
  case True
  assume "editor_ok s" "settings_ok s"
  then show ?thesis unfolding cli_byte_end(1) [OF \<open>editor_ok s\<close> True] by (simp add: cli_print_prompt_def handle_line_settings)
next
  case False
  assume s: "editor_ok s" "settings_ok s"
  obtain b p os where "cli_byte e ch s = s\<lparr>cl_buf := b, cl_pos := p, cl_out := os\<rparr>" using cli_byte_edit(3) [OF s(1) False] by blast
  with s show ?thesis by simp
qed

text \<open>Whatever is typed, and whatever fails in flash, the callsign stays one to eleven characters of the
  alphabet, a position in use is the one in flash, the sensor limits hold, and the editor never writes past its line.\<close>

theorem cli_keeps_settings:
  assumes "editor_ok s" "settings_ok s"
  shows "editor_ok (rivr_cli_poll bs s) \<and> settings_ok (rivr_cli_poll bs s)"
  using assms
proof (induction bs s rule: rivr_cli_poll.induct)
  case (2 e ch bs s)
  have "editor_ok (cli_byte e ch s)" using cli_byte_edit(1) cli_byte_end(2) 2(2) by (cases "line_end ch") blast+
  with 2 cli_byte_settings show ?case by simp
qed simp

section \<open>A typed chat message\<close>

lemma poll_append: "rivr_cli_poll (a @ b) s = rivr_cli_poll b (rivr_cli_poll a s)"
  by (induction a s rule: rivr_cli_poll.induct) simp_all

lemma poll_edit:
  "editor_ok s \<Longrightarrow> \<forall>(e, ch) \<in> set bs. \<not> line_end ch \<Longrightarrow>
   editor_ok (rivr_cli_poll bs s) \<and> cli_line (rivr_cli_poll bs s) = foldl edit_line (cli_line s) (map snd bs) \<and>
   (\<exists>b p os. rivr_cli_poll bs s = s\<lparr>cl_buf := b, cl_pos := p, cl_out := os\<rparr>)"
proof (induction bs s rule: rivr_cli_poll.induct)
  case (1 s)
  show ?case using 1 by (auto intro!: exI [of _ "cl_buf s"] exI [of _ "cl_pos s"] exI [of _ "cl_out s"])
next
  case (2 e ch bs s)
  then have ch: "\<not> line_end ch" by simp
  obtain b p os where "cli_byte e ch s = s\<lparr>cl_buf := b, cl_pos := p, cl_out := os\<rparr>" using cli_byte_edit(3) [OF 2(2) ch] by blast
  with 2 cli_byte_edit(1,2) [OF 2(2) ch, of e] show ?case by auto
qed

lemma enqueue_frame_spec:
  assumes sq: "sq_ok (cl_sq s)" and room: "length (dropWhile (sq_stale (ce_now e)) (sq_items (cl_sq s))) < 16"
    and p: "length p \<le> 230" "p \<noteq> []" and q: "s' = cli_enqueue_frame e fl p told s"
  shows "cl_out s' = cl_out s @ [told]" "sq_ok (cl_sq s')" "cl_ctrl_seq s' = cl_ctrl_seq s + 1"
    "\<exists>en. sq_items (cl_sq s') = dropWhile (sq_stale (ce_now e)) (sq_items (cl_sq s)) @ [en] \<and>
       protocol_decode m (se_data en) (se_len en) =
         (m, Some ((cli_chat_hdr e fl (of_nat (length p)) (s\<lparr>cl_ctrl_seq := cl_ctrl_seq s + 1\<rparr>))
            \<lparr>h_magic := RIVR_MAGIC, h_version := RIVR_PROTO_VER\<rparr>, Some p))"
proof -
  let ?hdr = "cli_chat_hdr e fl (of_nat (length p)) (s\<lparr>cl_ctrl_seq := cl_ctrl_seq s + 1\<rparr>)"
  let ?n = "of_nat (25 + length p) :: u8"
  define data where "data = frame_of ?hdr p @ drop (25 + length p) (replicate 255 0)"
  have n: "unat ?n = 25 + length p" "?n \<noteq> 0" using p(1) by (simp_all add: unat_of_nat word_unat_eq_iff del: of_nat_add)
  have u: "unat (of_nat (length p) :: u8) = length p" using p(1) by (simp add: unat_of_nat)
  have enc: "protocol_encode ?hdr (Some p) (of_nat (length p)) (replicate 255 0) 255 = (25 + int (length p), data)"
    unfolding data_def by (rule protocol_encode_frame) (use p(1) u in simp_all)
  have i: "of_int (25 + int (length p)) = ?n" by simp
  obtain mm sq' acc where r: "send_queue_enqueue (cl_metrics s) (cl_sq s) data ?n (RF_TOA_APPROX_US (ce_t_sym_us e) ?n) (ce_now e) = (mm, sq', acc)"
    by (metis prod_cases3)
  have len: "unat ?n \<le> length data" using n p(1) by (simp add: data_def)
  from send_queue_enqueue_spec [OF sq n(2) len r] room obtain old where acc: "acc" and ok: "sq_ok sq'"
    and it: "sq_items sq' = dropWhile (sq_stale (ce_now e)) (sq_items (cl_sq s)) @ [send_entry data ?n (RF_TOA_APPROX_US (ce_t_sym_us e) ?n) (ce_now e) old]"
    by auto
  have s': "s' = cli_say told (s\<lparr>cl_ctrl_seq := cl_ctrl_seq s + 1, cl_metrics := mm, cl_sq := sq'\<rparr>)"
    unfolding q cli_enqueue_frame_def Let_def using enc r acc by (simp add: i)
  let ?en = "send_entry data ?n (RF_TOA_APPROX_US (ce_t_sym_us e) ?n) (ce_now e) old"
  have "se_data ?en = frame_of ?hdr p @ drop (25 + length p) (se_data old)" "se_len ?en = ?n"
    unfolding send_entry_def send_entry_t.simps memcpy_def n(1) by (simp_all add: data_def)
  then have "protocol_decode m (se_data ?en) (se_len ?en) =
    (m, Some (?hdr\<lparr>h_magic := RIVR_MAGIC, h_version := RIVR_PROTO_VER, h_payload_len := of_nat (length p)\<rparr>, Some p))"
    using frame_of_decodes [of p ?hdr ?n m "drop (25 + length p) (se_data old)"] p n by (simp add: cli_chat_hdr_def)
  then show "\<exists>en. sq_items (cl_sq s') = dropWhile (sq_stale (ce_now e)) (sq_items (cl_sq s)) @ [en] \<and>
       protocol_decode m (se_data en) (se_len en) =
         (m, Some (?hdr\<lparr>h_magic := RIVR_MAGIC, h_version := RIVR_PROTO_VER\<rparr>, Some p))"
    unfolding s' using it by (intro exI [of _ ?en]) (simp add: cli_chat_hdr_def)
  show "cl_out s' = cl_out s @ [told]" "sq_ok (cl_sq s')" "cl_ctrl_seq s' = cl_ctrl_seq s + 1" using ok by (simp_all add: s')
qed

lemma cmd_head: "of_char c \<noteq> d \<Longrightarrow> \<not> cmd (c # w) (d # p)"
  by (simp add: cmd_def ascii_def)

lemma cmd_chat: "cmd ''chat'' (ascii ''chat '' @ msg)"
  by (simp add: cmd_def ascii_def)

lemma chat_chars: "ascii ''chat '' = [0x63, 0x68, 0x61, 0x74, 0x20]"
  by (simp add: ascii_def)

lemma handle_chat:
  assumes "ce_client e" "msg \<noteq> []" "hd msg \<noteq> 0x20" "length msg \<le> 230"
  shows "cli_handle_line e (ascii ''chat '' @ msg) s = cli_enqueue_frame e 0 msg (TxChat msg) s"
proof -
  have "skip_blanks (ascii ''chat '' @ msg) = ascii ''chat '' @ msg" by (simp add: skip_blanks_def chat_chars)
  moreover have "skip_blanks (drop 4 (ascii ''chat '' @ msg)) = msg"
    using assms(2,3) by (cases msg) (simp_all add: skip_blanks_def chat_chars)
  ultimately show ?thesis
    using assms cmd_chat [of msg] unfolding cli_handle_line_def Let_def
    by (simp add: chat_chars cmd_head cli_chat_def cli_enqueue_chat_def Let_def)
qed

text \<open>C26: On a client whose line buffer is empty, a chat line that was typed, with whatever corrections (the bytes
  edit to \<open>chat\<close>, a blank and a text that is not empty and does not begin with a blank), leaves the
  console as one frame at the end of the outbox, if fewer than 16 entries remain there once the stale ones at
  its front are evicted, which the same push does: a broadcast chat frame of this node with the next
  sequence number, and any receiver decodes the text from it. With the outbox full the line is dropped.\<close>

theorem typed_chat_is_sent:
  assumes s: "editor_ok s" "cli_line s = []" and e: "ce_client e" "line_end ch"
    and typed: "\<forall>(e', c) \<in> set bs. \<not> line_end c" "foldl edit_line [] (map snd bs) = ascii ''chat '' @ msg"
    and msg: "msg \<noteq> []" "hd msg \<noteq> 0x20"
    and sq: "sq_ok (cl_sq s)" "length (dropWhile (sq_stale (ce_now e)) (sq_items (cl_sq s))) < 16"
    and run: "s' = rivr_cli_poll (bs @ [(e, ch)]) s"
  shows "\<exists>en hdr. sq_items (cl_sq s') = dropWhile (sq_stale (ce_now e)) (sq_items (cl_sq s)) @ [en] \<and> sq_ok (cl_sq s') \<and>
    protocol_decode m (se_data en) (se_len en) = (m, Some (hdr, Some msg)) \<and>
    h_pkt_type hdr = PKT_CHAT \<and> h_src_id hdr = ce_my_id e \<and> h_dst_id hdr = 0 \<and> h_net_id hdr = id_net_id (cl_id s) \<and>
    h_seq hdr = ucast (cl_ctrl_seq s + 1) \<and> cli_line s' = []"
proof -
  define s1 where "s1 = rivr_cli_poll bs s"
  from poll_edit [OF s(1) typed(1)] typed(2) s(2) obtain b p os where s1: "editor_ok s1" "cli_line s1 = ascii ''chat '' @ msg"
    "s1 = s\<lparr>cl_buf := b, cl_pos := p, cl_out := os\<rparr>" by (auto simp: s1_def)
  then have "length (ascii ''chat '' @ msg) \<le> 127" by (metis editor_ok_def cli_line_def length_take min.coboundedI2 min.commute)
  then have len: "length msg \<le> 230" by simp
  define s2 where "s2 = cli_say Newline (s1\<lparr>cl_buf := (cl_buf s1)[unat (cl_pos s1) := 0]\<rparr>)"
  have s2: "cl_sq s2 = cl_sq s" "cl_ctrl_seq s2 = cl_ctrl_seq s" "cl_id s2 = cl_id s" by (simp_all add: s2_def s1(3))
  define s3 where "s3 = cli_enqueue_frame e 0 msg (TxChat msg) s2"
  have "s' = cli_byte e ch s1" by (simp add: run poll_append s1_def)
  also have "\<dots> = cli_print_prompt (s3\<lparr>cl_pos := 0\<rparr>)"
    using cli_byte_end(1) [OF s1(1) e(2), of e] s1(2) handle_chat [OF e(1) msg len]
    by (simp add: s2_def [symmetric] s3_def chat_chars)
  finally have s': "s' = cli_print_prompt (s3\<lparr>cl_pos := 0\<rparr>)" .
  note spec2 = enqueue_frame_spec(2) [where s = s2, unfolded s2, OF sq len msg(1) s3_def]
  note spec4 = enqueue_frame_spec(4) [where s = s2 and m = m, unfolded s2, OF sq len msg(1) s3_def]
  from spec4 obtain en where en: "sq_items (cl_sq s3) = dropWhile (sq_stale (ce_now e)) (sq_items (cl_sq s)) @ [en]"
    "protocol_decode m (se_data en) (se_len en) = (m, Some ((cli_chat_hdr e 0 (of_nat (length msg)) (s2\<lparr>cl_ctrl_seq := cl_ctrl_seq s + 1\<rparr>))
            \<lparr>h_magic := RIVR_MAGIC, h_version := RIVR_PROTO_VER\<rparr>, Some msg))" by blast
  have "cli_line s' = []" by (simp add: s' cli_line_def cli_print_prompt_def)
  with en spec2 s2 show ?thesis
    by (intro exI [of _ en] exI) (auto simp: s' cli_print_prompt_def cli_chat_hdr_def)
qed

text \<open>The warning says the position is set for this session; it is not.\<close>

lemma pos_warning_wrong:
  "cl_out (cli_pos_set e lat lon s) = cl_out s @ [WarnPos] \<Longrightarrow> cl_id (cli_pos_set e lat lon s) = cl_id s"
  by (auto simp: cli_pos_set_def Let_def dest: store_position_failed split: prod.splits if_splits)

section \<open>A console at work\<close>

definition demo_console_env :: cli_env where
  "demo_console_env = \<lparr>ce_client = True, ce_my_id = 7, ce_t_sym_us = 8192, ce_now = 1000,
     ce_nvs = \<lparr>io_open = True, io_first = True, io_second = True, io_commit = True\<rparr>,
     ce_sensors_open = True, ce_sensors_writes = replicate 5 True, ce_bonds = 0, ce_strtod = \<lambda>s. None,
     ce_times_1e7 = id, ce_undef = \<lambda>d. 0\<rparr>"

definition demo_console :: cli_t where
  "demo_console = \<lparr>cl_buf = replicate 128 0, cl_pos = 0,
     cl_id = \<lparr>id_callsign = ascii ''RIVR'', id_net_id = 0, id_lat_e7 = INT32_MIN, id_lon_e7 = INT32_MIN\<rparr>,
     cl_nvs = \<lparr>iv_callsign = None, iv_netid = None, iv_lat = None, iv_lon = None\<rparr>, cl_sensors = sensors_defaults,
     cl_sensors_nvs = None, cl_log = LogDebug, cl_metrics = metrics_zero, cl_sq = send_queue_init, cl_ctrl_seq = 0,
     cl_restart = False, cl_out = []\<rparr>"

definition demo_keys :: "(cli_env \<times> u8) list" where
  "demo_keys = map (\<lambda>c. (demo_console_env, c)) (ascii ''chax'' @ [0x08] @ ascii ''t hi'')"

lemma demo_console_ok: "editor_ok demo_console" "cli_line demo_console = []" "settings_ok demo_console"
  "sq_ok (cl_sq demo_console)" "sq_items (cl_sq demo_console) = []"
  by (simp_all add: editor_ok_def cli_line_def settings_ok_def demo_console_def ascii_def callsign_char_def position_backed_def
      paced_configs send_queue_init_ok)

lemma demo_keys_typed: "\<forall>(e', c) \<in> set demo_keys. \<not> line_end c" "foldl edit_line [] (map snd demo_keys) = ascii ''chat '' @ ascii ''hi''"
  by (simp_all add: demo_keys_def line_end_def ascii_def edit_line_def printable_def)

theorem typed_chat_is_sent_witness:
  "\<exists>en hdr. sq_items (cl_sq (rivr_cli_poll (demo_keys @ [(demo_console_env, 0x0D)]) demo_console)) = [en] \<and>
     protocol_decode metrics_zero (se_data en) (se_len en) = (metrics_zero, Some (hdr, Some (ascii ''hi''))) \<and> h_src_id hdr = 7"
proof -
  have m: "ascii ''hi'' \<noteq> []" "hd (ascii ''hi'') \<noteq> 0x20" by (simp_all add: ascii_def)
  have e: "ce_client demo_console_env" "line_end 0x0D" "ce_my_id demo_console_env = 7" by (simp_all add: demo_console_env_def line_end_def)
  show ?thesis
    using typed_chat_is_sent [OF demo_console_ok(1,2) e(1,2) demo_keys_typed m demo_console_ok(4) _ refl, of metrics_zero]
    by (auto simp: demo_console_ok(5) e(3))
qed

theorem cli_keeps_settings_witness:
  "settings_ok (rivr_cli_poll (map (\<lambda>c. (demo_console_env, c)) (ascii ''set callsign A_1'' @ [0x0D])) demo_console)"
  using cli_keeps_settings [OF demo_console_ok(1,3), of "map (\<lambda>c. (demo_console_env, c)) (ascii ''set callsign A_1'' @ [0x0D])"] by blast

end
