(* ===== verification/Rivr_Companion.thy ===== *)
theory Rivr_Companion
  imports Rivr_BleLink Rivr_Cli
begin

text \<open>
  The companion protocol (ble/rivr_ble_companion.c): the commands of the phone app, taken from the queue the
  BLE service fills, and the packets pushed to the app. A tick is a sequence of fetches, advances and
  commands, so that a callback of the BLE stack can be put between them. The properties: without
  a session no command but the start of one does anything; commands run once, in the order they were written;
  and a disconnect that interrupts a tick replays what earlier clients wrote.
\<close>

section \<open>State\<close>

record companion_t =
  co_ble :: ble_t
  co_id :: identity_t
  co_nvs :: identity_nvs
  co_sensors :: sensors_config_t
  co_sensors_nvs :: "sensors_nvs option"

text \<open>What one command meets: the stack, the outcomes of flash, the clock and the neighbours, and the
  constants of the build.\<close>

record companion_env =
  pe_ble :: ble_env
  pe_nvs :: nvs_io
  pe_sensors_open :: bool
  pe_sensors_writes :: "bool list"
  pe_now :: u32
  pe_neighbors :: neighbor_table_t
  pe_my_id :: u32
  pe_build_env :: "u8 list"
  pe_role :: "u8 list"
  pe_radio :: "u8 list"

section \<open>Packets to the app\<close>

abbreviation "CP_CMD_APP_START \<equiv> (0x01 :: u8)"
abbreviation "CP_CMD_DEVICE_QUERY \<equiv> (0x02 :: u8)"
abbreviation "CP_CMD_SET_CALLSIGN \<equiv> (0x03 :: u8)"
abbreviation "CP_CMD_GET_NEIGHBORS \<equiv> (0x04 :: u8)"
abbreviation "CP_CMD_SET_POSITION \<equiv> (0x05 :: u8)"
abbreviation "CP_CMD_CLEAR_POSITION \<equiv> (0x06 :: u8)"
abbreviation "CP_CMD_SET_NETID \<equiv> (0x07 :: u8)"
abbreviation "CP_CMD_SET_SENSOR_CFG \<equiv> (0x08 :: u8)"

abbreviation "CP_PKT_OK \<equiv> (0x80 :: u8)"
abbreviation "CP_PKT_ERR \<equiv> (0x81 :: u8)"
abbreviation "CP_PKT_DEVICE_INFO \<equiv> (0x82 :: u8)"
abbreviation "CP_PKT_NODE_INFO \<equiv> (0x83 :: u8)"
abbreviation "CP_PKT_NODE_LIST_DONE \<equiv> (0x84 :: u8)"
abbreviation "CP_PKT_CHAT_RX \<equiv> (0x85 :: u8)"
abbreviation "CP_PKT_TELEMETRY \<equiv> (0x86 :: u8)"

definition cp_callsign_valid :: "u8 list \<Rightarrow> bool" where
  "cp_callsign_valid cs \<longleftrightarrow> cs \<noteq> [] \<and> list_all callsign_char cs \<and> length cs \<le> 11"

definition cp_send_packet :: "ble_env \<Rightarrow> u8 \<Rightarrow> u8 \<Rightarrow> u8 list \<Rightarrow> ble_t \<Rightarrow> bool \<times> ble_t" where
  "cp_send_packet e typ status payload s =
     (if \<not> rivr_ble_is_connected s \<or> \<not> cp_session_active s then (False, s)
      else if 5 + length payload > 255 then (False, s)
      else rivr_ble_service_notify e ([0x52, 0x43, 1, typ, status] @ payload) s)"

definition cp_send_ok :: "ble_env \<Rightarrow> u8 \<Rightarrow> ble_t \<Rightarrow> ble_t" where
  "cp_send_ok e c s = snd (cp_send_packet e CP_PKT_OK 0 [c] s)"

definition cp_send_err :: "ble_env \<Rightarrow> u8 \<Rightarrow> string \<Rightarrow> ble_t \<Rightarrow> ble_t" where
  "cp_send_err e c msg s = snd (cp_send_packet e CP_PKT_ERR 1 (c # take 48 (ascii msg)) s)"

text \<open>The conversions of printf the packet uses: hexadecimal of a fixed width, and seven decimals of a
  number of ten-millionths, which is exact.\<close>

definition hex_char :: "nat \<Rightarrow> nat \<Rightarrow> u8" where
  "hex_char ten d = of_nat (if d < 10 then 48 + d else ten + (d - 10))"

fun hex_fixed :: "nat \<Rightarrow> nat \<Rightarrow> nat \<Rightarrow> u8 list" where
  "hex_fixed ten 0 v = []"
| "hex_fixed ten (Suc k) v = hex_fixed ten k (v div 16) @ [hex_char ten (v mod 16)]"

fun dec_fixed :: "nat \<Rightarrow> nat \<Rightarrow> u8 list" where
  "dec_fixed 0 v = []"
| "dec_fixed (Suc k) v = dec_fixed k (v div 10) @ [of_nat (48 + v mod 10)]"

fun dec_nat :: "nat \<Rightarrow> u8 list" where
  "dec_nat v = (if v < 10 then [of_nat (48 + v)] else dec_nat (v div 10) @ [of_nat (48 + v mod 10)])"

declare dec_nat.simps [simp del]

definition deg_e7 :: "u32 \<Rightarrow> u8 list" where
  "deg_e7 w =
     (let v = nat \<bar>sint w\<bar>
      in (if sint w < 0 then ascii ''-'' else []) @ dec_nat (v div 10000000) @ ascii ''.'' @ dec_fixed 7 (v mod 10000000))"

definition json_field :: "string \<Rightarrow> u8 list \<Rightarrow> u8 list" where
  "json_field name v = [0x22] @ ascii name @ [0x22, 0x3A, 0x22] @ v @ [0x22]"

definition device_info_text :: "companion_env \<Rightarrow> identity_t \<Rightarrow> u8 list" where
  "device_info_text e g =
     ascii ''{'' @ json_field ''node_id'' (ascii ''0x'' @ hex_fixed 97 8 (unat (pe_my_id e))) @ ascii '','' @
     json_field ''callsign'' (id_callsign g) @ ascii '','' @
     json_field ''net_id'' (ascii ''0x'' @ hex_fixed 65 4 (unat (id_net_id g))) @ ascii '','' @
     json_field ''env'' (pe_build_env e) @ ascii '','' @
     json_field ''role'' (pe_role e) @ ascii '','' @ json_field ''radio'' (pe_radio e) @
     (if id_lat_e7 g \<noteq> INT32_MIN \<and> id_lon_e7 g \<noteq> INT32_MIN
      then ascii '','' @ [0x22] @ ascii ''lat'' @ [0x22] @ ascii '':'' @ deg_e7 (id_lat_e7 g) @ ascii '','' @
           [0x22] @ ascii ''lon'' @ [0x22] @ ascii '':'' @ deg_e7 (id_lon_e7 g)
      else []) @ ascii ''}''"

text \<open>The buffer holds 255 characters and a NUL.\<close>

definition cp_send_device_info :: "companion_env \<Rightarrow> identity_t \<Rightarrow> ble_t \<Rightarrow> ble_t" where
  "cp_send_device_info e g s = snd (cp_send_packet (pe_ble e) CP_PKT_DEVICE_INFO 0 (take 255 (device_info_text e g)) s)"

definition callsign_field :: "u8 list \<Rightarrow> u8 list" where
  "callsign_field cs = (let t = take 11 (takeWhile (\<lambda>c. c \<noteq> 0) cs) in t @ replicate (12 - length t) 0)"

definition cp_send_node_info :: "ble_env \<Rightarrow> neighbor_entry_t \<Rightarrow> u32 \<Rightarrow> ble_t \<Rightarrow> ble_t" where
  "cp_send_node_info e entry now_ms s =
     (if ne_node_id entry = 0 then s
      else
        let age_s = (ucast ((now_ms - ne_last_seen_ms entry) div 1000) :: u16);
            score = routing_neighbor_link_score entry now_ms
        in snd (cp_send_packet e CP_PKT_NODE_INFO 0
             (put_u32 (ne_node_id entry) @ [ne_rssi_dbm entry, ne_last_snr_db entry, ne_hop_count entry, score] @
              put_u16 age_s @ callsign_field (ne_callsign entry)) s))"

section \<open>Commands\<close>

definition co_say :: "(ble_t \<Rightarrow> ble_t) \<Rightarrow> companion_t \<Rightarrow> companion_t" where
  "co_say f s = s\<lparr>co_ble := f (co_ble s)\<rparr>"

definition co_err :: "companion_env \<Rightarrow> u8 \<Rightarrow> string \<Rightarrow> companion_t \<Rightarrow> companion_t" where
  "co_err e c msg s = co_say (cp_send_err (pe_ble e) c msg) s"

definition co_ok :: "companion_env \<Rightarrow> u8 \<Rightarrow> companion_t \<Rightarrow> companion_t" where
  "co_ok e c s = co_say (cp_send_ok (pe_ble e) c) s"

definition cp_handle_set_callsign :: "companion_env \<Rightarrow> u8 list \<Rightarrow> nat \<Rightarrow> companion_t \<Rightarrow> companion_t" where
  "cp_handle_set_callsign e payload payload_len s =
     (if payload_len = 0 \<or> payload_len > 11 then co_err e CP_CMD_SET_CALLSIGN ''invalid callsign'' s
      else
        let callsign = takeWhile (\<lambda>c. c \<noteq> 0) (take payload_len payload) in
        if \<not> cp_callsign_valid callsign then co_err e CP_CMD_SET_CALLSIGN ''invalid callsign'' s
        else
          let s1 = s\<lparr>co_id := (co_id s)\<lparr>id_callsign := callsign\<rparr>\<rparr> in
          case rivr_nvs_store_identity (pe_nvs e) callsign (id_net_id (co_id s1)) (co_nvs s1) of
            (ok, f) \<Rightarrow>
              let s2 = s1\<lparr>co_nvs := f\<rparr>
              in if \<not> ok then co_err e CP_CMD_SET_CALLSIGN ''persist failed'' s2 else co_ok e CP_CMD_SET_CALLSIGN s2)"

definition cp_handle_set_netid :: "companion_env \<Rightarrow> u8 list \<Rightarrow> nat \<Rightarrow> companion_t \<Rightarrow> companion_t" where
  "cp_handle_set_netid e payload payload_len s =
     (if payload_len < 2 then co_err e CP_CMD_SET_NETID ''bad payload'' s
      else
        let s1 = s\<lparr>co_id := (co_id s)\<lparr>id_net_id := get_u16 (payload ! 0) (payload ! 1)\<rparr>\<rparr> in
        case rivr_nvs_store_identity (pe_nvs e) (id_callsign (co_id s1)) (id_net_id (co_id s1)) (co_nvs s1) of
          (ok, f) \<Rightarrow>
            let s2 = s1\<lparr>co_nvs := f\<rparr>
            in if \<not> ok then co_err e CP_CMD_SET_NETID ''persist failed'' s2 else co_ok e CP_CMD_SET_NETID s2)"

definition get_u32_at :: "u8 list \<Rightarrow> nat \<Rightarrow> u32" where
  "get_u32_at p i = get_u32 (p ! i) (p ! (i + 1)) (p ! (i + 2)) (p ! (i + 3))"

definition get_u16_at :: "u8 list \<Rightarrow> nat \<Rightarrow> u16" where
  "get_u16_at p i = get_u16 (p ! i) (p ! (i + 1))"

definition cp_handle_set_sensor_cfg :: "companion_env \<Rightarrow> u8 list \<Rightarrow> nat \<Rightarrow> companion_t \<Rightarrow> companion_t" where
  "cp_handle_set_sensor_cfg e payload payload_len s =
     (if payload_len < 14 then co_err e CP_CMD_SET_SENSOR_CFG ''bad payload'' s
      else
        let cfg = \<lparr>sc_tx_ms = get_u32_at payload 0, sc_min_delta_ms = get_u32_at payload 4,
                   sc_delta_temp = get_u16_at payload 8, sc_delta_rh = get_u16_at payload 10, sc_delta_vbat = get_u16_at payload 12\<rparr>;
            c = sensors_set_config cfg (co_sensors s)
        in case sensors_nvs_save (pe_sensors_open e) (pe_sensors_writes e) c (co_sensors_nvs s) of
             (ok, f) \<Rightarrow>
               let s1 = s\<lparr>co_sensors := c, co_sensors_nvs := f\<rparr>
               in if \<not> ok then co_err e CP_CMD_SET_SENSOR_CFG ''persist failed'' s1 else co_ok e CP_CMD_SET_SENSOR_CFG s1)"

fun cp_list_neighbors :: "companion_env \<Rightarrow> nat list \<Rightarrow> ble_t \<Rightarrow> ble_t" where
  "cp_list_neighbors e [] s = s"
| "cp_list_neighbors e (i # is) s =
     cp_list_neighbors e is
       (case routing_neighbor_get (pe_neighbors e) (of_nat i) of
          None \<Rightarrow> s
        | Some entry \<Rightarrow>
            if pe_now e - ne_last_seen_ms entry > NEIGHBOR_EXPIRY_MS then s
            else cp_send_node_info (pe_ble e) entry (pe_now e) s)"

definition cp_handle_get_neighbors :: "companion_env \<Rightarrow> companion_t \<Rightarrow> companion_t" where
  "cp_handle_get_neighbors e s =
     co_say (\<lambda>b. snd (cp_send_packet (pe_ble e) CP_PKT_NODE_LIST_DONE 0 [] (cp_list_neighbors e [0..<NEIGHBOR_TABLE_SIZE] b))) s"

definition cp_handle_set_position :: "companion_env \<Rightarrow> u8 list \<Rightarrow> nat \<Rightarrow> companion_t \<Rightarrow> companion_t" where
  "cp_handle_set_position e payload payload_len s =
     (if payload_len < 8 then co_err e CP_CMD_SET_POSITION ''bad payload'' s
      else
        let lat = get_u32_at payload 0; lon = get_u32_at payload 4;
            g1 = (co_id s)\<lparr>id_lat_e7 := lat, id_lon_e7 := lon\<rparr>
        in case rivr_nvs_store_position (pe_nvs e) lat lon (g1, co_nvs s) of
             (ok, g, f) \<Rightarrow>
               let s1 = s\<lparr>co_id := g, co_nvs := f\<rparr>
               in if \<not> ok then co_err e CP_CMD_SET_POSITION ''persist failed'' s1 else co_ok e CP_CMD_SET_POSITION s1)"

definition cp_handle_clear_position :: "companion_env \<Rightarrow> companion_t \<Rightarrow> companion_t" where
  "cp_handle_clear_position e s =
     (let g1 = (co_id s)\<lparr>id_lat_e7 := INT32_MIN, id_lon_e7 := INT32_MIN\<rparr> in
      case rivr_nvs_clear_position (pe_nvs e) (g1, co_nvs s) of
        (ok, g, f) \<Rightarrow> co_ok e CP_CMD_CLEAR_POSITION (s\<lparr>co_id := g, co_nvs := f\<rparr>))"

section \<open>The tick\<close>

definition cp_pending :: "ble_t \<Rightarrow> bool" where
  "cp_pending s \<longleftrightarrow> cp_rx_tail s \<noteq> cp_rx_head s"

definition cp_fetch :: "ble_t \<Rightarrow> u8 \<times> u8 list" where
  "cp_fetch s = cp_rx_queue s ! unat (cp_rx_tail s)"

definition cp_advance :: "ble_t \<Rightarrow> ble_t" where
  "cp_advance s = s\<lparr>cp_rx_tail := cp_next (cp_rx_tail s)\<rparr>"

definition cp_command :: "companion_env \<Rightarrow> u8 \<times> u8 list \<Rightarrow> companion_t \<Rightarrow> companion_t" where
  "cp_command e packet s =
     (let c = snd packet ! 3; payload = drop 5 (snd packet); payload_len = unat (fst packet - 5) in
      if c = CP_CMD_APP_START then co_ok e CP_CMD_APP_START (co_say (\<lambda>b. b\<lparr>cp_session_active := True\<rparr>) s)
      else if c \<in> {CP_CMD_DEVICE_QUERY, CP_CMD_SET_CALLSIGN, CP_CMD_SET_POSITION, CP_CMD_CLEAR_POSITION, CP_CMD_GET_NEIGHBORS,
                   CP_CMD_SET_NETID, CP_CMD_SET_SENSOR_CFG} then
        (if \<not> cp_session_active (co_ble s) then co_err e c ''app start required'' s
         else if c = CP_CMD_DEVICE_QUERY then co_say (cp_send_device_info e (co_id s)) s
         else if c = CP_CMD_SET_CALLSIGN then cp_handle_set_callsign e payload payload_len s
         else if c = CP_CMD_SET_POSITION then cp_handle_set_position e payload payload_len s
         else if c = CP_CMD_CLEAR_POSITION then cp_handle_clear_position e s
         else if c = CP_CMD_GET_NEIGHBORS then cp_handle_get_neighbors e s
         else if c = CP_CMD_SET_NETID then cp_handle_set_netid e payload payload_len s
         else cp_handle_set_sensor_cfg e payload payload_len s)
      else if cp_session_active (co_ble s) then co_err e c ''unknown command'' s
      else s)"

text \<open>A callback of the BLE stack may run between the copy of a packet and the store of the new tail:
  one entry of \<open>cbs\<close> for each turn of the loop. The tail is read after the callback. With no callback
  the loop ends within the turns of the queue length; each turn has its own environment.\<close>

fun cp_loop :: "(companion_env \<times> (ble_t \<Rightarrow> ble_t)) list \<Rightarrow> companion_t \<Rightarrow> companion_t" where
  "cp_loop [] s = s"
| "cp_loop ((e, cb) # turns) s =
     (if \<not> cp_pending (co_ble s) then s
      else
        let packet = cp_fetch (co_ble s)
        in cp_loop turns (cp_command e packet (co_say (\<lambda>b. cp_advance (cb b)) s)))"

definition rivr_ble_companion_tick :: "companion_env list \<Rightarrow> companion_t \<Rightarrow> companion_t" where
  "rivr_ble_companion_tick es s = cp_loop (map (\<lambda>e. (e, \<lambda>b. b)) es) s"

section \<open>Pushes\<close>

definition rivr_ble_companion_push_chat :: "ble_env \<Rightarrow> u32 \<Rightarrow> u16 \<Rightarrow> u8 list \<Rightarrow> ble_t \<Rightarrow> ble_t" where
  "rivr_ble_companion_push_chat e src_id channel_id msg s =
     (if \<not> cp_session_active s \<or> msg = [] then s
      else snd (cp_send_packet e CP_PKT_CHAT_RX 0 (put_u32 src_id @ put_u16 channel_id @ take 180 msg) s))"

definition rivr_ble_companion_push_telemetry :: "ble_env \<Rightarrow> u32 \<Rightarrow> u16 \<Rightarrow> u32 \<Rightarrow> u8 \<Rightarrow> u32 \<Rightarrow> ble_t \<Rightarrow> ble_t" where
  "rivr_ble_companion_push_telemetry e src_id sensor_id val unit_code timestamp s =
     (if \<not> cp_session_active s then s
      else snd (cp_send_packet e CP_PKT_TELEMETRY 0
             (put_u32 src_id @ put_u16 sensor_id @ put_u32 val @ [unit_code] @ put_u32 timestamp) s))"

definition rivr_ble_companion_push_node ::
  "ble_env \<Rightarrow> u32 \<Rightarrow> u8 list \<Rightarrow> u8 \<Rightarrow> u8 \<Rightarrow> u8 \<Rightarrow> u8 \<Rightarrow> u8 \<Rightarrow> u32 \<Rightarrow> u32 \<Rightarrow> ble_t \<Rightarrow> ble_t" where
  "rivr_ble_companion_push_node e node_id callsign rssi_dbm snr_db hop_count link_score role lat_e7 lon_e7 s =
     (if \<not> cp_session_active s then s
      else snd (cp_send_packet e CP_PKT_NODE_INFO 0
             (put_u32 node_id @ [rssi_dbm, snr_db, hop_count, link_score, role, 0] @ callsign_field callsign @
              put_u32 lat_e7 @ put_u32 lon_e7) s))"


section \<open>Commands and the queue\<close>

definition set_tail :: "u8 \<Rightarrow> ble_t \<Rightarrow> ble_t" where
  "set_tail t s = s\<lparr>cp_rx_tail := t\<rparr>"

lemma set_tail_parts [simp]:
  "bl_conn_handle (set_tail t s) = bl_conn_handle s" "cp_session_active (set_tail t s) = cp_session_active s"
  "cp_rx_head (set_tail t s) = cp_rx_head s" "cp_rx_tail (set_tail t s) = t" "cp_rx_queue (set_tail t s) = cp_rx_queue s"
  "set_tail u (set_tail t s) = set_tail u s" "rivr_ble_is_connected (set_tail t s) = rivr_ble_is_connected s"
  by (simp_all add: set_tail_def rivr_ble_is_connected_def)

lemma co_say_simps [simp]:
  "co_ble (co_say f s) = f (co_ble s)" "co_id (co_say f s) = co_id s" "co_nvs (co_say f s) = co_nvs s"
  "co_sensors (co_say f s) = co_sensors s" "co_sensors_nvs (co_say f s) = co_sensors_nvs s"
  by (simp_all add: co_say_def)

lemma set_tail_same: "cp_rx_tail s = t \<Longrightarrow> set_tail t s = s"
  by (auto simp: set_tail_def)

lemma notify_one_tail: "rivr_ble_service_notify_one e (set_tail t s) = rivr_ble_service_notify_one e s"
  by (intro ext) (simp add: rivr_ble_service_notify_one_def set_tail_def)

lemma ble_count_tail: "ble_count k (set_tail t s) = set_tail t (ble_count k s)"
  by (simp add: ble_count_def set_tail_def)

lemma set_tail_fields:
  "sv_gatts_if (set_tail t s) = sv_gatts_if s" "sv_conn_id (set_tail t s) = sv_conn_id s"
  "sv_service_ready (set_tail t s) = sv_service_ready s" "sv_notify_enabled (set_tail t s) = sv_notify_enabled s"
  "sv_tx_frag_msg_id (set_tail t s) = sv_tx_frag_msg_id s" "bl_calls (set_tail t s) = bl_calls s"
  "rivr_ble_link_payload_limit (set_tail t s) = rivr_ble_link_payload_limit s"
  "(set_tail t s)\<lparr>bl_calls := cs, sv_tx_frag_msg_id := n\<rparr> = set_tail t (s\<lparr>bl_calls := cs, sv_tx_frag_msg_id := n\<rparr>)"
  by (simp_all add: set_tail_def rivr_ble_link_payload_limit_def Let_def)

lemma notify_tail:
  "snd (rivr_ble_service_notify e d (set_tail t s)) = set_tail t (snd (rivr_ble_service_notify e d s))"
  unfolding rivr_ble_service_notify_def Let_def set_tail_fields notify_one_tail
  by (simp add: set_tail_fields ble_count_tail split: prod.split)

text \<open>What a packet leaves alone.\<close>

lemma notify_keeps:
  "cp_rx_queue (snd (rivr_ble_service_notify e d s)) = cp_rx_queue s" "cp_rx_head (snd (rivr_ble_service_notify e d s)) = cp_rx_head s"
  "cp_rx_tail (snd (rivr_ble_service_notify e d s)) = cp_rx_tail s"
  "cp_session_active (snd (rivr_ble_service_notify e d s)) = cp_session_active s"
  by (simp_all add: rivr_ble_service_notify_def Let_def ble_count_def split: prod.split)

named_theorems cp_parts "what a packet to the app leaves alone"

lemma send_packet_parts [cp_parts]:
  "cp_rx_queue (snd (cp_send_packet e ty st d s)) = cp_rx_queue s" "cp_rx_head (snd (cp_send_packet e ty st d s)) = cp_rx_head s"
  "cp_rx_tail (snd (cp_send_packet e ty st d s)) = cp_rx_tail s"
  "cp_session_active (snd (cp_send_packet e ty st d s)) = cp_session_active s"
  "bl_conn_handle (snd (cp_send_packet e ty st d s)) = bl_conn_handle s"
  by (simp_all add: cp_send_packet_def notify_keeps notify_parts)

lemma send_packet_tail: "snd (cp_send_packet e ty st d (set_tail t s)) = set_tail t (snd (cp_send_packet e ty st d s))"
  by (simp add: cp_send_packet_def notify_tail)

text \<open>A function on the link that only sends.\<close>

definition sends :: "(ble_t \<Rightarrow> ble_t) \<Rightarrow> bool" where
  "sends f \<longleftrightarrow> (\<forall>t s. f (set_tail t s) = set_tail t (f s)) \<and>
     (\<forall>s. cp_rx_queue (f s) = cp_rx_queue s \<and> cp_rx_head (f s) = cp_rx_head s \<and> cp_rx_tail (f s) = cp_rx_tail s \<and>
          cp_session_active (f s) = cp_session_active s \<and> bl_conn_handle (f s) = bl_conn_handle s) \<and>
     (\<forall>s. \<not> cp_session_active s \<longrightarrow> f s = s)"

lemma sends_packet: "sends (\<lambda>s. snd (cp_send_packet e ty st d s))"
  by (simp add: sends_def cp_parts send_packet_tail) (simp add: cp_send_packet_def)

lemma sends_id: "sends (\<lambda>s. s)"
  by (simp add: sends_def)

lemma sends_comp: "sends f \<Longrightarrow> sends g \<Longrightarrow> sends (\<lambda>s. g (f s))"
  by (simp add: sends_def)

lemma sends_replies [intro]:
  "sends (cp_send_ok e c)" "sends (cp_send_err e c m)" "sends (cp_send_device_info pe g)" "sends (cp_send_node_info e en now)"
proof -
  show "sends (cp_send_node_info e en now)"
  proof (cases "ne_node_id en = 0")
    case True
    then have "cp_send_node_info e en now = (\<lambda>s. s)" by (intro ext) (simp add: cp_send_node_info_def)
    then show ?thesis by (simp add: sends_id)
  next
    case False
    show ?thesis unfolding cp_send_node_info_def [abs_def] Let_def if_not_P [OF False] by (rule sends_packet)
  qed
qed (unfold cp_send_ok_def [abs_def] cp_send_err_def [abs_def] cp_send_device_info_def [abs_def], (rule sends_packet)+)

lemma sends_neighbors: "sends (cp_list_neighbors e is)"
proof (induction "is")
  case Nil
  have "cp_list_neighbors e [] = (\<lambda>s. s)" by (intro ext) simp
  then show ?case by (simp add: sends_id)
next
  case (Cons i "is")
  define f where "f = (\<lambda>s. case routing_neighbor_get (pe_neighbors e) (of_nat i) of
          None \<Rightarrow> s
        | Some entry \<Rightarrow>
            if pe_now e - ne_last_seen_ms entry > NEIGHBOR_EXPIRY_MS then s
            else cp_send_node_info (pe_ble e) entry (pe_now e) s)"
  have "sends f"
  proof (cases "routing_neighbor_get (pe_neighbors e) (of_nat i)")
    case None
    then show ?thesis by (simp add: f_def sends_id)
  next
    case (Some en)
    then show ?thesis using sends_replies(4) [of "pe_ble e" en "pe_now e"]
      by (cases "pe_now e - ne_last_seen_ms en > NEIGHBOR_EXPIRY_MS") (simp_all add: f_def sends_id)
  qed
  moreover have "cp_list_neighbors e (i # is) = (\<lambda>s. cp_list_neighbors e is (f s))" by (intro ext) (simp add: f_def)
  ultimately show ?case using sends_comp [OF _ Cons.IH] by simp
qed


text \<open>The same for a command: its link is the one it found after a function that sends.\<close>

abbreviation retail :: "u8 \<Rightarrow> companion_t \<Rightarrow> companion_t" where
  "retail t s \<equiv> co_say (set_tail t) s"

lemma retail_updates:
  "(retail t s)\<lparr>co_id := g\<rparr> = retail t (s\<lparr>co_id := g\<rparr>)" "(retail t s)\<lparr>co_nvs := f\<rparr> = retail t (s\<lparr>co_nvs := f\<rparr>)"
  "(retail t s)\<lparr>co_sensors := c\<rparr> = retail t (s\<lparr>co_sensors := c\<rparr>)"
  "(retail t s)\<lparr>co_sensors_nvs := n\<rparr> = retail t (s\<lparr>co_sensors_nvs := n\<rparr>)"
  by (simp_all add: co_say_def)

lemma sends_retail: "sends f \<Longrightarrow> co_say f (retail t s) = retail t (co_say f s)"
  by (simp add: co_say_def sends_def)

lemma reply_retail:
  "co_ok e c (retail t s) = retail t (co_ok e c s)" "co_err e c m (retail t s) = retail t (co_err e c m s)"
  unfolding co_ok_def co_err_def by (rule sends_retail, rule sends_replies)+

lemma sends_list: "sends (\<lambda>b. snd (cp_send_packet e CP_PKT_NODE_LIST_DONE 0 [] (cp_list_neighbors pe is b)))"
  by (rule sends_comp [OF sends_neighbors sends_packet])

lemma session_retail: "co_say (\<lambda>b. b\<lparr>cp_session_active := True\<rparr>) (retail t s) = retail t (co_say (\<lambda>b. b\<lparr>cp_session_active := True\<rparr>) s)"
  by (simp add: co_say_def set_tail_def)

lemma handlers_retail:
  "cp_handle_set_callsign e p n (retail t s) = retail t (cp_handle_set_callsign e p n s)"
  "cp_handle_set_netid e p n (retail t s) = retail t (cp_handle_set_netid e p n s)"
  "cp_handle_set_sensor_cfg e p n (retail t s) = retail t (cp_handle_set_sensor_cfg e p n s)"
  "cp_handle_set_position e p n (retail t s) = retail t (cp_handle_set_position e p n s)"
  "cp_handle_clear_position e (retail t s) = retail t (cp_handle_clear_position e s)"
  "cp_handle_get_neighbors e (retail t s) = retail t (cp_handle_get_neighbors e s)"
  unfolding cp_handle_set_callsign_def cp_handle_set_netid_def cp_handle_set_sensor_cfg_def cp_handle_set_position_def
    cp_handle_clear_position_def cp_handle_get_neighbors_def Let_def
  by (simp_all add: retail_updates reply_retail sends_retail [OF sends_list] split: prod.split)

lemma command_retail: "cp_command e p (retail t s) = retail t (cp_command e p s)"
  unfolding cp_command_def Let_def
  by (simp add: handlers_retail reply_retail session_retail sends_retail [OF sends_replies(3)])

text \<open>What a command does to the link.\<close>

definition co_keeps :: "companion_t \<Rightarrow> companion_t \<Rightarrow> bool" where
  "co_keeps s s' \<longleftrightarrow>
     cp_rx_queue (co_ble s') = cp_rx_queue (co_ble s) \<and> cp_rx_head (co_ble s') = cp_rx_head (co_ble s) \<and>
     cp_rx_tail (co_ble s') = cp_rx_tail (co_ble s) \<and> bl_conn_handle (co_ble s') = bl_conn_handle (co_ble s) \<and>
     (cp_session_active (co_ble s) \<longrightarrow> cp_session_active (co_ble s'))"

lemma sends_keeps: "sends f \<Longrightarrow> co_ble s1 = co_ble s \<Longrightarrow> co_keeps s (co_say f s1)"
  by (simp add: sends_def co_keeps_def)

lemma reply_keeps: "co_ble s1 = co_ble s \<Longrightarrow> co_keeps s (co_ok e c s1)" "co_ble s1 = co_ble s \<Longrightarrow> co_keeps s (co_err e c m s1)"
  unfolding co_ok_def co_err_def by (rule sends_keeps [OF sends_replies(1)] sends_keeps [OF sends_replies(2)], assumption)+

lemma handlers_keep:
  "co_keeps s (cp_handle_set_callsign e p n s)" "co_keeps s (cp_handle_set_netid e p n s)" "co_keeps s (cp_handle_set_sensor_cfg e p n s)"
  "co_keeps s (cp_handle_set_position e p n s)" "co_keeps s (cp_handle_clear_position e s)" "co_keeps s (cp_handle_get_neighbors e s)"
  unfolding cp_handle_set_callsign_def cp_handle_set_netid_def cp_handle_set_sensor_cfg_def cp_handle_set_position_def
    cp_handle_clear_position_def cp_handle_get_neighbors_def Let_def
  by (simp_all add: reply_keeps sends_keeps [OF sends_list] split: prod.split)

lemma co_keeps_trans: "co_keeps s1 s2 \<Longrightarrow> co_keeps s2 s3 \<Longrightarrow> co_keeps s1 s3"
  by (simp add: co_keeps_def)

lemma co_keeps_refl: "co_keeps s s"
  by (simp add: co_keeps_def)

lemma session_keeps: "co_keeps s (co_say (\<lambda>b. b\<lparr>cp_session_active := True\<rparr>) s)"
  by (simp add: co_keeps_def)

lemma command_keeps: "co_keeps s (cp_command e p s)"
  unfolding cp_command_def Let_def
  by (simp add: handlers_keep reply_keeps co_keeps_refl sends_keeps [OF sends_replies(3)] co_keeps_trans [OF session_keeps reply_keeps(1)])

lemma command_start: "snd p ! 3 = CP_CMD_APP_START \<Longrightarrow> cp_session_active (co_ble (cp_command e p s))"
  using reply_keeps(1) [OF refl, of "co_say (\<lambda>b. b\<lparr>cp_session_active := True\<rparr>) s" e CP_CMD_APP_START]
  by (simp add: cp_command_def co_keeps_def)

text \<open>Without a session only the start of one is a command; the error that asks for it is not sent either.\<close>

lemma command_no_session:
  assumes "\<not> cp_session_active (co_ble s)" "snd p ! 3 \<noteq> CP_CMD_APP_START"
  shows "cp_command e p s = s"
proof -
  have "co_err e c m s = s" for c m
    using assms(1) by (simp add: co_err_def co_say_def cp_send_err_def cp_send_packet_def)
  with assms show ?thesis by (simp add: cp_command_def Let_def)
qed


section \<open>The queue\<close>

definition cp_count :: "ble_t \<Rightarrow> nat" where
  "cp_count s = (unat (cp_rx_head s) + 4 - unat (cp_rx_tail s)) mod 4"

text \<open>The packets from the tail to the head.\<close>

definition cp_queued :: "ble_t \<Rightarrow> (u8 \<times> u8 list) list" where
  "cp_queued s = map (\<lambda>k. cp_rx_queue s ! ((unat (cp_rx_tail s) + k) mod 4)) [0..<cp_count s]"

definition cp_ok :: "ble_t \<Rightarrow> bool" where
  "cp_ok s \<longleftrightarrow> unat (cp_rx_head s) < 4 \<and> unat (cp_rx_tail s) < 4 \<and> length (cp_rx_queue s) = 4"

fun cp_run :: "(companion_env \<times> u8 \<times> u8 list) list \<Rightarrow> companion_t \<Rightarrow> companion_t" where
  "cp_run [] s = s"
| "cp_run ((e, p) # ps) s = cp_run ps (cp_command e p s)"

definition cp_emptied :: "companion_t \<Rightarrow> companion_t" where
  "cp_emptied s = retail (cp_rx_head (co_ble s)) s"

lemma word_less_4: "unat (i :: u8) < 4 \<Longrightarrow> i = 0 \<or> i = 1 \<or> i = 2 \<or> i = 3"
  by (simp add: word_eq_unat) arith

lemma unat_cp_next: "unat i < 4 \<Longrightarrow> unat (cp_next i) = (unat i + 1) mod 4"
  by (auto simp: cp_next_def dest!: word_less_4)

lemma cp_advance_retail: "cp_advance b = set_tail (cp_next (cp_rx_tail b)) b"
  by (simp add: cp_advance_def set_tail_def)

lemma cp_queued_keeps:
  "co_keeps s s' \<Longrightarrow> cp_queued (co_ble s') = cp_queued (co_ble s)" "co_keeps s s' \<Longrightarrow> cp_ok (co_ble s') = cp_ok (co_ble s)"
  "co_keeps s s' \<Longrightarrow> cp_pending (co_ble s') = cp_pending (co_ble s)"
  by (simp_all add: co_keeps_def cp_queued_def cp_count_def cp_ok_def cp_pending_def)

lemma cp_queued_empty: "cp_ok s \<Longrightarrow> cp_queued s = [] \<longleftrightarrow> \<not> cp_pending s"
  by (auto simp: cp_ok_def cp_queued_def cp_count_def cp_pending_def dest!: word_less_4)

lemma upt_small: "[0..<1] = [0]" "[0..<Suc 0] = [0]" "[0..<2] = [0, 1]" "[0..<3] = [0, 1, 2::nat]"
  by (simp_all add: upt_rec)

lemma cp_queued_head:
  assumes "cp_ok s" "cp_pending s"
  shows "cp_queued s = cp_fetch s # cp_queued (cp_advance s)" "cp_ok (cp_advance s)"
proof -
  from assms have ht: "unat (cp_rx_head s) < 4" "unat (cp_rx_tail s) < 4" "cp_rx_tail s \<noteq> cp_rx_head s" by (simp_all add: cp_ok_def cp_pending_def)
  show "cp_queued s = cp_fetch s # cp_queued (cp_advance s)"
    using word_less_4 [OF ht(1)] word_less_4 [OF ht(2)] ht(3)
    by (elim disjE) (simp_all add: cp_queued_def cp_count_def cp_fetch_def cp_advance_def cp_next_def upt_small flip: numeral_2_eq_2)
  show "cp_ok (cp_advance s)"
    using assms(1) by (simp add: cp_ok_def cp_advance_def unat_cp_next)
qed

lemma loop_run:
  "cp_ok (co_ble s) \<Longrightarrow> length (cp_queued (co_ble s)) \<le> length es \<Longrightarrow>
   cp_loop (map (\<lambda>e. (e, \<lambda>b. b)) es) s = cp_run (zip es (cp_queued (co_ble s))) (cp_emptied s)"
proof (induction es arbitrary: s)
  case Nil
  then have "\<not> cp_pending (co_ble s)" using cp_queued_empty by fastforce
  then have "cp_emptied s = s" by (simp add: cp_emptied_def cp_pending_def co_say_def set_tail_def)
  then show ?case by simp
next
  case (Cons e es)
  show ?case
  proof (cases "cp_pending (co_ble s)")
    case False
    then have "cp_emptied s = s" by (simp add: cp_emptied_def cp_pending_def co_say_def set_tail_def)
    with False show ?thesis using cp_queued_empty [OF Cons.prems(1)] by simp
  next
    case True
    note q = cp_queued_head [OF Cons.prems(1) True]
    define s1 where "s1 = co_say cp_advance s"
    define s2 where "s2 = cp_command e (cp_fetch (co_ble s)) s1"
    have k: "co_keeps s1 s2" by (simp add: s2_def command_keeps)
    have h: "cp_rx_head (co_ble s2) = cp_rx_head (co_ble s)" using k by (simp add: co_keeps_def s1_def cp_advance_def)
    have "cp_emptied s2 = cp_command e (cp_fetch (co_ble s)) (retail (cp_rx_head (co_ble s)) s1)"
      unfolding cp_emptied_def h by (simp add: s2_def command_retail)
    also have "retail (cp_rx_head (co_ble s)) s1 = cp_emptied s"
      by (simp add: s1_def cp_emptied_def co_say_def cp_advance_retail)
    finally have e2: "cp_emptied s2 = cp_command e (cp_fetch (co_ble s)) (cp_emptied s)" .
    have "cp_queued (co_ble s2) = cp_queued (cp_advance (co_ble s))" "cp_ok (co_ble s2)"
      using cp_queued_keeps [OF k] q(2) by (simp_all add: s1_def)
    with Cons.IH [of s2] Cons.prems(2) q(1) e2 True show ?thesis
      by (simp add: s1_def s2_def)
  qed
qed

lemma length_cp_queued: "length (cp_queued s) < 4"
  by (simp add: cp_queued_def cp_count_def)

lemma tick_run:
  "cp_ok (co_ble s) \<Longrightarrow> 3 \<le> length es \<Longrightarrow>
   rivr_ble_companion_tick es s = cp_run (zip es (cp_queued (co_ble s))) (cp_emptied s)"
  using length_cp_queued [of "co_ble s"] by (simp add: rivr_ble_companion_tick_def loop_run)

lemma run_keeps: "co_keeps s (cp_run ps s)"
proof (induction ps arbitrary: s)
  case (Cons x ps)
  then show ?case by (cases x) (auto intro: co_keeps_trans [OF command_keeps])
qed (simp add: co_keeps_refl)

lemma run_start: "\<exists>(e, p) \<in> set ps. snd p ! 3 = CP_CMD_APP_START \<Longrightarrow> cp_session_active (co_ble (cp_run ps s))"
proof (induction ps arbitrary: s)
  case (Cons x ps)
  obtain e p where x: "x = (e, p)" by (cases x) auto
  show ?case
  proof (cases "snd p ! 3 = CP_CMD_APP_START")
    case True
    then show ?thesis using command_start [OF True, of e s] run_keeps [of "cp_command e p s" ps] by (simp add: x co_keeps_def)
  next
    case False
    with Cons x show ?thesis by auto
  qed
qed simp

lemma run_no_session:
  "\<not> cp_session_active (co_ble s) \<Longrightarrow> \<forall>(e, p) \<in> set ps. snd p ! 3 \<noteq> CP_CMD_APP_START \<Longrightarrow> cp_run ps s = s"
  by (induction ps arbitrary: s) (auto simp: command_no_session)


text \<open>A write of a command, and what the tick sees of it.\<close>

definition cp_frame :: "u8 list \<Rightarrow> bool" where
  "cp_frame d \<longleftrightarrow> 5 \<le> length d \<and> length d \<le> 255 \<and> d ! 0 = 0x52 \<and> d ! 1 = 0x43 \<and> d ! 2 = 1"

definition cp_wire :: "u8 list \<Rightarrow> u8 \<times> u8 list" where
  "cp_wire d = (of_nat (length d), d)"

fun cp_writes :: "u8 list list \<Rightarrow> ble_t \<Rightarrow> ble_t" where
  "cp_writes [] s = s"
| "cp_writes (d # ds) s = cp_writes ds (snd (rivr_ble_companion_handle_rx d s))"

definition cp_stored :: "u8 list \<Rightarrow> u8 \<times> u8 list \<Rightarrow> bool" where
  "cp_stored d p \<longleftrightarrow> (\<exists>old. p = (of_nat (length d), memcpy old d (length d)))"

lemma handle_rx_queued:
  assumes "cp_ok s" "cp_frame d" "length (cp_queued s) < 3"
  shows "\<exists>p. cp_stored d p \<and> cp_queued (snd (rivr_ble_companion_handle_rx d s)) = cp_queued s @ [p]"
    "cp_ok (snd (rivr_ble_companion_handle_rx d s))"
proof -
  define p where "p = (of_nat (length d) :: u8, memcpy (snd (cp_rx_queue s ! unat (cp_rx_head s))) d (length d))"
  from assms have ht: "unat (cp_rx_head s) < 4" "unat (cp_rx_tail s) < 4" "length (cp_rx_queue s) = 4" by (simp_all add: cp_ok_def)
  have nf: "cp_next (cp_rx_head s) \<noteq> cp_rx_tail s"
    using assms(3) word_less_4 [OF ht(1)] word_less_4 [OF ht(2)]
    by (elim disjE) (simp_all add: cp_queued_def cp_count_def cp_next_def)
  define s' where "s' = snd (rivr_ble_companion_handle_rx d s)"
  have s': "cp_rx_queue s' = (cp_rx_queue s)[unat (cp_rx_head s) := p]" "cp_rx_head s' = cp_next (cp_rx_head s)"
    "cp_rx_tail s' = cp_rx_tail s"
    using assms(2) nf by (simp_all add: s'_def rivr_ble_companion_handle_rx_def Let_def cp_frame_def p_def ble_count_def)
  have "cp_queued s' = cp_queued s @ [p]"
    using word_less_4 [OF ht(1)] word_less_4 [OF ht(2)] assms(3) ht(3) nf
    by (elim disjE) (simp_all add: cp_queued_def cp_count_def s' cp_next_def upt_small flip: numeral_2_eq_2)
  then show "\<exists>p. cp_stored d p \<and> cp_queued (snd (rivr_ble_companion_handle_rx d s)) = cp_queued s @ [p]"
    unfolding s'_def [symmetric] by (intro exI [of _ p]) (auto simp: cp_stored_def p_def)
  show "cp_ok (snd (rivr_ble_companion_handle_rx d s))"
    using ht unfolding s'_def [symmetric] by (simp add: cp_ok_def s' unat_cp_next)
qed

lemma writes_queued:
  "cp_ok s \<Longrightarrow> \<forall>d \<in> set ds. cp_frame d \<Longrightarrow> length (cp_queued s) + length ds \<le> 3 \<Longrightarrow>
   \<exists>ps. list_all2 cp_stored ds ps \<and> cp_queued (cp_writes ds s) = cp_queued s @ ps \<and> cp_ok (cp_writes ds s)"
proof (induction ds arbitrary: s)
  case (Cons d ds)
  note h = handle_rx_queued [OF Cons.prems(1), of d]
  from h Cons.prems obtain p where p: "cp_stored d p" "cp_queued (snd (rivr_ble_companion_handle_rx d s)) = cp_queued s @ [p]" by auto
  with h(2) Cons.prems Cons.IH [of "snd (rivr_ble_companion_handle_rx d s)"] obtain ps where
    "list_all2 cp_stored ds ps" "cp_queued (cp_writes (d # ds) s) = cp_queued s @ [p] @ ps" "cp_ok (cp_writes (d # ds) s)" by auto
  with p(1) show ?case by (intro exI [of _ "p # ps"]) simp
qed simp

text \<open>The rest of a buffer, left by an older packet, is not read.\<close>

lemma get_at_append:
  "i + 3 < length q \<Longrightarrow> get_u32_at (q @ x) i = get_u32_at q i" "i + 1 < length q \<Longrightarrow> get_u16_at (q @ x) i = get_u16_at q i"
  by (simp_all add: get_u32_at_def get_u16_at_def nth_append)

lemma handlers_prefix:
  "cp_handle_set_callsign e (q @ x) (length q) s = cp_handle_set_callsign e q (length q) s"
  "cp_handle_set_netid e (q @ x) (length q) s = cp_handle_set_netid e q (length q) s"
  "cp_handle_set_sensor_cfg e (q @ x) (length q) s = cp_handle_set_sensor_cfg e q (length q) s"
  "cp_handle_set_position e (q @ x) (length q) s = cp_handle_set_position e q (length q) s"
  by (simp_all add: cp_handle_set_callsign_def cp_handle_set_netid_def cp_handle_set_sensor_cfg_def cp_handle_set_position_def
      get_at_append nth_append)

lemma command_stored:
  assumes "cp_frame d" "cp_stored d p"
  shows "cp_command e p s = cp_command e (cp_wire d) s"
proof -
  from assms(2) obtain x where p: "p = (of_nat (length d), d @ x)" by (auto simp: cp_stored_def memcpy_def)
  have n: "unat ((of_nat (length d) :: u8) - 5) = length (drop 5 d)"
    using assms(1) by (simp add: cp_frame_def unat_sub_if' unat_of_nat)
  have "length d > 3" "5 \<le> length d" using assms(1) by (simp_all add: cp_frame_def)
  then show ?thesis
    by (simp add: cp_command_def p cp_wire_def n [unfolded length_drop] nth_append Let_def
        handlers_prefix [of e "drop 5 d" x s, unfolded length_drop])
qed

lemma run_stored:
  "list_all2 cp_stored ds ps \<Longrightarrow> \<forall>d \<in> set ds. cp_frame d \<Longrightarrow> cp_run (zip es ps) s = cp_run (zip es (map cp_wire ds)) s"
proof (induction ds arbitrary: es ps s)
  case (Cons d ds)
  then obtain p qs where "ps = p # qs" "cp_stored d p" "list_all2 cp_stored ds qs" by (auto simp: list_all2_Cons1)
  moreover have "cp_frame d" using Cons.prems(2) by simp
  ultimately show ?case using Cons command_stored [of d p] by (cases es) simp_all
qed simp

section \<open>The properties\<close>

text \<open>C28: Without a session, whatever is in the queue, a tick that finds no start of a session empties the queue
  and does nothing else: no setting changes and no packet is sent.\<close>

theorem session_guards_commands:
  assumes "cp_ok (co_ble s)" "\<not> cp_session_active (co_ble s)" "length (cp_queued (co_ble s)) \<le> length es"
    and "\<forall>p \<in> set (cp_queued (co_ble s)). snd p ! 3 \<noteq> CP_CMD_APP_START"
  shows "rivr_ble_companion_tick es s = s\<lparr>co_ble := (co_ble s)\<lparr>cp_rx_tail := cp_rx_head (co_ble s)\<rparr>\<rparr>"
proof -
  have "\<not> cp_session_active (co_ble (cp_emptied s))" using assms(2) by (simp add: cp_emptied_def)
  moreover have "\<forall>(e, p) \<in> set (zip es (cp_queued (co_ble s))). snd p ! 3 \<noteq> CP_CMD_APP_START"
    using assms(4) by (auto dest: set_zip_rightD)
  ultimately have "cp_run (zip es (cp_queued (co_ble s))) (cp_emptied s) = cp_emptied s" by (rule run_no_session)
  then show ?thesis
    using loop_run [OF assms(1,3)] by (simp add: rivr_ble_companion_tick_def cp_emptied_def co_say_def set_tail_def)
qed

text \<open>C29: Up to three commands written to an empty queue are run by the next tick, once each and in the order
  they were written, on the bytes that were written; the queue is empty after it.\<close>

theorem companion_commands_in_order:
  assumes q: "cp_ok (co_ble s)" "cp_queued (co_ble s) = []" and d: "\<forall>d \<in> set ds. cp_frame d" "length ds \<le> 3"
    and es: "length ds \<le> length es" and w: "s1 = s\<lparr>co_ble := cp_writes ds (co_ble s)\<rparr>"
  shows "rivr_ble_companion_tick es s1 = cp_run (zip es (map cp_wire ds)) (cp_emptied s1) \<and>
    cp_queued (co_ble (rivr_ble_companion_tick es s1)) = []"
proof
  from writes_queued [OF q(1) d(1)] q(2) d(2) obtain ps where
    ps: "list_all2 cp_stored ds ps" "cp_queued (co_ble s1) = ps" "cp_ok (co_ble s1)" by (auto simp: w)
  have "length ps \<le> length es" using ps(1) es by (simp add: list_all2_lengthD)
  with loop_run [OF ps(3), of es] ps(2) run_stored [OF ps(1) d(1)]
  show r: "rivr_ble_companion_tick es s1 = cp_run (zip es (map cp_wire ds)) (cp_emptied s1)"
    by (simp add: rivr_ble_companion_tick_def)
  have "cp_queued (co_ble (cp_emptied s1)) = []" by (simp add: cp_queued_def cp_count_def cp_emptied_def)
  with r show "cp_queued (co_ble (rivr_ble_companion_tick es s1)) = []"
    using cp_queued_keeps(1) [OF run_keeps] by (simp add: r)
qed

text \<open>The link after a disconnect.\<close>

lemma disconnect_parts:
  "cp_rx_head (rivr_ble_gatts_event e GattsDisconnect s) = 0" "cp_rx_tail (rivr_ble_gatts_event e GattsDisconnect s) = 0"
  "cp_rx_queue (rivr_ble_gatts_event e GattsDisconnect s) = cp_rx_queue s"
  "bl_conn_handle (rivr_ble_gatts_event e GattsDisconnect s) = BLE_NO_HANDLE"
  by (simp_all add: rivr_ble_gatts_event_def ble_disconnected_def Let_def rivr_ble_service_clear_connection_def
      rivr_ble_companion_on_disconnect_def rivr_ble_schedule_adv_retry_def)

text \<open>C30: A disconnect that comes between the copy of a packet and the store of the new tail resets the queue to
  zero and leaves the tail at one: the rest of the tick runs the packet of the client that has gone and the three
  others the buffers still hold, whoever wrote them. When one of these starts a session, the node has a session with
  nobody connected, so the next client finds it open and frames no longer go out raw.\<close>

theorem disconnect_replays_commands:
  assumes q: "cp_ok (co_ble s)" "cp_pending (co_ble s)" and b: "b = co_ble s"
    and p: "ps = [(e0, cp_fetch b), (e1, cp_rx_queue b ! 1), (e2, cp_rx_queue b ! 2), (e3, cp_rx_queue b ! 3)]"
    and run: "s' = cp_loop [(e0, rivr_ble_gatts_event eb GattsDisconnect), (e1, \<lambda>b. b), (e2, \<lambda>b. b), (e3, \<lambda>b. b)] s"
  shows "s' = cp_run ps (s\<lparr>co_ble := rivr_ble_gatts_event eb GattsDisconnect b\<rparr>) \<and>
    ((\<exists>(e, p) \<in> set ps. snd p ! 3 = CP_CMD_APP_START) \<longrightarrow>
      cp_session_active (co_ble s') \<and> \<not> rivr_ble_is_connected (co_ble s') \<and> \<not> rivr_ble_companion_raw_bridge_enabled (co_ble s'))"
proof (intro conjI impI)
  define s1 where "s1 = co_say (rivr_ble_gatts_event eb GattsDisconnect) s"
  define s2 where "s2 = cp_command e0 (cp_fetch b) (co_say cp_advance s1)"
  have k: "co_keeps (co_say cp_advance s1) s2" by (simp add: s2_def command_keeps)
  have f: "cp_rx_head (co_ble s2) = 0" "cp_rx_tail (co_ble s2) = 1" "cp_rx_queue (co_ble s2) = cp_rx_queue b"
    using k by (simp_all add: co_keeps_def s1_def b cp_advance_def disconnect_parts cp_next_def)
  have ok: "cp_ok (co_ble s2)" "cp_queued (co_ble s2) = [cp_rx_queue b ! 1, cp_rx_queue b ! 2, cp_rx_queue b ! 3]"
    using q(1) by (simp_all add: cp_ok_def f b cp_queued_def cp_count_def upt_small flip: numeral_2_eq_2)
  have "retail 0 (co_say cp_advance s1) = s1"
    by (simp add: co_say_def s1_def cp_advance_retail set_tail_same disconnect_parts)
  then have em: "cp_emptied s2 = cp_command e0 (cp_fetch b) s1"
    unfolding cp_emptied_def f by (simp add: s2_def flip: command_retail)
  have "cp_loop ((e0, rivr_ble_gatts_event eb GattsDisconnect) # turns) s = cp_loop turns s2" for turns
    using q(2) by (simp add: s2_def s1_def b co_say_def Let_def)
  then have "s' = cp_loop (map (\<lambda>e. (e, \<lambda>b. b)) [e1, e2, e3]) s2"
    unfolding run by (simp del: cp_loop.simps)
  with loop_run [OF ok(1), of "[e1, e2, e3]"] ok(2) em
  have r: "s' = cp_run ps (s\<lparr>co_ble := rivr_ble_gatts_event eb GattsDisconnect b\<rparr>)"
    by (simp add: p s1_def co_say_def b)
  then show "s' = cp_run ps (s\<lparr>co_ble := rivr_ble_gatts_event eb GattsDisconnect b\<rparr>)" .
  assume "\<exists>(e, p) \<in> set ps. snd p ! 3 = CP_CMD_APP_START"
  from run_start [OF this] run_keeps [of "s\<lparr>co_ble := rivr_ble_gatts_event eb GattsDisconnect b\<rparr>" ps]
  show "cp_session_active (co_ble s')" "\<not> rivr_ble_is_connected (co_ble s')" "\<not> rivr_ble_companion_raw_bridge_enabled (co_ble s')"
    by (simp_all add: r co_keeps_def disconnect_parts rivr_ble_is_connected_def rivr_ble_companion_raw_bridge_enabled_def)
qed


section \<open>An app at work\<close>

definition demo_cp_env :: companion_env where
  "demo_cp_env = \<lparr>pe_ble = demo_ble_env False, pe_nvs = \<lparr>io_open = True, io_first = True, io_second = True, io_commit = True\<rparr>,
     pe_sensors_open = True, pe_sensors_writes = replicate 5 True, pe_now = 5000, pe_neighbors = routing_neighbor_init,
     pe_my_id = 7, pe_build_env = ascii ''client'', pe_role = ascii ''client'', pe_radio = ascii ''SX1262''\<rparr>"

text \<open>Three commands are in the queue: set the network number, start a session, set the network number.\<close>

definition demo_cp_queue :: "(u8 \<times> u8 list) list" where
  "demo_cp_queue = map (\<lambda>d. (of_nat (length d), d @ replicate (255 - length d) 0))
     [[0x52, 0x43, 1, 0x07, 0, 1, 2], [0x52, 0x43, 1, 0x01, 0], [0x52, 0x43, 1, 0x07, 0, 3, 4], [0x52, 0x43, 1, 0x02, 0]]"

definition demo_companion :: "u8 \<Rightarrow> companion_t" where
  "demo_companion head = \<lparr>co_ble = demo_ble\<lparr>cp_rx_queue := demo_cp_queue, cp_rx_head := head\<rparr>, co_id = cl_id demo_console, co_nvs = cl_nvs demo_console,
     co_sensors = sensors_defaults, co_sensors_nvs = None\<rparr>"

lemma demo_companion_queue:
  "cp_ok (co_ble (demo_companion 0))" "cp_ok (co_ble (demo_companion 1))"
  "cp_queued (co_ble (demo_companion 0)) = []" "cp_queued (co_ble (demo_companion 1)) = [demo_cp_queue ! 0]"
  "cp_pending (co_ble (demo_companion 1))" "\<not> cp_session_active (co_ble (demo_companion n))"
  by (simp_all add: cp_ok_def demo_companion_def demo_ble_def demo_cp_queue_def cp_queued_def cp_count_def cp_pending_def upt_small)

theorem session_guards_commands_witness:
  "id_net_id (co_id (rivr_ble_companion_tick [demo_cp_env] (demo_companion 1))) = 0"
proof -
  have "\<forall>p \<in> set (cp_queued (co_ble (demo_companion 1))). snd p ! 3 \<noteq> CP_CMD_APP_START"
    unfolding demo_companion_queue by (simp add: demo_cp_queue_def)
  from session_guards_commands [OF demo_companion_queue(2,6) _ this, of "[demo_cp_env]"]
  show ?thesis unfolding demo_companion_queue by (simp add: demo_companion_def demo_console_def)
qed

theorem companion_commands_in_order_witness:
  "\<exists>s1. id_net_id (co_id (rivr_ble_companion_tick [demo_cp_env, demo_cp_env] s1)) = 0x0201 \<and>
     cp_queued (co_ble (rivr_ble_companion_tick [demo_cp_env, demo_cp_env] s1)) = []"
proof -
  let ?ds = "[[0x52, 0x43, 1, 0x01, 0], [0x52, 0x43, 1, 0x07, 0, 1, 2]] :: u8 list list"
  define s1 where "s1 = (demo_companion 0)\<lparr>co_ble := cp_writes ?ds (co_ble (demo_companion 0))\<rparr>"
  have f: "\<forall>d \<in> set ?ds. cp_frame d" "length ?ds \<le> 3" "length ?ds \<le> length [demo_cp_env, demo_cp_env]" by (simp_all add: cp_frame_def)
  note r = companion_commands_in_order [OF demo_companion_queue(1,3) f s1_def]
  have io: "pe_nvs demo_cp_env = \<lparr>io_open = True, io_first = True, io_second = True, io_commit = True\<rparr>" by (simp add: demo_cp_env_def)
  have a: "cp_session_active (co_ble (cp_command demo_cp_env (cp_wire [0x52, 0x43, 1, 0x01, 0]) s))" for s
    by (rule command_start) (simp add: cp_wire_def)
  have n: "id_net_id (co_id (cp_command demo_cp_env (cp_wire [0x52, 0x43, 1, 0x07, 0, 1, 2]) s)) = 0x0201"
    if "cp_session_active (co_ble s)" for s
    using that by (simp add: cp_command_def cp_wire_def cp_handle_set_netid_def Let_def io rivr_nvs_store_identity_def get_u16_def
        co_ok_def co_err_def split: prod.split)
  have "id_net_id (co_id (rivr_ble_companion_tick [demo_cp_env, demo_cp_env] s1)) = 0x0201"
    unfolding conjunct1 [OF r] using n [OF a] by simp
  with conjunct2 [OF r] show ?thesis by blast
qed

theorem disconnect_replays_commands_witness:
  "let s' = cp_loop [(demo_cp_env, rivr_ble_gatts_event (demo_ble_env False) GattsDisconnect), (demo_cp_env, \<lambda>b. b),
       (demo_cp_env, \<lambda>b. b), (demo_cp_env, \<lambda>b. b)] (demo_companion 1)
   in cp_session_active (co_ble s') \<and> \<not> rivr_ble_is_connected (co_ble s')"
proof -
  have q: "cp_rx_queue (co_ble (demo_companion 1)) = demo_cp_queue" by (simp add: demo_companion_def)
  have "\<exists>(e, p) \<in> set [(demo_cp_env, cp_fetch (co_ble (demo_companion 1))), (demo_cp_env, cp_rx_queue (co_ble (demo_companion 1)) ! 1),
      (demo_cp_env, cp_rx_queue (co_ble (demo_companion 1)) ! 2), (demo_cp_env, cp_rx_queue (co_ble (demo_companion 1)) ! 3)].
      snd p ! 3 = CP_CMD_APP_START"
    unfolding q by (simp add: demo_cp_queue_def)
  with disconnect_replays_commands [OF demo_companion_queue(2,5) refl refl refl,
      of demo_cp_env "demo_ble_env False" demo_cp_env demo_cp_env demo_cp_env]
  show ?thesis unfolding Let_def by blast
qed

end
