(* ===== verification/Rivr_Radio.thy ===== *)
theory Rivr_Radio
  imports Rivr_System
begin

text \<open>
  The driver of the SX1262 radio (radio_sx1262.c): configuration, reception, transmission and the recovery
  from faults. The chip, the pins and the clock are outside: every call made to them is recorded in
  order, and what it returns may depend on the whole record. The properties: the order of a transmission;
  a node that transmits five frames and hears nothing resets its radio; a reset that is refused
  after a failed transmission leaves the node deaf until it transmits again; and a transmission ends once the clock is past its deadline.
\<close>

section \<open>The outside\<close>

text \<open>A transfer records the bytes sent and the number of bytes clocked.\<close>

datatype radio_call =
  Spi "u8 list" nat | WaitBusy u32 | ResetPin | Rxen bool | Millis | AttachIsr | FeedWatchdog

record radio_hw =
  hw_spi :: "radio_call list \<Rightarrow> u8 list"
  hw_busy_low :: "radio_call list \<Rightarrow> bool"
  hw_millis :: "radio_call list \<Rightarrow> u32"

text \<open>The parameters of the build; the bandwidth and the coding rate as the build names them.\<close>

record radio_cfg =
  rc_freq_hz :: u32
  rc_sf :: u8
  rc_bw_khz :: nat
  rc_coding_rate :: nat
  rc_power_dbm :: u8
  rc_preamble_len :: u8

record radio_t =
  rd_in_rx :: bool
  rd_dio1_pending :: bool
  rd_tx_fail_streak :: u8
  rd_spurious_streak :: u8
  rd_reset_happened :: bool
  rd_last_reset_ms :: u32
  rd_last_rx_event_ms :: u32
  rd_busy_streak :: u8
  rd_rx_ring :: "rf_rx_frame_t rb_t"
  rd_tx_queue :: tx_queue
  rd_metrics :: rivr_metrics_t
  rd_calls :: "radio_call list"

abbreviation "RADIO_RESET_BACKOFF_MS \<equiv> (5000 :: u32)"
abbreviation "RADIO_BUSY_STUCK_MAX \<equiv> (3 :: u8)"
abbreviation "RADIO_RX_SILENCE_MS \<equiv> (60000 :: u32)"

definition rd_call :: "radio_call \<Rightarrow> radio_t \<Rightarrow> radio_t" where
  "rd_call c s = s\<lparr>rd_calls := rd_calls s @ [c]\<rparr>"

definition rd_count :: "rivr_metric \<Rightarrow> radio_t \<Rightarrow> radio_t" where
  "rd_count k s = s\<lparr>rd_metrics := bump k (rd_metrics s)\<rparr>"

definition rd_spi :: "radio_hw \<Rightarrow> u8 list \<Rightarrow> nat \<Rightarrow> radio_t \<Rightarrow> u8 list \<times> radio_t" where
  "rd_spi hw tx n s =
     (let s1 = rd_call (Spi tx n) s in (take n (hw_spi hw (rd_calls s1) @ replicate n 0), s1))"

definition rd_wait :: "radio_hw \<Rightarrow> u32 \<Rightarrow> radio_t \<Rightarrow> bool \<times> radio_t" where
  "rd_wait hw ms s = (let s1 = rd_call (WaitBusy ms) s in (hw_busy_low hw (rd_calls s1), s1))"

definition rd_millis :: "radio_hw \<Rightarrow> radio_t \<Rightarrow> u32 \<times> radio_t" where
  "rd_millis hw s = (let s1 = rd_call Millis s in (hw_millis hw (rd_calls s1), s1))"

definition sx1262_cmd :: "radio_hw \<Rightarrow> u8 \<Rightarrow> u8 list \<Rightarrow> radio_t \<Rightarrow> radio_t" where
  "sx1262_cmd hw c params s = snd (rd_spi hw (c # params) (1 + length params) s)"

definition sx1262_read_cmd :: "radio_hw \<Rightarrow> u8 \<Rightarrow> nat \<Rightarrow> radio_t \<Rightarrow> u8 list \<times> radio_t" where
  "sx1262_read_cmd hw c n s = (case rd_spi hw (c # replicate (n + 1) 0) (2 + n) s of (rx, s1) \<Rightarrow> (drop 2 rx, s1))"

text \<open>A command and the wait after it, whose outcome is not looked at.\<close>

definition cmd_wait :: "radio_hw \<Rightarrow> u8 \<Rightarrow> u8 list \<Rightarrow> u32 \<Rightarrow> radio_t \<Rightarrow> radio_t" where
  "cmd_wait hw c params ms s = snd (rd_wait hw ms (sx1262_cmd hw c params s))"

section \<open>Configuration\<close>

text \<open>The encodings of the preprocessor; other values do not compile.\<close>

definition RF_BW_SX1262_REG :: "nat \<Rightarrow> u8" where
  "RF_BW_SX1262_REG khz =
     (if khz = 7 then 0x00 else if khz = 10 then 0x08 else if khz = 15 then 0x01 else if khz = 20 then 0x09
      else if khz = 31 then 0x02 else if khz = 41 then 0x0A else if khz = 62 then 0x03 else if khz = 125 then 0x04
      else if khz = 250 then 0x05 else 0x06)"

definition RF_CR_SX1262_REG :: "nat \<Rightarrow> u8" where
  "RF_CR_SX1262_REG cr = (if cr = 5 then 1 else if cr = 6 then 2 else if cr = 7 then 3 else 4)"

definition rf_frequency_word :: "u32 \<Rightarrow> u32" where
  "rf_frequency_word hz = ucast (push_bit 25 (ucast hz :: u64) div 32000000)"

definition config_commands :: "radio_cfg \<Rightarrow> (u8 \<times> u8 list \<times> u32) list" where
  "config_commands cfg =
     (let frf = rf_frequency_word (rc_freq_hz cfg) in
      [(0x80, [0x00], 10), (0x97, [0x02, 0x00, 0x01, 0x40], 10), (0x96, [0x01], 10), (0x89, [0xFF], 50), (0x80, [0x00], 10),
       (0x9D, [0x01], 10), (0x8A, [0x01], 10),
       (0x86, [ucast (drop_bit 24 frf), ucast (drop_bit 16 frf), ucast (drop_bit 8 frf), ucast frf], 10),
       (0x95, [0x04, 0x07, 0x00, 0x01], 10),
       (0x8B, [rc_sf cfg, RF_BW_SX1262_REG (rc_bw_khz cfg), RF_CR_SX1262_REG (rc_coding_rate cfg), 0x00], 10),
       (0x8C, [0x00, rc_preamble_len cfg, 0x00, 255, 0x01, 0x00], 10),
       (0x8E, [rc_power_dbm cfg, 0x04], 10),
       (0x08, [0x02, 0x03, 0x02, 0x03, 0x00, 0x00, 0x00, 0x00], 10),
       (0x0D, [0x08, 0xAC, 0x96], 5)])"

text \<open>Reading a register, setting bits of it and writing it back.\<close>

definition set_register_bits :: "radio_hw \<Rightarrow> u8 \<Rightarrow> u8 \<Rightarrow> u8 \<Rightarrow> radio_t \<Rightarrow> radio_t" where
  "set_register_bits hw hi lo bits s =
     (case rd_spi hw [0x1D, hi, lo, 0x00, 0x00] 5 s of
        (rx, s1) \<Rightarrow> cmd_wait hw 0x0D [hi, lo, rx ! 4 OR bits] 5 s1)"

definition radio_apply_config :: "radio_hw \<Rightarrow> radio_cfg \<Rightarrow> radio_t \<Rightarrow> radio_t" where
  "radio_apply_config hw cfg s =
     set_register_bits hw 0x08 0xD8 0x1E (set_register_bits hw 0x08 0xB5 0x04
       (fold (\<lambda>(c, params, ms). cmd_wait hw c params ms) (config_commands cfg) s))"

definition radio_init_buffers_only :: "radio_t \<Rightarrow> radio_t" where
  "radio_init_buffers_only s =
     s\<lparr>rd_rx_ring := rb_init (replicate 8 rx_frame_zero) RF_RX_RINGBUF_CAP,
       rd_tx_queue := rb_init (replicate 4 (tx_request [] 0 0)) RF_TX_QUEUE_CAP\<rparr>"

definition radio_reset_chip :: "radio_hw \<Rightarrow> radio_cfg \<Rightarrow> radio_t \<Rightarrow> radio_t" where
  "radio_reset_chip hw cfg s = radio_apply_config hw cfg (snd (rd_wait hw 100 (rd_call ResetPin s)))"

definition radio_init :: "radio_hw \<Rightarrow> radio_cfg \<Rightarrow> radio_t \<Rightarrow> radio_t" where
  "radio_init hw cfg s = rd_call AttachIsr (radio_reset_chip hw cfg (radio_init_buffers_only s))"

definition radio_start_rx :: "radio_hw \<Rightarrow> radio_t \<Rightarrow> radio_t" where
  "radio_start_rx hw s =
     (case rd_millis hw ((cmd_wait hw 0x82 [0xFF, 0xFF, 0xFF] 20 (rd_call (Rxen True) s))\<lparr>rd_in_rx := True\<rparr>) of
        (now, s1) \<Rightarrow> s1\<lparr>rd_last_rx_event_ms := now\<rparr>)"

section \<open>Recovery\<close>

definition radio_hard_reset :: "radio_hw \<Rightarrow> radio_cfg \<Rightarrow> radio_t \<Rightarrow> radio_t" where
  "radio_hard_reset hw cfg s =
     radio_start_rx hw (radio_reset_chip hw cfg
       ((rd_count radio_hard_resets s)\<lparr>rd_tx_fail_streak := 0, rd_spurious_streak := 0, rd_busy_streak := 0,
          rd_in_rx := False, rd_last_rx_event_ms := 0\<rparr>))"

datatype radio_reset_reason_t =
  RADIO_RESET_REASON_BUSY_STUCK | RADIO_RESET_REASON_TX_TIMEOUT | RADIO_RESET_REASON_SPURIOUS_IRQ

definition reset_reason_metric :: "radio_reset_reason_t \<Rightarrow> rivr_metric" where
  "reset_reason_metric reason =
     (case reason of RADIO_RESET_REASON_BUSY_STUCK \<Rightarrow> radio_reset_busy_stuck
      | RADIO_RESET_REASON_TX_TIMEOUT \<Rightarrow> radio_reset_tx_timeout
      | RADIO_RESET_REASON_SPURIOUS_IRQ \<Rightarrow> radio_reset_spurious_irq)"

definition radio_guard_reset :: "radio_hw \<Rightarrow> radio_cfg \<Rightarrow> radio_reset_reason_t \<Rightarrow> radio_t \<Rightarrow> radio_t" where
  "radio_guard_reset hw cfg reason s =
     (case rd_millis hw s of (now, s1) \<Rightarrow>
        if rd_reset_happened s1 \<and> now - rd_last_reset_ms s1 < RADIO_RESET_BACKOFF_MS
        then rd_count radio_reset_backoff s1
        else radio_hard_reset hw cfg
               ((rd_count (reset_reason_metric reason) s1)\<lparr>rd_reset_happened := True, rd_last_reset_ms := now\<rparr>))"

definition radio_check_timeouts :: "radio_hw \<Rightarrow> radio_t \<Rightarrow> radio_t" where
  "radio_check_timeouts hw s =
     (case rd_millis hw s of (now, s1) \<Rightarrow>
        if rd_last_rx_event_ms s1 = 0 then s1\<lparr>rd_last_rx_event_ms := now\<rparr>
        else if \<not> rd_in_rx s1 then s1
        else if now - rd_last_rx_event_ms s1 \<ge> RADIO_RX_SILENCE_MS
        then (rd_count radio_rx_timeout s1)\<lparr>rd_last_rx_event_ms := now\<rparr>
        else s1)"

section \<open>Reception\<close>

definition radio_isr :: "radio_t \<Rightarrow> radio_t" where
  "radio_isr s = s\<lparr>rd_dio1_pending := True\<rparr>"

definition be16 :: "u8 list \<Rightarrow> u16" where
  "be16 b = push_bit 8 (ucast (b ! 0)) OR ucast (b ! 1)"

text \<open>The packet in the chip's buffer; the quotients truncate towards zero.\<close>

definition sx1262_read_packet :: "radio_hw \<Rightarrow> radio_t \<Rightarrow> radio_t" where
  "sx1262_read_packet hw s =
     (case sx1262_read_cmd hw 0x13 2 s of (buf_status, s1) \<Rightarrow>
        let payload_len = buf_status ! 0; start_addr = buf_status ! 1 in
        if payload_len = 0 then s1
        else case sx1262_read_cmd hw 0x14 3 s1 of (pkt_status, s2) \<Rightarrow>
          (case rd_spi hw [0x1E, start_addr, 0x00, 0x00] (4 + unat payload_len) s2 of (rx, s3) \<Rightarrow>
             (case rd_millis hw s3 of (now, s4) \<Rightarrow>
                let bytes = take (unat payload_len) (drop 3 rx);
                    frame = rx_frame_zero\<lparr>fr_data := bytes @ replicate (255 - length bytes) 0, fr_len := payload_len,
                      fr_rx_mono_ms := now, fr_rssi_dbm := - (ucast (pkt_status ! 0) div 2),
                      fr_snr_db := word_of_int (sint (pkt_status ! 1) sdiv 4)\<rparr>
                in s4\<lparr>rd_rx_ring := snd (rb_try_push frame (rd_rx_ring s4))\<rparr>)))"

definition sx1262_service_rx :: "radio_hw \<Rightarrow> radio_cfg \<Rightarrow> radio_t \<Rightarrow> radio_t" where
  "sx1262_service_rx hw cfg s =
     (if \<not> rd_dio1_pending s then s
      else case rd_millis hw (s\<lparr>rd_dio1_pending := False\<rparr>) of (now, s1) \<Rightarrow>
        (case sx1262_read_cmd hw 0x12 2 (s1\<lparr>rd_last_rx_event_ms := now\<rparr>) of (irq_status, s2) \<Rightarrow>
           let irq = be16 irq_status; s3 = sx1262_cmd hw 0x02 irq_status s2 in
           if irq AND 0x0003 = 0 then
             let s4 = s3\<lparr>rd_spurious_streak := rd_spurious_streak s3 + 1\<rparr>
             in if rd_spurious_streak s4 \<ge> 5 then radio_guard_reset hw cfg RADIO_RESET_REASON_SPURIOUS_IRQ s4 else s4
           else if irq AND 0x0002 = 0 then s3
           else
             let s4 = s3\<lparr>rd_spurious_streak := 0\<rparr>
             in if irq AND 0x0040 \<noteq> 0 then rd_count radio_rx_crc_fail s4
                else sx1262_read_packet hw s4))"

section \<open>Transmission\<close>

definition tx_failed :: "radio_hw \<Rightarrow> radio_cfg \<Rightarrow> rivr_metric \<Rightarrow> radio_t \<Rightarrow> radio_t" where
  "tx_failed hw cfg k s =
     (let s1 = rd_count k (rd_count radio_tx_fail s);
          s2 = s1\<lparr>rd_tx_fail_streak := rd_tx_fail_streak s1 + 1\<rparr>
      in if rd_tx_fail_streak s2 \<ge> 3 then radio_guard_reset hw cfg RADIO_RESET_REASON_TX_TIMEOUT s2
         else radio_start_rx hw s2)"

text \<open>The poll loop, with as many turns as the first argument; None when these are not enough.\<close>

fun tx_poll :: "nat \<Rightarrow> radio_hw \<Rightarrow> radio_cfg \<Rightarrow> u32 \<Rightarrow> radio_t \<Rightarrow> (bool \<times> radio_t) option" where
  "tx_poll 0 hw cfg deadline_ms s = None"
| "tx_poll (Suc k) hw cfg deadline_ms s =
     (case rd_millis hw s of (now, s1) \<Rightarrow>
        if \<not> now < deadline_ms then Some (False, tx_failed hw cfg tx_deadline_total s1)
        else case sx1262_read_cmd hw 0x12 2 (rd_call FeedWatchdog s1) of (irq, s2) \<Rightarrow>
          let flags = be16 irq in
          if flags AND 0x0001 \<noteq> 0
          then Some (True, radio_start_rx hw ((sx1262_cmd hw 0x02 irq s2)\<lparr>rd_tx_fail_streak := 0\<rparr>))
          else if flags AND 0x0200 \<noteq> 0 then Some (False, tx_failed hw cfg tx_timeout_total s2)
          else tx_poll k hw cfg deadline_ms s2)"

text \<open>The commands of steps 2 to 7: standby, clear, length, data, antenna, start.\<close>

definition tx_load :: "radio_hw \<Rightarrow> radio_cfg \<Rightarrow> rf_tx_request_t \<Rightarrow> radio_t \<Rightarrow> radio_t" where
  "tx_load hw cfg req s =
     (let s1 = (cmd_wait hw 0x80 [0x00] 5 s)\<lparr>rd_in_rx := False\<rparr>;
          s2 = cmd_wait hw 0x02 [0xFF, 0xFF] 5 s1;
          s3 = cmd_wait hw 0x8C [0x00, rc_preamble_len cfg, 0x00, tx_len req, 0x01, 0x00] 5 s2;
          n = unat (tx_len req);
          s4 = snd (rd_wait hw 5 (snd (rd_spi hw ([0x0E, 0x00] @ take n (tx_data req)) (2 + n) s3)));
          ticks = tx_toa_us req * 16 div 125
      in sx1262_cmd hw 0x83 [ucast (drop_bit 16 ticks), ucast (drop_bit 8 ticks), ucast ticks] (rd_call (Rxen False) s4))"

definition tx_busy_stuck :: "radio_hw \<Rightarrow> radio_cfg \<Rightarrow> radio_t \<Rightarrow> radio_t" where
  "tx_busy_stuck hw cfg s =
     (let s1 = rd_count radio_busy_timeout_total (rd_count radio_busy_stall s);
          s2 = s1\<lparr>rd_busy_streak := rd_busy_streak s1 + 1\<rparr>
      in if rd_busy_streak s2 \<ge> RADIO_BUSY_STUCK_MAX
         then radio_guard_reset hw cfg RADIO_RESET_REASON_BUSY_STUCK (s2\<lparr>rd_busy_streak := 0\<rparr>) else s2)"

definition radio_transmit :: "nat \<Rightarrow> radio_hw \<Rightarrow> radio_cfg \<Rightarrow> rf_tx_request_t \<Rightarrow> radio_t \<Rightarrow> (bool \<times> radio_t) option" where
  "radio_transmit fuel hw cfg req s =
     (if tx_len req = 0 then Some (False, s)
      else case rd_wait hw 10 s of (low, s1) \<Rightarrow>
        if \<not> low then Some (False, tx_busy_stuck hw cfg s1)
        else case rd_millis hw (tx_load hw cfg req (s1\<lparr>rd_busy_streak := 0\<rparr>)) of (t0, s2) \<Rightarrow>
          tx_poll fuel hw cfg (t0 + tx_toa_us req div 1000 * 2 + 100) s2)"

definition radio_get_rssi_inst :: "radio_hw \<Rightarrow> radio_t \<Rightarrow> u16 \<times> radio_t" where
  "radio_get_rssi_inst hw s =
     (if \<not> rd_in_rx s then (- 120, s)
      else case sx1262_read_cmd hw 0x15 1 s of (raw, s1) \<Rightarrow> (- (ucast (raw ! 0) div 2), s1))"

section \<open>The frame decoder\<close>

definition frame_prefix :: "u8 \<Rightarrow> u8 list" where
  "frame_prefix typ =
     (if typ = 0x04 then [0x43, 0x48, 0x41, 0x54] else if typ = 0x02 then [0x42, 0x45, 0x41, 0x43, 0x4F, 0x4E]
      else if typ = 0x03 then [0x41, 0x43, 0x4B] else [0x44, 0x41, 0x54, 0x41])"

text \<open>The bytes written, without the terminating zero.\<close>

definition radio_decode_frame :: "rf_rx_frame_t \<Rightarrow> u8 \<Rightarrow> u8 list" where
  "radio_decode_frame frame out_len =
     (if fr_len frame < 3 \<or> out_len = 0 then []
      else
        let head = frame_prefix (fr_data frame ! 0) @ [0x3A]; payload_len = fr_len frame - 3
        in if length head \<ge> unat out_len then []
           else
             let rem = out_len - of_nat (length head) - 1; copy = (if payload_len < rem then payload_len else rem)
             in head @ take (unat copy) (drop 3 (fr_data frame)))"

definition radio_frame_sender_tick :: "rf_rx_frame_t \<Rightarrow> u16" where
  "radio_frame_sender_tick frame = (if fr_len frame < 3 then 0 else get_u16 (fr_data frame ! 1) (fr_data frame ! 2))"


section \<open>What the operations leave alone\<close>

lemma rd_call_simps [simp]:
  "rd_calls (rd_call c s) = rd_calls s @ [c]" "rd_in_rx (rd_call c s) = rd_in_rx s" "rd_metrics (rd_call c s) = rd_metrics s"
  "rd_spurious_streak (rd_call c s) = rd_spurious_streak s" "rd_tx_fail_streak (rd_call c s) = rd_tx_fail_streak s"
  "rd_reset_happened (rd_call c s) = rd_reset_happened s" "rd_last_reset_ms (rd_call c s) = rd_last_reset_ms s"
  "rd_dio1_pending (rd_call c s) = rd_dio1_pending s" "rd_rx_ring (rd_call c s) = rd_rx_ring s"
  by (simp_all add: rd_call_def)

lemma rd_count_simps [simp]:
  "rd_calls (rd_count k s) = rd_calls s" "rd_in_rx (rd_count k s) = rd_in_rx s" "rd_metrics (rd_count k s) = bump k (rd_metrics s)"
  "rd_spurious_streak (rd_count k s) = rd_spurious_streak s" "rd_tx_fail_streak (rd_count k s) = rd_tx_fail_streak s"
  "rd_reset_happened (rd_count k s) = rd_reset_happened s" "rd_last_reset_ms (rd_count k s) = rd_last_reset_ms s"
  "rd_dio1_pending (rd_count k s) = rd_dio1_pending s" "rd_busy_streak (rd_count k s) = rd_busy_streak s"
  by (simp_all add: rd_count_def)

lemma rd_millis_eq: "rd_millis hw s = (hw_millis hw (rd_calls s @ [Millis]), rd_call Millis s)"
  by (simp add: rd_millis_def Let_def)

lemma rd_wait_eq: "rd_wait hw ms s = (hw_busy_low hw (rd_calls s @ [WaitBusy ms]), rd_call (WaitBusy ms) s)"
  by (simp add: rd_wait_def Let_def)

lemma cmd_eq: "sx1262_cmd hw c params s = rd_call (Spi (c # params) (1 + length params)) s"
  by (simp add: sx1262_cmd_def rd_spi_def Let_def)

lemma cmd_wait_eq: "cmd_wait hw c params ms s = rd_call (WaitBusy ms) (rd_call (Spi (c # params) (1 + length params)) s)"
  by (simp add: cmd_wait_def cmd_eq rd_wait_eq)

definition irq_read :: radio_call where
  "irq_read = Spi [0x12, 0, 0, 0] 4"

definition irq_of :: "radio_hw \<Rightarrow> radio_call list \<Rightarrow> u8 list" where
  "irq_of hw calls = drop 2 (take 4 (hw_spi hw calls @ replicate 4 0))"

lemma read_irq_eq: "sx1262_read_cmd hw 0x12 2 s = (irq_of hw (rd_calls s @ [irq_read]), rd_call irq_read s)"
  by (simp add: sx1262_read_cmd_def rd_spi_def Let_def irq_of_def irq_read_def eval_nat_numeral)

lemma length_irq_of [simp]: "length (irq_of hw calls) = 2"
  by (simp add: irq_of_def)

definition start_rx_calls :: "radio_call list" where
  "start_rx_calls = [Rxen True, Spi [0x82, 0xFF, 0xFF, 0xFF] 4, WaitBusy 20, Millis]"

lemma start_rx_simps [simp]:
  "rd_calls (radio_start_rx hw s) = rd_calls s @ start_rx_calls" "rd_in_rx (radio_start_rx hw s)"
  "rd_metrics (radio_start_rx hw s) = rd_metrics s" "rd_spurious_streak (radio_start_rx hw s) = rd_spurious_streak s"
  "rd_tx_fail_streak (radio_start_rx hw s) = rd_tx_fail_streak s" "rd_reset_happened (radio_start_rx hw s) = rd_reset_happened s"
  "rd_last_reset_ms (radio_start_rx hw s) = rd_last_reset_ms s" "rd_dio1_pending (radio_start_rx hw s) = rd_dio1_pending s"
  by (simp_all add: radio_start_rx_def cmd_wait_eq rd_millis_eq start_rx_calls_def)

lemma fold_cmd_wait_metrics: "rd_metrics (fold (\<lambda>(c, params, ms). cmd_wait hw c params ms) xs s) = rd_metrics s"
  by (induction xs arbitrary: s) (auto simp: cmd_wait_eq)

lemma reset_chip_metrics: "rd_metrics (radio_reset_chip hw cfg s) = rd_metrics s"
  by (simp add: radio_reset_chip_def radio_apply_config_def set_register_bits_def rd_spi_def Let_def cmd_wait_eq rd_wait_eq
      fold_cmd_wait_metrics)

lemma hard_reset_metrics: "rd_metrics (radio_hard_reset hw cfg s) = bump radio_hard_resets (rd_metrics s)"
  by (simp add: radio_hard_reset_def reset_chip_metrics)

section \<open>A transmission\<close>

definition tx_commands :: "radio_cfg \<Rightarrow> rf_tx_request_t \<Rightarrow> radio_call list" where
  "tx_commands cfg req =
     (let n = unat (tx_len req); ticks = tx_toa_us req * 16 div 125 in
      [Spi [0x80, 0x00] 2, WaitBusy 5, Spi [0x02, 0xFF, 0xFF] 3, WaitBusy 5,
       Spi [0x8C, 0x00, rc_preamble_len cfg, 0x00, tx_len req, 0x01, 0x00] 7, WaitBusy 5,
       Spi ([0x0E, 0x00] @ take n (tx_data req)) (2 + n), WaitBusy 5, Rxen False,
       Spi [0x83, ucast (drop_bit 16 ticks), ucast (drop_bit 8 ticks), ucast ticks] 4])"

lemma tx_load_simps [simp]:
  "rd_calls (tx_load hw cfg req s) = rd_calls s @ tx_commands cfg req" "\<not> rd_in_rx (tx_load hw cfg req s)"
  "rd_metrics (tx_load hw cfg req s) = rd_metrics s" "rd_spurious_streak (tx_load hw cfg req s) = rd_spurious_streak s"
  "rd_tx_fail_streak (tx_load hw cfg req s) = rd_tx_fail_streak s" "rd_reset_happened (tx_load hw cfg req s) = rd_reset_happened s"
  "rd_last_reset_ms (tx_load hw cfg req s) = rd_last_reset_ms s" "rd_dio1_pending (tx_load hw cfg req s) = rd_dio1_pending s"
  by (simp_all add: tx_load_def Let_def cmd_wait_eq cmd_eq rd_wait_eq rd_spi_def tx_commands_def)

definition poll_calls :: "radio_call list" where
  "poll_calls = [Millis, FeedWatchdog, irq_read]"

lemma tx_poll_step:
  "tx_poll (Suc k) hw cfg d s =
     (let irq = irq_of hw (rd_calls s @ poll_calls); s2 = rd_call irq_read (rd_call FeedWatchdog (rd_call Millis s)) in
      if \<not> hw_millis hw (rd_calls s @ [Millis]) < d then Some (False, tx_failed hw cfg tx_deadline_total (rd_call Millis s))
      else if be16 irq AND 0x0001 \<noteq> 0
      then Some (True, radio_start_rx hw ((rd_call (Spi (0x02 # irq) 3) s2)\<lparr>rd_tx_fail_streak := 0\<rparr>))
      else if be16 irq AND 0x0200 \<noteq> 0 then Some (False, tx_failed hw cfg tx_timeout_total s2)
      else tx_poll k hw cfg d s2)"
  by (simp add: rd_millis_eq read_irq_eq cmd_eq Let_def poll_calls_def numeral_3_eq_3)

lemmas [simp del] = tx_poll.simps(2)

lemma poll_done:
  "tx_poll k hw cfg d s = Some (True, s') \<Longrightarrow>
   \<exists>n a b. rd_calls s' = rd_calls s @ concat (replicate (Suc n) poll_calls) @ Spi [0x02, a, b] 3 # start_rx_calls \<and>
     be16 [a, b] AND 0x0001 \<noteq> 0 \<and> [a, b] = irq_of hw (rd_calls s @ concat (replicate (Suc n) poll_calls)) \<and>
     rd_in_rx s' \<and> rd_tx_fail_streak s' = 0 \<and> rd_metrics s' = rd_metrics s \<and> rd_spurious_streak s' = rd_spurious_streak s \<and>
     rd_reset_happened s' = rd_reset_happened s \<and> rd_last_reset_ms s' = rd_last_reset_ms s"
proof (induction k arbitrary: s)
  case (Suc k)
  define s2 where "s2 = rd_call irq_read (rd_call FeedWatchdog (rd_call Millis s))"
  have c2: "rd_calls s2 = rd_calls s @ poll_calls" by (simp add: s2_def poll_calls_def)
  show ?case
  proof (cases "be16 (irq_of hw (rd_calls s @ poll_calls)) AND 0x0001 \<noteq> 0")
    case True
    obtain a b where ab: "irq_of hw (rd_calls s @ poll_calls) = [a, b]"
      using length_irq_of [of hw "rd_calls s @ poll_calls"] by (auto simp: numeral_2_eq_2 length_Suc_conv simp del: length_irq_of)
    from Suc.prems True have "s' = radio_start_rx hw ((rd_call (Spi (0x02 # [a, b]) 3) s2)\<lparr>rd_tx_fail_streak := 0\<rparr>)"
      by (simp add: tx_poll_step Let_def ab s2_def split: if_splits)
    with True ab show ?thesis
      by (intro exI [of _ 0] exI [of _ a] exI [of _ b]) (simp add: c2, simp add: s2_def)
  next
    case False
    with Suc.prems have "tx_poll k hw cfg d s2 = Some (True, s')"
      by (simp add: tx_poll_step Let_def s2_def split: if_splits)
    from Suc.IH [OF this] obtain n a b where
      "rd_calls s' = rd_calls s2 @ concat (replicate (Suc n) poll_calls) @ Spi [0x02, a, b] 3 # start_rx_calls"
      "be16 [a, b] AND 0x0001 \<noteq> 0" "[a, b] = irq_of hw (rd_calls s2 @ concat (replicate (Suc n) poll_calls))"
      "rd_in_rx s'" "rd_tx_fail_streak s' = 0" "rd_metrics s' = rd_metrics s2" "rd_spurious_streak s' = rd_spurious_streak s2"
      "rd_reset_happened s' = rd_reset_happened s2" "rd_last_reset_ms s' = rd_last_reset_ms s2" by blast
    then show ?thesis
      by (intro exI [of _ "Suc n"] exI [of _ a] exI [of _ b]) (simp add: c2, simp add: s2_def)
  qed
qed simp


lemma transmit_done:
  assumes "radio_transmit fuel hw cfg req s = Some (True, s')"
  shows "\<exists>n a b. rd_calls s' = rd_calls s @ [WaitBusy 10] @ tx_commands cfg req @ [Millis] @
      concat (replicate (Suc n) poll_calls) @ [Spi [0x02, a, b] 3] @ start_rx_calls \<and> be16 [a, b] AND 0x0001 \<noteq> 0"
    and "rd_in_rx s'" "rd_tx_fail_streak s' = 0" "rd_metrics s' = rd_metrics s" "rd_spurious_streak s' = rd_spurious_streak s"
proof -
  define s2 where "s2 = rd_call Millis (tx_load hw cfg req ((rd_call (WaitBusy 10) s)\<lparr>rd_busy_streak := 0\<rparr>))"
  from assms obtain d where p: "tx_poll fuel hw cfg d s2 = Some (True, s')"
    by (auto simp: radio_transmit_def rd_wait_eq rd_millis_eq s2_def split: if_splits)
  from poll_done [OF p] obtain n a b where
    "rd_calls s' = rd_calls s2 @ concat (replicate (Suc n) poll_calls) @ Spi [0x02, a, b] 3 # start_rx_calls"
    "be16 [a, b] AND 0x0001 \<noteq> 0" "rd_in_rx s'" "rd_tx_fail_streak s' = 0" "rd_metrics s' = rd_metrics s2"
    "rd_spurious_streak s' = rd_spurious_streak s2" by blast
  then show "\<exists>n a b. rd_calls s' = rd_calls s @ [WaitBusy 10] @ tx_commands cfg req @ [Millis] @
      concat (replicate (Suc n) poll_calls) @ [Spi [0x02, a, b] 3] @ start_rx_calls \<and> be16 [a, b] AND 0x0001 \<noteq> 0"
    "rd_in_rx s'" "rd_tx_fail_streak s' = 0" "rd_metrics s' = rd_metrics s" "rd_spurious_streak s' = rd_spurious_streak s"
    by (auto simp: s2_def)
qed

text \<open>C31: A transmission reported as done is this sequence of calls and no other: the chip leaves reception before
  its buffer is touched, old flags are cleared, length and bytes of the frame are loaded in standby, the antenna is switched, the
  chip is started and polled until it reports the end, that flag is cleared, and reception starts again.\<close>

theorem transmission_in_order:
  assumes "radio_transmit fuel hw cfg req s = Some (True, s')"
  shows "\<exists>n a b. rd_calls s' = rd_calls s @ [WaitBusy 10] @ tx_commands cfg req @ [Millis] @
      concat (replicate (Suc n) poll_calls) @ [Spi [0x02, a, b] 3] @ start_rx_calls \<and> be16 [a, b] AND 0x0001 \<noteq> 0 \<and>
      rd_in_rx s' \<and> rd_tx_fail_streak s' = 0 \<and> rd_metrics s' = rd_metrics s \<and> rd_spurious_streak s' = rd_spurious_streak s"
  using transmit_done [OF assms] by blast

lemma transmit_keeps_reset:
  assumes "radio_transmit fuel hw cfg req s = Some (True, s')"
  shows "rd_reset_happened s' = rd_reset_happened s"
proof -
  define s2 where "s2 = rd_call Millis (tx_load hw cfg req ((rd_call (WaitBusy 10) s)\<lparr>rd_busy_streak := 0\<rparr>))"
  from assms obtain d where p: "tx_poll fuel hw cfg d s2 = Some (True, s')"
    by (auto simp: radio_transmit_def rd_wait_eq rd_millis_eq s2_def split: if_splits)
  from poll_done [OF p] show ?thesis by (auto simp: s2_def)
qed

text \<open>The flags a done transmission saw last are those it clears.\<close>

lemma transmit_flags:
  assumes "radio_transmit fuel hw cfg req s = Some (True, s')"
  shows "\<exists>cs a b. rd_calls s' = rd_calls s @ cs @ [irq_read, Spi [0x02, a, b] 3] @ start_rx_calls \<and>
      irq_of hw (rd_calls s @ cs @ [irq_read]) = [a, b] \<and> be16 [a, b] AND 0x0001 \<noteq> 0"
    and "rd_last_reset_ms s' = rd_last_reset_ms s"
proof -
  define s2 where "s2 = rd_call Millis (tx_load hw cfg req ((rd_call (WaitBusy 10) s)\<lparr>rd_busy_streak := 0\<rparr>))"
  from assms obtain d where p: "tx_poll fuel hw cfg d s2 = Some (True, s')"
    by (auto simp: radio_transmit_def rd_wait_eq rd_millis_eq s2_def split: if_splits)
  have c2: "rd_calls s2 = rd_calls s @ [WaitBusy 10] @ tx_commands cfg req @ [Millis]" by (simp add: s2_def)
  from poll_done [OF p] obtain n a b where
    e: "rd_calls s' = rd_calls s2 @ concat (replicate (Suc n) poll_calls) @ Spi [0x02, a, b] 3 # start_rx_calls"
    "be16 [a, b] AND 0x0001 \<noteq> 0" "[a, b] = irq_of hw (rd_calls s2 @ concat (replicate (Suc n) poll_calls))"
    "rd_last_reset_ms s' = rd_last_reset_ms s2" by blast
  have l: "concat (replicate (Suc n) poll_calls) = concat (replicate n poll_calls) @ [Millis, FeedWatchdog] @ [irq_read]"
    using replicate_append_same [of n poll_calls] by (metis append.assoc append_Cons append_Nil concat.simps concat_append poll_calls_def replicate_Suc append_Nil2)
  show "\<exists>cs a b. rd_calls s' = rd_calls s @ cs @ [irq_read, Spi [0x02, a, b] 3] @ start_rx_calls \<and>
      irq_of hw (rd_calls s @ cs @ [irq_read]) = [a, b] \<and> be16 [a, b] AND 0x0001 \<noteq> 0"
    using e(1-3) unfolding l c2
    by (intro exI [of _ "[WaitBusy 10] @ tx_commands cfg req @ [Millis] @ concat (replicate n poll_calls) @ [Millis, FeedWatchdog]"]
        exI [of _ a] exI [of _ b]) simp
  show "rd_last_reset_ms s' = rd_last_reset_ms s" using e(4) by (simp add: s2_def)
qed

section \<open>Transmissions that nobody answers\<close>

text \<open>A transmission that is done, the interrupt its end raises on DIO1, and the next service of the radio.\<close>

fun tx_turns :: "radio_hw \<Rightarrow> radio_cfg \<Rightarrow> (nat \<times> rf_tx_request_t) list \<Rightarrow> radio_t \<Rightarrow> radio_t option" where
  "tx_turns hw cfg [] s = Some s"
| "tx_turns hw cfg ((fuel, req) # ts) s =
     (case radio_transmit fuel hw cfg req s of
        Some (True, s1) \<Rightarrow> tx_turns hw cfg ts (sx1262_service_rx hw cfg (radio_isr s1))
      | _ \<Rightarrow> None)"

text \<open>Flags that the chip reported at the end of a transmission, that were cleared, exactly these, and that nothing raised
  again (no frame arrives) read as zero: what the chip documents for ClearIrqStatus.\<close>

definition cleared_flags_stay :: "radio_hw \<Rightarrow> bool" where
  "cleared_flags_stay hw \<longleftrightarrow>
     (\<forall>calls a b. irq_of hw (calls @ [irq_read]) = [a, b] \<longrightarrow> be16 [a, b] AND 0x0001 \<noteq> 0 \<longrightarrow>
        irq_of hw (calls @ [irq_read, Spi [0x02, a, b] 3] @ start_rx_calls @ [Millis, irq_read]) = [0, 0])"

text \<open>No reset so far, or the last one is five seconds past at every later reading of the clock.\<close>

definition reset_allowed :: "radio_hw \<Rightarrow> radio_t \<Rightarrow> bool" where
  "reset_allowed hw s \<longleftrightarrow> \<not> rd_reset_happened s \<or>
     (\<forall>calls. RADIO_RESET_BACKOFF_MS \<le> hw_millis hw (rd_calls s @ calls) - rd_last_reset_ms s)"

lemma reset_allowed_later:
  "reset_allowed hw s \<Longrightarrow> rd_calls s' = rd_calls s @ cs \<Longrightarrow> rd_reset_happened s' = rd_reset_happened s \<Longrightarrow>
   rd_last_reset_ms s' = rd_last_reset_ms s \<Longrightarrow> reset_allowed hw s'"
  by (auto simp: reset_allowed_def)

lemma guard_allowed:
  "reset_allowed hw s \<Longrightarrow> rd_metrics (radio_guard_reset hw cfg r s) = bump radio_hard_resets (bump (reset_reason_metric r) (rd_metrics s))"
proof -
  assume "reset_allowed hw s"
  then have "\<not> (rd_reset_happened s \<and> hw_millis hw (rd_calls s @ [Millis]) - rd_last_reset_ms s < RADIO_RESET_BACKOFF_MS)"
    unfolding reset_allowed_def not_less [symmetric] by blast
  then show ?thesis by (simp add: radio_guard_reset_def rd_millis_eq hard_reset_metrics if_not_P del: de_Morgan_conj not_less not_le)
qed

lemma service_after_transmission:
  assumes c: "cleared_flags_stay hw" and t: "radio_transmit fuel hw cfg req s = Some (True, s1)"
    and s': "s' = sx1262_service_rx hw cfg (radio_isr s1)" and al: "reset_allowed hw s"
  shows "rd_spurious_streak s + 1 < 5 \<Longrightarrow>
      rd_spurious_streak s' = rd_spurious_streak s + 1 \<and> rd_metrics s' = rd_metrics s \<and> reset_allowed hw s'"
    and "\<not> rd_spurious_streak s + 1 < 5 \<Longrightarrow>
      rd_metrics s' = bump radio_hard_resets (bump radio_reset_spurious_irq (rd_metrics s))"
proof -
  note o = transmit_done [OF t] note g = transmit_flags [OF t]
  from g(1) obtain cs a b where calls: "rd_calls s1 = rd_calls s @ cs @ [irq_read, Spi [0x02, a, b] 3] @ start_rx_calls"
    and f1: "irq_of hw ((rd_calls s @ cs) @ [irq_read]) = [a, b]" and f2: "be16 [a, b] AND 0x0001 \<noteq> 0"
    by auto
  have "irq_of hw ((rd_calls s @ cs) @ [irq_read, Spi [0x02, a, b] 3] @ start_rx_calls @ [Millis, irq_read]) = [0, 0]"
    using c f1 f2 unfolding cleared_flags_stay_def by blast
  then have z: "irq_of hw (rd_calls s1 @ [Millis, irq_read]) = [0, 0]" by (simp add: calls)
  have b0: "be16 [0, 0] AND 3 = 0" by (simp add: be16_def)
  define s3 where "s3 = rd_call (Spi (0x02 # [0, 0]) (1 + length [0 :: u8, 0])) (rd_call irq_read
    ((rd_call Millis ((radio_isr s1)\<lparr>rd_dio1_pending := False\<rparr>))\<lparr>rd_last_rx_event_ms := hw_millis hw (rd_calls s1 @ [Millis])\<rparr>))"
  define s4 where "s4 = s3\<lparr>rd_spurious_streak := rd_spurious_streak s3 + 1\<rparr>"
  have f: "rd_spurious_streak s4 = rd_spurious_streak s + 1" "rd_metrics s4 = rd_metrics s" "rd_reset_happened s4 = rd_reset_happened s"
    "rd_last_reset_ms s4 = rd_last_reset_ms s"
    using o(4,5) transmit_keeps_reset [OF t] g(2) by (simp_all add: s4_def s3_def radio_isr_def)
  have "rd_calls s4 = rd_calls s @ (cs @ [irq_read, Spi [0x02, a, b] 3] @ start_rx_calls @ [Millis, irq_read, Spi [0x02, 0, 0] 3])"
    by (simp add: s4_def s3_def radio_isr_def calls numeral_3_eq_3)
  from reset_allowed_later [OF al this f(3,4)] have al4: "reset_allowed hw s4" .
  have e: "s' = (if rd_spurious_streak s4 \<ge> 5 then radio_guard_reset hw cfg RADIO_RESET_REASON_SPURIOUS_IRQ s4 else s4)"
    using z b0 unfolding s' sx1262_service_rx_def
    by (simp add: rd_millis_eq read_irq_eq cmd_eq Let_def s4_def s3_def radio_isr_def)
  show "rd_spurious_streak s' = rd_spurious_streak s + 1 \<and> rd_metrics s' = rd_metrics s \<and> reset_allowed hw s'"
    if "rd_spurious_streak s + 1 < 5"
  proof -
    have "\<not> 5 \<le> rd_spurious_streak s4" using that by (simp add: f not_le)
    then show ?thesis using e f al4 by simp
  qed
  show "rd_metrics s' = bump radio_hard_resets (bump radio_reset_spurious_irq (rd_metrics s))"
    if "\<not> rd_spurious_streak s + 1 < 5"
  proof -
    have "5 \<le> rd_spurious_streak s4" using that by (simp add: f not_less)
    then show ?thesis using e f guard_allowed [OF al4] by (simp add: reset_reason_metric_def)
  qed
qed

text \<open>C32: The end of a transmission raises DIO1, and \<open>radio_transmit\<close> clears the chip's flags but not the mark the interrupt
  left: the next service of the radio finds no flag and counts a spurious interrupt. After five transmissions
  without a received frame between them, all successful, starting from a streak of zero, the driver
  resets the radio; provided it has not reset it yet or did so at least five seconds ago by every reading of the
  clock (a reset within five seconds is refused and counted), and that the chip reports no flag after those it
  had reported were cleared.\<close>

theorem quiet_transmissions_reset_radio:
  assumes "cleared_flags_stay hw" and "tx_turns hw cfg [t1, t2, t3, t4, t5] s = Some s'"
    and "rd_spurious_streak s = 0" "reset_allowed hw s"
  shows "rd_metrics s' = bump radio_hard_resets (bump radio_reset_spurious_irq (rd_metrics s))"
proof -
  have step: "\<exists>s1. radio_transmit (fst t) hw cfg (snd t) s = Some (True, s1) \<and>
      tx_turns hw cfg ts (sx1262_service_rx hw cfg (radio_isr s1)) = Some s'" if "tx_turns hw cfg (t # ts) s = Some s'" for t ts s
    using that by (cases t) (auto split: option.splits bool.splits prod.splits)
  have next_turn: "\<exists>s1. tx_turns hw cfg ts s1 = Some s' \<and> rd_spurious_streak s1 = rd_spurious_streak s + 1 \<and> rd_metrics s1 = rd_metrics s \<and>
      reset_allowed hw s1" if "tx_turns hw cfg (t # ts) s = Some s'" "rd_spurious_streak s + 1 < 5" "reset_allowed hw s" for t ts s
    using step [OF that(1)] service_after_transmission(1) [OF assms(1) _ refl that(3,2)] by blast
  obtain a where a: "tx_turns hw cfg [t2, t3, t4, t5] a = Some s'" "rd_spurious_streak a = 1" "rd_metrics a = rd_metrics s" "reset_allowed hw a"
    using next_turn [OF assms(2)] assms(3,4) by auto
  obtain b where b: "tx_turns hw cfg [t3, t4, t5] b = Some s'" "rd_spurious_streak b = 2" "rd_metrics b = rd_metrics s" "reset_allowed hw b"
    using next_turn [OF a(1)] a by auto
  obtain c where c: "tx_turns hw cfg [t4, t5] c = Some s'" "rd_spurious_streak c = 3" "rd_metrics c = rd_metrics s" "reset_allowed hw c"
    using next_turn [OF b(1)] b by auto
  obtain d where d: "tx_turns hw cfg [t5] d = Some s'" "rd_spurious_streak d = 4" "rd_metrics d = rd_metrics s" "reset_allowed hw d"
    using next_turn [OF c(1)] c by auto
  from step [OF d(1)] obtain s1 where "radio_transmit (fst t5) hw cfg (snd t5) d = Some (True, s1)"
    "s' = sx1262_service_rx hw cfg (radio_isr s1)" by auto
  from service_after_transmission(2) [OF assms(1) this d(4)] d show ?thesis by simp
qed


section \<open>A reset that is refused\<close>

text \<open>The last position of the antenna switch.\<close>

fun antenna_to_rx :: "bool \<Rightarrow> radio_call list \<Rightarrow> bool" where
  "antenna_to_rx b [] = b"
| "antenna_to_rx b (c # cs) = antenna_to_rx (case c of Rxen x \<Rightarrow> x | _ \<Rightarrow> b) cs"

lemma antenna_append: "antenna_to_rx b (cs @ ds) = antenna_to_rx (antenna_to_rx b cs) ds"
  by (induction b cs rule: antenna_to_rx.induct) simp_all

definition deaf :: "radio_t \<Rightarrow> bool" where
  "deaf s \<longleftrightarrow> \<not> rd_in_rx s \<and> \<not> antenna_to_rx True (rd_calls s)"

lemma deaf_call: "deaf s \<Longrightarrow> (\<forall>x. c \<noteq> Rxen x) \<Longrightarrow> deaf (rd_call c s)"
  by (cases c) (auto simp: deaf_def antenna_append)

lemma deaf_count: "deaf (rd_count k s) = deaf s"
  by (simp add: deaf_def)

lemma deaf_loaded: "deaf (tx_load hw cfg req s)"
  by (simp add: deaf_def tx_commands_def Let_def antenna_append)

lemma guard_denied:
  assumes "rd_metrics (radio_guard_reset hw cfg r s) radio_reset_backoff = rd_metrics s radio_reset_backoff + 1"
  shows "radio_guard_reset hw cfg r s = rd_count radio_reset_backoff (rd_call Millis s)"
proof (rule ccontr)
  assume n: "\<not> ?thesis"
  then have "rd_metrics (radio_guard_reset hw cfg r s) = bump radio_hard_resets (bump (reset_reason_metric r) (rd_metrics s))"
    by (auto simp: radio_guard_reset_def rd_millis_eq hard_reset_metrics split: if_splits)
  then have "rd_metrics (radio_guard_reset hw cfg r s) radio_reset_backoff = rd_metrics s radio_reset_backoff"
    by (cases r) (simp_all add: reset_reason_metric_def)
  with assms show False by simp
qed

lemma failed_denied:
  assumes "deaf s" and k: "k = tx_deadline_total \<or> k = tx_timeout_total"
    and d: "rd_metrics (tx_failed hw cfg k s) radio_reset_backoff = rd_metrics s radio_reset_backoff + 1"
  shows "deaf (tx_failed hw cfg k s)" "3 \<le> rd_tx_fail_streak s + 1"
proof -
  define s2 where "s2 = (rd_count k (rd_count radio_tx_fail s))\<lparr>rd_tx_fail_streak := rd_tx_fail_streak s + 1\<rparr>"
  have m: "rd_metrics s2 radio_reset_backoff = rd_metrics s radio_reset_backoff" using k by (auto simp: s2_def)
  have t: "tx_failed hw cfg k s = (if 3 \<le> rd_tx_fail_streak s2 then radio_guard_reset hw cfg RADIO_RESET_REASON_TX_TIMEOUT s2 else radio_start_rx hw s2)"
    by (simp add: tx_failed_def Let_def s2_def)
  have g: "3 \<le> rd_tx_fail_streak s2"
  proof (rule ccontr)
    assume "\<not> ?thesis"
    then show False using d m by (simp add: t)
  qed
  then show "3 \<le> rd_tx_fail_streak s + 1" by (simp add: s2_def)
  have "deaf s2" using assms(1) by (simp add: s2_def deaf_def)
  then have "deaf (rd_count radio_reset_backoff (rd_call Millis s2))" by (simp add: deaf_count deaf_call)
  moreover have "tx_failed hw cfg k s = rd_count radio_reset_backoff (rd_call Millis s2)"
    using guard_denied [of hw cfg RADIO_RESET_REASON_TX_TIMEOUT s2] d g m by (simp add: t)
  ultimately show "deaf (tx_failed hw cfg k s)" by simp
qed

lemma poll_failed:
  assumes "tx_poll (Suc n) hw cfg d s = Some (False, s')"
  shows "s' = tx_failed hw cfg tx_deadline_total (rd_call Millis s) \<or>
    s' = tx_failed hw cfg tx_timeout_total (rd_call irq_read (rd_call FeedWatchdog (rd_call Millis s))) \<or>
    tx_poll n hw cfg d (rd_call irq_read (rd_call FeedWatchdog (rd_call Millis s))) = Some (False, s')"
  using assms unfolding tx_poll_step Let_def by (simp split: if_split_asm)

lemma poll_denied:
  "deaf s \<Longrightarrow> tx_poll n hw cfg d s = Some (False, s') \<Longrightarrow>
   rd_metrics s' radio_reset_backoff = rd_metrics s radio_reset_backoff + 1 \<Longrightarrow> deaf s'"
proof (induction n arbitrary: s)
  case (Suc n)
  define s2 where "s2 = rd_call irq_read (rd_call FeedWatchdog (rd_call Millis s))"
  have f: "deaf (rd_call Millis s)" "deaf s2" "rd_metrics (rd_call Millis s) = rd_metrics s" "rd_metrics s2 = rd_metrics s"
    using Suc.prems(1) by (simp_all add: s2_def deaf_call irq_read_def)
  from Suc.prems(2) consider "s' = tx_failed hw cfg tx_deadline_total (rd_call Millis s)" | "s' = tx_failed hw cfg tx_timeout_total s2"
    | "tx_poll n hw cfg d s2 = Some (False, s')"
    unfolding s2_def using poll_failed by blast
  then show ?case
  proof cases
    case 1
    then show ?thesis using failed_denied(1) [OF f(1), of tx_deadline_total hw cfg] Suc.prems(3) f(3) by simp
  next
    case 2
    then show ?thesis using failed_denied(1) [OF f(2), of tx_timeout_total hw cfg] Suc.prems(3) f(4) by simp
  next
    case 3
    then show ?thesis using Suc.IH [OF f(2) 3] Suc.prems(3) f(4) by simp
  qed
qed simp

text \<open>Whether the chip is receiving, and whether a flag for a received frame may be set: it may while the chip
  receives, and afterwards until all flags are cleared outside reception.\<close>

definition rx_flag_step :: "radio_call \<Rightarrow> bool \<times> bool \<Rightarrow> bool \<times> bool" where
  "rx_flag_step c m =
     (case c of
        Spi bytes n \<Rightarrow>
          if take 1 bytes = [0x82] then (True, True)
          else if take 1 bytes = [0x80] \<or> take 1 bytes = [0x83] then (False, snd m)
          else if bytes = [0x02, 0xFF, 0xFF] then (fst m, fst m)
          else m
      | ResetPin \<Rightarrow> (False, False)
      | _ \<Rightarrow> m)"

definition rx_flag_possible :: "radio_call list \<Rightarrow> bool \<times> bool" where
  "rx_flag_possible cs = fold rx_flag_step cs (True, True)"

text \<open>A chip that reports a received frame only then.\<close>

definition rx_flag_honest :: "radio_hw \<Rightarrow> bool" where
  "rx_flag_honest hw \<longleftrightarrow>
     (\<forall>calls. \<not> snd (rx_flag_possible calls) \<longrightarrow> be16 (irq_of hw (calls @ [irq_read])) AND 0x0002 = 0)"

definition silent :: "radio_t \<Rightarrow> bool" where
  "silent s \<longleftrightarrow> deaf s \<and> rx_flag_possible (rd_calls s) = (False, False)"

lemma rx_flag_append: "rx_flag_possible (cs @ [c]) = rx_flag_step c (rx_flag_possible cs)"
  by (simp add: rx_flag_possible_def)

definition harmless :: "radio_call \<Rightarrow> bool" where
  "harmless c \<longleftrightarrow> (\<forall>x. c \<noteq> Rxen x) \<and> rx_flag_step c (False, False) = (False, False)"

lemma harmless_calls:
  "harmless Millis" "harmless FeedWatchdog" "harmless irq_read" "harmless (Spi (0x02 # bytes) n)"
  by (simp_all add: harmless_def rx_flag_step_def irq_read_def)

lemma silent_call: "silent s \<Longrightarrow> harmless c \<Longrightarrow> silent (rd_call c s)"
  using deaf_call [of s c] by (simp add: silent_def harmless_def rx_flag_append)

lemma silent_fields:
  "rd_calls s' = rd_calls s \<Longrightarrow> rd_in_rx s' = rd_in_rx s \<Longrightarrow> silent s \<Longrightarrow> silent s'"
  by (simp add: silent_def deaf_def)

text \<open>One turn of the main loop without a transmission: perhaps an interrupt, the service of the radio, the check for
  silence, and the display's question for the signal strength.\<close>

definition radio_turn :: "radio_hw \<Rightarrow> radio_cfg \<Rightarrow> bool \<Rightarrow> radio_t \<Rightarrow> radio_t" where
  "radio_turn hw cfg irq s =
     snd (radio_get_rssi_inst hw (radio_check_timeouts hw (sx1262_service_rx hw cfg (if irq then radio_isr s else s))))"

text \<open>The interrupts the services of a run will see.\<close>

definition irqs_seen :: "bool list \<Rightarrow> radio_t \<Rightarrow> nat" where
  "irqs_seen irqs s = count_if id irqs + (if rd_dio1_pending s then 1 else 0)"

lemma service_silent:
  assumes q: "silent s" and h: "rx_flag_honest hw" and f: "rd_dio1_pending s \<Longrightarrow> unat (rd_spurious_streak s) + 1 < 5"
  shows "silent (sx1262_service_rx hw cfg s) \<and> rd_metrics (sx1262_service_rx hw cfg s) = rd_metrics s \<and>
    rd_rx_ring (sx1262_service_rx hw cfg s) = rd_rx_ring s \<and> \<not> rd_dio1_pending (sx1262_service_rx hw cfg s) \<and>
    unat (rd_spurious_streak (sx1262_service_rx hw cfg s)) \<le> unat (rd_spurious_streak s) + (if rd_dio1_pending s then 1 else 0)"
proof (cases "rd_dio1_pending s")
  case True
  have n: "\<not> 5 \<le> rd_spurious_streak s + 1" "unat (rd_spurious_streak s + 1) = unat (rd_spurious_streak s) + 1"
    using f [OF True] by (simp_all add: not_le word_less_nat_alt unat_word_ariths)
  define flags where "flags = irq_of hw ((rd_calls s @ [Millis]) @ [irq_read])"
  have "silent (rd_call Millis s)" using q by (rule silent_call) (rule harmless_calls)
  then have "\<not> snd (rx_flag_possible (rd_calls s @ [Millis]))" by (simp add: silent_def)
  then have no_rx: "be16 flags AND 2 = 0"
    using h unfolding flags_def rx_flag_honest_def by blast
  define s3 where "s3 = rd_call (Spi (0x02 # flags) (1 + length flags)) (rd_call irq_read
    ((rd_call Millis (s\<lparr>rd_dio1_pending := False\<rparr>))\<lparr>rd_last_rx_event_ms := hw_millis hw (rd_calls s @ [Millis])\<rparr>))"
  have "silent (rd_call (Spi (0x02 # flags) (1 + length flags)) (rd_call irq_read (rd_call Millis s)))"
    using q by (intro silent_call harmless_calls)
  then have s3: "silent s3" by (rule silent_fields [rotated 2]) (simp_all add: s3_def)
  have f3: "rd_metrics s3 = rd_metrics s" "rd_rx_ring s3 = rd_rx_ring s" "\<not> rd_dio1_pending s3" "rd_spurious_streak s3 = rd_spurious_streak s"
    by (simp_all add: s3_def)
  have "sx1262_service_rx hw cfg s = (if be16 flags AND 3 = 0 then s3\<lparr>rd_spurious_streak := rd_spurious_streak s + 1\<rparr> else s3)"
    using True no_rx n(1) f3(4)
    by (simp add: sx1262_service_rx_def rd_millis_eq read_irq_eq cmd_eq Let_def s3_def flags_def numeral_3_eq_3)
  then show ?thesis using True s3 f3 n(2) by (auto simp: silent_def deaf_def)
next
  case False
  then show ?thesis using q by (simp add: sx1262_service_rx_def)
qed

lemma check_silent:
  "silent s \<Longrightarrow> silent (radio_check_timeouts hw s) \<and> rd_metrics (radio_check_timeouts hw s) = rd_metrics s \<and>
    rd_rx_ring (radio_check_timeouts hw s) = rd_rx_ring s \<and> rd_dio1_pending (radio_check_timeouts hw s) = rd_dio1_pending s \<and>
    rd_spurious_streak (radio_check_timeouts hw s) = rd_spurious_streak s \<and> \<not> rd_in_rx (radio_check_timeouts hw s)"
  using silent_call [of s Millis] harmless_calls(1) by (simp add: radio_check_timeouts_def rd_millis_eq) (simp add: silent_def deaf_def)

lemma turn_silent:
  assumes "silent s" "rx_flag_honest hw" and c: "unat (rd_spurious_streak s) + irqs_seen (irq # irqs) s < 5"
  shows "silent (radio_turn hw cfg irq s) \<and> rd_metrics (radio_turn hw cfg irq s) = rd_metrics s \<and>
    rd_rx_ring (radio_turn hw cfg irq s) = rd_rx_ring s \<and>
    unat (rd_spurious_streak (radio_turn hw cfg irq s)) + irqs_seen irqs (radio_turn hw cfg irq s) < 5"
proof -
  define s0 where "s0 = (if irq then radio_isr s else s)"
  have s0: "silent s0" "rd_metrics s0 = rd_metrics s" "rd_rx_ring s0 = rd_rx_ring s" "rd_spurious_streak s0 = rd_spurious_streak s"
    "rd_dio1_pending s0 \<longleftrightarrow> irq \<or> rd_dio1_pending s"
    using assms(1) by (simp_all add: s0_def radio_isr_def silent_def deaf_def)
  have "unat (rd_spurious_streak s0) + (if rd_dio1_pending s0 then 1 else 0) + count_if id irqs < 5"
    using c s0(4,5) by (auto simp: irqs_seen_def count_if_simps split: if_splits)
  with service_silent [OF s0(1) assms(2), of cfg] s0 check_silent [of "sx1262_service_rx hw cfg s0" hw]
  show ?thesis by (auto simp: radio_turn_def s0_def [symmetric] radio_get_rssi_inst_def irqs_seen_def split: if_splits)
qed

lemma turns_silent:
  "silent s \<Longrightarrow> rx_flag_honest hw \<Longrightarrow> unat (rd_spurious_streak s) + irqs_seen irqs s < 5 \<Longrightarrow>
   silent (fold (radio_turn hw cfg) irqs s) \<and> rd_metrics (fold (radio_turn hw cfg) irqs s) = rd_metrics s \<and>
   rd_rx_ring (fold (radio_turn hw cfg) irqs s) = rd_rx_ring s"
proof (induction irqs arbitrary: s)
  case (Cons irq irqs)
  from turn_silent [OF Cons.prems(1,2), of irq irqs cfg] Cons.prems(3) Cons.IH [of "radio_turn hw cfg irq s"] Cons.prems(2)
  show ?case by simp
qed simp

lemma loaded_flags: "rx_flag_possible (rd_calls (tx_load hw cfg req s)) = (False, False)"
  by (simp add: rx_flag_possible_def tx_commands_def Let_def rx_flag_step_def)

lemma failed_flags:
  assumes "deaf s" "rx_flag_possible (rd_calls s) = (False, False)" "k = tx_deadline_total \<or> k = tx_timeout_total"
    and "rd_metrics (tx_failed hw cfg k s) radio_reset_backoff = rd_metrics s radio_reset_backoff + 1"
  shows "rx_flag_possible (rd_calls (tx_failed hw cfg k s)) = (False, False)"
proof -
  define s2 where "s2 = (rd_count k (rd_count radio_tx_fail s))\<lparr>rd_tx_fail_streak := rd_tx_fail_streak s + 1\<rparr>"
  have m: "rd_metrics s2 radio_reset_backoff = rd_metrics s radio_reset_backoff" using assms(3) by (auto simp: s2_def)
  have "tx_failed hw cfg k s = radio_guard_reset hw cfg RADIO_RESET_REASON_TX_TIMEOUT s2"
    using failed_denied(2) [OF assms(1,3,4)] by (simp add: tx_failed_def Let_def s2_def)
  then have "tx_failed hw cfg k s = rd_count radio_reset_backoff (rd_call Millis s2)"
    using guard_denied [of hw cfg RADIO_RESET_REASON_TX_TIMEOUT s2] assms(4) m by simp
  then show ?thesis using assms(2) by (simp add: s2_def rx_flag_append rx_flag_step_def)
qed

lemma poll_flags:
  "deaf s \<Longrightarrow> rx_flag_possible (rd_calls s) = (False, False) \<Longrightarrow> tx_poll n hw cfg d s = Some (False, s') \<Longrightarrow>
   rd_metrics s' radio_reset_backoff = rd_metrics s radio_reset_backoff + 1 \<Longrightarrow> rx_flag_possible (rd_calls s') = (False, False)"
proof (induction n arbitrary: s)
  case (Suc n)
  define s1 where "s1 = rd_call Millis s"
  define s2 where "s2 = rd_call irq_read (rd_call FeedWatchdog s1)"
  have "silent s" using Suc.prems(1,2) by (simp add: silent_def)
  then have q: "silent s1" "silent s2" by (auto simp: s1_def s2_def intro!: silent_call harmless_calls)
  have m: "rd_metrics s1 = rd_metrics s" "rd_metrics s2 = rd_metrics s" by (simp_all add: s1_def s2_def)
  from Suc.prems(3) consider "s' = tx_failed hw cfg tx_deadline_total s1" | "s' = tx_failed hw cfg tx_timeout_total s2"
    | "tx_poll n hw cfg d s2 = Some (False, s')"
    unfolding s1_def s2_def using poll_failed by blast
  then show ?case
  proof cases
    case 1
    then show ?thesis using failed_flags [of s1 tx_deadline_total hw cfg] q(1) Suc.prems(4) m by (simp add: silent_def)
  next
    case 2
    then show ?thesis using failed_flags [of s2 tx_timeout_total hw cfg] q(2) Suc.prems(4) m by (simp add: silent_def)
  next
    case 3
    then show ?thesis using Suc.IH [of s2] q(2) Suc.prems(4) m by (simp add: silent_def)
  qed
qed simp

text \<open>C33: When a transmission that got as far as starting (the chip was not busy, the frame is not empty) fails as the third
  in a row and the reset it asks for is refused because the last one is less than five seconds ago, no turn
  of the main loop without a transmission switches the radio back: it stays in standby with the antenna on
  the transmitter, nothing reaches the receive ring, and the check for silence does not notice. This holds for any
  number of turns, each with the service of the radio, the check for silence and the question for the signal
  strength, and with interrupts in any of them, as long as these interrupts and one still pending leave
  the streak of spurious ones below five (the fifth asks for a reset again), and for a chip that
  reports a received frame only if it was in reception since its flags were cleared. The node hears nothing until it
  next transmits.\<close>

theorem denied_reset_leaves_radio_deaf:
  assumes t: "radio_transmit fuel hw cfg req s = Some (False, s')" and req: "tx_len req \<noteq> 0"
    and low: "hw_busy_low hw (rd_calls s @ [WaitBusy 10])"
    and denied: "rd_metrics s' radio_reset_backoff = rd_metrics s radio_reset_backoff + 1"
    and chip: "rx_flag_honest hw" and few: "unat (rd_spurious_streak s') + irqs_seen irqs s' < 5"
  shows "\<not> rd_in_rx (fold (radio_turn hw cfg) irqs s') \<and> \<not> antenna_to_rx True (rd_calls (fold (radio_turn hw cfg) irqs s')) \<and>
    rd_rx_ring (fold (radio_turn hw cfg) irqs s') = rd_rx_ring s' \<and> rd_metrics (fold (radio_turn hw cfg) irqs s') = rd_metrics s'"
proof -
  define s2 where "s2 = rd_call Millis (tx_load hw cfg req ((rd_call (WaitBusy 10) s)\<lparr>rd_busy_streak := 0\<rparr>))"
  from t req low obtain d where p: "tx_poll fuel hw cfg d s2 = Some (False, s')"
    by (auto simp: radio_transmit_def rd_wait_eq rd_millis_eq s2_def)
  have d2: "deaf s2" by (simp add: s2_def deaf_call deaf_loaded)
  have "rx_flag_possible (rd_calls s2) = (False, False)"
    unfolding s2_def rd_call_simps by (simp only: rx_flag_append loaded_flags) (simp add: rx_flag_step_def)
  then have "silent s'"
    using poll_denied [OF d2 p] poll_flags [OF d2 _ p] denied by (simp add: silent_def s2_def)
  from turns_silent [OF this chip few, of cfg] show ?thesis by (simp add: silent_def deaf_def)
qed

section \<open>The end of a transmission\<close>

text \<open>With a clock whose every reading after the \<open>n\<close>th is past the deadline, as many turns as readings are left are enough.\<close>

definition readings :: "radio_call list \<Rightarrow> nat" where
  "readings calls = count_if (\<lambda>c. c = Millis) calls"

lemma poll_returns:
  assumes late: "\<And>calls. n < readings calls \<Longrightarrow> d \<le> hw_millis hw calls"
  shows "n < readings (rd_calls s) + fuel \<Longrightarrow> 0 < fuel \<Longrightarrow> tx_poll fuel hw cfg d s \<noteq> None"
proof (induction fuel arbitrary: s)
  case (Suc fuel)
  have r: "readings (rd_calls s @ [Millis]) = Suc (readings (rd_calls s))" by (simp add: readings_def count_if_append count_if_simps)
  have r2: "readings (rd_calls s @ [Millis, FeedWatchdog, irq_read]) = Suc (readings (rd_calls s))"
    by (simp add: readings_def count_if_append count_if_simps irq_read_def)
  show ?case
  proof (cases "hw_millis hw (rd_calls s @ [Millis]) < d")
    case True
    then have "\<not> n < Suc (readings (rd_calls s))" using late [of "rd_calls s @ [Millis]"] by (auto simp: r not_le)
    then have f: "0 < fuel" "n < Suc (readings (rd_calls s)) + fuel" using Suc.prems by auto
    have "tx_poll fuel hw cfg d (rd_call irq_read (rd_call FeedWatchdog (rd_call Millis s))) \<noteq> None"
      by (rule Suc.IH) (use f r2 in simp_all)
    then show ?thesis by (auto simp: tx_poll_step Let_def)
  qed (simp add: tx_poll_step Let_def)
qed simp

text \<open>The deadline wraps: when it is smaller than the clock, the transmission is given up without one look at the chip.\<close>

lemma wrapped_deadline_aborts:
  "d \<le> hw_millis hw (rd_calls s @ [Millis]) \<Longrightarrow> tx_poll (Suc k) hw cfg d s = Some (False, tx_failed hw cfg tx_deadline_total (rd_call Millis s))"
  by (simp add: tx_poll_step Let_def not_less)


section \<open>A radio at work\<close>

fun tx_running :: "bool \<Rightarrow> radio_call list \<Rightarrow> bool" where
  "tx_running b [] = b"
| "tx_running b (c # cs) =
     tx_running (case c of Spi (x # xs) n \<Rightarrow> if x = 0x83 then True else if x = 0x02 then False else b | _ \<Rightarrow> b) cs"

lemma tx_running_append: "tx_running b (cs @ ds) = tx_running (tx_running b cs) ds"
  by (induction b cs rule: tx_running.induct) simp_all

text \<open>A chip that is done as soon as it is asked, and one whose transmissions time out.\<close>

definition demo_radio_hw :: radio_hw where
  "demo_radio_hw = \<lparr>hw_spi = (\<lambda>calls. if tx_running False calls then [0, 0, 0, 1] else []), hw_busy_low = (\<lambda>_. True), hw_millis = (\<lambda>_. 0)\<rparr>"

definition mute_radio_hw :: radio_hw where
  "mute_radio_hw = \<lparr>hw_spi = (\<lambda>_. [0, 0, 2, 0]), hw_busy_low = (\<lambda>_. True), hw_millis = (\<lambda>_. 0)\<rparr>"

definition demo_radio_cfg :: radio_cfg where
  "demo_radio_cfg = \<lparr>rc_freq_hz = 869480000, rc_sf = 8, rc_bw_khz = 125, rc_coding_rate = 8, rc_power_dbm = 22, rc_preamble_len = 16\<rparr>"

definition demo_radio :: "u8 \<Rightarrow> bool \<Rightarrow> radio_t" where
  "demo_radio streak resets =
     \<lparr>rd_in_rx = True, rd_dio1_pending = False, rd_tx_fail_streak = streak, rd_spurious_streak = 0, rd_reset_happened = resets, rd_last_reset_ms = 0,
      rd_last_rx_event_ms = 0, rd_busy_streak = 0, rd_rx_ring = rb_init (replicate 8 rx_frame_zero) RF_RX_RINGBUF_CAP,
      rd_tx_queue = rb_init [] RF_TX_QUEUE_CAP, rd_metrics = metrics_zero, rd_calls = []\<rparr>"

definition demo_radio_req :: rf_tx_request_t where
  "demo_radio_req = tx_request [1, 2, 3, 4] 4 1000"

lemma demo_req_parts: "tx_len demo_radio_req = 4" "tx_toa_us demo_radio_req = 1000"
  by (simp_all add: demo_radio_req_def tx_request_def)

lemma demo_flags_stay: "cleared_flags_stay demo_radio_hw"
proof -
  have "irq_of hw cs = [0, 0]" if "hw_spi hw cs = []" for hw cs using that by (simp add: irq_of_def numeral_2_eq_2)
  then show ?thesis
    by (simp add: cleared_flags_stay_def demo_radio_hw_def tx_running_append start_rx_calls_def irq_read_def)
qed

lemma demo_transmits: "\<exists>s'. radio_transmit 1 demo_radio_hw cfg demo_radio_req s = Some (True, s')"
proof -
  have r: "tx_running False (cs @ tx_commands cfg demo_radio_req @ [Millis, Millis, FeedWatchdog, irq_read])" for cs
    by (simp add: tx_running_append tx_commands_def Let_def irq_read_def)
  have i: "irq_of demo_radio_hw (cs @ tx_commands cfg demo_radio_req @ [Millis, Millis, FeedWatchdog, irq_read]) = [0, 1]" for cs
    using r [of cs] by (simp add: irq_of_def demo_radio_hw_def)
  have h: "hw_millis demo_radio_hw = (\<lambda>_. 0)" "hw_busy_low demo_radio_hw = (\<lambda>_. True)" by (simp_all add: demo_radio_hw_def)
  have b: "be16 [0, 1] AND 1 \<noteq> 0" by (simp add: be16_def)
  show ?thesis
    using i [of "rd_calls s @ [WaitBusy 10]"] b
    by (simp add: radio_transmit_def rd_wait_eq rd_millis_eq demo_req_parts h tx_poll_step Let_def poll_calls_def del: tx_poll.simps)
qed

lemma demo_turns: "\<exists>s'. tx_turns demo_radio_hw cfg (replicate n (1, demo_radio_req)) s = Some s'"
proof (induction n arbitrary: s)
  case (Suc n)
  obtain s1 where "radio_transmit 1 demo_radio_hw cfg demo_radio_req s = Some (True, s1)" using demo_transmits by blast
  then show ?case using Suc by simp
qed simp

theorem transmission_in_order_witness:
  "\<exists>s'. radio_transmit 1 demo_radio_hw demo_radio_cfg demo_radio_req (demo_radio 1 False) = Some (True, s') \<and> rd_in_rx s' \<and> rd_tx_fail_streak s' = 0"
proof -
  obtain s' where t: "radio_transmit 1 demo_radio_hw demo_radio_cfg demo_radio_req (demo_radio 1 False) = Some (True, s')"
    using demo_transmits by blast
  show ?thesis using transmission_in_order [OF t] t by blast
qed

theorem quiet_transmissions_reset_radio_witness:
  "\<exists>s'. tx_turns demo_radio_hw demo_radio_cfg (replicate 5 (1, demo_radio_req)) (demo_radio 0 False) = Some s' \<and> rd_metrics s' radio_hard_resets = 1"
proof -
  obtain s' where t: "tx_turns demo_radio_hw demo_radio_cfg (replicate 5 (1, demo_radio_req)) (demo_radio 0 False) = Some s'"
    using demo_turns by blast
  have "replicate 5 x = [x, x, x, x, x]" for x :: "nat \<times> rf_tx_request_t" by (simp add: eval_nat_numeral)
  from quiet_transmissions_reset_radio [OF demo_flags_stay t [unfolded this]]
  have "rd_metrics s' = bump radio_hard_resets (bump radio_reset_spurious_irq metrics_zero)"
    by (simp add: demo_radio_def reset_allowed_def)
  with t show ?thesis by (simp add: metrics_zero_def)
qed

theorem denied_reset_leaves_radio_deaf_witness:
  "\<exists>s'. radio_transmit 1 mute_radio_hw demo_radio_cfg demo_radio_req (demo_radio 2 True) = Some (False, s') \<and>
     \<not> rd_in_rx (fold (radio_turn mute_radio_hw demo_radio_cfg) ([True, False, True] @ replicate 1000 False) s')"
proof -
  have h: "hw_millis mute_radio_hw = (\<lambda>_. 0)" "hw_busy_low mute_radio_hw = (\<lambda>_. True)" "irq_of mute_radio_hw cs = [2, 0]" for cs
    by (simp_all add: mute_radio_hw_def irq_of_def)
  have b: "be16 [2, 0] AND 1 = 0" "be16 [2, 0] AND 0x200 \<noteq> 0" by (simp_all add: be16_def)
  define s2 where "s2 = tx_load mute_radio_hw demo_radio_cfg demo_radio_req ((rd_call (WaitBusy 10) (demo_radio 2 True))\<lparr>rd_busy_streak := 0\<rparr>)"
  have f: "rd_tx_fail_streak s2 = 2" "rd_reset_happened s2" "rd_last_reset_ms s2 = 0" "rd_metrics s2 = metrics_zero"
    by (simp_all add: s2_def) (simp_all add: demo_radio_def)
  obtain s' where t: "radio_transmit 1 mute_radio_hw demo_radio_cfg demo_radio_req (demo_radio 2 True) = Some (False, s')"
    and s': "s' = tx_failed mute_radio_hw demo_radio_cfg tx_timeout_total (rd_call irq_read (rd_call FeedWatchdog (rd_call Millis (rd_call Millis s2))))"
    using b by (simp add: radio_transmit_def rd_wait_eq rd_millis_eq demo_req_parts h tx_poll_step Let_def s2_def del: tx_poll.simps)
  have m: "rd_metrics s' radio_reset_backoff = rd_metrics (demo_radio 2 True) radio_reset_backoff + 1"
    by (simp add: s' tx_failed_def Let_def f radio_guard_reset_def rd_millis_eq h) (simp add: demo_radio_def)
  have l: "tx_len demo_radio_req \<noteq> 0" "hw_busy_low mute_radio_hw (rd_calls (demo_radio 2 True) @ [WaitBusy 10])"
    by (simp_all add: demo_req_parts h)
  have "be16 [2, 0] AND 2 = 0" by (simp add: be16_def)
  then have c: "rx_flag_honest mute_radio_hw" by (simp add: rx_flag_honest_def h)
  have "rd_spurious_streak s2 = 0" "\<not> rd_dio1_pending s2" by (simp_all add: s2_def) (simp_all add: demo_radio_def)
  then have "rd_spurious_streak s' = 0" "\<not> rd_dio1_pending s'"
    by (simp_all add: s' tx_failed_def Let_def f radio_guard_reset_def rd_millis_eq h)
  then have n: "unat (rd_spurious_streak s') + irqs_seen ([True, False, True] @ replicate 1000 False) s' < 5"
    by (simp add: irqs_seen_def count_if_def)
  show ?thesis using denied_reset_leaves_radio_deaf [OF t l m c n] t by blast
qed

end
