(* ===== verification/Spec2Isabelle.thy ===== *)
theory Spec2Isabelle
  imports Rivr_Control Rivr_RoutingNbr Rivr_RetryTable Rivr_PendingQueue Rivr_SendQueue Rivr_OpFwd Rivr_Bus
    Rivr_Airtime Rivr_DutyCycle Rivr_Policy Rivr_Fabric Rivr_Beacon Rivr_FwdSet Rivr_TxDrain Rivr_Svc Rivr_Params Rivr_BleFrag Rivr_Sensors Rivr_Ota Rivr_Channel Rivr_Rml Rivr_Ed25519 Rivr_Delivery Rivr_Companion Rivr_Radio
begin

text \<open>
  Verification development for Rivr, firmware for nodes of a LoRa mesh radio network.

  \<^bold>\<open>The program.\<close> A node receives frames from the radio, from a phone over BLE and from a computer over
  USB; drops duplicates; hands the payload to local services; relays what has hops left, as far as its budgets of
  airtime and fairness allow; learns neighbours and routes; originates chat, telemetry and beacons; and keeps
  unicast frames until they are acknowledged. One loop (\<open>main_loop\<close> of main.c) does all of it in turn: it
  drains the radio, ticks the Rivr engine with the sources (rivr_sources.c) and sinks (rivr_sinks.c) around it, moves
  the outbox, and drains the transmit queue. Only the BLE stack and the interrupt of the radio run beside
  the loop. The engine is a separate program in Rust; here it is a parameter.

  \<^bold>\<open>How code becomes definitions.\<close> Structs are records, enums are datatypes, machine integers are words
  of their width and wrap as in C; signed fields are the word read with \<open>sint\<close>. Arrays are lists, fixed in
  length by the invariant of their component. A function that changes a global takes it and returns it
  updated, with its C name where HOL allows it. What the outside answers (flash, pins, the chip, the BLE stack, the clock)
  is an argument, so that a theorem holds whatever it answers. Output is a list of events or calls, in order.
  A loop of C is a recursion over the slots it visits or a structural recursion on what it consumes.

  \<^bold>\<open>The base.\<close>
  \<^item> Rivr_Prelude: word types, byte order, lemmas on slot arrays and words. Rivr_Metrics: the counters of
    rivr_metrics.h. Rivr_Config: roles and sizes (feature_flags.h).
  \<^item> Rivr_Interfaces: four locales: a ring that remembers the last entries (\<open>ring_memory\<close>), a table of slots with a validity
    flag (\<open>slot_table\<close>), a queue that may refuse (\<open>tx_sink\<close>), a token bucket (\<open>token_bucket\<close>). Each is interpreted in the
    components that provide it: the duplicate caches, the forward suppression and the mailbox; the retry table and the pending
    queue; the transmit ring; the airtime and policy buckets.
  \<^item> Rivr_Protocol: the wire format (protocol.c): round trip, rejection of corrupted bytes, the CRC table.

  \<^bold>\<open>Routing\<close> (routing.c, route_cache.c, neighbor_table.c and their neighbours).
  \<^item> Rivr_Dedupe, Rivr_OpFwd: the memory of frames seen and of frames others relayed.
  \<^item> Rivr_Flood: the relay decision, its hop and TTL arithmetic and its budget per minute. Rivr_Policy: classes and
    rates per source (policy.c). Rivr_Fabric: the congestion score (rivr_fabric.c). Rivr_FwdSet: the choice among relays.
  \<^item> Rivr_NeighborTable, Rivr_RoutingNbr: the two neighbour tables. Rivr_RouteCache: routes, refined to a map
    from destinations. Rivr_Control: route requests, replies and ACKs.
  \<^item> Rivr_RetryTable, Rivr_PendingQueue, Rivr_SendQueue: frames that wait for an ACK, for a route, for the transmit queue.
  \<^item> Rivr_Airtime, Rivr_DutyCycle, Rivr_Beacon: the budgets of transmission and the beacon (beacon_sched.c).

  \<^bold>\<open>Transports.\<close>
  \<^item> Rivr_Ringbuf: the lock-free ring, as operations and as interleaved steps. Rivr_TxQueue, Rivr_TxDrain: requests and
    the transmit drain of main.c. Rivr_Radio: the SX1262 driver.
  \<^item> Rivr_Bus, Rivr_Slip: the packet bus and the USB framing (rivr_bus/, iface/).
  \<^item> Rivr_BleFrag, Rivr_BleLink, Rivr_Companion: fragments, link and service, and the protocol of the phone app (ble/).

  \<^bold>\<open>Services and security.\<close>
  \<^item> Rivr_Svc: chat, telemetry, mailbox and alert. Rivr_Channel: channels and their blob in flash. Rivr_Rml: the RML
    message layer (rml/). Rivr_Sensors: sensors and telemetry bundles. Rivr_Identity: callsign, network and position in
    flash. Rivr_Cli: the serial command line.
  \<^item> Rivr_Sha256, Rivr_Params: HMAC and signed parameter updates (crypto/, rivr_policy.c). Rivr_Sha512, Rivr_Scalar,
    Rivr_Field25519, Rivr_Ed25519: signature verification (ed25519_verify.c). Rivr_Ota: signed program updates.

  \<^bold>\<open>The node.\<close> Rivr_Node has the state of a node, Rivr_Sinks and Rivr_Sources the engine's two sides, Rivr_System boot,
  reload and the main loop, Rivr_Delivery what follows for one node and for two.

  \<^bold>\<open>What the lemmas show.\<close> Each table has an invariant (\<open>.._ok\<close>) that its initial value has and every
  operation keeps; these, and the consistency of the airtime, duty-cycle and fabric budgets, are lifted to \<open>node_ok\<close> and to
  every state that boot and the main loop reach. On top
  of them: round trips for each encoding; exact results for the decisions (score, drain, signature, relay); bounds
  over runs of operations for the budgets; refinement of the optimised code to a reference that uses none of its functions
  (hashes to FIPS 180-4, curve arithmetic to integers modulo the prime, the route cache to a map with its own comparison of
  routes, the command queue to a list); safety of interleavings; and, where the
  code does not do what it means to, a theorem that exhibits it.

  \<^bold>\<open>Fuel and bounds.\<close> The receive drain handles at most four frames a tick and the transmit drain
  two, as in the code; the tick of the USB bridge reads at most 256 of the bytes that wait. The poll of a transmission ends when the clock passes a deadline, which no structure of the program enforces:
  \<open>tx_poll\<close> takes the number of turns, and \<open>poll_returns\<close> shows that they are enough when they go beyond the
  reading from which on the clock is past the deadline. The loop of the companion tick takes one environment for each turn; the queue holds at most three
  packets, so three are enough.

  \<^bold>\<open>Not modelled.\<close>
  \<^item> The drivers of the other radios and of the other boards (radio_sx1276.c and the RP2040, Linux and nRF52
    variants of the SX1262 driver) repeat the modelled one over other registers and buses.
  \<^item> Platform and timebase (platform_*.c, timebase.c, rivr_panic.c): pins, interrupts and the crash record.
  \<^item> The display (display/), the printers of diagnostics (build_info.c, rivr_metrics.c, routing_stats.h, the reports of the command
    line) and the log: they format counters and decide nothing.
  \<^item> rivr_ble_nrf52.cpp: the BLE service once more, in C++ on another library.
  \<^item> The front ends for Linux and WebAssembly, the decoder tool, the simulators and the tests.
  \<^item> The rest of main.c: start-up of peripherals, the simulation mode and periodic statistics.
  \<^item> The Rivr engine (Rust), the Bluetooth stack, FreeRTOS and flash itself: parameters of the model.
\<close>

end
